(* ===== verification/Prelude.thy ===== *)
theory Prelude
  imports Main "HOL-Library.Word" "HOL-Library.List_Lexorder" "HOL-Library.Char_ord"
    "HOL-Library.Product_Lexorder" "HOL-Library.Sublist" "HOL-Library.Multiset"
begin

section \<open>Shared vocabulary of the agent model\<close>

text \<open>
  Types and small combinators that every component of the Relayward Agent model uses.

  \<^item> \<^verbatim>\<open>u64\<close> and \<^verbatim>\<open>u32\<close> are Go's \<^verbatim>\<open>uint64\<close> and \<^verbatim>\<open>uint32\<close> with their wrap-around;
    Go's \<^verbatim>\<open>int\<close> counters that the code only compares with small limits are \<open>int\<close>.
  \<^item> Go strings and byte slices are both \<^verbatim>\<open>string\<close>: a HOL \<open>char\<close> is one byte, and the
    order on strings is \<^verbatim>\<open>bytes.Compare\<close>, the byte-wise lexicographic order.
  \<^item> \<^verbatim>\<open>time.Time\<close> is the number of nanoseconds since Go's zero time, so \<^verbatim>\<open>IsZero\<close> is
    \<open>t = 0\<close>; \<^verbatim>\<open>UTC()\<close> changes the location of a time and not its instant, hence not the model.
  \<^item> a Go function that returns \<^verbatim>\<open>(T, error)\<close> returns \<open>error + T\<close>, and
    \<^verbatim>\<open>if err != nil { return err }\<close> is \<open>and_then\<close>.
\<close>

type_synonym u64 = "64 word"
type_synonym u32 = "32 word"
type_synonym time = int

named_theorems result_iff \<open>success of a composed computation, read backwards\<close>
named_theorems invariant_intro \<open>every operation keeps its component's invariant\<close>

abbreviation second :: int where "second \<equiv> 1000000000"

definition time_is_zero :: "time \<Rightarrow> bool" where
  "time_is_zero t \<longleftrightarrow> t = 0"

text \<open>The Unix epoch, in nanoseconds since Go's zero time.\<close>

definition unix_epoch :: time where "unix_epoch = 62135596800 * second"

text \<open>The constants of Go's package \<^verbatim>\<open>math\<close> that the code compares with.\<close>

definition max_int64 :: u64 where
  "max_int64 = 9223372036854775807"

definition max_uint64 :: u64 where
  "max_uint64 = 18446744073709551615"

lemma unat_max_int64 [simp]: "unat max_int64 = 2 ^ 63 - 1"
  by (simp add: max_int64_def)

lemma unat_max_uint64 [simp]: "unat max_uint64 = 2 ^ 64 - 1"
  by (simp add: max_uint64_def)

lemma max_uint64_eq: "max_uint64 = - 1"
  by (simp add: max_uint64_def)

subsection \<open>Fallible computations\<close>

fun and_then :: "'e + 'a \<Rightarrow> ('a \<Rightarrow> 'e + 'b) \<Rightarrow> 'e + 'b" where
  "and_then (Inl e) f = Inl e"
| "and_then (Inr x) f = f x"

definition guard_err :: "bool \<Rightarrow> 'e \<Rightarrow> 'e + unit" where
  "guard_err ok e = (if ok then Inr () else Inl e)"

lemma and_then_Inr_iff [result_iff]:
  "and_then m f = Inr y \<longleftrightarrow> (\<exists>x. m = Inr x \<and> f x = Inr y)"
  by (cases m) auto

lemma and_then_Inl_iff:
  "and_then m f = Inl e \<longleftrightarrow> m = Inl e \<or> (\<exists>x. m = Inr x \<and> f x = Inl e)"
  by (cases m) auto

lemma guard_err_Inr_iff [result_iff]: "guard_err ok e = Inr u \<longleftrightarrow> ok"
  by (simp add: guard_err_def)

lemma guard_err_simps [simp]: "guard_err True e = Inr ()" "guard_err False e = Inl e"
  by (simp_all add: guard_err_def)

lemma and_then_cong [fundef_cong]:
  "m = m' \<Longrightarrow> (\<And>x. m' = Inr x \<Longrightarrow> f x = g x) \<Longrightarrow> and_then m f = and_then m' g"
  by (cases m') auto

text \<open>
  A Go \<^verbatim>\<open>for ... range\<close> loop whose body may return an error: the state is threaded through
  and the first error leaves the loop.
\<close>

fun fold_res :: "('a \<Rightarrow> 's \<Rightarrow> 'e + 's) \<Rightarrow> 'a list \<Rightarrow> 's \<Rightarrow> 'e + 's" where
  "fold_res f [] s = Inr s"
| "fold_res f (x # xs) s = and_then (f x s) (fold_res f xs)"

lemma fold_res_invariant:
  assumes "fold_res f xs s = Inr s'" and "P s"
    and "\<And>x s s'. x \<in> set xs \<Longrightarrow> P s \<Longrightarrow> f x s = Inr s' \<Longrightarrow> P s'"
  shows "P s'"
  using assms
proof (induction xs arbitrary: s)
  case Nil
  then show ?case by simp
next
  case (Cons x xs)
  from Cons.prems(1) obtain t where t: "f x s = Inr t" "fold_res f xs t = Inr s'"
    by (auto simp: and_then_Inr_iff)
  have "P t" by (rule Cons.prems(3) [OF _ Cons.prems(2) t(1)]) simp
  show ?case
  proof (rule Cons.IH [OF t(2) \<open>P t\<close>])
    fix y u u' assume "y \<in> set xs" "P u" "f y u = Inr u'"
    then show "P u'" by (intro Cons.prems(3) [of y u u']) simp_all
  qed
qed

lemma fold_res_append:
  "fold_res f (xs @ ys) s = and_then (fold_res f xs s) (fold_res f ys)"
proof (induction xs arbitrary: s)
  case (Cons x xs)
  then show ?case by (cases "f x s") auto
qed simp

fun map_res :: "('a \<Rightarrow> 'e + 'b) \<Rightarrow> 'a list \<Rightarrow> 'e + 'b list" where
  "map_res f [] = Inr []"
| "map_res f (x # xs) = and_then (f x) (\<lambda>y. and_then (map_res f xs) (\<lambda>ys. Inr (y # ys)))"

lemma map_res_Inr_iff [result_iff]:
  "map_res f xs = Inr ys \<longleftrightarrow> list_all2 (\<lambda>x y. f x = Inr y) xs ys"
  by (induction xs arbitrary: ys) (auto simp: and_then_Inr_iff list_all2_Cons1)

lemma map_res_total: "(\<And>x. x \<in> set xs \<Longrightarrow> f x = Inr (g x)) \<Longrightarrow> map_res f xs = Inr (map g xs)"
  by (induction xs) auto

lemma dropWhile_le_filter:
  fixes f :: "'a \<Rightarrow> 'b::linorder"
  shows "sorted (map f xs) \<Longrightarrow> dropWhile (\<lambda>x. f x \<le> s) xs = filter (\<lambda>x. s < f x) xs"
proof (induction xs)
  case (Cons x xs)
  show ?case
  proof (cases "f x \<le> s")
    case True
    with Cons show ?thesis by simp
  next
    case False
    with Cons.prems have "\<forall>y \<in> set xs. s < f y" by fastforce
    with False show ?thesis by (simp add: not_le)
  qed
qed simp

lemma dropWhile_upto: "a \<le> s \<Longrightarrow> s < n \<Longrightarrow> dropWhile (\<lambda>i. i \<le> s) [Suc a..<n] = [Suc s..<n]"
proof -
  assume "a \<le> s" "s < n"
  then have "[Suc a..<n] = [Suc a..<Suc s] @ [Suc s..<n]"
    by (metis Suc_leI Suc_le_mono le_SucI le_add_diff_inverse upt_add_eq_append)
  moreover have "dropWhile (\<lambda>i. i \<le> s) ([Suc a..<Suc s] @ [Suc s..<n]) = dropWhile (\<lambda>i. i \<le> s) [Suc s..<n]"
    by (rule dropWhile_append2) auto
  moreover have "dropWhile (\<lambda>i. i \<le> s) [Suc s..<n] = [Suc s..<n]"
    by (cases "Suc s < n") (simp_all add: dropWhile_eq_self_iff)
  ultimately show ?thesis by simp
qed

text \<open>Iteration over a Go map visits every key once, in an order the language does not fix: a
  function that permutes the keys.\<close>

definition any_order :: "('a list \<Rightarrow> 'a list) \<Rightarrow> bool" where
  "any_order iter \<longleftrightarrow> (\<forall>xs. mset (iter xs) = mset xs)"

lemma any_order_id [simp]: "any_order (\<lambda>xs. xs)" "any_order rev"
  by (simp_all add: any_order_def)

lemma any_order_set: "any_order iter \<Longrightarrow> set (iter xs) = set xs"
  by (metis any_order_def set_mset_mset)

lemma any_order_distinct: "any_order iter \<Longrightarrow> distinct (iter xs) \<longleftrightarrow> distinct xs"
  by (metis any_order_def mset_eq_imp_distinct_iff)

subsection \<open>Words read as numbers\<close>

lemma unat_add_fits: "unat (a :: 'a::len word) + unat b < 2 ^ LENGTH('a) \<Longrightarrow> unat (a + b) = unat a + unat b"
  by (simp add: unat_word_ariths)

lemma unat_diff_fits: "(b :: 'a::len word) \<le> a \<Longrightarrow> unat (a - b) = unat a - unat b"
  by (simp add: unat_sub)

lemma u64_lt: "unat (x :: u64) < 2 ^ 64"
  using unsigned_less [of x] by simp

lemma unat_of_nat_u64: "n < 2 ^ 64 \<Longrightarrow> unat (of_nat n :: u64) = n"
  by (simp add: unat_of_nat)

subsection \<open>Components\<close>

text \<open>
  What every stateful component of the agent promises: each of its steps keeps its invariant and only makes progress. Then every run of it does. The
  components provide this interface by interpretations.
\<close>

locale stepping =
  fixes step :: "'w \<Rightarrow> 'w \<Rightarrow> bool" and inv :: "'w \<Rightarrow> bool" and progress :: "'w \<Rightarrow> 'w \<Rightarrow> bool"
  assumes step_keeps: "step w w' \<Longrightarrow> inv w \<Longrightarrow> inv w' \<and> progress w w'"
    and progress_refl: "progress w w"
    and progress_trans: "progress u v \<Longrightarrow> progress v w \<Longrightarrow> progress u w"
begin

lemma run_keeps: "step\<^sup>*\<^sup>* w w' \<Longrightarrow> inv w \<Longrightarrow> inv w' \<and> progress w w'"
proof (induction rule: rtranclp_induct)
  case base
  then show ?case using progress_refl by blast
next
  case (step u v)
  then show ?case using step_keeps progress_trans by blast
qed

lemma run_inv: "step\<^sup>*\<^sup>* w w' \<Longrightarrow> inv w \<Longrightarrow> inv w'"
  using run_keeps by blast

end

end
