(* ===== verification/Bolt.thy ===== *)
theory Bolt
  imports Prelude
begin

section \<open>Buckets, JSON cells and transactions\<close>

text \<open>
  What the stores of the agent use of the embedded database \<^verbatim>\<open>bbolt\<close>: a bucket is a list of
  key/value pairs in ascending byte order of the keys, a transaction sees a consistent bucket and
  either commits as a whole or leaves no trace. The helper functions around it that the policy
  store declares itself (\<^verbatim>\<open>getJSON\<close>, \<^verbatim>\<open>putJSON\<close>, \<^verbatim>\<open>clearBucket\<close>, \<^verbatim>\<open>deleteMatching\<close>,
  \<^verbatim>\<open>readUint64\<close>, \<^verbatim>\<open>putUint64\<close>) are translated from \<^verbatim>\<open>internal/policy/store.go\<close>.

  The database library itself is not part of the repository. Its behaviour enters only through
  the shape of this theory (ordered buckets, all-or-nothing transactions) and through the
  \<open>fault\<close> argument of \<open>db_update\<close>: \<open>Some e\<close> stands for a storage call of the transaction or its
  commit returning an error, in which case the whole transaction is rolled back and \<open>e\<close> returned.
\<close>

type_synonym 'v bucket = "(string \<times> 'v) list"

definition bucket_get :: "'v bucket \<Rightarrow> string \<Rightarrow> 'v option" where
  "bucket_get b k = map_of b k"

fun bucket_put :: "string \<Rightarrow> 'v \<Rightarrow> 'v bucket \<Rightarrow> 'v bucket" where
  "bucket_put k v [] = [(k, v)]"
| "bucket_put k v ((k', v') # b) =
     (if k = k' then (k, v) # b
      else if k < k' then (k, v) # (k', v') # b
      else (k', v') # bucket_put k v b)"

definition bucket_delete :: "string \<Rightarrow> 'v bucket \<Rightarrow> 'v bucket" where
  "bucket_delete k b = filter (\<lambda>e. fst e \<noteq> k) b"

definition bucket_ok :: "'v bucket \<Rightarrow> bool" where
  "bucket_ok b \<longleftrightarrow> sorted_wrt (<) (map fst b)"

subsection \<open>Lookup after every update\<close>

lemma get_put [simp]: "bucket_get (bucket_put k v b) k' = (if k' = k then Some v else bucket_get b k')"
proof (induction b)
  case Nil
  show ?case by (simp add: bucket_get_def)
next
  case (Cons e b)
  then show ?case by (cases e) (auto simp: bucket_get_def)
qed

lemma get_delete [simp]: "bucket_get (bucket_delete k b) k' = (if k' = k then None else bucket_get b k')"
  by (induction b) (auto simp: bucket_get_def bucket_delete_def)

lemma get_Nil [simp]: "bucket_get [] k = None"
  by (simp add: bucket_get_def)

lemma keys_put: "fst ` set (bucket_put k v b) = insert k (fst ` set b)"
  by (induction k v b rule: bucket_put.induct) auto

lemma put_sorted [invariant_intro]: "bucket_ok b \<Longrightarrow> bucket_ok (bucket_put k v b)"
proof (induction b)
  case Nil
  then show ?case by (simp add: bucket_ok_def)
next
  case (Cons e b)
  obtain k' v' where e: "e = (k', v')" by force
  have keys: "set (map fst (bucket_put k v b)) = insert k (set (map fst b))"
    using keys_put [of k v b] by simp
  from Cons.prems e have lt: "\<forall>x \<in> set (map fst b). k' < x" and ok: "bucket_ok b"
    by (simp_all add: bucket_ok_def)
  show ?case
  proof (cases "k = k' \<or> k < k'")
    case True
    with Cons.prems e lt show ?thesis by (auto simp: bucket_ok_def)
  next
    case False
    then have "k' < k" by (auto simp: neq_iff)
    with Cons.IH [OF ok] keys lt False e show ?thesis
      by (auto simp: bucket_ok_def)
  qed
qed

lemma delete_sorted [invariant_intro]: "bucket_ok b \<Longrightarrow> bucket_ok (bucket_delete k b)"
  by (induction b) (auto simp: bucket_ok_def bucket_delete_def)

lemma filter_sorted [invariant_intro]: "bucket_ok b \<Longrightarrow> bucket_ok (filter P b)"
  by (induction b) (auto simp: bucket_ok_def)

lemma bucket_ok_Nil [simp]: "bucket_ok []"
  by (simp add: bucket_ok_def)

lemma bucket_ok_distinct: "bucket_ok b \<Longrightarrow> distinct (map fst b)"
  by (simp add: bucket_ok_def strict_sorted_iff)

lemma get_eq_Some_iff: "bucket_ok b \<Longrightarrow> bucket_get b k = Some v \<longleftrightarrow> (k, v) \<in> set b"
  by (simp add: bucket_get_def bucket_ok_distinct map_of_eq_Some_iff)

lemma get_SomeD: "bucket_get b k = Some v \<Longrightarrow> (k, v) \<in> set b"
  by (simp add: bucket_get_def map_of_SomeD)

lemma get_filter:
  "bucket_ok b \<Longrightarrow>
   bucket_get (filter P b) k =
     (case bucket_get b k of None \<Rightarrow> None | Some v \<Rightarrow> if P (k, v) then Some v else None)"
  using get_eq_Some_iff [of b k] get_eq_Some_iff [OF filter_sorted, of b P k]
  by (cases "bucket_get (filter P b) k"; cases "bucket_get b k") (auto, metis option.distinct(1))

lemma bucket_ext:
  assumes "bucket_ok a" and "bucket_ok b" and "\<And>k. bucket_get a k = bucket_get b k"
  shows "a = b"
proof -
  have "set a = set b"
    using assms get_eq_Some_iff by (metis subrelI subset_antisym)
  moreover have "inj_on fst (set a)"
    using bucket_ok_distinct [OF assms(1)] by (simp add: distinct_map)
  ultimately show ?thesis
    using map_sorted_distinct_set_unique [of fst a b] assms(1,2)
    by (simp add: bucket_ok_def strict_sorted_iff)
qed

lemma keys_of_put: "set (map fst (bucket_put k v b)) = insert k (set (map fst b))"
  using keys_put [of k v b] by simp

text \<open>A key above every key of the bucket is stored at its end.\<close>

lemma put_at_end: "(\<forall>x \<in> set b. fst x < k) \<Longrightarrow> bucket_put k v b = b @ [(k, v)]"
  by (induction b) (auto simp: not_less_iff_gr_or_eq)

text \<open>From here on buckets are used through \<open>bucket_get\<close> and the laws above.\<close>

declare bucket_put.simps [simp del]

subsection \<open>Prefix scans\<close>

text \<open>
  \<^verbatim>\<open>for key, raw := cursor.Seek(prefix); key != nil && bytes.HasPrefix(key, prefix); ...\<close>:
  the cursor starts at the first key that is not below the prefix and stops at the first one
  that does not have it.
\<close>

definition seek_prefix :: "string \<Rightarrow> 'v bucket \<Rightarrow> 'v bucket" where
  "seek_prefix p b = takeWhile (\<lambda>e. prefix p (fst e)) (dropWhile (\<lambda>e. fst e < p) b)"

lemma prefix_le: "prefix p k \<Longrightarrow> p \<le> (k :: string)"
proof (induction p arbitrary: k)
  case (Cons c p)
  then obtain k' where "k = c # k'" "prefix p k'" by (cases k) auto
  with Cons.IH show ?case by simp
qed simp

lemma prefix_interval: "p \<le> k \<Longrightarrow> k \<le> k' \<Longrightarrow> prefix p k' \<Longrightarrow> prefix p (k :: string)"
proof (induction p arbitrary: k k')
  case (Cons c p)
  from Cons.prems(3) obtain k2 where k2: "k' = c # k2" "prefix p k2" by (cases k') auto
  from Cons.prems(1) obtain d k1 where k1: "k = d # k1" by (cases k) auto
  from Cons.prems(1,2) k1 k2 have "d = c" by auto
  with Cons.prems(1,2) k1 k2 have "p \<le> k1" "k1 \<le> k2" by auto
  with Cons.IH k2 k1 \<open>d = c\<close> show ?case by auto
qed simp

lemma takeWhile_prefix_sorted:
  "sorted_wrt (<) (map fst (b :: 'v bucket)) \<Longrightarrow> \<forall>e \<in> set b. p \<le> fst e \<Longrightarrow>
   takeWhile (\<lambda>e. prefix p (fst e)) b = filter (\<lambda>e. prefix p (fst e)) b"
proof (induction b)
  case (Cons e b)
  show ?case
  proof (cases "prefix p (fst e)")
    case True
    with Cons show ?thesis by simp
  next
    case False
    have "\<not> prefix p (fst x)" if "x \<in> set b" for x
      using that Cons.prems False prefix_interval [of p "fst e" "fst x"] by fastforce
    with False show ?thesis by (simp add: filter_empty_conv)
  qed
qed simp

lemma dropWhile_sorted:
  "sorted_wrt (<) (map fst (b :: 'v bucket)) \<Longrightarrow> dropWhile (\<lambda>e. fst e < p) b = filter (\<lambda>e. p \<le> fst e) b"
proof (induction b)
  case (Cons e b)
  show ?case
  proof (cases "fst e < p")
    case True
    then have "\<not> p \<le> fst e" by (simp add: leD)
    with True Cons show ?thesis by simp
  next
    case False
    then have le: "p \<le> fst e" by (simp add: leI)
    with Cons.prems have "\<forall>x \<in> set b. p \<le> fst x" by (auto intro: order.trans less_imp_le)
    with False le show ?thesis by simp
  qed
qed simp

lemma seek_prefix_eq_filter:
  assumes "bucket_ok b"
  shows "seek_prefix p b = filter (\<lambda>e. prefix p (fst e)) b"
proof -
  let ?d = "filter (\<lambda>e. p \<le> fst e) b"
  have ok: "sorted_wrt (<) (map fst ?d)"
    using filter_sorted [OF assms] by (simp add: bucket_ok_def)
  have "seek_prefix p b = filter (\<lambda>e. prefix p (fst e)) ?d"
    using assms takeWhile_prefix_sorted [OF ok, of p]
    by (simp add: seek_prefix_def dropWhile_sorted bucket_ok_def)
  also have "\<dots> = filter (\<lambda>e. prefix p (fst e)) b"
    by (auto simp: prefix_le intro!: filter_cong)
  finally show ?thesis .
qed

subsection \<open>Cells: what a stored JSON document decodes to\<close>

text \<open>
  A bucket value is the document that was stored, or a document that no longer decodes into the
  expected Go type. \<open>get_json err b k\<close> is \<^verbatim>\<open>getJSON\<close>: absent, decoded, or an error.
\<close>

datatype 'v json = Json 'v | Corrupt

definition decode :: "'e \<Rightarrow> 'v json \<Rightarrow> 'e + 'v" where
  "decode err c = (case c of Json v \<Rightarrow> Inr v | Corrupt \<Rightarrow> Inl err)"

definition get_json :: "'e \<Rightarrow> 'v json bucket \<Rightarrow> string \<Rightarrow> 'e + 'v option" where
  "get_json err b k =
     (case bucket_get b k of None \<Rightarrow> Inr None | Some c \<Rightarrow> and_then (decode err c) (\<lambda>v. Inr (Some v)))"

definition put_json :: "string \<Rightarrow> 'v \<Rightarrow> 'v json bucket \<Rightarrow> 'v json bucket" where
  "put_json k v b = bucket_put k (Json v) b"

lemma decode_simps [simp]: "decode err (Json v) = Inr v" "decode err Corrupt = Inl err"
  by (simp_all add: decode_def)

lemma decode_Inr_iff [result_iff]: "decode err c = Inr v \<longleftrightarrow> c = Json v"
  by (cases c) auto

lemma get_json_put_json [simp]:
  "get_json err (put_json k v b) k' = (if k' = k then Inr (Some v) else get_json err b k')"
  by (simp add: get_json_def put_json_def)

lemma get_json_delete [simp]:
  "get_json err (bucket_delete k b) k' = (if k' = k then Inr None else get_json err b k')"
  by (simp add: get_json_def)

lemma get_json_Some_iff [result_iff]:
  "get_json err b k = Inr (Some v) \<longleftrightarrow> bucket_get b k = Some (Json v)"
  by (auto simp: get_json_def result_iff split: option.splits)

lemma get_json_None_iff [result_iff]: "get_json err b k = Inr None \<longleftrightarrow> bucket_get b k = None"
  by (auto simp: get_json_def result_iff split: option.splits)

lemma get_json_Inl_iff: "get_json err b k = Inl e \<longleftrightarrow> bucket_get b k = Some Corrupt \<and> e = err"
  by (auto simp: get_json_def decode_def split: option.splits json.splits)

lemma put_json_sorted [invariant_intro]: "bucket_ok b \<Longrightarrow> bucket_ok (put_json k v b)"
  by (simp add: put_json_def put_sorted)

text \<open>Every cell of a bucket decodes and satisfies a predicate of its key and value.\<close>

definition cells_ok :: "(string \<Rightarrow> 'v \<Rightarrow> bool) \<Rightarrow> 'v json bucket \<Rightarrow> bool" where
  "cells_ok P b \<longleftrightarrow> bucket_ok b \<and> (\<forall>e \<in> set b. \<exists>v. snd e = Json v \<and> P (fst e) v)"

lemma put_existing:
  "bucket_ok b \<Longrightarrow> k \<in> fst ` set b \<Longrightarrow> bucket_put k v b = map (\<lambda>e. if fst e = k then (k, v) else e) b"
proof (induction b)
  case (Cons e b)
  obtain k' v' where e: "e = (k', v')" by force
  from Cons.prems(1) e have lt: "\<forall>x \<in> set b. k' < fst x" and ok: "bucket_ok b"
    by (auto simp: bucket_ok_def)
  show ?case
  proof (cases "k = k'")
    case True
    have "map (\<lambda>e. if fst e = k then (k, v) else e) b = b"
      using lt True by (auto intro!: map_idI)
    with True e show ?thesis by (simp add: bucket_put.simps)
  next
    case False
    with Cons.prems(2) e have mem: "k \<in> fst ` set b" by auto
    with lt have "k' < k" by auto
    then have "\<not> k < k'" by simp
    with False Cons.IH [OF ok mem] e show ?thesis by (simp add: bucket_put.simps)
  qed
qed simp

lemma put_same: "bucket_ok b \<Longrightarrow> bucket_get b k = Some v \<Longrightarrow> bucket_put k v b = b"
proof -
  assume ok: "bucket_ok b" and v: "bucket_get b k = Some v"
  have "(if fst e = k then (k, v) else e) = e" if "e \<in> set b" for e
    using that v get_eq_Some_iff [OF ok, of k "snd e"] by (cases e) auto
  moreover have "k \<in> fst ` set b" using get_SomeD [OF v] by force
  ultimately show ?thesis using put_existing [OF ok, of k v] by (simp add: map_idI)
qed

lemma cells_ok_Nil [simp]: "cells_ok P []"
  by (simp add: cells_ok_def)

lemma set_bucket_put: "set (bucket_put k v b) \<subseteq> insert (k, v) (set b)"
  by (induction k v b rule: bucket_put.induct) (auto simp: bucket_put.simps)

lemma cells_ok_put_json [invariant_intro]: "cells_ok P b \<Longrightarrow> P k v \<Longrightarrow> cells_ok P (put_json k v b)"
  using set_bucket_put [of k "Json v" b]
  by (auto simp: cells_ok_def put_json_def put_sorted)

lemma cells_ok_filter [invariant_intro]: "cells_ok P b \<Longrightarrow> cells_ok P (filter Q b)"
  by (auto simp: cells_ok_def filter_sorted)

lemma cells_ok_delete [invariant_intro]: "cells_ok P b \<Longrightarrow> cells_ok P (bucket_delete k b)"
  by (simp add: bucket_delete_def cells_ok_filter)

lemma cells_ok_mono: "cells_ok P b \<Longrightarrow> (\<And>k v. (k, Json v) \<in> set b \<Longrightarrow> P k v \<Longrightarrow> Q k v) \<Longrightarrow> cells_ok Q b"
  unfolding cells_ok_def by (metis prod.collapse)

lemma cells_ok_get: "cells_ok P b \<Longrightarrow> bucket_get b k = Some c \<Longrightarrow> \<exists>v. c = Json v \<and> P k v"
  unfolding cells_ok_def by (metis fst_conv get_SomeD snd_conv)

lemma cells_ok_get_json: "cells_ok P b \<Longrightarrow> get_json err b k = Inr (Some v) \<Longrightarrow> P k v"
  by (auto simp: get_json_Some_iff dest: cells_ok_get)

lemma cells_ok_total: "cells_ok P b \<Longrightarrow> \<exists>r. get_json err b k = Inr r"
  by (cases "bucket_get b k") (auto simp: get_json_def dest: cells_ok_get)

lemma cells_ok_sorted: "cells_ok P b \<Longrightarrow> bucket_ok b"
  by (simp add: cells_ok_def)

text \<open>The bucket as a finite map, and the map as its decoded list of values.\<close>

definition cell_values :: "'v json bucket \<Rightarrow> (string \<times> 'v) list" where
  "cell_values b = map (\<lambda>e. (fst e, case snd e of Json v \<Rightarrow> v)) b"

lemma get_json_cell_values:
  "cells_ok P b \<Longrightarrow> get_json err b k = Inr (Some v) \<longleftrightarrow> (k, v) \<in> set (cell_values b)"
  by (force simp: get_json_Some_iff cell_values_def cells_ok_def get_eq_Some_iff)

text \<open>\<^verbatim>\<open>clearBucket\<close> and \<^verbatim>\<open>deleteMatching\<close>: the predicate decides each entry below the prefix.\<close>

definition clear_bucket :: "'v bucket \<Rightarrow> 'v bucket" where
  "clear_bucket b = fold (\<lambda>e b. bucket_delete (fst e) b) b b"

definition delete_matching ::
    "'v bucket \<Rightarrow> string \<Rightarrow> ('v \<Rightarrow> 'e + bool) \<Rightarrow> 'e + 'v bucket" where
  "delete_matching b p predicate =
     fold_res (\<lambda>e b. and_then (predicate (snd e)) (\<lambda>remove.
       Inr (if remove then bucket_delete (fst e) b else b))) (seek_prefix p b) b"

lemma fold_delete: "fold (\<lambda>e b. bucket_delete (fst e) b) es b = filter (\<lambda>e. fst e \<notin> fst ` set es) b"
proof (induction es arbitrary: b)
  case (Cons e es)
  then show ?case by (auto simp: bucket_delete_def intro!: filter_cong)
qed simp

lemma delete_matching_fold:
  assumes "\<forall>e \<in> set es. predicate (snd e) = Inr (q e)"
  shows "fold_res (\<lambda>e b. and_then (predicate (snd e)) (\<lambda>remove.
           Inr (if remove then bucket_delete (fst e) b else b))) es b =
         Inr (filter (\<lambda>e. fst e \<notin> fst ` set (filter q es)) b)"
  using assms
proof (induction es arbitrary: b)
  case (Cons e es)
  then show ?case by (auto simp: bucket_delete_def intro!: filter_cong)
qed simp

text \<open>On an ordered bucket the deletion removes exactly the entries that the predicate decides to.\<close>

lemma delete_matching_filter:
  assumes ok: "bucket_ok b" and q: "\<forall>e \<in> set b. prefix p (fst e) \<longrightarrow> predicate (snd e) = Inr (q e)"
  shows "delete_matching b p predicate = Inr (filter (\<lambda>e. \<not> (prefix p (fst e) \<and> q e)) b)"
proof -
  have "delete_matching b p predicate = Inr (filter (\<lambda>e. fst e \<notin> fst ` set (filter q (filter (\<lambda>e. prefix p (fst e)) b))) b)"
    unfolding delete_matching_def seek_prefix_eq_filter [OF ok]
    by (rule delete_matching_fold) (use q in simp)
  also have "filter (\<lambda>e. fst e \<notin> fst ` set (filter q (filter (\<lambda>e. prefix p (fst e)) b))) b
      = filter (\<lambda>e. \<not> (prefix p (fst e) \<and> q e)) b"
  proof (rule filter_cong [OF refl])
    fix e assume e: "e \<in> set b"
    have "e' = e" if "e' \<in> set b" "fst e' = fst e" for e'
      using bucket_ok_distinct [OF ok] e that by (metis eq_key_imp_eq_value prod.collapse)
    then have "fst e \<in> fst ` set (filter q (filter (\<lambda>e. prefix p (fst e)) b)) \<longleftrightarrow> prefix p (fst e) \<and> q e"
      using e by (auto intro!: imageI)
    then show "(fst e \<notin> fst ` set (filter q (filter (\<lambda>e. prefix p (fst e)) b))) = (\<not> (prefix p (fst e) \<and> q e))"
      by simp
  qed
  finally show ?thesis .
qed

lemma clear_bucket_Nil: "clear_bucket b = []"
  by (auto simp: clear_bucket_def fold_delete filter_empty_conv)

subsection \<open>Numbers in the metadata bucket\<close>

text \<open>
  Counters are stored as eight big-endian bytes (\<^verbatim>\<open>binary.BigEndian\<close>); a missing value, or one of
  another length, reads as 0.
\<close>

definition uint64_bytes :: "u64 \<Rightarrow> string" where
  "uint64_bytes w = map (\<lambda>i. char_of (unat w div 256 ^ i)) [7, 6, 5, 4, 3, 2, 1, 0]"

definition bytes_value :: "string \<Rightarrow> nat" where
  "bytes_value bs = foldl (\<lambda>acc c. acc * 256 + of_char c) 0 bs"

definition read_uint64 :: "string option \<Rightarrow> u64" where
  "read_uint64 raw =
     (case raw of None \<Rightarrow> 0
      | Some bs \<Rightarrow> if length bs \<noteq> 8 then 0 else of_nat (bytes_value bs))"

definition put_uint64 :: "string \<Rightarrow> u64 \<Rightarrow> string bucket \<Rightarrow> string bucket" where
  "put_uint64 k w b = bucket_put k (uint64_bytes w) b"

definition get_string :: "string bucket \<Rightarrow> string \<Rightarrow> string" where
  "get_string b k = (case bucket_get b k of None \<Rightarrow> '''' | Some s \<Rightarrow> s)"

lemma length_uint64_bytes [simp]: "length (uint64_bytes w) = 8"
  by (simp add: uint64_bytes_def)

lemma bytes_value_snoc: "bytes_value (xs @ [c]) = bytes_value xs * 256 + of_char c"
  by (simp add: bytes_value_def)

lemma bytes_value_Cons: "bytes_value (c # xs) = of_char c * 256 ^ length xs + bytes_value xs"
proof (induction xs rule: rev_induct)
  case Nil
  show ?case by (simp add: bytes_value_def)
next
  case (snoc d xs)
  have "bytes_value (c # xs @ [d]) = bytes_value (c # xs) * 256 + of_char d"
    using bytes_value_snoc [of "c # xs" d] by simp
  with snoc show ?case by (simp add: bytes_value_snoc algebra_simps)
qed

lemma bytes_value_bound: "bytes_value xs < 256 ^ length xs"
proof (induction xs)
  case (Cons c xs)
  have "of_char c < (256 :: nat)" using range_nat_of_char by (metis atLeastLessThan_iff rangeI)
  then have "of_char c \<le> (255 :: nat)" by linarith
  then have "of_char c * 256 ^ length xs \<le> 255 * (256 :: nat) ^ length xs" by (rule mult_le_mono1)
  with Cons have "bytes_value (c # xs) < 255 * 256 ^ length xs + 256 ^ length xs"
    unfolding bytes_value_Cons by linarith
  then show ?case by simp
qed (simp add: bytes_value_def)

lemma bytes_value_digits: "bytes_value (map (\<lambda>i. char_of (n div 256 ^ i)) (rev [0..<k])) = n mod 256 ^ k"
proof (induction k)
  case 0
  show ?case by (simp add: bytes_value_def)
next
  case (Suc k)
  then show ?case
    by (simp add: bytes_value_Cons mod_mult2_eq mult.commute [of _ "256 ^ k"] mult.commute [of 256])
qed

lemma bytes_value_uint64: "bytes_value (uint64_bytes w) = unat w"
proof -
  have eight: "[7, 6, 5, 4, 3, 2, 1, 0] = rev [0..<8]"
    by (simp add: upt_rec)
  have "uint64_bytes w = map (\<lambda>i. char_of (unat w div 256 ^ i)) (rev [0..<8])"
    unfolding uint64_bytes_def eight ..
  moreover have "unat w < 256 ^ 8" using u64_lt [of w] by simp
  ultimately show ?thesis
    using bytes_value_digits [of "unat w" 8] by simp
qed

lemma read_uint64_bytes [simp]: "read_uint64 (Some (uint64_bytes w)) = w"
  by (simp add: read_uint64_def bytes_value_uint64)

lemma read_uint64_None [simp]: "read_uint64 None = 0"
  by (simp add: read_uint64_def)

lemma get_put_uint64 [simp]:
  "bucket_get (put_uint64 k w b) k' = (if k' = k then Some (uint64_bytes w) else bucket_get b k')"
  by (simp add: put_uint64_def)

lemma get_string_Nil [simp]: "get_string [] k = ''''"
  by (simp add: get_string_def)

lemma get_string_put [simp]:
  "get_string (bucket_put k s b) k' = (if k' = k then s else get_string b k')"
  by (simp add: get_string_def)

lemma get_string_put_uint64 [simp]: "k' \<noteq> k \<Longrightarrow> get_string (put_uint64 k w b) k' = get_string b k'"
  by (simp add: get_string_def)

text \<open>Keys written this way sort like the numbers: byte order is numeric order.\<close>

lemma bytes_value_mono:
  "length xs = length ys \<Longrightarrow> bytes_value xs < bytes_value ys \<longleftrightarrow> xs < ys"
proof (induction xs ys rule: list_induct2)
  case (Cons c xs d ys)
  let ?n = "256 ^ length ys :: nat"
  have b: "bytes_value xs < ?n" "bytes_value ys < ?n"
    using bytes_value_bound [of xs] bytes_value_bound [of ys] Cons.hyps by simp_all
  have less: "u * ?n + a < v * ?n + b'" if "u < v" "a < ?n" for u v a b' :: nat
  proof -
    have "Suc u * ?n \<le> v * ?n" using that(1) by (intro mult_le_mono1) simp
    with that(2) show ?thesis by simp
  qed
  consider "c < d" | "c = d" | "d < c" by force
  then show ?case
  proof cases
    case 1
    then have "of_char c < (of_char d :: nat)" by (simp add: less_char_def)
    with less [OF this b(1)] 1 Cons.hyps show ?thesis by (simp add: bytes_value_Cons)
  next
    case 2
    with Cons show ?thesis by (simp add: bytes_value_Cons)
  next
    case 3
    then have "of_char d < (of_char c :: nat)" by (simp add: less_char_def)
    with less [OF this b(2), of "bytes_value xs"] 3 Cons.hyps show ?thesis
      by (auto simp: bytes_value_Cons)
  qed
qed simp

lemma uint64_bytes_less_iff: "uint64_bytes a < uint64_bytes b \<longleftrightarrow> a < b"
  using bytes_value_mono [of "uint64_bytes a" "uint64_bytes b"]
  by (simp add: bytes_value_uint64 word_less_nat_alt)

lemma uint64_bytes_eq_iff [simp]: "uint64_bytes a = uint64_bytes b \<longleftrightarrow> a = b"
  by (metis bytes_value_uint64 unsigned_word_eqI)

subsection \<open>Transactions\<close>

text \<open>
  \<^verbatim>\<open>db.Update(fn)\<close> runs the function on the current state. An error of the function, or a fault of
  the storage, rolls everything back; otherwise the new state is committed.
\<close>

definition db_update :: "'e option \<Rightarrow> ('db \<Rightarrow> 'e + 'a \<times> 'db) \<Rightarrow> 'db \<Rightarrow> ('e + 'a) \<times> 'db" where
  "db_update fault body db =
     (case body db of
        Inl e \<Rightarrow> (Inl e, db)
      | Inr (x, db') \<Rightarrow> (case fault of Some e \<Rightarrow> (Inl e, db) | None \<Rightarrow> (Inr x, db')))"

text \<open>
  A run makes many storage calls. Its faults are a schedule: the head decides the next call, and
  after its end no call fails.
\<close>

definition pop_fault :: "'e option list \<Rightarrow> 'e option \<times> 'e option list" where
  "pop_fault faults = (case faults of [] \<Rightarrow> (None, []) | f # fs \<Rightarrow> (f, fs))"

lemma db_update_Inr_iff [result_iff]:
  "db_update fault body db = (Inr x, db') \<longleftrightarrow> fault = None \<and> body db = Inr (x, db')"
  by (auto simp: db_update_def split: sum.splits option.splits)

lemma db_update_rollback: "db_update fault body db = (Inl e, db') \<Longrightarrow> db' = db"
  by (auto simp: db_update_def split: sum.splits option.splits)

lemma db_update_preserves [invariant_intro]:
  assumes "db_update fault body db = (r, db')" and "P db"
    and "\<And>x db'. body db = Inr (x, db') \<Longrightarrow> P db'"
  shows "P db'"
  using assms by (cases r) (auto simp: db_update_Inr_iff dest: db_update_rollback)

end
