(* ===== verification/Filepath.thy ===== *)
theory Filepath
  imports Prelude
begin

section \<open>Paths and string splitting\<close>

text \<open>
  What the agent uses of Go's \<^verbatim>\<open>path/filepath\<close> and \<^verbatim>\<open>strings\<close> on a Unix system: \<^verbatim>\<open>strings.Split\<close>,
  \<^verbatim>\<open>filepath.IsAbs\<close>, \<^verbatim>\<open>filepath.Clean\<close>, \<^verbatim>\<open>filepath.Dir\<close>, \<^verbatim>\<open>filepath.Join\<close>, \<^verbatim>\<open>filepath.Ext\<close>. Every store of the agent
  refuses a path that is not absolute and clean.
\<close>

abbreviation slash :: char where "slash \<equiv> CHR 0x2F"
abbreviation dot :: char where "dot \<equiv> CHR 0x2E"

fun split_on :: "char \<Rightarrow> string \<Rightarrow> string list" where
  "split_on c [] = [[]]"
| "split_on c (x # xs) =
     (if x = c then [] # split_on c xs
      else (case split_on c xs of [] \<Rightarrow> [[x]] | y # ys \<Rightarrow> (x # y) # ys))"

fun join_with :: "string \<Rightarrow> string list \<Rightarrow> string" where
  "join_with sep [] = []"
| "join_with sep [x] = x"
| "join_with sep (x # y # zs) = x @ sep @ join_with sep (y # zs)"

definition path_is_abs :: "string \<Rightarrow> bool" where
  "path_is_abs p \<longleftrightarrow> (case p of [] \<Rightarrow> False | c # _ \<Rightarrow> c = slash)"

text \<open>The components that survive cleaning, last one first: empty and \<open>.\<close> components vanish and
  \<open>..\<close> removes the component before it.\<close>

fun clean_components :: "bool \<Rightarrow> string list \<Rightarrow> string list \<Rightarrow> string list" where
  "clean_components rooted [] acc = rev acc"
| "clean_components rooted (c # cs) acc =
     (if c = [] \<or> c = [dot] then clean_components rooted cs acc
      else if c = [dot, dot] then
        (if acc \<noteq> [] \<and> hd acc \<noteq> [dot, dot] then clean_components rooted cs (tl acc)
         else if rooted then clean_components rooted cs acc
         else clean_components rooted cs (c # acc))
      else clean_components rooted cs (c # acc))"

definition path_clean :: "string \<Rightarrow> string" where
  "path_clean p =
     (let rooted = path_is_abs p;
          body = join_with [slash] (clean_components rooted (split_on slash p) [])
      in if rooted then slash # body else if body = [] then [dot] else body)"

definition path_join :: "string \<Rightarrow> string \<Rightarrow> string" where
  "path_join dir name = path_clean (dir @ [slash] @ name)"

definition abs_and_clean :: "string \<Rightarrow> bool" where
  "abs_and_clean p \<longleftrightarrow> path_is_abs p \<and> path_clean p = p"

definition has_suffix :: "string \<Rightarrow> string \<Rightarrow> bool" where
  "has_suffix suf s \<longleftrightarrow> suffix suf s"

lemma split_on_nonempty [simp]: "split_on c s \<noteq> []"
  by (induction s) (auto split: list.splits)

lemma split_on_no_sep: "c \<notin> set s \<Longrightarrow> split_on c s = [s]"
  by (induction s) auto

lemma split_on_append: "c \<notin> set s \<Longrightarrow> split_on c (s @ c # t) = s # split_on c t"
  by (induction s) auto

lemma join_split: "join_with [c] (split_on c s) = s"
proof (induction s)
  case (Cons x xs)
  obtain y ys where "split_on c xs = y # ys" by (cases "split_on c xs") auto
  with Cons show ?case by (cases ys) auto
qed simp

lemma split_on_parts: "x \<in> set (split_on c s) \<Longrightarrow> c \<notin> set x"
  by (induction s arbitrary: x) (auto split: list.splits if_splits)

end
