(* ===== verification/EventQueue.thy ===== *)
theory EventQueue
  imports Bolt Filepath
begin

section \<open>The durable event queue (internal/eventqueue/store.go)\<close>

text \<open>
  Events wait in a bucket keyed by their big-endian sequence number until the center has
  acknowledged them. The metadata bucket holds the node and stream identity, the next and the
  acknowledged sequence, and the byte and event counts that enforce the capacity.

  The message types and limits are those of the Relayward SDK, which is not in the repository:
  the record \<open>queue_sdk\<close> carries its functions and constants as parameters of the model, together with the
  JSON encoding of an event. \<open>queue_sdk_ok\<close> states what the queue relies on.
\<close>

subsection \<open>Data\<close>

text \<open>Of an event the queue reads the sequence and the observation time; the rest is opaque.\<close>

record event =
  ev_sequence :: u64
  ev_observed_at :: time
  ev_content :: string

record event_batch =
  batch_node_id :: string
  batch_stream_id :: string
  first_sequence :: u64
  last_sequence :: u64
  batch_events :: "event list"

record 'p queue_sdk =
  sdk_validate_node_id :: "string \<Rightarrow> bool"
  sdk_new_event :: "string \<Rightarrow> string \<Rightarrow> u64 \<Rightarrow> string \<Rightarrow> time \<Rightarrow> 'p \<Rightarrow> event option"
  sdk_marshal_event :: "event \<Rightarrow> string option"
  sdk_unmarshal_event :: "string \<Rightarrow> event option"
  sdk_validate_event_batch :: "event_batch \<Rightarrow> bool"
  sdk_max_event_sequence :: u64
  sdk_max_batch_events :: int
  sdk_max_batch_bytes :: int

definition queue_sdk_ok :: "'p queue_sdk \<Rightarrow> bool" where
  "queue_sdk_ok sdk \<longleftrightarrow>
     (\<forall>node stream sequence kind t p e.
        sdk_new_event sdk node stream sequence kind t p = Some e \<longrightarrow> ev_sequence e = sequence) \<and>
     (\<forall>e raw. sdk_marshal_event sdk e = Some raw \<longrightarrow>
        sdk_unmarshal_event sdk raw = Some e \<and> length raw < 2 ^ 63) \<and>
     sdk_max_event_sequence sdk < max_uint64"

datatype queue_error =
    QueueFull | QueueEmpty | SequenceExhausted | NewEventRefused | EncodeEventFailed
  | DecodeEventFailed | InvalidBatch | StreamMismatch | AckBeyondAssigned | AccountingInconsistent
  | DifferentNode | NewStreamIDFailed | InvalidNodeID | InvalidQueuePath | QueueStorageFault

record queue_config =
  cfg_path :: string
  cfg_node_id :: string
  cfg_max_bytes :: u64
  cfg_max_events :: u64

record queue_info =
  info_stream_id :: string
  info_pending_events :: u64
  info_pending_bytes :: u64
  info_highest_acked :: u64
  info_oldest_observed_at :: "time option"

text \<open>The database file and the open store; \<open>q_notify\<close> is the one-slot notification channel.\<close>

record queue_db =
  q_meta :: "string bucket"
  q_events :: "string bucket"

record queue =
  q_db :: queue_db
  q_node_id :: string
  q_max_bytes :: u64
  q_max_events :: u64
  q_notify :: bool

definition default_max_bytes :: u64 where "default_max_bytes = 64 * 2 ^ 20"
definition default_max_events :: u64 where "default_max_events = 100000"

definition key_node_id :: string where "key_node_id = ''node-id''"
definition key_stream_id :: string where "key_stream_id = ''stream-id''"
definition key_next_sequence :: string where "key_next_sequence = ''next-sequence''"
definition key_acked_sequence :: string where "key_acked_sequence = ''acked-sequence''"
definition key_pending_bytes :: string where "key_pending_bytes = ''pending-bytes''"
definition key_pending_events :: string where "key_pending_events = ''pending-events''"

lemma queue_keys_distinct [simp]:
  "key_node_id \<noteq> key_stream_id" "key_node_id \<noteq> key_next_sequence"
  "key_node_id \<noteq> key_acked_sequence" "key_node_id \<noteq> key_pending_bytes"
  "key_node_id \<noteq> key_pending_events" "key_stream_id \<noteq> key_node_id"
  "key_stream_id \<noteq> key_next_sequence" "key_stream_id \<noteq> key_acked_sequence"
  "key_stream_id \<noteq> key_pending_bytes" "key_stream_id \<noteq> key_pending_events"
  "key_next_sequence \<noteq> key_node_id" "key_next_sequence \<noteq> key_stream_id"
  "key_next_sequence \<noteq> key_acked_sequence" "key_next_sequence \<noteq> key_pending_bytes"
  "key_next_sequence \<noteq> key_pending_events" "key_acked_sequence \<noteq> key_node_id"
  "key_acked_sequence \<noteq> key_stream_id" "key_acked_sequence \<noteq> key_next_sequence"
  "key_acked_sequence \<noteq> key_pending_bytes" "key_acked_sequence \<noteq> key_pending_events"
  "key_pending_bytes \<noteq> key_node_id" "key_pending_bytes \<noteq> key_stream_id"
  "key_pending_bytes \<noteq> key_next_sequence" "key_pending_bytes \<noteq> key_acked_sequence"
  "key_pending_bytes \<noteq> key_pending_events" "key_pending_events \<noteq> key_node_id"
  "key_pending_events \<noteq> key_stream_id" "key_pending_events \<noteq> key_next_sequence"
  "key_pending_events \<noteq> key_acked_sequence" "key_pending_events \<noteq> key_pending_bytes"
  by (simp_all add: key_node_id_def key_stream_id_def key_next_sequence_def key_acked_sequence_def key_pending_bytes_def key_pending_events_def)

definition sequence_key :: "u64 \<Rightarrow> string" where
  "sequence_key sequence = uint64_bytes sequence"

abbreviation meta_u64 :: "queue_db \<Rightarrow> string \<Rightarrow> u64" where
  "meta_u64 db k \<equiv> read_uint64 (bucket_get (q_meta db) k)"

subsection \<open>Operations\<close>

text \<open>\<^verbatim>\<open>Enqueue\<close>: the checks and the four writes of its transaction.\<close>

definition enqueue_tx ::
    "'p queue_sdk \<Rightarrow> queue \<Rightarrow> string \<Rightarrow> time \<Rightarrow> 'p \<Rightarrow> queue_db \<Rightarrow> queue_error + event \<times> queue_db" where
  "enqueue_tx sdk q kind observed_at payload db =
     (let stream_id = get_string (q_meta db) key_stream_id;
          sequence = meta_u64 db key_next_sequence
      in and_then (guard_err (\<not> sdk_max_event_sequence sdk < sequence) SequenceExhausted) (\<lambda>_.
         case sdk_new_event sdk (q_node_id q) stream_id sequence kind observed_at payload of
           None \<Rightarrow> Inl NewEventRefused
         | Some ev \<Rightarrow>
           (case sdk_marshal_event sdk ev of
              None \<Rightarrow> Inl EncodeEventFailed
            | Some raw \<Rightarrow>
              (let pending_bytes = meta_u64 db key_pending_bytes;
                   pending_events = meta_u64 db key_pending_events;
                   event_bytes = of_nat (length raw)
               in if q_max_bytes q < event_bytes \<or> q_max_bytes q - event_bytes < pending_bytes
                     \<or> q_max_events q \<le> pending_events
                  then Inl QueueFull
                  else Inr (ev,
                    db\<lparr>q_events := bucket_put (sequence_key sequence) raw (q_events db),
                       q_meta := put_uint64 key_pending_events (pending_events + 1)
                                  (put_uint64 key_pending_bytes (pending_bytes + of_nat (length raw))
                                    (put_uint64 key_next_sequence (sequence + 1) (q_meta db)))\<rparr>)))))"

definition enqueue ::
    "'p queue_sdk \<Rightarrow> queue_error option \<Rightarrow> queue \<Rightarrow> string \<Rightarrow> time \<Rightarrow> 'p \<Rightarrow> (queue_error + event) \<times> queue" where
  "enqueue sdk fault q kind observed_at payload =
     (case db_update fault (enqueue_tx sdk q kind observed_at payload) (q_db q) of
        (Inl e, db) \<Rightarrow> (Inl e, q\<lparr>q_db := db\<rparr>)
      | (Inr ev, db) \<Rightarrow> (Inr ev, q\<lparr>q_db := db, q_notify := True\<rparr>))"

text \<open>\<^verbatim>\<open>Batch\<close>: a prefix of the queue, at least one event whatever its size.\<close>

fun batch_loop ::
    "'p queue_sdk \<Rightarrow> int \<Rightarrow> int \<Rightarrow> string bucket \<Rightarrow> event list \<Rightarrow> int \<Rightarrow> queue_error + event list" where
  "batch_loop sdk max_events max_bytes [] events bytes = Inr events"
| "batch_loop sdk max_events max_bytes ((key, raw) # rest) events bytes =
     (if \<not> int (length events) < max_events then Inr events
      else if max_bytes < bytes + int (length raw) \<and> 0 < length events then Inr events
      else (case sdk_unmarshal_event sdk raw of
              None \<Rightarrow> Inl DecodeEventFailed
            | Some ev \<Rightarrow> batch_loop sdk max_events max_bytes rest (events @ [ev]) (bytes + int (length raw))))"

definition batch :: "'p queue_sdk \<Rightarrow> queue \<Rightarrow> int \<Rightarrow> int \<Rightarrow> queue_error + event_batch" where
  "batch sdk q max_events max_bytes =
     (let max_events = (if max_events \<le> 0 \<or> sdk_max_batch_events sdk < max_events
                        then sdk_max_batch_events sdk else max_events);
          max_bytes = (if max_bytes \<le> 0 \<or> sdk_max_batch_bytes sdk < max_bytes
                       then sdk_max_batch_bytes sdk else max_bytes)
      in and_then (batch_loop sdk max_events max_bytes (q_events (q_db q)) [] 0) (\<lambda>events.
         if events = [] then Inl QueueEmpty
         else let b = \<lparr>batch_node_id = q_node_id q,
                       batch_stream_id = get_string (q_meta (q_db q)) key_stream_id,
                       first_sequence = ev_sequence (hd events),
                       last_sequence = ev_sequence (last events),
                       batch_events = events\<rparr>
              in if sdk_validate_event_batch sdk b then Inr b else Inl InvalidBatch))"

text \<open>\<^verbatim>\<open>Acknowledge\<close>: the cursor loop deletes from the front of the bucket and keeps the counts.\<close>

fun ack_loop ::
    "u64 \<Rightarrow> string bucket \<Rightarrow> u64 \<Rightarrow> u64 \<Rightarrow> queue_error + string bucket \<times> u64 \<times> u64" where
  "ack_loop sequence [] pending_bytes pending_events = Inr ([], pending_bytes, pending_events)"
| "ack_loop sequence ((key, raw) # rest) pending_bytes pending_events =
     (if read_uint64 (Some key) \<le> sequence then
        (if pending_bytes < of_nat (length raw) \<or> pending_events = 0 then Inl AccountingInconsistent
         else ack_loop sequence rest (pending_bytes - of_nat (length raw)) (pending_events - 1))
      else Inr ((key, raw) # rest, pending_bytes, pending_events))"

definition acknowledge_tx :: "string \<Rightarrow> u64 \<Rightarrow> queue_db \<Rightarrow> queue_error + unit \<times> queue_db" where
  "acknowledge_tx stream_id sequence db =
     (if stream_id \<noteq> get_string (q_meta db) key_stream_id then Inl StreamMismatch
      else let next = meta_u64 db key_next_sequence in
        if sequence = 0 \<or> next \<le> sequence then Inl AckBeyondAssigned
        else let acked = meta_u64 db key_acked_sequence in
          if sequence \<le> acked then Inr ((), db)
          else and_then (ack_loop sequence (q_events db) (meta_u64 db key_pending_bytes)
                          (meta_u64 db key_pending_events)) (\<lambda>(events, pending_bytes, pending_events).
            Inr ((), db\<lparr>q_events := events,
                        q_meta := put_uint64 key_pending_events pending_events
                                   (put_uint64 key_pending_bytes pending_bytes
                                     (put_uint64 key_acked_sequence sequence (q_meta db)))\<rparr>)))"

definition queue_acknowledge ::
    "queue_error option \<Rightarrow> queue \<Rightarrow> string \<Rightarrow> u64 \<Rightarrow> (queue_error + unit) \<times> queue" where
  "queue_acknowledge fault q stream_id sequence =
     (case db_update fault (acknowledge_tx stream_id sequence) (q_db q) of
        (r, db) \<Rightarrow> (r, q\<lparr>q_db := db\<rparr>))"

text \<open>\<^verbatim>\<open>Info\<close>.\<close>

definition queue_info_of :: "'p queue_sdk \<Rightarrow> queue \<Rightarrow> queue_error + queue_info" where
  "queue_info_of sdk q =
     (let db = q_db q;
          info = \<lparr>info_stream_id = get_string (q_meta db) key_stream_id,
                  info_pending_events = meta_u64 db key_pending_events,
                  info_pending_bytes = meta_u64 db key_pending_bytes,
                  info_highest_acked = meta_u64 db key_acked_sequence,
                  info_oldest_observed_at = None\<rparr>
      in case q_events db of
           [] \<Rightarrow> Inr info
         | (key, raw) # _ \<Rightarrow>
             (case sdk_unmarshal_event sdk raw of
                None \<Rightarrow> Inl DecodeEventFailed
              | Some ev \<Rightarrow> Inr (info\<lparr>info_oldest_observed_at := Some (ev_observed_at ev)\<rparr>)))"

text \<open>
  \<^verbatim>\<open>initialize\<close> and \<^verbatim>\<open>Open\<close>. \<open>new_id\<close> is what \<^verbatim>\<open>protocol.NewID\<close> returns, \<open>stored\<close> what the
  database file holds (an empty database when the file is new) and \<open>os_fault\<close> an error of the
  directory, open or permission calls before it.
\<close>

definition initialize_node_id :: "string \<Rightarrow> queue_db \<Rightarrow> queue_error + queue_db" where
  "initialize_node_id node_id db =
     (let stored = get_string (q_meta db) key_node_id
      in if stored = [] then Inr (db\<lparr>q_meta := bucket_put key_node_id node_id (q_meta db)\<rparr>)
         else if stored \<noteq> node_id then Inl DifferentNode
         else Inr db)"

definition initialize_stream_id :: "string option \<Rightarrow> queue_db \<Rightarrow> queue_error + queue_db" where
  "initialize_stream_id new_id db =
     (if get_string (q_meta db) key_stream_id = [] then
        (case new_id of
           None \<Rightarrow> Inl NewStreamIDFailed
         | Some stream_id \<Rightarrow> Inr (db\<lparr>q_meta := bucket_put key_stream_id stream_id (q_meta db)\<rparr>))
      else Inr db)"

definition initialize_tx :: "string option \<Rightarrow> string \<Rightarrow> queue_db \<Rightarrow> queue_error + unit \<times> queue_db" where
  "initialize_tx new_id node_id db =
     and_then (initialize_node_id node_id db) (\<lambda>db.
       and_then (initialize_stream_id new_id db) (\<lambda>db.
         Inr ((), if meta_u64 db key_next_sequence = 0
                  then db\<lparr>q_meta := put_uint64 key_next_sequence 1 (q_meta db)\<rparr>
                  else db)))"

definition open_queue ::
    "'p queue_sdk \<Rightarrow> queue_error option \<Rightarrow> queue_error option \<Rightarrow> string option \<Rightarrow> queue_config \<Rightarrow> queue_db
     \<Rightarrow> (queue_error + queue) \<times> queue_db" where
  "open_queue sdk os_fault init_fault new_id config stored =
     (if \<not> sdk_validate_node_id sdk (cfg_node_id config) then (Inl InvalidNodeID, stored)
      else if \<not> abs_and_clean (cfg_path config) then (Inl InvalidQueuePath, stored)
      else case os_fault of
        Some e \<Rightarrow> (Inl e, stored)
      | None \<Rightarrow>
         (case db_update init_fault (initialize_tx new_id (cfg_node_id config)) stored of
            (Inl e, db) \<Rightarrow> (Inl e, db)
          | (Inr _, db) \<Rightarrow>
             (Inr \<lparr>q_db = db, q_node_id = cfg_node_id config,
                   q_max_bytes = (if cfg_max_bytes config = 0 then default_max_bytes else cfg_max_bytes config),
                   q_max_events = (if cfg_max_events config = 0 then default_max_events else cfg_max_events config),
                   q_notify = False\<rparr>, db)))"

subsection \<open>The abstract queue and the representation invariant\<close>

text \<open>
  The specification sees a queue of decoded events and two counters: everything up to
  \<open>acked_of\<close> has been delivered, everything from there to \<open>next_of\<close> is pending, in order and
  without a gap.
\<close>

definition next_of :: "queue_db \<Rightarrow> nat" where
  "next_of db = unat (meta_u64 db key_next_sequence)"

definition acked_of :: "queue_db \<Rightarrow> nat" where
  "acked_of db = unat (meta_u64 db key_acked_sequence)"

definition stored_bytes :: "string bucket \<Rightarrow> nat" where
  "stored_bytes es = sum_list (map (\<lambda>e. length (snd e)) es)"

definition pending_list :: "'p queue_sdk \<Rightarrow> queue_db \<Rightarrow> event list" where
  "pending_list sdk db = map (\<lambda>e. the (sdk_unmarshal_event sdk (snd e))) (q_events db)"

definition entry_ok :: "'p queue_sdk \<Rightarrow> string \<times> string \<Rightarrow> bool" where
  "entry_ok sdk e \<longleftrightarrow>
     (\<exists>ev. sdk_unmarshal_event sdk (snd e) = Some ev \<and> fst e = sequence_key (ev_sequence ev))"

definition queue_inv :: "'p queue_sdk \<Rightarrow> queue_db \<Rightarrow> bool" where
  "queue_inv sdk db \<longleftrightarrow>
     acked_of db < next_of db \<and> next_of db \<le> unat (sdk_max_event_sequence sdk) + 1 \<and>
     map fst (q_events db) = map (\<lambda>i. sequence_key (of_nat i)) [Suc (acked_of db)..<next_of db] \<and>
     list_all (entry_ok sdk) (q_events db) \<and>
     unat (meta_u64 db key_pending_events) = length (q_events db) \<and>
     unat (meta_u64 db key_pending_bytes) = stored_bytes (q_events db)"

lemma stored_bytes_simps [simp]:
  "stored_bytes [] = 0"
  "stored_bytes (e # es) = length (snd e) + stored_bytes es"
  "stored_bytes (es @ fs) = stored_bytes es + stored_bytes fs"
  by (simp_all add: stored_bytes_def)

lemma read_sequence_key [simp]: "read_uint64 (Some (sequence_key s)) = s"
  by (simp add: sequence_key_def)

lemma sequence_key_less_iff [simp]: "sequence_key a < sequence_key b \<longleftrightarrow> a < b"
  by (simp add: sequence_key_def uint64_bytes_less_iff)

lemma sequence_key_eq_iff [simp]: "sequence_key a = sequence_key b \<longleftrightarrow> a = b"
  by (simp add: sequence_key_def)

lemma next_of_lt: "next_of db < 2 ^ 64"
  using u64_lt by (simp add: next_of_def)

lemma pending_sequences:
  assumes "queue_inv sdk db"
  shows "map ev_sequence (pending_list sdk db) = map of_nat [Suc (acked_of db)..<next_of db]"
proof -
  have "sequence_key (ev_sequence (the (sdk_unmarshal_event sdk (snd e)))) = fst e" if "e \<in> set (q_events db)" for e
    using assms that by (auto simp: queue_inv_def entry_ok_def list_all_iff)
  then have "map (sequence_key \<circ> ev_sequence) (pending_list sdk db) = map fst (q_events db)"
    by (simp add: pending_list_def)
  also have "\<dots> = map (sequence_key \<circ> of_nat) [Suc (acked_of db)..<next_of db]"
    using assms by (simp add: queue_inv_def comp_def)
  finally have "map sequence_key (map ev_sequence (pending_list sdk db))
      = map sequence_key (map of_nat [Suc (acked_of db)..<next_of db])" by simp
  moreover have "inj sequence_key" by (simp add: inj_def)
  ultimately show ?thesis by (metis map_injective)
qed

lemma pending_sequence_range:
  assumes "queue_inv sdk db" and "ev \<in> set (pending_list sdk db)"
  shows "acked_of db < unat (ev_sequence ev) \<and> unat (ev_sequence ev) < next_of db"
proof -
  have "ev_sequence ev \<in> set (map ev_sequence (pending_list sdk db))" using assms(2) by simp
  then have "ev_sequence ev \<in> of_nat ` {Suc (acked_of db)..<next_of db}"
    unfolding pending_sequences [OF assms(1)] by simp
  then obtain i where i: "ev_sequence ev = of_nat i" "acked_of db < i" "i < next_of db" by auto
  have "i < 2 ^ 64" using i(3) next_of_lt [of db] by simp
  then show ?thesis using i unat_of_nat_u64 [of i] by simp
qed

lemma pending_sorted:
  assumes "queue_inv sdk db"
  shows "sorted (map ev_sequence (pending_list sdk db))"
proof -
  have le: "(of_nat i :: u64) \<le> of_nat j" if "i < j" "j < next_of db" for i j
    using that next_of_lt [of db] by (simp add: word_le_nat_alt unat_of_nat_u64)
  have "sorted_wrt (<) [Suc (acked_of db)..<next_of db]" by simp
  then have "sorted_wrt (\<lambda>i j. (of_nat i :: u64) \<le> of_nat j) [Suc (acked_of db)..<next_of db]"
    by (rule sorted_wrt_mono_rel [rotated]) (use le in auto)
  then show ?thesis
    unfolding pending_sequences [OF assms] by (simp add: sorted_wrt_map)
qed

lemma keys_below_next:
  assumes "queue_inv sdk db" and "e \<in> set (q_events db)"
  shows "fst e < sequence_key (meta_u64 db key_next_sequence)"
proof -
  obtain ev where ev: "sdk_unmarshal_event sdk (snd e) = Some ev" "fst e = sequence_key (ev_sequence ev)"
    using assms by (auto simp: queue_inv_def list_all_iff entry_ok_def)
  have "ev \<in> set (pending_list sdk db)"
    using assms(2) ev(1) by (force simp: pending_list_def)
  from pending_sequence_range [OF assms(1) this] ev(2) show ?thesis
    by (simp add: next_of_def word_less_nat_alt)
qed

subsection \<open>Initialisation\<close>

definition empty_queue_db :: queue_db where
  "empty_queue_db = \<lparr>q_meta = [], q_events = []\<rparr>"

text \<open>Storing an identity changes neither the events nor the counters.\<close>

definition same_queue :: "queue_db \<Rightarrow> queue_db \<Rightarrow> bool" where
  "same_queue db db' \<longleftrightarrow> q_events db' = q_events db \<and>
     (\<forall>k \<in> {key_next_sequence, key_acked_sequence, key_pending_bytes, key_pending_events}.
        bucket_get (q_meta db') k = bucket_get (q_meta db) k)"

lemma initialize_identities_same:
  "initialize_node_id node_id db = Inr db' \<Longrightarrow> same_queue db db'"
  "initialize_stream_id new_id db = Inr db' \<Longrightarrow> same_queue db db'"
  by (auto simp: initialize_node_id_def initialize_stream_id_def same_queue_def Let_def
      split: if_splits option.splits)

lemma initialize_tx_Inr:
  assumes "initialize_tx new_id node_id db = Inr (u, db')"
  shows "q_events db' = q_events db \<and> acked_of db' = acked_of db \<and>
         next_of db' = (if next_of db = 0 then 1 else next_of db) \<and>
         meta_u64 db' key_pending_events = meta_u64 db key_pending_events \<and>
         meta_u64 db' key_pending_bytes = meta_u64 db key_pending_bytes"
proof -
  from assms obtain db1 db2 where
    db1: "initialize_node_id node_id db = Inr db1" and
    db2: "initialize_stream_id new_id db1 = Inr db2" and
    db': "db' = (if meta_u64 db2 key_next_sequence = 0
                 then db2\<lparr>q_meta := put_uint64 key_next_sequence 1 (q_meta db2)\<rparr> else db2)"
    unfolding initialize_tx_def and_then_Inr_iff by auto
  show ?thesis
    using initialize_identities_same(1) [OF db1] initialize_identities_same(2) [OF db2]
    by (simp add: db' same_queue_def acked_of_def next_of_def unat_eq_zero)
qed

lemma initialize_empty_inv:
  assumes "initialize_tx new_id node_id empty_queue_db = Inr (u, db)"
  shows "queue_inv sdk db \<and> pending_list sdk db = [] \<and> acked_of db = 0 \<and> next_of db = 1"
  using initialize_tx_Inr [OF assms]
  by (simp add: queue_inv_def pending_list_def empty_queue_db_def acked_of_def next_of_def)

lemma initialize_reopen:
  assumes inv: "queue_inv sdk db" and res: "initialize_tx new_id node_id db = Inr (u, db')"
  shows "queue_inv sdk db' \<and> q_events db' = q_events db \<and> acked_of db' = acked_of db \<and> next_of db' = next_of db"
  using initialize_tx_Inr [OF res] inv by (auto simp: queue_inv_def)

subsection \<open>Enqueue\<close>

lemma enqueue_tx_Inr:
  assumes ok: "queue_sdk_ok sdk" and inv: "queue_inv sdk db"
    and res: "enqueue_tx sdk q kind t payload db = Inr (ev, db')"
  shows "queue_inv sdk db' \<and> pending_list sdk db' = pending_list sdk db @ [ev] \<and>
         unat (ev_sequence ev) = next_of db \<and> next_of db' = Suc (next_of db) \<and> acked_of db' = acked_of db \<and>
         stored_bytes (q_events db') \<le> unat (q_max_bytes q) \<and> length (q_events db') \<le> unat (q_max_events q)"
proof -
  let ?seq = "meta_u64 db key_next_sequence"
  from res obtain raw where
    room: "?seq \<le> sdk_max_event_sequence sdk" and
    ev: "sdk_new_event sdk (q_node_id q) (get_string (q_meta db) key_stream_id) ?seq kind t payload = Some ev" and
    raw: "sdk_marshal_event sdk ev = Some raw" and
    bytes: "of_nat (length raw) \<le> q_max_bytes q" "meta_u64 db key_pending_bytes \<le> q_max_bytes q - of_nat (length raw)" and
    count: "meta_u64 db key_pending_events < q_max_events q" and
    db': "db' = db\<lparr>q_events := bucket_put (sequence_key ?seq) raw (q_events db),
       q_meta := put_uint64 key_pending_events (meta_u64 db key_pending_events + 1)
                  (put_uint64 key_pending_bytes (meta_u64 db key_pending_bytes + of_nat (length raw))
                    (put_uint64 key_next_sequence (?seq + 1) (q_meta db)))\<rparr>"
    by (auto simp: enqueue_tx_def Let_def result_iff not_less not_le split: option.splits if_splits)
  have n: "unat ?seq = next_of db" by (simp add: next_of_def)
  have next': "next_of db' = Suc (next_of db)"
  proof -
    have "unat ?seq < 2 ^ 64 - 1"
      using room ok by (simp add: queue_sdk_ok_def word_less_nat_alt word_le_nat_alt)
    then have "unat (?seq + 1) = unat ?seq + 1" by (simp add: unat_add_fits)
    then show ?thesis by (simp add: db' next_of_def)
  qed
  have acked': "acked_of db' = acked_of db" by (simp add: db' acked_of_def)
  have seq: "ev_sequence ev = ?seq" using ok ev by (auto simp: queue_sdk_ok_def)
  have dec: "sdk_unmarshal_event sdk raw = Some ev" using ok raw by (auto simp: queue_sdk_ok_def)
  have events': "q_events db' = q_events db @ [(sequence_key ?seq, raw)]"
    using keys_below_next [OF inv] by (simp add: db' put_at_end)
  have "length raw < 2 ^ 63" using ok raw by (auto simp: queue_sdk_ok_def)
  then have len: "unat (of_nat (length raw) :: u64) = length raw"
    by (intro unat_of_nat_u64) simp
  have count': "unat (meta_u64 db' key_pending_events) = length (q_events db')"
  proof -
    have "unat (meta_u64 db key_pending_events) + 1 < 2 ^ 64"
      using count u64_lt [of "q_max_events q"] by (simp add: word_less_nat_alt)
    then show ?thesis
      using inv by (simp add: db' queue_inv_def unat_add_fits events' [unfolded db', simplified])
  qed
  have fits: "unat (meta_u64 db key_pending_bytes) + length raw \<le> unat (q_max_bytes q)"
    using bytes len by (simp add: word_le_nat_alt unat_sub)
  have bytes': "unat (meta_u64 db' key_pending_bytes) = stored_bytes (q_events db')"
  proof -
    have "unat (meta_u64 db key_pending_bytes) + unat (of_nat (length raw) :: u64) < 2 ^ 64"
      using fits len u64_lt [of "q_max_bytes q"] by linarith
    then show ?thesis
      using inv len by (simp add: db' queue_inv_def unat_add_fits events' [unfolded db', simplified])
  qed
  have lt: "acked_of db < next_of db" using inv by (simp add: queue_inv_def)
  have top: "next_of db' \<le> unat (sdk_max_event_sequence sdk) + 1"
    using room next' by (simp add: next_of_def word_le_nat_alt)
  have keys: "map fst (q_events db') = map (\<lambda>i. sequence_key (of_nat i)) [Suc (acked_of db')..<next_of db']"
  proof -
    have "(of_nat (next_of db) :: u64) = ?seq" by (simp add: next_of_def)
    with inv lt show ?thesis by (simp add: events' next' acked' queue_inv_def)
  qed
  have "queue_inv sdk db'"
    using inv lt top keys count' bytes' seq dec
    by (simp add: queue_inv_def events' next' acked' entry_ok_def)
  moreover have "pending_list sdk db' = pending_list sdk db @ [ev]"
    by (simp add: pending_list_def events' dec)
  moreover have "stored_bytes (q_events db') \<le> unat (q_max_bytes q)"
    using fits inv by (simp add: events' queue_inv_def)
  moreover have "length (q_events db') \<le> unat (q_max_events q)"
    using count inv by (simp add: events' queue_inv_def word_less_nat_alt)
  ultimately show ?thesis using next' acked' seq n by simp
qed

text \<open>
  The queue refuses an event for want of room exactly when the encoded event does not fit beside
  what is pending, or the number of pending events has reached its limit.
\<close>

lemma enqueue_full_iff:
  assumes ok: "queue_sdk_ok sdk" and inv: "queue_inv sdk db"
    and room: "next_of db \<le> unat (sdk_max_event_sequence sdk)"
    and ev: "sdk_new_event sdk (q_node_id q) (get_string (q_meta db) key_stream_id)
               (meta_u64 db key_next_sequence) kind t payload = Some ev"
    and raw: "sdk_marshal_event sdk ev = Some raw"
  shows "enqueue_tx sdk q kind t payload db = Inl QueueFull \<longleftrightarrow>
         unat (q_max_bytes q) < stored_bytes (q_events db) + length raw \<or>
         unat (q_max_events q) \<le> length (q_events db)"
proof -
  have "length raw < 2 ^ 63" using ok raw by (auto simp: queue_sdk_ok_def)
  then have len: "unat (of_nat (length raw) :: u64) = length raw"
    by (intro unat_of_nat_u64) simp
  have bytes: "q_max_bytes q < of_nat (length raw) \<or> q_max_bytes q - of_nat (length raw) < meta_u64 db key_pending_bytes
      \<longleftrightarrow> unat (q_max_bytes q) < stored_bytes (q_events db) + length raw"
  proof (cases "q_max_bytes q < of_nat (length raw)")
    case True
    then show ?thesis using len by (simp add: word_less_nat_alt)
  next
    case False
    then have "unat (q_max_bytes q - of_nat (length raw)) = unat (q_max_bytes q) - length raw"
      using len by (simp add: unat_sub)
    with False show ?thesis
      using len inv by (auto simp: word_less_nat_alt queue_inv_def)
  qed
  have seq: "\<not> sdk_max_event_sequence sdk < meta_u64 db key_next_sequence"
    using room by (simp add: next_of_def word_less_nat_alt)
  show ?thesis
    using inv seq bytes
    by (auto simp: enqueue_tx_def Let_def ev raw queue_inv_def word_le_nat_alt)
qed

subsection \<open>Acknowledge\<close>

lemma ack_loop_correct:
  assumes "stored_bytes es = unat b" and "length es = unat n" and "list_all (entry_ok sdk) es"
  shows "\<exists>b' n'. ack_loop sequence es b n =
           Inr (dropWhile (\<lambda>e. read_uint64 (Some (fst e)) \<le> sequence) es, b', n') \<and>
         unat b' = stored_bytes (dropWhile (\<lambda>e. read_uint64 (Some (fst e)) \<le> sequence) es) \<and>
         unat n' = length (dropWhile (\<lambda>e. read_uint64 (Some (fst e)) \<le> sequence) es)"
  using assms
proof (induction es arbitrary: b n)
  case Nil
  then show ?case by simp
next
  case (Cons e es)
  obtain key raw where e: "e = (key, raw)" by force
  show ?case
  proof (cases "read_uint64 (Some key) \<le> sequence")
    case True
    have fits: "length raw \<le> unat b" using Cons.prems(1) e by simp
    then have len: "unat (of_nat (length raw) :: u64) = length raw"
      using u64_lt [of b] by (intro unat_of_nat_u64) simp
    have nb: "\<not> b < of_nat (length raw)" using fits len by (simp add: word_less_nat_alt)
    have nn: "n \<noteq> 0" using Cons.prems(2) by auto
    have b': "stored_bytes es = unat (b - of_nat (length raw))"
      using nb len Cons.prems(1) e by (simp add: unat_sub)
    have n': "length es = unat (n - 1)"
      using nn Cons.prems(2) by (simp add: unat_minus_one)
    from Cons.IH [OF b' n'] Cons.prems(3) nb nn True e show ?thesis by simp
  next
    case False
    with Cons.prems e show ?thesis by simp
  qed
qed

lemma acknowledge_tx_correct:
  assumes inv: "queue_inv sdk db"
    and stream: "stream_id = get_string (q_meta db) key_stream_id"
    and low: "sequence \<noteq> 0" and high: "unat sequence < next_of db"
  obtains db' where "acknowledge_tx stream_id sequence db = Inr ((), db')"
    and "queue_inv sdk db'"
    and "pending_list sdk db' = filter (\<lambda>ev. sequence < ev_sequence ev) (pending_list sdk db)"
    and "acked_of db' = max (acked_of db) (unat sequence)" and "next_of db' = next_of db"
proof (cases "unat sequence \<le> acked_of db")
  case True
  have "acknowledge_tx stream_id sequence db = Inr ((), db)"
    using True stream low high
    by (simp add: acknowledge_tx_def Let_def next_of_def acked_of_def word_le_nat_alt)
  moreover have "pending_list sdk db = filter (\<lambda>ev. sequence < ev_sequence ev) (pending_list sdk db)"
  proof (rule sym, rule filter_True, rule ballI)
    fix ev assume "ev \<in> set (pending_list sdk db)"
    from pending_sequence_range [OF inv this] True show "sequence < ev_sequence ev"
      by (simp add: word_less_nat_alt)
  qed
  ultimately show ?thesis using that inv True by (simp add: max_def)
next
  case False
  let ?P = "\<lambda>e. read_uint64 (Some (fst e)) \<le> sequence"
  let ?es = "dropWhile ?P (q_events db)"
  obtain b' n' where loop: "ack_loop sequence (q_events db) (meta_u64 db key_pending_bytes)
        (meta_u64 db key_pending_events) = Inr (?es, b', n')"
    and b': "unat b' = stored_bytes ?es" and n': "unat n' = length ?es"
    using ack_loop_correct [of "q_events db" "meta_u64 db key_pending_bytes" "meta_u64 db key_pending_events" sdk sequence]
      inv by (auto simp: queue_inv_def)
  define db' where "db' = db\<lparr>q_events := ?es,
      q_meta := put_uint64 key_pending_events n'
                 (put_uint64 key_pending_bytes b'
                   (put_uint64 key_acked_sequence sequence (q_meta db)))\<rparr>"
  have res: "acknowledge_tx stream_id sequence db = Inr ((), db')"
    using False stream low high loop
    by (simp add: acknowledge_tx_def Let_def next_of_def acked_of_def word_le_nat_alt db'_def)
  have meta': "next_of db' = next_of db" "acked_of db' = unat sequence"
    by (simp_all add: db'_def next_of_def acked_of_def)
  have es: "q_events db' = ?es" by (simp add: db'_def)
  have le: "acked_of db \<le> unat sequence" using False by simp
  have keys: "map fst ?es = map (\<lambda>i. sequence_key (of_nat i)) [Suc (unat sequence)..<next_of db]"
  proof -
    let ?k = "\<lambda>i. sequence_key (of_nat i)"
    have "map fst ?es = dropWhile (\<lambda>k. read_uint64 (Some k) \<le> sequence) (map fst (q_events db))"
      by (simp add: dropWhile_map comp_def)
    also have "\<dots> = map ?k (dropWhile (\<lambda>i. of_nat i \<le> sequence) [Suc (acked_of db)..<next_of db])"
      using inv by (simp add: queue_inv_def dropWhile_map comp_def)
    also have "dropWhile (\<lambda>i. of_nat i \<le> sequence) [Suc (acked_of db)..<next_of db]
        = dropWhile (\<lambda>i. i \<le> unat sequence) [Suc (acked_of db)..<next_of db]"
    proof (rule dropWhile_cong [OF refl])
      fix i assume "i \<in> set [Suc (acked_of db)..<next_of db]"
      then have "unat (of_nat i :: u64) = i"
        using next_of_lt [of db] by (intro unat_of_nat_u64) simp
      then show "((of_nat i :: u64) \<le> sequence) = (i \<le> unat sequence)"
        by (simp add: word_le_nat_alt)
    qed
    also have "\<dots> = [Suc (unat sequence)..<next_of db]"
      by (rule dropWhile_upto [OF le high])
    finally show ?thesis .
  qed
  have ok: "list_all (entry_ok sdk) ?es"
    using inv by (auto simp: queue_inv_def list_all_iff dest: set_dropWhileD)
  have inv': "queue_inv sdk db'"
    using inv keys ok b' n' high by (simp add: queue_inv_def meta' es) (simp add: db'_def)
  have pend: "pending_list sdk db' = filter (\<lambda>ev. sequence < ev_sequence ev) (pending_list sdk db)"
  proof -
    let ?dec = "\<lambda>e. the (sdk_unmarshal_event sdk (snd e))"
    have "pending_list sdk db' = dropWhile (\<lambda>ev. ev_sequence ev \<le> sequence) (pending_list sdk db)"
      unfolding pending_list_def es dropWhile_map comp_def
      using inv by (intro arg_cong [where f = "map ?dec"] dropWhile_cong)
        (auto simp: queue_inv_def list_all_iff entry_ok_def)
    then show ?thesis
      using dropWhile_le_filter [OF pending_sorted [OF inv]] by simp
  qed
  show ?thesis
    by (rule that [OF res inv' pend]) (use False in \<open>simp_all add: meta' max_def\<close>)
qed

lemma queue_acknowledge_cases:
  assumes inv: "queue_inv sdk (q_db q)" and res: "queue_acknowledge fault q stream_id sequence = (r, q')"
  shows "(r = Inr () \<and> queue_inv sdk (q_db q') \<and>
          stream_id = get_string (q_meta (q_db q)) key_stream_id \<and>
          0 < sequence \<and> unat sequence < next_of (q_db q) \<and>
          pending_list sdk (q_db q') = filter (\<lambda>ev. sequence < ev_sequence ev) (pending_list sdk (q_db q)) \<and>
          acked_of (q_db q') = max (acked_of (q_db q)) (unat sequence) \<and>
          next_of (q_db q') = next_of (q_db q)) \<or>
         ((\<exists>e. r = Inl e) \<and> q' = q)"
proof (cases r)
  case (Inl e)
  then show ?thesis
    using res by (auto simp: queue_acknowledge_def split: prod.splits dest: db_update_rollback)
next
  case (Inr u)
  then obtain db' where tx: "acknowledge_tx stream_id sequence (q_db q) = Inr ((), db')"
    and q': "q' = q\<lparr>q_db := db'\<rparr>"
    using res by (auto simp: queue_acknowledge_def db_update_Inr_iff split: prod.splits)
  from tx have guards: "stream_id = get_string (q_meta (q_db q)) key_stream_id" "sequence \<noteq> 0"
      "unat sequence < next_of (q_db q)"
    by (auto simp: acknowledge_tx_def Let_def next_of_def word_le_nat_alt split: if_splits)
  obtain db'' where "acknowledge_tx stream_id sequence (q_db q) = Inr ((), db'')"
    and "queue_inv sdk db''"
    and "pending_list sdk db'' = filter (\<lambda>ev. sequence < ev_sequence ev) (pending_list sdk (q_db q))"
    and "acked_of db'' = max (acked_of (q_db q)) (unat sequence)" "next_of db'' = next_of (q_db q)"
    using acknowledge_tx_correct [OF inv guards] .
  with tx guards q' Inr show ?thesis by (auto simp: word_gt_0)
qed

lemma acknowledge_ok:
  assumes "queue_inv sdk (q_db q)" and "stream_id = get_string (q_meta (q_db q)) key_stream_id"
    and "sequence \<noteq> 0" and "unat sequence < next_of (q_db q)"
  shows "\<exists>q'. queue_acknowledge None q stream_id sequence = (Inr (), q') \<and> queue_inv sdk (q_db q') \<and>
           pending_list sdk (q_db q') = filter (\<lambda>ev. sequence < ev_sequence ev) (pending_list sdk (q_db q)) \<and>
           acked_of (q_db q') = max (acked_of (q_db q)) (unat sequence) \<and>
           next_of (q_db q') = next_of (q_db q)"
proof -
  obtain db' where "acknowledge_tx stream_id sequence (q_db q) = Inr ((), db')" "queue_inv sdk db'"
    "pending_list sdk db' = filter (\<lambda>ev. sequence < ev_sequence ev) (pending_list sdk (q_db q))"
    "acked_of db' = max (acked_of (q_db q)) (unat sequence)" "next_of db' = next_of (q_db q)"
    by (rule acknowledge_tx_correct [OF assms])
  then show ?thesis
    by (intro exI [of _ "q\<lparr>q_db := db'\<rparr>"]) (simp add: queue_acknowledge_def db_update_def)
qed

lemma enqueue_cases:
  assumes ok: "queue_sdk_ok sdk" and inv: "queue_inv sdk (q_db q)"
    and res: "enqueue sdk fault q kind t payload = (r, q')"
  shows "(\<exists>ev. r = Inr ev \<and> queue_inv sdk (q_db q') \<and>
            pending_list sdk (q_db q') = pending_list sdk (q_db q) @ [ev] \<and>
            unat (ev_sequence ev) = next_of (q_db q) \<and> next_of (q_db q') = Suc (next_of (q_db q)) \<and>
            acked_of (q_db q') = acked_of (q_db q) \<and> q_notify q' \<and>
            stored_bytes (q_events (q_db q')) \<le> unat (q_max_bytes q) \<and>
            length (q_events (q_db q')) \<le> unat (q_max_events q)) \<or>
         (\<exists>e. r = Inl e \<and> q' = q)"
proof (cases r)
  case (Inl e)
  then show ?thesis
    using res by (auto simp: enqueue_def split: prod.splits sum.splits dest: db_update_rollback)
next
  case (Inr ev)
  then obtain db' where tx: "enqueue_tx sdk q kind t payload (q_db q) = Inr (ev, db')"
    and q': "q' = q\<lparr>q_db := db', q_notify := True\<rparr>"
    using res by (auto simp: enqueue_def db_update_Inr_iff split: prod.splits sum.splits)
  from enqueue_tx_Inr [OF ok inv tx] q' Inr show ?thesis by auto
qed

subsection \<open>Batches\<close>

lemma batch_loop_prefix:
  assumes "list_all (entry_ok sdk) es"
  shows "\<exists>k \<le> length es. batch_loop sdk n b es acc bytes =
           Inr (acc @ map (\<lambda>e. the (sdk_unmarshal_event sdk (snd e))) (take k es)) \<and>
         (0 < k \<longrightarrow> int (length acc + k) \<le> n) \<and>
         (bytes + int (stored_bytes (take k es)) \<le> b \<or> k = 0 \<or> (acc = [] \<and> k = 1)) \<and>
         (k < length es \<longrightarrow> n \<le> int (length acc + k) \<or>
            (b < bytes + int (stored_bytes (take (Suc k) es)) \<and> 0 < length acc + k))"
  using assms
proof (induction es arbitrary: acc bytes)
  case Nil
  then show ?case by simp
next
  case (Cons e es)
  obtain key raw where e: "e = (key, raw)" by force
  from Cons.prems e obtain ev where dec: "sdk_unmarshal_event sdk raw = Some ev"
    by (auto simp: entry_ok_def)
  show ?case
  proof (cases "int (length acc) < n \<and> (b < bytes + int (length raw) \<longrightarrow> acc = [])")
    case True
    from Cons.IH [of "acc @ [ev]" "bytes + int (length raw)"] Cons.prems
    obtain k where k: "k \<le> length es"
      "batch_loop sdk n b es (acc @ [ev]) (bytes + int (length raw)) =
         Inr ((acc @ [ev]) @ map (\<lambda>e. the (sdk_unmarshal_event sdk (snd e))) (take k es))"
      "0 < k \<longrightarrow> int (length (acc @ [ev]) + k) \<le> n"
      "bytes + int (length raw) + int (stored_bytes (take k es)) \<le> b \<or> k = 0"
      "k < length es \<longrightarrow> n \<le> int (length (acc @ [ev]) + k) \<or>
         b < bytes + int (length raw) + int (stored_bytes (take (Suc k) es))"
      by auto
    have step: "batch_loop sdk n b (e # es) acc bytes =
        batch_loop sdk n b es (acc @ [ev]) (bytes + int (length raw))"
      using True dec e by auto
    show ?thesis
    proof (intro exI conjI)
      show "Suc k \<le> length (e # es)" using k(1) by simp
      show "batch_loop sdk n b (e # es) acc bytes =
          Inr (acc @ map (\<lambda>e. the (sdk_unmarshal_event sdk (snd e))) (take (Suc k) (e # es)))"
        using step k(2) dec e by simp
      show "0 < Suc k \<longrightarrow> int (length acc + Suc k) \<le> n"
        using True k(3) by (cases "k = 0") auto
      show "bytes + int (stored_bytes (take (Suc k) (e # es))) \<le> b \<or> Suc k = 0 \<or> acc = [] \<and> Suc k = 1"
        using True k(4) e by (cases "k = 0") auto
      show "Suc k < length (e # es) \<longrightarrow> n \<le> int (length acc + Suc k) \<or>
          b < bytes + int (stored_bytes (take (Suc (Suc k)) (e # es))) \<and> 0 < length acc + Suc k"
        using k(5) e by auto
    qed
  next
    case False
    then have "batch_loop sdk n b (e # es) acc bytes = Inr acc" using e by auto
    with False e show ?thesis by (intro exI [of _ 0]) auto
  qed
qed

definition batch_limit :: "int \<Rightarrow> int \<Rightarrow> int" where
  "batch_limit asked maximum = (if asked \<le> 0 \<or> maximum < asked then maximum else asked)"

lemma length_pending: "queue_inv sdk db \<Longrightarrow> length (pending_list sdk db) = next_of db - Suc (acked_of db)"
  using pending_sequences [of sdk db, THEN arg_cong, of length] by simp

lemma pending_nth_sequence:
  assumes "queue_inv sdk db" and "i < length (pending_list sdk db)"
  shows "unat (ev_sequence (pending_list sdk db ! i)) = Suc (acked_of db) + i"
proof -
  have n: "Suc (acked_of db) + i < next_of db"
    using assms(2) length_pending [OF assms(1)] by simp
  have "ev_sequence (pending_list sdk db ! i) = map ev_sequence (pending_list sdk db) ! i"
    using assms(2) by simp
  also have "\<dots> = of_nat (Suc (acked_of db) + i)"
    unfolding pending_sequences [OF assms(1)] using n by simp
  finally show ?thesis
    using n next_of_lt [of db] unat_of_nat_u64 [of "Suc (acked_of db) + i"] by simp
qed

lemma pending_after:
  assumes inv: "queue_inv sdk db" and s: "unat s = acked_of db + k" and k: "k \<le> length (pending_list sdk db)"
  shows "filter (\<lambda>ev. s < ev_sequence ev) (pending_list sdk db) = drop k (pending_list sdk db)"
proof -
  let ?p = "pending_list sdk db"
  have "filter (\<lambda>ev. s < ev_sequence ev) (take k ?p) = []"
    using pending_nth_sequence [OF inv] k s
    by (auto simp: filter_empty_conv in_set_conv_nth word_less_nat_alt)
  moreover have "filter (\<lambda>ev. s < ev_sequence ev) (drop k ?p) = drop k ?p"
    using pending_nth_sequence [OF inv] k s
    by (auto simp: filter_id_conv in_set_conv_nth word_less_nat_alt)
  ultimately show ?thesis
    by (metis append_Nil append_take_drop_id filter_append)
qed

lemma batch_Inr:
  assumes inv: "queue_inv sdk (q_db q)" and res: "batch sdk q max_events max_bytes = Inr b"
  obtains k where "0 < k" and "k \<le> length (pending_list sdk (q_db q))"
    and "batch_events b = take k (pending_list sdk (q_db q))"
    and "unat (first_sequence b) = Suc (acked_of (q_db q))"
    and "unat (last_sequence b) = acked_of (q_db q) + k"
    and "int k \<le> batch_limit max_events (sdk_max_batch_events sdk)"
    and "int (stored_bytes (take k (q_events (q_db q)))) \<le> batch_limit max_bytes (sdk_max_batch_bytes sdk) \<or> k = 1"
    and "batch_stream_id b = get_string (q_meta (q_db q)) key_stream_id"
proof -
  let ?es = "q_events (q_db q)" and ?p = "pending_list sdk (q_db q)"
  have entries: "list_all (entry_ok sdk) ?es" using inv by (simp add: queue_inv_def)
  obtain k where k: "k \<le> length ?es"
    "batch_loop sdk (batch_limit max_events (sdk_max_batch_events sdk)) (batch_limit max_bytes (sdk_max_batch_bytes sdk)) ?es [] 0
       = Inr (take k ?p)"
    "0 < k \<longrightarrow> int k \<le> batch_limit max_events (sdk_max_batch_events sdk)"
    "int (stored_bytes (take k ?es)) \<le> batch_limit max_bytes (sdk_max_batch_bytes sdk) \<or> k = 0 \<or> k = 1"
    using batch_loop_prefix [OF entries, of "batch_limit max_events (sdk_max_batch_events sdk)"
        "batch_limit max_bytes (sdk_max_batch_bytes sdk)" "[]" 0]
    by (auto simp: pending_list_def take_map)
  have len: "length ?p = length ?es" by (simp add: pending_list_def)
  from res k(2) have ne: "take k ?p \<noteq> []"
    and b: "b = \<lparr>batch_node_id = q_node_id q,
        batch_stream_id = get_string (q_meta (q_db q)) key_stream_id,
        first_sequence = ev_sequence (hd (take k ?p)), last_sequence = ev_sequence (last (take k ?p)),
        batch_events = take k ?p\<rparr>"
    by (auto simp: batch_def Let_def batch_limit_def split: if_splits)
  have k0: "0 < k" using ne by auto
  note seqs = pending_nth_sequence [OF inv]

  show ?thesis
  proof (rule that [OF k0])
    show "k \<le> length ?p" using k(1) len by simp
    show "batch_events b = take k ?p" by (simp add: b)
    show "unat (first_sequence b) = Suc (acked_of (q_db q))"
    proof -
      have "?p \<noteq> []" using ne by auto
      then show ?thesis using seqs [of 0] k0 by (simp add: b hd_conv_nth)
    qed
    have "last (take k ?p) = ?p ! (k - 1)"
      using k0 k(1) len ne by (simp add: last_conv_nth min_def)
    then show "unat (last_sequence b) = acked_of (q_db q) + k"
      using seqs [of "k - 1"] k0 k(1) len by (simp add: b)
    show "int k \<le> batch_limit max_events (sdk_max_batch_events sdk)" using k(3) k0 by simp
    show "int (stored_bytes (take k ?es)) \<le> batch_limit max_bytes (sdk_max_batch_bytes sdk) \<or> k = 1"
      using k(4) k0 by auto
    show "batch_stream_id b = get_string (q_meta (q_db q)) key_stream_id" by (simp add: b)
  qed
qed

text \<open>
  A batch can only fail because nothing is pending or because the SDK's validation refuses it:
  under the invariant every stored event decodes.
\<close>

lemma batch_total:
  assumes inv: "queue_inv sdk (q_db q)" and limit: "0 < batch_limit max_events (sdk_max_batch_events sdk)"
  shows "case batch sdk q max_events max_bytes of
           Inl e \<Rightarrow> (e = QueueEmpty \<and> pending_list sdk (q_db q) = []) \<or> e = InvalidBatch
         | Inr b \<Rightarrow> pending_list sdk (q_db q) \<noteq> []"
proof -
  let ?es = "q_events (q_db q)"
  have entries: "list_all (entry_ok sdk) ?es" using inv by (simp add: queue_inv_def)
  obtain k where k: "k \<le> length ?es"
    "batch_loop sdk (batch_limit max_events (sdk_max_batch_events sdk)) (batch_limit max_bytes (sdk_max_batch_bytes sdk)) ?es [] 0
       = Inr (take k (pending_list sdk (q_db q)))"
    "k < length ?es \<longrightarrow> batch_limit max_events (sdk_max_batch_events sdk) \<le> int k \<or> 0 < k"
    using batch_loop_prefix [OF entries, of "batch_limit max_events (sdk_max_batch_events sdk)"
        "batch_limit max_bytes (sdk_max_batch_bytes sdk)" "[]" 0]
    by (auto simp: pending_list_def take_map)
  have "k = 0 \<Longrightarrow> ?es = []" using k(3) limit by auto
  then have "take k (pending_list sdk (q_db q)) = [] \<longleftrightarrow> pending_list sdk (q_db q) = []"
    by (auto simp: pending_list_def)
  then show ?thesis
    using k(2) by (auto simp: batch_def Let_def batch_limit_def)
qed

lemma batch_loop_error: "batch_loop sdk n m es acc bytes = Inl e \<Longrightarrow> e = DecodeEventFailed"
  by (induction es arbitrary: acc bytes) (auto split: if_splits option.splits)

lemma batch_InvalidBatch:
  "batch sdk q n m = Inl InvalidBatch \<Longrightarrow>
   \<exists>b. batch_events b \<noteq> [] \<and> \<not> sdk_validate_event_batch sdk b"
  by (force simp: batch_def Let_def and_then_Inl_iff dest: batch_loop_error split: if_splits)

subsection \<open>Runs of the queue\<close>

text \<open>
  What can happen to a queue: enqueue, acknowledge (both with or without a storage fault), a
  reader taking the notification, and closing and reopening the database with any configuration.
\<close>

inductive queue_step :: "'p queue_sdk \<Rightarrow> queue \<Rightarrow> queue \<Rightarrow> bool" for sdk where
  step_enqueue: "enqueue sdk fault q kind t payload = (r, q') \<Longrightarrow> queue_step sdk q q'"
| step_acknowledge: "queue_acknowledge fault q stream_id sequence = (r, q') \<Longrightarrow> queue_step sdk q q'"
| step_notified: "queue_step sdk q (q\<lparr>q_notify := False\<rparr>)"
| step_reopen: "open_queue sdk os_fault init_fault new_id config (q_db q) = (Inr q', db) \<Longrightarrow> queue_step sdk q q'"

inductive queue_reach :: "'p queue_sdk \<Rightarrow> queue \<Rightarrow> queue \<Rightarrow> bool" for sdk q where
  reach_refl: "queue_reach sdk q q"
| reach_step: "queue_reach sdk q q' \<Longrightarrow> queue_step sdk q' q'' \<Longrightarrow> queue_reach sdk q q''"

lemma open_queue_Inr:
  assumes "open_queue sdk os_fault init_fault new_id config stored = (Inr q, db)"
  shows "q_db q = db \<and> (\<exists>u. initialize_tx new_id (cfg_node_id config) stored = Inr (u, db))"
  using assms by (auto simp: open_queue_def db_update_Inr_iff split: if_splits option.splits prod.splits sum.splits)

lemma queue_step_effect:
  assumes "queue_step sdk q q'" and ok: "queue_sdk_ok sdk" and inv: "queue_inv sdk (q_db q)"
  shows "queue_inv sdk (q_db q') \<and> acked_of (q_db q) \<le> acked_of (q_db q') \<and>
         next_of (q_db q) \<le> next_of (q_db q') \<and>
         (\<forall>ev \<in> set (pending_list sdk (q_db q)).
            ev \<in> set (pending_list sdk (q_db q')) \<or> unat (ev_sequence ev) \<le> acked_of (q_db q'))"
  using assms(1)
proof cases
  case (step_enqueue fault kind t payload r)
  from enqueue_cases [OF ok inv step_enqueue] inv show ?thesis by auto
next
  case (step_acknowledge fault stream_id sequence r)
  from queue_acknowledge_cases [OF inv step_acknowledge] inv show ?thesis
    by (auto simp: word_less_nat_alt)
next
  case step_notified
  with inv show ?thesis by simp
next
  case (step_reopen os_fault init_fault new_id config db)
  then obtain u where "initialize_tx new_id (cfg_node_id config) (q_db q) = Inr (u, q_db q')"
    using open_queue_Inr by blast
  from initialize_reopen [OF inv this] show ?thesis by (simp add: pending_list_def)
qed

lemma queue_reach_effect:
  assumes "queue_reach sdk q q'" and ok: "queue_sdk_ok sdk" and inv: "queue_inv sdk (q_db q)"
  shows "queue_inv sdk (q_db q') \<and> acked_of (q_db q) \<le> acked_of (q_db q') \<and>
         (\<forall>ev \<in> set (pending_list sdk (q_db q)).
            ev \<in> set (pending_list sdk (q_db q')) \<or> unat (ev_sequence ev) \<le> acked_of (q_db q'))"
  using assms(1)
proof induction
  case reach_refl
  with inv show ?case by simp
next
  case (reach_step q' q'')
  from queue_step_effect [OF reach_step.hyps(2) ok] reach_step.IH show ?case
    by (meson order_trans)
qed

subsection \<open>The sink interface\<close>

text \<open>
  The policy engine, the plugin supervisor and the address observer see the queue as an
  \<^verbatim>\<open>eventSink\<close>: one operation that appends an event or refuses it without effect.
\<close>

locale event_sink =
  fixes put_event :: "'q \<Rightarrow> string \<Rightarrow> time \<Rightarrow> 'p \<Rightarrow> ('e + event) \<times> 'q"
    and accepted :: "'q \<Rightarrow> event list"
    and sink_ok :: "'q \<Rightarrow> bool"
  assumes put_accepts: "sink_ok q \<Longrightarrow> put_event q kind t p = (Inr ev, q') \<Longrightarrow> accepted q' = accepted q @ [ev]"
    and put_refuses: "sink_ok q \<Longrightarrow> put_event q kind t p = (Inl e, q') \<Longrightarrow> accepted q' = accepted q"
    and put_ok: "sink_ok q \<Longrightarrow> put_event q kind t p = (r, q') \<Longrightarrow> sink_ok q'"
begin

lemma put_grows: "sink_ok q \<Longrightarrow> put_event q kind t p = (r, q') \<Longrightarrow> prefix (accepted q) (accepted q')"
  by (cases r) (auto dest: put_accepts put_refuses)

lemma put_length: "sink_ok q \<Longrightarrow> put_event q kind t p = (r, q') \<Longrightarrow>
    length (accepted q') = length (accepted q) + (case r of Inl _ \<Rightarrow> 0 | Inr _ \<Rightarrow> 1)"
  by (cases r) (auto dest: put_accepts put_refuses)

end

text \<open>The queue as a sink, its storage faults drawn from a schedule.\<close>

type_synonym queue_world = "queue \<times> queue_error option list"

definition enqueue_next ::
    "'p queue_sdk \<Rightarrow> queue_world \<Rightarrow> string \<Rightarrow> time \<Rightarrow> 'p \<Rightarrow> (queue_error + event) \<times> queue_world" where
  "enqueue_next sdk w kind t payload =
     (let (fault, faults) = pop_fault (snd w);
          (r, q) = enqueue sdk fault (fst w) kind t payload
      in (r, (q, faults)))"

definition sink_events :: "'p queue_sdk \<Rightarrow> queue_world \<Rightarrow> event list" where
  "sink_events sdk w = pending_list sdk (q_db (fst w))"

definition sink_inv :: "'p queue_sdk \<Rightarrow> queue_world \<Rightarrow> bool" where
  "sink_inv sdk w \<longleftrightarrow> queue_sdk_ok sdk \<and> queue_inv sdk (q_db (fst w))"

interpretation queue_sink: event_sink "enqueue_next sdk" "sink_events sdk" "sink_inv sdk" for sdk
proof unfold_locales
  fix w kind t p ev w'
  assume "sink_inv sdk w" "enqueue_next sdk w kind t p = (Inr ev, w')"
  then show "sink_events sdk w' = sink_events sdk w @ [ev]"
    using enqueue_cases [of sdk "fst w"]
    by (auto simp: enqueue_next_def sink_inv_def sink_events_def split: prod.splits) (metis Inl_Inr_False Inr_inject)
next
  fix w kind t p e w'
  assume "sink_inv sdk w" "enqueue_next sdk w kind t p = (Inl e, w')"
  then show "sink_events sdk w' = sink_events sdk w"
    using enqueue_cases [of sdk "fst w"]
    by (auto simp: enqueue_next_def sink_inv_def sink_events_def split: prod.splits) (metis Inl_Inr_False)
next
  fix w kind t p r w'
  assume "sink_inv sdk w" "enqueue_next sdk w kind t p = (r, w')"
  then show "sink_inv sdk w'"
    using enqueue_cases [of sdk "fst w"]
    by (auto simp: enqueue_next_def sink_inv_def split: prod.splits) metis
qed

subsection \<open>A concrete instance\<close>

text \<open>An SDK that satisfies \<open>queue_sdk_ok\<close>: the payload is the content, the document is the
  sequence, the time and the content.\<close>

definition sample_marshal :: "event \<Rightarrow> string option" where
  "sample_marshal e =
     (if 0 \<le> ev_observed_at e \<and> ev_observed_at e < 2 ^ 64 \<and> length (ev_content e) < 1000
      then Some (uint64_bytes (ev_sequence e) @ uint64_bytes (word_of_int (ev_observed_at e)) @ ev_content e)
      else None)"

definition sample_unmarshal :: "string \<Rightarrow> event option" where
  "sample_unmarshal raw =
     (if length raw < 16 then None
      else Some \<lparr>ev_sequence = read_uint64 (Some (take 8 raw)),
                 ev_observed_at = uint (read_uint64 (Some (take 8 (drop 8 raw)))),
                 ev_content = drop 16 raw\<rparr>)"

definition sample_sdk :: "string queue_sdk" where
  "sample_sdk =
     \<lparr>sdk_validate_node_id = (\<lambda>node. node \<noteq> []),
      sdk_new_event = (\<lambda>node stream sequence kind t payload.
        Some \<lparr>ev_sequence = sequence, ev_observed_at = t, ev_content = payload\<rparr>),
      sdk_marshal_event = sample_marshal,
      sdk_unmarshal_event = sample_unmarshal,
      sdk_validate_event_batch = (\<lambda>b. batch_events b \<noteq> []),
      sdk_max_event_sequence = max_int64,
      sdk_max_batch_events = 500,
      sdk_max_batch_bytes = 1048576\<rparr>"

definition sample_queue :: queue where
  "sample_queue =
     \<lparr>q_db = \<lparr>q_meta = put_uint64 key_next_sequence 1
                        (bucket_put key_stream_id ''stream-1'' (bucket_put key_node_id ''node-1'' [])),
              q_events = []\<rparr>,
      q_node_id = ''node-1'', q_max_bytes = 64, q_max_events = 2, q_notify = False\<rparr>"

definition sample_queue1 :: queue where
  "sample_queue1 = snd (enqueue sample_sdk None sample_queue ''access'' 7 ''first'')"

lemma sample_roundtrip: "sample_marshal e = Some raw \<Longrightarrow> sample_unmarshal raw = Some e \<and> length raw < 2 ^ 63"
  by (cases e) (auto simp: sample_marshal_def sample_unmarshal_def take_bit_int_eq_self unsigned_of_int
      split: if_splits)

lemma sample_sdk_ok: "queue_sdk_ok sample_sdk"
  using sample_roundtrip
  by (auto simp: queue_sdk_ok_def sample_sdk_def max_int64_def max_uint64_def)

lemma sample_queue_inv: "queue_inv sample_sdk (q_db sample_queue)"
  by (simp add: queue_inv_def sample_queue_def acked_of_def next_of_def sample_sdk_def)

lemma sample_enqueue:
  "enqueue sample_sdk None sample_queue ''access'' 7 ''first'' =
     (Inr \<lparr>ev_sequence = 1, ev_observed_at = 7, ev_content = ''first''\<rparr>, sample_queue1)"
  by (simp add: sample_queue1_def enqueue_def enqueue_tx_def db_update_def sample_queue_def
      sample_sdk_def sample_marshal_def max_int64_def Let_def)

lemma sample_queue1_facts:
  "queue_inv sample_sdk (q_db sample_queue1)"
  "pending_list sample_sdk (q_db sample_queue1) = [\<lparr>ev_sequence = 1, ev_observed_at = 7, ev_content = ''first''\<rparr>]"
  "acked_of (q_db sample_queue1) = 0" "next_of (q_db sample_queue1) = 2"
  "get_string (q_meta (q_db sample_queue1)) key_stream_id = ''stream-1''"
  using enqueue_cases [OF sample_sdk_ok sample_queue_inv sample_enqueue]
  by (simp_all add: sample_queue_def pending_list_def acked_of_def next_of_def sample_queue1_def
      enqueue_def enqueue_tx_def db_update_def sample_sdk_def sample_marshal_def max_int64_def Let_def)

subsection \<open>Properties\<close>

text \<open>C1. Enqueue refines appending to the abstract queue: an accepted event gets the next unused
  sequence number and becomes the last pending event, nothing else about the queue changes but the
  notification, and the capacity limits hold afterwards.\<close>

theorem enqueue_appends:
  assumes "queue_sdk_ok sdk" and "queue_inv sdk (q_db q)"
    and "enqueue sdk fault q kind t payload = (Inr ev, q')"
  shows "queue_inv sdk (q_db q') \<and>
         pending_list sdk (q_db q') = pending_list sdk (q_db q) @ [ev] \<and>
         unat (ev_sequence ev) = next_of (q_db q) \<and> next_of (q_db q') = Suc (next_of (q_db q)) \<and>
         acked_of (q_db q') = acked_of (q_db q) \<and> q_notify q' \<and>
         stored_bytes (q_events (q_db q')) \<le> unat (q_max_bytes q) \<and>
         length (pending_list sdk (q_db q')) \<le> unat (q_max_events q)"
proof -
  have "length (pending_list sdk (q_db q')) = length (q_events (q_db q'))"
    by (simp add: pending_list_def)
  then show ?thesis using enqueue_cases [OF assms] by auto
qed

theorem enqueue_appends_witness:
  "pending_list sample_sdk (q_db sample_queue1) =
     pending_list sample_sdk (q_db sample_queue) @ [\<lparr>ev_sequence = 1, ev_observed_at = 7, ev_content = ''first''\<rparr>]"
  using enqueue_appends [OF sample_sdk_ok sample_queue_inv sample_enqueue] by blast

text \<open>Enqueue fails for want of room exactly when the encoded event does not fit beside the
  pending bytes or the event limit is reached.\<close>

theorem enqueue_full_exactly:
  assumes "queue_sdk_ok sdk" and "queue_inv sdk (q_db q)"
    and "next_of (q_db q) \<le> unat (sdk_max_event_sequence sdk)"
    and "sdk_new_event sdk (q_node_id q) (get_string (q_meta (q_db q)) key_stream_id)
               (of_nat (next_of (q_db q))) kind t payload = Some ev"
    and "sdk_marshal_event sdk ev = Some raw"
  shows "fst (enqueue sdk None q kind t payload) = Inl QueueFull \<longleftrightarrow>
           unat (q_max_bytes q) < stored_bytes (q_events (q_db q)) + length raw \<or>
           unat (q_max_events q) \<le> length (q_events (q_db q))"
proof -
  have ev: "sdk_new_event sdk (q_node_id q) (get_string (q_meta (q_db q)) key_stream_id)
               (meta_u64 (q_db q) key_next_sequence) kind t payload = Some ev"
    using assms(4) by (simp add: next_of_def)
  show ?thesis
    unfolding enqueue_full_iff [OF assms(1-3) ev assms(5), symmetric]
    by (auto simp: enqueue_def db_update_def split: sum.splits)
qed

theorem enqueue_full_exactly_witness:
  "fst (enqueue sample_sdk None sample_queue1 ''access'' 7 (replicate 40 CHR ''x'')) = Inl QueueFull"
proof -
  let ?p = "replicate 40 CHR ''x''"
  let ?ev = "\<lparr>ev_sequence = 2, ev_observed_at = 7, ev_content = ?p\<rparr>"
  let ?raw = "uint64_bytes 2 @ uint64_bytes 7 @ ?p"
  have room: "next_of (q_db sample_queue1) \<le> unat (sdk_max_event_sequence sample_sdk)"
    by (simp add: sample_queue1_facts sample_sdk_def)
  have ev: "sdk_new_event sample_sdk (q_node_id sample_queue1)
      (get_string (q_meta (q_db sample_queue1)) key_stream_id) (of_nat (next_of (q_db sample_queue1))) ''access'' 7 ?p = Some ?ev"
    by (simp add: sample_sdk_def sample_queue1_facts)
  have raw: "sdk_marshal_event sample_sdk ?ev = Some ?raw"
    by (simp add: sample_sdk_def sample_marshal_def)
  have "bucket_put k v [] = [(k, v)]" "bucket_get [(k, v)] k' = (if k' = k then Some v else None)"
    for k k' v :: string
    by (simp_all add: bucket_put.simps bucket_get_def)
  then have "stored_bytes (q_events (q_db sample_queue1)) = 21 \<and> q_max_bytes sample_queue1 = 64"
    by (simp add: sample_queue1_def enqueue_def enqueue_tx_def db_update_def sample_queue_def
        sample_sdk_def sample_marshal_def max_int64_def Let_def)
  with enqueue_full_exactly [OF sample_sdk_ok sample_queue1_facts(1) room ev raw] show ?thesis by simp
qed

text \<open>Acknowledging a sequence the center may acknowledge always succeeds without a storage
  fault (the accounting never disagrees), removes exactly the events up to that sequence, keeps the
  rest in order and moves the acknowledged mark forward only.\<close>

theorem acknowledge_removes_exactly:
  assumes "queue_inv sdk (q_db q)" and "stream_id = get_string (q_meta (q_db q)) key_stream_id"
    and "sequence \<noteq> 0" and "unat sequence < next_of (q_db q)"
  shows "\<exists>q'. queue_acknowledge None q stream_id sequence = (Inr (), q') \<and> queue_inv sdk (q_db q') \<and>
           pending_list sdk (q_db q') = filter (\<lambda>ev. sequence < ev_sequence ev) (pending_list sdk (q_db q)) \<and>
           acked_of (q_db q') = max (acked_of (q_db q)) (unat sequence) \<and>
           next_of (q_db q') = next_of (q_db q)"
  using assms by (rule acknowledge_ok)

theorem acknowledge_removes_exactly_witness:
  "\<exists>q'. queue_acknowledge None sample_queue1 ''stream-1'' 1 = (Inr (), q') \<and>
        pending_list sample_sdk (q_db q') = [] \<and> acked_of (q_db q') = 1"
  using acknowledge_removes_exactly [OF sample_queue1_facts(1), of "''stream-1''" 1] sample_queue1_facts
  by auto

text \<open>C2. At-least-once delivery: whatever enqueues, acknowledgements, storage faults and restarts
  happen, the queue stays consistent, and an event that was accepted is still pending unless the
  center has acknowledged its sequence number.\<close>

theorem no_event_lost:
  assumes "queue_sdk_ok sdk" and "queue_inv sdk (q_db q)" and "queue_reach sdk q q'"
    and "ev \<in> set (pending_list sdk (q_db q))"
  shows "queue_inv sdk (q_db q') \<and>
         (ev \<in> set (pending_list sdk (q_db q')) \<or> unat (ev_sequence ev) \<le> acked_of (q_db q'))"
  using queue_reach_effect [OF assms(3,1,2)] assms(4) by blast

theorem no_event_lost_witness:
  "\<exists>q'. \<exists>ev :: event. queue_reach sample_sdk sample_queue1 q' \<and> ev_sequence ev = 1 \<and>
       unat (ev_sequence ev) \<le> acked_of (q_db q')"
proof -
  let ?ev = "\<lparr>ev_sequence = 1, ev_observed_at = 7, ev_content = ''first''\<rparr>"
  obtain q' where q': "queue_acknowledge None sample_queue1 ''stream-1'' 1 = (Inr (), q')"
      "pending_list sample_sdk (q_db q') = []"
    using acknowledge_ok [OF sample_queue1_facts(1), of "''stream-1''" 1] sample_queue1_facts by auto
  have reach: "queue_reach sample_sdk sample_queue1 q'"
    by (rule reach_step [OF reach_refl step_acknowledge [OF q'(1)]])
  have mem: "?ev \<in> set (pending_list sample_sdk (q_db sample_queue1))"
    by (simp add: sample_queue1_facts)
  have "unat (ev_sequence ?ev) \<le> acked_of (q_db q')"
    using no_event_lost [OF sample_sdk_ok sample_queue1_facts(1) reach mem] q'(2) by simp
  with reach show ?thesis by (intro exI [of _ q'] exI [of _ ?ev] conjI) simp_all
qed

text \<open>A batch is the front of the queue: consecutive sequence numbers from the first
  unacknowledged one, within the event limit, and within the byte limit unless it is a single
  event. Acknowledging its last sequence leaves exactly the events after the batch.\<close>

theorem batch_then_acknowledge:
  assumes "queue_inv sdk (q_db q)" and "batch sdk q max_events max_bytes = Inr b"
  shows "\<exists>k q'. 0 < k \<and> batch_events b = take k (pending_list sdk (q_db q)) \<and>
           unat (first_sequence b) = Suc (acked_of (q_db q)) \<and>
           unat (last_sequence b) = acked_of (q_db q) + k \<and>
           int k \<le> batch_limit max_events (sdk_max_batch_events sdk) \<and>
           (int (stored_bytes (take k (q_events (q_db q)))) \<le> batch_limit max_bytes (sdk_max_batch_bytes sdk) \<or> k = 1) \<and>
           queue_acknowledge None q (batch_stream_id b) (last_sequence b) = (Inr (), q') \<and>
           pending_list sdk (q_db q') = drop k (pending_list sdk (q_db q))"
proof -
  let ?p = "pending_list sdk (q_db q)"
  obtain k where k: "0 < k" "k \<le> length ?p" "batch_events b = take k ?p"
    "unat (first_sequence b) = Suc (acked_of (q_db q))" "unat (last_sequence b) = acked_of (q_db q) + k"
    "int k \<le> batch_limit max_events (sdk_max_batch_events sdk)"
    "int (stored_bytes (take k (q_events (q_db q)))) \<le> batch_limit max_bytes (sdk_max_batch_bytes sdk) \<or> k = 1"
    "batch_stream_id b = get_string (q_meta (q_db q)) key_stream_id"
    by (rule batch_Inr [OF assms])
  have low: "last_sequence b \<noteq> 0" using k(1,5) by auto
  have "acked_of (q_db q) < next_of (q_db q)" using assms(1) by (simp add: queue_inv_def)
  then have high: "unat (last_sequence b) < next_of (q_db q)"
    using k(2,5) length_pending [OF assms(1)] by linarith
  from acknowledge_ok [OF assms(1) k(8) low high] obtain q' where
    q': "queue_acknowledge None q (batch_stream_id b) (last_sequence b) = (Inr (), q')"
    "pending_list sdk (q_db q') = filter (\<lambda>ev. last_sequence b < ev_sequence ev) ?p" by blast
  have "filter (\<lambda>ev. last_sequence b < ev_sequence ev) ?p = drop k ?p"
    by (rule pending_after [OF assms(1) k(5,2)])
  then show ?thesis using k(1,3-7) q' by (intro exI [of _ k] exI [of _ q']) simp
qed

theorem batch_then_acknowledge_witness:
  "\<exists>b q'. batch sample_sdk sample_queue1 10 1000 = Inr b \<and>
     queue_acknowledge None sample_queue1 (batch_stream_id b) (last_sequence b) = (Inr (), q')"
proof -
  have "0 < batch_limit 10 (sdk_max_batch_events sample_sdk)"
    by (simp add: batch_limit_def sample_sdk_def)
  note batch_total [OF sample_queue1_facts(1) this, of 1000]
  moreover have "batch sample_sdk sample_queue1 10 1000 \<noteq> Inl InvalidBatch"
  proof
    assume "batch sample_sdk sample_queue1 10 1000 = Inl InvalidBatch"
    then obtain b where "batch_events b \<noteq> []" "\<not> sdk_validate_event_batch sample_sdk b"
      using batch_InvalidBatch by blast
    then show False by (simp add: sample_sdk_def)
  qed
  ultimately have "\<exists>b. batch sample_sdk sample_queue1 10 1000 = Inr b"
    by (cases "batch sample_sdk sample_queue1 10 1000") (auto simp: sample_queue1_facts)
  then obtain b where b: "batch sample_sdk sample_queue1 10 1000 = Inr b" ..
  from batch_then_acknowledge [OF sample_queue1_facts(1) b] b show ?thesis by blast
qed

end
