(* ===== verification/EventUpload.thy ===== *)
theory EventUpload
  imports EventQueue
begin

section \<open>Uploading events (internal/agent/events.go)\<close>

text \<open>
  The uploader takes a batch from the durable queue, sends it to the center as compressed JSON and
  acknowledges in the queue what the center has acknowledged. \<open>upload_once\<close> is \<^verbatim>\<open>uploadOnce\<close> with all of
  its early returns; \<open>upload_run\<close> is the loop of \<^verbatim>\<open>Run\<close> over a finite list of rounds, each of
  which says what the world does in it: the events that are enqueued, the answer of the center, a storage
  fault, the cancellation of the context and how the wait ended.

  Marshalling, gzip, the request constructor and the decoder of the acknowledgement are the fields of
  \<open>upload_sdk\<close>; \<open>network\<close> maps the body that is sent to the response.
\<close>

record event_ack =
  ack_stream_id :: string
  ack_highest :: u64

record http_response =
  hr_status :: int
  hr_body :: "string option"

record upload_sdk =
  up_marshal_batch :: "event_batch \<Rightarrow> string option"
  up_compress :: "string \<Rightarrow> string option"
  up_request_ok :: "string \<Rightarrow> bool"
  up_decode_ack :: "string \<Rightarrow> event_ack option"
  up_max_compressed :: nat

record event_uploader =
  eu_endpoint :: string
  eu_queue :: queue

datatype fatal_upload_error =
    ReadQueueFailed queue_error | EncodeBatchFailed | CompressBatchFailed | CompressedTooLarge | CreateRequestFailed
  | PersistAckFailed queue_error

datatype upload_trouble =
    EndpointUnavailable | ReadAckFailed | AckTooLarge | UnexpectedStatus int | InvalidAck | AckOutsideBatch

datatype upload_failure = Fatal fatal_upload_error | Transient upload_trouble

definition event_upload_batch_bytes :: int where
  "event_upload_batch_bytes = 512 * 2 ^ 10"

definition maximum_event_ack_response_bytes :: nat where
  "maximum_event_ack_response_bytes = 64 * 2 ^ 10"

definition http_ok :: int where "http_ok = 200"

subsection \<open>One upload\<close>

text \<open>From the response to the acknowledgement of the batch, or the reason to try again.\<close>

definition check_ack :: "upload_sdk \<Rightarrow> event_batch \<Rightarrow> http_response option \<Rightarrow> upload_trouble + event_ack" where
  "check_ack up b response =
     (case response of
        None \<Rightarrow> Inl EndpointUnavailable
      | Some r \<Rightarrow>
        (case hr_body r of
           None \<Rightarrow> Inl ReadAckFailed
         | Some content \<Rightarrow>
           let body = take (Suc maximum_event_ack_response_bytes) content
           in if maximum_event_ack_response_bytes < length body then Inl AckTooLarge
              else if hr_status r \<noteq> http_ok then Inl (UnexpectedStatus (hr_status r))
              else (case up_decode_ack up body of
                 None \<Rightarrow> Inl InvalidAck
               | Some ack \<Rightarrow>
                   if ack_stream_id ack \<noteq> batch_stream_id b \<or> ack_highest ack < first_sequence b \<or>
                      last_sequence b < ack_highest ack
                   then Inl AckOutsideBatch else Inr ack)))"

text \<open>The request body for a batch.\<close>

definition encode_upload :: "upload_sdk \<Rightarrow> event_batch \<Rightarrow> fatal_upload_error + string" where
  "encode_upload up b =
     (case up_marshal_batch up b of
        None \<Rightarrow> Inl EncodeBatchFailed
      | Some raw \<Rightarrow>
        (case up_compress up raw of
           None \<Rightarrow> Inl CompressBatchFailed
         | Some compressed \<Rightarrow>
             if up_max_compressed up < length compressed then Inl CompressedTooLarge else Inr compressed))"

definition upload_once ::
    "'p queue_sdk \<Rightarrow> upload_sdk \<Rightarrow> (string \<Rightarrow> http_response option) \<Rightarrow> queue_error option \<Rightarrow> event_uploader
     \<Rightarrow> (bool \<times> upload_failure option) \<times> event_uploader" where
  "upload_once sdk up network fault u =
     (case batch sdk (eu_queue u) (sdk_max_batch_events sdk) event_upload_batch_bytes of
        Inl QueueEmpty \<Rightarrow> ((False, None), u)
      | Inl e \<Rightarrow> ((False, Some (Fatal (ReadQueueFailed e))), u)
      | Inr b \<Rightarrow>
        (case encode_upload up b of
           Inl e \<Rightarrow> ((True, Some (Fatal e)), u)
         | Inr body \<Rightarrow>
             if \<not> up_request_ok up (eu_endpoint u) then ((True, Some (Fatal CreateRequestFailed)), u)
             else (case check_ack up b (network body) of
                Inl t \<Rightarrow> ((True, Some (Transient t)), u)
              | Inr ack \<Rightarrow>
                  (case queue_acknowledge fault (eu_queue u) (ack_stream_id ack) (ack_highest ack) of
                     (Inl e, q) \<Rightarrow> ((True, Some (Fatal (PersistAckFailed e))), u\<lparr>eu_queue := q\<rparr>)
                   | (Inr _, q) \<Rightarrow> ((True, None), u\<lparr>eu_queue := q\<rparr>)))))"

subsection \<open>The loop\<close>

text \<open>Durations in nanoseconds. \<^verbatim>\<open>Run\<close> answers an upload with the next wait, or returns.\<close>

definition minute :: int where "minute = 60 * second"
definition brief_delay :: int where "brief_delay = 100 * 1000000"

datatype loop_action = Wait (wait_delay: int) (wake_on_event: bool) (next_backoff: int) | Return "fatal_upload_error option"

definition loop_action :: "bool \<Rightarrow> bool \<times> upload_failure option \<Rightarrow> int \<Rightarrow> loop_action" where
  "loop_action cancelled result backoff =
     (if cancelled then Return None
      else case snd result of
        None \<Rightarrow> Wait (if fst result then brief_delay else second) True second
      | Some (Fatal e) \<Rightarrow> Return (Some e)
      | Some (Transient t) \<Rightarrow> Wait backoff False (if minute < 2 * backoff then minute else 2 * backoff))"

record 'p round =
  rd_enqueued :: "(string \<times> time \<times> 'p) list"
  rd_network :: "string \<Rightarrow> http_response option"
  rd_fault :: "queue_error option"
  rd_cancelled :: bool
  rd_waited :: bool

definition enqueue_all :: "'p queue_sdk \<Rightarrow> (string \<times> time \<times> 'p) list \<Rightarrow> queue \<Rightarrow> queue" where
  "enqueue_all sdk es q = fold (\<lambda>(kind, t, payload) q. snd (enqueue sdk None q kind t payload)) es q"

datatype run_result = Stopped "fatal_upload_error option" | Running

fun upload_run ::
    "'p queue_sdk \<Rightarrow> upload_sdk \<Rightarrow> 'p round list \<Rightarrow> int \<Rightarrow> event_uploader \<Rightarrow> run_result \<times> int list \<times> event_uploader" where
  "upload_run sdk up [] backoff u = (Running, [], u)"
| "upload_run sdk up (r # rs) backoff u =
     (let u = u\<lparr>eu_queue := enqueue_all sdk (rd_enqueued r) (eu_queue u)\<rparr>;
          (result, u) = upload_once sdk up (rd_network r) (rd_fault r) u
      in case loop_action (rd_cancelled r) result backoff of
           Return e \<Rightarrow> (Stopped e, [], u)
         | Wait delay wake backoff \<Rightarrow>
             if \<not> rd_waited r then (Stopped None, [delay], u)
             else (let (out, delays, u) = upload_run sdk up rs backoff u in (out, delay # delays, u)))"

definition event_upload_loop ::
    "'p queue_sdk \<Rightarrow> upload_sdk \<Rightarrow> 'p round list \<Rightarrow> event_uploader \<Rightarrow> run_result \<times> int list \<times> event_uploader" where
  "event_upload_loop sdk up rs u = upload_run sdk up rs second u"

subsection \<open>One upload removes what the center acknowledged\<close>

lemma check_ack_Inr:
  "check_ack up b response = Inr ack \<Longrightarrow>
   ack_stream_id ack = batch_stream_id b \<and> first_sequence b \<le> ack_highest ack \<and> ack_highest ack \<le> last_sequence b \<and>
   (\<exists>r content. response = Some r \<and> hr_status r = http_ok \<and> hr_body r = Some content \<and>
      length content \<le> maximum_event_ack_response_bytes \<and> up_decode_ack up content = Some ack)"
  by (auto simp: check_ack_def Let_def not_less split: option.splits if_splits)

lemma upload_once_cases [consumes 2, case_names empty unchanged acknowledged]:
  assumes "upload_once sdk up network fault u = ((had, failure), u')" and inv: "queue_inv sdk (q_db (eu_queue u))"
  obtains "had = False" "failure = None" "u' = u" "batch sdk (eu_queue u) (sdk_max_batch_events sdk) event_upload_batch_bytes = Inl QueueEmpty"
  | f where "failure = Some f" "u' = u"
  | b body ack q' where "had = True" "failure = None" "u' = u\<lparr>eu_queue := q'\<rparr>"
      "batch sdk (eu_queue u) (sdk_max_batch_events sdk) event_upload_batch_bytes = Inr b" "encode_upload up b = Inr body"
      "check_ack up b (network body) = Inr ack" "queue_acknowledge fault (eu_queue u) (ack_stream_id ack) (ack_highest ack) = (Inr (), q')"
proof (cases "batch sdk (eu_queue u) (sdk_max_batch_events sdk) event_upload_batch_bytes")
  case (Inl e)
  with assms(1) that(1,2) show ?thesis by (cases e) (auto simp: upload_once_def)
next
  case b: (Inr b)
  show ?thesis
  proof (cases "encode_upload up b")
    case (Inl e)
    with assms(1) b that(2) show ?thesis by (auto simp: upload_once_def)
  next
    case body: (Inr body)
    show ?thesis
    proof (cases "\<not> up_request_ok up (eu_endpoint u)")
      case True
      with assms(1) b body that(2) show ?thesis by (auto simp: upload_once_def)
    next
      case False
      show ?thesis
      proof (cases "check_ack up b (network body)")
        case (Inl t)
        with assms(1) b body False that(2) show ?thesis by (auto simp: upload_once_def)
      next
        case ack: (Inr ack)
        obtain r q' where r: "queue_acknowledge fault (eu_queue u) (ack_stream_id ack) (ack_highest ack) = (r, q')" by force
        show ?thesis
        proof (cases r)
          case (Inl e)
          have "q' = eu_queue u" using queue_acknowledge_cases [OF inv r] Inl by simp
          with assms(1) b body False ack r Inl that(2) show ?thesis by (auto simp: upload_once_def)
        next
          case (Inr x)
          with assms(1) b body False ack r that(3) show ?thesis by (auto simp: upload_once_def)
        qed
      qed
    qed
  qed
qed

lemma upload_once_effect:
  assumes "upload_once sdk up network fault u = ((had, failure), u')" and inv: "queue_inv sdk (q_db (eu_queue u))"
  shows "queue_inv sdk (q_db (eu_queue u')) \<and>
    (u' = u \<or> failure = None \<and> had \<and>
       (\<exists>b body ack r content. batch sdk (eu_queue u) (sdk_max_batch_events sdk) event_upload_batch_bytes = Inr b \<and>
          encode_upload up b = Inr body \<and> network body = Some r \<and> hr_status r = http_ok \<and> hr_body r = Some content \<and>
          up_decode_ack up content = Some ack \<and> first_sequence b \<le> ack_highest ack \<and> ack_highest ack \<le> last_sequence b \<and>
          acked_of (q_db (eu_queue u')) = unat (ack_highest ack) \<and>
          pending_list sdk (q_db (eu_queue u')) =
            filter (\<lambda>ev. ack_highest ack < ev_sequence ev) (pending_list sdk (q_db (eu_queue u)))))"
  using assms
proof (cases rule: upload_once_cases)
  case (acknowledged b body ack q')
  note c = check_ack_Inr [OF acknowledged(6)]
  note a = queue_acknowledge_cases [OF inv acknowledged(7)]
  have first: "unat (first_sequence b) = Suc (acked_of (q_db (eu_queue u)))"
    by (rule batch_Inr [OF inv acknowledged(4)])
  have "unat (first_sequence b) \<le> unat (ack_highest ack)" using c by (simp add: word_le_nat_alt)
  then have "max (acked_of (q_db (eu_queue u))) (unat (ack_highest ack)) = unat (ack_highest ack)"
    using first by simp
  with a c acknowledged show ?thesis by auto
qed (use inv in auto)

subsection \<open>A center that acknowledges drains the queue\<close>

definition queue_stream :: "queue \<Rightarrow> string" where
  "queue_stream q = get_string (q_meta (q_db q)) key_stream_id"

lemma acknowledge_keeps_stream:
  "queue_acknowledge fault q stream_id s = (r, q') \<Longrightarrow> queue_stream q' = queue_stream q"
  by (auto simp: queue_acknowledge_def db_update_def acknowledge_tx_def queue_stream_def Let_def and_then_Inr_iff
      split: sum.splits option.splits if_splits)

lemma acknowledge_keeps_node: "queue_acknowledge fault q stream_id s = (r, q') \<Longrightarrow> q_node_id q' = q_node_id q"
  by (auto simp: queue_acknowledge_def split: prod.splits)

text \<open>The batch of \<open>k\<close> consecutive pending events from the \<open>i\<close>th on, as \<^verbatim>\<open>Batch\<close> puts it together.\<close>

definition consecutive_batch :: "'p queue_sdk \<Rightarrow> queue \<Rightarrow> nat \<Rightarrow> nat \<Rightarrow> event_batch" where
  "consecutive_batch sdk q i k =
     (let events = take k (drop i (pending_list sdk (q_db q)))
      in \<lparr>batch_node_id = q_node_id q, batch_stream_id = queue_stream q, first_sequence = ev_sequence (hd events),
          last_sequence = ev_sequence (last events), batch_events = events\<rparr>)"

lemma consecutive_batch_drop:
  assumes "pending_list sdk (q_db q') = drop m (pending_list sdk (q_db q))" and "queue_stream q' = queue_stream q" and "q_node_id q' = q_node_id q"
  shows "consecutive_batch sdk q' i k = consecutive_batch sdk q (m + i) k"
  using assms by (simp add: consecutive_batch_def add.commute)

lemma batch_is_consecutive:
  assumes inv: "queue_inv sdk (q_db q)" and limit: "0 < batch_limit n (sdk_max_batch_events sdk)"
  obtains "pending_list sdk (q_db q) = []" "batch sdk q n m = Inl QueueEmpty"
  | k where "0 < k" "k \<le> length (pending_list sdk (q_db q))"
      "batch sdk q n m = (if sdk_validate_event_batch sdk (consecutive_batch sdk q 0 k) then Inr (consecutive_batch sdk q 0 k) else Inl InvalidBatch)"
proof -
  let ?p = "pending_list sdk (q_db q)"
  have entries: "list_all (entry_ok sdk) (q_events (q_db q))" using inv by (simp add: queue_inv_def)
  obtain k where k: "k \<le> length ?p" "k < length ?p \<longrightarrow> 0 < k" and
    loop: "batch_loop sdk (batch_limit n (sdk_max_batch_events sdk)) (batch_limit m (sdk_max_batch_bytes sdk)) (q_events (q_db q)) [] 0
      = Inr (take k ?p)"
    using batch_loop_prefix [OF entries, of "batch_limit n (sdk_max_batch_events sdk)" "batch_limit m (sdk_max_batch_bytes sdk)" "[]" 0] limit
    by (auto simp: pending_list_def take_map)
  show ?thesis
  proof (cases "k = 0")
    case True
    with k have "?p = []" by auto
    with loop show ?thesis by (intro that(1)) (simp_all add: batch_def Let_def batch_limit_def)
  next
    case False
    with k have "take k ?p \<noteq> []" by auto
    with loop k False show ?thesis
      by (intro that(2) [of k]) (simp_all add: batch_def Let_def batch_limit_def consecutive_batch_def queue_stream_def)
  qed
qed

text \<open>What is assumed of the center: it answers the upload of a batch of this queue's events with status 200 and an acknowledgement of the
  stream up to some event of that batch, which need not be the last one. Nothing is assumed of the validation and the encoding on the
  agent's side: \<open>upload_refused\<close> names the three ways in which they can refuse a batch.\<close>

definition center_acknowledges ::
    "'p queue_sdk \<Rightarrow> upload_sdk \<Rightarrow> queue \<Rightarrow> (string \<Rightarrow> http_response option) \<Rightarrow> bool" where
  "center_acknowledges sdk up q network \<longleftrightarrow>
     (\<forall>i k body. 0 < k \<longrightarrow> i + k \<le> length (pending_list sdk (q_db q)) \<longrightarrow> encode_upload up (consecutive_batch sdk q i k) = Inr body \<longrightarrow>
        (\<exists>r content ack. network body = Some r \<and> hr_status r = http_ok \<and> hr_body r = Some content \<and>
           length content \<le> maximum_event_ack_response_bytes \<and> up_decode_ack up content = Some ack \<and> ack_stream_id ack = queue_stream q \<and>
           first_sequence (consecutive_batch sdk q i k) \<le> ack_highest ack \<and> ack_highest ack \<le> last_sequence (consecutive_batch sdk q i k)))"

definition upload_refused :: "'p queue_sdk \<Rightarrow> upload_sdk \<Rightarrow> string \<Rightarrow> event_batch \<Rightarrow> fatal_upload_error \<Rightarrow> bool" where
  "upload_refused sdk up endpoint b e \<longleftrightarrow>
     (\<not> sdk_validate_event_batch sdk b \<and> e = ReadQueueFailed InvalidBatch) \<or> encode_upload up b = Inl e \<or>
     (\<not> up_request_ok up endpoint \<and> e = CreateRequestFailed)"

lemma center_acknowledges_drop:
  assumes "center_acknowledges sdk up q network" and "pending_list sdk (q_db q') = drop m (pending_list sdk (q_db q))"
    and "queue_stream q' = queue_stream q" and "q_node_id q' = q_node_id q"
  shows "center_acknowledges sdk up q' network"
  unfolding center_acknowledges_def consecutive_batch_drop [OF assms(2-4)]
proof (intro allI impI)
  fix i k body assume "0 < k" "i + k \<le> length (pending_list sdk (q_db q'))" "encode_upload up (consecutive_batch sdk q (m + i) k) = Inr body"
  moreover from this assms(2) have "m + i + k \<le> length (pending_list sdk (q_db q))" by auto
  ultimately show "\<exists>r content ack. network body = Some r \<and> hr_status r = http_ok \<and> hr_body r = Some content \<and>
      length content \<le> maximum_event_ack_response_bytes \<and> up_decode_ack up content = Some ack \<and> ack_stream_id ack = queue_stream q' \<and>
      first_sequence (consecutive_batch sdk q (m + i) k) \<le> ack_highest ack \<and> ack_highest ack \<le> last_sequence (consecutive_batch sdk q (m + i) k)"
    using assms(1) unfolding center_acknowledges_def assms(3) by blast
qed

text \<open>One round with such a center: nothing to do, a refused batch, or at least the first pending event is delivered.\<close>

lemma upload_once_delivers [consumes 3, case_names empty refused delivered]:
  assumes center: "center_acknowledges sdk up (eu_queue u) network" and inv: "queue_inv sdk (q_db (eu_queue u))"
    and limit: "0 < sdk_max_batch_events sdk"
  obtains "pending_list sdk (q_db (eu_queue u)) = []" "upload_once sdk up network None u = ((False, None), u)"
  | had e k where "upload_once sdk up network None u = ((had, Some (Fatal e)), u)" "0 < k" "k \<le> length (pending_list sdk (q_db (eu_queue u)))"
      "upload_refused sdk up (eu_endpoint u) (consecutive_batch sdk (eu_queue u) 0 k) e"
  | m u' where "upload_once sdk up network None u = ((True, None), u')" "0 < m" "m \<le> length (pending_list sdk (q_db (eu_queue u)))"
      "queue_inv sdk (q_db (eu_queue u'))" "eu_endpoint u' = eu_endpoint u" "queue_stream (eu_queue u') = queue_stream (eu_queue u)"
      "q_node_id (eu_queue u') = q_node_id (eu_queue u)" "pending_list sdk (q_db (eu_queue u')) = drop m (pending_list sdk (q_db (eu_queue u)))"
proof -
  let ?q = "eu_queue u" and ?p = "pending_list sdk (q_db (eu_queue u))"
  let ?batch = "batch sdk ?q (sdk_max_batch_events sdk) event_upload_batch_bytes"
  have "0 < batch_limit (sdk_max_batch_events sdk) (sdk_max_batch_events sdk)" using limit by (simp add: batch_limit_def)
  from inv this show ?thesis
  proof (cases rule: batch_is_consecutive [where m = event_upload_batch_bytes])
    case 1
    then show ?thesis by (intro that(1)) (simp_all add: upload_once_def)
  next
    case (2 k)
    let ?b = "consecutive_batch sdk ?q 0 k"
    show ?thesis
    proof (cases "sdk_validate_event_batch sdk ?b")
      case False
      with 2 show ?thesis by (intro that(2) [of False "ReadQueueFailed InvalidBatch" k]) (simp_all add: upload_once_def upload_refused_def)
    next
      case True
      with 2(3) have b: "?batch = Inr ?b" by simp
      show ?thesis
      proof (cases "encode_upload up ?b")
        case (Inl e)
        with b 2(1,2) show ?thesis by (intro that(2) [of True e k]) (simp_all add: upload_once_def upload_refused_def)
      next
        case body: (Inr body)
        show ?thesis
        proof (cases "up_request_ok up (eu_endpoint u)")
          case False
          with b body 2(1,2) show ?thesis by (intro that(2) [of True CreateRequestFailed k]) (simp_all add: upload_once_def upload_refused_def)
        next
          case req: True
          obtain r content ack where c: "network body = Some r" "hr_status r = http_ok" "hr_body r = Some content"
            "length content \<le> maximum_event_ack_response_bytes" "up_decode_ack up content = Some ack" "ack_stream_id ack = queue_stream ?q"
            "first_sequence ?b \<le> ack_highest ack" "ack_highest ack \<le> last_sequence ?b"
            using center 2(1,2) body unfolding center_acknowledges_def by (metis add_0)
          have check: "check_ack up ?b (network body) = Inr ack"
            using c(1-6) leD [OF c(7)] leD [OF c(8)] by (simp add: check_ack_def Let_def consecutive_batch_def)
          obtain k' where k': "k' \<le> length ?p" "unat (first_sequence ?b) = Suc (acked_of (q_db ?q))" "unat (last_sequence ?b) = acked_of (q_db ?q) + k'"
            by (rule batch_Inr [OF inv b])
          define m where "m = unat (ack_highest ack) - acked_of (q_db ?q)"
          have m: "unat (ack_highest ack) = acked_of (q_db ?q) + m" "0 < m" "m \<le> length ?p"
            using c(7,8) k' by (auto simp: m_def word_le_nat_alt)
          have "acked_of (q_db ?q) < next_of (q_db ?q)" using inv by (simp add: queue_inv_def)
          then have high: "unat (ack_highest ack) < next_of (q_db ?q)" and low: "ack_highest ack \<noteq> 0"
            using m length_pending [OF inv] by (linarith, auto)
          obtain q' where q': "queue_acknowledge None ?q (ack_stream_id ack) (ack_highest ack) = (Inr (), q')" "queue_inv sdk (q_db q')"
            "pending_list sdk (q_db q') = filter (\<lambda>ev. ack_highest ack < ev_sequence ev) ?p"
            using acknowledge_ok [OF inv c(6) [unfolded queue_stream_def] low high] by blast
          have p': "pending_list sdk (q_db q') = drop m ?p" using q'(3) pending_after [OF inv m(1,3)] by simp
          have "upload_once sdk up network None u = ((True, None), u\<lparr>eu_queue := q'\<rparr>)"
            using b body req check q'(1) by (simp add: upload_once_def)
          with m p' q'(2) acknowledge_keeps_stream [OF q'(1)] acknowledge_keeps_node [OF q'(1)] show ?thesis
            by (intro that(3) [of "u\<lparr>eu_queue := q'\<rparr>" m]) auto
        qed
      qed
    qed
  qed
qed

definition quiet_round :: "(string \<Rightarrow> http_response option) \<Rightarrow> 'p round" where
  "quiet_round network = \<lparr>rd_enqueued = [], rd_network = network, rd_fault = None, rd_cancelled = False, rd_waited = True\<rparr>"

lemma quiet_round_simps [simp]: "rd_enqueued (quiet_round n) = []" "rd_network (quiet_round n) = n"
  "rd_fault (quiet_round n) = None" "rd_cancelled (quiet_round n) = False" "rd_waited (quiet_round n)"
  by (simp_all add: quiet_round_def)

lemma enqueue_all_Nil [simp]: "enqueue_all sdk [] q = q"
  by (simp add: enqueue_all_def)

definition drained_or_refused ::
    "'p queue_sdk \<Rightarrow> upload_sdk \<Rightarrow> event_uploader \<Rightarrow> run_result \<Rightarrow> event_uploader \<Rightarrow> bool" where
  "drained_or_refused sdk up u out u' \<longleftrightarrow> queue_inv sdk (q_db (eu_queue u')) \<and>
     (out = Running \<and> pending_list sdk (q_db (eu_queue u')) = [] \<or>
      (\<exists>m k e. out = Stopped (Some e) \<and> 0 < k \<and> m + k \<le> length (pending_list sdk (q_db (eu_queue u))) \<and>
         pending_list sdk (q_db (eu_queue u')) = drop m (pending_list sdk (q_db (eu_queue u))) \<and>
         upload_refused sdk up (eu_endpoint u) (consecutive_batch sdk (eu_queue u) m k) e))"

lemma upload_run_drains:
  assumes "center_acknowledges sdk up (eu_queue u) network" and "queue_inv sdk (q_db (eu_queue u))" and limit: "0 < sdk_max_batch_events sdk"
    and "length (pending_list sdk (q_db (eu_queue u))) \<le> n"
  shows "\<exists>out delays u'. upload_run sdk up (replicate n (quiet_round network)) backoff u = (out, delays, u') \<and> drained_or_refused sdk up u out u'"
  using assms(1,2,4)
proof (induction n arbitrary: u backoff)
  case 0
  then show ?case by (simp add: drained_or_refused_def)
next
  case (Suc n)
  let ?p = "pending_list sdk (q_db (eu_queue u))"
  from Suc.prems(1,2) limit show ?case
  proof (cases rule: upload_once_delivers)
    case empty
    obtain out delays u' where "upload_run sdk up (replicate n (quiet_round network)) second u = (out, delays, u')" "drained_or_refused sdk up u out u'"
      using Suc.IH [OF Suc.prems(1,2), of second] empty(1) by auto
    with empty(2) show ?thesis by (simp add: loop_action_def)
  next
    case (refused had e k)
    have "drained_or_refused sdk up u (Stopped (Some e)) u"
      unfolding drained_or_refused_def using refused(2-4) Suc.prems(2) by (intro conjI disjI2 exI [of _ 0] exI [of _ k] exI [of _ e]) auto
    with refused(1) show ?thesis by (simp add: loop_action_def)
  next
    case (delivered m u1)
    note center = center_acknowledges_drop [OF Suc.prems(1) delivered(8,6,7)]
    have "length (pending_list sdk (q_db (eu_queue u1))) \<le> n" using delivered(2,3,8) Suc.prems(3) by auto
    from Suc.IH [OF center delivered(4) this, of second] obtain out delays u' where
      run: "upload_run sdk up (replicate n (quiet_round network)) second u1 = (out, delays, u')" and
      done1: "drained_or_refused sdk up u1 out u'" by blast
    note same = consecutive_batch_drop [OF delivered(8,6,7)]
    have "drained_or_refused sdk up u out u'"
    proof (cases "out = Running \<and> pending_list sdk (q_db (eu_queue u')) = []")
      case True
      with done1 show ?thesis by (simp add: drained_or_refused_def)
    next
      case False
      with done1 obtain m' k e where e: "out = Stopped (Some e)" "0 < k" "m' + k \<le> length (drop m ?p)"
        "pending_list sdk (q_db (eu_queue u')) = drop m' (drop m ?p)"
        "upload_refused sdk up (eu_endpoint u) (consecutive_batch sdk (eu_queue u) (m + m') k) e"
        unfolding drained_or_refused_def delivered(5,8) same by blast
      moreover from e(3) delivered(3) have "m + m' + k \<le> length ?p" by simp
      moreover from e(4) have "pending_list sdk (q_db (eu_queue u')) = drop (m + m') ?p" by (simp add: add.commute)
      ultimately show ?thesis using done1 unfolding drained_or_refused_def by blast
    qed
    with run delivered(1) show ?thesis by (simp add: loop_action_def)
  qed
qed

subsection \<open>The backoff\<close>

definition backoff_after :: "nat \<Rightarrow> int" where
  "backoff_after k = min (second * 2 ^ k) minute"

lemma backoff_step: "(if minute < 2 * backoff_after k then minute else 2 * backoff_after k) = backoff_after (Suc k)"
  by (auto simp: backoff_after_def minute_def min_def)

lemma upload_run_backs_off:
  assumes "\<exists>t. upload_once sdk up network None u = ((True, Some (Transient t)), u)"
  shows "upload_run sdk up (replicate n (quiet_round network)) (backoff_after k) u =
    (Running, map backoff_after [k..<k + n], u)"
proof (induction n arbitrary: k)
  case (Suc n)
  obtain t where t: "upload_once sdk up network None u = ((True, Some (Transient t)), u)" using assms by blast
  have "[k..<k + Suc n] = k # [Suc k..<Suc k + n]" by (simp add: upt_conv_Cons)
  with Suc.IH [of "Suc k"] t show ?case
    by (simp add: loop_action_def backoff_step)
qed simp

lemma upload_run_delays:
  assumes "upload_run sdk up rs backoff u = (out, delays, u')" and "second \<le> backoff" and "backoff \<le> minute"
  shows "\<forall>d \<in> set delays. brief_delay \<le> d \<and> d \<le> minute"
  using assms
proof (induction rs arbitrary: backoff u out delays u')
  case (Cons r rs)
  let ?u = "u\<lparr>eu_queue := enqueue_all sdk (rd_enqueued r) (eu_queue u)\<rparr>"
  obtain result u1 where one: "upload_once sdk up (rd_network r) (rd_fault r) ?u = (result, u1)" by (metis surj_pair)
  show ?case
  proof (cases "loop_action (rd_cancelled r) result backoff")
    case (Return e)
    with Cons.prems(1) one show ?thesis by simp
  next
    case (Wait delay wake b)
    then have d: "brief_delay \<le> delay \<and> delay \<le> minute \<and> second \<le> b \<and> b \<le> minute"
      using Cons.prems(2,3)
      by (auto simp: loop_action_def brief_delay_def minute_def split: if_splits option.splits upload_failure.splits)
    obtain out2 ds u2 where rest: "upload_run sdk up rs b u1 = (out2, ds, u2)" by (metis prod_cases3)
    show ?thesis
    proof (cases "rd_waited r")
      case False
      with Cons.prems(1) one Wait d show ?thesis by (auto simp: Let_def)
    next
      case True
      with Cons.prems(1) one Wait rest have "delays = delay # ds" by simp
      with Cons.IH [OF rest] d show ?thesis by auto
    qed
  qed
qed simp

subsection \<open>Properties\<close>

text \<open>An uploader on the sample queue with a transparent encoding, and the center that acknowledges.\<close>

definition sample_up :: upload_sdk where
  "sample_up =
     \<lparr>up_marshal_batch = (\<lambda>b. Some (uint64_bytes (last_sequence b) @ batch_stream_id b)),
      up_compress = (\<lambda>raw. Some raw), up_request_ok = (\<lambda>_. True),
      up_decode_ack = (\<lambda>body. Some \<lparr>ack_stream_id = drop 8 body, ack_highest = read_uint64 (Some (take 8 body))\<rparr>),
      up_max_compressed = 2 ^ 20\<rparr>"

definition sample_uploader :: event_uploader where
  "sample_uploader = \<lparr>eu_endpoint = ''https://center/events'', eu_queue = sample_queue1\<rparr>"

definition sample_center :: "string \<Rightarrow> http_response option" where
  "sample_center body = Some \<lparr>hr_status = 200, hr_body = Some body\<rparr>"

lemma sample_batch:
  "\<exists>b. batch sample_sdk sample_queue1 (sdk_max_batch_events sample_sdk) event_upload_batch_bytes = Inr b \<and>
     batch_stream_id b = ''stream-1''"
proof -
  have "0 < batch_limit (sdk_max_batch_events sample_sdk) (sdk_max_batch_events sample_sdk)"
    by (simp add: batch_limit_def sample_sdk_def)
  note batch_total [OF sample_queue1_facts(1) this, of event_upload_batch_bytes]
  moreover have "batch sample_sdk sample_queue1 n m \<noteq> Inl InvalidBatch" for n m
    using batch_InvalidBatch [of sample_sdk sample_queue1 n m] by (auto simp: sample_sdk_def)
  ultimately obtain b where b: "batch sample_sdk sample_queue1 (sdk_max_batch_events sample_sdk) event_upload_batch_bytes = Inr b"
    by (cases "batch sample_sdk sample_queue1 (sdk_max_batch_events sample_sdk) event_upload_batch_bytes")
      (auto simp: sample_queue1_facts)
  have "batch_stream_id b = ''stream-1''"
    using batch_Inr [OF sample_queue1_facts(1) b] sample_queue1_facts(5) by metis
  with b show ?thesis by blast
qed

text \<open>An upload removes from the queue nothing but what the center has acknowledged: the queue stays consistent,
  and either it is unchanged, or the center has answered the batch that was sent with status 200 and an
  acknowledgement inside the batch, and exactly the events up to that acknowledgement are gone.\<close>

theorem upload_removes_only_acknowledged:
  assumes "upload_once sdk up network fault u = ((had, failure), u')" and "queue_inv sdk (q_db (eu_queue u))"
  shows "queue_inv sdk (q_db (eu_queue u')) \<and>
    (u' = u \<or> failure = None \<and> had \<and>
       (\<exists>b body ack r content. batch sdk (eu_queue u) (sdk_max_batch_events sdk) event_upload_batch_bytes = Inr b \<and>
          encode_upload up b = Inr body \<and> network body = Some r \<and> hr_status r = http_ok \<and> hr_body r = Some content \<and>
          up_decode_ack up content = Some ack \<and> first_sequence b \<le> ack_highest ack \<and> ack_highest ack \<le> last_sequence b \<and>
          acked_of (q_db (eu_queue u')) = unat (ack_highest ack) \<and>
          pending_list sdk (q_db (eu_queue u')) =
            filter (\<lambda>ev. ack_highest ack < ev_sequence ev) (pending_list sdk (q_db (eu_queue u)))))"
  by (rule upload_once_effect [OF assms])

theorem upload_removes_only_acknowledged_witness:
  "upload_once sample_sdk sample_up (\<lambda>_. None) None sample_uploader = ((True, Some (Transient EndpointUnavailable)), sample_uploader) \<and>
   queue_inv sample_sdk (q_db (eu_queue sample_uploader))"
proof -
  obtain b where b: "batch sample_sdk sample_queue1 (sdk_max_batch_events sample_sdk) event_upload_batch_bytes = Inr b"
    "batch_stream_id b = ''stream-1''" using sample_batch by blast
  then have "upload_once sample_sdk sample_up (\<lambda>_. None) None sample_uploader =
      ((True, Some (Transient EndpointUnavailable)), sample_uploader)"
    by (simp add: upload_once_def sample_uploader_def encode_upload_def sample_up_def check_ack_def)
  from upload_removes_only_acknowledged [OF this] this show ?thesis
    by (simp add: sample_uploader_def sample_queue1_facts)
qed

text \<open>C13. Delivery: when nothing fails in the local store and the center answers every upload of events of this queue with status 200 and an
  acknowledgement that lies in the batch, be it only of its first event, the upload loop delivers everything: after as many rounds as there
  are pending events the queue is empty and the loop is still running. The only other end is that the loop has stopped with an error
  because, on the agent's side, a batch of consecutive pending events was refused: the SDK's validation or the encoding refused it, its
  compressed size exceeded the limit, or no request could be made for the endpoint; the events before that batch have then been delivered
  and all others are still in the queue.\<close>

theorem upload_loop_drains_queue:
  assumes "center_acknowledges sdk up (eu_queue u) network" and "queue_inv sdk (q_db (eu_queue u))" and "0 < sdk_max_batch_events sdk"
    and "length (pending_list sdk (q_db (eu_queue u))) \<le> n"
  shows "\<exists>out delays u'. event_upload_loop sdk up (replicate n (quiet_round network)) u = (out, delays, u') \<and> queue_inv sdk (q_db (eu_queue u')) \<and>
    (out = Running \<and> pending_list sdk (q_db (eu_queue u')) = [] \<or>
     (\<exists>m k e. out = Stopped (Some e) \<and> 0 < k \<and> m + k \<le> length (pending_list sdk (q_db (eu_queue u))) \<and>
        pending_list sdk (q_db (eu_queue u')) = drop m (pending_list sdk (q_db (eu_queue u))) \<and>
        upload_refused sdk up (eu_endpoint u) (consecutive_batch sdk (eu_queue u) m k) e))"
  using upload_run_drains [OF assms, of second] unfolding event_upload_loop_def drained_or_refused_def .

lemma sample_center_acknowledges: "center_acknowledges sample_sdk sample_up (eu_queue sample_uploader) sample_center"
proof -
  have order: "first_sequence (consecutive_batch sample_sdk sample_queue1 i k) \<le> last_sequence (consecutive_batch sample_sdk sample_queue1 i k)"
    if "0 < k" "i + k \<le> length (pending_list sample_sdk (q_db sample_queue1))" for i k
  proof -
    let ?p = "pending_list sample_sdk (q_db sample_queue1)"
    have "hd (take k (drop i ?p)) = ?p ! i" "last (take k (drop i ?p)) = ?p ! (i + (k - 1))"
      using that by (simp_all add: hd_drop_conv_nth last_conv_nth min_absorb2)
    with pending_nth_sequence [OF sample_queue1_facts(1)] that show ?thesis
      by (simp add: consecutive_batch_def Let_def word_le_nat_alt)
  qed
  then show ?thesis
    by (auto simp: center_acknowledges_def sample_sdk_def sample_up_def sample_center_def encode_upload_def http_ok_def
        maximum_event_ack_response_bytes_def sample_uploader_def queue_stream_def sample_queue1_facts(5) consecutive_batch_def Let_def)
qed

lemma sample_never_refused:
  assumes "0 < k" and "m + k \<le> length (pending_list sample_sdk (q_db sample_queue1))"
  shows "\<not> upload_refused sample_sdk sample_up endpoint (consecutive_batch sample_sdk sample_queue1 m k) e"
proof -
  let ?b = "consecutive_batch sample_sdk sample_queue1 m k"
  have "batch_events ?b \<noteq> []" "batch_stream_id ?b = ''stream-1''"
    using assms by (simp_all add: consecutive_batch_def Let_def queue_stream_def sample_queue1_facts(5))
  moreover from this have "sdk_validate_event_batch sample_sdk ?b" by (simp add: sample_sdk_def)
  ultimately show ?thesis by (simp add: upload_refused_def sample_up_def encode_upload_def)
qed

theorem upload_loop_drains_queue_witness:
  "\<exists>delays u'. event_upload_loop sample_sdk sample_up [quiet_round sample_center] sample_uploader = (Running, delays, u') \<and>
     pending_list sample_sdk (q_db (eu_queue u')) = []"
proof -
  have "0 < sdk_max_batch_events sample_sdk" by (simp add: sample_sdk_def)
  from upload_loop_drains_queue [OF sample_center_acknowledges _ this, of 1] show ?thesis
    using sample_never_refused by (auto simp: sample_uploader_def sample_queue1_facts)
qed

text \<open>While the center cannot be reached the loop keeps the queue and retries with delays of 1, 2, 4, ... seconds,
  capped at one minute.\<close>

theorem unreachable_center_backs_off:
  assumes "batch sdk (eu_queue u) (sdk_max_batch_events sdk) event_upload_batch_bytes = Inr b"
    and "encode_upload up b = Inr body" and "up_request_ok up (eu_endpoint u)" and "network body = None"
  shows "event_upload_loop sdk up (replicate n (quiet_round network)) u =
    (Running, map (\<lambda>k. min (second * 2 ^ k) minute) [0..<n], u)"
proof -
  have "upload_once sdk up network None u = ((True, Some (Transient EndpointUnavailable)), u)"
    using assms by (simp add: upload_once_def check_ack_def)
  then have "upload_run sdk up (replicate n (quiet_round network)) (backoff_after 0) u =
      (Running, map backoff_after [0..<0 + n], u)"
    by (intro upload_run_backs_off) blast
  moreover have "backoff_after 0 = second" by (simp add: backoff_after_def minute_def)
  ultimately show ?thesis
    by (simp add: event_upload_loop_def backoff_after_def)
qed

theorem unreachable_center_backs_off_witness:
  "event_upload_loop sample_sdk sample_up (replicate 8 (quiet_round (\<lambda>_. None))) sample_uploader =
     (Running, map ((*) second) [1, 2, 4, 8, 16, 32, 60, 60], sample_uploader)"
proof -
  obtain b where b: "batch sample_sdk (eu_queue sample_uploader) (sdk_max_batch_events sample_sdk) event_upload_batch_bytes = Inr b"
    "batch_stream_id b = ''stream-1''" using sample_batch by (auto simp: sample_uploader_def)
  have "encode_upload sample_up b = Inr (uint64_bytes (last_sequence b) @ ''stream-1'')" "up_request_ok sample_up e" for e
    using b(2) by (simp_all add: encode_upload_def sample_up_def)
  from unreachable_center_backs_off [OF b(1) this, of "\<lambda>_. None" 8] show ?thesis
    by (simp add: upt_rec minute_def)
qed

text \<open>Whatever the center answers, the loop never spins and never sleeps long: every wait is between 100
  milliseconds and one minute.\<close>

theorem upload_delays_bounded:
  assumes "event_upload_loop sdk up rs u = (out, delays, u')"
  shows "list_all (\<lambda>d. brief_delay \<le> d \<and> d \<le> minute) delays"
  using upload_run_delays [OF assms [unfolded event_upload_loop_def]] by (simp add: list_all_iff minute_def)

theorem upload_delays_bounded_witness:
  "\<exists>delays u'. event_upload_loop sample_sdk sample_up [quiet_round sample_center] sample_uploader = (Running, delays, u') \<and>
     list_all (\<lambda>d. brief_delay \<le> d \<and> d \<le> minute) delays"
proof -
  have "0 < sdk_max_batch_events sample_sdk" by (simp add: sample_sdk_def)
  from upload_run_drains [OF sample_center_acknowledges _ this, of 1 second] sample_never_refused
  obtain delays u' where run: "event_upload_loop sample_sdk sample_up [quiet_round sample_center] sample_uploader = (Running, delays, u')"
    by (auto simp: sample_uploader_def sample_queue1_facts event_upload_loop_def drained_or_refused_def)
  with upload_delays_bounded [OF run] show ?thesis by blast
qed

end
