(* ===== verification/PolicyStore.thy ===== *)
theory PolicyStore
  imports Bolt Filepath "HOL-Library.AList"
begin

section \<open>The policy store (internal/policy/store.go)\<close>

text \<open>
  The durable state of the policy engine: which authorizations the center has granted
  (\<^verbatim>\<open>Reconcile\<close>), how much traffic each has used in its accounting period (\<^verbatim>\<open>ApplyCounters\<close>,
  \<^verbatim>\<open>ensureLedger\<close>), which source addresses hold a slot or are blocked (\<^verbatim>\<open>ObserveActivity\<close>), what has been
  reported (\<^verbatim>\<open>MarkTrafficQueued\<close>, \<^verbatim>\<open>MarkStatusQueued\<close>). The database is the record \<open>policy_db\<close>, one field per
  bucket; each operation is its transaction body, run by \<open>db_update\<close>.

  The validation, accounting-period and digest functions of the SDK are the fields of \<open>policy_sdk\<close>.
  \<open>policy_sdk_ok\<close> states what the store relies on. Iteration over a Go map takes the order as the
  argument \<open>iter\<close>.
\<close>

subsection \<open>Data\<close>

record period =
  per_id :: string
  per_starts_at :: time
  per_content :: string

record policy_binding =
  pb_plugin_id :: string
  pb_service_id :: string

record authorization_policy =
  ap_authorization_id :: string
  ap_enabled :: bool
  ap_expires_at :: "time option"
  ap_traffic_limit_bytes :: "u64 option"
  ap_soft_ip_limit :: "u32 option"
  ap_activity_window_seconds :: u64
  ap_block_duration_seconds :: u64
  ap_bindings :: "policy_binding list"
  ap_reset :: string
  ap_started_at :: time
  ap_current_period :: period

record reconcile_command =
  rc_generation :: u64
  rc_authorizations :: "authorization_policy list"

record traffic_counter =
  tc_authorization_id :: string
  tc_service_id :: string
  tc_epoch :: string
  tc_upload_bytes :: u64
  tc_download_bytes :: u64

record traffic_snapshot =
  ts_authorization_id :: string
  ts_period :: period
  ts_revision :: u64
  ts_upload_bytes :: u64
  ts_download_bytes :: u64

datatype agent_policy_reason = PolicyReasonActive | PolicyReasonDisabled | PolicyReasonExpired | PolicyReasonQuotaExceeded

record policy_status =
  st_generation :: u64
  st_authorization_id :: string
  st_period :: period
  st_upload_bytes :: u64
  st_download_bytes :: u64
  st_services_enabled :: bool
  st_reason :: agent_policy_reason
  st_active_ip_count :: u32
  st_blocked_ip_count :: u32

datatype service_state_reason = ReasonUnspecified | ReasonActive | ReasonAdministratorDisabled | ReasonExpired | ReasonQuotaExceeded

record dynamic_block =
  db_authorization_id :: string
  db_service_id :: string
  db_source_ip :: string
  db_expires_at_unix_nano :: u64

text \<open>The values stored in the buckets.\<close>

record counter_state =
  cs_epoch :: string
  cs_upload_bytes :: u64
  cs_download_bytes :: u64

record ledger_state =
  ls_authorization_id :: string
  ls_period :: period
  ls_revision :: u64
  ls_queued_revision :: u64
  ls_upload_bytes :: u64
  ls_download_bytes :: u64

record slot_state =
  last_seen_at :: time

record block_state =
  block_expires_at :: time

record telemetry_cursor =
  cursor_stream_id :: string
  cursor_sequence :: u64

record desired_service =
  ds_plugin_id :: string
  ds_authorization_id :: string
  ds_service_id :: string
  ds_policy_generation :: u64
  ds_state_revision :: u64
  ds_enabled :: bool
  ds_reason :: service_state_reason
  ds_orphan :: bool

record applied_service =
  as_instance_id :: string
  as_desired :: desired_service

record desired_block =
  dk_plugin_id :: string
  dk_policy_generation :: u64
  dk_block_revision :: u64
  dk_digest :: string
  dk_blocks :: "dynamic_block list"

record applied_block =
  ak_instance_id :: string
  ak_desired :: desired_block

record status_state =
  ss_digest :: string
  ss_queued :: bool
  ss_event :: policy_status

record policy_db =
  p_meta :: "string bucket"
  p_policies :: "authorization_policy json bucket"
  p_orphans :: "desired_service json bucket"
  p_counters :: "counter_state json bucket"
  p_ledgers :: "ledger_state json bucket"
  p_pending :: "traffic_snapshot json bucket"
  p_cursors :: "telemetry_cursor json bucket"
  p_slots :: "slot_state json bucket"
  p_blocks :: "block_state json bucket"
  p_desired_services :: "desired_service json bucket"
  p_applied_services :: "applied_service json bucket"
  p_desired_blocks :: "desired_block json bucket"
  p_applied_blocks :: "applied_block json bucket"
  p_statuses :: "status_state json bucket"

definition empty_policy_db :: policy_db where
  "empty_policy_db =
     \<lparr>p_meta = [], p_policies = [], p_orphans = [], p_counters = [], p_ledgers = [], p_pending = [],
      p_cursors = [], p_slots = [], p_blocks = [], p_desired_services = [], p_applied_services = [],
      p_desired_blocks = [], p_applied_blocks = [], p_statuses = []\<rparr>"

definition key_state_version :: string where "key_state_version = ''state-version''"
definition key_generation :: string where "key_generation = ''generation''"
definition key_snapshot_digest :: string where "key_snapshot_digest = ''snapshot-digest''"
definition key_state_revision :: string where "key_state_revision = ''state-revision''"
definition key_block_revision :: string where "key_block_revision = ''block-revision''"
definition policy_state_version :: string where "policy_state_version = ''relayward.agent-policy-state/v1''"

lemma policy_keys_distinct [simp]:
  "key_state_version \<noteq> key_generation" "key_state_version \<noteq> key_snapshot_digest"
  "key_state_version \<noteq> key_state_revision" "key_state_version \<noteq> key_block_revision"
  "key_generation \<noteq> key_state_version" "key_generation \<noteq> key_snapshot_digest"
  "key_generation \<noteq> key_state_revision" "key_generation \<noteq> key_block_revision"
  "key_snapshot_digest \<noteq> key_state_version" "key_snapshot_digest \<noteq> key_generation"
  "key_snapshot_digest \<noteq> key_state_revision" "key_snapshot_digest \<noteq> key_block_revision"
  "key_state_revision \<noteq> key_state_version" "key_state_revision \<noteq> key_generation"
  "key_state_revision \<noteq> key_snapshot_digest" "key_state_revision \<noteq> key_block_revision"
  "key_block_revision \<noteq> key_state_version" "key_block_revision \<noteq> key_generation"
  "key_block_revision \<noteq> key_snapshot_digest" "key_block_revision \<noteq> key_state_revision"
  by (simp_all add: key_state_version_def key_generation_def key_snapshot_digest_def key_state_revision_def key_block_revision_def)

datatype policy_error =
    CommandInvalid | EncodeFailed | StaleGeneration | GenerationConflict | DecodeFailed | PolicyInvalid
  | PluginIDInvalid | IdentifierInvalid | TelemetryStreamInvalid | CursorInvalid | CursorChanged | StreamChanged
  | ObservationTimeRequired | EvaluationTimeRequired | CounterTooLarge | DeltaOverflow | LedgerOverflow
  | LedgerRevisionExhausted | PeriodUnavailable | SourceIPNotCanonical | SnapshotInvalid
  | SnapshotNotPending | SnapshotNotLedger | StatusInvalid | UnsupportedStateVersion | CounterKeyInvalid
  | StateRevisionExhausted | ServiceChanged | BlocksChanged | ActivityCountOverflow | PolicyPathInvalid
  | PolicyStorageFault

text \<open>\<^verbatim>\<open>net.ParseIP\<close> accepts the address and prints it back unchanged: the field \<open>sdk_canonical_ip\<close>.
  The digests are \<^verbatim>\<open>objectDigest\<close> on the types it is used for: JSON encoding, SHA-256, hexadecimal.\<close>

record policy_sdk =
  sdk_validate_command :: "reconcile_command \<Rightarrow> bool"
  sdk_validate_policy :: "authorization_policy \<Rightarrow> bool"
  sdk_validate_plugin_id :: "string \<Rightarrow> bool"
  sdk_validate_identifier :: "string \<Rightarrow> bool"
  sdk_canonical_ip :: "string \<Rightarrow> bool"
  sdk_current_period :: "string \<Rightarrow> time \<Rightarrow> time \<Rightarrow> period option"
  sdk_same_period :: "period \<Rightarrow> period \<Rightarrow> bool"
  sdk_validate_snapshot :: "traffic_snapshot \<Rightarrow> bool"
  sdk_validate_status :: "policy_status \<Rightarrow> bool"
  sdk_command_digest :: "reconcile_command \<Rightarrow> string option"
  sdk_blocks_digest :: "dynamic_block list \<Rightarrow> string option"
  sdk_status_digest :: "policy_status \<Rightarrow> string option"

subsection \<open>Keys\<close>

abbreviation nul :: char where "nul \<equiv> CHR 0x00"

definition service_key :: "string \<Rightarrow> string \<Rightarrow> string \<Rightarrow> string" where
  "service_key plugin_id authorization_id service_id = plugin_id @ [nul] @ authorization_id @ [nul] @ service_id"

definition activity_key :: "string \<Rightarrow> string \<Rightarrow> string" where
  "activity_key authorization_id source_ip = authorization_id @ [nul] @ source_ip"

definition traffic_key :: "string \<Rightarrow> string \<Rightarrow> string" where
  "traffic_key authorization_id period_id = authorization_id @ [nul] @ period_id"

text \<open>\<^verbatim>\<open>time.Duration(n) * time.Second\<close> is 64-bit arithmetic.\<close>

definition duration_seconds :: "u64 \<Rightarrow> int" where
  "duration_seconds n = sint (n * 1000000000)"

definition minus_duration_seconds :: "u64 \<Rightarrow> int" where
  "minus_duration_seconds n = sint (- n * 1000000000)"

subsection \<open>Policies, ledgers and activity inside a transaction\<close>

definition read_policy :: "policy_sdk \<Rightarrow> string \<times> authorization_policy json \<Rightarrow> policy_error + authorization_policy" where
  "read_policy sdk e =
     and_then (decode DecodeFailed (snd e)) (\<lambda>policy.
       and_then (guard_err (sdk_validate_policy sdk policy) PolicyInvalid) (\<lambda>_. Inr policy))"

definition read_policies :: "policy_sdk \<Rightarrow> policy_db \<Rightarrow> policy_error + authorization_policy list" where
  "read_policies sdk db = map_res (read_policy sdk) (p_policies db)"

definition ledger_event :: "ledger_state \<Rightarrow> traffic_snapshot" where
  "ledger_event l =
     \<lparr>ts_authorization_id = ls_authorization_id l, ts_period = ls_period l, ts_revision = ls_revision l,
      ts_upload_bytes = ls_upload_bytes l, ts_download_bytes = ls_download_bytes l\<rparr>"

definition preserve_pending_traffic :: "ledger_state \<Rightarrow> policy_db \<Rightarrow> policy_db" where
  "preserve_pending_traffic ledger db =
     (if ls_revision ledger \<le> ls_queued_revision ledger then db
      else let value = ledger_event ledger
           in db\<lparr>p_pending := put_json (traffic_key (ts_authorization_id value) (per_id (ts_period value))) value (p_pending db)\<rparr>)"

definition fresh_ledger :: "string \<Rightarrow> period \<Rightarrow> ledger_state" where
  "fresh_ledger authorization_id period =
     \<lparr>ls_authorization_id = authorization_id, ls_period = period, ls_revision = 1, ls_queued_revision = 0,
      ls_upload_bytes = 0, ls_download_bytes = 0\<rparr>"

definition ensure_ledger ::
    "policy_sdk \<Rightarrow> authorization_policy \<Rightarrow> time \<Rightarrow> policy_db \<Rightarrow> policy_error + ledger_state \<times> policy_db" where
  "ensure_ledger sdk policy now db =
     and_then (get_json DecodeFailed (p_ledgers db) (ap_authorization_id policy)) (\<lambda>stored.
       case sdk_current_period sdk (ap_reset policy) (ap_started_at policy) now of
         None \<Rightarrow> Inl PeriodUnavailable
       | Some period \<Rightarrow>
         let fresh = fresh_ledger (ap_authorization_id policy) period;
             start = (\<lambda>db. db\<lparr>p_ledgers := put_json (ap_authorization_id policy) fresh (p_ledgers db)\<rparr>)
         in (case stored of
               None \<Rightarrow> Inr (fresh, start db)
             | Some ledger \<Rightarrow>
                 if per_id (ls_period ledger) \<noteq> per_id period
                 then Inr (fresh, start (preserve_pending_traffic ledger db))
                 else Inr (ledger, db)))"

definition slot_expired :: "time \<Rightarrow> slot_state json \<Rightarrow> policy_error + bool" where
  "slot_expired cutoff raw = and_then (decode DecodeFailed raw) (\<lambda>s. Inr (\<not> cutoff < last_seen_at s))"

definition block_expired :: "time \<Rightarrow> block_state json \<Rightarrow> policy_error + bool" where
  "block_expired now raw = and_then (decode DecodeFailed raw) (\<lambda>s. Inr (\<not> now < block_expires_at s))"

definition clean_authorization_activity ::
    "authorization_policy \<Rightarrow> time \<Rightarrow> policy_db \<Rightarrow> policy_error + policy_db" where
  "clean_authorization_activity policy now db =
     (let p = ap_authorization_id policy @ [nul];
          cutoff = now + minus_duration_seconds (ap_activity_window_seconds policy)
      in and_then (delete_matching (p_slots db) p (slot_expired cutoff)) (\<lambda>slots.
         and_then (delete_matching (p_blocks db) p (block_expired now)) (\<lambda>blocks.
           Inr (db\<lparr>p_slots := slots, p_blocks := blocks\<rparr>))))"

text \<open>\<^verbatim>\<open>refresh\<close>: every policy's period, ledger and activity are brought up to \<open>now\<close>.\<close>

definition refresh_policy ::
    "policy_sdk \<Rightarrow> time \<Rightarrow> authorization_policy \<Rightarrow> policy_db \<Rightarrow> policy_error + policy_db" where
  "refresh_policy sdk now policy db =
     (case sdk_current_period sdk (ap_reset policy) (ap_started_at policy) now of
        None \<Rightarrow> Inl PeriodUnavailable
      | Some period \<Rightarrow>
        let changed = \<not> sdk_same_period sdk period (ap_current_period policy);
            policy' = (if changed then policy\<lparr>ap_current_period := period\<rparr> else policy);
            db' = (if changed then db\<lparr>p_policies := put_json (ap_authorization_id policy') policy' (p_policies db)\<rparr> else db)
        in and_then (ensure_ledger sdk policy' now db') (\<lambda>(ledger, db).
             clean_authorization_activity policy' now db))"

definition refresh_tx :: "policy_sdk \<Rightarrow> time \<Rightarrow> policy_db \<Rightarrow> policy_error + unit \<times> policy_db" where
  "refresh_tx sdk now db =
     and_then (read_policies sdk db) (\<lambda>policies.
       and_then (fold_res (refresh_policy sdk now) policies db) (\<lambda>db. Inr ((), db)))"

definition refresh ::
    "policy_sdk \<Rightarrow> policy_error option \<Rightarrow> time \<Rightarrow> policy_db \<Rightarrow> (policy_error + unit) \<times> policy_db" where
  "refresh sdk fault now db =
     (if time_is_zero now then (Inl EvaluationTimeRequired, db) else db_update fault (refresh_tx sdk now) db)"

subsection \<open>Reconcile\<close>

definition binding_keys :: "authorization_policy list \<Rightarrow> string list" where
  "binding_keys policies =
     concat (map (\<lambda>policy. map (\<lambda>b. service_key (pb_plugin_id b) (ap_authorization_id policy) (pb_service_id b))
                              (ap_bindings policy)) policies)"

definition orphan_of :: "authorization_policy \<Rightarrow> policy_binding \<Rightarrow> desired_service" where
  "orphan_of policy b =
     \<lparr>ds_plugin_id = pb_plugin_id b, ds_authorization_id = ap_authorization_id policy,
      ds_service_id = pb_service_id b, ds_policy_generation = 0, ds_state_revision = 0,
      ds_enabled = False, ds_reason = ReasonUnspecified, ds_orphan = True\<rparr>"

fun orphan_bindings ::
    "string list \<Rightarrow> authorization_policy \<Rightarrow> policy_binding list \<Rightarrow> desired_service json bucket \<Rightarrow> desired_service json bucket" where
  "orphan_bindings new_keys policy [] orphans = orphans"
| "orphan_bindings new_keys policy (b # bs) orphans =
     (let key = service_key (pb_plugin_id b) (ap_authorization_id policy) (pb_service_id b)
      in orphan_bindings new_keys policy bs
           (if key \<in> set new_keys then orphans else put_json key (orphan_of policy b) orphans))"

text \<open>\<^verbatim>\<open>deleteRemovedAuthorizationState\<close>: a removed authorization loses its ledger (its unqueued
  usage is preserved), its status, its slots and blocks and its counters.\<close>

definition delete_removed_ledger ::
    "string list \<Rightarrow> string \<times> ledger_state json \<Rightarrow> policy_db \<Rightarrow> policy_error + policy_db" where
  "delete_removed_ledger retained e db =
     (if fst e \<in> set retained then Inr db
      else and_then (decode DecodeFailed (snd e)) (\<lambda>ledger.
        let db = preserve_pending_traffic ledger db
        in Inr (db\<lparr>p_ledgers := bucket_delete (fst e) (p_ledgers db)\<rparr>)))"

definition key_authorization :: "string \<Rightarrow> string" where
  "key_authorization key = takeWhile (\<lambda>c. c \<noteq> nul) key"

definition delete_removed_counter ::
    "string list \<Rightarrow> string \<times> counter_state json \<Rightarrow> policy_db \<Rightarrow> policy_error + policy_db" where
  "delete_removed_counter retained e db =
     (let parts = split_on nul (fst e)
      in if length parts \<noteq> 3 then Inl CounterKeyInvalid
         else if parts ! 1 \<in> set retained then Inr db
         else Inr (db\<lparr>p_counters := bucket_delete (fst e) (p_counters db)\<rparr>))"

definition delete_removed_authorization_state ::
    "authorization_policy list \<Rightarrow> policy_db \<Rightarrow> policy_error + policy_db" where
  "delete_removed_authorization_state policies db =
     (let retained = map ap_authorization_id policies
      in and_then (fold_res (delete_removed_ledger retained) (p_ledgers db) db) (\<lambda>db.
           let db = db\<lparr>p_statuses := filter (\<lambda>e. fst e \<in> set retained) (p_statuses db),
                       p_slots := filter (\<lambda>e. key_authorization (fst e) \<in> set retained) (p_slots db),
                       p_blocks := filter (\<lambda>e. key_authorization (fst e) \<in> set retained) (p_blocks db)\<rparr>
           in fold_res (delete_removed_counter retained) (p_counters db) db))"

definition policy_generation :: "policy_db \<Rightarrow> u64" where
  "policy_generation db = read_uint64 (bucket_get (p_meta db) key_generation)"

definition install_policies :: "reconcile_command \<Rightarrow> string \<Rightarrow> authorization_policy list \<Rightarrow> policy_db \<Rightarrow> policy_error + policy_db" where
  "install_policies cmd digest old_policies db =
     (let new_keys = binding_keys (rc_authorizations cmd);
          orphans = fold bucket_delete new_keys (p_orphans db);
          orphans = fold (\<lambda>policy. orphan_bindings new_keys policy (ap_bindings policy)) old_policies orphans;
          policies = fold (\<lambda>policy. put_json (ap_authorization_id policy) policy) (rc_authorizations cmd)
                       (clear_bucket (p_policies db))
      in and_then (delete_removed_authorization_state (rc_authorizations cmd)
                     (db\<lparr>p_orphans := orphans, p_policies := policies\<rparr>)) (\<lambda>db.
           Inr (db\<lparr>p_meta := bucket_put key_snapshot_digest digest
                              (put_uint64 key_generation (rc_generation cmd) (p_meta db))\<rparr>)))"

definition reconcile_tx ::
    "policy_sdk \<Rightarrow> reconcile_command \<Rightarrow> string \<Rightarrow> policy_db \<Rightarrow> policy_error + bool \<times> policy_db" where
  "reconcile_tx sdk cmd digest db =
     (let generation = policy_generation db
      in if rc_generation cmd < generation then Inl StaleGeneration
         else if rc_generation cmd = generation then
           (if get_string (p_meta db) key_snapshot_digest \<noteq> digest then Inl GenerationConflict else Inr (False, db))
         else and_then (read_policies sdk db) (\<lambda>old_policies.
           and_then (install_policies cmd digest old_policies db) (\<lambda>db. Inr (True, db))))"

definition policy_reconcile ::
    "policy_sdk \<Rightarrow> policy_error option \<Rightarrow> reconcile_command \<Rightarrow> policy_db \<Rightarrow> (policy_error + bool) \<times> policy_db" where
  "policy_reconcile sdk fault cmd db =
     (if \<not> sdk_validate_command sdk cmd then (Inl CommandInvalid, db)
      else case sdk_command_digest sdk cmd of
        None \<Rightarrow> (Inl EncodeFailed, db)
      | Some digest \<Rightarrow> db_update fault (reconcile_tx sdk cmd digest) db)"

subsection \<open>Bindings and telemetry cursors\<close>

definition binding_known ::
    "policy_sdk \<Rightarrow> policy_db \<Rightarrow> string \<Rightarrow> string \<Rightarrow> string \<Rightarrow> policy_error + bool" where
  "binding_known sdk db plugin_id authorization_id service_id =
     (if \<not> sdk_validate_plugin_id sdk plugin_id then Inl PluginIDInvalid
      else if \<not> sdk_validate_identifier sdk authorization_id then Inl IdentifierInvalid
      else and_then (get_json DecodeFailed (p_policies db) authorization_id) (\<lambda>stored.
        case stored of
          None \<Rightarrow> Inr False
        | Some policy \<Rightarrow>
            Inr (\<exists>b \<in> set (ap_bindings policy). pb_plugin_id b = plugin_id \<and> pb_service_id b = service_id)))"

definition telemetry_stream_ok :: "string \<Rightarrow> bool" where
  "telemetry_stream_ok s \<longleftrightarrow>
     length s = 32 \<and> list_all (\<lambda>c. (CHR ''0'' \<le> c \<and> c \<le> CHR ''9'') \<or> (CHR ''a'' \<le> c \<and> c \<le> CHR ''f'')) s"

definition telemetry_cursor_of :: "policy_sdk \<Rightarrow> policy_db \<Rightarrow> string \<Rightarrow> string \<Rightarrow> policy_error + u64" where
  "telemetry_cursor_of sdk db plugin_id stream_id =
     (if \<not> sdk_validate_plugin_id sdk plugin_id then Inl PluginIDInvalid
      else if \<not> telemetry_stream_ok stream_id then Inl TelemetryStreamInvalid
      else and_then (get_json DecodeFailed (p_cursors db) plugin_id) (\<lambda>stored.
        case stored of
          None \<Rightarrow> Inr 0
        | Some current \<Rightarrow> Inr (if cursor_stream_id current \<noteq> stream_id then 0 else cursor_sequence current)))"

definition advance_cursor_tx ::
    "string \<Rightarrow> string \<Rightarrow> u64 \<Rightarrow> u64 \<Rightarrow> policy_db \<Rightarrow> policy_error + unit \<times> policy_db" where
  "advance_cursor_tx plugin_id stream_id previous nxt db =
     and_then (get_json DecodeFailed (p_cursors db) plugin_id) (\<lambda>stored.
       let db' = db\<lparr>p_cursors := put_json plugin_id \<lparr>cursor_stream_id = stream_id, cursor_sequence = nxt\<rparr> (p_cursors db)\<rparr>
       in case stored of
            None \<Rightarrow> Inr ((), db')
          | Some current \<Rightarrow>
              if cursor_stream_id current = stream_id \<and> cursor_sequence current \<noteq> previous then Inl CursorChanged
              else if cursor_stream_id current \<noteq> stream_id \<and> previous \<noteq> 0 then Inl StreamChanged
              else Inr ((), db'))"

definition advance_telemetry_cursor ::
    "policy_sdk \<Rightarrow> policy_error option \<Rightarrow> string \<Rightarrow> string \<Rightarrow> u64 \<Rightarrow> u64 \<Rightarrow> policy_db \<Rightarrow> (policy_error + unit) \<times> policy_db" where
  "advance_telemetry_cursor sdk fault plugin_id stream_id previous nxt db =
     (if \<not> sdk_validate_plugin_id sdk plugin_id then (Inl PluginIDInvalid, db)
      else if \<not> telemetry_stream_ok stream_id then (Inl TelemetryStreamInvalid, db)
      else if nxt < previous \<or> max_int64 < nxt then (Inl CursorInvalid, db)
      else db_update fault (advance_cursor_tx plugin_id stream_id previous nxt) db)"

subsection \<open>Traffic counters\<close>

text \<open>What a plugin's cumulative counter adds to the usage: the difference to the previous reading
  of the same epoch, or the whole reading when the epoch changed or the counter went back.\<close>

definition counter_delta :: "counter_state option \<Rightarrow> traffic_counter \<Rightarrow> u64 \<times> u64" where
  "counter_delta previous c =
     (case previous of
        None \<Rightarrow> (tc_upload_bytes c, tc_download_bytes c)
      | Some p \<Rightarrow>
          if cs_epoch p = tc_epoch c \<and> cs_upload_bytes p \<le> tc_upload_bytes c \<and> cs_download_bytes p \<le> tc_download_bytes c
          then (tc_upload_bytes c - cs_upload_bytes p, tc_download_bytes c - cs_download_bytes p)
          else (tc_upload_bytes c, tc_download_bytes c))"

type_synonym deltas = "(string \<times> u64 \<times> u64) list"

definition delta_of :: "deltas \<Rightarrow> string \<Rightarrow> u64 \<times> u64" where
  "delta_of deltas authorization_id = (case map_of deltas authorization_id of None \<Rightarrow> (0, 0) | Some d \<Rightarrow> d)"

definition count_counter ::
    "string \<Rightarrow> string list \<Rightarrow> traffic_counter option \<Rightarrow> deltas \<times> policy_db \<Rightarrow> policy_error + deltas \<times> policy_db" where
  "count_counter plugin_id known counter acc =
     (case counter of
        None \<Rightarrow> Inr acc
      | Some c \<Rightarrow>
        (case acc of (deltas, db) \<Rightarrow>
          if max_int64 < tc_upload_bytes c \<or> max_int64 < tc_download_bytes c then Inl CounterTooLarge
          else let key = service_key plugin_id (tc_authorization_id c) (tc_service_id c)
          in if key \<notin> set known then Inr (deltas, db)
          else and_then (get_json DecodeFailed (p_counters db) key) (\<lambda>previous.
            let delta = counter_delta previous c;
                db' = db\<lparr>p_counters := put_json key
                        \<lparr>cs_epoch = tc_epoch c, cs_upload_bytes = tc_upload_bytes c, cs_download_bytes = tc_download_bytes c\<rparr>
                        (p_counters db)\<rparr>;
                current = delta_of deltas (tc_authorization_id c)
            in if max_uint64 - fst current < fst delta \<or> max_uint64 - snd current < snd delta then Inl DeltaOverflow
               else Inr (AList.update (tc_authorization_id c) (fst current + fst delta, snd current + snd delta) deltas, db'))))"

definition zero_policy :: authorization_policy where
  "zero_policy =
     \<lparr>ap_authorization_id = [], ap_enabled = False, ap_expires_at = None, ap_traffic_limit_bytes = None,
      ap_soft_ip_limit = None, ap_activity_window_seconds = 0, ap_block_duration_seconds = 0, ap_bindings = [],
      ap_reset = [], ap_started_at = 0, ap_current_period = \<lparr>per_id = [], per_starts_at = 0, per_content = []\<rparr>\<rparr>"

definition policy_by_authorization :: "authorization_policy list \<Rightarrow> string \<Rightarrow> authorization_policy" where
  "policy_by_authorization policies authorization_id =
     (case map_of (map (\<lambda>p. (ap_authorization_id p, p)) (rev policies)) authorization_id of
        None \<Rightarrow> zero_policy | Some p \<Rightarrow> p)"

definition apply_delta ::
    "policy_sdk \<Rightarrow> authorization_policy list \<Rightarrow> time \<Rightarrow> deltas \<Rightarrow> string \<Rightarrow> policy_db \<Rightarrow> policy_error + policy_db" where
  "apply_delta sdk policies now deltas authorization_id db =
     (let delta = delta_of deltas authorization_id
      in if fst delta = 0 \<and> snd delta = 0 then Inr db
         else and_then (ensure_ledger sdk (policy_by_authorization policies authorization_id) now db) (\<lambda>(ledger, db).
           if max_int64 - ls_upload_bytes ledger < fst delta \<or> max_int64 - ls_download_bytes ledger < snd delta then Inl LedgerOverflow
           else if max_int64 \<le> ls_revision ledger then Inl LedgerRevisionExhausted
           else let ledger = ledger\<lparr>ls_upload_bytes := ls_upload_bytes ledger + fst delta,
                                    ls_download_bytes := ls_download_bytes ledger + snd delta,
                                    ls_revision := ls_revision ledger + 1\<rparr>
                in Inr (db\<lparr>p_ledgers := put_json authorization_id ledger (p_ledgers db)\<rparr>)))"

definition apply_counters_tx ::
    "policy_sdk \<Rightarrow> (string list \<Rightarrow> string list) \<Rightarrow> string \<Rightarrow> traffic_counter option list \<Rightarrow> time \<Rightarrow> policy_db \<Rightarrow> policy_error + unit \<times> policy_db" where
  "apply_counters_tx sdk iter plugin_id counters now db =
     and_then (read_policies sdk db) (\<lambda>policies.
       and_then (fold_res (count_counter plugin_id (binding_keys policies)) counters ([], db)) (\<lambda>(deltas, db).
         and_then (fold_res (apply_delta sdk policies now deltas) (iter (map fst deltas)) db) (\<lambda>db.
           Inr ((), db))))"

definition apply_counters ::
    "policy_sdk \<Rightarrow> (string list \<Rightarrow> string list) \<Rightarrow> policy_error option \<Rightarrow> string \<Rightarrow> traffic_counter option list \<Rightarrow> time \<Rightarrow> policy_db
     \<Rightarrow> (policy_error + unit) \<times> policy_db" where
  "apply_counters sdk iter fault plugin_id counters now db =
     (if \<not> sdk_validate_plugin_id sdk plugin_id then (Inl PluginIDInvalid, db)
      else if time_is_zero now then (Inl ObservationTimeRequired, db)
      else db_update fault (apply_counters_tx sdk iter plugin_id counters now) db)"

subsection \<open>Source address slots\<close>

definition observe_activity_tx ::
    "string \<Rightarrow> string \<Rightarrow> time \<Rightarrow> policy_db \<Rightarrow> policy_error + bool \<times> policy_db" where
  "observe_activity_tx authorization_id source_ip observed_at db =
     and_then (get_json DecodeFailed (p_policies db) authorization_id) (\<lambda>stored.
       case stored of
         None \<Rightarrow> Inr (False, db)
       | Some policy \<Rightarrow>
         (case ap_soft_ip_limit policy of
            None \<Rightarrow> Inr (False, db)
          | Some limit \<Rightarrow>
            and_then (clean_authorization_activity policy observed_at db) (\<lambda>db.
            let key = activity_key authorization_id source_ip
            in and_then (get_json DecodeFailed (p_blocks db) key) (\<lambda>existing_block.
               if (case existing_block of None \<Rightarrow> False | Some b \<Rightarrow> observed_at < block_expires_at b) then Inr (True, db)
               else and_then (get_json DecodeFailed (p_slots db) key) (\<lambda>existing_slot.
                 let seen = db\<lparr>p_slots := put_json key \<lparr>last_seen_at = observed_at\<rparr> (p_slots db)\<rparr>
                 in case existing_slot of
                      Some slot \<Rightarrow> Inr (False, if last_seen_at slot < observed_at then seen else db)
                    | None \<Rightarrow>
                      (let count = length (seek_prefix (authorization_id @ [nul]) (p_slots db))
                       in if count < unat limit then Inr (False, seen)
                          else let expires_at = observed_at + duration_seconds (ap_block_duration_seconds policy)
                               in Inr (True, db\<lparr>p_blocks := put_json key \<lparr>block_expires_at = expires_at\<rparr> (p_blocks db)\<rparr>)))))))"

definition observe_activity ::
    "policy_sdk \<Rightarrow> policy_error option \<Rightarrow> string \<Rightarrow> string \<Rightarrow> time \<Rightarrow> policy_db \<Rightarrow> (policy_error + bool) \<times> policy_db" where
  "observe_activity sdk fault authorization_id source_ip observed_at db =
     (if \<not> sdk_validate_identifier sdk authorization_id then (Inl IdentifierInvalid, db)
      else if \<not> sdk_canonical_ip sdk source_ip then (Inl SourceIPNotCanonical, db)
      else if time_is_zero observed_at then (Inl ObservationTimeRequired, db)
      else db_update fault (observe_activity_tx authorization_id source_ip observed_at) db)"

subsection \<open>Reported traffic and statuses\<close>

text \<open>\<^verbatim>\<open>sort.Slice\<close> by authorization and start of the period; the order of equal elements is the
  order they were collected in.\<close>

definition snapshot_order :: "traffic_snapshot \<Rightarrow> string \<times> time" where
  "snapshot_order s = (ts_authorization_id s, per_starts_at (ts_period s))"

definition collect_snapshots :: "policy_db \<Rightarrow> policy_error + traffic_snapshot list" where
  "collect_snapshots db =
     and_then (map_res (\<lambda>e. decode DecodeFailed (snd e)) (p_pending db)) (\<lambda>pending.
       and_then (map_res (\<lambda>e. decode DecodeFailed (snd e)) (p_ledgers db)) (\<lambda>ledgers.
         Inr (pending @ map ledger_event (filter (\<lambda>l. ls_queued_revision l < ls_revision l) ledgers))))"

definition pending_traffic_snapshots ::
    "policy_sdk \<Rightarrow> policy_error option \<Rightarrow> time \<Rightarrow> policy_db \<Rightarrow> (policy_error + traffic_snapshot list) \<times> policy_db" where
  "pending_traffic_snapshots sdk fault now db =
     (case refresh sdk fault now db of
        (Inl e, db) \<Rightarrow> (Inl e, db)
      | (Inr _, db) \<Rightarrow> (and_then (collect_snapshots db) (\<lambda>values. Inr (sort_key snapshot_order values)), db))"

definition same_traffic_snapshot :: "policy_sdk \<Rightarrow> traffic_snapshot \<Rightarrow> traffic_snapshot \<Rightarrow> bool" where
  "same_traffic_snapshot sdk a b \<longleftrightarrow>
     ts_authorization_id a = ts_authorization_id b \<and> sdk_same_period sdk (ts_period a) (ts_period b) \<and>
     ts_revision a = ts_revision b \<and> ts_upload_bytes a = ts_upload_bytes b \<and> ts_download_bytes a = ts_download_bytes b"

definition mark_traffic_queued_tx ::
    "policy_sdk \<Rightarrow> traffic_snapshot \<Rightarrow> policy_db \<Rightarrow> policy_error + unit \<times> policy_db" where
  "mark_traffic_queued_tx sdk value db =
     (let key = traffic_key (ts_authorization_id value) (per_id (ts_period value))
      in and_then (get_json DecodeFailed (p_pending db) key) (\<lambda>pending_value.
        case pending_value of
          Some p \<Rightarrow>
            if \<not> same_traffic_snapshot sdk p value then Inl SnapshotNotPending
            else Inr ((), db\<lparr>p_pending := bucket_delete key (p_pending db)\<rparr>)
        | None \<Rightarrow>
          and_then (get_json DecodeFailed (p_ledgers db) (ts_authorization_id value)) (\<lambda>stored.
            case stored of
              None \<Rightarrow> Inl SnapshotNotLedger
            | Some ledger \<Rightarrow>
                if per_id (ls_period ledger) \<noteq> per_id (ts_period value) \<or> ls_revision ledger < ts_revision value
                then Inl SnapshotNotLedger
                else if ls_revision ledger = ts_revision value \<and> ls_upload_bytes ledger = ts_upload_bytes value \<and>
                        ls_download_bytes ledger = ts_download_bytes value
                then Inr ((), db\<lparr>p_ledgers := put_json (ts_authorization_id value)
                                  (ledger\<lparr>ls_queued_revision := ts_revision value\<rparr>) (p_ledgers db)\<rparr>)
                else Inr ((), db))))"

definition mark_traffic_queued ::
    "policy_sdk \<Rightarrow> policy_error option \<Rightarrow> traffic_snapshot \<Rightarrow> policy_db \<Rightarrow> (policy_error + unit) \<times> policy_db" where
  "mark_traffic_queued sdk fault value db =
     (if \<not> sdk_validate_snapshot sdk value then (Inl SnapshotInvalid, db)
      else db_update fault (mark_traffic_queued_tx sdk value) db)"

definition pending_statuses :: "policy_db \<Rightarrow> policy_error + policy_status list" where
  "pending_statuses db =
     and_then (map_res (\<lambda>e. decode DecodeFailed (snd e)) (p_statuses db)) (\<lambda>states.
       Inr (sort_key st_authorization_id (map ss_event (filter (\<lambda>s. \<not> ss_queued s) states))))"

definition mark_status_queued_tx ::
    "string \<Rightarrow> policy_status \<Rightarrow> policy_db \<Rightarrow> policy_error + unit \<times> policy_db" where
  "mark_status_queued_tx digest value db =
     and_then (get_json DecodeFailed (p_statuses db) (st_authorization_id value)) (\<lambda>stored.
       case stored of
         None \<Rightarrow> Inr ((), db)
       | Some state \<Rightarrow>
           if ss_digest state = digest
           then Inr ((), db\<lparr>p_statuses := put_json (st_authorization_id value) (state\<lparr>ss_queued := True\<rparr>) (p_statuses db)\<rparr>)
           else Inr ((), db))"

definition mark_status_queued ::
    "policy_sdk \<Rightarrow> policy_error option \<Rightarrow> policy_status \<Rightarrow> policy_db \<Rightarrow> (policy_error + unit) \<times> policy_db" where
  "mark_status_queued sdk fault value db =
     (if \<not> sdk_validate_status sdk value then (Inl StatusInvalid, db)
      else case sdk_status_digest sdk value of
        None \<Rightarrow> (Inl EncodeFailed, db)
      | Some digest \<Rightarrow> db_update fault (mark_status_queued_tx digest value) db)"

subsection \<open>Opening the store\<close>

definition policy_initialize_tx :: "policy_db \<Rightarrow> policy_error + unit \<times> policy_db" where
  "policy_initialize_tx db =
     (let version = get_string (p_meta db) key_state_version
      in if version = [] then Inr ((), db\<lparr>p_meta := bucket_put key_state_version policy_state_version (p_meta db)\<rparr>)
         else if version \<noteq> policy_state_version then Inl UnsupportedStateVersion
         else Inr ((), db))"

definition open_policy_store ::
    "policy_error option \<Rightarrow> policy_error option \<Rightarrow> string \<Rightarrow> policy_db \<Rightarrow> (policy_error + unit) \<times> policy_db" where
  "open_policy_store os_fault fault path stored =
     (if \<not> abs_and_clean path then (Inl PolicyPathInvalid, stored)
      else case os_fault of
        Some e \<Rightarrow> (Inl e, stored)
      | None \<Rightarrow> db_update fault policy_initialize_tx stored)"

definition next_revision :: "string \<Rightarrow> policy_db \<Rightarrow> policy_error + u64 \<times> policy_db" where
  "next_revision key db =
     (let current = read_uint64 (bucket_get (p_meta db) key)
      in if max_int64 \<le> current then Inl StateRevisionExhausted
         else Inr (current + 1, db\<lparr>p_meta := put_uint64 key (current + 1) (p_meta db)\<rparr>))"

end
