(* ===== verification/PolicyInvariant.thy ===== *)
theory PolicyInvariant
  imports PolicyStore
begin

section \<open>The policy store: invariant and transaction lemmas\<close>

text \<open>
  What every operation of \<^verbatim>\<open>internal/policy/store.go\<close> keeps: every stored document decodes and agrees
  with its key, counters and ledgers stay within the signed 64-bit range, a ledger has never reported more than its
  revision, and nothing is kept about an authorization that is no longer granted.
\<close>

subsection \<open>What the store relies on\<close>

definition nul_free :: "string \<Rightarrow> bool" where
  "nul_free s \<longleftrightarrow> nul \<notin> set s"

definition policy_sdk_ok :: "policy_sdk \<Rightarrow> bool" where
  "policy_sdk_ok sdk \<longleftrightarrow>
     (\<forall>cmd. sdk_validate_command sdk cmd \<longrightarrow>
        (\<forall>p \<in> set (rc_authorizations cmd). sdk_validate_policy sdk p) \<and>
        distinct (map ap_authorization_id (rc_authorizations cmd))) \<and>
     (\<forall>p. sdk_validate_policy sdk p \<longrightarrow> nul_free (ap_authorization_id p) \<and>
        (\<forall>b \<in> set (ap_bindings p). nul_free (pb_plugin_id b) \<and> nul_free (pb_service_id b))) \<and>
     (\<forall>p now period. sdk_validate_policy sdk p \<longrightarrow>
        sdk_current_period sdk (ap_reset p) (ap_started_at p) now = Some period \<longrightarrow>
        sdk_validate_policy sdk (p\<lparr>ap_current_period := period\<rparr>)) \<and>
     (\<forall>p. sdk_same_period sdk p p)"

subsection \<open>Keys take their parts apart\<close>

lemma split_service_key:
  assumes "nul_free plugin" "nul_free auth" "nul_free service"
  shows "split_on nul (service_key plugin auth service) = [plugin, auth, service]"
  using assms by (simp add: service_key_def split_on_append split_on_no_sep nul_free_def)

lemma count_nul: "count_list (service_key a b c) nul = count_list a nul + count_list b nul + count_list c nul + 2"
  by (simp add: service_key_def)

lemma nul_free_count: "nul_free s \<longleftrightarrow> count_list s nul = 0"
  by (simp add: nul_free_def count_list_0_iff)

text \<open>A key that equals a well-formed one is itself made of well-formed parts.\<close>

lemma service_key_inject:
  assumes "nul_free plugin" "nul_free auth" "nul_free service"
    and "service_key plugin' auth' service' = service_key plugin auth service"
  shows "plugin' = plugin \<and> auth' = auth \<and> service' = service"
proof -
  have "count_list (service_key plugin' auth' service') nul = count_list (service_key plugin auth service) nul"
    using assms(4) by simp
  then have free: "nul_free plugin'" "nul_free auth'" "nul_free service'"
    using assms(1-3) by (simp_all add: count_nul nul_free_count)
  have "split_on nul (service_key plugin' auth' service') = split_on nul (service_key plugin auth service)"
    using assms(4) by simp
  then show ?thesis
    by (simp add: split_service_key assms(1-3) free)
qed

lemma key_authorization_activity: "nul_free a \<Longrightarrow> key_authorization (activity_key a ip) = a"
proof -
  assume "nul_free a"
  then have "takeWhile (\<lambda>c. c \<noteq> nul) (a @ [nul] @ ip) = a @ takeWhile (\<lambda>c. c \<noteq> nul) ([nul] @ ip)"
    by (intro takeWhile_append2) (auto simp: nul_free_def)
  then show ?thesis by (simp add: key_authorization_def activity_key_def)
qed

lemma prefix_activity_key:
  assumes "nul_free a" "nul_free a'"
  shows "prefix (a @ [nul]) (activity_key a' ip) \<longleftrightarrow> a' = a"
proof
  assume "prefix (a @ [nul]) (activity_key a' ip)"
  then obtain rest where "activity_key a' ip = activity_key a rest"
    by (auto simp: prefix_def activity_key_def)
  then show "a' = a"
    using key_authorization_activity [OF assms(1), of rest] key_authorization_activity [OF assms(2), of ip] by simp
qed (simp add: activity_key_def)

lemma activity_key_inject:
  assumes "nul_free a" "nul_free a'" "activity_key a ip = activity_key a' ip'"
  shows "a = a' \<and> ip = ip'"
proof -
  have "a = a'"
    using assms key_authorization_activity [of a ip] key_authorization_activity [of a' ip'] by simp
  with assms(3) show ?thesis by (simp add: activity_key_def)
qed

subsection \<open>The invariant\<close>

definition policy_ok :: "policy_sdk \<Rightarrow> string \<Rightarrow> authorization_policy \<Rightarrow> bool" where
  "policy_ok sdk k p \<longleftrightarrow> ap_authorization_id p = k \<and> sdk_validate_policy sdk p"

definition service_named :: "string \<Rightarrow> desired_service \<Rightarrow> bool" where
  "service_named k d \<longleftrightarrow>
     k = service_key (ds_plugin_id d) (ds_authorization_id d) (ds_service_id d) \<and>
     nul_free (ds_plugin_id d) \<and> nul_free (ds_authorization_id d) \<and> nul_free (ds_service_id d)"

definition orphan_ok :: "string \<Rightarrow> desired_service \<Rightarrow> bool" where
  "orphan_ok k d \<longleftrightarrow> service_named k d \<and> ds_orphan d"

definition counter_ok :: "string set \<Rightarrow> string \<Rightarrow> counter_state \<Rightarrow> bool" where
  "counter_ok ids k c \<longleftrightarrow>
     (\<exists>plugin auth service. k = service_key plugin auth service \<and> nul_free plugin \<and> nul_free auth \<and>
        nul_free service \<and> auth \<in> ids) \<and>
     cs_upload_bytes c \<le> max_int64 \<and> cs_download_bytes c \<le> max_int64"

definition ledger_ok :: "string set \<Rightarrow> string \<Rightarrow> ledger_state \<Rightarrow> bool" where
  "ledger_ok ids k l \<longleftrightarrow>
     k \<in> ids \<and> nul_free k \<and> ls_authorization_id l = k \<and> 0 < ls_revision l \<and> ls_revision l \<le> max_int64 \<and>
     ls_queued_revision l \<le> ls_revision l \<and> ls_upload_bytes l \<le> max_int64 \<and> ls_download_bytes l \<le> max_int64"

definition pending_ok :: "string \<Rightarrow> traffic_snapshot \<Rightarrow> bool" where
  "pending_ok k s \<longleftrightarrow>
     k = traffic_key (ts_authorization_id s) (per_id (ts_period s)) \<and> nul_free (ts_authorization_id s) \<and> 0 < ts_revision s \<and>
     ts_revision s \<le> max_int64 \<and> ts_upload_bytes s \<le> max_int64 \<and> ts_download_bytes s \<le> max_int64"

definition activity_ok :: "string set \<Rightarrow> string \<Rightarrow> 'v \<Rightarrow> bool" where
  "activity_ok ids k v \<longleftrightarrow> (\<exists>auth ip. k = activity_key auth ip \<and> auth \<in> ids)"

definition status_ok :: "string set \<Rightarrow> string \<Rightarrow> status_state \<Rightarrow> bool" where
  "status_ok ids k s \<longleftrightarrow> k \<in> ids \<and> st_authorization_id (ss_event s) = k"

definition granted_ids :: "policy_db \<Rightarrow> string set" where
  "granted_ids db = fst ` set (p_policies db)"

definition granted :: "policy_db \<Rightarrow> authorization_policy list" where
  "granted db = map snd (cell_values (p_policies db))"

definition granted_keys :: "policy_db \<Rightarrow> string set" where
  "granted_keys db = set (binding_keys (granted db))"

definition policy_inv :: "policy_sdk \<Rightarrow> policy_db \<Rightarrow> bool" where
  "policy_inv sdk db \<longleftrightarrow>
     cells_ok (policy_ok sdk) (p_policies db) \<and>
     cells_ok orphan_ok (p_orphans db) \<and>
     fst ` set (p_orphans db) \<inter> granted_keys db = {} \<and>
     cells_ok (counter_ok (granted_ids db)) (p_counters db) \<and>
     cells_ok (ledger_ok (granted_ids db)) (p_ledgers db) \<and>
     cells_ok pending_ok (p_pending db) \<and>
     cells_ok (\<lambda>_ c. cursor_sequence c \<le> max_int64) (p_cursors db) \<and>
     cells_ok (activity_ok (granted_ids db)) (p_slots db) \<and>
     cells_ok (activity_ok (granted_ids db)) (p_blocks db) \<and>
     cells_ok (status_ok (granted_ids db)) (p_statuses db)"

lemma policy_invD:
  assumes "policy_inv sdk db"
  shows "cells_ok (policy_ok sdk) (p_policies db)" and "cells_ok orphan_ok (p_orphans db)"
    and "cells_ok (counter_ok (granted_ids db)) (p_counters db)"
    and "cells_ok (ledger_ok (granted_ids db)) (p_ledgers db)" and "cells_ok pending_ok (p_pending db)"
    and "cells_ok (activity_ok (granted_ids db)) (p_slots db)"
    and "cells_ok (activity_ok (granted_ids db)) (p_blocks db)"
    and "cells_ok (status_ok (granted_ids db)) (p_statuses db)"
  using assms by (simp_all add: policy_inv_def)

lemma empty_policy_inv: "policy_inv sdk empty_policy_db"
  by (simp add: policy_inv_def empty_policy_db_def granted_ids_def)

subsection \<open>Reading the granted policies\<close>

text \<open>Under the invariant the policies of the store always read back, in the order of their ids.\<close>

lemma granted_cells:
  assumes "cells_ok (policy_ok sdk) (p_policies db)"
  shows "p_policies db = map (\<lambda>p. (ap_authorization_id p, Json p)) (granted db)"
    and "\<forall>p \<in> set (granted db). sdk_validate_policy sdk p"
proof -
  have "\<exists>p. e = (ap_authorization_id p, Json p) \<and> sdk_validate_policy sdk p" if "e \<in> set (p_policies db)" for e
    using assms that by (cases e) (force simp: cells_ok_def policy_ok_def)
  then have "map (\<lambda>p. (ap_authorization_id p, Json p)) (granted db) = map id (p_policies db)"
    unfolding granted_def cell_values_def map_map
    by (intro map_cong [OF refl]) fastforce
  then show "p_policies db = map (\<lambda>p. (ap_authorization_id p, Json p)) (granted db)" by simp
  show "\<forall>p \<in> set (granted db). sdk_validate_policy sdk p"
    using assms by (force simp: granted_def cell_values_def cells_ok_def policy_ok_def)
qed

lemma read_policies_granted:
  assumes "cells_ok (policy_ok sdk) (p_policies db)"
  shows "read_policies sdk db = Inr (granted db)"
proof -
  let ?c = "\<lambda>p. (ap_authorization_id p, Json p)"
  have "map_res (read_policy sdk) (map ?c ps) = Inr ps" if "\<forall>p \<in> set ps. sdk_validate_policy sdk p" for ps
    using that by (induction ps) (simp_all add: read_policy_def)
  then show ?thesis
    using granted_cells [OF assms] by (simp add: read_policies_def)
qed

lemma granted_ids_eq:
  assumes "cells_ok (policy_ok sdk) (p_policies db)"
  shows "granted_ids db = ap_authorization_id ` set (granted db)"
  using arg_cong [OF granted_cells(1) [OF assms], of "\<lambda>b. fst ` set b"]
  by (simp add: granted_ids_def image_image)

lemma granted_distinct:
  assumes "cells_ok (policy_ok sdk) (p_policies db)"
  shows "distinct (map ap_authorization_id (granted db))"
proof -
  have "distinct (map fst (p_policies db))" using assms by (simp add: cells_ok_def bucket_ok_distinct)
  then show ?thesis
    by (subst (asm) granted_cells(1) [OF assms]) (simp add: comp_def)
qed

lemma granted_ids_nul_free:
  assumes "policy_sdk_ok sdk" "cells_ok (policy_ok sdk) (p_policies db)" "a \<in> granted_ids db"
  shows "nul_free a"
  using assms granted_cells(2) [OF assms(2)] granted_ids_eq [OF assms(2)]
  by (auto simp: policy_sdk_ok_def)

lemma get_granted:
  assumes "cells_ok (policy_ok sdk) (p_policies db)"
  shows "get_json err (p_policies db) a = Inr (Some p) \<longleftrightarrow> p \<in> set (granted db) \<and> ap_authorization_id p = a"
proof -
  have "get_json err (p_policies db) a = Inr (Some p) \<longleftrightarrow> (a, Json p) \<in> set (p_policies db)"
    using assms by (simp add: get_json_Some_iff cells_ok_def get_eq_Some_iff)
  also have "\<dots> \<longleftrightarrow> p \<in> set (granted db) \<and> ap_authorization_id p = a"
    by (subst granted_cells(1) [OF assms]) auto
  finally show ?thesis .
qed

subsection \<open>Ledgers\<close>

lemma ensure_ledger_cases [consumes 1, case_names kept created rolled]:
  assumes "ensure_ledger sdk policy now db = Inr (l, db')"
  obtains
    period where "sdk_current_period sdk (ap_reset policy) (ap_started_at policy) now = Some period"
      and "bucket_get (p_ledgers db) (ap_authorization_id policy) = Some (Json l)"
      and "per_id (ls_period l) = per_id period" and "db' = db"
  | period where "sdk_current_period sdk (ap_reset policy) (ap_started_at policy) now = Some period"
      and "bucket_get (p_ledgers db) (ap_authorization_id policy) = None"
      and "l = fresh_ledger (ap_authorization_id policy) period"
      and "db' = db\<lparr>p_ledgers := put_json (ap_authorization_id policy) l (p_ledgers db)\<rparr>"
  | period old where "sdk_current_period sdk (ap_reset policy) (ap_started_at policy) now = Some period"
      and "bucket_get (p_ledgers db) (ap_authorization_id policy) = Some (Json old)"
      and "per_id (ls_period old) \<noteq> per_id period"
      and "l = fresh_ledger (ap_authorization_id policy) period"
      and "db' = (preserve_pending_traffic old db)\<lparr>p_ledgers := put_json (ap_authorization_id policy) l (p_ledgers db)\<rparr>"
proof -
  from assms obtain stored period where
    stored: "get_json DecodeFailed (p_ledgers db) (ap_authorization_id policy) = Inr stored" and
    period: "sdk_current_period sdk (ap_reset policy) (ap_started_at policy) now = Some period"
    by (auto simp: ensure_ledger_def and_then_Inr_iff split: option.splits)
  show ?thesis
  proof (cases stored)
    case None
    with assms stored period show ?thesis
      by (intro that(2)) (auto simp: ensure_ledger_def Let_def get_json_None_iff)
  next
    case (Some old)
    with stored have old: "bucket_get (p_ledgers db) (ap_authorization_id policy) = Some (Json old)"
      by (simp add: get_json_Some_iff)
    show ?thesis
    proof (cases "per_id (ls_period old) = per_id period")
      case True
      with assms stored period Some old show ?thesis
        by (intro that(1)) (auto simp: ensure_ledger_def Let_def)
    next
      case False
      with assms stored period Some old show ?thesis
        by (intro that(3)) (auto simp: ensure_ledger_def Let_def preserve_pending_traffic_def)
    qed
  qed
qed

lemma preserve_pending_frame:
  obtains P where "preserve_pending_traffic l db = db\<lparr>p_pending := P\<rparr>"
proof (cases "ls_revision l \<le> ls_queued_revision l")
  case True
  with that [of "p_pending db"] show ?thesis by (simp add: preserve_pending_traffic_def)
next
  case False
  then show ?thesis by (intro that) (simp add: preserve_pending_traffic_def Let_def)
qed

lemma ensure_ledger_frame:
  assumes "ensure_ledger sdk policy now db = Inr (l, db')"
  obtains L P where "db' = db\<lparr>p_ledgers := L, p_pending := P\<rparr>"
  using assms
proof (cases rule: ensure_ledger_cases)
  case (kept period)
  then show ?thesis by (intro that [of "p_pending db" "p_ledgers db"]) simp
next
  case (created period)
  then show ?thesis by (intro that [of "p_pending db"]) simp
next
  case (rolled period old)
  obtain P where "preserve_pending_traffic old db = db\<lparr>p_pending := P\<rparr>" by (rule preserve_pending_frame)
  with rolled show ?thesis
    by (intro that [of P "put_json (ap_authorization_id policy) l (p_ledgers db)"]) simp
qed

lemma ensure_ledger_get:
  assumes "ensure_ledger sdk policy now db = Inr (l, db')"
  shows "bucket_get (p_ledgers db') (ap_authorization_id policy) = Some (Json l)"
  using assms by (cases rule: ensure_ledger_cases) (auto simp: put_json_def)

lemma ensure_ledger_period:
  assumes "ensure_ledger sdk policy now db = Inr (l, db')"
  shows "\<exists>period. sdk_current_period sdk (ap_reset policy) (ap_started_at policy) now = Some period \<and>
           per_id (ls_period l) = per_id period"
  using assms by (cases rule: ensure_ledger_cases) (auto simp: fresh_ledger_def)

lemma ensure_ledger_total:
  assumes "cells_ok P (p_ledgers db)"
    and "sdk_current_period sdk (ap_reset policy) (ap_started_at policy) now = Some period"
  shows "\<exists>l db'. ensure_ledger sdk policy now db = Inr (l, db')"
proof -
  obtain stored where "get_json DecodeFailed (p_ledgers db) (ap_authorization_id policy) = Inr stored"
    using cells_ok_total [OF assms(1), of DecodeFailed "ap_authorization_id policy"] by blast
  with assms(2) show ?thesis
    by (cases stored) (auto simp: ensure_ledger_def Let_def)
qed

lemma ledger_event_ok: "ledger_ok ids k l \<Longrightarrow> pending_ok (traffic_key (ls_authorization_id l) (per_id (ls_period l))) (ledger_event l)"
  by (auto simp: ledger_ok_def pending_ok_def ledger_event_def)

lemma preserve_pending_ok:
  assumes "cells_ok pending_ok (p_pending db)" and "ledger_ok ids k l"
  shows "cells_ok pending_ok (p_pending (preserve_pending_traffic l db))"
  using assms ledger_event_ok [OF assms(2)]
  by (auto simp: preserve_pending_traffic_def Let_def ledger_event_def intro!: cells_ok_put_json)

lemma fresh_ledger_ok: "a \<in> ids \<Longrightarrow> nul_free a \<Longrightarrow> ledger_ok ids a (fresh_ledger a period)"
  by (simp add: ledger_ok_def fresh_ledger_def max_int64_def)

lemma ensure_ledger_ok:
  assumes "ensure_ledger sdk policy now db = Inr (l, db')" and "ap_authorization_id policy \<in> ids"
    and "cells_ok (ledger_ok ids) (p_ledgers db)" and "cells_ok pending_ok (p_pending db)"
    and "nul_free (ap_authorization_id policy)"
  shows "cells_ok (ledger_ok ids) (p_ledgers db')" and "cells_ok pending_ok (p_pending db')"
    and "ledger_ok ids (ap_authorization_id policy) l"
proof -
  have "cells_ok (ledger_ok ids) (p_ledgers db') \<and> cells_ok pending_ok (p_pending db')"
    using assms(1)
  proof (cases rule: ensure_ledger_cases)
    case (kept period)
    with assms(3,4) show ?thesis by simp
  next
    case (created period)
    with assms show ?thesis by (auto intro!: cells_ok_put_json fresh_ledger_ok)
  next
    case (rolled period old)
    have "ledger_ok ids (ap_authorization_id policy) old"
      using cells_ok_get [OF assms(3) rolled(2)] by auto
    with rolled assms show ?thesis
      by (auto intro!: cells_ok_put_json fresh_ledger_ok preserve_pending_ok)
  qed
  then show a: "cells_ok (ledger_ok ids) (p_ledgers db')" and "cells_ok pending_ok (p_pending db')" by auto
  show "ledger_ok ids (ap_authorization_id policy) l"
    using cells_ok_get [OF a ensure_ledger_get [OF assms(1)]] by simp
qed

lemma granted_ids_updates [simp]:
  "granted_ids (db\<lparr>p_meta := m\<rparr>) = granted_ids db" "granted_ids (db\<lparr>p_orphans := o'\<rparr>) = granted_ids db"
  "granted_ids (db\<lparr>p_counters := c\<rparr>) = granted_ids db" "granted_ids (db\<lparr>p_ledgers := l\<rparr>) = granted_ids db"
  "granted_ids (db\<lparr>p_pending := p\<rparr>) = granted_ids db" "granted_ids (db\<lparr>p_cursors := k\<rparr>) = granted_ids db"
  "granted_ids (db\<lparr>p_slots := s\<rparr>) = granted_ids db" "granted_ids (db\<lparr>p_blocks := b\<rparr>) = granted_ids db"
  "granted_ids (db\<lparr>p_statuses := t\<rparr>) = granted_ids db"
  "granted_ids (db\<lparr>p_desired_services := ds\<rparr>) = granted_ids db"
  "granted_ids (db\<lparr>p_applied_services := as\<rparr>) = granted_ids db"
  "granted_ids (db\<lparr>p_desired_blocks := dk\<rparr>) = granted_ids db"
  "granted_ids (db\<lparr>p_applied_blocks := ak\<rparr>) = granted_ids db"
  by (simp_all add: granted_ids_def)

lemma granted_updates [simp]:
  "granted (db\<lparr>p_meta := m\<rparr>) = granted db" "granted (db\<lparr>p_orphans := o'\<rparr>) = granted db"
  "granted (db\<lparr>p_counters := c\<rparr>) = granted db" "granted (db\<lparr>p_ledgers := l\<rparr>) = granted db"
  "granted (db\<lparr>p_pending := p\<rparr>) = granted db" "granted (db\<lparr>p_cursors := k\<rparr>) = granted db"
  "granted (db\<lparr>p_slots := s\<rparr>) = granted db" "granted (db\<lparr>p_blocks := b\<rparr>) = granted db"
  "granted (db\<lparr>p_statuses := t\<rparr>) = granted db"
  "granted (db\<lparr>p_desired_services := ds\<rparr>) = granted db"
  "granted (db\<lparr>p_applied_services := as\<rparr>) = granted db"
  "granted (db\<lparr>p_desired_blocks := dk\<rparr>) = granted db"
  "granted (db\<lparr>p_applied_blocks := ak\<rparr>) = granted db"
  by (simp_all add: granted_def)

lemma ensure_ledger_inv [invariant_intro]:
  assumes "ensure_ledger sdk policy now db = Inr (l, db')" and "policy_inv sdk db"
    and "ap_authorization_id policy \<in> granted_ids db" and "policy_sdk_ok sdk"
  shows "policy_inv sdk db'" and "granted db' = granted db" and "granted_ids db' = granted_ids db"
proof -
  obtain L P where frame: "db' = db\<lparr>p_ledgers := L, p_pending := P\<rparr>"
    using assms(1) by (rule ensure_ledger_frame)
  then show "granted_ids db' = granted_ids db" "granted db' = granted db" by simp_all
  have "nul_free (ap_authorization_id policy)"
    by (rule granted_ids_nul_free [OF assms(4) policy_invD(1) [OF assms(2)] assms(3)])
  note ok = ensure_ledger_ok(1,2) [OF assms(1,3) policy_invD(4,5) [OF assms(2)] this]
  show "policy_inv sdk db'"
    using assms(2) ok by (simp add: policy_inv_def granted_keys_def frame)
qed


subsection \<open>Activity\<close>

definition slot_live :: "time \<Rightarrow> slot_state json \<Rightarrow> bool" where
  "slot_live cutoff c = (case c of Json s \<Rightarrow> cutoff < last_seen_at s | Corrupt \<Rightarrow> False)"

definition block_live :: "time \<Rightarrow> block_state json \<Rightarrow> bool" where
  "block_live now c = (case c of Json s \<Rightarrow> now < block_expires_at s | Corrupt \<Rightarrow> False)"

definition activity_cutoff :: "authorization_policy \<Rightarrow> time \<Rightarrow> time" where
  "activity_cutoff policy now = now + minus_duration_seconds (ap_activity_window_seconds policy)"

lemma clean_activity_eq:
  assumes "cells_ok P (p_slots db)" and "cells_ok Q (p_blocks db)"
  shows "clean_authorization_activity policy now db =
    Inr (db\<lparr>p_slots := filter (\<lambda>e. prefix (ap_authorization_id policy @ [nul]) (fst e) \<longrightarrow>
                          slot_live (activity_cutoff policy now) (snd e)) (p_slots db),
             p_blocks := filter (\<lambda>e. prefix (ap_authorization_id policy @ [nul]) (fst e) \<longrightarrow>
                          block_live now (snd e)) (p_blocks db)\<rparr>)"
proof -
  let ?p = "ap_authorization_id policy @ [nul]"
  have 1: "slot_expired cutoff (snd e) = Inr (\<not> slot_live cutoff (snd e))" if "e \<in> set (p_slots db)" for e cutoff
    using assms(1) that by (cases "snd e") (auto simp: cells_ok_def slot_expired_def slot_live_def)
  have 2: "block_expired now (snd e) = Inr (\<not> block_live now (snd e))" if "e \<in> set (p_blocks db)" for e
    using assms(2) that by (cases "snd e") (auto simp: cells_ok_def block_expired_def block_live_def)
  have "delete_matching (p_slots db) ?p (slot_expired (activity_cutoff policy now)) =
      Inr (filter (\<lambda>e. \<not> (prefix ?p (fst e) \<and> \<not> slot_live (activity_cutoff policy now) (snd e))) (p_slots db))"
    by (rule delete_matching_filter [OF cells_ok_sorted [OF assms(1)]]) (simp add: 1)
  moreover have "delete_matching (p_blocks db) ?p (block_expired now) =
      Inr (filter (\<lambda>e. \<not> (prefix ?p (fst e) \<and> \<not> block_live now (snd e))) (p_blocks db))"
    by (rule delete_matching_filter [OF cells_ok_sorted [OF assms(2)]]) (simp add: 2)
  ultimately show ?thesis
    by (simp add: clean_authorization_activity_def activity_cutoff_def Let_def)
qed

lemma clean_activity_inv [invariant_intro]:
  assumes "clean_authorization_activity policy now db = Inr db'" and "policy_inv sdk db"
  shows "policy_inv sdk db'" and "granted db' = granted db" and "granted_ids db' = granted_ids db"
    and "p_ledgers db' = p_ledgers db" and "p_pending db' = p_pending db" and "p_policies db' = p_policies db"
proof -
  have "\<exists>S B. db' = db\<lparr>p_slots := filter S (p_slots db), p_blocks := filter B (p_blocks db)\<rparr>"
    using assms(1) clean_activity_eq [OF policy_invD(6,7) [OF assms(2)], of policy now] by auto
  then obtain S B where db': "db' = db\<lparr>p_slots := filter S (p_slots db), p_blocks := filter B (p_blocks db)\<rparr>"
    by blast
  show "policy_inv sdk db'"
    using assms(2) by (simp add: db' policy_inv_def granted_keys_def cells_ok_filter)
  show "granted db' = granted db" "granted_ids db' = granted_ids db" "p_ledgers db' = p_ledgers db"
    "p_pending db' = p_pending db" "p_policies db' = p_policies db"
    by (simp_all add: db')
qed


subsection \<open>Refresh\<close>

definition renew_period :: "policy_sdk \<Rightarrow> time \<Rightarrow> authorization_policy \<Rightarrow> authorization_policy" where
  "renew_period sdk now policy =
     (case sdk_current_period sdk (ap_reset policy) (ap_started_at policy) now of
        None \<Rightarrow> policy
      | Some period \<Rightarrow>
          if sdk_same_period sdk period (ap_current_period policy) then policy
          else policy\<lparr>ap_current_period := period\<rparr>)"

lemma renew_period_fields [simp]:
  "ap_authorization_id (renew_period sdk now p) = ap_authorization_id p"
  "ap_bindings (renew_period sdk now p) = ap_bindings p"
  "ap_reset (renew_period sdk now p) = ap_reset p"
  "ap_started_at (renew_period sdk now p) = ap_started_at p"
  "ap_activity_window_seconds (renew_period sdk now p) = ap_activity_window_seconds p"
  "ap_soft_ip_limit (renew_period sdk now p) = ap_soft_ip_limit p"
  by (simp_all add: renew_period_def split: option.splits)

lemma renew_period_valid:
  "policy_sdk_ok sdk \<Longrightarrow> sdk_validate_policy sdk p \<Longrightarrow> sdk_validate_policy sdk (renew_period sdk now p)"
  by (auto simp: renew_period_def policy_sdk_ok_def split: option.splits)

text \<open>Storing one policy again under its own id changes only that entry.\<close>

definition store_policy :: "authorization_policy \<Rightarrow> policy_db \<Rightarrow> policy_db" where
  "store_policy p db = db\<lparr>p_policies := put_json (ap_authorization_id p) p (p_policies db)\<rparr>"

lemma store_policy_granted:
  assumes "cells_ok (policy_ok sdk) (p_policies db)" and "ap_authorization_id p \<in> granted_ids db"
  shows "granted (store_policy p db) = map (\<lambda>q. if ap_authorization_id q = ap_authorization_id p then p else q) (granted db)"
    and "granted_ids (store_policy p db) = granted_ids db"
proof -
  let ?a = "ap_authorization_id p"
  have put: "p_policies (store_policy p db) = map (\<lambda>e. if fst e = ?a then (?a, Json p) else e) (p_policies db)"
    using assms put_existing [of "p_policies db" ?a "Json p"]
    by (simp add: store_policy_def put_json_def cells_ok_def granted_ids_def)
  show "granted (store_policy p db) = map (\<lambda>q. if ap_authorization_id q = ?a then p else q) (granted db)"
    unfolding granted_def [of "store_policy p db"] put
    by (subst granted_cells(1) [OF assms(1)]) (simp add: cell_values_def)
  show "granted_ids (store_policy p db) = granted_ids db"
    using assms(2) by (simp add: granted_ids_def store_policy_def put_json_def keys_put insert_absorb)
qed

lemma store_policy_inv:
  assumes "policy_inv sdk db" and "sdk_validate_policy sdk p"
    and "\<exists>q \<in> set (granted db). ap_authorization_id q = ap_authorization_id p \<and> ap_bindings q = ap_bindings p"
  shows "policy_inv sdk (store_policy p db)"
proof -
  note cells = policy_invD(1) [OF assms(1)]
  from assms(3) obtain q where q: "q \<in> set (granted db)"
    "ap_authorization_id q = ap_authorization_id p" "ap_bindings q = ap_bindings p" by blast
  have mem: "ap_authorization_id p \<in> granted_ids db"
    unfolding granted_ids_eq [OF cells] q(2) [symmetric] by (rule imageI [OF q(1)])
  note eff = store_policy_granted [OF cells mem]
  have same: "r = q" if "r \<in> set (granted db)" "ap_authorization_id r = ap_authorization_id p" for r
    using granted_distinct [OF cells] that q by (metis distinct_map inj_onD)
  have "granted_keys (store_policy p db) \<subseteq> granted_keys db"
  proof
    fix k assume "k \<in> granted_keys (store_policy p db)"
    then obtain r where r: "r \<in> set (granted db)" and
      k: "k \<in> set (binding_keys [if ap_authorization_id r = ap_authorization_id p then p else r])"
      by (auto simp: granted_keys_def eff binding_keys_def)
    have "k \<in> set (binding_keys [r])"
    proof (cases "ap_authorization_id r = ap_authorization_id p")
      case True
      with same [OF r] k q show ?thesis by (simp add: binding_keys_def)
    qed (use k in simp)
    with r show "k \<in> granted_keys db" by (auto simp: granted_keys_def binding_keys_def)
  qed

  moreover have "cells_ok (policy_ok sdk) (p_policies (store_policy p db))"
    using cells assms(2) by (simp add: store_policy_def cells_ok_put_json policy_ok_def)
  ultimately show ?thesis
    using assms(1) unfolding policy_inv_def eff(2) by (auto simp: store_policy_def)
qed

lemma refresh_policy_Inr:
  assumes "refresh_policy sdk now p db = Inr db'"
  obtains l db0 db1 where
    "db0 = db \<and> renew_period sdk now p = p \<or> db0 = store_policy (renew_period sdk now p) db"
    "ensure_ledger sdk (renew_period sdk now p) now db0 = Inr (l, db1)"
    "clean_authorization_activity (renew_period sdk now p) now db1 = Inr db'"
proof -
  from assms obtain period where period: "sdk_current_period sdk (ap_reset p) (ap_started_at p) now = Some period"
    by (auto simp: refresh_policy_def split: option.splits)
  show ?thesis
  proof (cases "sdk_same_period sdk period (ap_current_period p)")
    case True
    then have "renew_period sdk now p = p" by (simp add: renew_period_def period)
    with assms True period obtain l db1 where
      "ensure_ledger sdk (renew_period sdk now p) now db = Inr (l, db1)"
      "clean_authorization_activity (renew_period sdk now p) now db1 = Inr db'"
      by (simp add: refresh_policy_def and_then_Inr_iff) force
    with \<open>renew_period sdk now p = p\<close> show ?thesis by (intro that [of db]) simp_all
  next
    case False
    then have new: "p\<lparr>ap_current_period := period\<rparr> = renew_period sdk now p" by (simp add: renew_period_def period)
    from assms False period new obtain l db1 where
      "ensure_ledger sdk (renew_period sdk now p) now (store_policy (renew_period sdk now p) db) = Inr (l, db1)"
      "clean_authorization_activity (renew_period sdk now p) now db1 = Inr db'"
      by (simp add: refresh_policy_def and_then_Inr_iff store_policy_def Let_def) force
    then show ?thesis by (intro that [of "store_policy (renew_period sdk now p) db"]) simp_all
  qed
qed


lemma refresh_policy_inv:
  assumes res: "refresh_policy sdk now p db = Inr db'" and ok: "policy_sdk_ok sdk" and inv: "policy_inv sdk db"
    and p: "p \<in> set (granted db)"
  shows "policy_inv sdk db'" and "granted_ids db' = granted_ids db"
    and "granted db' = map (\<lambda>q. if ap_authorization_id q = ap_authorization_id p then renew_period sdk now p else q) (granted db)"
proof -
  let ?p = "renew_period sdk now p"
  note cells = policy_invD(1) [OF inv]
  obtain l db0 db1 where
    db0: "db0 = db \<and> ?p = p \<or> db0 = store_policy ?p db" and
    db1: "ensure_ledger sdk ?p now db0 = Inr (l, db1)" and
    db': "clean_authorization_activity ?p now db1 = Inr db'"
    using res by (rule refresh_policy_Inr)
  have mem: "ap_authorization_id ?p \<in> granted_ids db"
    using p granted_ids_eq [OF cells] by simp
  have valid: "sdk_validate_policy sdk ?p"
    using granted_cells(2) [OF cells] p by (intro renew_period_valid [OF ok]) simp
  have same: "q = p" if "q \<in> set (granted db)" "ap_authorization_id q = ap_authorization_id p" for q
    using granted_distinct [OF cells] that p by (metis distinct_map inj_onD)
  have "policy_inv sdk db0 \<and> granted_ids db0 = granted_ids db \<and>
      granted db0 = map (\<lambda>q. if ap_authorization_id q = ap_authorization_id p then ?p else q) (granted db)"
    using db0
  proof
    assume h: "db0 = db \<and> ?p = p"
    have "map (\<lambda>q. if ap_authorization_id q = ap_authorization_id p then ?p else q) (granted db) = granted db"
      using h same by (intro map_idI) metis
    with inv h show ?thesis by simp
  next
    assume "db0 = store_policy ?p db"
    with store_policy_inv [OF inv valid] p store_policy_granted [OF cells mem] show ?thesis by auto
  qed
  then have inv0: "policy_inv sdk db0" and ids0: "granted_ids db0 = granted_ids db" and
    granted0: "granted db0 = map (\<lambda>q. if ap_authorization_id q = ap_authorization_id p then ?p else q) (granted db)"
    by auto
  note s1 = ensure_ledger_inv [OF db1 inv0 _ ok, unfolded ids0, OF mem]
  note s2 = clean_activity_inv [OF db' s1(1)]
  show "policy_inv sdk db'" by (rule s2(1))
  show "granted_ids db' = granted_ids db" using s1(3) s2(3) by simp
  show "granted db' = map (\<lambda>q. if ap_authorization_id q = ap_authorization_id p then ?p else q) (granted db)"
    using s1(2) s2(2) granted0 by simp
qed

lemma refresh_fold:
  assumes "fold_res (refresh_policy sdk now) ps db = Inr db'" and "policy_sdk_ok sdk" and "policy_inv sdk db"
    and "set ps \<subseteq> set (granted db)" and "distinct (map ap_authorization_id ps)"
  shows "policy_inv sdk db' \<and> granted_ids db' = granted_ids db \<and>
    granted db' = map (\<lambda>q. if q \<in> set ps then renew_period sdk now q else q) (granted db)"
  using assms(1,3-5)
proof (induction ps arbitrary: db)
  case Nil
  then show ?case by simp
next
  case (Cons p ps)
  from Cons.prems(1) obtain db1 where step: "refresh_policy sdk now p db = Inr db1"
    and rest: "fold_res (refresh_policy sdk now) ps db1 = Inr db'" by (auto simp: and_then_Inr_iff)
  have p: "p \<in> set (granted db)" using Cons.prems(3) by simp
  note eff = refresh_policy_inv [OF step assms(2) Cons.prems(2) p]
  note cells = policy_invD(1) [OF Cons.prems(2)]
  have same: "q = p" if "q \<in> set (granted db)" "ap_authorization_id q = ap_authorization_id p" for q
    using granted_distinct [OF cells] that p by (metis distinct_map inj_onD)
  have others: "ap_authorization_id q \<noteq> ap_authorization_id p" if "q \<in> set ps" for q
    using Cons.prems(4) that by (metis distinct.simps(2) imageI list.set_map list.simps(9))
  have sub: "set ps \<subseteq> set (granted db1)"
    using Cons.prems(3) others unfolding eff(3) by force
  have dist: "distinct (map ap_authorization_id ps)" using Cons.prems(4) by simp
  note IH = Cons.IH [OF rest eff(1) sub dist]
  have "renew_period sdk now p \<notin> set ps" using others [of "renew_period sdk now p"] by auto
  with IH eff(2) same others show ?case unfolding eff(3) by auto
qed

lemma refresh_tx_Inr:
  assumes "refresh_tx sdk now db = Inr (u, db')" and "policy_sdk_ok sdk" and "policy_inv sdk db"
  shows "policy_inv sdk db' \<and> granted_ids db' = granted_ids db \<and> granted db' = map (renew_period sdk now) (granted db)"
proof -
  note cells = policy_invD(1) [OF assms(3)]
  from assms(1) have "fold_res (refresh_policy sdk now) (granted db) db = Inr db'"
    by (auto simp: refresh_tx_def read_policies_granted [OF cells] and_then_Inr_iff)
  from refresh_fold [OF this assms(2,3) subset_refl granted_distinct [OF cells]] show ?thesis by simp
qed

lemma refresh_cases:
  assumes "refresh sdk fault now db = (r, db')" and "policy_sdk_ok sdk" and "policy_inv sdk db"
  shows "policy_inv sdk db' \<and> granted_ids db' = granted_ids db \<and>
    ((\<exists>e. r = Inl e \<and> db' = db) \<or>
     (r = Inr () \<and> refresh_tx sdk now db = Inr ((), db') \<and> granted db' = map (renew_period sdk now) (granted db)))"
proof (cases r)
  case (Inl e)
  with assms show ?thesis
    by (auto simp: refresh_def split: if_splits dest: db_update_rollback)
next
  case (Inr u)
  with assms(1) have "refresh_tx sdk now db = Inr ((), db')"
    by (auto simp: refresh_def db_update_Inr_iff split: if_splits)
  with refresh_tx_Inr [OF this assms(2,3)] Inr show ?thesis by simp
qed

subsection \<open>Usage that has not been reported yet\<close>

text \<open>What the center still has to hear: snapshots put aside when their period ended or their
  authorization was removed, and ledgers that moved on since they were last queued.\<close>

definition unreported :: "policy_db \<Rightarrow> traffic_snapshot set" where
  "unreported db =
     {s. \<exists>k. bucket_get (p_pending db) k = Some (Json s)} \<union>
     {ledger_event l | l k. bucket_get (p_ledgers db) k = Some (Json l) \<and> ls_queued_revision l < ls_revision l}"

text \<open>A snapshot put aside can only be displaced by a ledger with unreported usage of the same authorization and period;
  \<open>undisputed\<close> says that there is no such ledger with other figures.\<close>

definition undisputed :: "policy_db \<Rightarrow> traffic_snapshot \<Rightarrow> bool" where
  "undisputed db s \<longleftrightarrow>
     (\<forall>l k. bucket_get (p_ledgers db) k = Some (Json l) \<longrightarrow> ls_queued_revision l < ls_revision l \<longrightarrow>
        ls_authorization_id l = ts_authorization_id s \<longrightarrow> per_id (ls_period l) = per_id (ts_period s) \<longrightarrow> ledger_event l = s)"

lemma unreported_nul_free:
  assumes "policy_inv sdk db" and "s \<in> unreported db"
  shows "nul_free (ts_authorization_id s)"
  using assms(2) cells_ok_get [OF policy_invD(4) [OF assms(1)]] cells_ok_get [OF policy_invD(5) [OF assms(1)]]
  by (force simp: unreported_def pending_ok_def ledger_ok_def ledger_event_def)

lemma traffic_key_inject:
  assumes "nul_free a" "nul_free a'" "traffic_key a x = traffic_key a' y"
  shows "a = a' \<and> x = y"
  using activity_key_inject [OF assms(1,2)] assms(3) by (simp add: activity_key_def traffic_key_def)

lemma unreported_pending: "bucket_get (p_pending db) k = Some (Json s) \<Longrightarrow> s \<in> unreported db"
  by (auto simp: unreported_def)

lemma unreported_ledger:
  "bucket_get (p_ledgers db) k = Some (Json l) \<Longrightarrow> ls_queued_revision l < ls_revision l \<Longrightarrow> ledger_event l \<in> unreported db"
  by (auto simp: unreported_def)

lemma unreported_cases [consumes 1, case_names pending ledger]:
  assumes "s \<in> unreported db"
  obtains k where "bucket_get (p_pending db) k = Some (Json s)"
  | l k where "bucket_get (p_ledgers db) k = Some (Json l)" "ls_queued_revision l < ls_revision l" "s = ledger_event l"
  using assms by (auto simp: unreported_def)

text \<open>Putting a ledger's usage aside keeps every other snapshot that it does not dispute.\<close>

lemma preserve_pending_get:
  "bucket_get (p_pending (preserve_pending_traffic l db)) k =
     (if ls_queued_revision l < ls_revision l \<and> k = traffic_key (ls_authorization_id l) (per_id (ls_period l))
      then Some (Json (ledger_event l)) else bucket_get (p_pending db) k)"
  by (auto simp: preserve_pending_traffic_def Let_def put_json_def ledger_event_def not_le)

lemma preserve_pending_keeps:
  assumes ledgers: "cells_ok (ledger_ok ids) (p_ledgers db)" and pend: "cells_ok pending_ok (p_pending db)" and old: "bucket_get (p_ledgers db) a = Some (Json old)"
    and s: "s \<in> unreported db" and free: "ts_authorization_id s = a \<longrightarrow> undisputed db s"
    and db': "db' = (preserve_pending_traffic old db)\<lparr>p_ledgers := L\<rparr>"
    and L: "\<And>k. k \<noteq> a \<Longrightarrow> bucket_get L k = bucket_get (p_ledgers db) k"
  shows "s \<in> unreported db'"
proof -
  have old_ok: "ledger_ok ids a old"
    using cells_ok_get [OF ledgers old] by simp
  have a: "ls_authorization_id old = a" "nul_free a" using old_ok by (simp_all add: ledger_ok_def)
  let ?key = "traffic_key a (per_id (ls_period old))"
  from s show ?thesis
  proof (cases rule: unreported_cases)
    case (pending k)
    have k: "pending_ok k s" using cells_ok_get [OF pend pending] by simp
    show ?thesis
    proof (cases "ls_queued_revision old < ls_revision old \<and> k = ?key")
      case True
      with k have "ts_authorization_id s = a \<and> per_id (ts_period s) = per_id (ls_period old)"
        using traffic_key_inject [of a "ts_authorization_id s"] a by (metis pending_ok_def)
      with free old a True have "ledger_event old = s" by (auto simp: undisputed_def)
      with True a show ?thesis
        by (intro unreported_pending [of _ ?key]) (simp add: db' preserve_pending_get)
    next
      case False
      with pending a show ?thesis
        by (intro unreported_pending [of _ k]) (auto simp: db' preserve_pending_get)
    qed
  next
    case (ledger l k)
    show ?thesis
    proof (cases "k = a")
      case True
      with ledger old a show ?thesis
        by (intro unreported_pending [of _ ?key]) (simp add: db' preserve_pending_get)
    next
      case False
      with ledger L show ?thesis
        unfolding ledger(3) by (intro unreported_ledger [of _ k]) (simp_all add: db')
    qed
  qed
qed

lemma ensure_ledger_keeps:
  assumes res: "ensure_ledger sdk policy now db = Inr (l, db')" and inv: "policy_inv sdk db"
    and s: "s \<in> unreported db" and free: "ts_authorization_id s = ap_authorization_id policy \<longrightarrow> undisputed db s"
  shows "s \<in> unreported db'"
  using res
proof (cases rule: ensure_ledger_cases)
  case (kept period)
  with s show ?thesis by simp
next
  case (created period)
  from s show ?thesis
  proof (cases rule: unreported_cases)
    case (pending k)
    with created show ?thesis by (intro unreported_pending [of _ k]) simp
  next
    case (ledger l' k)
    with created(2) have "k \<noteq> ap_authorization_id policy" by auto
    with ledger created show ?thesis
      unfolding ledger(3) by (intro unreported_ledger [of _ k]) (simp_all add: put_json_def)
  qed
next
  case (rolled period old)
  show ?thesis
    by (rule preserve_pending_keeps [OF policy_invD(4,5) [OF inv] rolled(2) s free rolled(5)]) (simp add: put_json_def)
qed

text \<open>A step on the ledger of one authorization leaves the ledgers of the others alone.\<close>

lemma ensure_ledger_others:
  assumes "ensure_ledger sdk policy now db = Inr (l, db')" and "k \<noteq> ap_authorization_id policy"
  shows "bucket_get (p_ledgers db') k = bucket_get (p_ledgers db) k"
  using assms(1)
proof (cases rule: ensure_ledger_cases)
  case (rolled period old)
  with assms(2) show ?thesis by (simp add: put_json_def)
qed (use assms(2) in \<open>simp_all add: put_json_def\<close>)

lemma undisputed_cong:
  assumes "policy_inv sdk db" "policy_inv sdk db'"
    and "bucket_get (p_ledgers db') (ts_authorization_id s) = bucket_get (p_ledgers db) (ts_authorization_id s)"
  shows "undisputed db' s = undisputed db s"
proof -
  have "ls_authorization_id l = k" if "bucket_get (p_ledgers d) k = Some (Json l)" "policy_inv sdk d" for d k l
    using cells_ok_get [OF policy_invD(4) [OF that(2)] that(1)] by (simp add: ledger_ok_def)
  with assms show ?thesis unfolding undisputed_def by metis
qed

lemma store_policy_unreported [simp]:
  "unreported (store_policy p db) = unreported db" "undisputed (store_policy p db) s = undisputed db s"
  "p_ledgers (store_policy p db) = p_ledgers db"
  by (simp_all add: store_policy_def unreported_def undisputed_def)

lemma refresh_policy_keeps:
  assumes res: "refresh_policy sdk now p db = Inr db'" and ok: "policy_sdk_ok sdk" and inv: "policy_inv sdk db"
    and p: "p \<in> set (granted db)" and s: "s \<in> unreported db"
    and free: "ts_authorization_id s = ap_authorization_id p \<longrightarrow> undisputed db s"
  shows "s \<in> unreported db'"
    and "k \<noteq> ap_authorization_id p \<Longrightarrow> bucket_get (p_ledgers db') k = bucket_get (p_ledgers db) k"
proof -
  let ?p = "renew_period sdk now p"
  note cells = policy_invD(1) [OF inv]
  obtain l db0 db1 where
    db0: "db0 = db \<and> ?p = p \<or> db0 = store_policy ?p db" and
    db1: "ensure_ledger sdk ?p now db0 = Inr (l, db1)" and
    db': "clean_authorization_activity ?p now db1 = Inr db'"
    using res by (rule refresh_policy_Inr)
  have valid: "sdk_validate_policy sdk ?p"
    using granted_cells(2) [OF cells] p by (intro renew_period_valid [OF ok]) simp
  have mem: "ap_authorization_id ?p \<in> granted_ids db"
    using p granted_ids_eq [OF cells] by simp
  have inv0: "policy_inv sdk db0" and ids0: "granted_ids db0 = granted_ids db"
    using db0 inv store_policy_inv [OF inv valid] p store_policy_granted(2) [OF cells mem] by auto
  have same0: "unreported db0 = unreported db" "undisputed db0 s = undisputed db s" "p_ledgers db0 = p_ledgers db"
    using db0 by auto
  have "s \<in> unreported db1"
    by (rule ensure_ledger_keeps [OF db1 inv0]) (use s free same0 in simp_all)
  moreover note clean = clean_activity_inv(4,5) [OF db' ensure_ledger_inv(1) [OF db1 inv0 _ ok]]
  ultimately show "s \<in> unreported db'"
    using mem ids0 by (simp add: unreported_def)
  show "bucket_get (p_ledgers db') k = bucket_get (p_ledgers db) k" if "k \<noteq> ap_authorization_id p"
    using ensure_ledger_others [OF db1, of k] that same0 clean mem ids0 by simp
qed

lemma refresh_fold_keeps:
  assumes "fold_res (refresh_policy sdk now) ps db = Inr db'" and ok: "policy_sdk_ok sdk" and "policy_inv sdk db"
    and "set ps \<subseteq> set (granted db)" and "distinct (map ap_authorization_id ps)"
    and "s \<in> unreported db" and "ts_authorization_id s \<in> ap_authorization_id ` set ps \<longrightarrow> undisputed db s"
  shows "s \<in> unreported db'"
  using assms(1,3-7)
proof (induction ps arbitrary: db)
  case Nil
  then show ?case by simp
next
  case (Cons p ps)
  from Cons.prems(1) obtain db1 where step: "refresh_policy sdk now p db = Inr db1"
    and rest: "fold_res (refresh_policy sdk now) ps db1 = Inr db'" by (auto simp: and_then_Inr_iff)
  have p: "p \<in> set (granted db)" using Cons.prems(3) by simp
  note eff = refresh_policy_inv [OF step ok Cons.prems(2) p]
  have others: "ap_authorization_id q \<noteq> ap_authorization_id p" if "q \<in> set ps" for q
    using Cons.prems(4) that by (metis distinct.simps(2) imageI list.set_map list.simps(9))
  have sub: "set ps \<subseteq> set (granted db1)"
    using Cons.prems(3) others unfolding eff(3) by force
  have dist: "distinct (map ap_authorization_id ps)" using Cons.prems(4) by simp
  have free: "ts_authorization_id s = ap_authorization_id p \<longrightarrow> undisputed db s"
    using Cons.prems(6) by simp
  note keep = refresh_policy_keeps [OF step ok Cons.prems(2) p Cons.prems(5) free]
  have "ts_authorization_id s \<in> ap_authorization_id ` set ps \<longrightarrow> undisputed db1 s"
  proof
    assume h: "ts_authorization_id s \<in> ap_authorization_id ` set ps"
    then have "ts_authorization_id s \<noteq> ap_authorization_id p" using others by (metis imageE)
    with keep(2) undisputed_cong [OF Cons.prems(2) eff(1)] h Cons.prems(6)
    show "undisputed db1 s" by simp
  qed
  with Cons.IH [OF rest eff(1) sub dist keep(1)] show ?case by simp
qed

lemma refresh_keeps:
  assumes "refresh sdk fault now db = (r, db')" and "policy_sdk_ok sdk" and "policy_inv sdk db"
    and "s \<in> unreported db" and "undisputed db s"
  shows "s \<in> unreported db'"
proof -
  note cells = policy_invD(1) [OF assms(3)]
  from refresh_cases [OF assms(1-3)] show ?thesis
  proof (elim conjE disjE exE)
    assume "refresh_tx sdk now db = Inr ((), db')"
    then have "fold_res (refresh_policy sdk now) (granted db) db = Inr db'"
      by (auto simp: refresh_tx_def read_policies_granted [OF cells] and_then_Inr_iff)
    from refresh_fold_keeps [OF this assms(2,3) subset_refl granted_distinct [OF cells] assms(4)] assms(5)
    show ?thesis by simp
  qed (use assms(4) in simp)
qed

subsection \<open>Reconcile\<close>

lemma fold_bucket_delete: "fold bucket_delete ks b = filter (\<lambda>e. fst e \<notin> set ks) b"
  by (induction ks arbitrary: b) (auto simp: bucket_delete_def intro!: filter_cong)

lemma in_binding_keys:
  "k \<in> set (binding_keys ps) \<longleftrightarrow>
   (\<exists>p \<in> set ps. \<exists>b \<in> set (ap_bindings p). k = service_key (pb_plugin_id b) (ap_authorization_id p) (pb_service_id b))"
  by (auto simp: binding_keys_def)

lemma orphan_bindings_keys:
  "fst ` set (orphan_bindings new p bs b) =
   fst ` set b \<union> ((\<lambda>x. service_key (pb_plugin_id x) (ap_authorization_id p) (pb_service_id x)) ` set bs - set new)"
  by (induction bs arbitrary: b) (auto simp: Let_def put_json_def keys_put)

lemma orphan_bindings_ok:
  assumes "cells_ok orphan_ok b" and "nul_free (ap_authorization_id p)"
    and "\<forall>x \<in> set bs. nul_free (pb_plugin_id x) \<and> nul_free (pb_service_id x)"
  shows "cells_ok orphan_ok (orphan_bindings new p bs b)"
  using assms
proof (induction bs arbitrary: b)
  case (Cons x bs)
  have "orphan_ok (service_key (pb_plugin_id x) (ap_authorization_id p) (pb_service_id x)) (orphan_of p x)"
    using Cons.prems by (simp add: orphan_ok_def service_named_def orphan_of_def)
  with Cons show ?case by (simp add: Let_def cells_ok_put_json)
qed simp

lemma orphans_fold:
  assumes "cells_ok orphan_ok b" and "policy_sdk_ok sdk" and "\<forall>p \<in> set ps. sdk_validate_policy sdk p"
  shows "cells_ok orphan_ok (fold (\<lambda>p. orphan_bindings new p (ap_bindings p)) ps b) \<and>
    fst ` set (fold (\<lambda>p. orphan_bindings new p (ap_bindings p)) ps b) =
      fst ` set b \<union> (set (binding_keys ps) - set new)"
  using assms(1,3)
proof (induction ps arbitrary: b)
  case Nil
  then show ?case by (simp add: binding_keys_def)
next
  case (Cons p ps)
  let ?b = "orphan_bindings new p (ap_bindings p) b"
  have p: "nul_free (ap_authorization_id p)"
    "\<forall>x \<in> set (ap_bindings p). nul_free (pb_plugin_id x) \<and> nul_free (pb_service_id x)"
    using assms(2) Cons.prems(2) by (auto simp: policy_sdk_ok_def)
  have "cells_ok orphan_ok ?b" using Cons.prems(1) p by (rule orphan_bindings_ok)
  from Cons.IH [OF this] Cons.prems(2) show ?case
    by (auto simp: orphan_bindings_keys in_binding_keys)
qed

lemma policies_fold_get:
  assumes "distinct (map ap_authorization_id ps)"
  shows "bucket_get (fold (\<lambda>p. put_json (ap_authorization_id p) p) ps b) k = Some c \<longleftrightarrow>
    (\<exists>p \<in> set ps. ap_authorization_id p = k \<and> c = Json p) \<or>
    k \<notin> ap_authorization_id ` set ps \<and> bucket_get b k = Some c"
  using assms
proof (induction ps arbitrary: b)
  case (Cons p ps)
  then have "ap_authorization_id p \<notin> ap_authorization_id ` set ps" by auto
  with Cons show ?case by (auto simp: put_json_def)
qed simp

lemma policies_fold_ok:
  assumes "\<forall>p \<in> set ps. sdk_validate_policy sdk p" and "cells_ok (policy_ok sdk) b"
  shows "cells_ok (policy_ok sdk) (fold (\<lambda>p. put_json (ap_authorization_id p) p) ps b)"
  using assms by (induction ps arbitrary: b) (simp_all add: cells_ok_put_json policy_ok_def)


text \<open>The ledgers of removed authorizations go, their unreported usage stays.\<close>

lemma delete_removed_ledgers:
  assumes "\<forall>e \<in> set es. \<exists>l. snd e = Json l \<and> ledger_ok ids (fst e) l" and "cells_ok pending_ok (p_pending db)"
  shows "\<exists>P. fold_res (delete_removed_ledger retained) es db =
      Inr (db\<lparr>p_ledgers := filter (\<lambda>e. fst e \<in> set retained \<or> fst e \<notin> fst ` set es) (p_ledgers db), p_pending := P\<rparr>) \<and>
    cells_ok pending_ok P"
  using assms
proof (induction es arbitrary: db)
  case Nil
  then show ?case by (auto intro!: exI [of _ "p_pending db"])
next
  case (Cons e es)
  from Cons.prems(1) obtain l where l: "snd e = Json l" "ledger_ok ids (fst e) l" by auto
  have rest: "\<forall>e \<in> set es. \<exists>l. snd e = Json l \<and> ledger_ok ids (fst e) l" using Cons.prems(1) by simp
  show ?case
  proof (cases "fst e \<in> set retained")
    case True
    have "filter (\<lambda>x. fst x \<in> set retained \<or> fst x \<notin> fst ` set es) (p_ledgers db)
        = filter (\<lambda>x. fst x \<in> set retained \<or> fst x \<notin> fst ` set (e # es)) (p_ledgers db)"
      using True by (auto intro!: filter_cong)
    with Cons.IH [OF rest Cons.prems(2)] True show ?thesis
      by (simp add: delete_removed_ledger_def)
  next
    case False
    obtain P0 where P0: "preserve_pending_traffic l db = db\<lparr>p_pending := P0\<rparr>" by (rule preserve_pending_frame)
    have ok0: "cells_ok pending_ok P0"
      using preserve_pending_ok [OF Cons.prems(2) l(2)] P0 by simp
    let ?db = "db\<lparr>p_pending := P0, p_ledgers := bucket_delete (fst e) (p_ledgers db)\<rparr>"
    have "filter (\<lambda>x. fst x \<in> set retained \<or> fst x \<notin> fst ` set es) (bucket_delete (fst e) (p_ledgers db))
        = filter (\<lambda>x. fst x \<in> set retained \<or> fst x \<notin> fst ` set (e # es)) (p_ledgers db)"
      using False by (auto simp: bucket_delete_def intro!: filter_cong)
    with Cons.IH [OF rest, of ?db] ok0 False l(1) P0 show ?thesis
      by (auto simp: delete_removed_ledger_def)
  qed
qed

lemma delete_removed_ledgers_keeps:
  assumes "fold_res (delete_removed_ledger retained) es db = Inr db'"
    and "cells_ok (ledger_ok ids) (p_ledgers db)" and "cells_ok pending_ok (p_pending db)"
    and "\<forall>e \<in> set es. fst e \<in> set retained \<or> bucket_get (p_ledgers db) (fst e) = Some (snd e)" and "distinct (map fst es)"
    and "s \<in> unreported db" and "undisputed db s"
  shows "s \<in> unreported db'"
  using assms
proof (induction es arbitrary: db)
  case Nil
  then show ?case by simp
next
  case (Cons e es)
  show ?case
  proof (cases "fst e \<in> set retained")
    case True
    with Cons show ?thesis by (simp add: delete_removed_ledger_def)
  next
    case False
    with Cons.prems(4) have get: "bucket_get (p_ledgers db) (fst e) = Some (snd e)" by simp
    with cells_ok_get [OF Cons.prems(2) get] obtain l where l: "snd e = Json l" "ledger_ok ids (fst e) l" by auto
    let ?db = "(preserve_pending_traffic l db)\<lparr>p_ledgers := bucket_delete (fst e) (p_ledgers db)\<rparr>"
    have ledgers: "p_ledgers (preserve_pending_traffic l db) = p_ledgers db"
      by (simp add: preserve_pending_traffic_def Let_def)
    have rest: "fold_res (delete_removed_ledger retained) es ?db = Inr db'"
      using Cons.prems(1) False l(1) ledgers
      by (simp add: delete_removed_ledger_def [of _ e] Let_def)
    have keep: "s \<in> unreported ?db"
      by (rule preserve_pending_keeps [OF Cons.prems(2,3) get [unfolded l(1)] Cons.prems(6),
            where L = "bucket_delete (fst e) (p_ledgers db)"])
        (use Cons.prems(7) in simp_all)
    have free: "undisputed ?db s"
      using Cons.prems(7) by (auto simp: undisputed_def split: if_splits)
    show ?thesis
    proof (rule Cons.IH [OF rest])
      show "cells_ok (ledger_ok ids) (p_ledgers ?db)" using Cons.prems(2) by (simp add: cells_ok_delete)
      show "cells_ok pending_ok (p_pending ?db)" using preserve_pending_ok [OF Cons.prems(3) l(2)] by simp
      show "\<forall>x \<in> set es. fst x \<in> set retained \<or> bucket_get (p_ledgers ?db) (fst x) = Some (snd x)"
        using Cons.prems(4,5) by (auto simp: image_iff)
      show "distinct (map fst es)" using Cons.prems(5) by simp
    qed (use keep free in simp_all)
  qed
qed

lemma delete_removed_counters:
  assumes "\<forall>e \<in> set es. \<exists>c. snd e = Json c \<and> counter_ok ids (fst e) c"
  shows "fold_res (delete_removed_counter retained) es db =
    Inr (db\<lparr>p_counters := filter (\<lambda>e. split_on nul (fst e) ! 1 \<in> set retained \<or> fst e \<notin> fst ` set es) (p_counters db)\<rparr>)"
  using assms
proof (induction es arbitrary: db)
  case Nil
  then show ?case by simp
next
  case (Cons e es)
  from Cons.prems obtain plugin auth service where
    "fst e = service_key plugin auth service" "nul_free plugin" "nul_free auth" "nul_free service"
    by (auto simp: counter_ok_def)
  then have parts: "length (split_on nul (fst e)) = 3" by (simp add: split_service_key)
  have rest: "\<forall>e \<in> set es. \<exists>c. snd e = Json c \<and> counter_ok ids (fst e) c" using Cons.prems by simp
  let ?keep = "\<lambda>es x. split_on nul (fst x) ! 1 \<in> set retained \<or> fst x \<notin> fst ` set es"
  show ?case
  proof (cases "split_on nul (fst e) ! 1 \<in> set retained")
    case True
    have "filter (?keep es) (p_counters db) = filter (?keep (e # es)) (p_counters db)"
      using True by (auto intro!: filter_cong)
    with Cons.IH [OF rest, of db] True parts show ?thesis
      by (simp add: delete_removed_counter_def Let_def)
  next
    case False
    have "filter (?keep es) (bucket_delete (fst e) (p_counters db)) = filter (?keep (e # es)) (p_counters db)"
      using False by (auto simp: bucket_delete_def intro!: filter_cong)
    with Cons.IH [OF rest, of "db\<lparr>p_counters := bucket_delete (fst e) (p_counters db)\<rparr>"] False parts show ?thesis
      by (simp add: delete_removed_counter_def Let_def)
  qed
qed

lemma delete_removed_state:
  assumes "cells_ok (ledger_ok ids) (p_ledgers db)" and "cells_ok pending_ok (p_pending db)"
    and "cells_ok (counter_ok ids) (p_counters db)" and "retained = map ap_authorization_id policies"
  obtains P where "delete_removed_authorization_state policies db =
      Inr (db\<lparr>p_ledgers := filter (\<lambda>e. fst e \<in> set retained) (p_ledgers db), p_pending := P,
              p_statuses := filter (\<lambda>e. fst e \<in> set retained) (p_statuses db),
              p_slots := filter (\<lambda>e. key_authorization (fst e) \<in> set retained) (p_slots db),
              p_blocks := filter (\<lambda>e. key_authorization (fst e) \<in> set retained) (p_blocks db),
              p_counters := filter (\<lambda>e. split_on nul (fst e) ! 1 \<in> set retained) (p_counters db)\<rparr>)"
    and "cells_ok pending_ok P"
    and "\<And>s. s \<in> unreported db \<Longrightarrow> undisputed db s \<Longrightarrow>
      s \<in> unreported (db\<lparr>p_ledgers := filter (\<lambda>e. fst e \<in> set retained) (p_ledgers db), p_pending := P\<rparr>)"
proof -
  have ledgers: "\<forall>e \<in> set (p_ledgers db). \<exists>l. snd e = Json l \<and> ledger_ok ids (fst e) l"
    using assms(1) by (auto simp: cells_ok_def)
  have counters: "\<forall>e \<in> set (p_counters db). \<exists>l. snd e = Json l \<and> counter_ok ids (fst e) l"
    using assms(3) by (auto simp: cells_ok_def)
  let ?L = "filter (\<lambda>e. fst e \<in> set retained) (p_ledgers db)"
  have self: "filter (\<lambda>e. R e \<or> fst e \<notin> fst ` set b) b = filter R b" for R and b :: "(string \<times> 'w) list"
    by (auto intro!: filter_cong)
  obtain P where P: "fold_res (delete_removed_ledger retained) (p_ledgers db) db = Inr (db\<lparr>p_ledgers := ?L, p_pending := P\<rparr>)"
    "cells_ok pending_ok P"
    using delete_removed_ledgers [OF ledgers assms(2), of retained] unfolding self by blast
  show ?thesis
  proof (rule that [of P])
    show "delete_removed_authorization_state policies db =
      Inr (db\<lparr>p_ledgers := ?L, p_pending := P,
              p_statuses := filter (\<lambda>e. fst e \<in> set retained) (p_statuses db),
              p_slots := filter (\<lambda>e. key_authorization (fst e) \<in> set retained) (p_slots db),
              p_blocks := filter (\<lambda>e. key_authorization (fst e) \<in> set retained) (p_blocks db),
              p_counters := filter (\<lambda>e. split_on nul (fst e) ! 1 \<in> set retained) (p_counters db)\<rparr>)"
      by (simp add: delete_removed_authorization_state_def assms(4) [symmetric] P(1) Let_def
          delete_removed_counters [OF counters] self)
    show "cells_ok pending_ok P" by (rule P(2))
    fix s assume s: "s \<in> unreported db" "undisputed db s"
    show "s \<in> unreported (db\<lparr>p_ledgers := ?L, p_pending := P\<rparr>)"
    proof (rule delete_removed_ledgers_keeps [OF P(1) assms(1,2) _ _ s])
      show "\<forall>e \<in> set (p_ledgers db). fst e \<in> set retained \<or> bucket_get (p_ledgers db) (fst e) = Some (snd e)"
        using assms(1) by (auto simp: cells_ok_def get_eq_Some_iff)
      show "distinct (map fst (p_ledgers db))"
        using assms(1) by (simp add: cells_ok_def bucket_ok_distinct)
    qed
  qed
qed

lemma cells_ok_filter_strong:
  assumes "cells_ok P b" and "\<And>k v. P k v \<Longrightarrow> Q (k, Json v) \<Longrightarrow> P' k v"
  shows "cells_ok P' (filter Q b)"
  using assms by (force simp: cells_ok_def filter_sorted)

lemma delete_removed_frame:
  assumes "delete_removed_authorization_state policies db = Inr db'"
  shows "\<exists>L P T S B C. db' = db\<lparr>p_ledgers := L, p_pending := P, p_statuses := T, p_slots := S, p_blocks := B, p_counters := C\<rparr>"
proof -
  let ?retained = "map ap_authorization_id policies"
  from assms obtain db1 where
    f1: "fold_res (delete_removed_ledger ?retained) (p_ledgers db) db = Inr db1" and
    f2: "fold_res (delete_removed_counter ?retained) (p_counters db1) (db1\<lparr>
           p_statuses := filter (\<lambda>e. fst e \<in> set ?retained) (p_statuses db1),
           p_slots := filter (\<lambda>e. key_authorization (fst e) \<in> set ?retained) (p_slots db1),
           p_blocks := filter (\<lambda>e. key_authorization (fst e) \<in> set ?retained) (p_blocks db1)\<rparr>) = Inr db'"
    by (auto simp: delete_removed_authorization_state_def Let_def and_then_Inr_iff)
  have "\<exists>L P. db1 = db\<lparr>p_ledgers := L, p_pending := P\<rparr>"
  proof (rule fold_res_invariant [OF f1])
    show "\<exists>L P. db = db\<lparr>p_ledgers := L, p_pending := P\<rparr>"
      by (intro exI [of _ "p_ledgers db"] exI [of _ "p_pending db"]) simp
    fix e s s' assume "\<exists>L P. s = db\<lparr>p_ledgers := L, p_pending := P\<rparr>" "delete_removed_ledger ?retained e s = Inr s'"
    then obtain L P where s: "s = db\<lparr>p_ledgers := L, p_pending := P\<rparr>" "delete_removed_ledger ?retained e s = Inr s'" by blast
    show "\<exists>L P. s' = db\<lparr>p_ledgers := L, p_pending := P\<rparr>"
    proof (cases "fst e \<in> set ?retained")
      case True
      with s show ?thesis by (auto simp: delete_removed_ledger_def)
    next
      case False
      with s(2) obtain l where s': "s' = (preserve_pending_traffic l s)\<lparr>p_ledgers := bucket_delete (fst e) (p_ledgers (preserve_pending_traffic l s))\<rparr>"
        by (auto simp: delete_removed_ledger_def and_then_Inr_iff Let_def)
      obtain P' where "preserve_pending_traffic l s = s\<lparr>p_pending := P'\<rparr>" by (rule preserve_pending_frame)
      with s s' show ?thesis by (intro exI [of _ "bucket_delete (fst e) L"] exI [of _ P']) simp
    qed
  qed
  then obtain L P where db1: "db1 = db\<lparr>p_ledgers := L, p_pending := P\<rparr>" by blast
  let ?d = "db1\<lparr>p_statuses := filter (\<lambda>e. fst e \<in> set ?retained) (p_statuses db1),
           p_slots := filter (\<lambda>e. key_authorization (fst e) \<in> set ?retained) (p_slots db1),
           p_blocks := filter (\<lambda>e. key_authorization (fst e) \<in> set ?retained) (p_blocks db1)\<rparr>"
  have "\<exists>C. db' = ?d\<lparr>p_counters := C\<rparr>"
  proof (rule fold_res_invariant [OF f2])
    show "\<exists>C. ?d = ?d\<lparr>p_counters := C\<rparr>" by (intro exI [of _ "p_counters db1"]) simp
    fix e s s' assume "\<exists>C. s = ?d\<lparr>p_counters := C\<rparr>" "delete_removed_counter ?retained e s = Inr s'"
    then show "\<exists>C. s' = ?d\<lparr>p_counters := C\<rparr>"
      by (auto simp: delete_removed_counter_def Let_def split: if_splits)
  qed
  then obtain C where "db' = ?d\<lparr>p_counters := C\<rparr>" by blast
  then show ?thesis unfolding db1
    by (intro exI [of _ L] exI [of _ P] exI [of _ "p_statuses db'"] exI [of _ "p_slots db'"] exI [of _ "p_blocks db'"] exI [of _ C]) simp
qed

lemma install_policies_frame:
  assumes "install_policies cmd digest old db = Inr db'"
  shows "\<exists>O' Pl L P T S B C. db' = db\<lparr>p_orphans := O', p_policies := Pl, p_ledgers := L, p_pending := P,
          p_statuses := T, p_slots := S, p_blocks := B, p_counters := C,
          p_meta := bucket_put key_snapshot_digest digest (put_uint64 key_generation (rc_generation cmd) (p_meta db))\<rparr>"
proof -
  from assms obtain O' Pl db1 where
    d: "delete_removed_authorization_state (rc_authorizations cmd) (db\<lparr>p_orphans := O', p_policies := Pl\<rparr>) = Inr db1" and
    db': "db' = db1\<lparr>p_meta := bucket_put key_snapshot_digest digest (put_uint64 key_generation (rc_generation cmd) (p_meta db1))\<rparr>"
    by (auto simp: install_policies_def Let_def and_then_Inr_iff)
  from delete_removed_frame [OF d] obtain L P T S B C where
    "db1 = db\<lparr>p_orphans := O', p_policies := Pl, p_ledgers := L, p_pending := P, p_statuses := T, p_slots := S, p_blocks := B, p_counters := C\<rparr>"
    by auto
  with db' show ?thesis
    by (intro exI [of _ O'] exI [of _ Pl] exI [of _ L] exI [of _ P] exI [of _ T] exI [of _ S] exI [of _ B] exI [of _ C]) simp
qed

lemma counter_ok_retained:
  assumes "counter_ok ids k v" and "split_on nul k ! 1 \<in> ids'"
  shows "counter_ok ids' k v"
proof -
  from assms(1) obtain plugin auth service where k: "k = service_key plugin auth service"
    "nul_free plugin" "nul_free auth" "nul_free service"
    and v: "cs_upload_bytes v \<le> max_int64" "cs_download_bytes v \<le> max_int64" by (auto simp: counter_ok_def)
  then have "auth \<in> ids'" using assms(2) by (simp add: split_service_key)
  with k v show ?thesis unfolding counter_ok_def by blast
qed

lemma activity_ok_retained:
  assumes "activity_ok ids k v" and "key_authorization k \<in> ids'" and "\<forall>a \<in> ids. nul_free a"
  shows "activity_ok ids' k v"
proof -
  from assms(1) obtain a ip where k: "k = activity_key a ip" "a \<in> ids" by (auto simp: activity_ok_def)
  with assms(2,3) have "a \<in> ids'" by (simp add: key_authorization_activity)
  with k show ?thesis unfolding activity_ok_def by blast
qed

lemma install_policies_ok:
  assumes ok: "policy_sdk_ok sdk" and inv: "policy_inv sdk db" and valid: "sdk_validate_command sdk cmd"
  obtains db' where "install_policies cmd digest (granted db) db = Inr db'" and "policy_inv sdk db'"
    and "policy_generation db' = rc_generation cmd" and "get_string (p_meta db') key_snapshot_digest = digest"
    and "set (granted db') = set (rc_authorizations cmd)"
    and "fst ` set (p_orphans db') = (fst ` set (p_orphans db) \<union> granted_keys db) - granted_keys db'"
    and "\<And>s. s \<in> unreported db \<Longrightarrow> undisputed db s \<Longrightarrow> s \<in> unreported db'"
    and "\<And>a. a \<in> granted_ids db' \<Longrightarrow> bucket_get (p_ledgers db') a = bucket_get (p_ledgers db) a"
proof -
  let ?ps = "rc_authorizations cmd" and ?ids = "map ap_authorization_id (rc_authorizations cmd)"
  let ?new = "binding_keys ?ps"
  note cells = policy_invD(1) [OF inv]
  have vps: "\<forall>p \<in> set ?ps. sdk_validate_policy sdk p" "distinct ?ids"
    using ok valid by (auto simp: policy_sdk_ok_def)
  define O1 where "O1 = fold bucket_delete ?new (p_orphans db)"
  define O2 where "O2 = fold (\<lambda>p. orphan_bindings ?new p (ap_bindings p)) (granted db) O1"
  define Pl where "Pl = fold (\<lambda>p. put_json (ap_authorization_id p) p) ?ps []"
  have O1: "cells_ok orphan_ok O1" "fst ` set O1 = fst ` set (p_orphans db) - set ?new"
    using policy_invD(2) [OF inv] by (auto simp: O1_def fold_bucket_delete cells_ok_filter)
  have O2: "cells_ok orphan_ok O2" "fst ` set O2 = fst ` set O1 \<union> (granted_keys db - set ?new)"
    using orphans_fold [OF O1(1) ok granted_cells(2) [OF cells], of ?new] by (auto simp: O2_def granted_keys_def)
  have Pl: "cells_ok (policy_ok sdk) Pl"
    "bucket_get Pl k = Some (Json p) \<longleftrightarrow> p \<in> set ?ps \<and> ap_authorization_id p = k" for k p
    using policies_fold_ok [OF vps(1)] policies_fold_get [OF vps(2)] by (auto simp: Pl_def)
  let ?db1 = "db\<lparr>p_orphans := O2, p_policies := Pl\<rparr>"
  obtain P where P: "delete_removed_authorization_state ?ps ?db1 =
      Inr (?db1\<lparr>p_ledgers := filter (\<lambda>e. fst e \<in> set ?ids) (p_ledgers ?db1), p_pending := P,
              p_statuses := filter (\<lambda>e. fst e \<in> set ?ids) (p_statuses ?db1),
              p_slots := filter (\<lambda>e. key_authorization (fst e) \<in> set ?ids) (p_slots ?db1),
              p_blocks := filter (\<lambda>e. key_authorization (fst e) \<in> set ?ids) (p_blocks ?db1),
              p_counters := filter (\<lambda>e. split_on nul (fst e) ! 1 \<in> set ?ids) (p_counters ?db1)\<rparr>)"
    and P_ok: "cells_ok pending_ok P"
    and P_keeps: "\<And>s. s \<in> unreported ?db1 \<Longrightarrow> undisputed ?db1 s \<Longrightarrow>
      s \<in> unreported (?db1\<lparr>p_ledgers := filter (\<lambda>e. fst e \<in> set ?ids) (p_ledgers ?db1), p_pending := P\<rparr>)"
    using delete_removed_state [of "granted_ids db" ?db1 ?ids ?ps] policy_invD(3-5) [OF inv] by auto
  define db' where "db' = db\<lparr>p_orphans := O2, p_policies := Pl,
      p_ledgers := filter (\<lambda>e. fst e \<in> set ?ids) (p_ledgers db), p_pending := P,
      p_statuses := filter (\<lambda>e. fst e \<in> set ?ids) (p_statuses db),
      p_slots := filter (\<lambda>e. key_authorization (fst e) \<in> set ?ids) (p_slots db),
      p_blocks := filter (\<lambda>e. key_authorization (fst e) \<in> set ?ids) (p_blocks db),
      p_counters := filter (\<lambda>e. split_on nul (fst e) ! 1 \<in> set ?ids) (p_counters db),
      p_meta := bucket_put key_snapshot_digest digest (put_uint64 key_generation (rc_generation cmd) (p_meta db))\<rparr>"
  have res: "install_policies cmd digest (granted db) db = Inr db'"
    by (simp add: install_policies_def Let_def clear_bucket_Nil flip: O1_def)
      (simp add: P db'_def flip: O2_def Pl_def)
  have granted': "set (granted db') = set ?ps"
  proof -
    have "p \<in> set (granted db') \<longleftrightarrow> p \<in> set ?ps" for p
    proof -
      have "p \<in> set (granted db') \<longleftrightarrow> bucket_get Pl (ap_authorization_id p) = Some (Json p)"
        using get_granted [of sdk db' DecodeFailed "ap_authorization_id p" p] Pl(1)
        by (simp add: db'_def get_json_Some_iff)
      also have "\<dots> \<longleftrightarrow> p \<in> set ?ps"
        unfolding Pl(2) by simp
      finally show ?thesis .
    qed
    then show ?thesis by blast
  qed
  have cells': "cells_ok (policy_ok sdk) (p_policies db')" by (simp add: db'_def Pl(1))
  have ids': "granted_ids db' = set ?ids" using granted_ids_eq [OF cells'] granted' by simp
  have keys': "granted_keys db' = set ?new" using granted' by (auto simp: granted_keys_def in_binding_keys)
  have orph: "fst ` set (p_orphans db') = (fst ` set (p_orphans db) \<union> granted_keys db) - granted_keys db'"
    using O1(2) O2(2) unfolding keys' by (auto simp: db'_def)
  have free: "\<forall>a \<in> granted_ids db. nul_free a"
    using granted_ids_nul_free [OF ok cells] by blast
  have inv': "policy_inv sdk db'"
    unfolding policy_inv_def
  proof (intro conjI)
    show "fst ` set (p_orphans db') \<inter> granted_keys db' = {}" using orph by blast
    show "cells_ok orphan_ok (p_orphans db')" by (simp add: db'_def O2(1))
    show "cells_ok (counter_ok (granted_ids db')) (p_counters db')"
      unfolding ids' using policy_invD(3) [OF inv]
      by (auto simp: db'_def intro: counter_ok_retained elim!: cells_ok_filter_strong)
    show "cells_ok (ledger_ok (granted_ids db')) (p_ledgers db')"
      unfolding ids' using policy_invD(4) [OF inv]
      by (auto simp: db'_def ledger_ok_def elim!: cells_ok_filter_strong)
    show "cells_ok (activity_ok (granted_ids db')) (p_slots db')"
      unfolding ids' using policy_invD(6) [OF inv] free
      by (auto simp: db'_def intro: activity_ok_retained elim!: cells_ok_filter_strong)
    show "cells_ok (activity_ok (granted_ids db')) (p_blocks db')"
      unfolding ids' using policy_invD(7) [OF inv] free
      by (auto simp: db'_def intro: activity_ok_retained elim!: cells_ok_filter_strong)
    show "cells_ok (status_ok (granted_ids db')) (p_statuses db')"
      unfolding ids' using policy_invD(8) [OF inv]
      by (auto simp: db'_def status_ok_def elim!: cells_ok_filter_strong)
  qed (use inv cells' P_ok in \<open>simp_all add: policy_inv_def db'_def\<close>)
  show ?thesis
  proof (rule that [OF res inv' _ _ granted' orph])
    show "policy_generation db' = rc_generation cmd" "get_string (p_meta db') key_snapshot_digest = digest"
      by (simp_all add: db'_def policy_generation_def)
    show "s \<in> unreported db'" if "s \<in> unreported db" "undisputed db s" for s
      using P_keeps [of s] that by (simp add: unreported_def undisputed_def db'_def)
    show "bucket_get (p_ledgers db') a = bucket_get (p_ledgers db) a" if "a \<in> granted_ids db'" for a
      using that [unfolded ids'] cells_ok_sorted [OF policy_invD(4) [OF inv]]
      by (auto simp: db'_def get_filter split: option.splits)
  qed
qed

lemma reconcile_tx_cases:
  assumes ok: "policy_sdk_ok sdk" and inv: "policy_inv sdk db" and valid: "sdk_validate_command sdk cmd"
    and res: "reconcile_tx sdk cmd digest db = Inr (changed, db')"
  shows "policy_inv sdk db' \<and>
    (changed \<longrightarrow> policy_generation db < rc_generation cmd \<and> install_policies cmd digest (granted db) db = Inr db') \<and>
    (\<not> changed \<longrightarrow> db' = db \<and> rc_generation cmd = policy_generation db \<and> get_string (p_meta db) key_snapshot_digest = digest)"
proof (cases changed)
  case True
  with res have "policy_generation db < rc_generation cmd" and new: "install_policies cmd digest (granted db) db = Inr db'"
    by (auto simp: reconcile_tx_def Let_def and_then_Inr_iff read_policies_granted [OF policy_invD(1) [OF inv]]
        split: if_splits)
  moreover have "policy_inv sdk db'"
    using install_policies_ok [OF ok inv valid, of digest] new by (metis Inr_inject)
  ultimately show ?thesis using True by simp
next
  case False
  with res show ?thesis
    using inv by (auto simp: reconcile_tx_def Let_def and_then_Inr_iff split: if_splits)
qed

subsection \<open>Counters\<close>

text \<open>
  What a list of cumulative readings adds to an authorization, in unbounded arithmetic: each
  reading is compared with the last one of the same binding, and unknown bindings do not count.
\<close>

definition reading :: "traffic_counter \<Rightarrow> counter_state" where
  "reading c = \<lparr>cs_epoch = tc_epoch c, cs_upload_bytes = tc_upload_bytes c, cs_download_bytes = tc_download_bytes c\<rparr>"

definition counter_key :: "string \<Rightarrow> traffic_counter \<Rightarrow> string" where
  "counter_key plugin_id c = service_key plugin_id (tc_authorization_id c) (tc_service_id c)"

fun counted_usage ::
    "string \<Rightarrow> string set \<Rightarrow> traffic_counter option list \<Rightarrow> (string \<Rightarrow> counter_state option) \<Rightarrow> string \<Rightarrow> nat \<times> nat" where
  "counted_usage plugin_id known [] prev a = (0, 0)"
| "counted_usage plugin_id known (None # cs) prev a = counted_usage plugin_id known cs prev a"
| "counted_usage plugin_id known (Some c # cs) prev a =
     (if counter_key plugin_id c \<notin> known then counted_usage plugin_id known cs prev a
      else let delta = counter_delta (prev (counter_key plugin_id c)) c;
               rest = counted_usage plugin_id known cs (prev(counter_key plugin_id c := Some (reading c))) a
           in if tc_authorization_id c = a then (unat (fst delta) + fst rest, unat (snd delta) + snd rest) else rest)"

definition last_readings :: "policy_db \<Rightarrow> string \<Rightarrow> counter_state option" where
  "last_readings db k = (case bucket_get (p_counters db) k of Some (Json c) \<Rightarrow> Some c | _ \<Rightarrow> None)"

lemma delta_of_update [simp]: "delta_of (AList.update a d ds) b = (if b = a then d else delta_of ds b)"
  by (simp add: delta_of_def update_conv')

lemma delta_of_Nil [simp]: "delta_of [] a = (0, 0)"
  by (simp add: delta_of_def)

lemma count_counter_cases [consumes 1, case_names absent unknown known]:
  assumes "count_counter plugin_id known counter (deltas, db) = Inr (deltas', db')"
  obtains "counter = None" "deltas' = deltas" "db' = db"
  | c where "counter = Some c" "counter_key plugin_id c \<notin> set known" "deltas' = deltas" "db' = db"
  | c where "counter = Some c" "counter_key plugin_id c \<in> set known"
      "tc_upload_bytes c \<le> max_int64" "tc_download_bytes c \<le> max_int64"
      "get_json DecodeFailed (p_counters db) (counter_key plugin_id c) = Inr (last_readings db (counter_key plugin_id c))"
      "let delta = counter_delta (last_readings db (counter_key plugin_id c)) c;
           current = delta_of deltas (tc_authorization_id c)
       in fst delta \<le> max_uint64 - fst current \<and> snd delta \<le> max_uint64 - snd current \<and>
          deltas' = AList.update (tc_authorization_id c) (fst current + fst delta, snd current + snd delta) deltas"
      "db' = db\<lparr>p_counters := put_json (counter_key plugin_id c) (reading c) (p_counters db)\<rparr>"
proof -
  consider "counter = None" | c where "counter = Some c" "counter_key plugin_id c \<notin> set known"
    | c where "counter = Some c" "counter_key plugin_id c \<in> set known" by (cases counter) auto
  then show ?thesis
  proof cases
    case 1
    with assms show ?thesis by (intro that(1)) (simp_all add: count_counter_def)
  next
    case (2 c)
    with assms show ?thesis
      by (intro that(2) [of c]) (auto simp: count_counter_def counter_key_def Let_def split: if_splits)
  next
    case (3 c)
    with assms obtain previous where
      previous: "get_json DecodeFailed (p_counters db) (counter_key plugin_id c) = Inr previous"
      by (auto simp: count_counter_def counter_key_def Let_def and_then_Inr_iff split: if_splits)
    then have last: "previous = last_readings db (counter_key plugin_id c)"
      by (auto simp: last_readings_def get_json_def and_then_Inr_iff decode_def split: option.splits json.splits)
    from 3 assms previous show ?thesis
      by (intro that(3) [of c])
        (auto simp: count_counter_def counter_key_def Let_def reading_def last not_less split: if_splits)
  qed
qed

lemma max_uint64_room: "d \<le> max_uint64 - c \<Longrightarrow> unat (c + d) = unat c + unat d"
proof -
  assume "d \<le> max_uint64 - c"
  then have "unat d \<le> unat (max_uint64 - c)" by (simp add: word_le_nat_alt)
  also have "c \<le> max_uint64" by (simp add: max_uint64_eq)
  then have "unat (max_uint64 - c) = 2 ^ 64 - 1 - unat c" by (simp add: unat_diff_fits)
  finally have "unat c + unat d < 2 ^ 64" using u64_lt [of c] by simp
  then show ?thesis by (simp add: unat_add_fits)
qed

lemma last_readings_put:
  "last_readings (db\<lparr>p_counters := put_json k r (p_counters db)\<rparr>) = (last_readings db)(k := Some r)"
  by (auto simp: last_readings_def put_json_def fun_eq_iff)

lemma count_counters_fold:
  assumes "fold_res (count_counter plugin_id known) counters (deltas, db) = Inr (deltas', db')"
  shows "(\<forall>a. unat (fst (delta_of deltas' a)) = unat (fst (delta_of deltas a)) +
              fst (counted_usage plugin_id (set known) counters (last_readings db) a) \<and>
            unat (snd (delta_of deltas' a)) = unat (snd (delta_of deltas a)) +
              snd (counted_usage plugin_id (set known) counters (last_readings db) a)) \<and>
    (\<exists>C. db' = db\<lparr>p_counters := C\<rparr>) \<and>
    (distinct (map fst deltas) \<longrightarrow> distinct (map fst deltas')) \<and>
    (\<forall>a \<in> fst ` set deltas'. a \<in> fst ` set deltas \<or> (\<exists>s. service_key plugin_id a s \<in> set known)) \<and>
    (cells_ok (counter_ok ids) (p_counters db) \<longrightarrow>
      (\<forall>k \<in> set known. \<exists>p a s. k = service_key p a s \<and> nul_free p \<and> nul_free a \<and> nul_free s \<and> a \<in> ids) \<longrightarrow>
      cells_ok (counter_ok ids) (p_counters db'))"
  using assms
proof (induction counters arbitrary: deltas db)
  case Nil
  then show ?case by (auto intro: exI [of _ "p_counters db"])
next
  case (Cons counter counters)
  from Cons.prems obtain deltas1 db1 where
    step: "count_counter plugin_id known counter (deltas, db) = Inr (deltas1, db1)" and
    rest: "fold_res (count_counter plugin_id known) counters (deltas1, db1) = Inr (deltas', db')"
    by (auto simp: and_then_Inr_iff)
  note IH = Cons.IH [OF rest]
  from step show ?case
  proof (cases rule: count_counter_cases)
    case absent
    with IH show ?thesis by simp
  next
    case (unknown c)
    with IH show ?thesis by simp
  next
    case (known c)
    let ?k = "counter_key plugin_id c"
    let ?d = "counter_delta (last_readings db ?k) c" and ?cur = "delta_of deltas (tc_authorization_id c)"
    from known(6) have room: "fst ?d \<le> max_uint64 - fst ?cur" "snd ?d \<le> max_uint64 - snd ?cur"
      and deltas1: "deltas1 = AList.update (tc_authorization_id c) (fst ?cur + fst ?d, snd ?cur + snd ?d) deltas"
      by (simp_all add: Let_def)
    have readings: "last_readings db1 = (last_readings db)(?k := Some (reading c))"
      by (simp add: known(7) last_readings_put)
    have usage: "counted_usage plugin_id (set known) (counter # counters) (last_readings db) a =
        (let rest = counted_usage plugin_id (set known) counters (last_readings db1) a
         in if tc_authorization_id c = a then (unat (fst ?d) + fst rest, unat (snd ?d) + snd rest) else rest)" for a
      unfolding readings using known(1,2) by (simp add: Let_def)
    have sums: "unat (fst (delta_of deltas' a)) = unat (fst (delta_of deltas a)) +
              fst (counted_usage plugin_id (set known) (counter # counters) (last_readings db) a) \<and>
            unat (snd (delta_of deltas' a)) = unat (snd (delta_of deltas a)) +
              snd (counted_usage plugin_id (set known) (counter # counters) (last_readings db) a)" for a
      unfolding usage using IH [THEN conjunct1, rule_format, of a] max_uint64_room [OF room(1)] max_uint64_room [OF room(2)]
      by (cases "tc_authorization_id c = a") (simp_all add: deltas1 Let_def)
    have frame: "\<exists>C. db' = db\<lparr>p_counters := C\<rparr>" using IH known(7) by auto
    have dist: "distinct (map fst deltas) \<longrightarrow> distinct (map fst deltas')"
      using IH deltas1 by (simp add: distinct_update)
    have keys: "fst ` set deltas1 = insert (tc_authorization_id c) (fst ` set deltas)"
      by (simp add: deltas1 dom_update)
    have auths: "a \<in> fst ` set deltas \<or> (\<exists>s. service_key plugin_id a s \<in> set known)" if "a \<in> fst ` set deltas'" for a
      using IH that keys known(2) by (auto simp: counter_key_def)
    have cells: "cells_ok (counter_ok ids) (p_counters db')"
      if h: "cells_ok (counter_ok ids) (p_counters db)"
        "\<forall>k \<in> set known. \<exists>p a s. k = service_key p a s \<and> nul_free p \<and> nul_free a \<and> nul_free s \<and> a \<in> ids"
    proof -
      have "counter_ok ids ?k (reading c)"
        using h(2) known(2-4) by (auto simp: counter_ok_def reading_def)
      then have "cells_ok (counter_ok ids) (p_counters db1)"
        using h(1) by (simp add: known(7) cells_ok_put_json)
      with IH h(2) show ?thesis by blast
    qed
    show ?thesis using sums frame dist auths cells by blast
  qed
qed

text \<open>Adding the deltas: every authorization with new usage gets it on the ledger of its current
  period, the others are left alone.\<close>

lemma policy_by_authorization_granted:
  assumes "cells_ok (policy_ok sdk) (p_policies db)" and "a \<in> granted_ids db"
  shows "policy_by_authorization (granted db) a \<in> set (granted db)"
    and "ap_authorization_id (policy_by_authorization (granted db) a) = a"
proof -
  let ?al = "map (\<lambda>p. (ap_authorization_id p, p)) (rev (granted db))"
  have "a \<in> fst ` set ?al" using assms granted_ids_eq [OF assms(1)] by force
  then obtain p where p: "map_of ?al a = Some p" by (metis map_of_eq_None_iff not_None_eq)
  then have "(a, p) \<in> set ?al" by (rule map_of_SomeD)
  with p show "policy_by_authorization (granted db) a \<in> set (granted db)"
    "ap_authorization_id (policy_by_authorization (granted db) a) = a"
    by (auto simp: policy_by_authorization_def)
qed

definition added_usage :: "ledger_state \<Rightarrow> u64 \<times> u64 \<Rightarrow> ledger_state" where
  "added_usage ledger delta =
     ledger\<lparr>ls_upload_bytes := ls_upload_bytes ledger + fst delta,
            ls_download_bytes := ls_download_bytes ledger + snd delta, ls_revision := ls_revision ledger + 1\<rparr>"

lemma apply_delta_Inr:
  assumes "apply_delta sdk policies now deltas a db = Inr db'" and "delta_of deltas a \<noteq> (0, 0)"
  obtains ledger db1 where "ensure_ledger sdk (policy_by_authorization policies a) now db = Inr (ledger, db1)"
    and "fst (delta_of deltas a) \<le> max_int64 - ls_upload_bytes ledger"
    and "snd (delta_of deltas a) \<le> max_int64 - ls_download_bytes ledger"
    and "ls_revision ledger < max_int64"
    and "db' = db1\<lparr>p_ledgers := put_json a (added_usage ledger (delta_of deltas a)) (p_ledgers db1)\<rparr>"
proof -
  from assms obtain ledger db1 where *: "ensure_ledger sdk (policy_by_authorization policies a) now db = Inr (ledger, db1)"
    "fst (delta_of deltas a) \<le> max_int64 - ls_upload_bytes ledger"
    "snd (delta_of deltas a) \<le> max_int64 - ls_download_bytes ledger"
    "ls_revision ledger < max_int64"
    "db' = db1\<lparr>p_ledgers := put_json a (added_usage ledger (delta_of deltas a)) (p_ledgers db1)\<rparr>"
    by (cases "delta_of deltas a")
      (auto simp: apply_delta_def Let_def and_then_Inr_iff added_usage_def not_less not_le split: if_splits)
  show ?thesis by (rule that [OF *])
qed

lemma apply_delta_zero: "delta_of deltas a = (0, 0) \<Longrightarrow> apply_delta sdk policies now deltas a db = Inr db"
  by (simp add: apply_delta_def)

lemma max_int64_room: "x \<le> max_int64 \<Longrightarrow> d \<le> max_int64 - x \<Longrightarrow> unat (x + d) = unat x + unat d \<and> x + d \<le> max_int64"
proof -
  assume "x \<le> max_int64" "d \<le> max_int64 - x"
  then have "unat d \<le> 2 ^ 63 - 1 - unat x" and le: "unat x \<le> 2 ^ 63 - 1"
    by (simp_all add: word_le_nat_alt unat_diff_fits)
  then have "unat x + unat d \<le> 2 ^ 63 - 1" by simp
  moreover from this have "unat (x + d) = unat x + unat d" by (intro unat_add_fits) simp
  ultimately show ?thesis by (simp add: word_le_nat_alt)
qed

lemma added_usage_ok:
  assumes "ledger_ok ids a l" and "fst d \<le> max_int64 - ls_upload_bytes l"
    and "snd d \<le> max_int64 - ls_download_bytes l" and "ls_revision l < max_int64"
  shows "ledger_ok ids a (added_usage l d)"
    and "unat (ls_upload_bytes (added_usage l d)) = unat (ls_upload_bytes l) + unat (fst d)"
    and "unat (ls_download_bytes (added_usage l d)) = unat (ls_download_bytes l) + unat (snd d)"
    and "unat (ls_revision (added_usage l d)) = Suc (unat (ls_revision l))"
proof -
  have l: "ls_upload_bytes l \<le> max_int64" "ls_download_bytes l \<le> max_int64" "ls_queued_revision l \<le> ls_revision l"
    using assms(1) by (auto simp: ledger_ok_def)
  have rev: "unat (ls_revision l + 1) = Suc (unat (ls_revision l))"
    using assms(4) by (simp add: word_less_nat_alt unat_add_fits)
  then show "unat (ls_revision (added_usage l d)) = Suc (unat (ls_revision l))" by (simp add: added_usage_def)
  from rev assms(4) have "ls_revision l + 1 \<le> max_int64" "ls_queued_revision l \<le> ls_revision l + 1" "0 < ls_revision l + 1"
    using l(3) by (simp_all add: word_le_nat_alt word_less_nat_alt)
  with max_int64_room [OF l(1) assms(2)] max_int64_room [OF l(2) assms(3)] assms(1)
  show "ledger_ok ids a (added_usage l d)"
    "unat (ls_upload_bytes (added_usage l d)) = unat (ls_upload_bytes l) + unat (fst d)"
    "unat (ls_download_bytes (added_usage l d)) = unat (ls_download_bytes l) + unat (snd d)"
    by (simp_all add: ledger_ok_def added_usage_def)
qed

lemma apply_delta_inv:
  assumes res: "apply_delta sdk (granted db0) now deltas a db = Inr db'" and ok: "policy_sdk_ok sdk"
    and inv: "policy_inv sdk db" and same: "granted db = granted db0" and a: "a \<in> granted_ids db"
  shows "policy_inv sdk db' \<and> granted db' = granted db0 \<and> p_counters db' = p_counters db \<and>
    granted_ids db' = granted_ids db \<and>
    (\<forall>k. k \<noteq> a \<longrightarrow> bucket_get (p_ledgers db') k = bucket_get (p_ledgers db) k)"
proof (cases "delta_of deltas a = (0, 0)")
  case True
  with res inv same show ?thesis by (simp add: apply_delta_zero)
next
  case False
  let ?p = "policy_by_authorization (granted db0) a"
  obtain l db1 where l: "ensure_ledger sdk ?p now db = Inr (l, db1)"
    "fst (delta_of deltas a) \<le> max_int64 - ls_upload_bytes l" "snd (delta_of deltas a) \<le> max_int64 - ls_download_bytes l"
    "ls_revision l < max_int64"
    and db': "db' = db1\<lparr>p_ledgers := put_json a (added_usage l (delta_of deltas a)) (p_ledgers db1)\<rparr>"
    by (rule apply_delta_Inr [OF res False])
  have pa: "ap_authorization_id ?p = a"
    using policy_by_authorization_granted(2) [OF policy_invD(1) [OF inv] a] same by simp
  note e = ensure_ledger_inv [OF l(1) inv _ ok, unfolded pa, OF a]
  have "ledger_ok (granted_ids db1) a l"
    using cells_ok_get [OF policy_invD(4) [OF e(1)], of a] ensure_ledger_get [OF l(1)] pa by simp
  from added_usage_ok(1) [OF this l(2-4)]
  have "cells_ok (ledger_ok (granted_ids db1)) (put_json a (added_usage l (delta_of deltas a)) (p_ledgers db1))"
    using policy_invD(4) [OF e(1)] by (simp add: cells_ok_put_json)
  with e(1) have "policy_inv sdk db'" by (simp add: db' policy_inv_def granted_keys_def)
  moreover have "p_counters db1 = p_counters db"
    using ensure_ledger_frame [OF l(1)] by (metis policy_db.ext_inject policy_db.surjective policy_db.update_convs(5) policy_db.update_convs(6))
  moreover have "bucket_get (p_ledgers db') k = bucket_get (p_ledgers db) k" if "k \<noteq> a" for k
    using ensure_ledger_others [OF l(1), of k] that pa by (simp add: db' put_json_def)
  ultimately show ?thesis using e same by (simp add: db')
qed

lemma apply_deltas_fold:
  assumes "fold_res (apply_delta sdk (granted db0) now deltas) as db = Inr db'" and ok: "policy_sdk_ok sdk"
    and "policy_inv sdk db" and "granted db = granted db0" and "set as \<subseteq> granted_ids db" and "distinct as"
  shows "policy_inv sdk db' \<and> granted db' = granted db0 \<and> p_counters db' = p_counters db \<and>
    (\<forall>k. k \<notin> set as \<or> delta_of deltas k = (0, 0) \<longrightarrow> bucket_get (p_ledgers db') k = bucket_get (p_ledgers db) k) \<and>
    (\<forall>a \<in> set as. delta_of deltas a \<noteq> (0, 0) \<longrightarrow>
      (\<exists>l dbm dbe. bucket_get (p_ledgers dbm) a = bucket_get (p_ledgers db) a \<and>
         ensure_ledger sdk (policy_by_authorization (granted db0) a) now dbm = Inr (l, dbe) \<and>
         ledger_ok (granted_ids db) a l \<and>
         fst (delta_of deltas a) \<le> max_int64 - ls_upload_bytes l \<and>
         snd (delta_of deltas a) \<le> max_int64 - ls_download_bytes l \<and> ls_revision l < max_int64 \<and>
         bucket_get (p_ledgers db') a = Some (Json (added_usage l (delta_of deltas a)))))"
  using assms(1,3-6)
proof (induction as arbitrary: db)
  case Nil
  then show ?case by simp
next
  case (Cons a as)
  from Cons.prems(1) obtain db1 where step: "apply_delta sdk (granted db0) now deltas a db = Inr db1"
    and rest: "fold_res (apply_delta sdk (granted db0) now deltas) as db1 = Inr db'"
    by (auto simp: and_then_Inr_iff)
  have a: "a \<in> granted_ids db" using Cons.prems(4) by simp
  note s = apply_delta_inv [OF step ok Cons.prems(2,3) a]
  have sub: "set as \<subseteq> granted_ids db1" and dist: "distinct as" "a \<notin> set as"
    using s Cons.prems(4,5) by auto
  note IH = Cons.IH [OF rest conjunct1 [OF s] _ sub dist(1)]
  have ih: "policy_inv sdk db' \<and> granted db' = granted db0 \<and> p_counters db' = p_counters db"
    using IH s by simp
  have at: "bucket_get (p_ledgers db') a = bucket_get (p_ledgers db1) a" using IH s dist(2) by simp
  show ?case
  proof (intro conjI)
    show "policy_inv sdk db'" "granted db' = granted db0" "p_counters db' = p_counters db" using ih by auto
    show "\<forall>k. k \<notin> set (a # as) \<or> delta_of deltas k = (0, 0) \<longrightarrow> bucket_get (p_ledgers db') k = bucket_get (p_ledgers db) k"
    proof (intro allI impI)
      fix k assume k: "k \<notin> set (a # as) \<or> delta_of deltas k = (0, 0)"
      show "bucket_get (p_ledgers db') k = bucket_get (p_ledgers db) k"
      proof (cases "k = a")
        case True
        with k have "db1 = db" using step by (simp add: apply_delta_zero)
        with at True show ?thesis by simp
      next
        case False
        with k IH s show ?thesis by auto
      qed
    qed
    show "\<forall>x \<in> set (a # as). delta_of deltas x \<noteq> (0, 0) \<longrightarrow>
      (\<exists>l dbm dbe. bucket_get (p_ledgers dbm) x = bucket_get (p_ledgers db) x \<and>
         ensure_ledger sdk (policy_by_authorization (granted db0) x) now dbm = Inr (l, dbe) \<and>
         ledger_ok (granted_ids db) x l \<and>
         fst (delta_of deltas x) \<le> max_int64 - ls_upload_bytes l \<and>
         snd (delta_of deltas x) \<le> max_int64 - ls_download_bytes l \<and> ls_revision l < max_int64 \<and>
         bucket_get (p_ledgers db') x = Some (Json (added_usage l (delta_of deltas x))))"
    proof (intro ballI impI)
      fix x assume x: "x \<in> set (a # as)" and nz: "delta_of deltas x \<noteq> (0, 0)"
      show "\<exists>l dbm dbe. bucket_get (p_ledgers dbm) x = bucket_get (p_ledgers db) x \<and>
         ensure_ledger sdk (policy_by_authorization (granted db0) x) now dbm = Inr (l, dbe) \<and>
         ledger_ok (granted_ids db) x l \<and>
         fst (delta_of deltas x) \<le> max_int64 - ls_upload_bytes l \<and>
         snd (delta_of deltas x) \<le> max_int64 - ls_download_bytes l \<and> ls_revision l < max_int64 \<and>
         bucket_get (p_ledgers db') x = Some (Json (added_usage l (delta_of deltas x)))"
      proof (cases "x = a")
        case False
        with x have "x \<in> set as" by simp
        with IH s nz False show ?thesis by (metis (no_types, lifting))
      next
        case True
        obtain l dbe where l: "ensure_ledger sdk (policy_by_authorization (granted db0) a) now db = Inr (l, dbe)"
          "fst (delta_of deltas a) \<le> max_int64 - ls_upload_bytes l" "snd (delta_of deltas a) \<le> max_int64 - ls_download_bytes l"
          "ls_revision l < max_int64" "db1 = dbe\<lparr>p_ledgers := put_json a (added_usage l (delta_of deltas a)) (p_ledgers dbe)\<rparr>"
          by (rule apply_delta_Inr [OF step nz [unfolded True]])
        have pa: "ap_authorization_id (policy_by_authorization (granted db0) a) = a"
          using policy_by_authorization_granted(2) [OF policy_invD(1) [OF Cons.prems(2)] a] Cons.prems(3) by simp
        note e = ensure_ledger_inv [OF l(1) Cons.prems(2) _ ok, unfolded pa, OF a]
        have "ledger_ok (granted_ids db) a l"
          using cells_ok_get [OF policy_invD(4) [OF e(1)], of a] ensure_ledger_get [OF l(1)] pa e(3) by simp
        with l at True show ?thesis
          by (intro exI [of _ l] exI [of _ db] exI [of _ dbe]) (simp add: put_json_def)
      qed
    qed
  qed
qed

lemma known_binding_parts:
  assumes "policy_sdk_ok sdk" and "cells_ok (policy_ok sdk) (p_policies db)" and "k \<in> granted_keys db"
  shows "\<exists>p a s. k = service_key p a s \<and> nul_free p \<and> nul_free a \<and> nul_free s \<and> a \<in> granted_ids db"
proof -
  from assms(3) obtain q b where q: "q \<in> set (granted db)" "b \<in> set (ap_bindings q)"
    "k = service_key (pb_plugin_id b) (ap_authorization_id q) (pb_service_id b)"
    by (auto simp: granted_keys_def in_binding_keys)
  have "sdk_validate_policy sdk q" using granted_cells(2) [OF assms(2)] q(1) by blast
  with q assms(1) granted_ids_eq [OF assms(2)] show ?thesis
    unfolding policy_sdk_ok_def by blast
qed

lemma apply_counters_tx_Inr:
  assumes res: "apply_counters_tx sdk iter plugin_id counters now db = Inr (u, db')"
    and ok: "policy_sdk_ok sdk" and inv: "policy_inv sdk db" and iter: "any_order iter"
  obtains deltas dbc where
    "fold_res (count_counter plugin_id (binding_keys (granted db))) counters ([], db) = Inr (deltas, dbc)"
    and "\<exists>C. dbc = db\<lparr>p_counters := C\<rparr>" and "policy_inv sdk dbc"
    and "\<And>a. unat (fst (delta_of deltas a)) = fst (counted_usage plugin_id (granted_keys db) counters (last_readings db) a)"
    and "\<And>a. unat (snd (delta_of deltas a)) = snd (counted_usage plugin_id (granted_keys db) counters (last_readings db) a)"
    and "fold_res (apply_delta sdk (granted db) now deltas) (iter (map fst deltas)) dbc = Inr db'"
    and "set (iter (map fst deltas)) = fst ` set deltas" and "distinct (iter (map fst deltas))"
    and "fst ` set deltas \<subseteq> granted_ids db"
proof -
  note cells = policy_invD(1) [OF inv]
  let ?known = "binding_keys (granted db)"
  from res obtain deltas dbc where
    count: "fold_res (count_counter plugin_id ?known) counters ([], db) = Inr (deltas, dbc)" and
    apply': "fold_res (apply_delta sdk (granted db) now deltas) (iter (map fst deltas)) dbc = Inr db'"
    by (auto simp: apply_counters_tx_def read_policies_granted [OF cells] and_then_Inr_iff)
  have parts: "\<forall>k \<in> set ?known. \<exists>p a s. k = service_key p a s \<and> nul_free p \<and> nul_free a \<and> nul_free s \<and> a \<in> granted_ids db"
    using known_binding_parts [OF ok cells] by (simp add: granted_keys_def)
  note fold = count_counters_fold [OF count, of "granted_ids db"]
  then obtain C where C: "dbc = db\<lparr>p_counters := C\<rparr>" by blast
  have cnt: "cells_ok (counter_ok (granted_ids db)) (p_counters dbc)"
    using fold parts policy_invD(3) [OF inv] by blast
  then have inv1: "policy_inv sdk dbc" using inv by (simp add: C policy_inv_def granted_keys_def)

  have auths: "fst ` set deltas \<subseteq> granted_ids db"
  proof
    fix a assume "a \<in> fst ` set deltas"
    moreover have "\<forall>a \<in> fst ` set deltas. \<exists>s. service_key plugin_id a s \<in> set ?known"
      using fold by simp
    ultimately obtain s where s: "service_key plugin_id a s \<in> set ?known" by blast
    with parts obtain p a' s' where "service_key plugin_id a s = service_key p a' s'"
      "nul_free p" "nul_free a'" "nul_free s'" "a' \<in> granted_ids db" by blast
    with service_key_inject [of p a' s' plugin_id a s] show "a \<in> granted_ids db" by simp
  qed
  show ?thesis
  proof (rule that [OF count _ inv1 _ _ apply' _ _ auths])
    show "\<exists>C. dbc = db\<lparr>p_counters := C\<rparr>" using C by blast
    show "unat (fst (delta_of deltas a)) = fst (counted_usage plugin_id (granted_keys db) counters (last_readings db) a)"
      "unat (snd (delta_of deltas a)) = snd (counted_usage plugin_id (granted_keys db) counters (last_readings db) a)" for a
      using fold by (simp_all add: granted_keys_def)
    show "set (iter (map fst deltas)) = fst ` set deltas" by (simp add: any_order_set [OF iter])
    show "distinct (iter (map fst deltas))" using fold by (simp add: any_order_distinct [OF iter])
  qed
qed

lemma apply_counters_tx_inv:
  assumes "apply_counters_tx sdk iter plugin_id counters now db = Inr (u, db')"
    and ok: "policy_sdk_ok sdk" and inv: "policy_inv sdk db" and iter: "any_order iter"
  shows "policy_inv sdk db' \<and> granted db' = granted db"
proof -
  obtain deltas dbc where d: "policy_inv sdk dbc" "\<exists>C. dbc = db\<lparr>p_counters := C\<rparr>"
    "fold_res (apply_delta sdk (granted db) now deltas) (iter (map fst deltas)) dbc = Inr db'"
    "set (iter (map fst deltas)) = fst ` set deltas" "distinct (iter (map fst deltas))"
    "fst ` set deltas \<subseteq> granted_ids db"
    using apply_counters_tx_Inr [OF assms] by metis
  have "granted dbc = granted db" "granted_ids dbc = granted_ids db" using d(2) by auto
  with apply_deltas_fold [OF d(3) ok d(1)] d(4-6) show ?thesis by simp
qed

end
