(* ===== verification/PolicyTheorems.thy ===== *)
theory PolicyTheorems
  imports PolicyInvariant
begin

section \<open>The policy store: what its operations promise\<close>

text \<open>
  The results about \<^verbatim>\<open>internal/policy/store.go\<close>: exact traffic accounting and its replay, the slot
  decision of \<^verbatim>\<open>ObserveActivity\<close>, the telemetry cursor, generations and orphaned bindings of \<^verbatim>\<open>Reconcile\<close>,
  and the fate of usage that has not been reported.
\<close>

subsection \<open>Accounting\<close>

lemma apply_counters_Inr:
  assumes "apply_counters sdk iter fault plugin_id counters now db = (Inr u, db')"
  shows "apply_counters_tx sdk iter plugin_id counters now db = Inr (u, db')"
    and "sdk_validate_plugin_id sdk plugin_id" and "\<not> time_is_zero now"
  using assms by (auto simp: apply_counters_def db_update_Inr_iff split: if_splits)

text \<open>The ledger an authorization has at a time: the stored one while its period lasts, a fresh one
  otherwise.\<close>

definition ledger_at :: "policy_sdk \<Rightarrow> authorization_policy \<Rightarrow> time \<Rightarrow> policy_db \<Rightarrow> ledger_state option" where
  "ledger_at sdk policy now db =
     (case sdk_current_period sdk (ap_reset policy) (ap_started_at policy) now of
        None \<Rightarrow> None
      | Some period \<Rightarrow>
          (case bucket_get (p_ledgers db) (ap_authorization_id policy) of
             Some (Json l) \<Rightarrow> Some (if per_id (ls_period l) = per_id period then l
                                    else fresh_ledger (ap_authorization_id policy) period)
           | _ \<Rightarrow> Some (fresh_ledger (ap_authorization_id policy) period)))"

lemma ensure_ledger_at:
  assumes "ensure_ledger sdk policy now db = Inr (l, db')"
  shows "ledger_at sdk policy now db = Some l"
  using assms by (cases rule: ensure_ledger_cases) (simp_all add: ledger_at_def)

lemma ledger_at_cong:
  "bucket_get (p_ledgers db') (ap_authorization_id policy) = bucket_get (p_ledgers db) (ap_authorization_id policy) \<Longrightarrow>
   ledger_at sdk policy now db' = ledger_at sdk policy now db"
  by (simp add: ledger_at_def cong: option.case_cong)

definition ledger_of :: "policy_db \<Rightarrow> string \<Rightarrow> ledger_state option" where
  "ledger_of db a = (case bucket_get (p_ledgers db) a of Some (Json l) \<Rightarrow> Some l | _ \<Rightarrow> None)"

text \<open>What keeps every undisputed snapshot keeps every snapshot, or has replaced it by the unreported usage that the ledger holds for the same
  authorization and period: the stored snapshots are indexed by these two alone.\<close>

lemma unreported_kept_or_replaced:
  assumes inv: "policy_inv sdk db" and keep: "\<And>s. s \<in> unreported db \<Longrightarrow> undisputed db s \<Longrightarrow> s \<in> A" and s: "s \<in> unreported db"
  shows "s \<in> A \<or> (\<exists>l. ledger_of db (ts_authorization_id s) = Some l \<and> ls_queued_revision l < ls_revision l \<and>
     per_id (ls_period l) = per_id (ts_period s) \<and> ledger_event l \<noteq> s \<and> ledger_event l \<in> A)"
proof (cases "undisputed db s")
  case False
  have key: "ls_authorization_id l = k" if "bucket_get (p_ledgers db) k = Some (Json l)" for k l
    using cells_ok_get [OF policy_invD(4) [OF inv] that] by (simp add: ledger_ok_def)
  from False obtain l k where l: "bucket_get (p_ledgers db) k = Some (Json l)" "ls_queued_revision l < ls_revision l"
    "ls_authorization_id l = ts_authorization_id s" "per_id (ls_period l) = per_id (ts_period s)" "ledger_event l \<noteq> s"
    by (auto simp: undisputed_def)
  have "undisputed db (ledger_event l)"
    using key l(1) by (auto simp: undisputed_def ledger_event_def)
  then have "ledger_event l \<in> A" by (intro keep unreported_ledger [OF l(1,2)])
  with l key [OF l(1)] show ?thesis by (auto simp: ledger_of_def)
qed (use keep s in simp)

lemma apply_counters_effect:
  assumes res: "apply_counters sdk iter fault plugin_id counters now db = (Inr u, db')"
    and ok: "policy_sdk_ok sdk" and inv: "policy_inv sdk db" and iter: "any_order iter" and a: "a \<in> granted_ids db"
  shows "let usage = counted_usage plugin_id (granted_keys db) counters (last_readings db) a in
         if usage = (0, 0) then ledger_of db' a = ledger_of db a
         else \<exists>before after. ledger_at sdk (policy_by_authorization (granted db) a) now db = Some before \<and>
           ledger_of db' a = Some after \<and> ls_period after = ls_period before \<and>
           unat (ls_upload_bytes after) = unat (ls_upload_bytes before) + fst usage \<and>
           unat (ls_download_bytes after) = unat (ls_download_bytes before) + snd usage \<and>
           unat (ls_revision after) = Suc (unat (ls_revision before)) \<and>
           ls_queued_revision after = ls_queued_revision before"
proof -
  let ?usage = "counted_usage plugin_id (granted_keys db) counters (last_readings db) a"
  obtain deltas dbc where d: "\<exists>C. dbc = db\<lparr>p_counters := C\<rparr>" "policy_inv sdk dbc"
    "\<And>a. unat (fst (delta_of deltas a)) = fst (counted_usage plugin_id (granted_keys db) counters (last_readings db) a)"
    "\<And>a. unat (snd (delta_of deltas a)) = snd (counted_usage plugin_id (granted_keys db) counters (last_readings db) a)"
    "fold_res (apply_delta sdk (granted db) now deltas) (iter (map fst deltas)) dbc = Inr db'"
    "set (iter (map fst deltas)) = fst ` set deltas" "distinct (iter (map fst deltas))"
    "fst ` set deltas \<subseteq> granted_ids db"
    using apply_counters_tx_Inr [OF apply_counters_Inr(1) [OF res] ok inv iter] by metis
  have same: "granted dbc = granted db" "granted_ids dbc = granted_ids db" "p_ledgers dbc = p_ledgers db"
    using d(1) by auto
  note fold = apply_deltas_fold [OF d(5) ok d(2) same(1)]
  have usage: "delta_of deltas a = (0, 0) \<longleftrightarrow> ?usage = (0, 0)"
    using d(3,4) [of a] by (metis fst_conv prod.exhaust_sel snd_conv unat_eq_zero)
  show ?thesis
  proof (cases "?usage = (0, 0)")
    case True
    with fold d(6-8) usage same show ?thesis by (simp add: ledger_of_def)
  next
    case False
    then have nz: "delta_of deltas a \<noteq> (0, 0)" using usage by simp
    then have mem: "a \<in> fst ` set deltas"
      by (metis delta_of_def map_of_eq_None_iff option.simps(4))
    with fold d(6-8) same nz obtain l dbm dbe where
      dbm: "bucket_get (p_ledgers dbm) a = bucket_get (p_ledgers dbc) a" and
      l: "ensure_ledger sdk (policy_by_authorization (granted db) a) now dbm = Inr (l, dbe)" and
      lok: "ledger_ok (granted_ids dbc) a l" and
      room: "fst (delta_of deltas a) \<le> max_int64 - ls_upload_bytes l"
        "snd (delta_of deltas a) \<le> max_int64 - ls_download_bytes l" "ls_revision l < max_int64" and
      after: "bucket_get (p_ledgers db') a = Some (Json (added_usage l (delta_of deltas a)))"
      by (metis (no_types, lifting))
    have pa: "ap_authorization_id (policy_by_authorization (granted db) a) = a"
      by (rule policy_by_authorization_granted(2) [OF policy_invD(1) [OF inv] a])
    have "ledger_at sdk (policy_by_authorization (granted db) a) now db = Some l"
      using ensure_ledger_at [OF l] ledger_at_cong [of dbm _ db] dbm pa same by simp
    with after added_usage_ok(2-4) [OF lok room] d(3,4) [of a] False show ?thesis
      by (simp add: Let_def ledger_of_def) (simp add: added_usage_def)
  qed
qed

subsection \<open>Replay\<close>

definition readings_stored :: "string \<Rightarrow> string set \<Rightarrow> traffic_counter option list \<Rightarrow> policy_db \<Rightarrow> bool" where
  "readings_stored plugin_id known counters db \<longleftrightarrow>
     (\<forall>c. Some c \<in> set counters \<longrightarrow>
        (tc_upload_bytes c \<le> max_int64 \<and> tc_download_bytes c \<le> max_int64) \<and>
        (counter_key plugin_id c \<in> known \<longrightarrow> last_readings db (counter_key plugin_id c) = Some (reading c)))"

lemma count_counter_bounds:
  "count_counter plugin_id known (Some c) acc = Inr acc' \<Longrightarrow> tc_upload_bytes c \<le> max_int64 \<and> tc_download_bytes c \<le> max_int64"
  by (auto simp: count_counter_def not_less split: prod.splits if_splits)

lemma set_present: "set (List.map_filter (\<lambda>c. c) xs) = {c. Some c \<in> set xs}"
proof (induction xs)
  case (Cons x xs)
  then show ?case by (cases x) (auto simp: List.map_filter_simps)
qed (simp add: List.map_filter_simps)

lemma counters_stored:
  assumes "fold_res (count_counter plugin_id known) counters (deltas, db) = Inr (deltas', db')"
    and "distinct (map (counter_key plugin_id) (List.map_filter (\<lambda>c. c) counters))"
  shows "readings_stored plugin_id (set known) counters db' \<and>
    (\<forall>k. k \<notin> counter_key plugin_id ` {c. Some c \<in> set counters} \<longrightarrow> last_readings db' k = last_readings db k)"
  using assms
proof (induction counters arbitrary: deltas db)
  case Nil
  then show ?case by (simp add: readings_stored_def)
next
  case (Cons counter counters)
  from Cons.prems(1) obtain deltas1 db1 where
    step: "count_counter plugin_id known counter (deltas, db) = Inr (deltas1, db1)" and
    rest: "fold_res (count_counter plugin_id known) counters (deltas1, db1) = Inr (deltas', db')"
    by (auto simp: and_then_Inr_iff)
  have dist: "distinct (map (counter_key plugin_id) (List.map_filter (\<lambda>c. c) counters))"
    using Cons.prems(2) by (cases counter) (simp_all add: List.map_filter_simps)
  note IH = Cons.IH [OF rest dist]
  have new: "counter_key plugin_id c \<notin> counter_key plugin_id ` {c. Some c \<in> set counters}" if "counter = Some c" for c
    using Cons.prems(2) that set_present [of counters] by (auto simp: List.map_filter_simps)
  from step show ?case
  proof (cases rule: count_counter_cases)
    case absent
    with IH show ?thesis by (simp add: readings_stored_def)
  next
    case (unknown c)
    with IH count_counter_bounds step show ?thesis by (auto simp: readings_stored_def)
  next
    case (known c)
    have db1: "last_readings db1 = (last_readings db)(counter_key plugin_id c := Some (reading c))"
      by (simp add: known(7) last_readings_put)
    then have here: "last_readings db' (counter_key plugin_id c) = Some (reading c)"
      using IH new [OF known(1)] by simp
    have keys: "counter_key plugin_id ` {x. Some x \<in> set (counter # counters)} =
        insert (counter_key plugin_id c) (counter_key plugin_id ` {x. Some x \<in> set counters})"
      using known(1) by auto
    have "last_readings db' k = last_readings db k"
      if "k \<notin> counter_key plugin_id ` {x. Some x \<in> set (counter # counters)}" for k
      using IH db1 that unfolding keys by simp
    moreover have "readings_stored plugin_id (set known) (counter # counters) db'"
      using IH here known(1,3,4) by (auto simp: readings_stored_def)
    ultimately show ?thesis by blast
  qed
qed

lemma counter_delta_replayed: "counter_delta (Some (reading c)) c = (0, 0)"
  by (simp add: counter_delta_def reading_def)

lemma count_counter_replayed:
  assumes "readings_stored plugin_id (set known) [counter] db" and "bucket_ok (p_counters db)"
    and "\<forall>a. delta_of deltas a = (0, 0)"
  shows "\<exists>deltas'. count_counter plugin_id known counter (deltas, db) = Inr (deltas', db) \<and>
    (\<forall>a. delta_of deltas' a = (0, 0))"
proof (cases counter)
  case None
  with assms show ?thesis by (simp add: count_counter_def)
next
  case (Some c)
  let ?k = "counter_key plugin_id c"
  have bounds: "\<not> max_int64 < tc_upload_bytes c" "\<not> max_int64 < tc_download_bytes c"
    using assms(1) Some by (simp_all add: readings_stored_def not_less)
  show ?thesis
  proof (cases "?k \<in> set known")
    case False
    with assms(3) Some bounds show ?thesis by (simp add: count_counter_def counter_key_def)
  next
    case True
    then have get: "bucket_get (p_counters db) ?k = Some (Json (reading c))"
      using assms(1) Some by (auto simp: readings_stored_def last_readings_def split: option.splits json.splits)
    then have "put_json ?k (reading c) (p_counters db) = p_counters db"
      using put_same [OF assms(2)] by (simp add: put_json_def)
    moreover have "get_json DecodeFailed (p_counters db) ?k = Inr (Some (reading c))"
      using get by (simp add: get_json_Some_iff)
    ultimately have "count_counter plugin_id known counter (deltas, db) =
        Inr (AList.update (tc_authorization_id c) (0, 0) deltas, db)"
      using True bounds assms(3) Some counter_delta_replayed [of c]
      by (simp add: count_counter_def Let_def flip: counter_key_def reading_def)
    with assms(3) show ?thesis by simp
  qed
qed

lemma counters_replayed:
  assumes "readings_stored plugin_id (set known) counters db" and "bucket_ok (p_counters db)"
    and "\<forall>a. delta_of deltas a = (0, 0)"
  shows "\<exists>deltas'. fold_res (count_counter plugin_id known) counters (deltas, db) = Inr (deltas', db) \<and>
    (\<forall>a. delta_of deltas' a = (0, 0))"
  using assms(1,3)
proof (induction counters arbitrary: deltas)
  case (Cons counter counters)
  then have "readings_stored plugin_id (set known) [counter] db" "readings_stored plugin_id (set known) counters db"
    by (simp_all add: readings_stored_def)
  with count_counter_replayed [OF _ assms(2) Cons.prems(2)] Cons.IH show ?case by fastforce
qed simp

lemma apply_deltas_zero:
  "\<forall>a. delta_of deltas a = (0, 0) \<Longrightarrow> fold_res (apply_delta sdk policies now deltas) as db = Inr db"
  by (induction as) (simp_all add: apply_delta_zero)

lemma apply_counters_again:
  assumes res: "apply_counters sdk iter fault plugin_id counters now db = (Inr u, db')"
    and ok: "policy_sdk_ok sdk" and inv: "policy_inv sdk db" and iter: "any_order iter"
    and dist: "distinct (map (counter_key plugin_id) (List.map_filter (\<lambda>c. c) counters))" and now': "\<not> time_is_zero now'"
  shows "apply_counters sdk iter' None plugin_id counters now' db' = (Inr (), db')"
proof -
  note tx = apply_counters_Inr(1) [OF res]
  obtain deltas dbc where d: "fold_res (count_counter plugin_id (binding_keys (granted db))) counters ([], db) = Inr (deltas, dbc)"
    "\<exists>C. dbc = db\<lparr>p_counters := C\<rparr>" "policy_inv sdk dbc"
    "fold_res (apply_delta sdk (granted db) now deltas) (iter (map fst deltas)) dbc = Inr db'"
    "set (iter (map fst deltas)) = fst ` set deltas" "distinct (iter (map fst deltas))"
    "fst ` set deltas \<subseteq> granted_ids db"
    using apply_counters_tx_Inr [OF tx ok inv iter] by metis
  have same: "granted dbc = granted db" "granted_ids dbc = granted_ids db" using d(2) by auto
  have eff: "policy_inv sdk db'" "granted db' = granted db" "p_counters db' = p_counters dbc"
    using apply_deltas_fold [OF d(4) ok d(3) same(1)] d(5-7) same by auto
  have "readings_stored plugin_id (set (binding_keys (granted db))) counters db'"
    using conjunct1 [OF counters_stored [OF d(1) dist]] eff(3)
    by (simp add: readings_stored_def last_readings_def)
  moreover have "bucket_ok (p_counters db')" using cells_ok_sorted [OF policy_invD(3) [OF eff(1)]] .
  ultimately obtain deltas' where
    "fold_res (count_counter plugin_id (binding_keys (granted db'))) counters ([], db') = Inr (deltas', db')"
    "\<forall>a. delta_of deltas' a = (0, 0)"
    using counters_replayed [of plugin_id "binding_keys (granted db)" counters db' "[]"] eff(2) by auto
  then have "apply_counters_tx sdk iter' plugin_id counters now' db' = Inr ((), db')"
    using read_policies_granted [OF policy_invD(1) [OF eff(1)]]
    by (simp add: apply_counters_tx_def apply_deltas_zero)
  then show ?thesis
    using apply_counters_Inr(2) [OF res] now' by (simp add: apply_counters_def db_update_def)
qed

subsection \<open>Source addresses\<close>

definition slot_addresses :: "policy_db \<Rightarrow> string \<Rightarrow> time \<Rightarrow> string set" where
  "slot_addresses db a cutoff =
     {ip. \<exists>s. bucket_get (p_slots db) (activity_key a ip) = Some (Json s) \<and> cutoff < last_seen_at s}"

definition blocked_until :: "policy_db \<Rightarrow> string \<Rightarrow> string \<Rightarrow> time option" where
  "blocked_until db a ip =
     (case bucket_get (p_blocks db) (activity_key a ip) of Some (Json b) \<Rightarrow> Some (block_expires_at b) | _ \<Rightarrow> None)"

lemma activity_key_inject_left [simp]: "activity_key a ip = activity_key a ip' \<longleftrightarrow> ip = ip'"
  by (simp add: activity_key_def)

text \<open>The cursor count of \<^verbatim>\<open>ObserveActivity\<close> is the number of addresses with a slot.\<close>

lemma count_slots:
  assumes "bucket_ok b"
  shows "length (seek_prefix (a @ [nul]) b) = card {ip. bucket_get b (activity_key a ip) \<noteq> None}"
proof -
  let ?es = "filter (\<lambda>e. prefix (a @ [nul]) (fst e)) b"
  have "distinct (map fst ?es)"
    using bucket_ok_distinct [OF filter_sorted [OF assms]] .
  then have "length ?es = card (fst ` set ?es)"
    using distinct_card [of "map fst ?es"] by simp
  also have "fst ` set ?es = activity_key a ` {ip. bucket_get b (activity_key a ip) \<noteq> None}"
    by (auto simp: prefix_def activity_key_def bucket_get_def image_iff map_of_eq_None_iff) force+
  also have "card (activity_key a ` {ip. bucket_get b (activity_key a ip) \<noteq> None}) =
      card {ip. bucket_get b (activity_key a ip) \<noteq> None}"
    by (rule card_image) (simp add: inj_on_def)
  finally show ?thesis by (simp add: seek_prefix_eq_filter [OF assms])
qed

lemma cleaned_activity:
  assumes clean: "clean_authorization_activity policy now db = Inr db1" and inv: "policy_inv sdk db"
    and a: "ap_authorization_id policy = a"
  shows "bucket_get (p_slots db1) (activity_key a ip) = Some c \<longleftrightarrow>
           (\<exists>s. c = Json s \<and> bucket_get (p_slots db) (activity_key a ip) = Some (Json s) \<and> activity_cutoff policy now < last_seen_at s)"
    and "bucket_get (p_blocks db1) (activity_key a ip) = Some d \<longleftrightarrow>
           (\<exists>s. d = Json s \<and> bucket_get (p_blocks db) (activity_key a ip) = Some (Json s) \<and> now < block_expires_at s)"
proof -
  have p: "prefix (a @ [nul]) (activity_key a ip)" by (simp add: activity_key_def)
  have db1: "p_slots db1 = filter (\<lambda>e. prefix (a @ [nul]) (fst e) \<longrightarrow> slot_live (activity_cutoff policy now) (snd e)) (p_slots db)"
    "p_blocks db1 = filter (\<lambda>e. prefix (a @ [nul]) (fst e) \<longrightarrow> block_live now (snd e)) (p_blocks db)"
    using clean clean_activity_eq [OF policy_invD(6,7) [OF inv], of policy now] a by auto
  show "bucket_get (p_slots db1) (activity_key a ip) = Some c \<longleftrightarrow>
           (\<exists>s. c = Json s \<and> bucket_get (p_slots db) (activity_key a ip) = Some (Json s) \<and> activity_cutoff policy now < last_seen_at s)"
    unfolding db1 get_filter [OF cells_ok_sorted [OF policy_invD(6) [OF inv]]]
    using p by (auto simp: slot_live_def split: option.splits json.splits)
  show "bucket_get (p_blocks db1) (activity_key a ip) = Some d \<longleftrightarrow>
           (\<exists>s. d = Json s \<and> bucket_get (p_blocks db) (activity_key a ip) = Some (Json s) \<and> now < block_expires_at s)"
    unfolding db1 get_filter [OF cells_ok_sorted [OF policy_invD(7) [OF inv]]]
    using p by (auto simp: block_live_def split: option.splits json.splits)
qed

definition slot_count :: "policy_db \<Rightarrow> string \<Rightarrow> time \<Rightarrow> nat" where
  "slot_count db a cutoff = card (slot_addresses db a cutoff)"

lemma cleaned_count:
  assumes "clean_authorization_activity policy now db = Inr db1" and "policy_inv sdk db"
    and "ap_authorization_id policy = a"
  shows "length (seek_prefix (a @ [nul]) (p_slots db1)) = slot_count db a (activity_cutoff policy now)"
proof -
  have "bucket_ok (p_slots db1)"
    by (rule cells_ok_sorted [OF policy_invD(6) [OF clean_activity_inv(1) [OF assms(1,2)]]])
  moreover have "{ip. bucket_get (p_slots db1) (activity_key a ip) \<noteq> None} = slot_addresses db a (activity_cutoff policy now)"
  proof (rule set_eqI)
    fix ip
    show "ip \<in> {ip. bucket_get (p_slots db1) (activity_key a ip) \<noteq> None} \<longleftrightarrow>
        ip \<in> slot_addresses db a (activity_cutoff policy now)"
      using cleaned_activity(1) [OF assms, of ip]
      by (cases "bucket_get (p_slots db1) (activity_key a ip)") (auto simp: slot_addresses_def)
  qed
  ultimately show ?thesis by (simp add: slot_count_def count_slots)
qed

text \<open>The two writes that \<^verbatim>\<open>ObserveActivity\<close> can end with keep the invariant.\<close>

lemma put_activity_inv:
  assumes "policy_inv sdk db" and "a \<in> granted_ids db"
  shows "policy_inv sdk (db\<lparr>p_slots := put_json (activity_key a ip) s (p_slots db)\<rparr>)"
    and "policy_inv sdk (db\<lparr>p_blocks := put_json (activity_key a ip) b (p_blocks db)\<rparr>)"
proof -
  have "activity_ok (granted_ids db) (activity_key a ip) s" "activity_ok (granted_ids db) (activity_key a ip) b"
    using assms(2) by (auto simp: activity_ok_def)
  then show "policy_inv sdk (db\<lparr>p_slots := put_json (activity_key a ip) s (p_slots db)\<rparr>)"
    "policy_inv sdk (db\<lparr>p_blocks := put_json (activity_key a ip) b (p_blocks db)\<rparr>)"
    using assms(1) by (simp_all add: policy_inv_def granted_keys_def cells_ok_put_json)
qed

lemma observe_tx_limited:
  assumes ok: "policy_sdk_ok sdk" and inv: "policy_inv sdk db" and p: "p \<in> set (granted db)" "ap_authorization_id p = a"
    and limit: "ap_soft_ip_limit p = Some limit"
  obtains db1 where "clean_authorization_activity p t db = Inr db1" and "policy_inv sdk db1"
    and "granted_ids db1 = granted_ids db" and "observe_activity_tx a ip t db =
      Inr (if (\<exists>e. blocked_until db a ip = Some e \<and> t < e) then (True, db1)
           else if ip \<in> slot_addresses db a (activity_cutoff p t) then
             (False, if (\<exists>s. bucket_get (p_slots db) (activity_key a ip) = Some (Json s) \<and> last_seen_at s < t)
                     then db1\<lparr>p_slots := put_json (activity_key a ip) \<lparr>last_seen_at = t\<rparr> (p_slots db1)\<rparr> else db1)
           else if slot_count db a (activity_cutoff p t) < unat limit
             then (False, db1\<lparr>p_slots := put_json (activity_key a ip) \<lparr>last_seen_at = t\<rparr> (p_slots db1)\<rparr>)
           else (True, db1\<lparr>p_blocks := put_json (activity_key a ip)
                    \<lparr>block_expires_at = t + duration_seconds (ap_block_duration_seconds p)\<rparr> (p_blocks db1)\<rparr>))"
proof -
  obtain db1 where clean: "clean_authorization_activity p t db = Inr db1"
    using clean_activity_eq [OF policy_invD(6,7) [OF inv]] by blast
  note eff = clean_activity_inv [OF clean inv]
  let ?k = "activity_key a ip"
  have stored: "get_json DecodeFailed (p_policies db) a = Inr (Some p)"
    using get_granted [OF policy_invD(1) [OF inv], of DecodeFailed a p] p by simp
  have block: "get_json DecodeFailed (p_blocks db1) ?k =
      Inr (case blocked_until db a ip of Some e \<Rightarrow> if t < e then Some \<lparr>block_expires_at = e\<rparr> else None | None \<Rightarrow> None)"
  proof (cases "bucket_get (p_blocks db1) ?k")
    case None
    then have "\<not> (\<exists>s. bucket_get (p_blocks db) ?k = Some (Json s) \<and> t < block_expires_at s)"
      using cleaned_activity(2) [OF clean inv p(2), of ip] by fastforce
    then have "(case blocked_until db a ip of Some e \<Rightarrow> if t < e then Some \<lparr>block_expires_at = e\<rparr> else None | None \<Rightarrow> None) = None"
      by (auto simp: blocked_until_def split: option.splits json.splits)
    with None show ?thesis by (simp add: get_json_None_iff)
  next
    case (Some c)
    then obtain s where s: "c = Json s" "bucket_get (p_blocks db) ?k = Some (Json s)" "t < block_expires_at s"
      using cleaned_activity(2) [OF clean inv p(2)] by blast
    with Some show ?thesis by (simp add: blocked_until_def get_json_Some_iff)
  qed
  have slot: "get_json DecodeFailed (p_slots db1) ?k =
      Inr (if ip \<in> slot_addresses db a (activity_cutoff p t)
           then (case bucket_get (p_slots db) ?k of Some (Json s) \<Rightarrow> Some s | _ \<Rightarrow> None) else None)"
  proof (cases "bucket_get (p_slots db1) ?k")
    case None
    then have "ip \<notin> slot_addresses db a (activity_cutoff p t)"
      using cleaned_activity(1) [OF clean inv p(2), of ip] by (force simp: slot_addresses_def)
    with None show ?thesis by (simp add: get_json_None_iff)
  next
    case (Some c)
    then obtain s where "c = Json s" "bucket_get (p_slots db) ?k = Some (Json s)" "activity_cutoff p t < last_seen_at s"
      using cleaned_activity(1) [OF clean inv p(2)] by blast
    with Some show ?thesis by (simp add: slot_addresses_def get_json_Some_iff)
  qed
  show ?thesis
  proof (rule that [OF clean eff(1,3)], goal_cases)
    case 1
    note start = observe_activity_tx_def [of a ip t db, unfolded stored, simplified, unfolded limit, simplified,
        unfolded clean, simplified, unfolded Let_def block slot, simplified]
    show ?case
    proof (cases "\<exists>e. blocked_until db a ip = Some e \<and> t < e")
      case True
      then show ?thesis by (auto simp: start)
    next
      case False
      then have nb: "(case blocked_until db a ip of Some e \<Rightarrow> if t < e then Some \<lparr>block_expires_at = e\<rparr> else None | None \<Rightarrow> None) = None"
        by (auto split: option.splits)
      show ?thesis
      proof (cases "ip \<in> slot_addresses db a (activity_cutoff p t)")
        case True
        then obtain s where "bucket_get (p_slots db) ?k = Some (Json s)" by (auto simp: slot_addresses_def)
        with True False nb show ?thesis by (simp add: start)
      next
        case out: False
        with False nb show ?thesis
          by (auto simp: start cleaned_count [OF clean inv p(2)])
      qed
    qed
  qed
qed

end
