(* ===== verification/PolicyDesired.thy ===== *)
theory PolicyDesired
  imports PolicyTheorems
begin

section \<open>Desired and applied enforcement (internal/policy/desired.go)\<close>

text \<open>
  From the granted policies, the ledgers and the blocks the store derives what every plugin has to
  be told: one service state per binding and one list of dynamic blocks per plugin, each with a
  revision that grows with every change. What a plugin instance has confirmed is remembered, so
  that nothing is applied twice and a status is only reported once it is in force.
\<close>

subsection \<open>Requests\<close>

record service_state_request =
  rq_policy_generation :: u64
  rq_state_revision :: u64
  rq_authorization_id :: string
  rq_service_id :: string
  rq_enabled :: bool
  rq_reason :: service_state_reason

record public_service =
  sv_plugin_id :: string
  sv_key :: string
  sv_request :: service_state_request
  sv_orphan :: bool
  sv_requires_soft_ip :: bool

record replace_blocks_request =
  rb_policy_generation :: u64
  rb_block_revision :: u64
  rb_blocks :: "dynamic_block list"

record public_blocks =
  pk_plugin_id :: string
  pk_request :: replace_blocks_request

subsection \<open>Enforcement\<close>

definition enforcement_state ::
    "authorization_policy \<Rightarrow> ledger_state \<Rightarrow> time \<Rightarrow> bool \<times> service_state_reason" where
  "enforcement_state policy ledger now =
     (if \<not> ap_enabled policy then (False, ReasonAdministratorDisabled)
      else if (case ap_expires_at policy of None \<Rightarrow> False | Some e \<Rightarrow> \<not> now < e) then (False, ReasonExpired)
      else (case ap_traffic_limit_bytes policy of
              None \<Rightarrow> (True, ReasonActive)
            | Some limit \<Rightarrow>
                if limit \<le> ls_upload_bytes ledger \<or> limit - ls_upload_bytes ledger \<le> ls_download_bytes ledger
                then (False, ReasonQuotaExceeded)
                else (True, ReasonActive)))"

definition public_desired_service :: "desired_service \<Rightarrow> public_service" where
  "public_desired_service d =
     \<lparr>sv_plugin_id = ds_plugin_id d,
      sv_key = service_key (ds_plugin_id d) (ds_authorization_id d) (ds_service_id d),
      sv_request = \<lparr>rq_policy_generation = ds_policy_generation d, rq_state_revision = ds_state_revision d,
                    rq_authorization_id = ds_authorization_id d, rq_service_id = ds_service_id d,
                    rq_enabled = ds_enabled d, rq_reason = ds_reason d\<rparr>,
      sv_orphan = ds_orphan d, sv_requires_soft_ip = False\<rparr>"

definition desired_service_from_request :: "string \<Rightarrow> service_state_request \<Rightarrow> bool \<Rightarrow> desired_service" where
  "desired_service_from_request plugin_id r orphan =
     \<lparr>ds_plugin_id = plugin_id, ds_authorization_id = rq_authorization_id r, ds_service_id = rq_service_id r,
      ds_policy_generation = rq_policy_generation r, ds_state_revision = rq_state_revision r,
      ds_enabled = rq_enabled r, ds_reason = rq_reason r, ds_orphan = orphan\<rparr>"

definition same_desired_service :: "desired_service \<Rightarrow> desired_service \<Rightarrow> bool" where
  "same_desired_service a b \<longleftrightarrow>
     ds_plugin_id a = ds_plugin_id b \<and> ds_authorization_id a = ds_authorization_id b \<and>
     ds_service_id a = ds_service_id b \<and> ds_policy_generation a = ds_policy_generation b \<and>
     ds_state_revision a = ds_state_revision b \<and> ds_enabled a = ds_enabled b \<and>
     ds_reason a = ds_reason b \<and> ds_orphan a = ds_orphan b"

definition ensure_desired_service ::
    "string \<Rightarrow> desired_service \<Rightarrow> policy_db \<Rightarrow> policy_error + desired_service \<times> policy_db" where
  "ensure_desired_service key d db =
     and_then (get_json DecodeFailed (p_desired_services db) key) (\<lambda>current.
       let renew = and_then (next_revision key_state_revision db) (\<lambda>(revision, db).
             let d = d\<lparr>ds_state_revision := revision\<rparr>
             in Inr (d, db\<lparr>p_desired_services := put_json key d (p_desired_services db)\<rparr>))
       in case current of
            None \<Rightarrow> renew
          | Some c \<Rightarrow>
              if ds_policy_generation c \<noteq> ds_policy_generation d \<or> ds_enabled c \<noteq> ds_enabled d \<or>
                 ds_reason c \<noteq> ds_reason d \<or> ds_orphan c \<noteq> ds_orphan d
              then renew else Inr (c, db))"

subsection \<open>Blocks\<close>

definition unix_nano :: "time \<Rightarrow> u64" where
  "unix_nano t = word_of_int (t - unix_epoch)"

definition block_for :: "authorization_policy \<Rightarrow> string \<Rightarrow> time \<Rightarrow> policy_binding \<Rightarrow> dynamic_block" where
  "block_for policy source_ip expires_at b =
     \<lparr>db_authorization_id = ap_authorization_id policy, db_service_id = pb_service_id b,
      db_source_ip = source_ip, db_expires_at_unix_nano = unix_nano expires_at\<rparr>"

type_synonym plugin_blocks = "string \<Rightarrow> dynamic_block list"

definition append_policy_block ::
    "authorization_policy \<Rightarrow> time \<Rightarrow> string \<times> block_state json \<Rightarrow> plugin_blocks \<Rightarrow> policy_error + plugin_blocks" where
  "append_policy_block policy now e destination =
     and_then (decode DecodeFailed (snd e)) (\<lambda>state.
       if \<not> now < block_expires_at state then Inr destination
       else let source_ip = drop (length (ap_authorization_id policy) + 1) (fst e)
            in Inr (fold (\<lambda>b destination. destination(pb_plugin_id b := destination (pb_plugin_id b) @
                       [block_for policy source_ip (block_expires_at state) b])) (ap_bindings policy) destination))"

definition append_policy_blocks ::
    "policy_db \<Rightarrow> authorization_policy \<Rightarrow> time \<Rightarrow> plugin_blocks \<Rightarrow> policy_error + plugin_blocks" where
  "append_policy_blocks db policy now destination =
     fold_res (append_policy_block policy now) (seek_prefix (ap_authorization_id policy @ [nul]) (p_blocks db)) destination"

definition block_order :: "dynamic_block \<Rightarrow> string \<times> string \<times> string" where
  "block_order b = (db_authorization_id b, db_service_id b, db_source_ip b)"

definition ensure_desired_blocks ::
    "policy_sdk \<Rightarrow> string \<Rightarrow> u64 \<Rightarrow> dynamic_block list \<Rightarrow> policy_db \<Rightarrow> policy_error + replace_blocks_request \<times> policy_db" where
  "ensure_desired_blocks sdk plugin_id generation blocks db =
     (let blocks = sort_key block_order blocks
      in case sdk_blocks_digest sdk blocks of
           None \<Rightarrow> Inl EncodeFailed
         | Some digest \<Rightarrow>
           and_then (get_json DecodeFailed (p_desired_blocks db) plugin_id) (\<lambda>stored.
             let request = (\<lambda>c. \<lparr>rb_policy_generation = dk_policy_generation c,
                                 rb_block_revision = dk_block_revision c, rb_blocks = dk_blocks c\<rparr>);
                 renew = and_then (next_revision key_block_revision db) (\<lambda>(revision, db).
                   let c = \<lparr>dk_plugin_id = plugin_id, dk_policy_generation = generation, dk_block_revision = revision,
                            dk_digest = digest, dk_blocks = blocks\<rparr>
                   in Inr (request c, db\<lparr>p_desired_blocks := put_json plugin_id c (p_desired_blocks db)\<rparr>))
             in case stored of
                  None \<Rightarrow> renew
                | Some c \<Rightarrow>
                    if dk_policy_generation c \<noteq> generation \<or> dk_digest c \<noteq> digest then renew
                    else Inr (request c, db)))"

subsection \<open>Desired\<close>

record desired_acc =
  da_services :: "public_service list"
  da_blocks :: plugin_blocks
  da_plugins :: "string list"

definition desired_binding ::
    "u64 \<Rightarrow> bool \<times> service_state_reason \<Rightarrow> authorization_policy \<Rightarrow> policy_binding \<Rightarrow>
     public_service list \<times> policy_db \<Rightarrow> policy_error + public_service list \<times> policy_db" where
  "desired_binding generation state policy b acc =
     (case acc of (services, db) \<Rightarrow>
       let key = service_key (pb_plugin_id b) (ap_authorization_id policy) (pb_service_id b)
       in and_then (ensure_desired_service key
            \<lparr>ds_plugin_id = pb_plugin_id b, ds_authorization_id = ap_authorization_id policy,
             ds_service_id = pb_service_id b, ds_policy_generation = generation, ds_state_revision = 0,
             ds_enabled = fst state, ds_reason = snd state, ds_orphan = False\<rparr> db) (\<lambda>(desired, db).
            Inr (services @ [(public_desired_service desired)\<lparr>sv_requires_soft_ip := ap_soft_ip_limit policy \<noteq> None\<rparr>], db)))"

definition desired_policy ::
    "policy_sdk \<Rightarrow> time \<Rightarrow> u64 \<Rightarrow> authorization_policy \<Rightarrow> desired_acc \<times> policy_db \<Rightarrow> policy_error + desired_acc \<times> policy_db" where
  "desired_policy sdk now generation policy acc =
     (case acc of (a, db) \<Rightarrow>
       and_then (ensure_ledger sdk policy now db) (\<lambda>(ledger, db).
       and_then (fold_res (desired_binding generation (enforcement_state policy ledger now) policy)
                   (ap_bindings policy) (da_services a, db)) (\<lambda>(services, db).
         let a = a\<lparr>da_services := services\<rparr>
         in if ap_soft_ip_limit policy = None then Inr (a, db)
            else let a = a\<lparr>da_plugins := fold List.insert (map pb_plugin_id (ap_bindings policy)) (da_plugins a)\<rparr>
                 in and_then (append_policy_blocks db policy now (da_blocks a)) (\<lambda>blocks.
                      Inr (a\<lparr>da_blocks := blocks\<rparr>, db)))))"

definition desired_orphan ::
    "u64 \<Rightarrow> string \<times> desired_service json \<Rightarrow> public_service list \<times> policy_db \<Rightarrow> policy_error + public_service list \<times> policy_db" where
  "desired_orphan generation e acc =
     (case acc of (services, db) \<Rightarrow>
       and_then (decode DecodeFailed (snd e)) (\<lambda>orphan.
       and_then (ensure_desired_service (fst e)
           (orphan\<lparr>ds_policy_generation := generation, ds_enabled := False, ds_reason := ReasonAdministratorDisabled\<rparr>) db)
         (\<lambda>(desired, db). Inr (services @ [public_desired_service desired], db))))"

definition desired_plugin_blocks ::
    "policy_sdk \<Rightarrow> u64 \<Rightarrow> plugin_blocks \<Rightarrow> string \<Rightarrow> public_blocks list \<times> policy_db \<Rightarrow> policy_error + public_blocks list \<times> policy_db" where
  "desired_plugin_blocks sdk generation plugin_blocks plugin_id acc =
     (case acc of (blocks, db) \<Rightarrow>
       and_then (ensure_desired_blocks sdk plugin_id generation (plugin_blocks plugin_id) db) (\<lambda>(request, db).
         Inr (blocks @ [\<lparr>pk_plugin_id = plugin_id, pk_request = request\<rparr>], db)))"

definition desired_tx ::
    "policy_sdk \<Rightarrow> (string list \<Rightarrow> string list) \<Rightarrow> time \<Rightarrow> policy_db
     \<Rightarrow> policy_error + (public_service list \<times> public_blocks list) \<times> policy_db" where
  "desired_tx sdk iter now db =
     and_then (read_policies sdk db) (\<lambda>policies.
       let generation = policy_generation db
       in if generation = 0 then Inr (([], []), db)
          else and_then (fold_res (desired_policy sdk now generation) policies
                 (\<lparr>da_services = [], da_blocks = (\<lambda>_. []), da_plugins = []\<rparr>, db)) (\<lambda>(a, db).
            and_then (fold_res (desired_orphan generation) (p_orphans db) (da_services a, db)) (\<lambda>(services, db).
            let plugins = fold List.insert (map fst (p_desired_blocks db)) (da_plugins a)
            in and_then (fold_res (desired_plugin_blocks sdk generation (da_blocks a)) (iter plugins) ([], db))
                 (\<lambda>(blocks, db). Inr ((services, blocks), db)))))"

definition desired ::
    "policy_sdk \<Rightarrow> (string list \<Rightarrow> string list) \<Rightarrow> policy_error option \<Rightarrow> policy_error option \<Rightarrow> time \<Rightarrow> policy_db
     \<Rightarrow> (policy_error + public_service list \<times> public_blocks list) \<times> policy_db" where
  "desired sdk iter refresh_fault fault now db =
     (case refresh sdk refresh_fault now db of
        (Inl e, db) \<Rightarrow> (Inl e, db)
      | (Inr _, db) \<Rightarrow>
          (case db_update fault (desired_tx sdk iter now) db of
             (Inl e, db) \<Rightarrow> (Inl e, db)
           | (Inr (services, blocks), db) \<Rightarrow> (Inr (sort_key sv_key services, sort_key pk_plugin_id blocks), db)))"

subsection \<open>What has been applied\<close>

definition zero_desired_service :: desired_service where
  "zero_desired_service =
     \<lparr>ds_plugin_id = [], ds_authorization_id = [], ds_service_id = [], ds_policy_generation = 0,
      ds_state_revision = 0, ds_enabled = False, ds_reason = ReasonUnspecified, ds_orphan = False\<rparr>"

definition service_needs_apply :: "policy_db \<Rightarrow> public_service \<Rightarrow> string \<Rightarrow> policy_error + bool" where
  "service_needs_apply db value instance_id =
     and_then (get_json DecodeFailed (p_applied_services db) (sv_key value)) (\<lambda>stored.
       let applied = (case stored of None \<Rightarrow> \<lparr>as_instance_id = [], as_desired = zero_desired_service\<rparr> | Some a \<Rightarrow> a);
           desired = desired_service_from_request (sv_plugin_id value) (sv_request value) (sv_orphan value)
       in Inr (as_instance_id applied \<noteq> instance_id \<or> \<not> same_desired_service (as_desired applied) desired))"

definition mark_service_applied_tx ::
    "public_service \<Rightarrow> string \<Rightarrow> policy_db \<Rightarrow> policy_error + unit \<times> policy_db" where
  "mark_service_applied_tx value instance_id db =
     (let desired = desired_service_from_request (sv_plugin_id value) (sv_request value) (sv_orphan value)
      in and_then (get_json DecodeFailed (p_desired_services db) (sv_key value)) (\<lambda>current.
           if (case current of None \<Rightarrow> True | Some c \<Rightarrow> \<not> same_desired_service c desired) then Inl ServiceChanged
           else let db = db\<lparr>p_applied_services := put_json (sv_key value)
                           \<lparr>as_instance_id = instance_id, as_desired = desired\<rparr> (p_applied_services db)\<rparr>
                in Inr ((), if sv_orphan value
                            then db\<lparr>p_orphans := bucket_delete (sv_key value) (p_orphans db),
                                    p_desired_services := bucket_delete (sv_key value) (p_desired_services db)\<rparr>
                            else db)))"

definition mark_service_applied ::
    "policy_error option \<Rightarrow> public_service \<Rightarrow> string \<Rightarrow> policy_db \<Rightarrow> (policy_error + unit) \<times> policy_db" where
  "mark_service_applied fault value instance_id db = db_update fault (mark_service_applied_tx value instance_id) db"

definition zero_desired_block :: desired_block where
  "zero_desired_block =
     \<lparr>dk_plugin_id = [], dk_policy_generation = 0, dk_block_revision = 0, dk_digest = [], dk_blocks = []\<rparr>"

text \<open>The digest error is dropped here, as in the source: an unencodable list has the empty digest.\<close>

definition desired_block_from_request :: "policy_sdk \<Rightarrow> string \<Rightarrow> replace_blocks_request \<Rightarrow> desired_block" where
  "desired_block_from_request sdk plugin_id r =
     \<lparr>dk_plugin_id = plugin_id, dk_policy_generation = rb_policy_generation r, dk_block_revision = rb_block_revision r,
      dk_digest = (case sdk_blocks_digest sdk (rb_blocks r) of None \<Rightarrow> [] | Some d \<Rightarrow> d), dk_blocks = rb_blocks r\<rparr>"

definition same_desired_blocks :: "desired_block \<Rightarrow> desired_block \<Rightarrow> bool" where
  "same_desired_blocks a b \<longleftrightarrow>
     dk_plugin_id a = dk_plugin_id b \<and> dk_policy_generation a = dk_policy_generation b \<and>
     dk_block_revision a = dk_block_revision b \<and> dk_digest a = dk_digest b"

definition blocks_need_apply :: "policy_sdk \<Rightarrow> policy_db \<Rightarrow> public_blocks \<Rightarrow> string \<Rightarrow> policy_error + bool" where
  "blocks_need_apply sdk db value instance_id =
     and_then (get_json DecodeFailed (p_applied_blocks db) (pk_plugin_id value)) (\<lambda>stored.
       let applied = (case stored of None \<Rightarrow> \<lparr>ak_instance_id = [], ak_desired = zero_desired_block\<rparr> | Some a \<Rightarrow> a);
           desired = desired_block_from_request sdk (pk_plugin_id value) (pk_request value)
       in Inr (ak_instance_id applied \<noteq> instance_id \<or> \<not> same_desired_blocks (ak_desired applied) desired))"

definition mark_blocks_applied_tx ::
    "policy_sdk \<Rightarrow> public_blocks \<Rightarrow> string \<Rightarrow> policy_db \<Rightarrow> policy_error + unit \<times> policy_db" where
  "mark_blocks_applied_tx sdk value instance_id db =
     (let desired = desired_block_from_request sdk (pk_plugin_id value) (pk_request value)
      in and_then (get_json DecodeFailed (p_desired_blocks db) (pk_plugin_id value)) (\<lambda>current.
           if (case current of None \<Rightarrow> True | Some c \<Rightarrow> \<not> same_desired_blocks c desired) then Inl BlocksChanged
           else Inr ((), db\<lparr>p_applied_blocks := put_json (pk_plugin_id value)
                           \<lparr>ak_instance_id = instance_id, ak_desired = desired\<rparr> (p_applied_blocks db)\<rparr>)))"

definition mark_blocks_applied ::
    "policy_sdk \<Rightarrow> policy_error option \<Rightarrow> public_blocks \<Rightarrow> string \<Rightarrow> policy_db \<Rightarrow> (policy_error + unit) \<times> policy_db" where
  "mark_blocks_applied sdk fault value instance_id db = db_update fault (mark_blocks_applied_tx sdk value instance_id) db"

subsection \<open>Statuses\<close>

definition binding_applied ::
    "policy_db \<Rightarrow> authorization_policy \<Rightarrow> (string \<Rightarrow> string) \<Rightarrow> string list \<Rightarrow> policy_binding \<Rightarrow> policy_error + bool" where
  "binding_applied db policy instances checked b =
     (let instance_id = instances (pb_plugin_id b);
          key = service_key (pb_plugin_id b) (ap_authorization_id policy) (pb_service_id b)
      in if instance_id = [] then Inr False
      else and_then (get_json DecodeFailed (p_desired_services db) key) (\<lambda>desired.
        case desired of None \<Rightarrow> Inr False | Some d \<Rightarrow>
        and_then (get_json DecodeFailed (p_applied_services db) key) (\<lambda>applied.
        case applied of None \<Rightarrow> Inr False | Some a \<Rightarrow>
        if as_instance_id a \<noteq> instance_id \<or> \<not> same_desired_service (as_desired a) d then Inr False
        else if pb_plugin_id b \<in> set checked then Inr True
        else and_then (get_json DecodeFailed (p_desired_blocks db) (pb_plugin_id b)) (\<lambda>desired_blocks.
        case desired_blocks of None \<Rightarrow> Inr True | Some db' \<Rightarrow>
        and_then (get_json DecodeFailed (p_applied_blocks db) (pb_plugin_id b)) (\<lambda>applied_blocks.
        case applied_blocks of None \<Rightarrow> Inr False | Some ab \<Rightarrow>
        Inr (ak_instance_id ab = instance_id \<and> same_desired_blocks (ak_desired ab) db'))))))"

fun bindings_applied ::
    "policy_db \<Rightarrow> authorization_policy \<Rightarrow> (string \<Rightarrow> string) \<Rightarrow> string list \<Rightarrow> policy_binding list \<Rightarrow> policy_error + bool" where
  "bindings_applied db policy instances checked [] = Inr True"
| "bindings_applied db policy instances checked (b # bs) =
     and_then (binding_applied db policy instances checked b) (\<lambda>ok.
       if ok then bindings_applied db policy instances (pb_plugin_id b # checked) bs else Inr False)"

definition authorization_applied ::
    "policy_db \<Rightarrow> authorization_policy \<Rightarrow> (string \<Rightarrow> string) \<Rightarrow> policy_error + bool" where
  "authorization_applied db policy instances =
     and_then (map_res (\<lambda>e. decode DecodeFailed (snd e)) (p_orphans db)) (\<lambda>orphans.
       if \<exists>o' \<in> set orphans. ds_authorization_id o' = ap_authorization_id policy then Inr False
       else bindings_applied db policy instances [] (ap_bindings policy))"

definition agent_policy_reason_of :: "service_state_reason \<Rightarrow> agent_policy_reason" where
  "agent_policy_reason_of r =
     (case r of ReasonActive \<Rightarrow> PolicyReasonActive | ReasonAdministratorDisabled \<Rightarrow> PolicyReasonDisabled
      | ReasonExpired \<Rightarrow> PolicyReasonExpired | _ \<Rightarrow> PolicyReasonQuotaExceeded)"

definition count_prefix :: "string \<Rightarrow> 'v bucket \<Rightarrow> policy_error + u32" where
  "count_prefix p b =
     (let n = length (seek_prefix p b) in if 2 ^ 32 - 1 < n then Inl ActivityCountOverflow else Inr (of_nat n))"

definition activity_counts :: "policy_db \<Rightarrow> authorization_policy \<Rightarrow> policy_error + u32 \<times> u32" where
  "activity_counts db policy =
     (if ap_soft_ip_limit policy = None then Inr (0, 0)
      else let p = ap_authorization_id policy @ [nul]
           in and_then (count_prefix p (p_slots db)) (\<lambda>active.
              and_then (count_prefix p (p_blocks db)) (\<lambda>blocked. Inr (active, blocked))))"

definition status_event ::
    "u64 \<Rightarrow> authorization_policy \<Rightarrow> ledger_state \<Rightarrow> bool \<times> service_state_reason \<Rightarrow> u32 \<times> u32 \<Rightarrow> policy_status" where
  "status_event generation policy ledger state counts =
     \<lparr>st_generation = generation, st_authorization_id = ap_authorization_id policy, st_period = ls_period ledger,
      st_upload_bytes = ls_upload_bytes ledger, st_download_bytes = ls_download_bytes ledger,
      st_services_enabled = fst state, st_reason = agent_policy_reason_of (snd state),
      st_active_ip_count = fst counts, st_blocked_ip_count = snd counts\<rparr>"

definition update_status ::
    "policy_sdk \<Rightarrow> policy_status \<Rightarrow> policy_db \<Rightarrow> policy_error + policy_db" where
  "update_status sdk event db =
     (if \<not> sdk_validate_status sdk event then Inl StatusInvalid
      else case sdk_status_digest sdk event of
        None \<Rightarrow> Inl EncodeFailed
      | Some digest \<Rightarrow>
        and_then (get_json DecodeFailed (p_statuses db) (st_authorization_id event)) (\<lambda>stored.
          if (case stored of None \<Rightarrow> True | Some c \<Rightarrow> ss_digest c \<noteq> digest)
          then Inr (db\<lparr>p_statuses := put_json (st_authorization_id event)
                       \<lparr>ss_digest = digest, ss_queued = False, ss_event = event\<rparr> (p_statuses db)\<rparr>)
          else Inr db))"

definition refresh_status ::
    "policy_sdk \<Rightarrow> time \<Rightarrow> (string \<Rightarrow> string) \<Rightarrow> u64 \<Rightarrow> authorization_policy \<Rightarrow> policy_db \<Rightarrow> policy_error + policy_db" where
  "refresh_status sdk now instances generation policy db =
     and_then (authorization_applied db policy instances) (\<lambda>applied.
       if \<not> applied then Inr db
       else and_then (ensure_ledger sdk policy now db) (\<lambda>(ledger, db).
            and_then (activity_counts db policy) (\<lambda>counts.
              update_status sdk (status_event generation policy ledger (enforcement_state policy ledger now) counts) db)))"

definition refresh_statuses_tx ::
    "policy_sdk \<Rightarrow> time \<Rightarrow> (string \<Rightarrow> string) \<Rightarrow> policy_db \<Rightarrow> policy_error + unit \<times> policy_db" where
  "refresh_statuses_tx sdk now instances db =
     (let generation = policy_generation db
      in if generation = 0 then Inr ((), db)
         else and_then (read_policies sdk db) (\<lambda>policies.
              and_then (fold_res (refresh_status sdk now instances generation) policies db) (\<lambda>db. Inr ((), db))))"

definition refresh_statuses ::
    "policy_sdk \<Rightarrow> policy_error option \<Rightarrow> policy_error option \<Rightarrow> time \<Rightarrow> (string \<Rightarrow> string) \<Rightarrow> policy_db
     \<Rightarrow> (policy_error + unit) \<times> policy_db" where
  "refresh_statuses sdk refresh_fault fault now instances db =
     (case refresh sdk refresh_fault now db of
        (Inl e, db) \<Rightarrow> (Inl e, db)
      | (Inr _, db) \<Rightarrow> db_update fault (refresh_statuses_tx sdk now instances) db)"

subsection \<open>Enforcement decides on unbounded sums\<close>

lemma quota_exact:
  "limit \<le> u \<or> limit - u \<le> d \<longleftrightarrow> unat (limit :: u64) \<le> unat u + unat d"
proof (cases "limit \<le> u")
  case True
  then show ?thesis by (simp add: word_le_nat_alt)
next
  case False
  then have "u \<le> limit" "unat u < unat limit" by (simp, simp add: word_le_nat_alt)
  from unat_diff_fits [OF this(1)] this(2)
  have "unat (limit - u) = unat limit - unat u" "unat u < unat limit" by simp_all
  then show ?thesis using False by (auto simp: word_le_nat_alt)
qed

lemma same_desired_service_eq: "same_desired_service a b \<longleftrightarrow> a = b"
  by (cases a; cases b) (auto simp: same_desired_service_def)

lemma request_roundtrip:
  "desired_service_from_request (sv_plugin_id (public_desired_service d)) (sv_request (public_desired_service d))
     (sv_orphan (public_desired_service d)) = d"
  by (cases d) (simp add: desired_service_from_request_def public_desired_service_def)

subsection \<open>Revisions\<close>

definition state_revision :: "policy_db \<Rightarrow> u64" where
  "state_revision db = read_uint64 (bucket_get (p_meta db) key_state_revision)"

definition block_revision :: "policy_db \<Rightarrow> u64" where
  "block_revision db = read_uint64 (bucket_get (p_meta db) key_block_revision)"

definition service_ok :: "policy_db \<Rightarrow> string \<Rightarrow> desired_service \<Rightarrow> bool" where
  "service_ok db k d \<longleftrightarrow>
     service_named k d \<and> 0 < ds_state_revision d \<and> ds_state_revision d \<le> state_revision db \<and>
     ds_policy_generation d \<le> policy_generation db"

definition blocks_ok :: "policy_sdk \<Rightarrow> policy_db \<Rightarrow> string \<Rightarrow> desired_block \<Rightarrow> bool" where
  "blocks_ok sdk db k d \<longleftrightarrow>
     dk_plugin_id d = k \<and> 0 < dk_block_revision d \<and> dk_block_revision d \<le> block_revision db \<and>
     dk_policy_generation d \<le> policy_generation db \<and> sdk_blocks_digest sdk (dk_blocks d) = Some (dk_digest d)"

definition blocks_named :: "policy_db \<Rightarrow> string \<Rightarrow> desired_block \<Rightarrow> bool" where
  "blocks_named db k d \<longleftrightarrow>
     dk_plugin_id d = k \<and> 0 < dk_block_revision d \<and> dk_block_revision d \<le> block_revision db \<and>
     dk_policy_generation d \<le> policy_generation db"

definition desired_of :: "policy_db \<Rightarrow> string \<Rightarrow> desired_service option" where
  "desired_of db k = (case bucket_get (p_desired_services db) k of Some (Json d) \<Rightarrow> Some d | _ \<Rightarrow> None)"

definition applied_of :: "policy_db \<Rightarrow> string \<Rightarrow> applied_service option" where
  "applied_of db k = (case bucket_get (p_applied_services db) k of Some (Json d) \<Rightarrow> Some d | _ \<Rightarrow> None)"

definition desired_blocks_of :: "policy_db \<Rightarrow> string \<Rightarrow> desired_block option" where
  "desired_blocks_of db k = (case bucket_get (p_desired_blocks db) k of Some (Json d) \<Rightarrow> Some d | _ \<Rightarrow> None)"

text \<open>Every desired and applied state agrees with its key and is not newer than the revision
  counters; an applied state with the revision of the desired one is that state.\<close>

definition desired_inv :: "policy_sdk \<Rightarrow> policy_db \<Rightarrow> bool" where
  "desired_inv sdk db \<longleftrightarrow>
     state_revision db \<le> max_int64 \<and> block_revision db \<le> max_int64 \<and>
     cells_ok (service_ok db) (p_desired_services db) \<and>
     cells_ok (\<lambda>k a. service_ok db k (as_desired a)) (p_applied_services db) \<and>
     cells_ok (blocks_ok sdk db) (p_desired_blocks db) \<and>
     cells_ok (\<lambda>k a. blocks_named db k (ak_desired a)) (p_applied_blocks db) \<and>
     (\<forall>k d a. desired_of db k = Some d \<longrightarrow> applied_of db k = Some a \<longrightarrow>
        ds_state_revision (as_desired a) = ds_state_revision d \<longrightarrow> as_desired a = d)"

lemma desired_of_get: "desired_of db k = Some d \<longleftrightarrow> get_json err (p_desired_services db) k = Inr (Some d)"
  by (auto simp: desired_of_def get_json_Some_iff split: option.splits json.splits)

lemma applied_of_get: "applied_of db k = Some d \<longleftrightarrow> get_json err (p_applied_services db) k = Inr (Some d)"
  by (auto simp: applied_of_def get_json_Some_iff split: option.splits json.splits)

lemma desired_blocks_of_get:
  "desired_blocks_of db k = Some d \<longleftrightarrow> get_json err (p_desired_blocks db) k = Inr (Some d)"
  by (auto simp: desired_blocks_of_def get_json_Some_iff split: option.splits json.splits)

text \<open>How a store may change: counters never go back, and a service or block list is either left
  alone or gets a revision above every revision given out before.\<close>

definition evolves :: "policy_db \<Rightarrow> policy_db \<Rightarrow> bool" where
  "evolves db db' \<longleftrightarrow>
     policy_generation db \<le> policy_generation db' \<and> state_revision db \<le> state_revision db' \<and>
     block_revision db \<le> block_revision db' \<and>
     (\<forall>k d. desired_of db' k = Some d \<longrightarrow> desired_of db k = Some d \<or> state_revision db < ds_state_revision d) \<and>
     (\<forall>k d. desired_blocks_of db' k = Some d \<longrightarrow> desired_blocks_of db k = Some d \<or> block_revision db < dk_block_revision d)"

lemma evolves_refl [simp]: "evolves db db"
  by (simp add: evolves_def)

lemma evolves_trans: "evolves a b \<Longrightarrow> evolves b c \<Longrightarrow> evolves a c"
  unfolding evolves_def by (meson order.trans order.strict_trans1)

definition store_ok :: "policy_sdk \<Rightarrow> policy_db \<Rightarrow> bool" where
  "store_ok sdk db \<longleftrightarrow> policy_inv sdk db \<and> desired_inv sdk db"

definition good_step :: "policy_sdk \<Rightarrow> policy_db \<Rightarrow> policy_db \<Rightarrow> bool" where
  "good_step sdk db db' \<longleftrightarrow> store_ok sdk db' \<and> evolves db db'"

lemma good_step_refl: "store_ok sdk db \<Longrightarrow> good_step sdk db db"
  by (simp add: good_step_def)

lemma good_step_trans: "good_step sdk a b \<Longrightarrow> good_step sdk b c \<Longrightarrow> good_step sdk a c"
  by (auto simp: good_step_def intro: evolves_trans)

lemma next_revision_Inr:
  assumes "next_revision key db = Inr (r, db')" and "r0 = read_uint64 (bucket_get (p_meta db) key)" and "r0 \<le> max_int64"
  shows "r0 < r \<and> r \<le> max_int64 \<and> db' = db\<lparr>p_meta := put_uint64 key r (p_meta db)\<rparr>"
proof -
  from assms(1,2) have "r0 < max_int64" "r = r0 + 1" "db' = db\<lparr>p_meta := put_uint64 key r (p_meta db)\<rparr>"
    by (auto simp: next_revision_def Let_def not_le split: if_splits)
  then show ?thesis by (simp add: word_less_nat_alt word_le_nat_alt unat_add_fits)
qed

lemma ensure_desired_service_cases [consumes 1, case_names kept renewed]:
  assumes "ensure_desired_service key d db = Inr (d', db')"
  obtains "bucket_get (p_desired_services db) key = Some (Json d')" "db' = db"
      "ds_policy_generation d' = ds_policy_generation d" "ds_enabled d' = ds_enabled d"
      "ds_reason d' = ds_reason d" "ds_orphan d' = ds_orphan d"
  | revision db1 where "next_revision key_state_revision db = Inr (revision, db1)"
      "d' = d\<lparr>ds_state_revision := revision\<rparr>"
      "db' = db1\<lparr>p_desired_services := put_json key d' (p_desired_services db1)\<rparr>"
proof -
  from assms obtain current where current: "get_json DecodeFailed (p_desired_services db) key = Inr current"
    by (auto simp: ensure_desired_service_def and_then_Inr_iff)
  let ?differs = "\<lambda>c. ds_policy_generation c \<noteq> ds_policy_generation d \<or> ds_enabled c \<noteq> ds_enabled d \<or>
      ds_reason c \<noteq> ds_reason d \<or> ds_orphan c \<noteq> ds_orphan d"
  show ?thesis
  proof (cases "\<exists>c. current = Some c \<and> \<not> ?differs c")
    case True
    then obtain c where c: "current = Some c" "\<not> ?differs c" by blast
    with assms current have "d' = c" "db' = db" by (auto simp: ensure_desired_service_def Let_def)
    with c current that(1) show ?thesis by (simp add: get_json_Some_iff)
  next
    case False
    with assms current have "and_then (next_revision key_state_revision db) (\<lambda>(revision, db).
             let d = d\<lparr>ds_state_revision := revision\<rparr>
             in Inr (d, db\<lparr>p_desired_services := put_json key d (p_desired_services db)\<rparr>)) = (Inr (d', db') :: policy_error + desired_service \<times> policy_db)"
      by (cases current) (auto simp: ensure_desired_service_def Let_def)
    then show ?thesis by (auto simp: and_then_Inr_iff Let_def intro: that(2))
  qed
qed

text \<open>Giving out a revision and storing the state that carries it.\<close>

lemma revisions_put:
  "state_revision (db\<lparr>p_meta := put_uint64 key_state_revision r (p_meta db)\<rparr>) = r"
  "block_revision (db\<lparr>p_meta := put_uint64 key_state_revision r (p_meta db)\<rparr>) = block_revision db"
  "policy_generation (db\<lparr>p_meta := put_uint64 key_state_revision r (p_meta db)\<rparr>) = policy_generation db"
  "state_revision (db\<lparr>p_meta := put_uint64 key_block_revision r (p_meta db)\<rparr>) = state_revision db"
  "block_revision (db\<lparr>p_meta := put_uint64 key_block_revision r (p_meta db)\<rparr>) = r"
  "policy_generation (db\<lparr>p_meta := put_uint64 key_block_revision r (p_meta db)\<rparr>) = policy_generation db"
  by (simp_all add: state_revision_def block_revision_def policy_generation_def)

lemma revisions_updates [simp]:
  "state_revision (db\<lparr>p_desired_services := ds\<rparr>) = state_revision db"
  "block_revision (db\<lparr>p_desired_services := ds\<rparr>) = block_revision db"
  "policy_generation (db\<lparr>p_desired_services := ds\<rparr>) = policy_generation db"
  "state_revision (db\<lparr>p_desired_blocks := dk\<rparr>) = state_revision db"
  "block_revision (db\<lparr>p_desired_blocks := dk\<rparr>) = block_revision db"
  "policy_generation (db\<lparr>p_desired_blocks := dk\<rparr>) = policy_generation db"
  "state_revision (db\<lparr>p_applied_services := as\<rparr>) = state_revision db"
  "block_revision (db\<lparr>p_applied_services := as\<rparr>) = block_revision db"
  "policy_generation (db\<lparr>p_applied_services := as\<rparr>) = policy_generation db"
  "state_revision (db\<lparr>p_applied_blocks := ak\<rparr>) = state_revision db"
  "block_revision (db\<lparr>p_applied_blocks := ak\<rparr>) = block_revision db"
  "policy_generation (db\<lparr>p_applied_blocks := ak\<rparr>) = policy_generation db"
  "state_revision (db\<lparr>p_orphans := o'\<rparr>) = state_revision db"
  "block_revision (db\<lparr>p_orphans := o'\<rparr>) = block_revision db"
  "policy_generation (db\<lparr>p_orphans := o'\<rparr>) = policy_generation db"
  by (simp_all add: state_revision_def block_revision_def policy_generation_def)

lemma desired_of_put [simp]:
  "desired_of (db\<lparr>p_desired_services := put_json k d (p_desired_services db)\<rparr>) k' =
     (if k' = k then Some d else desired_of db k')"
  "desired_blocks_of (db\<lparr>p_desired_blocks := put_json k' c (p_desired_blocks db)\<rparr>) k =
     (if k = k' then Some c else desired_blocks_of db k)"
  by (simp_all add: desired_of_def desired_blocks_of_def put_json_def)

lemma service_ok_mono:
  "service_ok db k d \<Longrightarrow> state_revision db \<le> state_revision db' \<Longrightarrow> policy_generation db \<le> policy_generation db' \<Longrightarrow>
   service_ok db' k d"
  by (auto simp: service_ok_def)

lemma blocks_named_mono:
  "blocks_named db k d \<Longrightarrow> block_revision db \<le> block_revision db' \<Longrightarrow> policy_generation db \<le> policy_generation db' \<Longrightarrow>
   blocks_named db' k d"
  by (auto simp: blocks_named_def)

lemma blocks_ok_mono:
  "blocks_ok sdk db k d \<Longrightarrow> block_revision db \<le> block_revision db' \<Longrightarrow> policy_generation db \<le> policy_generation db' \<Longrightarrow>
   blocks_ok sdk db' k d"
  by (auto simp: blocks_ok_def)

lemma policy_inv_meta [simp]: "policy_inv sdk (db\<lparr>p_meta := m\<rparr>) = policy_inv sdk db"
  "policy_inv sdk (db\<lparr>p_desired_services := ds\<rparr>) = policy_inv sdk db"
  "policy_inv sdk (db\<lparr>p_applied_services := as\<rparr>) = policy_inv sdk db"
  "policy_inv sdk (db\<lparr>p_desired_blocks := dk\<rparr>) = policy_inv sdk db"
  "policy_inv sdk (db\<lparr>p_applied_blocks := ak\<rparr>) = policy_inv sdk db"
  by (simp_all add: policy_inv_def granted_keys_def)

lemma applied_of_cell:
  assumes "desired_inv sdk db" and "applied_of db k = Some a"
  shows "service_ok db k (as_desired a)"
  using assms cells_ok_get_json [of _ "p_applied_services db" DecodeFailed k a] applied_of_get [of db k a DecodeFailed]
  by (auto simp: desired_inv_def)

lemma desired_of_cell:
  assumes "desired_inv sdk db" and "desired_of db k = Some d"
  shows "service_ok db k d"
  using assms cells_ok_get_json [of _ "p_desired_services db" DecodeFailed k d] desired_of_get [of db k d DecodeFailed]
  by (auto simp: desired_inv_def)

lemma ensure_desired_service_step:
  assumes res: "ensure_desired_service key d db = Inr (d', db')" and inv: "store_ok sdk db"
    and name: "service_named key d" and gen: "ds_policy_generation d \<le> policy_generation db"
  shows "good_step sdk db db'" and "desired_of db' key = Some d'" and "granted db' = granted db"
    and "p_ledgers db' = p_ledgers db" and "p_blocks db' = p_blocks db" and "p_orphans db' = p_orphans db"
    and "policy_generation db' = policy_generation db" and "p_desired_blocks db' = p_desired_blocks db"
    and "\<And>k. k \<noteq> key \<Longrightarrow> desired_of db' k = desired_of db k" and "d' = d\<lparr>ds_state_revision := ds_state_revision d'\<rparr>"
proof -
  have dinv: "desired_inv sdk db" using inv by (simp add: store_ok_def)
  from res have "good_step sdk db db' \<and> desired_of db' key = Some d' \<and> granted db' = granted db \<and>
      p_ledgers db' = p_ledgers db \<and> p_blocks db' = p_blocks db \<and> p_orphans db' = p_orphans db \<and>
      policy_generation db' = policy_generation db \<and> p_desired_blocks db' = p_desired_blocks db \<and>
      (\<forall>k. k \<noteq> key \<longrightarrow> desired_of db' k = desired_of db k) \<and> d' = d\<lparr>ds_state_revision := ds_state_revision d'\<rparr>"
  proof (cases rule: ensure_desired_service_cases)
    case kept
    then have cur: "desired_of db key = Some d'" by (simp add: desired_of_def)
    have "service_named key d'" using desired_of_cell [OF dinv cur] by (simp add: service_ok_def)
    with name have "ds_plugin_id d' = ds_plugin_id d \<and> ds_authorization_id d' = ds_authorization_id d \<and>
        ds_service_id d' = ds_service_id d"
      unfolding service_named_def using service_key_inject by metis
    with kept cur inv show ?thesis by (cases d; cases d') (simp add: good_step_refl)
  next
    case (renewed r db1)
    let ?m = "p_meta db"
    have r: "state_revision db < r \<and> r \<le> max_int64 \<and> db1 = db\<lparr>p_meta := put_uint64 key_state_revision r (p_meta db)\<rparr>"
      using next_revision_Inr [OF renewed(1) refl] dinv by (simp add: state_revision_def desired_inv_def)
    then have db': "db' = db\<lparr>p_meta := put_uint64 key_state_revision r (p_meta db),
        p_desired_services := put_json key d' (p_desired_services db)\<rparr>"
      using renewed(3) by simp
    have revs: "state_revision db' = r" "block_revision db' = block_revision db" "policy_generation db' = policy_generation db"
      unfolding db' by (simp_all add: revisions_put)
    have "0 < r" using r by (metis word_gt_0 word_not_simps(1))
    then have sok: "service_ok db' key d'"
      using name gen r renewed(2) by (auto simp: service_ok_def service_named_def revs)
    have up: "service_ok db k e \<Longrightarrow> service_ok db' k e" and upb: "blocks_ok sdk db k c \<Longrightarrow> blocks_ok sdk db' k c"
      and upn: "blocks_named db k c \<Longrightarrow> blocks_named db' k c" for k e c
      using r by (auto intro: service_ok_mono blocks_ok_mono blocks_named_mono simp: revs)
    have des: "desired_of db' k = (if k = key then Some d' else desired_of db k)" for k
      by (simp add: db' desired_of_def put_json_def)
    have app: "applied_of db' k = applied_of db k" for k by (simp add: db' applied_of_def)
    have new: "ds_state_revision (as_desired a) \<noteq> ds_state_revision d'" if "applied_of db k = Some a" for k a
      using applied_of_cell [OF dinv that] r renewed(2) by (auto simp: service_ok_def)
    have "desired_inv sdk db'"
      unfolding desired_inv_def
    proof (intro conjI)
      show "cells_ok (service_ok db') (p_desired_services db')"
        using dinv sok up by (auto simp: db' desired_inv_def elim: cells_ok_mono intro!: cells_ok_put_json)
      show "cells_ok (\<lambda>k a. service_ok db' k (as_desired a)) (p_applied_services db')"
        using dinv up by (auto simp: db' desired_inv_def elim: cells_ok_mono)
      show "cells_ok (blocks_ok sdk db') (p_desired_blocks db')"
        using dinv upb by (auto simp: db' desired_inv_def elim: cells_ok_mono)
      show "cells_ok (\<lambda>k a. blocks_named db' k (ak_desired a)) (p_applied_blocks db')"
        using dinv upn by (auto simp: db' desired_inv_def elim: cells_ok_mono)
      show "\<forall>k d a. desired_of db' k = Some d \<longrightarrow> applied_of db' k = Some a \<longrightarrow>
          ds_state_revision (as_desired a) = ds_state_revision d \<longrightarrow> as_desired a = d"
        using dinv new by (auto simp: des app desired_inv_def)
    qed (use r dinv in \<open>simp_all add: revs desired_inv_def\<close>)
    moreover have "policy_inv sdk db'" using inv by (simp add: db' store_ok_def)
    moreover have "evolves db db'"
    proof -
      have dbs: "desired_blocks_of db' k = desired_blocks_of db k" for k by (simp add: db' desired_blocks_of_def)
      show ?thesis using r renewed(2) by (auto simp: evolves_def revs des dbs)
    qed
    ultimately show ?thesis
      using renewed(2) by (simp add: good_step_def store_ok_def des revs) (simp add: db')
  qed
  then show "good_step sdk db db'" "desired_of db' key = Some d'" "granted db' = granted db"
    "p_ledgers db' = p_ledgers db" "p_blocks db' = p_blocks db" "p_orphans db' = p_orphans db"
    "policy_generation db' = policy_generation db" "p_desired_blocks db' = p_desired_blocks db"
    "\<And>k. k \<noteq> key \<Longrightarrow> desired_of db' k = desired_of db k" "d' = d\<lparr>ds_state_revision := ds_state_revision d'\<rparr>"
    by auto
qed

lemma ensure_desired_blocks_step:
  assumes res: "ensure_desired_blocks sdk plugin_id generation blocks db = Inr (request, db')" and inv: "store_ok sdk db"
    and gen: "generation \<le> policy_generation db"
  shows "good_step sdk db db'" and "granted db' = granted db" and "p_orphans db' = p_orphans db"
    and "p_desired_services db' = p_desired_services db" and "policy_generation db' = policy_generation db"
    and "\<And>k. k \<noteq> plugin_id \<Longrightarrow> desired_blocks_of db' k = desired_blocks_of db k"
    and "\<exists>c. desired_blocks_of db' plugin_id = Some c \<and> dk_policy_generation c = generation \<and>
           sdk_blocks_digest sdk (sort_key block_order blocks) = Some (dk_digest c) \<and>
           request = \<lparr>rb_policy_generation = dk_policy_generation c, rb_block_revision = dk_block_revision c, rb_blocks = dk_blocks c\<rparr>"
proof -
  have dinv: "desired_inv sdk db" using inv by (simp add: store_ok_def)
  let ?bs = "sort_key block_order blocks"
  let ?request = "\<lambda>c. \<lparr>rb_policy_generation = dk_policy_generation c, rb_block_revision = dk_block_revision c, rb_blocks = dk_blocks c\<rparr>"
  from res obtain digest stored where digest: "sdk_blocks_digest sdk ?bs = Some digest" and
    stored: "get_json DecodeFailed (p_desired_blocks db) plugin_id = Inr stored"
    by (auto simp: ensure_desired_blocks_def Let_def and_then_Inr_iff split: option.splits)
  have "good_step sdk db db' \<and> granted db' = granted db \<and> p_orphans db' = p_orphans db \<and>
      p_desired_services db' = p_desired_services db \<and> policy_generation db' = policy_generation db \<and>
      (\<forall>k. k \<noteq> plugin_id \<longrightarrow> desired_blocks_of db' k = desired_blocks_of db k) \<and>
      (\<exists>c. desired_blocks_of db' plugin_id = Some c \<and> dk_policy_generation c = generation \<and>
           dk_digest c = digest \<and> request = ?request c)"
  proof (cases "\<exists>c. stored = Some c \<and> dk_policy_generation c = generation \<and> dk_digest c = digest")
    case True
    then obtain c where c: "stored = Some c" "dk_policy_generation c = generation" "dk_digest c = digest" by blast
    with res digest stored have "request = ?request c" "db' = db"
      by (auto simp: ensure_desired_blocks_def Let_def)
    with c stored inv show ?thesis using desired_blocks_of_get [of db plugin_id c DecodeFailed]
      by (auto simp: good_step_refl)
  next
    case False
    with res digest stored have "and_then (next_revision key_block_revision db) (\<lambda>(revision, db).
                   let c = \<lparr>dk_plugin_id = plugin_id, dk_policy_generation = generation, dk_block_revision = revision,
                            dk_digest = digest, dk_blocks = ?bs\<rparr>
                   in Inr (?request c, db\<lparr>p_desired_blocks := put_json plugin_id c (p_desired_blocks db)\<rparr>))
        = (Inr (request, db') :: policy_error + replace_blocks_request \<times> policy_db)"
      by (cases stored) (auto simp: ensure_desired_blocks_def Let_def)
    then obtain r db1 where next': "next_revision key_block_revision db = Inr (r, db1)" and
      out: "(let c = \<lparr>dk_plugin_id = plugin_id, dk_policy_generation = generation, dk_block_revision = r,
                            dk_digest = digest, dk_blocks = ?bs\<rparr>
             in request = ?request c \<and> db' = db1\<lparr>p_desired_blocks := put_json plugin_id c (p_desired_blocks db1)\<rparr>)"
      by (auto simp: and_then_Inr_iff Let_def)
    define c where "c = \<lparr>dk_plugin_id = plugin_id, dk_policy_generation = generation, dk_block_revision = r,
                            dk_digest = digest, dk_blocks = ?bs\<rparr>"
    have r: "block_revision db < r \<and> r \<le> max_int64 \<and> db1 = db\<lparr>p_meta := put_uint64 key_block_revision r (p_meta db)\<rparr>"
      using next_revision_Inr [OF next' refl] dinv by (simp add: block_revision_def desired_inv_def)
    have request: "request = ?request c" and
      db': "db' = db\<lparr>p_meta := put_uint64 key_block_revision r (p_meta db),
        p_desired_blocks := put_json plugin_id c (p_desired_blocks db)\<rparr>"
      using out r by (simp_all add: c_def Let_def)
    have revs: "state_revision db' = state_revision db" "block_revision db' = r" "policy_generation db' = policy_generation db"
      unfolding db' by (simp_all add: revisions_put)
    have "0 < r" using r by (metis word_gt_0 word_not_simps(1))
    then have bok: "blocks_ok sdk db' plugin_id c"
      using gen digest by (simp add: blocks_ok_def revs c_def)
    have up: "service_ok db k e \<Longrightarrow> service_ok db' k e" and upb: "blocks_ok sdk db k b \<Longrightarrow> blocks_ok sdk db' k b"
      and upn: "blocks_named db k b \<Longrightarrow> blocks_named db' k b" for k e b
      using r by (auto intro: service_ok_mono blocks_ok_mono blocks_named_mono simp: revs)
    have des: "desired_blocks_of db' k = (if k = plugin_id then Some c else desired_blocks_of db k)" for k
      by (simp add: db' desired_blocks_of_def put_json_def)
    have same: "desired_of db' k = desired_of db k" "applied_of db' k = applied_of db k" for k
      by (simp_all add: db' desired_of_def applied_of_def)
    have "desired_inv sdk db'"
      unfolding desired_inv_def
    proof (intro conjI)
      show "cells_ok (service_ok db') (p_desired_services db')"
        using dinv up by (auto simp: db' desired_inv_def elim: cells_ok_mono)
      show "cells_ok (\<lambda>k a. service_ok db' k (as_desired a)) (p_applied_services db')"
        using dinv up by (auto simp: db' desired_inv_def elim: cells_ok_mono)
      show "cells_ok (blocks_ok sdk db') (p_desired_blocks db')"
        using dinv upb bok by (auto simp: db' desired_inv_def elim: cells_ok_mono intro!: cells_ok_put_json)
      show "cells_ok (\<lambda>k a. blocks_named db' k (ak_desired a)) (p_applied_blocks db')"
        using dinv upn by (auto simp: db' desired_inv_def elim: cells_ok_mono)
      show "\<forall>k d a. desired_of db' k = Some d \<longrightarrow> applied_of db' k = Some a \<longrightarrow>
          ds_state_revision (as_desired a) = ds_state_revision d \<longrightarrow> as_desired a = d"
        using dinv by (auto simp: same desired_inv_def)
    qed (use r dinv in \<open>simp_all add: revs desired_inv_def\<close>)
    moreover have "policy_inv sdk db'" using inv by (simp add: db' store_ok_def)
    moreover have "evolves db db'"
      using r by (auto simp: evolves_def revs same des c_def)
    ultimately show ?thesis
      by (simp add: good_step_def store_ok_def des revs request) (simp add: db' c_def)
  qed
  with digest show "good_step sdk db db'" "granted db' = granted db" "p_orphans db' = p_orphans db"
    "p_desired_services db' = p_desired_services db" "policy_generation db' = policy_generation db"
    "\<And>k. k \<noteq> plugin_id \<Longrightarrow> desired_blocks_of db' k = desired_blocks_of db k"
    "\<exists>c. desired_blocks_of db' plugin_id = Some c \<and> dk_policy_generation c = generation \<and>
           sdk_blocks_digest sdk ?bs = Some (dk_digest c) \<and> request = ?request c"
    by auto
qed

text \<open>The steps of \<open>policy_inv\<close> that leave the desired and applied state and the counters alone.\<close>

definition same_enforcement :: "policy_db \<Rightarrow> policy_db \<Rightarrow> bool" where
  "same_enforcement db db' \<longleftrightarrow>
     p_meta db' = p_meta db \<and> p_desired_services db' = p_desired_services db \<and>
     p_applied_services db' = p_applied_services db \<and> p_desired_blocks db' = p_desired_blocks db \<and>
     p_applied_blocks db' = p_applied_blocks db"

lemma same_enforcement_refl [simp]: "same_enforcement db db"
  by (simp add: same_enforcement_def)

lemma same_enforcement_trans: "same_enforcement a b \<Longrightarrow> same_enforcement b c \<Longrightarrow> same_enforcement a c"
  by (simp add: same_enforcement_def)

lemma same_enforcement_inv:
  assumes "same_enforcement db db'"
  shows "desired_inv sdk db' = desired_inv sdk db" and "evolves db db'"
    and "policy_generation db' = policy_generation db"
proof -
  have "service_ok db' = service_ok db" "blocks_ok sdk db' = blocks_ok sdk db" "blocks_named db' = blocks_named db" "desired_of db' = desired_of db"
    "applied_of db' = applied_of db" "desired_blocks_of db' = desired_blocks_of db"
    "state_revision db' = state_revision db" "block_revision db' = block_revision db"
    "policy_generation db' = policy_generation db"
    using assms by (auto simp: fun_eq_iff same_enforcement_def service_ok_def blocks_ok_def blocks_named_def desired_of_def applied_of_def
        desired_blocks_of_def state_revision_def block_revision_def policy_generation_def)
  with assms show "desired_inv sdk db' = desired_inv sdk db" "evolves db db'"
    "policy_generation db' = policy_generation db"
    by (simp_all add: desired_inv_def same_enforcement_def evolves_def)
qed

lemma same_enforcement_step:
  "same_enforcement db db' \<Longrightarrow> policy_inv sdk db' \<Longrightarrow> store_ok sdk db \<Longrightarrow> good_step sdk db db'"
  by (simp add: good_step_def store_ok_def same_enforcement_inv)

lemma ensure_ledger_enforcement: "ensure_ledger sdk p now db = Inr (l, db') \<Longrightarrow> same_enforcement db db'"
  by (elim ensure_ledger_frame) (simp add: same_enforcement_def)

lemma clean_activity_enforcement: "clean_authorization_activity p now db = Inr db' \<Longrightarrow> same_enforcement db db'"
  by (auto simp: clean_authorization_activity_def Let_def and_then_Inr_iff same_enforcement_def)

lemma store_policy_enforcement: "same_enforcement db (store_policy p db)"
  by (simp add: store_policy_def same_enforcement_def)

lemma fold_res_same_enforcement:
  assumes "fold_res f xs db = Inr db'" and "\<And>x db db'. f x db = Inr db' \<Longrightarrow> same_enforcement db db'"
  shows "same_enforcement db db'"
  using assms(1)
proof (induction xs arbitrary: db)
  case (Cons x xs)
  then obtain db1 where "f x db = Inr db1" "fold_res f xs db1 = Inr db'" by (auto simp: and_then_Inr_iff)
  with assms(2) [of x db db1] Cons.IH [of db1] show ?case by (metis same_enforcement_trans)
qed simp

lemma refresh_policy_enforcement: "refresh_policy sdk now p db = Inr db' \<Longrightarrow> same_enforcement db db'"
  by (elim refresh_policy_Inr)
    (metis clean_activity_enforcement ensure_ledger_enforcement same_enforcement_trans store_policy_enforcement)

lemma refresh_tx_enforcement: "refresh_tx sdk now db = Inr (u, db') \<Longrightarrow> same_enforcement db db'"
  by (auto simp: refresh_tx_def and_then_Inr_iff intro: fold_res_same_enforcement refresh_policy_enforcement)

lemma refresh_step:
  assumes "refresh sdk fault now db = (r, db')" and "policy_sdk_ok sdk" and "store_ok sdk db"
  shows "good_step sdk db db'"
proof -
  have "policy_inv sdk db" using assms(3) by (simp add: store_ok_def)
  from refresh_cases [OF assms(1,2) this] assms(3) show ?thesis
    by (auto intro: good_step_refl same_enforcement_step refresh_tx_enforcement)
qed

end
