(* ===== verification/PolicySettled.thy ===== *)
theory PolicySettled
  imports PolicyDesired
begin

section \<open>Desired settles\<close>

text \<open>
  One evaluation of \<^verbatim>\<open>Desired\<close> leaves the store in a state where every granted binding and every
  orphaned binding has a desired service that says what the ledger demands, and a second evaluation
  at the same time answers the same and writes nothing: revisions do not churn.
\<close>

subsection \<open>Settled services\<close>

definition agrees :: "desired_service \<Rightarrow> desired_service \<Rightarrow> bool" where
  "agrees d v \<longleftrightarrow>
     ds_policy_generation d = ds_policy_generation v \<and> ds_enabled d = ds_enabled v \<and>
     ds_reason d = ds_reason v \<and> ds_orphan d = ds_orphan v"

definition settled :: "policy_db \<Rightarrow> string \<Rightarrow> desired_service \<Rightarrow> bool" where
  "settled db key v \<longleftrightarrow> (\<exists>d. desired_of db key = Some d \<and> agrees d v)"

lemma ensure_settled:
  assumes "settled db key v"
  shows "ensure_desired_service key v db = Inr (the (desired_of db key), db)"
proof -
  from assms obtain d where d: "desired_of db key = Some d" "agrees d v" by (auto simp: settled_def)
  then have "get_json DecodeFailed (p_desired_services db) key = Inr (Some d)"
    using desired_of_get by metis
  with d show ?thesis by (simp add: ensure_desired_service_def agrees_def)
qed

lemma ensure_settles:
  assumes "ensure_desired_service key v db = Inr (d, db')"
  shows "desired_of db' key = Some d" and "agrees d v" and "settled db' key v"
proof -
  have "desired_of db' key = Some d \<and> agrees d v"
    using assms by (cases rule: ensure_desired_service_cases)
      (simp_all add: desired_of_def put_json_def agrees_def)
  then show "desired_of db' key = Some d" "agrees d v" "settled db' key v" by (auto simp: settled_def)
qed

lemma ensure_others:
  assumes "ensure_desired_service key v db = Inr (d, db')" and "k \<noteq> key"
  shows "desired_of db' k = desired_of db k"
  using assms(1)
proof (cases rule: ensure_desired_service_cases)
  case (renewed r db1)
  then have "p_desired_services db1 = p_desired_services db"
    by (auto simp: next_revision_def Let_def split: if_splits)
  with renewed assms(2) show ?thesis by (simp add: desired_of_def put_json_def)
qed simp

text \<open>A settled service survives every other request that does not contradict it.\<close>

lemma ensure_keeps_settled:
  assumes "ensure_desired_service key v db = Inr (d, db')" and "settled db k w"
    and "k = key \<Longrightarrow> agrees v w"
  shows "desired_of db' k = desired_of db k" and "settled db' k w"
proof -
  show same: "desired_of db' k = desired_of db k"
  proof (cases "k = key")
    case False
    then show ?thesis by (rule ensure_others [OF assms(1)])
  next
    case True
    with assms(2,3) have "settled db key v" by (auto simp: settled_def agrees_def)
    from ensure_settled [OF this] assms(1) show ?thesis by simp
  qed
  with assms(2) show "settled db' k w" by (simp add: settled_def)
qed

subsection \<open>The bindings of one policy\<close>

definition binding_key :: "authorization_policy \<Rightarrow> policy_binding \<Rightarrow> string" where
  "binding_key p b = service_key (pb_plugin_id b) (ap_authorization_id p) (pb_service_id b)"

definition wanted :: "u64 \<Rightarrow> bool \<times> service_state_reason \<Rightarrow> authorization_policy \<Rightarrow> policy_binding \<Rightarrow> desired_service" where
  "wanted generation state p b =
     \<lparr>ds_plugin_id = pb_plugin_id b, ds_authorization_id = ap_authorization_id p, ds_service_id = pb_service_id b,
      ds_policy_generation = generation, ds_state_revision = 0, ds_enabled = fst state, ds_reason = snd state,
      ds_orphan = False\<rparr>"

definition bound_service :: "policy_db \<Rightarrow> authorization_policy \<Rightarrow> policy_binding \<Rightarrow> public_service" where
  "bound_service db p b =
     (public_desired_service (the (desired_of db (binding_key p b))))\<lparr>sv_requires_soft_ip := ap_soft_ip_limit p \<noteq> None\<rparr>"

lemma desired_binding_eq:
  "desired_binding generation state p b (services, db) =
     and_then (ensure_desired_service (binding_key p b) (wanted generation state p b) db) (\<lambda>(d, db).
       Inr (services @ [(public_desired_service d)\<lparr>sv_requires_soft_ip := ap_soft_ip_limit p \<noteq> None\<rparr>], db))"
  by (simp add: desired_binding_def binding_key_def wanted_def Let_def)

definition parts_ok :: "authorization_policy \<Rightarrow> bool" where
  "parts_ok p \<longleftrightarrow> nul_free (ap_authorization_id p) \<and>
     (\<forall>b \<in> set (ap_bindings p). nul_free (pb_plugin_id b) \<and> nul_free (pb_service_id b))"

lemma valid_parts: "policy_sdk_ok sdk \<Longrightarrow> sdk_validate_policy sdk p \<Longrightarrow> parts_ok p"
  by (auto simp: policy_sdk_ok_def parts_ok_def)

lemma wanted_named: "parts_ok p \<Longrightarrow> b \<in> set (ap_bindings p) \<Longrightarrow> service_named (binding_key p b) (wanted g s p b)"
  by (simp add: service_named_def binding_key_def wanted_def parts_ok_def)

lemma agrees_wanted [simp]: "agrees (wanted g s p b) (wanted g s p' b')"
  by (simp add: agrees_def wanted_def)

text \<open>What stays as it was while services are settled.\<close>

definition services_only :: "policy_db \<Rightarrow> policy_db \<Rightarrow> bool" where
  "services_only db db' \<longleftrightarrow>
     granted db' = granted db \<and> p_ledgers db' = p_ledgers db \<and> p_blocks db' = p_blocks db \<and>
     p_orphans db' = p_orphans db \<and> policy_generation db' = policy_generation db \<and>
     p_desired_blocks db' = p_desired_blocks db"

lemma services_only_refl [simp]: "services_only db db"
  by (simp add: services_only_def)

lemma services_only_trans: "services_only a b \<Longrightarrow> services_only b c \<Longrightarrow> services_only a c"
  by (simp add: services_only_def)

lemma bindings_fold:
  assumes "fold_res (desired_binding generation state p) bs (services, db) = Inr (services', db')"
    and "store_ok sdk db" and "parts_ok p" and "set bs \<subseteq> set (ap_bindings p)" and "generation \<le> policy_generation db"
  shows "good_step sdk db db' \<and> services_only db db' \<and>
    services' = services @ map (bound_service db' p) bs \<and>
    (\<forall>b \<in> set bs. settled db' (binding_key p b) (wanted generation state p b)) \<and>
    (\<forall>k. k \<notin> binding_key p ` set bs \<longrightarrow> desired_of db' k = desired_of db k) \<and>
    (\<forall>b0 \<in> set (ap_bindings p). settled db (binding_key p b0) (wanted generation state p b0) \<longrightarrow>
       desired_of db' (binding_key p b0) = desired_of db (binding_key p b0))"
  using assms(1,2,4,5)
proof (induction bs arbitrary: services db)
  case Nil
  then show ?case by (simp add: good_step_refl)
next
  case (Cons b bs)
  let ?k = "binding_key p b" and ?w = "wanted generation state p b"
  from Cons.prems(1) obtain d db1 where
    step: "ensure_desired_service ?k ?w db = Inr (d, db1)" and
    rest: "fold_res (desired_binding generation state p) bs
      (services @ [(public_desired_service d)\<lparr>sv_requires_soft_ip := ap_soft_ip_limit p \<noteq> None\<rparr>], db1) = Inr (services', db')"
    by (auto simp: desired_binding_eq and_then_Inr_iff)
  have b: "b \<in> set (ap_bindings p)" using Cons.prems(3) by simp
  have gen: "ds_policy_generation ?w \<le> policy_generation db" using Cons.prems(4) by (simp add: wanted_def)
  note s = ensure_desired_service_step [OF step Cons.prems(2) wanted_named [OF assms(3) b] gen]
  have only: "services_only db db1" using s(3-8) by (simp add: services_only_def)
  have ok1: "store_ok sdk db1" using s(1) by (simp add: good_step_def)
  have sub: "set bs \<subseteq> set (ap_bindings p)" using Cons.prems(3) by simp
  have gen1: "generation \<le> policy_generation db1" using Cons.prems(4) s(7) by simp
  note IH = Cons.IH [OF rest ok1 sub gen1]
  note st = ensure_settles [OF step]
  have keep: "desired_of db' ?k = Some d" using IH b st by simp
  have keys: "\<forall>b0 \<in> set (ap_bindings p). settled db (binding_key p b0) (wanted generation state p b0) \<longrightarrow>
       desired_of db' (binding_key p b0) = desired_of db (binding_key p b0)"
  proof (intro ballI impI)
    fix b0 assume b0: "b0 \<in> set (ap_bindings p)" "settled db (binding_key p b0) (wanted generation state p b0)"
    have "desired_of db1 (binding_key p b0) = desired_of db (binding_key p b0)"
      "settled db1 (binding_key p b0) (wanted generation state p b0)"
      using ensure_keeps_settled [OF step b0(2)] by simp_all
    with IH b0(1) show "desired_of db' (binding_key p b0) = desired_of db (binding_key p b0)" by simp
  qed
  have "settled db' ?k ?w" using keep st(2) by (auto simp: settled_def)
  moreover have "bound_service db' p b = (public_desired_service d)\<lparr>sv_requires_soft_ip := ap_soft_ip_limit p \<noteq> None\<rparr>"
    using keep by (simp add: bound_service_def)
  moreover have "desired_of db' k = desired_of db k" if "k \<notin> binding_key p ` set (b # bs)" for k
    using that IH s(9) by simp
  ultimately show ?case
    using IH s(1) only keys by (auto intro: good_step_trans services_only_trans)
qed

lemma bindings_settled:
  assumes "\<forall>b \<in> set bs. settled db (binding_key p b) (wanted generation state p b)"
  shows "fold_res (desired_binding generation state p) bs (services, db) = Inr (services @ map (bound_service db p) bs, db)"
  using assms
  by (induction bs arbitrary: services) (simp_all add: desired_binding_eq ensure_settled bound_service_def)

subsection \<open>All policies\<close>

text \<open>A policy's ledger is current when \<open>ensureLedger\<close> would return it unchanged.\<close>

definition current_ledger :: "policy_sdk \<Rightarrow> time \<Rightarrow> policy_db \<Rightarrow> authorization_policy \<Rightarrow> ledger_state \<Rightarrow> bool" where
  "current_ledger sdk now db p l \<longleftrightarrow> ensure_ledger sdk p now db = Inr (l, db)"

lemma current_ledger_iff:
  "current_ledger sdk now db p l \<longleftrightarrow>
   bucket_get (p_ledgers db) (ap_authorization_id p) = Some (Json l) \<and>
   (\<exists>period. sdk_current_period sdk (ap_reset p) (ap_started_at p) now = Some period \<and> per_id (ls_period l) = per_id period)"
proof
  assume h: "current_ledger sdk now db p l"
  then show "bucket_get (p_ledgers db) (ap_authorization_id p) = Some (Json l) \<and>
   (\<exists>period. sdk_current_period sdk (ap_reset p) (ap_started_at p) now = Some period \<and> per_id (ls_period l) = per_id period)"
    using ensure_ledger_get ensure_ledger_period by (force simp: current_ledger_def)
next
  assume h: "bucket_get (p_ledgers db) (ap_authorization_id p) = Some (Json l) \<and>
   (\<exists>period. sdk_current_period sdk (ap_reset p) (ap_started_at p) now = Some period \<and> per_id (ls_period l) = per_id period)"
  then have "get_json DecodeFailed (p_ledgers db) (ap_authorization_id p) = Inr (Some l)"
    by (simp add: get_json_Some_iff)
  with h show "current_ledger sdk now db p l"
    by (auto simp: current_ledger_def ensure_ledger_def Let_def)
qed

lemma ensure_ledger_current:
  assumes "ensure_ledger sdk p now db = Inr (l, db')"
  shows "current_ledger sdk now db' p l"
  using ensure_ledger_get [OF assms] ensure_ledger_period [OF assms] by (simp add: current_ledger_iff)

definition collect_policy ::
    "time \<Rightarrow> policy_db \<Rightarrow> authorization_policy \<Rightarrow> plugin_blocks \<times> string list \<Rightarrow> policy_error + plugin_blocks \<times> string list" where
  "collect_policy now db p acc =
     (if ap_soft_ip_limit p = None then Inr acc
      else and_then (append_policy_blocks db p now (fst acc)) (\<lambda>blocks.
        Inr (blocks, fold List.insert (map pb_plugin_id (ap_bindings p)) (snd acc))))"

text \<open>What a policy has to find in the store to be settled, and the services it then answers with.\<close>

definition policy_settled :: "policy_sdk \<Rightarrow> time \<Rightarrow> policy_db \<Rightarrow> authorization_policy \<Rightarrow> bool" where
  "policy_settled sdk now db p \<longleftrightarrow>
     (\<exists>l. current_ledger sdk now db p l \<and>
        (\<forall>b \<in> set (ap_bindings p). settled db (binding_key p b)
           (wanted (policy_generation db) (enforcement_state p l now) p b)))"

definition bound_services :: "policy_db \<Rightarrow> authorization_policy \<Rightarrow> public_service list" where
  "bound_services db p = map (bound_service db p) (ap_bindings p)"

lemma append_policy_blocks_cong: "p_blocks db' = p_blocks db \<Longrightarrow> append_policy_blocks db' = append_policy_blocks db"
  by (simp add: append_policy_blocks_def fun_eq_iff)

lemma collect_policy_cong: "p_blocks db' = p_blocks db \<Longrightarrow> collect_policy now db' = collect_policy now db"
  by (drule append_policy_blocks_cong) (intro ext, simp add: collect_policy_def)

lemma desired_policy_Inr:
  assumes "desired_policy sdk now generation p (a, db) = Inr (a', db')"
  obtains l db1 where "ensure_ledger sdk p now db = Inr (l, db1)"
    and "fold_res (desired_binding generation (enforcement_state p l now) p) (ap_bindings p) (da_services a, db1)
           = Inr (da_services a', db')"
    and "collect_policy now db' p (da_blocks a, da_plugins a) = Inr (da_blocks a', da_plugins a')"
proof -
  from assms obtain l db1 services where 1: "ensure_ledger sdk p now db = Inr (l, db1)"
    "fold_res (desired_binding generation (enforcement_state p l now) p) (ap_bindings p) (da_services a, db1) = Inr (services, db')"
    and 2: "if ap_soft_ip_limit p = None then a' = a\<lparr>da_services := services\<rparr>
       else \<exists>blocks. append_policy_blocks db' p now (da_blocks a) = Inr blocks \<and>
         a' = a\<lparr>da_services := services, da_plugins := fold List.insert (map pb_plugin_id (ap_bindings p)) (da_plugins a), da_blocks := blocks\<rparr>"
    by (auto simp: desired_policy_def Let_def and_then_Inr_iff split: if_splits)
  show ?thesis
  proof (cases "ap_soft_ip_limit p = None")
    case True
    with 2 have a': "a' = a\<lparr>da_services := services\<rparr>" by simp
    show ?thesis by (rule that [OF 1(1)]) (simp_all add: a' 1(2) True collect_policy_def)
  next
    case False
    with 2 obtain blocks where b: "append_policy_blocks db' p now (da_blocks a) = Inr blocks" and
      a': "a' = a\<lparr>da_services := services, da_plugins := fold List.insert (map pb_plugin_id (ap_bindings p)) (da_plugins a), da_blocks := blocks\<rparr>"
      by auto
    show ?thesis by (rule that [OF 1(1)]) (use False in \<open>auto simp: a' 1(2) b collect_policy_def\<close>)
  qed
qed

lemma ensure_ledger_services:
  assumes "ensure_ledger sdk p now db = Inr (l, db')"
  shows "desired_of db' = desired_of db" and "p_blocks db' = p_blocks db" and "p_orphans db' = p_orphans db"
    and "policy_generation db' = policy_generation db" and "p_desired_blocks db' = p_desired_blocks db"
    and "granted db' = granted db"
proof -
  obtain L P where db': "db' = db\<lparr>p_ledgers := L, p_pending := P\<rparr>" using assms by (rule ensure_ledger_frame)
  show "desired_of db' = desired_of db" "p_blocks db' = p_blocks db" "p_orphans db' = p_orphans db"
    "policy_generation db' = policy_generation db" "p_desired_blocks db' = p_desired_blocks db"
    "granted db' = granted db"
    by (simp_all add: db' fun_eq_iff desired_of_def policy_generation_def)
qed

text \<open>A settled policy stays settled while another policy is worked on.\<close>

definition policy_apart :: "policy_db \<Rightarrow> policy_db \<Rightarrow> authorization_policy \<Rightarrow> bool" where
  "policy_apart db db' q \<longleftrightarrow>
     bucket_get (p_ledgers db') (ap_authorization_id q) = bucket_get (p_ledgers db) (ap_authorization_id q) \<and>
     (\<forall>b \<in> set (ap_bindings q). desired_of db' (binding_key q b) = desired_of db (binding_key q b)) \<and>
     policy_generation db' = policy_generation db"

lemma policy_apart_settled:
  assumes "policy_apart db db' q" and "policy_settled sdk now db q"
  shows "policy_settled sdk now db' q" and "bound_services db' q = bound_services db q"
proof -
  have b: "desired_of db' (binding_key q b) = desired_of db (binding_key q b)" if "b \<in> set (ap_bindings q)" for b
    using assms(1) that by (simp add: policy_apart_def)
  then show "bound_services db' q = bound_services db q"
    by (simp add: bound_services_def bound_service_def)
  have "current_ledger sdk now db' q l = current_ledger sdk now db q l" for l
    using assms(1) by (simp add: current_ledger_iff policy_apart_def)
  moreover have "settled db' (binding_key q b) w = settled db (binding_key q b) w" if "b \<in> set (ap_bindings q)" for b w
    using b [OF that] by (simp add: settled_def)
  moreover from assms(2) obtain l where "current_ledger sdk now db q l"
    "\<forall>b \<in> set (ap_bindings q). settled db (binding_key q b) (wanted (policy_generation db) (enforcement_state q l now) q b)"
    by (auto simp: policy_settled_def)
  moreover have "policy_generation db' = policy_generation db" using assms(1) by (simp add: policy_apart_def)
  ultimately show "policy_settled sdk now db' q"
    unfolding policy_settled_def by auto
qed

lemma binding_keys_apart:
  assumes "parts_ok p" "parts_ok q" "ap_authorization_id p \<noteq> ap_authorization_id q" "b \<in> set (ap_bindings q)"
  shows "binding_key q b \<notin> binding_key p ` set bs"
proof
  assume "binding_key q b \<in> binding_key p ` set bs"
  then obtain c where c: "binding_key p c = binding_key q b" by auto
  have q: "nul_free (pb_plugin_id b)" "nul_free (ap_authorization_id q)" "nul_free (pb_service_id b)"
    using assms(2,4) by (simp_all add: parts_ok_def)
  from service_key_inject [OF q c [unfolded binding_key_def]] assms(3) show False by simp
qed

lemma desired_policy_step:
  assumes res: "desired_policy sdk now generation p (a, db) = Inr (a', db')" and ok: "policy_sdk_ok sdk"
    and inv: "store_ok sdk db" and p: "p \<in> set (granted db)" and gen: "generation = policy_generation db"
  shows "good_step sdk db db' \<and> granted db' = granted db \<and> p_blocks db' = p_blocks db \<and> p_orphans db' = p_orphans db \<and>
    p_desired_blocks db' = p_desired_blocks db \<and> policy_generation db' = policy_generation db \<and>
    da_services a' = da_services a @ bound_services db' p \<and>
    collect_policy now db p (da_blocks a, da_plugins a) = Inr (da_blocks a', da_plugins a') \<and>
    policy_settled sdk now db' p \<and>
    (\<forall>q. parts_ok q \<longrightarrow> ap_authorization_id q \<noteq> ap_authorization_id p \<longrightarrow> policy_apart db db' q) \<and>
    (\<forall>k. k \<notin> binding_key p ` set (ap_bindings p) \<longrightarrow> desired_of db' k = desired_of db k)"
proof -
  have pinv: "policy_inv sdk db" using inv by (simp add: store_ok_def)
  note cells = policy_invD(1) [OF pinv]
  have parts: "parts_ok p" using granted_cells(2) [OF cells] p valid_parts [OF ok] by blast
  have mem: "ap_authorization_id p \<in> granted_ids db" using p granted_ids_eq [OF cells] by simp
  obtain l db1 where l: "ensure_ledger sdk p now db = Inr (l, db1)" and
    fold: "fold_res (desired_binding generation (enforcement_state p l now) p) (ap_bindings p) (da_services a, db1)
           = Inr (da_services a', db')" and
    coll: "collect_policy now db' p (da_blocks a, da_plugins a) = Inr (da_blocks a', da_plugins a')"
    using res by (rule desired_policy_Inr)
  note e = ensure_ledger_services [OF l]
  have s1: "good_step sdk db db1"
    using same_enforcement_step [OF ensure_ledger_enforcement [OF l] _ inv] ensure_ledger_inv(1) [OF l pinv mem ok] by blast
  have "store_ok sdk db1" using s1 by (simp add: good_step_def)
  note f = bindings_fold [OF fold this parts subset_refl]
  have gen1: "generation \<le> policy_generation db1" using gen e(4) by simp
  note f = f [OF gen1]
  have only: "services_only db1 db'" using f by blast
  have cur: "current_ledger sdk now db' p l"
    using ensure_ledger_current [OF l] only by (simp add: current_ledger_iff services_only_def)
  have settled': "policy_settled sdk now db' p"
    unfolding policy_settled_def
    using cur f gen only e(4) by (intro exI [of _ l]) (simp add: services_only_def)
  have apart: "policy_apart db db' q" if "parts_ok q" "ap_authorization_id q \<noteq> ap_authorization_id p" for q
  proof -
    have "desired_of db' (binding_key q b) = desired_of db (binding_key q b)" if "b \<in> set (ap_bindings q)" for b
      using f binding_keys_apart [OF parts \<open>parts_ok q\<close> _ that, of "ap_bindings p"] \<open>ap_authorization_id q \<noteq> ap_authorization_id p\<close> e(1)
      by simp
    with that only e(4) ensure_ledger_others [OF l] show ?thesis
      by (simp add: policy_apart_def services_only_def)
  qed
  have "collect_policy now db' = collect_policy now db"
    using only e(2) by (intro collect_policy_cong) (simp add: services_only_def)
  with coll s1 f only settled' apart e show ?thesis
    by (auto simp: services_only_def bound_services_def intro: good_step_trans)
qed

lemma desired_policy_settled:
  assumes "policy_settled sdk now db p"
    and "collect_policy now db p (da_blocks a, da_plugins a) = Inr (blocks, plugins)"
  shows "desired_policy sdk now (policy_generation db) p (a, db) =
    Inr (\<lparr>da_services = da_services a @ bound_services db p, da_blocks = blocks, da_plugins = plugins\<rparr>, db)"
proof -
  from assms(1) obtain l where l: "ensure_ledger sdk p now db = Inr (l, db)" and
    b: "\<forall>b \<in> set (ap_bindings p). settled db (binding_key p b) (wanted (policy_generation db) (enforcement_state p l now) p b)"
    by (auto simp: policy_settled_def current_ledger_def)
  show ?thesis
    using assms(2) bindings_settled [OF b]
    by (cases a) (auto simp: desired_policy_def l collect_policy_def bound_services_def Let_def and_then_Inr_iff split: if_splits)
qed

lemma policies_fold:
  assumes "fold_res (desired_policy sdk now generation) ps (a, db) = Inr (a', db')" and ok: "policy_sdk_ok sdk"
    and "store_ok sdk db" and "set ps \<subseteq> set (granted db)" and "distinct (map ap_authorization_id ps)"
    and "generation = policy_generation db"
  shows "good_step sdk db db' \<and> granted db' = granted db \<and> p_blocks db' = p_blocks db \<and> p_orphans db' = p_orphans db \<and>
    p_desired_blocks db' = p_desired_blocks db \<and> policy_generation db' = policy_generation db \<and>
    da_services a' = da_services a @ concat (map (bound_services db') ps) \<and>
    fold_res (collect_policy now db) ps (da_blocks a, da_plugins a) = Inr (da_blocks a', da_plugins a') \<and>
    (\<forall>p \<in> set ps. policy_settled sdk now db' p) \<and>
    (\<forall>q. parts_ok q \<longrightarrow> ap_authorization_id q \<notin> ap_authorization_id ` set ps \<longrightarrow> policy_apart db db' q) \<and>
    (\<forall>k. k \<notin> set (binding_keys ps) \<longrightarrow> desired_of db' k = desired_of db k)"
  using assms(1,3-6)
proof (induction ps arbitrary: a db)
  case Nil
  then show ?case by (simp add: good_step_refl policy_apart_def)
next
  case (Cons p ps)
  obtain a1 db1 where step: "desired_policy sdk now generation p (a, db) = Inr (a1, db1)" and
    rest: "fold_res (desired_policy sdk now generation) ps (a1, db1) = Inr (a', db')"
    using Cons.prems(1) by (auto simp: and_then_Inr_iff)
  have p: "p \<in> set (granted db)" using Cons.prems(3) by simp
  note s = desired_policy_step [OF step ok Cons.prems(2) p Cons.prems(5)]
  have ok1: "store_ok sdk db1" using s by (simp add: good_step_def)
  have sub: "set ps \<subseteq> set (granted db1)" using Cons.prems(3) s by simp
  have dist: "distinct (map ap_authorization_id ps)" "ap_authorization_id p \<notin> ap_authorization_id ` set ps"
    using Cons.prems(4) by auto
  have gen1: "generation = policy_generation db1" using Cons.prems(5) s by simp
  note IH = Cons.IH [OF rest ok1 sub dist(1) gen1]
  have "sdk_validate_policy sdk p"
    using granted_cells(2) [OF policy_invD(1)] Cons.prems(2) p by (auto simp: store_ok_def)
  then have parts: "parts_ok p" by (rule valid_parts [OF ok])
  have apart: "policy_apart db1 db' p" using IH parts dist(2) by blast
  have pset: "policy_settled sdk now db' p" and pserv: "bound_services db' p = bound_services db1 p"
    using policy_apart_settled [OF apart] s by blast+
  have coll: "collect_policy now db1 = collect_policy now db" using s by (intro collect_policy_cong) simp
  have a: "good_step sdk db db'" using s IH good_step_trans by blast
  have b: "policy_apart db db' q"
    if "parts_ok q" "ap_authorization_id q \<notin> ap_authorization_id ` set (p # ps)" for q
  proof -
    have "policy_apart db db1 q" "policy_apart db1 db' q" using s IH that by auto
    then show ?thesis by (simp add: policy_apart_def)
  qed
  have c: "desired_of db' k = desired_of db k" if "k \<notin> set (binding_keys (p # ps))" for k
  proof -
    have "k \<notin> binding_key p ` set (ap_bindings p)" "k \<notin> set (binding_keys ps)"
      using that by (auto simp: in_binding_keys binding_key_def)
    with s IH show ?thesis by simp
  qed
  show ?case using s IH a b c pset pserv coll by auto
qed

lemma policies_settled:
  assumes "\<forall>p \<in> set ps. policy_settled sdk now db p"
    and "fold_res (collect_policy now db) ps (da_blocks a, da_plugins a) = Inr (blocks, plugins)"
  shows "fold_res (desired_policy sdk now (policy_generation db)) ps (a, db) =
    Inr (\<lparr>da_services = da_services a @ concat (map (bound_services db) ps), da_blocks = blocks, da_plugins = plugins\<rparr>, db)"
  using assms
proof (induction ps arbitrary: a)
  case Nil
  then show ?case by (cases a) simp
next
  case (Cons p ps)
  from Cons.prems(2) obtain bl pl where 1: "collect_policy now db p (da_blocks a, da_plugins a) = Inr (bl, pl)" and
    2: "fold_res (collect_policy now db) ps (bl, pl) = Inr (blocks, plugins)" by (auto simp: and_then_Inr_iff)
  have "policy_settled sdk now db p" using Cons.prems(1) by simp
  from desired_policy_settled [OF this 1] Cons.IH [of "\<lparr>da_services = da_services a @ bound_services db p, da_blocks = bl, da_plugins = pl\<rparr>"]
    Cons.prems(1) 2 show ?case by simp
qed

subsection \<open>Orphaned bindings\<close>

definition orphan_wanted :: "u64 \<Rightarrow> desired_service \<Rightarrow> desired_service" where
  "orphan_wanted generation d =
     d\<lparr>ds_policy_generation := generation, ds_enabled := False, ds_reason := ReasonAdministratorDisabled\<rparr>"

definition orphan_service :: "policy_db \<Rightarrow> string \<times> desired_service json \<Rightarrow> public_service" where
  "orphan_service db e = public_desired_service (the (desired_of db (fst e)))"

definition orphan_settled :: "policy_db \<Rightarrow> string \<times> desired_service json \<Rightarrow> bool" where
  "orphan_settled db e \<longleftrightarrow> (\<exists>d. snd e = Json d \<and> settled db (fst e) (orphan_wanted (policy_generation db) d))"

lemma desired_orphans_fold:
  assumes "fold_res (desired_orphan generation) es (services, db) = Inr (services', db')" and "store_ok sdk db"
    and "\<forall>e \<in> set es. \<exists>d. snd e = Json d \<and> orphan_ok (fst e) d" and "distinct (map fst es)"
    and "generation = policy_generation db"
  shows "good_step sdk db db' \<and> services_only db db' \<and>
    services' = services @ map (orphan_service db') es \<and> (\<forall>e \<in> set es. orphan_settled db' e) \<and>
    (\<forall>k. k \<notin> fst ` set es \<longrightarrow> desired_of db' k = desired_of db k)"
  using assms
proof (induction es arbitrary: services db)
  case Nil
  then show ?case by (simp add: good_step_refl)
next
  case (Cons e es)
  from Cons.prems(3) obtain o' where o': "snd e = Json o'" "orphan_ok (fst e) o'" by auto
  from Cons.prems(1) o'(1) obtain d db1 where
    step: "ensure_desired_service (fst e) (orphan_wanted generation o') db = Inr (d, db1)" and
    rest: "fold_res (desired_orphan generation) es (services @ [public_desired_service d], db1) = Inr (services', db')"
    by (auto simp: desired_orphan_def [of _ e] orphan_wanted_def and_then_Inr_iff)
  have named: "service_named (fst e) (orphan_wanted generation o')"
    using o'(2) by (simp add: orphan_ok_def service_named_def orphan_wanted_def)
  have gen: "ds_policy_generation (orphan_wanted generation o') \<le> policy_generation db"
    using Cons.prems(5) by (simp add: orphan_wanted_def)
  note s = ensure_desired_service_step [OF step Cons.prems(2) named gen]
  have only: "services_only db db1" using s(3-8) by (simp add: services_only_def)
  have ok1: "store_ok sdk db1" using s(1) by (simp add: good_step_def)
  have rest_ok: "\<forall>e \<in> set es. \<exists>d. snd e = Json d \<and> orphan_ok (fst e) d" using Cons.prems(3) by simp
  have dist: "distinct (map fst es)" "fst e \<notin> fst ` set es" using Cons.prems(4) by auto
  have gen1: "generation = policy_generation db1" using Cons.prems(5) s(7) by simp
  note IH = Cons.IH [OF rest ok1 rest_ok dist(1) gen1]
  note st = ensure_settles [OF step]
  have keep: "desired_of db' (fst e) = Some d" using IH dist(2) st(1) by simp
  then have "orphan_service db' e = public_desired_service d" by (simp add: orphan_service_def)
  moreover have "orphan_settled db' e"
    using keep st(2) o'(1) IH gen1 by (auto simp: orphan_settled_def settled_def services_only_def)
  moreover have "good_step sdk db db'" using s(1) IH good_step_trans by blast
  moreover have "services_only db db'" using only IH services_only_trans by blast
  ultimately show ?case using IH s(9) by auto
qed

lemma orphans_settled:
  assumes "\<forall>e \<in> set es. orphan_settled db e"
  shows "fold_res (desired_orphan (policy_generation db)) es (services, db) = Inr (services @ map (orphan_service db) es, db)"
  using assms
proof (induction es arbitrary: services)
  case (Cons e es)
  then obtain d where d: "snd e = Json d" "settled db (fst e) (orphan_wanted (policy_generation db) d)"
    by (auto simp: orphan_settled_def)
  have "desired_orphan (policy_generation db) e (services, db) = Inr (services @ [orphan_service db e], db)"
    using d(1) ensure_settled [OF d(2)] by (simp add: desired_orphan_def orphan_service_def flip: orphan_wanted_def)
  with Cons show ?case by simp
qed simp

subsection \<open>Block lists\<close>

definition block_settled :: "policy_sdk \<Rightarrow> policy_db \<Rightarrow> plugin_blocks \<Rightarrow> string \<Rightarrow> bool" where
  "block_settled sdk db pb plugin_id \<longleftrightarrow>
     (\<exists>c. desired_blocks_of db plugin_id = Some c \<and> dk_policy_generation c = policy_generation db \<and>
        sdk_blocks_digest sdk (sort_key block_order (pb plugin_id)) = Some (dk_digest c))"

definition block_answer :: "policy_db \<Rightarrow> string \<Rightarrow> public_blocks" where
  "block_answer db plugin_id =
     (let c = the (desired_blocks_of db plugin_id)
      in \<lparr>pk_plugin_id = plugin_id, pk_request = \<lparr>rb_policy_generation = dk_policy_generation c,
           rb_block_revision = dk_block_revision c, rb_blocks = dk_blocks c\<rparr>\<rparr>)"

lemma ensure_blocks_settled:
  assumes "block_settled sdk db pb plugin_id"
  shows "desired_plugin_blocks sdk (policy_generation db) pb plugin_id (blocks, db) = Inr (blocks @ [block_answer db plugin_id], db)"
proof -
  from assms obtain c where c: "desired_blocks_of db plugin_id = Some c" "dk_policy_generation c = policy_generation db"
    "sdk_blocks_digest sdk (sort_key block_order (pb plugin_id)) = Some (dk_digest c)"
    by (auto simp: block_settled_def)
  then have "get_json DecodeFailed (p_desired_blocks db) plugin_id = Inr (Some c)"
    using desired_blocks_of_get by metis
  with c show ?thesis
    by (simp add: desired_plugin_blocks_def ensure_desired_blocks_def block_answer_def Let_def)
qed

lemma blocks_fold:
  assumes "fold_res (desired_plugin_blocks sdk generation pb) ks (blocks, db) = Inr (blocks', db')" and "store_ok sdk db"
    and "distinct ks" and "generation = policy_generation db"
  shows "good_step sdk db db' \<and> granted db' = granted db \<and> p_orphans db' = p_orphans db \<and>
    p_desired_services db' = p_desired_services db \<and> policy_generation db' = policy_generation db \<and>
    p_ledgers db' = p_ledgers db \<and> p_blocks db' = p_blocks db \<and>
    blocks' = blocks @ map (block_answer db') ks \<and> (\<forall>k \<in> set ks. block_settled sdk db' pb k) \<and>
    (\<forall>k. k \<notin> set ks \<longrightarrow> desired_blocks_of db' k = desired_blocks_of db k)"
  using assms
proof (induction ks arbitrary: blocks db)
  case Nil
  then show ?case by (simp add: good_step_refl)
next
  case (Cons k ks)
  from Cons.prems(1) obtain request db1 where
    step: "ensure_desired_blocks sdk k generation (pb k) db = Inr (request, db1)" and
    rest: "fold_res (desired_plugin_blocks sdk generation pb) ks (blocks @ [\<lparr>pk_plugin_id = k, pk_request = request\<rparr>], db1)
      = Inr (blocks', db')"
    by (auto simp: desired_plugin_blocks_def [of _ _ _ k] and_then_Inr_iff)
  have gen: "generation \<le> policy_generation db" using Cons.prems(4) by simp
  note s = ensure_desired_blocks_step [OF step Cons.prems(2) gen]
  have frame: "p_ledgers db1 = p_ledgers db \<and> p_blocks db1 = p_blocks db"
    using step by (auto simp: ensure_desired_blocks_def Let_def and_then_Inr_iff next_revision_def split: option.splits if_splits)
  have ok1: "store_ok sdk db1" using s(1) by (simp add: good_step_def)
  have gen1: "generation = policy_generation db1" using Cons.prems(4) s(5) by simp
  have dist: "distinct ks" "k \<notin> set ks" using Cons.prems(3) by auto
  note IH = Cons.IH [OF rest ok1 dist(1) gen1]
  from s(7) obtain c where c: "desired_blocks_of db1 k = Some c" "dk_policy_generation c = generation"
    "sdk_blocks_digest sdk (sort_key block_order (pb k)) = Some (dk_digest c)"
    "request = \<lparr>rb_policy_generation = dk_policy_generation c, rb_block_revision = dk_block_revision c, rb_blocks = dk_blocks c\<rparr>"
    by blast
  have keep: "desired_blocks_of db' k = Some c" using IH dist(2) c(1) by simp
  then have "block_settled sdk db' pb k" "\<lparr>pk_plugin_id = k, pk_request = request\<rparr> = block_answer db' k"
    using c IH gen1 by (auto simp: block_settled_def block_answer_def)
  moreover have "good_step sdk db db'" using s(1) IH good_step_trans by blast
  ultimately show ?case using IH s frame by auto
qed

lemma blocks_settled:
  assumes "\<forall>k \<in> set ks. block_settled sdk db pb k"
  shows "fold_res (desired_plugin_blocks sdk (policy_generation db) pb) ks (blocks, db) = Inr (blocks @ map (block_answer db) ks, db)"
  using assms by (induction ks arbitrary: blocks) (simp_all add: ensure_blocks_settled)

lemma desired_block_keys:
  assumes "desired_inv sdk db"
  shows "fst ` set (p_desired_blocks db) = {k. desired_blocks_of db k \<noteq> None}"
proof -
  have cells: "cells_ok (blocks_ok sdk db) (p_desired_blocks db)" using assms by (simp add: desired_inv_def)
  have "k \<in> fst ` set (p_desired_blocks db) \<longleftrightarrow> bucket_get (p_desired_blocks db) k \<noteq> None" for k
    by (simp add: bucket_get_def map_of_eq_None_iff)
  moreover have "bucket_get (p_desired_blocks db) k \<noteq> None \<longleftrightarrow> desired_blocks_of db k \<noteq> None" for k
    using cells_ok_get [OF cells, of k] by (auto simp: desired_blocks_of_def split: option.splits json.splits)
  ultimately show ?thesis by blast
qed

subsection \<open>The whole transaction\<close>

definition all_services :: "policy_db \<Rightarrow> public_service list" where
  "all_services db = concat (map (bound_services db) (granted db)) @ map (orphan_service db) (p_orphans db)"

lemma set_fold_insert: "set (fold List.insert xs ys) = set xs \<union> set ys"
  by (induction xs arbitrary: ys) auto

lemma distinct_fold_insert: "distinct ys \<Longrightarrow> distinct (fold List.insert xs ys)"
  by (induction xs arbitrary: ys) (simp_all add: distinct_insert)

lemma collect_fold_distinct:
  "fold_res (collect_policy now db) ps (bl, pl) = Inr (bl', pl') \<Longrightarrow> distinct pl \<Longrightarrow> distinct pl'"
proof (induction ps arbitrary: bl pl)
  case (Cons p ps)
  then obtain bl1 pl1 where "collect_policy now db p (bl, pl) = Inr (bl1, pl1)"
    "fold_res (collect_policy now db) ps (bl1, pl1) = Inr (bl', pl')" by (auto simp: and_then_Inr_iff)
  moreover from this(1) Cons.prems(2) have "distinct pl1"
    by (auto simp: collect_policy_def and_then_Inr_iff distinct_fold_insert split: if_splits)
  ultimately show ?case using Cons.IH by blast
qed simp

lemma orphan_keys_apart:
  assumes "policy_inv sdk db" and "k \<in> fst ` set (p_orphans db)"
  shows "k \<notin> set (binding_keys (granted db))"
  using assms by (auto simp: policy_inv_def granted_keys_def)

text \<open>
  The outcome of the transaction: everything granted or orphaned is settled, and the answer is what
  the new store says about it.
\<close>

definition plugin_set :: "string list \<Rightarrow> policy_db \<Rightarrow> string set" where
  "plugin_set soft db = set soft \<union> fst ` set (p_desired_blocks db)"

definition desired_settled :: "policy_sdk \<Rightarrow> time \<Rightarrow> policy_db \<Rightarrow> plugin_blocks \<Rightarrow> string list \<Rightarrow> bool" where
  "desired_settled sdk now db bl pl \<longleftrightarrow>
     fold_res (collect_policy now db) (granted db) ((\<lambda>_. []), []) = Inr (bl, pl) \<and>
     (\<forall>p \<in> set (granted db). policy_settled sdk now db p) \<and>
     (\<forall>e \<in> set (p_orphans db). orphan_settled db e) \<and>
     (\<forall>k \<in> plugin_set pl db. block_settled sdk db bl k)"

lemma desired_tx_settles:
  assumes res: "desired_tx sdk iter now db = Inr ((services, blocks), db')" and ok: "policy_sdk_ok sdk"
    and inv: "store_ok sdk db" and iter: "any_order iter" and gen: "policy_generation db \<noteq> 0"
  shows "good_step sdk db db'" and "granted db' = granted db" and "p_orphans db' = p_orphans db"
    and "policy_generation db' = policy_generation db" and "services = all_services db'"
    and "\<exists>bl pl. desired_settled sdk now db' bl pl \<and> set blocks = block_answer db' ` plugin_set pl db' \<and>
           distinct (map pk_plugin_id blocks)"
proof -
  have pinv: "policy_inv sdk db" using inv by (simp add: store_ok_def)
  note cells = policy_invD(1) [OF pinv]
  let ?g = "policy_generation db" and ?start = "\<lparr>da_services = [], da_blocks = (\<lambda>_. []), da_plugins = []\<rparr>"
  obtain a db1 db2 where
    f1: "fold_res (desired_policy sdk now ?g) (granted db) (?start, db) = Inr (a, db1)" and
    f2: "fold_res (desired_orphan ?g) (p_orphans db1) (da_services a, db1) = Inr (services, db2)" and
    f3: "fold_res (desired_plugin_blocks sdk ?g (da_blocks a)) (iter (fold List.insert (map fst (p_desired_blocks db2)) (da_plugins a)))
           ([], db2) = Inr (blocks, db')"
    using res gen by (auto simp: desired_tx_def read_policies_granted [OF cells] and_then_Inr_iff Let_def)
  note s1 = policies_fold [OF f1 ok inv subset_refl granted_distinct [OF cells] refl]
  have ok1: "store_ok sdk db1" using s1 by (simp add: good_step_def)
  have orph: "\<forall>e \<in> set (p_orphans db1). \<exists>d. snd e = Json d \<and> orphan_ok (fst e) d" "distinct (map fst (p_orphans db1))"
    using policy_invD(2) [of sdk db1] ok1 by (auto simp: store_ok_def cells_ok_def bucket_ok_distinct)
  have g1: "?g = policy_generation db1" using s1 by simp
  note s2 = desired_orphans_fold [OF f2 ok1 orph g1]
  have ok2: "store_ok sdk db2" using s2 by (simp add: good_step_def)
  have same2: "granted db2 = granted db1" "p_ledgers db2 = p_ledgers db1" "p_blocks db2 = p_blocks db1"
    "p_orphans db2 = p_orphans db1" "policy_generation db2 = policy_generation db1" "p_desired_blocks db2 = p_desired_blocks db1"
    using s2 by (auto simp: services_only_def)
  have coll: "fold_res (collect_policy now db) (granted db) ((\<lambda>_. []), []) = Inr (da_blocks a, da_plugins a)"
    using s1 by simp
  let ?ks = "fold List.insert (map fst (p_desired_blocks db2)) (da_plugins a)"
  have dist: "distinct (iter ?ks)"
    using collect_fold_distinct [OF coll] by (simp add: any_order_distinct [OF iter] distinct_fold_insert)
  have g2: "?g = policy_generation db2" using g1 same2 by simp
  note s3 = blocks_fold [OF f3 ok2 dist g2]
  show good: "good_step sdk db db'"
    by (rule good_step_trans [OF conjunct1 [OF s1] good_step_trans [OF conjunct1 [OF s2] conjunct1 [OF s3]]])
  show granted: "granted db' = granted db" using s1 s3 same2 by simp
  show orphans: "p_orphans db' = p_orphans db" using s1 s3 same2 by simp
  show gen': "policy_generation db' = policy_generation db" using s3 g2 by simp
  have des: "desired_of db' = desired_of db2" using s3 by (simp add: desired_of_def fun_eq_iff)
  have keepb: "desired_of db2 k = desired_of db1 k" if "k \<in> set (binding_keys (granted db))" for k
  proof -
    have "k \<notin> fst ` set (p_orphans db1)"
      using orphan_keys_apart [OF pinv, of k] that s1 by auto
    with s2 show ?thesis by simp
  qed
  have apart: "policy_apart db1 db' p" if "p \<in> set (granted db)" for p
  proof -
    have "binding_key p b \<in> set (binding_keys (granted db))" if "b \<in> set (ap_bindings p)" for b
      using that \<open>p \<in> set (granted db)\<close> by (auto simp: in_binding_keys binding_key_def)
    then show ?thesis
      using keepb s3 same2 by (simp add: policy_apart_def des)
  qed
  have psettled: "\<forall>p \<in> set (granted db). policy_settled sdk now db' p \<and> bound_services db' p = bound_services db1 p"
    using policy_apart_settled [OF apart] s1 by blast
  have osettled: "\<forall>e \<in> set (p_orphans db). orphan_settled db' e"
    using s1 s2 s3 same2 by (auto simp: orphan_settled_def settled_def des)
  have serv: "services = da_services a @ map (orphan_service db2) (p_orphans db1)" using s2 by blast
  have "da_services a = concat (map (bound_services db1) (granted db))" using s1 by simp
  moreover have "map (orphan_service db2) (p_orphans db1) = map (orphan_service db') (p_orphans db')"
    using orphans s1 by (simp add: orphan_service_def des)
  ultimately show "services = all_services db'"
    using serv psettled by (simp add: all_services_def granted cong: map_cong)
  have keys: "plugin_set (da_plugins a) db' = set ?ks"
  proof -
    have dinv: "desired_inv sdk db2" "desired_inv sdk db'" using ok2 good by (auto simp: store_ok_def good_step_def)
    have set_ks: "set ?ks = set (da_plugins a) \<union> fst ` set (p_desired_blocks db2)" by (simp add: set_fold_insert Un_commute)
    have a: "desired_blocks_of db' k \<noteq> None" if "k \<in> set ?ks" for k
      using s3 that by (auto simp: block_settled_def any_order_set [OF iter])
    have b: "desired_blocks_of db' k = desired_blocks_of db2 k" if "k \<notin> set ?ks" for k
      using s3 that by (simp add: any_order_set [OF iter])
    show ?thesis
    proof (rule set_eqI)
      fix k
      show "k \<in> plugin_set (da_plugins a) db' \<longleftrightarrow> k \<in> set ?ks"
        using a [of k] b [of k] unfolding plugin_set_def desired_block_keys [OF dinv(2)] set_ks desired_block_keys [OF dinv(1)]
        by (cases "k \<in> set (da_plugins a) \<union> {k. desired_blocks_of db2 k \<noteq> None}") simp_all
    qed
  qed
  have "collect_policy now db' = collect_policy now db"
    using s1 s3 same2 by (intro collect_policy_cong) simp
  then have "desired_settled sdk now db' (da_blocks a) (da_plugins a)"
    using coll psettled osettled s3 keys granted orphans
    by (simp add: desired_settled_def any_order_set [OF iter])
  moreover have "set blocks = block_answer db' ` plugin_set (da_plugins a) db'"
    using s3 keys by (simp add: any_order_set [OF iter])
  moreover have "map pk_plugin_id blocks = iter ?ks"
    using s3 by (simp add: block_answer_def Let_def comp_def)
  ultimately show "\<exists>bl pl. desired_settled sdk now db' bl pl \<and> set blocks = block_answer db' ` plugin_set pl db' \<and>
           distinct (map pk_plugin_id blocks)"
    using dist by auto
qed

text \<open>On a settled store the transaction writes nothing and gives the same answer.\<close>

lemma desired_tx_settled:
  assumes "desired_settled sdk now db bl pl" and inv: "store_ok sdk db" and iter: "any_order iter"
    and gen: "policy_generation db \<noteq> 0"
  shows "\<exists>blocks. desired_tx sdk iter now db = Inr ((all_services db, blocks), db) \<and>
    set blocks = block_answer db ` plugin_set pl db \<and> distinct (map pk_plugin_id blocks)"
proof -
  have pinv: "policy_inv sdk db" using inv by (simp add: store_ok_def)
  let ?start = "\<lparr>da_services = [], da_blocks = (\<lambda>_. []), da_plugins = []\<rparr>"
  let ?outcome = "\<lparr>da_services = concat (map (bound_services db) (granted db)), da_blocks = bl, da_plugins = pl\<rparr>"
  let ?ks = "fold List.insert (map fst (p_desired_blocks db)) pl"
  have coll: "fold_res (collect_policy now db) (granted db) ((\<lambda>_. []), []) = Inr (bl, pl)"
    using assms(1) by (simp add: desired_settled_def)
  have f1: "fold_res (desired_policy sdk now (policy_generation db)) (granted db) (?start, db) = Inr (?outcome, db)"
    using policies_settled [of "granted db" sdk now db ?start bl pl] assms(1) coll by (simp add: desired_settled_def)
  have f2: "fold_res (desired_orphan (policy_generation db)) (p_orphans db) (concat (map (bound_services db) (granted db)), db)
      = Inr (all_services db, db)"
    using orphans_settled [of "p_orphans db" db] assms(1) by (simp add: desired_settled_def all_services_def)
  have ks: "set ?ks = plugin_set pl db" by (simp add: set_fold_insert plugin_set_def Un_commute)
  have f3: "fold_res (desired_plugin_blocks sdk (policy_generation db) bl) (iter ?ks) ([], db)
      = Inr (map (block_answer db) (iter ?ks), db)"
    using blocks_settled [of "iter ?ks" sdk db bl "[]"] assms(1) ks
    by (simp add: desired_settled_def any_order_set [OF iter])
  have "desired_tx sdk iter now db = Inr ((all_services db, map (block_answer db) (iter ?ks)), db)"
    using f1 f2 f3 gen
    by (simp add: desired_tx_def read_policies_granted [OF policy_invD(1) [OF pinv]] Let_def)
  moreover have "set (map (block_answer db) (iter ?ks)) = block_answer db ` plugin_set pl db"
    using ks by (simp add: any_order_set [OF iter])
  moreover have "distinct (map pk_plugin_id (map (block_answer db) (iter ?ks)))"
    using collect_fold_distinct [OF coll]
    by (simp add: block_answer_def Let_def comp_def any_order_distinct [OF iter] distinct_fold_insert)
  ultimately show ?thesis by blast
qed

text \<open>Refreshing twice at the same time changes nothing the second time.\<close>

lemma renew_period_again:
  "policy_sdk_ok sdk \<Longrightarrow> renew_period sdk now (renew_period sdk now p) = renew_period sdk now p"
  by (auto simp: renew_period_def policy_sdk_ok_def split: option.splits)

definition fresh_activity :: "time \<Rightarrow> policy_db \<Rightarrow> authorization_policy \<Rightarrow> bool" where
  "fresh_activity now db p \<longleftrightarrow> clean_authorization_activity p now db = Inr db"

definition policy_fresh :: "policy_sdk \<Rightarrow> time \<Rightarrow> policy_db \<Rightarrow> authorization_policy \<Rightarrow> bool" where
  "policy_fresh sdk now db p \<longleftrightarrow>
     (\<exists>period. sdk_current_period sdk (ap_reset p) (ap_started_at p) now = Some period \<and>
        sdk_same_period sdk period (ap_current_period p)) \<and>
     (\<exists>l. current_ledger sdk now db p l) \<and> fresh_activity now db p"

lemma refresh_policy_fresh: "policy_fresh sdk now db p \<Longrightarrow> refresh_policy sdk now p db = Inr db"
  by (auto simp: policy_fresh_def refresh_policy_def current_ledger_def fresh_activity_def)

lemma refresh_fresh:
  assumes "\<forall>p \<in> set (granted db). policy_fresh sdk now db p" and "policy_inv sdk db"
  shows "refresh_tx sdk now db = Inr ((), db)"
proof -
  have "fold_res (refresh_policy sdk now) ps db = Inr db" if "\<forall>p \<in> set ps. policy_fresh sdk now db p" for ps
    using that by (induction ps) (simp_all add: refresh_policy_fresh)
  with assms(1) show ?thesis
    by (simp add: refresh_tx_def read_policies_granted [OF policy_invD(1) [OF assms(2)]])
qed

lemma fresh_activity_iff:
  assumes "policy_inv sdk db"
  shows "fresh_activity now db p \<longleftrightarrow>
    (\<forall>e \<in> set (p_slots db). prefix (ap_authorization_id p @ [nul]) (fst e) \<longrightarrow> slot_live (activity_cutoff p now) (snd e)) \<and>
    (\<forall>e \<in> set (p_blocks db). prefix (ap_authorization_id p @ [nul]) (fst e) \<longrightarrow> block_live now (snd e))"
proof -
  have "db\<lparr>p_slots := S, p_blocks := B\<rparr> = db \<longleftrightarrow> S = p_slots db \<and> B = p_blocks db" for S B
    by (cases db) auto
  then show ?thesis
    using clean_activity_eq [OF policy_invD(6,7) [OF assms], of p now]
    by (simp add: fresh_activity_def filter_id_conv)
qed

lemma clean_activity_fresh:
  assumes "clean_authorization_activity p now db = Inr db'" and "policy_inv sdk db"
  shows "fresh_activity now db' p" and "fresh_activity now db q \<Longrightarrow> fresh_activity now db' q"
proof -
  note inv' = clean_activity_inv(1) [OF assms]
  have db': "p_slots db' = filter (\<lambda>e. prefix (ap_authorization_id p @ [nul]) (fst e) \<longrightarrow> slot_live (activity_cutoff p now) (snd e)) (p_slots db)"
    "p_blocks db' = filter (\<lambda>e. prefix (ap_authorization_id p @ [nul]) (fst e) \<longrightarrow> block_live now (snd e)) (p_blocks db)"
    using assms(1) clean_activity_eq [OF policy_invD(6,7) [OF assms(2)], of p now] by auto
  show "fresh_activity now db' p" by (simp add: fresh_activity_iff [OF inv'] db')
  show "fresh_activity now db q \<Longrightarrow> fresh_activity now db' q"
    by (simp add: fresh_activity_iff [OF inv'] fresh_activity_iff [OF assms(2)] db')
qed

lemma fresh_activity_cong:
  "p_slots db' = p_slots db \<Longrightarrow> p_blocks db' = p_blocks db \<Longrightarrow> policy_inv sdk db \<Longrightarrow> policy_inv sdk db' \<Longrightarrow>
   fresh_activity now db' p = fresh_activity now db p"
  by (simp add: fresh_activity_iff)

lemma fresh_activity_renew [simp]: "fresh_activity now db (renew_period sdk now p) = fresh_activity now db p"
  by (simp add: fresh_activity_def clean_authorization_activity_def)

lemma refresh_policy_makes_fresh:
  assumes res: "refresh_policy sdk now p db = Inr db'" and ok: "policy_sdk_ok sdk" and inv: "policy_inv sdk db"
    and p: "p \<in> set (granted db)"
  shows "policy_fresh sdk now db' (renew_period sdk now p)"
    and "ap_authorization_id q \<noteq> ap_authorization_id p \<Longrightarrow> policy_fresh sdk now db q \<Longrightarrow> policy_fresh sdk now db' q"
proof -
  let ?p = "renew_period sdk now p"
  note cells = policy_invD(1) [OF inv]
  obtain l db0 db1 where
    db0: "db0 = db \<and> ?p = p \<or> db0 = store_policy ?p db" and
    db1: "ensure_ledger sdk ?p now db0 = Inr (l, db1)" and
    db': "clean_authorization_activity ?p now db1 = Inr db'"
    using res by (rule refresh_policy_Inr)
  have valid: "sdk_validate_policy sdk ?p"
    using granted_cells(2) [OF cells] p by (intro renew_period_valid [OF ok]) simp
  have mem: "ap_authorization_id ?p \<in> granted_ids db" using p granted_ids_eq [OF cells] by simp
  have inv0: "policy_inv sdk db0" and ids0: "granted_ids db0 = granted_ids db"
    using db0 inv store_policy_inv [OF inv valid] p store_policy_granted(2) [OF cells mem] by auto
  have same0: "p_ledgers db0 = p_ledgers db" "p_slots db0 = p_slots db" "p_blocks db0 = p_blocks db"
    using db0 by (auto simp: store_policy_def)
  have mem0: "ap_authorization_id ?p \<in> granted_ids db0" using mem ids0 by simp
  note inv1 = ensure_ledger_inv(1) [OF db1 inv0 mem0 ok]
  obtain L P where frame: "db1 = db0\<lparr>p_ledgers := L, p_pending := P\<rparr>" using db1 by (rule ensure_ledger_frame)
  note clean = clean_activity_inv [OF db' inv1]
  have cur: "current_ledger sdk now db' ?p l"
    using ensure_ledger_current [OF db1] clean(4) by (simp add: current_ledger_iff)
  from db1 obtain period where period: "sdk_current_period sdk (ap_reset p) (ap_started_at p) now = Some period"
    using ensure_ledger_period [OF db1] by auto
  have "sdk_same_period sdk period (ap_current_period ?p)"
    using ok period by (auto simp: renew_period_def policy_sdk_ok_def)
  with cur period clean_activity_fresh(1) [OF db' inv1] show "policy_fresh sdk now db' ?p"
    by (auto simp: policy_fresh_def)
  assume q: "ap_authorization_id q \<noteq> ap_authorization_id p" "policy_fresh sdk now db q"
  have "current_ledger sdk now db' q l' = current_ledger sdk now db q l'" for l'
    using ensure_ledger_others [OF db1, of "ap_authorization_id q"] q(1) clean(4) same0 by (simp add: current_ledger_iff)
  moreover have "fresh_activity now db' q"
    using q(2) fresh_activity_cong [of db1 db sdk now q] inv inv1 same0 clean_activity_fresh(2) [OF db' inv1]
    by (simp add: policy_fresh_def frame)
  ultimately show "policy_fresh sdk now db' q" using q(2) by (simp add: policy_fresh_def)
qed

lemma refresh_fold_fresh:
  assumes "fold_res (refresh_policy sdk now) ps db = Inr db'" and ok: "policy_sdk_ok sdk" and "policy_inv sdk db"
    and "set ps \<subseteq> set (granted db)" and "distinct (map ap_authorization_id ps)"
  shows "(\<forall>p \<in> set ps. policy_fresh sdk now db' (renew_period sdk now p)) \<and>
    (\<forall>q. ap_authorization_id q \<notin> ap_authorization_id ` set ps \<longrightarrow> policy_fresh sdk now db q \<longrightarrow> policy_fresh sdk now db' q)"
  using assms(1,3-5)
proof (induction ps arbitrary: db)
  case Nil
  then show ?case by simp
next
  case (Cons p ps)
  from Cons.prems(1) obtain db1 where step: "refresh_policy sdk now p db = Inr db1"
    and rest: "fold_res (refresh_policy sdk now) ps db1 = Inr db'" by (auto simp: and_then_Inr_iff)
  have p: "p \<in> set (granted db)" using Cons.prems(3) by simp
  note eff = refresh_policy_inv [OF step ok Cons.prems(2) p]
  have others: "ap_authorization_id q \<noteq> ap_authorization_id p" if "q \<in> set ps" for q
    using Cons.prems(4) that by (metis distinct.simps(2) imageI list.set_map list.simps(9))
  have sub: "set ps \<subseteq> set (granted db1)"
    using Cons.prems(3) others unfolding eff(3) by force
  have dist: "distinct (map ap_authorization_id ps)" "ap_authorization_id p \<notin> ap_authorization_id ` set ps"
    using Cons.prems(4) by auto
  note IH = Cons.IH [OF rest eff(1) sub dist(1)]
  note s = refresh_policy_makes_fresh [OF step ok Cons.prems(2) p]
  have "policy_fresh sdk now db' (renew_period sdk now p)" using IH s(1) dist(2) by simp
  moreover have "policy_fresh sdk now db' q"
    if "ap_authorization_id q \<notin> ap_authorization_id ` set (p # ps)" "policy_fresh sdk now db q" for q
    using IH s(2) [of q] that by auto
  ultimately show ?case using IH by auto
qed

lemma refresh_makes_fresh:
  assumes "refresh_tx sdk now db = Inr (u, db')" and ok: "policy_sdk_ok sdk" and inv: "policy_inv sdk db"
  shows "\<forall>p \<in> set (granted db'). policy_fresh sdk now db' p"
proof -
  note cells = policy_invD(1) [OF inv]
  from assms(1) have "fold_res (refresh_policy sdk now) (granted db) db = Inr db'"
    by (auto simp: refresh_tx_def read_policies_granted [OF cells] and_then_Inr_iff)
  from refresh_fold_fresh [OF this ok inv subset_refl granted_distinct [OF cells]] refresh_tx_Inr [OF assms]
  show ?thesis by auto
qed

text \<open>The transaction of \<^verbatim>\<open>Desired\<close> does not touch the activity of an authorization.\<close>

definition same_slots :: "policy_db \<Rightarrow> policy_db \<Rightarrow> bool" where
  "same_slots db db' \<longleftrightarrow> p_slots db' = p_slots db \<and> p_blocks db' = p_blocks db"

lemma next_revision_slots: "next_revision key db = Inr (r, db') \<Longrightarrow> same_slots db db'"
  by (auto simp: next_revision_def Let_def same_slots_def split: if_splits)

lemma ensure_desired_service_slots: "ensure_desired_service key v db = Inr (d, db') \<Longrightarrow> same_slots db db'"
  by (cases rule: ensure_desired_service_cases) (auto simp: same_slots_def dest: next_revision_slots)

lemma desired_policy_slots:
  assumes "desired_policy sdk now generation p (a, db) = Inr (a', db')"
  shows "same_slots db db'"
proof -
  obtain l db1 where l: "ensure_ledger sdk p now db = Inr (l, db1)" and
    fold: "fold_res (desired_binding generation (enforcement_state p l now) p) (ap_bindings p) (da_services a, db1)
           = Inr (da_services a', db')"
    using assms by (rule desired_policy_Inr)
  have "same_slots db (snd (da_services a', db'))"
  proof (rule fold_res_invariant [OF fold])
    show "same_slots db (snd (da_services a, db1))"
      by (rule ensure_ledger_frame [OF l]) (simp add: same_slots_def)
    fix b s s'
    assume "same_slots db (snd s)" "desired_binding generation (enforcement_state p l now) p b s = Inr s'"
    then show "same_slots db (snd s')"
      by (cases s) (auto simp: desired_binding_eq and_then_Inr_iff same_slots_def dest: ensure_desired_service_slots)
  qed
  then show ?thesis by simp
qed

lemma desired_tx_slots:
  assumes "desired_tx sdk iter now db = Inr (r, db')"
  shows "same_slots db db'"
proof (cases "policy_generation db = 0")
  case True
  with assms show ?thesis by (auto simp: desired_tx_def and_then_Inr_iff same_slots_def)
next
  case False
  let ?g = "policy_generation db" and ?start = "\<lparr>da_services = [], da_blocks = (\<lambda>_. []), da_plugins = []\<rparr>"
  obtain ps a db1 services db2 ks blocks where
    f1: "fold_res (desired_policy sdk now ?g) ps (?start, db) = Inr (a, db1)" and
    f2: "fold_res (desired_orphan ?g) (p_orphans db1) (da_services a, db1) = Inr (services, db2)" and
    f3: "fold_res (desired_plugin_blocks sdk ?g (da_blocks a)) ks ([], db2) = Inr (blocks, db')"
    using assms False by (auto simp: desired_tx_def and_then_Inr_iff Let_def)
  have "same_slots db (snd (a, db1))"
  proof (rule fold_res_invariant [OF f1])
    fix p s s' assume "same_slots db (snd s)" "desired_policy sdk now ?g p s = Inr s'"
    then show "same_slots db (snd s')"
      by (cases s; cases s') (auto dest!: desired_policy_slots simp: same_slots_def)
  qed (simp add: same_slots_def)
  moreover have "same_slots db1 (snd (services, db2))"
  proof (rule fold_res_invariant [OF f2])
    fix e s s' assume "same_slots db1 (snd s)" "desired_orphan ?g e s = Inr s'"
    then show "same_slots db1 (snd s')"
      by (cases s) (auto simp: desired_orphan_def and_then_Inr_iff same_slots_def dest: ensure_desired_service_slots)
  qed (simp add: same_slots_def)
  moreover have "same_slots db2 (snd (blocks, db'))"
  proof (rule fold_res_invariant [OF f3])
    fix k s s' assume "same_slots db2 (snd s)" "desired_plugin_blocks sdk ?g (da_blocks a) k s = Inr s'"
    then show "same_slots db2 (snd s')"
      by (cases s) (auto simp: desired_plugin_blocks_def ensure_desired_blocks_def Let_def and_then_Inr_iff same_slots_def
          dest!: next_revision_slots split: option.splits if_splits)
  qed (simp add: same_slots_def)
  ultimately show ?thesis by (simp add: same_slots_def)
qed

lemma desired_Inr:
  assumes "desired sdk iter rf f now db = (Inr (services, blocks), db')"
  obtains db1 s b where "\<not> time_is_zero now" and "refresh_tx sdk now db = Inr ((), db1)"
    and "desired_tx sdk iter now db1 = Inr ((s, b), db')" and "services = sort_key sv_key s"
    and "blocks = sort_key pk_plugin_id b"
proof -
  from assms obtain db1 where r: "refresh sdk rf now db = (Inr (), db1)"
    by (auto simp: desired_def split: prod.splits sum.splits)
  with assms obtain s b where d: "desired_tx sdk iter now db1 = Inr ((s, b), db')"
    "services = sort_key sv_key s" "blocks = sort_key pk_plugin_id b"
    by (auto simp: desired_def db_update_Inr_iff split: prod.splits sum.splits)
  from r have "refresh_tx sdk now db = Inr ((), db1)" "\<not> time_is_zero now"
    by (auto simp: refresh_def db_update_Inr_iff split: if_splits)
  with d that show ?thesis by blast
qed

lemma sorted_by_distinct_key:
  fixes f :: "'a \<Rightarrow> 'b::linorder"
  assumes "set xs = set ys" and "distinct (map f xs)" and "distinct (map f ys)"
  shows "sort_key f xs = sort_key f ys"
proof (rule map_sorted_distinct_set_unique)
  have "distinct xs" "distinct ys" using assms(2,3) distinct_map by blast+
  show "inj_on f (set (sort_key f xs) \<union> set (sort_key f ys))"
    using assms(1,2) by (simp add: distinct_map)
  show "sorted (map f (sort_key f xs))" "sorted (map f (sort_key f ys))" by simp_all
  show "distinct (map f (sort_key f xs))" "distinct (map f (sort_key f ys))"
    using assms(2,3) \<open>distinct xs\<close> \<open>distinct ys\<close> by (simp_all add: distinct_map)
  show "set (sort_key f xs) = set (sort_key f ys)" using assms(1) by simp
qed

lemma desired_again:
  assumes res: "desired sdk iter rf f now db = (Inr (services, blocks), db')" and ok: "policy_sdk_ok sdk"
    and inv: "store_ok sdk db" and iter: "any_order iter" and iter': "any_order iter'"
  shows "desired sdk iter' None None now db' = (Inr (services, blocks), db')"
proof -
  have pinv: "policy_inv sdk db" using inv by (simp add: store_ok_def)
  obtain db1 s b where t: "\<not> time_is_zero now" and r: "refresh_tx sdk now db = Inr ((), db1)"
    and d: "desired_tx sdk iter now db1 = Inr ((s, b), db')" and out: "services = sort_key sv_key s"
      "blocks = sort_key pk_plugin_id b"
    using res by (rule desired_Inr)
  have inv1: "store_ok sdk db1"
    using same_enforcement_step [OF refresh_tx_enforcement [OF r] _ inv] refresh_tx_Inr [OF r ok pinv]
    by (simp add: good_step_def)
  have fresh1: "\<forall>p \<in> set (granted db1). policy_fresh sdk now db1 p"
    by (rule refresh_makes_fresh [OF r ok pinv])
  show ?thesis
  proof (cases "policy_generation db1 = 0")
    case True
    have pinv1: "policy_inv sdk db1" using inv1 by (simp add: store_ok_def)
    have "db' = db1 \<and> s = [] \<and> b = []"
      using d True by (auto simp: desired_tx_def and_then_Inr_iff)
    with d refresh_fresh [OF fresh1 pinv1] t out True show ?thesis
      by (simp add: desired_def refresh_def db_update_def desired_tx_def read_policies_granted [OF policy_invD(1) [OF pinv1]])
  next
    case False
    note e = desired_tx_settles [OF d ok inv1 iter False]
    have inv': "store_ok sdk db'" using e(1) by (simp add: good_step_def)
    then have pinv': "policy_inv sdk db'" by (simp add: store_ok_def)
    have pinv1: "policy_inv sdk db1" using inv1 by (simp add: store_ok_def)
    obtain bl pl where bl: "desired_settled sdk now db' bl pl" "set b = block_answer db' ` plugin_set pl db'"
      "distinct (map pk_plugin_id b)" using e(6) by blast
    have "policy_fresh sdk now db' p" if "p \<in> set (granted db')" for p
    proof -
      have "policy_fresh sdk now db1 p" using fresh1 that e(2) by simp
      moreover have "\<exists>l. current_ledger sdk now db' p l"
        using bl(1) that by (auto simp: desired_settled_def policy_settled_def)
      moreover have "fresh_activity now db' p = fresh_activity now db1 p"
        using desired_tx_slots [OF d] pinv1 pinv' by (intro fresh_activity_cong [of db' db1 sdk]) (simp_all add: same_slots_def)
      ultimately show ?thesis by (simp add: policy_fresh_def)
    qed
    then have again: "refresh_tx sdk now db' = Inr ((), db')" using refresh_fresh pinv' by blast
    have gen': "policy_generation db' \<noteq> 0" using False e(4) by simp
    obtain b' where b': "desired_tx sdk iter' now db' = Inr ((all_services db', b'), db')"
      "set b' = block_answer db' ` plugin_set pl db'" "distinct (map pk_plugin_id b')"
      using desired_tx_settled [OF bl(1) inv' iter' gen'] by blast
    have "sort_key pk_plugin_id b' = sort_key pk_plugin_id b"
      by (rule sorted_by_distinct_key) (use b' bl in simp_all)
    then show ?thesis
      using again b'(1) t e(5) out by (simp add: desired_def refresh_def db_update_def)
  qed
qed

text \<open>What a settled store holds for a granted binding, and what \<^verbatim>\<open>Desired\<close> answers about it.\<close>

lemma desired_covers_binding:
  assumes res: "desired sdk iter rf f now db = (Inr (services, blocks), db')" and ok: "policy_sdk_ok sdk"
    and inv: "store_ok sdk db" and iter: "any_order iter" and gen: "policy_generation db \<noteq> 0"
    and p: "p \<in> set (granted db')" "b \<in> set (ap_bindings p)"
  shows "\<exists>l v. ledger_of db' (ap_authorization_id p) = Some l \<and> v \<in> set services \<and> sv_key v = binding_key p b \<and>
    sv_plugin_id v = pb_plugin_id b \<and> \<not> sv_orphan v \<and> sv_requires_soft_ip v = (ap_soft_ip_limit p \<noteq> None) \<and>
    rq_policy_generation (sv_request v) = policy_generation db \<and> rq_authorization_id (sv_request v) = ap_authorization_id p \<and>
    rq_service_id (sv_request v) = pb_service_id b \<and>
    (rq_enabled (sv_request v), rq_reason (sv_request v)) = enforcement_state p l now"
proof -
  have pinv: "policy_inv sdk db" using inv by (simp add: store_ok_def)
  obtain db1 s bs where r: "refresh_tx sdk now db = Inr ((), db1)"
    and d: "desired_tx sdk iter now db1 = Inr ((s, bs), db')" and out: "services = sort_key sv_key s"
    using res by (rule desired_Inr)
  note se = refresh_tx_enforcement [OF r]
  have inv1: "store_ok sdk db1"
    using same_enforcement_step [OF se _ inv] refresh_tx_Inr [OF r ok pinv] by (simp add: good_step_def)
  have gen1: "policy_generation db1 = policy_generation db" using same_enforcement_inv(3) [OF se] .
  have gen0: "policy_generation db1 \<noteq> 0" using gen gen1 by simp
  note e = desired_tx_settles [OF d ok inv1 iter gen0]
  have inv': "policy_inv sdk db'" "desired_inv sdk db'" using e(1) by (simp_all add: good_step_def store_ok_def)
  have parts: "parts_ok p"
    using valid_parts [OF ok] granted_cells(2) [OF policy_invD(1) [OF inv'(1)]] p(1) by blast
  obtain l where l: "current_ledger sdk now db' p l"
    "settled db' (binding_key p b) (wanted (policy_generation db') (enforcement_state p l now) p b)"
    using e(6) p by (auto simp: desired_settled_def policy_settled_def)
  then obtain dd where dd: "desired_of db' (binding_key p b) = Some dd"
    "agrees dd (wanted (policy_generation db') (enforcement_state p l now) p b)"
    by (auto simp: settled_def)
  have "service_named (binding_key p b) dd"
    using desired_of_cell [OF inv'(2) dd(1)] by (simp add: service_ok_def)
  then have named: "ds_plugin_id dd = pb_plugin_id b \<and> ds_authorization_id dd = ap_authorization_id p \<and> ds_service_id dd = pb_service_id b"
    unfolding service_named_def binding_key_def using service_key_inject by metis
  let ?v = "bound_service db' p b"
  have "?v \<in> set services"
    using p out e(5) by (auto simp: all_services_def bound_services_def)
  moreover have "ledger_of db' (ap_authorization_id p) = Some l"
    using l(1) by (simp add: current_ledger_iff ledger_of_def)
  ultimately show ?thesis
    using dd named e(4) gen1
    by (intro exI [of _ l] exI [of _ ?v])
      (simp add: bound_service_def public_desired_service_def agrees_def wanted_def binding_key_def)
qed

end
