(* ===== verification/PolicyRuns.thy ===== *)
theory PolicyRuns
  imports PolicySettled
begin

section \<open>Runs of the policy store\<close>

text \<open>
  Every public operation of the policy store as a step, with or without a storage fault, and what holds
  of every run: the invariant, monotone counters, and revisions that identify the state they were
  given to. The properties of the store follow, each with a concrete instance.
\<close>

subsection \<open>Each operation is a good step\<close>

lemma db_update_good:
  assumes "db_update fault body db = (r, db')" and "store_ok sdk db"
    and "\<And>x db'. body db = Inr (x, db') \<Longrightarrow> good_step sdk db db'"
  shows "good_step sdk db db'"
proof (cases r)
  case (Inl e)
  with assms(1) have "db' = db" by (auto dest: db_update_rollback)
  with assms(2) show ?thesis by (simp add: good_step_refl)
next
  case (Inr x)
  with assms show ?thesis by (simp add: db_update_Inr_iff)
qed

lemma reconcile_good:
  assumes "policy_reconcile sdk fault cmd db = (r, db')" and ok: "policy_sdk_ok sdk" and inv: "store_ok sdk db"
  shows "good_step sdk db db'"
proof (cases "sdk_validate_command sdk cmd \<and> sdk_command_digest sdk cmd \<noteq> None")
  case False
  with assms show ?thesis by (auto simp: policy_reconcile_def good_step_refl split: if_splits)
next
  case True
  then obtain digest where d: "sdk_command_digest sdk cmd = Some digest" and valid: "sdk_validate_command sdk cmd" by auto
  have pinv: "policy_inv sdk db" using inv by (simp add: store_ok_def)
  from assms(1) d valid have "db_update fault (reconcile_tx sdk cmd digest) db = (r, db')"
    by (simp add: policy_reconcile_def)
  then show ?thesis
  proof (rule db_update_good [OF _ inv])
    fix changed db2 assume tx: "reconcile_tx sdk cmd digest db = Inr (changed, db2)"
    note c = reconcile_tx_cases [OF ok pinv valid tx]
    show "good_step sdk db db2"
    proof (cases changed)
      case False
      with c inv show ?thesis by (simp add: good_step_refl)
    next
      case True
      with c have new: "install_policies cmd digest (granted db) db = Inr db2" and lt: "policy_generation db < rc_generation cmd"
        by auto
      obtain O' Pl L P T S B C where db2: "db2 = db\<lparr>p_orphans := O', p_policies := Pl, p_ledgers := L, p_pending := P,
          p_statuses := T, p_slots := S, p_blocks := B, p_counters := C,
          p_meta := bucket_put key_snapshot_digest digest (put_uint64 key_generation (rc_generation cmd) (p_meta db))\<rparr>"
        using install_policies_frame [OF new] by blast
      have revs: "policy_generation db2 = rc_generation cmd" "state_revision db2 = state_revision db"
        "block_revision db2 = block_revision db"
        by (simp_all add: db2 policy_generation_def state_revision_def block_revision_def)
      have same: "desired_of db2 = desired_of db" "applied_of db2 = applied_of db" "desired_blocks_of db2 = desired_blocks_of db"
        by (simp_all add: db2 fun_eq_iff desired_of_def applied_of_def desired_blocks_of_def)
      have le: "policy_generation db \<le> policy_generation db2" using lt revs by simp
      have up: "service_ok db k e \<Longrightarrow> service_ok db2 k e" and upb: "blocks_ok sdk db k c \<Longrightarrow> blocks_ok sdk db2 k c"
        and upn: "blocks_named db k c \<Longrightarrow> blocks_named db2 k c" for k e c
        using le by (auto intro: service_ok_mono blocks_ok_mono blocks_named_mono simp: revs)
      have dinv: "desired_inv sdk db" using inv by (simp add: store_ok_def)
      have "desired_inv sdk db2"
        unfolding desired_inv_def
      proof (intro conjI)
        show "cells_ok (service_ok db2) (p_desired_services db2)"
          using dinv up by (auto simp: db2 desired_inv_def elim: cells_ok_mono)
        show "cells_ok (\<lambda>k a. service_ok db2 k (as_desired a)) (p_applied_services db2)"
          using dinv up by (auto simp: db2 desired_inv_def elim: cells_ok_mono)
        show "cells_ok (blocks_ok sdk db2) (p_desired_blocks db2)"
          using dinv upb by (auto simp: db2 desired_inv_def elim: cells_ok_mono)
        show "cells_ok (\<lambda>k a. blocks_named db2 k (ak_desired a)) (p_applied_blocks db2)"
          using dinv upn by (auto simp: db2 desired_inv_def elim: cells_ok_mono)
      qed (use dinv in \<open>simp_all add: revs same desired_inv_def\<close>)
      moreover have "evolves db db2" using le by (simp add: evolves_def revs same)
      ultimately show ?thesis using c by (simp add: good_step_def store_ok_def)
    qed
  qed
qed

lemma advance_cursor_good:
  assumes "advance_telemetry_cursor sdk fault plugin_id stream_id previous nxt db = (r, db')" and inv: "store_ok sdk db"
  shows "good_step sdk db db'"
proof (cases "sdk_validate_plugin_id sdk plugin_id \<and> telemetry_stream_ok stream_id \<and> \<not> (nxt < previous \<or> max_int64 < nxt)")
  case False
  with assms show ?thesis by (auto simp: advance_telemetry_cursor_def good_step_refl split: if_splits)
next
  case True
  then have "db_update fault (advance_cursor_tx plugin_id stream_id previous nxt) db = (r, db')"
    using assms(1) by (simp add: advance_telemetry_cursor_def)
  then show ?thesis
  proof (rule db_update_good [OF _ inv])
    fix u db2 assume "advance_cursor_tx plugin_id stream_id previous nxt db = Inr (u, db2)"
    then have db2: "db2 = db\<lparr>p_cursors := put_json plugin_id \<lparr>cursor_stream_id = stream_id, cursor_sequence = nxt\<rparr> (p_cursors db)\<rparr>"
      by (auto simp: advance_cursor_tx_def Let_def and_then_Inr_iff split: option.splits if_splits)
    have "same_enforcement db db2" by (simp add: db2 same_enforcement_def)
    moreover have "policy_inv sdk db2"
      using inv True by (simp add: db2 store_ok_def policy_inv_def granted_keys_def cells_ok_put_json not_less)
    ultimately show "good_step sdk db db2" using inv by (rule same_enforcement_step)
  qed
qed

lemma count_counter_enforcement:
  "count_counter plugin_id known c (deltas, db) = Inr (deltas', db') \<Longrightarrow> same_enforcement db db'"
  by (cases rule: count_counter_cases) (auto simp: same_enforcement_def)

lemma apply_delta_enforcement: "apply_delta sdk policies now deltas a db = Inr db' \<Longrightarrow> same_enforcement db db'"
  by (cases "delta_of deltas a = (0, 0)")
    (auto simp: apply_delta_zero same_enforcement_def dest!: ensure_ledger_enforcement elim!: apply_delta_Inr)

lemma apply_counters_good:
  assumes "apply_counters sdk iter fault plugin_id counters now db = (r, db')" and ok: "policy_sdk_ok sdk"
    and inv: "store_ok sdk db" and iter: "any_order iter"
  shows "good_step sdk db db'"
proof (cases "sdk_validate_plugin_id sdk plugin_id \<and> \<not> time_is_zero now")
  case False
  with assms show ?thesis by (auto simp: apply_counters_def good_step_refl split: if_splits)
next
  case True
  have pinv: "policy_inv sdk db" using inv by (simp add: store_ok_def)
  from True have "db_update fault (apply_counters_tx sdk iter plugin_id counters now) db = (r, db')"
    using assms(1) by (simp add: apply_counters_def)
  then show ?thesis
  proof (rule db_update_good [OF _ inv])
    fix u db2 assume tx: "apply_counters_tx sdk iter plugin_id counters now db = Inr (u, db2)"
    from tx obtain deltas dbc ks ps where
      "fold_res (count_counter plugin_id (binding_keys ps)) counters ([], db) = Inr (deltas, dbc)" and
      a: "fold_res (apply_delta sdk ps now deltas) ks dbc = Inr db2"
      by (auto simp: apply_counters_tx_def and_then_Inr_iff)
    from this(1) have "same_enforcement db (snd (deltas, dbc))"
    proof (rule fold_res_invariant)
      fix c s s' assume "same_enforcement db (snd s)" "count_counter plugin_id (binding_keys ps) c s = Inr s'"
      then show "same_enforcement db (snd s')"
        by (cases s; cases s') (auto dest!: count_counter_enforcement intro: same_enforcement_trans)
    qed simp
    moreover have "same_enforcement dbc db2"
      using a by (rule fold_res_same_enforcement) (rule apply_delta_enforcement)
    ultimately have "same_enforcement db db2" by (simp add: same_enforcement_def)
    then show "good_step sdk db db2"
      using apply_counters_tx_inv [OF tx ok pinv iter] inv same_enforcement_step by blast
  qed
qed

lemma observe_activity_good:
  assumes "observe_activity sdk fault a ip t db = (r, db')" and ok: "policy_sdk_ok sdk" and inv: "store_ok sdk db"
  shows "good_step sdk db db'"
proof (cases "sdk_validate_identifier sdk a \<and> sdk_canonical_ip sdk ip \<and> \<not> time_is_zero t")
  case False
  with assms show ?thesis by (auto simp: observe_activity_def good_step_refl split: if_splits)
next
  case True
  have pinv: "policy_inv sdk db" using inv by (simp add: store_ok_def)
  from True have "db_update fault (observe_activity_tx a ip t) db = (r, db')"
    using assms(1) by (simp add: observe_activity_def)
  then show ?thesis
  proof (rule db_update_good [OF _ inv])
    fix blocked db2 assume tx: "observe_activity_tx a ip t db = Inr (blocked, db2)"
    show "good_step sdk db db2"
    proof (cases "\<exists>p limit. get_json DecodeFailed (p_policies db) a = Inr (Some p) \<and> ap_soft_ip_limit p = Some limit")
      case False
      with tx have "db2 = db"
        by (auto simp: observe_activity_tx_def and_then_Inr_iff split: option.splits)
      with inv show ?thesis by (simp add: good_step_refl)
    next
      case True
      then obtain p limit where p: "get_json DecodeFailed (p_policies db) a = Inr (Some p)" and limit: "ap_soft_ip_limit p = Some limit"
        by blast
      have mem: "p \<in> set (granted db)" "ap_authorization_id p = a"
        using p get_granted [OF policy_invD(1) [OF pinv], of DecodeFailed a p] by simp_all
      obtain db1 where clean: "clean_authorization_activity p t db = Inr db1" and inv1: "policy_inv sdk db1"
        and ids: "granted_ids db1 = granted_ids db" and eq: "observe_activity_tx a ip t db =
        Inr (if (\<exists>e. blocked_until db a ip = Some e \<and> t < e) then (True, db1)
           else if ip \<in> slot_addresses db a (activity_cutoff p t) then
             (False, if (\<exists>s. bucket_get (p_slots db) (activity_key a ip) = Some (Json s) \<and> last_seen_at s < t)
                     then db1\<lparr>p_slots := put_json (activity_key a ip) \<lparr>last_seen_at = t\<rparr> (p_slots db1)\<rparr> else db1)
           else if slot_count db a (activity_cutoff p t) < unat limit
             then (False, db1\<lparr>p_slots := put_json (activity_key a ip) \<lparr>last_seen_at = t\<rparr> (p_slots db1)\<rparr>)
           else (True, db1\<lparr>p_blocks := put_json (activity_key a ip)
                    \<lparr>block_expires_at = t + duration_seconds (ap_block_duration_seconds p)\<rparr> (p_blocks db1)\<rparr>))"
        by (rule observe_tx_limited [OF ok pinv mem limit, where t = t and ip = ip])
      have a1: "a \<in> granted_ids db1"
        using mem granted_ids_eq [OF policy_invD(1) [OF pinv]] ids by auto
      have "same_enforcement db db1" by (rule clean_activity_enforcement [OF clean])
      then have "same_enforcement db db2 \<and> policy_inv sdk db2"
        using tx inv1 put_activity_inv [OF inv1 a1] unfolding eq
        by (auto simp: same_enforcement_def split: if_splits)
      with inv show ?thesis by (auto intro: same_enforcement_step)
    qed
  qed
qed

lemma pending_snapshots_good:
  assumes "pending_traffic_snapshots sdk fault now db = (r, db')" and "policy_sdk_ok sdk" and "store_ok sdk db"
  shows "good_step sdk db db'"
  using assms(1) refresh_step [OF _ assms(2,3)]
  by (auto simp: pending_traffic_snapshots_def split: prod.splits sum.splits)

lemma mark_traffic_tx_cases [consumes 1, case_names deleted old queued]:
  assumes tx: "mark_traffic_queued_tx sdk value db = Inr (u, db2)"
  obtains p where "get_json DecodeFailed (p_pending db) (traffic_key (ts_authorization_id value) (per_id (ts_period value))) = Inr (Some p)"
      "same_traffic_snapshot sdk p value"
      "db2 = db\<lparr>p_pending := bucket_delete (traffic_key (ts_authorization_id value) (per_id (ts_period value))) (p_pending db)\<rparr>"
  | l where "get_json DecodeFailed (p_pending db) (traffic_key (ts_authorization_id value) (per_id (ts_period value))) = Inr None"
      "get_json DecodeFailed (p_ledgers db) (ts_authorization_id value) = Inr (Some l)" "db2 = db"
  | l where "get_json DecodeFailed (p_pending db) (traffic_key (ts_authorization_id value) (per_id (ts_period value))) = Inr None"
      "get_json DecodeFailed (p_ledgers db) (ts_authorization_id value) = Inr (Some l)"
      "per_id (ls_period l) = per_id (ts_period value)" "ls_revision l = ts_revision value"
      "ls_upload_bytes l = ts_upload_bytes value" "ls_download_bytes l = ts_download_bytes value"
      "db2 = db\<lparr>p_ledgers := put_json (ts_authorization_id value) (l\<lparr>ls_queued_revision := ts_revision value\<rparr>) (p_ledgers db)\<rparr>"
proof -
  let ?key = "traffic_key (ts_authorization_id value) (per_id (ts_period value))"
  from tx obtain stored where stored: "get_json DecodeFailed (p_pending db) ?key = Inr stored"
    by (auto simp: mark_traffic_queued_tx_def Let_def and_then_Inr_iff)
  show ?thesis
  proof (cases stored)
    case (Some p)
    show ?thesis
    proof (cases "same_traffic_snapshot sdk p value")
      case True
      with tx stored Some that(1) show ?thesis by (simp add: mark_traffic_queued_tx_def Let_def)
    qed (use tx stored Some in \<open>simp add: mark_traffic_queued_tx_def Let_def\<close>)
  next
    case None
    from tx stored None obtain l where l: "get_json DecodeFailed (p_ledgers db) (ts_authorization_id value) = Inr (Some l)"
      by (auto simp: mark_traffic_queued_tx_def Let_def and_then_Inr_iff split: option.splits)
    let ?same = "ls_revision l = ts_revision value \<and> ls_upload_bytes l = ts_upload_bytes value \<and>
        ls_download_bytes l = ts_download_bytes value"
    have period: "per_id (ls_period l) = per_id (ts_period value)"
      using tx stored None l by (cases "per_id (ls_period l) = per_id (ts_period value)") (simp_all add: mark_traffic_queued_tx_def Let_def)
    show ?thesis
    proof (cases ?same)
      case True
      with tx stored None l period that(3) [of l] show ?thesis by (simp add: mark_traffic_queued_tx_def Let_def)
    next
      case False
      with tx stored None l period that(2) [of l] show ?thesis
        by (simp add: mark_traffic_queued_tx_def Let_def split: if_splits)
    qed
  qed
qed

lemma mark_traffic_good:
  assumes "mark_traffic_queued sdk fault value db = (r, db')" and inv: "store_ok sdk db"
  shows "good_step sdk db db'"
proof (cases "sdk_validate_snapshot sdk value")
  case False
  with assms show ?thesis by (auto simp: mark_traffic_queued_def good_step_refl)
next
  case True
  have pinv: "policy_inv sdk db" using inv by (simp add: store_ok_def)
  from True have "db_update fault (mark_traffic_queued_tx sdk value) db = (r, db')"
    using assms(1) by (simp add: mark_traffic_queued_def)
  then show ?thesis
  proof (rule db_update_good [OF _ inv])
    fix u db2 assume tx: "mark_traffic_queued_tx sdk value db = Inr (u, db2)"
    let ?a = "ts_authorization_id value"
    from tx show "good_step sdk db db2"
    proof (cases rule: mark_traffic_tx_cases)
      case (deleted p)
      then have "same_enforcement db db2" "policy_inv sdk db2"
        using pinv by (simp_all add: same_enforcement_def policy_inv_def granted_keys_def cells_ok_delete)
      with inv show ?thesis by (intro same_enforcement_step)
    next
      case (old l)
      with inv show ?thesis by (simp add: good_step_refl)
    next
      case (queued l)
      then have get: "bucket_get (p_ledgers db) ?a = Some (Json l)" by (simp add: get_json_Some_iff)
      have "ledger_ok (granted_ids db) ?a l"
        using cells_ok_get [OF policy_invD(4) [OF pinv] get] by simp
      then have "ledger_ok (granted_ids db) ?a (l\<lparr>ls_queued_revision := ts_revision value\<rparr>)"
        using queued(4) by (simp add: ledger_ok_def)
      then have "same_enforcement db db2" "policy_inv sdk db2"
        using pinv queued(7) by (simp_all add: same_enforcement_def policy_inv_def granted_keys_def cells_ok_put_json)
      with inv show ?thesis by (intro same_enforcement_step)
    qed

  qed
qed

lemma mark_status_good:
  assumes "mark_status_queued sdk fault value db = (r, db')" and inv: "store_ok sdk db"
  shows "good_step sdk db db'"
proof (cases "sdk_validate_status sdk value \<and> sdk_status_digest sdk value \<noteq> None")
  case False
  with assms show ?thesis by (auto simp: mark_status_queued_def good_step_refl split: if_splits)
next
  case True
  then obtain digest where d: "sdk_status_digest sdk value = Some digest" by auto
  have pinv: "policy_inv sdk db" using inv by (simp add: store_ok_def)
  from True d have "db_update fault (mark_status_queued_tx digest value) db = (r, db')"
    using assms(1) by (simp add: mark_status_queued_def)
  then show ?thesis
  proof (rule db_update_good [OF _ inv])
    fix u db2 assume tx: "mark_status_queued_tx digest value db = Inr (u, db2)"
    then consider "db2 = db" | s where "bucket_get (p_statuses db) (st_authorization_id value) = Some (Json s)"
      "db2 = db\<lparr>p_statuses := put_json (st_authorization_id value) (s\<lparr>ss_queued := True\<rparr>) (p_statuses db)\<rparr>"
      by (auto simp: mark_status_queued_tx_def and_then_Inr_iff get_json_Some_iff split: option.splits if_splits)
    then show "good_step sdk db db2"
    proof cases
      case 1
      with inv show ?thesis by (simp add: good_step_refl)
    next
      case (2 s)
      have "status_ok (granted_ids db) (st_authorization_id value) s"
        using cells_ok_get [OF policy_invD(8) [OF pinv] 2(1)] by simp
      then have "status_ok (granted_ids db) (st_authorization_id value) (s\<lparr>ss_queued := True\<rparr>)"
        by (simp add: status_ok_def)
      then have "same_enforcement db db2" "policy_inv sdk db2"
        using pinv 2(2) by (simp_all add: same_enforcement_def policy_inv_def granted_keys_def cells_ok_put_json)
      with inv show ?thesis by (intro same_enforcement_step)
    qed
  qed
qed

lemma desired_good:
  assumes res: "desired sdk iter rf f now db = (r, db')" and ok: "policy_sdk_ok sdk" and inv: "store_ok sdk db"
    and iter: "any_order iter"
  shows "good_step sdk db db'"
proof -
  obtain r1 db1 where r1: "refresh sdk rf now db = (r1, db1)" by force
  note g1 = refresh_step [OF r1 ok inv]
  have ok1: "store_ok sdk db1" using g1 by (simp add: good_step_def)
  show ?thesis
  proof (cases r1)
    case (Inl e)
    with res r1 g1 show ?thesis by (simp add: desired_def)
  next
    case (Inr u)
    obtain r2 db2 where r2: "db_update f (desired_tx sdk iter now) db1 = (r2, db2)" by force
    have "good_step sdk db1 db2"
    proof (rule db_update_good [OF r2 ok1])
      fix x db3 assume tx: "desired_tx sdk iter now db1 = Inr (x, db3)"
      show "good_step sdk db1 db3"
      proof (cases "policy_generation db1 = 0")
        case True
        with tx have "db3 = db1" by (auto simp: desired_tx_def and_then_Inr_iff)
        with ok1 show ?thesis by (simp add: good_step_refl)
      next
        case False
        with tx desired_tx_settles(1) [OF _ ok ok1 iter] show ?thesis by (cases x) blast
      qed
    qed
    moreover have "db' = db2"
      using res r1 r2 Inr by (auto simp: desired_def split: sum.splits prod.splits)
    ultimately show ?thesis using g1 good_step_trans by blast
  qed
qed

lemma mark_service_good:
  assumes "mark_service_applied fault value instance_id db = (r, db')" and inv: "store_ok sdk db"
  shows "good_step sdk db db'"
proof -
  from assms(1) have "db_update fault (mark_service_applied_tx value instance_id) db = (r, db')"
    by (simp add: mark_service_applied_def)
  then show ?thesis
  proof (rule db_update_good [OF _ inv])
    fix u db2 assume tx: "mark_service_applied_tx value instance_id db = Inr (u, db2)"
    let ?d = "desired_service_from_request (sv_plugin_id value) (sv_request value) (sv_orphan value)"
    let ?db1 = "db\<lparr>p_applied_services := put_json (sv_key value) \<lparr>as_instance_id = instance_id, as_desired = ?d\<rparr> (p_applied_services db)\<rparr>"
    from tx have cur: "desired_of db (sv_key value) = Some ?d" and
      db2: "db2 = (if sv_orphan value then ?db1\<lparr>p_orphans := bucket_delete (sv_key value) (p_orphans db),
              p_desired_services := bucket_delete (sv_key value) (p_desired_services db)\<rparr> else ?db1)"
      using desired_of_get [of db "sv_key value" ?d DecodeFailed]
      by (auto simp: mark_service_applied_tx_def Let_def and_then_Inr_iff same_desired_service_eq split: option.splits if_splits)
    have dinv: "desired_inv sdk db" and pinv: "policy_inv sdk db" using inv by (simp_all add: store_ok_def)
    have revs: "state_revision db2 = state_revision db" "block_revision db2 = block_revision db"
      "policy_generation db2 = policy_generation db" by (simp_all add: db2)
    have sok: "service_ok db2 = service_ok db" "blocks_ok sdk db2 = blocks_ok sdk db" "blocks_named db2 = blocks_named db"
      by (simp_all add: fun_eq_iff service_ok_def blocks_ok_def blocks_named_def revs)
    have des: "desired_of db2 k = Some e \<Longrightarrow> desired_of db k = Some e" for k e
      by (auto simp: db2 desired_of_def split: if_splits)
    have desb: "desired_blocks_of db2 = desired_blocks_of db" by (simp add: db2 desired_blocks_of_def fun_eq_iff)
    have app: "applied_of db2 k = (if k = sv_key value then Some \<lparr>as_instance_id = instance_id, as_desired = ?d\<rparr> else applied_of db k)" for k
      by (simp add: db2 applied_of_def put_json_def)
    have "desired_inv sdk db2"
      unfolding desired_inv_def sok
    proof (intro conjI)
      show "cells_ok (service_ok db) (p_desired_services db2)"
        using dinv by (simp add: db2 desired_inv_def cells_ok_delete)
      show "cells_ok (\<lambda>k a. service_ok db k (as_desired a)) (p_applied_services db2)"
      proof -
        have "p_applied_services db2 = put_json (sv_key value) \<lparr>as_instance_id = instance_id, as_desired = ?d\<rparr> (p_applied_services db)"
          by (simp add: db2)
        moreover have "service_ok db (sv_key value) (as_desired \<lparr>as_instance_id = instance_id, as_desired = ?d\<rparr>)"
          using desired_of_cell [OF dinv cur] by simp
        moreover have "cells_ok (\<lambda>k a. service_ok db k (as_desired a)) (p_applied_services db)"
          using dinv by (simp add: desired_inv_def)
        ultimately show ?thesis by (metis cells_ok_put_json)
      qed
      show "\<forall>k d a. desired_of db2 k = Some d \<longrightarrow> applied_of db2 k = Some a \<longrightarrow>
          ds_state_revision (as_desired a) = ds_state_revision d \<longrightarrow> as_desired a = d"
        using dinv cur by (auto simp: app desired_inv_def dest!: des)
    qed (use dinv in \<open>simp_all add: revs desired_inv_def db2\<close>)
    moreover have "policy_inv sdk db2"
    proof -
      have disj: "fst ` set (p_orphans db) \<inter> granted_keys db = {}" using pinv by (simp add: policy_inv_def)
      have "fst ` set (bucket_delete (sv_key value) (p_orphans db)) \<subseteq> fst ` set (p_orphans db)"
        by (auto simp: bucket_delete_def)
      with disj have "fst ` set (bucket_delete (sv_key value) (p_orphans db)) \<inter> granted_keys db = {}" by blast
      then show ?thesis
        using pinv by (simp add: db2 policy_inv_def granted_keys_def cells_ok_delete)

    qed
    moreover have "evolves db db2" using des by (auto simp: evolves_def revs desb)
    ultimately show "good_step sdk db db2" by (simp add: good_step_def store_ok_def)
  qed
qed

lemma mark_blocks_good:
  assumes "mark_blocks_applied sdk fault value instance_id db = (r, db')" and inv: "store_ok sdk db"
  shows "good_step sdk db db'"
proof -
  from assms(1) have "db_update fault (mark_blocks_applied_tx sdk value instance_id) db = (r, db')"
    by (simp add: mark_blocks_applied_def)
  then show ?thesis
  proof (rule db_update_good [OF _ inv])
    fix u db2 assume tx: "mark_blocks_applied_tx sdk value instance_id db = Inr (u, db2)"
    let ?d = "desired_block_from_request sdk (pk_plugin_id value) (pk_request value)"
    from tx obtain c where cur: "get_json DecodeFailed (p_desired_blocks db) (pk_plugin_id value) = Inr (Some c)" "same_desired_blocks c ?d" and
      db2: "db2 = db\<lparr>p_applied_blocks := put_json (pk_plugin_id value) \<lparr>ak_instance_id = instance_id, ak_desired = ?d\<rparr> (p_applied_blocks db)\<rparr>"
      by (auto simp: mark_blocks_applied_tx_def Let_def and_then_Inr_iff split: option.splits if_splits)
    have dinv: "desired_inv sdk db" and pinv: "policy_inv sdk db" using inv by (simp_all add: store_ok_def)
    have revs: "state_revision db2 = state_revision db" "block_revision db2 = block_revision db"
      "policy_generation db2 = policy_generation db" by (simp_all add: db2)
    have sok: "service_ok db2 = service_ok db" "blocks_ok sdk db2 = blocks_ok sdk db" "blocks_named db2 = blocks_named db"
      by (simp_all add: fun_eq_iff service_ok_def blocks_ok_def blocks_named_def revs)
    have same: "desired_of db2 = desired_of db" "applied_of db2 = applied_of db" "desired_blocks_of db2 = desired_blocks_of db"
      by (simp_all add: db2 fun_eq_iff desired_of_def applied_of_def desired_blocks_of_def)
    have "blocks_ok sdk db (pk_plugin_id value) c"
      using dinv cells_ok_get_json [OF _ cur(1)] by (auto simp: desired_inv_def)
    then have "blocks_named db (pk_plugin_id value) ?d"
      using cur(2) by (simp add: blocks_ok_def blocks_named_def same_desired_blocks_def)
    then have "desired_inv sdk db2"
      using dinv unfolding desired_inv_def sok same by (simp add: db2 cells_ok_put_json)
    moreover have "policy_inv sdk db2" using pinv by (simp add: db2)
    moreover have "evolves db db2" by (simp add: evolves_def revs same)
    ultimately show "good_step sdk db db2" by (simp add: good_step_def store_ok_def)
  qed
qed

lemma update_status_inv:
  assumes "update_status sdk event db = Inr db'" and "policy_inv sdk db" and "st_authorization_id event \<in> granted_ids db"
  shows "policy_inv sdk db'" and "granted db' = granted db" and "granted_ids db' = granted_ids db"
    and "same_enforcement db db'"
proof -
  let ?a = "st_authorization_id event"
  from assms(1) consider "db' = db" | digest where "db' = db\<lparr>p_statuses := put_json ?a
      \<lparr>ss_digest = digest, ss_queued = False, ss_event = event\<rparr> (p_statuses db)\<rparr>"
    by (auto simp: update_status_def and_then_Inr_iff split: if_splits option.splits)
  then have "policy_inv sdk db' \<and> granted db' = granted db \<and> granted_ids db' = granted_ids db \<and> same_enforcement db db'"
  proof cases
    case (2 digest)
    have "status_ok (granted_ids db) ?a \<lparr>ss_digest = digest, ss_queued = False, ss_event = event\<rparr>"
      using assms(3) by (simp add: status_ok_def)
    with 2 assms(2) show ?thesis
      by (simp add: policy_inv_def granted_keys_def cells_ok_put_json same_enforcement_def)
  qed (use assms in simp)
  then show "policy_inv sdk db'" "granted db' = granted db" "granted_ids db' = granted_ids db" "same_enforcement db db'"
    by auto
qed

lemma refresh_status_inv:
  assumes res: "refresh_status sdk now instances generation policy db = Inr db'" and ok: "policy_sdk_ok sdk"
    and inv: "policy_inv sdk db" and mem: "ap_authorization_id policy \<in> granted_ids db"
  shows "policy_inv sdk db' \<and> granted db' = granted db \<and> granted_ids db' = granted_ids db \<and> same_enforcement db db'"
proof -
  from res obtain applied where applied: "authorization_applied db policy instances = Inr applied"
    by (auto simp: refresh_status_def and_then_Inr_iff)
  show ?thesis
  proof (cases applied)
    case False
    with res applied inv show ?thesis by (simp add: refresh_status_def)
  next
    case True
    with res applied obtain l db1 counts where l: "ensure_ledger sdk policy now db = Inr (l, db1)" and
      up: "update_status sdk (status_event generation policy l (enforcement_state policy l now) counts) db1 = Inr db'"
      by (auto simp: refresh_status_def and_then_Inr_iff)
    note 1 = ensure_ledger_inv [OF l inv mem ok]
    have "st_authorization_id (status_event generation policy l (enforcement_state policy l now) counts) \<in> granted_ids db1"
      using mem 1 by (simp add: status_event_def)
    note 2 = update_status_inv [OF up 1(1) this]
    show ?thesis using 1 2 ensure_ledger_enforcement [OF l] by (auto intro: same_enforcement_trans)
  qed
qed

lemma refresh_statuses_fold:
  assumes "fold_res (refresh_status sdk now instances generation) ps db = Inr db'" and "policy_sdk_ok sdk"
    and "policy_inv sdk db" and "ap_authorization_id ` set ps \<subseteq> granted_ids db"
  shows "policy_inv sdk db' \<and> granted_ids db' = granted_ids db \<and> same_enforcement db db'"
  using assms
proof (induction ps arbitrary: db)
  case (Cons p ps)
  then obtain db1 where 1: "refresh_status sdk now instances generation p db = Inr db1" and
    2: "fold_res (refresh_status sdk now instances generation) ps db1 = Inr db'"
    by (auto simp: and_then_Inr_iff)
  have mem: "ap_authorization_id p \<in> granted_ids db" using Cons.prems(4) by simp
  note s = refresh_status_inv [OF 1 Cons.prems(2,3) mem]
  have "policy_inv sdk db' \<and> granted_ids db' = granted_ids db1 \<and> same_enforcement db1 db'"
    by (rule Cons.IH [OF 2 Cons.prems(2)]) (use s Cons.prems(4) in auto)
  with s show ?case by (auto intro: same_enforcement_trans)
qed simp

lemma refresh_statuses_good:
  assumes res: "refresh_statuses sdk rf f now instances db = (r, db')" and ok: "policy_sdk_ok sdk" and inv: "store_ok sdk db"
  shows "good_step sdk db db'"
proof -
  obtain r1 db1 where r1: "refresh sdk rf now db = (r1, db1)" by force
  note g1 = refresh_step [OF r1 ok inv]
  have ok1: "store_ok sdk db1" using g1 by (simp add: good_step_def)
  show ?thesis
  proof (cases r1)
    case (Inl e)
    with res r1 g1 show ?thesis by (simp add: refresh_statuses_def)
  next
    case (Inr u)
    with res r1 have r2: "db_update f (refresh_statuses_tx sdk now instances) db1 = (r, db')"
      by (simp add: refresh_statuses_def)
    have "good_step sdk db1 db'"
    proof (rule db_update_good [OF r2 ok1])
      fix x db3 assume tx: "refresh_statuses_tx sdk now instances db1 = Inr (x, db3)"
      have pinv: "policy_inv sdk db1" using ok1 by (simp add: store_ok_def)
      note cells = policy_invD(1) [OF pinv]
      show "good_step sdk db1 db3"
      proof (cases "policy_generation db1 = 0")
        case True
        with tx ok1 show ?thesis by (simp add: refresh_statuses_tx_def good_step_refl)
      next
        case False
        with tx have fold: "fold_res (refresh_status sdk now instances (policy_generation db1)) (granted db1) db1 = Inr db3"
          by (auto simp: refresh_statuses_tx_def Let_def and_then_Inr_iff read_policies_granted [OF cells])
        have "policy_inv sdk db3 \<and> granted_ids db3 = granted_ids db1 \<and> same_enforcement db1 db3"
          by (rule refresh_statuses_fold [OF fold ok pinv]) (simp add: granted_ids_eq [OF cells])
        with ok1 show ?thesis by (auto intro: same_enforcement_step)
      qed
    qed
    with g1 show ?thesis by (blast intro: good_step_trans)
  qed
qed

lemma open_store_good:
  assumes res: "open_policy_store os_fault fault path db = (r, db')" and inv: "store_ok sdk db"
  shows "good_step sdk db db'"
proof (cases "abs_and_clean path \<and> os_fault = None")
  case False
  with res inv show ?thesis by (auto simp: open_policy_store_def good_step_refl split: option.splits if_splits)
next
  case True
  with res have "db_update fault policy_initialize_tx db = (r, db')" by (simp add: open_policy_store_def)
  then show ?thesis
  proof (rule db_update_good [OF _ inv])
    fix u db2 assume "policy_initialize_tx db = Inr (u, db2)"
    then consider "db2 = db" | "db2 = db\<lparr>p_meta := bucket_put key_state_version policy_state_version (p_meta db)\<rparr>"
      by (auto simp: policy_initialize_tx_def Let_def split: if_splits)
    then show "good_step sdk db db2"
    proof cases
      case 2
      have revs: "state_revision db2 = state_revision db" "block_revision db2 = block_revision db"
        "policy_generation db2 = policy_generation db"
        by (simp_all add: 2 state_revision_def block_revision_def policy_generation_def)
      have same: "desired_of db2 = desired_of db" "applied_of db2 = applied_of db" "desired_blocks_of db2 = desired_blocks_of db"
        by (simp_all add: 2 fun_eq_iff desired_of_def applied_of_def desired_blocks_of_def)
      have sok: "service_ok db2 = service_ok db" "blocks_ok sdk db2 = blocks_ok sdk db" "blocks_named db2 = blocks_named db"
        by (simp_all add: fun_eq_iff service_ok_def blocks_ok_def blocks_named_def revs)
      have "desired_inv sdk db2" using inv unfolding store_ok_def desired_inv_def sok revs same by (simp add: 2)
      moreover have "policy_inv sdk db2" using inv by (simp add: 2 store_ok_def)
      ultimately show ?thesis by (simp add: good_step_def store_ok_def evolves_def revs same)
    qed (use inv in \<open>simp add: good_step_refl\<close>)
  qed
qed

subsection \<open>Runs\<close>

text \<open>Every call of the store's interface, with any arguments and any storage faults.\<close>

inductive policy_step :: "policy_sdk \<Rightarrow> policy_db \<Rightarrow> policy_db \<Rightarrow> bool" for sdk where
  step_open: "open_policy_store os_fault fault path db = (r, db') \<Longrightarrow> policy_step sdk db db'"
| step_reconcile: "policy_reconcile sdk fault cmd db = (r, db') \<Longrightarrow> policy_step sdk db db'"
| step_refresh: "refresh sdk fault now db = (r, db') \<Longrightarrow> policy_step sdk db db'"
| step_cursor: "advance_telemetry_cursor sdk fault plugin_id stream_id previous nxt db = (r, db') \<Longrightarrow> policy_step sdk db db'"
| step_counters: "any_order iter \<Longrightarrow> apply_counters sdk iter fault plugin_id counters now db = (r, db') \<Longrightarrow> policy_step sdk db db'"
| step_activity: "observe_activity sdk fault authorization_id source_ip observed_at db = (r, db') \<Longrightarrow> policy_step sdk db db'"
| step_snapshots: "pending_traffic_snapshots sdk fault now db = (r, db') \<Longrightarrow> policy_step sdk db db'"
| step_traffic_queued: "mark_traffic_queued sdk fault snapshot db = (r, db') \<Longrightarrow> policy_step sdk db db'"
| step_status_queued: "mark_status_queued sdk fault status db = (r, db') \<Longrightarrow> policy_step sdk db db'"
| step_desired: "any_order iter \<Longrightarrow> desired sdk iter refresh_fault fault now db = (r, db') \<Longrightarrow> policy_step sdk db db'"
| step_service_applied: "mark_service_applied fault service instance_id db = (r, db') \<Longrightarrow> policy_step sdk db db'"
| step_blocks_applied: "mark_blocks_applied sdk fault blocks instance_id db = (r, db') \<Longrightarrow> policy_step sdk db db'"
| step_statuses: "refresh_statuses sdk refresh_fault fault now instances db = (r, db') \<Longrightarrow> policy_step sdk db db'"

inductive policy_run :: "policy_sdk \<Rightarrow> policy_db \<Rightarrow> policy_db \<Rightarrow> bool" for sdk where
  run_start: "policy_run sdk db db"
| run_step: "policy_run sdk db db' \<Longrightarrow> policy_step sdk db' db'' \<Longrightarrow> policy_run sdk db db''"

lemma policy_step_good: "policy_step sdk db db' \<Longrightarrow> policy_sdk_ok sdk \<Longrightarrow> store_ok sdk db \<Longrightarrow> good_step sdk db db'"
proof (induction rule: policy_step.induct)
  case step_open then show ?case by (blast intro: open_store_good)
next
  case step_reconcile then show ?case by (blast intro: reconcile_good)
next
  case step_refresh then show ?case by (blast intro: refresh_step)
next
  case step_cursor then show ?case by (blast intro: advance_cursor_good)
next
  case step_counters then show ?case by (blast intro: apply_counters_good)
next
  case step_activity then show ?case by (blast intro: observe_activity_good)
next
  case step_snapshots then show ?case by (blast intro: pending_snapshots_good)
next
  case step_traffic_queued then show ?case by (blast intro: mark_traffic_good)
next
  case step_status_queued then show ?case by (blast intro: mark_status_good)
next
  case step_desired then show ?case by (blast intro: desired_good)
next
  case step_service_applied then show ?case by (blast intro: mark_service_good)
next
  case step_blocks_applied then show ?case by (blast intro: mark_blocks_good)
next
  case step_statuses then show ?case by (blast intro: refresh_statuses_good)
qed

lemma policy_run_good: "policy_run sdk db db' \<Longrightarrow> policy_sdk_ok sdk \<Longrightarrow> store_ok sdk db \<Longrightarrow> good_step sdk db db'"
proof (induction rule: policy_run.induct)
  case (run_step db db' db'')
  then have "good_step sdk db db'" by simp
  with run_step policy_step_good [of sdk db' db''] show ?case
    by (auto simp: good_step_def intro: evolves_trans)
qed (simp add: good_step_refl)

lemma empty_store_ok: "store_ok sdk empty_policy_db"
  by (simp add: store_ok_def empty_policy_inv desired_inv_def)
    (simp add: empty_policy_db_def state_revision_def block_revision_def desired_of_def)

end
