(* ===== verification/PolicyProperties.thy ===== *)
theory PolicyProperties
  imports PolicyRuns
begin

section \<open>Properties of the policy store\<close>

text \<open>
  What the policy store guarantees, one theorem per guarantee, each applied to a small store: one
  authorization \<^verbatim>\<open>alice\<close>, bound to one service, with a quota of 1000 bytes and one source address.
\<close>

subsection \<open>A concrete store\<close>

definition demo_policy_ok :: "authorization_policy \<Rightarrow> bool" where
  "demo_policy_ok p \<longleftrightarrow> nul_free (ap_authorization_id p) \<and>
     (\<forall>b \<in> set (ap_bindings p). nul_free (pb_plugin_id b) \<and> nul_free (pb_service_id b))"

definition demo_period :: "string \<Rightarrow> time \<Rightarrow> time \<Rightarrow> period option" where
  "demo_period reset started now =
     (if now < started then None
      else Some \<lparr>per_id = [char_of (nat ((now - started) div 1000))],
                 per_starts_at = started + 1000 * ((now - started) div 1000), per_content = reset\<rparr>)"

definition demo_sdk :: policy_sdk where
  "demo_sdk =
     \<lparr>sdk_validate_command = (\<lambda>cmd. list_all demo_policy_ok (rc_authorizations cmd) \<and>
                                   distinct (map ap_authorization_id (rc_authorizations cmd))),
      sdk_validate_policy = demo_policy_ok, sdk_validate_plugin_id = (\<lambda>p. p \<noteq> []), sdk_validate_identifier = (\<lambda>a. a \<noteq> []),
      sdk_canonical_ip = (\<lambda>ip. ip \<noteq> []), sdk_current_period = demo_period, sdk_same_period = (=),
      sdk_validate_snapshot = (\<lambda>_. True), sdk_validate_status = (\<lambda>_. True),
      sdk_command_digest = (\<lambda>cmd. Some (concat (map ap_authorization_id (rc_authorizations cmd)))),
      sdk_blocks_digest = (\<lambda>bs. Some (concat (map db_source_ip bs))),
      sdk_status_digest = (\<lambda>s. Some (uint64_bytes (st_upload_bytes s) @ uint64_bytes (st_download_bytes s)))\<rparr>"

definition demo_binding :: policy_binding where
  "demo_binding = \<lparr>pb_plugin_id = ''wire'', pb_service_id = ''vpn''\<rparr>"

definition demo_policy :: authorization_policy where
  "demo_policy =
     \<lparr>ap_authorization_id = ''alice'', ap_enabled = True, ap_expires_at = None, ap_traffic_limit_bytes = Some 1000,
      ap_soft_ip_limit = Some 1, ap_activity_window_seconds = 60, ap_block_duration_seconds = 300,
      ap_bindings = [demo_binding], ap_reset = ''monthly'', ap_started_at = 5,
      ap_current_period = \<lparr>per_id = [char_of (0::nat)], per_starts_at = 5, per_content = ''monthly''\<rparr>\<rparr>"

definition demo_command :: "u64 \<Rightarrow> reconcile_command" where
  "demo_command g = \<lparr>rc_generation = g, rc_authorizations = [demo_policy]\<rparr>"

definition demo_ledger :: ledger_state where
  "demo_ledger = fresh_ledger ''alice'' (ap_current_period demo_policy)"

definition demo_db :: policy_db where
  "demo_db = empty_policy_db\<lparr>p_meta := bucket_put key_snapshot_digest ''alice'' (put_uint64 key_generation 1 []),
     p_policies := [(''alice'', Json demo_policy)], p_ledgers := [(''alice'', Json demo_ledger)]\<rparr>"

definition demo_counter :: "u64 \<Rightarrow> u64 \<Rightarrow> traffic_counter" where
  "demo_counter u d =
     \<lparr>tc_authorization_id = ''alice'', tc_service_id = ''vpn'', tc_epoch = ''e1'', tc_upload_bytes = u, tc_download_bytes = d\<rparr>"

lemma demo_sdk_ok: "policy_sdk_ok demo_sdk"
  by (auto simp: policy_sdk_ok_def demo_sdk_def demo_policy_ok_def list_all_iff)

lemma demo_store_ok: "store_ok demo_sdk demo_db"
  by (simp add: store_ok_def policy_inv_def desired_inv_def demo_db_def empty_policy_db_def cells_ok_def bucket_ok_def
      policy_ok_def demo_sdk_def demo_policy_ok_def demo_policy_def demo_binding_def nul_free_def granted_ids_def ledger_ok_def
      demo_ledger_def fresh_ledger_def state_revision_def block_revision_def desired_of_def applied_of_def max_int64_def)

lemma demo_policy_inv: "policy_inv demo_sdk demo_db"
  using demo_store_ok by (simp add: store_ok_def)

lemma demo_generation: "policy_generation demo_db = 1"
  by (simp add: policy_generation_def demo_db_def)

lemma demo_granted: "granted demo_db = [demo_policy]" "granted_ids demo_db = {''alice''}"
  by (simp_all add: granted_def granted_ids_def cell_values_def demo_db_def)

lemma demo_read: "read_policies demo_sdk demo_db = Inr [demo_policy]"
  using read_policies_granted [OF policy_invD(1) [OF demo_policy_inv]] by (simp add: demo_granted)

lemma demo_command_valid: "sdk_validate_command demo_sdk (demo_command g)"
  "sdk_command_digest demo_sdk (demo_command g) = Some ''alice''"
  by (simp_all add: demo_sdk_def demo_command_def demo_policy_ok_def demo_policy_def demo_binding_def nul_free_def)

lemmas demo_fields = demo_sdk_def demo_db_def empty_policy_db_def demo_policy_def demo_binding_def demo_ledger_def fresh_ledger_def
  demo_counter_def

lemma demo_ledger_current: "ensure_ledger demo_sdk demo_policy 10 demo_db = Inr (demo_ledger, demo_db)"
  by (simp add: ensure_ledger_def get_json_def decode_def bucket_get_def demo_period_def demo_fields Let_def)

lemma demo_counted: "\<exists>db. apply_counters demo_sdk (\<lambda>x. x) None ''wire'' [Some (demo_counter 600 300)] 10 demo_db = (Inr (), db)"
proof -
  let ?key = "service_key ''wire'' ''alice'' ''vpn''"
  obtain db1 where count: "fold_res (count_counter ''wire'' (binding_keys [demo_policy])) [Some (demo_counter 600 300)] ([], demo_db)
      = Inr ([(''alice'', 600, 300)], db1)" and db1: "p_ledgers db1 = p_ledgers demo_db"
    by (simp add: count_counter_def demo_counter_def demo_policy_def demo_binding_def binding_keys_def get_json_def demo_db_def
        empty_policy_db_def counter_delta_def max_int64_def max_uint64_def)
  have "policy_by_authorization [demo_policy] ''alice'' = demo_policy"
    by (simp add: policy_by_authorization_def demo_policy_def)
  moreover have "ensure_ledger demo_sdk demo_policy 10 db1 = Inr (demo_ledger, db1)"
    using db1 by (simp add: ensure_ledger_def get_json_def decode_def bucket_get_def demo_period_def demo_fields Let_def)
  ultimately have "\<exists>db. apply_delta demo_sdk [demo_policy] 10 [(''alice'', 600, 300)] ''alice'' db1 = Inr db"
    by (simp add: apply_delta_def delta_of_def Let_def) (simp add: demo_ledger_def fresh_ledger_def max_int64_def word_le_nat_alt)
  with count show ?thesis
    by (auto simp: apply_counters_def apply_counters_tx_def db_update_def demo_read time_is_zero_def) (simp add: demo_sdk_def)
qed

subsection \<open>Reconciliation\<close>

text \<open>C3. A snapshot with a newer generation is installed as a whole: afterwards exactly its
  authorizations are granted, every binding that was known before (granted or already orphaned) and is
  not bound any more is an orphan, the ledgers of the authorizations that stay are untouched, and the
  usage that has not been reported yet is kept, also for removed authorizations, with the one exception shown in C12:
  a snapshot put aside earlier is replaced when the ledger of its authorization holds other unreported figures for
  the same period, which are then what is kept.\<close>

theorem reconcile_installs_snapshot:
  assumes "policy_sdk_ok sdk" and "policy_inv sdk db" and "sdk_validate_command sdk cmd"
    and "sdk_command_digest sdk cmd = Some digest" and "policy_generation db < rc_generation cmd"
  shows "\<exists>db'. policy_reconcile sdk None cmd db = (Inr True, db') \<and> policy_inv sdk db' \<and>
           policy_generation db' = rc_generation cmd \<and> set (granted db') = set (rc_authorizations cmd) \<and>
           fst ` set (p_orphans db') = (fst ` set (p_orphans db) \<union> granted_keys db) - granted_keys db' \<and>
           (\<forall>a \<in> granted_ids db'. ledger_of db' a = ledger_of db a) \<and>
           (\<forall>s \<in> unreported db. s \<in> unreported db' \<or>
              (\<exists>l. ledger_of db (ts_authorization_id s) = Some l \<and> ls_queued_revision l < ls_revision l \<and>
                per_id (ls_period l) = per_id (ts_period s) \<and> ledger_event l \<noteq> s \<and> ledger_event l \<in> unreported db'))"
proof -
  show ?thesis
  proof (rule install_policies_ok [OF assms(1-3), of digest])
    fix db' assume new: "install_policies cmd digest (granted db) db = Inr db'" "policy_inv sdk db'"
      "policy_generation db' = rc_generation cmd" "set (granted db') = set (rc_authorizations cmd)"
      "fst ` set (p_orphans db') = (fst ` set (p_orphans db) \<union> granted_keys db) - granted_keys db'"
    assume keep: "\<And>s. s \<in> unreported db \<Longrightarrow> undisputed db s \<Longrightarrow> s \<in> unreported db'"
      and ledgers: "\<And>a. a \<in> granted_ids db' \<Longrightarrow> bucket_get (p_ledgers db') a = bucket_get (p_ledgers db) a"
    have "\<not> rc_generation cmd < policy_generation db" "rc_generation cmd \<noteq> policy_generation db"
      using assms(5) by auto
    then have "policy_reconcile sdk None cmd db = (Inr True, db')"
      using assms(3,4) new(1) read_policies_granted [OF policy_invD(1) [OF assms(2)]]
      by (simp add: policy_reconcile_def reconcile_tx_def db_update_def Let_def)
    with new ledgers unreported_kept_or_replaced [OF assms(2) keep] show ?thesis by (auto simp: ledger_of_def)
  qed
qed


theorem reconcile_installs_snapshot_witness:
  "\<exists>db'. policy_reconcile demo_sdk None (demo_command 2) demo_db = (Inr True, db') \<and>
     set (granted db') = {demo_policy} \<and> policy_generation db' = 2"
  using reconcile_installs_snapshot [OF demo_sdk_ok demo_policy_inv demo_command_valid, of 2]
  by (auto simp: demo_generation demo_command_def)

text \<open>C4. Reconciliation is ordered by the generation: once a snapshot is in place, delivering it again
  changes nothing, an older generation is refused as stale and the same generation with another content
  is refused as a conflict; neither changes the store.\<close>

theorem reconcile_idempotent_and_ordered:
  assumes "policy_sdk_ok sdk" and "policy_inv sdk db" and "policy_reconcile sdk fault cmd db = (Inr changed, db')"
    and "sdk_validate_command sdk cmd'"
  shows "policy_reconcile sdk None cmd db' = (Inr False, db') \<and>
         (rc_generation cmd' < rc_generation cmd \<longrightarrow> sdk_command_digest sdk cmd' \<noteq> None \<longrightarrow>
            policy_reconcile sdk None cmd' db' = (Inl StaleGeneration, db')) \<and>
         (rc_generation cmd' = rc_generation cmd \<longrightarrow> sdk_command_digest sdk cmd' \<noteq> None \<longrightarrow>
            sdk_command_digest sdk cmd' \<noteq> sdk_command_digest sdk cmd \<longrightarrow>
            policy_reconcile sdk None cmd' db' = (Inl GenerationConflict, db'))"
proof -
  from assms(3) have valid: "sdk_validate_command sdk cmd" by (simp add: policy_reconcile_def split: if_splits)
  with assms(3) obtain digest where digest: "sdk_command_digest sdk cmd = Some digest"
    by (auto simp: policy_reconcile_def split: option.splits)
  with assms(3) valid have tx: "reconcile_tx sdk cmd digest db = Inr (changed, db')"
    by (simp add: policy_reconcile_def db_update_Inr_iff)
  note cases = reconcile_tx_cases [OF assms(1,2) valid tx]
  have now: "policy_generation db' = rc_generation cmd" "get_string (p_meta db') key_snapshot_digest = digest"
  proof -
    obtain db2 where db2: "install_policies cmd digest (granted db) db = Inr db2"
      "policy_generation db2 = rc_generation cmd" "get_string (p_meta db2) key_snapshot_digest = digest"
      using install_policies_ok [OF assms(1,2) valid, of digest] by metis
    show "policy_generation db' = rc_generation cmd" "get_string (p_meta db') key_snapshot_digest = digest"
      using cases db2 by (cases changed; simp)+
  qed
  with assms(4) valid digest show ?thesis
    by (auto simp: policy_reconcile_def reconcile_tx_def db_update_def Let_def)
qed

theorem reconcile_idempotent_and_ordered_witness:
  "policy_reconcile demo_sdk None (demo_command 1) demo_db = (Inr False, demo_db) \<and>
   policy_reconcile demo_sdk None (demo_command 0) demo_db = (Inl StaleGeneration, demo_db)"
proof -
  have "policy_reconcile demo_sdk None (demo_command 1) demo_db = (Inr False, demo_db)"
    using demo_command_valid [of 1] demo_generation
    by (simp add: policy_reconcile_def reconcile_tx_def db_update_def demo_command_def Let_def) (simp add: demo_db_def)
  from reconcile_idempotent_and_ordered [OF demo_sdk_ok demo_policy_inv this demo_command_valid(1) [of 0]]
  show ?thesis using demo_command_valid(2) [of 0] by (simp add: demo_command_def)
qed

subsection \<open>Traffic\<close>







text \<open>Delivering the same counter readings again is harmless: a second \<^verbatim>\<open>ApplyCounters\<close> with the
  readings of distinct counters, at any time and in any iteration order, succeeds and leaves the store as it is.\<close>

theorem counters_replay_is_harmless:
  assumes "apply_counters sdk iter fault plugin_id counters now db = (Inr u, db')"
    and "policy_sdk_ok sdk" and "policy_inv sdk db" and "any_order iter"
    and "distinct (map (counter_key plugin_id) (List.map_filter (\<lambda>c. c) counters))" and "\<not> time_is_zero now'"
  shows "apply_counters sdk iter' None plugin_id counters now' db' = (Inr (), db')"
  by (rule apply_counters_again [OF assms])

theorem counters_replay_is_harmless_witness:
  "\<exists>db'. apply_counters demo_sdk (\<lambda>x. x) None ''wire'' [Some (demo_counter 600 300)] 10 demo_db = (Inr (), db') \<and>
     apply_counters demo_sdk rev None ''wire'' [Some (demo_counter 600 300)] 20 db' = (Inr (), db')"
proof -
  obtain db' where run: "apply_counters demo_sdk (\<lambda>x. x) None ''wire'' [Some (demo_counter 600 300)] 10 demo_db = (Inr (), db')"
    using demo_counted by blast
  show ?thesis
    using counters_replay_is_harmless [OF run demo_sdk_ok demo_policy_inv, of 20 rev] run
    by (auto simp: List.map_filter_def time_is_zero_def)
qed

text \<open>C6. A refresh (the step that moves every authorization into the accounting period of the given
  time) keeps the usage that has not been reported: every pending snapshot and every unqueued ledger of an
  old period is still to be reported afterwards, whatever faults occur, and a second refresh at the same time
  has nothing left to do. The one exception is that of C12: a snapshot put aside earlier is replaced when the ledger
  of its authorization holds other unreported figures for the same period, which are then still to be reported.\<close>

theorem refresh_keeps_unreported_usage:
  assumes "refresh sdk fault now db = (r, db')" and "policy_sdk_ok sdk" and "policy_inv sdk db"
  shows "policy_inv sdk db' \<and>
         (\<forall>s \<in> unreported db. s \<in> unreported db' \<or>
            (\<exists>l. ledger_of db (ts_authorization_id s) = Some l \<and> ls_queued_revision l < ls_revision l \<and>
                per_id (ls_period l) = per_id (ts_period s) \<and> ledger_event l \<noteq> s \<and> ledger_event l \<in> unreported db')) \<and>
         (r = Inr () \<longrightarrow> refresh sdk None now db' = (Inr (), db'))"
proof -
  note cases = refresh_cases [OF assms]
  have "refresh sdk None now db' = (Inr (), db')" if "r = Inr ()"
  proof -
    from cases that have tx: "refresh_tx sdk now db = Inr ((), db')" by auto
    have inv': "policy_inv sdk db'" using cases by simp
    have "refresh_tx sdk now db' = Inr ((), db')"
      by (rule refresh_fresh [OF refresh_makes_fresh [OF tx assms(2,3)] inv'])
    moreover have "\<not> time_is_zero now" using assms(1) that by (auto simp: refresh_def split: if_splits)
    ultimately show ?thesis by (simp add: refresh_def db_update_def)
  qed
  with cases unreported_kept_or_replaced [OF assms(3) refresh_keeps [OF assms]] show ?thesis by blast
qed

definition demo_used_db :: policy_db where
  "demo_used_db = demo_db\<lparr>p_ledgers := [(''alice'', Json (demo_ledger\<lparr>ls_upload_bytes := 700, ls_revision := 2\<rparr>))]\<rparr>"

lemma demo_used_inv: "policy_inv demo_sdk demo_used_db"
  using demo_policy_inv
  by (simp add: policy_inv_def demo_used_db_def granted_keys_def)
    (simp add: cells_ok_def bucket_ok_def ledger_ok_def demo_ledger_def fresh_ledger_def max_int64_def nul_free_def
      demo_granted word_le_nat_alt)

theorem refresh_keeps_unreported_usage_witness:
  "\<exists>db'. \<exists>s :: traffic_snapshot. refresh demo_sdk None 2000 demo_used_db = (Inr (), db') \<and> s \<in> unreported db' \<and> ts_upload_bytes s = 700"
proof -
  let ?l = "demo_ledger\<lparr>ls_upload_bytes := 700, ls_revision := 2\<rparr>"
  have "read_policies demo_sdk demo_used_db = Inr [demo_policy]"
    using demo_read by (simp add: read_policies_def demo_used_db_def)
  then obtain db' where run: "refresh demo_sdk None 2000 demo_used_db = (Inr (), db')"
    by (auto simp: refresh_def time_is_zero_def db_update_def refresh_tx_def refresh_policy_def ensure_ledger_def get_json_def decode_def
        bucket_get_def demo_period_def demo_used_db_def demo_fields Let_def preserve_pending_traffic_def ledger_event_def
        clean_authorization_activity_def delete_matching_def seek_prefix_def)
  have "ledger_event ?l \<in> unreported demo_used_db"
    by (rule unreported_ledger [of _ "''alice''"]) (simp_all add: demo_used_db_def bucket_get_def demo_ledger_def fresh_ledger_def)
  moreover have "l = ?l" if "ledger_of demo_used_db ''alice'' = Some l" for l
    using that by (simp add: ledger_of_def demo_used_db_def bucket_get_def)
  moreover have "ts_authorization_id (ledger_event ?l) = ''alice''" by (simp add: ledger_event_def demo_ledger_def fresh_ledger_def)
  ultimately have "ledger_event ?l \<in> unreported db'"
    using refresh_keeps_unreported_usage [OF run demo_sdk_ok demo_used_inv] by metis
  with run show ?thesis by (intro exI [of _ db'] exI [of _ "ledger_event ?l"]) (simp add: ledger_event_def)
qed

subsection \<open>Decisions\<close>

text \<open>A service is enabled exactly while the authorization is enabled, not expired, and the sum of
  uploaded and downloaded bytes, taken without wrap-around, is below the limit; the reason names the first
  of these conditions that fails.\<close>

theorem enforcement_exact:
  "enforcement_state policy ledger now =
     (let expired = (\<exists>e. ap_expires_at policy = Some e \<and> e \<le> now);
          exhausted = (\<exists>limit. ap_traffic_limit_bytes policy = Some limit \<and>
                         unat limit \<le> unat (ls_upload_bytes ledger) + unat (ls_download_bytes ledger))
      in (ap_enabled policy \<and> \<not> expired \<and> \<not> exhausted,
          if \<not> ap_enabled policy then ReasonAdministratorDisabled else if expired then ReasonExpired
          else if exhausted then ReasonQuotaExceeded else ReasonActive))"
  by (simp add: enforcement_state_def quota_exact Let_def not_less split: option.split)

lemma slot_addresses_put:
  "slot_addresses (db\<lparr>p_slots := put_json (activity_key a ip) s (p_slots db)\<rparr>) a c =
     (if c < last_seen_at s then insert ip (slot_addresses db a c) else slot_addresses db a c - {ip})"
  by (auto simp: slot_addresses_def put_json_def)

lemma slot_addresses_blocks [simp]: "slot_addresses (db\<lparr>p_blocks := b\<rparr>) a c = slot_addresses db a c"
  by (simp add: slot_addresses_def)

lemma blocked_until_slots [simp]: "blocked_until (db\<lparr>p_slots := s\<rparr>) a ip = blocked_until db a ip"
  by (simp add: blocked_until_def)

lemma card_insert_le_Suc: "card (insert x A) \<le> Suc (card A)"
  by (cases "finite A") (simp_all add: card_insert_if)

lemma observe_tx_admits:
  assumes "policy_sdk_ok sdk" and "policy_inv sdk db" and p: "p \<in> set (granted db)" "ap_authorization_id p = a"
    and limit: "ap_soft_ip_limit p = Some limit" and window: "activity_cutoff p t < t"
  shows "\<exists>blocked db'. observe_activity_tx a ip t db = Inr (blocked, db') \<and> policy_inv sdk db' \<and>
           (blocked \<longleftrightarrow> (\<exists>e. blocked_until db a ip = Some e \<and> t < e) \<or>
              ip \<notin> slot_addresses db a (activity_cutoff p t) \<and> unat limit \<le> slot_count db a (activity_cutoff p t)) \<and>
           (blocked \<longrightarrow> blocked_until db' a ip \<noteq> None) \<and>
           (\<not> blocked \<longrightarrow> ip \<in> slot_addresses db' a (activity_cutoff p t)) \<and>
           slot_count db' a (activity_cutoff p t) \<le> max (unat limit) (slot_count db a (activity_cutoff p t))"
proof -
  let ?c = "activity_cutoff p t"
  obtain db1 where clean: "clean_authorization_activity p t db = Inr db1" and inv1: "policy_inv sdk db1"
    and ids: "granted_ids db1 = granted_ids db" and eq: "observe_activity_tx a ip t db =
      Inr (if (\<exists>e. blocked_until db a ip = Some e \<and> t < e) then (True, db1)
           else if ip \<in> slot_addresses db a ?c then
             (False, if (\<exists>s. bucket_get (p_slots db) (activity_key a ip) = Some (Json s) \<and> last_seen_at s < t)
                     then db1\<lparr>p_slots := put_json (activity_key a ip) \<lparr>last_seen_at = t\<rparr> (p_slots db1)\<rparr> else db1)
           else if slot_count db a ?c < unat limit
             then (False, db1\<lparr>p_slots := put_json (activity_key a ip) \<lparr>last_seen_at = t\<rparr> (p_slots db1)\<rparr>)
           else (True, db1\<lparr>p_blocks := put_json (activity_key a ip)
                    \<lparr>block_expires_at = t + duration_seconds (ap_block_duration_seconds p)\<rparr> (p_blocks db1)\<rparr>))"
    by (rule observe_tx_limited [OF assms(1,2) p limit, where t = t and ip = ip])
  have a1: "a \<in> granted_ids db1"
    using p granted_ids_eq [OF policy_invD(1) [OF assms(2)]] ids by auto
  note act = cleaned_activity [OF clean assms(2) p(2)]
  have slots: "slot_addresses db1 a ?c = slot_addresses db a ?c"
    by (auto simp: slot_addresses_def act)
  note inv2 = put_activity_inv [OF inv1 a1]
  let ?seen = "db1\<lparr>p_slots := put_json (activity_key a ip) \<lparr>last_seen_at = t\<rparr> (p_slots db1)\<rparr>"
  have seen: "slot_addresses ?seen a ?c = insert ip (slot_addresses db a ?c)"
    using window by (simp add: slot_addresses_put slots)
  consider (old) e where "blocked_until db a ip = Some e" "t < e"
    | (held) "\<not> (\<exists>e. blocked_until db a ip = Some e \<and> t < e)" "ip \<in> slot_addresses db a ?c"
    | (free) "\<not> (\<exists>e. blocked_until db a ip = Some e \<and> t < e)" "ip \<notin> slot_addresses db a ?c" "slot_count db a ?c < unat limit"
    | (full) "\<not> (\<exists>e. blocked_until db a ip = Some e \<and> t < e)" "ip \<notin> slot_addresses db a ?c" "unat limit \<le> slot_count db a ?c"
    by (meson not_le)
  then show ?thesis
  proof cases
    case (old e)
    then obtain b where b: "bucket_get (p_blocks db) (activity_key a ip) = Some (Json b)" "block_expires_at b = e"
      by (auto simp: blocked_until_def split: option.splits json.splits)
    then have "bucket_get (p_blocks db1) (activity_key a ip) = Some (Json b)" using act(2) old(2) by blast
    then have "blocked_until db1 a ip \<noteq> None" by (simp add: blocked_until_def)
    with old inv1 slots show ?thesis by (auto simp: eq slot_count_def)
  next
    case held
    define db2 where "db2 = (if (\<exists>s. bucket_get (p_slots db) (activity_key a ip) = Some (Json s) \<and> last_seen_at s < t)
        then ?seen else db1)"
    have "slot_addresses db2 a ?c = slot_addresses db a ?c"
      using held(2) seen slots by (auto simp: db2_def insert_absorb)
    moreover have "policy_inv sdk db2" using inv1 inv2 by (simp add: db2_def)
    moreover have "observe_activity_tx a ip t db = Inr (False, db2)"
      using held by (simp add: eq db2_def)
    ultimately show ?thesis using held by (auto simp: slot_count_def)
  next
    case free
    then have "observe_activity_tx a ip t db = Inr (False, ?seen)" by (auto simp: eq)
    moreover have "slot_count ?seen a ?c \<le> unat limit"
      using free(3) card_insert_le_Suc [of ip "slot_addresses db a ?c"] by (simp add: slot_count_def seen)
    ultimately show ?thesis using free inv2 seen by (intro exI [of _ False] exI [of _ ?seen]) auto
  next
    case full
    let ?b = "\<lparr>block_expires_at = t + duration_seconds (ap_block_duration_seconds p)\<rparr>"
    let ?refused = "db1\<lparr>p_blocks := put_json (activity_key a ip) ?b (p_blocks db1)\<rparr>"
    have "observe_activity_tx a ip t db = Inr (True, ?refused)" using full by (auto simp: eq)
    moreover have "blocked_until ?refused a ip \<noteq> None" by (simp add: blocked_until_def put_json_def)
    ultimately show ?thesis using full inv2 slots
      by (intro exI [of _ True] exI [of _ ?refused]) (auto simp: slot_count_def)
  qed
qed

text \<open>C7. Source addresses are admitted up to the limit: \<^verbatim>\<open>ObserveActivity\<close> refuses an address exactly when
  it is blocked already, or it holds no live slot and the live slots have reached the limit; an admitted address
  holds a live slot afterwards, a refused one a block, and the live slots never grow beyond the limit.\<close>

theorem soft_ip_limit_enforced:
  assumes "policy_sdk_ok sdk" and "policy_inv sdk db" and p: "p \<in> set (granted db)" "ap_authorization_id p = a"
    and limit: "ap_soft_ip_limit p = Some limit" and "sdk_validate_identifier sdk a" and "sdk_canonical_ip sdk ip"
    and "\<not> time_is_zero t" and window: "activity_cutoff p t < t"
  shows "\<exists>blocked db'. observe_activity sdk None a ip t db = (Inr blocked, db') \<and> policy_inv sdk db' \<and>
           (blocked \<longleftrightarrow> (\<exists>e. blocked_until db a ip = Some e \<and> t < e) \<or>
              ip \<notin> slot_addresses db a (activity_cutoff p t) \<and> unat limit \<le> slot_count db a (activity_cutoff p t)) \<and>
           (blocked \<longrightarrow> blocked_until db' a ip \<noteq> None) \<and>
           (\<not> blocked \<longrightarrow> ip \<in> slot_addresses db' a (activity_cutoff p t)) \<and>
           slot_count db' a (activity_cutoff p t) \<le> max (unat limit) (slot_count db a (activity_cutoff p t))"
  using observe_tx_admits [OF assms(1-5) window, of ip] assms(6-8) by (auto simp: observe_activity_def db_update_def)

theorem soft_ip_limit_enforced_witness:
  "\<exists>blocked db'. observe_activity demo_sdk None ''alice'' ''::1'' 10 demo_db = (Inr blocked, db') \<and>
     slot_count db' ''alice'' (activity_cutoff demo_policy 10) \<le> 1"
proof -
  have empty: "slot_addresses demo_db ''alice'' c = {}" for c
    by (simp add: slot_addresses_def demo_db_def empty_policy_db_def)
  have mem: "demo_policy \<in> set (granted demo_db)" "ap_authorization_id demo_policy = ''alice''" "ap_soft_ip_limit demo_policy = Some 1"
    by (simp_all add: demo_granted demo_policy_def)
  have window: "activity_cutoff demo_policy 10 < 10"
    by (simp add: activity_cutoff_def minus_duration_seconds_def demo_policy_def)
  show ?thesis
    using soft_ip_limit_enforced [OF demo_sdk_ok demo_policy_inv mem _ _ _ window, of "''::1''"]
    by (auto simp: empty slot_count_def time_is_zero_def) (auto simp: demo_sdk_def)
qed

subsection \<open>Desired state\<close>

text \<open>C8. \<^verbatim>\<open>Desired\<close> covers every binding: for each granted authorization and each of its bindings
  the answer holds the service under that binding's key, not as an orphan, with the current generation,
  and with exactly the decision that the current ledger of the authorization calls for.\<close>

theorem desired_covers_every_binding:
  assumes "desired sdk iter rf f now db = (Inr (services, blocks), db')" and "policy_sdk_ok sdk"
    and "store_ok sdk db" and "any_order iter" and "policy_generation db \<noteq> 0"
    and "p \<in> set (granted db')" "b \<in> set (ap_bindings p)"
  shows "\<exists>l v. ledger_of db' (ap_authorization_id p) = Some l \<and> v \<in> set services \<and> sv_key v = binding_key p b \<and>
    sv_plugin_id v = pb_plugin_id b \<and> \<not> sv_orphan v \<and> sv_requires_soft_ip v = (ap_soft_ip_limit p \<noteq> None) \<and>
    rq_policy_generation (sv_request v) = policy_generation db \<and> rq_authorization_id (sv_request v) = ap_authorization_id p \<and>
    rq_service_id (sv_request v) = pb_service_id b \<and>
    (rq_enabled (sv_request v), rq_reason (sv_request v)) = enforcement_state p l now"
  by (rule desired_covers_binding [OF assms])

definition demo_service :: desired_service where
  "demo_service =
     \<lparr>ds_plugin_id = ''wire'', ds_authorization_id = ''alice'', ds_service_id = ''vpn'', ds_policy_generation = 1,
      ds_state_revision = 1, ds_enabled = True, ds_reason = ReasonActive, ds_orphan = False\<rparr>"

definition demo_public :: public_service where
  "demo_public = (public_desired_service demo_service)\<lparr>sv_requires_soft_ip := True\<rparr>"

lemma demo_refresh: "refresh demo_sdk None 10 demo_db = (Inr (), demo_db)"
proof -
  have "fresh_activity 10 demo_db demo_policy"
    by (simp add: fresh_activity_iff [OF demo_policy_inv]) (simp add: demo_db_def empty_policy_db_def)
  moreover have "sdk_current_period demo_sdk (ap_reset demo_policy) (ap_started_at demo_policy) 10 = Some (ap_current_period demo_policy)"
    by (simp add: demo_sdk_def demo_policy_def demo_period_def)
  ultimately have "policy_fresh demo_sdk 10 demo_db demo_policy"
    using demo_ledger_current by (auto simp: policy_fresh_def current_ledger_def) (simp add: demo_sdk_def)
  then have "refresh_tx demo_sdk 10 demo_db = Inr ((), demo_db)"
    by (intro refresh_fresh) (simp_all add: demo_granted demo_policy_inv)
  then show ?thesis by (simp add: refresh_def time_is_zero_def db_update_def)
qed

lemma demo_ensure_service:
  "ensure_desired_service (binding_key demo_policy demo_binding)
     (wanted 1 (True, ReasonActive) demo_policy demo_binding) demo_db =
   Inr (demo_service, demo_db\<lparr>p_meta := put_uint64 key_state_revision 1 (p_meta demo_db),
     p_desired_services := [(binding_key demo_policy demo_binding, Json demo_service)]\<rparr>)"
proof -
  have "next_revision key_state_revision demo_db =
      Inr (1, demo_db\<lparr>p_meta := put_uint64 key_state_revision 1 (p_meta demo_db)\<rparr>)"
    by (simp add: next_revision_def demo_db_def max_int64_def)
  then show ?thesis
    by (simp add: ensure_desired_service_def get_json_def demo_db_def empty_policy_db_def Let_def put_json_def bucket_put.simps
        demo_service_def wanted_def demo_policy_def demo_binding_def)
qed

lemma demo_ensure_blocks:
  assumes "read_uint64 (bucket_get m0 key_block_revision) = 0"
  shows "\<exists>r m b. ensure_desired_blocks demo_sdk ''wire'' 1 [] (demo_db\<lparr>p_meta := m0, p_desired_services := d\<rparr>) =
     Inr (r, demo_db\<lparr>p_meta := m, p_desired_services := d, p_desired_blocks := b\<rparr>)"
  using assms
  by (simp add: ensure_desired_blocks_def Let_def demo_db_def empty_policy_db_def get_json_def next_revision_def demo_sdk_def max_int64_def)


lemma demo_desired:
  "\<exists>blocks db'. desired demo_sdk (\<lambda>x. x) None None 10 demo_db = (Inr ([demo_public], blocks), db') \<and>
     desired_of db' (binding_key demo_policy demo_binding) = Some demo_service"
proof -
  have state: "enforcement_state demo_policy demo_ledger 10 = (True, ReasonActive)"
    by (simp add: enforcement_state_def demo_policy_def demo_ledger_def fresh_ledger_def)
  let ?m = "put_uint64 key_state_revision 1 (p_meta demo_db)"
  let ?db = "demo_db\<lparr>p_meta := ?m, p_desired_services := [(binding_key demo_policy demo_binding, Json demo_service)]\<rparr>"

  have plugin: "ap_bindings demo_policy = [demo_binding]" "pb_plugin_id demo_binding = ''wire''" "ap_soft_ip_limit demo_policy = Some 1"
    by (simp_all add: demo_policy_def demo_binding_def)
  have empty: "p_orphans demo_db = []" "p_blocks demo_db = []" "p_desired_blocks demo_db = []"
    by (simp_all add: demo_db_def empty_policy_db_def)
  have "desired_policy demo_sdk 10 1 demo_policy (\<lparr>da_services = [], da_blocks = (\<lambda>_. []), da_plugins = []\<rparr>, demo_db) =
      Inr (\<lparr>da_services = [demo_public], da_blocks = (\<lambda>_. []), da_plugins = [''wire'']\<rparr>, ?db)"
    by (simp add: desired_policy_def demo_ledger_current state plugin desired_binding_eq demo_public_def Let_def
        append_policy_blocks_def seek_prefix_def empty demo_ensure_service)
  moreover have "read_uint64 (bucket_get ?m key_block_revision) = 0" by (simp add: demo_db_def)
  then obtain r m b where "ensure_desired_blocks demo_sdk ''wire'' 1 [] ?db =
     Inr (r, demo_db\<lparr>p_meta := m, p_desired_services := [(binding_key demo_policy demo_binding, Json demo_service)], p_desired_blocks := b\<rparr>)"
    using demo_ensure_blocks by blast
  ultimately show ?thesis
    by (simp add: desired_def demo_refresh db_update_def desired_tx_def demo_read demo_generation empty desired_plugin_blocks_def desired_of_def
        bucket_get_def)
qed

theorem desired_covers_every_binding_witness:
  "\<exists>services blocks db' v. desired demo_sdk (\<lambda>x. x) None None 10 demo_db = (Inr (services, blocks), db') \<and> v \<in> set services \<and>
     sv_key v = binding_key demo_policy demo_binding"
proof -
  obtain blocks db' where run: "desired demo_sdk (\<lambda>x. x) None None 10 demo_db = (Inr ([demo_public], blocks), db')"
    using demo_desired by blast
  obtain db1 where "refresh_tx demo_sdk 10 demo_db = Inr ((), db1)" "\<exists>s b. desired_tx demo_sdk (\<lambda>x. x) 10 db1 = Inr ((s, b), db')"
    by (rule desired_Inr [OF run]) blast
  then have "granted db' = [demo_policy]"
    using demo_refresh desired_tx_settles(2) [OF _ demo_sdk_ok demo_store_ok, of "\<lambda>x. x"] demo_granted
    by (auto simp: refresh_def db_update_def time_is_zero_def demo_generation)
  then show ?thesis
    using desired_covers_every_binding [OF run demo_sdk_ok demo_store_ok, of demo_policy demo_binding] run
    by (auto simp: demo_generation demo_policy_def)
qed

text \<open>\<^verbatim>\<open>Desired\<close> is idempotent: asked again at the same time, in whatever iteration order, it gives
  the same answer and writes nothing, so no new revision is handed out for a state that has not changed.\<close>

theorem desired_is_idempotent:
  assumes "desired sdk iter rf f now db = (Inr (services, blocks), db')" and "policy_sdk_ok sdk"
    and "store_ok sdk db" and "any_order iter" and "any_order iter'"
  shows "desired sdk iter' None None now db' = (Inr (services, blocks), db')"
  by (rule desired_again [OF assms])

theorem desired_is_idempotent_witness:
  "\<exists>blocks db'. desired demo_sdk rev None None 10 db' = (Inr ([demo_public], blocks), db')"
proof -
  obtain blocks db' where "desired demo_sdk (\<lambda>x. x) None None 10 demo_db = (Inr ([demo_public], blocks), db')"
    using demo_desired by blast
  from desired_is_idempotent [OF this demo_sdk_ok demo_store_ok, of rev] show ?thesis by auto
qed

text \<open>C9. Revisions identify states: whatever operations run in between, a service (or the block list of a
  plugin) that carries the same revision at two moments has not changed between them, and generation and
  revision counters never go back.\<close>

theorem revisions_identify_states:
  assumes "policy_sdk_ok sdk" and "store_ok sdk db" and "policy_run sdk db db'"
  shows "policy_generation db \<le> policy_generation db' \<and> state_revision db \<le> state_revision db' \<and>
         block_revision db \<le> block_revision db' \<and>
         (\<forall>k d d'. desired_of db k = Some d \<longrightarrow> desired_of db' k = Some d' \<longrightarrow>
            ds_state_revision d = ds_state_revision d' \<longrightarrow> d = d') \<and>
         (\<forall>k c c'. desired_blocks_of db k = Some c \<longrightarrow> desired_blocks_of db' k = Some c' \<longrightarrow>
            dk_block_revision c = dk_block_revision c' \<longrightarrow> c = c')"
proof -
  have ev: "evolves db db'" using policy_run_good [OF assms(3,1,2)] by (simp add: good_step_def)
  have dinv: "desired_inv sdk db" using assms(2) by (simp add: store_ok_def)
  have old: "ds_state_revision d \<le> state_revision db" if "desired_of db k = Some d" for k d
    using desired_of_cell [OF dinv that] by (simp add: service_ok_def)
  have oldb: "dk_block_revision c \<le> block_revision db" if "desired_blocks_of db k = Some c" for k c
    using that dinv cells_ok_get_json [of "blocks_ok sdk db" "p_desired_blocks db" DecodeFailed k c]
      desired_blocks_of_get [of db k c DecodeFailed]
    by (auto simp: desired_inv_def blocks_ok_def)
  have "d = d'" if "desired_of db k = Some d" "desired_of db' k = Some d'" "ds_state_revision d = ds_state_revision d'" for k d d'
  proof -
    have "desired_of db k = Some d' \<or> state_revision db < ds_state_revision d'" using ev that(2) by (simp add: evolves_def)
    with old [OF that(1)] that(1,3) show ?thesis by auto
  qed
  moreover have "c = c'" if "desired_blocks_of db k = Some c" "desired_blocks_of db' k = Some c'"
    "dk_block_revision c = dk_block_revision c'" for k c c'
  proof -
    have "desired_blocks_of db k = Some c' \<or> block_revision db < dk_block_revision c'" using ev that(2) by (simp add: evolves_def)
    with oldb [OF that(1)] that(1,3) show ?thesis by auto
  qed
  ultimately show ?thesis using ev by (simp add: evolves_def)
qed

theorem revisions_identify_states_witness:
  "\<exists>db'. policy_run demo_sdk demo_db db' \<and> desired_of db' (binding_key demo_policy demo_binding) = Some demo_service \<and>
     state_revision demo_db \<le> state_revision db'"
proof -
  obtain blocks db' where run: "desired demo_sdk (\<lambda>x. x) None None 10 demo_db = (Inr ([demo_public], blocks), db')"
    and d: "desired_of db' (binding_key demo_policy demo_binding) = Some demo_service"
    using demo_desired by blast
  have "policy_run demo_sdk demo_db db'"
    by (rule run_step [OF run_start step_desired [OF any_order_id(1) run]])
  with revisions_identify_states [OF demo_sdk_ok demo_store_ok] d show ?thesis by blast
qed

subsection \<open>Confirmation and status\<close>

text \<open>Confirmation is remembered per plugin instance: once an instance has confirmed a service state it
  is not asked to apply it again, every other instance is; a confirmed orphan is forgotten.\<close>

theorem confirmed_service_not_applied_again:
  assumes "mark_service_applied fault value instance_id db = (Inr (), db')"
  shows "service_needs_apply db' value other = Inr (other \<noteq> instance_id) \<and>
         (sv_orphan value \<longrightarrow> desired_of db' (sv_key value) = None \<and> bucket_get (p_orphans db') (sv_key value) = None)"
proof -
  let ?d = "desired_service_from_request (sv_plugin_id value) (sv_request value) (sv_orphan value)"
  let ?db1 = "db\<lparr>p_applied_services := put_json (sv_key value) \<lparr>as_instance_id = instance_id, as_desired = ?d\<rparr> (p_applied_services db)\<rparr>"
  from assms have "db' = (if sv_orphan value then ?db1\<lparr>p_orphans := bucket_delete (sv_key value) (p_orphans db),
              p_desired_services := bucket_delete (sv_key value) (p_desired_services db)\<rparr> else ?db1)"
    by (auto simp: mark_service_applied_def db_update_Inr_iff mark_service_applied_tx_def Let_def and_then_Inr_iff
        split: option.splits if_splits)
  then show ?thesis
    by (auto simp: service_needs_apply_def get_json_def put_json_def decode_def same_desired_service_eq desired_of_def)
qed

theorem confirmed_service_not_applied_again_witness:
  "\<exists>db db'. mark_service_applied None demo_public ''instance'' db = (Inr (), db') \<and>
     service_needs_apply db' demo_public ''instance'' = Inr False"
proof -
  let ?db = "demo_db\<lparr>p_desired_services := [(sv_key demo_public, Json demo_service)]\<rparr>"
  have "desired_service_from_request (sv_plugin_id demo_public) (sv_request demo_public) (sv_orphan demo_public) = demo_service"
    using request_roundtrip [of demo_service] by (simp add: demo_public_def)
  then have "\<exists>db'. mark_service_applied None demo_public ''instance'' ?db = (Inr (), db')"
    by (simp add: mark_service_applied_def mark_service_applied_tx_def db_update_def get_json_def bucket_get_def decode_def Let_def
        same_desired_service_eq)
  then obtain db' where "mark_service_applied None demo_public ''instance'' ?db = (Inr (), db')" by blast
  with confirmed_service_not_applied_again [OF this, of "''instance''"] show ?thesis by auto
qed

text \<open>What the confirmation of an authorization depends on.\<close>

definition same_confirmations :: "policy_db \<Rightarrow> policy_db \<Rightarrow> bool" where
  "same_confirmations db db' \<longleftrightarrow> same_enforcement db db' \<and> p_orphans db' = p_orphans db \<and> p_policies db' = p_policies db"

lemma authorization_applied_cong:
  assumes "same_confirmations db db'"
  shows "authorization_applied db' p instances = authorization_applied db p instances"
proof -
  have same: "p_desired_services db' = p_desired_services db" "p_applied_services db' = p_applied_services db"
    "p_desired_blocks db' = p_desired_blocks db" "p_applied_blocks db' = p_applied_blocks db"
    using assms by (simp_all add: same_confirmations_def same_enforcement_def)
  have "binding_applied db' p instances checked b = binding_applied db p instances checked b" for checked b
    unfolding binding_applied_def same ..
  then have bs: "bindings_applied db' p instances checked bs = bindings_applied db p instances checked bs" for checked bs
    by (induction bs arbitrary: checked) (simp_all cong: if_cong)
  have "p_orphans db' = p_orphans db" using assms by (simp add: same_confirmations_def)
  then show ?thesis unfolding authorization_applied_def bs by simp
qed

lemma same_confirmations_trans: "same_confirmations a b \<Longrightarrow> same_confirmations b c \<Longrightarrow> same_confirmations a c"
  by (auto simp: same_confirmations_def intro: same_enforcement_trans)

text \<open>What \<^verbatim>\<open>authorizationApplied\<close> has checked when it answers yes: no orphan of the authorization is left, and for every binding the running
  instance of its plugin is the one that confirmed the desired service, and the plugin's desired blocks where it has any.\<close>

definition service_confirmed :: "policy_db \<Rightarrow> string \<Rightarrow> string \<Rightarrow> bool" where
  "service_confirmed db key i \<longleftrightarrow> (\<exists>d. bucket_get (p_desired_services db) key = Some (Json d) \<and>
     bucket_get (p_applied_services db) key = Some (Json \<lparr>as_instance_id = i, as_desired = d\<rparr>))"

definition blocks_confirmed :: "policy_db \<Rightarrow> string \<Rightarrow> string \<Rightarrow> bool" where
  "blocks_confirmed db plugin i \<longleftrightarrow> (\<forall>d. bucket_get (p_desired_blocks db) plugin = Some (Json d) \<longrightarrow>
     (\<exists>a. bucket_get (p_applied_blocks db) plugin = Some (Json a) \<and> ak_instance_id a = i \<and>
        dk_policy_generation (ak_desired a) = dk_policy_generation d \<and> dk_block_revision (ak_desired a) = dk_block_revision d \<and>
        dk_digest (ak_desired a) = dk_digest d))"

lemma binding_applied_True:
  assumes "binding_applied db p instances checked b = Inr True"
  shows "instances (pb_plugin_id b) \<noteq> []" and "service_confirmed db (binding_key p b) (instances (pb_plugin_id b))"
    and "pb_plugin_id b \<in> set checked \<or> blocks_confirmed db (pb_plugin_id b) (instances (pb_plugin_id b))"
proof -
  let ?i = "instances (pb_plugin_id b)"
  show i: "?i \<noteq> []" using assms by (auto simp: binding_applied_def)
  from assms i obtain d a where d: "get_json DecodeFailed (p_desired_services db) (binding_key p b) = Inr (Some d)"
    "get_json DecodeFailed (p_applied_services db) (binding_key p b) = Inr (Some a)" "as_instance_id a = ?i" "as_desired a = d"
    by (auto simp: binding_applied_def Let_def and_then_Inr_iff binding_key_def same_desired_service_eq
        split: option.split_asm if_split_asm)
  have "a = \<lparr>as_instance_id = ?i, as_desired = d\<rparr>" using d(3,4) by simp
  with d(1,2) show "service_confirmed db (binding_key p b) ?i" by (simp add: service_confirmed_def get_json_Some_iff)
  have "blocks_confirmed db (pb_plugin_id b) ?i" if "pb_plugin_id b \<notin> set checked"
    unfolding blocks_confirmed_def
  proof (intro allI impI)
    fix e assume "bucket_get (p_desired_blocks db) (pb_plugin_id b) = Some (Json e)"
    then have "get_json DecodeFailed (p_desired_blocks db) (pb_plugin_id b) = Inr (Some e)" by (simp add: get_json_Some_iff)
    with assms i d that obtain c where "get_json DecodeFailed (p_applied_blocks db) (pb_plugin_id b) = Inr (Some c)"
      "ak_instance_id c = ?i" "same_desired_blocks (ak_desired c) e"
      by (auto simp: binding_applied_def Let_def binding_key_def and_then_Inr_iff same_desired_service_eq split: option.splits)
    then show "\<exists>a. bucket_get (p_applied_blocks db) (pb_plugin_id b) = Some (Json a) \<and> ak_instance_id a = ?i \<and>
        dk_policy_generation (ak_desired a) = dk_policy_generation e \<and> dk_block_revision (ak_desired a) = dk_block_revision e \<and>
        dk_digest (ak_desired a) = dk_digest e"
      by (auto simp: get_json_Some_iff same_desired_blocks_def)
  qed
  then show "pb_plugin_id b \<in> set checked \<or> blocks_confirmed db (pb_plugin_id b) ?i" by blast
qed

lemma bindings_applied_True:
  assumes "bindings_applied db p instances checked bs = Inr True"
    and "\<forall>plugin \<in> set checked. blocks_confirmed db plugin (instances plugin)"
  shows "\<forall>b \<in> set bs. instances (pb_plugin_id b) \<noteq> [] \<and> service_confirmed db (binding_key p b) (instances (pb_plugin_id b)) \<and>
    blocks_confirmed db (pb_plugin_id b) (instances (pb_plugin_id b))"
  using assms
proof (induction bs arbitrary: checked)
  case (Cons b bs)
  then have b: "binding_applied db p instances checked b = Inr True"
    and bs: "bindings_applied db p instances (pb_plugin_id b # checked) bs = Inr True"
    by (auto simp: and_then_Inr_iff split: if_splits)
  note now = binding_applied_True [OF b]
  from now(3) Cons.prems(2) have blocks: "blocks_confirmed db (pb_plugin_id b) (instances (pb_plugin_id b))" by blast
  with Cons.IH [OF bs] Cons.prems(2) now(1,2) show ?case by simp
qed simp

lemma authorization_applied_True:
  assumes "authorization_applied db p instances = Inr True"
  shows "\<forall>(k, raw) \<in> set (p_orphans db). \<exists>o'. raw = Json o' \<and> ds_authorization_id o' \<noteq> ap_authorization_id p"
    and "\<forall>b \<in> set (ap_bindings p). instances (pb_plugin_id b) \<noteq> [] \<and> service_confirmed db (binding_key p b) (instances (pb_plugin_id b)) \<and>
      blocks_confirmed db (pb_plugin_id b) (instances (pb_plugin_id b))"
proof -
  from assms obtain os where os: "list_all2 (\<lambda>e v. decode DecodeFailed (snd e) = Inr v) (p_orphans db) os"
    "\<forall>v \<in> set os. ds_authorization_id v \<noteq> ap_authorization_id p" and bs: "bindings_applied db p instances [] (ap_bindings p) = Inr True"
    by (auto simp: authorization_applied_def and_then_Inr_iff map_res_Inr_iff split: if_splits)
  show "\<forall>(k, raw) \<in> set (p_orphans db). \<exists>o'. raw = Json o' \<and> ds_authorization_id o' \<noteq> ap_authorization_id p"
  proof
    fix e assume "e \<in> set (p_orphans db)"
    with os(1) obtain v where "v \<in> set os" "decode DecodeFailed (snd e) = Inr v"
      by (auto simp: list_all2_conv_all_nth in_set_conv_nth) (metis nth_mem)
    with os(2) show "case e of (k, raw) \<Rightarrow> \<exists>o'. raw = Json o' \<and> ds_authorization_id o' \<noteq> ap_authorization_id p"
      by (cases e) (auto simp: decode_def split: json.splits)
  qed
  show "\<forall>b \<in> set (ap_bindings p). instances (pb_plugin_id b) \<noteq> [] \<and> service_confirmed db (binding_key p b) (instances (pb_plugin_id b)) \<and>
      blocks_confirmed db (pb_plugin_id b) (instances (pb_plugin_id b))"
    by (rule bindings_applied_True [OF bs]) simp
qed

text \<open>What one authorization's step does to the statuses and ledgers.\<close>

definition reported :: "policy_sdk \<Rightarrow> time \<Rightarrow> (string \<Rightarrow> string) \<Rightarrow> u64 \<Rightarrow> policy_db \<Rightarrow> authorization_policy \<Rightarrow> bool" where
  "reported sdk now instances generation db p \<longleftrightarrow>
     authorization_applied db p instances = Inr True \<and>
     (\<exists>l counts digest. ledger_of db (ap_authorization_id p) = Some l \<and>
        bucket_get (p_statuses db) (ap_authorization_id p) =
          Some (Json \<lparr>ss_digest = digest, ss_queued = False,
                      ss_event = status_event generation p l (enforcement_state p l now) counts\<rparr>))"

lemma refresh_status_effect:
  assumes res: "refresh_status sdk now instances generation p db = Inr db'"
  shows "same_confirmations db db' \<and>
    (\<forall>k. k \<noteq> ap_authorization_id p \<longrightarrow> bucket_get (p_statuses db') k = bucket_get (p_statuses db) k \<and>
       ledger_of db' k = ledger_of db k) \<and>
    (bucket_get (p_statuses db') (ap_authorization_id p) \<noteq> bucket_get (p_statuses db) (ap_authorization_id p) \<longrightarrow>
       reported sdk now instances generation db' p)"
proof -
  let ?a = "ap_authorization_id p"
  from res obtain applied where applied: "authorization_applied db p instances = Inr applied"
    by (auto simp: refresh_status_def and_then_Inr_iff)
  show ?thesis
  proof (cases applied)
    case False
    with res applied show ?thesis by (simp add: refresh_status_def same_confirmations_def)
  next
    case True
    with res applied obtain l db1 counts where l: "ensure_ledger sdk p now db = Inr (l, db1)" and
      up: "update_status sdk (status_event generation p l (enforcement_state p l now) counts) db1 = Inr db'"
      by (auto simp: refresh_status_def and_then_Inr_iff)
    obtain L P where frame: "db1 = db\<lparr>p_ledgers := L, p_pending := P\<rparr>" by (rule ensure_ledger_frame [OF l])
    let ?e = "status_event generation p l (enforcement_state p l now) counts"
    have a: "st_authorization_id ?e = ?a" by (simp add: status_event_def)
    from up a consider "db' = db1" | digest where "db' = db1\<lparr>p_statuses := put_json ?a
        \<lparr>ss_digest = digest, ss_queued = False, ss_event = ?e\<rparr> (p_statuses db1)\<rparr>"
      by (auto simp: update_status_def and_then_Inr_iff split: if_splits option.splits)
    then have step: "same_confirmations db1 db' \<and> p_ledgers db' = p_ledgers db1 \<and>
        (\<forall>k. k \<noteq> ?a \<longrightarrow> bucket_get (p_statuses db') k = bucket_get (p_statuses db1) k) \<and>
        (bucket_get (p_statuses db') ?a = bucket_get (p_statuses db1) ?a \<or>
         (\<exists>digest. bucket_get (p_statuses db') ?a = Some (Json \<lparr>ss_digest = digest, ss_queued = False, ss_event = ?e\<rparr>)))"
      by cases (auto simp: same_confirmations_def same_enforcement_def put_json_def)
    have same: "same_confirmations db db1" "p_statuses db1 = p_statuses db"
      by (simp_all add: frame same_confirmations_def same_enforcement_def)
    have all: "same_confirmations db db'" using same(1) step same_confirmations_trans by blast
    have "ledger_of db1 ?a = Some l" using ensure_ledger_get [OF l] by (simp add: ledger_of_def)
    then have "ledger_of db' ?a = Some l" using step by (simp add: ledger_of_def)
    moreover have "authorization_applied db' p instances = Inr True"
      using applied True authorization_applied_cong [OF all] by simp
    moreover have "ledger_of db' k = ledger_of db k" if "k \<noteq> ?a" for k
      using ensure_ledger_others [OF l that] step by (simp add: ledger_of_def)
    moreover have "reported sdk now instances generation db' p"
      if "bucket_get (p_statuses db') ?a \<noteq> bucket_get (p_statuses db) ?a"
      using that step same(2) calculation(1,2) unfolding reported_def by metis
    ultimately show ?thesis using step same all by auto
  qed
qed

lemma reported_cong:
  assumes "reported sdk now instances generation db p" and "same_confirmations db db'"
    and "bucket_get (p_statuses db') (ap_authorization_id p) = bucket_get (p_statuses db) (ap_authorization_id p)"
    and "ledger_of db' (ap_authorization_id p) = ledger_of db (ap_authorization_id p)"
  shows "reported sdk now instances generation db' p"
  using assms authorization_applied_cong [OF assms(2)] by (simp add: reported_def)

lemma refresh_statuses_effect:
  assumes "fold_res (refresh_status sdk now instances generation) ps db = Inr db'"
    and "distinct (map ap_authorization_id ps)"
  shows "same_confirmations db db' \<and>
    (\<forall>k. k \<notin> ap_authorization_id ` set ps \<longrightarrow> bucket_get (p_statuses db') k = bucket_get (p_statuses db) k \<and>
       ledger_of db' k = ledger_of db k) \<and>
    (\<forall>p \<in> set ps. bucket_get (p_statuses db') (ap_authorization_id p) \<noteq> bucket_get (p_statuses db) (ap_authorization_id p) \<longrightarrow>
       reported sdk now instances generation db' p)"
  using assms
proof (induction ps arbitrary: db)
  case Nil
  then show ?case by (simp add: same_confirmations_def)
next
  case (Cons p ps)
  then obtain db1 where 1: "refresh_status sdk now instances generation p db = Inr db1" and
    2: "fold_res (refresh_status sdk now instances generation) ps db1 = Inr db'"
    by (auto simp: and_then_Inr_iff)
  note e1 = refresh_status_effect [OF 1]
  have e2: "same_confirmations db1 db' \<and>
    (\<forall>k. k \<notin> ap_authorization_id ` set ps \<longrightarrow> bucket_get (p_statuses db') k = bucket_get (p_statuses db1) k \<and>
       ledger_of db' k = ledger_of db1 k) \<and>
    (\<forall>p \<in> set ps. bucket_get (p_statuses db') (ap_authorization_id p) \<noteq> bucket_get (p_statuses db1) (ap_authorization_id p) \<longrightarrow>
       reported sdk now instances generation db' p)"
    by (rule Cons.IH [OF 2]) (use Cons.prems in simp)
  have fresh: "ap_authorization_id p \<notin> ap_authorization_id ` set ps" using Cons.prems(2) by auto
  have "reported sdk now instances generation db' p"
    if "bucket_get (p_statuses db') (ap_authorization_id p) \<noteq> bucket_get (p_statuses db) (ap_authorization_id p)"
    using that e1 e2 fresh by (intro reported_cong [of sdk now instances generation db1 p db']) auto
  moreover have "reported sdk now instances generation db' q" if "q \<in> set ps"
    "bucket_get (p_statuses db') (ap_authorization_id q) \<noteq> bucket_get (p_statuses db) (ap_authorization_id q)" for q
  proof -
    have "ap_authorization_id q \<noteq> ap_authorization_id p" using that(1) fresh by (metis imageI)
    with that e1 e2 show ?thesis by metis
  qed
  ultimately show ?case using e1 e2 same_confirmations_trans by auto
qed

lemma refresh_tx_confirmations:
  assumes "refresh_tx sdk now db = Inr (u, db')"
  shows "p_statuses db' = p_statuses db"
proof -
  have step: "p_statuses db2 = p_statuses db1" if "refresh_policy sdk now p db1 = Inr db2" for p db1 db2
    using that
  proof (rule refresh_policy_Inr)
    fix l db0 dbe assume "db0 = db1 \<and> renew_period sdk now p = p \<or> db0 = store_policy (renew_period sdk now p) db1"
      and l: "ensure_ledger sdk (renew_period sdk now p) now db0 = Inr (l, dbe)"
      and c: "clean_authorization_activity (renew_period sdk now p) now dbe = Inr db2"
    moreover have "p_statuses dbe = p_statuses db0" by (rule ensure_ledger_frame [OF l]) simp
    ultimately show ?thesis
      by (auto simp: clean_authorization_activity_def Let_def and_then_Inr_iff store_policy_def)
  qed
  from assms obtain ps where "fold_res (refresh_policy sdk now) ps db = Inr db'"
    by (auto simp: refresh_tx_def and_then_Inr_iff)
  then show ?thesis using fold_res_invariant [of _ _ _ _ "\<lambda>s. p_statuses s = p_statuses db"] step by metis
qed

text \<open>C10. A status is only reported once it is in force: when \<^verbatim>\<open>RefreshStatuses\<close> changes the status of an
  authorization, there is a granted policy for it; no orphan of it is left; for every binding of that policy the running
  instance of the plugin has confirmed exactly the desired service and, where the plugin has desired blocks, their
  generation, revision and digest; and the new status carries the usage of the current ledger and the
  decision that follows from it.\<close>

theorem status_reports_what_is_in_force:
  assumes "refresh_statuses sdk rf fault now instances db = (r, db')" and "policy_sdk_ok sdk" and "policy_inv sdk db"
    and "bucket_get (p_statuses db') a \<noteq> bucket_get (p_statuses db) a"
  shows "\<exists>p l counts digest. p \<in> set (granted db') \<and> ap_authorization_id p = a \<and>
           (\<forall>(k, raw) \<in> set (p_orphans db'). \<exists>orphan. raw = Json orphan \<and> ds_authorization_id orphan \<noteq> a) \<and>
           (\<forall>b \<in> set (ap_bindings p). let i = instances (pb_plugin_id b); key = service_key (pb_plugin_id b) a (pb_service_id b) in i \<noteq> [] \<and>
              (\<exists>d. bucket_get (p_desired_services db') key = Some (Json d) \<and>
                 bucket_get (p_applied_services db') key = Some (Json \<lparr>as_instance_id = i, as_desired = d\<rparr>)) \<and>
              (\<forall>d. bucket_get (p_desired_blocks db') (pb_plugin_id b) = Some (Json d) \<longrightarrow>
                 (\<exists>c. bucket_get (p_applied_blocks db') (pb_plugin_id b) = Some (Json c) \<and> ak_instance_id c = i \<and>
                    dk_policy_generation (ak_desired c) = dk_policy_generation d \<and>
                    dk_block_revision (ak_desired c) = dk_block_revision d \<and> dk_digest (ak_desired c) = dk_digest d))) \<and>
           ledger_of db' a = Some l \<and> bucket_get (p_statuses db') a =
             Some (Json \<lparr>ss_digest = digest, ss_queued = False,
                         ss_event = status_event (policy_generation db') p l (enforcement_state p l now) counts\<rparr>)"
proof -
  obtain r1 db1 where r1: "refresh sdk rf now db = (r1, db1)" by force
  note cases = refresh_cases [OF r1 assms(2,3)]
  have st1: "p_statuses db1 = p_statuses db" using cases refresh_tx_confirmations by blast
  have "r1 = Inr () \<and> db_update fault (refresh_statuses_tx sdk now instances) db1 = (r, db')"
    using assms(1,4) r1 st1 by (auto simp: refresh_statuses_def split: sum.splits)
  then have upd: "db_update fault (refresh_statuses_tx sdk now instances) db1 = (r, db')" by simp
  then obtain u where tx: "refresh_statuses_tx sdk now instances db1 = Inr (u, db')"
    using assms(4) st1 by (cases r) (auto simp: db_update_Inr_iff dest: db_update_rollback)
  have inv1: "policy_inv sdk db1" using cases by simp
  note cells = policy_invD(1) [OF inv1]
  have "policy_generation db1 \<noteq> 0" using tx assms(4) st1 by (auto simp: refresh_statuses_tx_def)
  with tx have fold: "fold_res (refresh_status sdk now instances (policy_generation db1)) (granted db1) db1 = Inr db'"
    by (auto simp: refresh_statuses_tx_def Let_def and_then_Inr_iff read_policies_granted [OF cells])
  note eff = refresh_statuses_effect [OF fold granted_distinct [OF cells]]
  have keep: "granted db' = granted db1" "same_enforcement db1 db'"
    using eff by (simp_all add: same_confirmations_def granted_def)
  obtain p where p: "p \<in> set (granted db1)" "ap_authorization_id p = a"
  proof -
    have "a \<in> ap_authorization_id ` set (granted db1)" using eff assms(4) st1 by metis
    then show ?thesis using that by auto
  qed
  then have rep: "reported sdk now instances (policy_generation db1) db' p" using eff assms(4) st1 by auto
  then have "authorization_applied db' p instances = Inr True" by (simp add: reported_def)
  note force = authorization_applied_True [OF this, unfolded service_confirmed_def blocks_confirmed_def binding_key_def p(2)]
  have gen: "policy_generation db' = policy_generation db1" by (rule same_enforcement_inv(3) [OF keep(2)])
  from rep obtain l counts digest where "ledger_of db' a = Some l" "bucket_get (p_statuses db') a =
      Some (Json \<lparr>ss_digest = digest, ss_queued = False,
                  ss_event = status_event (policy_generation db') p l (enforcement_state p l now) counts\<rparr>)"
    unfolding reported_def p(2) gen by blast
  with p keep(1) force show ?thesis
    by (intro exI [of _ p] exI [of _ l] exI [of _ counts] exI [of _ digest]) (simp add: Let_def)
qed

definition demo_applied_db :: policy_db where
  "demo_applied_db = demo_db\<lparr>p_desired_services := [(binding_key demo_policy demo_binding, Json demo_service)],
     p_applied_services := [(binding_key demo_policy demo_binding, Json \<lparr>as_instance_id = ''i1'', as_desired = demo_service\<rparr>)]\<rparr>"

lemma demo_applied_inv: "policy_inv demo_sdk demo_applied_db"
  using demo_policy_inv by (simp add: demo_applied_db_def)

lemma demo_applied: "authorization_applied demo_applied_db demo_policy (\<lambda>_. ''i1'') = Inr True"
  by (simp add: authorization_applied_def binding_applied_def demo_applied_db_def demo_db_def empty_policy_db_def demo_policy_def
      demo_binding_def binding_key_def get_json_def bucket_get_def decode_def same_desired_service_eq Let_def)

theorem status_reports_what_is_in_force_witness:
  "\<exists>db' s. refresh_statuses demo_sdk None None 10 (\<lambda>_. ''i1'') demo_applied_db = (Inr (), db') \<and>
     bucket_get (p_statuses db') ''alice'' = Some (Json s) \<and> st_generation (ss_event s) = policy_generation db'"
proof -
  have fresh: "policy_fresh demo_sdk 10 demo_applied_db demo_policy"
  proof -
    have "fresh_activity 10 demo_applied_db demo_policy"
      by (simp add: fresh_activity_iff [OF demo_applied_inv]) (simp add: demo_applied_db_def demo_db_def empty_policy_db_def)
    moreover have "current_ledger demo_sdk 10 demo_applied_db demo_policy demo_ledger"
      using demo_ledger_current by (simp add: current_ledger_def [symmetric] current_ledger_iff demo_applied_db_def)
    ultimately show ?thesis by (auto simp: policy_fresh_def) (simp add: demo_sdk_def demo_policy_def demo_period_def)
  qed
  have granted: "granted demo_applied_db = [demo_policy]" "policy_generation demo_applied_db = 1"
    using demo_granted demo_generation by (simp_all add: demo_applied_db_def policy_generation_def)
  then have "refresh demo_sdk None 10 demo_applied_db = (Inr (), demo_applied_db)"
    using refresh_fresh [OF _ demo_applied_inv, of 10] fresh by (simp add: refresh_def time_is_zero_def db_update_def)
  moreover have "read_policies demo_sdk demo_applied_db = Inr [demo_policy]"
    using read_policies_granted [OF policy_invD(1) [OF demo_applied_inv]] granted by simp
  moreover have l: "ensure_ledger demo_sdk demo_policy 10 demo_applied_db = Inr (demo_ledger, demo_applied_db)"
    using demo_ledger_current by (simp add: current_ledger_def [symmetric] current_ledger_iff demo_applied_db_def)
  moreover have "activity_counts demo_applied_db demo_policy = Inr (0, 0)"
    by (simp add: activity_counts_def count_prefix_def seek_prefix_def demo_applied_db_def demo_db_def empty_policy_db_def)
  moreover define e where "e = status_event 1 demo_policy demo_ledger (enforcement_state demo_policy demo_ledger 10) (0, 0)"
  have a: "st_authorization_id e = ''alice''" by (simp add: e_def status_event_def demo_policy_def)
  obtain db' where up: "update_status demo_sdk e demo_applied_db = Inr db'" "bucket_get (p_statuses db') (st_authorization_id e) \<noteq> None"
    by (simp add: update_status_def demo_sdk_def get_json_def demo_applied_db_def demo_db_def empty_policy_db_def put_json_def)
  ultimately have run: "refresh_statuses demo_sdk None None 10 (\<lambda>_. ''i1'') demo_applied_db = (Inr (), db')"
    using demo_applied granted up(1)
    by (simp add: refresh_statuses_def db_update_def refresh_statuses_tx_def refresh_status_def e_def)

  have "bucket_get (p_statuses db') ''alice'' \<noteq> bucket_get (p_statuses demo_applied_db) ''alice''"
    using up(2) a by (simp add: demo_applied_db_def demo_db_def empty_policy_db_def)
  from status_reports_what_is_in_force [OF run demo_sdk_ok demo_applied_inv this] run
  show ?thesis by (auto simp: status_event_def)
qed

subsection \<open>Telemetry cursors and runs\<close>

text \<open>The telemetry cursor of a plugin is advanced by compare-and-set: with valid arguments the call
  succeeds exactly when there is no cursor yet or the caller names the position the store would report for
  the stream; then the store reports the new position for that stream and position 0 for every other stream of
  the plugin, and no other plugin's cursor is touched. A refused call changes nothing.\<close>

theorem telemetry_cursor_compare_and_set:
  assumes "sdk_validate_plugin_id sdk plugin_id" and "telemetry_stream_ok stream_id" and "previous \<le> nxt" and "nxt \<le> max_int64"
    and "policy_inv sdk db"
  shows "\<exists>r db'. advance_telemetry_cursor sdk None plugin_id stream_id previous nxt db = (r, db') \<and>
           (r = Inr () \<longleftrightarrow> bucket_get (p_cursors db) plugin_id = None \<or>
                         telemetry_cursor_of sdk db plugin_id stream_id = Inr previous) \<and>
           (r \<noteq> Inr () \<longrightarrow> db' = db) \<and>
           (r = Inr () \<longrightarrow> telemetry_cursor_of sdk db' plugin_id stream_id = Inr nxt \<and>
              (\<forall>s. telemetry_stream_ok s \<longrightarrow> s \<noteq> stream_id \<longrightarrow> telemetry_cursor_of sdk db' plugin_id s = Inr 0) \<and>
              (\<forall>q. q \<noteq> plugin_id \<longrightarrow> bucket_get (p_cursors db') q = bucket_get (p_cursors db) q))"
proof -
  have cells: "cells_ok (\<lambda>_ c. cursor_sequence c \<le> max_int64) (p_cursors db)" using assms(5) by (simp add: policy_inv_def)
  have args: "\<not> (nxt < previous \<or> max_int64 < nxt)" using assms(3,4) by auto
  let ?db' = "db\<lparr>p_cursors := put_json plugin_id \<lparr>cursor_stream_id = stream_id, cursor_sequence = nxt\<rparr> (p_cursors db)\<rparr>"
  have stored: "telemetry_cursor_of sdk ?db' plugin_id s = Inr (if s = stream_id then nxt else 0)" if "telemetry_stream_ok s" for s
    using assms(1) that by (auto simp: telemetry_cursor_of_def get_json_def put_json_def decode_def)
  have others: "bucket_get (p_cursors ?db') q = bucket_get (p_cursors db) q" if "q \<noteq> plugin_id" for q
    using that by (simp add: put_json_def)
  show ?thesis
  proof (cases "bucket_get (p_cursors db) plugin_id")
    case None
    then have "advance_telemetry_cursor sdk None plugin_id stream_id previous nxt db = (Inr (), ?db')"
      using assms(1,2) args by (simp add: advance_telemetry_cursor_def advance_cursor_tx_def db_update_def get_json_def Let_def)
    with None stored others assms(2) show ?thesis by auto
  next
    case (Some c)
    then obtain v where v: "c = Json v" using cells_ok_get [OF cells] by auto
    have get: "get_json DecodeFailed (p_cursors db) plugin_id = Inr (Some v)" using Some v by (simp add: get_json_Some_iff)
    have cur: "telemetry_cursor_of sdk db plugin_id stream_id = Inr (if cursor_stream_id v \<noteq> stream_id then 0 else cursor_sequence v)"
      using assms(1,2) get by (simp add: telemetry_cursor_of_def)
    show ?thesis
    proof (cases "telemetry_cursor_of sdk db plugin_id stream_id = Inr previous")
      case True
      then have "advance_telemetry_cursor sdk None plugin_id stream_id previous nxt db = (Inr (), ?db')"
        using assms(1,2) args get cur
        by (auto simp: advance_telemetry_cursor_def advance_cursor_tx_def db_update_def Let_def split: if_splits)
      with True stored others assms(2) show ?thesis by auto
    next
      case False
      then have "\<exists>e. advance_telemetry_cursor sdk None plugin_id stream_id previous nxt db = (Inl e, db)"
        using assms(1,2) args get cur
        by (auto simp: advance_telemetry_cursor_def advance_cursor_tx_def db_update_def Let_def split: if_splits)
      with False Some show ?thesis by auto
    qed
  qed
qed

theorem telemetry_cursor_compare_and_set_witness:
  "\<exists>db'. advance_telemetry_cursor demo_sdk None ''wire'' (replicate 32 (CHR ''0'')) 0 7 demo_db = (Inr (), db') \<and>
     telemetry_cursor_of demo_sdk db' ''wire'' (replicate 32 (CHR ''0'')) = Inr 7"
proof -
  have stream: "telemetry_stream_ok (replicate 32 (CHR ''0''))" by (simp add: telemetry_stream_ok_def list_all_iff)
  have plugin: "sdk_validate_plugin_id demo_sdk ''wire''" by (simp add: demo_sdk_def)
  have "bucket_get (p_cursors demo_db) ''wire'' = None" by (simp add: demo_db_def empty_policy_db_def)
  with telemetry_cursor_compare_and_set [OF plugin stream _ _ demo_policy_inv, of 0 7]
  show ?thesis by (auto simp: max_int64_def word_le_nat_alt)
qed

text \<open>C11. Whatever calls are made on a new store, in any order and with any arguments, storage faults and
  restarts, its state stays well formed: every stored value decodes, keys and values agree, nothing refers to an
  authorization that is not granted, no binding is granted and orphaned at once, counters stay below the limits
  and what has been confirmed never runs ahead of what was desired.\<close>

theorem policy_store_stays_well_formed:
  assumes "policy_sdk_ok sdk" and "policy_run sdk empty_policy_db db"
  shows "policy_inv sdk db \<and> desired_inv sdk db \<and> read_policies sdk db = Inr (granted db)"
proof -
  have "store_ok sdk db"
    using policy_run_good [OF assms(2,1) empty_store_ok] by (simp add: good_step_def)
  then show ?thesis
    using read_policies_granted [OF policy_invD(1)] by (auto simp: store_ok_def)
qed

theorem policy_store_stays_well_formed_witness:
  "\<exists>db. policy_run demo_sdk empty_policy_db db \<and> policy_generation db = 1 \<and> read_policies demo_sdk db = Inr (granted db)"
proof -
  have "policy_generation empty_policy_db = 0" by (simp add: policy_generation_def empty_policy_db_def)
  then have "\<not> (1 :: u64) < policy_generation empty_policy_db" "(1 :: u64) \<noteq> policy_generation empty_policy_db"
    by (simp_all add: word_less_nat_alt)
  moreover have "sdk_validate_command demo_sdk (demo_command 1)" by (rule demo_command_valid)
  then obtain db where "install_policies (demo_command 1) ''alice'' (granted empty_policy_db) empty_policy_db = Inr db"
    and g: "policy_generation db = rc_generation (demo_command 1)"
    using install_policies_ok [OF demo_sdk_ok empty_policy_inv, of "demo_command 1" "''alice''"] by metis
  ultimately have "policy_reconcile demo_sdk None (demo_command 1) empty_policy_db = (Inr True, db)"
    using demo_command_valid [of 1] read_policies_granted [OF policy_invD(1) [OF empty_policy_inv], of demo_sdk]
    by (simp add: policy_reconcile_def reconcile_tx_def db_update_def demo_command_def Let_def)
  then have run: "policy_run demo_sdk empty_policy_db db" by (blast intro: run_start run_step step_reconcile)
  from policy_store_stays_well_formed [OF demo_sdk_ok run] run g show ?thesis by (auto simp: demo_command_def)
qed

subsection \<open>Usage that is overwritten\<close>

text \<open>The store holds one preserved snapshot per authorization and period. Three steps that occur in the
  life of an authorization, on stores that hold nothing but \<^verbatim>\<open>alice\<close>.\<close>

definition only_alice :: "u64 \<Rightarrow> ledger_state option \<Rightarrow> traffic_snapshot json bucket \<Rightarrow> policy_db \<Rightarrow> bool" where
  "only_alice g l pend db \<longleftrightarrow>
     policy_generation db = g \<and> p_pending db = pend \<and> p_statuses db = [] \<and> p_slots db = [] \<and> p_blocks db = [] \<and>
     (case l of None \<Rightarrow> p_policies db = [] \<and> p_ledgers db = [] \<and> p_counters db = []
      | Some l \<Rightarrow> p_policies db = [(''alice'', Json demo_policy)] \<and>
          (p_ledgers db = [(''alice'', Json l)] \<or> p_ledgers db = [] \<and> l = demo_ledger) \<and>
          (p_counters db = [] \<or> (\<exists>c. p_counters db = [(service_key ''wire'' ''alice'' ''vpn'', c)])))"

lemma key_parts: "split_on nul (service_key ''wire'' ''alice'' ''vpn'') = [''wire'', ''alice'', ''vpn'']"
  by (rule split_service_key) (simp_all add: nul_free_def)

lemma only_alice_read: "only_alice g (Some l) pend db \<Longrightarrow> read_policies demo_sdk db = Inr [demo_policy]"
  using demo_read by (simp add: only_alice_def read_policies_def demo_db_def)

lemma alice_removed:
  assumes "only_alice g (Some l) pend db" and "p_ledgers db = [(''alice'', Json l)]" and "g < g'"
  shows "\<exists>db'. policy_reconcile demo_sdk None \<lparr>rc_generation = g', rc_authorizations = []\<rparr> db = (Inr True, db') \<and>
           only_alice g' None (p_pending (preserve_pending_traffic l db)) db'"
proof -
  let ?cmd = "\<lparr>rc_generation = g', rc_authorizations = []\<rparr> :: reconcile_command"
  have gen: "\<not> g' < g" "g' \<noteq> g" using assms(3) by auto
  define P where "P = p_pending (preserve_pending_traffic l db)"
  have pres: "preserve_pending_traffic l d = d\<lparr>p_pending := P\<rparr>" if "p_pending d = p_pending db" for d
    using that by (simp add: preserve_pending_traffic_def Let_def P_def)
  obtain O' where "install_policies ?cmd [] [demo_policy] db =
      and_then (delete_removed_authorization_state [] (db\<lparr>p_orphans := O', p_policies := []\<rparr>)) (\<lambda>db.
        Inr (db\<lparr>p_meta := bucket_put key_snapshot_digest [] (put_uint64 key_generation g' (p_meta db))\<rparr>))"
    by (simp add: install_policies_def Let_def clear_bucket_Nil)
  moreover have "\<exists>d. delete_removed_authorization_state [] (db\<lparr>p_orphans := O', p_policies := []\<rparr>) = Inr d \<and>
      p_policies d = [] \<and> p_ledgers d = [] \<and> p_statuses d = [] \<and> p_slots d = [] \<and> p_blocks d = [] \<and>
      p_counters d = [] \<and> p_pending d = P"
  proof -
    let ?d = "db\<lparr>p_orphans := O', p_policies := []\<rparr>"
    have "fold_res (delete_removed_ledger []) (p_ledgers ?d) ?d = Inr (?d\<lparr>p_pending := P, p_ledgers := []\<rparr>)"
      using assms(2) pres [of ?d] by (simp add: delete_removed_ledger_def decode_def bucket_delete_def)
    moreover have "fold_res (delete_removed_counter []) (p_counters db) (e\<lparr>p_counters := p_counters db\<rparr>) = Inr (e\<lparr>p_counters := []\<rparr>)" for e
      using assms(1) by (auto simp: only_alice_def delete_removed_counter_def key_parts bucket_delete_def)
    from this [of "?d\<lparr>p_pending := P, p_ledgers := [], p_statuses := [], p_slots := [], p_blocks := []\<rparr>"]
    have "fold_res (delete_removed_counter []) (p_counters db)
        (?d\<lparr>p_pending := P, p_ledgers := [], p_statuses := [], p_slots := [], p_blocks := []\<rparr>) =
      Inr (?d\<lparr>p_pending := P, p_ledgers := [], p_statuses := [], p_slots := [], p_blocks := [], p_counters := []\<rparr>)" by simp
    ultimately show ?thesis by (simp add: delete_removed_authorization_state_def)
  qed
  ultimately have "\<exists>db'. install_policies ?cmd [] [demo_policy] db = Inr db' \<and> only_alice g' None P db'"
    by (auto simp: only_alice_def policy_generation_def)
  then have "\<exists>db'. install_policies ?cmd [] [demo_policy] db = Inr db' \<and> only_alice g' None (p_pending (preserve_pending_traffic l db)) db'"
    by (simp add: P_def)

  then show ?thesis
    using assms(1) gen only_alice_read [OF assms(1)]
    by (auto simp: policy_reconcile_def demo_sdk_def reconcile_tx_def db_update_def only_alice_def Let_def)
qed

lemma alice_added:
  assumes "only_alice g None pend db" and "g < g'"
  shows "\<exists>db'. policy_reconcile demo_sdk None (demo_command g') db = (Inr True, db') \<and> only_alice g' (Some demo_ledger) pend db' \<and>
           p_ledgers db' = [] \<and> p_counters db' = []"
proof -
  have gen: "\<not> g' < g" "g' \<noteq> g" using assms(2) by auto
  have id: "ap_authorization_id demo_policy = ''alice''" by (simp add: demo_policy_def)
  have "\<exists>db'. install_policies (demo_command g') ''alice'' [] db = Inr db' \<and> only_alice g' (Some demo_ledger) pend db' \<and>
      p_ledgers db' = [] \<and> p_counters db' = []"
    using assms(1)
    by (auto simp: only_alice_def install_policies_def Let_def clear_bucket_Nil delete_removed_authorization_state_def
        policy_generation_def demo_command_def put_json_def bucket_put.simps id)
  moreover have "read_policies demo_sdk db = Inr []" using assms(1) by (simp add: only_alice_def read_policies_def)
  ultimately show ?thesis
    using assms(1) gen demo_command_valid [of g']
    by (auto simp: policy_reconcile_def reconcile_tx_def db_update_def only_alice_def Let_def demo_command_def)
qed

definition light_ledger :: ledger_state where
  "light_ledger = demo_ledger\<lparr>ls_upload_bytes := 5, ls_revision := 2\<rparr>"

lemma alice_uses:
  assumes "only_alice g (Some demo_ledger) pend db" and "p_ledgers db = []" and "p_counters db = []"
  shows "\<exists>db'. apply_counters demo_sdk (\<lambda>x. x) None ''wire'' [Some (demo_counter 5 0)] 10 db = (Inr (), db') \<and>
           only_alice g (Some light_ledger) pend db' \<and> p_ledgers db' = [(''alice'', Json light_ledger)]"
proof -
  obtain db1 where count: "fold_res (count_counter ''wire'' (binding_keys [demo_policy])) [Some (demo_counter 5 0)] ([], db)
      = Inr ([(''alice'', 5, 0)], db1)" and db1: "only_alice g (Some demo_ledger) pend db1" "p_ledgers db1 = []"
    using assms
    by (simp add: count_counter_def demo_counter_def demo_policy_def demo_binding_def binding_keys_def get_json_def
        counter_delta_def max_int64_def max_uint64_def only_alice_def put_json_def bucket_put.simps policy_generation_def)
  have pol: "policy_by_authorization [demo_policy] ''alice'' = demo_policy"
    by (simp add: policy_by_authorization_def demo_policy_def)
  have "ensure_ledger demo_sdk demo_policy 10 db1 = Inr (demo_ledger, db1\<lparr>p_ledgers := [(''alice'', Json demo_ledger)]\<rparr>)"
    using db1 by (simp add: ensure_ledger_def get_json_def demo_period_def demo_fields Let_def put_json_def bucket_put.simps)
  then have "apply_delta demo_sdk [demo_policy] 10 [(''alice'', 5, 0)] ''alice'' db1 = Inr (db1\<lparr>p_ledgers := [(''alice'', Json light_ledger)]\<rparr>)"
    by (simp add: apply_delta_def delta_of_def pol Let_def put_json_def bucket_put.simps)
      (simp add: demo_ledger_def fresh_ledger_def light_ledger_def max_int64_def word_le_nat_alt)
  moreover have "only_alice g (Some light_ledger) pend (db1\<lparr>p_ledgers := [(''alice'', Json light_ledger)]\<rparr>)"
    using db1 by (simp add: only_alice_def policy_generation_def)
  ultimately show ?thesis
    using count only_alice_read [OF assms(1)]
    by (auto simp: apply_counters_def apply_counters_tx_def db_update_def time_is_zero_def) (simp_all add: demo_sdk_def)
qed

text \<open>C12. A limit of the bookkeeping: there is one preserved snapshot per authorization and period, and a later
  one replaces it. An authorization with 700 unreported bytes is removed (the 700 bytes are preserved), granted
  again, uses 5 bytes in the same period and is removed once more, all before anything is reported: what is
  left to report is 5 bytes. The 700 bytes are gone.\<close>

theorem preserved_usage_is_overwritten:
  "\<exists>db1 db2 db3 db4. \<exists>s :: traffic_snapshot. policy_inv demo_sdk demo_used_db \<and>
     policy_reconcile demo_sdk None \<lparr>rc_generation = 2, rc_authorizations = []\<rparr> demo_used_db = (Inr True, db1) \<and>
     policy_reconcile demo_sdk None (demo_command 3) db1 = (Inr True, db2) \<and>
     apply_counters demo_sdk (\<lambda>x. x) None ''wire'' [Some (demo_counter 5 0)] 10 db2 = (Inr (), db3) \<and>
     policy_reconcile demo_sdk None \<lparr>rc_generation = 4, rc_authorizations = []\<rparr> db3 = (Inr True, db4) \<and>
     s \<in> unreported demo_used_db \<and> s \<in> unreported db1 \<and> ts_upload_bytes s = 700 \<and>
     (ts_upload_bytes ` unreported db4 = {5})"
proof -
  let ?l = "demo_ledger\<lparr>ls_upload_bytes := 700, ls_revision := 2\<rparr>"
  have "policy_generation demo_used_db = 1"
    using demo_generation by (simp add: demo_used_db_def policy_generation_def)
  then have start: "only_alice 1 (Some ?l) [] demo_used_db" "p_ledgers demo_used_db = [(''alice'', Json ?l)]"
    by (simp_all add: only_alice_def) (simp_all add: demo_used_db_def demo_db_def empty_policy_db_def)
  have lt: "(1 :: u64) < 2" "(2 :: u64) < 3" "(3 :: u64) < 4" by (simp_all add: word_less_nat_alt)
  define k where "k = traffic_key ''alice'' [char_of (0 :: nat)]"
  have pend: "p_pending (preserve_pending_traffic l d) = put_json k (ledger_event l) (p_pending d)"
    if "ls_queued_revision l < ls_revision l" "ls_authorization_id l = ''alice''" "ls_period l = ap_current_period demo_policy" for l d
    using that by (auto simp: preserve_pending_traffic_def Let_def ledger_event_def k_def demo_policy_def dest: leD)
  obtain db1 where db1: "policy_reconcile demo_sdk None \<lparr>rc_generation = 2, rc_authorizations = []\<rparr> demo_used_db = (Inr True, db1)"
    "only_alice 2 None (p_pending (preserve_pending_traffic ?l demo_used_db)) db1"
    using alice_removed [OF start lt(1)] by blast
  obtain db2 where db2: "policy_reconcile demo_sdk None (demo_command 3) db1 = (Inr True, db2)"
    "only_alice 3 (Some demo_ledger) (p_pending (preserve_pending_traffic ?l demo_used_db)) db2" "p_ledgers db2 = []" "p_counters db2 = []"
    using alice_added [OF db1(2) lt(2)] by blast
  obtain db3 where db3: "apply_counters demo_sdk (\<lambda>x. x) None ''wire'' [Some (demo_counter 5 0)] 10 db2 = (Inr (), db3)"
    "only_alice 3 (Some light_ledger) (p_pending (preserve_pending_traffic ?l demo_used_db)) db3" "p_ledgers db3 = [(''alice'', Json light_ledger)]"
    using alice_uses [OF db2(2-4)] by blast
  obtain db4 where db4: "policy_reconcile demo_sdk None \<lparr>rc_generation = 4, rc_authorizations = []\<rparr> db3 = (Inr True, db4)"
    "only_alice 4 None (p_pending (preserve_pending_traffic light_ledger db3)) db4"
    using alice_removed [OF db3(2,3) lt(3)] by blast
  have one: "p_pending (preserve_pending_traffic ?l demo_used_db) = [(k, Json (ledger_event ?l))]"
    by (subst pend) (simp_all add: demo_ledger_def fresh_ledger_def demo_used_db_def demo_db_def empty_policy_db_def put_json_def
        bucket_put.simps)
  have "p_pending db3 = [(k, Json (ledger_event ?l))]" using db3(2) one by (simp add: only_alice_def)
  then have "p_pending (preserve_pending_traffic light_ledger db3) = [(k, Json (ledger_event light_ledger))]"
    by (subst pend) (simp_all add: light_ledger_def demo_ledger_def fresh_ledger_def put_json_def bucket_put.simps)
  then have "p_pending db4 = [(k, Json (ledger_event light_ledger))]" "p_ledgers db4 = []"
    using db4(2) by (simp_all add: only_alice_def)
  then have "unreported db4 = {ledger_event light_ledger}"
    by (auto simp: unreported_def bucket_get_def)
  then have last_one: "ts_upload_bytes ` unreported db4 = {5}" by (simp add: ledger_event_def light_ledger_def)
  have "ledger_event ?l \<in> unreported demo_used_db"
    by (rule unreported_ledger [of _ "''alice''"]) (simp_all add: start bucket_get_def demo_ledger_def fresh_ledger_def)
  moreover have "ledger_event ?l \<in> unreported db1"
    by (rule unreported_pending [of _ k]) (use db1(2) one in \<open>simp add: only_alice_def bucket_get_def\<close>)
  moreover have "ts_upload_bytes (ledger_event ?l) = 700" by (simp add: ledger_event_def)
  ultimately show ?thesis using db1(1) db2(1) db3(1) db4(1) last_one demo_used_inv by blast
qed

end
