(* ===== verification/Files.thy ===== *)
theory Files
  imports Bolt Filepath
begin

section \<open>State directories and atomic file replacement\<close>

text \<open>
  The command store, the plugin state and the updater keep their state in files that are replaced atomically: the new
  content is written to a temporary file of the same directory, synced, renamed over the old one, and the
  directory is synced. A directory is a bucket of entries by name (\<^verbatim>\<open>os.ReadDir\<close> returns them in the order of
  the names). An operating system error before or at the rename leaves the directory as it was; one after the
  rename (the sync of the directory) is reported although the new content is in place.
\<close>

record file_entry =
  fe_directory :: bool
  fe_regular :: bool
  fe_private :: bool
  fe_content :: string

type_synonym directory = "file_entry bucket"

definition private_file :: "string \<Rightarrow> file_entry" where
  "private_file content = \<lparr>fe_directory = False, fe_regular = True, fe_private = True, fe_content = content\<rparr>"

lemma private_file_simps [simp]:
  "fe_directory (private_file c) = False" "fe_regular (private_file c)" "fe_private (private_file c)" "fe_content (private_file c) = c"
  by (simp_all add: private_file_def)

datatype 'e write_fault = BeforeRename 'e | AfterRename 'e

definition replace_file :: "'e write_fault option \<Rightarrow> string \<Rightarrow> string \<Rightarrow> directory \<Rightarrow> ('e + unit) \<times> directory" where
  "replace_file fault name content dir =
     (case fault of
        Some (BeforeRename e) \<Rightarrow> (Inl e, dir)
      | Some (AfterRename e) \<Rightarrow> (Inl e, bucket_put name (private_file content) dir)
      | None \<Rightarrow> (Inr (), bucket_put name (private_file content) dir))"

lemma replace_file_cases:
  "replace_file fault name content dir = (r, dir') \<Longrightarrow>
   (dir' = dir \<and> (\<exists>e. r = Inl e)) \<or>
   (dir' = bucket_put name (private_file content) dir \<and> (r = Inr () \<or> (\<exists>e. r = Inl e \<and> fault = Some (AfterRename e))))"
  by (auto simp: replace_file_def split: option.splits write_fault.splits)

lemma replace_file_Inr:
  "replace_file fault name content dir = (Inr u, dir') \<longleftrightarrow> fault = None \<and> dir' = bucket_put name (private_file content) dir"
  by (auto simp: replace_file_def split: option.splits write_fault.splits)

text \<open>\<^verbatim>\<open>filepath.Ext\<close> of a file name: from the last dot on.\<close>

definition path_ext :: "string \<Rightarrow> string" where
  "path_ext name = (if dot \<in> set name then dot # rev (takeWhile (\<lambda>c. c \<noteq> dot) (rev name)) else [])"

lemma path_ext_append: "dot \<notin> set e \<Longrightarrow> path_ext (s @ dot # e) = dot # e"
proof -
  assume e: "dot \<notin> set e"
  have "takeWhile (\<lambda>c. c \<noteq> dot) (rev e @ dot # rev s) = rev e"
    using e by (subst takeWhile_append2) auto
  then show ?thesis by (simp add: path_ext_def)
qed

subsection \<open>A directory with one file per record\<close>

text \<open>
  The command store and the plugin state keep one file \<^verbatim>\<open><name>.json\<close> per record and the records in memory. Both
  open such a directory alike: temporary files of interrupted writes, recognised by their prefix \<open>tmp\<close>, are removed, other names are skipped, and
  every other file is read by \<open>rd\<close> and must carry the name \<open>nm\<close> of its record.
\<close>

record 'r file_store =
  fs_files :: directory
  fs_records :: "'r bucket"

definition record_file :: "string \<Rightarrow> string" where
  "record_file command_id = command_id @ ''.json''"

lemma record_file_ext [simp]: "path_ext (record_file k) = ''.json''"
  using path_ext_append [of "''json''" k] by (simp add: record_file_def)

lemma record_file_inject [simp]: "record_file a = record_file b \<longleftrightarrow> a = b"
  by (simp add: record_file_def)

text \<open>One directory entry: stale temporary files are removed, other names are skipped, records are read.\<close>

definition open_entry ::
    "string \<Rightarrow> (file_entry \<Rightarrow> 'e + 'r) \<Rightarrow> ('r \<Rightarrow> string) \<Rightarrow> 'e \<Rightarrow> 'e \<Rightarrow> string \<times> file_entry
     \<Rightarrow> bool \<times> 'r file_store \<Rightarrow> 'e + bool \<times> 'r file_store" where
  "open_entry tmp rd nm em ed e acc =
     (case acc of (removed, store) \<Rightarrow>
       if \<not> fe_directory (snd e) \<and> prefix tmp (fst e)
       then Inr (True, store\<lparr>fs_files := bucket_delete (fst e) (fs_files store)\<rparr>)
       else if fe_directory (snd e) \<or> path_ext (fst e) \<noteq> ''.json'' then Inr (removed, store)
       else and_then (rd (snd e)) (\<lambda>r.
         if fst e \<noteq> record_file (nm r) then Inl em
         else if bucket_get (fs_records store) (nm r) \<noteq> None then Inl ed
         else Inr (removed, store\<lparr>fs_records := bucket_put (nm r) r (fs_records store)\<rparr>)))"


definition open_files ::
    "string \<Rightarrow> (file_entry \<Rightarrow> 'e + 'r) \<Rightarrow> ('r \<Rightarrow> string) \<Rightarrow> 'e \<Rightarrow> 'e \<Rightarrow> 'e option \<Rightarrow> directory \<Rightarrow> 'e + 'r file_store" where
  "open_files tmp rd nm em ed sync_fault dir =
     and_then (fold_res (open_entry tmp rd nm em ed) dir (False, \<lparr>fs_files = dir, fs_records = []\<rparr>)) (\<lambda>(removed, store).
       if removed then (case sync_fault of Some e \<Rightarrow> Inl e | None \<Rightarrow> Inr store) else Inr store)"

definition is_state_file :: "string \<Rightarrow> string \<times> file_entry \<Rightarrow> bool" where
  "is_state_file tmp e \<longleftrightarrow> \<not> fe_directory (snd e) \<and> \<not> prefix tmp (fst e) \<and> path_ext (fst e) = ''.json''"

definition files_ok :: "string \<Rightarrow> (file_entry \<Rightarrow> 'e + 'r) \<Rightarrow> ('r \<Rightarrow> string) \<Rightarrow> directory \<Rightarrow> bool" where
  "files_ok tmp rd nm dir \<longleftrightarrow>
     bucket_ok dir \<and> (\<forall>e \<in> set dir. is_state_file tmp e \<longrightarrow>
       (\<exists>r. rd (snd e) = Inr r \<and> fst e = record_file (nm r)))"

definition on_disk :: "string \<Rightarrow> (file_entry \<Rightarrow> 'e + 'r) \<Rightarrow> directory \<Rightarrow> string \<Rightarrow> 'r option" where
  "on_disk tmp rd dir k =
     (case bucket_get dir (record_file k) of
        None \<Rightarrow> None
      | Some f \<Rightarrow> if is_state_file tmp (record_file k, f)
                  then (case rd f of Inl _ \<Rightarrow> None | Inr r \<Rightarrow> Some r) else None)"

lemma on_disk_iff:
  assumes "files_ok tmp rd nm dir"
  shows "on_disk tmp rd dir k = Some r \<longleftrightarrow>
    (\<exists>e \<in> set dir. is_state_file tmp e \<and> rd (snd e) = Inr r \<and> nm r = k)"
proof
  assume "on_disk tmp rd dir k = Some r"
  then obtain f where f: "bucket_get dir (record_file k) = Some f" "is_state_file tmp (record_file k, f)" "rd f = Inr r"
    by (auto simp: on_disk_def split: option.splits if_splits sum.splits)
  then have mem: "(record_file k, f) \<in> set dir" by (simp add: get_SomeD)
  then have "record_file k = record_file (nm r)"
    using assms f(2,3) unfolding files_ok_def by fastforce
  with mem f show "\<exists>e \<in> set dir. is_state_file tmp e \<and> rd (snd e) = Inr r \<and> nm r = k" by force
next
  assume "\<exists>e \<in> set dir. is_state_file tmp e \<and> rd (snd e) = Inr r \<and> nm r = k"
  then obtain e where e: "e \<in> set dir" "is_state_file tmp e" "rd (snd e) = Inr r" "nm r = k" by blast
  then have name: "fst e = record_file k" using assms unfolding files_ok_def by fastforce
  have "bucket_get dir (record_file k) = Some (snd e)"
    using assms e(1) name by (metis files_ok_def get_eq_Some_iff prod.collapse)
  with e name show "on_disk tmp rd dir k = Some r" by (simp add: on_disk_def) (metis prod.collapse)
qed

text \<open>What a process that died in the middle of a write leaves: the state files, and temporary files.\<close>

definition is_temporary :: "string \<Rightarrow> string \<times> file_entry \<Rightarrow> bool" where
  "is_temporary tmp e \<longleftrightarrow> \<not> fe_directory (snd e) \<and> prefix tmp (fst e)"

definition leftovers :: "string \<Rightarrow> directory \<Rightarrow> directory \<Rightarrow> bool" where
  "leftovers tmp dir dir' \<longleftrightarrow>
     bucket_ok dir' \<and> filter (\<lambda>e. \<not> is_temporary tmp e) dir' = filter (\<lambda>e. \<not> is_temporary tmp e) dir"

lemma leftovers_refl: "bucket_ok dir \<Longrightarrow> leftovers tmp dir dir"
  by (simp add: leftovers_def)

lemma crash_state_files:
  assumes "leftovers tmp dir dir'" and "is_state_file tmp e"
  shows "e \<in> set dir' \<longleftrightarrow> e \<in> set dir"
proof -
  have "\<not> is_temporary tmp e" using assms(2) by (simp add: is_state_file_def is_temporary_def)
  then have "e \<in> set d \<longleftrightarrow> e \<in> set (filter (\<lambda>e. \<not> is_temporary tmp e) d)" for d by simp
  then show ?thesis using assms(1) by (metis leftovers_def)
qed

lemma leftovers_ok:
  assumes "leftovers tmp dir dir'" and "files_ok tmp rd nm dir"
  shows "files_ok tmp rd nm dir'" and "on_disk tmp rd dir' k = on_disk tmp rd dir k"
proof -
  show ok': "files_ok tmp rd nm dir'"
    using assms crash_state_files [OF assms(1)] by (auto simp: files_ok_def leftovers_def)
  have "on_disk tmp rd dir' k = Some r \<longleftrightarrow> on_disk tmp rd dir k = Some r" for r
    unfolding on_disk_iff [OF assms(2)] on_disk_iff [OF ok'] using crash_state_files [OF assms(1)] by blast
  then show "on_disk tmp rd dir' k = on_disk tmp rd dir k" by (metis option.exhaust)
qed

lemma open_entry_cases [consumes 1, case_names stale skipped read]:
  assumes "open_entry tmp rd nm em ed e (removed, store) = Inr (removed', store')"
  obtains "\<not> is_state_file tmp e" "removed'" "fs_records store' = fs_records store"
      "fs_files store' = bucket_delete (fst e) (fs_files store)"
  | "\<not> is_state_file tmp e" "removed' = removed" "store' = store"
  | r where "is_state_file tmp e" "rd (snd e) = Inr r" "fst e = record_file (nm r)"
      "removed' = removed" "fs_files store' = fs_files store"
      "fs_records store' = bucket_put (nm r) r (fs_records store)"
  using assms
  by (auto simp: open_entry_def is_state_file_def and_then_Inr_iff split: if_splits)

lemma open_entries:
  assumes "files_ok tmp rd nm dir" and "set es \<subseteq> set dir" and "distinct (map fst es)" and "bucket_ok (fs_records store)"
    and "\<forall>e \<in> set es. is_state_file tmp e \<longrightarrow> (\<forall>r. rd (snd e) = Inr r \<longrightarrow>
           bucket_get (fs_records store) (nm r) = None)"
  shows "\<exists>removed' store'. fold_res (open_entry tmp rd nm em ed) es (removed, store) = Inr (removed', store') \<and>
    bucket_ok (fs_records store') \<and>
    fs_files store' = filter (\<lambda>e. \<not> (\<exists>e' \<in> set es. fst e' = fst e \<and> \<not> fe_directory (snd e') \<and> prefix tmp (fst e'))) (fs_files store) \<and>
    (\<forall>k. bucket_get (fs_records store') k =
       (if \<exists>e \<in> set es. is_state_file tmp e \<and> fst e = record_file k then on_disk tmp rd dir k else bucket_get (fs_records store) k))"
  using assms(2-)
proof (induction es arbitrary: removed store)
  case Nil
  then show ?case by simp
next
  case (Cons e es)
  have dirs: "bucket_ok dir" using assms(1) by (simp add: files_ok_def)
  have e: "e \<in> set dir" using Cons.prems(1) by simp
  have fresh: "fst e \<notin> fst ` set es" using Cons.prems(2) by auto
  consider (stale) "\<not> fe_directory (snd e)" "prefix tmp (fst e)"
    | (skipped) "\<not> (\<not> fe_directory (snd e) \<and> prefix tmp (fst e))" "\<not> is_state_file tmp e" | (state) "is_state_file tmp e"
    by (auto simp: is_state_file_def)
  then show ?case
  proof cases
    case stale
    let ?s = "store\<lparr>fs_files := bucket_delete (fst e) (fs_files store)\<rparr>"
    have one: "open_entry tmp rd nm em ed e (removed, store) = Inr (True, ?s)" using stale by (simp add: open_entry_def)
    have "\<not> is_state_file tmp e" using stale by (simp add: is_state_file_def)
    with Cons.IH [of ?s True] Cons.prems one fresh stale show ?thesis
      by (auto simp: bucket_delete_def intro!: filter_cong)
  next
    case skipped
    then have one: "open_entry tmp rd nm em ed e (removed, store) = Inr (removed, store)" by (auto simp: open_entry_def is_state_file_def)
    with Cons.IH [of store removed] Cons.prems fresh skipped show ?thesis
      by (auto intro!: filter_cong)
  next
    case state
    then obtain r where r: "rd (snd e) = Inr r" "fst e = record_file (nm r)"
      using assms(1) e by (auto simp: files_ok_def)
    let ?s = "store\<lparr>fs_records := bucket_put (nm r) r (fs_records store)\<rparr>"
    have "bucket_get (fs_records store) (nm r) = None" using Cons.prems(4) state r by simp
    then have one: "open_entry tmp rd nm em ed e (removed, store) = Inr (removed, ?s)"
      using state r by (simp add: open_entry_def is_state_file_def)
    have "nm r' \<noteq> nm r" if "e' \<in> set es" "is_state_file tmp e'" "rd (snd e') = Inr r'" for e' r'
    proof -
      have "fst e' = record_file (nm r')"
        using assms(1) that Cons.prems(1) unfolding files_ok_def by fastforce
      with fresh that(1) r(2) show ?thesis by (metis imageI)
    qed
    then have "\<forall>e \<in> set es. is_state_file tmp e \<longrightarrow> (\<forall>r. rd (snd e) = Inr r \<longrightarrow>
           bucket_get (fs_records ?s) (nm r) = None)"
      using Cons.prems(4) by auto
    with Cons.IH [of ?s removed] Cons.prems obtain removed' store' where
      rest: "fold_res (open_entry tmp rd nm em ed) es (removed, ?s) = Inr (removed', store')" "bucket_ok (fs_records store')"
      "fs_files store' = filter (\<lambda>e. \<not> (\<exists>e' \<in> set es. fst e' = fst e \<and> \<not> fe_directory (snd e') \<and> prefix tmp (fst e'))) (fs_files ?s)"
      "\<forall>k. bucket_get (fs_records store') k =
       (if \<exists>e \<in> set es. is_state_file tmp e \<and> fst e = record_file k then on_disk tmp rd dir k else bucket_get (fs_records ?s) k)"
      by (auto simp: put_sorted)
    have dur: "on_disk tmp rd dir (nm r) = Some r"
      using on_disk_iff [OF assms(1)] e state r by blast
    have "\<not> (\<not> fe_directory (snd e) \<and> prefix tmp (fst e))" using state by (simp add: is_state_file_def)
    with one rest dur r(2) state show ?thesis
      by (intro exI [of _ removed'] exI [of _ store']) (auto intro!: filter_cong)
  qed
qed

text \<open>A store that is opened holds exactly the records that its directory tells, and the invariant.\<close>

lemma open_files_ok:
  assumes "files_ok tmp rd nm dir"
  shows "\<exists>store. open_files tmp rd nm em ed None dir = Inr store \<and>
    files_ok tmp rd nm (fs_files store) \<and> bucket_ok (fs_records store) \<and>
    (\<forall>k. bucket_get (fs_records store) k = on_disk tmp rd dir k) \<and>
    (\<forall>k. on_disk tmp rd (fs_files store) k = on_disk tmp rd dir k) \<and>
    fs_files store = filter (\<lambda>e. \<not> is_temporary tmp e) dir"
proof -
  have dirs: "bucket_ok dir" using assms by (simp add: files_ok_def)
  let ?s = "\<lparr>fs_files = dir, fs_records = []\<rparr> "
  obtain removed store where open': "fold_res (open_entry tmp rd nm em ed) dir (False, ?s) = Inr (removed, store)" "bucket_ok (fs_records store)"
    "fs_files store = filter (\<lambda>e. \<not> (\<exists>e' \<in> set dir. fst e' = fst e \<and> \<not> fe_directory (snd e') \<and> prefix tmp (fst e'))) dir"
    "\<forall>k. bucket_get (fs_records store) k =
       (if \<exists>e \<in> set dir. is_state_file tmp e \<and> fst e = record_file k then on_disk tmp rd dir k else bucket_get (fs_records ?s) k)"
    using open_entries [OF assms subset_refl bucket_ok_distinct [OF dirs], where store = ?s and removed = False and em = em and ed = ed] by auto
  have files: "fs_files store = filter (\<lambda>e. \<not> (\<not> fe_directory (snd e) \<and> prefix tmp (fst e))) dir"
  proof -
    have "e' = e" if "e \<in> set dir" "e' \<in> set dir" "fst e' = fst e" for e e'
      using bucket_ok_distinct [OF dirs] that by (metis eq_key_imp_eq_value prod.collapse)
    then show ?thesis unfolding open'(3) by (intro filter_cong) auto
  qed
  have ok': "files_ok tmp rd nm (fs_files store)"
    using assms by (auto simp: files files_ok_def filter_sorted)
  have none: "on_disk tmp rd dir k = None" if "\<not> (\<exists>e \<in> set dir. is_state_file tmp e \<and> fst e = record_file k)" for k
  proof -
    have "on_disk tmp rd dir k \<noteq> Some r" for r
      using that on_disk_iff [OF assms, of k r] assms unfolding files_ok_def by fastforce
    then show ?thesis by auto
  qed
  have recs: "bucket_get (fs_records store) k = on_disk tmp rd dir k" for k
    using open'(4) none by simp
  have same: "on_disk tmp rd (fs_files store) k = on_disk tmp rd dir k" for k
  proof -
    have "on_disk tmp rd (fs_files store) k = Some r \<longleftrightarrow> on_disk tmp rd dir k = Some r" for r
      unfolding on_disk_iff [OF assms] on_disk_iff [OF ok'] unfolding files set_filter is_state_file_def by blast
    then show ?thesis by (metis option.exhaust)
  qed
  have "open_files tmp rd nm em ed None dir = Inr store"
    using open'(1) by (simp add: open_files_def)
  moreover have "fs_files store = filter (\<lambda>e. \<not> is_temporary tmp e) dir"
    unfolding files is_temporary_def ..
  ultimately show ?thesis using recs same ok' open'(2) by blast
qed

lemma delete_file_ok:
  assumes "files_ok tmp rd nm dir"
  shows "files_ok tmp rd nm (bucket_delete name dir)"
    and "on_disk tmp rd (bucket_delete (record_file k) dir) j = (if j = k then None else on_disk tmp rd dir j)"
proof -
  have "set (bucket_delete name dir) \<subseteq> set dir" by (auto simp: bucket_delete_def)
  with assms show "files_ok tmp rd nm (bucket_delete name dir)"
    unfolding files_ok_def using delete_sorted by blast
  show "on_disk tmp rd (bucket_delete (record_file k) dir) j = (if j = k then None else on_disk tmp rd dir j)"
    by (simp add: on_disk_def)
qed

text \<open>A file that reads as its record, put in place.\<close>

lemma file_written:
  assumes dir: "files_ok tmp rd nm dir" and read: "rd f = Inr r" and name: "nm r = k"
    and regular: "\<not> fe_directory f" "\<not> prefix tmp (record_file k)"
  shows "files_ok tmp rd nm (bucket_put (record_file k) f dir)"
    and "on_disk tmp rd (bucket_put (record_file k) f dir) j = (if j = k then Some r else on_disk tmp rd dir j)"
proof -
  let ?dir' = "bucket_put (record_file k) f dir"
  have isfile: "is_state_file tmp (record_file k, f)" using regular by (simp add: is_state_file_def)
  show "files_ok tmp rd nm ?dir'"
    unfolding files_ok_def
  proof (intro conjI ballI impI)
    show "bucket_ok ?dir'" using dir by (simp add: files_ok_def put_sorted)
  next
    fix e assume e: "e \<in> set ?dir'" "is_state_file tmp e"
    have "bucket_get ?dir' (fst e) = Some (snd e)"
      using e(1) dir by (metis files_ok_def get_eq_Some_iff prod.collapse put_sorted)
    then have "e = (record_file k, f) \<or> e \<in> set dir"
      by (auto split: if_splits dest: get_SomeD) (metis get_SomeD prod.collapse)+
    then show "\<exists>r. rd (snd e) = Inr r \<and> fst e = record_file (nm r)"
      using read name dir e(2) by (auto simp: files_ok_def)
  qed
  show "on_disk tmp rd ?dir' j = (if j = k then Some r else on_disk tmp rd dir j)"
    using isfile read by (simp add: on_disk_def)
qed

subsection \<open>Records in memory and on disk\<close>

text \<open>
  \<open>ok\<close> holds of every record, and the record on disk is the one in memory or, after a fault behind a rename, a later one
  in the order \<open>adv\<close>.
\<close>

definition file_store_inv ::
    "string \<Rightarrow> (file_entry \<Rightarrow> 'e + 'r) \<Rightarrow> ('r \<Rightarrow> string) \<Rightarrow> ('r \<Rightarrow> bool) \<Rightarrow> ('r \<Rightarrow> 'r \<Rightarrow> bool) \<Rightarrow> 'r file_store \<Rightarrow> bool" where
  "file_store_inv tmp rd nm ok adv store \<longleftrightarrow>
     files_ok tmp rd nm (fs_files store) \<and> bucket_ok (fs_records store) \<and>
     (\<forall>k r. bucket_get (fs_records store) k = Some r \<longrightarrow>
        nm r = k \<and> ok r \<and> (\<exists>r'. on_disk tmp rd (fs_files store) k = Some r' \<and> adv r r'))"

lemma file_store_invD:
  assumes "file_store_inv tmp rd nm ok adv store" and "bucket_get (fs_records store) k = Some r"
  shows "nm r = k" and "ok r" and "\<exists>r'. on_disk tmp rd (fs_files store) k = Some r' \<and> adv r r'"
  using assms by (auto simp: file_store_inv_def)

text \<open>A replaced file is behind the record in memory only if the directory could not be synced; the record in memory changes only on success.\<close>

definition replace_record ::
    "'e write_fault option \<Rightarrow> string \<Rightarrow> string \<Rightarrow> 'r \<Rightarrow> 'r file_store \<Rightarrow> ('e + unit) \<times> 'r file_store" where
  "replace_record fault k content r store =
     (case replace_file fault (record_file k) content (fs_files store) of
        (Inl e, dir) \<Rightarrow> (Inl e, store\<lparr>fs_files := dir\<rparr>)
      | (Inr _, dir) \<Rightarrow> (Inr (), store\<lparr>fs_files := dir, fs_records := bucket_put k r (fs_records store)\<rparr>))"

lemma replace_record_step:
  assumes res: "replace_record fault k content r store = (out, store')"
    and inv: "file_store_inv tmp rd nm ok adv store"
    and read: "rd (private_file content) = Inr r" and name: "nm r = k" "\<not> prefix tmp (record_file k)"
    and valid: "ok r" "adv r r" and later: "\<And>old. bucket_get (fs_records store) k = Some old \<Longrightarrow> adv old r"
  shows "file_store_inv tmp rd nm ok adv store' \<and>
    (\<forall>j. bucket_get (fs_records store') j = (if out = Inr () \<and> j = k then Some r else bucket_get (fs_records store) j)) \<and>
    (out = Inr () \<longrightarrow> on_disk tmp rd (fs_files store') k = Some r)"
proof -
  let ?f = "private_file content"
  obtain w dir' where w: "replace_file fault (record_file k) content (fs_files store) = (w, dir')" by force
  have dir: "files_ok tmp rd nm (fs_files store)" using inv by (simp add: file_store_inv_def)
  note put = file_written [OF dir read name(1) _ name(2), simplified]
  show ?thesis
  proof (cases w)
    case (Inl e)
    then have out: "out = Inl e" "store' = store\<lparr>fs_files := dir'\<rparr>" using res w by (simp_all add: replace_record_def)
    from replace_file_cases [OF w] have "file_store_inv tmp rd nm ok adv store'"
    proof
      assume "dir' = fs_files store \<and> (\<exists>e. w = Inl e)"
      with inv out show ?thesis by simp
    next
      assume "dir' = bucket_put (record_file k) ?f (fs_files store) \<and> (w = Inr () \<or> (\<exists>e. w = Inl e \<and> fault = Some (AfterRename e)))"
      then have "dir' = bucket_put (record_file k) ?f (fs_files store)" by blast
      with put inv later out(2) show ?thesis unfolding file_store_inv_def by auto
    qed
    with out show ?thesis by simp
  next
    case (Inr u)
    with w have dir': "dir' = bucket_put (record_file k) ?f (fs_files store)" by (simp add: replace_file_Inr)
    have out: "out = Inr ()" "store' = store\<lparr>fs_files := dir', fs_records := bucket_put k r (fs_records store)\<rparr>"
      using res w Inr by (simp_all add: replace_record_def)
    have "file_store_inv tmp rd nm ok adv store'"
      using put inv valid name(1) unfolding file_store_inv_def out dir' by (auto simp: put_sorted)
    with put out dir' show ?thesis by simp
  qed
qed

lemma reopen_files:
  assumes inv: "file_store_inv tmp rd nm ok adv s" and left: "leftovers tmp (fs_files s) dir"
    and valid: "\<And>f r. rd f = Inr r \<Longrightarrow> ok r \<and> adv r r"
  obtains s' where "open_files tmp rd nm em ed None dir = Inr s'" "file_store_inv tmp rd nm ok adv s'"
    "\<And>k. bucket_get (fs_records s') k = on_disk tmp rd (fs_files s) k"
    "fs_files s' = filter (\<lambda>e. \<not> is_temporary tmp e) (fs_files s)"
proof -
  have dir: "files_ok tmp rd nm (fs_files s)" using inv by (simp add: file_store_inv_def)
  note crash = leftovers_ok [OF left dir]
  obtain s' where s': "open_files tmp rd nm em ed None dir = Inr s'" "files_ok tmp rd nm (fs_files s')" "bucket_ok (fs_records s')"
    "\<And>k. bucket_get (fs_records s') k = on_disk tmp rd dir k" "\<And>k. on_disk tmp rd (fs_files s') k = on_disk tmp rd dir k"
    "fs_files s' = filter (\<lambda>e. \<not> is_temporary tmp e) dir"
    using open_files_ok [OF crash(1), of em ed] by blast
  have "file_store_inv tmp rd nm ok adv s'"
    using s'(2-5) on_disk_iff [OF crash(1)] valid unfolding file_store_inv_def by auto
  with s' crash(2) left show ?thesis by (intro that [of s']) (simp_all add: leftovers_def)
qed

text \<open>Removing a record together with its file.\<close>

lemma remove_record_inv:
  assumes "file_store_inv tmp rd nm ok adv store"
  shows "file_store_inv tmp rd nm ok adv
    (store\<lparr>fs_files := bucket_delete (record_file k) (fs_files store), fs_records := bucket_delete k (fs_records store)\<rparr>)"
  using assms by (auto simp: file_store_inv_def delete_file_ok delete_sorted)

end
