(* ===== verification/CommandStore.thy ===== *)
theory CommandStore
  imports Files
begin

section \<open>The durable command store (internal/command/store.go)\<close>

text \<open>
  Commands of the center are accepted, executed and acknowledged exactly in this order; each has one record, in
  memory and in a file \<^verbatim>\<open><command id>.json\<close>. The file is written first and the map in memory changes only when the
  write succeeded, so after a crash the files tell at least as much as the memory did.

  The SDK's validation and digest functions and the JSON encoding of a record are the fields of
  \<open>command_sdk\<close>. Timestamps are given in UTC by the code; the model's times have no location.
\<close>

subsection \<open>Data\<close>

record agent_command =
  ac_kind :: string
  ac_expires_at :: time
  ac_payload :: string

record problem =
  pr_code :: string
  pr_message :: string
  pr_retryable :: bool

datatype command_status = StatusSucceeded | StatusFailed | StatusUnset

record command_result =
  cr_command_id :: string
  cr_request_sha256 :: string
  cr_completed_at :: time
  cr_status :: command_status
  cr_output :: string
  cr_problem :: "problem option"

datatype record_state = StatePending | StateCompleted | StateAcknowledged | StateOther string

record command_record =
  re_api_version :: string
  re_command_id :: string
  re_request_sha256 :: string
  re_command :: agent_command
  re_state :: record_state
  re_result :: "command_result option"
  re_received_at :: time
  re_updated_at :: time
  re_acknowledged_at :: "time option"

record command_sdk =
  sdk_api_version :: string
  sdk_valid_key :: "string \<Rightarrow> bool"
  sdk_command_digest_of :: "agent_command \<Rightarrow> string option"
  sdk_valid_result :: "command_result \<Rightarrow> bool"
  sdk_marshal_record :: "command_record \<Rightarrow> string option"
  sdk_unmarshal_record :: "string \<Rightarrow> command_record option"
  sdk_marshal_result :: "command_result \<Rightarrow> string option"
  sdk_max_message_bytes :: nat

type_synonym command_store = "command_record file_store"

datatype command_error =
    InvalidCommandID | InvalidCommand | CommandNotFound | CommandConflict | InvalidResult | RecordInvalid | EncodeRecordFailed
  | RecordNotRegular | RecordNotPrivate | RecordTooLarge | RecordUnreadable | FilenameMismatch | DuplicateCommand | FileFault

definition max_record_bytes :: "command_sdk \<Rightarrow> nat" where
  "max_record_bytes sdk = sdk_max_message_bytes sdk + 64 * 2 ^ 10"

definition acknowledged_retention :: int where
  "acknowledged_retention = 24 * 3600 * second"

definition temporary_prefix :: string where
  "temporary_prefix = ''.command-''"

subsection \<open>Records\<close>

definition state_shape_ok :: "command_record \<Rightarrow> bool" where
  "state_shape_ok r =
     (case re_state r of
        StatePending \<Rightarrow> re_result r = None \<and> re_acknowledged_at r = None
      | StateCompleted \<Rightarrow> re_result r \<noteq> None \<and> re_acknowledged_at r = None
      | StateAcknowledged \<Rightarrow> re_result r \<noteq> None \<and>
          (case re_acknowledged_at r of None \<Rightarrow> False | Some t \<Rightarrow> \<not> time_is_zero t)
      | StateOther s \<Rightarrow> False)"

definition validate_record :: "command_sdk \<Rightarrow> command_record \<Rightarrow> command_error + unit" where
  "validate_record sdk r =
     (if re_api_version r \<noteq> sdk_api_version sdk then Inl RecordInvalid
      else if \<not> sdk_valid_key sdk (re_command_id r) then Inl RecordInvalid
      else if sdk_command_digest_of sdk (re_command r) \<noteq> Some (re_request_sha256 r) then Inl RecordInvalid
      else if time_is_zero (re_received_at r) \<or> time_is_zero (re_updated_at r) then Inl RecordInvalid
      else if \<not> state_shape_ok r then Inl RecordInvalid
      else (case re_result r of
              None \<Rightarrow> Inr ()
            | Some result \<Rightarrow>
                guard_err (sdk_valid_result sdk result \<and> cr_command_id result = re_command_id r \<and>
                           cr_request_sha256 result = re_request_sha256 r) RecordInvalid))"

text \<open>\<^verbatim>\<open>writeLocked\<close> is \<open>encode_record\<close> followed by the replacement of the file.\<close>

definition encode_record :: "command_sdk \<Rightarrow> command_record \<Rightarrow> command_error + string" where
  "encode_record sdk r =
     and_then (validate_record sdk r) (\<lambda>_.
       case sdk_marshal_record sdk r of
         None \<Rightarrow> Inl EncodeRecordFailed
       | Some raw \<Rightarrow> Inr (raw @ [CHR 0x0A]))"

definition read_record :: "command_sdk \<Rightarrow> command_error option \<Rightarrow> file_entry \<Rightarrow> command_error + command_record" where
  "read_record sdk fault f =
     (if \<not> fe_regular f then Inl RecordNotRegular
      else if \<not> fe_private f then Inl RecordNotPrivate
      else if max_record_bytes sdk < length (fe_content f) then Inl RecordTooLarge
      else case fault of Some e \<Rightarrow> Inl e | None \<Rightarrow>
        (case sdk_unmarshal_record sdk (fe_content f) of
           None \<Rightarrow> Inl RecordUnreadable
         | Some r \<Rightarrow> and_then (validate_record sdk r) (\<lambda>_. Inr r)))"

definition command_results_equal :: "command_sdk \<Rightarrow> command_result \<Rightarrow> command_result \<Rightarrow> bool" where
  "command_results_equal sdk a b \<longleftrightarrow>
     sdk_marshal_result sdk a \<noteq> None \<and> sdk_marshal_result sdk a = sdk_marshal_result sdk b"

subsection \<open>Opening\<close>

definition open_command_store ::
    "command_sdk \<Rightarrow> command_error option \<Rightarrow> command_error option \<Rightarrow> directory \<Rightarrow> command_error + command_store" where
  "open_command_store sdk os_fault sync_fault dir =
     (case os_fault of Some e \<Rightarrow> Inl e | None \<Rightarrow>
       open_files temporary_prefix (read_record sdk None) re_command_id FilenameMismatch DuplicateCommand sync_fault dir)"

subsection \<open>Operations\<close>

definition store_record ::
    "command_sdk \<Rightarrow> command_error write_fault option \<Rightarrow> command_record \<Rightarrow> command_store \<Rightarrow> (command_error + unit) \<times> command_store" where
  "store_record sdk fault r store =
     (case encode_record sdk r of
        Inl e \<Rightarrow> (Inl e, store)
      | Inr raw \<Rightarrow> replace_record fault (re_command_id r) raw r store)"

definition command_accept ::
    "command_sdk \<Rightarrow> command_error write_fault option \<Rightarrow> string \<Rightarrow> agent_command \<Rightarrow> time \<Rightarrow> command_store
     \<Rightarrow> (command_error + bool) \<times> command_store" where
  "command_accept sdk fault command_id value' received_at store =
     (if \<not> sdk_valid_key sdk command_id then (Inl InvalidCommandID, store)
      else case sdk_command_digest_of sdk value' of
        None \<Rightarrow> (Inl InvalidCommand, store)
      | Some digest \<Rightarrow>
        (case bucket_get (fs_records store) command_id of
           Some existing \<Rightarrow>
             (if re_request_sha256 existing \<noteq> digest then Inl CommandConflict else Inr False, store)
         | None \<Rightarrow>
           let r = \<lparr>re_api_version = sdk_api_version sdk, re_command_id = command_id, re_request_sha256 = digest,
                    re_command = value', re_state = StatePending, re_result = None, re_received_at = received_at,
                    re_updated_at = received_at, re_acknowledged_at = None\<rparr>
           in case store_record sdk fault r store of
                (Inl e, store) \<Rightarrow> (Inl e, store)
              | (Inr _, store) \<Rightarrow> (Inr True, store)))"

definition record_order :: "command_record \<Rightarrow> time \<times> string" where
  "record_order r = (re_received_at r, re_command_id r)"

definition sorted_locked :: "record_state \<Rightarrow> command_store \<Rightarrow> command_record list" where
  "sorted_locked state store =
     sort_key record_order (filter (\<lambda>r. re_state r = state) (map snd (fs_records store)))"

definition next_pending :: "command_store \<Rightarrow> command_error + command_record" where
  "next_pending store =
     (case sorted_locked StatePending store of [] \<Rightarrow> Inl CommandNotFound | r # _ \<Rightarrow> Inr r)"

definition command_complete ::
    "command_sdk \<Rightarrow> command_error write_fault option \<Rightarrow> string \<Rightarrow> string \<Rightarrow> command_result \<Rightarrow> time \<Rightarrow> command_store
     \<Rightarrow> (command_error + unit) \<times> command_store" where
  "command_complete sdk fault command_id request_sha256 result completed_at store =
     (if \<not> sdk_valid_result sdk result then (Inl InvalidResult, store)
      else case bucket_get (fs_records store) command_id of
        None \<Rightarrow> (Inl CommandNotFound, store)
      | Some existing \<Rightarrow>
          if re_request_sha256 existing \<noteq> request_sha256 \<or> cr_command_id result \<noteq> command_id \<or>
             cr_request_sha256 result \<noteq> request_sha256 then (Inl CommandConflict, store)
          else if re_state existing \<noteq> StatePending then
            (if (case re_result existing of None \<Rightarrow> False | Some r \<Rightarrow> command_results_equal sdk r result)
             then (Inr (), store) else (Inl CommandConflict, store))
          else store_record sdk fault
                 (existing\<lparr>re_state := StateCompleted, re_result := Some result, re_updated_at := completed_at\<rparr>) store)"

definition next_result :: "command_store \<Rightarrow> command_error + command_result" where
  "next_result store =
     (case sorted_locked StateCompleted store of
        [] \<Rightarrow> Inl CommandNotFound
      | r # _ \<Rightarrow> (case re_result r of None \<Rightarrow> Inl CommandNotFound | Some result \<Rightarrow> Inr result))"

definition command_acknowledge ::
    "command_sdk \<Rightarrow> command_error write_fault option \<Rightarrow> string \<Rightarrow> string \<Rightarrow> time \<Rightarrow> command_store
     \<Rightarrow> (command_error + unit) \<times> command_store" where
  "command_acknowledge sdk fault command_id request_sha256 acknowledged_at store =
     (case bucket_get (fs_records store) command_id of
        None \<Rightarrow> (Inl CommandNotFound, store)
      | Some existing \<Rightarrow>
          if re_request_sha256 existing \<noteq> request_sha256 then (Inl CommandConflict, store)
          else if re_state existing = StateAcknowledged then (Inr (), store)
          else if re_state existing \<noteq> StateCompleted \<or> re_result existing = None then (Inl CommandConflict, store)
          else store_record sdk fault
                 (existing\<lparr>re_state := StateAcknowledged, re_updated_at := acknowledged_at,
                           re_acknowledged_at := Some acknowledged_at\<rparr>) store)"

text \<open>\<^verbatim>\<open>Cleanup\<close>: \<open>remove_fault\<close> says which removals fail. A file that is gone already is no error, and a
  failed removal ends the loop.\<close>

definition expired_record :: "time \<Rightarrow> command_record \<Rightarrow> bool" where
  "expired_record cutoff r \<longleftrightarrow>
     re_state r = StateAcknowledged \<and> (case re_acknowledged_at r of None \<Rightarrow> False | Some t \<Rightarrow> \<not> cutoff < t)"

definition cleanup_record ::
    "(string \<Rightarrow> command_error option) \<Rightarrow> time \<Rightarrow> string \<Rightarrow> command_store \<Rightarrow> (command_error + unit) \<times> command_store" where
  "cleanup_record remove_fault cutoff command_id store =
     (case bucket_get (fs_records store) command_id of
        None \<Rightarrow> (Inr (), store)
      | Some r \<Rightarrow>
          if \<not> expired_record cutoff r then (Inr (), store)
          else (case remove_fault command_id of
             Some e \<Rightarrow> (Inl e, store)
           | None \<Rightarrow> (Inr (), store\<lparr>fs_files := bucket_delete (record_file command_id) (fs_files store),
                                   fs_records := bucket_delete command_id (fs_records store)\<rparr>)))"

fun cleanup_records ::
    "(string \<Rightarrow> command_error option) \<Rightarrow> time \<Rightarrow> string list \<Rightarrow> command_store \<Rightarrow> (command_error + unit) \<times> command_store" where
  "cleanup_records remove_fault cutoff [] store = (Inr (), store)"
| "cleanup_records remove_fault cutoff (k # ks) store =
     (case cleanup_record remove_fault cutoff k store of
        (Inl e, store) \<Rightarrow> (Inl e, store)
      | (Inr _, store) \<Rightarrow> cleanup_records remove_fault cutoff ks store)"

definition command_cleanup ::
    "(string list \<Rightarrow> string list) \<Rightarrow> (string \<Rightarrow> command_error option) \<Rightarrow> command_error option \<Rightarrow> time \<Rightarrow> command_store
     \<Rightarrow> (command_error + unit) \<times> command_store" where
  "command_cleanup iter remove_fault sync_fault now store =
     (case cleanup_records remove_fault (now - acknowledged_retention) (iter (map fst (fs_records store))) store of
        (Inl e, store) \<Rightarrow> (Inl e, store)
      | (Inr _, store) \<Rightarrow> ((case sync_fault of None \<Rightarrow> Inr () | Some e \<Rightarrow> Inl e), store))"

subsection \<open>What the store relies on\<close>

text \<open>A valid record that can be encoded can be read back and fits into the size that reading allows, and the
  file of a valid command id is not taken for a temporary file.\<close>

definition command_sdk_ok :: "command_sdk \<Rightarrow> bool" where
  "command_sdk_ok sdk \<longleftrightarrow>
     (\<forall>r raw. validate_record sdk r = Inr () \<longrightarrow> sdk_marshal_record sdk r = Some raw \<longrightarrow>
        sdk_unmarshal_record sdk (raw @ [CHR 0x0A]) = Some r \<and> length raw < max_record_bytes sdk) \<and>
     (\<forall>k. sdk_valid_key sdk k \<longrightarrow> \<not> prefix temporary_prefix (record_file k))"

lemma validate_recordD:
  assumes "validate_record sdk r = Inr ()"
  shows "sdk_valid_key sdk (re_command_id r)" and "sdk_command_digest_of sdk (re_command r) = Some (re_request_sha256 r)"
    and "state_shape_ok r"
  using assms by (auto simp: validate_record_def split: if_splits)

lemma validate_record_result:
  "validate_record sdk r = Inr () \<Longrightarrow> re_result r = Some result \<Longrightarrow>
   cr_command_id result = re_command_id r \<and> cr_request_sha256 result = re_request_sha256 r"
  by (auto simp: validate_record_def guard_err_def split: if_splits)

lemma read_record_valid: "read_record sdk fault f = Inr r \<Longrightarrow> validate_record sdk r = Inr ()"
  by (auto simp: read_record_def and_then_Inr_iff split: if_splits option.splits)

lemma read_written:
  assumes "command_sdk_ok sdk" and "validate_record sdk r = Inr ()" and "sdk_marshal_record sdk r = Some raw"
  shows "read_record sdk None (private_file (raw @ [CHR 0x0A])) = Inr r"
proof -
  have "sdk_unmarshal_record sdk (raw @ [CHR 0x0A]) = Some r \<and> length raw < max_record_bytes sdk"
    using assms unfolding command_sdk_ok_def by blast
  then show ?thesis using assms(2) by (simp add: read_record_def)
qed

subsection \<open>What the files tell\<close>

text \<open>How a record may develop: it keeps its identity, moves forward only, and a result once there stays, as does
  the time of its acknowledgement.\<close>

definition state_rank :: "record_state \<Rightarrow> nat" where
  "state_rank s = (case s of StatePending \<Rightarrow> 0 | StateCompleted \<Rightarrow> 1 | StateAcknowledged \<Rightarrow> 2 | StateOther _ \<Rightarrow> 3)"

definition advances :: "command_record \<Rightarrow> command_record \<Rightarrow> bool" where
  "advances r r' \<longleftrightarrow>
     re_command_id r' = re_command_id r \<and> re_request_sha256 r' = re_request_sha256 r \<and> re_command r' = re_command r \<and>
     re_received_at r' = re_received_at r \<and> state_rank (re_state r) \<le> state_rank (re_state r') \<and>
     (re_result r \<noteq> None \<longrightarrow> re_result r' = re_result r) \<and>
     (state_rank StateAcknowledged \<le> state_rank (re_state r) \<longrightarrow> re_acknowledged_at r' = re_acknowledged_at r)"

lemma advances_refl [simp]: "advances r r"
  by (simp add: advances_def)

lemma advances_trans: "advances a b \<Longrightarrow> advances b c \<Longrightarrow> advances a c"
  by (auto simp: advances_def)

abbreviation command_inv :: "command_sdk \<Rightarrow> command_store \<Rightarrow> bool" where
  "command_inv sdk \<equiv> file_store_inv temporary_prefix (read_record sdk None) re_command_id (\<lambda>r. validate_record sdk r = Inr ()) advances"

abbreviation durable :: "command_sdk \<Rightarrow> directory \<Rightarrow> string \<Rightarrow> command_record option" where
  "durable sdk \<equiv> on_disk temporary_prefix (read_record sdk None)"

lemmas command_invD = file_store_invD [where ok = "\<lambda>r. validate_record sdk r = Inr ()" and nm = re_command_id and adv = advances
  and tmp = temporary_prefix and rd = "read_record sdk None" for sdk]

lemma store_record_step:
  assumes res: "store_record sdk fault r store = (out, store')" and ok: "command_sdk_ok sdk" and inv: "command_inv sdk store"
    and next_state: "\<And>old. bucket_get (fs_records store) (re_command_id r) = Some old \<Longrightarrow> advances old r"
  shows "command_inv sdk store' \<and>
    (\<forall>k. bucket_get (fs_records store') k =
       (if out = Inr () \<and> k = re_command_id r then Some r else bucket_get (fs_records store) k))"
proof (cases "encode_record sdk r")
  case (Inl e)
  with res inv show ?thesis by (auto simp: store_record_def)
next
  case (Inr content)
  then obtain raw where raw: "validate_record sdk r = Inr ()" "sdk_marshal_record sdk r = Some raw" "content = raw @ [CHR 0x0A]"
    by (auto simp: encode_record_def and_then_Inr_iff split: option.splits)
  have rep: "replace_record fault (re_command_id r) content r store = (out, store')"
    using res Inr by (simp add: store_record_def)
  have name: "\<not> prefix temporary_prefix (record_file (re_command_id r))"
    using ok validate_recordD(1) [OF raw(1)] by (simp add: command_sdk_ok_def)
  have read: "read_record sdk None (private_file content) = Inr r"
    unfolding raw(3) by (rule read_written [OF ok raw(1,2)])
  show ?thesis
    using replace_record_step [OF rep inv read refl name raw(1) advances_refl next_state] by simp
qed

lemma open_command_store_reads:
  assumes "command_inv sdk s" and "leftovers temporary_prefix (fs_files s) dir"
  obtains s' where "open_command_store sdk None None dir = Inr s'" "command_inv sdk s'"
    "\<And>k. bucket_get (fs_records s') k = durable sdk (fs_files s) k"
    "fs_files s' = filter (\<lambda>e. \<not> is_temporary temporary_prefix e) (fs_files s)"
  by (rule reopen_files [OF assms, of FilenameMismatch DuplicateCommand])
    (auto simp: open_command_store_def dest: read_record_valid)

subsection \<open>Every operation keeps the invariant and lets records only advance\<close>

text \<open>\<open>kept_except ids\<close>: every record outside \<open>ids\<close> is still there and has only advanced.\<close>

definition kept_except :: "string set \<Rightarrow> command_store \<Rightarrow> command_store \<Rightarrow> bool" where
  "kept_except ids store store' \<longleftrightarrow>
     (\<forall>k r. k \<notin> ids \<longrightarrow> bucket_get (fs_records store) k = Some r \<longrightarrow>
        (\<exists>r'. bucket_get (fs_records store') k = Some r' \<and> advances r r'))"

lemma kept_except_refl [simp]: "kept_except ids store store"
  by (auto simp: kept_except_def)

lemma kept_except_trans: "kept_except a s t \<Longrightarrow> kept_except b t u \<Longrightarrow> kept_except (a \<union> b) s u"
  unfolding kept_except_def by (meson UnCI advances_trans)

lemma store_record_keeps:
  assumes "store_record sdk fault r store = (out, store')" and "command_sdk_ok sdk" and "command_inv sdk store"
    and next_state: "\<And>old. bucket_get (fs_records store) (re_command_id r) = Some old \<Longrightarrow> advances old r"
  shows "command_inv sdk store' \<and> kept_except {} store store'"
proof
  note step = store_record_step [OF assms(1-3) next_state]
  show "command_inv sdk store'" using step by blast
  show "kept_except {} store store'"
    unfolding kept_except_def
  proof (intro allI impI)
    fix k old assume old: "bucket_get (fs_records store) k = Some old"
    have get: "bucket_get (fs_records store') k =
       (if out = Inr () \<and> k = re_command_id r then Some r else bucket_get (fs_records store) k)" using step by blast
    show "\<exists>r'. bucket_get (fs_records store') k = Some r' \<and> advances old r'"
      using get old next_state by (cases "out = Inr () \<and> k = re_command_id r") auto
  qed
qed

lemma accept_step:
  assumes res: "command_accept sdk fault k cmd t store = (out, store')" and ok: "command_sdk_ok sdk" and inv: "command_inv sdk store"
  shows "command_inv sdk store' \<and> kept_except {} store store' \<and>
    (out = Inr True \<longrightarrow> bucket_get (fs_records store) k = None \<and>
       (\<exists>r. bucket_get (fs_records store') k = Some r \<and> re_command r = cmd \<and> re_state r = StatePending \<and>
            sdk_command_digest_of sdk cmd = Some (re_request_sha256 r) \<and> re_received_at r = t)) \<and>
    (out = Inr False \<longrightarrow> store' = store \<and> (\<exists>r. bucket_get (fs_records store) k = Some r \<and>
       sdk_command_digest_of sdk cmd = Some (re_request_sha256 r)))"
proof (cases "sdk_valid_key sdk k \<and> (\<exists>digest. sdk_command_digest_of sdk cmd = Some digest)")
  case False
  then have "\<exists>e. out = Inl e" "store' = store"
    using res by (auto simp: command_accept_def split: if_splits)
  with inv show ?thesis by auto
next
  case True
  then obtain digest where d: "sdk_valid_key sdk k" "sdk_command_digest_of sdk cmd = Some digest" by blast
  show ?thesis
  proof (cases "bucket_get (fs_records store) k")
    case (Some existing)
    then have "store' = store" "out = (if re_request_sha256 existing \<noteq> digest then Inl CommandConflict else Inr False)"
      using res d by (simp_all add: command_accept_def)
    with Some d inv show ?thesis by simp
  next
    case None
    let ?r = "\<lparr>re_api_version = sdk_api_version sdk, re_command_id = k, re_request_sha256 = digest,
                    re_command = cmd, re_state = StatePending, re_result = None, re_received_at = t,
                    re_updated_at = t, re_acknowledged_at = None\<rparr>"
    obtain w s where w: "store_record sdk fault ?r store = (w, s)" by force
    have fresh: "\<And>old. bucket_get (fs_records store) (re_command_id ?r) = Some old \<Longrightarrow> advances old ?r" using None by simp
    note step = store_record_step [OF w ok inv fresh] and keeps = store_record_keeps [OF w ok inv fresh]
    show ?thesis
    proof (cases w)
      case (Inl e)
      then have "out = Inl e" "store' = s" using res d None w by (simp_all add: command_accept_def Let_def)
      with keeps show ?thesis by simp
    next
      case (Inr u)
      then have "out = Inr True" "store' = s" using res d None w by (simp_all add: command_accept_def Let_def)
      moreover have "bucket_get (fs_records s) k = Some ?r" using step Inr by simp
      ultimately show ?thesis using keeps None d by simp
    qed
  qed
qed

lemma complete_step:
  assumes res: "command_complete sdk fault k sha result t store = (out, store')" and ok: "command_sdk_ok sdk" and inv: "command_inv sdk store"
  shows "command_inv sdk store' \<and> kept_except {} store store'"
proof (cases "bucket_get (fs_records store) k")
  case None
  with res inv show ?thesis by (auto simp: command_complete_def split: if_splits)
next
  case (Some r)
  let ?r = "r\<lparr>re_state := StateCompleted, re_result := Some result, re_updated_at := t\<rparr>"
  have id: "re_command_id r = k" by (rule command_invD(1) [OF inv Some])
  have shape: "state_shape_ok r" by (rule validate_recordD(3) [OF command_invD(2) [OF inv Some]])
  show ?thesis
  proof (cases "store' = store")
    case True
    with inv show ?thesis by simp
  next
    case False
    with res Some have w: "store_record sdk fault ?r store = (out, store')" and pending: "re_state r = StatePending"
      by (auto simp: command_complete_def split: if_splits)
    have "advances old ?r" if "bucket_get (fs_records store) (re_command_id ?r) = Some old" for old
      using that Some id pending shape by (auto simp: advances_def state_rank_def state_shape_ok_def)
    with store_record_keeps [OF w ok inv] show ?thesis by blast
  qed
qed

text \<open>A successful completion leaves the record with this result, or with one that is encoded identically.\<close>

lemma complete_stored:
  assumes res: "command_complete sdk fault k sha result t store = (Inr (), store')" and ok: "command_sdk_ok sdk" and inv: "command_inv sdk store"
  obtains r stored where "bucket_get (fs_records store') k = Some r" "re_request_sha256 r = sha" "re_result r = Some stored"
    "stored = result \<or> command_results_equal sdk stored result"
proof -
  obtain r where r: "bucket_get (fs_records store) k = Some r" "re_request_sha256 r = sha"
    using res by (auto simp: command_complete_def split: if_splits option.splits)
  let ?r = "r\<lparr>re_state := StateCompleted, re_result := Some result, re_updated_at := t\<rparr>"
  have id: "re_command_id r = k" by (rule command_invD(1) [OF inv r(1)])
  show ?thesis
  proof (cases "re_state r = StatePending")
    case True
    then have w: "store_record sdk fault ?r store = (Inr (), store')"
      using res r by (auto simp: command_complete_def split: if_splits)
    have shape: "state_shape_ok r" by (rule validate_recordD(3) [OF command_invD(2) [OF inv r(1)]])
    have "advances old ?r" if "bucket_get (fs_records store) (re_command_id ?r) = Some old" for old
      using that r id True shape by (auto simp: advances_def state_rank_def state_shape_ok_def)
    from store_record_step [OF w ok inv this] have "bucket_get (fs_records store') k = Some ?r" using id by simp
    with that [of ?r result] r show ?thesis by simp
  next
    case False
    then obtain stored where "re_result r = Some stored" "command_results_equal sdk stored result" "store' = store"
      using res r by (auto simp: command_complete_def split: if_splits option.splits)
    with that [of r stored] r show ?thesis by simp
  qed
qed

lemma acknowledge_step:
  assumes res: "command_acknowledge sdk fault k sha t store = (out, store')" and ok: "command_sdk_ok sdk" and inv: "command_inv sdk store"
  shows "command_inv sdk store' \<and> kept_except {} store store'"
proof (cases "bucket_get (fs_records store) k")
  case None
  with res inv show ?thesis by (simp add: command_acknowledge_def)
next
  case (Some r)
  let ?r = "r\<lparr>re_state := StateAcknowledged, re_updated_at := t, re_acknowledged_at := Some t\<rparr>"
  have id: "re_command_id r = k" by (rule command_invD(1) [OF inv Some])
  show ?thesis
  proof (cases "store' = store")
    case True
    with inv show ?thesis by simp
  next
    case False
    with res Some have w: "store_record sdk fault ?r store = (out, store')" and done': "re_state r = StateCompleted"
      by (auto simp: command_acknowledge_def split: if_splits)
    have "advances old ?r" if "bucket_get (fs_records store) (re_command_id ?r) = Some old" for old
      using that Some id done' by (auto simp: advances_def state_rank_def)
    with store_record_keeps [OF w ok inv] show ?thesis by blast
  qed
qed

definition expired_ids :: "time \<Rightarrow> command_store \<Rightarrow> string set" where
  "expired_ids cutoff store = {k. \<exists>r. bucket_get (fs_records store) k = Some r \<and> expired_record cutoff r}"

lemma cleanup_record_step:
  assumes "cleanup_record remove_fault cutoff k store = (out, store')" and "command_inv sdk store"
  shows "command_inv sdk store' \<and> (\<forall>j. bucket_get (fs_records store') j = bucket_get (fs_records store) j \<or>
     j \<in> expired_ids cutoff store \<and> bucket_get (fs_records store') j = None)"
proof (cases "\<exists>r. bucket_get (fs_records store) k = Some r \<and> expired_record cutoff r \<and> remove_fault k = None")
  case False
  with assms show ?thesis by (auto simp: cleanup_record_def split: option.splits if_splits)
next
  case True
  then obtain r where r: "bucket_get (fs_records store) k = Some r" "expired_record cutoff r" "remove_fault k = None" by blast
  with assms(1) have store': "store' = store\<lparr>fs_files := bucket_delete (record_file k) (fs_files store),
      fs_records := bucket_delete k (fs_records store)\<rparr>" by (simp add: cleanup_record_def)
  have "command_inv sdk store'"
    unfolding store' by (rule remove_record_inv [OF assms(2)])
  then show ?thesis using r by (auto simp: store' expired_ids_def)
qed

lemma cleanup_records_step:
  assumes "cleanup_records remove_fault cutoff ks store = (out, store')" and "command_inv sdk store"
  shows "command_inv sdk store' \<and> (\<forall>j. bucket_get (fs_records store') j = bucket_get (fs_records store) j \<or>
     j \<in> expired_ids cutoff store \<and> bucket_get (fs_records store') j = None)"
  using assms
proof (induction ks arbitrary: store)
  case (Cons k ks)
  obtain o1 s1 where one: "cleanup_record remove_fault cutoff k store = (o1, s1)" by force
  note step = cleanup_record_step [OF one Cons.prems(2)]
  show ?case
  proof (cases o1)
    case (Inl e)
    with Cons.prems(1) one step show ?thesis by auto
  next
    case (Inr u)
    with Cons.prems(1) one have "cleanup_records remove_fault cutoff ks s1 = (out, store')" by simp
    from Cons.IH [OF this] step show ?thesis by (auto simp: expired_ids_def) metis+
  qed
qed auto

lemma cleanup_step:
  assumes "command_cleanup iter remove_fault sync_fault now store = (out, store')" and "command_inv sdk store"
  shows "command_inv sdk store'" and "bucket_get (fs_records store') k = bucket_get (fs_records store) k \<or>
    k \<in> expired_ids (now - acknowledged_retention) store \<and> bucket_get (fs_records store') k = None"
proof -
  have "\<exists>out. cleanup_records remove_fault (now - acknowledged_retention) (iter (map fst (fs_records store))) store = (out, store')"
    using assms(1) by (auto simp: command_cleanup_def split: prod.splits sum.splits)
  then obtain out where "cleanup_records remove_fault (now - acknowledged_retention) (iter (map fst (fs_records store))) store = (out, store')" ..
  from cleanup_records_step [OF this assms(2)] show "command_inv sdk store'" and "bucket_get (fs_records store') k = bucket_get (fs_records store) k \<or>
    k \<in> expired_ids (now - acknowledged_retention) store \<and> bucket_get (fs_records store') k = None" by simp_all
qed

end
