(* ===== verification/CommandRuns.thy ===== *)
theory CommandRuns
  imports CommandStore
begin

section \<open>Runs of the command store\<close>

text \<open>
  A run interleaves the operations of the store, with their faults, and restarts: a restart opens the directory
  that is on disk, with whatever temporary files an interrupted write has left. The main lemma says what happens
  to one record in a step; the properties follow by induction over the run.
\<close>

inductive command_step :: "command_sdk \<Rightarrow> command_store \<Rightarrow> command_store \<Rightarrow> bool" for sdk where
  accept: "command_accept sdk fault k cmd t s = (out, s') \<Longrightarrow> command_step sdk s s'"
| complete: "command_complete sdk fault k sha result t s = (out', s') \<Longrightarrow> command_step sdk s s'"
| acknowledge: "command_acknowledge sdk fault k sha t s = (out', s') \<Longrightarrow> command_step sdk s s'"
| cleanup: "command_cleanup iter remove_fault sync_fault now s = (out', s') \<Longrightarrow> command_step sdk s s'"
| restart: "leftovers temporary_prefix (fs_files s) dir \<Longrightarrow> open_command_store sdk None None dir = Inr s' \<Longrightarrow> command_step sdk s s'"

abbreviation command_run :: "command_sdk \<Rightarrow> command_store \<Rightarrow> command_store \<Rightarrow> bool" where
  "command_run sdk \<equiv> (command_step sdk)\<^sup>*\<^sup>*"

text \<open>The only way for a record to go: a clean-up that finds it acknowledged for at least 24 hours.\<close>

definition cleaned_up :: "command_store \<Rightarrow> string \<Rightarrow> command_record \<Rightarrow> command_store \<Rightarrow> bool" where
  "cleaned_up s k r s' \<longleftrightarrow> bucket_get (fs_records s) k = Some r \<and> bucket_get (fs_records s') k = None \<and> re_state r = StateAcknowledged \<and>
     (\<exists>iter remove_fault sync_fault now out t. command_cleanup iter remove_fault sync_fault now s = (out, s') \<and>
        re_acknowledged_at r = Some t \<and> t + 24 * 3600 * second \<le> now)"

lemma kept_record:
  "kept_except ids s s' \<Longrightarrow> bucket_get (fs_records s) k = Some r \<Longrightarrow> k \<notin> ids \<Longrightarrow>
   \<exists>r'. bucket_get (fs_records s') k = Some r' \<and> advances r r'"
  by (simp add: kept_except_def)

lemma command_step_record:
  assumes "command_step sdk s s'" and "command_sdk_ok sdk" and "command_inv sdk s"
  shows "command_inv sdk s' \<and> (\<forall>k r. bucket_get (fs_records s) k = Some r \<longrightarrow>
     (\<exists>r'. bucket_get (fs_records s') k = Some r' \<and> advances r r') \<or> cleaned_up s k r s')"
  using assms
proof (cases rule: command_step.cases)
  case (accept fault k cmd t out)
  from accept_step [OF this assms(2,3)] show ?thesis using kept_record [of "{}"] by blast
next
  case (complete fault k sha result t out')
  from complete_step [OF this assms(2,3)] show ?thesis using kept_record [of "{}"] by blast
next
  case (acknowledge fault k sha t out')
  from acknowledge_step [OF this assms(2,3)] show ?thesis using kept_record [of "{}"] by blast
next
  case (cleanup iter remove_fault sync_fault now out')
  have "(\<exists>r'. bucket_get (fs_records s') k = Some r' \<and> advances r r') \<or> cleaned_up s k r s'"
    if r: "bucket_get (fs_records s) k = Some r" for k r
  proof (cases "bucket_get (fs_records s') k")
    case None
    with cleanup_step(2) [OF cleanup assms(3), of k] r have "expired_record (now - acknowledged_retention) r"
      by (auto simp: expired_ids_def)
    then obtain t where "re_state r = StateAcknowledged" "re_acknowledged_at r = Some t" "t + 24 * 3600 * second \<le> now"
      by (auto simp: expired_record_def acknowledged_retention_def split: option.splits)
    with r None cleanup show ?thesis unfolding cleaned_up_def by blast
  next
    case (Some r')
    with cleanup_step(2) [OF cleanup assms(3), of k] r show ?thesis by simp
  qed
  with cleanup_step(1) [OF cleanup assms(3)] show ?thesis by blast
next
  case (restart dir)
  obtain s2 where "open_command_store sdk None None dir = Inr s2" "command_inv sdk s2"
    "\<And>k. bucket_get (fs_records s2) k = durable sdk (fs_files s) k"
    by (rule open_command_store_reads [OF assms(3) restart(1)]) blast
  with restart(2) command_invD(3) [OF assms(3)] show ?thesis by auto
qed

interpretation command_store: stepping "command_step sdk" "\<lambda>s. command_sdk_ok sdk \<and> command_inv sdk s" "\<lambda>_ _. True" for sdk
  by unfold_locales (use command_step_record in blast)+

lemma command_run_inv: "command_run sdk s s' \<Longrightarrow> command_sdk_ok sdk \<Longrightarrow> command_inv sdk s \<Longrightarrow> command_inv sdk s'"
  using command_store.run_inv by blast

lemma command_run_record:
  assumes "command_run sdk s s'" and "command_sdk_ok sdk" and "command_inv sdk s"
    and "bucket_get (fs_records s) k = Some r"
  shows "(\<exists>r'. bucket_get (fs_records s') k = Some r' \<and> advances r r') \<or>
    (\<exists>m rm m'. command_run sdk s m \<and> advances r rm \<and> cleaned_up m k rm m' \<and> command_run sdk m' s')"
  using assms(1)
proof (induction rule: rtranclp_induct)
  case base
  then show ?case using assms(4) advances_refl by blast
next
  case (step u v)
  have inv: "command_inv sdk u" by (rule command_run_inv [OF step(1) assms(2,3)])
  from step.IH show ?case
  proof
    assume "\<exists>m rm m'. command_run sdk s m \<and> advances r rm \<and> cleaned_up m k rm m' \<and> command_run sdk m' u"
    then show ?case using step(2) by (meson rtranclp.rtrancl_into_rtrancl)
  next
    assume "\<exists>r'. bucket_get (fs_records u) k = Some r' \<and> advances r r'"
    then obtain r' where r': "bucket_get (fs_records u) k = Some r'" "advances r r'" by blast
    from command_step_record [OF step(2) assms(2) inv] r'(1)
    consider r2 where "bucket_get (fs_records v) k = Some r2" "advances r' r2" | "cleaned_up u k r' v" by blast
    then show ?case
    proof cases
      case 1
      with advances_trans [OF r'(2)] show ?thesis by blast
    next
      case 2
      with step(1) r'(2) show ?thesis by blast
    qed
  qed
qed

end
