(* ===== verification/CommandProcessor.thy ===== *)
theory CommandProcessor
  imports CommandRuns
begin

section \<open>Executing commands (internal/command/processor.go, internal/command/router.go)\<close>

text \<open>
  The processor takes the pending commands one at a time, oldest first, runs each by the executor of its kind under
  a deadline, and stores the result; a command whose execution asks for a restart of the agent stays pending. An
  executor is a function of the deadline, the command id and the command that changes a world \<open>'w\<close>: the
  components behind the router are instances of it. What the outside does during one round of the loop - the readings of the clock, the
  cancellation of the context, the way a wait ends and the faults of the storage - is a record \<open>round_env\<close>, and a
  run is a list of rounds.
\<close>

record execution =
  ex_output :: string
  ex_problem :: "problem option"
  ex_restart :: bool

type_synonym 'w executor = "time \<Rightarrow> string \<Rightarrow> agent_command \<Rightarrow> 'w \<Rightarrow> execution \<times> 'w"

record envelope =
  en_type :: string
  en_idempotency_key :: string
  en_payload :: string

record command_result_ack =
  ra_command_id :: string
  ra_request_sha256 :: string

record processor_sdk =
  px_center_command :: string
  px_decode_command :: "envelope \<Rightarrow> agent_command option"
  px_valid_ack :: "command_result_ack \<Rightarrow> bool"
  px_error_unavailable :: string
  px_error_unsupported :: string
  px_error_invalid_argument :: string
  px_error_conflict :: string
  px_error_internal :: string
  px_maximum_execution :: int

datatype processor_error = NotACommand | UndecodableCommand | InvalidAckMessage | StoreFailed command_error | PersistResultFailed command_error

record processor =
  pc_store :: command_store
  pc_wake :: bool
  pc_result_ready :: bool

definition new_processor :: "command_store \<Rightarrow> processor" where
  "new_processor store = \<lparr>pc_store = store, pc_wake = False, pc_result_ready = False\<rparr>"

subsection \<open>Routing\<close>

definition unsupported_executor :: "processor_sdk \<Rightarrow> 'w executor" where
  "unsupported_executor px deadline k cmd w =
     (\<lparr>ex_output = [], ex_problem = Some \<lparr>pr_code = px_error_unsupported px, pr_message = ''unsupported command'', pr_retryable = False\<rparr>,
       ex_restart = False\<rparr>, w)"

definition router_execute :: "processor_sdk \<Rightarrow> (string \<rightharpoonup> 'w executor) \<Rightarrow> 'w executor" where
  "router_execute px router deadline k cmd w =
     (case router (ac_kind cmd) of
        None \<Rightarrow> unsupported_executor px deadline k cmd w
      | Some executor \<Rightarrow> executor deadline k cmd w)"

text \<open>The failures that executors answer with.\<close>

definition failure :: "string \<Rightarrow> string \<Rightarrow> bool \<Rightarrow> execution" where
  "failure code message retryable =
     \<lparr>ex_output = [], ex_problem = Some \<lparr>pr_code = code, pr_message = message, pr_retryable = retryable\<rparr>, ex_restart = False\<rparr>"

definition output_of :: "string \<Rightarrow> execution" where
  "output_of output = \<lparr>ex_output = output, ex_problem = None, ex_restart = False\<rparr>"

definition restart_wanted :: execution where
  "restart_wanted = \<lparr>ex_output = [], ex_problem = None, ex_restart = True\<rparr>"

subsection \<open>Accepting\<close>

definition processor_accept ::
    "command_sdk \<Rightarrow> processor_sdk \<Rightarrow> command_error write_fault option \<Rightarrow> envelope \<Rightarrow> time \<Rightarrow> processor
     \<Rightarrow> (processor_error + unit) \<times> processor" where
  "processor_accept sdk px fault env received_at p =
     (if en_type env \<noteq> px_center_command px then (Inl NotACommand, p)
      else case px_decode_command px env of
        None \<Rightarrow> (Inl UndecodableCommand, p)
      | Some value' \<Rightarrow>
        (case command_accept sdk fault (en_idempotency_key env) value' received_at (pc_store p) of
           (Inl e, store) \<Rightarrow> (Inl (StoreFailed e), p\<lparr>pc_store := store\<rparr>)
         | (Inr created, store) \<Rightarrow>
             (Inr (), p\<lparr>pc_store := store, pc_wake := (created \<or> pc_wake p)\<rparr>)))"

definition processor_acknowledge ::
    "command_sdk \<Rightarrow> processor_sdk \<Rightarrow> command_error write_fault option \<Rightarrow> command_result_ack \<Rightarrow> time \<Rightarrow> processor
     \<Rightarrow> (processor_error + unit) \<times> processor" where
  "processor_acknowledge sdk px fault ack acknowledged_at p =
     (if \<not> px_valid_ack px ack then (Inl InvalidAckMessage, p)
      else case command_acknowledge sdk fault (ra_command_id ack) (ra_request_sha256 ack) acknowledged_at (pc_store p) of
        (Inl e, store) \<Rightarrow> (Inl (StoreFailed e), p\<lparr>pc_store := store\<rparr>)
      | (Inr _, store) \<Rightarrow> (Inr (), p\<lparr>pc_store := store\<rparr>))"

definition processor_next_result :: "processor \<Rightarrow> command_error + command_result" where
  "processor_next_result p = next_result (pc_store p)"

subsection \<open>One execution\<close>

datatype processor_wait = ContextDone | CleanupTick | WakeSignal

record round_env =
  rv_now :: time
  rv_finished :: time
  rv_context_done :: bool
  rv_completed :: time
  rv_wait :: processor_wait
  rv_write_fault :: "command_error write_fault option"
  rv_iter :: "string list \<Rightarrow> string list"
  rv_remove_fault :: "string \<Rightarrow> command_error option"
  rv_sync_fault :: "command_error option"

definition execution_deadline :: "processor_sdk \<Rightarrow> time \<Rightarrow> time \<Rightarrow> time" where
  "execution_deadline px now expires_at =
     (if expires_at < now + px_maximum_execution px then expires_at else now + px_maximum_execution px)"

definition processor_execute ::
    "processor_sdk \<Rightarrow> 'w executor \<Rightarrow> round_env \<Rightarrow> command_record \<Rightarrow> 'w \<Rightarrow> command_result \<times> bool \<times> 'w" where
  "processor_execute px executor env r w =
     (let now = rv_now env;
          result = \<lparr>cr_command_id = re_command_id r, cr_request_sha256 = re_request_sha256 r, cr_completed_at = now,
                    cr_status = StatusUnset, cr_output = [], cr_problem = None\<rparr>
      in if \<not> now < ac_expires_at (re_command r)
         then (result\<lparr>cr_status := StatusFailed,
                      cr_problem := Some \<lparr>pr_code = px_error_unavailable px, pr_message = ''command expired before execution'',
                                          pr_retryable = False\<rparr>\<rparr>, False, w)
         else case executor (execution_deadline px now (ac_expires_at (re_command r))) (re_command_id r) (re_command r) w of
           (execution, w) \<Rightarrow>
             let result = result\<lparr>cr_completed_at := rv_finished env\<rparr> in
             if ex_restart execution then (result, True, w)
             else
               let result = result\<lparr>cr_output := ex_output execution\<rparr>;
                   problem = (if rv_context_done env \<and> ex_problem execution = None
                              then Some \<lparr>pr_code = px_error_unavailable px, pr_message = ''command execution timed out'',
                                         pr_retryable = False\<rparr>
                              else ex_problem execution)
               in case problem of
                    None \<Rightarrow> (result\<lparr>cr_status := StatusSucceeded\<rparr>, False, w)
                  | Some p \<Rightarrow> (result\<lparr>cr_status := StatusFailed, cr_problem := Some p\<rparr>, False, w))"

subsection \<open>The loop\<close>

datatype processor_outcome = Continue | Stopped | RestartRequired | Failed processor_error

text \<open>Before the loop: old records are removed, and a result that was not delivered is announced.\<close>

definition processor_start :: "command_sdk \<Rightarrow> round_env \<Rightarrow> processor \<Rightarrow> processor_outcome \<times> processor" where
  "processor_start sdk env p =
     (case command_cleanup (rv_iter env) (rv_remove_fault env) (rv_sync_fault env) (rv_now env) (pc_store p) of
        (Inl e, store) \<Rightarrow> (Failed (StoreFailed e), p\<lparr>pc_store := store\<rparr>)
      | (Inr _, store) \<Rightarrow>
        (case next_result store of
           Inr _ \<Rightarrow> (Continue, p\<lparr>pc_store := store, pc_result_ready := True\<rparr>)
         | Inl e \<Rightarrow> (if e = CommandNotFound then Continue else Failed (StoreFailed e), p\<lparr>pc_store := store\<rparr>)))"

definition processor_round ::
    "command_sdk \<Rightarrow> processor_sdk \<Rightarrow> 'w executor \<Rightarrow> round_env \<Rightarrow> processor \<Rightarrow> 'w \<Rightarrow> processor_outcome \<times> processor \<times> 'w" where
  "processor_round sdk px executor env p w =
     (case next_pending (pc_store p) of
        Inl e \<Rightarrow>
          if e \<noteq> CommandNotFound then (Failed (StoreFailed e), p, w)
          else (case rv_wait env of
             ContextDone \<Rightarrow> (Stopped, p, w)
           | CleanupTick \<Rightarrow>
               (case command_cleanup (rv_iter env) (rv_remove_fault env) (rv_sync_fault env) (rv_now env) (pc_store p) of
                  (Inl e, store) \<Rightarrow> (Failed (StoreFailed e), p\<lparr>pc_store := store\<rparr>, w)
                | (Inr _, store) \<Rightarrow> (Continue, p\<lparr>pc_store := store\<rparr>, w))
           | WakeSignal \<Rightarrow> (Continue, p\<lparr>pc_wake := False\<rparr>, w))
      | Inr r \<Rightarrow>
          case processor_execute px executor env r w of (result, restart, w) \<Rightarrow>
            if restart then (RestartRequired, p, w)
            else case command_complete sdk (rv_write_fault env) (re_command_id r) (re_request_sha256 r) result (rv_completed env) (pc_store p) of
              (Inl e, store) \<Rightarrow> (Failed (PersistResultFailed e), p\<lparr>pc_store := store\<rparr>, w)
            | (Inr _, store) \<Rightarrow> (Continue, p\<lparr>pc_store := store, pc_result_ready := True\<rparr>, w))"

fun processor_run ::
    "command_sdk \<Rightarrow> processor_sdk \<Rightarrow> 'w executor \<Rightarrow> round_env list \<Rightarrow> processor \<Rightarrow> 'w \<Rightarrow> processor_outcome \<times> processor \<times> 'w" where
  "processor_run sdk px executor [] p w = (Continue, p, w)"
| "processor_run sdk px executor (env # envs) p w =
     (case processor_round sdk px executor env p w of
        (Continue, p, w) \<Rightarrow> processor_run sdk px executor envs p w
      | (outcome, p, w) \<Rightarrow> (outcome, p, w))"

subsection \<open>The order of the pending commands\<close>

lemma next_pending_Inr: "next_pending store = Inr r \<longleftrightarrow> (\<exists>rs. sorted_locked StatePending store = r # rs)"
  by (auto simp: next_pending_def split: list.splits)

lemma next_pending_Inl: "next_pending store = Inl e \<longleftrightarrow> e = CommandNotFound \<and> sorted_locked StatePending store = []"
  by (auto simp: next_pending_def split: list.splits)

lemma set_sorted_locked:
  "command_inv sdk store \<Longrightarrow>
   r \<in> set (sorted_locked state store) \<longleftrightarrow> re_state r = state \<and> bucket_get (fs_records store) (re_command_id r) = Some r"
  unfolding sorted_locked_def
  by (auto simp: file_store_inv_def get_eq_Some_iff image_iff) (metis fst_conv get_eq_Some_iff snd_conv)+

lemma distinct_sorted_locked:
  assumes "command_inv sdk store"
  shows "distinct (map re_command_id (sorted_locked state store))"
proof -
  have ids: "map re_command_id (map snd (fs_records store)) = map fst (fs_records store)"
    using assms by (auto simp: file_store_inv_def get_eq_Some_iff)
  have "distinct (map fst (fs_records store))" using assms by (simp add: file_store_inv_def bucket_ok_distinct)
  then have "distinct (map re_command_id (filter (\<lambda>r. re_state r = state) (map snd (fs_records store))))"
    by (metis ids distinct_map_filter)
  then have "mset (map re_command_id (sorted_locked state store)) =
      mset (map re_command_id (filter (\<lambda>r. re_state r = state) (map snd (fs_records store))))"
    by (simp add: sorted_locked_def)
  then show ?thesis
    using \<open>distinct (map re_command_id (filter _ _))\<close> mset_eq_imp_distinct_iff by blast
qed

text \<open>When the oldest record of a state leaves the state, the others keep their order.\<close>

lemma sorted_locked_moved:
  assumes inv: "command_inv sdk store" and inv': "command_inv sdk store'"
    and first: "sorted_locked st store = r # rs" and r': "re_state r' \<noteq> st" "re_command_id r' = re_command_id r"
    and recs: "fs_records store' = bucket_put (re_command_id r) r' (fs_records store)"
  shows "sorted_locked st store' = rs"
proof -
  let ?k = "re_command_id r" and ?b = "fs_records store" and ?P = "\<lambda>r. re_state r = st"
  have mem: "bucket_get ?b ?k = Some r" using set_sorted_locked [OF inv] first by (metis list.set_intros(1))
  have ok: "bucket_ok ?b" using inv by (simp add: file_store_inv_def)
  have key: "re_command_id (snd e) = fst e" if "e \<in> set ?b" for e
    using inv ok that by (metis command_invD(1) get_eq_Some_iff prod.collapse)
  have "?k \<in> fst ` set ?b" using mem by (metis fst_conv get_SomeD image_eqI)
  then have put: "fs_records store' = map (\<lambda>e. if fst e = ?k then (?k, r') else e) ?b"
    using put_existing [OF ok] recs by simp
  have "(\<forall>e \<in> set b. re_command_id (snd e) = fst e) \<Longrightarrow>
      filter ?P (map snd (map (\<lambda>e. if fst e = ?k then (?k, r') else e) b)) =
      filter (\<lambda>r. re_command_id r \<noteq> ?k) (filter ?P (map snd b))" for b
    using r'(1) by (induction b) auto
  with key have "filter ?P (map snd (fs_records store')) = filter (\<lambda>r. re_command_id r \<noteq> ?k) (filter ?P (map snd ?b))"
    unfolding put by blast
  then have "sorted_locked st store' = filter (\<lambda>r. re_command_id r \<noteq> ?k) (r # rs)"
    unfolding first [symmetric] sorted_locked_def by (simp add: filter_sort)
  moreover have "?k \<notin> re_command_id ` set rs" using distinct_sorted_locked [OF inv, of st] first by simp
  moreover from this have "filter (\<lambda>r'. re_command_id r' \<noteq> ?k) rs = rs"
    by (intro filter_True ballI) (metis imageI)
  ultimately show ?thesis by simp
qed

subsection \<open>One round that completes a command\<close>

text \<open>A stateless executor whose world is the list of the command ids it was called with.\<close>

definition logged :: "(time \<Rightarrow> string \<Rightarrow> agent_command \<Rightarrow> execution) \<Rightarrow> string list executor" where
  "logged run deadline k cmd w = (run deadline k cmd, w @ [k])"

definition completed_record ::
    "processor_sdk \<Rightarrow> (time \<Rightarrow> string \<Rightarrow> agent_command \<Rightarrow> execution) \<Rightarrow> round_env \<Rightarrow> command_record \<Rightarrow> command_record" where
  "completed_record px run env r =
     r\<lparr>re_state := StateCompleted, re_result := Some (fst (processor_execute px (logged run) env r [])), re_updated_at := rv_completed env\<rparr>"

text \<open>What one round needs to go through: no restart is asked for, the result is valid by the SDK's rules and can
  be encoded, the clock gives a time and the write does not fail.\<close>

definition round_completes ::
    "command_sdk \<Rightarrow> processor_sdk \<Rightarrow> (time \<Rightarrow> string \<Rightarrow> agent_command \<Rightarrow> execution) \<Rightarrow> round_env \<Rightarrow> command_record \<Rightarrow> bool" where
  "round_completes sdk px run env r \<longleftrightarrow>
     \<not> fst (snd (processor_execute px (logged run) env r [])) \<and>
     sdk_valid_result sdk (fst (processor_execute px (logged run) env r [])) \<and>
     rv_write_fault env = None \<and> \<not> time_is_zero (rv_completed env) \<and>
     sdk_marshal_record sdk (completed_record px run env r) \<noteq> None"

definition called :: "round_env \<Rightarrow> command_record \<Rightarrow> string list" where
  "called env r = (if rv_now env < ac_expires_at (re_command r) then [re_command_id r] else [])"

lemma processor_execute_logged:
  "processor_execute px (logged run) env r w =
     (fst (processor_execute px (logged run) env r []), fst (snd (processor_execute px (logged run) env r [])), w @ called env r)"
  by (simp add: processor_execute_def logged_def called_def Let_def split: option.splits)

lemma processor_execute_result:
  "cr_command_id (fst (processor_execute px executor env r w)) = re_command_id r"
  "cr_request_sha256 (fst (processor_execute px executor env r w)) = re_request_sha256 r"
  by (simp_all add: processor_execute_def Let_def split: option.splits prod.splits)

lemma complete_pending:
  assumes ok: "command_sdk_ok sdk" and inv: "command_inv sdk store"
    and get: "bucket_get (fs_records store) k = Some r" "re_state r = StatePending"
    and result: "sdk_valid_result sdk result" "cr_command_id result = k" "cr_request_sha256 result = re_request_sha256 r"
    and t: "\<not> time_is_zero t"
    and raw: "sdk_marshal_record sdk (r\<lparr>re_state := StateCompleted, re_result := Some result, re_updated_at := t\<rparr>) \<noteq> None"
  obtains store' where "command_complete sdk None k (re_request_sha256 r) result t store = (Inr (), store')"
    "command_inv sdk store'"
    "fs_records store' = bucket_put k (r\<lparr>re_state := StateCompleted, re_result := Some result, re_updated_at := t\<rparr>) (fs_records store)"
proof -
  let ?r = "r\<lparr>re_state := StateCompleted, re_result := Some result, re_updated_at := t\<rparr>"
  have id: "re_command_id r = k" and valid: "validate_record sdk r = Inr ()" using command_invD [OF inv get(1)] by auto
  have "validate_record sdk ?r = Inr ()"
    using valid get(2) result id t
    by (auto simp: validate_record_def state_shape_ok_def guard_err_def split: if_splits)
  then obtain dir' where "store_record sdk None ?r store = (Inr (), store\<lparr>fs_files := dir', fs_records := bucket_put k ?r (fs_records store)\<rparr>)"
    using raw id by (auto simp: store_record_def encode_record_def replace_record_def replace_file_def)
  then have done': "command_complete sdk None k (re_request_sha256 r) result t store =
      (Inr (), store\<lparr>fs_files := dir', fs_records := bucket_put k ?r (fs_records store)\<rparr>)"
    using get result id by (simp add: command_complete_def)
  from complete_step [OF this ok inv] that [OF done'] show ?thesis by simp
qed

lemma round_step:
  assumes ok: "command_sdk_ok sdk" and inv: "command_inv sdk (pc_store p)"
    and first: "sorted_locked StatePending (pc_store p) = r # rs" and goes: "round_completes sdk px run env r"
  obtains p' where "processor_round sdk px (logged run) env p w = (Continue, p', w @ called env r)"
    "command_inv sdk (pc_store p')" "sorted_locked StatePending (pc_store p') = rs"
    "fs_records (pc_store p') = bucket_put (re_command_id r) (completed_record px run env r) (fs_records (pc_store p))"
proof -
  let ?x = "processor_execute px (logged run) env r []"
  have "r \<in> set (sorted_locked StatePending (pc_store p))" using first by simp
  then have r: "re_state r = StatePending" "bucket_get (fs_records (pc_store p)) (re_command_id r) = Some r"
    using set_sorted_locked [OF inv] by auto
  have result: "sdk_valid_result sdk (fst ?x)" "\<not> time_is_zero (rv_completed env)" "rv_write_fault env = None" "\<not> fst (snd ?x)"
    "sdk_marshal_record sdk (r\<lparr>re_state := StateCompleted, re_result := Some (fst ?x), re_updated_at := rv_completed env\<rparr>) \<noteq> None"
    using goes by (auto simp: round_completes_def completed_record_def)
  obtain store' where store': "command_complete sdk None (re_command_id r) (re_request_sha256 r) (fst ?x) (rv_completed env) (pc_store p) = (Inr (), store')"
    "command_inv sdk store'"
    "fs_records store' = bucket_put (re_command_id r) (completed_record px run env r) (fs_records (pc_store p))"
    using complete_pending [OF ok inv r(2,1) result(1) processor_execute_result result(2,5)]
    unfolding completed_record_def by metis
  have "sorted_locked StatePending store' = rs"
    by (rule sorted_locked_moved [OF inv store'(2) first _ _ store'(3)]) (simp_all add: completed_record_def)
  moreover have "processor_round sdk px (logged run) env p w = (Continue, p\<lparr>pc_store := store', pc_result_ready := True\<rparr>, w @ called env r)"
    using first result(3,4) store'(1) processor_execute_logged [of px run env r w]
    by (simp add: processor_round_def next_pending_def split: prod.splits)
  ultimately show ?thesis using that store'(2,3) by simp
qed

lemma processor_drain:
  assumes ok: "command_sdk_ok sdk" and inv: "command_inv sdk (pc_store p)"
    and goes: "list_all2 (round_completes sdk px run) envs (sorted_locked StatePending (pc_store p))"
  shows "\<exists>p'. processor_run sdk px (logged run) envs p w =
      (Continue, p', w @ concat (map2 called envs (sorted_locked StatePending (pc_store p)))) \<and>
    command_inv sdk (pc_store p') \<and> sorted_locked StatePending (pc_store p') = [] \<and>
    list_all2 (\<lambda>env r. bucket_get (fs_records (pc_store p')) (re_command_id r) = Some (completed_record px run env r))
      envs (sorted_locked StatePending (pc_store p)) \<and>
    (\<forall>k. k \<notin> re_command_id ` set (sorted_locked StatePending (pc_store p)) \<longrightarrow>
       bucket_get (fs_records (pc_store p')) k = bucket_get (fs_records (pc_store p)) k)"
  using assms(2-)
proof (induction envs arbitrary: p w)
  case Nil
  then show ?case by simp
next
  case (Cons env envs)
  from Cons.prems(2) obtain r rs where first: "sorted_locked StatePending (pc_store p) = r # rs"
    and goes: "round_completes sdk px run env r" "list_all2 (round_completes sdk px run) envs rs"
    by (auto simp: list_all2_Cons1)
  obtain p1 where one: "processor_round sdk px (logged run) env p w = (Continue, p1, w @ called env r)"
    "command_inv sdk (pc_store p1)" "sorted_locked StatePending (pc_store p1) = rs"
    "fs_records (pc_store p1) = bucket_put (re_command_id r) (completed_record px run env r) (fs_records (pc_store p))"
    by (rule round_step [OF ok Cons.prems(1) first goes(1)])
  have "list_all2 (round_completes sdk px run) envs (sorted_locked StatePending (pc_store p1))" using goes(2) one(3) by simp
  from Cons.IH [OF one(2) this, of "w @ called env r"] obtain p' where p':
    "processor_run sdk px (logged run) envs p1 (w @ called env r) = (Continue, p', (w @ called env r) @ concat (map2 called envs rs))"
    "command_inv sdk (pc_store p')" "sorted_locked StatePending (pc_store p') = []"
    "list_all2 (\<lambda>env r. bucket_get (fs_records (pc_store p')) (re_command_id r) = Some (completed_record px run env r)) envs rs"
    "\<And>k. k \<notin> re_command_id ` set rs \<Longrightarrow> bucket_get (fs_records (pc_store p')) k = bucket_get (fs_records (pc_store p1)) k"
    unfolding one(3) by blast
  have "re_command_id r \<notin> re_command_id ` set rs"
    using distinct_sorted_locked [OF Cons.prems(1), of StatePending] first by simp
  with p'(5) one(4) have "bucket_get (fs_records (pc_store p')) (re_command_id r) = Some (completed_record px run env r)" by simp
  with one p' first show ?case by simp
qed

end
