(* ===== verification/CommandProperties.thy ===== *)
theory CommandProperties
  imports CommandProcessor
begin

section \<open>The properties of command handling\<close>

text \<open>
  The properties of the command store and the processor, each with a witness on a small store. The sample SDK knows
  one command, a pending record of it and the completed one.
\<close>

definition demo_task :: agent_command where
  "demo_task = \<lparr>ac_kind = ''update'', ac_expires_at = 500, ac_payload = ''x''\<rparr>"

definition demo_outcome :: command_result where
  "demo_outcome = \<lparr>cr_command_id = ''a'', cr_request_sha256 = ''sha'', cr_completed_at = 30, cr_status = StatusSucceeded,
     cr_output = ''ok'', cr_problem = None\<rparr>"

definition demo_pending :: command_record where
  "demo_pending = \<lparr>re_api_version = ''v1'', re_command_id = ''a'', re_request_sha256 = ''sha'', re_command = demo_task,
     re_state = StatePending, re_result = None, re_received_at = 10, re_updated_at = 10, re_acknowledged_at = None\<rparr>"

definition demo_completed :: command_record where
  "demo_completed = demo_pending\<lparr>re_state := StateCompleted, re_result := Some demo_outcome, re_updated_at := 40\<rparr>"

definition demo_command_sdk :: command_sdk where
  "demo_command_sdk =
     \<lparr>sdk_api_version = ''v1'', sdk_valid_key = (\<lambda>k. k = ''a''),
      sdk_command_digest_of = (\<lambda>c. if c = demo_task then Some ''sha'' else Some ''other''),
      sdk_valid_result = (\<lambda>_. True),
      sdk_marshal_record = (\<lambda>r. if r = demo_pending then Some ''P'' else if r = demo_completed then Some ''C'' else None),
      sdk_unmarshal_record = (\<lambda>s. if s = ''P'' @ [CHR 0x0A] then Some demo_pending
                                  else if s = ''C'' @ [CHR 0x0A] then Some demo_completed else None),
      sdk_marshal_result = (\<lambda>_. Some ''r''), sdk_max_message_bytes = 100\<rparr>"

definition demo_empty :: command_store where
  "demo_empty = \<lparr>fs_files = [], fs_records = []\<rparr>"

definition demo_accepted :: command_store where
  "demo_accepted = \<lparr>fs_files = [(''a.json'', private_file (''P'' @ [CHR 0x0A]))], fs_records = [(''a'', demo_pending)]\<rparr>"

definition demo_done :: command_store where
  "demo_done = \<lparr>fs_files = [(''a.json'', private_file (''C'' @ [CHR 0x0A]))], fs_records = [(''a'', demo_completed)]\<rparr>"

lemma demo_records_differ: "demo_pending \<noteq> demo_completed"
  by (simp add: demo_pending_def demo_completed_def)

lemma demo_command_sdk_ok: "command_sdk_ok demo_command_sdk"
  unfolding command_sdk_ok_def
  by (auto simp: demo_command_sdk_def max_record_bytes_def temporary_prefix_def record_file_def split: if_splits)

lemma demo_pending_valid: "validate_record demo_command_sdk demo_pending = Inr ()"
  by (simp add: validate_record_def demo_command_sdk_def demo_pending_def time_is_zero_def state_shape_ok_def)

lemma demo_completed_valid: "validate_record demo_command_sdk demo_completed = Inr ()"
  by (simp add: validate_record_def demo_command_sdk_def demo_completed_def demo_pending_def demo_outcome_def
      time_is_zero_def state_shape_ok_def)

lemma demo_marshal:
  "sdk_marshal_record demo_command_sdk demo_pending = Some ''P''"
  "sdk_marshal_record demo_command_sdk demo_completed = Some ''C''"
  using demo_records_differ by (auto simp: demo_command_sdk_def)

lemma demo_accept: "command_accept demo_command_sdk None ''a'' demo_task 10 demo_empty = (Inr True, demo_accepted)"
proof -
  have "store_record demo_command_sdk None demo_pending demo_empty = (Inr (), demo_accepted)"
    using demo_pending_valid demo_marshal
    by (simp add: store_record_def encode_record_def replace_record_def replace_file_def demo_empty_def demo_accepted_def
        bucket_put.simps record_file_def) (simp add: demo_pending_def)
  then show ?thesis
    by (simp add: command_accept_def demo_command_sdk_def [of] demo_empty_def demo_pending_def Let_def)
qed

lemma demo_inv: "command_inv demo_command_sdk demo_empty" "command_inv demo_command_sdk demo_accepted"
proof -
  show empty: "command_inv demo_command_sdk demo_empty"
    by (simp add: file_store_inv_def files_ok_def demo_empty_def)
  from accept_step [OF demo_accept demo_command_sdk_ok empty] show "command_inv demo_command_sdk demo_accepted" by simp
qed

lemma demo_get: "bucket_get (fs_records demo_accepted) ''a'' = Some demo_pending"
  by (simp add: demo_accepted_def bucket_get_def)

lemma demo_complete: "command_complete demo_command_sdk None ''a'' ''sha'' demo_outcome 40 demo_accepted = (Inr (), demo_done)"
proof -
  have "store_record demo_command_sdk None demo_completed demo_accepted = (Inr (), demo_done)"
    using demo_completed_valid demo_marshal
    by (simp add: store_record_def encode_record_def replace_record_def replace_file_def demo_accepted_def demo_done_def
        bucket_put.simps record_file_def) (simp add: demo_completed_def demo_pending_def bucket_put.simps)
  then show ?thesis using demo_get
    by (simp add: command_complete_def demo_completed_def) (simp add: demo_command_sdk_def demo_pending_def demo_outcome_def)
qed

lemma demo_crash: "leftovers temporary_prefix (fs_files demo_done) ((''.command-1'', private_file ''half'') # fs_files demo_done)"
  by (simp add: leftovers_def demo_done_def is_temporary_def temporary_prefix_def bucket_ok_def)

text \<open>C14. A command that has been recorded is not lost: through every sequence of operations, storage faults and
  restarts its record is still there, with the same command, digest and receipt time, has only moved forward, and
  keeps its result once it has one and its time of acknowledgement once it is acknowledged. The only exception: a clean-up
  of that run found it acknowledged, at least 24 hours after that acknowledgement, and removed it.\<close>

theorem recorded_command_survives:
  assumes "command_sdk_ok sdk" and "command_inv sdk s" and "command_run sdk s s'"
    and "bucket_get (fs_records s) k = Some r"
  shows "(\<exists>r'. bucket_get (fs_records s') k = Some r' \<and> advances r r') \<or>
    (\<exists>m rm m' iter remove_fault sync_fault now out t. command_run sdk s m \<and> bucket_get (fs_records m) k = Some rm \<and> advances r rm \<and>
       re_state rm = StateAcknowledged \<and> re_acknowledged_at rm = Some t \<and> t + 24 * 3600 * second \<le> now \<and>
       command_cleanup iter remove_fault sync_fault now m = (out, m') \<and> bucket_get (fs_records m') k = None \<and> command_run sdk m' s')"
  using command_run_record [OF assms(3,1,2,4)] unfolding cleaned_up_def by fast

theorem recorded_command_survives_witness:
  "(\<exists>r'. bucket_get (fs_records demo_done) ''a'' = Some r' \<and> advances demo_pending r') \<or>
    (\<exists>m rm m' iter remove_fault sync_fault now out t. command_run demo_command_sdk demo_accepted m \<and> bucket_get (fs_records m) ''a'' = Some rm \<and> advances demo_pending rm \<and>
       re_state rm = StateAcknowledged \<and> re_acknowledged_at rm = Some t \<and> t + 24 * 3600 * second \<le> now \<and>
       command_cleanup iter remove_fault sync_fault now m = (out, m') \<and> bucket_get (fs_records m') ''a'' = None \<and> command_run demo_command_sdk m' demo_done)"
proof -
  have "command_run demo_command_sdk demo_accepted demo_done"
    using command_step.complete [OF demo_complete] by blast
  from recorded_command_survives [OF demo_command_sdk_ok demo_inv(2) this demo_get] show ?thesis .
qed

text \<open>Opening the store reads back what the files tell: it succeeds on the directory of any store in use, also
  when an interrupted write left temporary files, which it removes; the records are exactly those of the files, and none
  that was in memory is missing or behind.\<close>

theorem reopen_reads_back:
  assumes "command_inv sdk s" and "leftovers temporary_prefix (fs_files s) dir"
  shows "\<exists>s'. open_command_store sdk None None dir = Inr s' \<and> command_inv sdk s' \<and>
    bucket_get (fs_records s') = durable sdk (fs_files s) \<and>
    list_all (\<lambda>e. \<exists>r'. bucket_get (fs_records s') (fst e) = Some r' \<and> advances (snd e) r') (fs_records s) \<and>
    filter (is_temporary temporary_prefix) (fs_files s') = []"
proof -
  obtain s' where s': "open_command_store sdk None None dir = Inr s'" "command_inv sdk s'"
    "\<And>k. bucket_get (fs_records s') k = durable sdk (fs_files s) k"
    "fs_files s' = filter (\<lambda>e. \<not> is_temporary temporary_prefix e) (fs_files s)"
    by (rule open_command_store_reads [OF assms]) blast
  have "bucket_ok (fs_records s)" using assms(1) by (simp add: file_store_inv_def)
  then have "\<exists>r'. bucket_get (fs_records s') (fst e) = Some r' \<and> advances (snd e) r'" if "e \<in> set (fs_records s)" for e
    using command_invD(3) [OF assms(1), of "fst e" "snd e"] that s'(3) by (simp add: get_eq_Some_iff)
  with s' show ?thesis by (auto simp: list_all_iff filter_empty_conv)
qed

theorem reopen_reads_back_witness:
  "\<exists>s'. open_command_store demo_command_sdk None None ((''.command-1'', private_file ''half'') # fs_files demo_done) = Inr s' \<and>
    command_inv demo_command_sdk s' \<and> bucket_get (fs_records s') = durable demo_command_sdk (fs_files demo_done) \<and>
    list_all (\<lambda>e. \<exists>r'. bucket_get (fs_records s') (fst e) = Some r' \<and> advances (snd e) r') (fs_records demo_done) \<and>
    filter (is_temporary temporary_prefix) (fs_files s') = []"
proof -
  have "command_inv demo_command_sdk demo_done"
    using complete_step [OF demo_complete demo_command_sdk_ok demo_inv(2)] by simp
  from reopen_reads_back [OF this demo_crash] show ?thesis .
qed

text \<open>A result whose storing was reported as successful survives a crash: the reopened store has the record with this
  result, or with one that is encoded identically.\<close>

theorem completed_result_survives_crash:
  assumes "command_sdk_ok sdk" and "command_inv sdk s"
    and "command_complete sdk fault k sha result t s = (Inr (), s')" and "leftovers temporary_prefix (fs_files s') dir"
  shows "\<exists>s2 r stored. open_command_store sdk None None dir = Inr s2 \<and> bucket_get (fs_records s2) k = Some r \<and>
    re_request_sha256 r = sha \<and> re_result r = Some stored \<and> (stored = result \<or> command_results_equal sdk stored result)"
proof -
  have inv': "command_inv sdk s'" using complete_step [OF assms(3,1,2)] by blast
  obtain r where r: "bucket_get (fs_records s') k = Some r" "re_request_sha256 r = sha"
    "\<exists>stored. re_result r = Some stored \<and> (stored = result \<or> command_results_equal sdk stored result)"
    using complete_stored [OF assms(3,1,2)] by blast
  obtain s2 where s2: "open_command_store sdk None None dir = Inr s2" "\<And>k. bucket_get (fs_records s2) k = durable sdk (fs_files s') k"
    by (rule open_command_store_reads [OF inv' assms(4)]) blast
  obtain r' where "durable sdk (fs_files s') k = Some r'" "advances r r'" using command_invD(3) [OF inv' r(1)] by blast
  with s2 r show ?thesis by (auto simp: advances_def)
qed

theorem completed_result_survives_crash_witness:
  "\<exists>s2 r stored. open_command_store demo_command_sdk None None ((''.command-1'', private_file ''half'') # fs_files demo_done) = Inr s2 \<and>
    bucket_get (fs_records s2) ''a'' = Some r \<and>
    re_request_sha256 r = ''sha'' \<and> re_result r = Some stored \<and>
    (stored = demo_outcome \<or> command_results_equal demo_command_sdk stored demo_outcome)"
  by (rule completed_result_survives_crash [OF demo_command_sdk_ok demo_inv(2) demo_complete demo_crash])

text \<open>Delivering a command again is harmless: after a command was accepted, the same command under the same id is
  recognised and changes nothing, whatever time and storage do, and another command under that id is refused without a change.\<close>

theorem redelivery_is_harmless:
  assumes "command_sdk_ok sdk" and "command_inv sdk s" and "command_accept sdk fault k cmd t s = (Inr created, s')"
    and "sdk_command_digest_of sdk other = Some digest" and "sdk_command_digest_of sdk cmd \<noteq> Some digest"
  shows "command_accept sdk fault' k cmd t' s' = (Inr False, s') \<and>
    command_accept sdk fault' k other t' s' = (Inl CommandConflict, s') \<and>
    bucket_get (fs_records s') k \<noteq> None"
proof -
  note step = accept_step [OF assms(3,1,2)]
  obtain r where r: "bucket_get (fs_records s') k = Some r" "sdk_command_digest_of sdk cmd = Some (re_request_sha256 r)"
    using step by (cases created) auto
  have "sdk_valid_key sdk k" using assms(3) by (auto simp: command_accept_def split: if_splits)
  with r assms(4,5) show ?thesis by (auto simp: command_accept_def)
qed

theorem redelivery_is_harmless_witness:
  "command_accept demo_command_sdk None ''a'' demo_task 11 demo_accepted = (Inr False, demo_accepted) \<and>
    command_accept demo_command_sdk None ''a'' (demo_task\<lparr>ac_payload := ''y''\<rparr>) 11 demo_accepted = (Inl CommandConflict, demo_accepted) \<and>
    bucket_get (fs_records demo_accepted) ''a'' \<noteq> None"
  by (rule redelivery_is_harmless [OF demo_command_sdk_ok demo_inv(1) demo_accept, where digest = "''other''"])
    (simp_all add: demo_command_sdk_def demo_task_def)

text \<open>C15. The processor drains the pending commands in the order they were received: as many rounds as there are pending
  commands call the executor once for each command that has not expired, oldest first, store a result for every command, the
  expired ones too, leave no pending command and touch no other record.\<close>

theorem processor_drains_in_order:
  assumes "command_sdk_ok sdk" and "command_inv sdk (pc_store p)"
    and "list_all2 (round_completes sdk px run) envs (sorted_locked StatePending (pc_store p))"
  shows "\<exists>p'. processor_run sdk px (logged run) envs p [] =
      (Continue, p', concat (map2 called envs (sorted_locked StatePending (pc_store p)))) \<and>
    next_pending (pc_store p') = Inl CommandNotFound \<and> sorted (map record_order (sorted_locked StatePending (pc_store p))) \<and>
    list_all2 (\<lambda>env r. bucket_get (fs_records (pc_store p')) (re_command_id r) = Some (completed_record px run env r))
      envs (sorted_locked StatePending (pc_store p)) \<and>
    restrict_map (bucket_get (fs_records (pc_store p'))) (- re_command_id ` set (sorted_locked StatePending (pc_store p))) =
      restrict_map (bucket_get (fs_records (pc_store p))) (- re_command_id ` set (sorted_locked StatePending (pc_store p)))"
proof -
  have "sorted (map record_order (sorted_locked StatePending (pc_store p)))" by (simp add: sorted_locked_def)
  with processor_drain [OF assms, of "[]"] show ?thesis
    by (auto simp: next_pending_def restrict_map_def fun_eq_iff)
qed

definition demo_round :: round_env where
  "demo_round = \<lparr>rv_now = 20, rv_finished = 30, rv_context_done = False, rv_completed = 40, rv_wait = WakeSignal,
     rv_write_fault = None, rv_iter = (\<lambda>ks. ks), rv_remove_fault = (\<lambda>_. None), rv_sync_fault = None\<rparr>"

definition demo_px :: processor_sdk where
  "demo_px = \<lparr>px_center_command = ''center.command'', px_decode_command = (\<lambda>_. None), px_valid_ack = (\<lambda>_. True),
     px_error_unavailable = ''unavailable'', px_error_unsupported = ''unsupported'',
     px_error_invalid_argument = ''invalid'', px_error_conflict = ''conflict'', px_error_internal = ''internal'', px_maximum_execution = 300\<rparr>"

definition demo_executor :: "time \<Rightarrow> string \<Rightarrow> agent_command \<Rightarrow> execution" where
  "demo_executor deadline k cmd = \<lparr>ex_output = ''ok'', ex_problem = None, ex_restart = False\<rparr>"

lemma demo_sorted: "sorted_locked StatePending demo_accepted = [demo_pending]"
  by (simp add: sorted_locked_def demo_accepted_def demo_pending_def)

lemma demo_execute:
  "processor_execute demo_px (logged demo_executor) demo_round demo_pending [] = (demo_outcome, False, [''a''])"
  by (simp add: processor_execute_def logged_def demo_executor_def demo_round_def demo_pending_def demo_task_def demo_outcome_def)

lemma demo_round_completes: "round_completes demo_command_sdk demo_px demo_executor demo_round demo_pending"
proof -
  have "completed_record demo_px demo_executor demo_round demo_pending = demo_completed"
    unfolding completed_record_def demo_execute demo_completed_def by (simp add: demo_round_def)
  then show ?thesis
    using demo_marshal(2) by (simp add: round_completes_def demo_execute) (simp add: demo_round_def time_is_zero_def demo_command_sdk_def)
qed

theorem processor_drains_in_order_witness:
  "\<exists>p'. processor_run demo_command_sdk demo_px (logged demo_executor) [demo_round] (new_processor demo_accepted) [] = (Continue, p', [''a'']) \<and>
    next_pending (pc_store p') = Inl CommandNotFound"
proof -
  have store: "pc_store (new_processor demo_accepted) = demo_accepted" by (simp add: new_processor_def)
  have "list_all2 (round_completes demo_command_sdk demo_px demo_executor) [demo_round]
      (sorted_locked StatePending (pc_store (new_processor demo_accepted)))"
    using demo_round_completes by (simp add: store demo_sorted)
  from processor_drains_in_order [OF demo_command_sdk_ok _ this] demo_inv(2) show ?thesis
    by (auto simp: store demo_sorted called_def) (auto simp: demo_round_def demo_pending_def demo_task_def)
qed

text \<open>A command whose execution asks for a restart of the agent is not lost and not answered: the processor stops, the
  store is as it was, and the store that the restarted agent opens gives this command first again.\<close>

theorem restart_repeats_command:
  assumes "command_inv sdk (pc_store p)" and "bucket_get (fs_records (pc_store p)) = durable sdk (fs_files (pc_store p))"
    and "processor_round sdk px executor env p w = (RestartRequired, p', w')" and "leftovers temporary_prefix (fs_files (pc_store p')) dir"
  shows "\<exists>r s'. next_pending (pc_store p) = Inr r \<and> p' = p \<and> open_command_store sdk None None dir = Inr s' \<and>
    fs_records s' = fs_records (pc_store p) \<and> next_pending s' = Inr r"
proof -
  have "\<exists>r. next_pending (pc_store p) = Inr r \<and> p' = p"
    using assms(3) by (auto simp: processor_round_def split: sum.splits if_splits prod.splits processor_wait.splits)
  then obtain r where r: "next_pending (pc_store p) = Inr r" "p' = p" by blast
  obtain s' where s': "open_command_store sdk None None dir = Inr s'" "command_inv sdk s'"
      "\<And>k. bucket_get (fs_records s') k = durable sdk (fs_files (pc_store p)) k"
    using open_command_store_reads [OF assms(1)] assms(4) r(2) by metis
  have "fs_records s' = fs_records (pc_store p)"
    using bucket_ext s' assms(1,2) by (simp add: file_store_inv_def bucket_ext)
  moreover from this have "next_pending s' = Inr r" using r(1) by (simp add: next_pending_def sorted_locked_def)
  ultimately show ?thesis using r s'(1) by blast
qed

definition restarting_executor :: "unit executor" where
  "restarting_executor deadline k cmd w = (\<lparr>ex_output = [], ex_problem = None, ex_restart = True\<rparr>, w)"

theorem restart_repeats_command_witness:
  "\<exists>r s'. next_pending demo_accepted = Inr r \<and> open_command_store demo_command_sdk None None (fs_files demo_accepted) = Inr s' \<and>
    fs_records s' = fs_records demo_accepted \<and> next_pending s' = Inr r"
proof -
  have store: "pc_store (new_processor demo_accepted) = demo_accepted" by (simp add: new_processor_def)
  have read: "read_record demo_command_sdk None (private_file (''P'' @ [CHR 0x0A])) = Inr demo_pending"
    by (rule read_written [OF demo_command_sdk_ok demo_pending_valid demo_marshal(1)])
  have "bucket_get (fs_records demo_accepted) k = durable demo_command_sdk (fs_files demo_accepted) k" for k
    using read record_file_ext [of k]
    by (auto simp: on_disk_def demo_accepted_def bucket_get_def record_file_def is_state_file_def temporary_prefix_def)
  moreover have "processor_round demo_command_sdk demo_px restarting_executor demo_round (new_processor demo_accepted) () =
      (RestartRequired, new_processor demo_accepted, ())"
  proof -
    have "\<exists>result. processor_execute demo_px restarting_executor demo_round demo_pending () = (result, True, ())"
      by (simp add: processor_execute_def restarting_executor_def demo_round_def demo_pending_def demo_task_def)
    then show ?thesis by (auto simp: processor_round_def store next_pending_def demo_sorted)
  qed
  moreover have "leftovers temporary_prefix (fs_files demo_accepted) (fs_files demo_accepted)"
    by (rule leftovers_refl) (simp add: demo_accepted_def bucket_ok_def)
  ultimately show ?thesis
    using restart_repeats_command [of demo_command_sdk "new_processor demo_accepted" demo_px restarting_executor demo_round "()"
        "new_processor demo_accepted" "()" "fs_files demo_accepted"] demo_inv(2)
    by (simp add: store fun_eq_iff)
qed

end
