(* ===== verification/Download.thy ===== *)
theory Download
  imports Filepath "HOL-Library.Code_Target_Nat"
begin

section \<open>Resumable artifact downloads (internal/download/resumable.go)\<close>

text \<open>
  \<^verbatim>\<open>Fetch\<close> downloads an artifact of known size and SHA-256 into a partial file that survives an interruption and is
  resumed with a range request. The file is one optional entry of the file system; \<open>fails\<close> says which of the steps on it
  the operating system refuses, and \<open>rp_stop\<close> of a reply after how many bytes the copy of its body breaks off. SHA-256
  and the HTTP client are parameters.
\<close>

record local_file =
  lf_regular :: bool
  lf_mode :: nat
  lf_content :: string

text \<open>The permission bits \<^verbatim>\<open>0o700\<close>.\<close>

definition private_mode :: nat where "private_mode = 448"

record http_request =
  rq_url :: string
  rq_range :: "string option"

record http_reply =
  rp_url :: string
  rp_status :: int
  rp_content_range :: string
  rp_content_length :: int
  rp_body :: string
  rp_stop :: "nat option"

record http_client =
  hc_request_ok :: "string \<Rightarrow> bool"
  hc_do :: "http_request \<Rightarrow> http_reply option"

record artifact =
  ar_url :: string
  ar_path :: string
  ar_size :: int
  ar_sha256 :: string
  ar_validate_response :: "http_reply \<Rightarrow> bool"

datatype fetch_step =
    InspectPartial | RemovePartial | SyncRemoved | OpenPartial | ProtectPartial | TruncatePartial | SyncReset | CloseComplete
  | ReadExisting | ReopenTruncated | SyncTruncated | SyncParent | SeekPartial | SyncWritten | RepairPartial | SyncRepaired
  | ClosePartial | ReadDownloaded

datatype download_error =
    ClientRequired | PathInvalid | SizeInvalid | DigestInvalid | StepFailed fetch_step | PartialNotPrivate | RequestFailed | EndpointDown
  | ResponseRefused | UnexpectedHTTP int | RangeMismatch | LengthMismatch | ReadResponseFailed | SizeMismatch | VerificationFailed

definition status_ok :: int where "status_ok = 200"
definition status_partial_content :: int where "status_partial_content = 206"

subsection \<open>Text of the requests\<close>

fun decimal_digits :: "nat \<Rightarrow> nat \<Rightarrow> string" where
  "decimal_digits 0 n = []"
| "decimal_digits (Suc fuel) n =
     (if n < 10 then [char_of (48 + n)] else decimal_digits fuel (n div 10) @ [char_of (48 + n mod 10)])"

text \<open>\<^verbatim>\<open>fmt\<close>'s \<^verbatim>\<open>%d\<close> of a number that is not negative; it has at most as many digits as its value plus one.\<close>

definition decimal :: "nat \<Rightarrow> string" where
  "decimal n = decimal_digits (Suc n) n"

definition white_space :: "char \<Rightarrow> bool" where
  "white_space c \<longleftrightarrow> c \<in> {CHR 0x09, CHR 0x0A, CHR 0x0B, CHR 0x0C, CHR 0x0D, CHR '' ''}"

definition trim_space :: "string \<Rightarrow> string" where
  "trim_space s = rev (dropWhile white_space (rev (dropWhile white_space s)))"

definition range_request :: "nat \<Rightarrow> string" where
  "range_request offset = ''bytes='' @ decimal offset @ ''-''"

definition expected_range :: "nat \<Rightarrow> int \<Rightarrow> string" where
  "expected_range offset wanted = ''bytes '' @ decimal offset @ ''-'' @ decimal (nat (wanted - 1)) @ ''/'' @ decimal (nat wanted)"

text \<open>Exactly the texts that \<^verbatim>\<open>hex.DecodeString\<close> accepts as 32 bytes and \<^verbatim>\<open>hex.EncodeToString\<close> gives back.\<close>

definition lower_hex :: "char \<Rightarrow> bool" where
  "lower_hex c \<longleftrightarrow> c \<in> set ''0123456789abcdef''"

definition valid_sha256 :: "string \<Rightarrow> bool" where
  "valid_sha256 s \<longleftrightarrow> length s = 64 \<and> list_all lower_hex s"

subsection \<open>The partial file\<close>

type_synonym download_slot = "local_file option"

definition verify :: "(string \<Rightarrow> string) \<Rightarrow> bool \<Rightarrow> int \<Rightarrow> string \<Rightarrow> download_slot \<Rightarrow> bool" where
  "verify sha256 read_fails wanted digest slot \<longleftrightarrow>
     (case slot of
        None \<Rightarrow> False
      | Some f \<Rightarrow> lf_regular f \<and> lf_mode f = private_mode \<and> int (length (lf_content f)) = wanted \<and> \<not> read_fails \<and>
                  sha256 (take (nat (wanted + 1)) (lf_content f)) = digest)"

definition remove_partial :: "(fetch_step \<Rightarrow> bool) \<Rightarrow> download_slot \<Rightarrow> (download_error + unit) \<times> download_slot" where
  "remove_partial fails slot =
     (if fails RemovePartial then (Inl (StepFailed RemovePartial), slot)
      else if fails SyncRemoved then (Inl (StepFailed SyncRemoved), None)
      else (Inr (), None))"

definition reset_partial :: "(fetch_step \<Rightarrow> bool) \<Rightarrow> local_file \<Rightarrow> (download_error + unit) \<times> local_file" where
  "reset_partial fails f =
     (if fails TruncatePartial then (Inl (StepFailed TruncatePartial), f)
      else if fails SyncReset then (Inl (StepFailed SyncReset), f\<lparr>lf_content := []\<rparr>)
      else (Inr (), f\<lparr>lf_content := []\<rparr>))"

definition partial_ready :: "(fetch_step \<Rightarrow> bool) \<Rightarrow> local_file \<Rightarrow> (download_error + nat \<times> bool) \<times> download_slot" where
  "partial_ready fails f =
     (if lf_content f = [] \<and> fails SyncParent then (Inl (StepFailed SyncParent), Some f)
      else (Inr (length (lf_content f), False), Some f))"

definition open_partial ::
    "(string \<Rightarrow> string) \<Rightarrow> (fetch_step \<Rightarrow> bool) \<Rightarrow> int \<Rightarrow> string \<Rightarrow> download_slot
     \<Rightarrow> (download_error + nat \<times> bool) \<times> download_slot" where
  "open_partial sha256 fails wanted digest slot =
     (if fails InspectPartial then (Inl (StepFailed InspectPartial), slot)
      else case (if (case slot of None \<Rightarrow> False | Some f \<Rightarrow> \<not> lf_regular f) then remove_partial fails slot else (Inr (), slot)) of
        (Inl e, slot) \<Rightarrow> (Inl e, slot)
      | (Inr _, slot) \<Rightarrow>
        if fails OpenPartial then (Inl (StepFailed OpenPartial), slot)
        else
          let f = (case slot of None \<Rightarrow> \<lparr>lf_regular = True, lf_mode = 0, lf_content = []\<rparr> | Some f \<Rightarrow> f) in
          if fails ProtectPartial then (Inl (StepFailed ProtectPartial), Some f)
          else
            let f = f\<lparr>lf_mode := private_mode\<rparr> in
            if \<not> lf_regular f then (Inl PartialNotPrivate, Some f)
            else case (if wanted < int (length (lf_content f)) then reset_partial fails f else (Inr (), f)) of
              (Inl e, f) \<Rightarrow> (Inl e, Some f)
            | (Inr _, f) \<Rightarrow>
                if int (length (lf_content f)) = wanted then
                  (if fails CloseComplete then (Inl (StepFailed CloseComplete), Some f)
                   else if verify sha256 (fails ReadExisting) wanted digest (Some f) then (Inr (nat wanted, True), Some f)
                   else if fails ReopenTruncated then (Inl (StepFailed ReopenTruncated), Some f)
                   else let f = f\<lparr>lf_content := []\<rparr> in
                        if fails SyncTruncated then (Inl (StepFailed SyncTruncated), Some f) else partial_ready fails f)
                else partial_ready fails f)"

subsection \<open>Fetching\<close>

text \<open>The status and range of the reply decide where its body goes: at the offset, or from the start after a reset.\<close>

definition choose_offset ::
    "(fetch_step \<Rightarrow> bool) \<Rightarrow> int \<Rightarrow> nat \<Rightarrow> http_reply \<Rightarrow> local_file \<Rightarrow> (download_error + nat) \<times> local_file" where
  "choose_offset fails wanted offset reply f =
     (if offset = 0 \<and> rp_status reply \<noteq> status_ok then (Inl (UnexpectedHTTP (rp_status reply)), f)
      else if 0 < offset \<and> rp_status reply = status_partial_content then
        (if trim_space (rp_content_range reply) \<noteq> expected_range offset wanted then (Inl RangeMismatch, f) else (Inr offset, f))
      else if 0 < offset \<and> rp_status reply = status_ok then
        (case reset_partial fails f of (Inl e, f) \<Rightarrow> (Inl e, f) | (Inr _, f) \<Rightarrow> (Inr 0, f))
      else if 0 < offset then (Inl (UnexpectedHTTP (rp_status reply)), f)
      else (Inr offset, f))"

definition write_at :: "nat \<Rightarrow> string \<Rightarrow> string \<Rightarrow> string" where
  "write_at offset w content = take offset content @ w @ drop (offset + length w) content"

definition copy_body :: "nat \<Rightarrow> http_reply \<Rightarrow> string \<times> bool" where
  "copy_body limit reply =
     (let body = take limit (rp_body reply)
      in case rp_stop reply of
           None \<Rightarrow> (body, False)
         | Some n \<Rightarrow> if n < length body then (take n body, True) else (body, False))"

definition receive_body ::
    "(string \<Rightarrow> string) \<Rightarrow> (fetch_step \<Rightarrow> bool) \<Rightarrow> artifact \<Rightarrow> nat \<Rightarrow> http_reply \<Rightarrow> local_file
     \<Rightarrow> (download_error + unit) \<times> download_slot" where
  "receive_body sha256 fails a offset reply f =
     (let remaining = ar_size a - int offset in
      if 0 \<le> rp_content_length reply \<and> rp_content_length reply \<noteq> remaining then (Inl LengthMismatch, Some f)
      else if fails SeekPartial then (Inl (StepFailed SeekPartial), Some f)
      else case copy_body (nat (remaining + 1)) reply of (written, copy_error) \<Rightarrow>
        let f = f\<lparr>lf_content := write_at offset written (lf_content f)\<rparr> in
        if fails SyncWritten then (Inl (StepFailed SyncWritten), Some f)
        else if copy_error then (Inl ReadResponseFailed, Some f)
        else if int (length written) \<noteq> remaining then
          (if remaining < int (length written) then
             (if fails RepairPartial then (Inl (StepFailed RepairPartial), Some f)
              else if fails SyncRepaired then (Inl (StepFailed SyncRepaired), Some (f\<lparr>lf_content := take offset (lf_content f)\<rparr>))
              else (Inl SizeMismatch, Some (f\<lparr>lf_content := take offset (lf_content f)\<rparr>)))
           else (Inl SizeMismatch, Some f))
        else if fails ClosePartial then (Inl (StepFailed ClosePartial), Some f)
        else if \<not> verify sha256 (fails ReadDownloaded) (ar_size a) (ar_sha256 a) (Some f) then
          (case remove_partial fails (Some f) of (Inl e, slot) \<Rightarrow> (Inl e, slot) | (Inr _, slot) \<Rightarrow> (Inl VerificationFailed, slot))
        else (Inr (), Some f))"

definition fetch ::
    "(string \<Rightarrow> string) \<Rightarrow> http_client option \<Rightarrow> (fetch_step \<Rightarrow> bool) \<Rightarrow> artifact \<Rightarrow> download_slot
     \<Rightarrow> (download_error + unit) \<times> download_slot" where
  "fetch sha256 client fails a slot =
     (case client of
        None \<Rightarrow> (Inl ClientRequired, slot)
      | Some client \<Rightarrow>
        if \<not> abs_and_clean (ar_path a) then (Inl PathInvalid, slot)
        else if ar_size a < 1 then (Inl SizeInvalid, slot)
        else if \<not> valid_sha256 (ar_sha256 a) then (Inl DigestInvalid, slot)
        else case open_partial sha256 fails (ar_size a) (ar_sha256 a) slot of
          (Inl e, slot) \<Rightarrow> (Inl e, slot)
        | (Inr (offset, complete), slot) \<Rightarrow>
          if complete then (Inr (), slot)
          else case slot of None \<Rightarrow> (Inl PartialNotPrivate, None) | Some f \<Rightarrow>
            if \<not> hc_request_ok client (ar_url a) then (Inl RequestFailed, slot)
            else case hc_do client \<lparr>rq_url = ar_url a, rq_range = (if 0 < offset then Some (range_request offset) else None)\<rparr> of
              None \<Rightarrow> (Inl EndpointDown, slot)
            | Some reply \<Rightarrow>
                if \<not> ar_validate_response a reply then (Inl ResponseRefused, slot)
                else case choose_offset fails (ar_size a) offset reply f of
                  (Inl e, f) \<Rightarrow> (Inl e, Some f)
                | (Inr offset, f) \<Rightarrow> receive_body sha256 fails a offset reply f)"

subsection \<open>What an artifact that was fetched is\<close>

lemma verifyD:
  assumes "verify sha256 read_fails wanted digest slot"
  obtains f where "slot = Some f" "lf_regular f" "lf_mode f = private_mode" "int (length (lf_content f)) = wanted" "sha256 (lf_content f) = digest"
proof -
  obtain f where f: "slot = Some f" "lf_regular f" "lf_mode f = private_mode" "int (length (lf_content f)) = wanted"
    "sha256 (take (nat (wanted + 1)) (lf_content f)) = digest"
    using assms by (auto simp: verify_def split: option.splits)
  moreover have "take (nat (wanted + 1)) (lf_content f) = lf_content f" using f(4) by simp
  ultimately show ?thesis using that by simp
qed

lemma open_partial_complete:
  assumes "open_partial sha256 fails wanted digest slot = (Inr (offset, True), slot')"
  shows "verify sha256 (fails ReadExisting) wanted digest slot'"
  using assms
  by (auto simp: open_partial_def partial_ready_def Let_def split: if_splits sum.splits prod.splits)

lemma open_partial_offset:
  assumes "open_partial sha256 fails wanted digest slot = (Inr (offset, False), slot')"
  shows "\<exists>f. slot' = Some f \<and> lf_regular f \<and> lf_mode f = private_mode \<and> offset = length (lf_content f) \<and> (int offset < wanted \<or> wanted \<le> 0)"
  using assms
  by (auto simp: open_partial_def partial_ready_def Let_def reset_partial_def split: if_splits sum.splits prod.splits)

lemma receive_body_success:
  "receive_body sha256 fails a offset reply f = (Inr u, slot') \<Longrightarrow>
   verify sha256 (fails ReadDownloaded) (ar_size a) (ar_sha256 a) slot'"
  by (auto simp: receive_body_def remove_partial_def Let_def split: if_splits prod.splits)

lemma fetch_success:
  assumes "fetch sha256 client fails a slot = (Inr u, slot')"
  obtains f where "slot' = Some f" "lf_regular f" "lf_mode f = private_mode" "int (length (lf_content f)) = ar_size a"
    "sha256 (lf_content f) = ar_sha256 a"
proof -
  have "\<exists>r. verify sha256 r (ar_size a) (ar_sha256 a) slot'"
  proof -
    obtain c where c: "client = Some c" using assms by (auto simp: fetch_def split: option.splits)
    obtain offset complete slot1 where o: "open_partial sha256 fails (ar_size a) (ar_sha256 a) slot = (Inr (offset, complete), slot1)"
      using assms c by (auto simp: fetch_def split: if_splits prod.splits sum.splits)
    show ?thesis
    proof (cases complete)
      case True
      with assms c o have "slot' = slot1" by (auto simp: fetch_def split: if_splits)
      with o True have "open_partial sha256 fails (ar_size a) (ar_sha256 a) slot = (Inr (offset, True), slot')" by simp
      from open_partial_complete [OF this] show ?thesis by blast
    next
      case False
      with o have "open_partial sha256 fails (ar_size a) (ar_sha256 a) slot = (Inr (offset, False), slot1)" by simp
      from open_partial_offset [OF this] obtain f where f: "slot1 = Some f" by blast
      with assms c o False obtain off f' reply where "receive_body sha256 fails a off reply f' = (Inr u, slot')"
        by (auto simp: fetch_def split: if_splits option.splits prod.splits sum.splits)
      then show ?thesis using receive_body_success by blast
    qed
  qed
  with that show ?thesis by (metis verifyD)
qed

subsection \<open>A server that serves the artifact\<close>

text \<open>
  The replies of a server that has the content of the artifact: the rest of it to a range request, or the whole of it, with the right
  headers; the connection may break.
\<close>

definition honest_reply :: "artifact \<Rightarrow> string \<Rightarrow> nat \<Rightarrow> http_reply \<Rightarrow> bool" where
  "honest_reply a content offset reply \<longleftrightarrow>
     ar_validate_response a reply \<and>
     ((rp_status reply = status_ok \<and> rp_body reply = content \<and> rp_content_length reply \<in> {-1, ar_size a}) \<or>
      (0 < offset \<and> rp_status reply = status_partial_content \<and> trim_space (rp_content_range reply) = expected_range offset (ar_size a) \<and>
       rp_body reply = drop offset content \<and> rp_content_length reply \<in> {-1, ar_size a - int offset}))"

definition serves :: "http_client \<Rightarrow> artifact \<Rightarrow> string \<Rightarrow> (http_reply \<Rightarrow> bool) \<Rightarrow> bool" where
  "serves c a content good \<longleftrightarrow>
     hc_request_ok c (ar_url a) \<and>
     (\<forall>offset < nat (ar_size a). \<exists>reply.
        hc_do c \<lparr>rq_url = ar_url a, rq_range = (if 0 < offset then Some (range_request offset) else None)\<rparr> = Some reply \<and>
        honest_reply a content offset reply \<and> good reply)"

definition artifact_of :: "(string \<Rightarrow> string) \<Rightarrow> artifact \<Rightarrow> string \<Rightarrow> bool" where
  "artifact_of sha256 a content \<longleftrightarrow>
     abs_and_clean (ar_path a) \<and> 1 \<le> ar_size a \<and> valid_sha256 (ar_sha256 a) \<and>
     int (length content) = ar_size a \<and> sha256 content = ar_sha256 a"

lemma open_partial_quiet [case_names complete partial]:
  assumes "1 \<le> wanted"
  obtains f where "open_partial sha256 (\<lambda>_. False) wanted digest slot = (Inr (nat wanted, True), Some f)"
      "verify sha256 False wanted digest (Some f)" "\<exists>g. slot = Some g \<and> lf_content g = lf_content f"
  | f where "open_partial sha256 (\<lambda>_. False) wanted digest slot = (Inr (length (lf_content f), False), Some f)"
      "lf_regular f" "lf_mode f = private_mode" "int (length (lf_content f)) < wanted"
      "lf_content f = [] \<or> (\<exists>g. slot = Some g \<and> lf_content g = lf_content f)"
proof -
  define f where "f = (case slot of None \<Rightarrow> \<lparr>lf_regular = True, lf_mode = private_mode, lf_content = []\<rparr>
    | Some f \<Rightarrow> if lf_regular f then f\<lparr>lf_mode := private_mode\<rparr> else \<lparr>lf_regular = True, lf_mode = private_mode, lf_content = []\<rparr>)"
  have f: "lf_regular f" "lf_mode f = private_mode" "lf_content f = [] \<or> (\<exists>g. slot = Some g \<and> lf_content g = lf_content f)"
    by (auto simp: f_def split: option.splits)
  let ?n = "int (length (lf_content f))"
  have o: "open_partial sha256 (\<lambda>_. False) wanted digest slot =
      (if wanted < ?n then (Inr (0, False), Some (f\<lparr>lf_content := []\<rparr>))
       else if ?n = wanted then
         (if verify sha256 False wanted digest (Some f) then (Inr (nat wanted, True), Some f)
          else (Inr (0, False), Some (f\<lparr>lf_content := []\<rparr>)))
       else (Inr (length (lf_content f), False), Some f))"
    using assms f
    by (cases slot) (auto simp: open_partial_def f_def remove_partial_def reset_partial_def partial_ready_def Let_def)
  consider "wanted < ?n" | "?n = wanted" "verify sha256 False wanted digest (Some f)"
    | "?n = wanted" "\<not> verify sha256 False wanted digest (Some f)" | "?n < wanted" by linarith
  then show ?thesis
  proof cases
    case 2
    moreover have "\<exists>g. slot = Some g \<and> lf_content g = lf_content f" using 2(1) f(3) assms by auto
    ultimately show ?thesis using that(1) [of f] o by simp
  next
    case 4
    then show ?thesis using that(2) [of f] o f by simp
  qed (use that(2) [of "f\<lparr>lf_content := []\<rparr>"] o f assms in simp_all)
qed

lemma receive_quiet:
  assumes f: "lf_regular f" "lf_mode f = private_mode" "length (lf_content f) = offset" and size: "int (length content) = ar_size a" "offset < length content"
    and reply: "rp_body reply = drop offset content" "rp_content_length reply \<in> {-1, ar_size a - int offset}"
  shows "receive_body sha256 (\<lambda>_. False) a offset reply f =
    (case rp_stop reply of
       Some n \<Rightarrow> if n < length content - offset then (Inl ReadResponseFailed, Some (f\<lparr>lf_content := lf_content f @ take n (drop offset content)\<rparr>))
         else (if sha256 (lf_content f @ drop offset content) = ar_sha256 a
           then (Inr (), Some (f\<lparr>lf_content := lf_content f @ drop offset content\<rparr>)) else (Inl VerificationFailed, None))
     | None \<Rightarrow> if sha256 (lf_content f @ drop offset content) = ar_sha256 a
           then (Inr (), Some (f\<lparr>lf_content := lf_content f @ drop offset content\<rparr>)) else (Inl VerificationFailed, None))"
proof -
  have limit: "nat (ar_size a - int offset + 1) = Suc (length content - offset)" using size by linarith
  have body: "take (nat (ar_size a - int offset + 1)) (rp_body reply) = drop offset content"
    unfolding limit reply(1) by simp
  have written: "write_at offset w (lf_content f) = lf_content f @ w" for w
    using f(3) by (simp add: write_at_def)
  have total: "int (length (drop offset content)) = ar_size a - int offset" using size by simp
  have ver: "verify sha256 False (ar_size a) (ar_sha256 a) (Some (f\<lparr>lf_content := lf_content f @ drop offset content\<rparr>)) \<longleftrightarrow>
      sha256 (lf_content f @ drop offset content) = ar_sha256 a"
    using f size by (simp add: verify_def)
  have len: "\<not> (0 \<le> rp_content_length reply \<and> rp_content_length reply \<noteq> ar_size a - int offset)" using reply(2) by auto
  show ?thesis
  proof (cases "rp_stop reply")
    case None
    then show ?thesis
      using len total by (simp add: receive_body_def Let_def copy_body_def body written ver remove_partial_def)
  next
    case (Some n)
    then show ?thesis
      using len total by (simp add: receive_body_def Let_def copy_body_def body written ver remove_partial_def)
  qed
qed

lemma fetch_quiet [consumes 2, case_names complete received]:
  assumes a: "artifact_of sha256 a content" and server: "serves c a content good"
  obtains f where "fetch sha256 (Some c) (\<lambda>_. False) a slot = (Inr (), Some f)"
      "\<exists>g. slot = Some g \<and> lf_content g = lf_content f" "length (lf_content f) = length content"
  | f reply where "lf_regular f" "lf_mode f = private_mode" "length (lf_content f) < length content" "good reply"
      "fetch sha256 (Some c) (\<lambda>_. False) a slot = receive_body sha256 (\<lambda>_. False) a (length (lf_content f)) reply f"
      "rp_body reply = drop (length (lf_content f)) content" "rp_content_length reply \<in> {-1, ar_size a - int (length (lf_content f))}"
      "lf_content f = [] \<or> (\<exists>g. slot = Some g \<and> lf_content g = lf_content f)"
proof -
  have a': "abs_and_clean (ar_path a)" "\<not> ar_size a < 1" "valid_sha256 (ar_sha256 a)" "int (length content) = ar_size a" "1 \<le> ar_size a"
    using a by (auto simp: artifact_of_def)
  from a'(5) show ?thesis
  proof (cases rule: open_partial_quiet [of _ sha256 "ar_sha256 a" slot])
    case (complete f)
    have "length (lf_content f) = length content" using complete(2) a'(4) by (auto elim!: verifyD)
    with complete a' show ?thesis by (intro that(1)) (simp_all add: fetch_def)
  next
    case (partial f)
    let ?n = "length (lf_content f)"
    have n: "?n < nat (ar_size a)" "?n < length content" using partial(4) a'(4) by linarith+
    with server obtain reply where reply:
      "hc_do c \<lparr>rq_url = ar_url a, rq_range = (if 0 < ?n then Some (range_request ?n) else None)\<rparr> = Some reply"
      "honest_reply a content ?n reply" "good reply" "hc_request_ok c (ar_url a)"
      by (auto simp: serves_def)
    have go: "fetch sha256 (Some c) (\<lambda>_. False) a slot =
        (case choose_offset (\<lambda>_. False) (ar_size a) ?n reply f of (Inl e, f) \<Rightarrow> (Inl e, Some f)
         | (Inr offset, f) \<Rightarrow> receive_body sha256 (\<lambda>_. False) a offset reply f)"
      using a' partial(1) reply by (simp add: fetch_def honest_reply_def)
    consider (whole) "rp_status reply = status_ok" "rp_body reply = content" "rp_content_length reply \<in> {-1, ar_size a}"
      | (rest) "0 < ?n" "rp_status reply = status_partial_content" "trim_space (rp_content_range reply) = expected_range ?n (ar_size a)"
          "rp_body reply = drop ?n content" "rp_content_length reply \<in> {-1, ar_size a - int ?n}"
      using reply(2) by (auto simp: honest_reply_def)
    then show ?thesis
    proof cases
      case whole
      let ?f = "f\<lparr>lf_content := []\<rparr>"
      have same: "f = ?f" if "?n = 0" using that by (cases f) simp
      have "fetch sha256 (Some c) (\<lambda>_. False) a slot = receive_body sha256 (\<lambda>_. False) a (length (lf_content ?f)) reply ?f"
      proof (cases "?n = 0")
        case True
        with go whole(1) have "fetch sha256 (Some c) (\<lambda>_. False) a slot = receive_body sha256 (\<lambda>_. False) a 0 reply f"
          by (simp add: choose_offset_def)
        then show ?thesis using same [OF True] by (metis list.size(3) local_file.select_convs(3) local_file.surjective local_file.update_convs(3))
      next
        case False
        with go whole(1) show ?thesis by (simp add: choose_offset_def reset_partial_def status_ok_def status_partial_content_def)
      qed
      with whole partial reply(3) n show ?thesis by (intro that(2) [of ?f reply]) auto
    next
      case rest
      then have "fetch sha256 (Some c) (\<lambda>_. False) a slot = receive_body sha256 (\<lambda>_. False) a ?n reply f"
        using go by (simp add: choose_offset_def status_partial_content_def)
      with rest partial reply(3) n show ?thesis by (intro that(2) [of f reply]) auto
    qed
  qed
qed

text \<open>What a partial file has to offer: the content of a regular file; anything else is removed.\<close>

definition held_content :: "download_slot \<Rightarrow> string" where
  "held_content slot = (case slot of None \<Rightarrow> [] | Some f \<Rightarrow> if lf_regular f then lf_content f else [])"

definition private_file_of :: "string \<Rightarrow> local_file" where
  "private_file_of content = \<lparr>lf_regular = True, lf_mode = private_mode, lf_content = content\<rparr>"

lemma private_file_of_simps [simp]: "lf_regular (private_file_of x)" "lf_mode (private_file_of x) = private_mode"
  "lf_content (private_file_of x) = x" "private_file_of x\<lparr>lf_content := y\<rparr> = private_file_of y"
  by (simp_all add: private_file_of_def)

lemma open_partial_beginning:
  assumes "int (length content) = wanted" and "1 \<le> wanted" and "sha256 content = digest" and "prefix (held_content slot) content"
  shows "open_partial sha256 (\<lambda>_. False) wanted digest slot =
    (Inr (length (held_content slot), held_content slot = content), Some (private_file_of (held_content slot)))"
proof -
  let ?f = "private_file_of (held_content slot)"
  have len: "length (held_content slot) \<le> length content" using assms(4) by (rule prefix_length_le)
  have all: "held_content slot = content" if "length (held_content slot) = length content"
    using assms(4) that by (auto simp: prefix_def)
  have ver: "verify sha256 False wanted digest (Some ?f)" if "held_content slot = content"
    using that assms(1,3) by (simp add: verify_def private_file_of_def)
  have "open_partial sha256 (\<lambda>_. False) wanted digest slot =
      (if wanted < int (length (held_content slot)) then (Inr (0, False), Some (private_file_of []))
       else if int (length (held_content slot)) = wanted then
         (if verify sha256 False wanted digest (Some ?f) then (Inr (nat wanted, True), Some ?f) else (Inr (0, False), Some (private_file_of [])))
       else (Inr (length (held_content slot), False), Some ?f))"
  proof (cases slot)
    case (Some g)
    then show ?thesis
      using assms(2) by (cases g) (auto simp: open_partial_def held_content_def private_file_of_def remove_partial_def reset_partial_def
          partial_ready_def Let_def)
  qed (use assms(2) in \<open>simp add: open_partial_def held_content_def private_file_of_def partial_ready_def Let_def\<close>)
  then show ?thesis using len all ver assms(1) by auto
qed

text \<open>From a beginning of the artifact, the reply's body is written behind what is held, or from the start when the server sends all of it.\<close>

lemma fetch_from_beginning:
  assumes a: "artifact_of sha256 a content" and server: "serves c a content good"
    and start: "prefix (held_content slot) content" "held_content slot \<noteq> content"
  obtains reply pos where
    "hc_do c \<lparr>rq_url = ar_url a, rq_range = (if held_content slot = [] then None else Some (range_request (length (held_content slot))))\<rparr> = Some reply"
    "pos = (if rp_status reply = status_partial_content then length (held_content slot) else 0)" "pos < length content"
    "fetch sha256 (Some c) (\<lambda>_. False) a slot = receive_body sha256 (\<lambda>_. False) a pos reply (private_file_of (take pos content))"
    "rp_body reply = drop pos content" "rp_content_length reply \<in> {-1, ar_size a - int pos}"
proof -
  let ?held = "held_content slot" and ?n = "length (held_content slot)"
  have a': "abs_and_clean (ar_path a)" "\<not> ar_size a < 1" "valid_sha256 (ar_sha256 a)" "int (length content) = ar_size a" "1 \<le> ar_size a"
    "sha256 content = ar_sha256 a" using a by (auto simp: artifact_of_def)
  have n: "?n < length content" "?held = take ?n content"
    using start by (auto simp: prefix_def)
  then have "?n < nat (ar_size a)" using a'(4) by linarith
  with server obtain reply where reply:
    "hc_do c \<lparr>rq_url = ar_url a, rq_range = (if 0 < ?n then Some (range_request ?n) else None)\<rparr> = Some reply"
    "honest_reply a content ?n reply" "hc_request_ok c (ar_url a)" by (auto simp: serves_def)
  have asked: "hc_do c \<lparr>rq_url = ar_url a, rq_range = (if ?held = [] then None else Some (range_request ?n))\<rparr> = Some reply"
    using reply(1) by (cases "?held = []") simp_all
  have go: "fetch sha256 (Some c) (\<lambda>_. False) a slot =
      (case choose_offset (\<lambda>_. False) (ar_size a) ?n reply (private_file_of ?held) of (Inl e, f) \<Rightarrow> (Inl e, Some f)
       | (Inr offset, f) \<Rightarrow> receive_body sha256 (\<lambda>_. False) a offset reply f)"
    using a' reply start(2) by (simp add: fetch_def honest_reply_def open_partial_beginning [of content "ar_size a" sha256 "ar_sha256 a" slot, OF a'(4,5,6) start(1)])
  consider (whole) "rp_status reply = status_ok" "rp_body reply = content" "rp_content_length reply \<in> {-1, ar_size a}"
    | (rest) "0 < ?n" "rp_status reply = status_partial_content" "trim_space (rp_content_range reply) = expected_range ?n (ar_size a)"
        "rp_body reply = drop ?n content" "rp_content_length reply \<in> {-1, ar_size a - int ?n}"
    using reply(2) by (auto simp: honest_reply_def)
  then show thesis
  proof cases
    case whole
    have "fetch sha256 (Some c) (\<lambda>_. False) a slot = receive_body sha256 (\<lambda>_. False) a 0 reply (private_file_of [])"
      using go whole(1) by (cases "?held = []") (simp_all add: choose_offset_def reset_partial_def status_ok_def status_partial_content_def)
    with asked whole n show ?thesis by (intro that [of reply 0]) (auto simp: status_ok_def status_partial_content_def)
  next
    case rest
    then have "fetch sha256 (Some c) (\<lambda>_. False) a slot = receive_body sha256 (\<lambda>_. False) a ?n reply (private_file_of (take ?n content))"
      using go n(2) by (simp add: choose_offset_def status_partial_content_def)
    with asked rest n show ?thesis by (intro that [of reply ?n]) auto
  qed
qed

subsection \<open>The properties of a download\<close>

definition sample_content :: string where "sample_content = ''xy''"

definition sample_sha256 :: "string \<Rightarrow> string" where
  "sample_sha256 s = (if s = sample_content then replicate 64 (CHR ''a'') else replicate 64 (CHR ''b''))"

definition sample_artifact :: artifact where
  "sample_artifact = \<lparr>ar_url = ''https://x'', ar_path = ''/p'', ar_size = 2, ar_sha256 = replicate 64 (CHR ''a''),
     ar_validate_response = (\<lambda>_. True)\<rparr>"

definition sample_reply :: http_reply where
  "sample_reply = \<lparr>rp_url = ''https://x'', rp_status = 200, rp_content_range = [], rp_content_length = 2, rp_body = sample_content, rp_stop = None\<rparr>"

definition sample_client :: http_client where
  "sample_client = \<lparr>hc_request_ok = (\<lambda>_. True), hc_do = (\<lambda>_. Some sample_reply)\<rparr>"

definition corrupt_partial :: local_file where
  "corrupt_partial = \<lparr>lf_regular = True, lf_mode = private_mode, lf_content = ''z''\<rparr>"

definition good_partial :: local_file where
  "good_partial = \<lparr>lf_regular = True, lf_mode = private_mode, lf_content = ''x''\<rparr>"

lemma sample_artifact_of: "artifact_of sample_sha256 sample_artifact sample_content"
  by (simp add: artifact_of_def sample_artifact_def sample_sha256_def sample_content_def abs_and_clean_def path_is_abs_def
      path_clean_def valid_sha256_def lower_hex_def list_all_iff)

lemma sample_serves: "serves sample_client sample_artifact sample_content (\<lambda>reply. rp_stop reply = None)"
  by (simp add: serves_def sample_client_def sample_reply_def sample_artifact_def honest_reply_def status_ok_def)

text \<open>Whatever was in the partial file and whatever the server sends: when a download succeeds, the file is a private, executable
  regular file with exactly the size and the SHA-256 of the artifact.\<close>

theorem fetched_artifact_verified:
  assumes "fetch sha256 client fails a slot = (Inr (), slot')"
  shows "\<exists>f. slot' = Some f \<and> lf_regular f \<and> lf_mode f = private_mode \<and> int (length (lf_content f)) = ar_size a \<and>
    sha256 (lf_content f) = ar_sha256 a"
  using fetch_success [OF assms] by metis

theorem fetched_artifact_verified_witness:
  "\<exists>f. snd (fetch sample_sha256 (Some sample_client) (\<lambda>_. False) sample_artifact (Some corrupt_partial)) = Some f \<and>
    lf_regular f \<and> lf_mode f = private_mode \<and> int (length (lf_content f)) = 2 \<and> sample_sha256 (lf_content f) = ar_sha256 sample_artifact"
proof -
  obtain f where "fetch sample_sha256 (Some sample_client) (\<lambda>_. False) sample_artifact (Some corrupt_partial) = (Inr (), Some f)"
    using sample_artifact_of
    by (auto simp: fetch_def artifact_of_def sample_client_def sample_reply_def sample_artifact_def corrupt_partial_def open_partial_def Let_def
        partial_ready_def choose_offset_def reset_partial_def status_ok_def status_partial_content_def receive_body_def copy_body_def
        write_at_def verify_def sample_sha256_def sample_content_def)
  from fetched_artifact_verified [OF this] show ?thesis
    using \<open>fetch _ _ _ _ _ = _\<close> by (simp add: sample_artifact_def)
qed

text \<open>C16. An interrupted download resumes: let the partial file hold a beginning of the artifact (nothing, when there is no regular file)
  and let the server have the artifact. If all of it is held, the download succeeds with it. Otherwise the server is asked for what is missing,
  and its answer counts from the end of what is held, or from the start when it answers with the whole. If the connection breaks before the
  end, the error is reported and the file holds exactly the bytes up to the break, to be resumed from there; if not, the download
  succeeds and the file is the artifact.\<close>

theorem interrupted_download_resumes:
  assumes a: "artifact_of sha256 a content" and server: "serves c a content good"
    and start: "prefix (held_content slot) content"
  shows "if held_content slot = content
    then fetch sha256 (Some c) (\<lambda>_. False) a slot = (Inr (), Some (private_file_of content))
    else \<exists>reply pos.
      hc_do c \<lparr>rq_url = ar_url a, rq_range = (if held_content slot = [] then None else Some (range_request (length (held_content slot))))\<rparr> = Some reply \<and>
      pos = (if rp_status reply = 206 then length (held_content slot) else 0) \<and>
      fetch sha256 (Some c) (\<lambda>_. False) a slot =
        (case rp_stop reply of
           Some n \<Rightarrow> if pos + n < length content then (Inl ReadResponseFailed, Some (private_file_of (take (pos + n) content)))
                     else (Inr (), Some (private_file_of content))
         | None \<Rightarrow> (Inr (), Some (private_file_of content)))"
proof (cases "held_content slot = content")
  case True
  with a open_partial_beginning [of content "ar_size a" sha256 "ar_sha256 a" slot]  start show ?thesis
    by (simp add: fetch_def artifact_of_def)
next
  case False
  have sum: "int (length content) = ar_size a" "sha256 content = ar_sha256 a" using a by (auto simp: artifact_of_def)
  from fetch_from_beginning [OF a server start False] obtain reply pos where r:
    "hc_do c \<lparr>rq_url = ar_url a, rq_range = (if held_content slot = [] then None else Some (range_request (length (held_content slot))))\<rparr> = Some reply"
    "pos = (if rp_status reply = status_partial_content then length (held_content slot) else 0)" "pos < length content"
    "fetch sha256 (Some c) (\<lambda>_. False) a slot = receive_body sha256 (\<lambda>_. False) a pos reply (private_file_of (take pos content))"
    "rp_body reply = drop pos content" "rp_content_length reply \<in> {-1, ar_size a - int pos}" .
  have len: "length (lf_content (private_file_of (take pos content))) = pos" using r(3) by simp
  note rec = receive_quiet [where f = "private_file_of (take pos content)", OF _ _ len sum(1) r(3,5,6), of sha256]
  have "fetch sha256 (Some c) (\<lambda>_. False) a slot =
      (case rp_stop reply of
         Some n \<Rightarrow> if pos + n < length content then (Inl ReadResponseFailed, Some (private_file_of (take (pos + n) content)))
                   else (Inr (), Some (private_file_of content))
       | None \<Rightarrow> (Inr (), Some (private_file_of content)))"
    unfolding r(4) using rec r(3) sum(2) by (auto simp: take_add split: option.splits)
  with r(1,2) False show ?thesis by (auto simp: status_partial_content_def)
qed

text \<open>A server whose first reply breaks off after a byte and that then sends the rest.\<close>

definition breaking_client :: http_client where
  "breaking_client = \<lparr>hc_request_ok = (\<lambda>_. True), hc_do = (\<lambda>r. Some (case rq_range r of
       None \<Rightarrow> sample_reply\<lparr>rp_stop := Some 1\<rparr>
     | Some _ \<Rightarrow> sample_reply\<lparr>rp_status := 206, rp_content_range := ''bytes 1-1/2'', rp_content_length := 1, rp_body := ''y''\<rparr>))\<rparr>"

lemma breaking_serves: "serves breaking_client sample_artifact sample_content (\<lambda>_. True)"
proof -
  have "expected_range 1 2 = ''bytes 1-1/2''" by code_simp
  moreover have "trim_space ''bytes 1-1/2'' = ''bytes 1-1/2''" by code_simp
  moreover have "offset = 0 \<or> offset = 1" if "offset < (2 :: nat)" for offset using that by auto
  ultimately show ?thesis
    by (fastforce simp: serves_def breaking_client_def sample_artifact_def sample_reply_def sample_content_def honest_reply_def status_ok_def
        status_partial_content_def)
qed

theorem interrupted_download_resumes_witness:
  "fetch sample_sha256 (Some breaking_client) (\<lambda>_. False) sample_artifact None = (Inl ReadResponseFailed, Some (private_file_of ''x'')) \<and>
   fetch sample_sha256 (Some breaking_client) (\<lambda>_. False) sample_artifact (Some (private_file_of ''x'')) = (Inr (), Some (private_file_of ''xy''))"
  using interrupted_download_resumes [OF sample_artifact_of breaking_serves, of None]
    interrupted_download_resumes [OF sample_artifact_of breaking_serves, of "Some (private_file_of ''x'')"]
  by (simp add: held_content_def sample_content_def breaking_client_def sample_reply_def)

text \<open>A spoiled partial file cannot block a download: from any file whatsoever, against a server that has the artifact and does not
  break the connection, the first attempt succeeds, or it fails the verification, removes the file, and the second attempt succeeds.\<close>

theorem second_attempt_succeeds:
  assumes a: "artifact_of sha256 a content" and server: "serves c a content (\<lambda>reply. rp_stop reply = None)"
    and first: "fetch sha256 (Some c) (\<lambda>_. False) a slot = (r, slot')"
  shows "r = Inr () \<or> r = Inl VerificationFailed \<and> slot' = None \<and>
    (\<exists>f. fetch sha256 (Some c) (\<lambda>_. False) a slot' = (Inr (), Some f) \<and> lf_content f = content)"
proof -
  have sum: "int (length content) = ar_size a" "sha256 content = ar_sha256 a" using a by (auto simp: artifact_of_def)
  have empty: "\<exists>f. fetch sha256 (Some c) (\<lambda>_. False) a None = (Inr (), Some f) \<and> lf_content f = content"
    using a server
  proof (cases rule: fetch_quiet [of _ _ _ _ _ None])
    case (received f reply)
    then have "lf_content f = []" by simp
    with receive_quiet [where offset = "length (lf_content f)", OF received(1,2) refl sum(1) received(3,6,7), of sha256] received(4,5) sum
    show ?thesis by auto
  qed simp
  from a server show ?thesis
  proof (cases rule: fetch_quiet [of _ _ _ _ _ slot])
    case (complete f)
    with first show ?thesis by simp
  next
    case (received f reply)
    with receive_quiet [where offset = "length (lf_content f)", OF received(1,2) refl sum(1) received(3,6,7), of sha256] first empty
    show ?thesis by (auto split: if_splits)
  qed
qed

theorem second_attempt_succeeds_witness:
  "\<exists>r slot'. fetch sample_sha256 (Some sample_client) (\<lambda>_. False) sample_artifact (Some corrupt_partial) = (r, slot') \<and>
    (r = Inr () \<or> r = Inl VerificationFailed \<and> slot' = None \<and>
      (\<exists>f. fetch sample_sha256 (Some sample_client) (\<lambda>_. False) sample_artifact slot' = (Inr (), Some f) \<and> lf_content f = sample_content))"
proof -
  obtain r slot' where "fetch sample_sha256 (Some sample_client) (\<lambda>_. False) sample_artifact (Some corrupt_partial) = (r, slot')" by force
  with second_attempt_succeeds [OF sample_artifact_of sample_serves this] show ?thesis by blast
qed

end
