(* ===== verification/PluginState.thy ===== *)
theory PluginState
  imports Files Download
begin

section \<open>The durable state of plugins (internal/plugin/state.go)\<close>

text \<open>
  For each plugin the agent keeps the current revision, the one before it, and the revision that a command asked for but that is not
  committed yet. A command carries a generation: an older one is stale, the same one must ask for the same thing, and a
  newer one becomes pending durably before anything is done for it.

  The SDK's validation and digest functions and the JSON encoding are the fields of \<open>plugin_sdk\<close>. Go's \<^verbatim>\<open>cloneRevision\<close> and
  \<^verbatim>\<open>cloneArtifact\<close> copy a value so that the caller cannot change the stored one; values of the model cannot be changed.
\<close>

subsection \<open>Data\<close>

datatype plugin_mode = ModeRunning | ModeStopped | ModeAbsent | ModeOther string

record artifact_state =
  as_size :: int
  as_sha256 :: string

record desired_state =
  de_plugin_id :: string
  de_generation :: u64
  de_state :: plugin_mode
  de_version :: string
  de_artifact :: "artifact_state option"
  de_download_url :: string
  de_configuration :: string
  de_configuration_sha256 :: string

record revision =
  vn_generation :: u64
  vn_state :: plugin_mode
  vn_version :: string
  vn_artifact :: "artifact_state option"
  vn_configuration :: string
  vn_configuration_sha256 :: string

record plugin_state =
  pg_api_version :: string
  pg_plugin_id :: string
  pg_last_generation :: u64
  pg_current :: "revision option"
  pg_previous :: "revision option"
  pg_pending :: "desired_state option"
  pg_restart_count :: u64

record plugin_artifact =
  pa_download_url :: string
  pa_size :: int
  pa_sha256 :: string

record reconcile_command =
  rc_plugin_id :: string
  rc_generation :: u64
  rc_desired_state :: plugin_mode
  rc_version :: string
  rc_artifact :: "plugin_artifact option"
  rc_configuration :: string

record plugin_sdk =
  pk_valid_command :: "reconcile_command \<Rightarrow> bool"
  pk_compact_json :: "string \<Rightarrow> string option"
  pk_configuration_digest :: "string \<Rightarrow> string option"
  pk_valid_plugin_id :: "string \<Rightarrow> bool"
  pk_marshal_state :: "plugin_state \<Rightarrow> string option"
  pk_unmarshal_state :: "string \<Rightarrow> plugin_state option"

type_synonym plugin_states = "plugin_state file_store"

datatype plugin_error =
    GenerationConflict | StaleGeneration | InvalidReconcile | CompactFailed | ConfigurationInvalid | StateInvalid | EncodeStateFailed | StateTooLarge
  | StateNotPrivate | StateUnreadable | StateFilenameMismatch | DuplicatePluginState | RunningStateMissing | InvalidPluginID | StateFileFault

definition plugin_state_api_version :: string where
  "plugin_state_api_version = ''relayward.agent-plugin-state/v1''"

definition maximum_state_bytes :: nat where
  "maximum_state_bytes = 2 * 2 ^ 20"

definition state_temporary_prefix :: string where
  "state_temporary_prefix = ''.plugin-state-''"

definition placeholder_url :: string where
  "placeholder_url = ''https://github.com/relayward/placeholder''"

subsection \<open>Comparing\<close>

definition revision_of :: "desired_state \<Rightarrow> revision" where
  "revision_of d =
     \<lparr>vn_generation = de_generation d, vn_state = de_state d, vn_version = de_version d, vn_artifact = de_artifact d,
      vn_configuration = de_configuration d, vn_configuration_sha256 = de_configuration_sha256 d\<rparr>"

definition same_artifact :: "artifact_state option \<Rightarrow> artifact_state option \<Rightarrow> bool" where
  "same_artifact l r \<longleftrightarrow>
     (case (l, r) of
        (Some a, Some b) \<Rightarrow> as_size a = as_size b \<and> as_sha256 a = as_sha256 b
      | (None, None) \<Rightarrow> True
      | _ \<Rightarrow> False)"

definition same_revision :: "revision \<Rightarrow> revision \<Rightarrow> bool" where
  "same_revision l r \<longleftrightarrow>
     vn_generation l = vn_generation r \<and> vn_state l = vn_state r \<and> vn_version l = vn_version r \<and>
     vn_configuration_sha256 l = vn_configuration_sha256 r \<and> same_artifact (vn_artifact l) (vn_artifact r)"

definition same_desired :: "desired_state \<Rightarrow> desired_state \<Rightarrow> bool" where
  "same_desired l r \<longleftrightarrow> de_plugin_id l = de_plugin_id r \<and> same_revision (revision_of l) (revision_of r)"

definition current_matches :: "revision option \<Rightarrow> desired_state \<Rightarrow> bool" where
  "current_matches current d \<longleftrightarrow> (case current of None \<Rightarrow> False | Some c \<Rightarrow> same_revision c (revision_of d))"

definition normalize_desired :: "plugin_sdk \<Rightarrow> reconcile_command \<Rightarrow> plugin_error + desired_state" where
  "normalize_desired sdk c =
     (if \<not> pk_valid_command sdk c then Inl InvalidReconcile
      else
        let desired = \<lparr>de_plugin_id = rc_plugin_id c, de_generation = rc_generation c, de_state = rc_desired_state c,
                       de_version = rc_version c, de_artifact = None, de_download_url = [], de_configuration = [],
                       de_configuration_sha256 = []\<rparr>
        in if rc_desired_state c = ModeAbsent then Inr desired
           else case pk_compact_json sdk (rc_configuration c) of
             None \<Rightarrow> Inl CompactFailed
           | Some compact \<Rightarrow>
             (case pk_configuration_digest sdk compact of
                None \<Rightarrow> Inl ConfigurationInvalid
              | Some digest \<Rightarrow>
                (case rc_artifact c of
                   None \<Rightarrow> Inl InvalidReconcile
                 | Some a \<Rightarrow>
                     Inr (desired\<lparr>de_artifact := Some \<lparr>as_size = pa_size a, as_sha256 = pa_sha256 a\<rparr>,
                                  de_download_url := pa_download_url a, de_configuration := compact,
                                  de_configuration_sha256 := digest\<rparr>))))"

subsection \<open>Validation\<close>

text \<open>\<^verbatim>\<open>digest, _ := ...\<close>: an error leaves the empty digest.\<close>

definition digest_or_empty :: "plugin_sdk \<Rightarrow> string \<Rightarrow> string" where
  "digest_or_empty sdk configuration = (case pk_configuration_digest sdk configuration of None \<Rightarrow> [] | Some d \<Rightarrow> d)"

definition valid_revision :: "plugin_sdk \<Rightarrow> string \<Rightarrow> revision option \<Rightarrow> bool" where
  "valid_revision sdk plugin_id entry \<longleftrightarrow>
     (case entry of
        None \<Rightarrow> True
      | Some v \<Rightarrow>
          pk_valid_command sdk
            \<lparr>rc_plugin_id = plugin_id, rc_generation = vn_generation v, rc_desired_state = vn_state v, rc_version = vn_version v,
             rc_artifact = map_option (\<lambda>a. \<lparr>pa_download_url = placeholder_url, pa_size = as_size a, pa_sha256 = as_sha256 a\<rparr>) (vn_artifact v),
             rc_configuration = (if vn_artifact v \<noteq> None then vn_configuration v else [])\<rparr> \<and>
          (if vn_configuration v \<noteq> [] then digest_or_empty sdk (vn_configuration v) else []) = vn_configuration_sha256 v)"

definition valid_pending :: "plugin_sdk \<Rightarrow> plugin_state \<Rightarrow> bool" where
  "valid_pending sdk s \<longleftrightarrow>
     (case pg_pending s of
        None \<Rightarrow> True
      | Some d \<Rightarrow>
          pk_valid_command sdk
            \<lparr>rc_plugin_id = pg_plugin_id s, rc_generation = de_generation d, rc_desired_state = de_state d, rc_version = de_version d,
             rc_artifact = map_option (\<lambda>a. \<lparr>pa_download_url = de_download_url d, pa_size = as_size a, pa_sha256 = as_sha256 a\<rparr>) (de_artifact d),
             rc_configuration = de_configuration d\<rparr> \<and>
          de_plugin_id d = pg_plugin_id s \<and> de_generation d = pg_last_generation s \<and>
          \<not> (de_state d \<noteq> ModeAbsent \<and> digest_or_empty sdk (de_configuration d) \<noteq> de_configuration_sha256 d))"

definition valid_plugin_state :: "plugin_sdk \<Rightarrow> plugin_state \<Rightarrow> bool" where
  "valid_plugin_state sdk s \<longleftrightarrow>
     pg_api_version s = plugin_state_api_version \<and> pk_valid_plugin_id sdk (pg_plugin_id s) \<and> pg_last_generation s \<noteq> 0 \<and>
     valid_revision sdk (pg_plugin_id s) (pg_current s) \<and> valid_revision sdk (pg_plugin_id s) (pg_previous s) \<and>
     (case pg_current s of None \<Rightarrow> True | Some c \<Rightarrow> \<not> pg_last_generation s < vn_generation c) \<and>
     (case pg_previous s of None \<Rightarrow> True
      | Some p \<Rightarrow> (case pg_current s of None \<Rightarrow> False | Some c \<Rightarrow> vn_generation p < vn_generation c)) \<and>
     \<not> ((case pg_current s of None \<Rightarrow> False | Some c \<Rightarrow> vn_state c = ModeAbsent) \<and> pg_previous s \<noteq> None) \<and>
     valid_pending sdk s \<and> (pg_current s \<noteq> None \<or> pg_pending s \<noteq> None)"

subsection \<open>Reading and writing\<close>

definition encode_state :: "plugin_sdk \<Rightarrow> plugin_state \<Rightarrow> plugin_error + string" where
  "encode_state sdk s =
     (if \<not> valid_plugin_state sdk s then Inl StateInvalid
      else case pk_marshal_state sdk s of
        None \<Rightarrow> Inl EncodeStateFailed
      | Some raw \<Rightarrow>
          let raw = raw @ [CHR 0x0A]
          in if maximum_state_bytes < length raw then Inl StateTooLarge else Inr raw)"

text \<open>\<^verbatim>\<open>writeLocked\<close> and, when it succeeds, the assignment to the map that follows every call of it.\<close>

definition write_state ::
    "plugin_sdk \<Rightarrow> plugin_error write_fault option \<Rightarrow> plugin_state \<Rightarrow> plugin_states \<Rightarrow> (plugin_error + unit) \<times> plugin_states" where
  "write_state sdk fault s store =
     (case encode_state sdk s of
        Inl e \<Rightarrow> (Inl e, store)
      | Inr raw \<Rightarrow> replace_record fault (pg_plugin_id s) raw s store)"

definition read_plugin_state :: "plugin_sdk \<Rightarrow> plugin_error option \<Rightarrow> file_entry \<Rightarrow> plugin_error + plugin_state" where
  "read_plugin_state sdk fault f =
     (if \<not> fe_regular f \<or> \<not> fe_private f then Inl StateNotPrivate
      else if maximum_state_bytes < length (fe_content f) then Inl StateTooLarge
      else case fault of Some e \<Rightarrow> Inl e | None \<Rightarrow>
        (case pk_unmarshal_state sdk (fe_content f) of
           None \<Rightarrow> Inl StateUnreadable
         | Some s \<Rightarrow> if valid_plugin_state sdk s then Inr s else Inl StateInvalid))"

definition open_state_store :: "plugin_sdk \<Rightarrow> plugin_error option \<Rightarrow> plugin_error option \<Rightarrow> directory \<Rightarrow> plugin_error + plugin_states" where
  "open_state_store sdk os_fault sync_fault dir =
     (case os_fault of Some e \<Rightarrow> Inl e | None \<Rightarrow>
       open_files state_temporary_prefix (read_plugin_state sdk None) pg_plugin_id StateFilenameMismatch DuplicatePluginState sync_fault dir)"

subsection \<open>Operations\<close>

definition empty_plugin_state :: "string \<Rightarrow> plugin_state" where
  "empty_plugin_state plugin_id =
     \<lparr>pg_api_version = plugin_state_api_version, pg_plugin_id = plugin_id, pg_last_generation = 0, pg_current = None,
      pg_previous = None, pg_pending = None, pg_restart_count = 0\<rparr>"

text \<open>The answer of \<^verbatim>\<open>prepare\<close>: the normalized request, the current revision, and whether it is the one asked for.\<close>

type_synonym prepared = "desired_state \<times> revision option \<times> bool"

text \<open>
  A repeated request may bring a fresh download URL. The code writes it through the pointer \<^verbatim>\<open>state.Pending\<close>, which the
  stored state shares, before the state is written to its file: the state in memory has the new URL even if the write fails.
\<close>

definition renew_url ::
    "plugin_sdk \<Rightarrow> plugin_error write_fault option \<Rightarrow> plugin_state \<Rightarrow> desired_state \<Rightarrow> desired_state \<Rightarrow> plugin_states
     \<Rightarrow> (plugin_error + prepared) \<times> plugin_states" where
  "renew_url sdk fault s pending desired store =
     (if de_download_url pending \<noteq> de_download_url desired then
        let s = s\<lparr>pg_pending := Some (pending\<lparr>de_download_url := de_download_url desired\<rparr>)\<rparr>;
            store = store\<lparr>fs_records := bucket_put (pg_plugin_id s) s (fs_records store)\<rparr>
        in (case write_state sdk fault s store of
              (Inl e, store) \<Rightarrow> (Inl e, store)
            | (Inr _, store) \<Rightarrow> (Inr (desired, pg_current s, False), store))
      else (Inr (desired, pg_current s, False), store))"

text \<open>The state that \<open>prepare\<close> starts from.\<close>

definition prepare_state :: "string \<Rightarrow> plugin_states \<Rightarrow> plugin_state" where
  "prepare_state plugin_id store =
     (case bucket_get (fs_records store) plugin_id of
        None \<Rightarrow> empty_plugin_state plugin_id
      | Some s \<Rightarrow> if pg_api_version s = [] then empty_plugin_state plugin_id else s)"

definition prepare ::
    "plugin_sdk \<Rightarrow> plugin_error write_fault option \<Rightarrow> reconcile_command \<Rightarrow> plugin_states
     \<Rightarrow> (plugin_error + prepared) \<times> plugin_states" where
  "prepare sdk fault c store =
     (case normalize_desired sdk c of
        Inl e \<Rightarrow> (Inl e, store)
      | Inr desired \<Rightarrow>
        let s = prepare_state (rc_plugin_id c) store
        in if de_generation desired < pg_last_generation s then (Inl StaleGeneration, store)
           else if de_generation desired = pg_last_generation s then
             (if current_matches (pg_current s) desired then (Inr (desired, pg_current s, True), store)
              else case pg_pending s of
                None \<Rightarrow> (Inl GenerationConflict, store)
              | Some pending \<Rightarrow>
                  if \<not> same_desired pending desired then (Inl GenerationConflict, store)
                  else renew_url sdk fault s pending desired store)
           else
             let s = s\<lparr>pg_last_generation := de_generation desired, pg_pending := Some desired\<rparr>
             in (case write_state sdk fault s store of
                   (Inl e, store) \<Rightarrow> (Inl e, store)
                 | (Inr _, store) \<Rightarrow> (Inr (desired, pg_current s, False), store)))"

definition committed_state :: "desired_state \<Rightarrow> plugin_state \<Rightarrow> plugin_state" where
  "committed_state desired s =
     (let next = revision_of desired
      in if vn_state next = ModeAbsent
         then s\<lparr>pg_current := Some next, pg_previous := None, pg_pending := None, pg_restart_count := 0\<rparr>
         else s\<lparr>pg_current := Some next,
                pg_previous := (case pg_current s of
                    None \<Rightarrow> pg_previous s
                  | Some c \<Rightarrow> if vn_state c \<noteq> ModeAbsent \<and> \<not> same_revision c next then Some c else pg_previous s),
                pg_pending := None, pg_restart_count := 0\<rparr>)"

definition commit ::
    "plugin_sdk \<Rightarrow> plugin_error write_fault option \<Rightarrow> desired_state \<Rightarrow> plugin_states \<Rightarrow> (plugin_error + revision) \<times> plugin_states" where
  "commit sdk fault desired store =
     (case bucket_get (fs_records store) (de_plugin_id desired) of
        None \<Rightarrow> (Inl GenerationConflict, store)
      | Some s \<Rightarrow>
        (case pg_pending s of
           None \<Rightarrow> (Inl GenerationConflict, store)
         | Some pending \<Rightarrow>
             if pg_last_generation s \<noteq> de_generation desired \<or> \<not> same_desired pending desired
             then (Inl GenerationConflict, store)
             else (case write_state sdk fault (committed_state desired s) store of
                (Inl e, store) \<Rightarrow> (Inl e, store)
              | (Inr _, store) \<Rightarrow> (Inr (revision_of desired), store))))"

definition current_revision :: "plugin_sdk \<Rightarrow> string \<Rightarrow> plugin_states \<Rightarrow> plugin_error + revision option \<times> u64" where
  "current_revision sdk plugin_id store =
     (if \<not> pk_valid_plugin_id sdk plugin_id then Inl InvalidPluginID
      else case bucket_get (fs_records store) plugin_id of
        None \<Rightarrow> Inr (None, 0)
      | Some s \<Rightarrow> Inr (pg_current s, pg_restart_count s))"

text \<open>The keys of the map are the plugin ids, so the sorted list is the one in key order.\<close>

definition list_states :: "plugin_states \<Rightarrow> plugin_state list" where
  "list_states store = sort_key pg_plugin_id (map snd (fs_records store))"

definition increment_restart ::
    "plugin_sdk \<Rightarrow> plugin_error write_fault option \<Rightarrow> string \<Rightarrow> plugin_states \<Rightarrow> (plugin_error + u64) \<times> plugin_states" where
  "increment_restart sdk fault plugin_id store =
     (case bucket_get (fs_records store) plugin_id of
        None \<Rightarrow> (Inl RunningStateMissing, store)
      | Some s \<Rightarrow>
          if (case pg_current s of None \<Rightarrow> True | Some c \<Rightarrow> vn_state c \<noteq> ModeRunning) then (Inl RunningStateMissing, store)
          else
            let s = s\<lparr>pg_restart_count := pg_restart_count s + 1\<rparr>
            in (case write_state sdk fault s store of
                  (Inl e, store) \<Rightarrow> (Inl e, store)
                | (Inr _, store) \<Rightarrow> (Inr (pg_restart_count s), store)))"

subsection \<open>Release directories\<close>

text \<open>
  A release of a plugin is a directory \<^verbatim>\<open><version>-<sha256>\<close> with the executable and, while it is downloaded, a partial file next to
  it. \<open>pruneReleases\<close> removes the directories that no revision of the plugin refers to.
\<close>

record release_files =
  rf_plugin :: "local_file option"
  rf_partial :: "local_file option"

type_synonym releases = "string \<Rightarrow> release_files bucket option"

definition release_name :: "string \<Rightarrow> string \<Rightarrow> string" where
  "release_name version digest = version @ ''-'' @ digest"

definition kept_names :: "string \<Rightarrow> artifact_state option \<Rightarrow> string list" where
  "kept_names version a = (case a of None \<Rightarrow> [] | Some a \<Rightarrow> [release_name version (as_sha256 a)])"

definition retained_releases :: "string \<Rightarrow> plugin_states \<Rightarrow> string list" where
  "retained_releases plugin_id store =
     (case bucket_get (fs_records store) plugin_id of
        None \<Rightarrow> []
      | Some s \<Rightarrow>
          (case pg_current s of None \<Rightarrow> [] | Some v \<Rightarrow> kept_names (vn_version v) (vn_artifact v)) @
          (case pg_previous s of None \<Rightarrow> [] | Some v \<Rightarrow> kept_names (vn_version v) (vn_artifact v)) @
          (case pg_pending s of None \<Rightarrow> [] | Some d \<Rightarrow> kept_names (de_version d) (de_artifact d)))"

text \<open>\<open>remove_fails\<close>: the entries whose removal the operating system refuses; the first one ends the loop.\<close>

fun prune_entries :: "string list \<Rightarrow> (string \<Rightarrow> bool) \<Rightarrow> string list \<Rightarrow> release_files bucket \<Rightarrow> bool \<times> bool \<times> release_files bucket" where
  "prune_entries keep remove_fails [] b = (True, False, b)"
| "prune_entries keep remove_fails (name # names) b =
     (if name \<in> set keep then prune_entries keep remove_fails names b
      else if remove_fails name then (False, False, b)
      else case prune_entries keep remove_fails names (bucket_delete name b) of (ok, changed, b) \<Rightarrow> (ok, True, b))"

definition prune_releases ::
    "(string \<Rightarrow> bool) \<Rightarrow> bool \<Rightarrow> string \<Rightarrow> plugin_states \<Rightarrow> releases \<Rightarrow> bool \<times> releases" where
  "prune_releases remove_fails sync_fails plugin_id store rel =
     (case rel plugin_id of
        None \<Rightarrow> (True, rel)
      | Some b \<Rightarrow>
        (case prune_entries (retained_releases plugin_id store) remove_fails (map fst b) b of
           (ok, changed, b) \<Rightarrow> (ok \<and> \<not> (changed \<and> sync_fails), rel(plugin_id \<mapsto> b))))"

subsection \<open>What the state relies on, and its invariant\<close>

definition plugin_sdk_ok :: "plugin_sdk \<Rightarrow> bool" where
  "plugin_sdk_ok sdk \<longleftrightarrow>
     (\<forall>s raw. valid_plugin_state sdk s \<longrightarrow> pk_marshal_state sdk s = Some raw \<longrightarrow> pk_unmarshal_state sdk (raw @ [CHR 0x0A]) = Some s) \<and>
     (\<forall>k. pk_valid_plugin_id sdk k \<longrightarrow> \<not> prefix state_temporary_prefix (record_file k))"

text \<open>The order in which the states of one plugin follow each other: generations never go back.\<close>

definition state_advances :: "plugin_state \<Rightarrow> plugin_state \<Rightarrow> bool" where
  "state_advances s s' \<longleftrightarrow>
     pg_plugin_id s' = pg_plugin_id s \<and> pg_last_generation s \<le> pg_last_generation s' \<and>
     (case pg_current s of None \<Rightarrow> True
      | Some c \<Rightarrow> (case pg_current s' of None \<Rightarrow> False | Some c' \<Rightarrow> vn_generation c \<le> vn_generation c'))"

lemma state_advances_refl [simp]: "state_advances s s"
  by (simp add: state_advances_def split: option.splits)

lemma state_advances_trans: "state_advances a b \<Longrightarrow> state_advances b c \<Longrightarrow> state_advances a c"
  by (auto simp: state_advances_def split: option.splits)

definition state_shape :: "plugin_state \<Rightarrow> bool" where
  "state_shape s \<longleftrightarrow>
     pg_api_version s \<noteq> [] \<and> (case pg_current s of None \<Rightarrow> True | Some c \<Rightarrow> vn_generation c \<le> pg_last_generation s)"

lemma valid_state_shape: "valid_plugin_state sdk s \<Longrightarrow> state_shape s"
  by (auto simp: valid_plugin_state_def state_shape_def plugin_state_api_version_def not_less split: option.splits)

abbreviation plugin_inv :: "plugin_sdk \<Rightarrow> plugin_states \<Rightarrow> bool" where
  "plugin_inv sdk \<equiv> file_store_inv state_temporary_prefix (read_plugin_state sdk None) pg_plugin_id state_shape state_advances"

abbreviation state_on_disk :: "plugin_sdk \<Rightarrow> directory \<Rightarrow> string \<Rightarrow> plugin_state option" where
  "state_on_disk sdk \<equiv> on_disk state_temporary_prefix (read_plugin_state sdk None)"

lemma read_plugin_state_shape: "read_plugin_state sdk fault f = Inr s \<Longrightarrow> valid_plugin_state sdk s"
  by (auto simp: read_plugin_state_def split: if_splits option.splits)

lemma encode_state_Inr:
  "encode_state sdk s = Inr content \<Longrightarrow>
   valid_plugin_state sdk s \<and> (\<exists>raw. pk_marshal_state sdk s = Some raw \<and> content = raw @ [CHR 0x0A] \<and> length content \<le> maximum_state_bytes)"
  by (auto simp: encode_state_def Let_def split: if_splits option.splits)

lemma write_state_step:
  assumes res: "write_state sdk fault s store = (out, store')" and ok: "plugin_sdk_ok sdk" and inv: "plugin_inv sdk store"
    and later: "\<And>old. bucket_get (fs_records store) (pg_plugin_id s) = Some old \<Longrightarrow> state_advances old s"
  shows "plugin_inv sdk store' \<and>
    (\<forall>j. bucket_get (fs_records store') j = (if out = Inr () \<and> j = pg_plugin_id s then Some s else bucket_get (fs_records store) j)) \<and>
    (\<forall>u. out = Inr u \<longrightarrow> state_on_disk sdk (fs_files store') (pg_plugin_id s) = Some s \<and> valid_plugin_state sdk s)"
proof (cases "encode_state sdk s")
  case (Inl e)
  with res inv show ?thesis by (auto simp: write_state_def)
next
  case (Inr content)
  note enc = encode_state_Inr [OF this]
  have rep: "replace_record fault (pg_plugin_id s) content s store = (out, store')"
    using res Inr by (simp add: write_state_def)
  have read: "read_plugin_state sdk None (private_file content) = Inr s"
    using enc ok by (auto simp: read_plugin_state_def plugin_sdk_ok_def)
  have "pk_valid_plugin_id sdk (pg_plugin_id s)" using enc by (simp add: valid_plugin_state_def)
  then have name: "\<not> prefix state_temporary_prefix (record_file (pg_plugin_id s))"
    using ok by (simp add: plugin_sdk_ok_def)
  have shape: "state_shape s" using enc valid_state_shape by blast
  show ?thesis
    using replace_record_step [OF rep inv read refl name shape state_advances_refl later] enc by auto
qed

text \<open>What a step may do to the states of the plugins.\<close>

definition states_advance :: "plugin_states \<Rightarrow> plugin_states \<Rightarrow> bool" where
  "states_advance store store' \<longleftrightarrow>
     (\<forall>k s. bucket_get (fs_records store) k = Some s \<longrightarrow>
        (\<exists>s'. bucket_get (fs_records store') k = Some s' \<and> state_advances s s'))"

lemma states_advance_refl [simp]: "states_advance store store"
  by (auto simp: states_advance_def)

lemma states_advance_trans: "states_advance a b \<Longrightarrow> states_advance b c \<Longrightarrow> states_advance a c"
  unfolding states_advance_def by (meson state_advances_trans)

lemma write_state_advances:
  assumes res: "write_state sdk fault s store = (out, store')" and ok: "plugin_sdk_ok sdk" and inv: "plugin_inv sdk store"
    and later: "\<And>old. bucket_get (fs_records store) (pg_plugin_id s) = Some old \<Longrightarrow> state_advances old s"
  shows "states_advance store store'"
  unfolding states_advance_def
proof (intro allI impI)
  fix k old assume old: "bucket_get (fs_records store) k = Some old"
  have "bucket_get (fs_records store') k = (if out = Inr () \<and> k = pg_plugin_id s then Some s else bucket_get (fs_records store) k)"
    using write_state_step [OF assms] by blast
  with old later show "\<exists>s'. bucket_get (fs_records store') k = Some s' \<and> state_advances old s'"
    by (cases "out = Inr () \<and> k = pg_plugin_id s") auto
qed

lemma normalize_desired_Inr:
  "normalize_desired sdk c = Inr d \<Longrightarrow> de_plugin_id d = rc_plugin_id c \<and> de_generation d = rc_generation c \<and> de_state d = rc_desired_state c \<and>
   pk_valid_command sdk c"
  by (auto simp: normalize_desired_def Let_def split: if_splits option.splits)

lemma prepare_state_known:
  assumes "plugin_inv sdk store" and "bucket_get (fs_records store) k = Some s"
  shows "prepare_state k store = s"
proof -
  have "state_shape s" using file_store_invD(2) [OF assms] .
  with assms(2) show ?thesis by (simp add: prepare_state_def state_shape_def)
qed

lemma prepare_state_id: "plugin_inv sdk store \<Longrightarrow> pg_plugin_id (prepare_state k store) = k"
  using prepare_state_known file_store_invD(1)
  by (cases "bucket_get (fs_records store) k") (fastforce simp: prepare_state_def empty_plugin_state_def)+

text \<open>The four ways \<open>prepare\<close> ends: nothing is written, the same request again, the same request with a new URL, a new request.\<close>

lemma prepare_cases [consumes 2, case_names refused current again new]:
  assumes "prepare sdk fault c store = (out, store')" and "plugin_inv sdk store"
  obtains e where "out = Inl e" "store' = store"
  | d where "normalize_desired sdk c = Inr d" "out = Inr (d, pg_current (prepare_state (rc_plugin_id c) store), True)" "store' = store"
      "current_matches (pg_current (prepare_state (rc_plugin_id c) store)) d"
      "de_generation d = pg_last_generation (prepare_state (rc_plugin_id c) store)"
  | d s p where "normalize_desired sdk c = Inr d" "bucket_get (fs_records store) (rc_plugin_id c) = Some s" "pg_pending s = Some p"
      "same_desired p d" "de_generation d = pg_last_generation s" "renew_url sdk fault s p d store = (out, store')"
  | d s where "normalize_desired sdk c = Inr d" "s = prepare_state (rc_plugin_id c) store" "pg_last_generation s < de_generation d"
      "\<exists>w. write_state sdk fault (s\<lparr>pg_last_generation := de_generation d, pg_pending := Some d\<rparr>) store = (w, store') \<and>
         ((\<exists>e. w = Inl e \<and> out = Inl e) \<or> (w = Inr () \<and> out = Inr (d, pg_current s, False)))"
proof (cases "normalize_desired sdk c")
  case (Inl e)
  with assms(1) have "out = Inl e" "store' = store" by (auto simp: prepare_def)
  with that(1) show ?thesis by blast
next
  case (Inr d)
  define s where "s = prepare_state (rc_plugin_id c) store"
  have go: "(if de_generation d < pg_last_generation s then (Inl StaleGeneration, store)
           else if de_generation d = pg_last_generation s then
             (if current_matches (pg_current s) d then (Inr (d, pg_current s, True), store)
              else case pg_pending s of
                None \<Rightarrow> (Inl GenerationConflict, store)
              | Some pending \<Rightarrow>
                  if \<not> same_desired pending d then (Inl GenerationConflict, store)
                  else renew_url sdk fault s pending d store)
           else (case write_state sdk fault (s\<lparr>pg_last_generation := de_generation d, pg_pending := Some d\<rparr>) store of
                   (Inl e, store) \<Rightarrow> (Inl e, store)
                 | (Inr _, store) \<Rightarrow> (Inr (d, pg_current (s\<lparr>pg_last_generation := de_generation d, pg_pending := Some d\<rparr>), False), store))) =
        (out, store')"
    using assms(1) unfolding prepare_def Inr sum.case Let_def s_def [symmetric] .
  consider "de_generation d < pg_last_generation s" | "de_generation d = pg_last_generation s" | "pg_last_generation s < de_generation d"
    by force
  then show ?thesis
  proof cases
    case 1
    with go have "out = Inl StaleGeneration" "store' = store" by auto
    with that(1) show ?thesis by blast
  next
    case 2
    show ?thesis
    proof (cases "current_matches (pg_current s) d")
      case True
      with go 2 have "out = Inr (d, pg_current s, True)" "store' = store" by auto
      with True 2 Inr show ?thesis by (intro that(2) [of d]) (simp_all add: s_def)
    next
      case False
      show ?thesis
      proof (cases "pg_pending s")
        case None
        with go 2 False have "out = Inl GenerationConflict" "store' = store" by auto
        with that(1) show ?thesis by blast
      next
        case (Some p)
        then obtain s0 where "bucket_get (fs_records store) (rc_plugin_id c) = Some s0"
          by (cases "bucket_get (fs_records store) (rc_plugin_id c)") (auto simp: s_def prepare_state_def empty_plugin_state_def)
        moreover from this have "s0 = s" using prepare_state_known [OF assms(2)] s_def by simp
        ultimately show ?thesis
          using go 2 False Some Inr that(1) that(3) [of d s p] by (cases "same_desired p d") auto
      qed
    qed
  next
    case 3
    then have gen: "\<not> de_generation d < pg_last_generation s" "de_generation d \<noteq> pg_last_generation s" by auto
    obtain w st where w: "write_state sdk fault (s\<lparr>pg_last_generation := de_generation d, pg_pending := Some d\<rparr>) store = (w, st)" by force
    with go gen show ?thesis
      using Inr 3 by (intro that(4) [of d s]) (auto simp: s_def split: sum.splits)
  qed
qed

subsection \<open>Every operation keeps the invariant and lets the states only advance\<close>

lemma pending_irrelevant [simp]:
  "state_shape (s\<lparr>pg_pending := p\<rparr>) = state_shape s" "state_advances (s\<lparr>pg_pending := p\<rparr>) r = state_advances s r"
  by (simp_all add: state_shape_def state_advances_def cong: option.case_cong)

lemma renew_memory_inv:
  assumes inv: "plugin_inv sdk store" and s: "bucket_get (fs_records store) k = Some s"
  shows "plugin_inv sdk (store\<lparr>fs_records := bucket_put k (s\<lparr>pg_pending := p\<rparr>) (fs_records store)\<rparr>)"
  using inv file_store_invD [OF inv s]
  unfolding file_store_inv_def by (auto simp: put_sorted)

lemma renew_url_step:
  assumes res: "renew_url sdk fault s p d store = (out, store')" and ok: "plugin_sdk_ok sdk" and inv: "plugin_inv sdk store"
    and s: "bucket_get (fs_records store) k = Some s"
  shows "plugin_inv sdk store' \<and> states_advance store store' \<and>
    (\<exists>p'. bucket_get (fs_records store') k = Some (s\<lparr>pg_pending := p'\<rparr>) \<and>
       (p' = pg_pending s \<or> p' = Some (p\<lparr>de_download_url := de_download_url d\<rparr>))) \<and>
    (\<forall>q. out = Inr q \<longrightarrow> q = (d, pg_current s, False) \<and> (store' = store \<or>
       state_on_disk sdk (fs_files store') k = Some (s\<lparr>pg_pending := Some (p\<lparr>de_download_url := de_download_url d\<rparr>)\<rparr>)))"
proof (cases "de_download_url p = de_download_url d")
  case True
  have same: "bucket_get (fs_records store) k = Some (s\<lparr>pg_pending := pg_pending s\<rparr>)" using s by simp
  from True res have "out = Inr (d, pg_current s, False)" "store' = store" by (auto simp: renew_url_def)
  with inv same show ?thesis by (intro conjI exI [of _ "pg_pending s"]) simp_all
next
  case False
  let ?s = "s\<lparr>pg_pending := Some (p\<lparr>de_download_url := de_download_url d\<rparr>)\<rparr>"
  let ?m = "store\<lparr>fs_records := bucket_put k ?s (fs_records store)\<rparr>"
  have id: "pg_plugin_id s = k" by (rule file_store_invD(1) [OF inv s])
  have inv': "plugin_inv sdk ?m" by (rule renew_memory_inv [OF inv s])
  have adv: "states_advance store ?m" using s by (auto simp: states_advance_def state_advances_def split: option.splits)
  obtain w st where w: "write_state sdk fault ?s ?m = (w, st)" by force
  have later: "\<And>old. bucket_get (fs_records ?m) (pg_plugin_id ?s) = Some old \<Longrightarrow> state_advances old ?s" using id by simp
  note step = write_state_step [OF w ok inv' later] and adv' = write_state_advances [OF w ok inv' later]
  have out: "store' = st" "(\<exists>e. w = Inl e \<and> out = Inl e) \<or> (w = Inr () \<and> out = Inr (d, pg_current s, False))"
    using res False w id by (auto simp: renew_url_def Let_def split: sum.splits)
  have "bucket_get (fs_records st) k = Some ?s" using step id by simp
  moreover have "out = Inr q \<Longrightarrow> q = (d, pg_current s, False) \<and> state_on_disk sdk (fs_files st) k = Some ?s" for q
    using out(2) step id by auto
  ultimately show ?thesis using step out(1) states_advance_trans [OF adv adv'] by blast
qed

lemma prepare_step:
  assumes res: "prepare sdk fault c store = (out, store')" and ok: "plugin_sdk_ok sdk" and inv: "plugin_inv sdk store"
  shows "plugin_inv sdk store' \<and> states_advance store store'"
  using res inv
proof (cases rule: prepare_cases)
  case (again d s p)
  show ?thesis using renew_url_step [OF again(6) ok inv again(2)] by blast
next
  case (new d s)
  let ?s = "s\<lparr>pg_last_generation := de_generation d, pg_pending := Some d\<rparr>"
  obtain w where w: "write_state sdk fault ?s store = (w, store')" using new(4) by blast
  have later: "state_advances old ?s" if "bucket_get (fs_records store) (pg_plugin_id ?s) = Some old" for old
  proof -
    have "pg_plugin_id s = rc_plugin_id c" unfolding new(2) by (rule prepare_state_id [OF inv])
    with that have "bucket_get (fs_records store) (rc_plugin_id c) = Some old" by simp
    from prepare_state_known [OF inv this] new(2) have "old = s" by simp
    with new(3) show ?thesis by (auto simp: state_advances_def split: option.splits)
  qed
  show ?thesis using write_state_step [OF w ok inv later] write_state_advances [OF w ok inv later] by blast
qed (use inv in auto)

lemma commit_cases [consumes 1, case_names refused committed]:
  assumes "commit sdk fault d store = (out, store')"
  obtains e where "out = Inl e" "store' = store"
  | s p w where "bucket_get (fs_records store) (de_plugin_id d) = Some s" "pg_pending s = Some p" "pg_last_generation s = de_generation d"
      "same_desired p d" "write_state sdk fault (committed_state d s) store = (w, store')"
      "(\<exists>e. w = Inl e \<and> out = Inl e) \<or> (w = Inr () \<and> out = Inr (revision_of d))"
proof (cases "\<exists>s p. bucket_get (fs_records store) (de_plugin_id d) = Some s \<and> pg_pending s = Some p \<and>
    pg_last_generation s = de_generation d \<and> same_desired p d")
  case False
  then have "(Inl GenerationConflict, store) = (out, store')"
    using assms by (auto simp: commit_def split: option.splits if_splits)
  with that(1) show ?thesis by blast
next
  case True
  then obtain s p where s: "bucket_get (fs_records store) (de_plugin_id d) = Some s" "pg_pending s = Some p"
    "pg_last_generation s = de_generation d" "same_desired p d" by blast
  obtain w st where w: "write_state sdk fault (committed_state d s) store = (w, st)" by force
  then have "st = store' \<and> ((\<exists>e. w = Inl e \<and> out = Inl e) \<or> (w = Inr () \<and> out = Inr (revision_of d)))"
    using assms s by (auto simp: commit_def split: sum.splits)
  with that(2) s w show ?thesis by blast
qed

lemma revision_of_simps [simp]:
  "vn_generation (revision_of d) = de_generation d" "vn_state (revision_of d) = de_state d" "vn_version (revision_of d) = de_version d"
  "vn_artifact (revision_of d) = de_artifact d" "vn_configuration_sha256 (revision_of d) = de_configuration_sha256 d"
  "vn_configuration (revision_of d) = de_configuration d"
  by (simp_all add: revision_of_def)

lemma committed_state_fields:
  "pg_plugin_id (committed_state d s) = pg_plugin_id s" "pg_last_generation (committed_state d s) = pg_last_generation s"
  "pg_current (committed_state d s) = Some (revision_of d)" "pg_pending (committed_state d s) = None"
  "pg_restart_count (committed_state d s) = 0" "pg_api_version (committed_state d s) = pg_api_version s"
  by (simp_all add: committed_state_def Let_def)

lemma committed_previous:
  "pg_previous (committed_state d s) = (if de_state d = ModeAbsent then None
      else case pg_current s of None \<Rightarrow> pg_previous s
        | Some c \<Rightarrow> if vn_state c \<noteq> ModeAbsent \<and> \<not> same_revision c (revision_of d) then Some c else pg_previous s)"
  by (simp add: committed_state_def Let_def)

lemma commit_step:
  assumes res: "commit sdk fault d store = (out, store')" and ok: "plugin_sdk_ok sdk" and inv: "plugin_inv sdk store"
  shows "plugin_inv sdk store' \<and> states_advance store store' \<and>
    (\<forall>v. out = Inr v \<longrightarrow> v = revision_of d \<and> (\<exists>s. bucket_get (fs_records store) (de_plugin_id d) = Some s \<and>
       bucket_get (fs_records store') (de_plugin_id d) = Some (committed_state d s) \<and>
       state_on_disk sdk (fs_files store') (de_plugin_id d) = Some (committed_state d s)))"
  using res
proof (cases rule: commit_cases)
  case (refused e)
  with inv show ?thesis by simp
next
  case (committed s p w)
  note shape = file_store_invD(1,2) [OF inv committed(1)]
  have later: "state_advances old (committed_state d s)"
    if "bucket_get (fs_records store) (pg_plugin_id (committed_state d s)) = Some old" for old
    using that shape committed(1,3) by (auto simp: committed_state_fields state_advances_def state_shape_def split: option.splits)
  note step = write_state_step [OF committed(5) ok inv later] and adv = write_state_advances [OF committed(5) ok inv later]
  have "bucket_get (fs_records store') (de_plugin_id d) = Some (committed_state d s) \<and>
       state_on_disk sdk (fs_files store') (de_plugin_id d) = Some (committed_state d s)" if "w = Inr ()"
    using step that shape by (simp add: committed_state_fields)
  with step adv committed(1,6) show ?thesis by auto
qed

lemma increment_restart_step:
  assumes res: "increment_restart sdk fault k store = (out, store')" and ok: "plugin_sdk_ok sdk" and inv: "plugin_inv sdk store"
  shows "plugin_inv sdk store' \<and> states_advance store store'"
proof (cases "\<exists>s c. bucket_get (fs_records store) k = Some s \<and> pg_current s = Some c \<and> vn_state c = ModeRunning")
  case False
  then have "store' = store" using res by (auto simp: increment_restart_def split: option.splits if_splits)
  with inv show ?thesis by simp
next
  case True
  then obtain s c where s: "bucket_get (fs_records store) k = Some s" "pg_current s = Some c" "vn_state c = ModeRunning" by blast
  let ?s = "s\<lparr>pg_restart_count := pg_restart_count s + 1\<rparr>"
  obtain w st where w: "write_state sdk fault ?s store = (w, st)" by force
  have "store' = st" using res s w by (auto simp: increment_restart_def Let_def split: sum.splits)
  have later: "state_advances old ?s" if "bucket_get (fs_records store) (pg_plugin_id ?s) = Some old" for old
    using that file_store_invD(1) [OF inv s(1)] s by (auto simp: state_advances_def)
  show ?thesis
    using write_state_step [OF w ok inv later] write_state_advances [OF w ok inv later] \<open>store' = st\<close> by blast
qed

lemma open_state_store_reads:
  assumes "plugin_inv sdk store" and "leftovers state_temporary_prefix (fs_files store) dir"
  obtains store' where "open_state_store sdk None None dir = Inr store'" "plugin_inv sdk store'"
    "\<And>k. bucket_get (fs_records store') k = state_on_disk sdk (fs_files store) k" "states_advance store store'"
proof -
  obtain store' where s': "open_files state_temporary_prefix (read_plugin_state sdk None) pg_plugin_id StateFilenameMismatch DuplicatePluginState None dir = Inr store'"
    "plugin_inv sdk store'" "\<And>k. bucket_get (fs_records store') k = state_on_disk sdk (fs_files store) k"
  proof (rule reopen_files [OF assms, of StateFilenameMismatch DuplicatePluginState])
    show "\<And>f r. read_plugin_state sdk None f = Inr r \<Longrightarrow> state_shape r \<and> state_advances r r"
      using read_plugin_state_shape valid_state_shape by fastforce
  qed blast
  moreover have "states_advance store store'"
    using s'(3) file_store_invD(3) [OF assms(1)] by (simp add: states_advance_def)
  ultimately show ?thesis by (intro that) (simp_all add: open_state_store_def)
qed

subsection \<open>Runs\<close>

inductive plugin_step :: "plugin_sdk \<Rightarrow> plugin_states \<Rightarrow> plugin_states \<Rightarrow> bool" for sdk where
  prepare: "prepare sdk fault c s = (out, s') \<Longrightarrow> plugin_step sdk s s'"
| commit: "commit sdk fault d s = (out', s') \<Longrightarrow> plugin_step sdk s s'"
| increment_restart: "increment_restart sdk fault k s = (out'', s') \<Longrightarrow> plugin_step sdk s s'"
| restart: "leftovers state_temporary_prefix (fs_files s) dir \<Longrightarrow> open_state_store sdk None None dir = Inr s' \<Longrightarrow> plugin_step sdk s s'"

abbreviation plugin_run :: "plugin_sdk \<Rightarrow> plugin_states \<Rightarrow> plugin_states \<Rightarrow> bool" where
  "plugin_run sdk \<equiv> (plugin_step sdk)\<^sup>*\<^sup>*"

lemma plugin_step_advances:
  assumes "plugin_step sdk s s'" and "plugin_sdk_ok sdk" and "plugin_inv sdk s"
  shows "plugin_inv sdk s' \<and> states_advance s s'"
  using assms(1)
proof (cases rule: plugin_step.cases)
  case (prepare fault c out)
  from prepare_step [OF this assms(2,3)] show ?thesis .
next
  case (commit fault d out')
  from commit_step [OF this assms(2,3)] show ?thesis by blast
next
  case (increment_restart fault k out'')
  from increment_restart_step [OF this assms(2,3)] show ?thesis .
next
  case (restart dir)
  then show ?thesis using open_state_store_reads [OF assms(3) restart(1)] by (metis sum.inject(2))
qed

interpretation plugin_states: stepping "plugin_step sdk" "\<lambda>s. plugin_sdk_ok sdk \<and> plugin_inv sdk s" states_advance for sdk
  by unfold_locales (use plugin_step_advances states_advance_trans in \<open>blast | simp\<close>)+

lemma plugin_run_advances:
  "plugin_run sdk s s' \<Longrightarrow> plugin_sdk_ok sdk \<Longrightarrow> plugin_inv sdk s \<Longrightarrow> plugin_inv sdk s' \<and> states_advance s s'"
  using plugin_states.run_keeps by blast

end
