(* ===== verification/PluginProperties.thy ===== *)
theory PluginProperties
  imports PluginState
begin

section \<open>The properties of the plugin state\<close>

text \<open>
  The sample SDK knows the states of one plugin that a request makes pending and that a commit makes current.
\<close>

definition demo_release :: artifact_state where
  "demo_release = \<lparr>as_size = 7, as_sha256 = ''abc''\<rparr>"

definition demo_reconcile :: reconcile_command where
  "demo_reconcile = \<lparr>rc_plugin_id = ''p'', rc_generation = 3, rc_desired_state = ModeRunning, rc_version = ''1.0'',
     rc_artifact = Some \<lparr>pa_download_url = ''https://github.com/a'', pa_size = 7, pa_sha256 = ''abc''\<rparr>, rc_configuration = ''{}''\<rparr>"

definition demo_wanted :: desired_state where
  "demo_wanted = \<lparr>de_plugin_id = ''p'', de_generation = 3, de_state = ModeRunning, de_version = ''1.0'',
     de_artifact = Some demo_release, de_download_url = ''https://github.com/a'', de_configuration = ''{}'',
     de_configuration_sha256 = ''d''\<rparr>"

definition demo_requested :: plugin_state where
  "demo_requested = (empty_plugin_state ''p'')\<lparr>pg_last_generation := 3, pg_pending := Some demo_wanted\<rparr>"

definition demo_installed :: plugin_state where
  "demo_installed = (empty_plugin_state ''p'')\<lparr>pg_last_generation := 3, pg_current := Some (revision_of demo_wanted)\<rparr>"

definition demo_plugin_sdk :: plugin_sdk where
  "demo_plugin_sdk =
     \<lparr>pk_valid_command = (\<lambda>_. True), pk_compact_json = Some, pk_configuration_digest = (\<lambda>_. Some ''d''),
      pk_valid_plugin_id = (\<lambda>k. k = ''p''),
      pk_marshal_state = (\<lambda>s. if s = demo_requested then Some ''R'' else if s = demo_installed then Some ''I'' else None),
      pk_unmarshal_state = (\<lambda>raw. if raw = ''R'' @ [CHR 0x0A] then Some demo_requested
                                 else if raw = ''I'' @ [CHR 0x0A] then Some demo_installed else None)\<rparr>"

definition demo_no_plugins :: plugin_states where
  "demo_no_plugins = \<lparr>fs_files = [], fs_records = []\<rparr>"

definition demo_with_request :: plugin_states where
  "demo_with_request = \<lparr>fs_files = [(''p.json'', private_file (''R'' @ [CHR 0x0A]))], fs_records = [(''p'', demo_requested)]\<rparr>"

definition demo_with_plugin :: plugin_states where
  "demo_with_plugin = \<lparr>fs_files = [(''p.json'', private_file (''I'' @ [CHR 0x0A]))], fs_records = [(''p'', demo_installed)]\<rparr>"

lemma demo_states_differ: "demo_requested \<noteq> demo_installed"
  by (simp add: demo_requested_def demo_installed_def empty_plugin_state_def)

lemma demo_plugin_sdk_ok: "plugin_sdk_ok demo_plugin_sdk"
  unfolding plugin_sdk_ok_def
  by (auto simp: demo_plugin_sdk_def state_temporary_prefix_def record_file_def split: if_splits)

lemma demo_marshal_state:
  "pk_marshal_state demo_plugin_sdk demo_requested = Some ''R''" "pk_marshal_state demo_plugin_sdk demo_installed = Some ''I''"
  using demo_states_differ by (auto simp: demo_plugin_sdk_def)

lemma demo_normalize: "normalize_desired demo_plugin_sdk demo_reconcile = Inr demo_wanted"
  by (simp add: normalize_desired_def demo_plugin_sdk_def demo_reconcile_def demo_wanted_def demo_release_def Let_def)

lemma demo_states_valid: "valid_plugin_state demo_plugin_sdk demo_requested" "valid_plugin_state demo_plugin_sdk demo_installed"
  by (simp_all add: valid_plugin_state_def demo_requested_def demo_installed_def empty_plugin_state_def demo_plugin_sdk_def
      valid_revision_def valid_pending_def demo_wanted_def revision_of_def demo_release_def digest_or_empty_def)

lemma demo_encode:
  "encode_state demo_plugin_sdk demo_requested = Inr (''R'' @ [CHR 0x0A])" "encode_state demo_plugin_sdk demo_installed = Inr (''I'' @ [CHR 0x0A])"
  using demo_states_valid demo_marshal_state by (simp_all add: encode_state_def maximum_state_bytes_def)

lemma demo_prepare: "prepare demo_plugin_sdk None demo_reconcile demo_no_plugins = (Inr (demo_wanted, None, False), demo_with_request)"
proof -
  have s: "prepare_state (rc_plugin_id demo_reconcile) demo_no_plugins = empty_plugin_state ''p''"
    by (simp add: prepare_state_def demo_no_plugins_def demo_reconcile_def)
  have id: "pg_plugin_id demo_requested = ''p''" by (simp add: demo_requested_def empty_plugin_state_def)
  have "write_state demo_plugin_sdk None demo_requested demo_no_plugins = (Inr (), demo_with_request)"
    by (simp add: write_state_def demo_encode id replace_record_def replace_file_def demo_no_plugins_def demo_with_request_def
        bucket_put.simps record_file_def)
  then show ?thesis
    unfolding prepare_def demo_normalize sum.case s Let_def
    by (simp add: demo_requested_def [symmetric] demo_wanted_def [symmetric]) (simp add: demo_requested_def demo_wanted_def empty_plugin_state_def)
qed

lemma demo_commit: "commit demo_plugin_sdk None demo_wanted demo_with_request = (Inr (revision_of demo_wanted), demo_with_plugin)"
proof -
  have c: "committed_state demo_wanted demo_requested = demo_installed"
    by (simp add: committed_state_def demo_requested_def demo_installed_def empty_plugin_state_def demo_wanted_def Let_def)
  have id: "pg_plugin_id demo_installed = ''p''" by (simp add: demo_installed_def empty_plugin_state_def)
  have w: "write_state demo_plugin_sdk None demo_installed demo_with_request = (Inr (), demo_with_plugin)"
    by (simp add: write_state_def demo_encode id replace_record_def replace_file_def demo_with_request_def demo_with_plugin_def
        bucket_put.simps record_file_def)
  have "bucket_get (fs_records demo_with_request) (de_plugin_id demo_wanted) = Some demo_requested"
    by (simp add: demo_with_request_def bucket_get_def demo_wanted_def)
  moreover have "pg_pending demo_requested = Some demo_wanted" "pg_last_generation demo_requested = de_generation demo_wanted"
    by (simp_all add: demo_requested_def demo_wanted_def)
  moreover have "same_desired demo_wanted demo_wanted"
    by (simp add: same_desired_def same_revision_def same_artifact_def split: option.splits)
  ultimately show ?thesis by (simp add: commit_def c w)
qed

lemma demo_plugin_inv: "plugin_inv demo_plugin_sdk demo_no_plugins" "plugin_inv demo_plugin_sdk demo_with_request"
proof -
  show no: "plugin_inv demo_plugin_sdk demo_no_plugins"
    by (simp add: file_store_inv_def files_ok_def demo_no_plugins_def)
  show "plugin_inv demo_plugin_sdk demo_with_request"
    using prepare_step [OF demo_prepare demo_plugin_sdk_ok no] by blast
qed

lemma demo_leftovers:
  "leftovers state_temporary_prefix (fs_files demo_with_request) ((''.plugin-state-9'', private_file []) # fs_files demo_with_request)"
  "leftovers state_temporary_prefix (fs_files demo_with_plugin) (fs_files demo_with_plugin)"
  by (simp_all add: leftovers_def demo_with_request_def demo_with_plugin_def is_temporary_def state_temporary_prefix_def bucket_ok_def)

text \<open>C17. Generations never go back: once a plugin was seen at some generation, then after every run of requests, commits, counted
  crashes, storage faults and restarts of the agent its generation and that of its current revision are at least as high, and a request
  with a lower generation is refused as stale without any change.\<close>

theorem stale_requests_always_refused:
  assumes "plugin_sdk_ok sdk" and "plugin_inv sdk s" and "plugin_run sdk s s'"
    and "bucket_get (fs_records s) (rc_plugin_id c) = Some p"
    and "normalize_desired sdk c = Inr d" and "de_generation d < pg_last_generation p"
  shows "prepare sdk fault c s' = (Inl StaleGeneration, s') \<and>
    (\<exists>p'. bucket_get (fs_records s') (rc_plugin_id c) = Some p' \<and> state_advances p p')"
proof -
  have run: "plugin_inv sdk s'" "states_advance s s'" using plugin_run_advances [OF assms(3,1,2)] by auto
  then obtain p' where p': "bucket_get (fs_records s') (rc_plugin_id c) = Some p'" "state_advances p p'"
    using assms(4) by (auto simp: states_advance_def)
  have "prepare_state (rc_plugin_id c) s' = p'" by (rule prepare_state_known [OF run(1) p'(1)])
  moreover have "de_generation d < pg_last_generation p'" using p'(2) assms(6) by (auto simp: state_advances_def)
  ultimately show ?thesis using assms(5) p' by (simp add: prepare_def Let_def)
qed

theorem stale_requests_always_refused_witness:
  "prepare demo_plugin_sdk None (demo_reconcile\<lparr>rc_generation := 2\<rparr>) demo_with_plugin = (Inl StaleGeneration, demo_with_plugin) \<and>
    (\<exists>p'. bucket_get (fs_records demo_with_plugin) ''p'' = Some p' \<and> state_advances demo_requested p')"
proof -
  have run: "plugin_run demo_plugin_sdk demo_with_request demo_with_plugin"
    using plugin_step.commit [OF demo_commit] by blast
  have "normalize_desired demo_plugin_sdk (demo_reconcile\<lparr>rc_generation := 2\<rparr>) = Inr (demo_wanted\<lparr>de_generation := 2\<rparr>)"
    by (simp add: normalize_desired_def demo_plugin_sdk_def demo_reconcile_def demo_wanted_def demo_release_def Let_def)
  moreover have "bucket_get (fs_records demo_with_request) (rc_plugin_id (demo_reconcile\<lparr>rc_generation := 2\<rparr>)) = Some demo_requested"
    by (simp add: demo_with_request_def bucket_get_def demo_reconcile_def)
  ultimately show ?thesis
    using stale_requests_always_refused [OF demo_plugin_sdk_ok demo_plugin_inv(2) run, of "demo_reconcile\<lparr>rc_generation := 2\<rparr>" demo_requested
        "demo_wanted\<lparr>de_generation := 2\<rparr>" None]
    by (simp add: demo_requested_def demo_reconcile_def word_less_nat_alt)
qed

text \<open>A request is durable before it is acted on: when \<open>prepare\<close> accepts a new generation, a crash right after it leaves a
  store that opens with this request pending and still knows the current revision.\<close>

theorem accepted_request_is_durable:
  assumes "plugin_sdk_ok sdk" and "plugin_inv sdk s" and "prepare sdk fault c s = (Inr (d, current, False), s')"
    and "pg_last_generation (prepare_state (rc_plugin_id c) s) < rc_generation c"
    and "leftovers state_temporary_prefix (fs_files s') dir"
  shows "\<exists>s2 p. open_state_store sdk None None dir = Inr s2 \<and> bucket_get (fs_records s2) (rc_plugin_id c) = Some p \<and>
    pg_pending p = Some d \<and> pg_last_generation p = rc_generation c \<and> pg_current p = current"
  using assms(3,2)
proof (cases rule: prepare_cases)
  case (again d' q p)
  with assms(4) prepare_state_known [OF assms(2) again(2)] normalize_desired_Inr [OF again(1)] show ?thesis by simp
next
  case (new d' q)
  let ?q = "q\<lparr>pg_last_generation := de_generation d', pg_pending := Some d'\<rparr>"
  have w: "write_state sdk fault ?q s = (Inr (), s')" and d': "d' = d" "current = pg_current q" using new(4) by auto
  have id: "pg_plugin_id q = rc_plugin_id c" unfolding new(2) by (rule prepare_state_id [OF assms(2)])
  have later: "state_advances old ?q" if "bucket_get (fs_records s) (pg_plugin_id ?q) = Some old" for old
    using prepare_state_known [OF assms(2)] that id new(2,3) by (auto simp: state_advances_def split: option.splits)
  note step = write_state_step [OF w assms(1,2) later]
  have inv': "plugin_inv sdk s'" using step by blast
  obtain s2 where s2: "open_state_store sdk None None dir = Inr s2" "\<And>k. bucket_get (fs_records s2) k = state_on_disk sdk (fs_files s') k"
    by (rule open_state_store_reads [OF inv' assms(5)]) blast
  moreover have "state_on_disk sdk (fs_files s') (rc_plugin_id c) = Some ?q" using step id by simp
  ultimately show ?thesis using d' normalize_desired_Inr [OF new(1)] by simp
qed (use assms(4) normalize_desired_Inr in auto)

theorem accepted_request_is_durable_witness:
  "\<exists>s2 p. open_state_store demo_plugin_sdk None None ((''.plugin-state-9'', private_file []) # fs_files demo_with_request) = Inr s2 \<and>
    bucket_get (fs_records s2) ''p'' = Some p \<and> pg_pending p = Some demo_wanted \<and> pg_last_generation p = 3 \<and> pg_current p = None"
proof -
  have "pg_last_generation (prepare_state (rc_plugin_id demo_reconcile) demo_no_plugins) < rc_generation demo_reconcile"
    by (simp add: prepare_state_def demo_no_plugins_def demo_reconcile_def empty_plugin_state_def word_less_nat_alt)
  from accepted_request_is_durable [OF demo_plugin_sdk_ok demo_plugin_inv(1) demo_prepare this demo_leftovers(1)] show ?thesis
    by (simp add: demo_reconcile_def)
qed

text \<open>A commit makes exactly the pending request the current revision, durably: the store that is opened after a crash has it as
  current, nothing pending and no counted restarts; the revision it replaces is kept as the previous one, unless it was absent, the
  same, or the plugin is now to be absent.\<close>

theorem commit_is_durable:
  assumes "plugin_sdk_ok sdk" and "plugin_inv sdk s" and "commit sdk fault d s = (Inr v, s')"
    and "bucket_get (fs_records s) (de_plugin_id d) = Some p" and "leftovers state_temporary_prefix (fs_files s') dir"
  shows "\<exists>s2 p'. open_state_store sdk None None dir = Inr s2 \<and> bucket_get (fs_records s2) (de_plugin_id d) = Some p' \<and>
    bucket_get (fs_records s') (de_plugin_id d) = Some p' \<and> v = revision_of d \<and>
    pg_current p' = Some v \<and> pg_pending p' = None \<and> pg_restart_count p' = 0 \<and> pg_last_generation p' = pg_last_generation p \<and>
    pg_previous p' = (if de_state d = ModeAbsent then None
      else case pg_current p of None \<Rightarrow> pg_previous p
        | Some c \<Rightarrow> if vn_state c \<noteq> ModeAbsent \<and> \<not> same_revision c v then Some c else pg_previous p)"
proof -
  note step = commit_step [OF assms(3,1,2)]
  then have inv': "plugin_inv sdk s'" by blast
  obtain s2 where s2: "open_state_store sdk None None dir = Inr s2" "\<And>k. bucket_get (fs_records s2) k = state_on_disk sdk (fs_files s') k"
    by (rule open_state_store_reads [OF inv' assms(5)]) blast
  have "v = revision_of d" "bucket_get (fs_records s') (de_plugin_id d) = Some (committed_state d p)"
    "state_on_disk sdk (fs_files s') (de_plugin_id d) = Some (committed_state d p)" using step assms(4) by auto
  with s2 show ?thesis
    by (intro exI [of _ s2] exI [of _ "committed_state d p"]) (simp add: committed_state_fields committed_previous cong: option.case_cong)
qed

theorem commit_is_durable_witness:
  "\<exists>s2 p'. open_state_store demo_plugin_sdk None None (fs_files demo_with_plugin) = Inr s2 \<and> bucket_get (fs_records s2) ''p'' = Some p' \<and>
    pg_current p' = Some (revision_of demo_wanted) \<and> pg_pending p' = None"
proof -
  have "bucket_get (fs_records demo_with_request) (de_plugin_id demo_wanted) = Some demo_requested"
    by (simp add: demo_with_request_def bucket_get_def demo_wanted_def)
  from commit_is_durable [OF demo_plugin_sdk_ok demo_plugin_inv(2) demo_commit this demo_leftovers(2)] show ?thesis
    by (auto simp: demo_wanted_def)
qed

end
