(* ===== verification/Urls.thy ===== *)
theory Urls
  imports Filepath
begin

section \<open>Parsed URLs and small text functions\<close>

text \<open>
  What the agent looks at in a URL that Go's \<^verbatim>\<open>net/url\<close> has parsed. The parser itself is a parameter where it is used: a function
  from the text to an optional \<open>parsed_url\<close>, with no assumption about it.
\<close>

record parsed_url =
  pu_scheme :: string
  pu_has_user :: bool
  pu_host :: string
  pu_hostname :: string
  pu_port :: string
  pu_raw_query :: string
  pu_fragment :: string

abbreviation https :: string where "https \<equiv> ''https''"

text \<open>\<^verbatim>\<open>strings.ToLower\<close> on ASCII text, which host names are.\<close>

definition lower_char :: "char \<Rightarrow> char" where
  "lower_char c = (if 65 \<le> (of_char c :: nat) \<and> (of_char c :: nat) \<le> 90 then char_of ((of_char c :: nat) + 32) else c)"

definition to_lower :: "string \<Rightarrow> string" where
  "to_lower s = map lower_char s"

definition count_char :: "char \<Rightarrow> string \<Rightarrow> nat" where
  "count_char c s = length (filter (\<lambda>x. x = c) s)"

text \<open>\<^verbatim>\<open>strings.TrimRight(s, "/")\<close>\<close>

definition trim_right :: "char \<Rightarrow> string \<Rightarrow> string" where
  "trim_right c s = rev (dropWhile (\<lambda>x. x = c) (rev s))"

subsection \<open>Relative paths\<close>

text \<open>\<^verbatim>\<open>filepath.Rel\<close> of two absolute clean paths.\<close>

definition path_components :: "string \<Rightarrow> string list" where
  "path_components p = filter (\<lambda>c. c \<noteq> []) (split_on slash p)"

fun strip_common :: "string list \<Rightarrow> string list \<Rightarrow> string list \<times> string list" where
  "strip_common (x # xs) (y # ys) = (if x = y then strip_common xs ys else (x # xs, y # ys))"
| "strip_common xs ys = (xs, ys)"

definition path_rel :: "string \<Rightarrow> string \<Rightarrow> string" where
  "path_rel base target =
     (case strip_common (path_components base) (path_components target) of
        (b, t) \<Rightarrow> if b = [] \<and> t = [] then [dot] else join_with [slash] (replicate (length b) [dot, dot] @ t))"

lemma strip_common_prefix: "strip_common xs ys = (b, t) \<Longrightarrow> \<exists>p. xs = p @ b \<and> ys = p @ t"
proof (induction xs ys rule: strip_common.induct)
  case (1 x xs y ys)
  then show ?case by (cases "x = y") (auto intro: exI [of _ "x # _"])
qed auto

lemma join_with_cons: "xs \<noteq> [] \<Longrightarrow> join_with sep (x # xs) = x @ sep @ join_with sep xs"
  by (cases xs) simp_all

text \<open>A relative path that is neither \<^verbatim>\<open>..\<close> nor starts with \<^verbatim>\<open>../\<close> leads to something inside the base.\<close>

lemma path_rel_inside:
  assumes "path_rel base target \<noteq> [dot, dot]" and "\<not> prefix [dot, dot, slash] (path_rel base target)"
  shows "\<exists>t. path_components target = path_components base @ t"
proof -
  obtain b t where s: "strip_common (path_components base) (path_components target) = (b, t)" by force
  have "b = []"
  proof (rule ccontr)
    assume "b \<noteq> []"
    then obtain n where n: "replicate (length b) [dot, dot] @ t = [dot, dot] # (replicate n [dot, dot] @ t)"
      by (cases b) auto
    let ?rest = "replicate n [dot, dot] @ t"
    have rel: "path_rel base target = join_with [slash] ([dot, dot] # ?rest)"
      using s \<open>b \<noteq> []\<close> n by (simp add: path_rel_def)
    show False
    proof (cases "?rest = []")
      case True
      then have "path_rel base target = [dot, dot]" unfolding rel True by simp
      with assms(1) show False by simp
    next
      case False
      then have "path_rel base target = [dot, dot, slash] @ join_with [slash] ?rest"
        unfolding rel by (subst join_with_cons) simp_all
      with assms(2) show False by (metis prefixI)
    qed
  qed
  with strip_common_prefix [OF s] show ?thesis by auto
qed

end
