(* ===== verification/UpdateManager.thy ===== *)
theory UpdateManager
  imports Files Download Urls
begin

section \<open>Self-update of the agent (internal/update/manager.go, manifest.go)\<close>

text \<open>
  An update downloads a release into a directory of its own, records what it is about to do in a pending state file and
  switches the symbolic link \<^verbatim>\<open>current\<close>. The new version confirms itself, or the launcher of the agent switches back.

  The disk is a record of the state files, the two links and the version directories. Every call that changes it is one \<open>disk_step\<close>: the
  operating system may refuse it, may report an error although it took effect, or the process may die before or after
  it; after a death nothing more is done. The release server, JSON, SHA-256, the SDK's checks, running a candidate binary and resolving
  symbolic links are parameters.
\<close>

subsection \<open>Data\<close>

record release_artifact =
  ra_file :: string
  ra_os :: string
  ra_arch :: string
  ra_size :: int
  ra_sha256 :: string

record manifest =
  mf_api_version :: string
  mf_version :: string
  mf_published_at :: time
  mf_runtime_assets_sha256 :: string
  mf_artifact :: release_artifact

record update_state =
  us_api_version :: string
  us_command_id :: string
  us_previous_target :: string
  us_target_target :: string
  us_target_version :: string
  us_started_at :: time

record preparation =
  pp_version :: string
  pp_restart :: bool
  pp_activated :: bool

record version_dir =
  vd_directory :: bool
  vd_binary :: "local_file option"
  vd_partial :: "local_file option"
  vd_modified :: time

record update_disk =
  ud_states :: directory
  ud_current :: "string option"
  ud_previous :: "string option"
  ud_versions :: "version_dir bucket"

datatype marker = MarkerMissing | MarkerUnreadable | MarkerContent string

record update_sdk =
  uk_valid_key :: "string \<Rightarrow> bool"
  uk_valid_version :: "string \<Rightarrow> bool"
  uk_marshal_state :: "update_state \<Rightarrow> string option"
  uk_unmarshal_state :: "string \<Rightarrow> update_state option"
  uk_unmarshal_manifest :: "string \<Rightarrow> manifest option"
  uk_sha256 :: "string \<Rightarrow> string"
  uk_parse_url :: "string \<Rightarrow> parsed_url option"
  uk_candidate_version :: "string \<Rightarrow> string option"
  uk_resolve :: "string \<Rightarrow> string option"

record manager =
  um_state_directory :: string
  um_marker_path :: string
  um_base_url :: string
  um_repository :: string
  um_allow_insecure :: bool
  um_client :: http_client

datatype disk_write =
    CreateVersions | CreateVersionDir | ActivateBinary | SyncBinary | RemoveVersion string | SyncVersions
  | RemoveState string | SyncStates | WriteState string | RemoveLinkTemporary string | CreateLink string | RenameLink string | SyncLink string
  | RenamePending

datatype update_error =
    StateNotExist | StateFileInvalid | StateUndecodable | StateContentInvalid | ManagerInvalid | CommandIDInvalid | VersionInvalid | StateNotFound | ActivationPending
  | ActivationFailed | ActivationTimeout | StateConflict | VersionMismatch | LinkMissing | TargetMismatch | TargetInvalid | TargetUnresolved | TargetOutside
  | RequestInvalid | ReleaseUnavailable | ReleaseHTTP int | ReleaseInsecure | ReleaseTooLarge | ReleaseReadFailed | ManifestUndecodable | ManifestInvalid
  | ManifestVersionMismatch | AssetsNotRegistered | AssetsUnreadable | AssetsMismatch | ExistingInvalid | ExistingUnreadable | ExistingChecksum | CandidateFailed
  | CandidateVersionMismatch | DownloadFailed download_error | AnotherPending | EncodeStateFailed | DiskFailed disk_write | ProcessDied | WaitFailed

definition maximum_manifest_bytes :: nat where "maximum_manifest_bytes = 64 * 2 ^ 10"
definition maximum_binary_bytes :: nat where "maximum_binary_bytes = 64 * 2 ^ 20"
definition health_timeout :: int where "health_timeout = 120 * second"
definition retained_versions :: nat where "retained_versions = 3"
definition pending_filename :: string where "pending_filename = ''update-pending.json''"
definition confirmed_filename :: string where "confirmed_filename = ''update-confirmed.json''"
definition failed_filename :: string where "failed_filename = ''update-failed.json''"
definition update_state_api_version :: string where "update_state_api_version = ''relayward.agent-update/v1''"
definition maximum_update_state_bytes :: nat where "maximum_update_state_bytes = 16 * 2 ^ 10"
definition manifest_api_version :: string where "manifest_api_version = ''relayward.agent-release/v1''"
definition binary_asset_name :: string where "binary_asset_name = ''relayward-agent-linux-amd64''"
definition manifest_asset_name :: string where "manifest_asset_name = ''relayward-agent-manifest.json''"
definition binary_name :: string where "binary_name = ''relayward-agent''"

subsection \<open>Steps on the disk\<close>

datatype disk_fault = Refused | LateError | DiedBefore | DiedAfter

definition disk_step ::
    "(disk_write \<Rightarrow> disk_fault option) \<Rightarrow> disk_write \<Rightarrow> ('d \<Rightarrow> 'd) \<Rightarrow> 'd \<Rightarrow> (update_error + unit) \<times> 'd" where
  "disk_step faults w change d =
     (case faults w of
        None \<Rightarrow> (Inr (), change d)
      | Some Refused \<Rightarrow> (Inl (DiskFailed w), d)
      | Some LateError \<Rightarrow> (Inl (DiskFailed w), change d)
      | Some DiedBefore \<Rightarrow> (Inl ProcessDied, d)
      | Some DiedAfter \<Rightarrow> (Inl ProcessDied, change d))"

definition then_step :: "(update_error + 'a) \<times> 'd \<Rightarrow> ('a \<Rightarrow> 'd \<Rightarrow> (update_error + 'b) \<times> 'd) \<Rightarrow> (update_error + 'b) \<times> 'd" where
  "then_step m f = (case m of (Inl e, d) \<Rightarrow> (Inl e, d) | (Inr x, d) \<Rightarrow> f x d)"

text \<open>\<^verbatim>\<open>atomicSymlink\<close>: \<open>place\<close> puts the link in place.\<close>

definition atomic_symlink ::
    "(disk_write \<Rightarrow> disk_fault option) \<Rightarrow> string \<Rightarrow> ('d \<Rightarrow> 'd) \<Rightarrow> 'd \<Rightarrow> (update_error + unit) \<times> 'd" where
  "atomic_symlink faults link place d =
     then_step (disk_step faults (RemoveLinkTemporary link) (\<lambda>d. d) d) (\<lambda>_ d.
     then_step (disk_step faults (CreateLink link) (\<lambda>d. d) d) (\<lambda>_ d.
     then_step (disk_step faults (RenameLink link) place d) (\<lambda>_ d.
       disk_step faults (SyncLink link) (\<lambda>d. d) d)))"

definition write_json_atomic ::
    "update_sdk \<Rightarrow> (disk_write \<Rightarrow> disk_fault option) \<Rightarrow> string \<Rightarrow> update_state \<Rightarrow> update_disk \<Rightarrow> (update_error + unit) \<times> update_disk" where
  "write_json_atomic sdk faults filename s d =
     (case uk_marshal_state sdk s of
        None \<Rightarrow> (Inl EncodeStateFailed, d)
      | Some raw \<Rightarrow>
          disk_step faults (WriteState filename)
            (\<lambda>d. d\<lparr>ud_states := bucket_put filename (private_file (raw @ [CHR 0x0A])) (ud_states d)\<rparr>) d)"

subsection \<open>Manifests\<close>

definition validate_manifest :: "update_sdk \<Rightarrow> manifest \<Rightarrow> bool" where
  "validate_manifest sdk m \<longleftrightarrow>
     mf_api_version m = manifest_api_version \<and> uk_valid_version sdk (mf_version m) \<and> \<not> time_is_zero (mf_published_at m) \<and>
     valid_sha256 (mf_runtime_assets_sha256 m) \<and>
     ra_file (mf_artifact m) = binary_asset_name \<and> ra_os (mf_artifact m) = ''linux'' \<and> ra_arch (mf_artifact m) = ''amd64'' \<and>
     0 < ra_size (mf_artifact m) \<and> ra_size (mf_artifact m) \<le> int maximum_binary_bytes \<and> valid_sha256 (ra_sha256 (mf_artifact m))"

definition decode_manifest :: "update_sdk \<Rightarrow> string \<Rightarrow> update_error + manifest" where
  "decode_manifest sdk raw =
     (case uk_unmarshal_manifest sdk raw of
        None \<Rightarrow> Inl ManifestUndecodable
      | Some m \<Rightarrow> if validate_manifest sdk m then Inr m else Inl ManifestInvalid)"

subsection \<open>States and targets\<close>

definition validate_target :: "string \<Rightarrow> bool" where
  "validate_target target \<longleftrightarrow>
     target \<noteq> [] \<and> \<not> path_is_abs target \<and> path_clean target = target \<and>
     (case split_on slash target of
        [a, b, c] \<Rightarrow> a = ''versions'' \<and> b \<noteq> [] \<and> c = binary_name
      | _ \<Rightarrow> False)"

definition validate_state :: "update_sdk \<Rightarrow> update_state \<Rightarrow> bool" where
  "validate_state sdk s \<longleftrightarrow>
     us_api_version s = update_state_api_version \<and> uk_valid_key sdk (us_command_id s) \<and> uk_valid_version sdk (us_target_version s) \<and>
     validate_target (us_previous_target s) \<and> validate_target (us_target_target s) \<and> \<not> time_is_zero (us_started_at s)"

definition read_state :: "update_sdk \<Rightarrow> string \<Rightarrow> update_disk \<Rightarrow> update_error + update_state" where
  "read_state sdk filename d =
     (case bucket_get (ud_states d) filename of
        None \<Rightarrow> Inl StateNotExist
      | Some f \<Rightarrow>
          if \<not> fe_regular f \<or> \<not> fe_private f \<or> maximum_update_state_bytes < length (fe_content f) then Inl StateFileInvalid
          else case uk_unmarshal_state sdk (fe_content f) of
            None \<Rightarrow> Inl StateUndecodable
          | Some s \<Rightarrow> if validate_state sdk s then Inr s else Inl StateContentInvalid)"

definition remove_state :: "(disk_write \<Rightarrow> disk_fault option) \<Rightarrow> string \<Rightarrow> update_disk \<Rightarrow> (update_error + unit) \<times> update_disk" where
  "remove_state faults filename d =
     disk_step faults (RemoveState filename) (\<lambda>d. d\<lparr>ud_states := bucket_delete filename (ud_states d)\<rparr>) d"

definition remove_terminal_states :: "(disk_write \<Rightarrow> disk_fault option) \<Rightarrow> update_disk \<Rightarrow> (update_error + unit) \<times> update_disk" where
  "remove_terminal_states faults d =
     then_step (remove_state faults confirmed_filename d) (\<lambda>_ d.
     then_step (remove_state faults failed_filename d) (\<lambda>_ d.
       disk_step faults SyncStates (\<lambda>d. d) d))"

definition replace_state ::
    "update_sdk \<Rightarrow> (disk_write \<Rightarrow> disk_fault option) \<Rightarrow> string \<Rightarrow> update_state \<Rightarrow> update_disk \<Rightarrow> (update_error + unit) \<times> update_disk" where
  "replace_state sdk faults filename s d =
     then_step (remove_terminal_states faults d) (\<lambda>_ d. write_json_atomic sdk faults filename s d)"

definition validate_managed_target :: "update_sdk \<Rightarrow> manager \<Rightarrow> string \<Rightarrow> update_error + unit" where
  "validate_managed_target sdk m target =
     (case uk_resolve sdk (path_join (um_state_directory m) target) of
        None \<Rightarrow> Inl TargetUnresolved
      | Some resolved \<Rightarrow>
          let relative = path_rel (path_join (um_state_directory m) ''versions'') resolved
          in if relative = [dot, dot] \<or> prefix [dot, dot, slash] relative then Inl TargetOutside else Inr ())"

subsection \<open>Observing, confirming, waiting\<close>

text \<open>The three state files in the order they are looked at; a state of another update only matters while it is pending.\<close>

fun observe_files :: "update_sdk \<Rightarrow> string \<Rightarrow> string \<Rightarrow> string \<Rightarrow> (string \<times> update_error option) list \<Rightarrow> update_disk \<Rightarrow> update_error option" where
  "observe_files sdk command_id version running [] d = Some StateNotFound"
| "observe_files sdk command_id version running ((name, outcome) # rest) d =
     (case read_state sdk name d of
        Inl e \<Rightarrow> if e = StateNotExist then observe_files sdk command_id version running rest d else Some e
      | Inr s \<Rightarrow>
          if us_command_id s \<noteq> command_id \<or> us_target_version s \<noteq> version then
            (if name = pending_filename then Some StateConflict else observe_files sdk command_id version running rest d)
          else if name = pending_filename \<and> running \<noteq> version then Some ActivationPending
          else outcome)"

definition observe :: "update_sdk \<Rightarrow> string \<Rightarrow> string \<Rightarrow> string \<Rightarrow> update_disk \<Rightarrow> update_error option" where
  "observe sdk command_id version running d =
     observe_files sdk command_id version running
       [(pending_filename, Some ActivationPending), (confirmed_filename, None), (failed_filename, Some ActivationFailed)] d"

definition confirm ::
    "update_sdk \<Rightarrow> (disk_write \<Rightarrow> disk_fault option) \<Rightarrow> string \<Rightarrow> update_disk \<Rightarrow> (update_error + bool) \<times> update_disk" where
  "confirm sdk faults running d =
     (case read_state sdk pending_filename d of
        Inl e \<Rightarrow> if e = StateNotExist then (Inr False, d) else (Inl e, d)
      | Inr pending \<Rightarrow>
          if us_target_version pending \<noteq> running then (Inl VersionMismatch, d)
          else case ud_current d of
            None \<Rightarrow> (Inl LinkMissing, d)
          | Some current \<Rightarrow>
              if current \<noteq> us_target_target pending then (Inl TargetMismatch, d)
              else
                then_step (disk_step faults RenamePending (\<lambda>d.
                    case bucket_get (ud_states d) pending_filename of
                      None \<Rightarrow> d
                    | Some f \<Rightarrow> d\<lparr>ud_states := bucket_put confirmed_filename f (bucket_delete pending_filename (ud_states d))\<rparr>) d)
                  (\<lambda>_ d. then_step (disk_step faults SyncStates (\<lambda>d. d) d) (\<lambda>_ d. (Inr True, d))))"

text \<open>The loop of \<^verbatim>\<open>AwaitActivation\<close>: each element of the list is what the disk is when it is observed, the clock after that, and how
  the wait ended. \<open>None\<close>: still waiting when the list ends.\<close>

datatype wait_end = WaitOver | ParentDone | DeadlineExceeded | WaitError

fun await_loop ::
    "update_sdk \<Rightarrow> update_state \<Rightarrow> string \<Rightarrow> time \<Rightarrow> (update_disk \<times> time \<times> wait_end) list \<Rightarrow> (update_error + unit) option" where
  "await_loop sdk pending running deadline [] = None"
| "await_loop sdk pending running deadline ((d, now, wait_end) # rest) =
     (case observe sdk (us_command_id pending) (us_target_version pending) running d of
        None \<Rightarrow> Some (Inr ())
      | Some e \<Rightarrow>
          if e \<noteq> ActivationPending then Some (Inl e)
          else if \<not> now < deadline then Some (Inl ActivationTimeout)
          else (case wait_end of
             WaitOver \<Rightarrow> await_loop sdk pending running deadline rest
           | ParentDone \<Rightarrow> Some (Inr ())
           | DeadlineExceeded \<Rightarrow> Some (Inl ActivationTimeout)
           | WaitError \<Rightarrow> Some (Inl WaitFailed)))"

definition await_activation ::
    "update_sdk \<Rightarrow> manager \<Rightarrow> string \<Rightarrow> update_disk \<Rightarrow> (update_disk \<times> time \<times> wait_end) list \<Rightarrow> (update_error + unit) option" where
  "await_activation sdk m running d rounds =
     (case read_state sdk pending_filename d of
        Inl e \<Rightarrow> Some (if e = StateNotExist then Inr () else Inl e)
      | Inr pending \<Rightarrow>
          if us_target_version pending \<noteq> running then Some (Inl VersionMismatch)
          else case ud_current d of
            None \<Rightarrow> Some (Inl LinkMissing)
          | Some current \<Rightarrow>
              if current \<noteq> us_target_target pending then Some (Inl TargetMismatch)
              else case validate_managed_target sdk m current of
                Inl e \<Rightarrow> Some (Inl e)
              | Inr _ \<Rightarrow> await_loop sdk pending running (us_started_at pending + health_timeout) rounds)"

subsection \<open>Downloading a release\<close>

definition release_url :: "manager \<Rightarrow> string \<Rightarrow> string \<Rightarrow> string" where
  "release_url m version asset = um_base_url m @ ''/'' @ um_repository m @ ''/releases/download/v'' @ version @ ''/'' @ asset"

definition reply_is_secure :: "update_sdk \<Rightarrow> manager \<Rightarrow> http_reply \<Rightarrow> bool" where
  "reply_is_secure sdk m reply \<longleftrightarrow>
     um_allow_insecure m \<or> (case uk_parse_url sdk (rp_url reply) of None \<Rightarrow> False | Some u \<Rightarrow> pu_scheme u = https)"

definition download_bytes :: "update_sdk \<Rightarrow> manager \<Rightarrow> string \<Rightarrow> nat \<Rightarrow> update_error + string" where
  "download_bytes sdk m target maximum =
     (if \<not> hc_request_ok (um_client m) target then Inl RequestInvalid
      else case hc_do (um_client m) \<lparr>rq_url = target, rq_range = None\<rparr> of
        None \<Rightarrow> Inl ReleaseUnavailable
      | Some reply \<Rightarrow>
          if rp_status reply \<noteq> status_ok then Inl (ReleaseHTTP (rp_status reply))
          else if \<not> reply_is_secure sdk m reply then Inl ReleaseInsecure
          else case copy_body (maximum_binary_bytes + 1) reply of (written, copy_error) \<Rightarrow>
            if maximum < length written then Inl ReleaseTooLarge
            else if copy_error then Inl ReleaseReadFailed
            else Inr written)"

definition download_manifest :: "update_sdk \<Rightarrow> manager \<Rightarrow> string \<Rightarrow> update_error + manifest" where
  "download_manifest sdk m version =
     and_then (download_bytes sdk m (release_url m version manifest_asset_name) maximum_manifest_bytes) (decode_manifest sdk)"

definition verify_runtime_assets :: "marker \<Rightarrow> string \<Rightarrow> update_error + unit" where
  "verify_runtime_assets marker expected =
     (case marker of
        MarkerMissing \<Rightarrow> Inl AssetsNotRegistered
      | MarkerUnreadable \<Rightarrow> Inl AssetsUnreadable
      | MarkerContent raw \<Rightarrow> guard_err (trim_space raw = expected) AssetsMismatch)"

definition release_directory :: "manifest \<Rightarrow> string" where
  "release_directory mf = mf_version mf @ ''-'' @ ra_sha256 (mf_artifact mf)"

definition target_of :: "string \<Rightarrow> string" where
  "target_of name = ''versions/'' @ name @ ''/'' @ binary_name"

definition executable_bits :: "nat \<Rightarrow> bool" where
  "executable_bits mode \<longleftrightarrow> odd mode \<or> odd (mode div 8) \<or> odd (mode div 64)"

definition check_candidate :: "update_sdk \<Rightarrow> string \<Rightarrow> local_file \<Rightarrow> update_error + unit" where
  "check_candidate sdk version f =
     (case uk_candidate_version sdk (lf_content f) of
        None \<Rightarrow> Inl CandidateFailed
      | Some reported \<Rightarrow> guard_err (reported = version) CandidateVersionMismatch)"

definition check_existing :: "update_sdk \<Rightarrow> manifest \<Rightarrow> local_file \<Rightarrow> update_error + unit" where
  "check_existing sdk mf f =
     (if \<not> lf_regular f \<or> \<not> executable_bits (lf_mode f) then Inl ExistingInvalid
      else if maximum_binary_bytes < length (lf_content f) then Inl ExistingUnreadable
      else if uk_sha256 sdk (lf_content f) \<noteq> ra_sha256 (mf_artifact mf) then Inl ExistingChecksum
      else check_candidate sdk (mf_version mf) f)"

definition binary_artifact :: "update_sdk \<Rightarrow> manager \<Rightarrow> manifest \<Rightarrow> artifact" where
  "binary_artifact sdk m mf =
     \<lparr>ar_url = release_url m (mf_version mf) (ra_file (mf_artifact mf)),
      ar_path = path_join (um_state_directory m) (target_of (release_directory mf)) @ ''.partial'',
      ar_size = ra_size (mf_artifact mf), ar_sha256 = ra_sha256 (mf_artifact mf),
      ar_validate_response = reply_is_secure sdk m\<rparr>"

definition update_version :: "string \<Rightarrow> (version_dir \<Rightarrow> version_dir) \<Rightarrow> update_disk \<Rightarrow> update_disk" where
  "update_version name change d =
     (case bucket_get (ud_versions d) name of
        None \<Rightarrow> d
      | Some v \<Rightarrow> d\<lparr>ud_versions := bucket_put name (change v) (ud_versions d)\<rparr>)"

definition create_version :: "string \<Rightarrow> time \<Rightarrow> update_disk \<Rightarrow> update_disk" where
  "create_version name modified d =
     (case bucket_get (ud_versions d) name of
        None \<Rightarrow> d\<lparr>ud_versions := bucket_put name \<lparr>vd_directory = True, vd_binary = None, vd_partial = None, vd_modified = modified\<rparr> (ud_versions d)\<rparr>
      | Some _ \<Rightarrow> d)"

text \<open>\<open>modified\<close> is the modification time that the file system gives the directory.\<close>

definition install_candidate ::
    "update_sdk \<Rightarrow> (disk_write \<Rightarrow> disk_fault option) \<Rightarrow> manifest \<Rightarrow> time \<Rightarrow> local_file \<Rightarrow> update_disk \<Rightarrow> (update_error + string) \<times> update_disk" where
  "install_candidate sdk faults mf modified f d =
     (let name = release_directory mf in
      case check_candidate sdk (mf_version mf) f of
        Inl e \<Rightarrow> (Inl e, d)
      | Inr _ \<Rightarrow>
          then_step (disk_step faults ActivateBinary
              (update_version name (\<lambda>v. v\<lparr>vd_binary := Some f, vd_partial := None, vd_modified := modified\<rparr>)) d) (\<lambda>_ d.
          then_step (disk_step faults SyncBinary (\<lambda>d. d) d) (\<lambda>_ d. (Inr (target_of name), d))))"

definition download_and_install ::
    "update_sdk \<Rightarrow> manager \<Rightarrow> (disk_write \<Rightarrow> disk_fault option) \<Rightarrow> (fetch_step \<Rightarrow> bool) \<Rightarrow> manifest \<Rightarrow> time \<Rightarrow> update_disk
     \<Rightarrow> (update_error + string) \<times> update_disk" where
  "download_and_install sdk m faults fetch_fails mf modified d =
     (let name = release_directory mf in
      then_step (disk_step faults CreateVersions (\<lambda>d. d) d) (\<lambda>_ d.
      then_step (disk_step faults CreateVersionDir (create_version name modified) d) (\<lambda>_ d.
        case (case bucket_get (ud_versions d) name of None \<Rightarrow> None | Some v \<Rightarrow> vd_binary v) of
          Some f \<Rightarrow>
            (case check_existing sdk mf f of Inl e \<Rightarrow> (Inl e, d) | Inr _ \<Rightarrow> (Inr (target_of name), d))
        | None \<Rightarrow>
            (case fetch (uk_sha256 sdk) (Some (um_client m)) fetch_fails (binary_artifact sdk m mf)
                    (case bucket_get (ud_versions d) name of None \<Rightarrow> None | Some v \<Rightarrow> vd_partial v) of
               (Inl e, slot) \<Rightarrow> (Inl (DownloadFailed e), update_version name (\<lambda>v. v\<lparr>vd_partial := slot\<rparr>) d)
             | (Inr _, slot) \<Rightarrow>
                 let d = update_version name (\<lambda>v. v\<lparr>vd_partial := slot\<rparr>) d in
                 (case slot of
                    None \<Rightarrow> (Inl CandidateFailed, d)
                  | Some f \<Rightarrow> install_candidate sdk faults mf modified f d)))))"

subsection \<open>Pruning old versions\<close>

definition version_of_target :: "string \<Rightarrow> string list" where
  "version_of_target target = (case split_on slash target of [a, b, c] \<Rightarrow> [b] | _ \<Rightarrow> [])"

definition protected_versions :: "string \<Rightarrow> update_disk \<Rightarrow> string list" where
  "protected_versions target d =
     version_of_target target @
     (case ud_current d of None \<Rightarrow> [] | Some t \<Rightarrow> version_of_target t) @
     (case ud_previous d of None \<Rightarrow> [] | Some t \<Rightarrow> version_of_target t)"

definition is_installed :: "version_dir \<Rightarrow> bool" where
  "is_installed v \<longleftrightarrow>
     vd_directory v \<and> (case vd_binary v of None \<Rightarrow> False | Some f \<Rightarrow> lf_regular f \<and> executable_bits (lf_mode f))"

text \<open>Newest first, by name when the times are equal.\<close>

definition installed_newest_first :: "update_disk \<Rightarrow> (string \<times> version_dir) list" where
  "installed_newest_first d =
     rev (sort_key (\<lambda>e. (vd_modified (snd e), fst e)) (filter (\<lambda>e. is_installed (snd e)) (ud_versions d)))"

definition prunable :: "string list \<Rightarrow> (string \<times> version_dir) list \<Rightarrow> string list" where
  "prunable protected versions = filter (\<lambda>name. name \<notin> set protected) (map fst (drop retained_versions versions))"

fun remove_versions :: "(disk_write \<Rightarrow> disk_fault option) \<Rightarrow> string list \<Rightarrow> update_disk \<Rightarrow> (update_error + unit) \<times> update_disk" where
  "remove_versions faults [] d = (Inr (), d)"
| "remove_versions faults (name # names) d =
     then_step (disk_step faults (RemoveVersion name) (\<lambda>d. d\<lparr>ud_versions := bucket_delete name (ud_versions d)\<rparr>) d)
       (\<lambda>_ d. remove_versions faults names d)"

definition prune_versions :: "(disk_write \<Rightarrow> disk_fault option) \<Rightarrow> string \<Rightarrow> update_disk \<Rightarrow> (update_error + unit) \<times> update_disk" where
  "prune_versions faults target d =
     then_step (remove_versions faults (prunable (protected_versions target d) (installed_newest_first d)) d)
       (\<lambda>_ d. disk_step faults SyncVersions (\<lambda>d. d) d)"

subsection \<open>Preparing an update\<close>

definition switch_target ::
    "update_sdk \<Rightarrow> (disk_write \<Rightarrow> disk_fault option) \<Rightarrow> update_state \<Rightarrow> update_disk \<Rightarrow> (update_error + preparation) \<times> update_disk" where
  "switch_target sdk faults s d =
     then_step (atomic_symlink faults ''previous'' (\<lambda>d. d\<lparr>ud_previous := Some (us_previous_target s)\<rparr>) d) (\<lambda>_ d.
     then_step (remove_terminal_states faults d) (\<lambda>_ d.
     then_step (write_json_atomic sdk faults pending_filename s d) (\<lambda>_ d.
       case atomic_symlink faults ''current'' (\<lambda>d. d\<lparr>ud_current := Some (us_target_target s)\<rparr>) d of
         (Inr _, d) \<Rightarrow> (Inr \<lparr>pp_version = us_target_version s, pp_restart = True, pp_activated = False\<rparr>, d)
       | (Inl e, d) \<Rightarrow> (Inl e, if e = ProcessDied then d else snd (remove_state faults pending_filename d)))))"

definition begin_update ::
    "update_sdk \<Rightarrow> manager \<Rightarrow> (disk_write \<Rightarrow> disk_fault option) \<Rightarrow> string \<Rightarrow> string \<Rightarrow> string \<Rightarrow> time \<Rightarrow> update_disk
     \<Rightarrow> (update_error + preparation) \<times> update_disk" where
  "begin_update sdk m faults command_id version target now d =
     (case read_state sdk pending_filename d of
        Inr _ \<Rightarrow> (Inl AnotherPending, d)
      | Inl e \<Rightarrow>
          if e \<noteq> StateNotExist then (Inl e, d)
          else case ud_current d of
            None \<Rightarrow> (Inl LinkMissing, d)
          | Some previous \<Rightarrow>
              if \<not> validate_target previous then (Inl TargetInvalid, d)
              else case validate_managed_target sdk m previous of
                Inl e \<Rightarrow> (Inl e, d)
              | Inr _ \<Rightarrow>
                  let s = \<lparr>us_api_version = update_state_api_version, us_command_id = command_id, us_previous_target = previous,
                           us_target_target = target, us_target_version = version, us_started_at = now\<rparr>
                  in if previous = target then
                       then_step (replace_state sdk faults confirmed_filename s d)
                         (\<lambda>_ d. (Inr \<lparr>pp_version = version, pp_restart = False, pp_activated = True\<rparr>, d))
                     else switch_target sdk faults s d)"

record prepare_env =
  pe_marker :: marker
  pe_faults :: "disk_write \<Rightarrow> disk_fault option"
  pe_fetch_fails :: "fetch_step \<Rightarrow> bool"
  pe_modified :: time
  pe_now :: time

definition update_prepare ::
    "update_sdk \<Rightarrow> manager \<Rightarrow> prepare_env \<Rightarrow> string \<Rightarrow> string \<Rightarrow> string \<Rightarrow> update_disk \<Rightarrow> (update_error + preparation) \<times> update_disk" where
  "update_prepare sdk m env command_id version running d =
     (if \<not> uk_valid_key sdk command_id then (Inl CommandIDInvalid, d)
      else if \<not> uk_valid_version sdk version then (Inl VersionInvalid, d)
      else case observe sdk command_id version running d of
        None \<Rightarrow> (Inr \<lparr>pp_version = version, pp_restart = False, pp_activated = True\<rparr>, d)
      | Some observed \<Rightarrow>
          if observed = ActivationPending then
            (Inr \<lparr>pp_version = version, pp_restart = (running \<noteq> version), pp_activated = False\<rparr>, d)
          else if observed \<noteq> StateNotFound then (Inl observed, d)
          else case download_manifest sdk m version of
            Inl e \<Rightarrow> (Inl e, d)
          | Inr mf \<Rightarrow>
              if mf_version mf \<noteq> version then (Inl ManifestVersionMismatch, d)
              else case verify_runtime_assets (pe_marker env) (mf_runtime_assets_sha256 mf) of
                Inl e \<Rightarrow> (Inl e, d)
              | Inr _ \<Rightarrow>
                  then_step (download_and_install sdk m (pe_faults env) (pe_fetch_fails env) mf (pe_modified env) d) (\<lambda>target d.
                  then_step (prune_versions (pe_faults env) target d) (\<lambda>_ d.
                    begin_update sdk m (pe_faults env) command_id version target (pe_now env) d)))"

subsection \<open>The manager\<close>

definition new_manager ::
    "update_sdk \<Rightarrow> http_client option \<Rightarrow> bool \<Rightarrow> string \<Rightarrow> string \<Rightarrow> string \<Rightarrow> string \<Rightarrow> bool \<Rightarrow> update_error + manager" where
  "new_manager sdk client directory_fails state_directory marker_path base_url repository allow_insecure =
     (if \<not> abs_and_clean state_directory \<or> \<not> abs_and_clean marker_path then Inl ManagerInvalid
      else case uk_parse_url sdk base_url of
        None \<Rightarrow> Inl ManagerInvalid
      | Some u \<Rightarrow>
          if pu_host u = [] \<or> pu_has_user u \<or> pu_raw_query u \<noteq> [] \<or> pu_fragment u \<noteq> [] then Inl ManagerInvalid
          else if pu_scheme u \<noteq> https \<and> \<not> (allow_insecure \<and> pu_scheme u = ''http'') then Inl ManagerInvalid
          else if repository = [] \<or> sublist [dot, dot] repository \<or> count_char slash repository \<noteq> 1 then Inl ManagerInvalid
          else case client of
            None \<Rightarrow> Inl ManagerInvalid
          | Some c \<Rightarrow>
              if directory_fails then Inl ManagerInvalid
              else Inr \<lparr>um_state_directory = state_directory, um_marker_path = marker_path, um_base_url = trim_right slash base_url,
                        um_repository = repository, um_allow_insecure = allow_insecure, um_client = c\<rparr>)"

end
