(* ===== verification/UpdateSafety.thy ===== *)
theory UpdateSafety
  imports UpdateManager
begin

section \<open>What an update can do to the disk\<close>

text \<open>
  The effects of the updater's operations with every fault: which binaries stay, what the links may become. The launcher
  (\<^verbatim>\<open>deploy/relayward-agent-launcher\<close>) runs the binary behind \<^verbatim>\<open>current\<close> and, when it ends while an
  update is pending, starts the new version or switches back; it is modelled as a step of the run.
\<close>

definition binaries :: "update_disk \<Rightarrow> string \<Rightarrow> local_file option" where
  "binaries d name = (case bucket_get (ud_versions d) name of None \<Rightarrow> None | Some v \<Rightarrow> vd_binary v)"

definition target_binary :: "update_disk \<Rightarrow> string \<Rightarrow> local_file option" where
  "target_binary d target = (case version_of_target target of [name] \<Rightarrow> binaries d name | _ \<Rightarrow> None)"

text \<open>Versions are part of a path, so they contain no slash; what is written can be read back.\<close>

definition update_sdk_ok :: "update_sdk \<Rightarrow> bool" where
  "update_sdk_ok sdk \<longleftrightarrow>
     (\<forall>v. uk_valid_version sdk v \<longrightarrow> slash \<notin> set v) \<and>
     (\<forall>s raw. validate_state sdk s \<longrightarrow> uk_marshal_state sdk s = Some raw \<longrightarrow>
        uk_unmarshal_state sdk (raw @ [CHR 0x0A]) = Some s \<and> length raw < maximum_update_state_bytes)"

subsection \<open>Steps\<close>

lemma disk_step_cases:
  "disk_step faults w change d = (r, d') \<Longrightarrow> (r = Inr () \<and> d' = change d) \<or> ((\<exists>e. r = Inl e) \<and> (d' = d \<or> d' = change d))"
  by (auto simp: disk_step_def split: option.splits disk_fault.splits)

lemma disk_step_id: "disk_step faults w (\<lambda>d. d) d = (r, d') \<Longrightarrow> d' = d"
  by (auto dest: disk_step_cases)

lemma then_step_elim:
  assumes "then_step m f = (r, d')"
  obtains e where "m = (Inl e, d')" "r = Inl e"
  | x d where "m = (Inr x, d)" "f x d = (r, d')"
  using assms by (cases m; cases "fst m") (auto simp: then_step_def)

text \<open>Going through the steps of a composed operation keeps what every step keeps.\<close>

lemma then_step_keeps:
  assumes "then_step m f = (r, d')" and "\<And>r1 d1. m = (r1, d1) \<Longrightarrow> P d1"
    and "\<And>x d1. m = (Inr x, d1) \<Longrightarrow> P d1 \<Longrightarrow> f x d1 = (r, d') \<Longrightarrow> P d'"
  shows "P d'"
  using assms(1)
proof (cases rule: then_step_elim)
  case (1 e)
  then show ?thesis using assms(2) by blast
next
  case (2 x d)
  then show ?thesis using assms(2,3) by blast
qed

lemma atomic_symlink_cases:
  "atomic_symlink faults link place d = (r, d') \<Longrightarrow> (r = Inr () \<and> d' = place d) \<or> ((\<exists>e. r = Inl e) \<and> (d' = d \<or> d' = place d))"
  unfolding atomic_symlink_def
  by (elim then_step_elim; simp) (drule disk_step_id disk_step_cases, auto dest: disk_step_id disk_step_cases)+

subsection \<open>Reading back\<close>

lemma hex_no_slash: "valid_sha256 s \<Longrightarrow> slash \<notin> set s"
  by (auto simp: valid_sha256_def list_all_iff lower_hex_def)

lemma version_of_release:
  assumes "slash \<notin> set name" and "name \<noteq> []"
  shows "version_of_target (target_of name) = [name]"
proof -
  have "slash \<notin> set ''versions''" by simp
  then have "split_on slash (''versions'' @ slash # name @ slash # binary_name) = ''versions'' # split_on slash (name @ slash # binary_name)"
    by (rule split_on_append)
  moreover have "split_on slash (name @ slash # binary_name) = name # split_on slash binary_name"
    by (rule split_on_append [OF assms(1)])
  moreover have "split_on slash binary_name = [binary_name]"
    by (rule split_on_no_sep) (simp add: binary_name_def)
  moreover have "target_of name = ''versions'' @ slash # name @ slash # binary_name"
    by (simp add: target_of_def)
  ultimately show ?thesis by (simp add: version_of_target_def)
qed

lemma release_directory_ok:
  assumes "update_sdk_ok sdk" and "validate_manifest sdk mf"
  shows "version_of_target (target_of (release_directory mf)) = [release_directory mf]"
proof (rule version_of_release)
  show "slash \<notin> set (release_directory mf)"
    using assms hex_no_slash by (auto simp: release_directory_def validate_manifest_def update_sdk_ok_def)
qed (simp add: release_directory_def)

lemma download_manifest_valid: "download_manifest sdk m version = Inr mf \<Longrightarrow> validate_manifest sdk mf"
  by (auto simp: download_manifest_def decode_manifest_def and_then_Inr_iff split: option.splits if_splits)

subsection \<open>Installing\<close>

text \<open>What may change while a release is downloaded: no binary that is there, no link, no state file.\<close>

definition grows :: "update_disk \<Rightarrow> update_disk \<Rightarrow> bool" where
  "grows d d' \<longleftrightarrow>
     ud_current d' = ud_current d \<and> ud_previous d' = ud_previous d \<and> ud_states d' = ud_states d \<and>
     (bucket_ok (ud_versions d) \<longrightarrow> bucket_ok (ud_versions d')) \<and>
     (\<forall>name f. binaries d name = Some f \<longrightarrow> binaries d' name = Some f)"

lemma grows_refl [simp]: "grows d d"
  by (simp add: grows_def)

lemma grows_trans: "grows a b \<Longrightarrow> grows b c \<Longrightarrow> grows a c"
  by (simp add: grows_def)

lemma update_version_fields [simp]:
  "ud_current (update_version name g d) = ud_current d" "ud_previous (update_version name g d) = ud_previous d"
  "ud_states (update_version name g d) = ud_states d"
  by (simp_all add: update_version_def split: option.splits)

lemma binaries_update_version:
  "binaries (update_version name g d) n =
     (case bucket_get (ud_versions d) name of
        Some v \<Rightarrow> if n = name then vd_binary (g v) else binaries d n
      | None \<Rightarrow> binaries d n)"
  by (auto simp: binaries_def update_version_def split: option.splits)

lemma update_version_sorted: "bucket_ok (ud_versions d) \<Longrightarrow> bucket_ok (ud_versions (update_version name g d))"
  by (auto simp: update_version_def put_sorted split: option.splits)

lemma partial_grows: "grows d (update_version name (\<lambda>v. v\<lparr>vd_partial := slot\<rparr>) d)"
proof -
  have "binaries (update_version name (\<lambda>v. v\<lparr>vd_partial := slot\<rparr>) d) n = binaries d n" for n
    unfolding binaries_update_version by (auto simp: binaries_def split: option.splits)
  then show ?thesis by (simp add: grows_def update_version_sorted)
qed

lemma binary_grows:
  "binaries d name = None \<Longrightarrow> grows d (update_version name (\<lambda>v. v\<lparr>vd_binary := b, vd_partial := p, vd_modified := t\<rparr>) d)"
  by (auto simp: grows_def binaries_update_version update_version_sorted split: option.splits)

lemma create_grows: "grows d (create_version name t d)"
  by (auto simp: grows_def create_version_def binaries_def put_sorted split: option.splits)

definition verified_binary :: "update_sdk \<Rightarrow> manifest \<Rightarrow> local_file \<Rightarrow> bool" where
  "verified_binary sdk mf f \<longleftrightarrow>
     lf_regular f \<and> uk_sha256 sdk (lf_content f) = ra_sha256 (mf_artifact mf) \<and>
     uk_candidate_version sdk (lf_content f) = Some (mf_version mf)"

lemma check_candidate_Inr: "check_candidate sdk version f = Inr u \<Longrightarrow> uk_candidate_version sdk (lf_content f) = Some version"
  by (auto simp: check_candidate_def guard_err_def split: option.splits if_splits)

lemma install_candidate_effect:
  assumes res: "install_candidate sdk faults mf t f d = (r, d')" and none: "binaries d (release_directory mf) = None"
    and there: "bucket_get (ud_versions d) (release_directory mf) \<noteq> None"
    and f: "lf_regular f" "uk_sha256 sdk (lf_content f) = ra_sha256 (mf_artifact mf)"
  shows "grows d d' \<and> (\<forall>target. r = Inr target \<longrightarrow> target = target_of (release_directory mf) \<and>
    (\<exists>f. binaries d' (release_directory mf) = Some f \<and> verified_binary sdk mf f))"
proof (cases "check_candidate sdk (mf_version mf) f")
  case (Inl e)
  with res have "r = Inl e" "d' = d" by (auto simp: install_candidate_def Let_def)
  then show ?thesis by simp
next
  case (Inr u)
  let ?n = "release_directory mf" and ?g = "\<lambda>v. v\<lparr>vd_binary := Some f, vd_partial := None, vd_modified := t\<rparr>"
  have ver: "verified_binary sdk mf f" using f check_candidate_Inr [OF Inr] by (simp add: verified_binary_def)
  from res Inr have "then_step (disk_step faults ActivateBinary (update_version ?n ?g) d) (\<lambda>_ d.
      then_step (disk_step faults SyncBinary (\<lambda>d. d) d) (\<lambda>_ d. (Inr (target_of ?n), d))) = (r, d')"
    by (simp add: install_candidate_def Let_def)
  then show ?thesis
  proof (cases rule: then_step_elim)
    case (1 e)
    then show ?thesis using disk_step_cases [OF 1(1)] binary_grows [OF none] by auto
  next
    case (2 x d1)
    then have d1: "d1 = update_version ?n ?g d" by (auto dest: disk_step_cases)
    have d': "d' = d1" and r: "r = Inr target \<Longrightarrow> target = target_of ?n" for target
      using 2(2) by (auto elim!: then_step_elim dest: disk_step_id)
    have "binaries d1 ?n = Some f" using there by (auto simp: d1 binaries_update_version)
    with binary_grows [OF none] ver r show ?thesis unfolding d' d1 by auto
  qed
qed

lemma download_and_install_effect:
  assumes "download_and_install sdk m faults fetch_fails mf t d = (r, d')"
  shows "grows d d' \<and> (\<forall>target. r = Inr target \<longrightarrow> target = target_of (release_directory mf) \<and>
    (\<exists>f. binaries d' (release_directory mf) = Some f \<and> verified_binary sdk mf f))"
proof -
  let ?n = "release_directory mf"
  define rest where "rest = (\<lambda>d. case (case bucket_get (ud_versions d) ?n of None \<Rightarrow> None | Some v \<Rightarrow> vd_binary v) of
          Some f \<Rightarrow> (case check_existing sdk mf f of Inl e \<Rightarrow> (Inl e, d) | Inr _ \<Rightarrow> (Inr (target_of ?n), d))
        | None \<Rightarrow>
            (case fetch (uk_sha256 sdk) (Some (um_client m)) fetch_fails (binary_artifact sdk m mf)
                    (case bucket_get (ud_versions d) ?n of None \<Rightarrow> None | Some v \<Rightarrow> vd_partial v) of
               (Inl e, slot) \<Rightarrow> (Inl (DownloadFailed e), update_version ?n (\<lambda>v. v\<lparr>vd_partial := slot\<rparr>) d)
             | (Inr _, slot) \<Rightarrow>
                 let d = update_version ?n (\<lambda>v. v\<lparr>vd_partial := slot\<rparr>) d in
                 (case slot of
                    None \<Rightarrow> (Inl CandidateFailed, d)
                  | Some f \<Rightarrow> install_candidate sdk faults mf t f d)))"
  have "then_step (disk_step faults CreateVersions (\<lambda>d. d) d) (\<lambda>_ d.
      then_step (disk_step faults CreateVersionDir (create_version ?n t) d) (\<lambda>_ d. rest d)) = (r, d')"
    using assms unfolding download_and_install_def Let_def rest_def .
  then show ?thesis
  proof (cases rule: then_step_elim)
    case (1 e)
    then show ?thesis using disk_step_id by fastforce
  next
    case (2 x d1)
    have d1: "d1 = d" using 2(1) by (rule disk_step_id)
    from 2(2) show ?thesis unfolding d1
    proof (cases rule: then_step_elim)
      case (1 e)
      then show ?thesis using disk_step_cases [OF 1(1)] create_grows by auto
    next
      case (2 y d2)
      then have d2: "d2 = create_version ?n t d" by (auto dest: disk_step_cases)
      have there: "bucket_get (ud_versions d2) ?n \<noteq> None" by (auto simp: d2 create_version_def split: option.splits)
      then obtain v where v: "bucket_get (ud_versions d2) ?n = Some v" by blast
      have "grows d2 d' \<and> (\<forall>target. r = Inr target \<longrightarrow> target = target_of ?n \<and>
          (\<exists>f. binaries d' ?n = Some f \<and> verified_binary sdk mf f))"
      proof (cases "vd_binary v")
        case (Some f)
        then have b: "binaries d2 ?n = Some f" using v by (simp add: binaries_def)
        have "verified_binary sdk mf f" if "check_existing sdk mf f = Inr u" for u
          using that check_candidate_Inr by (auto simp: check_existing_def verified_binary_def split: if_splits)
        with 2(2) v Some b show ?thesis by (auto simp: rest_def split: sum.splits)
      next
        case None
        obtain out slot where f: "fetch (uk_sha256 sdk) (Some (um_client m)) fetch_fails (binary_artifact sdk m mf) (vd_partial v) = (out, slot)"
          by force
        let ?d = "update_version ?n (\<lambda>v. v\<lparr>vd_partial := slot\<rparr>) d2"
        show ?thesis
        proof (cases out)
          case (Inl e)
          with 2(2) v None f have "r = Inl (DownloadFailed e)" "d' = ?d" by (auto simp: rest_def)
          with partial_grows show ?thesis by simp
        next
          case (Inr u)
          then obtain g where g: "slot = Some g" "lf_regular g" "uk_sha256 sdk (lf_content g) = ra_sha256 (mf_artifact mf)"
            using fetch_success [of "uk_sha256 sdk" "Some (um_client m)" fetch_fails "binary_artifact sdk m mf" "vd_partial v" u slot] f
            by (auto simp: binary_artifact_def)
          have i: "install_candidate sdk faults mf t g ?d = (r, d')"
            using 2(2) v None f Inr g(1) by (simp add: rest_def Let_def)
          have none: "binaries ?d ?n = None" using v None by (simp add: binaries_update_version)
          have "bucket_get (ud_versions ?d) ?n \<noteq> None" using v by (simp add: update_version_def)
          from install_candidate_effect [OF i none this g(2,3)] partial_grows grows_trans show ?thesis by blast
        qed
      qed
      with create_grows grows_trans d2 show ?thesis by blast
    qed
  qed
qed

subsection \<open>Pruning\<close>

definition prunes :: "string list \<Rightarrow> update_disk \<Rightarrow> update_disk \<Rightarrow> bool" where
  "prunes names d d' \<longleftrightarrow>
     ud_current d' = ud_current d \<and> ud_previous d' = ud_previous d \<and> ud_states d' = ud_states d \<and>
     (bucket_ok (ud_versions d) \<longrightarrow> bucket_ok (ud_versions d')) \<and> (\<forall>n. n \<notin> set names \<longrightarrow> binaries d' n = binaries d n)"

lemma prunes_refl [simp]: "prunes names d d"
  by (simp add: prunes_def)

lemma remove_versions_effect:
  "remove_versions faults names d = (r, d') \<Longrightarrow> prunes names d d' \<and>
   (r = Inr () \<longrightarrow> ud_versions d' = filter (\<lambda>e. fst e \<notin> set names) (ud_versions d))"
proof (induction names arbitrary: d)
  case Nil
  then show ?case by simp
next
  case (Cons name names)
  let ?c = "\<lambda>d. d\<lparr>ud_versions := bucket_delete name (ud_versions d)\<rparr>"
  have one: "prunes (name # names) d (?c d)"
    by (auto simp: prunes_def binaries_def delete_sorted)
  from Cons.prems show ?case unfolding remove_versions.simps
  proof (cases rule: then_step_elim)
    case (1 e)
    then show ?thesis using disk_step_cases [OF 1(1)] one by auto
  next
    case (2 x d1)
    then have d1: "d1 = ?c d" by (auto dest: disk_step_cases)
    note rest = Cons.IH [OF 2(2)]
    have "prunes (name # names) d d'" using rest one by (auto simp: prunes_def d1)
    moreover have "filter (\<lambda>e. fst e \<notin> set names) (ud_versions d1) = filter (\<lambda>e. fst e \<notin> set (name # names)) (ud_versions d)"
      by (auto simp: d1 bucket_delete_def intro!: filter_cong)
    ultimately show ?thesis using rest by simp
  qed
qed

lemma prune_versions_effect:
  assumes "prune_versions faults target d = (r, d')"
  shows "prunes (prunable (protected_versions target d) (installed_newest_first d)) d d' \<and>
    (r = Inr () \<longrightarrow> ud_versions d' =
       filter (\<lambda>e. fst e \<notin> set (prunable (protected_versions target d) (installed_newest_first d))) (ud_versions d))"
  using assms unfolding prune_versions_def
proof (cases rule: then_step_elim)
  case (1 e)
  then show ?thesis using remove_versions_effect [OF 1(1)] by simp
next
  case (2 x d1)
  then have "d' = d1" by (auto dest: disk_step_id)
  with remove_versions_effect [OF 2(1)] show ?thesis by simp
qed

lemma prunable_unprotected: "n \<in> set protected \<Longrightarrow> n \<notin> set (prunable protected versions)"
  by (simp add: prunable_def)

subsection \<open>Switching\<close>

lemma remove_state_fields:
  "remove_state faults filename d = (r, d') \<Longrightarrow>
   ud_versions d' = ud_versions d \<and> ud_current d' = ud_current d \<and> ud_previous d' = ud_previous d \<and>
   (ud_states d' = ud_states d \<or> ud_states d' = bucket_delete filename (ud_states d)) \<and>
   (r = Inr () \<longrightarrow> ud_states d' = bucket_delete filename (ud_states d))"
  unfolding remove_state_def by (drule disk_step_cases) auto

text \<open>\<open>quiet d d'\<close>: only the files of finished updates may have been removed.\<close>

definition quiet :: "update_disk \<Rightarrow> update_disk \<Rightarrow> bool" where
  "quiet d d' \<longleftrightarrow>
     ud_versions d' = ud_versions d \<and> ud_current d' = ud_current d \<and> ud_previous d' = ud_previous d \<and>
     (bucket_ok (ud_states d) \<longrightarrow> bucket_ok (ud_states d')) \<and>
     bucket_get (ud_states d') pending_filename = bucket_get (ud_states d) pending_filename"

lemma quiet_refl [simp]: "quiet d d"
  by (simp add: quiet_def)

lemma filenames_differ [simp]:
  "confirmed_filename \<noteq> pending_filename" "failed_filename \<noteq> pending_filename" "confirmed_filename \<noteq> failed_filename"
  "pending_filename \<noteq> confirmed_filename" "pending_filename \<noteq> failed_filename" "failed_filename \<noteq> confirmed_filename"
  by (simp_all add: confirmed_filename_def pending_filename_def failed_filename_def)

lemma remove_terminal_states_effect:
  assumes "remove_terminal_states faults d = (r, d')"
  shows "quiet d d' \<and> (r = Inr () \<longrightarrow> ud_states d' = bucket_delete failed_filename (bucket_delete confirmed_filename (ud_states d)))"
  using assms unfolding remove_terminal_states_def
proof (cases rule: then_step_elim)
  case (1 e)
  then show ?thesis using remove_state_fields [OF 1(1)] by (auto simp: quiet_def delete_sorted)
next
  case (2 x d1)
  note one = remove_state_fields [OF 2(1)]
  from 2(2) show ?thesis
  proof (cases rule: then_step_elim)
    case (1 e)
    then show ?thesis using remove_state_fields [OF 1(1)] one by (auto simp: quiet_def delete_sorted)
  next
    case (2 y d2)
    then have "d' = d2" by (auto dest: disk_step_id)
    with remove_state_fields [OF 2(1)] one show ?thesis by (auto simp: quiet_def delete_sorted)
  qed
qed

lemma write_json_atomic_effect:
  "write_json_atomic sdk faults filename s d = (r, d') \<Longrightarrow>
   ((\<exists>e. r = Inl e) \<and> d' = d) \<or>
   (\<exists>raw. uk_marshal_state sdk s = Some raw \<and> (r = Inr () \<or> (\<exists>e. r = Inl e)) \<and>
      d' = d\<lparr>ud_states := bucket_put filename (private_file (raw @ [CHR 0x0A])) (ud_states d)\<rparr>)"
  unfolding write_json_atomic_def by (auto split: option.splits dest!: disk_step_cases)

lemma switch_target_effect:
  assumes "switch_target sdk faults s d = (r, d')"
  shows "ud_versions d' = ud_versions d \<and> (bucket_ok (ud_states d) \<longrightarrow> bucket_ok (ud_states d')) \<and>
    ud_current d' \<in> {ud_current d, Some (us_target_target s)} \<and> ud_previous d' \<in> {ud_previous d, Some (us_previous_target s)} \<and>
    (bucket_get (ud_states d') pending_filename = bucket_get (ud_states d) pending_filename \<or> ud_previous d' = Some (us_previous_target s)) \<and>
    (\<forall>p. r = Inr p \<longrightarrow> ud_current d' = Some (us_target_target s) \<and> ud_previous d' = Some (us_previous_target s) \<and>
       p = \<lparr>pp_version = us_target_version s, pp_restart = True, pp_activated = False\<rparr> \<and>
       bucket_get (ud_states d') confirmed_filename = None \<and>
       (\<exists>raw. uk_marshal_state sdk s = Some raw \<and>
          bucket_get (ud_states d') pending_filename = Some (private_file (raw @ [CHR 0x0A]))))"
  using assms unfolding switch_target_def
proof (cases rule: then_step_elim)
  case (1 e)
  then show ?thesis using atomic_symlink_cases [OF 1(1)] by auto
next
  case (2 x d1)
  then have d1: "d1 = d\<lparr>ud_previous := Some (us_previous_target s)\<rparr>" by (auto dest: atomic_symlink_cases)
  from 2(2) show ?thesis
  proof (cases rule: then_step_elim)
    case (1 e)
    then show ?thesis using remove_terminal_states_effect [OF 1(1)] by (auto simp: quiet_def d1)
  next
    case (2 y d2)
    have d2: "quiet d1 d2" and gone: "bucket_get (ud_states d2) confirmed_filename = None"
      using remove_terminal_states_effect [OF 2(1)] by auto
    from 2(2) show ?thesis
    proof (cases rule: then_step_elim)
      case (1 e)
      then show ?thesis using write_json_atomic_effect [OF 1(1)] d2 by (auto simp: quiet_def d1 put_sorted)
    next
      case (2 z d3)
      then obtain raw where raw: "uk_marshal_state sdk s = Some raw"
        "d3 = d2\<lparr>ud_states := bucket_put pending_filename (private_file (raw @ [CHR 0x0A])) (ud_states d2)\<rparr>"
        using write_json_atomic_effect [OF 2(1)] by auto
      obtain l d4 where l: "atomic_symlink faults ''current'' (\<lambda>d. d\<lparr>ud_current := Some (us_target_target s)\<rparr>) d3 = (l, d4)" by force
      show ?thesis
      proof (cases l)
        case (Inr u)
        then have "d4 = d3\<lparr>ud_current := Some (us_target_target s)\<rparr>" using atomic_symlink_cases [OF l] by simp
        with Inr 2(2) l have "d' = d3\<lparr>ud_current := Some (us_target_target s)\<rparr>"
          "r = Inr \<lparr>pp_version = us_target_version s, pp_restart = True, pp_activated = False\<rparr>" by auto
        with d2 gone raw show ?thesis by (auto simp: quiet_def d1 put_sorted)
      next
        case (Inl e)
        then have d4: "d4 = d3 \<or> d4 = d3\<lparr>ud_current := Some (us_target_target s)\<rparr>" using atomic_symlink_cases [OF l] by auto
        have "r = Inl e \<and> (d' = d4 \<or> (\<exists>w. remove_state faults pending_filename d4 = (w, d')))"
          using 2(2) l Inl by (auto split: if_splits) (metis prod.collapse)
        then have r: "r = Inl e" and "d' = d4 \<or> (\<exists>w. remove_state faults pending_filename d4 = (w, d'))" by auto
        then have "ud_versions d' = ud_versions d4 \<and> ud_current d' = ud_current d4 \<and> ud_previous d' = ud_previous d4 \<and>
            (ud_states d' = ud_states d4 \<or> ud_states d' = bucket_delete pending_filename (ud_states d4))"
          using remove_state_fields by blast
        with d4 d2 raw r show ?thesis by (auto simp: quiet_def d1 put_sorted delete_sorted)
      qed
    qed
  qed
qed

lemma replace_state_effect:
  assumes "replace_state sdk faults confirmed_filename s d = (r, d')"
  shows "quiet d d'"
  using assms unfolding replace_state_def
proof (cases rule: then_step_elim)
  case (1 e)
  then show ?thesis using remove_terminal_states_effect [OF 1(1)] by simp
next
  case (2 x d1)
  then show ?thesis
    using remove_terminal_states_effect [OF 2(1)] write_json_atomic_effect [OF 2(2)] by (auto simp: quiet_def put_sorted)
qed

lemma begin_update_effect:
  assumes "begin_update sdk m faults command_id version target now d = (r, d')"
  shows "ud_versions d' = ud_versions d \<and> (bucket_ok (ud_states d) \<longrightarrow> bucket_ok (ud_states d')) \<and>
    ud_current d' \<in> {ud_current d, Some target} \<and> ud_previous d' \<in> {ud_previous d, ud_current d} \<and>
    (bucket_get (ud_states d') pending_filename \<noteq> None \<longrightarrow> bucket_get (ud_states d) pending_filename \<noteq> None \<or> ud_previous d' \<noteq> None)"
proof (cases "\<exists>previous. read_state sdk pending_filename d = Inl StateNotExist \<and> ud_current d = Some previous \<and> validate_target previous \<and>
    validate_managed_target sdk m previous = Inr ()")
  case False
  then have "d' = d" using assms by (auto simp: begin_update_def split: sum.splits option.splits if_splits)
  then show ?thesis by simp
next
  case True
  then obtain previous where p: "read_state sdk pending_filename d = Inl StateNotExist" "ud_current d = Some previous"
    "validate_target previous" "validate_managed_target sdk m previous = Inr ()" by blast
  let ?s = "\<lparr>us_api_version = update_state_api_version, us_command_id = command_id, us_previous_target = previous,
                           us_target_target = target, us_target_version = version, us_started_at = now\<rparr>"
  show ?thesis
  proof (cases "previous = target")
    case True
    with assms p have "then_step (replace_state sdk faults confirmed_filename ?s d)
        (\<lambda>_ d. (Inr \<lparr>pp_version = version, pp_restart = False, pp_activated = True\<rparr>, d)) = (r, d')"
      by (simp add: begin_update_def Let_def)
    then have "quiet d d'" by (auto elim!: then_step_elim dest: replace_state_effect)
    then show ?thesis by (simp add: quiet_def)
  next
    case False
    with assms p have "switch_target sdk faults ?s d = (r, d')" by (simp add: begin_update_def Let_def)
    from switch_target_effect [OF this] p(2) show ?thesis by auto
  qed
qed

subsection \<open>The invariant\<close>

text \<open>What \<^verbatim>\<open>current\<close> and \<^verbatim>\<open>previous\<close> point to is installed, and an update is pending only when there is a previous
  version to go back to.\<close>

definition update_inv :: "update_disk \<Rightarrow> bool" where
  "update_inv d \<longleftrightarrow>
     bucket_ok (ud_versions d) \<and> bucket_ok (ud_states d) \<and>
     (\<exists>t. ud_current d = Some t \<and> target_binary d t \<noteq> None) \<and>
     (case ud_previous d of None \<Rightarrow> True | Some p \<Rightarrow> target_binary d p \<noteq> None) \<and>
     (bucket_get (ud_states d) pending_filename \<noteq> None \<longrightarrow> ud_previous d \<noteq> None)"

lemma target_binary_Some:
  "target_binary d t = Some f \<longleftrightarrow> (\<exists>name. version_of_target t = [name] \<and> binaries d name = Some f)"
  by (auto simp: target_binary_def split: list.splits)

lemma target_binary_grows: "grows d d' \<Longrightarrow> target_binary d t = Some f \<Longrightarrow> target_binary d' t = Some f"
  by (auto simp: target_binary_Some grows_def)

lemma target_binary_prunes:
  assumes "prunes names d d'" and "\<And>n. version_of_target t = [n] \<Longrightarrow> n \<notin> set names"
  shows "target_binary d' t = target_binary d t"
  using assms by (auto simp: target_binary_def prunes_def split: list.splits)

lemma target_binary_versions: "ud_versions d' = ud_versions d \<Longrightarrow> target_binary d' = target_binary d"
  by (auto simp: target_binary_def binaries_def fun_eq_iff split: list.splits)

text \<open>Preparing an update, with every fault and death: the binaries that the links point to stay byte for byte, and \<open>current\<close> changes
  only to a binary that was verified and reports the version asked for.\<close>

lemma update_prepare_effect:
  assumes res: "update_prepare sdk m env command_id version running d = (r, d')" and ok: "update_sdk_ok sdk"
    and link: "ud_current d = Some t \<or> ud_previous d = Some t" "target_binary d t = Some f"
  shows "target_binary d' t = Some f \<and>
    (bucket_ok (ud_versions d) \<longrightarrow> bucket_ok (ud_versions d')) \<and> (bucket_ok (ud_states d) \<longrightarrow> bucket_ok (ud_states d')) \<and>
    ud_previous d' \<in> {ud_previous d, ud_current d} \<and>
    (bucket_get (ud_states d') pending_filename \<noteq> None \<longrightarrow> bucket_get (ud_states d) pending_filename \<noteq> None \<or> ud_previous d' \<noteq> None) \<and>
    (ud_current d' = ud_current d \<or>
     (\<exists>target mf g. ud_current d' = Some target \<and> target_binary d' target = Some g \<and> verified_binary sdk mf g \<and> mf_version mf = version \<and>
        download_manifest sdk m version = Inr mf))"
proof (cases "\<exists>mf. download_manifest sdk m version = Inr mf \<and> mf_version mf = version \<and>
    then_step (download_and_install sdk m (pe_faults env) (pe_fetch_fails env) mf (pe_modified env) d) (\<lambda>target d.
      then_step (prune_versions (pe_faults env) target d) (\<lambda>_ d.
        begin_update sdk m (pe_faults env) command_id version target (pe_now env) d)) = (r, d')")
  case False
  then have "d' = d" using res by (auto simp: update_prepare_def split: if_splits option.splits sum.splits)
  then show ?thesis using link by simp
next
  case True
  then obtain mf where mf: "download_manifest sdk m version = Inr mf" "mf_version mf = version"
    and steps: "then_step (download_and_install sdk m (pe_faults env) (pe_fetch_fails env) mf (pe_modified env) d) (\<lambda>target d.
      then_step (prune_versions (pe_faults env) target d) (\<lambda>_ d.
        begin_update sdk m (pe_faults env) command_id version target (pe_now env) d)) = (r, d')" by blast
  have rel: "version_of_target (target_of (release_directory mf)) = [release_directory mf]"
    by (rule release_directory_ok [OF ok download_manifest_valid [OF mf(1)]])
  from steps show ?thesis
  proof (cases rule: then_step_elim)
    case (1 e)
    then show ?thesis using download_and_install_effect [OF 1(1)] target_binary_grows link by (auto simp: grows_def)
  next
    case (2 target d1)
    have g: "grows d d1" and target: "target = target_of (release_directory mf)"
      and new: "\<exists>g. binaries d1 (release_directory mf) = Some g \<and> verified_binary sdk mf g"
      using download_and_install_effect [OF 2(1)] by blast+
    have links: "ud_current d1 = ud_current d" "ud_previous d1 = ud_previous d" "ud_states d1 = ud_states d"
      "bucket_ok (ud_versions d) \<Longrightarrow> bucket_ok (ud_versions d1)" using g by (auto simp: grows_def)
    have kept1: "target_binary d1 t = Some f" by (rule target_binary_grows [OF g link(2)])
    let ?names = "prunable (protected_versions target d1) (installed_newest_first d1)"
    have protect: "n \<notin> set ?names" if "version_of_target u = [n]" "ud_current d1 = Some u \<or> ud_previous d1 = Some u \<or> u = target" for u n
      using that by (intro prunable_unprotected) (auto simp: protected_versions_def)
    have kept: "target_binary d2 t = Some f" "\<exists>g. target_binary d2 target = Some g \<and> verified_binary sdk mf g"
      if "prunes ?names d1 d2" for d2
    proof -
      have "target_binary d2 t = target_binary d1 t"
        using that protect link(1) links by (intro target_binary_prunes) auto
      then show "target_binary d2 t = Some f" using kept1 by simp
      have "target_binary d2 target = target_binary d1 target"
        using that protect by (intro target_binary_prunes) auto
      then show "\<exists>g. target_binary d2 target = Some g \<and> verified_binary sdk mf g"
        using new rel target by (auto simp: target_binary_def)
    qed
    from 2(2) show ?thesis
    proof (cases rule: then_step_elim)
      case (1 e)
      have "prunes ?names d1 d'" using prune_versions_effect [OF 1(1)] by blast
      with kept(1) links show ?thesis by (auto simp: prunes_def)
    next
      case (2 x d2)
      have p: "prunes ?names d1 d2" using prune_versions_effect [OF 2(1)] by blast
      note b = begin_update_effect [OF 2(2)]
      have "target_binary d' = target_binary d2" using b target_binary_versions by blast
      with kept [OF p] p b links mf show ?thesis by (auto simp: prunes_def)
    qed
  qed
qed

lemma update_prepare_inv:
  assumes res: "update_prepare sdk m env command_id version running d = (r, d')" and ok: "update_sdk_ok sdk" and inv: "update_inv d"
  shows "update_inv d'"
proof -
  obtain t f where t: "ud_current d = Some t" "target_binary d t = Some f" using inv by (auto simp: update_inv_def)
  note cur = update_prepare_effect [OF res ok _ t(2)]
  have prev: "target_binary d' p \<noteq> None" if p: "ud_previous d = Some p" for p
  proof -
    obtain g where "target_binary d p = Some g" using inv p by (auto simp: update_inv_def)
    from update_prepare_effect [OF res ok _ this] p show ?thesis by simp
  qed
  show ?thesis
    using cur inv prev t unfolding update_inv_def by (auto split: option.splits)
qed

subsection \<open>Confirming and the launcher\<close>

lemma confirm_effect:
  assumes "confirm sdk faults running d = (r, d')"
  shows "ud_versions d' = ud_versions d \<and> ud_current d' = ud_current d \<and> ud_previous d' = ud_previous d \<and>
    (d' = d \<or> (\<exists>f. bucket_get (ud_states d) pending_filename = Some f \<and>
       ud_states d' = bucket_put confirmed_filename f (bucket_delete pending_filename (ud_states d))))"
proof (cases "\<exists>pending current. read_state sdk pending_filename d = Inr pending \<and> us_target_version pending = running \<and>
    ud_current d = Some current \<and> current = us_target_target pending")
  case False
  then have "d' = d" using assms by (auto simp: confirm_def split: sum.splits option.splits if_splits)
  then show ?thesis by simp
next
  case True
  let ?c = "\<lambda>d. case bucket_get (ud_states d) pending_filename of None \<Rightarrow> d
    | Some f \<Rightarrow> d\<lparr>ud_states := bucket_put confirmed_filename f (bucket_delete pending_filename (ud_states d))\<rparr>"
  from True have "then_step (disk_step faults RenamePending ?c d)
      (\<lambda>_ d. then_step (disk_step faults SyncStates (\<lambda>d. d) d) (\<lambda>_ d. (Inr True, d))) = (r, d')"
    using assms by (auto simp: confirm_def)
  then have "d' = d \<or> d' = ?c d"
    by (auto elim!: then_step_elim dest: disk_step_cases disk_step_id)
  then show ?thesis by (auto split: option.splits)
qed

lemma confirm_inv: "confirm sdk faults running d = (r, d') \<Longrightarrow> update_inv d \<Longrightarrow> update_inv d'"
  using confirm_effect [of sdk faults running d r d'] target_binary_versions [of d' d]
  by (auto simp: update_inv_def put_sorted delete_sorted split: option.splits)

text \<open>
  The end of the agent process: \<open>started\<close> is the target that the launcher had started, \<open>status\<close> its exit status. \<open>None\<close>: the
  launcher ends too, and the disk stays as it is. This is the reaction without a fault. If \<^verbatim>\<open>managed_binary\<close> or the switch of the link fails, the launcher
  ends and the disk stays as it is; if the launcher dies after the switch, or \<^verbatim>\<open>mv\<close> fails to rename the pending file, what has happened is \<open>launcher_switch\<close>.
\<close>

definition restart_exit_code :: int where "restart_exit_code = 75"

definition launcher_exit :: "string \<Rightarrow> int \<Rightarrow> update_disk \<Rightarrow> update_disk option" where
  "launcher_exit started status d =
     (case bucket_get (ud_states d) pending_filename of
        None \<Rightarrow> None
      | Some f \<Rightarrow>
          if status = restart_exit_code \<and> ud_current d \<noteq> Some started then Some d
          else case ud_previous d of
            None \<Rightarrow> None
          | Some p \<Rightarrow>
              Some (d\<lparr>ud_current := Some p,
                      ud_states := bucket_put failed_filename f (bucket_delete pending_filename (ud_states d))\<rparr>))"

definition launcher_switch :: "string \<Rightarrow> int \<Rightarrow> update_disk \<Rightarrow> update_disk option" where
  "launcher_switch started status d =
     (if bucket_get (ud_states d) pending_filename = None then None
      else if status = restart_exit_code \<and> ud_current d \<noteq> Some started then Some d
      else map_option (\<lambda>p. d\<lparr>ud_current := Some p\<rparr>) (ud_previous d))"

lemma launcher_switch_inv: "launcher_switch started status d = Some d' \<Longrightarrow> update_inv d \<Longrightarrow> update_inv d'"
  using target_binary_versions [of d' d] by (auto simp: launcher_switch_def update_inv_def split: if_splits)

lemma launcher_exit_inv: "launcher_exit started status d = Some d' \<Longrightarrow> update_inv d \<Longrightarrow> update_inv d'"
proof -
  assume l: "launcher_exit started status d = Some d'" and inv: "update_inv d"
  show "update_inv d'"
  proof (cases "d' = d")
    case True
    with inv show ?thesis by simp
  next
    case False
    then obtain f p where "ud_previous d = Some p"
      "d' = d\<lparr>ud_current := Some p, ud_states := bucket_put failed_filename f (bucket_delete pending_filename (ud_states d))\<rparr>"
      using l by (auto simp: launcher_exit_def split: option.splits if_splits)
    moreover have "target_binary d' = target_binary d" by (rule target_binary_versions) (simp add: calculation)
    ultimately show ?thesis using inv by (auto simp: update_inv_def put_sorted delete_sorted)
  qed
qed

inductive update_step :: "update_sdk \<Rightarrow> manager \<Rightarrow> update_disk \<Rightarrow> update_disk \<Rightarrow> bool" for sdk m where
  prepare: "update_prepare sdk m env command_id version running d = (r, d') \<Longrightarrow> update_step sdk m d d'"
| confirm: "confirm sdk faults running d = (r', d') \<Longrightarrow> update_step sdk m d d'"
| exit: "launcher_exit started status d = Some d' \<Longrightarrow> update_step sdk m d d'"
| switch: "launcher_switch started status d = Some d' \<Longrightarrow> update_step sdk m d d'"

abbreviation update_run :: "update_sdk \<Rightarrow> manager \<Rightarrow> update_disk \<Rightarrow> update_disk \<Rightarrow> bool" where
  "update_run sdk m \<equiv> (update_step sdk m)\<^sup>*\<^sup>*"

lemma update_step_inv: "update_step sdk m d d' \<Longrightarrow> update_sdk_ok sdk \<Longrightarrow> update_inv d \<Longrightarrow> update_inv d'"
  by (induction rule: update_step.induct) (auto dest: update_prepare_inv confirm_inv launcher_exit_inv launcher_switch_inv)

interpretation updates: stepping "update_step sdk m" "\<lambda>d. update_sdk_ok sdk \<and> update_inv d" "\<lambda>_ _. True" for sdk m
  by unfold_locales (use update_step_inv in blast)+

lemma update_run_inv: "update_run sdk m d d' \<Longrightarrow> update_sdk_ok sdk \<Longrightarrow> update_inv d \<Longrightarrow> update_inv d'"
  using updates.run_inv by blast

end
