(* ===== verification/UpdateExecutor.thy ===== *)
theory UpdateExecutor
  imports UpdateSafety CommandProcessor
begin

section \<open>The update command (internal/update/executor.go)\<close>

text \<open>
  The executor answers from the state files: a confirmed update is a success, a failed one a failure, a pending one asks for a
  restart of the agent or, in the new version, waits for its confirmation. Only a command that no file knows is prepared. The loop is
  a function over a list of rounds that say what others did to the disk before the round and how the wait ends; \<open>None\<close> means that it is still
  waiting when the list ends.
\<close>

record update_command_sdk =
  uc_kind :: string
  uc_decode :: "agent_command \<Rightarrow> string option"
  uc_encode_output :: "string \<Rightarrow> string option"

record update_round =
  ur_others :: "update_disk \<Rightarrow> update_disk"
  ur_wait_ok :: bool
  ur_prepare :: prepare_env

fun update_loop ::
    "update_sdk \<Rightarrow> processor_sdk \<Rightarrow> update_command_sdk \<Rightarrow> manager \<Rightarrow> string \<Rightarrow> string \<Rightarrow> string \<Rightarrow> update_round list \<Rightarrow> update_disk
     \<Rightarrow> execution option \<times> update_disk" where
  "update_loop sdk px uc m command_id version running [] d = (None, d)"
| "update_loop sdk px uc m command_id version running (r # rs) d =
     (let d = ur_others r d in
      case observe sdk command_id version running d of
        None \<Rightarrow>
          (case uc_encode_output uc version of
             None \<Rightarrow> (Some (failure (px_error_internal px) ''encode Agent update result'' False), d)
           | Some output \<Rightarrow> (Some (output_of output), d))
      | Some ActivationFailed \<Rightarrow>
          (Some (failure (px_error_unavailable px) ''Agent update failed health validation and was rolled back'' False), d)
      | Some ActivationPending \<Rightarrow>
          if running \<noteq> version then (Some restart_wanted, d)
          else if \<not> ur_wait_ok r then (Some restart_wanted, d)
          else update_loop sdk px uc m command_id version running rs d
      | Some StateConflict \<Rightarrow> (Some (failure (px_error_conflict px) ''Agent update conflicts with durable state'' False), d)
      | Some StateNotFound \<Rightarrow>
          (case update_prepare sdk m (ur_prepare r) command_id version running d of
             (Inl e, d) \<Rightarrow> (Some (failure (px_error_unavailable px) ''Agent update preparation failed'' True), d)
           | (Inr p, d) \<Rightarrow>
               if pp_restart p then (Some restart_wanted, d)
               else update_loop sdk px uc m command_id version running rs d)
      | Some e \<Rightarrow> (Some (failure (px_error_internal px) ''read Agent update state'' False), d))"

definition update_execute ::
    "update_sdk \<Rightarrow> processor_sdk \<Rightarrow> update_command_sdk \<Rightarrow> manager \<Rightarrow> string \<Rightarrow> update_round list \<Rightarrow> string \<Rightarrow> agent_command \<Rightarrow> update_disk
     \<Rightarrow> execution option \<times> update_disk" where
  "update_execute sdk px uc m running rounds command_id cmd d =
     (if ac_kind cmd \<noteq> uc_kind uc then (Some (fst (unsupported_executor px 0 command_id cmd d)), d)
      else case uc_decode uc cmd of
        None \<Rightarrow> (Some (failure (px_error_invalid_argument px) ''invalid Agent update command'' False), d)
      | Some version \<Rightarrow> update_loop sdk px uc m command_id version running rounds d)"

subsection \<open>A prepared update can be read back\<close>

lemma split_target:
  assumes "slash \<notin> set name"
  shows "split_on slash (target_of name) = [''versions'', name, binary_name]"
proof -
  have "slash \<notin> set ''versions''" by simp
  then have "split_on slash (''versions'' @ slash # name @ slash # binary_name) = ''versions'' # split_on slash (name @ slash # binary_name)"
    by (rule split_on_append)
  moreover have "split_on slash (name @ slash # binary_name) = name # split_on slash binary_name"
    by (rule split_on_append [OF assms])
  moreover have "split_on slash binary_name = [binary_name]"
    by (rule split_on_no_sep) (simp add: binary_name_def)
  ultimately show ?thesis by (simp add: target_of_def)
qed

lemma valid_target_of:
  assumes "slash \<notin> set name" and "name \<noteq> []" and "name \<noteq> [dot]" and "name \<noteq> [dot, dot]"
  shows "validate_target (target_of name)"
proof -
  have abs': "\<not> path_is_abs (target_of name)" by (simp add: path_is_abs_def target_of_def)
  have "clean_components False [''versions'', name, binary_name] [] = [''versions'', name, binary_name]"
    using assms by (simp add: binary_name_def)
  then have "path_clean (target_of name) = target_of name"
    using abs' by (simp add: path_clean_def split_target [OF assms(1)] Let_def) (simp add: target_of_def)
  with abs' assms(2) split_target [OF assms(1)] show ?thesis
    by (simp add: validate_target_def) (simp add: target_of_def)
qed

lemma release_target_valid:
  assumes "update_sdk_ok sdk" and "validate_manifest sdk mf"
  shows "validate_target (target_of (release_directory mf))"
proof (rule valid_target_of)
  show "slash \<notin> set (release_directory mf)"
    using assms hex_no_slash by (auto simp: release_directory_def validate_manifest_def update_sdk_ok_def)
  have "CHR ''-'' \<in> set (release_directory mf)" by (simp add: release_directory_def)
  then show "release_directory mf \<noteq> []" "release_directory mf \<noteq> [dot]" "release_directory mf \<noteq> [dot, dot]" by auto
qed

lemma read_state_written:
  assumes "update_sdk_ok sdk" and "validate_state sdk s" and "uk_marshal_state sdk s = Some raw"
    and "bucket_get (ud_states d) filename = Some (private_file (raw @ [CHR 0x0A]))"
  shows "read_state sdk filename d = Inr s"
proof -
  have "uk_unmarshal_state sdk (raw @ [CHR 0x0A]) = Some s" "length raw < maximum_update_state_bytes"
    using assms(1-3) by (auto simp: update_sdk_ok_def)
  with assms(2,4) show ?thesis by (simp add: read_state_def)
qed

lemma begin_update_restart:
  assumes "begin_update sdk m faults command_id version target now d = (Inr p, d')" and "pp_restart p"
  obtains previous raw where "ud_current d = Some previous" "validate_target previous" "previous \<noteq> target"
    "ud_current d' = Some target" "ud_previous d' = Some previous"
    "uk_marshal_state sdk \<lparr>us_api_version = update_state_api_version, us_command_id = command_id, us_previous_target = previous,
                           us_target_target = target, us_target_version = version, us_started_at = now\<rparr> = Some raw"
    "bucket_get (ud_states d') pending_filename = Some (private_file (raw @ [CHR 0x0A]))"
    "bucket_get (ud_states d') confirmed_filename = None"
proof -
  obtain previous where prev: "ud_current d = Some previous" "validate_target previous"
    "validate_managed_target sdk m previous = Inr ()" "read_state sdk pending_filename d = Inl StateNotExist"
    using assms(1) by (auto simp: begin_update_def split: sum.splits option.splits if_splits)
  let ?s = "\<lparr>us_api_version = update_state_api_version, us_command_id = command_id, us_previous_target = previous,
                           us_target_target = target, us_target_version = version, us_started_at = now\<rparr>"
  have ne: "previous \<noteq> target"
    using assms prev by (auto simp: begin_update_def Let_def elim!: then_step_elim)
  then have "switch_target sdk faults ?s d = (Inr p, d')" using assms(1) prev by (simp add: begin_update_def Let_def)
  from switch_target_effect [OF this] prev ne that show ?thesis by auto
qed

text \<open>A preparation that asks for a restart has switched to the new version and can be observed, confirmed or rolled back.\<close>

lemma update_prepare_restart:
  assumes res: "update_prepare sdk m env command_id version running d = (Inr p, d')" and ok: "update_sdk_ok sdk"
    and new: "observe sdk command_id version running d = Some StateNotFound" and restart: "pp_restart p" and now: "\<not> time_is_zero (pe_now env)"
  obtains previous target s where "ud_current d = Some previous" "ud_current d' = Some target" "ud_previous d' = Some previous" "previous \<noteq> target"
    "read_state sdk pending_filename d' = Inr s" "us_command_id s = command_id" "us_target_version s = version"
    "us_previous_target s = previous" "us_target_target s = target" "validate_target target"
    "bucket_get (ud_states d') confirmed_filename = None"
proof -
  obtain mf target d1 d2 where mf: "download_manifest sdk m version = Inr mf" "mf_version mf = version"
    and i: "download_and_install sdk m (pe_faults env) (pe_fetch_fails env) mf (pe_modified env) d = (Inr target, d1)"
    and p: "prune_versions (pe_faults env) target d1 = (Inr (), d2)"
    and b: "begin_update sdk m (pe_faults env) command_id version target (pe_now env) d2 = (Inr p, d')"
    and valid: "uk_valid_key sdk command_id" "uk_valid_version sdk version"
    using res new by (auto simp: update_prepare_def elim!: then_step_elim split: if_splits sum.splits)
  have target: "target = target_of (release_directory mf)" and g: "grows d d1" using download_and_install_effect [OF i] by auto
  have cur: "ud_current d2 = ud_current d" using prune_versions_effect [OF p] g by (auto simp: prunes_def grows_def)
  obtain previous raw where c: "ud_current d2 = Some previous" "validate_target previous" "previous \<noteq> target"
    "ud_current d' = Some target" "ud_previous d' = Some previous"
    "uk_marshal_state sdk \<lparr>us_api_version = update_state_api_version, us_command_id = command_id, us_previous_target = previous,
                           us_target_target = target, us_target_version = version, us_started_at = pe_now env\<rparr> = Some raw"
    "bucket_get (ud_states d') pending_filename = Some (private_file (raw @ [CHR 0x0A]))"
    "bucket_get (ud_states d') confirmed_filename = None"
    by (rule begin_update_restart [OF b restart])
  have t: "validate_target target"
    unfolding target by (rule release_target_valid [OF ok download_manifest_valid [OF mf(1)]])
  have "validate_state sdk \<lparr>us_api_version = update_state_api_version, us_command_id = command_id, us_previous_target = previous,
                           us_target_target = target, us_target_version = version, us_started_at = pe_now env\<rparr>"
    using valid c(2) t now by (simp add: validate_state_def)
  from read_state_written [OF ok this c(6,7)] show ?thesis
    using that c cur t by simp
qed

lemma observe_pending:
  "read_state sdk pending_filename d = Inr s \<Longrightarrow> us_command_id s = command_id \<Longrightarrow> us_target_version s = version \<Longrightarrow>
   observe sdk command_id version running d = Some ActivationPending"
  by (simp add: observe_def)

lemma read_state_cong: "bucket_get (ud_states d) n = bucket_get (ud_states d') n' \<Longrightarrow> read_state sdk n d = read_state sdk n' d'"
  by (simp add: read_state_def)

lemma read_state_Inr_file: "read_state sdk n d = Inr s \<Longrightarrow> \<exists>f. bucket_get (ud_states d) n = Some f"
  by (cases "bucket_get (ud_states d) n") (auto simp: read_state_def)

lemma confirm_pending:
  assumes read: "read_state sdk pending_filename d = Inr s" and "ud_current d = Some (us_target_target s)" and "us_target_version s = version"
  obtains d' where "confirm sdk (\<lambda>_. None) version d = (Inr True, d')" "ud_current d' = ud_current d"
    "read_state sdk pending_filename d' = Inl StateNotExist" "read_state sdk confirmed_filename d' = Inr s"
proof -
  obtain f where f: "bucket_get (ud_states d) pending_filename = Some f" using read_state_Inr_file [OF read] by blast
  let ?d = "d\<lparr>ud_states := bucket_put confirmed_filename f (bucket_delete pending_filename (ud_states d))\<rparr>"
  have "confirm sdk (\<lambda>_. None) version d = (Inr True, ?d)"
    using assms f by (simp add: confirm_def disk_step_def then_step_def)
  moreover have "read_state sdk confirmed_filename ?d = Inr s"
    using read f by (subst read_state_cong [of _ _ d pending_filename]) simp_all
  moreover have "read_state sdk pending_filename ?d = Inl StateNotExist" by (simp add: read_state_def)
  ultimately show ?thesis using that by simp
qed

lemma rolled_back:
  assumes read: "read_state sdk pending_filename d = Inr s" and prev: "ud_previous d = Some previous" and cur: "ud_current d = Some target"
  obtains d' where "launcher_exit target status d = Some d'" "ud_current d' = Some previous"
    "read_state sdk pending_filename d' = Inl StateNotExist" "read_state sdk failed_filename d' = Inr s"
    "bucket_get (ud_states d') confirmed_filename = bucket_get (ud_states d) confirmed_filename"
proof -
  obtain f where f: "bucket_get (ud_states d) pending_filename = Some f" using read_state_Inr_file [OF read] by blast
  let ?d = "d\<lparr>ud_current := Some previous, ud_states := bucket_put failed_filename f (bucket_delete pending_filename (ud_states d))\<rparr>"
  have "launcher_exit target status d = Some ?d" using f prev cur by (simp add: launcher_exit_def)
  moreover have "read_state sdk failed_filename ?d = Inr s"
    using read f by (subst read_state_cong [of _ _ d pending_filename]) simp_all
  moreover have "read_state sdk pending_filename ?d = Inl StateNotExist" by (simp add: read_state_def)
  ultimately show ?thesis using that by simp
qed

end
