(* ===== verification/UpdateProperties.thy ===== *)
theory UpdateProperties
  imports UpdateExecutor
begin

section \<open>The properties of self-update\<close>

text \<open>
  The sample disk has version \<open>0\<close> running and a verified binary of version \<open>1\<close> in place; the sample server has the manifest of version \<open>1\<close>.
\<close>

definition demo_digest :: string where "demo_digest = replicate 64 (CHR ''a'')"

definition demo_binary :: local_file where
  "demo_binary = \<lparr>lf_regular = True, lf_mode = private_mode, lf_content = ''new''\<rparr>"

definition demo_old_binary :: local_file where
  "demo_old_binary = \<lparr>lf_regular = True, lf_mode = private_mode, lf_content = ''old''\<rparr>"

definition demo_manifest :: manifest where
  "demo_manifest = \<lparr>mf_api_version = manifest_api_version, mf_version = ''1'', mf_published_at = 5, mf_runtime_assets_sha256 = demo_digest,
     mf_artifact = \<lparr>ra_file = binary_asset_name, ra_os = ''linux'', ra_arch = ''amd64'', ra_size = 3, ra_sha256 = demo_digest\<rparr>\<rparr>"

definition demo_new_name :: string where "demo_new_name = release_directory demo_manifest"

definition demo_switch :: update_state where
  "demo_switch = \<lparr>us_api_version = update_state_api_version, us_command_id = ''c'', us_previous_target = target_of ''0'',
     us_target_target = target_of demo_new_name, us_target_version = ''1'', us_started_at = 9\<rparr>"

definition demo_update_sdk :: update_sdk where
  "demo_update_sdk =
     \<lparr>uk_valid_key = (\<lambda>k. k = ''c''), uk_valid_version = (\<lambda>v. v = ''1''),
      uk_marshal_state = (\<lambda>s. if s = demo_switch then Some ''S'' else None),
      uk_unmarshal_state = (\<lambda>raw. if raw = ''S'' @ [CHR 0x0A] then Some demo_switch else None),
      uk_unmarshal_manifest = (\<lambda>_. Some demo_manifest), uk_sha256 = (\<lambda>_. demo_digest),
      uk_parse_url = (\<lambda>_. Some \<lparr>pu_scheme = https, pu_has_user = False, pu_host = ''h'', pu_hostname = ''h'', pu_port = [],
                                pu_raw_query = [], pu_fragment = []\<rparr>),
      uk_candidate_version = (\<lambda>_. Some ''1''), uk_resolve = (\<lambda>_. Some ''/s/versions/0/relayward-agent'')\<rparr>"

definition demo_manager :: manager where
  "demo_manager = \<lparr>um_state_directory = ''/s'', um_marker_path = ''/m'', um_base_url = ''https://h'', um_repository = ''o/r'',
     um_allow_insecure = False, um_client = \<lparr>hc_request_ok = (\<lambda>_. True), hc_do = (\<lambda>_. Some \<lparr>rp_url = ''https://h'', rp_status = status_ok,
       rp_content_range = [], rp_content_length = 1, rp_body = ''M'', rp_stop = None\<rparr>)\<rparr>\<rparr>"

definition demo_version :: "local_file \<Rightarrow> time \<Rightarrow> version_dir" where
  "demo_version f t = \<lparr>vd_directory = True, vd_binary = Some f, vd_partial = None, vd_modified = t\<rparr>"

definition demo_disk :: update_disk where
  "demo_disk = \<lparr>ud_states = [], ud_current = Some (target_of ''0''), ud_previous = None,
     ud_versions = [(''0'', demo_version demo_old_binary 1), (demo_new_name, demo_version demo_binary 2)]\<rparr>"

definition demo_switched :: update_disk where
  "demo_switched = demo_disk\<lparr>ud_states := [(pending_filename, private_file (''S'' @ [CHR 0x0A]))],
     ud_current := Some (target_of demo_new_name), ud_previous := Some (target_of ''0'')\<rparr>"

definition demo_prepare_env :: prepare_env where
  "demo_prepare_env = \<lparr>pe_marker = MarkerContent demo_digest, pe_faults = (\<lambda>_. None), pe_fetch_fails = (\<lambda>_. False),
     pe_modified = 3, pe_now = 9\<rparr>"

lemma demo_update_sdk_ok: "update_sdk_ok demo_update_sdk"
  unfolding update_sdk_ok_def
  by (auto simp: demo_update_sdk_def maximum_update_state_bytes_def split: if_splits)

lemma demo_manifest_valid: "validate_manifest demo_update_sdk demo_manifest"
  by (simp add: validate_manifest_def demo_manifest_def demo_update_sdk_def time_is_zero_def maximum_binary_bytes_def demo_digest_def
      valid_sha256_def lower_hex_def list_all_iff)

lemma demo_download: "download_manifest demo_update_sdk demo_manager ''1'' = Inr demo_manifest"
proof -
  have "download_bytes demo_update_sdk demo_manager u maximum_manifest_bytes = Inr ''M''" for u
    by (simp add: download_bytes_def demo_manager_def reply_is_secure_def copy_body_def maximum_manifest_bytes_def)
      (simp add: demo_update_sdk_def)
  then show ?thesis
    using demo_manifest_valid by (simp add: download_manifest_def decode_manifest_def) (simp add: demo_update_sdk_def)
qed

lemma demo_names: "demo_new_name \<noteq> ''0''" "''0'' \<noteq> demo_new_name" "''0'' < demo_new_name"
  by (simp_all add: demo_new_name_def release_directory_def demo_manifest_def less_char_def)

lemma demo_targets: "target_of ''0'' \<noteq> target_of demo_new_name"
  using demo_names by (simp add: target_of_def)

lemma demo_observe: "observe demo_update_sdk ''c'' ''1'' ''0'' demo_disk = Some StateNotFound"
  by (simp add: observe_def read_state_def demo_disk_def)

lemma demo_prepared:
  "update_prepare demo_update_sdk demo_manager demo_prepare_env ''c'' ''1'' ''0'' demo_disk =
     (Inr \<lparr>pp_version = ''1'', pp_restart = True, pp_activated = False\<rparr>, demo_switched)"
proof -
  have get: "bucket_get (ud_versions demo_disk) demo_new_name = Some (demo_version demo_binary 2)"
    using demo_names by (simp add: demo_disk_def bucket_get_def)
  have existing: "check_existing demo_update_sdk demo_manifest demo_binary = Inr ()"
    by (simp add: check_existing_def demo_binary_def executable_bits_def private_mode_def maximum_binary_bytes_def check_candidate_def)
      (simp add: demo_update_sdk_def demo_manifest_def)
  have create: "create_version demo_new_name t demo_disk = demo_disk" for t by (simp add: create_version_def get)
  have i: "download_and_install demo_update_sdk demo_manager (\<lambda>_. None) (\<lambda>_. False) demo_manifest 3 demo_disk =
      (Inr (target_of demo_new_name), demo_disk)"
    using existing
    by (simp add: download_and_install_def Let_def disk_step_def then_step_def demo_new_name_def [symmetric] create get)
      (simp add: demo_version_def create)
  have few: "drop retained_versions (installed_newest_first demo_disk) = []"
  proof -
    have "length (filter (\<lambda>e. is_installed (snd e)) (ud_versions demo_disk)) \<le> length (ud_versions demo_disk)" by (rule length_filter_le)
    then show ?thesis by (simp add: installed_newest_first_def retained_versions_def) (simp add: demo_disk_def)
  qed
  have p: "prune_versions (\<lambda>_. None) (target_of demo_new_name) demo_disk = (Inr (), demo_disk)"
    by (simp add: prune_versions_def few prunable_def then_step_def disk_step_def)
  have old: "validate_target (target_of ''0'')" by (rule valid_target_of) simp_all
  have managed: "validate_managed_target demo_update_sdk demo_manager (target_of ''0'') = Inr ()"
    by (simp add: validate_managed_target_def demo_update_sdk_def demo_manager_def path_join_def path_clean_def path_is_abs_def Let_def
        path_rel_def path_components_def)
  have b: "begin_update demo_update_sdk demo_manager (\<lambda>_. None) ''c'' ''1'' (target_of demo_new_name) 9 demo_disk =
      (Inr \<lparr>pp_version = ''1'', pp_restart = True, pp_activated = False\<rparr>, demo_switched)"
  proof -
    have s: "switch_target demo_update_sdk (\<lambda>_. None) demo_switch demo_disk =
        (Inr \<lparr>pp_version = ''1'', pp_restart = True, pp_activated = False\<rparr>, demo_switched)"
    proof -
      have "uk_marshal_state demo_update_sdk demo_switch = Some ''S''" by (simp add: demo_update_sdk_def)
      then show ?thesis
        by (simp add: switch_target_def atomic_symlink_def remove_terminal_states_def remove_state_def write_json_atomic_def then_step_def disk_step_def)
          (simp add: demo_switched_def demo_switch_def demo_disk_def bucket_delete_def bucket_put.simps)
    qed
    have "read_state demo_update_sdk pending_filename demo_disk = Inl StateNotExist" by (simp add: read_state_def demo_disk_def)
    moreover have "ud_current demo_disk = Some (target_of ''0'')" by (simp add: demo_disk_def)
    ultimately show ?thesis
      using old managed demo_targets s by (simp add: begin_update_def Let_def demo_switch_def)
  qed
  have marker: "verify_runtime_assets (MarkerContent demo_digest) (mf_runtime_assets_sha256 demo_manifest) = Inr ()"
    by (simp add: verify_runtime_assets_def demo_manifest_def demo_digest_def trim_space_def white_space_def)
  have "uk_valid_key demo_update_sdk ''c''" "uk_valid_version demo_update_sdk ''1''" "mf_version demo_manifest = ''1''"
    by (simp_all add: demo_update_sdk_def demo_manifest_def)
  then show ?thesis
    using demo_observe demo_download marker i p b
    by (simp add: update_prepare_def demo_prepare_env_def then_step_def)
qed

lemma demo_update_inv: "update_inv demo_disk"
proof -
  have "version_of_target (target_of ''0'') = [''0'']" by (rule version_of_release) simp_all
  then show ?thesis
    using demo_names
    by (simp add: update_inv_def bucket_ok_def demo_disk_def target_binary_def binaries_def bucket_get_def demo_version_def)
qed

text \<open>C18. Preparing an update cannot break the agent that is installed: whatever the server sends and whichever file system step is refused, reports
  an error late, or is the last one of the process, the binary behind \<open>current\<close> stays in place byte for byte, and \<open>current\<close> itself either stays or
  points to a binary that has the SHA-256 of the manifest and reports the version asked for.\<close>

theorem update_prepare_is_safe:
  assumes "update_sdk_ok sdk" and "update_prepare sdk m env command_id version running d = (r, d')"
    and "ud_current d = Some t" and "target_binary d t = Some f"
  shows "target_binary d' t = Some f \<and>
    (ud_current d' = Some t \<or>
     (\<exists>target mf g. ud_current d' = Some target \<and> target_binary d' target = Some g \<and> verified_binary sdk mf g \<and>
        mf_version mf = version \<and> download_manifest sdk m version = Inr mf))"
  using update_prepare_effect [OF assms(2,1) _ assms(4)] assms(3) by auto

theorem update_prepare_is_safe_witness:
  "target_binary demo_switched (target_of ''0'') = Some demo_old_binary \<and>
    (ud_current demo_switched = Some (target_of ''0'') \<or>
     (\<exists>target mf g. ud_current demo_switched = Some target \<and> target_binary demo_switched target = Some g \<and>
        verified_binary demo_update_sdk mf g \<and> mf_version mf = ''1'' \<and> download_manifest demo_update_sdk demo_manager ''1'' = Inr mf))"
proof (rule update_prepare_is_safe [OF demo_update_sdk_ok demo_prepared])
  show "ud_current demo_disk = Some (target_of ''0'')" by (simp add: demo_disk_def)
  have "version_of_target (target_of ''0'') = [''0'']" by (rule version_of_release) simp_all
  then show "target_binary demo_disk (target_of ''0'') = Some demo_old_binary"
    by (simp add: target_binary_def binaries_def demo_disk_def bucket_get_def demo_version_def)
qed

text \<open>C19. The launcher always finds an agent to start: over every sequence of preparations, confirmations and ends of the agent, with all
  faults and deaths in between, those of the launcher too, \<open>current\<close> points to an installed binary, and while an update is pending so does \<open>previous\<close>.\<close>

theorem launcher_always_finds_agent:
  assumes "update_sdk_ok sdk" and "update_inv d" and "update_run sdk m d d'"
  shows "\<exists>t f. ud_current d' = Some t \<and> target_binary d' t = Some f \<and>
    (bucket_get (ud_states d') pending_filename = None \<or> (\<exists>p g. ud_previous d' = Some p \<and> target_binary d' p = Some g))"
  using update_run_inv [OF assms(3,1,2)] by (auto simp: update_inv_def)

theorem launcher_always_finds_agent_witness:
  "\<exists>t f. ud_current demo_switched = Some t \<and> target_binary demo_switched t = Some f \<and>
    (bucket_get (ud_states demo_switched) pending_filename = None \<or> (\<exists>p g. ud_previous demo_switched = Some p \<and> target_binary demo_switched p = Some g))"
  by (rule launcher_always_finds_agent [OF demo_update_sdk_ok demo_update_inv r_into_rtranclp])
    (rule update_step.prepare [OF demo_prepared])

text \<open>C20. The life cycle of an update: a preparation that asks for a restart has switched \<open>current\<close> from the old to the new version and is
  observed as pending. If the new version confirms it, the executor answers the command with the activated version and \<open>current\<close> stays. If
  the new version ends instead, the launcher puts \<open>current\<close> back, and the executor answers that the update failed; in neither case is
  anything prepared again.\<close>

theorem update_life_cycle:
  assumes ok: "update_sdk_ok sdk" and prepared: "update_prepare sdk m env command_id version running d = (Inr p, d1)"
    and fresh: "observe sdk command_id version running d = Some StateNotFound" and restart: "pp_restart p"
    and now: "\<not> time_is_zero (pe_now env)" and encoded: "uc_encode_output uc version = Some out" and alone: "ur_others round = (\<lambda>d. d)"
  shows "\<exists>old new. ud_current d = Some old \<and> ud_current d1 = Some new \<and> old \<noteq> new \<and>
    observe sdk command_id version running' d1 = Some ActivationPending \<and>
    (\<exists>d2. confirm sdk (\<lambda>_. None) version d1 = (Inr True, d2) \<and> ud_current d2 = Some new \<and>
       update_loop sdk px uc m command_id version running' [round] d2 = (Some (output_of out), d2)) \<and>
    (\<exists>d3. launcher_exit new status d1 = Some d3 \<and> ud_current d3 = Some old \<and>
       update_loop sdk px uc m command_id version running' [round] d3 =
         (Some (failure (px_error_unavailable px) ''Agent update failed health validation and was rolled back'' False), d3))"
proof -
  obtain old new s where s: "ud_current d = Some old" "ud_current d1 = Some new" "ud_previous d1 = Some old" "old \<noteq> new"
    "read_state sdk pending_filename d1 = Inr s" "us_command_id s = command_id" "us_target_version s = version"
    "us_previous_target s = old" "us_target_target s = new" "validate_target new" "bucket_get (ud_states d1) confirmed_filename = None"
    by (rule update_prepare_restart [OF prepared ok fresh restart now])
  have pending: "observe sdk command_id version running' d1 = Some ActivationPending" by (rule observe_pending [OF s(5-7)])
  have "ud_current d1 = Some (us_target_target s)" using s(2,9) by simp
  from confirm_pending [OF s(5) this s(7)] obtain d2 where d2: "confirm sdk (\<lambda>_. None) version d1 = (Inr True, d2)"
    "ud_current d2 = ud_current d1" "read_state sdk pending_filename d2 = Inl StateNotExist" "read_state sdk confirmed_filename d2 = Inr s" .
  have "observe sdk command_id version running' d2 = None" using d2(3,4) s(6,7) by (simp add: observe_def)
  then have activated: "update_loop sdk px uc m command_id version running' [round] d2 = (Some (output_of out), d2)"
    using encoded alone by (simp add: Let_def)
  from rolled_back [OF s(5,3,2), of status] obtain d3 where d3: "launcher_exit new status d1 = Some d3" "ud_current d3 = Some old"
    "read_state sdk pending_filename d3 = Inl StateNotExist" "read_state sdk failed_filename d3 = Inr s"
    "bucket_get (ud_states d3) confirmed_filename = bucket_get (ud_states d1) confirmed_filename" .
  have "read_state sdk confirmed_filename d3 = Inl StateNotExist" using d3(5) s(11) by (simp add: read_state_def)
  then have "observe sdk command_id version running' d3 = Some ActivationFailed" using d3(3,4) s(6,7) by (simp add: observe_def)
  then have "update_loop sdk px uc m command_id version running' [round] d3 =
      (Some (failure (px_error_unavailable px) ''Agent update failed health validation and was rolled back'' False), d3)"
    using alone by (simp add: Let_def)
  with s pending d2 activated d3 show ?thesis by auto
qed

definition demo_update_round :: update_round where
  "demo_update_round = \<lparr>ur_others = (\<lambda>d. d), ur_wait_ok = True, ur_prepare = demo_prepare_env\<rparr>"

definition demo_uc :: update_command_sdk where
  "demo_uc = \<lparr>uc_kind = ''agent.update'', uc_decode = (\<lambda>c. Some (ac_payload c)), uc_encode_output = Some\<rparr>"

definition demo_update_px :: processor_sdk where
  "demo_update_px = \<lparr>px_center_command = [], px_decode_command = (\<lambda>_. None), px_valid_ack = (\<lambda>_. True),
     px_error_unavailable = ''unavailable'', px_error_unsupported = ''unsupported'', px_error_invalid_argument = ''invalid'',
     px_error_conflict = ''conflict'', px_error_internal = ''internal'', px_maximum_execution = 300\<rparr>"

theorem update_life_cycle_witness:
  "\<exists>old new. ud_current demo_disk = Some old \<and> ud_current demo_switched = Some new \<and> old \<noteq> new \<and>
    observe demo_update_sdk ''c'' ''1'' ''1'' demo_switched = Some ActivationPending \<and>
    (\<exists>d2. confirm demo_update_sdk (\<lambda>_. None) ''1'' demo_switched = (Inr True, d2) \<and> ud_current d2 = Some new \<and>
       update_loop demo_update_sdk demo_update_px demo_uc demo_manager ''c'' ''1'' ''1'' [demo_update_round] d2 = (Some (output_of ''1''), d2)) \<and>
    (\<exists>d3. launcher_exit new 1 demo_switched = Some d3 \<and> ud_current d3 = Some old \<and>
       update_loop demo_update_sdk demo_update_px demo_uc demo_manager ''c'' ''1'' ''1'' [demo_update_round] d3 =
         (Some (failure (px_error_unavailable demo_update_px) ''Agent update failed health validation and was rolled back'' False), d3))"
  by (rule update_life_cycle [OF demo_update_sdk_ok demo_prepared demo_observe])
    (simp_all add: demo_prepare_env_def time_is_zero_def demo_uc_def demo_update_round_def)

text \<open>Pruning keeps the three newest installed versions, the one that is being installed and those behind \<open>current\<close> and \<open>previous\<close>, and
  removes every other installed version: at most six are left.\<close>

theorem prune_keeps_newest_and_linked:
  assumes "bucket_ok (ud_versions d)" and "prune_versions faults target d = (Inr (), d')"
  shows "map fst (installed_newest_first d') =
      filter (\<lambda>n. n \<in> set (map fst (take 3 (installed_newest_first d))) \<union> set (protected_versions target d)) (map fst (installed_newest_first d)) \<and>
    length (installed_newest_first d') \<le> 6"
proof -
  let ?old = "installed_newest_first d" and ?P = "protected_versions target d"
  let ?gone = "prunable ?P ?old"
  have versions: "ud_versions d' = filter (\<lambda>e. fst e \<notin> set ?gone) (ud_versions d)" using prune_versions_effect [OF assms(2)] by simp
  have new: "installed_newest_first d' = filter (\<lambda>e. fst e \<notin> set ?gone) ?old"
    unfolding installed_newest_first_def versions
    by (simp add: filter_sort rev_filter [symmetric] conj_commute)
  have dist: "distinct (map fst ?old)"
  proof -
    have "distinct (map fst (filter (\<lambda>e. is_installed (snd e)) (ud_versions d)))"
      using assms(1) by (intro bucket_ok_distinct filter_sorted)
    then show ?thesis
      by (auto simp: installed_newest_first_def distinct_map rev_map [symmetric] inj_on_def distinct_sort)
  qed
  have gone: "n \<in> set ?gone \<longleftrightarrow> n \<notin> set (map fst (take 3 ?old)) \<union> set ?P" if "n \<in> set (map fst ?old)" for n
  proof -
    have split: "map fst ?old = map fst (take 3 ?old) @ map fst (drop 3 ?old)" by (metis append_take_drop_id map_append)
    then have "set (map fst (take 3 ?old)) \<inter> set (map fst (drop 3 ?old)) = {}" using dist by (metis distinct_append)
    then have "n \<in> set (map fst (drop 3 ?old)) \<longleftrightarrow> n \<notin> set (map fst (take 3 ?old))"
      using that split by (metis (no_types, lifting) IntI Un_iff empty_iff set_append)
    then show ?thesis by (simp add: prunable_def retained_versions_def)
  qed
  have names: "map fst (installed_newest_first d') =
      filter (\<lambda>n. n \<in> set (map fst (take 3 ?old)) \<union> set ?P) (map fst ?old)"
  proof -
    have "map fst (installed_newest_first d') = filter (\<lambda>n. n \<notin> set ?gone) (map fst ?old)"
      by (simp add: new filter_map o_def)
    also have "\<dots> = filter (\<lambda>n. n \<in> set (map fst (take 3 ?old)) \<union> set ?P) (map fst ?old)"
      using gone by (intro filter_cong [OF refl]) auto
    finally show ?thesis .
  qed
  have "length (installed_newest_first d') = card (set (map fst (installed_newest_first d')))"
  proof -
    have "distinct (map fst (installed_newest_first d'))" unfolding names using dist by (rule distinct_filter)
    from distinct_card [OF this] show ?thesis by simp
  qed
  also have "\<dots> \<le> card (set (map fst (take 3 ?old)) \<union> set ?P)" unfolding names by (intro card_mono) auto
  also have "\<dots> \<le> 6"
  proof -
    have one: "length (version_of_target t) \<le> 1" for t by (simp add: version_of_target_def split: list.splits)
    have "length ?P \<le> 3"
      using one [of target] one [of "the (ud_current d)"] one [of "the (ud_previous d)"]
      by (auto simp: protected_versions_def split: option.splits)
    moreover have "card (set ?P) \<le> length ?P" "card (set (map fst (take 3 ?old))) \<le> length (map fst (take 3 ?old))" by (rule card_length)+
    moreover have "length (map fst (take 3 ?old)) \<le> 3" by simp
    ultimately show ?thesis using card_Un_le [of "set (map fst (take 3 ?old))" "set ?P"] by linarith
  qed
  finally show ?thesis using names by simp
qed

theorem prune_keeps_newest_and_linked_witness:
  "length (installed_newest_first (snd (prune_versions (\<lambda>_. None) (target_of ''0'') demo_disk))) \<le> 6"
proof -
  have ok: "bucket_ok (ud_versions demo_disk)" using demo_update_inv by (simp add: update_inv_def)
  have quiet: "fst (remove_versions (\<lambda>_. None) names d) = Inr ()" for names d
    by (induction names arbitrary: d) (simp_all add: then_step_def disk_step_def)
  have "\<exists>d'. prune_versions (\<lambda>_. None) (target_of ''0'') demo_disk = (Inr (), d')"
    unfolding prune_versions_def using quiet [of "prunable (protected_versions (target_of ''0'') demo_disk) (installed_newest_first demo_disk)" demo_disk]
    by (auto simp: then_step_def disk_step_def split: prod.splits sum.splits)
  then obtain d' where "prune_versions (\<lambda>_. None) (target_of ''0'') demo_disk = (Inr (), d')" ..
  with prune_keeps_newest_and_linked [OF ok this] show ?thesis by simp
qed

end
