(* ===== verification/Actions.thy ===== *)
theory Actions
  imports Prelude
begin

section \<open>Actions on a world\<close>

text \<open>
  The engine and the supervisor change a world step by step, and an error leaves the rest out: an action maps a world to an error or a value and the
  world after it. Go's \<^verbatim>\<open>if err != nil { return err }\<close> between two calls is \<open>bind_act\<close>.
\<close>

definition return_act :: "'a \<Rightarrow> 'w \<Rightarrow> ('e + 'a) \<times> 'w" where
  "return_act x w = (Inr x, w)"

definition fail_act :: "'e \<Rightarrow> 'w \<Rightarrow> ('e + 'a) \<times> 'w" where
  "fail_act e w = (Inl e, w)"

definition bind_act :: "('w \<Rightarrow> ('e + 'a) \<times> 'w) \<Rightarrow> ('a \<Rightarrow> 'w \<Rightarrow> ('e + 'b) \<times> 'w) \<Rightarrow> 'w \<Rightarrow> ('e + 'b) \<times> 'w" where
  "bind_act m f w = (case m w of (Inl e, w) \<Rightarrow> (Inl e, w) | (Inr x, w) \<Rightarrow> f x w)"

text \<open>The two ways on after a call, and a call whose error is only logged.\<close>

definition handle_act :: "('w \<Rightarrow> ('e + 'a) \<times> 'w) \<Rightarrow> ('e \<Rightarrow> 'w \<Rightarrow> 'r \<times> 'w) \<Rightarrow> ('a \<Rightarrow> 'w \<Rightarrow> 'r \<times> 'w) \<Rightarrow> 'w \<Rightarrow> 'r \<times> 'w" where
  "handle_act m h f w = (case m w of (Inl e, w) \<Rightarrow> h e w | (Inr x, w) \<Rightarrow> f x w)"

definition logged :: "('w \<Rightarrow> 'r \<times> 'w) \<Rightarrow> 'w \<Rightarrow> 'w" where
  "logged m w = snd (m w)"

text \<open>A loop that the first error leaves, and one that goes on and joins the errors.\<close>

fun each_act :: "('x \<Rightarrow> 'w \<Rightarrow> ('e + unit) \<times> 'w) \<Rightarrow> 'x list \<Rightarrow> 'w \<Rightarrow> ('e + unit) \<times> 'w" where
  "each_act f [] w = (Inr (), w)"
| "each_act f (x # xs) w = bind_act (f x) (\<lambda>_. each_act f xs) w"

definition errors_of :: "'e + 'a \<Rightarrow> 'e list" where
  "errors_of r = (case r of Inl e \<Rightarrow> [e] | Inr _ \<Rightarrow> [])"

fun try_each :: "('x \<Rightarrow> 'w \<Rightarrow> ('e + unit) \<times> 'w) \<Rightarrow> 'x list \<Rightarrow> 'w \<Rightarrow> 'e list \<times> 'w" where
  "try_each f [] w = ([], w)"
| "try_each f (x # xs) w =
     (case f x w of (r, w) \<Rightarrow> case try_each f xs w of (es, w) \<Rightarrow> (errors_of r @ es, w))"

subsection \<open>Effects\<close>

text \<open>
  An action has an effect \<open>R\<close> if every run of it, successful or not, relates the world before to the world after by \<open>R\<close>. Effects are composed
  along the actions, for every reflexive and transitive \<open>R\<close>.
\<close>

definition effect :: "('w \<Rightarrow> 'w \<Rightarrow> bool) \<Rightarrow> ('w \<Rightarrow> 'r \<times> 'w) \<Rightarrow> bool" where
  "effect R m \<longleftrightarrow> (\<forall>w r w'. m w = (r, w') \<longrightarrow> R w w')"

lemma effectI [intro?]: "(\<And>w r w'. m w = (r, w') \<Longrightarrow> R w w') \<Longrightarrow> effect R m"
  by (simp add: effect_def)

lemma effectD: "effect R m \<Longrightarrow> m w = (r, w') \<Longrightarrow> R w w'"
  by (simp add: effect_def)

lemma bind_act_elim:
  assumes "bind_act m f w = (r, w')"
  obtains (stopped) e where "m w = (Inl e, w')" "r = Inl e"
  | (continued) x w1 where "m w = (Inr x, w1)" "f x w1 = (r, w')"
  using assms by (cases "m w"; cases "fst (m w)") (auto simp: bind_act_def)

lemma handle_act_elim:
  assumes "handle_act m h f w = (r, w')"
  obtains (failed) e w1 where "m w = (Inl e, w1)" "h e w1 = (r, w')"
  | (continued) x w1 where "m w = (Inr x, w1)" "f x w1 = (r, w')"
  using assms by (cases "m w"; cases "fst (m w)") (auto simp: handle_act_def)

lemma effect_return: "reflp R \<Longrightarrow> effect R (return_act x)"
  by (auto simp: effect_def return_act_def reflp_def)

lemma effect_fail: "reflp R \<Longrightarrow> effect R (fail_act e)"
  by (auto simp: effect_def fail_act_def reflp_def)

lemma effect_bind:
  assumes "transp R" and "effect R m" and "\<And>x. effect R (f x)"
  shows "effect R (bind_act m f)"
proof
  fix w r w' assume "bind_act m f w = (r, w')"
  then show "R w w'"
  proof (cases rule: bind_act_elim)
    case (stopped e)
    then show ?thesis by (auto intro: effectD [OF assms(2)])
  next
    case (continued x w1)
    then have "R w w1" "R w1 w'" by (auto intro: effectD [OF assms(2)] effectD [OF assms(3)])
    with assms(1) show ?thesis by (rule transpD)
  qed
qed

lemma effect_each:
  assumes "reflp R" and "transp R" and "\<And>x. effect R (f x)"
  shows "effect R (each_act f xs)"
proof (induction xs)
  case Nil
  then show ?case using assms(1) by (auto simp: effect_def reflp_def)
next
  case (Cons x xs)
  have "each_act f (x # xs) = bind_act (f x) (\<lambda>_. each_act f xs)" by (simp add: fun_eq_iff)
  with effect_bind [OF assms(2,3) Cons] show ?case by simp
qed

lemma effect_try_each:
  assumes "reflp R" and "transp R" and "\<And>x. effect R (f x)"
  shows "effect R (try_each f xs)"
proof (induction xs)
  case Nil
  then show ?case using assms(1) by (auto simp: effect_def reflp_def)
next
  case (Cons x xs)
  show ?case
  proof
    fix w r w' assume run: "try_each f (x # xs) w = (r, w')"
    obtain r1 w1 r2 w2 where "f x w = (r1, w1)" "try_each f xs w1 = (r2, w2)" by (meson surj_pair)
    with run have "R w w1" "R w1 w'" by (auto intro: effectD [OF assms(3)] effectD [OF Cons])
    with assms(2) show "R w w'" by (rule transpD)
  qed
qed

lemmas effect_rules = effect_return effect_fail effect_bind effect_each effect_try_each

end
