(* ===== verification/PolicyEngine.thy ===== *)
theory PolicyEngine
  imports PolicyRuns EventQueue CommandProcessor Actions
begin

section \<open>The policy engine (internal/policy/engine.go)\<close>

text \<open>
  The engine connects three parts: the policy store, the plugins that run (\<^verbatim>\<open>runtimeHost\<close>) and the event queue (\<^verbatim>\<open>eventSink\<close>).
  One cycle collects what the plugins have seen, brings the plugins to the desired state, and reports traffic and statuses as
  events. A policy command installs a snapshot and applies it in the same way.

  All of it changes one world: the database with the storage faults still to come, the sink, the plugins, and what the operations
  read from outside, which is the clock and the order in which Go goes through a map. The plugins are the parameter \<open>host\<close>, the queue is the
  parameter \<open>put\<close>, \<open>None\<close> while no sink has been set. The lock \<^verbatim>\<open>cycle\<close> lets one cycle or command run at a time, so each is one function.
\<close>

subsection \<open>Data\<close>

datatype capability = TrafficCounters | RecentActivity | ServiceControl | DynamicBlocking

record runtime_info =
  ri_plugin_id :: string
  ri_instance_id :: string
  ri_capabilities :: "string list"
  ri_stream_id :: string

record telemetry_event =
  te_sequence :: u64
  te_event_id :: string
  te_authorization_id :: string
  te_service_id :: string
  te_observed_at_unix_nano :: int
  te_source_ip :: string
  te_destination :: string
  te_observation_kind :: string
  te_destination_port :: u32
  te_network :: string
  te_protocol :: string
  te_action :: string

record telemetry_response =
  tr_collection_status :: string
  tr_counters :: "traffic_counter option list"
  tr_events :: "telemetry_event list"
  tr_next_sequence :: u64
  tr_has_more :: bool

record access_event =
  ae_source_stream_id :: string
  ae_source_event_id :: string
  ae_plugin_id :: string
  ae_service_id :: string
  ae_authorization_id :: string
  ae_source_ip :: string
  ae_destination :: string
  ae_observation_kind :: string
  ae_destination_port :: u32
  ae_network :: string
  ae_protocol :: string
  ae_action :: string

datatype engine_payload =
    CollectionPayload (cp_plugin_id: string) (cp_status: string)
  | AccessPayload access_event
  | TrafficPayload traffic_snapshot
  | StatusPayload policy_status

text \<open>The constants and functions of the SDK.\<close>

record engine_sdk =
  ek_has :: "string list \<Rightarrow> capability \<Rightarrow> bool"
  ek_action_accepted :: string
  ek_event_collection :: string
  ek_event_access :: string
  ek_event_traffic :: string
  ek_event_status :: string
  ek_command_kind :: string
  ek_decode :: "agent_command \<Rightarrow> reconcile_command option"
  ek_encode_output :: "u64 \<Rightarrow> u32 \<Rightarrow> string option"

record 'h runtime_host =
  rh_running :: "'h \<Rightarrow> runtime_info list"
  rh_collect :: "string \<Rightarrow> u64 \<Rightarrow> 'h \<Rightarrow> telemetry_response option \<times> 'h"
  rh_set_service :: "string \<Rightarrow> service_state_request \<Rightarrow> 'h \<Rightarrow> bool \<times> 'h"
  rh_replace_blocks :: "string \<Rightarrow> replace_blocks_request \<Rightarrow> 'h \<Rightarrow> bool \<times> 'h"

type_synonym 's engine_sink = "('s \<Rightarrow> string \<Rightarrow> time \<Rightarrow> engine_payload \<Rightarrow> (queue_error + event) \<times> 's) option"

datatype engine_error =
    StoreError policy_error | SinkError queue_error | NoEventSink | HostError | NoTelemetryStream | UnexpectedCounters | UnexpectedEvents
  | EmptyPageAdvanced | PageLimitReached | PluginUnavailable string | LacksServiceControl string | LacksActivity string | LacksBlocking string

record ('s, 'h) engine_world =
  ew_db :: policy_db
  ew_faults :: "policy_error option list"
  ew_sink :: 's
  ew_host :: 'h
  ew_clock :: "nat \<Rightarrow> time"
  ew_order :: "nat \<Rightarrow> string list \<Rightarrow> string list"
  ew_ticks :: nat

definition maximum_telemetry_pages :: nat where
  "maximum_telemetry_pages = 16"

text \<open>\<^verbatim>\<open>time.Unix(0, n)\<close>: a Unix time in nanoseconds.\<close>

definition time_of_unix_nano :: "int \<Rightarrow> time" where
  "time_of_unix_nano n = unix_epoch + n"

subsection \<open>Actions on the world\<close>

type_synonym ('a, 's, 'h) engine_act = "('s, 'h) engine_world \<Rightarrow> (engine_error + 'a) \<times> ('s, 'h) engine_world"

definition now_act :: "(time, 's, 'h) engine_act" where
  "now_act w = (Inr (ew_clock w (ew_ticks w)), w\<lparr>ew_ticks := Suc (ew_ticks w)\<rparr>)"

definition order_act :: "(string list \<Rightarrow> string list, 's, 'h) engine_act" where
  "order_act w = (Inr (ew_order w (ew_ticks w)), w\<lparr>ew_ticks := Suc (ew_ticks w)\<rparr>)"

definition on_store :: "(policy_error option \<Rightarrow> policy_db \<Rightarrow> (policy_error + 'a) \<times> policy_db) \<Rightarrow> ('a, 's, 'h) engine_act" where
  "on_store f w =
     (let (fault, faults) = pop_fault (ew_faults w);
          (r, db) = f fault (ew_db w)
      in (map_sum StoreError (\<lambda>x. x) r, w\<lparr>ew_db := db, ew_faults := faults\<rparr>))"

text \<open>An operation with two transactions, and a read, which a fault makes fail.\<close>

definition on_store2 :: "(policy_error option \<Rightarrow> policy_error option \<Rightarrow> policy_db \<Rightarrow> (policy_error + 'a) \<times> policy_db) \<Rightarrow> ('a, 's, 'h) engine_act" where
  "on_store2 f w =
     (let (fault, faults) = pop_fault (ew_faults w) in on_store (f fault) (w\<lparr>ew_faults := faults\<rparr>))"

definition read_store :: "(policy_db \<Rightarrow> policy_error + 'a) \<Rightarrow> ('a, 's, 'h) engine_act" where
  "read_store f = on_store (\<lambda>fault db. (case fault of Some e \<Rightarrow> Inl e | None \<Rightarrow> f db, db))"

definition need_sink :: "'s engine_sink \<Rightarrow> (unit, 's, 'h) engine_act" where
  "need_sink put w = (if put = None then (Inl NoEventSink, w) else (Inr (), w))"

definition put_act :: "'s engine_sink \<Rightarrow> string \<Rightarrow> time \<Rightarrow> engine_payload \<Rightarrow> (unit, 's, 'h) engine_act" where
  "put_act put kind t payload w =
     (case put of
        None \<Rightarrow> (Inl NoEventSink, w)
      | Some p \<Rightarrow> (case p (ew_sink w) kind t payload of (r, s) \<Rightarrow> (map_sum SinkError (\<lambda>_. ()) r, w\<lparr>ew_sink := s\<rparr>)))"

definition on_host :: "('h \<Rightarrow> 'a option \<times> 'h) \<Rightarrow> ('a, 's, 'h) engine_act" where
  "on_host f w =
     (case f (ew_host w) of (r, h) \<Rightarrow> (case r of None \<Rightarrow> Inl HostError | Some x \<Rightarrow> Inr x, w\<lparr>ew_host := h\<rparr>))"

definition ask_host :: "('h \<Rightarrow> bool \<times> 'h) \<Rightarrow> (unit, 's, 'h) engine_act" where
  "ask_host f = on_host (\<lambda>h. case f h of (accepted, h) \<Rightarrow> (if accepted then Some () else None, h))"

subsection \<open>Collecting telemetry\<close>

definition access_event_of :: "runtime_info \<Rightarrow> telemetry_event \<Rightarrow> access_event" where
  "access_event_of runtime te =
     \<lparr>ae_source_stream_id = ri_stream_id runtime, ae_source_event_id = te_event_id te, ae_plugin_id = ri_plugin_id runtime,
      ae_service_id = te_service_id te, ae_authorization_id = te_authorization_id te, ae_source_ip = te_source_ip te,
      ae_destination = te_destination te, ae_observation_kind = te_observation_kind te,
      ae_destination_port = te_destination_port te, ae_network = te_network te, ae_protocol = te_protocol te, ae_action = te_action te\<rparr>"

definition deliver_access ::
    "policy_sdk \<Rightarrow> engine_sdk \<Rightarrow> 's engine_sink \<Rightarrow> runtime_info \<Rightarrow> telemetry_event \<Rightarrow> (unit, 's, 'h) engine_act" where
  "deliver_access sdk ek put runtime te =
     (let observed_at = time_of_unix_nano (te_observed_at_unix_nano te) in
      bind_act (put_act put (ek_event_access ek) observed_at (AccessPayload (access_event_of runtime te))) (\<lambda>_.
        if te_action te = ek_action_accepted ek \<and> te_source_ip te \<noteq> []
        then bind_act (on_store (\<lambda>fault. observe_activity sdk fault (te_authorization_id te) (te_source_ip te) observed_at)) (\<lambda>_. return_act ())
        else return_act ()))"

definition collect_event ::
    "policy_sdk \<Rightarrow> engine_sdk \<Rightarrow> 's engine_sink \<Rightarrow> runtime_info \<Rightarrow> u64 \<Rightarrow> telemetry_event \<Rightarrow> (u64, 's, 'h) engine_act" where
  "collect_event sdk ek put runtime cursor te =
     bind_act (read_store (\<lambda>db. binding_known sdk db (ri_plugin_id runtime) (te_authorization_id te) (te_service_id te))) (\<lambda>known.
     bind_act (if known then deliver_access sdk ek put runtime te else return_act ()) (\<lambda>_.
     bind_act (on_store (\<lambda>fault. advance_telemetry_cursor sdk fault (ri_plugin_id runtime) (ri_stream_id runtime) cursor (te_sequence te))) (\<lambda>_.
       return_act (te_sequence te))))"

fun collect_events ::
    "policy_sdk \<Rightarrow> engine_sdk \<Rightarrow> 's engine_sink \<Rightarrow> runtime_info \<Rightarrow> u64 \<Rightarrow> telemetry_event list \<Rightarrow> (u64, 's, 'h) engine_act" where
  "collect_events sdk ek put runtime cursor [] w = (Inr cursor, w)"
| "collect_events sdk ek put runtime cursor (te # tes) w =
     bind_act (collect_event sdk ek put runtime cursor te) (\<lambda>cursor. collect_events sdk ek put runtime cursor tes) w"

definition report_status ::
    "engine_sdk \<Rightarrow> 's engine_sink \<Rightarrow> runtime_info \<Rightarrow> string \<Rightarrow> (unit, 's, 'h) engine_act" where
  "report_status ek put runtime status =
     bind_act (need_sink put) (\<lambda>_.
     bind_act now_act (\<lambda>t. put_act put (ek_event_collection ek) t (CollectionPayload (ri_plugin_id runtime) status)))"

definition count_traffic ::
    "policy_sdk \<Rightarrow> engine_sdk \<Rightarrow> runtime_info \<Rightarrow> telemetry_response \<Rightarrow> (unit, 's, 'h) engine_act" where
  "count_traffic sdk ek runtime response =
     (if ek_has ek (ri_capabilities runtime) TrafficCounters then
        bind_act now_act (\<lambda>t. bind_act order_act (\<lambda>iter.
          on_store (\<lambda>fault. apply_counters sdk iter fault (ri_plugin_id runtime) (tr_counters response) t)))
      else if tr_counters response \<noteq> [] then fail_act UnexpectedCounters
      else return_act ())"

text \<open>One page: the cursor after it and whether there is more.\<close>

definition collect_page ::
    "policy_sdk \<Rightarrow> engine_sdk \<Rightarrow> 's engine_sink \<Rightarrow> 'h runtime_host \<Rightarrow> runtime_info \<Rightarrow> bool \<Rightarrow> u64 \<Rightarrow> (u64 \<times> bool, 's, 'h) engine_act" where
  "collect_page sdk ek put host runtime first cursor =
     bind_act (on_host (rh_collect host (ri_plugin_id runtime) cursor)) (\<lambda>response.
     bind_act (if first \<and> tr_collection_status response \<noteq> [] then report_status ek put runtime (tr_collection_status response)
               else return_act ()) (\<lambda>_.
     bind_act (count_traffic sdk ek runtime response) (\<lambda>_.
     bind_act (if \<not> ek_has ek (ri_capabilities runtime) RecentActivity \<and> tr_events response \<noteq> [] then fail_act UnexpectedEvents
               else return_act ()) (\<lambda>_.
     bind_act (collect_events sdk ek put runtime cursor (tr_events response)) (\<lambda>cursor.
       if tr_events response = [] \<and> tr_next_sequence response \<noteq> cursor then fail_act EmptyPageAdvanced
       else return_act (cursor, tr_has_more response))))))"

fun collect_pages ::
    "policy_sdk \<Rightarrow> engine_sdk \<Rightarrow> 's engine_sink \<Rightarrow> 'h runtime_host \<Rightarrow> runtime_info \<Rightarrow> nat \<Rightarrow> bool \<Rightarrow> u64 \<Rightarrow> (unit, 's, 'h) engine_act" where
  "collect_pages sdk ek put host runtime 0 first cursor w = (Inl PageLimitReached, w)"
| "collect_pages sdk ek put host runtime (Suc n) first cursor w =
     bind_act (collect_page sdk ek put host runtime first cursor) (\<lambda>(cursor, more).
       if more then collect_pages sdk ek put host runtime n False cursor else return_act ()) w"

definition start_cursor :: "policy_sdk \<Rightarrow> engine_sdk \<Rightarrow> runtime_info \<Rightarrow> (u64, 's, 'h) engine_act" where
  "start_cursor sdk ek runtime =
     (if ek_has ek (ri_capabilities runtime) RecentActivity then
        (if ri_stream_id runtime = [] then fail_act NoTelemetryStream
         else read_store (\<lambda>db. telemetry_cursor_of sdk db (ri_plugin_id runtime) (ri_stream_id runtime)))
      else return_act 0)"

text \<open>The deferred function reports an incomplete collection; its own error is joined.\<close>

definition collect_runtime ::
    "policy_sdk \<Rightarrow> engine_sdk \<Rightarrow> 's engine_sink \<Rightarrow> 'h runtime_host \<Rightarrow> runtime_info \<Rightarrow> ('s, 'h) engine_world \<Rightarrow> engine_error list \<times> ('s, 'h) engine_world" where
  "collect_runtime sdk ek put host runtime w =
     (case bind_act (start_cursor sdk ek runtime) (collect_pages sdk ek put host runtime maximum_telemetry_pages True) w of
        (Inr _, w) \<Rightarrow> ([], w)
      | (Inl e, w) \<Rightarrow>
          if put = None then ([e], w)
          else case report_status ek put runtime ''incomplete'' w of (r, w) \<Rightarrow> (e # errors_of r, w))"


subsection \<open>Reporting\<close>

definition queue_snapshot :: "policy_sdk \<Rightarrow> engine_sdk \<Rightarrow> 's engine_sink \<Rightarrow> traffic_snapshot \<Rightarrow> (unit, 's, 'h) engine_act" where
  "queue_snapshot sdk ek put value =
     bind_act now_act (\<lambda>t.
     bind_act (put_act put (ek_event_traffic ek) t (TrafficPayload value)) (\<lambda>_.
       on_store (\<lambda>fault. mark_traffic_queued sdk fault value)))"

definition queue_traffic :: "policy_sdk \<Rightarrow> engine_sdk \<Rightarrow> 's engine_sink \<Rightarrow> (unit, 's, 'h) engine_act" where
  "queue_traffic sdk ek put =
     bind_act now_act (\<lambda>t.
     bind_act (on_store (\<lambda>fault. pending_traffic_snapshots sdk fault t)) (\<lambda>values.
     bind_act (need_sink put) (\<lambda>_. each_act (queue_snapshot sdk ek put) values)))"

definition queue_status :: "policy_sdk \<Rightarrow> engine_sdk \<Rightarrow> 's engine_sink \<Rightarrow> policy_status \<Rightarrow> (unit, 's, 'h) engine_act" where
  "queue_status sdk ek put value =
     bind_act now_act (\<lambda>t.
     bind_act (put_act put (ek_event_status ek) t (StatusPayload value)) (\<lambda>_.
       on_store (\<lambda>fault. mark_status_queued sdk fault value)))"

definition queue_statuses :: "policy_sdk \<Rightarrow> engine_sdk \<Rightarrow> 's engine_sink \<Rightarrow> (unit, 's, 'h) engine_act" where
  "queue_statuses sdk ek put =
     bind_act (read_store pending_statuses) (\<lambda>values.
     bind_act (need_sink put) (\<lambda>_. each_act (queue_status sdk ek put) values))"

subsection \<open>Bringing the plugins to the desired state\<close>

definition apply_service ::
    "engine_sdk \<Rightarrow> 'h runtime_host \<Rightarrow> (string \<rightharpoonup> runtime_info) \<Rightarrow> public_service \<Rightarrow> (unit, 's, 'h) engine_act" where
  "apply_service ek host runtimes value =
     (case runtimes (sv_plugin_id value) of
        None \<Rightarrow> fail_act (PluginUnavailable (sv_plugin_id value))
      | Some runtime \<Rightarrow>
          if \<not> ek_has ek (ri_capabilities runtime) TrafficCounters \<or> \<not> ek_has ek (ri_capabilities runtime) ServiceControl
          then fail_act (LacksServiceControl (sv_plugin_id value))
          else if sv_requires_soft_ip value \<and>
              (\<not> ek_has ek (ri_capabilities runtime) RecentActivity \<or> \<not> ek_has ek (ri_capabilities runtime) DynamicBlocking)
          then fail_act (LacksActivity (sv_plugin_id value))
          else bind_act (read_store (\<lambda>db. service_needs_apply db value (ri_instance_id runtime))) (\<lambda>needed.
            if \<not> needed then return_act ()
            else bind_act (ask_host (rh_set_service host (sv_plugin_id value) (sv_request value))) (\<lambda>_.
              on_store (\<lambda>fault. mark_service_applied fault value (ri_instance_id runtime)))))"

definition apply_blocks ::
    "policy_sdk \<Rightarrow> engine_sdk \<Rightarrow> 'h runtime_host \<Rightarrow> (string \<rightharpoonup> runtime_info) \<Rightarrow> public_blocks \<Rightarrow> (unit, 's, 'h) engine_act" where
  "apply_blocks sdk ek host runtimes value =
     (case runtimes (pk_plugin_id value) of
        None \<Rightarrow> fail_act (PluginUnavailable (pk_plugin_id value))
      | Some runtime \<Rightarrow>
          if \<not> ek_has ek (ri_capabilities runtime) DynamicBlocking then fail_act (LacksBlocking (pk_plugin_id value))
          else bind_act (read_store (\<lambda>db. blocks_need_apply sdk db value (ri_instance_id runtime))) (\<lambda>needed.
            if \<not> needed then return_act ()
            else bind_act (ask_host (rh_replace_blocks host (pk_plugin_id value) (pk_request value))) (\<lambda>_.
              on_store (\<lambda>fault. mark_blocks_applied sdk fault value (ri_instance_id runtime)))))"

definition desired_act :: "policy_sdk \<Rightarrow> (public_service list \<times> public_blocks list, 's, 'h) engine_act" where
  "desired_act sdk =
     bind_act now_act (\<lambda>t. bind_act order_act (\<lambda>iter. on_store2 (\<lambda>f1 f2. desired sdk iter f1 f2 t)))"

definition apply_desired ::
    "policy_sdk \<Rightarrow> engine_sdk \<Rightarrow> 'h runtime_host \<Rightarrow> (string \<rightharpoonup> runtime_info) \<Rightarrow> ('s, 'h) engine_world \<Rightarrow> engine_error list \<times> ('s, 'h) engine_world" where
  "apply_desired sdk ek host runtimes w =
     (case desired_act sdk w of
        (Inl e, w) \<Rightarrow> ([e], w)
      | (Inr (services, blocks), w) \<Rightarrow>
          (case try_each (apply_service ek host runtimes) services w of (es1, w) \<Rightarrow>
           case try_each (apply_blocks sdk ek host runtimes) blocks w of (es2, w) \<Rightarrow> (es1 @ es2, w)))"

definition runtime_map :: "runtime_info list \<Rightarrow> string \<rightharpoonup> runtime_info" where
  "runtime_map values = map_of (map (\<lambda>v. (ri_plugin_id v, v)) (rev values))"

definition runtime_instances :: "(string \<rightharpoonup> runtime_info) \<Rightarrow> string \<Rightarrow> string" where
  "runtime_instances runtimes plugin_id = (case runtimes plugin_id of None \<Rightarrow> [] | Some v \<Rightarrow> ri_instance_id v)"

definition refresh_statuses_act :: "policy_sdk \<Rightarrow> (string \<rightharpoonup> runtime_info) \<Rightarrow> (unit, 's, 'h) engine_act" where
  "refresh_statuses_act sdk runtimes =
     bind_act now_act (\<lambda>t. on_store2 (\<lambda>f1 f2. refresh_statuses sdk f1 f2 t (runtime_instances runtimes)))"

text \<open>Every part is tried whatever the others returned.\<close>

definition apply_and_publish ::
    "policy_sdk \<Rightarrow> engine_sdk \<Rightarrow> 's engine_sink \<Rightarrow> 'h runtime_host \<Rightarrow> (string \<rightharpoonup> runtime_info) \<Rightarrow> ('s, 'h) engine_world
     \<Rightarrow> engine_error list \<times> ('s, 'h) engine_world" where
  "apply_and_publish sdk ek put host runtimes w =
     (case queue_traffic sdk ek put w of (r1, w) \<Rightarrow>
      case apply_desired sdk ek host runtimes w of (es2, w) \<Rightarrow>
      case refresh_statuses_act sdk runtimes w of (r3, w) \<Rightarrow>
      case queue_statuses sdk ek put w of (r4, w) \<Rightarrow>
        (errors_of r1 @ es2 @ errors_of r3 @ errors_of r4, w))"

subsection \<open>Cycles and commands\<close>

fun collect_all ::
    "policy_sdk \<Rightarrow> engine_sdk \<Rightarrow> 's engine_sink \<Rightarrow> 'h runtime_host \<Rightarrow> runtime_info list \<Rightarrow> ('s, 'h) engine_world
     \<Rightarrow> engine_error list \<times> ('s, 'h) engine_world" where
  "collect_all sdk ek put host [] w = ([], w)"
| "collect_all sdk ek put host (r # rs) w =
     (if \<not> ek_has ek (ri_capabilities r) TrafficCounters \<and> \<not> ek_has ek (ri_capabilities r) RecentActivity
      then collect_all sdk ek put host rs w
      else case collect_runtime sdk ek put host r w of (es1, w) \<Rightarrow>
        case collect_all sdk ek put host rs w of (es2, w) \<Rightarrow> (es1 @ es2, w))"

definition run_cycle ::
    "policy_sdk \<Rightarrow> engine_sdk \<Rightarrow> 's engine_sink \<Rightarrow> 'h runtime_host \<Rightarrow> ('s, 'h) engine_world \<Rightarrow> engine_error list \<times> ('s, 'h) engine_world" where
  "run_cycle sdk ek put host w =
     (let values = rh_running host (ew_host w);
          runtimes = runtime_map values;
          order = ew_order w (ew_ticks w) (remdups (map ri_plugin_id values));
          w = w\<lparr>ew_ticks := Suc (ew_ticks w)\<rparr>
      in case collect_all sdk ek put host (map (\<lambda>id. the (runtimes id)) order) w of (es1, w) \<Rightarrow>
         case apply_and_publish sdk ek put host runtimes w of (es2, w) \<Rightarrow> (es1 @ es2, w))"

text \<open>\<^verbatim>\<open>validateCapabilities\<close>: \<open>Inl\<close> is a message, \<open>Inr True\<close> says that a plugin does not run.\<close>

definition check_binding ::
    "engine_sdk \<Rightarrow> (string \<rightharpoonup> runtime_info) \<Rightarrow> authorization_policy \<Rightarrow> policy_binding \<Rightarrow> bool \<Rightarrow> string + bool" where
  "check_binding ek runtimes policy b missing =
     (case runtimes (pb_plugin_id b) of
        None \<Rightarrow> Inr True
      | Some runtime \<Rightarrow>
          if \<not> ek_has ek (ri_capabilities runtime) TrafficCounters \<or> \<not> ek_has ek (ri_capabilities runtime) ServiceControl
          then Inl ''a bound runtime plugin lacks traffic or service-control capability''
          else if ap_soft_ip_limit policy \<noteq> None \<and>
              (\<not> ek_has ek (ri_capabilities runtime) RecentActivity \<or> \<not> ek_has ek (ri_capabilities runtime) DynamicBlocking)
          then Inl ''a soft IP policy requires activity and dynamic-blocking capabilities''
          else Inr missing)"

definition validate_capabilities :: "engine_sdk \<Rightarrow> reconcile_command \<Rightarrow> (string \<rightharpoonup> runtime_info) \<Rightarrow> string + bool" where
  "validate_capabilities ek value runtimes =
     fold_res (\<lambda>policy. fold_res (check_binding ek runtimes policy) (ap_bindings policy)) (rc_authorizations value) False"

definition engine_execute ::
    "policy_sdk \<Rightarrow> engine_sdk \<Rightarrow> processor_sdk \<Rightarrow> 's engine_sink \<Rightarrow> 'h runtime_host \<Rightarrow> ('s, 'h) engine_world executor" where
  "engine_execute sdk ek px put host deadline k cmd w =
     (if ac_kind cmd \<noteq> ek_command_kind ek then unsupported_executor px deadline [] cmd w
      else case ek_decode ek cmd of
        None \<Rightarrow> (failure (px_error_invalid_argument px) ''invalid policy reconcile command'' False, w)
      | Some request \<Rightarrow>
        let runtimes = runtime_map (rh_running host (ew_host w)) in
        (case validate_capabilities ek request runtimes of
           Inl message \<Rightarrow> (failure (px_error_unsupported px) message False, w)
         | Inr missing \<Rightarrow>
           (case on_store (\<lambda>fault. policy_reconcile sdk fault request) w of
              (Inl e, w) \<Rightarrow>
                (if e \<in> {StoreError GenerationConflict, StoreError StaleGeneration}
                 then failure (px_error_conflict px) ''policy generation conflicts with durable state'' False
                 else failure (px_error_internal px) ''persist policy snapshot'' False, w)
            | (Inr _, w) \<Rightarrow>
                if missing then (failure (px_error_unavailable px) ''a bound runtime plugin is unavailable'' True, w)
                else (case apply_and_publish sdk ek put host runtimes w of (es, w) \<Rightarrow>
                  if es \<noteq> [] then (failure (px_error_unavailable px) ''apply local policy'' True, w)
                  else (case ek_encode_output ek (rc_generation request) (of_nat (length (rc_authorizations request))) of
                     None \<Rightarrow> (failure (px_error_internal px) ''encode policy reconcile result'' False, w)
                   | Some output \<Rightarrow> (output_of output, w))))))"

end
