(* ===== verification/EngineRuns.thy ===== *)
theory EngineRuns
  imports PolicyEngine
begin

section \<open>What the policy engine does to the store and the queue\<close>

text \<open>
  Two effects of the engine's actions: everything the engine does is a run of the policy store, so that the theorems about those runs hold for the
  engine, and it only appends to the queue.
\<close>

subsection \<open>The engine only makes runs of the policy store and appends to the queue\<close>

lemma policy_run_trans: "policy_run sdk db' db'' \<Longrightarrow> policy_run sdk db db' \<Longrightarrow> policy_run sdk db db''"
  by (induction rule: policy_run.induct) (auto intro: policy_run.intros)

lemma policy_run_one: "policy_step sdk db db' \<Longrightarrow> policy_run sdk db db'"
  by (rule run_step [OF run_start])

locale engine_sink_context = event_sink put_event accepted sink_ok
  for put_event :: "'s \<Rightarrow> string \<Rightarrow> time \<Rightarrow> engine_payload \<Rightarrow> (queue_error + event) \<times> 's" and accepted and sink_ok +
  fixes put :: "'s engine_sink"
  assumes put_is: "put = None \<or> put = Some put_event"
begin

definition world_ok :: "('s, 'h) engine_world \<Rightarrow> bool" where
  "world_ok w \<longleftrightarrow> sink_ok (ew_sink w) \<and> (\<forall>n. any_order (ew_order w n))"

definition engine_effect :: "policy_sdk \<Rightarrow> ('s, 'h) engine_world \<Rightarrow> ('s, 'h) engine_world \<Rightarrow> bool" where
  "engine_effect sdk w w' \<longleftrightarrow>
     (world_ok w \<longrightarrow> world_ok w' \<and> prefix (accepted (ew_sink w)) (accepted (ew_sink w')) \<and> policy_run sdk (ew_db w) (ew_db w'))"

lemma engine_effect_refl: "reflp (engine_effect sdk)"
  by (auto simp: reflp_def engine_effect_def intro: run_start)

lemma engine_effect_trans: "transp (engine_effect sdk)"
  by (auto simp: transp_def engine_effect_def intro: policy_run_trans prefix_order.trans)

lemmas rules = effect_bind [OF engine_effect_trans] effect_return [OF engine_effect_refl] effect_fail [OF engine_effect_refl]
  effect_each [OF engine_effect_refl engine_effect_trans] effect_try_each [OF engine_effect_refl engine_effect_trans]

lemma on_store_effect:
  assumes "\<And>fault db r db'. f fault db = (r, db') \<Longrightarrow> policy_run sdk db db'"
  shows "effect (engine_effect sdk) (on_store f)"
  using assms by (auto simp: effect_def on_store_def engine_effect_def world_ok_def Let_def split: prod.splits)

lemma on_store2_effect:
  assumes "\<And>f1 f2 db r db'. f f1 f2 db = (r, db') \<Longrightarrow> policy_run sdk db db'"
  shows "effect (engine_effect sdk) (on_store2 f)"
proof
  fix w :: "('s, 'h) engine_world" and r w' assume run: "on_store2 f w = (r, w')"
  obtain fault faults where p: "pop_fault (ew_faults w) = (fault, faults)" by force
  with run have "on_store (f fault) (w\<lparr>ew_faults := faults\<rparr>) = (r, w')" by (simp add: on_store2_def)
  then have "engine_effect sdk (w\<lparr>ew_faults := faults\<rparr>) w'"
    by (rule effectD [OF on_store_effect, rotated]) (rule assms)
  then show "engine_effect sdk w w'" by (simp add: engine_effect_def world_ok_def)
qed

lemma read_store_effect: "effect (engine_effect sdk) (read_store f)"
  unfolding read_store_def by (rule on_store_effect) (auto intro: run_start)

lemma now_effect: "effect (engine_effect sdk) now_act"
  by (auto simp: effect_def now_act_def engine_effect_def world_ok_def intro: run_start)

lemma bind_order_effect:
  assumes "\<And>iter. any_order iter \<Longrightarrow> effect (engine_effect sdk) (f iter)"
  shows "effect (engine_effect sdk) (bind_act order_act f)"
proof
  fix w r w' assume run: "bind_act order_act f w = (r, w')"
  let ?w1 = "w\<lparr>ew_ticks := Suc (ew_ticks w)\<rparr>"
  from run have f: "f (ew_order w (ew_ticks w)) ?w1 = (r, w')" by (simp add: bind_act_def order_act_def)
  show "engine_effect sdk w w'"
  proof (cases "world_ok w")
    case True
    then have "any_order (ew_order w (ew_ticks w))" by (simp add: world_ok_def)
    from effectD [OF assms [OF this] f] show ?thesis by (simp add: engine_effect_def world_ok_def)
  qed (simp add: engine_effect_def)
qed

lemma need_sink_effect: "effect (engine_effect sdk) (need_sink put)"
  by (auto simp: effect_def need_sink_def engine_effect_def intro: run_start)

lemma put_effect: "effect (engine_effect sdk) (put_act put kind t payload)"
proof
  fix w :: "('s, 'h) engine_world" and r w' assume run: "put_act put kind t payload w = (r, w')"
  show "engine_effect sdk w w'"
  proof (cases put)
    case None
    with run engine_effect_refl show ?thesis by (auto simp: put_act_def reflp_def)
  next
    case (Some p)
    then have p: "p = put_event" using put_is by auto
    obtain r1 s where s: "put_event (ew_sink w) kind t payload = (r1, s)" by force
    with run Some p have "w' = w\<lparr>ew_sink := s\<rparr>" by (auto simp: put_act_def)
    with s show ?thesis by (auto simp: engine_effect_def world_ok_def intro: run_start put_ok put_grows)
  qed
qed

lemma on_host_effect: "effect (engine_effect sdk) (on_host f)"
  by (auto simp: effect_def on_host_def engine_effect_def world_ok_def split: prod.splits intro: run_start)

lemma ask_host_effect: "effect (engine_effect sdk) (ask_host f)"
  unfolding ask_host_def by (rule on_host_effect)

text \<open>The store's operations are steps of its runs.\<close>

lemma store_step_effect:
  assumes "\<And>fault db r db'. f fault db = (r, db') \<Longrightarrow> policy_step sdk db db'"
  shows "effect (engine_effect sdk) (on_store f)"
  by (rule on_store_effect) (rule policy_run_one, erule assms)

lemma store_step2_effect:
  assumes "\<And>f1 f2 db r db'. f f1 f2 db = (r, db') \<Longrightarrow> policy_step sdk db db'"
  shows "effect (engine_effect sdk) (on_store2 f)"
  by (rule on_store2_effect) (rule policy_run_one, erule assms)

lemmas base = read_store_effect now_effect need_sink_effect put_effect on_host_effect ask_host_effect

lemma collect_event_effect: "effect (engine_effect sdk) (collect_event sdk ek put runtime cursor te)"
  unfolding collect_event_def deliver_access_def Let_def
  by (auto intro!: rules base store_step_effect intro: policy_step.intros)

lemma collect_events_effect: "effect (engine_effect sdk) (collect_events sdk ek put runtime cursor tes)"
proof (induction tes arbitrary: cursor)
  case Nil
  then show ?case using engine_effect_refl by (auto simp: effect_def reflp_def)
next
  case (Cons te tes)
  have "collect_events sdk ek put runtime cursor (te # tes) =
      bind_act (collect_event sdk ek put runtime cursor te) (\<lambda>cursor. collect_events sdk ek put runtime cursor tes)"
    by (simp add: fun_eq_iff)
  with rules(1) [OF collect_event_effect Cons] show ?case by simp
qed

lemma report_status_effect: "effect (engine_effect sdk) (report_status ek put runtime status)"
  unfolding report_status_def by (intro rules base)

lemma count_traffic_effect: "effect (engine_effect sdk) (count_traffic sdk ek runtime response)"
  unfolding count_traffic_def
  by (auto intro!: rules base bind_order_effect store_step_effect intro: policy_step.intros)

lemma collect_page_effect: "effect (engine_effect sdk) (collect_page sdk ek put host runtime first cursor)"
  unfolding collect_page_def
  by (auto intro!: rules base report_status_effect count_traffic_effect collect_events_effect)

lemma collect_pages_effect: "effect (engine_effect sdk) (collect_pages sdk ek put host runtime n first cursor)"
proof (induction n arbitrary: first cursor)
  case 0
  then show ?case using engine_effect_refl by (auto simp: effect_def reflp_def)
next
  case (Suc n)
  have "collect_pages sdk ek put host runtime (Suc n) first cursor =
      bind_act (collect_page sdk ek put host runtime first cursor) (\<lambda>(cursor, more).
        if more then collect_pages sdk ek put host runtime n False cursor else return_act ())"
    by (rule ext) simp
  moreover have "effect (engine_effect sdk) (bind_act (collect_page sdk ek put host runtime first cursor) (\<lambda>(cursor, more).
        if more then collect_pages sdk ek put host runtime n False cursor else return_act ()))"
    by (auto intro!: rules(1) [OF collect_page_effect] rules(2) Suc)
  ultimately show ?case by simp
qed

lemma start_cursor_effect: "effect (engine_effect sdk) (start_cursor sdk ek runtime)"
  unfolding start_cursor_def by (auto intro!: rules base)

lemma collect_runtime_effect: "effect (engine_effect sdk) (collect_runtime sdk ek put host runtime)"
proof
  fix w r w' assume run: "collect_runtime sdk ek put host runtime w = (r, w')"
  let ?m = "bind_act (start_cursor sdk ek runtime) (collect_pages sdk ek put host runtime maximum_telemetry_pages True)"
  have body: "effect (engine_effect sdk) ?m" by (intro rules start_cursor_effect collect_pages_effect)
  obtain r1 w1 where 1: "?m w = (r1, w1)" by force
  obtain r2 w2 where 2: "report_status ek put runtime ''incomplete'' w1 = (r2, w2)" by force
  have "w' = w1 \<or> w' = w2" using run 1 2 by (auto simp: collect_runtime_def split: sum.splits if_splits)
  moreover have "engine_effect sdk w w1" by (rule effectD [OF body 1])
  moreover have "engine_effect sdk w1 w2" by (rule effectD [OF report_status_effect 2])
  ultimately show "engine_effect sdk w w'" using engine_effect_trans by (auto dest: transpD)
qed

lemma queue_traffic_effect: "effect (engine_effect sdk) (queue_traffic sdk ek put)"
  unfolding queue_traffic_def queue_snapshot_def
  by (auto intro!: rules base store_step_effect intro: policy_step.intros)

lemma queue_statuses_effect: "effect (engine_effect sdk) (queue_statuses sdk ek put)"
  unfolding queue_statuses_def queue_status_def
  by (auto intro!: rules base store_step_effect intro: policy_step.intros)

lemma apply_service_effect: "effect (engine_effect sdk) (apply_service ek host runtimes value)"
  unfolding apply_service_def
  by (auto intro!: rules base store_step_effect intro: policy_step.intros split: option.splits)

lemma apply_blocks_effect: "effect (engine_effect sdk) (apply_blocks sdk ek host runtimes value)"
  unfolding apply_blocks_def
  by (auto intro!: rules base store_step_effect intro: policy_step.intros split: option.splits)

lemma desired_act_effect: "effect (engine_effect sdk) (desired_act sdk)"
  unfolding desired_act_def
  by (auto intro!: rules base bind_order_effect store_step2_effect intro: policy_step.intros)

lemma refresh_statuses_act_effect: "effect (engine_effect sdk) (refresh_statuses_act sdk runtimes)"
  unfolding refresh_statuses_act_def
  by (auto intro!: rules base store_step2_effect intro: policy_step.intros)

lemma apply_desired_effect: "effect (engine_effect sdk) (apply_desired sdk ek host runtimes)"
proof
  fix w w' :: "('s, _) engine_world" and r assume run: "apply_desired sdk ek host runtimes w = (r, w')"
  obtain r1 w1 where 1: "desired_act sdk w = (r1, w1)" by force
  have e1: "engine_effect sdk w w1" by (rule effectD [OF desired_act_effect 1])
  show "engine_effect sdk w w'"
  proof (cases r1)
    case (Inl e)
    with run 1 e1 show ?thesis by (simp add: apply_desired_def)
  next
    case (Inr lists)
    obtain es2 w2 where 2: "try_each (apply_service ek host runtimes) (fst lists) w1 = (es2, w2)" by force
    obtain es3 w3 where 3: "try_each (apply_blocks sdk ek host runtimes) (snd lists) w2 = (es3, w3)" by force
    have "w' = w3" using run 1 2 3 Inr by (simp add: apply_desired_def case_prod_beta)
    moreover have "engine_effect sdk w1 w2" by (rule effectD [OF rules(5) 2]) (rule apply_service_effect)
    moreover have "engine_effect sdk w2 w3" by (rule effectD [OF rules(5) 3]) (rule apply_blocks_effect)
    ultimately show ?thesis using e1 engine_effect_trans by (auto dest: transpD)
  qed
qed

lemma apply_and_publish_effect: "effect (engine_effect sdk) (apply_and_publish sdk ek put host runtimes)"
proof
  fix w r w' assume run: "apply_and_publish sdk ek put host runtimes w = (r, w')"
  obtain r1 w1 where 1: "queue_traffic sdk ek put w = (r1, w1)" by force
  obtain r2 w2 where 2: "apply_desired sdk ek host runtimes w1 = (r2, w2)" by force
  obtain r3 w3 where 3: "refresh_statuses_act sdk runtimes w2 = (r3, w3)" by force
  obtain r4 w4 where 4: "queue_statuses sdk ek put w3 = (r4, w4)" by force
  have "w' = w4" using run 1 2 3 4 by (simp add: apply_and_publish_def)
  moreover have "engine_effect sdk w w1" "engine_effect sdk w1 w2" "engine_effect sdk w2 w3" "engine_effect sdk w3 w4"
    by (rule effectD [OF queue_traffic_effect 1], rule effectD [OF apply_desired_effect 2],
      rule effectD [OF refresh_statuses_act_effect 3], rule effectD [OF queue_statuses_effect 4])
  ultimately show "engine_effect sdk w w'" using engine_effect_trans by (meson transpD)
qed

lemma collect_all_effect: "effect (engine_effect sdk) (collect_all sdk ek put host rs)"
proof (induction rs)
  case Nil
  then show ?case using engine_effect_refl by (auto simp: effect_def reflp_def)
next
  case (Cons rt rs)
  show ?case
  proof
    fix w r w' assume run: "collect_all sdk ek put host (rt # rs) w = (r, w')"
    obtain r1 w1 where 1: "collect_runtime sdk ek put host rt w = (r1, w1)" by force
    obtain r2 w2 where 2: "collect_all sdk ek put host rs w1 = (r2, w2)" by force
    obtain r3 w3 where 3: "collect_all sdk ek put host rs w = (r3, w3)" by force
    have "w' = w2 \<or> w' = w3" using run 1 2 3 by (auto split: if_splits)
    moreover have "engine_effect sdk w w1" by (rule effectD [OF collect_runtime_effect 1])
    moreover have "engine_effect sdk w1 w2" by (rule effectD [OF Cons 2])
    moreover have "engine_effect sdk w w3" by (rule effectD [OF Cons 3])
    ultimately show "engine_effect sdk w w'" using engine_effect_trans by (auto dest: transpD)
  qed
qed

lemma run_cycle_effect: "effect (engine_effect sdk) (run_cycle sdk ek put host)"
proof
  fix w r w' assume run: "run_cycle sdk ek put host w = (r, w')"
  let ?w0 = "w\<lparr>ew_ticks := Suc (ew_ticks w)\<rparr>" and ?rs = "runtime_map (rh_running host (ew_host w))"
  obtain r1 w1 where 1: "collect_all sdk ek put host
      (map (\<lambda>id. the (?rs id)) (ew_order w (ew_ticks w) (remdups (map ri_plugin_id (rh_running host (ew_host w)))))) ?w0 = (r1, w1)"
    by force
  obtain r2 w2 where 2: "apply_and_publish sdk ek put host ?rs w1 = (r2, w2)" by force
  have "w' = w2" using run 1 2 by (simp add: run_cycle_def Let_def)
  moreover have "engine_effect sdk w ?w0" by (auto simp: engine_effect_def world_ok_def intro: run_start)
  moreover have "engine_effect sdk ?w0 w1" by (rule effectD [OF collect_all_effect 1])
  moreover have "engine_effect sdk w1 w2" by (rule effectD [OF apply_and_publish_effect 2])
  ultimately show "engine_effect sdk w w'" using engine_effect_trans by (meson transpD)
qed

lemma engine_execute_effect: "effect (engine_effect sdk) (engine_execute sdk ek px put host deadline k cmd)"
proof
  fix w r w' assume run: "engine_execute sdk ek px put host deadline k cmd w = (r, w')"
  let ?rs = "runtime_map (rh_running host (ew_host w))"
  show "engine_effect sdk w w'"
  proof (cases "\<exists>request missing. ac_kind cmd = ek_command_kind ek \<and> ek_decode ek cmd = Some request \<and>
      validate_capabilities ek request ?rs = Inr missing")
    case False
    with run have "w' = w" by (auto simp: engine_execute_def unsupported_executor_def Let_def split: if_splits option.splits sum.splits)
    then show ?thesis by (simp add: engine_effect_refl [THEN reflpD])
  next
    case True
    then obtain request missing where c: "ac_kind cmd = ek_command_kind ek" "ek_decode ek cmd = Some request"
      "validate_capabilities ek request ?rs = Inr missing" by blast
    obtain r1 w1 where 1: "on_store (\<lambda>fault. policy_reconcile sdk fault request) w = (r1, w1)" by force
    obtain r2 w2 where 2: "apply_and_publish sdk ek put host ?rs w1 = (r2, w2)" by force
    have "w' = w1 \<or> w' = w2"
      using run c 1 2 by (auto simp: engine_execute_def Let_def split: if_splits option.splits sum.splits)
    moreover have "engine_effect sdk w w1"
      by (rule effectD [OF store_step_effect 1]) (rule policy_step.step_reconcile)
    moreover have "engine_effect sdk w1 w2" by (rule effectD [OF apply_and_publish_effect 2])
    ultimately show ?thesis using engine_effect_trans by (auto dest: transpD)
  qed
qed

end

text \<open>The durable event queue is such a sink.\<close>

interpretation queue_engine: engine_sink_context "enqueue_next qsdk" "sink_events qsdk" "sink_inv qsdk" "Some (enqueue_next qsdk)" for qsdk
  by unfold_locales simp

subsection \<open>Runs of the engine\<close>

text \<open>Cycles and commands one after the other; in between the clock advances and the plugins change.\<close>

inductive engine_step ::
    "policy_sdk \<Rightarrow> engine_sdk \<Rightarrow> processor_sdk \<Rightarrow> engine_payload queue_sdk \<Rightarrow> 'h runtime_host
     \<Rightarrow> (queue_world, 'h) engine_world \<Rightarrow> (queue_world, 'h) engine_world \<Rightarrow> bool" for sdk ek px qsdk host where
  cycle_step: "run_cycle sdk ek (Some (enqueue_next qsdk)) host w = (es, w') \<Longrightarrow> engine_step sdk ek px qsdk host w w'"
| command_step: "engine_execute sdk ek px (Some (enqueue_next qsdk)) host deadline k cmd w = (ex, w') \<Longrightarrow> engine_step sdk ek px qsdk host w w'"
| outside_step: "engine_step sdk ek px qsdk host w (w\<lparr>ew_host := h, ew_faults := faults, ew_clock := clock\<rparr>)"

abbreviation engine_run where
  "engine_run sdk ek px qsdk host \<equiv> (engine_step sdk ek px qsdk host)\<^sup>*\<^sup>*"

lemma engine_step_effect:
  "engine_step sdk ek px qsdk host w w' \<Longrightarrow> queue_engine.engine_effect qsdk sdk w w'"
proof (induction rule: engine_step.induct)
  case (cycle_step w es w')
  then show ?case by (rule effectD [OF queue_engine.run_cycle_effect])
next
  case (command_step deadline k cmd w ex w')
  then show ?case by (rule effectD [OF queue_engine.engine_execute_effect])
next
  case (outside_step w h faults clock)
  then show ?case by (auto simp: queue_engine.engine_effect_def queue_engine.world_ok_def intro: run_start)
qed

interpretation engine: stepping "engine_step sdk ek px qsdk host" "\<lambda>_. True" "queue_engine.engine_effect qsdk sdk" for sdk ek px qsdk host
proof
  fix w w' assume "engine_step sdk ek px qsdk host w w'"
  then show "True \<and> queue_engine.engine_effect qsdk sdk w w'" using engine_step_effect by blast
next
  show "queue_engine.engine_effect qsdk sdk w w" for w using queue_engine.engine_effect_refl by (auto simp: reflp_def)
next
  show "queue_engine.engine_effect qsdk sdk u v \<Longrightarrow> queue_engine.engine_effect qsdk sdk v w \<Longrightarrow> queue_engine.engine_effect qsdk sdk u w" for u v w
    using queue_engine.engine_effect_trans by (metis transpD)
qed

lemma engine_run_effect: "engine_run sdk ek px qsdk host w w' \<Longrightarrow> queue_engine.engine_effect qsdk sdk w w'"
  using engine.run_keeps by blast

end
