(* ===== verification/EngineDelivery.thy ===== *)
theory EngineDelivery
  imports EngineRuns
begin

section \<open>Nothing is lost between the plugins, the store and the queue\<close>

text \<open>
  The engine reads a plugin's access events behind a durable cursor and enqueues each before it moves the cursor past it; it enqueues each traffic
  snapshot before it marks it as reported. The lemmas here follow both through every error: what the store no longer owes, the queue has
  accepted.
\<close>

subsection \<open>What collecting leaves alone\<close>

definition same_granting :: "policy_db \<Rightarrow> policy_db \<Rightarrow> bool" where
  "same_granting db db' \<longleftrightarrow> p_policies db' = p_policies db \<and> p_cursors db' = p_cursors db"

lemma same_granting_refl [simp]: "same_granting db db"
  by (simp add: same_granting_def)

lemma same_granting_trans: "same_granting a b \<Longrightarrow> same_granting b c \<Longrightarrow> same_granting a c"
  by (simp add: same_granting_def)

lemma db_update_granting:
  assumes "db_update fault body db = (r, db')" and "\<And>x db'. body db = Inr (x, db') \<Longrightarrow> same_granting db db'"
  shows "same_granting db db'"
  by (rule db_update_preserves [OF assms(1), of "same_granting db"]) (auto intro: assms(2))

lemma clean_activity_granting: "clean_authorization_activity policy now db = Inr db' \<Longrightarrow> same_granting db db'"
  by (auto simp: clean_authorization_activity_def Let_def and_then_Inr_iff same_granting_def)

lemma observe_tx_granting:
  assumes tx: "observe_activity_tx a ip t db = Inr (b, db')"
  shows "same_granting db db'"
proof -
  from tx obtain stored where stored: "get_json DecodeFailed (p_policies db) a = Inr stored"
    by (auto simp: observe_activity_tx_def and_then_Inr_iff)
  show ?thesis
  proof (cases "\<exists>policy limit. stored = Some policy \<and> ap_soft_ip_limit policy = Some limit")
    case False
    with tx stored show ?thesis by (cases stored) (auto simp: observe_activity_tx_def)
  next
    case True
    then obtain policy limit where p: "stored = Some policy" "ap_soft_ip_limit policy = Some limit" by blast
    from tx stored p obtain db1 where db1: "clean_authorization_activity policy t db = Inr db1"
      by (auto simp: observe_activity_tx_def and_then_Inr_iff)
    from tx stored p db1 obtain blocked where blocked: "get_json DecodeFailed (p_blocks db1) (activity_key a ip) = Inr blocked"
      by (auto simp: observe_activity_tx_def and_then_Inr_iff Let_def)
    have "same_granting db1 db'"
    proof (cases "case blocked of None \<Rightarrow> False | Some x \<Rightarrow> t < block_expires_at x")
      case True
      with tx stored p db1 blocked show ?thesis by (simp add: observe_activity_tx_def Let_def)
    next
      case False
      with tx stored p db1 blocked obtain slot where "get_json DecodeFailed (p_slots db1) (activity_key a ip) = Inr slot"
        by (auto simp: observe_activity_tx_def and_then_Inr_iff Let_def)
      with False tx stored p db1 blocked show ?thesis
        by (cases slot) (auto simp: observe_activity_tx_def Let_def same_granting_def split: if_splits)
    qed
    with clean_activity_granting [OF db1] show ?thesis by (rule same_granting_trans)
  qed
qed

lemma observe_granting: "observe_activity sdk fault a ip t db = (r, db') \<Longrightarrow> same_granting db db'"
  by (auto simp: observe_activity_def split: if_splits intro: db_update_granting observe_tx_granting)

lemma ensure_ledger_granting: "ensure_ledger sdk p now db = Inr (l, db') \<Longrightarrow> same_granting db db'"
  by (elim ensure_ledger_frame) (simp add: same_granting_def)

lemma count_counter_granting: "count_counter plugin_id known c (deltas, db) = Inr (deltas', db') \<Longrightarrow> same_granting db db'"
  by (cases rule: count_counter_cases) (auto simp: same_granting_def)

lemma apply_delta_granting: "apply_delta sdk policies now deltas a db = Inr db' \<Longrightarrow> same_granting db db'"
  by (auto simp: apply_delta_def Let_def and_then_Inr_iff same_granting_def split: if_splits dest!: ensure_ledger_granting)

lemma apply_counters_granting:
  assumes "apply_counters sdk iter fault plugin_id counters now db = (r, db')"
  shows "same_granting db db'"
proof -
  have "same_granting db db2" if tx: "apply_counters_tx sdk iter plugin_id counters now db = Inr (x, db2)" for x db2
  proof -
    from tx obtain policies deltas db1 where
      1: "fold_res (count_counter plugin_id (binding_keys policies)) counters ([], db) = Inr (deltas, db1)" and
      2: "fold_res (apply_delta sdk policies now deltas) (iter (map fst deltas)) db1 = Inr db2"
      by (auto simp: apply_counters_tx_def and_then_Inr_iff)
    have "same_granting db (snd (deltas, db1))"
    proof (rule fold_res_invariant [OF 1, of "\<lambda>s. same_granting db (snd s)"])
      fix c s s' assume "same_granting db (snd s)" "count_counter plugin_id (binding_keys policies) c s = Inr s'"
      then show "same_granting db (snd s')"
        using count_counter_granting [of plugin_id "binding_keys policies" c "fst s" "snd s" "fst s'" "snd s'"]
        by (auto intro: same_granting_trans)
    qed simp
    moreover have "same_granting db1 db2"
      by (rule fold_res_invariant [OF 2, of "same_granting db1"]) (auto intro: same_granting_trans apply_delta_granting)
    ultimately show ?thesis by (auto intro: same_granting_trans)
  qed
  then show ?thesis
    using assms by (auto simp: apply_counters_def split: if_splits intro: db_update_granting)
qed

lemma binding_known_cong: "p_policies db' = p_policies db \<Longrightarrow> binding_known sdk db' = binding_known sdk db"
  by (simp add: binding_known_def fun_eq_iff)

lemma cursor_cong: "p_cursors db' = p_cursors db \<Longrightarrow> telemetry_cursor_of sdk db' = telemetry_cursor_of sdk db"
  by (simp add: telemetry_cursor_of_def fun_eq_iff)

lemma advance_cursor_moves:
  assumes "advance_telemetry_cursor sdk fault plugin stream previous nxt db = (r, db')"
  shows "p_policies db' = p_policies db"
    and "r = Inr () \<Longrightarrow> telemetry_cursor_of sdk db' plugin stream = Inr nxt"
    and "r = Inl e \<Longrightarrow> db' = db"
proof -
  have tx: "p_policies db2 = p_policies db \<and> p_cursors db2 = put_json plugin \<lparr>cursor_stream_id = stream, cursor_sequence = nxt\<rparr> (p_cursors db)"
    if "advance_cursor_tx plugin stream previous nxt db = Inr (u, db2)" for u db2
    using that by (auto simp: advance_cursor_tx_def Let_def and_then_Inr_iff split: option.splits if_splits)
  show "p_policies db' = p_policies db"
    using assms by (cases r) (auto simp: advance_telemetry_cursor_def db_update_Inr_iff dest: db_update_rollback tx split: if_splits)
  show "db' = db" if "r = Inl e"
    using assms that by (auto simp: advance_telemetry_cursor_def dest: db_update_rollback split: if_splits)
  show "telemetry_cursor_of sdk db' plugin stream = Inr nxt" if "r = Inr ()"
    using assms that
    by (auto simp: advance_telemetry_cursor_def db_update_Inr_iff telemetry_cursor_of_def dest!: tx split: if_splits)
qed

subsection \<open>Actions one by one\<close>

lemma on_store_result:
  assumes "on_store f w = (r, w')"
  obtains fault r0 where "f fault (ew_db w) = (r0, ew_db w')" "r = map_sum StoreError (\<lambda>x. x) r0"
    "ew_sink w' = ew_sink w" "ew_host w' = ew_host w"
  using assms by (auto simp: on_store_def Let_def split: prod.splits)

lemma map_sum_store_iff [simp]:
  "map_sum StoreError (\<lambda>x. x) r = Inr x \<longleftrightarrow> r = Inr x" "Inr x = map_sum StoreError (\<lambda>x. x) r \<longleftrightarrow> r = Inr x"
  "map_sum StoreError (\<lambda>x. x) r = Inl e \<longleftrightarrow> (\<exists>e'. e = StoreError e' \<and> r = Inl e')"
  by (cases r; auto)+

lemma read_store_result:
  assumes "read_store f w = (r, w')"
  shows "ew_db w' = ew_db w" "ew_sink w' = ew_sink w" "ew_host w' = ew_host w" "r = Inr x \<Longrightarrow> f (ew_db w) = Inr x"
  using assms unfolding read_store_def
  by (auto elim!: on_store_result split: option.splits)

definition accesses :: "engine_payload list \<Rightarrow> access_event list" where
  "accesses ps = concat (map (\<lambda>p. case p of AccessPayload a \<Rightarrow> [a] | _ \<Rightarrow> []) ps)"

lemma accesses_simps [simp]:
  "accesses [] = []" "accesses (AccessPayload a # ps) = a # accesses ps" "accesses (CollectionPayload i s # ps) = accesses ps"
  "accesses (ps @ qs) = accesses ps @ accesses qs"
  by (simp_all add: accesses_def)

lemma accesses_none: "\<forall>p \<in> set ps. \<exists>i s. p = CollectionPayload i s \<Longrightarrow> accesses ps = []"
  by (induction ps) auto

definition event_known :: "policy_sdk \<Rightarrow> policy_db \<Rightarrow> runtime_info \<Rightarrow> telemetry_event \<Rightarrow> bool" where
  "event_known sdk db runtime te \<longleftrightarrow> binding_known sdk db (ri_plugin_id runtime) (te_authorization_id te) (te_service_id te) = Inr True"

text \<open>The access events that are due for telemetry events.\<close>

definition due_accesses :: "policy_sdk \<Rightarrow> policy_db \<Rightarrow> runtime_info \<Rightarrow> telemetry_event list \<Rightarrow> access_event list" where
  "due_accesses sdk db runtime tes = map (access_event_of runtime) (filter (event_known sdk db runtime) tes)"

lemma due_accesses_simps [simp]:
  "due_accesses sdk db runtime [] = []"
  "due_accesses sdk db runtime (xs @ ys) = due_accesses sdk db runtime xs @ due_accesses sdk db runtime ys"
  by (simp_all add: due_accesses_def)

lemma event_known_cong: "p_policies db' = p_policies db \<Longrightarrow> event_known sdk db' = event_known sdk db"
  by (simp add: event_known_def binding_known_cong [of db' db] fun_eq_iff)

lemma due_accesses_cong: "p_policies db' = p_policies db \<Longrightarrow> due_accesses sdk db' = due_accesses sdk db"
  by (simp add: due_accesses_def event_known_cong [of db' db] fun_eq_iff)

subsection \<open>Following the queue\<close>

text \<open>\<open>carries ev p\<close>: the event was made for the payload.\<close>

locale engine_log_context = engine_sink_context put_event accepted sink_ok put
  for put_event :: "'s \<Rightarrow> string \<Rightarrow> time \<Rightarrow> engine_payload \<Rightarrow> (queue_error + event) \<times> 's" and accepted and sink_ok and put +
  fixes carries :: "event \<Rightarrow> engine_payload \<Rightarrow> bool"
  assumes put_carries: "sink_ok q \<Longrightarrow> put_event q kind t p = (Inr ev, q') \<Longrightarrow> carries ev p"
begin

definition logged :: "'s \<Rightarrow> 's \<Rightarrow> engine_payload list \<Rightarrow> bool" where
  "logged q q' ps \<longleftrightarrow> sink_ok q' \<and> (\<exists>evs. accepted q' = accepted q @ evs \<and> list_all2 carries evs ps)"

lemma logged_refl: "sink_ok q \<Longrightarrow> logged q q []"
  by (simp add: logged_def)

lemma logged_append: "logged q q' ps \<Longrightarrow> logged q' q'' ps' \<Longrightarrow> logged q q'' (ps @ ps')"
  by (fastforce simp: logged_def intro: list_all2_appendI)

lemma logged_ok: "logged q q' ps \<Longrightarrow> sink_ok q'"
  by (simp add: logged_def)

lemma put_act_log:
  assumes "put_act put kind t p w = (r, w')" and "sink_ok (ew_sink w)"
  shows "ew_db w' = ew_db w" and "ew_host w' = ew_host w"
    and "logged (ew_sink w) (ew_sink w') (if r = Inr () then [p] else [])"
proof -
  show "ew_db w' = ew_db w" "ew_host w' = ew_host w"
    using assms(1) by (auto simp: put_act_def split: option.splits prod.splits)
  show "logged (ew_sink w) (ew_sink w') (if r = Inr () then [p] else [])"
  proof (cases put)
    case None
    with assms show ?thesis by (auto simp: put_act_def logged_refl)
  next
    case (Some f)
    then have f: "f = put_event" using put_is by auto
    obtain r1 s where s: "put_event (ew_sink w) kind t p = (r1, s)" by force
    with assms Some f have w': "ew_sink w' = s" "r = map_sum SinkError (\<lambda>_. ()) r1" by (auto simp: put_act_def)
    show ?thesis
    proof (cases r1)
      case (Inl e)
      with s w' put_refuses [OF assms(2)] put_ok [OF assms(2)] show ?thesis by (auto simp: logged_def)
    next
      case (Inr ev)
      with s w' put_accepts [OF assms(2)] put_ok [OF assms(2)] put_carries [OF assms(2)] show ?thesis
        by (auto simp: logged_def)
    qed
  qed
qed

lemma report_status_log:
  assumes "report_status ek put runtime status w = (r, w')" and "sink_ok (ew_sink w)"
  shows "ew_db w' = ew_db w" and "ew_host w' = ew_host w"
    and "\<exists>ps. logged (ew_sink w) (ew_sink w') ps \<and> (\<forall>p \<in> set ps. \<exists>i s. p = CollectionPayload i s)"
proof -
  have "ew_db w' = ew_db w \<and> ew_host w' = ew_host w \<and>
      (\<exists>ps. logged (ew_sink w) (ew_sink w') ps \<and> (\<forall>p \<in> set ps. \<exists>i s. p = CollectionPayload i s))"
  proof (cases "put = None")
    case True
    then have "w' = w" using assms(1) by (auto simp: report_status_def need_sink_def bind_act_def)
    with logged_refl [OF assms(2)] show ?thesis by (auto intro: exI [of _ "[]"])
  next
    case False
    let ?w1 = "w\<lparr>ew_ticks := Suc (ew_ticks w)\<rparr>" and ?p = "CollectionPayload (ri_plugin_id runtime) status"
    have put: "put_act put (ek_event_collection ek) (ew_clock w (ew_ticks w)) ?p ?w1 = (r, w')"
      using assms(1) False by (auto simp: report_status_def need_sink_def bind_act_def now_act_def)
    have "sink_ok (ew_sink ?w1)" using assms(2) by simp
    from put_act_log [OF put this] show ?thesis
      by (auto intro!: exI [of _ "if r = Inr () then [?p] else []"])
  qed
  then show "ew_db w' = ew_db w" "ew_host w' = ew_host w"
    "\<exists>ps. logged (ew_sink w) (ew_sink w') ps \<and> (\<forall>p \<in> set ps. \<exists>i s. p = CollectionPayload i s)" by blast+
qed

lemma deliver_access_log:
  assumes "deliver_access sdk ek put runtime te w = (r, w')" and ok: "sink_ok (ew_sink w)"
  shows "same_granting (ew_db w) (ew_db w')" and "ew_host w' = ew_host w"
    and "\<exists>ps. logged (ew_sink w) (ew_sink w') ps \<and>
          (accesses ps = [access_event_of runtime te] \<or> accesses ps = [] \<and> (\<exists>e. r = Inl e))"
proof -
  let ?t = "time_of_unix_nano (te_observed_at_unix_nano te)" and ?p = "AccessPayload (access_event_of runtime te)"
  have "same_granting (ew_db w) (ew_db w') \<and> ew_host w' = ew_host w \<and> (\<exists>ps. logged (ew_sink w) (ew_sink w') ps \<and>
          (accesses ps = [access_event_of runtime te] \<or> accesses ps = [] \<and> (\<exists>e. r = Inl e)))"
    using assms(1) unfolding deliver_access_def Let_def
  proof (cases rule: bind_act_elim)
    case (stopped e)
    note put_act_log [OF stopped(1) ok]
    with stopped(2) show ?thesis by (auto intro!: exI [of _ "[]"])
  next
    case (continued x w1)
    note p = put_act_log [OF continued(1) ok]
    have "same_granting (ew_db w1) (ew_db w') \<and> ew_host w' = ew_host w1 \<and> ew_sink w' = ew_sink w1"
      using continued(2)
      by (auto split: if_splits simp: return_act_def elim!: bind_act_elim on_store_result dest: observe_granting)
    with p show ?thesis by (auto intro!: exI [of _ "[?p]"])
  qed
  then show "same_granting (ew_db w) (ew_db w')" "ew_host w' = ew_host w"
    "\<exists>ps. logged (ew_sink w) (ew_sink w') ps \<and> (accesses ps = [access_event_of runtime te] \<or> accesses ps = [] \<and> (\<exists>e. r = Inl e))"
    by blast+
qed

text \<open>What collecting some telemetry events has done: with success all are delivered and the cursor is behind the last; with an error the
  first ones are, and at most one more has been delivered without the cursor moving past it.\<close>

definition delivered ::
    "policy_sdk \<Rightarrow> runtime_info \<Rightarrow> ('s, 'h) engine_world \<Rightarrow> ('s, 'h) engine_world \<Rightarrow> telemetry_event list \<Rightarrow> telemetry_event list \<Rightarrow> bool" where
  "delivered sdk runtime w w' passed extra \<longleftrightarrow>
     p_policies (ew_db w') = p_policies (ew_db w) \<and>
     (\<exists>ps. logged (ew_sink w) (ew_sink w') ps \<and> accesses ps = due_accesses sdk (ew_db w) runtime (passed @ extra)) \<and>
     (if passed = [] then telemetry_cursor_of sdk (ew_db w') = telemetry_cursor_of sdk (ew_db w)
      else telemetry_cursor_of sdk (ew_db w') (ri_plugin_id runtime) (ri_stream_id runtime) = Inr (te_sequence (last passed)))"

lemma collect_event_delivers:
  assumes run: "collect_event sdk ek put runtime cursor te w = (r, w')" and ok: "sink_ok (ew_sink w)"
  shows "ew_host w' = ew_host w" and "r = Inr c \<Longrightarrow> c = te_sequence te \<and> delivered sdk runtime w w' [te] []"
    and "r = Inl e \<Longrightarrow> delivered sdk runtime w w' [] [] \<or> delivered sdk runtime w w' [] [te]"
proof -
  have "ew_host w' = ew_host w \<and> (case r of Inr c \<Rightarrow> c = te_sequence te \<and> delivered sdk runtime w w' [te] []
      | Inl e \<Rightarrow> delivered sdk runtime w w' [] [] \<or> delivered sdk runtime w w' [] [te])"
    using run unfolding collect_event_def
  proof (cases rule: bind_act_elim)
    case (stopped e)
    from read_store_result [OF stopped(1)] ok stopped(2) show ?thesis
      by (auto simp: delivered_def intro!: exI [of _ "[]"] logged_refl)
  next
    case (continued known w1)
    note rd = read_store_result [OF continued(1)]
    have due: "due_accesses sdk (ew_db w) runtime [te] = (if known then [access_event_of runtime te] else [])"
      using rd(4) [of known] by (simp add: due_accesses_def event_known_def)
    have ok1: "sink_ok (ew_sink w1)" using ok rd by simp
    obtain r2 w2 where 2: "(if known then deliver_access sdk ek put runtime te else return_act ()) w1 = (r2, w2)" by force
    have d: "same_granting (ew_db w1) (ew_db w2) \<and> ew_host w2 = ew_host w1 \<and> (\<exists>ps. logged (ew_sink w1) (ew_sink w2) ps \<and>
        (accesses ps = due_accesses sdk (ew_db w) runtime [te] \<or> accesses ps = [] \<and> (\<exists>e. r2 = Inl e)))"
    proof (cases known)
      case True
      with 2 have "deliver_access sdk ek put runtime te w1 = (r2, w2)" by simp
      from deliver_access_log [OF this ok1] show ?thesis unfolding due using True by simp
    next
      case False
      with 2 have "w2 = w1" "r2 = Inr ()" by (simp_all add: return_act_def)
      with logged_refl [OF ok1] show ?thesis unfolding due using False by (auto intro: exI [of _ "[]"])
    qed
    from continued(2) 2 show ?thesis
    proof (cases rule: bind_act_elim)
      case (stopped e)
      with d rd 2 show ?thesis
        by (auto simp: delivered_def same_granting_def intro: cursor_cong)
    next
      case (continued u w3)
      with 2 have w3: "w3 = w2" "r2 = Inr u" by auto
      from d w3 rd obtain ps where ps: "logged (ew_sink w) (ew_sink w2) ps" "accesses ps = due_accesses sdk (ew_db w) runtime [te]"
        by auto
      from continued(2) show ?thesis
      proof (cases rule: bind_act_elim)
        case (stopped e)
        from stopped(1) show ?thesis
        proof (rule on_store_result)
          fix fault r0
          assume a: "advance_telemetry_cursor sdk fault (ri_plugin_id runtime) (ri_stream_id runtime) cursor (te_sequence te) (ew_db w3) = (r0, ew_db w')"
            "(Inl e :: engine_error + unit) = map_sum StoreError (\<lambda>x. x) r0" "ew_sink w' = ew_sink w3" "ew_host w' = ew_host w3"
          obtain e0 where "r0 = Inl e0" using a(2) by (cases r0) auto
          with advance_cursor_moves(3) [OF a(1)] have "ew_db w' = ew_db w3" by blast
          with a ps d rd w3 stopped(2) show ?thesis by (auto simp: delivered_def same_granting_def intro: cursor_cong)
        qed
      next
        case (continued v w4)
        from continued(1) show ?thesis
        proof (rule on_store_result)
          fix fault r0
          assume a: "advance_telemetry_cursor sdk fault (ri_plugin_id runtime) (ri_stream_id runtime) cursor (te_sequence te) (ew_db w3) = (r0, ew_db w4)"
            "Inr v = map_sum StoreError (\<lambda>x. x) r0" "ew_sink w4 = ew_sink w3" "ew_host w4 = ew_host w3"
          have "r0 = Inr ()" using a(2) by (cases r0) auto
          with advance_cursor_moves(1,2) [OF a(1)] a ps d rd w3 continued(2) show ?thesis
            by (auto simp: delivered_def same_granting_def return_act_def)
        qed
      qed
    qed
  qed
  then show "ew_host w' = ew_host w" "r = Inr c \<Longrightarrow> c = te_sequence te \<and> delivered sdk runtime w w' [te] []"
    "r = Inl e \<Longrightarrow> delivered sdk runtime w w' [] [] \<or> delivered sdk runtime w w' [] [te]"
    by auto
qed

lemma delivered_ok: "delivered sdk runtime w w' passed extra \<Longrightarrow> sink_ok (ew_sink w')"
  by (auto simp: delivered_def intro: logged_ok)

text \<open>A step that delivers no access event and moves no cursor.\<close>

lemma delivered_nothing:
  assumes "same_granting (ew_db w) (ew_db w')" and "logged (ew_sink w) (ew_sink w') ps" and "accesses ps = []"
  shows "delivered sdk runtime w w' [] []"
  using assms by (auto simp: delivered_def same_granting_def intro: cursor_cong)

lemma delivered_append:
  assumes 1: "delivered sdk runtime w w1 xs []" and 2: "delivered sdk runtime w1 w2 ys extra"
  shows "delivered sdk runtime w w2 (xs @ ys) extra"
proof -
  have pol: "p_policies (ew_db w1) = p_policies (ew_db w)" using 1 by (simp add: delivered_def)
  from 1 obtain ps where ps: "logged (ew_sink w) (ew_sink w1) ps" "accesses ps = due_accesses sdk (ew_db w) runtime xs"
    by (auto simp: delivered_def)
  from 2 pol obtain qs where qs: "logged (ew_sink w1) (ew_sink w2) qs" "accesses qs = due_accesses sdk (ew_db w) runtime (ys @ extra)"
    by (auto simp: delivered_def due_accesses_cong [OF pol])
  have "logged (ew_sink w) (ew_sink w2) (ps @ qs)" by (rule logged_append [OF ps(1) qs(1)])
  moreover have "accesses (ps @ qs) = due_accesses sdk (ew_db w) runtime ((xs @ ys) @ extra)" using ps qs by simp
  ultimately have "\<exists>ps. logged (ew_sink w) (ew_sink w2) ps \<and> accesses ps = due_accesses sdk (ew_db w) runtime ((xs @ ys) @ extra)"
    by blast
  with 1 2 pol show ?thesis by (cases "ys = []"; cases "xs = []") (simp_all add: delivered_def)
qed

text \<open>Collecting has worked through a first part of the telemetry events, perhaps one more; if complete, through all.\<close>

definition collected :: "policy_sdk \<Rightarrow> runtime_info \<Rightarrow> ('s, 'h) engine_world \<Rightarrow> ('s, 'h) engine_world \<Rightarrow> telemetry_event list \<Rightarrow> bool \<Rightarrow> bool" where
  "collected sdk runtime w w' tes complete \<longleftrightarrow>
     (\<exists>passed extra rest. tes = passed @ extra @ rest \<and> length extra \<le> 1 \<and> delivered sdk runtime w w' passed extra \<and>
        (complete \<longrightarrow> extra = [] \<and> rest = []))"

lemma collectedI:
  assumes "tes = passed @ extra @ rest" and "length extra \<le> 1" and "delivered sdk runtime w w' passed extra"
    and "complete \<Longrightarrow> extra = [] \<and> rest = []"
  shows "collected sdk runtime w w' tes complete"
  using assms by (auto simp: collected_def)

lemma collected_nothing: "delivered sdk runtime w w' [] [] \<Longrightarrow> collected sdk runtime w w' tes False"
  by (rule collectedI [of tes "[]" "[]" tes]) simp_all

lemma collected_append:
  assumes "delivered sdk runtime w w1 xs []" and "collected sdk runtime w1 w2 ys complete"
  shows "collected sdk runtime w w2 (xs @ ys) complete"
proof -
  from assms(2) obtain passed extra rest where c: "ys = passed @ extra @ rest" "length extra \<le> 1"
    "delivered sdk runtime w1 w2 passed extra" "complete \<longrightarrow> extra = [] \<and> rest = []" by (auto simp: collected_def)
  show ?thesis
    by (rule collectedI [of _ "xs @ passed" extra rest]) (use c delivered_append [OF assms(1) c(3)] in simp_all)
qed

lemma collected_later:
  assumes "collected sdk runtime w w' xs False"
  shows "collected sdk runtime w w' (xs @ ys) False"
proof -
  from assms obtain passed extra rest where c: "xs = passed @ extra @ rest" "length extra \<le> 1"
    "delivered sdk runtime w w' passed extra" by (auto simp: collected_def)
  show ?thesis by (rule collectedI [of _ passed extra "rest @ ys"]) (use c in simp_all)
qed

lemma collected_all: "collected sdk runtime w w' tes True \<Longrightarrow> delivered sdk runtime w w' tes []"
  by (auto simp: collected_def)

lemma collect_events_delivers:
  assumes "collect_events sdk ek put runtime cursor tes w = (r, w')" and "sink_ok (ew_sink w)"
  shows "ew_host w' = ew_host w \<and> collected sdk runtime w w' tes (\<exists>c. r = Inr c) \<and>
      (\<forall>c. r = Inr c \<longrightarrow> c = (if tes = [] then cursor else te_sequence (last tes)))"
  using assms
proof (induction tes arbitrary: cursor w)
  case Nil
  then have "delivered sdk runtime w w [] []" by (auto intro: delivered_nothing logged_refl)
  then have "collected sdk runtime w w [] (\<exists>c. r = Inr c)" by (rule collectedI [of _ _ _ "[]", rotated 2]) simp_all
  with Nil show ?case by auto
next
  case (Cons te tes)
  from Cons.prems(1) have "bind_act (collect_event sdk ek put runtime cursor te) (\<lambda>cursor. collect_events sdk ek put runtime cursor tes) w = (r, w')"
    by simp
  then show ?case
  proof (cases rule: bind_act_elim)
    case (stopped e)
    note d = collect_event_delivers [OF stopped(1) Cons.prems(2)]
    have "collected sdk runtime w w' (te # tes) False"
    proof (cases "delivered sdk runtime w w' [] []")
      case True
      then show ?thesis by (rule collected_nothing)
    next
      case False
      with d(3) have "delivered sdk runtime w w' [] [te]" by blast
      then show ?thesis by (intro collectedI [of _ "[]" "[te]" tes]) simp_all
    qed
    with d(1) stopped(2) show ?thesis by simp
  next
    case (continued c w1)
    note d = collect_event_delivers [OF continued(1) Cons.prems(2)]
    have c: "c = te_sequence te" and d1: "delivered sdk runtime w w1 [te] []" using d(2) by auto
    note IH = Cons.IH [OF continued(2) delivered_ok [OF d1]]
    have "collected sdk runtime w w' ([te] @ tes) (\<exists>c. r = Inr c)" by (rule collected_append [OF d1]) (use IH in simp)
    moreover have "\<forall>c'. r = Inr c' \<longrightarrow> c' = te_sequence (last (te # tes))" using IH c by (cases "tes = []") auto
    moreover have "ew_host w' = ew_host w" using IH d(1) by simp
    ultimately show ?thesis by simp
  qed
qed

lemma count_traffic_quiet:
  assumes "count_traffic sdk ek runtime response w = (r, w')"
  shows "same_granting (ew_db w) (ew_db w') \<and> ew_sink w' = ew_sink w \<and> ew_host w' = ew_host w"
  using assms
  by (auto simp: count_traffic_def fail_act_def return_act_def now_act_def order_act_def split: if_splits
      elim!: bind_act_elim on_store_result dest: apply_counters_granting)

end

text \<open>The telemetry stream of a plugin: it answers with the beginning of what comes after the cursor.\<close>

definition remaining :: "u64 \<Rightarrow> telemetry_event list \<Rightarrow> telemetry_event list" where
  "remaining cursor stream = dropWhile (\<lambda>te. te_sequence te \<le> cursor) stream"

definition serves :: "'h runtime_host \<Rightarrow> string \<Rightarrow> telemetry_event list \<Rightarrow> bool" where
  "serves host plugin stream \<longleftrightarrow>
     sorted_wrt (\<lambda>a b. te_sequence a < te_sequence b) stream \<and>
     (\<forall>cursor h response h'. rh_collect host plugin cursor h = (Some response, h') \<longrightarrow>
        (\<exists>later. remaining cursor stream = tr_events response @ later \<and> (\<not> tr_has_more response \<longrightarrow> later = [])))"

lemma remaining_after:
  assumes sorted: "sorted_wrt (\<lambda>a b. te_sequence a < te_sequence b) stream" and split: "remaining cursor stream = xs @ ys" and "xs \<noteq> []"
  shows "remaining (te_sequence (last xs)) stream = ys"
proof -
  obtain before where before: "stream = before @ xs @ ys" "\<forall>b \<in> set before. te_sequence b \<le> cursor"
    using split takeWhile_dropWhile_id [of "\<lambda>te. te_sequence te \<le> cursor" stream] set_takeWhileD
    by (metis (no_types, lifting) remaining_def)
  have xs: "xs = butlast xs @ [last xs]" using \<open>xs \<noteq> []\<close> by simp
  have s: "sorted_wrt (\<lambda>a b. te_sequence a < te_sequence b) (before @ butlast xs @ [last xs] @ ys)"
    using sorted before(1) xs by (metis append.assoc)
  then have le: "\<forall>b \<in> set (before @ butlast xs @ [last xs]). te_sequence b \<le> te_sequence (last xs)"
    and gt: "\<forall>y \<in> set ys. te_sequence (last xs) < te_sequence y"
    by (auto simp: sorted_wrt_append intro: less_imp_le)
  have "stream = (before @ butlast xs @ [last xs]) @ ys" using before(1) xs by (metis append.assoc)
  moreover have "dropWhile (\<lambda>te. te_sequence te \<le> te_sequence (last xs)) ((before @ butlast xs @ [last xs]) @ ys) =
      dropWhile (\<lambda>te. te_sequence te \<le> te_sequence (last xs)) ys"
    by (rule dropWhile_append2) (use le in auto)
  moreover have "dropWhile (\<lambda>te. te_sequence te \<le> te_sequence (last xs)) ys = ys"
    using gt by (cases ys) auto
  ultimately show ?thesis by (simp add: remaining_def)
qed

context engine_log_context
begin

text \<open>A page that is collected without an error moves the cursor behind its events, or says that there are none.\<close>

lemma collect_page_delivers:
  assumes run: "collect_page sdk ek put host runtime first cursor w = (r, w')" and ok: "sink_ok (ew_sink w)"
    and serves: "serves host (ri_plugin_id runtime) stream"
  shows "(\<forall>e. r = Inl e \<longrightarrow> collected sdk runtime w w' (remaining cursor stream) False) \<and>
    (\<forall>c more. r = Inr (c, more) \<longrightarrow> (\<exists>events later. remaining cursor stream = events @ later \<and> (\<not> more \<longrightarrow> later = []) \<and>
       delivered sdk runtime w w' events [] \<and> remaining c stream = later))"
  using run unfolding collect_page_def
proof (cases rule: bind_act_elim)
  case (stopped e)
  then have "ew_db w' = ew_db w" "ew_sink w' = ew_sink w" by (auto simp: on_host_def split: prod.splits)
  with ok have "delivered sdk runtime w w' [] []" by (intro delivered_nothing [of _ _ "[]"]) (simp_all add: logged_refl)
  with stopped(2) show ?thesis by (auto intro: collected_nothing)
next
  case (continued response w1)
  from continued(1) obtain h where host: "rh_collect host (ri_plugin_id runtime) cursor (ew_host w) = (Some response, h)"
    and w1: "w1 = w\<lparr>ew_host := h\<rparr>" by (auto simp: on_host_def split: prod.splits option.splits)
  from serves host obtain later where later: "remaining cursor stream = tr_events response @ later"
    "\<not> tr_has_more response \<longrightarrow> later = []" by (fastforce simp: serves_def)
  have sorted: "sorted_wrt (\<lambda>a b. te_sequence a < te_sequence b) stream" using serves by (simp add: serves_def)
  have d1: "delivered sdk runtime w w1 [] []" by (rule delivered_nothing [of _ _ "[]"]) (use ok w1 in \<open>simp_all add: logged_refl\<close>)
  have stop: "collected sdk runtime w w2 (remaining cursor stream) False" if "delivered sdk runtime w w2 [] []" for w2
    using that by (rule collected_nothing)
  have step: "delivered sdk runtime w w3 [] []" if "delivered sdk runtime w w2 [] []" "delivered sdk runtime w2 w3 [] []" for w2 w3
    using delivered_append [OF that] by simp
  from continued(2) show ?thesis
  proof (cases rule: bind_act_elim)
    case (stopped e)
    then have s: "report_status ek put runtime (tr_collection_status response) w1 = (Inl e, w')"
      by (auto simp: return_act_def split: if_splits)
    note rs = report_status_log [OF s delivered_ok [OF d1]]
    have "delivered sdk runtime w1 w' [] []" using rs by (auto intro: delivered_nothing accesses_none)
    with stop step [OF d1] stopped(2) show ?thesis by blast
  next
    case (continued u w2)
    have d2: "delivered sdk runtime w1 w2 [] []"
    proof (cases "first \<and> tr_collection_status response \<noteq> []")
      case True
      with continued(1) have s: "report_status ek put runtime (tr_collection_status response) w1 = (Inr u, w2)" by simp
      note rs = report_status_log [OF s delivered_ok [OF d1]]
      then show ?thesis by (auto intro: delivered_nothing accesses_none)
    next
      case False
      with continued(1) have "w2 = w1" by (auto simp: return_act_def split: if_splits)
      with delivered_ok [OF d1] show ?thesis by (auto intro!: delivered_nothing logged_refl)
    qed
    note d12 = step [OF d1 d2]
    have quiet: "delivered sdk runtime w w3 [] []" if "count_traffic sdk ek runtime response w2 = (r3, w3)" for r3 w3
    proof -
      have "delivered sdk runtime w2 w3 [] []"
        using count_traffic_quiet [OF that] delivered_ok [OF d2] by (intro delivered_nothing [of _ _ "[]"]) (simp_all add: logged_refl)
      with step [OF d12] show ?thesis by blast
    qed
    from continued(2) show ?thesis
    proof (cases rule: bind_act_elim)
      case (stopped e)
      with quiet stop show ?thesis by blast
    next
      case (continued v w3)
      note d3 = quiet [OF continued(1)]
      from continued(2) show ?thesis
      proof (cases rule: bind_act_elim)
        case (stopped e)
        then have "w' = w3" by (auto simp: fail_act_def return_act_def split: if_splits)
        with d3 stop stopped(2) show ?thesis by blast
      next
        case (continued v' w4)
        then have w4: "w4 = w3" by (auto simp: fail_act_def return_act_def split: if_splits)
        from continued(2) show ?thesis
        proof (cases rule: bind_act_elim)
          case (stopped e)
          from collect_events_delivers [OF stopped(1)] delivered_ok [OF d3] w4
          have "collected sdk runtime w3 w' (tr_events response) False" by simp
          then have "collected sdk runtime w w' ([] @ tr_events response) False" by (rule collected_append [OF d3])
          then have "collected sdk runtime w w' (tr_events response @ later) False" using collected_later by simp
          with later(1) stopped(2) show ?thesis by simp
        next
          case (continued c w5)
          note ce = collect_events_delivers [OF continued(1)] 
          have "collected sdk runtime w3 w5 (tr_events response) True" using ce delivered_ok [OF d3] w4 by simp
          then have "delivered sdk runtime w3 w5 (tr_events response) []" by (rule collected_all)
          with delivered_append [OF d3] have d5: "delivered sdk runtime w w5 (tr_events response) []" by fastforce
          have c: "c = (if tr_events response = [] then cursor else te_sequence (last (tr_events response)))"
            using ce delivered_ok [OF d3] w4 by simp
          have rest: "remaining c stream = later"
            using c later(1) remaining_after [OF sorted later(1)] by (cases "tr_events response = []") simp_all
          have w5: "w' = w5" using continued(2) by (auto simp: fail_act_def return_act_def split: if_splits)
          show ?thesis
          proof (cases "tr_events response = [] \<and> tr_next_sequence response \<noteq> c")
            case True
            with continued(2) have "r = Inl EmptyPageAdvanced" by (simp add: fail_act_def)
            with True d5 w5 stop show ?thesis by simp
          next
            case False
            with continued(2) have "r = Inr (c, tr_has_more response)" by (auto simp: return_act_def)
            with later d5 w5 rest show ?thesis by blast
          qed
        qed
      qed
    qed
  qed
qed

lemma collect_pages_delivers:
  assumes "collect_pages sdk ek put host runtime n first cursor w = (r, w')" and "sink_ok (ew_sink w)"
    and serves: "serves host (ri_plugin_id runtime) stream"
  shows "collected sdk runtime w w' (remaining cursor stream) (r = Inr ())"
  using assms(1,2)
proof (induction n arbitrary: first cursor w)
  case 0
  then have "delivered sdk runtime w w' [] []" by (intro delivered_nothing [of _ _ "[]"]) (auto simp: logged_refl)
  with 0 show ?case by (auto intro: collected_nothing)
next
  case (Suc n)
  from Suc.prems(1) have "bind_act (collect_page sdk ek put host runtime first cursor) (\<lambda>(cursor, more).
       if more then collect_pages sdk ek put host runtime n False cursor else return_act ()) w = (r, w')" by simp
  then show ?case
  proof (cases rule: bind_act_elim)
    case (stopped e)
    with collect_page_delivers [OF stopped(1) Suc.prems(2) serves] show ?thesis by simp
  next
    case (continued x w1)
    obtain c more where x: "x = (c, more)" by force
    from collect_page_delivers [OF continued(1) Suc.prems(2) serves] x obtain events later where
      p: "remaining cursor stream = events @ later" "\<not> more \<longrightarrow> later = []" "delivered sdk runtime w w1 events []"
      "remaining c stream = later" by blast
    show ?thesis
    proof (cases more)
      case True
      with continued(2) x have "collect_pages sdk ek put host runtime n False c w1 = (r, w')" by simp
      from Suc.IH [OF this delivered_ok [OF p(3)]] have "collected sdk runtime w1 w' later (r = Inr ())" using p(4) by simp
      from collected_append [OF p(3) this] p(1) show ?thesis by simp
    next
      case False
      with continued(2) x have "r = Inr ()" "w' = w1" by (auto simp: return_act_def)
      with False p show ?thesis by (auto intro: collectedI [of _ events "[]" "[]"])
    qed
  qed
qed

end

context engine_log_context
begin

lemma delivered_then_quiet:
  assumes 1: "delivered sdk runtime w w1 passed extra" and 2: "same_granting (ew_db w1) (ew_db w2)"
    and 3: "logged (ew_sink w1) (ew_sink w2) qs" "accesses qs = []"
  shows "delivered sdk runtime w w2 passed extra"
proof -
  from 1 obtain ps where ps: "logged (ew_sink w) (ew_sink w1) ps" "accesses ps = due_accesses sdk (ew_db w) runtime (passed @ extra)"
    by (auto simp: delivered_def)
  have "logged (ew_sink w) (ew_sink w2) (ps @ qs)" by (rule logged_append [OF ps(1) 3(1)])
  moreover have "accesses (ps @ qs) = due_accesses sdk (ew_db w) runtime (passed @ extra)" using ps 3 by simp
  ultimately have "\<exists>ps. logged (ew_sink w) (ew_sink w2) ps \<and> accesses ps = due_accesses sdk (ew_db w) runtime (passed @ extra)" by blast
  moreover have "telemetry_cursor_of sdk (ew_db w2) = telemetry_cursor_of sdk (ew_db w1)"
    using 2 by (intro cursor_cong) (simp add: same_granting_def)
  ultimately show ?thesis using 1 2 by (simp add: delivered_def same_granting_def)
qed

lemma collect_runtime_delivers:
  assumes run: "collect_runtime sdk ek put host runtime w = (es, w')" and ok: "sink_ok (ew_sink w)"
    and serves: "serves host (ri_plugin_id runtime) stream"
    and activity: "ek_has ek (ri_capabilities runtime) RecentActivity" "ri_stream_id runtime \<noteq> []"
    and cursor: "telemetry_cursor_of sdk (ew_db w) (ri_plugin_id runtime) (ri_stream_id runtime) = Inr cursor"
  shows "collected sdk runtime w w' (remaining cursor stream) (es = [])"
proof -
  let ?m = "bind_act (start_cursor sdk ek runtime) (collect_pages sdk ek put host runtime maximum_telemetry_pages True)"
  obtain r1 w1 where 1: "?m w = (r1, w1)" by force
  have c1: "collected sdk runtime w w1 (remaining cursor stream) (r1 = Inr ())"
    using 1
  proof (cases rule: bind_act_elim)
    case (stopped e)
    then have "ew_db w1 = ew_db w \<and> ew_sink w1 = ew_sink w"
      using activity read_store_result(1,2) by (fastforce simp: start_cursor_def)
    with ok have "delivered sdk runtime w w1 [] []" by (intro delivered_nothing [of _ _ "[]"]) (simp_all add: logged_refl)
    with stopped(2) show ?thesis by (auto intro: collected_nothing)
  next
    case (continued c w0)
    then have "read_store (\<lambda>db. telemetry_cursor_of sdk db (ri_plugin_id runtime) (ri_stream_id runtime)) w = (Inr c, w0)"
      using activity by (simp add: start_cursor_def)
    note rd = read_store_result [OF this]
    have "c = cursor" using rd(4) [of c] cursor by simp
    with rd ok continued(2) have "collected sdk runtime w0 w1 (remaining cursor stream) (r1 = Inr ())"
      using collect_pages_delivers [OF _ _ serves] by simp
    moreover have "delivered sdk runtime w w0 [] []" by (rule delivered_nothing [of _ _ "[]"]) (use rd ok in \<open>simp_all add: logged_refl\<close>)
    ultimately show ?thesis using collected_append [of sdk runtime w w0 "[]"] by simp
  qed
  show ?thesis
  proof (cases "r1 = Inr ()")
    case True
    with run 1 have "es = []" "w' = w1" by (simp_all add: collect_runtime_def)
    with c1 True show ?thesis by simp
  next
    case False
    then obtain e where e: "r1 = Inl e" by (cases r1) auto
    obtain r2 w2 where 2: "report_status ek put runtime ''incomplete'' w1 = (r2, w2)" by force
    from c1 False obtain passed extra rest where p: "remaining cursor stream = passed @ extra @ rest" "length extra \<le> 1"
      "delivered sdk runtime w w1 passed extra" by (auto simp: collected_def)
    have "delivered sdk runtime w w' passed extra"
    proof (cases "put = None")
      case True
      with run 1 e have "w' = w1" by (simp add: collect_runtime_def)
      with p show ?thesis by simp
    next
      case False
      with run 1 2 e have w2: "w' = w2" by (simp add: collect_runtime_def)
      note rs = report_status_log [OF 2 delivered_ok [OF p(3)]]
      from rs(3) obtain ps where "logged (ew_sink w1) (ew_sink w2) ps" "accesses ps = []" using accesses_none by blast
      with delivered_then_quiet [OF p(3)] rs(1) w2 show ?thesis by simp
    qed
    moreover have "es \<noteq> []" using run 1 e by (auto simp: collect_runtime_def split: if_splits prod.splits)
    ultimately show ?thesis using p by (intro collectedI [of _ passed extra rest]) simp_all
  qed
qed

end

subsection \<open>Reporting traffic\<close>

definition same_usage :: "traffic_snapshot \<Rightarrow> traffic_snapshot \<Rightarrow> bool" where
  "same_usage a b \<longleftrightarrow>
     ts_authorization_id a = ts_authorization_id b \<and> per_id (ts_period a) = per_id (ts_period b) \<and> ts_revision a = ts_revision b \<and>
     ts_upload_bytes a = ts_upload_bytes b \<and> ts_download_bytes a = ts_download_bytes b"

lemma traffic_key_period: "traffic_key a p = traffic_key a q \<Longrightarrow> p = q"
  by (simp add: traffic_key_def)

text \<open>Marking a snapshot as queued takes nothing else from what is still to be reported.\<close>

lemma mark_traffic_keeps:
  assumes mark: "mark_traffic_queued sdk fault u db = (r, db')" and inv: "policy_inv sdk db" and s: "s \<in> unreported db"
  shows "s \<in> unreported db' \<or> same_usage u s"
proof (cases "r = Inr ()")
  case False
  with mark have "db' = db" by (cases r) (auto simp: mark_traffic_queued_def dest: db_update_rollback split: if_splits)
  with s show ?thesis by simp
next
  case True
  with mark have "mark_traffic_queued_tx sdk u db = Inr ((), db')"
    by (auto simp: mark_traffic_queued_def db_update_Inr_iff split: if_splits)
  then show ?thesis
  proof (cases rule: mark_traffic_tx_cases)
    case (deleted p)
    let ?key = "traffic_key (ts_authorization_id u) (per_id (ts_period u))"
    have at: "bucket_get (p_pending db) ?key = Some (Json p)" using deleted(1) by (simp add: get_json_Some_iff)
    have "pending_ok ?key p" using cells_ok_get [OF policy_invD(5) [OF inv] at] by simp
    then have p: "same_usage u p" using deleted(2) by (auto simp: same_usage_def same_traffic_snapshot_def pending_ok_def dest: traffic_key_period)
    from s show ?thesis
    proof (cases "\<exists>k. bucket_get (p_pending db) k = Some (Json s)")
      case True
      then obtain k where k: "bucket_get (p_pending db) k = Some (Json s)" by blast
      show ?thesis
      proof (cases "k = ?key")
        case True
        with k at p show ?thesis by simp
      next
        case False
        with k deleted(3) show ?thesis by (auto simp: unreported_def)
      qed
    next
      case False
      with s deleted(3) show ?thesis by (auto simp: unreported_def)
    qed
  next
    case (old l)
    with s show ?thesis by simp
  next
    case (queued l)
    have at: "bucket_get (p_ledgers db) (ts_authorization_id u) = Some (Json l)" using queued(2) by (simp add: get_json_Some_iff)
    have "ls_authorization_id l = ts_authorization_id u" using cells_ok_get [OF policy_invD(4) [OF inv] at] by (simp add: ledger_ok_def)
    then have l: "same_usage u (ledger_event l)" using queued by (simp add: same_usage_def ledger_event_def)
    from s show ?thesis
    proof (cases "\<exists>k. bucket_get (p_pending db) k = Some (Json s)")
      case True
      with queued(7) show ?thesis by (auto simp: unreported_def)
    next
      case False
      with s obtain l' k where l': "s = ledger_event l'" "bucket_get (p_ledgers db) k = Some (Json l')" "ls_queued_revision l' < ls_revision l'"
        by (auto simp: unreported_def)
      show ?thesis
      proof (cases "k = ts_authorization_id u")
        case True
        with l' at l show ?thesis by simp
      next
        case False
        with l' queued(7) show ?thesis by (auto simp: unreported_def put_json_def)
      qed
    qed
  qed
qed

context engine_log_context
begin

lemma queue_snapshot_log:
  assumes "queue_snapshot sdk ek put u w = (r, w')" and ok: "sink_ok (ew_sink w)" and inv: "store_ok sdk (ew_db w)"
  shows "store_ok sdk (ew_db w')"
    and "r = Inr () \<Longrightarrow> logged (ew_sink w) (ew_sink w') [TrafficPayload u]"
    and "logged (ew_sink w) (ew_sink w') [TrafficPayload u] \<and> (s \<in> unreported (ew_db w) \<longrightarrow> s \<in> unreported (ew_db w') \<or> same_usage u s) \<or>
         logged (ew_sink w) (ew_sink w') [] \<and> ew_db w' = ew_db w \<and> r \<noteq> Inr ()"
proof -
  let ?w0 = "w\<lparr>ew_ticks := Suc (ew_ticks w)\<rparr>" and ?t = "ew_clock w (ew_ticks w)"
  have run: "bind_act (put_act put (ek_event_traffic ek) ?t (TrafficPayload u)) (\<lambda>_.
       on_store (\<lambda>fault. mark_traffic_queued sdk fault u)) ?w0 = (r, w')"
    using assms(1) by (simp add: queue_snapshot_def bind_act_def now_act_def)
  have ok0: "sink_ok (ew_sink ?w0)" using ok by simp
  have "store_ok sdk (ew_db w') \<and>
      (logged (ew_sink w) (ew_sink w') [TrafficPayload u] \<and> (s \<in> unreported (ew_db w) \<longrightarrow> s \<in> unreported (ew_db w') \<or> same_usage u s) \<or>
       logged (ew_sink w) (ew_sink w') [] \<and> ew_db w' = ew_db w \<and> r \<noteq> Inr ())" for s
    using run
  proof (cases rule: bind_act_elim)
    case (stopped e)
    from put_act_log [OF stopped(1) ok0] stopped(2) inv show ?thesis by simp
  next
    case (continued x w1)
    note p = put_act_log [OF continued(1) ok0]
    have x: "x = ()" by simp
    from continued(2) show ?thesis
    proof (rule on_store_result)
      fix fault r0
      assume m: "mark_traffic_queued sdk fault u (ew_db w1) = (r0, ew_db w')" "ew_sink w' = ew_sink w1"
      have "ew_db w1 = ew_db w" using p(1) by simp
      with m(1) have "store_ok sdk (ew_db w')" using mark_traffic_good [OF _ inv] by (auto simp: good_step_def)
      moreover have "policy_inv sdk (ew_db w)" using inv by (simp add: store_ok_def)
      ultimately show ?thesis using p m mark_traffic_keeps [of sdk fault u "ew_db w" r0 "ew_db w'"] by auto
    qed
  qed
  then show "store_ok sdk (ew_db w')"
    "logged (ew_sink w) (ew_sink w') [TrafficPayload u] \<and> (s \<in> unreported (ew_db w) \<longrightarrow> s \<in> unreported (ew_db w') \<or> same_usage u s) \<or>
         logged (ew_sink w) (ew_sink w') [] \<and> ew_db w' = ew_db w \<and> r \<noteq> Inr ()"
    "r = Inr () \<Longrightarrow> logged (ew_sink w) (ew_sink w') [TrafficPayload u]" by auto
qed

lemma queue_snapshots_log:
  assumes "each_act (queue_snapshot sdk ek put) vs w = (r, w')" and "sink_ok (ew_sink w)" and "store_ok sdk (ew_db w)"
  shows "\<exists>sent rest. vs = sent @ rest \<and> logged (ew_sink w) (ew_sink w') (map TrafficPayload sent) \<and>
    (\<forall>s \<in> unreported (ew_db w). s \<in> unreported (ew_db w') \<or> (\<exists>u \<in> set sent. same_usage u s)) \<and> (r = Inr () \<longrightarrow> rest = [])"
  using assms
proof (induction vs arbitrary: w)
  case Nil
  then show ?case by (auto intro: logged_refl)
next
  case (Cons u us)
  from Cons.prems(1) have "bind_act (queue_snapshot sdk ek put u) (\<lambda>_. each_act (queue_snapshot sdk ek put) us) w = (r, w')" by simp
  then show ?case
  proof (cases rule: bind_act_elim)
    case (stopped e)
    note q = queue_snapshot_log [OF stopped(1) Cons.prems(2,3)]
    show ?thesis
    proof (cases "logged (ew_sink w) (ew_sink w') [TrafficPayload u] \<and>
        (\<forall>s \<in> unreported (ew_db w). s \<in> unreported (ew_db w') \<or> same_usage u s)")
      case True
      with stopped(2) show ?thesis by (intro exI [of _ "[u]"] exI [of _ us]) auto
    next
      case False
      with q(3) have "logged (ew_sink w) (ew_sink w') []" "ew_db w' = ew_db w" by blast+
      with stopped(2) show ?thesis by (intro exI [of _ "[]"] exI [of _ "u # us"]) auto
    qed
  next
    case (continued x w1)
    note q = queue_snapshot_log [OF continued(1) Cons.prems(2,3)]
    have sent: "logged (ew_sink w) (ew_sink w1) [TrafficPayload u]" using q(2) by simp
    have keep: "\<forall>s \<in> unreported (ew_db w). s \<in> unreported (ew_db w1) \<or> same_usage u s" using q(3) by auto
    from Cons.IH [OF continued(2) logged_ok [OF sent] q(1)] obtain sent rest where IH:
      "us = sent @ rest" "logged (ew_sink w1) (ew_sink w') (map TrafficPayload sent)"
      "\<forall>s \<in> unreported (ew_db w1). s \<in> unreported (ew_db w') \<or> (\<exists>u \<in> set sent. same_usage u s)" "r = Inr () \<longrightarrow> rest = []" by blast
    have "logged (ew_sink w) (ew_sink w') (map TrafficPayload (u # sent))" using logged_append [OF sent IH(2)] by simp
    moreover have "\<forall>s \<in> unreported (ew_db w). s \<in> unreported (ew_db w') \<or> (\<exists>v \<in> set (u # sent). same_usage v s)"
      using keep IH(3) by auto
    ultimately show ?thesis using IH(1,4) by (intro exI [of _ "u # sent"] exI [of _ rest]) simp
  qed
qed

end

subsection \<open>Everything that is pending is reported\<close>

lemma collect_snapshots_all:
  assumes "collect_snapshots db = Inr vs" and "s \<in> unreported db"
  shows "s \<in> set vs"
proof -
  from assms(1) obtain pending ledgers where l: "map_res (\<lambda>e. decode DecodeFailed (snd e)) (p_pending db) = Inr pending"
    "map_res (\<lambda>e. decode DecodeFailed (snd e)) (p_ledgers db) = Inr ledgers"
    "vs = pending @ map ledger_event (filter (\<lambda>l. ls_queued_revision l < ls_revision l) ledgers)"
    by (auto simp: collect_snapshots_def and_then_Inr_iff)
  have listed: "v \<in> set out" if "map_res (\<lambda>e. decode DecodeFailed (snd e)) b = Inr out" "bucket_get b k = Some (Json v)" for b k v out
  proof -
    have all: "list_all2 (\<lambda>e y. decode DecodeFailed (snd e) = Inr y) b out" using that(1) by (simp add: map_res_Inr_iff)
    have "(k, Json v) \<in> set b" using that(2) by (simp add: bucket_get_def map_of_SomeD)
    then obtain i where i: "i < length b" "b ! i = (k, Json v)" by (auto simp: in_set_conv_nth)
    with all have "decode DecodeFailed (Json v) = Inr (out ! i)" "i < length out"
      by (auto simp: list_all2_conv_all_nth)
    then show ?thesis by (simp add: decode_def)
  qed
  from assms(2) show ?thesis
  proof (cases rule: unreported_cases)
    case (pending k)
    with listed [OF l(1)] l(3) show ?thesis by auto
  next
    case (ledger l' k)
    with listed [OF l(2)] l(3) show ?thesis by auto
  qed
qed

context engine_log_context
begin

lemma queue_traffic_log:
  assumes run: "queue_traffic sdk ek put w = (r, w')" and ok: "sink_ok (ew_sink w)" and inv: "store_ok sdk (ew_db w)"
    and sdk: "policy_sdk_ok sdk"
  shows "\<exists>sent. logged (ew_sink w) (ew_sink w') (map TrafficPayload sent) \<and>
    (\<forall>s \<in> unreported (ew_db w). undisputed (ew_db w) s \<longrightarrow>
       (s \<in> unreported (ew_db w') \<and> r \<noteq> Inr ()) \<or> (\<exists>u \<in> set sent. same_usage u s))"
proof -
  let ?w0 = "w\<lparr>ew_ticks := Suc (ew_ticks w)\<rparr>" and ?t = "ew_clock w (ew_ticks w)"
  have pinv: "policy_inv sdk (ew_db w)" using inv by (simp add: store_ok_def)
  from run have "bind_act (on_store (\<lambda>fault. pending_traffic_snapshots sdk fault ?t)) (\<lambda>values.
      bind_act (need_sink put) (\<lambda>_. each_act (queue_snapshot sdk ek put) values)) ?w0 = (r, w')"
    by (simp add: queue_traffic_def bind_act_def now_act_def)
  then show ?thesis
  proof (cases rule: bind_act_elim)
    case (stopped e)
    from stopped(1) show ?thesis
    proof (rule on_store_result)
      fix fault r0 assume p: "pending_traffic_snapshots sdk fault ?t (ew_db ?w0) = (r0, ew_db w')" "ew_sink w' = ew_sink ?w0"
      then obtain r1 where "refresh sdk fault ?t (ew_db w) = (r1, ew_db w')"
        by (auto simp: pending_traffic_snapshots_def split: prod.splits sum.splits)
      from refresh_keeps [OF this sdk pinv] p(2) ok stopped(2) show ?thesis
        by (intro exI [of _ "[]"]) (auto simp: logged_refl)
    qed
  next
    case (continued snapshots w1)
    from continued(1) show ?thesis
    proof (rule on_store_result)
      fix fault r0 assume p: "pending_traffic_snapshots sdk fault ?t (ew_db ?w0) = (r0, ew_db w1)"
        "(Inr snapshots :: engine_error + traffic_snapshot list) = map_sum StoreError (\<lambda>x. x) r0" "ew_sink w1 = ew_sink ?w0"
      then have r0: "r0 = Inr snapshots" by simp
      have rf: "refresh sdk fault ?t (ew_db w) = (Inr (), ew_db w1)" and
        "and_then (collect_snapshots (ew_db w1)) (\<lambda>vs. Inr (sort_key snapshot_order vs)) = Inr snapshots"
        using p(1) r0 by (auto simp: pending_traffic_snapshots_def split: prod.splits sum.splits)
      then obtain vs where vs: "collect_snapshots (ew_db w1) = Inr vs" "snapshots = sort_key snapshot_order vs"
        by (auto simp: and_then_Inr_iff)
      have keep: "s \<in> unreported (ew_db w1)" if "s \<in> unreported (ew_db w)" "undisputed (ew_db w) s" for s
        by (rule refresh_keeps [OF rf sdk pinv that])
      have listed: "s \<in> set snapshots" if "s \<in> unreported (ew_db w1)" for s
        using collect_snapshots_all [OF vs(1) that] vs(2) by simp
      have ok1: "sink_ok (ew_sink w1)" using ok p(3) by simp
      have inv1: "store_ok sdk (ew_db w1)" using refresh_step [OF rf sdk inv] by (simp add: good_step_def)
      from continued(2) show ?thesis
      proof (cases rule: bind_act_elim)
        case (stopped e)
        then have "w' = w1" by (auto simp: need_sink_def split: if_splits)
        with keep stopped(2) ok p(3) show ?thesis by (intro exI [of _ "[]"]) (auto simp: logged_refl)
      next
        case (continued u w2)
        then have w2: "w2 = w1" by (auto simp: need_sink_def split: if_splits)
        from queue_snapshots_log [OF continued(2) [unfolded w2] ok1 inv1] obtain sent rest where
          s: "snapshots = sent @ rest" "logged (ew_sink w1) (ew_sink w') (map TrafficPayload sent)"
          "\<forall>s \<in> unreported (ew_db w1). s \<in> unreported (ew_db w') \<or> (\<exists>u \<in> set sent. same_usage u s)" "r = Inr () \<longrightarrow> rest = []"
          by blast
        have refl: "same_usage s s" for s by (simp add: same_usage_def)
        have "(s \<in> unreported (ew_db w') \<and> r \<noteq> Inr ()) \<or> (\<exists>u \<in> set sent. same_usage u s)"
          if "s \<in> unreported (ew_db w)" "undisputed (ew_db w) s" for s
          using keep [OF that] listed s refl by fastforce
        with s(2) p(3) show ?thesis by auto
      qed
    qed
  qed
qed

end

text \<open>The durable queue keeps the event that was made for the payload.\<close>

definition carried :: "engine_payload queue_sdk \<Rightarrow> event \<Rightarrow> engine_payload \<Rightarrow> bool" where
  "carried qsdk ev p \<longleftrightarrow> (\<exists>node stream sequence kind t. sdk_new_event qsdk node stream sequence kind t p = Some ev)"

lemma enqueue_carries: "enqueue qsdk fault q kind t p = (Inr ev, q') \<Longrightarrow> carried qsdk ev p"
  unfolding carried_def
  by (auto simp: enqueue_def enqueue_tx_def db_update_Inr_iff Let_def and_then_Inr_iff
      split: prod.splits sum.splits option.splits if_splits) blast

interpretation queue_log: engine_log_context "enqueue_next qsdk" "sink_events qsdk" "sink_inv qsdk" "Some (enqueue_next qsdk)" "carried qsdk"
  for qsdk
  by unfold_locales (auto simp: enqueue_next_def dest: enqueue_carries split: prod.splits)

subsection \<open>Confirming services\<close>

lemma mark_service_confirms:
  assumes "mark_service_applied fault value instance db = (r, db')"
  shows "applied_of db' k = applied_of db k \<or> k = sv_key value \<and>
      applied_of db' k = Some \<lparr>as_instance_id = instance, as_desired = desired_service_from_request (sv_plugin_id value) (sv_request value) (sv_orphan value)\<rparr>"
    and "r = Inr () \<Longrightarrow> service_needs_apply db' value instance = Inr False"
    and "k \<noteq> sv_key value \<Longrightarrow> bucket_get (p_applied_services db') k = bucket_get (p_applied_services db) k"
proof -
  let ?a = "\<lparr>as_instance_id = instance, as_desired = desired_service_from_request (sv_plugin_id value) (sv_request value) (sv_orphan value)\<rparr>"
  have tx: "p_applied_services db2 = put_json (sv_key value) ?a (p_applied_services db)"
    if "mark_service_applied_tx value instance db = Inr (u, db2)" for u db2
    using that by (auto simp: mark_service_applied_tx_def Let_def and_then_Inr_iff split: if_splits)
  have c: "db' = db \<or> r = Inr () \<and> p_applied_services db' = put_json (sv_key value) ?a (p_applied_services db)"
    using assms by (cases r) (auto simp: mark_service_applied_def db_update_Inr_iff dest: db_update_rollback tx)
  then show "applied_of db' k = applied_of db k \<or> k = sv_key value \<and> applied_of db' k = Some ?a"
    by (cases "k = sv_key value") (auto simp: applied_of_def put_json_def)
  show "k \<noteq> sv_key value \<Longrightarrow> bucket_get (p_applied_services db') k = bucket_get (p_applied_services db) k"
    using c by (auto simp: put_json_def)
  show "service_needs_apply db' value instance = Inr False" if "r = Inr ()"
  proof -
    have "p_applied_services db' = put_json (sv_key value) ?a (p_applied_services db)"
      using assms that by (auto simp: mark_service_applied_def db_update_Inr_iff dest: tx)
    then show ?thesis by (simp add: service_needs_apply_def same_desired_service_def)
  qed
qed

text \<open>A service is confirmed for the plugin's process only after it has accepted the request; without an error there is nothing left to do.\<close>

definition accepted_service ::
    "'h runtime_host \<Rightarrow> (string \<rightharpoonup> runtime_info) \<Rightarrow> public_service \<Rightarrow> string \<Rightarrow> applied_service \<Rightarrow> bool" where
  "accepted_service host runtimes value k a \<longleftrightarrow>
     k = sv_key value \<and> (\<exists>runtime h h'. runtimes (sv_plugin_id value) = Some runtime \<and>
       rh_set_service host (sv_plugin_id value) (sv_request value) h = (True, h') \<and> as_instance_id a = ri_instance_id runtime \<and>
       as_desired a = desired_service_from_request (sv_plugin_id value) (sv_request value) (sv_orphan value))"

definition settled_service :: "(string \<rightharpoonup> runtime_info) \<Rightarrow> policy_db \<Rightarrow> public_service \<Rightarrow> bool" where
  "settled_service runtimes db value \<longleftrightarrow>
     (\<exists>runtime. runtimes (sv_plugin_id value) = Some runtime \<and> service_needs_apply db value (ri_instance_id runtime) = Inr False)"

lemma apply_service_effect_on:
  assumes "apply_service ek host runtimes value w = (r, w')"
  shows "applied_of (ew_db w') k = Some a \<Longrightarrow> applied_of (ew_db w) k = Some a \<or> accepted_service host runtimes value k a"
    and "r = Inr () \<Longrightarrow> settled_service runtimes (ew_db w') value"
    and "k \<noteq> sv_key value \<Longrightarrow> bucket_get (p_applied_services (ew_db w')) k = bucket_get (p_applied_services (ew_db w)) k"
proof -
  have "(applied_of (ew_db w') k = Some a \<longrightarrow> applied_of (ew_db w) k = Some a \<or> accepted_service host runtimes value k a) \<and>
    (r = Inr () \<longrightarrow> settled_service runtimes (ew_db w') value) \<and>
    (k \<noteq> sv_key value \<longrightarrow> bucket_get (p_applied_services (ew_db w')) k = bucket_get (p_applied_services (ew_db w)) k)"
  proof (cases "runtimes (sv_plugin_id value)")
    case None
    with assms show ?thesis by (auto simp: apply_service_def fail_act_def)
  next
    case (Some runtime)
    let ?i = "ri_instance_id runtime"
    show ?thesis
    proof (cases "\<exists>e. r = Inl e \<and> w' = w")
      case True
      then show ?thesis by auto
    next
      case False
      with assms Some have "bind_act (read_store (\<lambda>db. service_needs_apply db value ?i)) (\<lambda>needed.
          if \<not> needed then return_act () else bind_act (ask_host (rh_set_service host (sv_plugin_id value) (sv_request value))) (\<lambda>_.
            on_store (\<lambda>fault. mark_service_applied fault value ?i))) w = (r, w')"
        by (auto simp: apply_service_def fail_act_def split: if_splits)
      then show ?thesis
      proof (cases rule: bind_act_elim)
        case (stopped e)
        with read_store_result(1) [OF stopped(1)] show ?thesis by auto
      next
        case (continued needed w1)
        note rd = read_store_result [OF continued(1)]
        show ?thesis
        proof (cases needed)
          case False
          with continued(2) have "w' = w1" by (simp add: return_act_def)
          moreover have "service_needs_apply (ew_db w) value ?i = Inr False" using rd(4) [of needed] False by simp
          ultimately show ?thesis using rd Some by (auto simp: settled_service_def)
        next
          case True
          with continued(2) have "bind_act (ask_host (rh_set_service host (sv_plugin_id value) (sv_request value))) (\<lambda>_.
            on_store (\<lambda>fault. mark_service_applied fault value ?i)) w1 = (r, w')" by simp
          then show ?thesis
          proof (cases rule: bind_act_elim)
            case (stopped e)
            then have "ew_db w' = ew_db w1" by (auto simp: ask_host_def on_host_def split: prod.splits)
            with rd stopped(2) show ?thesis by auto
          next
            case (continued u w2)
            from continued(1) obtain h where h: "rh_set_service host (sv_plugin_id value) (sv_request value) (ew_host w1) = (True, h)"
              "ew_db w2 = ew_db w1" by (auto simp: ask_host_def on_host_def split: prod.splits option.splits if_splits)
            from continued(2) show ?thesis
            proof (rule on_store_result)
              fix fault r0 assume m: "mark_service_applied fault value ?i (ew_db w2) = (r0, ew_db w')" "r = map_sum StoreError (\<lambda>x. x) r0"
              note c = mark_service_confirms [OF m(1)]
              have "r = Inr () \<Longrightarrow> settled_service runtimes (ew_db w') value"
                using c(2) m(2) Some by (cases r0) (auto simp: settled_service_def)
              moreover have "applied_of (ew_db w') k = Some a \<Longrightarrow> applied_of (ew_db w) k = Some a \<or> accepted_service host runtimes value k a"
                using c(1) [of k] h rd Some by (auto simp: accepted_service_def)
              ultimately show ?thesis using c(3) [of k] h rd by auto
            qed
          qed
        qed
      qed
    qed
  qed
  then show "applied_of (ew_db w') k = Some a \<Longrightarrow> applied_of (ew_db w) k = Some a \<or> accepted_service host runtimes value k a"
    "r = Inr () \<Longrightarrow> settled_service runtimes (ew_db w') value"
    "k \<noteq> sv_key value \<Longrightarrow> bucket_get (p_applied_services (ew_db w')) k = bucket_get (p_applied_services (ew_db w)) k" by blast+
qed

lemma settled_service_cong:
  "bucket_get (p_applied_services db') (sv_key value) = bucket_get (p_applied_services db) (sv_key value) \<Longrightarrow>
    settled_service runtimes db' value = settled_service runtimes db value"
  by (simp add: settled_service_def service_needs_apply_def get_json_def)

lemma apply_services_effect_on:
  assumes "try_each (apply_service ek host runtimes) vs w = (es, w')"
  shows "\<And>k a. applied_of (ew_db w') k = Some a \<Longrightarrow> applied_of (ew_db w) k = Some a \<or> (\<exists>v \<in> set vs. accepted_service host runtimes v k a)"
    and "es = [] \<Longrightarrow> distinct (map sv_key vs) \<Longrightarrow> \<forall>v \<in> set vs. settled_service runtimes (ew_db w') v"
    and "\<And>k. k \<notin> sv_key ` set vs \<Longrightarrow> bucket_get (p_applied_services (ew_db w')) k = bucket_get (p_applied_services (ew_db w)) k"
proof -
  have "(\<forall>k a. applied_of (ew_db w') k = Some a \<longrightarrow> applied_of (ew_db w) k = Some a \<or> (\<exists>v \<in> set vs. accepted_service host runtimes v k a)) \<and>
    (es = [] \<longrightarrow> distinct (map sv_key vs) \<longrightarrow> (\<forall>v \<in> set vs. settled_service runtimes (ew_db w') v)) \<and>
    (\<forall>k. k \<notin> sv_key ` set vs \<longrightarrow> bucket_get (p_applied_services (ew_db w')) k = bucket_get (p_applied_services (ew_db w)) k)"
    using assms
  proof (induction vs arbitrary: w es)
    case Nil
    then show ?case by auto
  next
    case (Cons v vs)
    obtain r1 w1 where 1: "apply_service ek host runtimes v w = (r1, w1)" by force
    obtain es2 where 2: "try_each (apply_service ek host runtimes) vs w1 = (es2, w')" and es: "es = errors_of r1 @ es2"
      using Cons.prems 1 by (auto split: prod.splits)
    note s = apply_service_effect_on [OF 1] and IH = Cons.IH [OF 2]
    have "settled_service runtimes (ew_db w') v" if "es = []" "distinct (map sv_key (v # vs))"
    proof -
      have "r1 = Inr ()" using that(1) es by (cases r1) (auto simp: errors_of_def)
      then have "settled_service runtimes (ew_db w1) v" by (rule s(2))
      moreover have "bucket_get (p_applied_services (ew_db w')) (sv_key v) = bucket_get (p_applied_services (ew_db w1)) (sv_key v)"
        using IH that(2) by auto
      ultimately show ?thesis using settled_service_cong by blast
    qed
    moreover have "applied_of (ew_db w) k = Some a \<or> (\<exists>v \<in> set (v # vs). accepted_service host runtimes v k a)"
      if "applied_of (ew_db w') k = Some a" for k a
    proof (cases "\<exists>v \<in> set vs. accepted_service host runtimes v k a")
      case True
      then show ?thesis by auto
    next
      case False
      with IH that have "applied_of (ew_db w1) k = Some a" by blast
      with s(1) show ?thesis by auto
    qed
    moreover have "bucket_get (p_applied_services (ew_db w')) k = bucket_get (p_applied_services (ew_db w)) k"
      if "k \<notin> sv_key ` set (v # vs)" for k
      using s(3) [of k] IH that by simp
    ultimately show ?case using IH es by auto
  qed
  then show "\<And>k a. applied_of (ew_db w') k = Some a \<Longrightarrow> applied_of (ew_db w) k = Some a \<or> (\<exists>v \<in> set vs. accepted_service host runtimes v k a)"
    "es = [] \<Longrightarrow> distinct (map sv_key vs) \<Longrightarrow> \<forall>v \<in> set vs. settled_service runtimes (ew_db w') v"
    "\<And>k. k \<notin> sv_key ` set vs \<Longrightarrow> bucket_get (p_applied_services (ew_db w')) k = bucket_get (p_applied_services (ew_db w)) k" by blast+
qed

end
