(* ===== verification/EngineProperties.thy ===== *)
theory EngineProperties
  imports EngineDelivery PolicyProperties
begin

section \<open>The properties of the policy engine\<close>

text \<open>
  What the engine guarantees when its sink is the durable queue. The sample world has the store of the policy properties, an empty queue, and one
  plugin with one access event in its stream.
\<close>

definition demo_marshal :: "event \<Rightarrow> string option" where
  "demo_marshal e =
     (if 0 \<le> ev_observed_at e - unix_epoch \<and> ev_observed_at e - unix_epoch < 2 ^ 64 \<and> length (ev_content e) < 1000
      then Some (uint64_bytes (ev_sequence e) @ uint64_bytes (word_of_int (ev_observed_at e - unix_epoch)) @ ev_content e)
      else None)"

definition demo_unmarshal :: "string \<Rightarrow> event option" where
  "demo_unmarshal raw =
     (if length raw < 16 then None
      else Some \<lparr>ev_sequence = read_uint64 (Some (take 8 raw)), ev_observed_at = unix_epoch + uint (read_uint64 (Some (take 8 (drop 8 raw)))),
                 ev_content = drop 16 raw\<rparr>)"

definition demo_qsdk :: "engine_payload queue_sdk" where
  "demo_qsdk =
     \<lparr>sdk_validate_node_id = (\<lambda>node. node \<noteq> []),
      sdk_new_event = (\<lambda>node stream sequence kind t payload. Some \<lparr>ev_sequence = sequence, ev_observed_at = t, ev_content = kind\<rparr>),
      sdk_marshal_event = demo_marshal, sdk_unmarshal_event = demo_unmarshal, sdk_validate_event_batch = (\<lambda>b. batch_events b \<noteq> []),
      sdk_max_event_sequence = max_int64, sdk_max_batch_events = 500, sdk_max_batch_bytes = 1048576\<rparr>"

definition demo_ek :: engine_sdk where
  "demo_ek = \<lparr>ek_has = (\<lambda>caps c. True), ek_action_accepted = ''accepted'', ek_event_collection = ''collection'', ek_event_access = ''access'',
     ek_event_traffic = ''traffic'', ek_event_status = ''status'', ek_command_kind = ''policy'',
     ek_decode = (\<lambda>c. Some (demo_command 2)), ek_encode_output = (\<lambda>g n. Some ''out'')\<rparr>"

definition demo_telemetry :: telemetry_event where
  "demo_telemetry = \<lparr>te_sequence = 1, te_event_id = ''e'', te_authorization_id = ''alice'', te_service_id = ''vpn'', te_observed_at_unix_nano = 7,
     te_source_ip = ''ip'', te_destination = ''d'', te_observation_kind = ''k'', te_destination_port = 443, te_network = ''tcp'',
     te_protocol = ''tls'', te_action = ''accepted''\<rparr>"

definition demo_page :: "u64 \<Rightarrow> telemetry_response" where
  "demo_page c = \<lparr>tr_collection_status = [], tr_counters = [], tr_events = (if c < 1 then [demo_telemetry] else []),
     tr_next_sequence = 1, tr_has_more = False\<rparr>"

definition demo_runtime :: runtime_info where
  "demo_runtime = \<lparr>ri_plugin_id = ''wire'', ri_instance_id = ''i1'', ri_capabilities = [], ri_stream_id = replicate 32 (CHR ''0'')\<rparr>"

definition demo_host :: "unit runtime_host" where
  "demo_host = \<lparr>rh_running = (\<lambda>h. [demo_runtime]), rh_collect = (\<lambda>p c h. (Some (demo_page c), h)),
     rh_set_service = (\<lambda>p r h. (True, h)), rh_replace_blocks = (\<lambda>p r h. (True, h))\<rparr>"

definition demo_world :: "policy_db \<Rightarrow> (queue_world, unit) engine_world" where
  "demo_world db = \<lparr>ew_db = db, ew_faults = [], ew_sink = (sample_queue, []), ew_host = (), ew_clock = (\<lambda>n. 2000), ew_order = (\<lambda>n xs. xs), ew_ticks = 0\<rparr>"

lemma demo_qsdk_ok: "queue_sdk_ok demo_qsdk"
proof -
  have "demo_unmarshal raw = Some e \<and> length raw < 2 ^ 63" if "demo_marshal e = Some raw" for e raw
  proof -
    obtain x where x: "ev_observed_at e = unix_epoch + x" by (metis add_diff_cancel_left' diff_add_cancel add.commute)
    from that x show ?thesis
      by (cases e) (auto simp: demo_marshal_def demo_unmarshal_def take_bit_int_eq_self unsigned_of_int split: if_splits)
  qed
  then show ?thesis by (auto simp: queue_sdk_ok_def demo_qsdk_def max_int64_def max_uint64_def)
qed

lemma demo_sink_ok: "sink_inv demo_qsdk (sample_queue, [])"
  using demo_qsdk_ok
  by (simp add: sink_inv_def queue_inv_def sample_queue_def acked_of_def next_of_def demo_qsdk_def)

lemma demo_world_ok: "queue_engine.world_ok demo_qsdk (demo_world db)"
  using demo_sink_ok by (simp add: queue_engine.world_ok_def demo_world_def)

lemma demo_serves: "serves demo_host (ri_plugin_id demo_runtime) [demo_telemetry]"
proof -
  have "(1 :: u64) \<le> c \<longleftrightarrow> c \<noteq> 0" for c by (simp add: word_le_nat_alt Suc_le_eq unat_gt_0)
  then show ?thesis by (auto simp: serves_def demo_host_def demo_page_def remaining_def demo_telemetry_def)
qed

lemma demo_cursor: "telemetry_cursor_of demo_sdk demo_db (ri_plugin_id demo_runtime) (ri_stream_id demo_runtime) = Inr 0"
proof -
  have "get_json DecodeFailed (p_cursors demo_db) ''wire'' = Inr None" by (simp add: get_json_def demo_db_def empty_policy_db_def)
  moreover have "telemetry_stream_ok (replicate 32 (CHR ''0''))" by (simp add: telemetry_stream_ok_def list_all_iff)
  ultimately show ?thesis
    by (simp add: telemetry_cursor_of_def demo_runtime_def) (simp add: demo_sdk_def)
qed

text \<open>C21. Whatever the plugins answer and whatever fails, the engine keeps the store well formed and its counters monotone, keeps the queue well
  formed, and only appends to the events that are pending there: over any sequence of cycles and policy commands.\<close>

theorem engine_keeps_store_and_queue:
  assumes "policy_sdk_ok sdk" and "store_ok sdk (ew_db w)" and "queue_engine.world_ok qsdk w" and "engine_run sdk ek px qsdk host w w'"
  shows "store_ok sdk (ew_db w') \<and> evolves (ew_db w) (ew_db w') \<and> queue_engine.world_ok qsdk w' \<and>
    prefix (sink_events qsdk (ew_sink w)) (sink_events qsdk (ew_sink w'))"
proof -
  have e: "queue_engine.engine_effect qsdk sdk w w'" by (rule engine_run_effect [OF assms(4)])
  then have "policy_run sdk (ew_db w) (ew_db w')" using assms(3) by (simp add: queue_engine.engine_effect_def)
  from policy_run_good [OF this assms(1,2)] e assms(3) show ?thesis by (simp add: good_step_def queue_engine.engine_effect_def)
qed

theorem engine_keeps_store_and_queue_witness:
  "\<exists>es w'. run_cycle demo_sdk demo_ek (Some (enqueue_next demo_qsdk)) demo_host (demo_world demo_db) = (es, w') \<and>
    store_ok demo_sdk (ew_db w') \<and> prefix (sink_events demo_qsdk (sample_queue, [])) (sink_events demo_qsdk (ew_sink w'))"
proof -
  obtain es w' where run: "run_cycle demo_sdk demo_ek (Some (enqueue_next demo_qsdk)) demo_host (demo_world demo_db) = (es, w')" by force
  have "store_ok demo_sdk (ew_db (demo_world demo_db))" using demo_store_ok by (simp add: demo_world_def)
  moreover have "engine_run demo_sdk demo_ek px demo_qsdk demo_host (demo_world demo_db) w'" for px
    by (rule r_into_rtranclp) (rule engine_step.cycle_step [OF run])
  ultimately show ?thesis using engine_keeps_store_and_queue [OF demo_sdk_ok _ demo_world_ok] run by (fastforce simp: demo_world_def)
qed

text \<open>C22. Access events reach the queue at least once and in order: collecting from a plugin works through a first part of what its stream has
  behind the cursor, enqueues an access event for each telemetry event of a known binding, and moves the durable cursor behind the last; when an error
  stops it, at most one access event has been enqueued beyond the cursor; without an error nothing of the stream is left.\<close>

theorem access_events_reach_queue:
  assumes "collect_runtime sdk ek (Some (enqueue_next qsdk)) host runtime w = (es, w')" and "sink_inv qsdk (ew_sink w)"
    and "serves host (ri_plugin_id runtime) stream" and "ek_has ek (ri_capabilities runtime) RecentActivity" and "ri_stream_id runtime \<noteq> []"
    and "telemetry_cursor_of sdk (ew_db w) (ri_plugin_id runtime) (ri_stream_id runtime) = Inr cursor"
  shows "\<exists>passed extra rest evs payloads.
    remaining cursor stream = passed @ extra @ rest \<and> length extra \<le> 1 \<and> (es = [] \<longrightarrow> extra = [] \<and> rest = []) \<and>
    telemetry_cursor_of sdk (ew_db w') (ri_plugin_id runtime) (ri_stream_id runtime) =
      Inr (if passed = [] then cursor else te_sequence (last passed)) \<and>
    sink_events qsdk (ew_sink w') = sink_events qsdk (ew_sink w) @ evs \<and> list_all2 (carried qsdk) evs payloads \<and>
    accesses payloads = due_accesses sdk (ew_db w) runtime (passed @ extra)"
proof -
  from queue_log.collect_runtime_delivers [OF assms] obtain passed extra rest where c: "remaining cursor stream = passed @ extra @ rest"
    "length extra \<le> 1" "queue_log.delivered qsdk sdk runtime w w' passed extra" "es = [] \<longrightarrow> extra = [] \<and> rest = []"
    by (auto simp: queue_log.collected_def)
  then obtain payloads evs where "sink_events qsdk (ew_sink w') = sink_events qsdk (ew_sink w) @ evs" "list_all2 (carried qsdk) evs payloads"
    "accesses payloads = due_accesses sdk (ew_db w) runtime (passed @ extra)"
    by (auto simp: queue_log.delivered_def queue_log.logged_def)
  moreover have "telemetry_cursor_of sdk (ew_db w') (ri_plugin_id runtime) (ri_stream_id runtime) =
      Inr (if passed = [] then cursor else te_sequence (last passed))"
    using c(3) assms(6) by (cases "passed = []") (simp_all add: queue_log.delivered_def)
  ultimately show ?thesis using c by blast
qed

theorem access_events_reach_queue_witness:
  "\<exists>es w' passed extra rest. collect_runtime demo_sdk demo_ek (Some (enqueue_next demo_qsdk)) demo_host demo_runtime (demo_world demo_db) = (es, w') \<and>
    [demo_telemetry] = passed @ extra @ rest \<and> length extra \<le> 1"
proof -
  obtain es w' where run: "collect_runtime demo_sdk demo_ek (Some (enqueue_next demo_qsdk)) demo_host demo_runtime (demo_world demo_db) = (es, w')"
    by force
  have rest: "remaining 0 [demo_telemetry] = [demo_telemetry]" by (simp add: remaining_def demo_telemetry_def)
  have "sink_inv demo_qsdk (ew_sink (demo_world demo_db))" "ek_has demo_ek (ri_capabilities demo_runtime) RecentActivity"
    "ri_stream_id demo_runtime \<noteq> []"
    "telemetry_cursor_of demo_sdk (ew_db (demo_world demo_db)) (ri_plugin_id demo_runtime) (ri_stream_id demo_runtime) = Inr 0"
    using demo_sink_ok demo_cursor by (simp_all add: demo_world_def) (simp_all add: demo_ek_def demo_runtime_def)
  from access_events_reach_queue [OF run this(1) demo_serves this(2-4)] run show ?thesis unfolding rest by blast
qed

text \<open>C23. Usage is reported at least once: when the engine queues traffic, every unreported usage of the store is afterwards still unreported or
  carried by an event of the queue; if no step fails, all of it has been queued. The one exception is that of C12: in place of a snapshot put
  aside earlier, the engine reports (or keeps) the other unreported figures that the ledger of its authorization holds for the same period.\<close>

theorem traffic_reported_at_least_once:
  assumes "queue_traffic sdk ek (Some (enqueue_next qsdk)) w = (r, w')" and "sink_inv qsdk (ew_sink w)" and "store_ok sdk (ew_db w)"
    and "policy_sdk_ok sdk"
  shows "\<exists>evs sent. sink_events qsdk (ew_sink w') = sink_events qsdk (ew_sink w) @ evs \<and>
    list_all2 (carried qsdk) evs (map TrafficPayload sent) \<and>
    (\<forall>s \<in> unreported (ew_db w). (s \<in> unreported (ew_db w') \<and> r \<noteq> Inr ()) \<or> (\<exists>u \<in> set sent. same_usage u s) \<or>
       (\<exists>l. ledger_of (ew_db w) (ts_authorization_id s) = Some l \<and> ls_queued_revision l < ls_revision l \<and>
          per_id (ls_period l) = per_id (ts_period s) \<and> ledger_event l \<noteq> s \<and>
          ((ledger_event l \<in> unreported (ew_db w') \<and> r \<noteq> Inr ()) \<or> (\<exists>u \<in> set sent. same_usage u (ledger_event l)))))"
proof -
  from queue_log.queue_traffic_log [OF assms] obtain sent where
    log: "queue_log.logged qsdk (ew_sink w) (ew_sink w') (map TrafficPayload sent)" and
    kept: "\<And>s. s \<in> unreported (ew_db w) \<Longrightarrow> undisputed (ew_db w) s \<Longrightarrow>
      s \<in> {s. (s \<in> unreported (ew_db w') \<and> r \<noteq> Inr ()) \<or> (\<exists>u \<in> set sent. same_usage u s)}"
    by auto
  have "policy_inv sdk (ew_db w)" using assms(3) by (simp add: store_ok_def)
  note unreported_kept_or_replaced [OF this kept]
  with log show ?thesis by (fastforce simp: queue_log.logged_def)
qed

theorem traffic_reported_at_least_once_witness:
  "\<exists>r w' evs sent. queue_traffic demo_sdk demo_ek (Some (enqueue_next demo_qsdk)) (demo_world demo_db) = (r, w') \<and>
    sink_events demo_qsdk (ew_sink w') = sink_events demo_qsdk (sample_queue, []) @ evs \<and> list_all2 (carried demo_qsdk) evs (map TrafficPayload sent)"
proof -
  obtain r w' where run: "queue_traffic demo_sdk demo_ek (Some (enqueue_next demo_qsdk)) (demo_world demo_db) = (r, w')" by force
  have "sink_inv demo_qsdk (ew_sink (demo_world demo_db))" "store_ok demo_sdk (ew_db (demo_world demo_db))"
    using demo_sink_ok demo_store_ok by (simp_all add: demo_world_def)
  from traffic_reported_at_least_once [OF run this demo_sdk_ok] run show ?thesis by (auto simp: demo_world_def)
qed

text \<open>A service state is confirmed only for a process that has accepted exactly that request; and when bringing the plugins to the desired
  services reports no error, nothing is left to apply to any of them.\<close>

theorem services_confirmed_when_accepted:
  assumes "try_each (apply_service ek host runtimes) services w = (es, w')"
  shows "(\<forall>k a. applied_of (ew_db w') k = Some a \<longrightarrow>
      applied_of (ew_db w) k = Some a \<or> (\<exists>v \<in> set services. accepted_service host runtimes v k a)) \<and>
    (es = [] \<longrightarrow> distinct (map sv_key services) \<longrightarrow> (\<forall>v \<in> set services. settled_service runtimes (ew_db w') v))"
  using apply_services_effect_on [OF assms] by blast

definition demo_wanted_world :: "(queue_world, unit) engine_world" where
  "demo_wanted_world = demo_world (demo_db\<lparr>p_desired_services := [(service_key ''wire'' ''alice'' ''vpn'', Json demo_service)]\<rparr>)"

theorem services_confirmed_when_accepted_witness:
  "\<exists>w'. try_each (apply_service demo_ek demo_host (runtime_map [demo_runtime])) [public_desired_service demo_service] demo_wanted_world = ([], w') \<and>
    settled_service (runtime_map [demo_runtime]) (ew_db w') (public_desired_service demo_service)"
proof -
  let ?v = "public_desired_service demo_service"
  have v: "sv_plugin_id ?v = ''wire''" "sv_key ?v = service_key ''wire'' ''alice'' ''vpn''" "\<not> sv_orphan ?v"
    by (simp_all add: public_desired_service_def demo_service_def)
  have rt: "runtime_map [demo_runtime] ''wire'' = Some demo_runtime" by (simp add: runtime_map_def demo_runtime_def)
  have "service_needs_apply (ew_db demo_wanted_world) ?v ''i1'' = Inr True"
    by (simp add: service_needs_apply_def get_json_def demo_wanted_world_def demo_world_def demo_db_def empty_policy_db_def)
  moreover have "\<exists>db'. mark_service_applied None ?v ''i1'' (ew_db demo_wanted_world) = (Inr (), db')"
    using request_roundtrip [of demo_service]
    by (auto simp: mark_service_applied_def mark_service_applied_tx_def db_update_def Let_def v get_json_def decode_def bucket_get_def
        demo_wanted_world_def demo_world_def same_desired_service_eq)
  ultimately have "\<exists>w'. apply_service demo_ek demo_host (runtime_map [demo_runtime]) ?v demo_wanted_world = (Inr (), w')"
    by (auto simp: apply_service_def v rt bind_act_def read_store_def on_store_def ask_host_def on_host_def)
      (auto simp: demo_ek_def demo_host_def demo_runtime_def demo_wanted_world_def demo_world_def pop_fault_def v
        bind_act_def ask_host_def on_host_def on_store_def)
  then obtain w' where "try_each (apply_service demo_ek demo_host (runtime_map [demo_runtime])) [?v] demo_wanted_world = ([], w')"
    by (auto simp: errors_of_def)
  with services_confirmed_when_accepted [OF this] show ?thesis by auto
qed

definition capable :: "engine_sdk \<Rightarrow> authorization_policy \<Rightarrow> runtime_info \<Rightarrow> bool" where
  "capable ek policy runtime \<longleftrightarrow>
     ek_has ek (ri_capabilities runtime) TrafficCounters \<and> ek_has ek (ri_capabilities runtime) ServiceControl \<and>
     (ap_soft_ip_limit policy \<noteq> None \<longrightarrow>
        ek_has ek (ri_capabilities runtime) RecentActivity \<and> ek_has ek (ri_capabilities runtime) DynamicBlocking)"

lemma check_bindings_none_missing:
  "fold_res (check_binding ek runtimes policy) bs missing = Inr False \<Longrightarrow>
     \<not> missing \<and> (\<forall>b \<in> set bs. \<exists>runtime. runtimes (pb_plugin_id b) = Some runtime \<and> capable ek policy runtime)"
proof (induction bs arbitrary: missing)
  case (Cons b bs)
  then obtain m where m: "check_binding ek runtimes policy b missing = Inr m" "fold_res (check_binding ek runtimes policy) bs m = Inr False"
    by (auto simp: and_then_Inr_iff)
  from Cons.IH [OF m(2)] m(1) show ?case
    by (cases "runtimes (pb_plugin_id b)") (auto simp: check_binding_def capable_def split: if_splits)
qed simp

lemma validate_none_missing:
  assumes "validate_capabilities ek value runtimes = Inr False" and "policy \<in> set (rc_authorizations value)" and "b \<in> set (ap_bindings policy)"
  shows "\<exists>runtime. runtimes (pb_plugin_id b) = Some runtime \<and> capable ek policy runtime"
proof -
  have "\<not> m \<and> (\<forall>p \<in> set ps. \<forall>b \<in> set (ap_bindings p). \<exists>runtime. runtimes (pb_plugin_id b) = Some runtime \<and> capable ek p runtime)"
    if "fold_res (\<lambda>policy. fold_res (check_binding ek runtimes policy) (ap_bindings policy)) ps m = Inr False" for ps m
    using that
  proof (induction ps arbitrary: m)
    case (Cons p ps)
    then obtain m1 where m: "fold_res (check_binding ek runtimes p) (ap_bindings p) m = Inr m1"
      "fold_res (\<lambda>policy. fold_res (check_binding ek runtimes policy) (ap_bindings policy)) ps m1 = Inr False"
      by (auto simp: and_then_Inr_iff)
    from Cons.IH [OF m(2)] m(1) check_bindings_none_missing show ?case by fastforce
  qed simp
  with assms show ?thesis unfolding validate_capabilities_def by blast
qed

lemma reconcile_generation:
  assumes "policy_reconcile sdk fault request db = (Inr changed, db')" and "policy_sdk_ok sdk" and "policy_inv sdk db"
  shows "policy_generation db' = rc_generation request"
proof -
  from assms(1) obtain digest where valid: "sdk_validate_command sdk request" and tx: "reconcile_tx sdk request digest db = Inr (changed, db')"
    by (auto simp: policy_reconcile_def db_update_Inr_iff split: if_splits option.splits)
  note c = reconcile_tx_cases [OF assms(2,3) valid tx]
  show ?thesis
  proof (cases changed)
    case True
    with c obtain O' Pl L P T S B C where "db' = db\<lparr>p_orphans := O', p_policies := Pl, p_ledgers := L, p_pending := P,
        p_statuses := T, p_slots := S, p_blocks := B, p_counters := C,
        p_meta := bucket_put key_snapshot_digest digest (put_uint64 key_generation (rc_generation request) (p_meta db))\<rparr>"
      using install_policies_frame [of request digest "granted db" db db'] by blast
    then show ?thesis by (simp add: policy_generation_def)
  qed (use c in simp)
qed

text \<open>A policy command succeeds only if every plugin that the policies are bound to runs with the capabilities they need and the store is at
  the command's generation or a later one; the command of an older generation is refused as a conflict and leaves the store as it is.\<close>

theorem policy_command_outcome:
  assumes "engine_execute sdk ek px (Some (enqueue_next qsdk)) host deadline k cmd w = (ex, w')" and "ac_kind cmd = ek_command_kind ek"
    and "ek_decode ek cmd = Some request" and "policy_sdk_ok sdk" and "store_ok sdk (ew_db w)" and "queue_engine.world_ok qsdk w"
  shows "(ex_problem ex = None \<longrightarrow> rc_generation request \<le> policy_generation (ew_db w') \<and>
      (\<forall>policy \<in> set (rc_authorizations request). \<forall>b \<in> set (ap_bindings policy).
         \<exists>runtime. runtime_map (rh_running host (ew_host w)) (pb_plugin_id b) = Some runtime \<and> capable ek policy runtime)) \<and>
    (rc_generation request < policy_generation (ew_db w) \<longrightarrow> ew_db w' = ew_db w \<and> ex_problem ex \<noteq> None)"
proof -
  let ?rs = "runtime_map (rh_running host (ew_host w))"
  have pinv: "policy_inv sdk (ew_db w)" using assms(5) by (simp add: store_ok_def)
  show ?thesis
  proof (cases "validate_capabilities ek request ?rs")
    case (Inl m)
    with assms(1-3) show ?thesis by (auto simp: engine_execute_def Let_def failure_def)
  next
    case (Inr missing)
    obtain r1 w1 where 1: "on_store (\<lambda>fault. policy_reconcile sdk fault request) w = (r1, w1)" by force
    from 1 obtain fault r0 where rec: "policy_reconcile sdk fault request (ew_db w) = (r0, ew_db w1)" "r1 = map_sum StoreError (\<lambda>x. x) r0"
      by (rule on_store_result) blast
    show ?thesis
    proof (cases r0)
      case (Inl e)
      have "ew_db w1 = ew_db w"
        using rec(1) Inl by (auto simp: policy_reconcile_def dest: db_update_rollback split: if_splits option.splits)
      with assms(1-3) Inr 1 rec(2) Inl show ?thesis by (auto simp: engine_execute_def Let_def failure_def split: if_splits)
    next
      case (Inr changed)
      have gen: "policy_generation (ew_db w1) = rc_generation request" by (rule reconcile_generation [OF rec(1) [unfolded Inr] assms(4) pinv])
      have eff: "queue_engine.engine_effect qsdk sdk w w1"
        by (rule effectD [OF queue_engine.store_step_effect 1]) (rule policy_step.step_reconcile)
      have good1: "good_step sdk (ew_db w) (ew_db w1)" by (rule reconcile_good [OF rec(1) assms(4,5)])
      have le: "policy_generation (ew_db w) \<le> rc_generation request" using good1 gen by (auto simp: good_step_def evolves_def)
      obtain es w2 where 2: "apply_and_publish sdk ek (Some (enqueue_next qsdk)) host ?rs w1 = (es, w2)" by force
      have "queue_engine.engine_effect qsdk sdk w1 w2" by (rule effectD [OF queue_engine.apply_and_publish_effect 2])
      then have "policy_run sdk (ew_db w1) (ew_db w2)" using eff assms(6) by (simp add: queue_engine.engine_effect_def)
      from policy_run_good [OF this assms(4)] good1 gen have le2: "rc_generation request \<le> policy_generation (ew_db w2)"
        by (auto simp: good_step_def evolves_def)
      have "ex_problem ex = None \<Longrightarrow> \<not> missing \<and> w' = w2"
        using assms(1-3) \<open>validate_capabilities ek request ?rs = Inr missing\<close> 1 2 rec(2) Inr
        by (auto simp: engine_execute_def Let_def failure_def output_of_def split: if_splits option.splits)
      with le le2 validate_none_missing [of ek request ?rs] \<open>validate_capabilities ek request ?rs = Inr missing\<close>
      show ?thesis by auto
    qed
  qed
qed

definition demo_old_ek :: engine_sdk where
  "demo_old_ek = demo_ek\<lparr>ek_decode := (\<lambda>c. Some (demo_command 0))\<rparr>"

definition demo_engine_px :: processor_sdk where
  "demo_engine_px = \<lparr>px_center_command = [], px_decode_command = (\<lambda>_. None), px_valid_ack = (\<lambda>_. True),
     px_error_unavailable = ''unavailable'', px_error_unsupported = ''unsupported'', px_error_invalid_argument = ''invalid'',
     px_error_conflict = ''conflict'', px_error_internal = ''internal'', px_maximum_execution = 300\<rparr>"

theorem policy_command_outcome_witness:
  "\<exists>ex w'. engine_execute demo_sdk demo_old_ek demo_engine_px (Some (enqueue_next demo_qsdk)) demo_host 0 ''c''
       \<lparr>ac_kind = ''policy'', ac_expires_at = 9, ac_payload = []\<rparr> (demo_world demo_db) = (ex, w') \<and>
     ew_db w' = demo_db \<and> ex_problem ex \<noteq> None"
proof -
  let ?cmd = "\<lparr>ac_kind = ''policy'', ac_expires_at = 9, ac_payload = []\<rparr> :: agent_command"
  obtain ex w' where run: "engine_execute demo_sdk demo_old_ek demo_engine_px (Some (enqueue_next demo_qsdk)) demo_host 0 ''c'' ?cmd (demo_world demo_db) = (ex, w')"
    by force
  have "ac_kind ?cmd = ek_command_kind demo_old_ek" "ek_decode demo_old_ek ?cmd = Some (demo_command 0)" by (simp_all add: demo_old_ek_def demo_ek_def)
  moreover have "store_ok demo_sdk (ew_db (demo_world demo_db))" using demo_store_ok by (simp add: demo_world_def)
  ultimately show ?thesis using policy_command_outcome [OF run _ _ demo_sdk_ok _ demo_world_ok] run demo_generation
    by (auto simp: demo_command_def demo_world_def)
qed

end
