(* ===== verification/PluginInstaller.thy ===== *)
theory PluginInstaller
  imports PluginState Urls
begin

section \<open>Installing plugin artifacts (internal/plugin/installer.go)\<close>

text \<open>
  An artifact is downloaded into a partial file of its release directory, verified, and moved to the path from which it is executed. Where it may be
  downloaded from is decided by a validator of parsed URLs, which the HTTP client applies to every redirect and \<^verbatim>\<open>fetch\<close> to the
  first and the last URL. The client's loop over redirects is part of Go's \<^verbatim>\<open>net/http\<close>; it is \<open>follow\<close>, with the answers of the
  servers as a parameter.
\<close>

subsection \<open>Where an artifact may come from\<close>

datatype url_error = UrlNotSecure | UrlPortRefused | UrlHostRefused | CenterURLInvalid

type_synonym host_validator = "parsed_url option \<Rightarrow> url_error + unit"

definition github_hosts :: "string list" where
  "github_hosts = [''github.com'', ''api.github.com'', ''objects.githubusercontent.com'', ''objects-origin.githubusercontent.com'',
     ''github-releases.githubusercontent.com'', ''github-registry-files.githubusercontent.com'', ''release-assets.githubusercontent.com'']"

definition insecure_url :: "parsed_url \<Rightarrow> bool" where
  "insecure_url u \<longleftrightarrow> pu_scheme u \<noteq> https \<or> pu_has_user u \<or> pu_fragment u \<noteq> [] \<or> pu_hostname u = []"

definition other_port :: "parsed_url \<Rightarrow> bool" where
  "other_port u \<longleftrightarrow> pu_port u \<noteq> [] \<and> pu_port u \<noteq> ''443''"

definition validate_github_artifact_url :: host_validator where
  "validate_github_artifact_url value' =
     (case value' of
        None \<Rightarrow> Inl UrlNotSecure
      | Some u \<Rightarrow>
          if insecure_url u then Inl UrlNotSecure
          else if other_port u then Inl UrlPortRefused
          else if to_lower (pu_hostname u) \<in> set github_hosts then Inr ()
          else Inl UrlHostRefused)"

definition url_origin :: "parsed_url \<Rightarrow> string" where
  "url_origin u = to_lower (pu_scheme u @ ''://'' @ pu_host u)"

definition new_artifact_url_validator :: "(string \<Rightarrow> parsed_url option) \<Rightarrow> string \<Rightarrow> url_error + host_validator" where
  "new_artifact_url_validator parse center_url =
     (case parse center_url of
        None \<Rightarrow> Inl CenterURLInvalid
      | Some center \<Rightarrow>
          if pu_hostname center = [] \<or> pu_has_user center then Inl CenterURLInvalid
          else Inr (\<lambda>value'.
            if validate_github_artifact_url value' = Inr () then Inr ()
            else case value' of
              None \<Rightarrow> Inl UrlNotSecure
            | Some u \<Rightarrow>
                if insecure_url u then Inl UrlNotSecure
                else if other_port u then Inl UrlPortRefused
                else if pu_scheme center \<noteq> https \<or> url_origin u \<noteq> url_origin center then Inl UrlHostRefused
                else Inr ()))"

subsection \<open>The HTTP client\<close>

definition maximum_redirects :: nat where
  "maximum_redirects = 10"

datatype web_answer = Page http_reply | Redirect string

type_synonym redirect_check = "parsed_url option \<Rightarrow> nat \<Rightarrow> bool"

text \<open>
  \<^verbatim>\<open>newInstaller\<close>: \<open>in_prior\<close> is the redirect check of the client it was given, \<open>in_answer\<close> what the servers answer to one request, and
  \<open>in_releases\<close> the directory of the releases.
\<close>

record installer =
  in_releases :: string
  in_sha256 :: "string \<Rightarrow> string"
  in_parse :: "string \<Rightarrow> parsed_url option"
  in_validate :: host_validator
  in_prior :: "redirect_check option"
  in_answer :: "http_request \<Rightarrow> web_answer option"

definition new_installer ::
    "string \<Rightarrow> (string \<Rightarrow> string) \<Rightarrow> (string \<Rightarrow> parsed_url option) \<Rightarrow> (http_request \<Rightarrow> web_answer option)
     \<Rightarrow> redirect_check option \<Rightarrow> host_validator option \<Rightarrow> installer" where
  "new_installer releases sha256 parse answer prior validate =
     \<lparr>in_releases = releases, in_sha256 = sha256, in_parse = parse,
      in_validate = (case validate of None \<Rightarrow> validate_github_artifact_url | Some v \<Rightarrow> v),
      in_prior = prior, in_answer = answer\<rparr>"

definition check_redirect :: "installer \<Rightarrow> parsed_url option \<Rightarrow> nat \<Rightarrow> bool" where
  "check_redirect ins u via \<longleftrightarrow>
     (if maximum_redirects \<le> via then False
      else if in_validate ins u \<noteq> Inr () then False
      else case in_prior ins of None \<Rightarrow> True | Some prior \<Rightarrow> prior u via)"

text \<open>The requests the client makes and the reply it ends with; \<open>via\<close> requests were made before.\<close>

function follow :: "installer \<Rightarrow> http_request \<Rightarrow> nat \<Rightarrow> string list \<times> http_reply option" where
  "follow ins rq via =
     (case in_answer ins rq of
        None \<Rightarrow> ([rq_url rq], None)
      | Some (Page reply) \<Rightarrow> ([rq_url rq], Some (reply\<lparr>rp_url := rq_url rq\<rparr>))
      | Some (Redirect location) \<Rightarrow>
          if check_redirect ins (in_parse ins location) (Suc via)
          then (case follow ins (rq\<lparr>rq_url := location\<rparr>) (Suc via) of (urls, reply) \<Rightarrow> (rq_url rq # urls, reply))
          else ([rq_url rq], None))"
  by pat_completeness auto
termination
  by (relation "measure (\<lambda>(ins, rq, via). maximum_redirects - via)") (auto simp: check_redirect_def split: if_splits)

declare follow.simps [simp del]

definition installer_client :: "installer \<Rightarrow> http_client" where
  "installer_client ins =
     \<lparr>hc_request_ok = (\<lambda>url. in_parse ins url \<noteq> None), hc_do = (\<lambda>rq. snd (follow ins rq 0))\<rparr>"

subsection \<open>Verifying an installed artifact\<close>

datatype install_step =
    InspectDestination | OpenArtifact | ReadArtifact | RemoveInvalid | SyncRepairedRelease | CreateDirectory | ProtectReleaseRoot
  | ProtectReleaseDirectory | SyncReleases | SyncPluginReleases | SyncReleaseDirectory | ActivateArtifact | SyncActivated

datatype install_error =
    ArtifactMissing | URLNotAllowed | InstallFailed install_step | NotPrivateExecutable | ArtifactSizeDiffers | ArtifactDigestDiffers
  | DownloadFailed download_error

definition group_and_others :: nat where "group_and_others = 63"
definition owner_execute :: nat where "owner_execute = 64"

definition verify_artifact :: "(string \<Rightarrow> string) \<Rightarrow> (install_step \<Rightarrow> bool) \<Rightarrow> artifact_state \<Rightarrow> local_file \<Rightarrow> install_error + unit" where
  "verify_artifact sha256 fails expected f =
     (if \<not> lf_regular f \<or> and (lf_mode f) group_and_others \<noteq> 0 \<or> and (lf_mode f) owner_execute = 0 then Inl NotPrivateExecutable
      else if int (length (lf_content f)) \<noteq> as_size expected then Inl ArtifactSizeDiffers
      else if fails OpenArtifact then Inl (InstallFailed OpenArtifact)
      else if fails ReadArtifact then Inl (InstallFailed ReadArtifact)
      else if sha256 (lf_content f) \<noteq> as_sha256 expected then Inl ArtifactDigestDiffers
      else Inr ())"

subsection \<open>Fetching\<close>

definition release_path :: "string \<Rightarrow> string \<Rightarrow> string \<Rightarrow> string \<Rightarrow> string" where
  "release_path releases plugin_id version digest =
     path_join (path_join (path_join releases plugin_id) (release_name version digest)) ''plugin''"

definition no_release_files :: release_files where
  "no_release_files = \<lparr>rf_plugin = None, rf_partial = None\<rparr>"

definition release_files_of :: "releases \<Rightarrow> string \<Rightarrow> string \<Rightarrow> release_files" where
  "release_files_of rel plugin_id name =
     (case rel plugin_id of
        None \<Rightarrow> no_release_files
      | Some b \<Rightarrow> (case bucket_get b name of None \<Rightarrow> no_release_files | Some f \<Rightarrow> f))"

definition put_release_files :: "string \<Rightarrow> string \<Rightarrow> release_files \<Rightarrow> releases \<Rightarrow> releases" where
  "put_release_files plugin_id name f rel =
     rel(plugin_id \<mapsto> bucket_put name f (case rel plugin_id of None \<Rightarrow> [] | Some b \<Rightarrow> b))"

text \<open>What is at the destination: a valid artifact stays, anything else is removed.\<close>

definition clear_destination ::
    "(string \<Rightarrow> string) \<Rightarrow> (install_step \<Rightarrow> bool) \<Rightarrow> artifact_state \<Rightarrow> local_file option \<Rightarrow> (install_error + bool) \<times> local_file option" where
  "clear_destination sha256 fails expected slot =
     (if fails InspectDestination then (Inl (InstallFailed InspectDestination), slot)
      else case slot of
        None \<Rightarrow> (Inr False, None)
      | Some f \<Rightarrow>
          if verify_artifact sha256 fails expected f = Inr () then (Inr True, Some f)
          else if fails RemoveInvalid then (Inl (InstallFailed RemoveInvalid), Some f)
          else if fails SyncRepairedRelease then (Inl (InstallFailed SyncRepairedRelease), None)
          else (Inr False, None))"

text \<open>The steps on the directories, in the order of the code; each of them is there afterwards, private and synced.\<close>

definition directory_steps :: "install_step list" where
  "directory_steps = [CreateDirectory, ProtectReleaseRoot, ProtectReleaseDirectory, SyncReleases, SyncPluginReleases, SyncReleaseDirectory]"

fun first_failure :: "('s \<Rightarrow> bool) \<Rightarrow> 's list \<Rightarrow> 's option" where
  "first_failure fails [] = None"
| "first_failure fails (s # ss) = (if fails s then Some s else first_failure fails ss)"

definition plugin_download :: "installer \<Rightarrow> desired_state \<Rightarrow> artifact_state \<Rightarrow> artifact" where
  "plugin_download ins desired expected =
     \<lparr>ar_url = de_download_url desired,
      ar_path = release_path (in_releases ins) (de_plugin_id desired) (de_version desired) (as_sha256 expected) @ ''.partial'',
      ar_size = as_size expected, ar_sha256 = as_sha256 expected,
      ar_validate_response = (\<lambda>reply. in_validate ins (in_parse ins (rp_url reply)) = Inr ())\<rparr>"

text \<open>\<open>fails\<close> and \<open>dfails\<close> are the steps that the operating system refuses, here and during the download.\<close>

definition download_release ::
    "installer \<Rightarrow> (install_step \<Rightarrow> bool) \<Rightarrow> (fetch_step \<Rightarrow> bool) \<Rightarrow> desired_state \<Rightarrow> artifact_state \<Rightarrow> release_files
     \<Rightarrow> (install_error + unit) \<times> release_files" where
  "download_release ins fails dfails desired expected files =
     (case fetch (in_sha256 ins) (Some (installer_client ins)) dfails (plugin_download ins desired expected) (rf_partial files) of
        (Inl e, partial) \<Rightarrow> (Inl (DownloadFailed e), files\<lparr>rf_partial := partial\<rparr>)
      | (Inr _, partial) \<Rightarrow>
          if fails ActivateArtifact then (Inl (InstallFailed ActivateArtifact), files\<lparr>rf_partial := partial\<rparr>)
          else
            let files = files\<lparr>rf_plugin := partial, rf_partial := None\<rparr> in
            if fails SyncActivated then (Inl (InstallFailed SyncActivated), files) else (Inr (), files))"

definition installer_fetch ::
    "installer \<Rightarrow> (install_step \<Rightarrow> bool) \<Rightarrow> (fetch_step \<Rightarrow> bool) \<Rightarrow> desired_state \<Rightarrow> releases
     \<Rightarrow> (install_error + string) \<times> releases" where
  "installer_fetch ins fails dfails desired rel =
     (case de_artifact desired of
        None \<Rightarrow> (Inl ArtifactMissing, rel)
      | Some expected \<Rightarrow>
        if in_parse ins (de_download_url desired) = None \<or> in_validate ins (in_parse ins (de_download_url desired)) \<noteq> Inr ()
        then (Inl URLNotAllowed, rel)
        else
          let destination = release_path (in_releases ins) (de_plugin_id desired) (de_version desired) (as_sha256 expected);
              name = release_name (de_version desired) (as_sha256 expected);
              files = release_files_of rel (de_plugin_id desired) name;
              put = (\<lambda>files. put_release_files (de_plugin_id desired) name files rel);
              cleared = (\<lambda>slot. if slot = rf_plugin files then rel else put (files\<lparr>rf_plugin := slot\<rparr>))
          in (case clear_destination (in_sha256 ins) fails expected (rf_plugin files) of
                (Inl e, slot) \<Rightarrow> (Inl e, cleared slot)
              | (Inr True, _) \<Rightarrow> (Inr destination, rel)
              | (Inr False, slot) \<Rightarrow>
                (case first_failure fails directory_steps of
                   Some s \<Rightarrow> (Inl (InstallFailed s), if s = CreateDirectory then cleared slot else put (files\<lparr>rf_plugin := slot\<rparr>))
                 | None \<Rightarrow>
                   (case download_release ins fails dfails desired expected (files\<lparr>rf_plugin := slot\<rparr>) of
                      (Inl e, files) \<Rightarrow> (Inl e, put files)
                    | (Inr _, files) \<Rightarrow> (Inr destination, put files)))))"

subsection \<open>What a fetch leaves in the release directories\<close>

lemma release_files_put [simp]:
  "release_files_of (put_release_files p n f rel) p' n' = (if p' = p \<and> n' = n then f else release_files_of rel p' n')"
  by (simp add: release_files_of_def put_release_files_def split: option.splits)

definition installed :: "(string \<Rightarrow> string) \<Rightarrow> artifact_state \<Rightarrow> local_file option \<Rightarrow> bool" where
  "installed sha256 expected slot \<longleftrightarrow>
     (case slot of None \<Rightarrow> False | Some f \<Rightarrow> verify_artifact sha256 (\<lambda>_. False) expected f = Inr ())"

lemma installed_iff:
  "installed sha256 expected slot \<longleftrightarrow>
   (\<exists>f. slot = Some f \<and> lf_regular f \<and> and (lf_mode f) group_and_others = 0 \<and> and (lf_mode f) owner_execute \<noteq> 0 \<and>
      int (length (lf_content f)) = as_size expected \<and> sha256 (lf_content f) = as_sha256 expected)"
  by (auto simp: installed_def verify_artifact_def split: option.splits)

lemma verify_artifact_installed: "verify_artifact sha256 fails expected f = Inr u \<Longrightarrow> installed sha256 expected (Some f)"
  by (auto simp: installed_def verify_artifact_def split: if_splits)

lemma verify_artifact_quiet:
  "installed sha256 expected (Some f) \<Longrightarrow> \<not> fails OpenArtifact \<Longrightarrow> \<not> fails ReadArtifact \<Longrightarrow> verify_artifact sha256 fails expected f = Inr ()"
  by (auto simp: installed_def verify_artifact_def split: if_splits)

lemma clear_destination_result:
  "clear_destination sha256 fails expected slot = (r, slot') \<Longrightarrow>
   (slot' = slot \<or> slot' = None) \<and> (r = Inr True \<longrightarrow> slot' = slot \<and> installed sha256 expected slot) \<and> (r = Inr False \<longrightarrow> slot' = None)"
  by (auto simp: clear_destination_def split: if_splits option.splits dest: verify_artifact_installed)

lemma private_mode_bits: "and private_mode group_and_others = 0" "and private_mode owner_execute \<noteq> 0" "0 < and private_mode owner_execute"
  by (simp_all add: private_mode_def group_and_others_def owner_execute_def)

lemma download_release_result:
  assumes "download_release ins fails dfails desired expected files = (r, files')"
  shows "rf_plugin files' = rf_plugin files \<and> (\<exists>e. r = Inl e) \<or> installed (in_sha256 ins) expected (rf_plugin files')"
proof -
  obtain d partial where d:
    "fetch (in_sha256 ins) (Some (installer_client ins)) dfails (plugin_download ins desired expected) (rf_partial files) = (d, partial)" by force
  show ?thesis
  proof (cases d)
    case (Inl e)
    with assms d show ?thesis by (auto simp: download_release_def)
  next
    case (Inr u)
    with d have "fetch (in_sha256 ins) (Some (installer_client ins)) dfails (plugin_download ins desired expected) (rf_partial files) = (Inr u, partial)"
      by simp
    then have "installed (in_sha256 ins) expected partial"
      by (rule fetch_success) (auto simp: installed_iff plugin_download_def private_mode_bits)
    with assms d Inr show ?thesis by (auto simp: download_release_def Let_def split: if_splits)
  qed
qed

lemma installer_fetch_result:
  assumes "installer_fetch ins fails dfails desired rel = (r, rel')"
  obtains (refused) e where "r = Inl e" "rel' = rel"
  | (handled) expected where "de_artifact desired = Some expected"
      "\<And>p n. p \<noteq> de_plugin_id desired \<or> n \<noteq> release_name (de_version desired) (as_sha256 expected) \<Longrightarrow>
         release_files_of rel' p n = release_files_of rel p n"
      "let slot = \<lambda>rel. rf_plugin (release_files_of rel (de_plugin_id desired) (release_name (de_version desired) (as_sha256 expected)))
       in installed (in_sha256 ins) expected (slot rel') \<or> (\<exists>e. r = Inl e) \<and> (slot rel' = slot rel \<or> slot rel' = None)"
      "\<And>path. r = Inr path \<Longrightarrow>
         path = release_path (in_releases ins) (de_plugin_id desired) (de_version desired) (as_sha256 expected)"
proof (cases "de_artifact desired")
  case None
  with assms that(1) show ?thesis by (auto simp: installer_fetch_def)
next
  case (Some expected)
  let ?name = "release_name (de_version desired) (as_sha256 expected)"
  let ?files = "release_files_of rel (de_plugin_id desired) ?name"
  let ?put = "\<lambda>files. put_release_files (de_plugin_id desired) ?name files rel"
  show ?thesis
  proof (cases "in_parse ins (de_download_url desired) = None \<or> in_validate ins (in_parse ins (de_download_url desired)) \<noteq> Inr ()")
    case True
    with assms Some that(1) show ?thesis by (auto simp: installer_fetch_def)
  next
    case False
    obtain c slot where c: "clear_destination (in_sha256 ins) fails expected (rf_plugin ?files) = (c, slot)" by force
    note c' = clear_destination_result [OF c]
    have url: "\<exists>u. in_parse ins (de_download_url desired) = Some u" "in_validate ins (in_parse ins (de_download_url desired)) = Inr ()"
      using False by auto
    show ?thesis
    proof (cases c)
      case (Inl e)
      with assms Some url c c' show ?thesis
        by (intro that(2) [of expected]) (auto simp: installer_fetch_def Let_def split: if_splits)
    next
      case (Inr present)
      show ?thesis
      proof (cases present)
        case True
        with assms Some url c c' Inr show ?thesis
          by (intro that(2) [of expected]) (auto simp: installer_fetch_def Let_def)
      next
        case False
        show ?thesis
        proof (cases "first_failure fails directory_steps")
          case (Some s)
          with assms \<open>de_artifact desired = Some expected\<close> url c c' Inr False show ?thesis
            by (intro that(2) [of expected]) (auto simp: installer_fetch_def Let_def split: if_splits)
        next
          case None
          obtain d files' where d: "download_release ins fails dfails desired expected (?files\<lparr>rf_plugin := slot\<rparr>) = (d, files')" by force
          have "rel' = ?put files'" and r: "r = map_sum id (\<lambda>_. release_path (in_releases ins) (de_plugin_id desired) (de_version desired) (as_sha256 expected)) d"
            using assms Some url c Inr False None d by (auto simp: installer_fetch_def Let_def split: sum.splits)
          with download_release_result [OF d] c' Inr False Some show ?thesis
            by (intro that(2) [of expected]) (cases d; auto)+
        qed
      qed
    qed
  qed
qed

subsection \<open>The properties of an installation\<close>

lemma follow_bounded:
  "follow ins rq via = (urls, reply) \<Longrightarrow> via < maximum_redirects \<Longrightarrow>
   urls \<noteq> [] \<and> hd urls = rq_url rq \<and> via + length urls \<le> maximum_redirects \<and>
   (\<forall>u \<in> set (tl urls). in_validate ins (in_parse ins u) = Inr ()) \<and> (\<forall>p. reply = Some p \<longrightarrow> rp_url p = last urls)"
proof (induction ins rq via arbitrary: urls rule: follow.induct)
  case (1 ins rq via)
  show ?case
  proof (cases "\<exists>location. in_answer ins rq = Some (Redirect location) \<and> check_redirect ins (in_parse ins location) (Suc via)")
    case False
    with "1.prems" show ?thesis
      by (auto simp: follow.simps [of ins rq via] split: option.splits web_answer.splits if_splits)
  next
    case True
    then obtain location where l: "in_answer ins rq = Some (Redirect location)" "check_redirect ins (in_parse ins location) (Suc via)" by blast
    obtain urls1 reply1 where f: "follow ins (rq\<lparr>rq_url := location\<rparr>) (Suc via) = (urls1, reply1)" by force
    have out: "urls = rq_url rq # urls1" "reply = reply1"
      using "1.prems"(1) l f by (simp_all add: follow.simps [of ins rq via])
    have check: "Suc via < maximum_redirects" "in_validate ins (in_parse ins location) = Inr ()"
      using l(2) by (auto simp: check_redirect_def split: if_splits)
    have ih: "urls1 \<noteq> []" "hd urls1 = location" "Suc via + length urls1 \<le> maximum_redirects"
      "\<forall>u \<in> set (tl urls1). in_validate ins (in_parse ins u) = Inr ()" "\<forall>p. reply = Some p \<longrightarrow> rp_url p = last urls1"
      using "1.IH" [OF l(1) refl l(2), of urls1] f out(2) check(1) by auto
    then show ?thesis using out check by (cases urls1) auto
  qed
qed

text \<open>A fetch depends on the answers of the servers to the allowed requests only: the first URL is checked by \<^verbatim>\<open>fetch\<close>, the others by the
  redirect check.\<close>

lemma follow_allowed_answers:
  assumes "\<And>q. in_validate ins (in_parse ins (rq_url q)) = Inr () \<Longrightarrow> answer q = in_answer ins q"
    and "in_validate ins (in_parse ins (rq_url rq)) = Inr ()"
  shows "follow (ins\<lparr>in_answer := answer\<rparr>) rq via = follow ins rq via"
  using assms
proof (induction ins rq via rule: follow.induct)
  case (1 ins rq via)
  have same: "answer rq = in_answer ins rq" by (rule "1.prems"(1) [OF "1.prems"(2)])
  have check: "check_redirect (ins\<lparr>in_answer := answer\<rparr>) u n = check_redirect ins u n" for u n
    by (simp add: check_redirect_def)
  show ?case
  proof (cases "\<exists>location. in_answer ins rq = Some (Redirect location) \<and> check_redirect ins (in_parse ins location) (Suc via)")
    case False
    then show ?thesis
      by (auto simp: follow.simps [of "ins\<lparr>in_answer := answer\<rparr>" rq via] follow.simps [of ins rq via] same check split: option.splits web_answer.splits)
  next
    case True
    then obtain location where l: "in_answer ins rq = Some (Redirect location)" "check_redirect ins (in_parse ins location) (Suc via)" by blast
    have "in_validate ins (in_parse ins location) = Inr ()" using l(2) by (auto simp: check_redirect_def split: if_splits)
    then have "follow (ins\<lparr>in_answer := answer\<rparr>) (rq\<lparr>rq_url := location\<rparr>) (Suc via) = follow ins (rq\<lparr>rq_url := location\<rparr>) (Suc via)"
      using "1.IH" [OF l(1) refl l(2)] "1.prems"(1) by simp
    then show ?thesis
      using l by (simp add: follow.simps [of "ins\<lparr>in_answer := answer\<rparr>" rq via] follow.simps [of ins rq via] same check)
  qed
qed

lemma fetch_same_client:
  assumes "hc_request_ok c' = hc_request_ok c"
    and "\<And>range. hc_do c' \<lparr>rq_url = ar_url a, rq_range = range\<rparr> = hc_do c \<lparr>rq_url = ar_url a, rq_range = range\<rparr>"
  shows "fetch sha256 (Some c') fails a slot = fetch sha256 (Some c) fails a slot"
  unfolding fetch_def option.case assms ..

lemma installer_fetch_allowed_answers:
  assumes "\<And>q. in_validate ins (in_parse ins (rq_url q)) = Inr () \<Longrightarrow> answer q = in_answer ins q"
  shows "installer_fetch (ins\<lparr>in_answer := answer\<rparr>) fails dfails desired rel = installer_fetch ins fails dfails desired rel"
proof (cases "in_parse ins (de_download_url desired) = None \<or> in_validate ins (in_parse ins (de_download_url desired)) \<noteq> Inr ()")
  case True
  then show ?thesis by (simp add: installer_fetch_def split: option.splits)
next
  case False
  have client: "hc_request_ok (installer_client (ins\<lparr>in_answer := answer\<rparr>)) = hc_request_ok (installer_client ins)"
    "hc_do (installer_client (ins\<lparr>in_answer := answer\<rparr>)) \<lparr>rq_url = de_download_url desired, rq_range = range\<rparr> =
      hc_do (installer_client ins) \<lparr>rq_url = de_download_url desired, rq_range = range\<rparr>" for range
    using follow_allowed_answers [of ins answer "\<lparr>rq_url = de_download_url desired, rq_range = range\<rparr>" 0] assms False
    by (simp_all add: installer_client_def)
  have "plugin_download (ins\<lparr>in_answer := answer\<rparr>) desired expected = plugin_download ins desired expected" for expected
    by (simp add: plugin_download_def)
  moreover have "ar_url (plugin_download ins desired expected) = de_download_url desired" for expected
    by (simp add: plugin_download_def)
  ultimately have "download_release (ins\<lparr>in_answer := answer\<rparr>) fails dfails desired expected files = download_release ins fails dfails desired expected files"
    for expected files
    using fetch_same_client [of "installer_client (ins\<lparr>in_answer := answer\<rparr>)" "installer_client ins" "plugin_download ins desired expected"] client
    by (simp add: download_release_def)
  note same = this
  have fields: "in_parse (ins\<lparr>in_answer := answer\<rparr>) = in_parse ins" "in_validate (ins\<lparr>in_answer := answer\<rparr>) = in_validate ins"
    "in_releases (ins\<lparr>in_answer := answer\<rparr>) = in_releases ins" "in_sha256 (ins\<lparr>in_answer := answer\<rparr>) = in_sha256 ins" by simp_all
  show ?thesis unfolding installer_fetch_def same fields ..
qed

text \<open>What the validator made for a center lets through.\<close>

definition trusted_url :: "parsed_url \<Rightarrow> parsed_url \<Rightarrow> bool" where
  "trusted_url center u \<longleftrightarrow>
     pu_scheme u = https \<and> \<not> pu_has_user u \<and> pu_port u \<in> {[], ''443''} \<and>
     (to_lower (pu_hostname u) \<in> {''github.com'', ''api.github.com'', ''objects.githubusercontent.com'', ''objects-origin.githubusercontent.com'',
        ''github-releases.githubusercontent.com'', ''github-registry-files.githubusercontent.com'', ''release-assets.githubusercontent.com''} \<or>
      pu_scheme center = https \<and> to_lower (pu_host u) = to_lower (pu_host center))"

definition trusted_source :: "installer \<Rightarrow> parsed_url \<Rightarrow> string \<Rightarrow> bool" where
  "trusted_source ins center url \<longleftrightarrow> (\<exists>u. in_parse ins url = Some u \<and> trusted_url center u)"

lemma new_artifact_url_validator_Inr:
  assumes "new_artifact_url_validator parse center_url = Inr validate"
  obtains center where "parse center_url = Some center" "\<And>u. validate u = Inr () \<Longrightarrow> \<exists>p. u = Some p \<and> trusted_url center p"
proof -
  obtain center where c: "parse center_url = Some center"
    using assms by (auto simp: new_artifact_url_validator_def split: option.splits)
  have "\<exists>p. u = Some p \<and> trusted_url center p" if "validate u = Inr ()" for u
    using assms that c
    by (cases u) (auto simp: new_artifact_url_validator_def validate_github_artifact_url_def trusted_url_def insecure_url_def other_port_def
        github_hosts_def url_origin_def to_lower_def split: if_splits)
  with c that show ?thesis by blast
qed

definition sample_parse :: "string \<Rightarrow> parsed_url option" where
  "sample_parse s = (if prefix ''https://'' s
     then Some \<lparr>pu_scheme = https, pu_has_user = False, pu_host = drop 8 s, pu_hostname = drop 8 s, pu_port = [], pu_raw_query = [], pu_fragment = []\<rparr>
     else None)"

definition sample_validator :: host_validator where
  "sample_validator = (case new_artifact_url_validator sample_parse ''https://center'' of Inl e \<Rightarrow> (\<lambda>_. Inl e) | Inr v \<Rightarrow> v)"

text \<open>A server that redirects for ever, and one that first redirects to another host and then has the artifact.\<close>

definition endless_installer :: installer where
  "endless_installer = new_installer ''/r'' sample_sha256 sample_parse (\<lambda>_. Some (Redirect ''https://github.com'')) None (Some sample_validator)"

definition sample_installer :: installer where
  "sample_installer = new_installer ''/r'' sample_sha256 sample_parse
     (\<lambda>rq. if rq_url rq = ''https://center'' then Some (Redirect ''https://github.com'') else Some (Page sample_reply)) None (Some sample_validator)"

lemma sample_validator_ok: "new_artifact_url_validator sample_parse ''https://center'' = Inr sample_validator"
  unfolding sample_validator_def by (simp add: new_artifact_url_validator_def sample_parse_def)

lemma sample_url_allowed: "sample_validator (sample_parse ''https://github.com'') = Inr ()" "sample_validator (sample_parse ''https://center'') = Inr ()"
  by (simp_all add: sample_validator_def new_artifact_url_validator_def sample_parse_def validate_github_artifact_url_def insecure_url_def
      other_port_def github_hosts_def to_lower_def lower_char_def)

text \<open>C27. A download of a plugin is confined to HTTPS on the default port, without credentials, to a host of GitHub or to the host of the
  configured center. A fetch with another download URL is refused and changes nothing. Whatever the URL, what a fetch does depends on the answers to
  trusted requests only: servers that answer any other request differently lead to the same result and the same files. And the
  requests for one download end after at most ten, however the servers redirect it, all of them to trusted URLs if the first one is.\<close>

theorem plugin_download_confined:
  assumes "new_artifact_url_validator (in_parse ins) center_url = Inr (in_validate ins)"
    and "installer_fetch ins fails dfails desired rel = (r, rel')"
  shows "\<exists>center. in_parse ins center_url = Some center \<and>
    (\<not> trusted_source ins center (de_download_url desired) \<longrightarrow> (r = Inl ArtifactMissing \<or> r = Inl URLNotAllowed) \<and> rel' = rel) \<and>
    (\<forall>answer. (\<forall>rq. trusted_source ins center (rq_url rq) \<longrightarrow> answer rq = in_answer ins rq) \<longrightarrow>
       installer_fetch (ins\<lparr>in_answer := answer\<rparr>) fails dfails desired rel = (r, rel')) \<and>
    (\<forall>range. let urls = fst (follow ins \<lparr>rq_url = de_download_url desired, rq_range = range\<rparr> 0) in
       length urls \<le> 10 \<and> hd urls = de_download_url desired \<and> list_all (trusted_source ins center) (tl urls))"
proof -
  obtain center where c: "in_parse ins center_url = Some center"
    "\<And>u. in_validate ins u = Inr () \<Longrightarrow> \<exists>p. u = Some p \<and> trusted_url center p"
    using new_artifact_url_validator_Inr [OF assms(1)] by metis
  then have trusted: "trusted_source ins center url" if "in_validate ins (in_parse ins url) = Inr ()" for url
    using that by (auto simp: trusted_source_def)
  show ?thesis
  proof (intro exI [of _ center] conjI impI allI)
    assume "\<not> trusted_source ins center (de_download_url desired)"
    with trusted have "in_validate ins (in_parse ins (de_download_url desired)) \<noteq> Inr ()" by blast
    with assms(2) show "r = Inl ArtifactMissing \<or> r = Inl URLNotAllowed" "rel' = rel"
      by (auto simp: installer_fetch_def split: option.splits)
  next
    fix answer assume "\<forall>rq. trusted_source ins center (rq_url rq) \<longrightarrow> answer rq = in_answer ins rq"
    with installer_fetch_allowed_answers [of ins answer] trusted assms(2)
    show "installer_fetch (ins\<lparr>in_answer := answer\<rparr>) fails dfails desired rel = (r, rel')" by metis
  next
    fix range
    obtain urls reply where f: "follow ins \<lparr>rq_url = de_download_url desired, rq_range = range\<rparr> 0 = (urls, reply)" by force
    have "urls \<noteq> []" "hd urls = de_download_url desired" "length urls \<le> 10" "\<forall>u \<in> set (tl urls). in_validate ins (in_parse ins u) = Inr ()"
      using follow_bounded [OF f] by (auto simp: maximum_redirects_def)
    with f trusted show "let urls = fst (follow ins \<lparr>rq_url = de_download_url desired, rq_range = range\<rparr> 0) in
        length urls \<le> 10 \<and> hd urls = de_download_url desired \<and> list_all (trusted_source ins center) (tl urls)"
      by (simp add: Let_def list_all_iff)
  qed (rule c(1))
qed

definition sample_plugin :: desired_state where
  "sample_plugin = \<lparr>de_plugin_id = ''p'', de_generation = 1, de_state = ModeRunning, de_version = ''1.0'',
     de_artifact = Some \<lparr>as_size = 2, as_sha256 = replicate 64 (CHR ''a'')\<rparr>, de_download_url = ''https://center'',
     de_configuration = ''{}'', de_configuration_sha256 = ''d''\<rparr>"

definition strange_plugin :: desired_state where
  "strange_plugin = sample_plugin\<lparr>de_download_url := ''https://elsewhere''\<rparr>"

lemma strange_source: "\<not> trusted_source endless_installer \<lparr>pu_scheme = https, pu_has_user = False, pu_host = ''center'', pu_hostname = ''center'',
    pu_port = [], pu_raw_query = [], pu_fragment = []\<rparr> (de_download_url strange_plugin)"
  by (simp add: trusted_source_def trusted_url_def endless_installer_def new_installer_def sample_parse_def strange_plugin_def
      to_lower_def lower_char_def)

theorem plugin_download_confined_witness:
  "(\<exists>r rel'. installer_fetch endless_installer (\<lambda>_. False) (\<lambda>_. False) sample_plugin (\<lambda>_. None) = (r, rel') \<and>
     length (fst (follow endless_installer \<lparr>rq_url = ''https://center'', rq_range = None\<rparr> 0)) \<le> 10) \<and>
   (\<exists>e. installer_fetch endless_installer (\<lambda>_. False) (\<lambda>_. False) strange_plugin (\<lambda>_. None) = (Inl e, \<lambda>_. None))"
proof -
  have v: "new_artifact_url_validator (in_parse endless_installer) ''https://center'' = Inr (in_validate endless_installer)"
    by (simp add: endless_installer_def new_installer_def sample_validator_ok)
  have center: "in_parse endless_installer ''https://center'' = Some \<lparr>pu_scheme = https, pu_has_user = False, pu_host = ''center'',
      pu_hostname = ''center'', pu_port = [], pu_raw_query = [], pu_fragment = []\<rparr>"
    by (simp add: endless_installer_def new_installer_def sample_parse_def)
  obtain r rel' where f: "installer_fetch endless_installer (\<lambda>_. False) (\<lambda>_. False) sample_plugin (\<lambda>_. None) = (r, rel')" by force
  obtain r2 rel2 where g: "installer_fetch endless_installer (\<lambda>_. False) (\<lambda>_. False) strange_plugin (\<lambda>_. None) = (r2, rel2)" by force
  have url: "de_download_url sample_plugin = ''https://center''" by (simp add: sample_plugin_def)
  have "r2 = Inl ArtifactMissing \<or> r2 = Inl URLNotAllowed" "rel2 = (\<lambda>_. None)"
    using plugin_download_confined [OF v g] center strange_source by auto
  with g have "\<exists>e. installer_fetch endless_installer (\<lambda>_. False) (\<lambda>_. False) strange_plugin (\<lambda>_. None) = (Inl e, \<lambda>_. None)" by auto
  then show ?thesis using plugin_download_confined [OF v f, unfolded url] f by (auto simp: Let_def)
qed

definition executable_slot :: "releases \<Rightarrow> string \<Rightarrow> string \<Rightarrow> artifact_state \<Rightarrow> local_file option" where
  "executable_slot rel plugin_id version a = rf_plugin (release_files_of rel plugin_id (release_name version (as_sha256 a)))"

lemma executable_slot_other:
  "p' \<noteq> p \<or> n' \<noteq> n \<Longrightarrow> release_files_of (put_release_files p n f rel) p' n' = release_files_of rel p' n'"
  by auto

lemma installer_fetch_Inr:
  assumes "installer_fetch ins fails dfails desired rel = (Inr path, rel')"
  obtains a where "de_artifact desired = Some a" "installed (in_sha256 ins) a (executable_slot rel' (de_plugin_id desired) (de_version desired) a)"
    "path = release_path (in_releases ins) (de_plugin_id desired) (de_version desired) (as_sha256 a)"
  using assms
proof (cases rule: installer_fetch_result)
  case (handled a)
  with that show ?thesis by (auto simp: executable_slot_def Let_def)
qed simp

text \<open>C28. Only a verified artifact is ever put in the place from which a plugin is executed: whatever was there, whatever the servers send and
  whichever step the operating system refuses, a successful fetch leaves a private executable regular file of the expected size and
  SHA-256 there, and a failed one leaves such a file, the file from before, or none; no other release is touched.\<close>

theorem only_verified_artifacts_installed:
  assumes "installer_fetch ins fails dfails desired rel = (r, rel')" and "de_artifact desired = Some a"
  shows "(case r of
      Inr path \<Rightarrow> installed (in_sha256 ins) a (executable_slot rel' (de_plugin_id desired) (de_version desired) a) \<and>
        path = release_path (in_releases ins) (de_plugin_id desired) (de_version desired) (as_sha256 a)
    | Inl e \<Rightarrow> installed (in_sha256 ins) a (executable_slot rel' (de_plugin_id desired) (de_version desired) a) \<or>
        executable_slot rel' (de_plugin_id desired) (de_version desired) a \<in> {executable_slot rel (de_plugin_id desired) (de_version desired) a, None}) \<and>
    (\<forall>p n. (p, n) \<noteq> (de_plugin_id desired, release_name (de_version desired) (as_sha256 a)) \<longrightarrow>
       release_files_of rel' p n = release_files_of rel p n)"
  using assms(1)
proof (cases rule: installer_fetch_result)
  case (refused e)
  then show ?thesis by simp
next
  case (handled a')
  with assms(2) have "a' = a" by simp
  with handled show ?thesis by (cases r) (auto simp: executable_slot_def Let_def)
qed

lemma sample_fetch_succeeds: "\<not> isl (fst (installer_fetch sample_installer (\<lambda>_. False) (\<lambda>_. False) sample_plugin (\<lambda>_. None)))"
  by code_simp

theorem only_verified_artifacts_installed_witness:
  "\<exists>path rel'. installer_fetch sample_installer (\<lambda>_. False) (\<lambda>_. False) sample_plugin (\<lambda>_. None) = (Inr path, rel') \<and>
    installed sample_sha256 \<lparr>as_size = 2, as_sha256 = replicate 64 (CHR ''a'')\<rparr>
      (executable_slot rel' ''p'' ''1.0'' \<lparr>as_size = 2, as_sha256 = replicate 64 (CHR ''a'')\<rparr>)"
proof -
  obtain r rel' where f: "installer_fetch sample_installer (\<lambda>_. False) (\<lambda>_. False) sample_plugin (\<lambda>_. None) = (r, rel')" by force
  with sample_fetch_succeeds obtain path where r: "r = Inr path" by (cases r) auto
  have a: "de_artifact sample_plugin = Some \<lparr>as_size = 2, as_sha256 = replicate 64 (CHR ''a'')\<rparr>" by (simp add: sample_plugin_def)
  have s: "in_sha256 sample_installer = sample_sha256" "de_plugin_id sample_plugin = ''p''" "de_version sample_plugin = ''1.0''"
    by (simp_all add: sample_installer_def new_installer_def sample_plugin_def)
  from only_verified_artifacts_installed [OF f a, unfolded s r] f r show ?thesis by auto
qed

end
