(* ===== verification/PluginProcess.thy ===== *)
theory PluginProcess
  imports PluginInstaller
begin

section \<open>Plugin processes (internal/plugin/process.go)\<close>

text \<open>
  A plugin runs in a process of its own and answers RPCs over a Unix socket. The model keeps of the operating system the processes that run, each with
  the file it executes; a process that is not among them has exited. What the operating system and the plugin answer to one
  operation is a record \<open>..._outside\<close>: the steps that fail, what is at the path of the socket, how the process reacts to signals, and the responses
  of the RPCs. The generated RPC code and the validation functions of the SDK are the fields of \<open>node_sdk\<close>.

  A Go pointer to a \<^verbatim>\<open>managedProcess\<close> is the handle of the process; its client, which is made together with it, is part of the same record.
  The contexts with their timeouts are in the answers: a call that takes too long is an error.
\<close>

subsection \<open>Data\<close>

datatype 'a rpc = RpcOk 'a | RpcInvalidArgument | RpcError

datatype plugin_health = Healthy | Unhealthy | HealthOther

datatype listener_state = Listening | NotListening | ListenerOther

record listener_status =
  ls_service_id :: string
  ls_network :: string
  ls_address :: string
  ls_port :: u32
  ls_state :: listener_state

record plugin_status =
  st_generation :: u64
  st_configuration_sha256 :: string
  st_health :: plugin_health
  st_listeners :: "listener_status option list"

record plugin_info =
  pi_capabilities :: "string list"
  pi_telemetry_stream_id :: string

record configuration_request =
  cg_generation :: u64
  cg_sha256 :: string
  cg_json :: string

record diagnose_request =
  dq_name :: string
  dq_json :: string

record collect_request =
  cq_after_sequence :: u64
  cq_maximum_events :: u32

record node_sdk =
  nk_valid_info :: "plugin_info \<Rightarrow> string \<Rightarrow> string \<Rightarrow> bool"
  nk_valid_validated :: "configuration_request \<Rightarrow> string \<Rightarrow> bool"
  nk_valid_applied :: "configuration_request \<Rightarrow> string \<Rightarrow> bool"
  nk_valid_status :: "plugin_status \<Rightarrow> bool"
  nk_valid_diagnose :: "diagnose_request \<Rightarrow> bool"
  nk_valid_diagnosis :: "diagnose_request \<Rightarrow> string \<Rightarrow> bool"
  nk_valid_telemetry :: "collect_request \<Rightarrow> string \<Rightarrow> bool"
  nk_valid_service_request :: "string \<Rightarrow> bool"
  nk_valid_service_response :: "string \<Rightarrow> string \<Rightarrow> bool"
  nk_valid_blocks_request :: "string \<Rightarrow> bool"
  nk_valid_blocks_response :: "string \<Rightarrow> string \<Rightarrow> bool"
  nk_has_capability :: "string list \<Rightarrow> string \<Rightarrow> bool"
  nk_listener_capability :: string
  nk_diagnostics_capability :: string
  nk_maximum_telemetry_events :: u32

record managed_process =
  mp_plugin_id :: string
  mp_handle :: nat
  mp_pid :: nat
  mp_socket_path :: string
  mp_started_at :: time
  mp_ready :: bool
  mp_capabilities :: "string list"
  mp_telemetry_stream_id :: string
  mp_listeners :: "listener_status option list"
  mp_listeners_observed :: time

record running_process =
  rn_handle :: nat
  rn_plugin_id :: string
  rn_image :: "local_file option"

record os_state =
  os_running :: "running_process list"
  os_next_handle :: nat

datatype start_step =
    MakeDataDirectory | ProtectDataDirectory | SyncDataParent | MakeRuntimeDirectory | ProtectRuntimeDirectory | SyncRuntimeParent
  | ResolveLauncher | ExecProcess

datatype process_error =
    StartFailed start_step | SocketPathTooLong | InspectSocketFailed | SocketPathOccupied | RemoveSocketFailed | SyncSocketFailed
  | ExitedBeforeConnecting | SocketNotReady | SocketMissing | SocketNotPrivate | SocketNotOwned | IdentityRPCFailed | IdentityMismatch
  | ConfigurationRejected | ValidateRPCFailed | ValidateResponseInvalid | ApplyFailed | ApplyResponseInvalid | HealthRPCFailed
  | HealthResponseInvalid | ListenersUnexpected | OtherConfigurationReported | PluginUnhealthy | HealthDeadlinePassed | NotHealthy
  | DiagnoseRequestInvalid | DiagnosticRejected | DiagnoseRPCFailed | DiagnoseResponseInvalid | TelemetryRPCFailed | TelemetryResponseInvalid
  | RequestInvalid | ServiceRPCFailed | ServiceResponseInvalid | BlocksRPCFailed | BlocksResponseInvalid | NotStopped

subsection \<open>The control socket\<close>

datatype socket_found = SocketAbsent | SocketUnknown | SocketFound bool

record socket_outside =
  sx_found :: socket_found
  sx_remove_fails :: bool
  sx_sync_fails :: bool

definition remove_stale_socket :: "socket_outside \<Rightarrow> process_error + unit" where
  "remove_stale_socket sx =
     (case sx_found sx of
        SocketAbsent \<Rightarrow> Inr ()
      | SocketUnknown \<Rightarrow> Inl InspectSocketFailed
      | SocketFound is_socket \<Rightarrow>
          if \<not> is_socket then Inl SocketPathOccupied
          else if sx_remove_fails sx then Inl RemoveSocketFailed
          else if sx_sync_fails sx then Inl SyncSocketFailed
          else Inr ())"

record control_socket =
  ct_socket :: bool
  ct_mode :: nat
  ct_owned :: bool

definition validate_socket :: "control_socket option \<Rightarrow> process_error + unit" where
  "validate_socket found =
     (case found of
        None \<Rightarrow> Inl SocketMissing
      | Some s \<Rightarrow>
          if \<not> ct_socket s \<or> and (ct_mode s) group_and_others \<noteq> 0 then Inl SocketNotPrivate
          else if \<not> ct_owned s then Inl SocketNotOwned
          else Inr ())"

text \<open>The hex digest of the plugin id, cut to 16 bytes, names the socket.\<close>

definition socket_path :: "(string \<Rightarrow> string) \<Rightarrow> string \<Rightarrow> string \<Rightarrow> string" where
  "socket_path sha256 runtime_dir plugin_id = path_join runtime_dir (take 32 (sha256 plugin_id) @ ''.sock'')"

definition socket_path_limit :: nat where
  "socket_path_limit = 108"

subsection \<open>Stopping\<close>

text \<open>Whether the process exits after \<^verbatim>\<open>SIGTERM\<close> before the context or the timer ends, and after \<^verbatim>\<open>SIGKILL\<close> within a second.\<close>

record stop_outside =
  so_exits_on_term :: bool
  so_exits_on_kill :: bool
  so_socket :: socket_outside

definition exited :: "os_state \<Rightarrow> managed_process \<Rightarrow> bool" where
  "exited os p \<longleftrightarrow> mp_handle p \<notin> rn_handle ` set (os_running os)"

definition process_gone :: "nat \<Rightarrow> os_state \<Rightarrow> os_state" where
  "process_gone h os = os\<lparr>os_running := filter (\<lambda>r. rn_handle r \<noteq> h) (os_running os)\<rparr>"

definition stop_process :: "stop_outside \<Rightarrow> managed_process \<Rightarrow> os_state \<Rightarrow> (process_error + unit) \<times> os_state" where
  "stop_process so p os =
     (if exited os p then (remove_stale_socket (so_socket so), os)
      else if so_exits_on_term so \<or> so_exits_on_kill so then (remove_stale_socket (so_socket so), process_gone (mp_handle p) os)
      else (Inl NotStopped, os))"

subsection \<open>Starting\<close>

datatype connection = Connected | ExitedEarly | NotConnected

record start_outside =
  sb_fails :: "start_step \<Rightarrow> bool"
  sb_stale_socket :: socket_outside
  sb_pid :: nat
  sb_started_at :: time
  sb_connection :: connection
  sb_control_socket :: "control_socket option"
  sb_info :: "plugin_info rpc"
  sb_stop :: stop_outside

definition connect_plugin :: "node_sdk \<Rightarrow> start_outside \<Rightarrow> string \<Rightarrow> string \<Rightarrow> process_error + plugin_info" where
  "connect_plugin nk sb plugin_id version =
     (case sb_connection sb of
        ExitedEarly \<Rightarrow> Inl ExitedBeforeConnecting
      | NotConnected \<Rightarrow> Inl SocketNotReady
      | Connected \<Rightarrow>
          and_then (validate_socket (sb_control_socket sb)) (\<lambda>_.
            case sb_info sb of
              RpcOk info \<Rightarrow> if nk_valid_info nk info plugin_id version then Inr info else Inl IdentityMismatch
            | _ \<Rightarrow> Inl IdentityRPCFailed))"

definition private_directory_steps :: "start_step list" where
  "private_directory_steps =
     [MakeDataDirectory, ProtectDataDirectory, SyncDataParent, MakeRuntimeDirectory, ProtectRuntimeDirectory, SyncRuntimeParent]"

definition spawn :: "string \<Rightarrow> local_file option \<Rightarrow> string \<Rightarrow> start_outside \<Rightarrow> os_state \<Rightarrow> managed_process \<times> os_state" where
  "spawn plugin_id program socket sb os =
     (\<lparr>mp_plugin_id = plugin_id, mp_handle = os_next_handle os, mp_pid = sb_pid sb, mp_socket_path = socket, mp_started_at = sb_started_at sb,
       mp_ready = False, mp_capabilities = [], mp_telemetry_stream_id = [], mp_listeners = [], mp_listeners_observed = 0\<rparr>,
      os\<lparr>os_running := \<lparr>rn_handle = os_next_handle os, rn_plugin_id = plugin_id, rn_image = program\<rparr> # os_running os,
         os_next_handle := Suc (os_next_handle os)\<rparr>)"

text \<open>\<open>program\<close> is the file at the path of the executable. The error of the stop after a failed connection is dropped.\<close>

definition start_process ::
    "node_sdk \<Rightarrow> start_outside \<Rightarrow> string \<Rightarrow> string \<Rightarrow> string \<Rightarrow> local_file option \<Rightarrow> os_state \<Rightarrow> (process_error + managed_process) \<times> os_state" where
  "start_process nk sb plugin_id version socket program os =
     (case first_failure (sb_fails sb) private_directory_steps of
        Some s \<Rightarrow> (Inl (StartFailed s), os)
      | None \<Rightarrow>
        if socket_path_limit \<le> length socket then (Inl SocketPathTooLong, os)
        else case remove_stale_socket (sb_stale_socket sb) of
          Inl e \<Rightarrow> (Inl e, os)
        | Inr _ \<Rightarrow>
          if sb_fails sb ResolveLauncher then (Inl (StartFailed ResolveLauncher), os)
          else if sb_fails sb ExecProcess then (Inl (StartFailed ExecProcess), os)
          else case spawn plugin_id program socket sb os of (p, os) \<Rightarrow>
            (case connect_plugin nk sb plugin_id version of
               Inl e \<Rightarrow>
                 (let os = (if sb_connection sb = ExitedEarly then process_gone (mp_handle p) os else os)
                  in case stop_process (sb_stop sb) p os of (_, os) \<Rightarrow> (Inl e, os))
             | Inr info \<Rightarrow>
                 (Inr (p\<lparr>mp_capabilities := pi_capabilities info, mp_telemetry_stream_id := pi_telemetry_stream_id info\<rparr>), os)))"

subsection \<open>Configuration and health\<close>

definition configuration_request_of :: "desired_state \<Rightarrow> configuration_request" where
  "configuration_request_of d =
     \<lparr>cg_generation = de_generation d, cg_sha256 = de_configuration_sha256 d, cg_json = de_configuration d\<rparr>"

definition client_validate :: "node_sdk \<Rightarrow> string rpc \<Rightarrow> desired_state \<Rightarrow> process_error + unit" where
  "client_validate nk response d =
     (case response of
        RpcInvalidArgument \<Rightarrow> Inl ConfigurationRejected
      | RpcError \<Rightarrow> Inl ValidateRPCFailed
      | RpcOk v \<Rightarrow> if nk_valid_validated nk (configuration_request_of d) v then Inr () else Inl ValidateResponseInvalid)"

text \<open>A status, and the time at which its listeners are seen.\<close>

type_synonym observed_status = "time \<times> plugin_status rpc"

definition get_status :: "node_sdk \<Rightarrow> observed_status \<Rightarrow> managed_process \<Rightarrow> (process_error + plugin_status) \<times> managed_process" where
  "get_status nk answer p =
     (case snd answer of
        RpcOk status \<Rightarrow>
          if \<not> nk_valid_status nk status then (Inl HealthResponseInvalid, p)
          else
            let has_listeners = nk_has_capability nk (mp_capabilities p) (nk_listener_capability nk) in
            if \<not> has_listeners \<and> st_listeners status \<noteq> [] then (Inl ListenersUnexpected, p)
            else if has_listeners
              then (Inr status, p\<lparr>mp_listeners := st_listeners status, mp_listeners_observed := fst answer\<rparr>)
              else (Inr status, p\<lparr>mp_listeners := [], mp_listeners_observed := 0\<rparr>)
      | _ \<Rightarrow> (Inl HealthRPCFailed, p))"

definition reports :: "u64 \<Rightarrow> string \<Rightarrow> plugin_status \<Rightarrow> bool" where
  "reports generation digest status \<longleftrightarrow> st_generation status = generation \<and> st_configuration_sha256 status = digest"

text \<open>The answers to the polls until the deadline, after which the list ends.\<close>

fun await_healthy ::
    "node_sdk \<Rightarrow> desired_state \<Rightarrow> observed_status list \<Rightarrow> managed_process \<Rightarrow> (process_error + unit) \<times> managed_process" where
  "await_healthy nk d [] p = (Inl HealthDeadlinePassed, p)"
| "await_healthy nk d (answer # answers) p =
     (case get_status nk answer p of
        (Inl e, p) \<Rightarrow> (Inl e, p)
      | (Inr status, p) \<Rightarrow>
          if \<not> reports (de_generation d) (de_configuration_sha256 d) status then (Inl OtherConfigurationReported, p)
          else (case st_health status of
                  Healthy \<Rightarrow> (Inr (), p)
                | Unhealthy \<Rightarrow> (Inl PluginUnhealthy, p)
                | HealthOther \<Rightarrow> await_healthy nk d answers p))"

definition client_apply ::
    "node_sdk \<Rightarrow> string rpc \<Rightarrow> observed_status list \<Rightarrow> desired_state \<Rightarrow> managed_process \<Rightarrow> (process_error + unit) \<times> managed_process" where
  "client_apply nk response statuses d p =
     (case response of
        RpcOk v \<Rightarrow>
          if \<not> nk_valid_applied nk (configuration_request_of d) v then (Inl ApplyResponseInvalid, p)
          else await_healthy nk d statuses p
      | _ \<Rightarrow> (Inl ApplyFailed, p))"

definition check_healthy ::
    "node_sdk \<Rightarrow> observed_status \<Rightarrow> u64 \<Rightarrow> string \<Rightarrow> managed_process \<Rightarrow> (process_error + unit) \<times> managed_process" where
  "check_healthy nk answer generation digest p =
     (case get_status nk answer p of
        (Inl e, p) \<Rightarrow> (Inl e, p)
      | (Inr status, p) \<Rightarrow>
          if \<not> reports generation digest status then (Inl OtherConfigurationReported, p)
          else if st_health status \<noteq> Healthy then (Inl NotHealthy, p)
          else (Inr (), p))"

subsection \<open>The other calls\<close>

definition client_diagnose :: "node_sdk \<Rightarrow> (diagnose_request \<Rightarrow> string rpc) \<Rightarrow> diagnose_request \<Rightarrow> process_error + string" where
  "client_diagnose nk call rq =
     (if \<not> nk_valid_diagnose nk rq then Inl DiagnoseRequestInvalid
      else case call rq of
        RpcInvalidArgument \<Rightarrow> Inl DiagnosticRejected
      | RpcError \<Rightarrow> Inl DiagnoseRPCFailed
      | RpcOk v \<Rightarrow> if nk_valid_diagnosis nk rq v then Inr v else Inl DiagnoseResponseInvalid)"

definition client_collect_telemetry :: "node_sdk \<Rightarrow> (collect_request \<Rightarrow> string rpc) \<Rightarrow> u64 \<Rightarrow> process_error + string" where
  "client_collect_telemetry nk call after_sequence =
     (let rq = \<lparr>cq_after_sequence = after_sequence, cq_maximum_events = nk_maximum_telemetry_events nk\<rparr>
      in case call rq of
           RpcOk v \<Rightarrow> if nk_valid_telemetry nk rq v then Inr v else Inl TelemetryResponseInvalid
         | _ \<Rightarrow> Inl TelemetryRPCFailed)"

definition client_set_service_state :: "node_sdk \<Rightarrow> (string \<Rightarrow> string rpc) \<Rightarrow> string \<Rightarrow> process_error + unit" where
  "client_set_service_state nk call rq =
     (if \<not> nk_valid_service_request nk rq then Inl RequestInvalid
      else case call rq of
        RpcOk v \<Rightarrow> if nk_valid_service_response nk rq v then Inr () else Inl ServiceResponseInvalid
      | _ \<Rightarrow> Inl ServiceRPCFailed)"

definition client_replace_dynamic_blocks :: "node_sdk \<Rightarrow> (string \<Rightarrow> string rpc) \<Rightarrow> string \<Rightarrow> process_error + unit" where
  "client_replace_dynamic_blocks nk call rq =
     (if \<not> nk_valid_blocks_request nk rq then Inl RequestInvalid
      else case call rq of
        RpcOk v \<Rightarrow> if nk_valid_blocks_response nk rq v then Inr () else Inl BlocksResponseInvalid
      | _ \<Rightarrow> Inl BlocksRPCFailed)"

end
