(* ===== verification/PluginSupervisor.thy ===== *)
theory PluginSupervisor
  imports PluginProcess EventQueue CommandProcessor Actions
begin

section \<open>The plugin supervisor (internal/plugin/supervisor.go)\<close>

text \<open>
  The supervisor carries out the commands for plugins and keeps the ones that shall run running. For every plugin there is an actor with the process, if
  there is one, and the number of crashes in a row. A goroutine watches every process, and one tries to restart a plugin that has none.

  Every handler holds the lock of its actor from its first access to the actor to its last, so handlers of one plugin do not overlap, and each is one
  function of the world. The goroutines that run are tasks in the world: a watch with its count of failed health checks, a
  watch that has decided to give its process up but does not have the lock yet, and a retry. The answers of the operating system, the clock, the plugins
  and the servers are drawn from a schedule, one record \<open>outside\<close> per call. Storage faults, failing steps and broken RPCs are all in it.

  The client and the flags of a \<^verbatim>\<open>managedProcess\<close> change only until its watch starts, its listeners only by the watch itself. So the copy
  of the process in the actor and the one in the task agree, and its handle stands for the pointer.
\<close>

subsection \<open>Data\<close>

record diagnose_command =
  dc_plugin_id :: string
  dc_name :: string
  dc_json :: string

datatype reported_state = ReportedMode plugin_mode | ReportedFailed

datatype reported_health = HealthUnknown | HealthHealthy | HealthUnhealthy

record plugin_status_event =
  pe_plugin_id :: string
  pe_generation :: u64
  pe_state :: reported_state
  pe_version :: string
  pe_configuration_sha256 :: string
  pe_health :: reported_health
  pe_reason :: string
  pe_restart_count :: u64
  pe_capabilities :: "string list"

record reconcile_output =
  ro_plugin_id :: string
  ro_generation :: u64
  ro_state :: plugin_mode
  ro_version :: string
  ro_configuration_sha256 :: string

record supervisor_sdk =
  sk_plugin :: plugin_sdk
  sk_node :: node_sdk
  sk_processor :: processor_sdk
  sk_installer :: installer
  sk_runtime_dir :: string
  sk_reconcile_kind :: string
  sk_diagnose_kind :: string
  sk_decode_reconcile :: "agent_command \<Rightarrow> reconcile_command option"
  sk_decode_diagnose :: "agent_command \<Rightarrow> diagnose_command option"
  sk_encode_reconcile :: "reconcile_output \<Rightarrow> string option"
  sk_encode_diagnose :: "string \<Rightarrow> string option"
  sk_valid_status_event :: "plugin_status_event \<Rightarrow> bool"
  sk_event_plugin_status :: string

datatype removal_step = RemoveData | SyncData | RemoveRuntime | SyncRuntime | RemoveReleases | SyncRemovedReleases | RemoveSocket | SyncSocket

text \<open>What the outside answers to one call.\<close>

record outside =
  od_now :: time
  od_write_fault :: "plugin_error write_fault option"
  od_install_fails :: "install_step \<Rightarrow> bool"
  od_download_fails :: "fetch_step \<Rightarrow> bool"
  od_web :: "http_request \<Rightarrow> web_answer option"
  od_prune_fails :: "string \<Rightarrow> bool"
  od_prune_sync_fails :: bool
  od_start :: start_outside
  od_stop :: stop_outside
  od_validated :: "string rpc"
  od_applied :: "string rpc"
  od_statuses :: "observed_status list"
  od_health :: observed_status
  od_diagnose :: "diagnose_request \<Rightarrow> string rpc"
  od_removal_fails :: "removal_step \<Rightarrow> bool"

record plugin_actor =
  pl_process :: "managed_process option"
  pl_crash_streak :: u64

datatype watch_reason = ExitedUnexpectedly | HealthChecksFailed

datatype task = Watch string managed_process nat | GiveUp string managed_process watch_reason | Retry string

record 's supervisor =
  sv_states :: plugin_states
  sv_releases :: releases
  sv_data :: "string list"
  sv_actors :: "plugin_actor bucket"
  sv_capabilities :: "string list bucket"
  sv_sink :: 's
  sv_started :: bool
  sv_stopping :: bool
  sv_os :: os_state
  sv_tasks :: "task list"
  sv_outside :: "nat \<Rightarrow> outside"
  sv_ticks :: nat

type_synonym 's status_sink = "('s \<Rightarrow> string \<Rightarrow> time \<Rightarrow> plugin_status_event \<Rightarrow> (queue_error + event) \<times> 's) option"

datatype supervisor_error =
    StateError plugin_error | InstallError install_error | ProcessError process_error | CurrentStateMissing | CurrentStateInvalid
  | ArtifactStateMissing | InstalledArtifactInvalid | StatusEventInvalid | NoStatusSink | StatusSinkError queue_error | RemovalFailed removal_step
  | AlreadyStarted

type_synonym ('a, 's) supervisor_act = "'s supervisor \<Rightarrow> (supervisor_error + 'a) \<times> 's supervisor"

definition stable_process_duration :: int where "stable_process_duration = 5 * 60 * second"
definition health_failures_before_restart :: nat where "health_failures_before_restart = 3"

subsection \<open>Access to the world\<close>

definition next_outside :: "'s supervisor \<Rightarrow> outside \<times> 's supervisor" where
  "next_outside w = (sv_outside w (sv_ticks w), w\<lparr>sv_ticks := Suc (sv_ticks w)\<rparr>)"

definition on_states ::
    "(plugin_error write_fault option \<Rightarrow> plugin_states \<Rightarrow> (plugin_error + 'a) \<times> plugin_states) \<Rightarrow> ('a, 's) supervisor_act" where
  "on_states f w =
     (case next_outside w of (od, w) \<Rightarrow>
        case f (od_write_fault od) (sv_states w) of (r, states) \<Rightarrow> (map_sum StateError (\<lambda>x. x) r, w\<lparr>sv_states := states\<rparr>))"

text \<open>\<^verbatim>\<open>current, restartCount, _ := store.current(plugin)\<close>\<close>

definition current_or_none :: "supervisor_sdk \<Rightarrow> string \<Rightarrow> 's supervisor \<Rightarrow> revision option \<times> u64" where
  "current_or_none sk plugin w = (case current_revision (sk_plugin sk) plugin (sv_states w) of Inl _ \<Rightarrow> (None, 0) | Inr r \<Rightarrow> r)"

definition new_actor :: plugin_actor where
  "new_actor = \<lparr>pl_process = None, pl_crash_streak = 0\<rparr>"

definition actor_of :: "'s supervisor \<Rightarrow> string \<Rightarrow> plugin_actor" where
  "actor_of w plugin = (case bucket_get (sv_actors w) plugin of None \<Rightarrow> new_actor | Some a \<Rightarrow> a)"

definition put_actor :: "string \<Rightarrow> plugin_actor \<Rightarrow> 's supervisor \<Rightarrow> 's supervisor" where
  "put_actor plugin a w = w\<lparr>sv_actors := bucket_put plugin a (sv_actors w)\<rparr>"

text \<open>\<^verbatim>\<open>supervisor.actor(plugin)\<close>: an actor is made when it is first asked for.\<close>

definition ensure_actor :: "string \<Rightarrow> 's supervisor \<Rightarrow> 's supervisor" where
  "ensure_actor plugin w = put_actor plugin (actor_of w plugin) w"

definition process_of :: "'s supervisor \<Rightarrow> string \<Rightarrow> managed_process option" where
  "process_of w plugin = pl_process (actor_of w plugin)"

definition set_process :: "string \<Rightarrow> managed_process option \<Rightarrow> 's supervisor \<Rightarrow> 's supervisor" where
  "set_process plugin p w = put_actor plugin ((actor_of w plugin)\<lparr>pl_process := p\<rparr>) w"

definition set_streak :: "string \<Rightarrow> u64 \<Rightarrow> 's supervisor \<Rightarrow> 's supervisor" where
  "set_streak plugin n w = put_actor plugin ((actor_of w plugin)\<lparr>pl_crash_streak := n\<rparr>) w"

definition set_capabilities :: "string \<Rightarrow> string list \<Rightarrow> 's supervisor \<Rightarrow> 's supervisor" where
  "set_capabilities plugin values w =
     w\<lparr>sv_capabilities := (if values = [] then bucket_delete plugin (sv_capabilities w) else bucket_put plugin values (sv_capabilities w))\<rparr>"

definition plugin_capabilities :: "string \<Rightarrow> 's supervisor \<Rightarrow> string list" where
  "plugin_capabilities plugin w = (case bucket_get (sv_capabilities w) plugin of None \<Rightarrow> [] | Some cs \<Rightarrow> cs)"

definition clear_capabilities :: "managed_process \<Rightarrow> 's supervisor \<Rightarrow> 's supervisor" where
  "clear_capabilities p w = set_capabilities (mp_plugin_id p) [] w"

definition add_task :: "task \<Rightarrow> 's supervisor \<Rightarrow> 's supervisor" where
  "add_task t w = w\<lparr>sv_tasks := sv_tasks w @ [t]\<rparr>"

definition watch :: "string \<Rightarrow> managed_process \<Rightarrow> 's supervisor \<Rightarrow> 's supervisor" where
  "watch plugin p w = add_task (Watch plugin p 0) w"

definition is_running :: "'s supervisor \<Rightarrow> bool" where
  "is_running w \<longleftrightarrow> sv_started w \<and> \<not> sv_stopping w"

subsection \<open>Status events\<close>

definition emit :: "supervisor_sdk \<Rightarrow> 's status_sink \<Rightarrow> plugin_status_event \<Rightarrow> (unit, 's) supervisor_act" where
  "emit sk put value' w =
     (if \<not> sk_valid_status_event sk value' then (Inl StatusEventInvalid, w)
      else case put of
        None \<Rightarrow> (Inl NoStatusSink, w)
      | Some p \<Rightarrow>
          (case next_outside w of (od, w) \<Rightarrow>
             case p (sv_sink w) (sk_event_plugin_status sk) (od_now od) value' of (r, s) \<Rightarrow>
               (map_sum StatusSinkError (\<lambda>_. ()) r, w\<lparr>sv_sink := s\<rparr>)))"

definition revision_event :: "string \<Rightarrow> revision \<Rightarrow> u64 \<Rightarrow> string list \<Rightarrow> plugin_status_event" where
  "revision_event plugin v restart_count capabilities =
     \<lparr>pe_plugin_id = plugin, pe_generation = vn_generation v, pe_state = ReportedMode (vn_state v), pe_version = vn_version v,
      pe_configuration_sha256 = vn_configuration_sha256 v,
      pe_health = (if vn_state v = ModeRunning then HealthHealthy else HealthUnknown), pe_reason = [], pe_restart_count = restart_count,
      pe_capabilities = (if vn_state v \<noteq> ModeRunning then [] else capabilities)\<rparr>"

definition emit_revision :: "supervisor_sdk \<Rightarrow> 's status_sink \<Rightarrow> string \<Rightarrow> revision \<Rightarrow> u64 \<Rightarrow> (unit, 's) supervisor_act" where
  "emit_revision sk put plugin v restart_count w = emit sk put (revision_event plugin v restart_count (plugin_capabilities plugin w)) w"

definition failed_event :: "string \<Rightarrow> u64 \<Rightarrow> string \<Rightarrow> string \<Rightarrow> u64 \<Rightarrow> string \<Rightarrow> plugin_status_event" where
  "failed_event plugin generation version digest restart_count reason =
     \<lparr>pe_plugin_id = plugin, pe_generation = generation, pe_state = ReportedFailed, pe_version = version, pe_configuration_sha256 = digest,
      pe_health = HealthUnhealthy, pe_reason = reason, pe_restart_count = restart_count, pe_capabilities = []\<rparr>"

text \<open>Its error is only logged.\<close>

definition emit_failed :: "supervisor_sdk \<Rightarrow> 's status_sink \<Rightarrow> string \<Rightarrow> u64 \<Rightarrow> string \<Rightarrow> string \<Rightarrow> u64 \<Rightarrow> string \<Rightarrow> 's supervisor \<Rightarrow> 's supervisor" where
  "emit_failed sk put plugin generation version digest restart_count reason =
     logged (emit sk put (failed_event plugin generation version digest restart_count reason))"

abbreviation emit_failed_revision ::
    "supervisor_sdk \<Rightarrow> 's status_sink \<Rightarrow> string \<Rightarrow> revision \<Rightarrow> u64 \<Rightarrow> string \<Rightarrow> 's supervisor \<Rightarrow> 's supervisor" where
  "emit_failed_revision sk put plugin v restart_count reason \<equiv>
     emit_failed sk put plugin (vn_generation v) (vn_version v) (vn_configuration_sha256 v) restart_count reason"

subsection \<open>Processes\<close>

definition stop_act :: "managed_process \<Rightarrow> (unit, 's) supervisor_act" where
  "stop_act p w =
     (case next_outside w of (od, w) \<Rightarrow>
        case stop_process (od_stop od) p (sv_os w) of (r, os) \<Rightarrow> (map_sum ProcessError (\<lambda>x. x) r, w\<lparr>sv_os := os\<rparr>))"

definition detach_and_stop :: "string \<Rightarrow> (unit, 's) supervisor_act" where
  "detach_and_stop plugin w =
     (case process_of w plugin of
        None \<Rightarrow> (Inr (), set_process plugin None w)
      | Some p \<Rightarrow>
          (case stop_act p (set_process plugin None w) of
             (Inl e, w) \<Rightarrow> (Inl e, if \<not> exited (sv_os w) p then set_process plugin (Some p) w else w)
           | (Inr _, w) \<Rightarrow> (Inr (), clear_capabilities p w)))"

text \<open>The executable that runs is what the release directory holds at the path.\<close>

definition start_act :: "supervisor_sdk \<Rightarrow> string \<Rightarrow> string \<Rightarrow> artifact_state \<Rightarrow> (managed_process, 's) supervisor_act" where
  "start_act sk plugin version a w =
     (case next_outside w of (od, w) \<Rightarrow>
        case start_process (sk_node sk) (od_start od) plugin version (socket_path (in_sha256 (sk_installer sk)) (sk_runtime_dir sk) plugin)
               (executable_slot (sv_releases w) plugin version a) (sv_os w) of
          (r, os) \<Rightarrow>
            (map_sum ProcessError (\<lambda>x. x) r,
             w\<lparr>sv_os := os, sv_data := (if sb_fails (od_start od) MakeDataDirectory then sv_data w else List.insert plugin (sv_data w))\<rparr>))"

definition verify_revision_artifact :: "supervisor_sdk \<Rightarrow> string \<Rightarrow> revision \<Rightarrow> (artifact_state, 's) supervisor_act" where
  "verify_revision_artifact sk plugin v w =
     (case vn_artifact v of
        None \<Rightarrow> (Inl ArtifactStateMissing, w)
      | Some a \<Rightarrow>
          (case next_outside w of (od, w) \<Rightarrow>
             (if (case (if od_install_fails od InspectDestination then None else executable_slot (sv_releases w) plugin (vn_version v) a) of
                    None \<Rightarrow> True
                  | Some f \<Rightarrow> verify_artifact (in_sha256 (sk_installer sk)) (od_install_fails od) a f \<noteq> Inr ())
              then Inl InstalledArtifactInvalid else Inr a, w)))"

definition desired_of_revision :: "string \<Rightarrow> revision \<Rightarrow> desired_state" where
  "desired_of_revision plugin v =
     \<lparr>de_plugin_id = plugin, de_generation = vn_generation v, de_state = vn_state v, de_version = vn_version v, de_artifact = vn_artifact v,
      de_download_url = [], de_configuration = vn_configuration v, de_configuration_sha256 = vn_configuration_sha256 v\<rparr>"

definition validate_act :: "supervisor_sdk \<Rightarrow> desired_state \<Rightarrow> (unit, 's) supervisor_act" where
  "validate_act sk d w =
     (case next_outside w of (od, w) \<Rightarrow> (map_sum ProcessError (\<lambda>x. x) (client_validate (sk_node sk) (od_validated od) d), w))"

text \<open>The process is returned beside the result: its listeners are seen while its health is polled.\<close>

definition apply_act :: "supervisor_sdk \<Rightarrow> desired_state \<Rightarrow> managed_process \<Rightarrow> 's supervisor \<Rightarrow> (supervisor_error + unit) \<times> managed_process \<times> 's supervisor" where
  "apply_act sk d p w =
     (case next_outside w of (od, w) \<Rightarrow>
        case client_apply (sk_node sk) (od_applied od) (od_statuses od) d p of (r, p) \<Rightarrow> (map_sum ProcessError (\<lambda>x. x) r, p, w))"

text \<open>
  \<^verbatim>\<open>if err := client.validate(ctx, desired); err == nil { err = client.apply(ctx, desired) }\<close> declares a new \<^verbatim>\<open>err\<close> for that
  statement. The \<^verbatim>\<open>err\<close> tested after it is the one of \<^verbatim>\<open>runtime.start\<close>, which is nil there, so that the branch that stops the process is
  never taken and the result of the validation and the application is dropped.
\<close>

definition configure_revision :: "supervisor_sdk \<Rightarrow> desired_state \<Rightarrow> managed_process \<Rightarrow> 's supervisor \<Rightarrow> managed_process \<times> 's supervisor" where
  "configure_revision sk d p w =
     (case validate_act sk d w of
        (Inl _, w) \<Rightarrow> (p, w)
      | (Inr _, w) \<Rightarrow> (case apply_act sk d p w of (_, p, w) \<Rightarrow> (p, w)))"

definition start_revision :: "supervisor_sdk \<Rightarrow> string \<Rightarrow> revision \<Rightarrow> (managed_process, 's) supervisor_act" where
  "start_revision sk plugin v =
     bind_act (verify_revision_artifact sk plugin v) (\<lambda>a.
     bind_act (start_act sk plugin (vn_version v) a) (\<lambda>p w.
       case configure_revision sk (desired_of_revision plugin v) p w of (p, w) \<Rightarrow>
         (Inr (p\<lparr>mp_ready := True\<rparr>), set_capabilities plugin (mp_capabilities p) w)))"

definition rollback :: "supervisor_sdk \<Rightarrow> 's status_sink \<Rightarrow> string \<Rightarrow> revision option \<Rightarrow> 's supervisor \<Rightarrow> 's supervisor" where
  "rollback sk put plugin previous w =
     (case previous of
        None \<Rightarrow> w
      | Some v \<Rightarrow>
          if vn_state v \<noteq> ModeRunning then logged (emit_revision sk put plugin v (snd (current_or_none sk plugin w))) w
          else (case start_revision sk plugin v w of
             (Inl _, w) \<Rightarrow>
               add_task (Retry plugin)
                 (emit_failed_revision sk put plugin v (snd (current_or_none sk plugin w)) ''previous plugin state restoration failed'' w)
           | (Inr p, w) \<Rightarrow>
               (let w = watch plugin p (set_process plugin (Some p) w)
                in logged (emit_revision sk put plugin v (snd (current_or_none sk plugin w))) w)))"

text \<open>\<^verbatim>\<open>removePluginData\<close>: the data, the runtime directory, the releases and the socket, each removed and its directory synced.\<close>

definition remove_plugin_data :: "string \<Rightarrow> (unit, 's) supervisor_act" where
  "remove_plugin_data plugin w =
     (case next_outside w of (od, w) \<Rightarrow>
        let fails = od_removal_fails od in
        if fails RemoveData then (Inl (RemovalFailed RemoveData), w)
        else let w = w\<lparr>sv_data := removeAll plugin (sv_data w)\<rparr> in
        case first_failure fails [SyncData, RemoveRuntime, SyncRuntime, RemoveReleases] of
          Some s \<Rightarrow> (Inl (RemovalFailed s), w)
        | None \<Rightarrow>
          let w = w\<lparr>sv_releases := (sv_releases w)(plugin := None)\<rparr> in
          case first_failure fails [SyncRemovedReleases, RemoveSocket, SyncSocket] of
            Some s \<Rightarrow> (Inl (RemovalFailed s), w)
          | None \<Rightarrow> (Inr (), w))"

definition fetch_act :: "supervisor_sdk \<Rightarrow> desired_state \<Rightarrow> (string, 's) supervisor_act" where
  "fetch_act sk d w =
     (case next_outside w of (od, w) \<Rightarrow>
        case installer_fetch ((sk_installer sk)\<lparr>in_answer := od_web od\<rparr>) (od_install_fails od) (od_download_fails od) d (sv_releases w) of
          (r, rel) \<Rightarrow> (map_sum InstallError (\<lambda>x. x) r, w\<lparr>sv_releases := rel\<rparr>))"

text \<open>Its error is only logged, too.\<close>

definition prune_act :: "string \<Rightarrow> 's supervisor \<Rightarrow> 's supervisor" where
  "prune_act plugin w =
     (case next_outside w of (od, w) \<Rightarrow>
        case prune_releases (od_prune_fails od) (od_prune_sync_fails od) plugin (sv_states w) (sv_releases w) of (_, rel) \<Rightarrow> w\<lparr>sv_releases := rel\<rparr>)"

end
