(* ===== verification/PluginHandlers.thy ===== *)
theory PluginHandlers
  imports PluginSupervisor
begin

section \<open>The handlers of the plugin supervisor (internal/plugin/supervisor.go)\<close>

text \<open>
  The commands, the start and the end of the supervisor, the goroutines that watch and restart processes, and what the agent asks about the plugins that
  run. All of them together are the steps \<open>supervisor_step\<close> of the world, with the exits of processes among them.
\<close>

subsection \<open>Reconciling\<close>

definition plugin_success :: "supervisor_sdk \<Rightarrow> desired_state \<Rightarrow> execution" where
  "plugin_success sk d =
     (case sk_encode_reconcile sk \<lparr>ro_plugin_id = de_plugin_id d, ro_generation = de_generation d, ro_state = de_state d,
             ro_version = de_version d, ro_configuration_sha256 = de_configuration_sha256 d\<rparr> of
        None \<Rightarrow> failure (px_error_internal (sk_processor sk)) ''encode plugin reconcile result'' False
      | Some output \<Rightarrow> output_of output)"

definition unavailable :: "supervisor_sdk \<Rightarrow> string \<Rightarrow> execution" where
  "unavailable sk message = failure (px_error_unavailable (sk_processor sk)) message True"

definition internal_failure :: "supervisor_sdk \<Rightarrow> string \<Rightarrow> execution" where
  "internal_failure sk message = failure (px_error_internal (sk_processor sk)) message False"

definition invalid_argument :: "supervisor_sdk \<Rightarrow> string \<Rightarrow> execution" where
  "invalid_argument sk message = failure (px_error_invalid_argument (sk_processor sk)) message False"

definition ensure_current :: "supervisor_sdk \<Rightarrow> desired_state \<Rightarrow> revision option \<Rightarrow> (unit, 's) supervisor_act" where
  "ensure_current sk d current =
     (case current of
        None \<Rightarrow> fail_act CurrentStateMissing
      | Some v \<Rightarrow>
          bind_act (if vn_state v \<noteq> ModeAbsent then bind_act (fetch_act sk d) (\<lambda>_. return_act ()) else return_act ()) (\<lambda>_.
            case vn_state v of
              ModeAbsent \<Rightarrow> bind_act (detach_and_stop (de_plugin_id d)) (\<lambda>_. remove_plugin_data (de_plugin_id d))
            | ModeStopped \<Rightarrow> detach_and_stop (de_plugin_id d)
            | ModeRunning \<Rightarrow> (\<lambda>w.
                if (case process_of w (de_plugin_id d) of None \<Rightarrow> False | Some p \<Rightarrow> \<not> exited (sv_os w) p) then (Inr (), w)
                else bind_act (start_revision sk (de_plugin_id d) v) (\<lambda>p w.
                  (Inr (), watch (de_plugin_id d) p (set_process (de_plugin_id d) (Some p) w))) w)
            | ModeOther _ \<Rightarrow> fail_act CurrentStateInvalid))"

text \<open>The command asks for what is current.\<close>

definition reconcile_current :: "supervisor_sdk \<Rightarrow> 's status_sink \<Rightarrow> desired_state \<Rightarrow> revision option \<Rightarrow> 's supervisor \<Rightarrow> execution \<times> 's supervisor" where
  "reconcile_current sk put d previous =
     handle_act (ensure_current sk d previous) (\<lambda>_ w. (unavailable sk ''restore current plugin state'', w)) (\<lambda>_ w.
       let restart_count = snd (current_or_none sk (de_plugin_id d) w) in
       case previous of
         None \<Rightarrow> (plugin_success sk d, w)
       | Some v \<Rightarrow>
           handle_act (emit_revision sk put (de_plugin_id d) v restart_count) (\<lambda>_ w. (unavailable sk ''queue plugin status event'', w))
             (\<lambda>_ w. (plugin_success sk d, w)) w)"

text \<open>The command asks for the plugin to be removed.\<close>

definition reconcile_absent :: "supervisor_sdk \<Rightarrow> 's status_sink \<Rightarrow> desired_state \<Rightarrow> revision option \<Rightarrow> 's supervisor \<Rightarrow> execution \<times> 's supervisor" where
  "reconcile_absent sk put d previous =
     handle_act (detach_and_stop (de_plugin_id d)) (\<lambda>_ w. (unavailable sk ''current plugin process failed to stop'', w)) (\<lambda>_.
     handle_act (on_states (\<lambda>fault. commit (sk_plugin sk) fault d))
       (\<lambda>_ w. (internal_failure sk ''commit absent plugin state'', rollback sk put (de_plugin_id d) previous w)) (\<lambda>committed.
     handle_act (remove_plugin_data (de_plugin_id d))
       (\<lambda>_ w. (internal_failure sk ''remove plugin private state'',
                emit_failed sk put (de_plugin_id d) (de_generation d) [] [] 0 ''plugin private state removal failed'' w)) (\<lambda>_.
     handle_act (emit_revision sk put (de_plugin_id d) committed 0) (\<lambda>_ w. (unavailable sk ''queue plugin status event'', w))
       (\<lambda>_ w. (plugin_success sk d, w)))))"

text \<open>A candidate that failed is stopped; if it does not stop it stays the actor's process, otherwise the previous revision is restored.\<close>

definition abandon_candidate ::
    "supervisor_sdk \<Rightarrow> 's status_sink \<Rightarrow> desired_state \<Rightarrow> revision option \<Rightarrow> managed_process \<Rightarrow> string \<Rightarrow> execution
     \<Rightarrow> 's supervisor \<Rightarrow> execution \<times> 's supervisor" where
  "abandon_candidate sk put d previous p message answer =
     handle_act (stop_act p)
       (\<lambda>_ w. (unavailable sk message, set_process (de_plugin_id d) (Some p) w))
       (\<lambda>_ w. (answer, rollback sk put (de_plugin_id d) previous w))"

text \<open>The last part: the candidate, if there is one, is committed and becomes the process of the actor.\<close>

definition commit_candidate ::
    "supervisor_sdk \<Rightarrow> 's status_sink \<Rightarrow> desired_state \<Rightarrow> revision option \<Rightarrow> managed_process option
     \<Rightarrow> 's supervisor \<Rightarrow> execution \<times> 's supervisor" where
  "commit_candidate sk put d previous candidate =
     handle_act (on_states (\<lambda>fault. commit (sk_plugin sk) fault d))
       (\<lambda>_ w. case candidate of
          None \<Rightarrow> (internal_failure sk ''commit plugin state'', rollback sk put (de_plugin_id d) previous w)
        | Some p \<Rightarrow>
            abandon_candidate sk put d previous p ''uncommitted plugin process did not stop'' (internal_failure sk ''commit plugin state'') w)
       (\<lambda>committed w.
          let w = (case candidate of
                None \<Rightarrow> w
              | Some p \<Rightarrow>
                  let p = p\<lparr>mp_ready := True\<rparr>
                  in watch (de_plugin_id d) p (set_streak (de_plugin_id d) 0
                       (set_capabilities (de_plugin_id d) (mp_capabilities p) (set_process (de_plugin_id d) (Some p) w))))
          in handle_act (emit_revision sk put (de_plugin_id d) committed 0) (\<lambda>_ w. (unavailable sk ''queue plugin status event'', w))
               (\<lambda>_ w. (plugin_success sk d, prune_act (de_plugin_id d) w)) w)"

text \<open>The candidate has accepted the configuration.\<close>

definition run_candidate ::
    "supervisor_sdk \<Rightarrow> 's status_sink \<Rightarrow> desired_state \<Rightarrow> revision option \<Rightarrow> managed_process \<Rightarrow> 's supervisor \<Rightarrow> execution \<times> 's supervisor" where
  "run_candidate sk put d previous p w =
     (if de_state d = ModeRunning then
        (case apply_act sk d p w of
           (Inl _, p, w) \<Rightarrow>
             abandon_candidate sk put d previous p ''failed candidate process did not stop''
               (unavailable sk ''plugin configuration application or health check failed'') w
         | (Inr _, p, w) \<Rightarrow> commit_candidate sk put d previous (Some p) w)
      else if de_state d = ModeStopped then
        handle_act (stop_act p)
          (\<lambda>_ w. (unavailable sk ''plugin process failed to stop'', set_process (de_plugin_id d) (Some p) w))
          (\<lambda>_. commit_candidate sk put d previous None) w
      else commit_candidate sk put d previous (Some p) w)"

definition refused_configuration :: "supervisor_sdk \<Rightarrow> supervisor_error \<Rightarrow> execution" where
  "refused_configuration sk e =
     (if e = ProcessError ConfigurationRejected then invalid_argument sk ''plugin configuration validation failed''
      else unavailable sk ''plugin configuration validation failed'')"

definition reconcile_install ::
    "supervisor_sdk \<Rightarrow> 's status_sink \<Rightarrow> desired_state \<Rightarrow> revision option \<Rightarrow> 's supervisor \<Rightarrow> execution \<times> 's supervisor" where
  "reconcile_install sk put d previous =
     handle_act (fetch_act sk d) (\<lambda>_ w. (unavailable sk ''plugin artifact download or verification failed'', w)) (\<lambda>_.
     handle_act (detach_and_stop (de_plugin_id d)) (\<lambda>_ w. (unavailable sk ''current plugin process failed to stop'', w)) (\<lambda>_.
     case de_artifact d of
       None \<Rightarrow> (\<lambda>w. (unavailable sk ''plugin artifact download or verification failed'', w))
     | Some a \<Rightarrow>
       handle_act (start_act sk (de_plugin_id d) (de_version d) a)
         (\<lambda>e w. (if e = ProcessError IdentityMismatch then invalid_argument sk ''plugin artifact identity validation failed''
                 else unavailable sk ''plugin process failed to start'', rollback sk put (de_plugin_id d) previous w)) (\<lambda>p.
       handle_act (validate_act sk d)
         (\<lambda>e. abandon_candidate sk put d previous p ''failed candidate process did not stop'' (refused_configuration sk e))
         (\<lambda>_. run_candidate sk put d previous p))))"

definition reconcile_actor :: "supervisor_sdk \<Rightarrow> 's status_sink \<Rightarrow> reconcile_command \<Rightarrow> 's supervisor \<Rightarrow> execution \<times> 's supervisor" where
  "reconcile_actor sk put c =
     handle_act (on_states (\<lambda>fault. prepare (sk_plugin sk) fault c))
       (\<lambda>e w. (if e = StateError StaleGeneration \<or> e = StateError GenerationConflict
               then failure (px_error_conflict (sk_processor sk)) ''plugin generation conflicts with durable state'' False
               else internal_failure sk ''persist plugin desired state'', w))
       (\<lambda>(d, previous, already_current) w.
          let w = prune_act (de_plugin_id d) w in
          if already_current then reconcile_current sk put d previous w
          else if de_state d = ModeAbsent then reconcile_absent sk put d previous w
          else reconcile_install sk put d previous w)"

text \<open>The code asks \<^verbatim>\<open>isRunning\<close> again when it has the actor's lock; here nothing happens in between.\<close>

definition execute_reconcile :: "supervisor_sdk \<Rightarrow> 's status_sink \<Rightarrow> agent_command \<Rightarrow> 's supervisor \<Rightarrow> execution \<times> 's supervisor" where
  "execute_reconcile sk put cmd w =
     (case sk_decode_reconcile sk cmd of
        None \<Rightarrow> (invalid_argument sk ''invalid plugin reconcile command'', w)
      | Some c \<Rightarrow>
          if \<not> is_running w then (unavailable sk ''plugin supervisor is not running'', w)
          else reconcile_actor sk put c (ensure_actor (rc_plugin_id c) w))"

subsection \<open>Diagnosing\<close>

text \<open>The process that answers: the code asks for this in four places.\<close>

definition ready_process :: "'s supervisor \<Rightarrow> string \<Rightarrow> managed_process option" where
  "ready_process w plugin =
     (case process_of w plugin of
        None \<Rightarrow> None
      | Some p \<Rightarrow> if \<not> mp_ready p \<or> exited (sv_os w) p then None else Some p)"

definition execute_diagnose :: "supervisor_sdk \<Rightarrow> agent_command \<Rightarrow> 's supervisor \<Rightarrow> execution \<times> 's supervisor" where
  "execute_diagnose sk cmd w =
     (case sk_decode_diagnose sk cmd of
        None \<Rightarrow> (invalid_argument sk ''invalid plugin diagnose command'', w)
      | Some c \<Rightarrow>
          if \<not> is_running w then (unavailable sk ''plugin supervisor is not running'', w)
          else
            let w = ensure_actor (dc_plugin_id c) w in
            case ready_process w (dc_plugin_id c) of
              None \<Rightarrow> (unavailable sk ''plugin is not running'', w)
            | Some p \<Rightarrow>
                if \<not> nk_has_capability (sk_node sk) (mp_capabilities p) (nk_diagnostics_capability (sk_node sk))
                then (failure (px_error_unsupported (sk_processor sk)) ''plugin does not support diagnostics'' False, w)
                else case next_outside w of (od, w) \<Rightarrow>
                  (case client_diagnose (sk_node sk) (od_diagnose od) \<lparr>dq_name = dc_name c, dq_json = dc_json c\<rparr> of
                     Inl e \<Rightarrow>
                       (if e = DiagnosticRejected then invalid_argument sk ''plugin rejected the diagnostic request''
                        else unavailable sk ''plugin diagnostic RPC failed'', w)
                   | Inr response \<Rightarrow>
                       (case sk_encode_diagnose sk response of
                          None \<Rightarrow> internal_failure sk ''encode plugin diagnostic result''
                        | Some output \<Rightarrow> output_of output, w)))"

definition supervisor_execute :: "supervisor_sdk \<Rightarrow> 's status_sink \<Rightarrow> 's supervisor executor" where
  "supervisor_execute sk put deadline k cmd w =
     (if ac_kind cmd = sk_reconcile_kind sk then execute_reconcile sk put cmd w
      else if ac_kind cmd = sk_diagnose_kind sk then execute_diagnose sk cmd w
      else unsupported_executor (sk_processor sk) deadline k cmd w)"

subsection \<open>Starting and closing the supervisor\<close>

text \<open>\<^verbatim>\<open>NewSupervisor\<close>, after the state store has been opened: nothing runs yet and nobody listens to its events.\<close>

definition new_supervisor :: "plugin_states \<Rightarrow> releases \<Rightarrow> string list \<Rightarrow> 's \<Rightarrow> (nat \<Rightarrow> outside) \<Rightarrow> 's supervisor" where
  "new_supervisor states rel data sink outside =
     \<lparr>sv_states = states, sv_releases = rel, sv_data = data, sv_actors = [], sv_capabilities = [], sv_sink = sink, sv_started = False,
      sv_stopping = False, sv_os = \<lparr>os_running = [], os_next_handle = 0\<rparr>, sv_tasks = [], sv_outside = outside, sv_ticks = 0\<rparr>"

definition recover_plugin :: "supervisor_sdk \<Rightarrow> 's status_sink \<Rightarrow> plugin_state \<Rightarrow> 's supervisor \<Rightarrow> 's supervisor" where
  "recover_plugin sk put s w =
     (let plugin = pg_plugin_id s; w = ensure_actor plugin w in
      case pg_current s of
        None \<Rightarrow> w
      | Some v \<Rightarrow>
          (case vn_state v of
             ModeRunning \<Rightarrow>
               (case start_revision sk plugin v w of
                  (Inl _, w) \<Rightarrow> add_task (Retry plugin) (emit_failed_revision sk put plugin v (pg_restart_count s) ''plugin recovery failed'' w)
                | (Inr p, w) \<Rightarrow>
                    watch plugin p (logged (emit_revision sk put plugin v (pg_restart_count s)) (set_process plugin (Some p) w)))
           | ModeStopped \<Rightarrow>
               (case verify_revision_artifact sk plugin v w of
                  (Inl _, w) \<Rightarrow> emit_failed_revision sk put plugin v (pg_restart_count s) ''installed plugin artifact failed verification'' w
                | (Inr _, w) \<Rightarrow> logged (emit_revision sk put plugin v (pg_restart_count s)) w)
           | ModeAbsent \<Rightarrow> logged (emit_revision sk put plugin v (pg_restart_count s)) w
           | ModeOther _ \<Rightarrow> w))"

definition supervisor_start :: "supervisor_sdk \<Rightarrow> 's status_sink \<Rightarrow> (unit, 's) supervisor_act" where
  "supervisor_start sk put w =
     (if sv_started w then (Inl AlreadyStarted, w)
      else (Inr (), fold (recover_plugin sk put) (list_states (sv_states w)) (w\<lparr>sv_started := True, sv_stopping := False\<rparr>)))"

text \<open>Closing sets the flag, which ends the retries, and then stops the process of one actor after the other.\<close>

definition close_begin :: "'s supervisor \<Rightarrow> string list \<times> 's supervisor" where
  "close_begin w =
     (if \<not> sv_started w \<or> sv_stopping w then ([], w) else (map fst (sv_actors w), w\<lparr>sv_stopping := True\<rparr>))"

definition close_actor :: "string \<Rightarrow> (unit, 's) supervisor_act" where
  "close_actor plugin w =
     (case process_of w plugin of
        None \<Rightarrow> (Inr (), set_process plugin None w)
      | Some p \<Rightarrow> stop_act p (set_process plugin None w))"

definition supervisor_close :: "(string list \<Rightarrow> string list) \<Rightarrow> 's supervisor \<Rightarrow> supervisor_error list \<times> 's supervisor" where
  "supervisor_close iter w = (case close_begin w of (plugins, w) \<Rightarrow> try_each close_actor (iter plugins) w)"

subsection \<open>The goroutines\<close>

definition replace_task :: "nat \<Rightarrow> task list \<Rightarrow> 's supervisor \<Rightarrow> 's supervisor" where
  "replace_task i ts w = w\<lparr>sv_tasks := take i (sv_tasks w) @ ts @ drop (Suc i) (sv_tasks w)\<rparr>"

text \<open>The process of the actor, if it is this one, has the listeners that its watch has seen.\<close>

definition update_process :: "string \<Rightarrow> managed_process \<Rightarrow> 's supervisor \<Rightarrow> 's supervisor" where
  "update_process plugin p w =
     (case process_of w plugin of
        None \<Rightarrow> w
      | Some q \<Rightarrow> if mp_handle q = mp_handle p then set_process plugin (Some p) w else w)"

definition watch_health :: "supervisor_sdk \<Rightarrow> string \<Rightarrow> managed_process \<Rightarrow> 's supervisor \<Rightarrow> bool \<times> managed_process \<times> 's supervisor" where
  "watch_health sk plugin p w =
     (case current_revision (sk_plugin sk) plugin (sv_states w) of
        Inl _ \<Rightarrow> (False, p, w)
      | Inr (None, _) \<Rightarrow> (False, p, w)
      | Inr (Some v, _) \<Rightarrow>
          (case next_outside w of (od, w) \<Rightarrow>
             case check_healthy (sk_node sk) (od_health od) (vn_generation v) (vn_configuration_sha256 v) p of (r, p) \<Rightarrow>
               (r = Inr (), p, update_process plugin p w)))"

definition next_watch :: "string \<Rightarrow> managed_process \<Rightarrow> nat \<Rightarrow> bool \<Rightarrow> task" where
  "next_watch plugin p failures healthy =
     (if healthy then Watch plugin p 0
      else if Suc failures < health_failures_before_restart then Watch plugin p (Suc failures)
      else GiveUp plugin p HealthChecksFailed)"

text \<open>A tick of the watch's timer, and the exit of its process.\<close>

definition watch_tick :: "supervisor_sdk \<Rightarrow> nat \<Rightarrow> string \<Rightarrow> managed_process \<Rightarrow> nat \<Rightarrow> 's supervisor \<Rightarrow> 's supervisor" where
  "watch_tick sk i plugin p failures w =
     (case watch_health sk plugin p w of (healthy, p, w) \<Rightarrow> replace_task i [next_watch plugin p failures healthy] w)"

definition watch_exit :: "nat \<Rightarrow> string \<Rightarrow> managed_process \<Rightarrow> 's supervisor \<Rightarrow> 's supervisor" where
  "watch_exit i plugin p w = replace_task i [GiveUp plugin p ExitedUnexpectedly] w"

definition reason_text :: "watch_reason \<Rightarrow> string" where
  "reason_text reason = (case reason of ExitedUnexpectedly \<Rightarrow> ''plugin process exited unexpectedly'' | HealthChecksFailed \<Rightarrow> ''plugin health checks failed'')"

text \<open>The crash is counted, the failure reported, and the watch goes on as a retry.\<close>

definition count_crash ::
    "supervisor_sdk \<Rightarrow> 's status_sink \<Rightarrow> string \<Rightarrow> managed_process \<Rightarrow> watch_reason \<Rightarrow> revision option \<Rightarrow> 's supervisor \<Rightarrow> 's supervisor" where
  "count_crash sk put plugin p reason current w =
     (case next_outside (set_capabilities plugin [] w) of (od, w) \<Rightarrow>
        let streak = (if stable_process_duration \<le> od_now od - mp_started_at p then 0 else pl_crash_streak (actor_of w plugin));
            w = set_streak plugin (streak + 1) w
        in case on_states (\<lambda>fault. increment_restart (sk_plugin sk) fault plugin) w of
             (Inl _, w) \<Rightarrow> w
           | (Inr restart_count, w) \<Rightarrow>
               (case current of
                  None \<Rightarrow> w
                | Some v \<Rightarrow> emit_failed_revision sk put plugin v restart_count (reason_text reason) w))"

definition give_up ::
    "supervisor_sdk \<Rightarrow> 's status_sink \<Rightarrow> nat \<Rightarrow> string \<Rightarrow> managed_process \<Rightarrow> watch_reason \<Rightarrow> 's supervisor \<Rightarrow> 's supervisor" where
  "give_up sk put i plugin p reason w =
     (if (case process_of w plugin of None \<Rightarrow> True | Some q \<Rightarrow> mp_handle q \<noteq> mp_handle p) then replace_task i [] w
      else case current_or_none sk plugin w of (current, restart_count) \<Rightarrow>
        let w = set_process plugin None w in
        case (if reason \<noteq> ExitedUnexpectedly then stop_act p w else (Inr (), w)) of (stopped, w) \<Rightarrow>
          if errors_of stopped \<noteq> [] \<and> \<not> exited (sv_os w) p then
            (let w = set_process plugin (Some p) w;
                 w = (case current of
                        None \<Rightarrow> w
                      | Some v \<Rightarrow> emit_failed_revision sk put plugin v restart_count ''unhealthy plugin process did not stop'' w)
             in watch plugin p (replace_task i [] w))
          else replace_task i [Retry plugin] (count_crash sk put plugin p reason current w))"

subsubsection \<open>Retrying\<close>

text \<open>\<^verbatim>\<open>time.Second << min(streak-1, 6)\<close>, with a streak of 0 taken as 1.\<close>

definition retry_delay :: "u64 \<Rightarrow> int" where
  "retry_delay streak =
     (let streak = (if streak = 0 then 1 else streak) in second * 2 ^ unat (if streak - 1 < 6 then streak - 1 else 6))"

text \<open>One turn of the loop after its delay: \<open>None\<close> when the goroutine ends.\<close>

definition retry_recovery :: "supervisor_sdk \<Rightarrow> 's status_sink \<Rightarrow> nat \<Rightarrow> string \<Rightarrow> 's supervisor \<Rightarrow> 's supervisor" where
  "retry_recovery sk put i plugin w =
     (case current_revision (sk_plugin sk) plugin (sv_states w) of
        Inr (Some v, restart_count) \<Rightarrow>
          if vn_state v \<noteq> ModeRunning \<or> process_of w plugin \<noteq> None \<or> \<not> is_running w then replace_task i [] w
          else (case start_revision sk plugin v w of
             (Inr p, w) \<Rightarrow>
               watch plugin p (logged (emit_revision sk put plugin v restart_count) (set_process plugin (Some p) (replace_task i [] w)))
           | (Inl _, w) \<Rightarrow>
               (let w = set_streak plugin (pl_crash_streak (actor_of w plugin) + 1) w
                in emit_failed_revision sk put plugin v restart_count ''plugin process restart failed'' w))
      | _ \<Rightarrow> replace_task i [] w)"

subsection \<open>What the agent asks\<close>

record plugin_runtime =
  pr_plugin_id :: string
  pr_instance_id :: string
  pr_capabilities :: "string list"
  pr_telemetry_stream_id :: string

text \<open>The instance is named by the pid and the start time of its process.\<close>

definition decimal_int :: "int \<Rightarrow> string" where
  "decimal_int n = (if n < 0 then ''-'' @ decimal (nat (- n)) else decimal (nat n))"

definition process_instance_id :: "managed_process \<Rightarrow> string" where
  "process_instance_id p = decimal (mp_pid p) @ '':'' @ decimal_int (mp_started_at p - unix_epoch)"

definition running_plugins :: "'s supervisor \<Rightarrow> plugin_runtime list" where
  "running_plugins w =
     List.map_filter (\<lambda>plugin. map_option (\<lambda>p.
         \<lparr>pr_plugin_id = plugin, pr_instance_id = process_instance_id p, pr_capabilities = mp_capabilities p,
          pr_telemetry_stream_id = mp_telemetry_stream_id p\<rparr>) (ready_process w plugin))
       (sort (map fst (sv_actors w)))"

record plugin_listener_status =
  pn_plugin_id :: string
  pn_service_id :: string
  pn_network :: string
  pn_address :: string
  pn_port :: u32
  pn_state :: listener_state
  pn_observed_at :: time

definition listeners_of :: "string \<Rightarrow> managed_process \<Rightarrow> plugin_listener_status list" where
  "listeners_of plugin p =
     List.map_filter (map_option (\<lambda>l.
         \<lparr>pn_plugin_id = plugin, pn_service_id = ls_service_id l, pn_network = ls_network l, pn_address = ls_address l, pn_port = ls_port l,
          pn_state = ls_state l, pn_observed_at = mp_listeners_observed p\<rparr>)) (mp_listeners p)"

definition listener_statuses :: "'s supervisor \<Rightarrow> plugin_listener_status list" where
  "listener_statuses w =
     concat (map (\<lambda>plugin. case ready_process w plugin of None \<Rightarrow> [] | Some p \<Rightarrow> listeners_of plugin p) (sort (map fst (sv_actors w))))"

text \<open>The calls of the policy engine; \<open>call\<close> is what the plugin answers.\<close>

datatype runtime_call_error = RuntimeUnavailable | RuntimeCallFailed process_error

definition call_ready ::
    "(managed_process \<Rightarrow> process_error + 'a) \<Rightarrow> string \<Rightarrow> 's supervisor \<Rightarrow> (runtime_call_error + 'a) \<times> 's supervisor" where
  "call_ready f plugin w =
     (let w = ensure_actor plugin w
      in (case ready_process w plugin of None \<Rightarrow> Inl RuntimeUnavailable | Some p \<Rightarrow> map_sum RuntimeCallFailed (\<lambda>x. x) (f p), w))"

definition collect_telemetry ::
    "supervisor_sdk \<Rightarrow> (collect_request \<Rightarrow> string rpc) \<Rightarrow> string \<Rightarrow> u64 \<Rightarrow> 's supervisor \<Rightarrow> (runtime_call_error + string) \<times> 's supervisor" where
  "collect_telemetry sk call plugin after_sequence =
     call_ready (\<lambda>_. client_collect_telemetry (sk_node sk) call after_sequence) plugin"

definition set_service_state ::
    "supervisor_sdk \<Rightarrow> (string \<Rightarrow> string rpc) \<Rightarrow> string \<Rightarrow> string \<Rightarrow> 's supervisor \<Rightarrow> (runtime_call_error + unit) \<times> 's supervisor" where
  "set_service_state sk call plugin rq = call_ready (\<lambda>_. client_set_service_state (sk_node sk) call rq) plugin"

definition replace_dynamic_blocks ::
    "supervisor_sdk \<Rightarrow> (string \<Rightarrow> string rpc) \<Rightarrow> string \<Rightarrow> string \<Rightarrow> 's supervisor \<Rightarrow> (runtime_call_error + unit) \<times> 's supervisor" where
  "replace_dynamic_blocks sk call plugin rq = call_ready (\<lambda>_. client_replace_dynamic_blocks (sk_node sk) call rq) plugin"

subsection \<open>The steps of the world\<close>

text \<open>A process may exit at any time. A retry ends when the context is cancelled, which closing does, and before its delay when nothing runs.\<close>

inductive supervisor_step :: "supervisor_sdk \<Rightarrow> 's status_sink \<Rightarrow> 's supervisor \<Rightarrow> 's supervisor \<Rightarrow> bool" for sk put where
  command: "supervisor_execute sk put deadline k cmd w = (execution, w') \<Longrightarrow> supervisor_step sk put w w'"
| start: "supervisor_start sk put w = (r, w') \<Longrightarrow> supervisor_step sk put w w'"
| close: "close_begin w = (plugins, w') \<Longrightarrow> supervisor_step sk put w w'"
| close_actor: "sv_stopping w \<Longrightarrow> close_actor plugin w = (r, w') \<Longrightarrow> supervisor_step sk put w w'"
| query: "supervisor_step sk put w (ensure_actor plugin w)"
| process_exit: "supervisor_step sk put w (w\<lparr>sv_os := process_gone h (sv_os w)\<rparr>)"
| watch_tick: "i < length (sv_tasks w) \<Longrightarrow> sv_tasks w ! i = Watch plugin p n \<Longrightarrow>
    supervisor_step sk put w (watch_tick sk i plugin p n w)"
| watch_exit: "i < length (sv_tasks w) \<Longrightarrow> sv_tasks w ! i = Watch plugin p n \<Longrightarrow> exited (sv_os w) p \<Longrightarrow>
    supervisor_step sk put w (watch_exit i plugin p w)"
| give_up: "i < length (sv_tasks w) \<Longrightarrow> sv_tasks w ! i = GiveUp plugin p reason \<Longrightarrow>
    supervisor_step sk put w (give_up sk put i plugin p reason w)"
| retry: "i < length (sv_tasks w) \<Longrightarrow> sv_tasks w ! i = Retry plugin \<Longrightarrow>
    supervisor_step sk put w (retry_recovery sk put i plugin w)"
| retry_ends: "i < length (sv_tasks w) \<Longrightarrow> sv_tasks w ! i = Retry plugin \<Longrightarrow> \<not> is_running w \<Longrightarrow>
    supervisor_step sk put w (replace_task i [] w)"

abbreviation supervisor_run :: "supervisor_sdk \<Rightarrow> 's status_sink \<Rightarrow> 's supervisor \<Rightarrow> 's supervisor \<Rightarrow> bool" where
  "supervisor_run sk put \<equiv> (supervisor_step sk put)\<^sup>*\<^sup>*"

end
