(* ===== verification/PluginSupervision.thy ===== *)
theory PluginSupervision
  imports PluginHandlers
begin

section \<open>What the handlers of the supervisor change\<close>

text \<open>
  Most actions of the supervisor leave the actors, the goroutines and the durable states alone: they are calm. The others change them for one plugin
  only. From this follows that a plugin that shall run is always either watched or retried.
\<close>

subsection \<open>Calm actions\<close>

definition calm :: "'s supervisor \<Rightarrow> 's supervisor \<Rightarrow> bool" where
  "calm w w' \<longleftrightarrow>
     sv_started w' = sv_started w \<and> sv_stopping w' = sv_stopping w \<and> sv_outside w' = sv_outside w \<and> sv_actors w' = sv_actors w \<and>
     sv_tasks w' = sv_tasks w \<and> sv_states w' = sv_states w"

lemma calm_refl [simp]: "calm w w"
  by (simp add: calm_def)

lemma calm_trans: "calm a b \<Longrightarrow> calm b c \<Longrightarrow> calm a c"
  by (simp add: calm_def)

lemma calm_reflp: "reflp calm" and calm_transp: "transp calm"
  by (auto simp: reflp_def transp_def intro: calm_trans)

lemma calm_next: "next_outside w = (od, w') \<Longrightarrow> calm w w'"
  by (auto simp: next_outside_def calm_def)

lemma calm_updates [simp]:
  "calm w (w'\<lparr>sv_os := os\<rparr>) = calm w w'" "calm w (w'\<lparr>sv_releases := rel\<rparr>) = calm w w'" "calm w (w'\<lparr>sv_data := ds\<rparr>) = calm w w'"
  "calm w (w'\<lparr>sv_sink := s\<rparr>) = calm w w'" "calm w (set_capabilities p cs w') = calm w w'" "calm w (clear_capabilities m w') = calm w w'"
  by (simp_all add: calm_def set_capabilities_def clear_capabilities_def)

lemma calm_emit: "effect calm (emit sk put e)"
  by (auto simp: effect_def emit_def split: if_splits option.splits prod.splits dest: calm_next)

lemma calm_logged: "effect calm m \<Longrightarrow> calm w (logged m w)"
  by (metis effectD logged_def prod.collapse)

lemma calm_emit_revision: "effect calm (emit_revision sk put plugin v n)"
  by (auto simp: effect_def emit_revision_def dest: effectD [OF calm_emit])

lemma calm_emit_failed: "calm w (emit_failed sk put plugin g v d n r w)"
  unfolding emit_failed_def by (rule calm_logged [OF calm_emit])

lemma calm_stop: "effect calm (stop_act p)"
  by (auto simp: effect_def stop_act_def split: prod.splits dest: calm_next)

lemma calm_start_act: "effect calm (start_act sk plugin version a)"
  by (auto simp: effect_def start_act_def split: prod.splits dest: calm_next)

lemma calm_verify: "effect calm (verify_revision_artifact sk plugin v)"
  by (auto simp: effect_def verify_revision_artifact_def split: option.splits prod.splits if_splits dest: calm_next)

lemma calm_validate: "effect calm (validate_act sk d)"
  by (auto simp: effect_def validate_act_def split: prod.splits dest: calm_next)

lemma calm_apply: "apply_act sk d p w = (r, p', w') \<Longrightarrow> calm w w'"
  by (auto simp: apply_act_def split: prod.splits dest: calm_next)

lemma calm_configure: "configure_revision sk d p w = (p', w') \<Longrightarrow> calm w w'"
  by (auto simp: configure_revision_def split: sum.splits prod.splits dest: effectD [OF calm_validate] calm_apply intro: calm_trans)

lemma calm_start_revision: "effect calm (start_revision sk plugin v)"
  unfolding start_revision_def
proof (intro effect_bind [OF calm_transp] calm_verify calm_start_act)
  fix a p
  show "effect calm (\<lambda>w. case configure_revision sk (desired_of_revision plugin v) p w of
      (p, w) \<Rightarrow> (Inr (p\<lparr>mp_ready := True\<rparr>), set_capabilities plugin (mp_capabilities p) w))"
    by (auto simp: effect_def split: prod.splits dest: calm_configure)
qed

lemma calm_remove_data: "effect calm (remove_plugin_data plugin)"
  by (auto simp: effect_def remove_plugin_data_def Let_def split: option.splits prod.splits if_splits dest: calm_next)

lemma calm_fetch: "effect calm (fetch_act sk d)"
  by (auto simp: effect_def fetch_act_def split: prod.splits dest: calm_next)

lemma calm_prune: "calm w (prune_act plugin w)"
  by (auto simp: prune_act_def split: prod.splits dest: calm_next)

lemmas calm_effects = calm_emit_revision calm_stop calm_start_act calm_verify calm_validate calm_start_revision calm_remove_data calm_fetch

subsection \<open>Processes and tasks\<close>

lemma process_of_put [simp]: "process_of (put_actor k a w) q = (if q = k then pl_process a else process_of w q)"
  by (simp add: process_of_def actor_of_def put_actor_def)

lemma process_of_set [simp]: "process_of (set_process k p w) q = (if q = k then p else process_of w q)"
  by (simp add: set_process_def)

lemma actor_of_process: "pl_process (actor_of w k) = process_of w k"
  by (simp add: process_of_def)

lemma process_of_streak [simp]: "process_of (set_streak k n w) q = process_of w q"
  by (simp add: set_streak_def actor_of_process)

lemma process_of_ensure [simp]: "process_of (ensure_actor k w) q = process_of w q"
  by (simp add: ensure_actor_def actor_of_process)

lemma process_of_tasks [simp]:
  "process_of (add_task t w) q = process_of w q" "process_of (watch k p w) q = process_of w q" "process_of (replace_task i ts w) q = process_of w q"
  by (simp_all add: process_of_def actor_of_def add_task_def watch_def replace_task_def)

lemma calm_process: "calm w w' \<Longrightarrow> process_of w' q = process_of w q"
  by (simp add: calm_def process_of_def actor_of_def)

lemma put_actor_fields [simp]:
  "sv_tasks (put_actor k a w) = sv_tasks w" "sv_states (put_actor k a w) = sv_states w" "sv_started (put_actor k a w) = sv_started w"
  "sv_stopping (put_actor k a w) = sv_stopping w" "sv_outside (put_actor k a w) = sv_outside w" "sv_os (put_actor k a w) = sv_os w"
  by (simp_all add: put_actor_def)

lemma actor_update_fields [simp]:
  "sv_tasks (set_process k p w) = sv_tasks w" "sv_states (set_process k p w) = sv_states w" "sv_started (set_process k p w) = sv_started w"
  "sv_stopping (set_process k p w) = sv_stopping w" "sv_outside (set_process k p w) = sv_outside w" "sv_os (set_process k p w) = sv_os w"
  "sv_tasks (set_streak k n w) = sv_tasks w" "sv_states (set_streak k n w) = sv_states w" "sv_started (set_streak k n w) = sv_started w"
  "sv_stopping (set_streak k n w) = sv_stopping w" "sv_outside (set_streak k n w) = sv_outside w" "sv_os (set_streak k n w) = sv_os w"
  "sv_tasks (ensure_actor k w) = sv_tasks w" "sv_states (ensure_actor k w) = sv_states w" "sv_started (ensure_actor k w) = sv_started w"
  "sv_stopping (ensure_actor k w) = sv_stopping w" "sv_outside (ensure_actor k w) = sv_outside w" "sv_os (ensure_actor k w) = sv_os w"
  by (simp_all add: set_process_def set_streak_def ensure_actor_def)

lemma capabilities_fields [simp]:
  "process_of (set_capabilities k cs w) q = process_of w q" "sv_tasks (set_capabilities k cs w) = sv_tasks w"
  "sv_states (set_capabilities k cs w) = sv_states w" "sv_started (set_capabilities k cs w) = sv_started w"
  "sv_stopping (set_capabilities k cs w) = sv_stopping w" "sv_outside (set_capabilities k cs w) = sv_outside w" "sv_os (set_capabilities k cs w) = sv_os w"
  by (simp_all add: set_capabilities_def process_of_def actor_of_def)

lemma task_update_fields [simp]:
  "sv_tasks (add_task t w) = sv_tasks w @ [t]" "sv_states (add_task t w) = sv_states w" "sv_started (add_task t w) = sv_started w"
  "sv_stopping (add_task t w) = sv_stopping w" "sv_outside (add_task t w) = sv_outside w" "sv_os (add_task t w) = sv_os w"
  "sv_tasks (watch k p w) = sv_tasks w @ [Watch k p 0]" "sv_states (watch k p w) = sv_states w" "sv_started (watch k p w) = sv_started w"
  "sv_stopping (watch k p w) = sv_stopping w" "sv_outside (watch k p w) = sv_outside w" "sv_os (watch k p w) = sv_os w"
  "sv_states (replace_task i ts w) = sv_states w" "sv_started (replace_task i ts w) = sv_started w"
  "sv_stopping (replace_task i ts w) = sv_stopping w" "sv_outside (replace_task i ts w) = sv_outside w" "sv_os (replace_task i ts w) = sv_os w"
  by (simp_all add: add_task_def watch_def replace_task_def)

lemma is_running_cong: "sv_started w' = sv_started w \<Longrightarrow> sv_stopping w' = sv_stopping w \<Longrightarrow> is_running w' = is_running w"
  by (simp add: is_running_def)

subsection \<open>The durable states\<close>

definition current_in :: "plugin_states \<Rightarrow> string \<Rightarrow> revision option" where
  "current_in states k = (case bucket_get (fs_records states) k of None \<Rightarrow> None | Some s \<Rightarrow> pg_current s)"

lemma current_in_Some: "current_in states k = Some v \<longleftrightarrow> (\<exists>s. bucket_get (fs_records states) k = Some s \<and> pg_current s = Some v)"
  by (auto simp: current_in_def split: option.splits)

lemma prepare_state_current: "plugin_inv sdk store \<Longrightarrow> pg_current (prepare_state k store) = current_in store k"
  using prepare_state_known [of sdk store k]
  by (cases "bucket_get (fs_records store) k") (auto simp: current_in_def prepare_state_def empty_plugin_state_def)

lemma write_state_current:
  assumes "write_state sdk fault s store = (out, store')" "plugin_sdk_ok sdk" "plugin_inv sdk store"
    and "\<And>old. bucket_get (fs_records store) (pg_plugin_id s) = Some old \<Longrightarrow> state_advances old s"
  shows "current_in store' q = (if out = Inr () \<and> q = pg_plugin_id s then pg_current s else current_in store q)"
  using write_state_step [OF assms(1-3)] assms(4) by (auto simp: current_in_def)

lemma prepare_current:
  assumes run: "prepare sdk fault c store = (out, store')" and ok: "plugin_sdk_ok sdk" and inv: "plugin_inv sdk store"
  shows "current_in store' = current_in store \<and>
    (\<forall>d previous b. out = Inr (d, previous, b) \<longrightarrow> previous = current_in store (rc_plugin_id c) \<and> de_plugin_id d = rc_plugin_id c)"
  using run inv
proof (cases rule: prepare_cases)
  case (current d)
  then show ?thesis using prepare_state_current [OF inv] normalize_desired_Inr by auto
next
  case (again d s p)
  have id: "pg_plugin_id s = rc_plugin_id c" by (rule file_store_invD(1) [OF inv again(2)])
  from renew_url_step [OF again(6) ok inv again(2)]
  have k: "current_in store' (rc_plugin_id c) = pg_current s" "\<And>q. out = Inr q \<Longrightarrow> q = (d, pg_current s, False)"
    by (auto simp: current_in_def)
  have "current_in store' q = current_in store q" if "q \<noteq> rc_plugin_id c" for q
  proof (cases "de_download_url p = de_download_url d")
    case True
    with again(6) show ?thesis by (auto simp: renew_url_def)
  next
    case False
    let ?s = "s\<lparr>pg_pending := Some (p\<lparr>de_download_url := de_download_url d\<rparr>)\<rparr>"
    let ?m = "store\<lparr>fs_records := bucket_put (rc_plugin_id c) ?s (fs_records store)\<rparr>"
    obtain x where w: "write_state sdk fault ?s ?m = (x, store')"
      using again(6) False id by (auto simp: renew_url_def Let_def split: sum.splits prod.splits)
    have "current_in store' q = current_in ?m q"
      using write_state_current [OF w ok renew_memory_inv [OF inv again(2)]] id that by (simp add: state_advances_refl)
    with that show ?thesis by (simp add: current_in_def)
  qed
  with k again(1,2) normalize_desired_Inr show ?thesis by (metis current_in_def option.simps(5) prod.inject ext)
next
  case (new d s)
  then obtain x where w: "write_state sdk fault (s\<lparr>pg_last_generation := de_generation d, pg_pending := Some d\<rparr>) store = (x, store')"
    and out: "(\<exists>e. x = Inl e \<and> out = Inl e) \<or> (x = Inr () \<and> out = Inr (d, pg_current s, False))" by blast
  have s: "pg_plugin_id s = rc_plugin_id c" "pg_current s = current_in store (rc_plugin_id c)"
    unfolding new(2) by (rule prepare_state_id [OF inv], rule prepare_state_current [OF inv])
  have later: "state_advances old (s\<lparr>pg_last_generation := de_generation d, pg_pending := Some d\<rparr>)"
    if "bucket_get (fs_records store) (pg_plugin_id (s\<lparr>pg_last_generation := de_generation d, pg_pending := Some d\<rparr>)) = Some old" for old
  proof -
    have "bucket_get (fs_records store) (rc_plugin_id c) = Some old" using that s by simp
    from prepare_state_known [OF inv this] new(2) have "old = s" by simp
    with new(3) show ?thesis by (auto simp: state_advances_def split: option.splits)
  qed
  from write_state_current [OF w ok inv later] s have "current_in store' = current_in store" by auto
  with out s(2) normalize_desired_Inr [OF new(1)] show ?thesis by auto
qed (use inv in auto)

lemma commit_current:
  assumes run: "commit sdk fault d store = (out, store')" and ok: "plugin_sdk_ok sdk" and inv: "plugin_inv sdk store"
  shows "(\<forall>e. out = Inl e \<longrightarrow> current_in store' = current_in store) \<and>
    (\<forall>v. out = Inr v \<longrightarrow> v = revision_of d \<and> current_in store' = (current_in store)(de_plugin_id d := Some v))"
  using run
proof (cases rule: commit_cases)
  case (committed s p w)
  note shape = file_store_invD(1,2) [OF inv committed(1)]
  have later: "state_advances old (committed_state d s)"
    if "bucket_get (fs_records store) (pg_plugin_id (committed_state d s)) = Some old" for old
    using that shape committed(1,3) by (auto simp: committed_state_fields state_advances_def state_shape_def split: option.splits)
  have "current_in store' q = (if w = Inr () \<and> q = de_plugin_id d then Some (revision_of d) else current_in store q)" for q
    using write_state_current [OF committed(5) ok inv later, of q] shape(1) by (simp add: committed_state_fields)
  with committed(6) show ?thesis by auto
qed auto

lemma increment_restart_current:
  assumes run: "increment_restart sdk fault k store = (out, store')" and ok: "plugin_sdk_ok sdk" and inv: "plugin_inv sdk store"
  shows "current_in store' = current_in store"
proof (cases "\<exists>s c. bucket_get (fs_records store) k = Some s \<and> pg_current s = Some c \<and> vn_state c = ModeRunning")
  case False
  then show ?thesis using run by (auto simp: increment_restart_def split: option.splits if_splits)
next
  case True
  then obtain s c where s: "bucket_get (fs_records store) k = Some s" "pg_current s = Some c" "vn_state c = ModeRunning" by blast
  let ?s = "s\<lparr>pg_restart_count := pg_restart_count s + 1\<rparr>"
  obtain w where w: "write_state sdk fault ?s store = (w, store')"
    using run s by (auto simp: increment_restart_def Let_def split: sum.splits prod.splits)
  note id = file_store_invD(1) [OF inv s(1)]
  have later: "state_advances old ?s" if "bucket_get (fs_records store) (pg_plugin_id ?s) = Some old" for old
    using that id s by (auto simp: state_advances_def)
  have "current_in store k = pg_current s" using s by (simp add: current_in_def)
  with write_state_current [OF w ok inv later] id show ?thesis by (auto simp: fun_eq_iff)
qed

subsection \<open>Watched or retried\<close>

fun watches :: "string \<Rightarrow> managed_process \<Rightarrow> task \<Rightarrow> bool" where
  "watches plugin p (Watch q r n) \<longleftrightarrow> q = plugin \<and> mp_handle r = mp_handle p"
| "watches plugin p (GiveUp q r reason) \<longleftrightarrow> q = plugin \<and> mp_handle r = mp_handle p"
| "watches plugin p (Retry q) \<longleftrightarrow> False"

definition wants_running :: "supervisor_sdk \<Rightarrow> 's supervisor \<Rightarrow> string \<Rightarrow> bool" where
  "wants_running sk w plugin \<longleftrightarrow>
     (case current_revision (sk_plugin sk) plugin (sv_states w) of Inr (Some v, _) \<Rightarrow> vn_state v = ModeRunning | _ \<Rightarrow> False)"

lemma wants_running_iff:
  "wants_running sk w plugin \<longleftrightarrow>
   pk_valid_plugin_id (sk_plugin sk) plugin \<and> (\<exists>v. current_in (sv_states w) plugin = Some v \<and> vn_state v = ModeRunning)"
  by (auto simp: wants_running_def current_revision_def current_in_def split: option.splits)

text \<open>A process has a watch; a plugin that shall run and has no process has a retry.\<close>

definition supervised_plugin :: "supervisor_sdk \<Rightarrow> 's supervisor \<Rightarrow> string \<Rightarrow> bool" where
  "supervised_plugin sk w plugin \<longleftrightarrow>
     (case process_of w plugin of
        Some p \<Rightarrow> \<exists>t \<in> set (sv_tasks w). watches plugin p t
      | None \<Rightarrow> wants_running sk w plugin \<longrightarrow> Retry plugin \<in> set (sv_tasks w))"

definition quiet_stop :: "stop_outside \<Rightarrow> bool" where
  "quiet_stop so \<longleftrightarrow> (so_exits_on_term so \<or> so_exits_on_kill so) \<and> remove_stale_socket (so_socket so) = Inr ()"

definition quiet_stops :: "'s supervisor \<Rightarrow> bool" where
  "quiet_stops w \<longleftrightarrow> (\<forall>n. quiet_stop (od_stop (sv_outside w n)))"

text \<open>What a handler for one plugin leaves alone.\<close>

definition others :: "supervisor_sdk \<Rightarrow> string \<Rightarrow> 's supervisor \<Rightarrow> 's supervisor \<Rightarrow> bool" where
  "others sk plugin w w' \<longleftrightarrow>
     sv_started w' = sv_started w \<and> sv_stopping w' = sv_stopping w \<and> sv_outside w' = sv_outside w \<and>
     (\<forall>q. q \<noteq> plugin \<longrightarrow> process_of w' q = process_of w q \<and> current_in (sv_states w') q = current_in (sv_states w) q) \<and>
     set (sv_tasks w) \<subseteq> set (sv_tasks w') \<and>
     (plugin_inv (sk_plugin sk) (sv_states w) \<longrightarrow> plugin_inv (sk_plugin sk) (sv_states w'))"

lemma others_refl [simp]: "others sk plugin w w"
  by (simp add: others_def)

lemma others_trans [trans]: "others sk plugin a b \<Longrightarrow> others sk plugin b c \<Longrightarrow> others sk plugin a c"
  unfolding others_def by (auto simp: subset_iff)

lemma calm_others: "calm w w' \<Longrightarrow> others sk plugin w w'"
  by (simp add: others_def calm_process) (simp add: calm_def)

lemma calm_supervised:
  assumes "calm w w'"
  shows "supervised_plugin sk w' q = supervised_plugin sk w q"
proof -
  have "sv_tasks w' = sv_tasks w" "wants_running sk w' q = wants_running sk w q"
    using assms by (simp_all add: wants_running_iff calm_def)
  then show ?thesis by (cases "process_of w q") (simp_all add: supervised_plugin_def calm_process [OF assms])
qed

lemma calm_current: "calm w w' \<Longrightarrow> current_in (sv_states w') = current_in (sv_states w)"
  by (simp add: calm_def)

lemma others_set [simp]:
  "others sk plugin w (set_process plugin p w') = others sk plugin w w'" "others sk plugin w (set_streak plugin n w') = others sk plugin w w'"
  "others sk plugin w (set_capabilities plugin cs w') = others sk plugin w w'"
  "others sk plugin w (ensure_actor plugin w') = others sk plugin w w'"
  by (auto simp: others_def)

lemma others_tasks: "others sk plugin w w' \<Longrightarrow> others sk plugin w (add_task t w')" "others sk plugin w w' \<Longrightarrow> others sk plugin w (watch k p w')"
  by (auto simp: others_def)

lemma others_supervised:
  assumes "others sk plugin w w'" and "q \<noteq> plugin" and "supervised_plugin sk w q"
  shows "supervised_plugin sk w' q"
proof -
  have "process_of w' q = process_of w q" "wants_running sk w' q = wants_running sk w q" "set (sv_tasks w) \<subseteq> set (sv_tasks w')"
    using assms(1,2) by (simp_all add: others_def wants_running_iff)
  with assms(3) show ?thesis by (cases "process_of w q") (auto simp: supervised_plugin_def)
qed

lemma others_quiet: "others sk plugin w w' \<Longrightarrow> quiet_stops w' = quiet_stops w"
  by (simp add: others_def quiet_stops_def)

lemma supervised_watched: "process_of w plugin = Some p \<Longrightarrow> Watch plugin r n \<in> set (sv_tasks w) \<Longrightarrow> mp_handle r = mp_handle p \<Longrightarrow>
    supervised_plugin sk w plugin"
  by (force simp: supervised_plugin_def)

lemma supervised_retried: "process_of w plugin = None \<Longrightarrow> Retry plugin \<in> set (sv_tasks w) \<Longrightarrow> supervised_plugin sk w plugin"
  by (simp add: supervised_plugin_def)

lemma supervised_unwanted:
  "process_of w plugin = None \<Longrightarrow> (\<And>v. current_in (sv_states w) plugin = Some v \<Longrightarrow> vn_state v \<noteq> ModeRunning) \<Longrightarrow> supervised_plugin sk w plugin"
  by (auto simp: supervised_plugin_def wants_running_iff)

subsection \<open>The handlers\<close>

lemma stop_quiet: "stop_act p w = (r, w') \<Longrightarrow> quiet_stops w \<Longrightarrow> r = Inr ()"
  by (auto simp: stop_act_def next_outside_def quiet_stops_def quiet_stop_def stop_process_def split: prod.splits if_splits)

lemma detach_quiet:
  assumes "detach_and_stop plugin w = (r, w')" and "quiet_stops w"
  shows "r = Inr () \<and> process_of w' plugin = None \<and> others sk plugin w w' \<and> sv_states w' = sv_states w"
proof (cases "process_of w plugin")
  case None
  with assms show ?thesis by (auto simp: detach_and_stop_def)
next
  case (Some p)
  obtain r1 w1 where s: "stop_act p (set_process plugin None w) = (r1, w1)" by force
  have "r1 = Inr ()" by (rule stop_quiet [OF s]) (use assms(2) in \<open>simp add: quiet_stops_def\<close>)
  with assms Some s have out: "r = Inr ()" "w' = clear_capabilities p w1" by (auto simp: detach_and_stop_def)
  have "calm (set_process plugin None w) w'" using effectD [OF calm_stop s] out(2) by simp
  then have "others sk plugin (set_process plugin None w) w'" "process_of w' plugin = None" "sv_states w' = sv_states w"
    by (auto intro: calm_others simp: calm_process) (simp add: calm_def)
  moreover have "others sk plugin w (set_process plugin None w)" by simp
  ultimately show ?thesis using others_trans out(1) by metis
qed

lemma on_states_others:
  assumes "on_states f w = (r, w')"
    and "\<And>fault out store'. f fault (sv_states w) = (out, store') \<Longrightarrow>
       (plugin_inv (sk_plugin sk) (sv_states w) \<longrightarrow> plugin_inv (sk_plugin sk) store') \<and>
       (\<forall>q. q \<noteq> plugin \<longrightarrow> current_in store' q = current_in (sv_states w) q)"
  obtains fault out where "f fault (sv_states w) = (out, sv_states w')" "r = map_sum StateError (\<lambda>x. x) out" "others sk plugin w w'"
    "sv_tasks w' = sv_tasks w" "process_of w' plugin = process_of w plugin"
proof -
  obtain od w1 where o: "next_outside w = (od, w1)" by force
  obtain out store' where f: "f (od_write_fault od) (sv_states w) = (out, store')" by force
  have w1: "calm w w1" by (rule calm_next [OF o])
  with assms(1) o f have w': "r = map_sum StateError (\<lambda>x. x) out" "w' = w1\<lparr>sv_states := store'\<rparr>"
    by (auto simp: on_states_def calm_def)
  have p: "process_of w' q = process_of w q" for q using w1 w'(2) by (simp add: process_of_def actor_of_def calm_def)
  have "others sk plugin w w'" using assms(2) [OF f] w1 w'(2) p by (simp add: others_def calm_def)
  with that [OF _ w'(1)] f w'(2) p w1 show ?thesis by (auto simp: calm_def)
qed

lemma rollback_supervised:
  assumes "process_of w plugin = None" and "\<And>v. current_in (sv_states w) plugin = Some v \<Longrightarrow> previous = Some v"
  shows "others sk plugin w (rollback sk put plugin previous w) \<and> supervised_plugin sk (rollback sk put plugin previous w) plugin"
proof (cases previous)
  case None
  with assms show ?thesis by (auto simp: rollback_def intro: supervised_unwanted)
next
  case (Some v)
  show ?thesis
  proof (cases "vn_state v = ModeRunning")
    case False
    have c: "calm w (rollback sk put plugin previous w)"
      using Some False by (simp add: rollback_def calm_logged calm_emit_revision)
    have "supervised_plugin sk w plugin" using assms Some False by (intro supervised_unwanted) auto
    with c show ?thesis by (simp add: calm_others calm_supervised)
  next
    case True
    obtain r w1 where s: "start_revision sk plugin v w = (r, w1)" by force
    note c = effectD [OF calm_start_revision s]
    show ?thesis
    proof (cases r)
      case (Inl e)
      let ?w2 = "emit_failed_revision sk put plugin v (snd (current_or_none sk plugin w1)) ''previous plugin state restoration failed'' w1"
      have w': "rollback sk put plugin previous w = add_task (Retry plugin) ?w2" using Some True s Inl by (simp add: rollback_def)
      have c2: "calm w ?w2" using c calm_emit_failed calm_trans by blast
      show ?thesis unfolding w'
        using assms(1) others_tasks(1) [OF calm_others [OF c2]] by (auto intro: supervised_retried simp: calm_process [OF c2])
    next
      case (Inr p)
      let ?w2 = "watch plugin p (set_process plugin (Some p) w1)"
      have w': "calm ?w2 (rollback sk put plugin previous w)"
        using Some True s Inr by (simp add: rollback_def Let_def calm_logged calm_emit_revision)
      have "others sk plugin w ?w2" by (rule others_tasks(2)) (simp add: calm_others [OF c])
      moreover have "supervised_plugin sk ?w2 plugin" by (auto intro: supervised_watched)
      ultimately show ?thesis using calm_others [OF w', of sk plugin] calm_supervised [OF w'] others_trans by blast
    qed
  qed
qed

lemma abandon_supervised:
  assumes run: "abandon_candidate sk put d previous p message answer w = (x, w')" and quiet: "quiet_stops w"
    and none: "process_of w (de_plugin_id d) = None" and prev: "\<And>v. current_in (sv_states w) (de_plugin_id d) = Some v \<Longrightarrow> previous = Some v"
  shows "others sk (de_plugin_id d) w w' \<and> supervised_plugin sk w' (de_plugin_id d)"
proof -
  obtain r w1 where s: "stop_act p w = (r, w1)" by force
  with stop_quiet quiet have "r = Inr ()" by blast
  with run s have w': "w' = rollback sk put (de_plugin_id d) previous w1" by (simp add: abandon_candidate_def handle_act_def)
  note c = effectD [OF calm_stop s]
  have "others sk (de_plugin_id d) w1 w' \<and> supervised_plugin sk w' (de_plugin_id d)"
    unfolding w' by (rule rollback_supervised) (use none prev c in \<open>simp_all add: calm_process calm_current\<close>)
  with calm_others [OF c] others_trans show ?thesis by blast
qed

lemma commit_act_result:
  assumes run: "on_states (\<lambda>fault. commit (sk_plugin sk) fault d) w = (r, w')"
    and ok: "plugin_sdk_ok (sk_plugin sk)" and inv: "plugin_inv (sk_plugin sk) (sv_states w)"
  shows "others sk (de_plugin_id d) w w' \<and> process_of w' (de_plugin_id d) = process_of w (de_plugin_id d) \<and>
    (case r of
       Inl e \<Rightarrow> current_in (sv_states w') = current_in (sv_states w)
     | Inr v \<Rightarrow> v = revision_of d \<and> current_in (sv_states w') (de_plugin_id d) = Some (revision_of d))"
proof -
  have frame: "(plugin_inv (sk_plugin sk) (sv_states w) \<longrightarrow> plugin_inv (sk_plugin sk) store') \<and>
       (\<forall>q. q \<noteq> de_plugin_id d \<longrightarrow> current_in store' q = current_in (sv_states w) q)"
    if c: "commit (sk_plugin sk) fault d (sv_states w) = (out, store')" for fault out store'
    using commit_step [OF c ok inv] commit_current [OF c ok inv] by (cases out) auto
  obtain fault out where c: "commit (sk_plugin sk) fault d (sv_states w) = (out, sv_states w')" "r = map_sum StateError (\<lambda>x. x) out"
    "others sk (de_plugin_id d) w w'" "process_of w' (de_plugin_id d) = process_of w (de_plugin_id d)"
    by (rule on_states_others [OF run frame])
  with commit_current [OF c(1) ok inv] show ?thesis by (cases out) auto
qed

lemma commit_candidate_supervised:
  assumes run: "commit_candidate sk put d previous candidate w = (x, w')" and quiet: "quiet_stops w"
    and ok: "plugin_sdk_ok (sk_plugin sk)" and inv: "plugin_inv (sk_plugin sk) (sv_states w)"
    and none: "process_of w (de_plugin_id d) = None" and prev: "\<And>v. current_in (sv_states w) (de_plugin_id d) = Some v \<Longrightarrow> previous = Some v"
    and stopped: "candidate = None \<Longrightarrow> de_state d \<noteq> ModeRunning"
  shows "others sk (de_plugin_id d) w w' \<and> supervised_plugin sk w' (de_plugin_id d)"
  using run unfolding commit_candidate_def
proof (cases rule: handle_act_elim)
  case (failed e w1)
  note c = commit_act_result [OF failed(1) ok inv]
  have p: "\<And>v. current_in (sv_states w1) (de_plugin_id d) = Some v \<Longrightarrow> previous = Some v" "process_of w1 (de_plugin_id d) = None"
    using c none prev by auto
  have q: "quiet_stops w1" using c quiet others_quiet by blast
  have "others sk (de_plugin_id d) w1 w' \<and> supervised_plugin sk w' (de_plugin_id d)"
  proof (cases candidate)
    case None
    with failed(2) rollback_supervised [OF p(2,1)] show ?thesis by auto
  next
    case (Some m)
    with failed(2) show ?thesis using abandon_supervised [OF _ q p(2,1)] by simp
  qed
  with c others_trans show ?thesis by blast
next
  case (continued committed w1)
  note c = commit_act_result [OF continued(1) ok inv]
  define w2 where "w2 = (case candidate of None \<Rightarrow> w1
      | Some p \<Rightarrow> watch (de_plugin_id d) (p\<lparr>mp_ready := True\<rparr>) (set_streak (de_plugin_id d) 0
           (set_capabilities (de_plugin_id d) (mp_capabilities p) (set_process (de_plugin_id d) (Some (p\<lparr>mp_ready := True\<rparr>)) w1))))"
  have rest: "handle_act (emit_revision sk put (de_plugin_id d) committed 0) (\<lambda>_ w. (unavailable sk ''queue plugin status event'', w))
               (\<lambda>_ w. (plugin_success sk d, prune_act (de_plugin_id d) w)) w2 = (x, w')"
    using continued(2) by (cases candidate) (simp_all add: w2_def Let_def)
  then have w': "calm w2 w'"
    by (cases rule: handle_act_elim) (auto dest: effectD [OF calm_emit_revision] intro: calm_trans calm_prune)
  have "others sk (de_plugin_id d) w w2"
    using c by (cases candidate) (auto simp: w2_def intro: others_tasks)
  moreover have "supervised_plugin sk w2 (de_plugin_id d)"
  proof (cases candidate)
    case None
    with c none stopped show ?thesis by (auto simp: w2_def intro: supervised_unwanted)
  next
    case (Some m)
    then show ?thesis by (auto simp: w2_def intro: supervised_watched)
  qed
  ultimately show ?thesis using w' calm_others calm_supervised others_trans by blast
qed

lemma run_candidate_supervised:
  assumes run: "run_candidate sk put d previous p w = (x, w')" and quiet: "quiet_stops w"
    and ok: "plugin_sdk_ok (sk_plugin sk)" and inv: "plugin_inv (sk_plugin sk) (sv_states w)"
    and none: "process_of w (de_plugin_id d) = None" and prev: "\<And>v. current_in (sv_states w) (de_plugin_id d) = Some v \<Longrightarrow> previous = Some v"
  shows "others sk (de_plugin_id d) w w' \<and> supervised_plugin sk w' (de_plugin_id d)"
proof -
  have step: "others sk (de_plugin_id d) w w' \<and> supervised_plugin sk w' (de_plugin_id d)"
    if c: "calm w w1" and go: "commit_candidate sk put d previous candidate w1 = (x, w') \<and> (candidate = None \<longrightarrow> de_state d \<noteq> ModeRunning) \<or>
        abandon_candidate sk put d previous q message answer w1 = (x, w')" for w1 candidate q message answer
  proof -
    have w1: "quiet_stops w1" "plugin_inv (sk_plugin sk) (sv_states w1)" "process_of w1 (de_plugin_id d) = None"
      "\<And>v. current_in (sv_states w1) (de_plugin_id d) = Some v \<Longrightarrow> previous = Some v"
      using c quiet inv none prev by (simp_all add: calm_process) (simp_all add: calm_def quiet_stops_def)
    from go have "others sk (de_plugin_id d) w1 w' \<and> supervised_plugin sk w' (de_plugin_id d)"
      using commit_candidate_supervised [OF _ w1(1) ok w1(2,3,4)] abandon_supervised [OF _ w1(1,3,4)] by blast
    with calm_others [OF c] others_trans show ?thesis by blast
  qed
  show ?thesis
  proof (cases "de_state d = ModeRunning")
    case True
    obtain r q w1 where a: "apply_act sk d p w = (r, q, w1)" by (metis prod_cases3)
    then have "(\<exists>message answer. abandon_candidate sk put d previous q message answer w1 = (x, w')) \<or>
        commit_candidate sk put d previous (Some q) w1 = (x, w')"
      using run True by (auto simp: run_candidate_def split: sum.splits)
    with step [OF calm_apply [OF a]] show ?thesis by blast
  next
    case False
    show ?thesis
    proof (cases "de_state d = ModeStopped")
      case True
      obtain r w1 where s: "stop_act p w = (r, w1)" by force
      with stop_quiet quiet have "r = Inr ()" by blast
      with run True s have "commit_candidate sk put d previous None w1 = (x, w')" by (simp add: run_candidate_def handle_act_def)
      with step [OF effectD [OF calm_stop s]] False show ?thesis by blast
    next
      case other: False
      with run False have "commit_candidate sk put d previous (Some p) w = (x, w')" by (simp add: run_candidate_def)
      with step [OF calm_refl] show ?thesis by blast
    qed
  qed
qed

lemma reconcile_install_supervised:
  assumes run: "reconcile_install sk put d previous w = (x, w')" and quiet: "quiet_stops w"
    and ok: "plugin_sdk_ok (sk_plugin sk)" and inv: "plugin_inv (sk_plugin sk) (sv_states w)"
    and sup: "supervised_plugin sk w (de_plugin_id d)" and prev: "previous = current_in (sv_states w) (de_plugin_id d)"
  shows "others sk (de_plugin_id d) w w' \<and> supervised_plugin sk w' (de_plugin_id d)"
  using run unfolding reconcile_install_def
proof (cases rule: handle_act_elim)
  case (failed e w1)
  with effectD [OF calm_fetch failed(1)] sup show ?thesis by (auto simp: calm_others calm_supervised)
next
  case (continued path w1)
  note c1 = effectD [OF calm_fetch continued(1)]
  obtain r w2 where dt: "detach_and_stop (de_plugin_id d) w1 = (r, w2)" by force
  have "quiet_stops w1" using c1 quiet by (simp add: quiet_stops_def calm_def)
  note d2 = detach_quiet [OF dt this, of sk]
  have o2: "others sk (de_plugin_id d) w w2" using others_trans [OF calm_others [OF c1]] d2 by blast
  have w2: "process_of w2 (de_plugin_id d) = None" "quiet_stops w2" "plugin_inv (sk_plugin sk) (sv_states w2)"
    "current_in (sv_states w2) = current_in (sv_states w)"
    using d2 o2 quiet inv c1 others_quiet [OF o2] by (auto simp: calm_def)
  have un: "supervised_plugin sk w2 (de_plugin_id d)" if "de_artifact d = None"
  proof -
    from continued(1) that have False by (auto simp: fetch_act_def installer_fetch_def split: prod.splits)
    then show ?thesis ..
  qed
  have go: "(case de_artifact d of None \<Rightarrow> (\<lambda>w. (unavailable sk ''plugin artifact download or verification failed'', w))
     | Some a \<Rightarrow>
       handle_act (start_act sk (de_plugin_id d) (de_version d) a)
         (\<lambda>e w. (if e = ProcessError IdentityMismatch then invalid_argument sk ''plugin artifact identity validation failed''
                 else unavailable sk ''plugin process failed to start'', rollback sk put (de_plugin_id d) previous w)) (\<lambda>p.
       handle_act (validate_act sk d)
         (\<lambda>e. abandon_candidate sk put d previous p ''failed candidate process did not stop'' (refused_configuration sk e))
         (\<lambda>_. run_candidate sk put d previous p))) w2 = (x, w')"
    using continued(2) dt d2 by (simp add: handle_act_def)
  have "others sk (de_plugin_id d) w2 w' \<and> supervised_plugin sk w' (de_plugin_id d)"
  proof (cases "de_artifact d")
    case None
    with go un show ?thesis by simp
  next
    case (Some a)
    from go [unfolded Some option.case] show ?thesis
    proof (cases rule: handle_act_elim)
      case (failed e w3)
      note c3 = effectD [OF calm_start_act failed(1)]
      have "others sk (de_plugin_id d) w3 w' \<and> supervised_plugin sk w' (de_plugin_id d)"
        using failed(2) rollback_supervised [of w3 "de_plugin_id d" previous sk put] w2 prev c3
        by (auto simp: calm_process calm_current)
      with calm_others [OF c3] others_trans show ?thesis by blast
    next
      case (continued p w3)
      note c3 = effectD [OF calm_start_act continued(1)]
      obtain r4 w4 where v: "validate_act sk d w3 = (r4, w4)" by force
      have c4: "calm w2 w4" using c3 effectD [OF calm_validate v] calm_trans by blast
      have w4: "process_of w4 (de_plugin_id d) = None" "quiet_stops w4" "plugin_inv (sk_plugin sk) (sv_states w4)"
        "\<And>u. current_in (sv_states w4) (de_plugin_id d) = Some u \<Longrightarrow> previous = Some u"
        using w2 c4 prev by (simp_all add: calm_process) (simp_all add: calm_def quiet_stops_def)
      have "(\<exists>message answer. abandon_candidate sk put d previous p message answer w4 = (x, w')) \<or> run_candidate sk put d previous p w4 = (x, w')"
        using continued(2) v by (cases r4) (auto simp: handle_act_def)
      with abandon_supervised [OF _ w4(2,1,4)] run_candidate_supervised [OF _ w4(2) ok w4(3,1,4)] calm_others [OF c4] others_trans
      show ?thesis by metis
    qed
  qed
  with o2 others_trans show ?thesis by blast
qed

lemma reconcile_absent_supervised:
  assumes run: "reconcile_absent sk put d previous w = (x, w')" and quiet: "quiet_stops w"
    and ok: "plugin_sdk_ok (sk_plugin sk)" and inv: "plugin_inv (sk_plugin sk) (sv_states w)"
    and absent: "de_state d = ModeAbsent" and prev: "previous = current_in (sv_states w) (de_plugin_id d)"
  shows "others sk (de_plugin_id d) w w' \<and> supervised_plugin sk w' (de_plugin_id d)"
proof -
  obtain r w1 where dt: "detach_and_stop (de_plugin_id d) w = (r, w1)" by force
  note d1 = detach_quiet [OF dt quiet, of sk]
  have inv1: "plugin_inv (sk_plugin sk) (sv_states w1)" using d1 inv by simp
  obtain r2 w2 where c: "on_states (\<lambda>fault. commit (sk_plugin sk) fault d) w1 = (r2, w2)" by force
  note c2 = commit_act_result [OF c ok inv1]
  have "others sk (de_plugin_id d) w2 w' \<and> supervised_plugin sk w' (de_plugin_id d)"
  proof (cases r2)
    case (Inl e)
    with run dt d1 c have "w' = rollback sk put (de_plugin_id d) previous w2" by (simp add: reconcile_absent_def handle_act_def)
    with rollback_supervised [of w2 "de_plugin_id d" previous sk put] c2 d1 prev Inl show ?thesis by auto
  next
    case (Inr v)
    with run dt d1 c have go: "handle_act (remove_plugin_data (de_plugin_id d))
       (\<lambda>_ w. (internal_failure sk ''remove plugin private state'',
                emit_failed sk put (de_plugin_id d) (de_generation d) [] [] 0 ''plugin private state removal failed'' w)) (\<lambda>_.
       handle_act (emit_revision sk put (de_plugin_id d) v 0) (\<lambda>_ w. (unavailable sk ''queue plugin status event'', w))
         (\<lambda>_ w. (plugin_success sk d, w))) w2 = (x, w')"
      by (simp add: reconcile_absent_def handle_act_def)
    then have "calm w2 w'"
    proof (cases rule: handle_act_elim)
      case (failed e w3)
      then show ?thesis using effectD [OF calm_remove_data failed(1)] calm_emit_failed calm_trans by blast
    next
      case (continued y w3)
      then show ?thesis using effectD [OF calm_remove_data continued(1)]
        by (auto elim!: handle_act_elim dest: effectD [OF calm_emit_revision] intro: calm_trans)
    qed
    moreover have "supervised_plugin sk w2 (de_plugin_id d)" using c2 d1 Inr absent by (auto intro: supervised_unwanted)
    ultimately show ?thesis by (simp add: calm_others calm_supervised)
  qed
  with d1 c2 others_trans show ?thesis by blast
qed

lemma ensure_current_supervised:
  assumes run: "ensure_current sk d previous w = (r, w')" and quiet: "quiet_stops w"
    and sup: "supervised_plugin sk w (de_plugin_id d)" and prev: "previous = current_in (sv_states w) (de_plugin_id d)"
  shows "others sk (de_plugin_id d) w w' \<and> supervised_plugin sk w' (de_plugin_id d)"
proof (cases previous)
  case None
  with run sup show ?thesis by (simp add: ensure_current_def fail_act_def)
next
  case (Some v)
  let ?plugin = "de_plugin_id d"
  from run [unfolded ensure_current_def Some option.case] show ?thesis
  proof (cases rule: bind_act_elim)
    case (stopped e)
    then have "calm w w'" by (auto simp: return_act_def split: if_splits elim!: bind_act_elim dest: effectD [OF calm_fetch])
    with sup show ?thesis by (simp add: calm_others calm_supervised)
  next
    case (continued u w1)
    have c: "calm w w1" using continued(1) by (auto simp: return_act_def split: if_splits elim!: bind_act_elim dest: effectD [OF calm_fetch])
    have w1: "quiet_stops w1" "supervised_plugin sk w1 ?plugin" "current_in (sv_states w1) ?plugin = Some v"
      using c quiet sup prev Some by (simp_all add: calm_supervised) (simp_all add: calm_def quiet_stops_def)
    have "others sk ?plugin w1 w' \<and> supervised_plugin sk w' ?plugin"
    proof (cases "vn_state v")
      case ModeRunning
      show ?thesis
      proof (cases "case process_of w1 ?plugin of None \<Rightarrow> False | Some p \<Rightarrow> \<not> exited (sv_os w1) p")
        case True
        with continued(2) ModeRunning w1(2) show ?thesis by simp
      next
        case False
        with continued(2) ModeRunning have "bind_act (start_revision sk ?plugin v) (\<lambda>p w.
            (Inr (), watch ?plugin p (set_process ?plugin (Some p) w))) w1 = (r, w')" by simp
        then show ?thesis
        proof (cases rule: bind_act_elim)
          case (stopped e)
          with effectD [OF calm_start_revision stopped(1)] w1(2) show ?thesis by (simp add: calm_others calm_supervised)
        next
          case (continued p w2)
          then have w': "w' = watch ?plugin p (set_process ?plugin (Some p) w2)" by simp
          have "others sk ?plugin w1 w'"
            unfolding w' by (rule others_tasks(2)) (simp add: calm_others [OF effectD [OF calm_start_revision continued(1)]])
          with w' show ?thesis by (auto intro: supervised_watched)
        qed
      qed
    next
      case ModeStopped
      with continued(2) have dt: "detach_and_stop ?plugin w1 = (r, w')" by simp
      from detach_quiet [OF dt w1(1), of sk] w1(3) ModeStopped show ?thesis by (auto intro: supervised_unwanted)
    next
      case ModeAbsent
      obtain r2 w2 where dt: "detach_and_stop ?plugin w1 = (r2, w2)" by force
      note d2 = detach_quiet [OF dt w1(1), of sk]
      with continued(2) ModeAbsent dt have "remove_plugin_data ?plugin w2 = (r, w')" by (simp add: bind_act_def)
      note c2 = effectD [OF calm_remove_data this]
      have "supervised_plugin sk w2 ?plugin" using d2 w1(3) ModeAbsent by (auto intro: supervised_unwanted)
      with d2 calm_others [OF c2] calm_supervised [OF c2] others_trans show ?thesis by blast
    next
      case (ModeOther m)
      with continued(2) w1(2) show ?thesis by (simp add: fail_act_def)
    qed
    with calm_others [OF c] others_trans show ?thesis by blast
  qed
qed

lemma reconcile_current_supervised:
  assumes run: "reconcile_current sk put d previous w = (x, w')" and quiet: "quiet_stops w"
    and sup: "supervised_plugin sk w (de_plugin_id d)" and prev: "previous = current_in (sv_states w) (de_plugin_id d)"
  shows "others sk (de_plugin_id d) w w' \<and> supervised_plugin sk w' (de_plugin_id d)"
proof -
  obtain r w1 where e: "ensure_current sk d previous w = (r, w1)" by force
  have "calm w1 w'"
  proof (cases r)
    case (Inl e')
    with run e show ?thesis by (simp add: reconcile_current_def handle_act_def)
  next
    case (Inr u)
    with run e show ?thesis
      by (cases previous) (auto simp: reconcile_current_def handle_act_def Let_def split: sum.splits prod.splits dest: effectD [OF calm_emit_revision])
  qed
  with ensure_current_supervised [OF e quiet sup prev] show ?thesis
    using calm_others calm_supervised others_trans by blast
qed

lemma reconcile_actor_supervised:
  assumes run: "reconcile_actor sk put c w = (x, w')" and quiet: "quiet_stops w"
    and ok: "plugin_sdk_ok (sk_plugin sk)" and inv: "plugin_inv (sk_plugin sk) (sv_states w)"
    and sup: "supervised_plugin sk w (rc_plugin_id c)"
  shows "others sk (rc_plugin_id c) w w' \<and> supervised_plugin sk w' (rc_plugin_id c)"
proof -
  have frame: "(plugin_inv (sk_plugin sk) (sv_states w) \<longrightarrow> plugin_inv (sk_plugin sk) store') \<and>
       (\<forall>q. q \<noteq> rc_plugin_id c \<longrightarrow> current_in store' q = current_in (sv_states w) q)"
    if p: "prepare (sk_plugin sk) fault c (sv_states w) = (out, store')" for fault out store'
    using prepare_step [OF p ok inv] prepare_current [OF p ok inv] by simp
  obtain r w1 where r: "on_states (\<lambda>fault. prepare (sk_plugin sk) fault c) w = (r, w1)" by force
  obtain fault out where p: "prepare (sk_plugin sk) fault c (sv_states w) = (out, sv_states w1)" "r = map_sum StateError (\<lambda>x. x) out"
    "others sk (rc_plugin_id c) w w1" "sv_tasks w1 = sv_tasks w" "process_of w1 (rc_plugin_id c) = process_of w (rc_plugin_id c)"
    by (rule on_states_others [OF r frame])
  note cur = prepare_current [OF p(1) ok inv]
  have sup1: "supervised_plugin sk w1 (rc_plugin_id c)"
    using sup p(4,5) cur by (cases "process_of w (rc_plugin_id c)") (simp_all add: supervised_plugin_def wants_running_iff)
  show ?thesis
  proof (cases out)
    case (Inl e)
    with run r p(2) have "w' = w1" by (simp add: reconcile_actor_def handle_act_def)
    with p(3) sup1 show ?thesis by simp
  next
    case (Inr y)
    then obtain d previous b where y: "out = Inr (d, previous, b)" by (cases y) auto
    with cur have d: "de_plugin_id d = rc_plugin_id c" "previous = current_in (sv_states w1) (de_plugin_id d)" by auto
    let ?w2 = "prune_act (de_plugin_id d) w1"
    have c2: "calm w1 ?w2" by (rule calm_prune)
    have w2: "quiet_stops ?w2" "plugin_inv (sk_plugin sk) (sv_states ?w2)" "supervised_plugin sk ?w2 (de_plugin_id d)"
      "previous = current_in (sv_states ?w2) (de_plugin_id d)"
      using quiet others_quiet [OF p(3)] c2 p(3) inv sup1 d by (simp_all add: calm_supervised others_def) (simp_all add: calm_def quiet_stops_def)
    have "(b \<longrightarrow> reconcile_current sk put d previous ?w2 = (x, w')) \<and>
        (\<not> b \<longrightarrow> de_state d = ModeAbsent \<longrightarrow> reconcile_absent sk put d previous ?w2 = (x, w')) \<and>
        (\<not> b \<longrightarrow> de_state d \<noteq> ModeAbsent \<longrightarrow> reconcile_install sk put d previous ?w2 = (x, w'))"
      using run r p(2) y by (cases b; cases "de_state d = ModeAbsent") (simp_all add: reconcile_actor_def handle_act_def Let_def)
    then have "others sk (de_plugin_id d) ?w2 w' \<and> supervised_plugin sk w' (de_plugin_id d)"
      using reconcile_current_supervised [OF _ w2(1,3,4)] reconcile_absent_supervised [OF _ w2(1) ok w2(2) _ w2(4)]
        reconcile_install_supervised [OF _ w2(1) ok w2(2,3,4)] by blast
    with calm_others [OF c2] p(3) d(1) others_trans show ?thesis by metis
  qed
qed

subsection \<open>The invariant\<close>

definition supervised :: "supervisor_sdk \<Rightarrow> 's supervisor \<Rightarrow> bool" where
  "supervised sk w \<longleftrightarrow>
     quiet_stops w \<and> plugin_inv (sk_plugin sk) (sv_states w) \<and>
     (\<not> sv_started w \<longrightarrow> \<not> sv_stopping w \<and> sv_tasks w = [] \<and> (\<forall>q. process_of w q = None)) \<and>
     (is_running w \<longrightarrow> (\<forall>q. supervised_plugin sk w q))"

lemma supervised_others:
  assumes "supervised sk w" and "others sk plugin w w'" and "is_running w \<Longrightarrow> supervised_plugin sk w' plugin" and "sv_started w"
  shows "supervised sk w'"
proof -
  have "is_running w' \<Longrightarrow> supervised_plugin sk w' q" for q
  proof -
    assume "is_running w'"
    then have "is_running w" using assms(2) by (simp add: others_def is_running_def)
    with assms(1,3) have "supervised_plugin sk w q" "supervised_plugin sk w' plugin" by (simp_all add: supervised_def)
    with others_supervised [OF assms(2)] show "supervised_plugin sk w' q" by (cases "q = plugin") simp_all
  qed
  with assms others_quiet [OF assms(2)] show ?thesis by (simp add: supervised_def others_def)
qed

lemma ensure_actor_supervised: "supervised sk (ensure_actor plugin w) = supervised sk w"
  by (simp add: supervised_def quiet_stops_def is_running_def supervised_plugin_def wants_running_iff cong: option.case_cong)

lemma command_supervised:
  assumes run: "supervisor_execute sk put deadline k cmd w = (x, w')" and ok: "plugin_sdk_ok (sk_plugin sk)" and sup: "supervised sk w"
  shows "supervised sk w'"
proof -
  have calm_sup: "supervised sk w'" if "calm (ensure_actor plugin w) w'" for plugin
  proof -
    have "supervised sk (ensure_actor plugin w)" using sup ensure_actor_supervised by blast
    moreover have "supervised sk w' = supervised sk (ensure_actor plugin w)"
      using that by (simp add: supervised_def calm_supervised calm_process) (simp add: calm_def quiet_stops_def is_running_def)
    ultimately show ?thesis by simp
  qed
  show ?thesis
  proof (cases "ac_kind cmd = sk_reconcile_kind sk")
    case True
    show ?thesis
    proof (cases "\<exists>c. sk_decode_reconcile sk cmd = Some c \<and> is_running w")
      case False
      with run True sup show ?thesis by (auto simp: supervisor_execute_def execute_reconcile_def split: option.splits)
    next
      case yes: True
      then obtain c where c: "sk_decode_reconcile sk cmd = Some c" "is_running w" by blast
      let ?w1 = "ensure_actor (rc_plugin_id c) w"
      have r: "reconcile_actor sk put c ?w1 = (x, w')"
        using run True c by (simp add: supervisor_execute_def execute_reconcile_def)
      have s1: "supervised sk ?w1" using sup ensure_actor_supervised by blast
      have run1: "is_running ?w1" "sv_started ?w1" using c(2) by (simp_all add: is_running_def)
      with s1 have "supervised_plugin sk ?w1 (rc_plugin_id c)" "quiet_stops ?w1" "plugin_inv (sk_plugin sk) (sv_states ?w1)"
        by (simp_all add: supervised_def)
      from reconcile_actor_supervised [OF r this(2) ok this(3,1)] show ?thesis
        using supervised_others [OF s1 _ _ run1(2)] by blast
    qed
  next
    case False
    show ?thesis
    proof (cases "ac_kind cmd = sk_diagnose_kind sk")
      case True
      with run False have "execute_diagnose sk cmd w = (x, w')" by (simp add: supervisor_execute_def)
      then have "w' = w \<or> (\<exists>plugin. calm (ensure_actor plugin w) w')"
        by (auto simp: execute_diagnose_def Let_def split: option.splits if_splits prod.splits sum.splits dest: calm_next intro: calm_refl)
      with sup calm_sup show ?thesis by blast
    next
      case other: False
      with run False sup show ?thesis by (simp add: supervisor_execute_def unsupported_executor_def)
    qed
  qed
qed

subsubsection \<open>Starting\<close>

lemma recover_supervised:
  assumes none: "process_of w (pg_plugin_id s) = None" and cur: "pg_current s = current_in (sv_states w) (pg_plugin_id s)"
  shows "others sk (pg_plugin_id s) w (recover_plugin sk put s w) \<and> supervised_plugin sk (recover_plugin sk put s w) (pg_plugin_id s) \<and>
    sv_states (recover_plugin sk put s w) = sv_states w"
proof -
  let ?plugin = "pg_plugin_id s" and ?w = "ensure_actor (pg_plugin_id s) w" and ?w' = "recover_plugin sk put s w"
  have o: "others sk ?plugin w ?w" by simp
  have calm_case: "others sk ?plugin w ?w' \<and> supervised_plugin sk ?w' ?plugin \<and> sv_states ?w' = sv_states w"
    if "calm ?w ?w'" "\<And>v. pg_current s = Some v \<Longrightarrow> vn_state v \<noteq> ModeRunning"
  proof -
    have "supervised_plugin sk ?w ?plugin" using none cur that(2) by (intro supervised_unwanted) auto
    moreover have "sv_states ?w' = sv_states w" using that(1) by (simp add: calm_def)
    ultimately show ?thesis using calm_others [OF that(1)] calm_supervised [OF that(1)] o others_trans by blast
  qed
  show ?thesis
  proof (cases "pg_current s")
    case None
    with calm_case show ?thesis by (simp add: recover_plugin_def Let_def)
  next
    case (Some v)
    show ?thesis
    proof (cases "vn_state v")
      case ModeRunning
      obtain r w1 where st: "start_revision sk ?plugin v ?w = (r, w1)" by force
      note c1 = effectD [OF calm_start_revision st]
      show ?thesis
      proof (cases r)
        case (Inl e)
        let ?w2 = "emit_failed_revision sk put ?plugin v (pg_restart_count s) ''plugin recovery failed'' w1"
        have c2: "calm ?w ?w2" using c1 calm_emit_failed calm_trans by blast
        have w': "?w' = add_task (Retry ?plugin) ?w2" using Some ModeRunning st Inl by (simp add: recover_plugin_def Let_def)
        have "others sk ?plugin ?w ?w'" unfolding w' by (rule others_tasks(1) [OF calm_others [OF c2]])
        moreover have "supervised_plugin sk ?w' ?plugin" unfolding w' using none by (intro supervised_retried) (simp_all add: calm_process [OF c2])
        moreover have "sv_states ?w' = sv_states w" unfolding w' using c2 by (simp add: calm_def)
        ultimately show ?thesis using o others_trans by blast
      next
        case (Inr p)
        let ?w2 = "logged (emit_revision sk put ?plugin v (pg_restart_count s)) (set_process ?plugin (Some p) w1)"
        have c2: "calm (set_process ?plugin (Some p) w1) ?w2" by (rule calm_logged [OF calm_emit_revision])
        have w': "?w' = watch ?plugin p ?w2" using Some ModeRunning st Inr by (simp add: recover_plugin_def Let_def)
        have "others sk ?plugin ?w (set_process ?plugin (Some p) w1)" using calm_others [OF c1] by simp
        then have "others sk ?plugin ?w ?w'" unfolding w' using calm_others [OF c2] others_trans by (intro others_tasks(2)) blast
        moreover have "supervised_plugin sk ?w' ?plugin"
          unfolding w' by (rule supervised_watched [of _ _ p p 0]) (simp_all add: calm_process [OF c2])
        moreover have "sv_states ?w' = sv_states w" unfolding w' using c1 c2 by (simp add: calm_def)
        ultimately show ?thesis using o others_trans by blast
      qed
    next
      case ModeStopped
      obtain r w1 where v: "verify_revision_artifact sk ?plugin v ?w = (r, w1)" by force
      have "calm w1 ?w'"
        using Some ModeStopped v by (cases r) (simp_all add: recover_plugin_def Let_def calm_emit_failed calm_logged calm_emit_revision)
      with effectD [OF calm_verify v] have "calm ?w ?w'" using calm_trans by blast
      with calm_case Some ModeStopped show ?thesis by simp
    next
      case ModeAbsent
      with Some have "calm ?w ?w'" by (simp add: recover_plugin_def Let_def calm_logged calm_emit_revision)
      with calm_case Some ModeAbsent show ?thesis by simp
    next
      case (ModeOther m)
      with Some have "calm ?w ?w'" by (simp add: recover_plugin_def Let_def)
      with calm_case Some ModeOther show ?thesis by simp
    qed
  qed
qed

lemma recover_all_supervised:
  assumes "distinct (map pg_plugin_id ss)" and "\<And>s. s \<in> set ss \<Longrightarrow> pg_current s = current_in (sv_states w) (pg_plugin_id s)"
    and "\<And>q. q \<notin> done' \<Longrightarrow> process_of w q = None" and "\<And>q. q \<in> done' \<Longrightarrow> supervised_plugin sk w q"
    and "\<And>s. s \<in> set ss \<Longrightarrow> pg_plugin_id s \<notin> done'"
  shows "let w' = fold (recover_plugin sk put) ss w in
    (\<forall>q. q \<notin> done' \<union> set (map pg_plugin_id ss) \<longrightarrow> process_of w' q = None) \<and>
    (\<forall>q \<in> done' \<union> set (map pg_plugin_id ss). supervised_plugin sk w' q) \<and>
    sv_states w' = sv_states w \<and> sv_started w' = sv_started w \<and> sv_stopping w' = sv_stopping w \<and> sv_outside w' = sv_outside w"
  using assms
proof (induction ss arbitrary: w done')
  case Nil
  then show ?case by (simp add: Let_def)
next
  case (Cons s ss)
  let ?w1 = "recover_plugin sk put s w" and ?k = "pg_plugin_id s"
  have r: "others sk ?k w ?w1 \<and> supervised_plugin sk ?w1 ?k \<and> sv_states ?w1 = sv_states w"
    by (rule recover_supervised) (use Cons.prems(2,3,5) in auto)
  then have o: "others sk ?k w ?w1" and st: "sv_states ?w1 = sv_states w" by auto
  have flags: "sv_started ?w1 = sv_started w" "sv_stopping ?w1 = sv_stopping w" "sv_outside ?w1 = sv_outside w"
    and proc: "\<And>q. q \<noteq> ?k \<Longrightarrow> process_of ?w1 q = process_of w q"
    using o by (auto simp: others_def)
  let ?w' = "fold (recover_plugin sk put) ss ?w1"
  have "let w' = ?w' in
    (\<forall>q. q \<notin> insert ?k done' \<union> set (map pg_plugin_id ss) \<longrightarrow> process_of w' q = None) \<and>
    (\<forall>q \<in> insert ?k done' \<union> set (map pg_plugin_id ss). supervised_plugin sk w' q) \<and>
    sv_states w' = sv_states ?w1 \<and> sv_started w' = sv_started ?w1 \<and> sv_stopping w' = sv_stopping ?w1 \<and> sv_outside w' = sv_outside ?w1"
  proof (rule Cons.IH)
    show "distinct (map pg_plugin_id ss)" using Cons.prems(1) by simp
    show "\<And>t. t \<in> set ss \<Longrightarrow> pg_current t = current_in (sv_states ?w1) (pg_plugin_id t)" using Cons.prems(2) st by simp
    show "\<And>q. q \<notin> insert ?k done' \<Longrightarrow> process_of ?w1 q = None" using Cons.prems(3) proc by simp
    show "\<And>q. q \<in> insert ?k done' \<Longrightarrow> supervised_plugin sk ?w1 q"
    proof -
      fix q assume "q \<in> insert ?k done'"
      with r Cons.prems(4) [of q] others_supervised [OF o] show "supervised_plugin sk ?w1 q" by (cases "q = ?k") auto
    qed
    show "\<And>t. t \<in> set ss \<Longrightarrow> pg_plugin_id t \<notin> insert ?k done'" using Cons.prems(1,5) by (auto simp: image_iff)
  qed
  then show ?case using flags st by (simp add: Let_def)
qed

lemma list_states_facts:
  assumes "plugin_inv sdk states"
  shows "distinct (map pg_plugin_id (list_states states))"
    and "s \<in> set (list_states states) \<longleftrightarrow> bucket_get (fs_records states) (pg_plugin_id s) = Some s"
proof -
  have ok: "bucket_ok (fs_records states)" and name: "\<And>k r. bucket_get (fs_records states) k = Some r \<Longrightarrow> pg_plugin_id r = k"
    using assms file_store_invD(1) [OF assms] by (auto simp: file_store_inv_def)
  have keys: "map fst (fs_records states) = map pg_plugin_id (map snd (fs_records states))"
    using name get_eq_Some_iff [OF ok] by (auto simp: comp_def)
  have "distinct (map pg_plugin_id (map snd (fs_records states)))" using bucket_ok_distinct [OF ok] unfolding keys .
  moreover have "mset (map pg_plugin_id (list_states states)) = mset (map pg_plugin_id (map snd (fs_records states)))"
    unfolding list_states_def mset_map by simp
  ultimately show "distinct (map pg_plugin_id (list_states states))" by (metis mset_eq_imp_distinct_iff)
  show "s \<in> set (list_states states) \<longleftrightarrow> bucket_get (fs_records states) (pg_plugin_id s) = Some s"
    using name get_eq_Some_iff [OF ok] by (force simp: list_states_def)
qed

lemma start_runs:
  assumes run: "supervisor_start sk put w = (Inr (), w')" and sup: "supervised sk w"
  shows "supervised sk w' \<and> is_running w'"
proof -
  have False: "\<not> sv_started w" using run by (auto simp: supervisor_start_def split: if_splits)
  let ?w0 = "w\<lparr>sv_started := True, sv_stopping := False\<rparr>" and ?ss = "list_states (sv_states w)"
  have w': "w' = fold (recover_plugin sk put) ?ss ?w0" using run False by (simp add: supervisor_start_def)
  have inv: "plugin_inv (sk_plugin sk) (sv_states w)" and idle: "\<And>q. process_of w q = None" "quiet_stops w"
    using sup False by (auto simp: supervised_def)
  note facts = list_states_facts [OF inv]
  have "let w' = fold (recover_plugin sk put) ?ss ?w0 in
    (\<forall>q. q \<notin> {} \<union> set (map pg_plugin_id ?ss) \<longrightarrow> process_of w' q = None) \<and>
    (\<forall>q \<in> {} \<union> set (map pg_plugin_id ?ss). supervised_plugin sk w' q) \<and>
    sv_states w' = sv_states ?w0 \<and> sv_started w' = sv_started ?w0 \<and> sv_stopping w' = sv_stopping ?w0 \<and> sv_outside w' = sv_outside ?w0"
  proof (rule recover_all_supervised)
    show "distinct (map pg_plugin_id ?ss)" by (rule facts(1))
    show "\<And>s. s \<in> set ?ss \<Longrightarrow> pg_current s = current_in (sv_states ?w0) (pg_plugin_id s)" using facts(2) by (auto simp: current_in_def)
    show "\<And>q. q \<notin> {} \<Longrightarrow> process_of ?w0 q = None" using idle by (simp add: process_of_def actor_of_def)
  qed simp_all
  then have all: "\<And>q. q \<notin> set (map pg_plugin_id ?ss) \<Longrightarrow> process_of w' q = None" "\<And>q. q \<in> set (map pg_plugin_id ?ss) \<Longrightarrow> supervised_plugin sk w' q"
    "sv_states w' = sv_states w" "sv_started w'" "\<not> sv_stopping w'" "sv_outside w' = sv_outside w"
    unfolding w' Let_def by auto
  have "supervised_plugin sk w' q" for q
  proof (cases "q \<in> set (map pg_plugin_id ?ss)")
    case True
    with all(2) show ?thesis .
  next
    case none: False
    have "current_in (sv_states w') q = None"
    proof (rule ccontr)
      assume "current_in (sv_states w') q \<noteq> None"
      then obtain s where s: "bucket_get (fs_records (sv_states w)) q = Some s" using all(3) by (auto simp: current_in_def split: option.splits)
      then have "pg_plugin_id s = q" by (rule file_store_invD(1) [OF inv])
      with s facts(2) have "s \<in> set ?ss" by simp
      with \<open>pg_plugin_id s = q\<close> none show False by force
    qed
    with all(1) [OF none] show ?thesis by (auto intro: supervised_unwanted)
  qed
  with inv idle(2) all(3-6) show ?thesis by (simp add: supervised_def quiet_stops_def is_running_def)
qed

lemma start_supervised: "supervisor_start sk put w = (r, w') \<Longrightarrow> supervised sk w \<Longrightarrow> supervised sk w'"
  using start_runs [of sk put w w'] by (cases "sv_started w") (auto simp: supervisor_start_def)

subsubsection \<open>Closing\<close>

lemma close_supervised:
  assumes "close_begin w = (plugins, w')" and "supervised sk w"
  shows "supervised sk w'"
  using assms by (auto simp: close_begin_def supervised_def is_running_def quiet_stops_def process_of_def actor_of_def split: if_splits)

lemma close_actor_supervised:
  assumes run: "close_actor plugin w = (r, w')" and stopping: "sv_stopping w" and sup: "supervised sk w"
  shows "supervised sk w'"
proof -
  have c: "calm (set_process plugin None w) w'"
    using run by (auto simp: close_actor_def split: option.splits dest: effectD [OF calm_stop])
  have "others sk plugin w w'" by (rule others_trans [OF _ calm_others [OF c]]) simp
  moreover have "sv_started w" using sup stopping by (auto simp: supervised_def)
  ultimately show ?thesis using supervised_others [OF sup] stopping by (simp add: is_running_def)
qed

subsubsection \<open>The goroutines\<close>

lemma tasks_replaced:
  assumes "i < length (sv_tasks w)" and "sv_tasks w' = sv_tasks w @ new"
  shows "t \<in> set (sv_tasks w) \<Longrightarrow> t \<noteq> sv_tasks w ! i \<Longrightarrow> t \<in> set (sv_tasks (replace_task i ts w'))"
    and "t \<in> set ts \<Longrightarrow> t \<in> set (sv_tasks (replace_task i ts w'))"
proof -
  show "t \<in> set (sv_tasks (replace_task i ts w'))" if t: "t \<in> set (sv_tasks w)" "t \<noteq> sv_tasks w ! i"
  proof -
    have "sv_tasks w = take i (sv_tasks w) @ sv_tasks w ! i # drop (Suc i) (sv_tasks w)" using assms(1) by (simp add: id_take_nth_drop)
    then have "t \<in> set (take i (sv_tasks w) @ sv_tasks w ! i # drop (Suc i) (sv_tasks w))" using t(1) by simp
    with t(2) assms show ?thesis by (auto simp: replace_task_def)
  qed
  show "t \<in> set ts \<Longrightarrow> t \<in> set (sv_tasks (replace_task i ts w'))" by (simp add: replace_task_def)
qed

text \<open>A goroutine of one plugin that ends or goes on as another keeps the rest of the world.\<close>

definition task_plugin :: "task \<Rightarrow> string" where
  "task_plugin t = (case t of Watch q _ _ \<Rightarrow> q | GiveUp q _ _ \<Rightarrow> q | Retry q \<Rightarrow> q)"

lemma watches_plugin: "watches q p t \<Longrightarrow> task_plugin t = q"
  by (cases t) (auto simp: task_plugin_def)

lemma goroutine_supervised:
  assumes sup: "supervised sk w" and i: "i < length (sv_tasks w)" "task_plugin (sv_tasks w ! i) = plugin"
    and rest: "\<And>t. t \<in> set (sv_tasks w) \<Longrightarrow> t \<noteq> sv_tasks w ! i \<Longrightarrow> t \<in> set (sv_tasks w')"
    and flags: "sv_started w' = sv_started w" "sv_stopping w' = sv_stopping w" "sv_outside w' = sv_outside w"
    and same: "\<And>q. q \<noteq> plugin \<Longrightarrow> process_of w' q = process_of w q" "\<And>q. q \<noteq> plugin \<Longrightarrow> current_in (sv_states w') q = current_in (sv_states w) q"
    and inv: "plugin_inv (sk_plugin sk) (sv_states w')"
    and own: "is_running w \<Longrightarrow> supervised_plugin sk w' plugin"
  shows "supervised sk w'"
proof -
  have started: "sv_started w" using sup i(1) by (auto simp: supervised_def)
  have "supervised_plugin sk w' q" if run: "is_running w'" for q
  proof (cases "q = plugin")
    case True
    with own run flags show ?thesis by (simp add: is_running_def)
  next
    case False
    have old: "supervised_plugin sk w q" using sup run flags by (simp add: supervised_def is_running_def)
    have keep: "t \<in> set (sv_tasks w')" if "t \<in> set (sv_tasks w)" "task_plugin t = q" for t
      using rest [OF that(1)] that(2) i(2) False by auto
    show ?thesis
    proof (cases "process_of w q")
      case None
      with old same False keep [of "Retry q"] show ?thesis by (auto simp: supervised_plugin_def wants_running_iff task_plugin_def)
    next
      case (Some p)
      with old obtain t where "t \<in> set (sv_tasks w)" "watches q p t" by (auto simp: supervised_plugin_def)
      with keep watches_plugin Some same(1) [OF False] show ?thesis by (auto simp: supervised_plugin_def)
    qed
  qed
  with sup flags inv started show ?thesis by (simp add: supervised_def quiet_stops_def)
qed

lemma get_status_handle: "get_status nk answer p = (r, p') \<Longrightarrow> mp_handle p' = mp_handle p"
  by (auto simp: get_status_def Let_def split: rpc.splits if_splits)

lemma check_healthy_handle: "check_healthy nk answer g digest p = (r, p') \<Longrightarrow> mp_handle p' = mp_handle p"
  by (auto simp: check_healthy_def split: prod.splits sum.splits if_splits dest: get_status_handle)

lemma watches_handle: "mp_handle p' = mp_handle p \<Longrightarrow> watches q p' t = watches q p t"
  by (cases t) auto

lemma watch_health_frame:
  assumes "watch_health sk plugin p w = (healthy, p', w')"
  shows "mp_handle p' = mp_handle p \<and> sv_started w' = sv_started w \<and> sv_stopping w' = sv_stopping w \<and> sv_outside w' = sv_outside w \<and>
    sv_tasks w' = sv_tasks w \<and> sv_states w' = sv_states w \<and> (\<forall>q. q \<noteq> plugin \<longrightarrow> process_of w' q = process_of w q) \<and>
    map_option mp_handle (process_of w' plugin) = map_option mp_handle (process_of w plugin)"
proof (cases "\<exists>v n. current_revision (sk_plugin sk) plugin (sv_states w) = Inr (Some v, n)")
  case False
  with assms show ?thesis by (auto simp: watch_health_def split: sum.splits option.splits)
next
  case True
  then obtain v n where v: "current_revision (sk_plugin sk) plugin (sv_states w) = Inr (Some v, n)" by blast
  obtain od w1 where o: "next_outside w = (od, w1)" by force
  obtain r p1 where c: "check_healthy (sk_node sk) (od_health od) (vn_generation v) (vn_configuration_sha256 v) p = (r, p1)" by force
  note c1 = calm_next [OF o] and h = check_healthy_handle [OF c]
  have out: "p' = p1" "w' = update_process plugin p1 w1" using assms v o c by (auto simp: watch_health_def)
  have "process_of w1 q = process_of w q" for q by (rule calm_process [OF c1])
  with h out c1 show ?thesis by (auto simp: update_process_def calm_def split: option.splits)
qed

lemma watch_continues_supervised:
  assumes sup: "supervised sk w" and i: "i < length (sv_tasks w)" "sv_tasks w ! i = Watch plugin p n"
    and frame: "sv_started w1 = sv_started w \<and> sv_stopping w1 = sv_stopping w \<and> sv_outside w1 = sv_outside w \<and> sv_tasks w1 = sv_tasks w \<and>
      sv_states w1 = sv_states w \<and> (\<forall>q. q \<noteq> plugin \<longrightarrow> process_of w1 q = process_of w q) \<and>
      map_option mp_handle (process_of w1 plugin) = map_option mp_handle (process_of w plugin)"
    and t: "\<And>r. mp_handle r = mp_handle p \<Longrightarrow> watches plugin r t"
  shows "supervised sk (replace_task i [t] w1)"
proof (rule goroutine_supervised [OF sup i(1)])
  show "task_plugin (sv_tasks w ! i) = plugin" using i(2) by (simp add: task_plugin_def)
  note rep = tasks_replaced [OF i(1), of w1 "[]"]
  show "\<And>s. s \<in> set (sv_tasks w) \<Longrightarrow> s \<noteq> sv_tasks w ! i \<Longrightarrow> s \<in> set (sv_tasks (replace_task i [t] w1))"
    using rep(1) frame by simp
  show "supervised_plugin sk (replace_task i [t] w1) plugin" if run: "is_running w"
  proof -
    have old: "supervised_plugin sk w plugin" using sup run by (simp add: supervised_def)
    have new: "t \<in> set (sv_tasks (replace_task i [t] w1))" using rep(2) frame by simp
    show ?thesis
    proof (cases "process_of w plugin")
      case None
      then have "process_of w1 plugin = None" using frame by simp
      moreover have "wants_running sk (replace_task i [t] w1) plugin = wants_running sk w plugin" using frame by (simp add: wants_running_iff)
      moreover have "Retry plugin \<in> set (sv_tasks (replace_task i [t] w1))" if "Retry plugin \<in> set (sv_tasks w)"
        using rep(1) [of "Retry plugin"] that i(2) frame by simp
      ultimately show ?thesis using old None by (simp add: supervised_plugin_def)
    next
      case (Some q)
      then obtain q' where q': "process_of w1 plugin = Some q'" "mp_handle q' = mp_handle q" using frame by auto
      obtain s where s: "s \<in> set (sv_tasks w)" "watches plugin q s" using old Some by (auto simp: supervised_plugin_def)
      have "\<exists>s \<in> set (sv_tasks (replace_task i [t] w1)). watches plugin q s"
      proof (cases "s = sv_tasks w ! i")
        case True
        with s i(2) t new show ?thesis by auto
      next
        case False
        with rep(1) s frame show ?thesis by auto
      qed
      with q' watches_handle [OF q'(2)] show ?thesis by (simp add: supervised_plugin_def)
    qed
  qed
qed (use frame sup in \<open>auto simp: supervised_def\<close>)

lemma watch_tick_supervised:
  assumes "supervised sk w" and "i < length (sv_tasks w)" "sv_tasks w ! i = Watch plugin p n"
  shows "supervised sk (watch_tick sk i plugin p n w)"
proof -
  obtain healthy p' w1 where h: "watch_health sk plugin p w = (healthy, p', w1)" by (metis prod_cases3)
  note f = watch_health_frame [OF h]
  have "supervised sk (replace_task i [next_watch plugin p' n healthy] w1)"
    by (rule watch_continues_supervised [OF assms]) (use f in \<open>auto simp: next_watch_def\<close>)
  with h show ?thesis by (simp add: watch_tick_def)
qed

lemma watch_exit_supervised:
  assumes "supervised sk w" and "i < length (sv_tasks w)" "sv_tasks w ! i = Watch plugin p n"
  shows "supervised sk (watch_exit i plugin p w)"
  unfolding watch_exit_def by (rule watch_continues_supervised [OF assms]) auto

lemma count_crash_frame:
  assumes ok: "plugin_sdk_ok (sk_plugin sk)" and inv: "plugin_inv (sk_plugin sk) (sv_states w)"
  shows "let w' = count_crash sk put plugin p reason current w in
    sv_started w' = sv_started w \<and> sv_stopping w' = sv_stopping w \<and> sv_outside w' = sv_outside w \<and> sv_tasks w' = sv_tasks w \<and>
    current_in (sv_states w') = current_in (sv_states w) \<and> plugin_inv (sk_plugin sk) (sv_states w') \<and> (\<forall>q. process_of w' q = process_of w q)"
proof -
  obtain od w1 where o: "next_outside (set_capabilities plugin [] w) = (od, w1)" by force
  have "calm (set_capabilities plugin [] w) w1" by (rule calm_next [OF o])
  then have f1: "sv_started w1 = sv_started w" "sv_stopping w1 = sv_stopping w" "sv_outside w1 = sv_outside w" "sv_tasks w1 = sv_tasks w"
    "sv_states w1 = sv_states w" "\<And>q. process_of w1 q = process_of w q"
    by (simp_all add: calm_process) (simp_all add: calm_def)
  define w2 where "w2 = set_streak plugin ((if stable_process_duration \<le> od_now od - mp_started_at p then 0
      else pl_crash_streak (actor_of w1 plugin)) + 1) w1"
  obtain r w3 where s: "on_states (\<lambda>fault. increment_restart (sk_plugin sk) fault plugin) w2 = (r, w3)" by force
  have frame: "(plugin_inv (sk_plugin sk) (sv_states w2) \<longrightarrow> plugin_inv (sk_plugin sk) store') \<and>
       (\<forall>q. q \<noteq> plugin \<longrightarrow> current_in store' q = current_in (sv_states w2) q)"
    if p: "increment_restart (sk_plugin sk) fault plugin (sv_states w2) = (out, store')" for fault out store'
    using increment_restart_step [OF p ok] increment_restart_current [OF p ok] inv f1 by (simp add: w2_def)
  obtain fault out where i: "increment_restart (sk_plugin sk) fault plugin (sv_states w2) = (out, sv_states w3)" "r = map_sum StateError (\<lambda>x. x) out"
    "others sk plugin w2 w3" "sv_tasks w3 = sv_tasks w2" "process_of w3 plugin = process_of w2 plugin"
    by (rule on_states_others [OF s frame])
  have inv2: "plugin_inv (sk_plugin sk) (sv_states w2)" using inv f1 by (simp add: w2_def)
  have cur: "current_in (sv_states w3) = current_in (sv_states w2)" by (rule increment_restart_current [OF i(1) ok inv2])
  have "count_crash sk put plugin p reason current w = (case r of Inl _ \<Rightarrow> w3
      | Inr n \<Rightarrow> (case current of None \<Rightarrow> w3 | Some v \<Rightarrow> emit_failed_revision sk put plugin v n (reason_text reason) w3))"
    using o s by (simp add: count_crash_def w2_def Let_def split: sum.splits)
  then have c4: "calm w3 (count_crash sk put plugin p reason current w)"
    by (auto simp: calm_emit_failed split: sum.splits option.splits)
  have "\<And>q. process_of w3 q = process_of w2 q" using i(3,5) by (metis others_def)
  with c4 cur i(3,4) f1 inv2 show ?thesis
    by (simp add: Let_def calm_process [OF c4] w2_def) (simp add: calm_def others_def)
qed

lemma give_up_supervised:
  assumes sup: "supervised sk w" and ok: "plugin_sdk_ok (sk_plugin sk)" and i: "i < length (sv_tasks w)" "sv_tasks w ! i = GiveUp plugin p reason"
  shows "supervised sk (give_up sk put i plugin p reason w)"
proof (cases "case process_of w plugin of None \<Rightarrow> True | Some q \<Rightarrow> mp_handle q \<noteq> mp_handle p")
  case True
  have "supervised sk (replace_task i [] w)"
  proof (rule goroutine_supervised [OF sup i(1)])
    show "task_plugin (sv_tasks w ! i) = plugin" using i(2) by (simp add: task_plugin_def)
    show rest: "\<And>s. s \<in> set (sv_tasks w) \<Longrightarrow> s \<noteq> sv_tasks w ! i \<Longrightarrow> s \<in> set (sv_tasks (replace_task i [] w))"
      by (rule tasks_replaced(1) [OF i(1), of w "[]"]) simp_all
    show "supervised_plugin sk (replace_task i [] w) plugin" if "is_running w"
    proof -
      have old: "supervised_plugin sk w plugin" using sup that by (simp add: supervised_def)
      show ?thesis
      proof (cases "process_of w plugin")
        case None
        with old rest [of "Retry plugin"] i(2) show ?thesis by (auto simp: supervised_plugin_def wants_running_iff)
      next
        case (Some q)
        with old obtain s where s: "s \<in> set (sv_tasks w)" "watches plugin q s" by (auto simp: supervised_plugin_def)
        with True Some i(2) have "s \<noteq> sv_tasks w ! i" by auto
        with s Some rest show ?thesis by (auto simp: supervised_plugin_def)
      qed
    qed
  qed (use sup in \<open>auto simp: supervised_def\<close>)
  with True show ?thesis by (simp add: give_up_def)
next
  case False
  obtain current restart_count where cur: "current_or_none sk plugin w = (current, restart_count)" by force
  let ?w1 = "set_process plugin None w"
  obtain stopped w2 where st: "(if reason \<noteq> ExitedUnexpectedly then stop_act p ?w1 else (Inr (), ?w1)) = (stopped, w2)" by force
  have quiet: "quiet_stops ?w1" using sup by (simp add: supervised_def quiet_stops_def)
  have c2: "calm ?w1 w2" "stopped = Inr ()"
    using st effectD [OF calm_stop] stop_quiet [OF _ quiet] by (auto split: if_splits)
  let ?w3 = "count_crash sk put plugin p reason current w2"
  have out: "give_up sk put i plugin p reason w = replace_task i [Retry plugin] ?w3"
    using False cur st c2(2) by (simp add: give_up_def Let_def errors_of_def)
  have inv2: "plugin_inv (sk_plugin sk) (sv_states w2)" using c2(1) sup by (simp add: calm_def supervised_def)
  note f = count_crash_frame [OF ok inv2, of put plugin p reason current, unfolded Let_def]
  have f3: "sv_started ?w3 = sv_started w" "sv_stopping ?w3 = sv_stopping w" "sv_outside ?w3 = sv_outside w" "sv_tasks ?w3 = sv_tasks w @ []"
    "current_in (sv_states ?w3) = current_in (sv_states w)" "plugin_inv (sk_plugin sk) (sv_states ?w3)"
    "\<And>q. process_of ?w3 q = (if q = plugin then None else process_of w q)"
    using f c2(1) calm_process [OF c2(1)] by (auto simp: calm_def)
  have "supervised sk (replace_task i [Retry plugin] ?w3)"
  proof (rule goroutine_supervised [OF sup i(1)])
    show "task_plugin (sv_tasks w ! i) = plugin" using i(2) by (simp add: task_plugin_def)
    show "\<And>s. s \<in> set (sv_tasks w) \<Longrightarrow> s \<noteq> sv_tasks w ! i \<Longrightarrow> s \<in> set (sv_tasks (replace_task i [Retry plugin] ?w3))"
      by (rule tasks_replaced(1) [OF i(1) f3(4)])
    show "supervised_plugin sk (replace_task i [Retry plugin] ?w3) plugin"
      by (rule supervised_retried) (use f3(7) tasks_replaced(2) [OF i(1) f3(4), of _ "[Retry plugin]"] in auto)
  qed (use f3 in auto)
  with out show ?thesis by simp
qed

lemma task_ends_supervised:
  assumes sup: "supervised sk w" and i: "i < length (sv_tasks w)" "sv_tasks w ! i = Retry plugin"
    and over: "\<not> wants_running sk w plugin \<or> process_of w plugin \<noteq> None \<or> \<not> is_running w"
  shows "supervised sk (replace_task i [] w)"
proof (rule goroutine_supervised [OF sup i(1)])
  show "task_plugin (sv_tasks w ! i) = plugin" using i(2) by (simp add: task_plugin_def)
  show rest: "\<And>s. s \<in> set (sv_tasks w) \<Longrightarrow> s \<noteq> sv_tasks w ! i \<Longrightarrow> s \<in> set (sv_tasks (replace_task i [] w))"
    by (rule tasks_replaced(1) [OF i(1), of w "[]"]) simp_all
  show "supervised_plugin sk (replace_task i [] w) plugin" if run: "is_running w"
  proof (cases "process_of w plugin")
    case None
    moreover have "wants_running sk (replace_task i [] w) plugin = wants_running sk w plugin" by (simp add: wants_running_iff)
    ultimately show ?thesis using over run by (simp add: supervised_plugin_def)
  next
    case (Some q)
    have "supervised_plugin sk w plugin" using sup run by (simp add: supervised_def)
    with Some obtain s where s: "s \<in> set (sv_tasks w)" "watches plugin q s" by (auto simp: supervised_plugin_def)
    with i(2) have "s \<noteq> sv_tasks w ! i" by auto
    with s Some rest show ?thesis by (auto simp: supervised_plugin_def)
  qed
qed (use sup in \<open>auto simp: supervised_def\<close>)

lemma retry_supervised:
  assumes sup: "supervised sk w" and i: "i < length (sv_tasks w)" "sv_tasks w ! i = Retry plugin"
  shows "supervised sk (retry_recovery sk put i plugin w)"
proof (cases "wants_running sk w plugin \<and> process_of w plugin = None \<and> is_running w")
  case False
  then have "retry_recovery sk put i plugin w = replace_task i [] w"
    by (auto simp: retry_recovery_def wants_running_def split: sum.splits option.splits prod.splits)
  with task_ends_supervised [OF sup i] False show ?thesis by auto
next
  case True
  then obtain v n where v: "current_revision (sk_plugin sk) plugin (sv_states w) = Inr (Some v, n)" "vn_state v = ModeRunning"
    by (auto simp: wants_running_def split: sum.splits option.splits prod.splits)
  obtain r w1 where st: "start_revision sk plugin v w = (r, w1)" by force
  note c1 = effectD [OF calm_start_revision st]
  have started: "sv_started w" "is_running w" using True by (auto simp: is_running_def)
  show ?thesis
  proof (cases r)
    case (Inl e)
    let ?w2 = "set_streak plugin (pl_crash_streak (actor_of w1 plugin) + 1) w1"
    have out: "retry_recovery sk put i plugin w = emit_failed_revision sk put plugin v n ''plugin process restart failed'' ?w2"
      using True v st Inl by (simp add: retry_recovery_def)
    have c3: "calm ?w2 (retry_recovery sk put i plugin w)" unfolding out by (rule calm_emit_failed)
    have o: "others sk plugin w (retry_recovery sk put i plugin w)"
      using calm_others [OF c1, of sk plugin] calm_others [OF c3, of sk plugin] others_trans [of sk plugin w ?w2] by simp
    have "Retry plugin \<in> set (sv_tasks (retry_recovery sk put i plugin w))"
      using i nth_mem [OF i(1)] o by (auto simp: others_def)
    moreover have "process_of (retry_recovery sk put i plugin w) plugin = None"
      using True c1 by (simp add: calm_process [OF c3] calm_process [OF c1])
    ultimately show ?thesis using supervised_others [OF sup o] started supervised_retried by blast
  next
    case (Inr p)
    let ?w2 = "set_process plugin (Some p) (replace_task i [] w1)"
    let ?w3 = "logged (emit_revision sk put plugin v n) ?w2"
    have c3: "calm ?w2 ?w3" by (rule calm_logged [OF calm_emit_revision])
    have out: "retry_recovery sk put i plugin w = watch plugin p ?w3"
      using True v st Inr by (simp add: retry_recovery_def)
    have t1: "sv_tasks w1 = sv_tasks w @ []" using c1 by (simp add: calm_def)
    have "supervised sk (watch plugin p ?w3)"
    proof (rule goroutine_supervised [OF sup i(1)])
      show "task_plugin (sv_tasks w ! i) = plugin" using i(2) by (simp add: task_plugin_def)
      have t3: "sv_tasks ?w3 = sv_tasks (replace_task i [] w1)" using c3 by (simp add: calm_def)
      show "\<And>s. s \<in> set (sv_tasks w) \<Longrightarrow> s \<noteq> sv_tasks w ! i \<Longrightarrow> s \<in> set (sv_tasks (watch plugin p ?w3))"
        using tasks_replaced(1) [OF i(1) t1, of _ "[]"] t3 by simp
      show "supervised_plugin sk (watch plugin p ?w3) plugin"
        by (rule supervised_watched [of _ _ p p 0]) (simp_all add: calm_process [OF c3])
      show "\<And>q. q \<noteq> plugin \<Longrightarrow> process_of (watch plugin p ?w3) q = process_of w q"
        by (simp add: calm_process [OF c3] calm_process [OF c1])
    qed (use c1 c3 sup in \<open>auto simp: calm_def supervised_def\<close>)
    with out show ?thesis by simp
  qed
qed

subsubsection \<open>Runs\<close>

lemma supervisor_step_supervised:
  assumes "supervisor_step sk put w w'" and ok: "plugin_sdk_ok (sk_plugin sk)" and sup: "supervised sk w"
  shows "supervised sk w'"
  using assms(1)
proof (cases rule: supervisor_step.cases)
  case (process_exit h)
  with sup show ?thesis
    by (simp add: supervised_def quiet_stops_def is_running_def supervised_plugin_def wants_running_iff process_of_def actor_of_def
        cong: option.case_cong)
next
  case (query plugin)
  with sup ensure_actor_supervised [of sk plugin w] show ?thesis by simp
next
  case (retry_ends i plugin)
  with task_ends_supervised [OF sup] show ?thesis by blast
next
  case (give_up i plugin p reason)
  with give_up_supervised [OF sup ok] show ?thesis by blast
qed (use sup ok in \<open>blast intro: command_supervised start_supervised close_supervised close_actor_supervised watch_tick_supervised
      watch_exit_supervised retry_supervised\<close>)+

interpretation supervision: stepping "supervisor_step sk put" "\<lambda>w. plugin_sdk_ok (sk_plugin sk) \<and> supervised sk w" "\<lambda>_ _. True" for sk put
  by unfold_locales (use supervisor_step_supervised in blast)+

lemma supervisor_run_supervised:
  "supervisor_run sk put w w' \<Longrightarrow> plugin_sdk_ok (sk_plugin sk) \<Longrightarrow> supervised sk w \<Longrightarrow> supervised sk w'"
  using supervision.run_inv by blast

end
