(* ===== verification/PluginReconciling.thy ===== *)
theory PluginReconciling
  imports PluginSupervision
begin

section \<open>What a successful plugin command has brought about\<close>

text \<open>
  The handlers of a command, read backwards from an execution without a problem: the status event is in the sink, the revision is the current
  one, and the process of the actor is the candidate that was started from the verified artifact and that accepted its configuration.
\<close>

lemma problems [simp]:
  "ex_problem (unavailable sk m) \<noteq> None" "ex_problem (internal_failure sk m) \<noteq> None" "ex_problem (invalid_argument sk m) \<noteq> None"
  "ex_problem (failure c m b) \<noteq> None" "ex_problem (refused_configuration sk e) \<noteq> None"
  by (simp_all add: unavailable_def internal_failure_def invalid_argument_def failure_def refused_configuration_def)

lemma map_error_Inr [simp]: "map_sum f (\<lambda>x. ()) r = Inr () \<longleftrightarrow> r = Inr ()" "map_sum f (\<lambda>x. x) s = Inr y \<longleftrightarrow> s = Inr y"
  by (cases r, auto) (cases s, auto)+

text \<open>The status of a revision was accepted by the sink, and nothing came after it.\<close>

definition reported :: "supervisor_sdk \<Rightarrow> 's status_sink \<Rightarrow> string \<Rightarrow> revision \<Rightarrow> 's \<Rightarrow> bool" where
  "reported sk put plugin v sink \<longleftrightarrow>
     (\<exists>f s t n caps ev. put = Some f \<and> f s (sk_event_plugin_status sk) t (revision_event plugin v n caps) = (Inr ev, sink))"

lemma emit_revision_reported:
  assumes "emit_revision sk put plugin v n w = (Inr u, w')"
  shows "reported sk put plugin v (sv_sink w') \<and> sv_os w' = sv_os w \<and> calm w w'"
proof -
  let ?e = "revision_event plugin v n (plugin_capabilities plugin w)"
  obtain f where f: "put = Some f" using assms by (auto simp: emit_revision_def emit_def split: if_splits option.splits)
  obtain od w1 where o: "next_outside w = (od, w1)" by force
  obtain r s where s: "f (sv_sink w1) (sk_event_plugin_status sk) (od_now od) ?e = (r, s)" by force
  have w': "w' = w1\<lparr>sv_sink := s\<rparr>" "\<exists>ev. r = Inr ev"
    using assms f o s by (cases r; auto simp: emit_revision_def emit_def split: if_splits)+
  then obtain ev where "f (sv_sink w1) (sk_event_plugin_status sk) (od_now od) ?e = (Inr ev, sv_sink w')" using s by auto
  with f have "reported sk put plugin v (sv_sink w')" unfolding reported_def by blast
  moreover have "sv_os w' = sv_os w" using w'(1) o by (auto simp: next_outside_def)
  ultimately show ?thesis using effectD [OF calm_emit_revision assms] by simp
qed

text \<open>A process that executes an artifact, and a candidate that accepted the configuration and reported it healthy.\<close>

definition executes :: "supervisor_sdk \<Rightarrow> desired_state \<Rightarrow> managed_process \<Rightarrow> os_state \<Rightarrow> bool" where
  "executes sk d p os \<longleftrightarrow>
     (\<exists>a. \<exists>r \<in> set (os_running os). de_artifact d = Some a \<and> rn_handle r = mp_handle p \<and> installed (in_sha256 (sk_installer sk)) a (rn_image r))"

definition configured :: "supervisor_sdk \<Rightarrow> (nat \<Rightarrow> outside) \<Rightarrow> desired_state \<Rightarrow> managed_process \<Rightarrow> bool" where
  "configured sk outside d p \<longleftrightarrow>
     (\<exists>m n q. client_validate (sk_node sk) (od_validated (outside m)) d = Inr () \<and>
        client_apply (sk_node sk) (od_applied (outside n)) (od_statuses (outside n)) d q = (Inr (), p))"

lemma executes_running: "executes sk d p os \<Longrightarrow> \<not> exited os p"
  by (force simp: executes_def exited_def)

lemma executes_handle: "mp_handle q = mp_handle p \<Longrightarrow> executes sk d q os = executes sk d p os"
  by (simp add: executes_def)

lemma await_healthy_result:
  "await_healthy nk d answers p = (r, p') \<Longrightarrow> mp_handle p' = mp_handle p \<and>
   (r = Inr () \<longrightarrow> (\<exists>answer \<in> set answers. \<exists>status. snd answer = RpcOk status \<and> st_health status = Healthy \<and>
      reports (de_generation d) (de_configuration_sha256 d) status))"
proof (induction nk d answers p arbitrary: r rule: await_healthy.induct)
  case (1 nk d p)
  then show ?case by auto
next
  case (2 nk d answer answers p)
  obtain g q where g: "get_status nk answer p = (g, q)" by force
  note h = get_status_handle [OF g]
  have ok: "snd answer = RpcOk status" if "g = Inr status" for status
    using g that by (auto simp: get_status_def Let_def split: rpc.splits if_splits)
  show ?case
  proof (cases "\<exists>status. g = Inr status \<and> reports (de_generation d) (de_configuration_sha256 d) status \<and> st_health status = HealthOther")
    case True
    then obtain status where s: "g = Inr status" "reports (de_generation d) (de_configuration_sha256 d) status" "st_health status = HealthOther"
      by blast
    with "2.prems" g have "await_healthy nk d answers q = (r, p')" by simp
    from "2.IH" [OF g [symmetric] s(1) _ s(3) this] s(2) h show ?thesis by auto
  next
    case False
    with "2.prems" g h ok show ?thesis by (auto split: sum.splits if_splits plugin_health.splits)
  qed
qed

lemma client_apply_result:
  "client_apply nk response answers d p = (r, p') \<Longrightarrow> mp_handle p' = mp_handle p \<and>
   (r = Inr () \<longrightarrow> (\<exists>answer \<in> set answers. \<exists>status. snd answer = RpcOk status \<and> st_health status = Healthy \<and>
      reports (de_generation d) (de_configuration_sha256 d) status))"
  by (auto simp: client_apply_def split: rpc.splits if_splits dest: await_healthy_result)

subsection \<open>Starting a candidate\<close>

lemma start_process_Inr:
  assumes "start_process nk sb plugin version socket program os = (Inr p, os')"
  shows "\<exists>r \<in> set (os_running os'). rn_handle r = mp_handle p \<and> rn_image r = program"
  using assms
  by (auto simp: start_process_def spawn_def Let_def split: option.splits if_splits sum.splits prod.splits)

lemma start_act_Inr:
  assumes "start_act sk plugin version a w = (Inr p, w')"
  shows "\<exists>r \<in> set (os_running (sv_os w')). rn_handle r = mp_handle p \<and> rn_image r = executable_slot (sv_releases w) plugin version a"
proof -
  obtain od w1 where o: "next_outside w = (od, w1)" by force
  obtain r os where s: "start_process (sk_node sk) (od_start od) plugin version (socket_path (in_sha256 (sk_installer sk)) (sk_runtime_dir sk) plugin)
      (executable_slot (sv_releases w1) plugin version a) (sv_os w1) = (r, os)" by force
  with assms o have "r = Inr p" "sv_os w' = os" by (cases r; auto simp: start_act_def)+
  with start_process_Inr s o show ?thesis by (fastforce simp: next_outside_def)
qed

lemma verify_revision_Inr:
  assumes "verify_revision_artifact sk plugin v w = (Inr a, w')"
  shows "vn_artifact v = Some a \<and> installed (in_sha256 (sk_installer sk)) a (executable_slot (sv_releases w') plugin (vn_version v) a)"
proof -
  obtain od w1 where o: "next_outside w = (od, w1)" by force
  obtain b where b: "vn_artifact v = Some b" using assms by (auto simp: verify_revision_artifact_def split: option.splits)
  with assms o have ab: "a = b" "w' = w1" by (auto simp: verify_revision_artifact_def split: if_splits)
  obtain f where f: "executable_slot (sv_releases w1) plugin (vn_version v) b = Some f"
    "verify_artifact (in_sha256 (sk_installer sk)) (od_install_fails od) b f = Inr ()"
    using assms o b by (auto simp: verify_revision_artifact_def split: if_splits option.splits)
  from verify_artifact_installed [OF f(2)] f(1) ab b show ?thesis by simp
qed

lemma start_revision_Inr:
  assumes "start_revision sk plugin v w = (Inr p, w')"
  obtains a w1 p1 w2 q where "start_act sk plugin (vn_version v) a w1 = (Inr p1, w2)" "p = q\<lparr>mp_ready := True\<rparr>"
    "mp_handle q = mp_handle p1" "sv_os w' = sv_os w2" "verify_revision_artifact sk plugin v w = (Inr a, w1)"
  using assms unfolding start_revision_def
proof (cases rule: bind_act_elim)
  case (continued a w1)
  note v = continued(1)
  from continued(2) show ?thesis
  proof (cases rule: bind_act_elim)
    case (continued p1 w2)
    obtain q w3 where q: "configure_revision sk (desired_of_revision plugin v) p1 w2 = (q, w3)" by force
    have "mp_handle q = mp_handle p1 \<and> sv_os w3 = sv_os w2"
      using q by (auto simp: configure_revision_def validate_act_def apply_act_def next_outside_def
          split: sum.splits prod.splits dest: client_apply_result)
    with continued q v that show ?thesis by auto
  qed simp
qed simp

lemma fetch_act_Inr:
  assumes "fetch_act sk d w = (Inr path, w')"
  shows "\<exists>a. de_artifact d = Some a \<and> installed (in_sha256 (sk_installer sk)) a (executable_slot (sv_releases w') (de_plugin_id d) (de_version d) a)"
proof -
  obtain od w1 where o: "next_outside w = (od, w1)" by force
  let ?ins = "(sk_installer sk)\<lparr>in_answer := od_web od\<rparr>"
  obtain r rel where f: "installer_fetch ?ins (od_install_fails od) (od_download_fails od) d (sv_releases w1) = (r, rel)" by force
  with assms o have "r = Inr path" "sv_releases w' = rel" by (cases r; auto simp: fetch_act_def)+
  with installer_fetch_Inr [of ?ins "od_install_fails od" "od_download_fails od" d "sv_releases w1" path rel] f show ?thesis by auto
qed

lemma detach_releases: "detach_and_stop plugin w = (r, w') \<Longrightarrow> sv_releases w' = sv_releases w"
  by (auto simp: detach_and_stop_def stop_act_def next_outside_def set_process_def put_actor_def clear_capabilities_def set_capabilities_def
      split: option.splits prod.splits if_splits sum.splits)

lemma detach_Inr: "detach_and_stop plugin w = (Inr u, w') \<Longrightarrow> process_of w' plugin = None"
proof (cases "process_of w plugin")
  case (Some p)
  assume run: "detach_and_stop plugin w = (Inr u, w')"
  obtain r w1 where s: "stop_act p (set_process plugin None w) = (r, w1)" by force
  from run Some s have "w' = clear_capabilities p w1" by (cases r) (auto simp: detach_and_stop_def)
  with effectD [OF calm_stop s] have "calm (set_process plugin None w) w'" by simp
  from calm_process [OF this] show ?thesis by simp
qed (auto simp: detach_and_stop_def)

subsection \<open>The candidate is taken into service\<close>

lemma plugin_success_problem: "ex_problem (plugin_success sk d) = None \<Longrightarrow> \<exists>out. plugin_success sk d = output_of out"
  by (auto simp: plugin_success_def split: option.splits)

lemma rollback_problem: "abandon_candidate sk put d previous p m answer w = (x, w') \<Longrightarrow> ex_problem x = None \<Longrightarrow> ex_problem answer = None"
  by (auto simp: abandon_candidate_def elim!: handle_act_elim)

lemma prune_fields: "sv_sink (prune_act plugin w) = sv_sink w" "sv_os (prune_act plugin w) = sv_os w"
  by (simp_all add: prune_act_def next_outside_def split: prod.splits)

lemma commit_candidate_success:
  assumes run: "commit_candidate sk put d previous candidate w = (x, w')" and success: "ex_problem x = None"
    and ok: "plugin_sdk_ok (sk_plugin sk)" and inv: "plugin_inv (sk_plugin sk) (sv_states w)"
  shows "reported sk put (de_plugin_id d) (revision_of d) (sv_sink w') \<and> sv_os w' = sv_os w \<and>
    current_in (sv_states w') (de_plugin_id d) = Some (revision_of d) \<and>
    process_of w' (de_plugin_id d) = (case candidate of None \<Rightarrow> process_of w (de_plugin_id d) | Some p \<Rightarrow> Some (p\<lparr>mp_ready := True\<rparr>)) \<and>
    sv_outside w' = sv_outside w"
  using run unfolding commit_candidate_def
proof (cases rule: handle_act_elim)
  case (failed e w1)
  with success show ?thesis by (cases candidate) (auto dest: rollback_problem)
next
  case (continued committed w1)
  have c: "process_of w1 (de_plugin_id d) = process_of w (de_plugin_id d)" "committed = revision_of d"
    "current_in (sv_states w1) (de_plugin_id d) = Some (revision_of d)"
    using commit_act_result [OF continued(1) ok inv] by auto
  have os: "sv_os w1 = sv_os w" "sv_outside w1 = sv_outside w" using continued(1) by (auto simp: on_states_def next_outside_def split: prod.splits)
  define w2 where "w2 = (case candidate of None \<Rightarrow> w1
      | Some p \<Rightarrow> watch (de_plugin_id d) (p\<lparr>mp_ready := True\<rparr>) (set_streak (de_plugin_id d) 0
           (set_capabilities (de_plugin_id d) (mp_capabilities p) (set_process (de_plugin_id d) (Some (p\<lparr>mp_ready := True\<rparr>)) w1))))"
  have rest: "handle_act (emit_revision sk put (de_plugin_id d) committed 0) (\<lambda>_ w. (unavailable sk ''queue plugin status event'', w))
               (\<lambda>_ w. (plugin_success sk d, prune_act (de_plugin_id d) w)) w2 = (x, w')"
    using continued(2) by (cases candidate) (simp_all add: w2_def Let_def)
  have w2: "process_of w2 (de_plugin_id d) = (case candidate of None \<Rightarrow> process_of w (de_plugin_id d) | Some p \<Rightarrow> Some (p\<lparr>mp_ready := True\<rparr>))"
    "sv_os w2 = sv_os w" "sv_outside w2 = sv_outside w" "current_in (sv_states w2) (de_plugin_id d) = Some (revision_of d)"
    using c os by (cases candidate; simp add: w2_def)+
  from rest show ?thesis
  proof (cases rule: handle_act_elim)
    case (failed e w3)
    with success show ?thesis by auto
  next
    case (continued u w3)
    then have w': "w' = prune_act (de_plugin_id d) w3" by simp
    note e = emit_revision_reported [OF continued(1)]
    have calm: "calm w2 w'" unfolding w' using e calm_prune calm_trans by blast
    then have "sv_outside w' = sv_outside w" using w2(3) by (simp add: calm_def)
    then show ?thesis using w2 c(2) e calm_process [OF calm] calm_current [OF calm] by (simp add: w' prune_fields)
  qed
qed

definition in_service :: "supervisor_sdk \<Rightarrow> desired_state \<Rightarrow> 's supervisor \<Rightarrow> bool" where
  "in_service sk d w \<longleftrightarrow>
     (\<exists>p q. process_of w (de_plugin_id d) = Some p \<and> mp_ready p \<and> executes sk d p (sv_os w) \<and>
        configured sk (sv_outside w) d q \<and> p = q\<lparr>mp_ready := True\<rparr>)"

lemma reconcile_install_success:
  assumes run: "reconcile_install sk put d previous w = (x, w')" and success: "ex_problem x = None"
    and ok: "plugin_sdk_ok (sk_plugin sk)" and inv: "plugin_inv (sk_plugin sk) (sv_states w)"
  shows "reported sk put (de_plugin_id d) (revision_of d) (sv_sink w') \<and>
    current_in (sv_states w') (de_plugin_id d) = Some (revision_of d) \<and>
    (de_state d = ModeRunning \<longrightarrow> in_service sk d w') \<and> (de_state d = ModeStopped \<longrightarrow> process_of w' (de_plugin_id d) = None)"
  using run unfolding reconcile_install_def
proof (cases rule: handle_act_elim)
  case (failed e w1)
  with success show ?thesis by auto
next
  case (continued path w1)
  obtain a where a: "de_artifact d = Some a"
    "installed (in_sha256 (sk_installer sk)) a (executable_slot (sv_releases w1) (de_plugin_id d) (de_version d) a)"
    using fetch_act_Inr [OF continued(1)] by blast
  note c1 = effectD [OF calm_fetch continued(1)]
  from continued(2) show ?thesis
  proof (cases rule: handle_act_elim)
    case (failed e w2)
    with success show ?thesis by auto
  next
    case (continued u w2)
    note dt = continued(1)
    have w2: "process_of w2 (de_plugin_id d) = None" "sv_releases w2 = sv_releases w1" "plugin_inv (sk_plugin sk) (sv_states w2)"
      "sv_outside w2 = sv_outside w"
    proof -
      show "process_of w2 (de_plugin_id d) = None" by (rule detach_Inr [OF dt])
      show "sv_releases w2 = sv_releases w1" by (rule detach_releases [OF dt])
      have "sv_states w2 = sv_states w1" "sv_outside w2 = sv_outside w1"
        using dt by (auto simp: detach_and_stop_def stop_act_def next_outside_def clear_capabilities_def
            split: option.splits prod.splits if_splits sum.splits)
      with inv c1 show "plugin_inv (sk_plugin sk) (sv_states w2)" "sv_outside w2 = sv_outside w" by (simp_all add: calm_def)
    qed
    from continued(2) [unfolded a(1) option.case] show ?thesis
    proof (cases rule: handle_act_elim)
      case (failed e w3)
      with success show ?thesis by (auto split: if_splits)
    next
      case (continued p w3)
      note c3 = effectD [OF calm_start_act continued(1)]
      obtain r where r: "r \<in> set (os_running (sv_os w3))" "rn_handle r = mp_handle p"
        "rn_image r = executable_slot (sv_releases w2) (de_plugin_id d) (de_version d) a"
        using start_act_Inr [OF continued(1)] by blast
      have ex: "executes sk d p (sv_os w3)" using r a w2(2) by (auto simp: executes_def)
      from continued(2) show ?thesis
      proof (cases rule: handle_act_elim)
        case (failed e w4)
        with success show ?thesis by (auto dest: rollback_problem)
      next
        case (continued u w4)
        note c4 = effectD [OF calm_validate continued(1)]
        have val: "client_validate (sk_node sk) (od_validated (sv_outside w3 (sv_ticks w3))) d = Inr ()" "sv_os w4 = sv_os w3"
          using continued(1) by (auto simp: validate_act_def next_outside_def)
        have c34: "calm w2 w4" using c3 c4 calm_trans by blast
        have inv4: "plugin_inv (sk_plugin sk) (sv_states w4)" using w2(3) c34 by (simp add: calm_def)
        consider (run) "de_state d = ModeRunning" | (stop) "de_state d = ModeStopped" | (other) "de_state d \<noteq> ModeRunning" "de_state d \<noteq> ModeStopped"
          by blast
        then show ?thesis
        proof cases
          case run
          obtain res q w5 where ap: "apply_act sk d p w4 = (res, q, w5)" by (metis prod_cases3)
          note c5 = calm_apply [OF ap]
          have res: "res = Inr ()"
            using continued(2) run ap success by (cases res) (auto simp: run_candidate_def dest: rollback_problem)
          have go: "commit_candidate sk put d previous (Some q) w5 = (x, w')"
            using continued(2) run ap res by (simp add: run_candidate_def)
          have inv5: "plugin_inv (sk_plugin sk) (sv_states w5)" using inv4 c5 by (simp add: calm_def)
          note s = commit_candidate_success [OF go success ok inv5]
          have app: "client_apply (sk_node sk) (od_applied (sv_outside w4 (sv_ticks w4))) (od_statuses (sv_outside w4 (sv_ticks w4))) d p = (Inr (), q)"
            "sv_os w5 = sv_os w4"
            using ap res by (auto simp: apply_act_def next_outside_def split: prod.splits)
          have "sv_outside w3 = sv_outside w'" "sv_outside w4 = sv_outside w'" using s c3 c34 c5 by (simp_all add: calm_def)
          with val(1) app(1) have conf: "configured sk (sv_outside w') d q" by (auto simp: configured_def)
          have h: "mp_handle q = mp_handle p" using client_apply_result [OF app(1)] by simp
          have "executes sk d (q\<lparr>mp_ready := True\<rparr>) (sv_os w')"
            using ex s app(2) val(2) by (simp add: executes_def h)
          with s conf run show ?thesis by (auto simp: in_service_def)
        next
          case stop
          have go: "handle_act (stop_act p) (\<lambda>_ w. (unavailable sk ''plugin process failed to stop'', set_process (de_plugin_id d) (Some p) w))
              (\<lambda>_. commit_candidate sk put d previous None) w4 = (x, w')"
            using continued(2) stop by (simp add: run_candidate_def)
          then show ?thesis
          proof (cases rule: handle_act_elim)
            case (failed e w5)
            with success show ?thesis by auto
          next
            case (continued u' w5)
            have c25: "calm w2 w5" using c34 effectD [OF calm_stop continued(1)] calm_trans by blast
            then have "plugin_inv (sk_plugin sk) (sv_states w5)" using w2(3) by (simp add: calm_def)
            from commit_candidate_success [OF continued(2) success ok this] w2(1) calm_process [OF c25] stop show ?thesis by simp
          qed
        next
          case other
          then have "commit_candidate sk put d previous (Some p) w4 = (x, w')" using continued(2) by (simp add: run_candidate_def)
          from commit_candidate_success [OF this success ok inv4] other show ?thesis by simp
        qed
      qed
    qed
  qed
qed

lemma reconcile_absent_success:
  assumes run: "reconcile_absent sk put d previous w = (x, w')" and success: "ex_problem x = None"
    and ok: "plugin_sdk_ok (sk_plugin sk)" and inv: "plugin_inv (sk_plugin sk) (sv_states w)"
  shows "reported sk put (de_plugin_id d) (revision_of d) (sv_sink w') \<and>
    current_in (sv_states w') (de_plugin_id d) = Some (revision_of d) \<and> process_of w' (de_plugin_id d) = None"
  using run unfolding reconcile_absent_def
proof (cases rule: handle_act_elim)
  case (failed e w1)
  with success show ?thesis by auto
next
  case (continued u w1)
  note dt = continued(1)
  have p1: "process_of w1 (de_plugin_id d) = None" by (rule detach_Inr [OF dt])
  have "sv_states w1 = sv_states w"
    using dt by (auto simp: detach_and_stop_def stop_act_def next_outside_def clear_capabilities_def
        split: option.splits prod.splits if_splits sum.splits)
  then have inv1: "plugin_inv (sk_plugin sk) (sv_states w1)" using inv by simp
  from continued(2) show ?thesis
  proof (cases rule: handle_act_elim)
    case (failed e w2)
    with success show ?thesis by auto
  next
    case (continued committed w2)
    note c = commit_act_result [OF continued(1) ok inv1]
    from continued(2) show ?thesis
    proof (cases rule: handle_act_elim)
      case (failed e w3)
      with success show ?thesis by auto
    next
      case (continued u2 w3)
      note c3 = effectD [OF calm_remove_data continued(1)]
      from continued(2) show ?thesis
      proof (cases rule: handle_act_elim)
        case (failed e w4)
        with success show ?thesis by auto
      next
        case (continued u3 w4)
        then have w4: "w4 = w'" by simp
        note e = emit_revision_reported [OF continued(1)]
        have cc: "calm w2 w'" using c3 e w4 calm_trans by blast
        from e c p1 w4 show ?thesis by (simp add: calm_process [OF cc] calm_current [OF cc])
      qed
    qed
  qed
qed

text \<open>The process of a plugin that is alive, and the process of a plugin that was started again: it executes the verified artifact of the
  revision and counts as ready.\<close>

definition live_process :: "'s supervisor \<Rightarrow> string \<Rightarrow> managed_process option" where
  "live_process w plugin = (case process_of w plugin of None \<Rightarrow> None | Some p \<Rightarrow> if exited (sv_os w) p then None else Some p)"

definition restarted :: "supervisor_sdk \<Rightarrow> string \<Rightarrow> revision \<Rightarrow> 's supervisor \<Rightarrow> bool" where
  "restarted sk plugin v w \<longleftrightarrow>
     (\<exists>p a. process_of w plugin = Some p \<and> mp_ready p \<and> vn_artifact v = Some a \<and>
        (\<exists>r \<in> set (os_running (sv_os w)). rn_handle r = mp_handle p \<and> installed (in_sha256 (sk_installer sk)) a (rn_image r)))"

lemma restarted_running: "restarted sk plugin v w \<Longrightarrow> \<exists>p. process_of w plugin = Some p \<and> \<not> exited (sv_os w) p"
  by (force simp: restarted_def exited_def)

lemma live_or_restarted:
  "case live_process w k of Some p \<Rightarrow> process_of w' k = Some p \<and> \<not> exited (sv_os w') p | None \<Rightarrow> restarted sk k v w' \<Longrightarrow>
   \<exists>p. process_of w' k = Some p \<and> \<not> exited (sv_os w') p"
  using restarted_running by (auto split: option.splits)

lemma fetch_act_os: "fetch_act sk d w = (r, w') \<Longrightarrow> sv_os w' = sv_os w"
  by (auto simp: fetch_act_def next_outside_def split: prod.splits)

lemma prepare_redelivery:
  assumes run: "prepare sdk fault c store = (Inr (d, previous, b), store')" and inv: "plugin_inv sdk store"
  shows "b = current_matches previous d"
proof -
  let ?s = "prepare_state (rc_plugin_id c) store"
  have shape: "case pg_current ?s of None \<Rightarrow> True | Some v \<Rightarrow> vn_generation v \<le> pg_last_generation ?s"
  proof (cases "bucket_get (fs_records store) (rc_plugin_id c)")
    case (Some s)
    show ?thesis unfolding prepare_state_known [OF inv Some] using file_store_invD(2) [OF inv Some] by (simp add: state_shape_def)
  qed (simp add: prepare_state_def empty_plugin_state_def)
  have newer: "\<not> current_matches (pg_current ?s) e" if "pg_last_generation ?s < de_generation e" for e
    using that shape by (auto simp: current_matches_def same_revision_def revision_of_def split: option.splits)
  from run show ?thesis
    using newer by (auto simp: prepare_def renew_url_def Let_def split: sum.splits if_splits option.splits prod.splits)
qed

lemma reconcile_current_success:
  fixes w :: "'s supervisor"
  assumes run: "reconcile_current sk put d previous w = (x, w')" and success: "ex_problem x = None"
    and prev: "previous = current_in (sv_states w) (de_plugin_id d)"
  shows "\<exists>v. previous = Some v \<and> reported sk put (de_plugin_id d) v (sv_sink w') \<and> sv_states w' = sv_states w \<and>
    (case vn_state v of
       ModeRunning \<Rightarrow> (case live_process w (de_plugin_id d) of
            Some p \<Rightarrow> process_of w' (de_plugin_id d) = Some p \<and> \<not> exited (sv_os w') p
          | None \<Rightarrow> restarted sk (de_plugin_id d) v w')
     | ModeOther _ \<Rightarrow> False
     | _ \<Rightarrow> process_of w' (de_plugin_id d) = None)"
  using run unfolding reconcile_current_def
proof (cases rule: handle_act_elim)
  case (failed e w1)
  with success show ?thesis by auto
next
  case (continued u w1)
  obtain v where v: "previous = Some v"
    using continued(1) by (cases previous) (auto simp: ensure_current_def fail_act_def)
  have "handle_act (emit_revision sk put (de_plugin_id d) v (snd (current_or_none sk (de_plugin_id d) w1)))
      (\<lambda>_ w. (unavailable sk ''queue plugin status event'', w)) (\<lambda>_ w. (plugin_success sk d, w)) w1 = (x, w')"
    using continued(2) v by (simp add: Let_def)
  then have e: "reported sk put (de_plugin_id d) v (sv_sink w') \<and> sv_os w' = sv_os w1 \<and> calm w1 w'"
    using success by (elim handle_act_elim) (auto dest: emit_revision_reported)
  let ?k = "de_plugin_id d"
  have "sv_states w1 = sv_states w \<and> (case vn_state v of
       ModeRunning \<Rightarrow> (case live_process w ?k of Some p \<Rightarrow> process_of w1 ?k = Some p \<and> \<not> exited (sv_os w1) p | None \<Rightarrow> restarted sk ?k v w1)
     | ModeOther _ \<Rightarrow> False
     | _ \<Rightarrow> process_of w1 ?k = None)"
    using continued(1) [unfolded v ensure_current_def option.case]
  proof (cases rule: bind_act_elim)
    case (stopped e)
    then show ?thesis by simp
  next
    case (continued u' w2)
    have c: "calm w w2" using continued(1) by (auto simp: return_act_def split: if_splits elim!: bind_act_elim dest: effectD [OF calm_fetch])
    have os2: "sv_os w2 = sv_os w" using continued(1) by (auto simp: return_act_def split: if_splits elim!: bind_act_elim dest: fetch_act_os)
    have live: "live_process w2 ?k = live_process w ?k" unfolding live_process_def calm_process [OF c] os2 ..
    have detached: "process_of w3 ?k = None \<and> sv_states w3 = sv_states w2" if "detach_and_stop ?k w2 = (Inr y, w3)" for y w3
    proof
      show "process_of w3 ?k = None" by (rule detach_Inr [OF that])
      show "sv_states w3 = sv_states w2"
        using that by (auto simp: detach_and_stop_def stop_act_def next_outside_def clear_capabilities_def
            split: option.splits prod.splits if_splits sum.splits)
    qed
    show ?thesis
    proof (cases "vn_state v")
      case ModeRunning
      show ?thesis
      proof (cases "live_process w ?k")
        case (Some p)
        with live continued(2) ModeRunning c show ?thesis by (auto simp: calm_def live_process_def split: option.splits if_splits)
      next
        case None
        with live have "\<not> (case process_of w2 ?k of None \<Rightarrow> False | Some p \<Rightarrow> \<not> exited (sv_os w2) p)"
          by (auto simp: live_process_def split: option.splits if_splits)
        with continued(2) ModeRunning have "bind_act (start_revision sk ?k v) (\<lambda>p w. (Inr (), watch ?k p (set_process ?k (Some p) w))) w2 = (Inr u, w1)"
          by simp
        then show ?thesis
        proof (cases rule: bind_act_elim)
          case (continued p w3)
          note c3 = effectD [OF calm_start_revision continued(1)]
          obtain a and wa wb :: "'s supervisor" and pb q where st: "start_act sk ?k (vn_version v) a wa = (Inr pb, wb)" "p = q\<lparr>mp_ready := True\<rparr>"
            "mp_handle q = mp_handle pb" "sv_os w3 = sv_os wb" "verify_revision_artifact sk ?k v w2 = (Inr a, wa)"
            by (rule start_revision_Inr [OF continued(1)]) blast
          have "restarted sk ?k v w1"
            unfolding restarted_def using continued(2) st verify_revision_Inr [OF st(5)] start_act_Inr [OF st(1)] by fastforce
          moreover have "sv_states w1 = sv_states w" using continued(2) c c3 by (auto simp: calm_def)
          ultimately show ?thesis using ModeRunning None by simp
        qed simp
      qed
    next
      case ModeStopped
      with continued(2) detached c show ?thesis by (auto simp: calm_def)
    next
      case ModeAbsent
      then have "bind_act (detach_and_stop ?k) (\<lambda>_. remove_plugin_data ?k) w2 = (Inr u, w1)" using continued(2) by simp
      then show ?thesis
      proof (cases rule: bind_act_elim)
        case (continued y w3)
        note c3 = effectD [OF calm_remove_data continued(2)]
        from detached [OF continued(1)] c c3 ModeAbsent show ?thesis by (simp add: calm_process [OF c3]) (simp add: calm_def)
      qed simp
    next
      case (ModeOther m)
      with continued(2) show ?thesis by (simp add: fail_act_def)
    qed
  qed
  moreover have same: "process_of w' ?k = process_of w1 ?k" "sv_os w' = sv_os w1" "sv_states w' = sv_states w1"
    using e calm_process [of w1 w'] by (simp_all add: calm_def)
  moreover have "restarted sk ?k v w' = restarted sk ?k v w1" by (simp add: restarted_def same)
  ultimately show ?thesis using v e by (intro exI [of _ v]) (auto split: plugin_mode.splits option.splits)
qed

subsection \<open>The command\<close>

lemma reconcile_actor_success:
  assumes run: "reconcile_actor sk put c w = (x, w')" and success: "ex_problem x = None"
    and ok: "plugin_sdk_ok (sk_plugin sk)" and inv: "plugin_inv (sk_plugin sk) (sv_states w)"
  shows "\<exists>d v. normalize_desired (sk_plugin sk) c = Inr d \<and> current_in (sv_states w') (rc_plugin_id c) = Some v \<and>
    same_revision v (revision_of d) \<and> reported sk put (rc_plugin_id c) v (sv_sink w') \<and>
    (case rc_desired_state c of
       ModeRunning \<Rightarrow> if current_matches (current_in (sv_states w) (rc_plugin_id c)) d
         then (case live_process w (rc_plugin_id c) of
                 Some p \<Rightarrow> process_of w' (rc_plugin_id c) = Some p \<and> \<not> exited (sv_os w') p
               | None \<Rightarrow> restarted sk (rc_plugin_id c) v w')
         else in_service sk d w'
     | ModeOther _ \<Rightarrow> True
     | _ \<Rightarrow> process_of w' (rc_plugin_id c) = None)"
  using run unfolding reconcile_actor_def
proof (cases rule: handle_act_elim)
  case (failed e w1)
  with success show ?thesis by (auto split: if_splits)
next
  case (continued y w1)
  obtain d previous b where y: "y = (d, previous, b)" by (cases y)
  obtain od w0 where o: "next_outside w = (od, w0)" by force
  obtain r store' where pr: "prepare (sk_plugin sk) (od_write_fault od) c (sv_states w0) = (r, store')" by force
  have w1: "r = Inr (d, previous, b)" "w1 = w0\<lparr>sv_states := store'\<rparr>"
    using continued(1) o pr y by (cases r; auto simp: on_states_def)+
  have s0: "sv_states w0 = sv_states w" using o by (auto simp: next_outside_def)
  note pr' = pr [unfolded w1(1) s0]
  have cur: "current_in (sv_states w1) = current_in (sv_states w)" "previous = current_in (sv_states w1) (de_plugin_id d)"
    "de_plugin_id d = rc_plugin_id c" and inv1: "plugin_inv (sk_plugin sk) (sv_states w1)"
    using prepare_current [OF pr' ok inv] prepare_step [OF pr' ok inv] w1(2) by auto
  have b: "b = current_matches previous d" by (rule prepare_redelivery [OF pr' inv])
  have nd: "normalize_desired (sk_plugin sk) c = Inr d" "b = current_matches (current_in (sv_states w) (rc_plugin_id c)) d"
  proof -
    show "normalize_desired (sk_plugin sk) c = Inr d"
      using pr' inv
    proof (cases rule: prepare_cases)
      case (again d' s p)
      with renew_url_step [OF again(6) ok inv again(2)] show ?thesis by auto
    qed auto
    show "b = current_matches (current_in (sv_states w) (rc_plugin_id c)) d" using b cur by simp
  qed
  have mode: "de_state d = rc_desired_state c" using normalize_desired_Inr [OF nd(1)] by simp
  let ?w2 = "prune_act (de_plugin_id d) w1"
  have c2: "calm w1 ?w2" by (rule calm_prune)
  have inv2: "plugin_inv (sk_plugin sk) (sv_states ?w2)" and prev2: "previous = current_in (sv_states ?w2) (de_plugin_id d)"
    and st2: "sv_states ?w2 = sv_states w1" using inv1 cur(2) c2 by (simp_all add: calm_def)
  show ?thesis
  proof (cases b)
    case True
    with continued(2) y have go: "reconcile_current sk put d previous ?w2 = (x, w')" by (simp add: Let_def)
    from reconcile_current_success [OF go success prev2] obtain v where v: "previous = Some v" "reported sk put (de_plugin_id d) v (sv_sink w')"
      "sv_states w' = sv_states ?w2" "case vn_state v of
       ModeRunning \<Rightarrow> (case live_process ?w2 (de_plugin_id d) of
            Some p \<Rightarrow> process_of w' (de_plugin_id d) = Some p \<and> \<not> exited (sv_os w') p
          | None \<Rightarrow> restarted sk (de_plugin_id d) v w')
     | ModeOther _ \<Rightarrow> False
     | _ \<Rightarrow> process_of w' (de_plugin_id d) = None" by blast
    have same: "same_revision v (revision_of d)" using b True v(1) by (simp add: current_matches_def)
    have live: "live_process ?w2 (de_plugin_id d) = live_process w (de_plugin_id d)"
    proof -
      have "sv_os w1 = sv_os w" "process_of w1 (de_plugin_id d) = process_of w (de_plugin_id d)"
        using o w1(2) by (auto simp: next_outside_def process_of_def actor_of_def)
      then show ?thesis by (simp only: live_process_def calm_process [OF c2] prune_fields)
    qed
    from same have "vn_state v = rc_desired_state c" using mode by (simp add: same_revision_def)
    moreover have "current_in (sv_states w') (rc_plugin_id c) = Some v"
      using v(1,3) cur st2 by simp
    ultimately show ?thesis
      using nd True v(1) v(2) [unfolded cur(3)] v(4) [unfolded live, unfolded cur(3)] same by (auto split: plugin_mode.splits)
  next
    case False
    have refl: "same_revision (revision_of d) (revision_of d)"
      by (simp add: same_revision_def same_artifact_def split: option.splits)
    show ?thesis
    proof (cases "de_state d = ModeAbsent")
      case True
      with continued(2) y False have go: "reconcile_absent sk put d previous ?w2 = (x, w')" by (simp add: Let_def)
      from reconcile_absent_success [OF go success ok inv2] nd(1) mode True refl cur(3) show ?thesis by auto
    next
      case other: False
      with continued(2) y False have go: "reconcile_install sk put d previous ?w2 = (x, w')" by (simp add: Let_def)
      from reconcile_install_success [OF go success ok inv2] nd mode other refl cur(3) False show ?thesis
        by (cases "rc_desired_state c") auto
    qed
  qed
qed

end
