(* ===== verification/SupervisorProperties.thy ===== *)
theory SupervisorProperties
  imports PluginReconciling PluginProperties "HOL-Library.Code_Target_Nat"
begin

section \<open>The properties of the plugin supervisor\<close>

text \<open>
  The sample supervisor has one plugin with a running revision whose artifact is installed. Its processes can be stopped and answer as the record
  \<open>sample_outside\<close> says; \<open>refusing_outside\<close> differs in that the plugin refuses every configuration.
\<close>

definition quiet_socket :: socket_outside where
  "quiet_socket = \<lparr>sx_found = SocketAbsent, sx_remove_fails = False, sx_sync_fails = False\<rparr>"

definition sample_stop :: stop_outside where
  "sample_stop = \<lparr>so_exits_on_term = True, so_exits_on_kill = True, so_socket = quiet_socket\<rparr>"

definition sample_start :: start_outside where
  "sample_start = \<lparr>sb_fails = (\<lambda>_. False), sb_stale_socket = quiet_socket, sb_pid = 4, sb_started_at = unix_epoch, sb_connection = Connected,
     sb_control_socket = Some \<lparr>ct_socket = True, ct_mode = 384, ct_owned = True\<rparr>,
     sb_info = RpcOk \<lparr>pi_capabilities = [], pi_telemetry_stream_id = ''s''\<rparr>, sb_stop = sample_stop\<rparr>"

definition sample_health :: observed_status where
  "sample_health = (unix_epoch, RpcOk \<lparr>st_generation = 3, st_configuration_sha256 = ''d'', st_health = Healthy, st_listeners = []\<rparr>)"

definition sample_outside :: outside where
  "sample_outside = \<lparr>od_now = unix_epoch, od_write_fault = None, od_install_fails = (\<lambda>_. False), od_download_fails = (\<lambda>_. False),
     od_web = (\<lambda>_. None), od_prune_fails = (\<lambda>_. False), od_prune_sync_fails = False, od_start = sample_start, od_stop = sample_stop,
     od_validated = RpcOk ''v'', od_applied = RpcOk ''a'', od_statuses = [sample_health], od_health = sample_health,
     od_diagnose = (\<lambda>_. RpcError), od_removal_fails = (\<lambda>_. False)\<rparr>"

definition refusing_outside :: outside where
  "refusing_outside = sample_outside\<lparr>od_validated := RpcInvalidArgument, od_applied := RpcError, od_statuses := []\<rparr>"

definition sample_node :: node_sdk where
  "sample_node = \<lparr>nk_valid_info = (\<lambda>_ _ _. True), nk_valid_validated = (\<lambda>_ _. True), nk_valid_applied = (\<lambda>_ _. True), nk_valid_status = (\<lambda>_. True),
     nk_valid_diagnose = (\<lambda>_. True), nk_valid_diagnosis = (\<lambda>_ _. True), nk_valid_telemetry = (\<lambda>_ _. True), nk_valid_service_request = (\<lambda>_. True),
     nk_valid_service_response = (\<lambda>_ _. True), nk_valid_blocks_request = (\<lambda>_. True), nk_valid_blocks_response = (\<lambda>_ _. True),
     nk_has_capability = (\<lambda>cs c. c \<in> set cs), nk_listener_capability = ''network.listeners'', nk_diagnostics_capability = ''diagnostics'',
     nk_maximum_telemetry_events = 100\<rparr>"

definition sample_supervisor_sdk :: supervisor_sdk where
  "sample_supervisor_sdk =
     \<lparr>sk_plugin = demo_plugin_sdk, sk_node = sample_node,
      sk_processor = \<lparr>px_center_command = ''command'', px_decode_command = (\<lambda>_. None), px_valid_ack = (\<lambda>_. True), px_error_unavailable = ''unavailable'',
        px_error_unsupported = ''unsupported'', px_error_invalid_argument = ''invalid'', px_error_conflict = ''conflict'', px_error_internal = ''internal'',
        px_maximum_execution = 60 * second\<rparr>,
      sk_installer = new_installer ''/r'' (\<lambda>_. ''abc'') sample_parse (\<lambda>_. None) None (Some (\<lambda>_. Inr ())), sk_runtime_dir = ''/x'', sk_reconcile_kind = ''reconcile'',
      sk_diagnose_kind = ''diagnose'', sk_decode_reconcile = (\<lambda>_. Some demo_reconcile), sk_decode_diagnose = (\<lambda>_. None),
      sk_encode_reconcile = (\<lambda>_. Some ''done''), sk_encode_diagnose = Some, sk_valid_status_event = (\<lambda>_. True),
      sk_event_plugin_status = ''plugin.status''\<rparr>"

definition sample_program :: local_file where
  "sample_program = \<lparr>lf_regular = True, lf_mode = private_mode, lf_content = ''program''\<rparr>"

definition sample_releases :: releases where
  "sample_releases = (\<lambda>plugin. if plugin = ''p'' then Some [(''1.0-abc'', \<lparr>rf_plugin = Some sample_program, rf_partial = None\<rparr>)] else None)"

text \<open>The sink of the sample keeps the payloads.\<close>

type_synonym sample_sink = "plugin_status_event list"

definition sample_put :: "sample_sink \<Rightarrow> string \<Rightarrow> time \<Rightarrow> plugin_status_event \<Rightarrow> (queue_error + event) \<times> sample_sink" where
  "sample_put s kind t payload =
     (Inr \<lparr>ev_sequence = of_nat (length s), ev_observed_at = t, ev_content = []\<rparr>, s @ [payload])"

definition sample_supervisor :: "outside \<Rightarrow> sample_sink supervisor" where
  "sample_supervisor od = new_supervisor demo_with_plugin sample_releases [] [] (\<lambda>_. od)"

lemma sample_supervisor_quiet: "quiet_stops (sample_supervisor sample_outside)" "quiet_stops (sample_supervisor refusing_outside)"
  by (simp_all add: quiet_stops_def quiet_stop_def sample_supervisor_def new_supervisor_def sample_outside_def refusing_outside_def sample_stop_def
      quiet_socket_def remove_stale_socket_def)

lemma demo_with_plugin_inv: "plugin_inv demo_plugin_sdk demo_with_plugin"
  using commit_step [OF demo_commit demo_plugin_sdk_ok demo_plugin_inv(2)] by blast

subsection \<open>Commands\<close>

text \<open>C24. When a command for a plugin succeeds, the plugin is what the command asked for: the revision is current, its status was
  the last event that was accepted by the sink, and for a stopped or removed plugin there is no process. For a running one there are two cases.
  If the revision was not current before, there is a process that executes the verified artifact, has accepted
  the configuration, and has reported this generation and configuration healthy. If the revision was current before (the command is a
  repetition), a process of the plugin that is alive is kept as it is; if none is alive, a new one executes the verified artifact and is taken for
  ready, but whether it accepts its configuration and is healthy is not asked: that is the error shown in C26.\<close>

theorem plugin_command_outcome:
  assumes "execute_reconcile sk put cmd w = (x, w')" and "ex_problem x = None"
    and "plugin_sdk_ok (sk_plugin sk)" and "plugin_inv (sk_plugin sk) (sv_states w)"
  shows "\<exists>c d v. sk_decode_reconcile sk cmd = Some c \<and> is_running w \<and> normalize_desired (sk_plugin sk) c = Inr d \<and>
    current_in (sv_states w') (rc_plugin_id c) = Some v \<and> same_revision v (revision_of d) \<and> reported sk put (rc_plugin_id c) v (sv_sink w') \<and>
    (case rc_desired_state c of
       ModeRunning \<Rightarrow> if current_matches (current_in (sv_states w) (rc_plugin_id c)) d
         then (case process_of w (rc_plugin_id c) of
                 Some p \<Rightarrow> if exited (sv_os w) p then restarted sk (rc_plugin_id c) v w'
                   else process_of w' (rc_plugin_id c) = Some p \<and> \<not> exited (sv_os w') p
               | None \<Rightarrow> restarted sk (rc_plugin_id c) v w')
         else in_service sk d w'
     | ModeOther _ \<Rightarrow> True
     | _ \<Rightarrow> process_of w' (rc_plugin_id c) = None)"
proof -
  obtain c where c: "sk_decode_reconcile sk cmd = Some c" "is_running w"
    "reconcile_actor sk put c (ensure_actor (rc_plugin_id c) w) = (x, w')"
    using assms(1,2) by (auto simp: execute_reconcile_def split: option.splits if_splits)
  have "plugin_inv (sk_plugin sk) (sv_states (ensure_actor (rc_plugin_id c) w))" using assms(4) by simp
  note done' = reconcile_actor_success [OF c(3) assms(2,3) this, unfolded actor_update_fields]
  have live: "live_process (ensure_actor (rc_plugin_id c) w) (rc_plugin_id c) =
      (case process_of w (rc_plugin_id c) of None \<Rightarrow> None | Some p \<Rightarrow> if exited (sv_os w) p then None else Some p)"
    by (simp only: live_process_def actor_update_fields process_of_ensure)
  have cases: "(case (case x of None \<Rightarrow> None | Some p \<Rightarrow> if e p then None else Some p) of Some p \<Rightarrow> P p | None \<Rightarrow> Q) =
      (case x of Some p \<Rightarrow> if e p then Q else P p | None \<Rightarrow> Q)" for x :: "managed_process option" and e P Q
    by (cases x) simp_all
  from done' [unfolded live cases] c(1,2) show ?thesis by blast
qed

definition sample_idle :: "sample_sink supervisor" where
  "sample_idle = (new_supervisor demo_no_plugins sample_releases [] [] (\<lambda>_. sample_outside))\<lparr>sv_started := True\<rparr>"

definition sample_command :: agent_command where
  "sample_command = \<lparr>ac_kind = ''reconcile'', ac_expires_at = 0, ac_payload = []\<rparr>"

lemma sample_command_succeeds:
  "ex_problem (fst (execute_reconcile sample_supervisor_sdk (Some sample_put) sample_command sample_idle)) = None"
  by code_simp

theorem plugin_command_outcome_witness:
  "\<exists>x w'. execute_reconcile sample_supervisor_sdk (Some sample_put) sample_command sample_idle = (x, w') \<and>
    (\<exists>p. process_of w' ''p'' = Some p \<and> \<not> exited (sv_os w') p) \<and> in_service sample_supervisor_sdk demo_wanted w'"
proof -
  obtain x w' where run: "execute_reconcile sample_supervisor_sdk (Some sample_put) sample_command sample_idle = (x, w')" by force
  have "ex_problem x = None" using sample_command_succeeds run by simp
  moreover have "plugin_sdk_ok (sk_plugin sample_supervisor_sdk)" "plugin_inv (sk_plugin sample_supervisor_sdk) (sv_states sample_idle)"
    using demo_plugin_sdk_ok demo_plugin_inv(1) by (simp_all add: sample_supervisor_sdk_def sample_idle_def new_supervisor_def)
  moreover have "sk_decode_reconcile sample_supervisor_sdk sample_command = Some demo_reconcile"
    "normalize_desired (sk_plugin sample_supervisor_sdk) demo_reconcile = Inr demo_wanted" "rc_desired_state demo_reconcile = ModeRunning"
    "current_in (sv_states sample_idle) (rc_plugin_id demo_reconcile) = None" "de_plugin_id demo_wanted = ''p''"
    using demo_normalize
    by (simp_all add: sample_supervisor_sdk_def sample_idle_def new_supervisor_def current_in_def demo_no_plugins_def demo_reconcile_def demo_wanted_def)
  ultimately have "in_service sample_supervisor_sdk demo_wanted w'"
    using plugin_command_outcome [OF run] by (auto simp: current_matches_def)
  moreover from this executes_running \<open>de_plugin_id demo_wanted = ''p''\<close>
  have "\<exists>p. process_of w' ''p'' = Some p \<and> \<not> exited (sv_os w') p" by (auto simp: in_service_def)
  ultimately show ?thesis using run by blast
qed

subsection \<open>Supervision\<close>

text \<open>C25. A plugin that shall run is never forgotten: from the start of the agent on, over all commands, exits of processes, failed health checks,
  broken RPCs, failing downloads and storage faults, as long as processes can be stopped, every process of a plugin has a goroutine that
  watches it, and a plugin whose current revision is running and that has no process has a goroutine that will restart it.\<close>

theorem running_plugins_stay_supervised:
  assumes "plugin_sdk_ok (sk_plugin sk)" and "plugin_inv (sk_plugin sk) states" and "\<And>n. quiet_stop (od_stop (outside n))"
    and "supervisor_run sk put (new_supervisor states rel data sink outside) w" and "is_running w"
  shows "(\<forall>plugin p. process_of w plugin = Some p \<longrightarrow> (\<exists>t \<in> set (sv_tasks w). watches plugin p t)) \<and>
    (\<forall>plugin v n. current_revision (sk_plugin sk) plugin (sv_states w) = Inr (Some v, n) \<and> vn_state v = ModeRunning \<and>
       process_of w plugin = None \<longrightarrow> Retry plugin \<in> set (sv_tasks w))"
proof -
  have "supervised sk (new_supervisor states rel data sink outside)"
    using assms(2,3) by (simp add: supervised_def new_supervisor_def quiet_stops_def is_running_def process_of_def actor_of_def new_actor_def)
  from supervisor_run_supervised [OF assms(4,1) this] assms(5) have all: "supervised_plugin sk w plugin" for plugin
    by (simp add: supervised_def)
  show ?thesis
  proof (intro conjI allI impI)
    fix plugin p assume "process_of w plugin = Some p"
    with all [of plugin] show "\<exists>t \<in> set (sv_tasks w). watches plugin p t" by (simp add: supervised_plugin_def)
  next
    fix plugin v n
    assume "current_revision (sk_plugin sk) plugin (sv_states w) = Inr (Some v, n) \<and> vn_state v = ModeRunning \<and> process_of w plugin = None"
    with all [of plugin] show "Retry plugin \<in> set (sv_tasks w)" by (simp add: supervised_plugin_def wants_running_def)
  qed
qed

definition sample_recovered :: "sample_sink supervisor" where
  "sample_recovered = snd (supervisor_start sample_supervisor_sdk (Some sample_put) (sample_supervisor refusing_outside))"

lemma sample_recovered_view:
  "is_running sample_recovered \<and> map_option mp_ready (process_of sample_recovered ''p'') = Some True \<and>
   map pe_health (sv_sink sample_recovered) = [HealthHealthy]"
  by code_simp

theorem running_plugins_stay_supervised_witness:
  "\<exists>p t. process_of sample_recovered ''p'' = Some p \<and> t \<in> set (sv_tasks sample_recovered) \<and> watches ''p'' p t"
proof -
  obtain p where p: "process_of sample_recovered ''p'' = Some p" using sample_recovered_view by auto
  have run: "supervisor_run sample_supervisor_sdk (Some sample_put) (new_supervisor demo_with_plugin sample_releases [] [] (\<lambda>_. refusing_outside)) sample_recovered"
    unfolding sample_recovered_def sample_supervisor_def
    by (rule r_into_rtranclp, rule supervisor_step.start, rule prod.collapse [symmetric])
  have sdk: "plugin_sdk_ok (sk_plugin sample_supervisor_sdk)" "plugin_inv (sk_plugin sample_supervisor_sdk) demo_with_plugin"
    using demo_plugin_sdk_ok demo_with_plugin_inv by (simp_all add: sample_supervisor_sdk_def)
  have quiet: "quiet_stop (od_stop refusing_outside)"
    using sample_supervisor_quiet(2) by (simp add: quiet_stops_def sample_supervisor_def new_supervisor_def)
  have running: "is_running sample_recovered" using sample_recovered_view by blast
  from running_plugins_stay_supervised [OF sdk quiet run running] p show ?thesis by blast
qed

text \<open>C26. A plugin that is recovered, restarted or restored after a failed command is taken into service whatever it answers: when its artifact is
  verified and its process starts, the outcome of the validation and the application of its configuration and of its health check is dropped, and it is
  ready. What holds is that its process executes the verified artifact.\<close>

theorem recovery_ignores_refusal:
  assumes "verify_revision_artifact sk plugin v w = (Inr a, w1)" and "start_act sk plugin (vn_version v) a w1 = (Inr p, w2)"
  shows "\<exists>p' w'. start_revision sk plugin v w = (Inr p', w') \<and> mp_ready p' \<and>
    (\<exists>r \<in> set (os_running (sv_os w')). rn_handle r = mp_handle p' \<and> installed (in_sha256 (sk_installer sk)) a (rn_image r))"
proof -
  obtain p1 w3 where c: "configure_revision sk (desired_of_revision plugin v) p w2 = (p1, w3)" by force
  have "mp_handle p1 = mp_handle p \<and> sv_os w3 = sv_os w2"
    using c by (auto simp: configure_revision_def validate_act_def apply_act_def next_outside_def
        split: sum.splits prod.splits dest: client_apply_result)
  moreover obtain r where "r \<in> set (os_running (sv_os w2))" "rn_handle r = mp_handle p"
    "rn_image r = executable_slot (sv_releases w1) plugin (vn_version v) a"
    using start_act_Inr [OF assms(2)] by blast
  ultimately show ?thesis
    using assms c verify_revision_Inr [OF assms(1)] by (auto simp: start_revision_def bind_act_def)
qed

theorem recovery_ignores_refusal_witness:
  "(\<exists>p' w'. start_revision sample_supervisor_sdk ''p'' (revision_of demo_wanted) (sample_supervisor refusing_outside) = (Inr p', w') \<and> mp_ready p') \<and>
   client_validate sample_node (od_validated refusing_outside) demo_wanted = Inl ConfigurationRejected \<and>
   map pe_health (sv_sink sample_recovered) = [HealthHealthy]"
proof -
  let ?w = "sample_supervisor refusing_outside"
  obtain w1 where v: "verify_revision_artifact sample_supervisor_sdk ''p'' (revision_of demo_wanted) ?w = (Inr demo_release, w1)"
  proof -
    have "\<not> isl (fst (verify_revision_artifact sample_supervisor_sdk ''p'' (revision_of demo_wanted) ?w))" by code_simp
    moreover obtain r w1 where r: "verify_revision_artifact sample_supervisor_sdk ''p'' (revision_of demo_wanted) ?w = (r, w1)" by force
    ultimately have "r = Inr demo_release"
      by (auto simp: verify_revision_artifact_def revision_of_def demo_wanted_def split: prod.splits if_splits)
    with r that show ?thesis by simp
  qed
  have "\<not> isl (fst (start_act sample_supervisor_sdk ''p'' (vn_version (revision_of demo_wanted)) demo_release
      (snd (verify_revision_artifact sample_supervisor_sdk ''p'' (revision_of demo_wanted) ?w))))" by code_simp
  then obtain p w2 where s: "start_act sample_supervisor_sdk ''p'' (vn_version (revision_of demo_wanted)) demo_release w1 = (Inr p, w2)"
    using v by (cases "start_act sample_supervisor_sdk ''p'' (vn_version (revision_of demo_wanted)) demo_release w1"; cases "fst (start_act sample_supervisor_sdk ''p'' (vn_version (revision_of demo_wanted)) demo_release w1)") auto
  have "client_validate sample_node (od_validated refusing_outside) demo_wanted = Inl ConfigurationRejected"
    by (simp add: client_validate_def refusing_outside_def sample_outside_def)
  with recovery_ignores_refusal [OF v s] sample_recovered_view show ?thesis by blast
qed

subsection \<open>Health checks and retries\<close>

text \<open>What a watch does with the results of its checks, one after the other.\<close>

fun watch_checks :: "string \<Rightarrow> managed_process \<Rightarrow> nat \<Rightarrow> bool list \<Rightarrow> task" where
  "watch_checks plugin p n [] = Watch plugin p n"
| "watch_checks plugin p n (healthy # results) =
     (case next_watch plugin p n healthy of
        Watch plugin p n \<Rightarrow> watch_checks plugin p n results
      | t \<Rightarrow> t)"

lemma watch_checks_give_up:
  "n < 3 \<Longrightarrow> watch_checks plugin p n results = GiveUp plugin p HealthChecksFailed \<longleftrightarrow>
     sublist [False, False, False] (replicate n False @ results)"
proof (induction results arbitrary: n)
  case Nil
  then show ?case by (auto dest: sublist_length_le)
next
  case (Cons b bs)
  have "n = 0 \<or> n = 1 \<or> n = 2" using Cons.prems by auto
  then show ?case
    using Cons.IH [of 0] Cons.IH [of 1] Cons.IH [of 2]
    by (cases b) (auto simp: next_watch_def health_failures_before_restart_def sublist_Cons_right numeral_2_eq_2)
qed

text \<open>A process is given up for its health exactly when three checks in a row have failed; a successful check starts the count anew.\<close>

theorem restart_after_three_failures:
  "watch_checks plugin p 0 results = GiveUp plugin p HealthChecksFailed \<longleftrightarrow> sublist [False, False, False] results"
  using watch_checks_give_up [of 0] by simp

text \<open>The delay before a restart is between one second and 64 seconds for every value of the crash counter, doubles with each further crash up
  to the seventh, and the counter may wrap around.\<close>

theorem retry_delay_bounded:
  "second \<le> retry_delay streak \<and> retry_delay streak \<le> 64 * second \<and>
   retry_delay streak = second * 2 ^ min (unat streak - 1) 6"
proof -
  define m where "m = (if streak = 0 then 1 else streak) - 1"
  have m: "unat m = unat streak - 1"
    by (cases "streak = 0") (simp_all add: m_def unat_minus_one)
  have six: "m < 6 \<longleftrightarrow> unat m < 6" by (simp add: word_less_nat_alt)
  have d: "retry_delay streak = second * 2 ^ min (unat m) 6"
    by (cases "m < 6") (simp_all add: retry_delay_def Let_def m_def [symmetric] six min_def)
  have "(1::int) \<le> 2 ^ min (unat m) 6" "(2::int) ^ min (unat m) 6 \<le> 2 ^ 6" by (simp, rule power_increasing) simp_all
  with d m show ?thesis by simp
qed

end
