(* ===== verification/AgentConfig.thy ===== *)
theory AgentConfig
  imports Files Download Urls
begin

section \<open>Configuration and identity (internal/config/config.go, internal/identity/store.go)\<close>

text \<open>
  The configuration names the center and the state directory; it is normalized whenever it is read or written. The identity is what the center
  gave the agent when it registered. Each is one JSON file that is replaced atomically; the directory is a
  bucket of entries as in \<open>Files\<close>. JSON, the URL parser and printer and the SDK's validation are parameters.
\<close>

subsection \<open>The configuration\<close>

record agent_config =
  cf_server_url :: string
  cf_state_directory :: string
  cf_allow_insecure :: bool
  cf_server_cert_sha256 :: string

text \<open>A parsed URL with its path, and whether an empty query is printed as a question mark.\<close>

record center_url = parsed_url +
  pu_path :: string
  pu_force_query :: bool

record config_sdk =
  cd_parse :: "string \<Rightarrow> center_url option"
  cd_print :: "center_url \<Rightarrow> string"
  cd_marshal :: "agent_config \<Rightarrow> string option"
  cd_unmarshal :: "string \<Rightarrow> agent_config option"

datatype config_error =
    ServerURLInvalid | PlainHTTPRefused | SchemeInvalid | StateDirectoryInvalid | PinNeedsHTTPS | PinInvalid
  | ConfigNotOpened | ConfigNotRegular | ConfigTooLarge | ConfigUndecodable | ConfigNotEncoded | ConfigFileFault

definition max_config_bytes :: nat where
  "max_config_bytes = 2 ^ 20"

text \<open>\<^verbatim>\<open>strings.TrimSuffix(s, "/")\<close> and \<^verbatim>\<open>strings.ReplaceAll(s, ":", "")\<close>.\<close>

definition trim_slash :: "string \<Rightarrow> string" where
  "trim_slash s = (if s \<noteq> [] \<and> last s = slash then butlast s else s)"

definition without_colons :: "string \<Rightarrow> string" where
  "without_colons s = filter (\<lambda>c. c \<noteq> CHR '':'') s"

definition normalize_pin :: "string \<Rightarrow> string" where
  "normalize_pin pin = to_lower (without_colons (trim_space pin))"

definition usable_center :: "center_url \<Rightarrow> bool" where
  "usable_center u \<longleftrightarrow>
     pu_hostname u \<noteq> [] \<and> \<not> pu_has_user u \<and> pu_raw_query u = [] \<and> pu_fragment u = [] \<and> pu_path u \<in> {[], [slash]}"

definition config_normalize :: "config_sdk \<Rightarrow> agent_config \<Rightarrow> config_error + agent_config" where
  "config_normalize sdk c =
     (case cd_parse sdk (trim_space (cf_server_url c)) of
        None \<Rightarrow> Inl ServerURLInvalid
      | Some u \<Rightarrow>
          if \<not> usable_center u then Inl ServerURLInvalid
          else if pu_scheme u \<noteq> https \<and> pu_scheme u \<noteq> ''http'' then Inl SchemeInvalid
          else if pu_scheme u = ''http'' \<and> \<not> cf_allow_insecure c then Inl PlainHTTPRefused
          else if \<not> abs_and_clean (cf_state_directory c) then Inl StateDirectoryInvalid
          else
            let pin = normalize_pin (cf_server_cert_sha256 c) in
            if pin \<noteq> [] \<and> pu_scheme u \<noteq> https then Inl PinNeedsHTTPS
            else if pin \<noteq> [] \<and> \<not> valid_sha256 pin then Inl PinInvalid
            else Inr (c\<lparr>cf_server_url := trim_slash (cd_print sdk (u\<lparr>pu_path := []\<rparr>)), cf_server_cert_sha256 := pin\<rparr>))"

definition config_load :: "config_sdk \<Rightarrow> bool \<Rightarrow> string \<Rightarrow> directory \<Rightarrow> config_error + agent_config" where
  "config_load sdk fault name dir =
     (case bucket_get dir name of
        None \<Rightarrow> Inl ConfigNotOpened
      | Some f \<Rightarrow>
          if fault then Inl ConfigNotOpened
          else if \<not> fe_regular f then Inl ConfigNotRegular
          else if max_config_bytes < length (fe_content f) then Inl ConfigTooLarge
          else case cd_unmarshal sdk (fe_content f) of
            None \<Rightarrow> Inl ConfigUndecodable
          | Some c \<Rightarrow> config_normalize sdk c)"

text \<open>The file is readable by the group (mode 0640). \<open>fault\<close> is a failure before or after the rename.\<close>

definition config_file :: "string \<Rightarrow> file_entry" where
  "config_file content = \<lparr>fe_directory = False, fe_regular = True, fe_private = False, fe_content = content\<rparr>"

definition replace_config ::
    "config_error write_fault option \<Rightarrow> string \<Rightarrow> string \<Rightarrow> directory \<Rightarrow> (config_error + unit) \<times> directory" where
  "replace_config fault name content dir =
     (case fault of
        Some (BeforeRename e) \<Rightarrow> (Inl e, dir)
      | Some (AfterRename e) \<Rightarrow> (Inl e, bucket_put name (config_file content) dir)
      | None \<Rightarrow> (Inr (), bucket_put name (config_file content) dir))"

definition config_save ::
    "config_sdk \<Rightarrow> config_error write_fault option \<Rightarrow> string \<Rightarrow> agent_config \<Rightarrow> directory \<Rightarrow> (config_error + unit) \<times> directory" where
  "config_save sdk fault name c dir =
     (case config_normalize sdk c of
        Inl e \<Rightarrow> (Inl e, dir)
      | Inr normalized \<Rightarrow>
          (case cd_marshal sdk normalized of
             None \<Rightarrow> (Inl ConfigNotEncoded, dir)
           | Some raw \<Rightarrow> replace_config fault name (raw @ [CHR 0x0A]) dir))"

subsection \<open>The identity\<close>

record identity =
  id_api_version :: string
  id_node_id :: string
  id_node_name :: string
  id_credential :: string

record identity_sdk =
  ik_valid :: "identity \<Rightarrow> bool"
  ik_marshal :: "identity \<Rightarrow> string option"
  ik_unmarshal :: "string \<Rightarrow> identity option"

datatype identity_error =
    IdentityMissing | IdentityNotInspected | IdentityNotRegular | IdentityNotPrivate | IdentityTooLarge | IdentityNotOpened | IdentityUndecodable
  | IdentityInvalid | IdentityNotEncoded | IdentityFileFault

definition identity_filename :: string where "identity_filename = ''identity.json''"
definition max_identity_bytes :: nat where "max_identity_bytes = 64 * 2 ^ 10"

text \<open>\<open>inspect\<close> and \<open>opening\<close>: the operating system refuses to inspect or to open the file.\<close>

definition identity_load :: "identity_sdk \<Rightarrow> bool \<Rightarrow> bool \<Rightarrow> directory \<Rightarrow> identity_error + identity" where
  "identity_load sdk inspect opening dir =
     (if inspect then Inl IdentityNotInspected
      else case bucket_get dir identity_filename of
        None \<Rightarrow> Inl IdentityMissing
      | Some f \<Rightarrow>
          if \<not> fe_regular f then Inl IdentityNotRegular
          else if \<not> fe_private f then Inl IdentityNotPrivate
          else if max_identity_bytes < length (fe_content f) then Inl IdentityTooLarge
          else if opening then Inl IdentityNotOpened
          else case ik_unmarshal sdk (fe_content f) of
            None \<Rightarrow> Inl IdentityUndecodable
          | Some v \<Rightarrow> if ik_valid sdk v then Inr v else Inl IdentityInvalid)"

definition identity_save ::
    "identity_sdk \<Rightarrow> identity_error write_fault option \<Rightarrow> identity \<Rightarrow> directory \<Rightarrow> (identity_error + unit) \<times> directory" where
  "identity_save sdk fault v dir =
     (if \<not> ik_valid sdk v then (Inl IdentityInvalid, dir)
      else case ik_marshal sdk v of
        None \<Rightarrow> (Inl IdentityNotEncoded, dir)
      | Some raw \<Rightarrow> replace_file fault identity_filename (raw @ [CHR 0x0A]) dir)"

subsection \<open>What is relied on\<close>

definition identity_sdk_ok :: "identity_sdk \<Rightarrow> bool" where
  "identity_sdk_ok sdk \<longleftrightarrow>
     (\<forall>v raw. ik_valid sdk v \<longrightarrow> ik_marshal sdk v = Some raw \<longrightarrow> ik_unmarshal sdk (raw @ [CHR 0x0A]) = Some v)"

text \<open>
  A URL without credentials, query, fragment and path is printed as a text that is parsed to the same URL, has no white space around it, and does not
  end in a slash; JSON gives back what was encoded.
\<close>

definition config_sdk_ok :: "config_sdk \<Rightarrow> bool" where
  "config_sdk_ok sdk \<longleftrightarrow>
     (\<forall>s u. cd_parse sdk s = Some u \<and> usable_center u \<and> pu_scheme u \<in> {https, ''http''} \<longrightarrow>
        cd_parse sdk (cd_print sdk (u\<lparr>pu_path := []\<rparr>)) = Some (u\<lparr>pu_path := []\<rparr>) \<and>
        trim_space (cd_print sdk (u\<lparr>pu_path := []\<rparr>)) = cd_print sdk (u\<lparr>pu_path := []\<rparr>) \<and> trim_slash (cd_print sdk (u\<lparr>pu_path := []\<rparr>)) = cd_print sdk (u\<lparr>pu_path := []\<rparr>)) \<and>
     (\<forall>c raw. cd_marshal sdk c = Some raw \<longrightarrow> cd_unmarshal sdk (raw @ [CHR 0x0A]) = Some c)"

subsection \<open>Normalizing\<close>

lemma lower_char_idem: "lower_char (lower_char c) = lower_char c"
proof (cases "65 \<le> (of_char c :: nat) \<and> (of_char c :: nat) \<le> 90")
  case True
  then have "(of_char (char_of ((of_char c :: nat) + 32)) :: nat) = of_char c + 32" by simp
  with True show ?thesis by (simp add: lower_char_def)
qed (auto simp: lower_char_def)

lemma lower_char_white: "white_space (lower_char c) = white_space c"
proof (cases "65 \<le> (of_char c :: nat) \<and> (of_char c :: nat) \<le> 90")
  case True
  have "(of_char d :: nat) \<le> 32" if "white_space d" for d using that by (auto simp: white_space_def)
  moreover have "(of_char (lower_char c) :: nat) = of_char c + 32" using True by (simp add: lower_char_def)
  ultimately show ?thesis using True by fastforce
qed (auto simp: lower_char_def)

lemma lower_char_colon: "lower_char c = CHR '':'' \<longleftrightarrow> c = CHR '':''"
proof (cases "65 \<le> (of_char c :: nat) \<and> (of_char c :: nat) \<le> 90")
  case True
  have eq: "(of_char (lower_char c) :: nat) = of_char c + 32" using True by (simp add: lower_char_def)
  have colon: "(of_char (CHR '':'') :: nat) = 58" by simp
  have "(of_char (lower_char c) :: nat) \<noteq> 58" "(of_char c :: nat) \<noteq> 58" using eq True by linarith+
  with colon have "lower_char c \<noteq> CHR '':''" "c \<noteq> CHR '':''" by metis+
  then show ?thesis by simp
qed (auto simp: lower_char_def)

lemma trimmed_white: "list_all (\<lambda>c. \<not> white_space c) s \<Longrightarrow> trim_space s = s"
proof -
  assume "list_all (\<lambda>c. \<not> white_space c) s"
  then have "dropWhile white_space s = s" "dropWhile white_space (rev s) = rev s"
    by (auto simp: dropWhile_eq_self_iff list_all_iff hd_rev dest: hd_in_set last_in_set)
  then show ?thesis by (simp add: trim_space_def)
qed

lemma lower_hex_plain: "lower_hex c \<Longrightarrow> \<not> white_space c \<and> c \<noteq> CHR '':'' \<and> lower_char c = c"
  by (auto simp: lower_hex_def white_space_def lower_char_def)

lemma normalize_pin_hex:
  assumes "list_all lower_hex s"
  shows "normalize_pin s = s"
proof -
  have plain: "\<forall>c \<in> set s. \<not> white_space c \<and> c \<noteq> CHR '':'' \<and> lower_char c = c"
    using assms lower_hex_plain by (auto simp: list_all_iff)
  then have "trim_space s = s" by (intro trimmed_white) (simp add: list_all_iff)
  moreover have "without_colons s = s" using plain by (simp add: without_colons_def filter_id_conv)
  moreover have "to_lower s = s" using plain by (simp add: to_lower_def map_idI)
  ultimately show ?thesis by (simp add: normalize_pin_def)
qed

text \<open>What a normalized configuration is.\<close>

definition normal_config :: "config_sdk \<Rightarrow> agent_config \<Rightarrow> bool" where
  "normal_config sdk c \<longleftrightarrow>
     (\<exists>u. cd_parse sdk (cf_server_url c) = Some u \<and> usable_center u \<and> pu_path u = [] \<and> cd_print sdk u = cf_server_url c \<and>
        trim_space (cf_server_url c) = cf_server_url c \<and> trim_slash (cf_server_url c) = cf_server_url c \<and>
        (pu_scheme u = https \<or> pu_scheme u = ''http'' \<and> cf_allow_insecure c \<and> cf_server_cert_sha256 c = [])) \<and>
     abs_and_clean (cf_state_directory c) \<and> (cf_server_cert_sha256 c = [] \<or> valid_sha256 (cf_server_cert_sha256 c))"

lemma normalize_normal:
  assumes "config_sdk_ok sdk" and "config_normalize sdk c = Inr c'"
  shows "normal_config sdk c'" "cf_state_directory c' = cf_state_directory c" "cf_allow_insecure c' = cf_allow_insecure c"
proof -
  let ?pin = "normalize_pin (cf_server_cert_sha256 c)"
  obtain u where u: "cd_parse sdk (trim_space (cf_server_url c)) = Some u"
    using assms(2) by (auto simp: config_normalize_def split: option.splits)
  with assms(2) have ok: "usable_center u" "pu_scheme u = https \<or> pu_scheme u = ''http''"
      "pu_scheme u = ''http'' \<longrightarrow> cf_allow_insecure c" "abs_and_clean (cf_state_directory c)"
      "?pin = [] \<or> pu_scheme u = https \<and> valid_sha256 ?pin"
    and c': "c' = c\<lparr>cf_server_url := trim_slash (cd_print sdk (u\<lparr>pu_path := []\<rparr>)), cf_server_cert_sha256 := ?pin\<rparr>"
    by (auto simp: config_normalize_def Let_def split: if_splits)
  let ?url = "cd_print sdk (u\<lparr>pu_path := []\<rparr>)"
  have print: "cd_parse sdk ?url = Some (u\<lparr>pu_path := []\<rparr>)" "trim_space ?url = ?url" "trim_slash ?url = ?url"
    using assms(1) u ok(1,2) by (auto simp: config_sdk_ok_def)
  have "usable_center (u\<lparr>pu_path := []\<rparr>)" using ok(1) by (simp add: usable_center_def)
  then show "normal_config sdk c'" using print ok(2-5) by (auto simp: normal_config_def c')
  show "cf_state_directory c' = cf_state_directory c" "cf_allow_insecure c' = cf_allow_insecure c" by (simp_all add: c')
qed

lemma normal_normalize:
  assumes "normal_config sdk c"
  shows "config_normalize sdk c = Inr c"
proof -
  obtain u where u: "cd_parse sdk (cf_server_url c) = Some u" "usable_center u" "pu_path u = []" "cd_print sdk u = cf_server_url c"
      "trim_space (cf_server_url c) = cf_server_url c" "trim_slash (cf_server_url c) = cf_server_url c"
      "pu_scheme u = https \<or> pu_scheme u = ''http'' \<and> cf_allow_insecure c \<and> cf_server_cert_sha256 c = []"
    and rest: "abs_and_clean (cf_state_directory c)" "cf_server_cert_sha256 c = [] \<or> valid_sha256 (cf_server_cert_sha256 c)"
    using assms by (auto simp: normal_config_def)
  have "u\<lparr>pu_path := []\<rparr> = u" using u(3) by (cases u) simp
  then have print: "trim_slash (cd_print sdk (u\<lparr>pu_path := []\<rparr>)) = cf_server_url c" using u(4,6) by simp
  have "normalize_pin (cf_server_cert_sha256 c) = cf_server_cert_sha256 c"
    using rest(2) by (auto simp: valid_sha256_def normalize_pin_hex)
  then show ?thesis using u rest print by (auto simp: config_normalize_def Let_def)
qed

subsection \<open>Reading back what was written\<close>

lemma config_saved_loaded:
  assumes "config_sdk_ok sdk" and "config_save sdk fault name c dir = (Inr (), dir')"
  obtains c' raw where "config_normalize sdk c = Inr c'" "normal_config sdk c'" "cd_marshal sdk c' = Some raw"
    "dir' = bucket_put name (config_file (raw @ [CHR 0x0A])) dir"
    "config_load sdk False name dir' = (if length raw < max_config_bytes then Inr c' else Inl ConfigTooLarge)"
proof -
  obtain c' where c': "config_normalize sdk c = Inr c'" using assms(2) by (auto simp: config_save_def split: sum.splits)
  with assms(2) obtain raw where raw: "cd_marshal sdk c' = Some raw" by (auto simp: config_save_def split: option.splits)
  have dir': "dir' = bucket_put name (config_file (raw @ [CHR 0x0A])) dir"
    using assms(2) c' raw by (auto simp: config_save_def replace_config_def split: option.splits write_fault.splits)
  have "cd_unmarshal sdk (raw @ [CHR 0x0A]) = Some c'" using assms(1) raw by (simp add: config_sdk_ok_def)
  moreover have normal: "normal_config sdk c'" by (rule normalize_normal(1) [OF assms(1) c'])
  ultimately show thesis
    using that [OF c' normal raw dir'] normal_normalize [OF normal] by (simp add: config_load_def dir' config_file_def Suc_le_eq not_less)
qed

lemma identity_saved_loaded:
  assumes "identity_sdk_ok sdk" and "identity_save sdk fault v dir = (Inr (), dir')"
  obtains raw where "ik_marshal sdk v = Some raw" "dir' = bucket_put identity_filename (private_file (raw @ [CHR 0x0A])) dir"
    "length raw < max_identity_bytes \<longrightarrow> identity_load sdk False False dir' = Inr v"
proof -
  obtain raw where raw: "ik_valid sdk v" "ik_marshal sdk v = Some raw"
    and dir': "dir' = bucket_put identity_filename (private_file (raw @ [CHR 0x0A])) dir"
    using assms(2) by (auto simp: identity_save_def replace_file_Inr split: option.splits if_splits)
  then have "ik_unmarshal sdk (raw @ [CHR 0x0A]) = Some v" using assms(1) by (simp add: identity_sdk_ok_def)
  then show thesis using that [OF raw(2) dir'] raw(1) by (simp add: identity_load_def dir')
qed

end
