(* ===== verification/ControlSession.thy ===== *)
theory ControlSession
  imports CommandProcessor UpdateManager AgentConfig Actions
begin

section \<open>The control session (internal/agent/client.go)\<close>

text \<open>
  The agent dials the center, exchanges hellos, and then sends one message at a time and waits for the answer to it: the results of completed
  commands, oldest first, and a heartbeat in every period. An acknowledged heartbeat may bring a command, which is stored, and
  confirms the running version.

  What the outside does in one round of the session's loop is a record \<open>tick\<close>: clocks, ends of waits, message ids, the answers
  of the network, faults of the storage, and, as functions of the world, what the agent's other goroutines do while the session waits. Messages
  are encoded and checked by the SDK, whose functions are fields of \<open>session_sdk\<close>; \<open>'l\<close> are the listener statuses of the plugins.
\<close>

subsection \<open>Data\<close>

record control_envelope =
  ce_type :: string
  ce_id :: string
  ce_correlation_id :: string
  ce_payload :: string

record center_hello =
  ch_session_id :: string
  ch_interval_seconds :: int

record heartbeat_ack =
  ha_message_id :: string
  ha_command :: "envelope option"

record 'l session_sdk =
  ss_protocol_error :: string
  ss_center_hello :: string
  ss_heartbeat_ack :: string
  ss_result_ack :: string
  ss_new_hello :: "string \<Rightarrow> identity \<Rightarrow> string \<Rightarrow> time \<Rightarrow> control_envelope option"
  ss_new_heartbeat :: "string \<Rightarrow> string \<Rightarrow> string \<Rightarrow> time \<Rightarrow> 'l \<Rightarrow> control_envelope option"
  ss_new_result :: "string \<Rightarrow> command_result \<Rightarrow> control_envelope option"
  ss_valid_envelope :: "control_envelope \<Rightarrow> bool"
  ss_decode :: "string \<Rightarrow> control_envelope option"
  ss_hello_of :: "control_envelope \<Rightarrow> center_hello option"
  ss_heartbeat_ack_of :: "control_envelope \<Rightarrow> heartbeat_ack option"
  ss_result_ack_of :: "control_envelope \<Rightarrow> command_result_ack option"
  ss_problem_code :: "control_envelope \<Rightarrow> string option"

datatype session_error =
    DialFailed | HandshakeRefused nat | EnvelopeNotMade | EnvelopeInvalid | WriteDeadlineNotSet | NotWritten | ReadDeadlineNotSet | NotRead "nat option"
  | NotTextJSON | MessageUndecodable | MessageInvalid | ProtocolFailure "string option" | UnexpectedHello | HelloUndecodable
  | ResultAckMismatch | HeartbeatAckMismatch | ResultUnavailable command_error | ResultAckNotPersisted processor_error
  | CommandNotPersisted processor_error | UpdateNotConfirmed update_error

text \<open>The state of the agent that a session touches, and the messages that reached the center.\<close>

record control_world =
  cw_processor :: processor
  cw_disk :: update_disk
  cw_sent :: "control_envelope list"

type_synonym meanwhile = "control_world \<Rightarrow> control_world"

subsection \<open>One exchange\<close>

text \<open>A write may fail although the message has reached the center.\<close>

datatype write_end = Written | DeadlineRefused | Broken bool
datatype received = ReadBroken "nat option" | TextMessage string | OtherMessage

record exchange =
  xg_write :: write_end
  xg_deadline_refused :: bool
  xg_meanwhile :: meanwhile
  xg_received :: received

definition write_envelope ::
    "'l session_sdk \<Rightarrow> write_end \<Rightarrow> control_envelope \<Rightarrow> control_world \<Rightarrow> (session_error + unit) \<times> control_world" where
  "write_envelope sdk end e w =
     (if \<not> ss_valid_envelope sdk e then (Inl EnvelopeInvalid, w)
      else case end of
        DeadlineRefused \<Rightarrow> (Inl WriteDeadlineNotSet, w)
      | Broken arrived \<Rightarrow> (Inl NotWritten, if arrived then w\<lparr>cw_sent := cw_sent w @ [e]\<rparr> else w)
      | Written \<Rightarrow> (Inr (), w\<lparr>cw_sent := cw_sent w @ [e]\<rparr>))"

definition read_envelope :: "'l session_sdk \<Rightarrow> received \<Rightarrow> session_error + control_envelope" where
  "read_envelope sdk received =
     (case received of
        ReadBroken code \<Rightarrow> Inl (NotRead code)
      | OtherMessage \<Rightarrow> Inl NotTextJSON
      | TextMessage raw \<Rightarrow>
          (case ss_decode sdk raw of
             None \<Rightarrow> Inl MessageUndecodable
           | Some e \<Rightarrow> if ss_valid_envelope sdk e then Inr e else Inl MessageInvalid))"

definition protocol_failure :: "'l session_sdk \<Rightarrow> control_envelope \<Rightarrow> session_error" where
  "protocol_failure sdk e = ProtocolFailure (ss_problem_code sdk e)"

text \<open>Write, set the deadline for the answer, read it.\<close>

definition exchange_envelopes ::
    "'l session_sdk \<Rightarrow> exchange \<Rightarrow> control_envelope \<Rightarrow> control_world \<Rightarrow> (session_error + control_envelope) \<times> control_world" where
  "exchange_envelopes sdk x e w =
     (case write_envelope sdk (xg_write x) e w of
        (Inl err, w) \<Rightarrow> (Inl err, w)
      | (Inr _, w) \<Rightarrow>
          if xg_deadline_refused x then (Inl ReadDeadlineNotSet, w)
          else (read_envelope sdk (xg_received x), xg_meanwhile x w))"

subsection \<open>Sending a result\<close>

record storage_env =
  sv_now :: time
  sv_fault :: "command_error write_fault option"

definition send_command_result ::
    "command_sdk \<Rightarrow> processor_sdk \<Rightarrow> 'l session_sdk \<Rightarrow> string \<Rightarrow> exchange \<Rightarrow> storage_env \<Rightarrow> command_result \<Rightarrow> control_world
     \<Rightarrow> (session_error + unit) \<times> control_world" where
  "send_command_result csdk px sdk new_id x env result w =
     (case ss_new_result sdk new_id result of
        None \<Rightarrow> (Inl EnvelopeNotMade, w)
      | Some e \<Rightarrow>
          (case exchange_envelopes sdk x e w of
             (Inl err, w) \<Rightarrow> (Inl err, w)
           | (Inr reply, w) \<Rightarrow>
               if ce_type reply = ss_protocol_error sdk then (Inl (protocol_failure sdk reply), w)
               else if ce_type reply \<noteq> ss_result_ack sdk \<or> ce_correlation_id reply \<noteq> ce_id e then (Inl ResultAckMismatch, w)
               else case ss_result_ack_of sdk reply of
                 None \<Rightarrow> (Inl ResultAckMismatch, w)
               | Some ack \<Rightarrow>
                   if ra_command_id ack \<noteq> cr_command_id result \<or> ra_request_sha256 ack \<noteq> cr_request_sha256 result
                   then (Inl ResultAckMismatch, w)
                   else case processor_acknowledge csdk px (sv_fault env) ack (sv_now env) (cw_processor w) of
                     (Inl err, p) \<Rightarrow> (Inl (ResultAckNotPersisted err), w\<lparr>cw_processor := p\<rparr>)
                   | (Inr _, p) \<Rightarrow> (Inr (), w\<lparr>cw_processor := p\<rparr>)))"

subsection \<open>One heartbeat\<close>

text \<open>The last two steps of an acknowledged heartbeat: its command is stored, then the running version is confirmed.\<close>

definition accept_acknowledged ::
    "command_sdk \<Rightarrow> processor_sdk \<Rightarrow> storage_env \<Rightarrow> heartbeat_ack \<Rightarrow> control_world \<Rightarrow> (session_error + unit) \<times> control_world" where
  "accept_acknowledged csdk px env ack w =
     (case ha_command ack of
        None \<Rightarrow> (Inr (), w)
      | Some command \<Rightarrow>
          (case processor_accept csdk px (sv_fault env) command (sv_now env) (cw_processor w) of
             (Inl err, p) \<Rightarrow> (Inl (CommandNotPersisted err), w\<lparr>cw_processor := p\<rparr>)
           | (Inr _, p) \<Rightarrow> (Inr (), w\<lparr>cw_processor := p\<rparr>)))"

definition confirm_running ::
    "update_sdk \<Rightarrow> (disk_write \<Rightarrow> disk_fault option) \<Rightarrow> string \<Rightarrow> control_world \<Rightarrow> (session_error + unit) \<times> control_world" where
  "confirm_running usdk faults version w =
     (case confirm usdk faults version (cw_disk w) of
        (Inl err, d) \<Rightarrow> (Inl (UpdateNotConfirmed err), w\<lparr>cw_disk := d\<rparr>)
      | (Inr _, d) \<Rightarrow> (Inr (), w\<lparr>cw_disk := d\<rparr>))"

text \<open>The answer to a heartbeat: it has to be an acknowledgement of this very message.\<close>

definition acknowledgement_of :: "'l session_sdk \<Rightarrow> control_envelope \<Rightarrow> control_envelope \<Rightarrow> session_error + heartbeat_ack" where
  "acknowledgement_of sdk heartbeat reply =
     (if ce_type reply = ss_protocol_error sdk then Inl (protocol_failure sdk reply)
      else if ce_type reply \<noteq> ss_heartbeat_ack sdk \<or> ce_correlation_id reply \<noteq> ce_id heartbeat then Inl HeartbeatAckMismatch
      else case ss_heartbeat_ack_of sdk reply of
        None \<Rightarrow> Inl HeartbeatAckMismatch
      | Some ack \<Rightarrow> if ha_message_id ack \<noteq> ce_id heartbeat then Inl HeartbeatAckMismatch else Inr ack)"

subsection \<open>The loop\<close>

text \<open>How the wait for the next heartbeat ended: the period was over, a result became ready, or the context was done.\<close>

datatype heartbeat_wait = PeriodOver | ResultReady | SessionDone

record 'l tick =
  tk_message_id :: string
  tk_exchange :: exchange
  tk_cancelled :: bool
  tk_storage :: storage_env
  tk_clock :: time
  tk_wait :: heartbeat_wait
  tk_idle :: meanwhile
  tk_observed_at :: time
  tk_listeners :: 'l
  tk_faults :: "disk_write \<Rightarrow> disk_fault option"
  tk_finished :: time

record session =
  sn_stable :: bool
  sn_next_heartbeat :: time

datatype session_outcome = InSession | SessionEnded "session_error option"

record 'l control_client =
  cc_command_sdk :: command_sdk
  cc_processor_sdk :: processor_sdk
  cc_update_sdk :: update_sdk
  cc_session_sdk :: "'l session_sdk"
  cc_version :: string
  cc_started_at :: time

text \<open>A failed call on the connection is no error when the context is done: the connection was closed on purpose.\<close>

definition unless_cancelled :: "bool \<Rightarrow> session_error \<Rightarrow> session_outcome" where
  "unless_cancelled cancelled e = SessionEnded (if cancelled then None else Some e)"

definition session_heartbeat ::
    "'l control_client \<Rightarrow> center_hello \<Rightarrow> 'l tick \<Rightarrow> session \<Rightarrow> control_world \<Rightarrow> session_outcome \<times> session \<times> control_world" where
  "session_heartbeat c hello tk s w =
     (case ss_new_heartbeat (cc_session_sdk c) (tk_message_id tk) (ch_session_id hello) (cc_version c) (tk_observed_at tk) (tk_listeners tk) of
        None \<Rightarrow> (SessionEnded (Some EnvelopeNotMade), s, w)
      | Some heartbeat \<Rightarrow>
          (case exchange_envelopes (cc_session_sdk c) (tk_exchange tk) heartbeat w of
             (Inl err, w) \<Rightarrow> (unless_cancelled (tk_cancelled tk) err, s, w)
           | (Inr reply, w) \<Rightarrow>
               (case acknowledgement_of (cc_session_sdk c) heartbeat reply of
                  Inl err \<Rightarrow> (SessionEnded (Some err), s, w)
                | Inr ack \<Rightarrow>
                    (case bind_act (accept_acknowledged (cc_command_sdk c) (cc_processor_sdk c) (tk_storage tk) ack)
                            (\<lambda>_. confirm_running (cc_update_sdk c) (tk_faults tk) (cc_version c)) w of
                       (Inl err, w) \<Rightarrow> (SessionEnded (Some err), s, w)
                     | (Inr _, w) \<Rightarrow>
                         (InSession, \<lparr>sn_stable = True, sn_next_heartbeat = tk_finished tk + ch_interval_seconds hello * second\<rparr>, w)))))"

definition session_tick ::
    "'l control_client \<Rightarrow> center_hello \<Rightarrow> 'l tick \<Rightarrow> session \<Rightarrow> control_world \<Rightarrow> session_outcome \<times> session \<times> control_world" where
  "session_tick c hello tk s w =
     (case processor_next_result (cw_processor w) of
        Inr result \<Rightarrow>
          (case send_command_result (cc_command_sdk c) (cc_processor_sdk c) (cc_session_sdk c) (tk_message_id tk) (tk_exchange tk)
                  (tk_storage tk) result w of
             (Inl err, w) \<Rightarrow> (unless_cancelled (tk_cancelled tk) err, s, w)
           | (Inr _, w) \<Rightarrow> (InSession, s, w))
      | Inl err \<Rightarrow>
          if err \<noteq> CommandNotFound then (SessionEnded (Some (ResultUnavailable err)), s, w)
          else if \<not> tk_clock tk < sn_next_heartbeat s then session_heartbeat c hello tk s w
          else case tk_wait tk of
            SessionDone \<Rightarrow> (SessionEnded None, s, tk_idle tk w)
          | ResultReady \<Rightarrow>
              let w = tk_idle tk w in (InSession, s, w\<lparr>cw_processor := (cw_processor w)\<lparr>pc_result_ready := False\<rparr>\<rparr>)
          | PeriodOver \<Rightarrow> session_heartbeat c hello tk s (tk_idle tk w))"

fun session_loop ::
    "'l control_client \<Rightarrow> center_hello \<Rightarrow> 'l tick list \<Rightarrow> session \<Rightarrow> control_world \<Rightarrow> session_outcome \<times> session \<times> control_world" where
  "session_loop c hello [] s w = (InSession, s, w)"
| "session_loop c hello (tk # tks) s w =
     (case session_tick c hello tk s w of
        (InSession, s, w) \<Rightarrow> session_loop c hello tks s w
      | (SessionEnded e, s, w) \<Rightarrow> (SessionEnded e, s, w))"

subsection \<open>A session from the dial on\<close>

datatype dial = DialOk | DialRefused nat | DialBroken

record 'l session_env =
  se_dial :: dial
  se_hello_id :: string
  se_hello :: exchange
  se_clock :: time
  se_ticks :: "'l tick list"

definition run_session ::
    "'l control_client \<Rightarrow> identity \<Rightarrow> 'l session_env \<Rightarrow> control_world \<Rightarrow> session_outcome \<times> bool \<times> control_world" where
  "run_session c current env w =
     (let sdk = cc_session_sdk c; failed = (\<lambda>e w. (SessionEnded (Some e), False, w)) in
      case se_dial env of
        DialRefused status \<Rightarrow> failed (HandshakeRefused status) w
      | DialBroken \<Rightarrow> failed DialFailed w
      | DialOk \<Rightarrow>
          (case ss_new_hello sdk (se_hello_id env) current (cc_version c) (cc_started_at c) of
             None \<Rightarrow> failed EnvelopeNotMade w
           | Some e \<Rightarrow>
               (case exchange_envelopes sdk (se_hello env) e w of
                  (Inl err, w) \<Rightarrow> failed err w
                | (Inr reply, w) \<Rightarrow>
                    if ce_type reply = ss_protocol_error sdk then failed (protocol_failure sdk reply) w
                    else if ce_type reply \<noteq> ss_center_hello sdk then failed UnexpectedHello w
                    else case ss_hello_of sdk reply of
                      None \<Rightarrow> failed HelloUndecodable w
                    | Some hello \<Rightarrow>
                        (case session_loop c hello (se_ticks env) \<lparr>sn_stable = False, sn_next_heartbeat = se_clock env\<rparr> w of
                           (outcome, s, w) \<Rightarrow> (outcome, sn_stable s, w)))))"

end
