(* ===== verification/ControlDelivery.thy ===== *)
theory ControlDelivery
  imports ControlSession
begin

section \<open>What a session does to the command store\<close>

text \<open>
  While the session waits, the command processor completes commands and removes old records. The lemmas follow one record through that,
  through a round of the session's loop and through a session: the store develops by its own operations only, and a
  record becomes acknowledged only in a round that sent its result and read the acknowledgement of it.
\<close>

subsection \<open>The other goroutines\<close>

inductive activity :: "command_sdk \<Rightarrow> command_store \<Rightarrow> command_store \<Rightarrow> bool" for sdk where
  complete: "command_complete sdk fault k sha result t s = (out, s') \<Longrightarrow> activity sdk s s'"
| cleanup: "command_cleanup iter remove_fault sync_fault now s = (out, s') \<Longrightarrow> activity sdk s s'"

abbreviation activities :: "command_sdk \<Rightarrow> command_store \<Rightarrow> command_store \<Rightarrow> bool" where
  "activities sdk \<equiv> (activity sdk)\<^sup>*\<^sup>*"

abbreviation world_store :: "control_world \<Rightarrow> command_store" where
  "world_store w \<equiv> pc_store (cw_processor w)"

definition meanwhile_ok :: "command_sdk \<Rightarrow> meanwhile \<Rightarrow> bool" where
  "meanwhile_ok sdk f \<longleftrightarrow> (\<forall>w. activities sdk (world_store w) (world_store (f w)) \<and> cw_sent (f w) = cw_sent w)"

definition tick_ok :: "command_sdk \<Rightarrow> 'l tick \<Rightarrow> bool" where
  "tick_ok sdk tk \<longleftrightarrow> meanwhile_ok sdk (xg_meanwhile (tk_exchange tk)) \<and> meanwhile_ok sdk (tk_idle tk)"

lemma activity_command_step: "activity sdk s s' \<Longrightarrow> command_step sdk s s'"
  by (auto elim!: activity.cases intro: command_step.intros)

lemma activities_command_run: "activities sdk s s' \<Longrightarrow> command_run sdk s s'"
  by (induction rule: rtranclp_induct) (auto dest: activity_command_step intro: rtranclp.rtrancl_into_rtrancl)

subsection \<open>Acknowledged records\<close>

definition is_acknowledged :: "command_store \<Rightarrow> string \<Rightarrow> command_record \<Rightarrow> bool" where
  "is_acknowledged s k r \<longleftrightarrow> bucket_get (fs_records s) k = Some r \<and> re_state r = StateAcknowledged"

lemma store_record_get:
  "store_record sdk fault r s = (out, s') \<Longrightarrow> bucket_get (fs_records s') k = Some x \<Longrightarrow> bucket_get (fs_records s) k = Some x \<or> x = r \<and> k = re_command_id r \<and> out = Inr ()"
  by (auto simp: store_record_def replace_record_def replace_file_def split: sum.splits option.splits write_fault.splits if_splits)

lemma cleanup_records_get:
  "cleanup_records remove_fault cutoff ks s = (out, s') \<Longrightarrow> bucket_get (fs_records s') k = Some x \<Longrightarrow> bucket_get (fs_records s) k = Some x"
proof (induction ks arbitrary: s)
  case (Cons a ks)
  obtain o1 s1 where one: "cleanup_record remove_fault cutoff a s = (o1, s1)" by force
  then have older: "bucket_get (fs_records s1) k = Some x \<Longrightarrow> bucket_get (fs_records s) k = Some x"
    by (auto simp: cleanup_record_def get_delete split: option.splits if_splits)
  with Cons one show ?case by (cases o1) auto
qed simp

lemma activity_acknowledged: "activity sdk s s' \<Longrightarrow> is_acknowledged s' k r \<Longrightarrow> is_acknowledged s k r"
proof (induction rule: activity.induct)
  case (complete fault k' sha result t s out s')
  then show ?case
    by (auto simp: is_acknowledged_def command_complete_def dest!: store_record_get split: if_splits option.splits)
next
  case (cleanup iter remove_fault sync_fault now s out s')
  then show ?case
    by (auto simp: is_acknowledged_def command_cleanup_def dest!: cleanup_records_get split: prod.splits sum.splits)
qed

lemma activities_acknowledged: "activities sdk s s' \<Longrightarrow> is_acknowledged s' k r \<Longrightarrow> is_acknowledged s k r"
  by (induction rule: rtranclp_induct) (auto dest: activity_acknowledged)

lemma accept_acknowledged_record:
  "command_accept sdk fault k cmd t s = (out, s') \<Longrightarrow> is_acknowledged s' j r \<Longrightarrow> is_acknowledged s j r"
  by (auto simp: is_acknowledged_def command_accept_def Let_def dest!: store_record_get
      split: if_splits option.splits prod.splits sum.splits)

text \<open>A completed record that is not acknowledged stays as it is, apart from the time of its last change.\<close>

lemma activities_completed:
  assumes "activities sdk s s'" and "command_sdk_ok sdk" and "command_inv sdk s"
    and "bucket_get (fs_records s) k = Some r" and "re_state r = StateCompleted"
  shows "command_inv sdk s' \<and> (\<exists>r'. bucket_get (fs_records s') k = Some r' \<and> re_state r' = StateCompleted \<and> advances r r')"
  using assms(1)
proof (induction rule: rtranclp_induct)
  case base
  then show ?case using assms by auto
next
  case (step u v)
  then obtain r' where inv: "command_inv sdk u" and r': "bucket_get (fs_records u) k = Some r'" "re_state r' = StateCompleted" "advances r r'"
    by blast
  then have "\<not> cleaned_up u k r' v" by (auto simp: cleaned_up_def)
  with command_step_record [OF activity_command_step [OF step(2)] assms(2) inv] r'
  obtain r2 where r2: "command_inv sdk v" "bucket_get (fs_records v) k = Some r2" "advances r' r2" by blast
  have "re_state r2 \<noteq> StateAcknowledged"
  proof
    assume "re_state r2 = StateAcknowledged"
    then have "is_acknowledged v k r2" using r2 by (simp add: is_acknowledged_def)
    from activity_acknowledged [OF step(2) this] r' show False by (simp add: is_acknowledged_def)
  qed
  moreover have "state_shape_ok r2" by (rule validate_recordD(3) [OF command_invD(2) [OF r2(1,2)]])
  moreover have "state_rank (re_state r') \<le> state_rank (re_state r2)" using r2(3) by (simp only: advances_def)
  ultimately have "re_state r2 = StateCompleted"
    using r'(2) by (cases "re_state r2") (simp_all add: state_shape_ok_def state_rank_def)
  then show ?case using r2 advances_trans [OF r'(3) r2(3)] by blast
qed

lemma next_result_record:
  assumes "next_result s = Inr result" and "command_inv sdk s"
  obtains r rs where "sorted_locked StateCompleted s = r # rs" "bucket_get (fs_records s) (cr_command_id result) = Some r" "re_state r = StateCompleted"
    "re_result r = Some result" "re_command_id r = cr_command_id result" "re_request_sha256 r = cr_request_sha256 result"
proof -
  obtain r rs where r: "sorted_locked StateCompleted s = r # rs" "re_result r = Some result"
    using assms(1) by (auto simp: next_result_def split: list.splits option.splits)
  then have get: "re_state r = StateCompleted" "bucket_get (fs_records s) (re_command_id r) = Some r"
    using set_sorted_locked [OF assms(2)] by (metis list.set_intros(1))+
  have "cr_command_id result = re_command_id r \<and> cr_request_sha256 result = re_request_sha256 r"
    by (rule validate_record_result [OF command_invD(2) [OF assms(2) get(2)] r(2)])
  then show thesis using get r by (intro that [of r rs]) simp_all
qed

subsection \<open>One exchange\<close>

lemma exchange_effect:
  assumes "exchange_envelopes sdk x e w = (r, w')" and "meanwhile_ok csdk (xg_meanwhile x)"
  obtains news where "activities csdk (world_store w) (world_store w')" "cw_sent w' = cw_sent w @ news"
    "\<And>reply. r = Inr reply \<Longrightarrow> news = [e] \<and> read_envelope sdk (xg_received x) = Inr reply"
proof -
  obtain r1 w1 where wrote: "write_envelope sdk (xg_write x) e w = (r1, w1)" by force
  have kept: "cw_processor w1 = cw_processor w" "\<exists>news. cw_sent w1 = cw_sent w @ news \<and> (\<forall>u. r1 = Inr u \<longrightarrow> news = [e])"
    using wrote by (auto simp: write_envelope_def split: if_splits write_end.splits)
  then obtain news where news: "cw_sent w1 = cw_sent w @ news" "\<forall>u. r1 = Inr u \<longrightarrow> news = [e]" by blast
  have step: "activities csdk (world_store w1) (world_store (xg_meanwhile x w1))" "cw_sent (xg_meanwhile x w1) = cw_sent w1"
    using assms(2) by (auto simp: meanwhile_ok_def)
  show thesis
    by (rule that [of news]) (use assms(1) wrote kept(1) news step in \<open>auto simp: exchange_envelopes_def split: sum.splits if_splits\<close>)
qed

subsection \<open>Sending a result\<close>

lemma acknowledge_acknowledged_record:
  assumes "command_acknowledge sdk fault k sha t s = (out, s')" and "is_acknowledged s' j r" and "command_inv sdk s"
  shows "is_acknowledged s j r \<or> j = k \<and> (\<exists>old. bucket_get (fs_records s) k = Some old \<and> re_result r = re_result old)"
proof (cases "bucket_get (fs_records s) k")
  case None
  with assms show ?thesis by (auto simp: command_acknowledge_def)
next
  case (Some old)
  show ?thesis
  proof (cases "s' = s")
    case False
    with assms(1) Some have stored: "store_record sdk fault (old\<lparr>re_state := StateAcknowledged, re_updated_at := t, re_acknowledged_at := Some t\<rparr>) s = (out, s')"
      by (auto simp: command_acknowledge_def split: if_splits)
    have get: "bucket_get (fs_records s') j = Some r" and ack: "re_state r = StateAcknowledged"
      using assms(2) by (simp_all add: is_acknowledged_def)
    from store_record_get [OF stored get] show ?thesis
    proof
      assume "bucket_get (fs_records s) j = Some r"
      with ack show ?thesis by (simp add: is_acknowledged_def)
    next
      assume new: "r = old\<lparr>re_state := StateAcknowledged, re_updated_at := t, re_acknowledged_at := Some t\<rparr> \<and>
         j = re_command_id (old\<lparr>re_state := StateAcknowledged, re_updated_at := t, re_acknowledged_at := Some t\<rparr>) \<and> out = Inr ()"
      moreover have "re_command_id old = k" by (rule command_invD(1) [OF assms(3) Some])
      ultimately show ?thesis using Some by simp
    qed
  qed (use assms(2) in simp)
qed

text \<open>The round sends this envelope with the result, and reads the acknowledgement of it.\<close>

definition result_acknowledged :: "'l session_sdk \<Rightarrow> 'l tick \<Rightarrow> command_result \<Rightarrow> control_envelope \<Rightarrow> bool" where
  "result_acknowledged sdk tk result e \<longleftrightarrow>
     ss_new_result sdk (tk_message_id tk) result = Some e \<and>
     (\<exists>reply ack. read_envelope sdk (xg_received (tk_exchange tk)) = Inr reply \<and> ce_type reply = ss_result_ack sdk \<and>
        ce_correlation_id reply = ce_id e \<and> ss_result_ack_of sdk reply = Some ack \<and>
        ra_command_id ack = cr_command_id result \<and> ra_request_sha256 ack = cr_request_sha256 result)"

definition delivered :: "'l session_sdk \<Rightarrow> 'l tick list \<Rightarrow> control_envelope list \<Rightarrow> command_record \<Rightarrow> bool" where
  "delivered sdk tks news r \<longleftrightarrow>
     (\<exists>tk \<in> set tks. \<exists>result e. re_result r = Some result \<and> result_acknowledged sdk tk result e \<and> e \<in> set news)"

text \<open>The effect of the rounds \<open>tks\<close>: the store runs by its operations, and a record that became acknowledged was delivered.\<close>

definition session_effect :: "command_sdk \<Rightarrow> 'l session_sdk \<Rightarrow> 'l tick list \<Rightarrow> control_world \<Rightarrow> control_world \<Rightarrow> bool" where
  "session_effect csdk sdk tks w w' \<longleftrightarrow>
     command_run csdk (world_store w) (world_store w') \<and>
     (\<exists>news. cw_sent w' = cw_sent w @ news \<and>
        (\<forall>k r. is_acknowledged (world_store w') k r \<longrightarrow> is_acknowledged (world_store w) k r \<or> delivered sdk tks news r))"

lemma session_effect_refl: "session_effect csdk sdk tks w w"
  by (simp add: session_effect_def)

lemma session_effect_trans:
  assumes "session_effect csdk sdk tks w1 w2" and "session_effect csdk sdk tks' w2 w3"
  shows "session_effect csdk sdk (tks @ tks') w1 w3"
proof -
  obtain news news' where news: "cw_sent w2 = cw_sent w1 @ news" "cw_sent w3 = cw_sent w2 @ news'"
    and acks: "\<forall>k r. is_acknowledged (world_store w2) k r \<longrightarrow> is_acknowledged (world_store w1) k r \<or> delivered sdk tks news r"
      "\<forall>k r. is_acknowledged (world_store w3) k r \<longrightarrow> is_acknowledged (world_store w2) k r \<or> delivered sdk tks' news' r"
    using assms unfolding session_effect_def by blast
  have "delivered sdk (tks @ tks') (news @ news') r" if "delivered sdk tks news r \<or> delivered sdk tks' news' r" for r
    using that by (auto simp: delivered_def)
  with news acks have "\<exists>news. cw_sent w3 = cw_sent w1 @ news \<and>
      (\<forall>k r. is_acknowledged (world_store w3) k r \<longrightarrow> is_acknowledged (world_store w1) k r \<or> delivered sdk (tks @ tks') news r)"
    by (intro exI [of _ "news @ news'"] conjI allI impI) (simp, blast)
  moreover have "command_run csdk (world_store w1) (world_store w3)"
    using assms by (auto simp: session_effect_def)
  ultimately show ?thesis by (simp add: session_effect_def)
qed

text \<open>An effect without acknowledgements belongs to any rounds.\<close>

lemma quiet_effect:
  assumes "command_run csdk (world_store w) (world_store w')" and "cw_sent w' = cw_sent w @ news"
    and "\<And>k r. is_acknowledged (world_store w') k r \<Longrightarrow> is_acknowledged (world_store w) k r"
  shows "session_effect csdk sdk tks w w'"
  using assms unfolding session_effect_def by blast

lemma processor_acknowledge_store:
  "processor_acknowledge csdk px fault ack t p = (r, p') \<Longrightarrow>
   (\<exists>out. command_acknowledge csdk fault (ra_command_id ack) (ra_request_sha256 ack) t (pc_store p) = (out, pc_store p')) \<or>
   pc_store p' = pc_store p"
  by (auto simp: processor_acknowledge_def split: if_splits prod.splits sum.splits)

text \<open>Either the world is that after the exchange, or the acknowledgement was stored in it.\<close>

lemma send_command_result_cases:
  assumes "send_command_result csdk px sdk new_id x env result w = (out, w')" and "ss_new_result sdk new_id result = Some e"
    and "exchange_envelopes sdk x e w = (r1, w1)"
  obtains (unread) "w' = w1" "\<exists>err. out = Inl err"
  | (read) reply ack r p where "r1 = Inr reply" "ce_type reply = ss_result_ack sdk" "ce_correlation_id reply = ce_id e"
      "ss_result_ack_of sdk reply = Some ack" "ra_command_id ack = cr_command_id result" "ra_request_sha256 ack = cr_request_sha256 result"
      "processor_acknowledge csdk px (sv_fault env) ack (sv_now env) (cw_processor w1) = (r, p)" "w' = w1\<lparr>cw_processor := p\<rparr>"
      "out = (case r of Inl err \<Rightarrow> Inl (ResultAckNotPersisted err) | Inr _ \<Rightarrow> Inr ())"
proof (cases r1)
  case (Inl err)
  then show thesis using assms by (intro unread) (auto simp: send_command_result_def)
next
  case (Inr reply)
  obtain q where q: "ss_result_ack_of sdk reply = q" by simp
  consider (bad) "ce_type reply = ss_protocol_error sdk \<or> ce_type reply \<noteq> ss_result_ack sdk \<or> ce_correlation_id reply \<noteq> ce_id e \<or> q = None"
    | (good) ack where "ce_type reply \<noteq> ss_protocol_error sdk" "ce_type reply = ss_result_ack sdk" "ce_correlation_id reply = ce_id e" "q = Some ack"
    by fastforce
  then show thesis
  proof cases
    case bad
    with assms Inr q show thesis by (intro unread) (auto simp: send_command_result_def split: if_splits option.splits)
  next
    case good
    obtain r p where stored: "processor_acknowledge csdk px (sv_fault env) ack (sv_now env) (cw_processor w1) = (r, p)" by force
    show thesis
    proof (cases "ra_command_id ack = cr_command_id result \<and> ra_request_sha256 ack = cr_request_sha256 result")
      case True
      with assms Inr q good stored show thesis
        by (intro read [of reply ack r p]) (simp_all add: send_command_result_def split: sum.splits)
    next
      case False
      with assms Inr q good show thesis by (intro unread) (auto simp: send_command_result_def)
    qed
  qed
qed

lemma send_command_result_effect:
  assumes run: "send_command_result csdk px sdk (tk_message_id tk) (tk_exchange tk) env result w = (out, w')"
    and ok: "command_sdk_ok csdk" "command_inv csdk (world_store w)" "tick_ok csdk tk"
    and next_is: "next_result (world_store w) = Inr result"
  shows "session_effect csdk sdk [tk] w w'"
proof (cases "ss_new_result sdk (tk_message_id tk) result")
  case None
  with run show ?thesis by (simp add: send_command_result_def session_effect_refl)
next
  case (Some e)
  obtain r1 w1 where x: "exchange_envelopes sdk (tk_exchange tk) e w = (r1, w1)" by force
  have "meanwhile_ok csdk (xg_meanwhile (tk_exchange tk))" using ok(3) by (simp add: tick_ok_def)
  then obtain news where act: "activities csdk (world_store w) (world_store w1)" and news: "cw_sent w1 = cw_sent w @ news"
    and reply: "\<And>reply. r1 = Inr reply \<Longrightarrow> news = [e] \<and> read_envelope sdk (xg_received (tk_exchange tk)) = Inr reply"
    by (rule exchange_effect [OF x]) blast
  have quiet: "session_effect csdk sdk [tk] w w1"
    by (rule quiet_effect [OF activities_command_run [OF act] news activities_acknowledged [OF act]])
  from run Some x show ?thesis
  proof (cases rule: send_command_result_cases)
    case unread
    with quiet show ?thesis by simp
  next
    case (read answer ack out' p)
    note answer = read(1-6) and stored = read(7) and w' = read(8)
    obtain out2 s' where s': "command_acknowledge csdk (sv_fault env) (ra_command_id ack) (ra_request_sha256 ack) (sv_now env) (world_store w1) = (out2, s')
        \<or> s' = world_store w1" "world_store w' = s'"
      using processor_acknowledge_store [OF stored] w' by auto
    obtain r rs where r: "bucket_get (fs_records (world_store w)) (cr_command_id result) = Some r" "re_state r = StateCompleted" "re_result r = Some result"
      by (rule next_result_record [OF next_is ok(2)]) blast
    obtain r' where r': "bucket_get (fs_records (world_store w1)) (cr_command_id result) = Some r'" "advances r r'"
      and inv1: "command_inv csdk (world_store w1)"
      using activities_completed [OF act ok(1,2) r(1,2)] by blast
    have sent: "cw_sent w' = cw_sent w @ [e]" using reply [OF answer(1)] news w' by simp
    have this_one: "result_acknowledged sdk tk result e"
      using Some answer reply [OF answer(1)] by (auto simp: result_acknowledged_def)
    have "is_acknowledged (world_store w) k x \<or> delivered sdk [tk] [e] x" if "is_acknowledged (world_store w') k x" for k x
      using s'(1)
    proof
      assume "s' = world_store w1"
      with that s'(2) activities_acknowledged [OF act] show ?thesis by simp
    next
      assume "command_acknowledge csdk (sv_fault env) (ra_command_id ack) (ra_request_sha256 ack) (sv_now env) (world_store w1) = (out2, s')"
      from acknowledge_acknowledged_record [OF this _ inv1] that s'(2)
      have "is_acknowledged (world_store w1) k x \<or>
          (\<exists>old. bucket_get (fs_records (world_store w1)) (cr_command_id result) = Some old \<and> re_result x = re_result old)"
        using answer(5) by auto
      then show ?thesis
      proof
        assume "is_acknowledged (world_store w1) k x"
        with activities_acknowledged [OF act] show ?thesis by blast
      next
        assume "\<exists>old. bucket_get (fs_records (world_store w1)) (cr_command_id result) = Some old \<and> re_result x = re_result old"
        then have "re_result x = Some result" using r' r(3) by (auto simp: advances_def)
        with this_one show ?thesis by (auto simp: delivered_def)
      qed
    qed
    moreover have "command_run csdk (world_store w) (world_store w')"
      using activities_command_run [OF act] s' command_step.acknowledge by (metis rtranclp.rtrancl_into_rtrancl)
    ultimately show ?thesis using sent unfolding session_effect_def by blast
  qed
qed

subsection \<open>One heartbeat\<close>

lemma accept_acknowledged_effect:
  assumes "accept_acknowledged csdk px env ack w = (r, w')"
  shows "command_run csdk (world_store w) (world_store w')" "cw_sent w' = cw_sent w" "cw_disk w' = cw_disk w"
    "is_acknowledged (world_store w') k x \<Longrightarrow> is_acknowledged (world_store w) k x"
proof -
  have "(\<exists>j cmd out. command_accept csdk (sv_fault env) j cmd (sv_now env) (world_store w) = (out, world_store w')) \<or>
      world_store w' = world_store w" and same: "cw_sent w' = cw_sent w" "cw_disk w' = cw_disk w"
    using assms by (fastforce simp: accept_acknowledged_def processor_accept_def split: option.splits prod.splits sum.splits if_splits)+
  then show "command_run csdk (world_store w) (world_store w')"
      "is_acknowledged (world_store w') k x \<Longrightarrow> is_acknowledged (world_store w) k x"
    by (auto dest: command_step.accept accept_acknowledged_record)
  show "cw_sent w' = cw_sent w" "cw_disk w' = cw_disk w" by (fact same)+
qed

lemma confirm_running_effect:
  "confirm_running usdk faults version w = (r, w') \<Longrightarrow> cw_processor w' = cw_processor w \<and> cw_sent w' = cw_sent w"
  by (auto simp: confirm_running_def split: prod.splits sum.splits)

text \<open>The heartbeat of a round, if it is acknowledged.\<close>

definition heartbeat_acknowledged ::
    "'l control_client \<Rightarrow> center_hello \<Rightarrow> 'l tick \<Rightarrow> control_envelope \<Rightarrow> heartbeat_ack \<Rightarrow> bool" where
  "heartbeat_acknowledged c hello tk e ack \<longleftrightarrow>
     ss_new_heartbeat (cc_session_sdk c) (tk_message_id tk) (ch_session_id hello) (cc_version c) (tk_observed_at tk) (tk_listeners tk) = Some e \<and>
     (\<exists>reply. read_envelope (cc_session_sdk c) (xg_received (tk_exchange tk)) = Inr reply \<and> ce_type reply = ss_heartbeat_ack (cc_session_sdk c) \<and>
        ce_correlation_id reply = ce_id e \<and> ss_heartbeat_ack_of (cc_session_sdk c) reply = Some ack \<and> ha_message_id ack = ce_id e)"

text \<open>Either nothing but the exchange happened, or the heartbeat was acknowledged.\<close>

lemma session_heartbeat_cases:
  assumes "session_heartbeat c hello tk s w = (out, s', w')"
  obtains (unmade) "w' = w" "s' = s" "out \<noteq> InSession"
  | (unread) e r where "exchange_envelopes (cc_session_sdk c) (tk_exchange tk) e w = (r, w')" "s' = s" "out \<noteq> InSession"
  | (read) e reply w1 ack r where "exchange_envelopes (cc_session_sdk c) (tk_exchange tk) e w = (Inr reply, w1)"
      "read_envelope (cc_session_sdk c) (xg_received (tk_exchange tk)) = Inr reply \<Longrightarrow> heartbeat_acknowledged c hello tk e ack"
      "bind_act (accept_acknowledged (cc_command_sdk c) (cc_processor_sdk c) (tk_storage tk) ack)
         (\<lambda>_. confirm_running (cc_update_sdk c) (tk_faults tk) (cc_version c)) w1 = (r, w')"
      "(s', out) = (case r of Inl err \<Rightarrow> (s, SessionEnded (Some err))
         | Inr _ \<Rightarrow> (\<lparr>sn_stable = True, sn_next_heartbeat = tk_finished tk + ch_interval_seconds hello * second\<rparr>, InSession))"
proof (cases "ss_new_heartbeat (cc_session_sdk c) (tk_message_id tk) (ch_session_id hello) (cc_version c) (tk_observed_at tk) (tk_listeners tk)")
  case None
  with assms show thesis by (intro unmade) (auto simp: session_heartbeat_def)
next
  case (Some e)
  obtain r1 w1 where x: "exchange_envelopes (cc_session_sdk c) (tk_exchange tk) e w = (r1, w1)" by force
  show thesis
  proof (cases r1)
    case (Inl err)
    with assms Some x show thesis by (intro unread [of e r1]) (auto simp: session_heartbeat_def unless_cancelled_def)
  next
    case (Inr reply)
    show thesis
    proof (cases "acknowledgement_of (cc_session_sdk c) e reply")
      case (Inl err)
      with assms Some x Inr show thesis by (intro unread [of e r1]) (auto simp: session_heartbeat_def)
    next
      case ack: (Inr ack)
      then have "ce_type reply = ss_heartbeat_ack (cc_session_sdk c) \<and> ce_correlation_id reply = ce_id e \<and>
          ss_heartbeat_ack_of (cc_session_sdk c) reply = Some ack \<and> ha_message_id ack = ce_id e"
        by (auto simp: acknowledgement_of_def split: if_splits option.splits)
      moreover obtain r w2 where run: "bind_act (accept_acknowledged (cc_command_sdk c) (cc_processor_sdk c) (tk_storage tk) ack)
          (\<lambda>_. confirm_running (cc_update_sdk c) (tk_faults tk) (cc_version c)) w1 = (r, w2)" by force
      ultimately show thesis
        using assms Some x Inr ack
        by (intro read [of e reply w1 ack r])
          (auto simp: session_heartbeat_def heartbeat_acknowledged_def split: sum.splits)
    qed
  qed
qed

lemma session_heartbeat_effect:
  assumes run: "session_heartbeat c hello tk s w = (out, s', w')" and tk: "tick_ok (cc_command_sdk c) tk"
  shows "session_effect (cc_command_sdk c) (cc_session_sdk c) [tk] w w'"
proof -
  have ok: "meanwhile_ok (cc_command_sdk c) (xg_meanwhile (tk_exchange tk))" using tk by (simp add: tick_ok_def)
  from run show ?thesis
  proof (cases rule: session_heartbeat_cases)
    case unmade
    then show ?thesis by (simp add: session_effect_refl)
  next
    case (unread e r)
    show ?thesis
      by (rule exchange_effect [OF unread(1) ok]) (rule quiet_effect, auto intro: activities_command_run activities_acknowledged)
  next
    case (read e reply w1 ack r)
    obtain news where act: "activities (cc_command_sdk c) (world_store w) (world_store w1)" and news: "cw_sent w1 = cw_sent w @ news"
      by (rule exchange_effect [OF read(1) ok]) blast
    obtain w2 where store: "world_store w' = world_store w2" "cw_sent w' = cw_sent w2"
      and accept: "\<exists>r. accept_acknowledged (cc_command_sdk c) (cc_processor_sdk c) (tk_storage tk) ack w1 = (r, w2)"
      using read(3) by (cases rule: bind_act_elim) (auto dest!: confirm_running_effect)
    from accept obtain r2 where accept: "accept_acknowledged (cc_command_sdk c) (cc_processor_sdk c) (tk_storage tk) ack w1 = (r2, w2)" ..
    note effect = accept_acknowledged_effect [OF accept]
    have "command_run (cc_command_sdk c) (world_store w) (world_store w')"
      using activities_command_run [OF act] effect(1) store(1) by simp
    moreover have "cw_sent w' = cw_sent w @ news" using effect(2) store(2) news by simp
    moreover have "is_acknowledged (world_store w') k x \<Longrightarrow> is_acknowledged (world_store w) k x" for k x
      using effect(4) activities_acknowledged [OF act] store(1) by metis
    ultimately show ?thesis by (rule quiet_effect)
  qed
qed

subsection \<open>Rounds and sessions\<close>

lemma idle_effect:
  "tick_ok csdk tk \<Longrightarrow> session_effect csdk sdk tks w (tk_idle tk w)"
  unfolding tick_ok_def meanwhile_ok_def
  by (intro quiet_effect [where news = "[]"]) (auto intro: activities_command_run dest: activities_acknowledged)

lemma session_tick_effect:
  assumes run: "session_tick c hello tk s w = (out, s', w')"
    and ok: "command_sdk_ok (cc_command_sdk c)" "command_inv (cc_command_sdk c) (world_store w)" "tick_ok (cc_command_sdk c) tk"
  shows "session_effect (cc_command_sdk c) (cc_session_sdk c) [tk] w w'"
proof (cases "processor_next_result (cw_processor w)")
  case (Inr result)
  then have next_is: "next_result (world_store w) = Inr result" by (simp add: processor_next_result_def)
  obtain r w1 where send: "send_command_result (cc_command_sdk c) (cc_processor_sdk c) (cc_session_sdk c) (tk_message_id tk) (tk_exchange tk)
      (tk_storage tk) result w = (r, w1)" by force
  moreover have "w' = w1" using run Inr send by (auto simp: session_tick_def split: sum.splits)
  ultimately show ?thesis using send_command_result_effect [OF send ok next_is] by simp
next
  case (Inl err)
  note idle = idle_effect [OF ok(3), of "cc_session_sdk c"]
  consider (stopped) "w' = w" | (waited) "w' = tk_idle tk w"
    | (ready) "w' = (tk_idle tk w)\<lparr>cw_processor := (cw_processor (tk_idle tk w))\<lparr>pc_result_ready := False\<rparr>\<rparr>"
    | (due) "session_heartbeat c hello tk s w = (out, s', w')"
    | (later) "session_heartbeat c hello tk s (tk_idle tk w) = (out, s', w')"
    using run Inl by (auto simp: session_tick_def Let_def split: if_splits heartbeat_wait.splits)
  then show ?thesis
  proof cases
    case stopped
    then show ?thesis by (simp add: session_effect_refl)
  next
    case waited
    then show ?thesis using idle by simp
  next
    case ready
    then show ?thesis using idle [of "[tk]" w] by (simp add: session_effect_def)
  next
    case due
    then show ?thesis by (rule session_heartbeat_effect [OF _ ok(3)])
  next
    case later
    from session_effect_trans [OF idle [of "[]" w] session_heartbeat_effect [OF later ok(3)]] show ?thesis by simp
  qed
qed

lemma session_effect_inv:
  "session_effect csdk sdk tks w w' \<Longrightarrow> command_sdk_ok csdk \<Longrightarrow> command_inv csdk (world_store w) \<Longrightarrow> command_inv csdk (world_store w')"
  unfolding session_effect_def using command_run_inv by blast

lemma session_loop_effect:
  assumes "session_loop c hello tks s w = (out, s', w')" and "command_sdk_ok (cc_command_sdk c)"
    and "command_inv (cc_command_sdk c) (world_store w)" and "list_all (tick_ok (cc_command_sdk c)) tks"
  shows "session_effect (cc_command_sdk c) (cc_session_sdk c) tks w w'"
  using assms
proof (induction tks arbitrary: s w)
  case Nil
  then show ?case by (simp add: session_effect_refl)
next
  case (Cons tk tks)
  obtain o1 s1 w1 where one: "session_tick c hello tk s w = (o1, s1, w1)" by (metis prod_cases3)
  have tk: "tick_ok (cc_command_sdk c) tk" using Cons.prems(4) by simp
  note first = session_tick_effect [OF one Cons.prems(2,3) tk]
  show ?case
  proof (cases o1)
    case InSession
    with one Cons.prems(1) have rest: "session_loop c hello tks s1 w1 = (out, s', w')" by simp
    have "session_effect (cc_command_sdk c) (cc_session_sdk c) tks w1 w'"
      using Cons.IH [OF rest Cons.prems(2) session_effect_inv [OF first Cons.prems(2,3)]] Cons.prems(4) by simp
    from session_effect_trans [OF first this] show ?thesis by simp
  next
    case (SessionEnded e)
    with one Cons.prems(1) have "w' = w1" by simp
    with session_effect_trans [OF first session_effect_refl [of _ _ tks]] show ?thesis by simp
  qed
qed

lemma run_session_effect:
  assumes run: "run_session c current env w = (out, steady, w')" and ok: "command_sdk_ok (cc_command_sdk c)"
    and inv: "command_inv (cc_command_sdk c) (world_store w)" and hello: "meanwhile_ok (cc_command_sdk c) (xg_meanwhile (se_hello env))"
    and ticks: "list_all (tick_ok (cc_command_sdk c)) (se_ticks env)"
  shows "session_effect (cc_command_sdk c) (cc_session_sdk c) (se_ticks env) w w'"
proof (cases "se_dial env = DialOk \<and> ss_new_hello (cc_session_sdk c) (se_hello_id env) current (cc_version c) (cc_started_at c) \<noteq> None")
  case False
  with run have "w' = w" by (auto simp: run_session_def Let_def split: dial.splits option.splits)
  then show ?thesis by (simp add: session_effect_refl)
next
  case True
  then obtain e where e: "se_dial env = DialOk" "ss_new_hello (cc_session_sdk c) (se_hello_id env) current (cc_version c) (cc_started_at c) = Some e"
    by blast
  obtain r1 w1 where x: "exchange_envelopes (cc_session_sdk c) (se_hello env) e w = (r1, w1)" by force
  have first: "session_effect (cc_command_sdk c) (cc_session_sdk c) [] w w1"
    by (rule exchange_effect [OF x hello]) (rule quiet_effect, auto intro: activities_command_run activities_acknowledged)
  show ?thesis
  proof (cases "\<exists>reply hello s. r1 = Inr reply \<and>
      session_loop c hello (se_ticks env) \<lparr>sn_stable = False, sn_next_heartbeat = se_clock env\<rparr> w1 = (out, s, w')")
    case True
    then obtain reply hello s where "session_loop c hello (se_ticks env) \<lparr>sn_stable = False, sn_next_heartbeat = se_clock env\<rparr> w1 = (out, s, w')"
      by blast
    from session_effect_trans [OF first session_loop_effect [OF this ok session_effect_inv [OF first ok inv] ticks]] show ?thesis by simp
  next
    case False
    with run e x have "w' = w1" by (auto simp: run_session_def Let_def split: sum.splits if_splits option.splits prod.splits)
    with session_effect_trans [OF first session_effect_refl [of _ _ "se_ticks env"]] show ?thesis by simp
  qed
qed

subsection \<open>Delivering all results\<close>

text \<open>The record after its acknowledgement, and the message with its result.\<close>

definition acknowledged_record :: "'l tick \<Rightarrow> command_record \<Rightarrow> command_record" where
  "acknowledged_record tk r =
     r\<lparr>re_state := StateAcknowledged, re_updated_at := sv_now (tk_storage tk), re_acknowledged_at := Some (sv_now (tk_storage tk))\<rparr>"

definition result_message :: "'l session_sdk \<Rightarrow> 'l tick \<Rightarrow> command_record \<Rightarrow> control_envelope option" where
  "result_message sdk tk r = (case re_result r of None \<Rightarrow> None | Some result \<Rightarrow> ss_new_result sdk (tk_message_id tk) result)"

text \<open>The round reaches the center, which acknowledges the result of this record; nothing else happens, and the store can write.\<close>

definition answered :: "'l control_client \<Rightarrow> 'l tick \<Rightarrow> command_record \<Rightarrow> bool" where
  "answered c tk r \<longleftrightarrow>
     xg_write (tk_exchange tk) = Written \<and> \<not> xg_deadline_refused (tk_exchange tk) \<and> xg_meanwhile (tk_exchange tk) = (\<lambda>w. w) \<and>
     sv_fault (tk_storage tk) = None \<and> \<not> time_is_zero (sv_now (tk_storage tk)) \<and>
     sdk_marshal_record (cc_command_sdk c) (acknowledged_record tk r) \<noteq> None \<and> ss_result_ack (cc_session_sdk c) \<noteq> ss_protocol_error (cc_session_sdk c) \<and>
     (\<exists>result e. re_result r = Some result \<and> ss_valid_envelope (cc_session_sdk c) e \<and>
        result_acknowledged (cc_session_sdk c) tk result e \<and>
        (\<forall>reply ack. read_envelope (cc_session_sdk c) (xg_received (tk_exchange tk)) = Inr reply \<longrightarrow>
           ss_result_ack_of (cc_session_sdk c) reply = Some ack \<longrightarrow> px_valid_ack (cc_processor_sdk c) ack))"

lemma acknowledge_completed:
  assumes ok: "command_sdk_ok sdk" and inv: "command_inv sdk s" and get: "bucket_get (fs_records s) k = Some r" "re_state r = StateCompleted"
    and t: "\<not> time_is_zero t"
    and raw: "sdk_marshal_record sdk (r\<lparr>re_state := StateAcknowledged, re_updated_at := t, re_acknowledged_at := Some t\<rparr>) \<noteq> None"
  obtains s' where "command_acknowledge sdk None k (re_request_sha256 r) t s = (Inr (), s')" "command_inv sdk s'"
    "fs_records s' = bucket_put k (r\<lparr>re_state := StateAcknowledged, re_updated_at := t, re_acknowledged_at := Some t\<rparr>) (fs_records s)"
proof -
  let ?r = "r\<lparr>re_state := StateAcknowledged, re_updated_at := t, re_acknowledged_at := Some t\<rparr>"
  have id: "re_command_id r = k" and valid: "validate_record sdk r = Inr ()" using command_invD [OF inv get(1)] by auto
  have shape: "state_shape_ok r" by (rule validate_recordD(3) [OF valid])
  have "validate_record sdk ?r = Inr ()"
    using valid get(2) t by (auto simp: validate_record_def state_shape_ok_def split: if_splits)
  then obtain dir' where "store_record sdk None ?r s = (Inr (), s\<lparr>fs_files := dir', fs_records := bucket_put k ?r (fs_records s)\<rparr>)"
    using raw id by (auto simp: store_record_def encode_record_def replace_record_def replace_file_def)
  then have done': "command_acknowledge sdk None k (re_request_sha256 r) t s = (Inr (), s\<lparr>fs_files := dir', fs_records := bucket_put k ?r (fs_records s)\<rparr>)"
    using get shape by (auto simp: command_acknowledge_def state_shape_ok_def)
  from acknowledge_step [OF this ok inv] that [OF done'] show ?thesis by simp
qed

lemma answered_tick:
  assumes ok: "command_sdk_ok (cc_command_sdk c)" and inv: "command_inv (cc_command_sdk c) (world_store w)"
    and first: "sorted_locked StateCompleted (world_store w) = r # rs" and answer: "answered c tk r"
  obtains w' e where "session_tick c hello tk s w = (InSession, s, w')" "command_inv (cc_command_sdk c) (world_store w')"
    "sorted_locked StateCompleted (world_store w') = rs" "result_message (cc_session_sdk c) tk r = Some e" "cw_sent w' = cw_sent w @ [e]"
    "fs_records (world_store w') = bucket_put (re_command_id r) (acknowledged_record tk r) (fs_records (world_store w))"
proof -
  let ?sdk = "cc_session_sdk c" and ?t = "sv_now (tk_storage tk)"
  obtain result e reply ack where result: "re_result r = Some result" "ss_new_result ?sdk (tk_message_id tk) result = Some e" "ss_valid_envelope ?sdk e"
    and reply: "read_envelope ?sdk (xg_received (tk_exchange tk)) = Inr reply" "ce_type reply = ss_result_ack ?sdk" "ce_correlation_id reply = ce_id e"
      "ss_result_ack_of ?sdk reply = Some ack" "ra_command_id ack = cr_command_id result" "ra_request_sha256 ack = cr_request_sha256 result"
      "px_valid_ack (cc_processor_sdk c) ack"
    using answer unfolding answered_def result_acknowledged_def by blast
  have env: "xg_write (tk_exchange tk) = Written" "\<not> xg_deadline_refused (tk_exchange tk)" "xg_meanwhile (tk_exchange tk) = (\<lambda>w. w)"
      "sv_fault (tk_storage tk) = None" "\<not> time_is_zero ?t" "sdk_marshal_record (cc_command_sdk c) (acknowledged_record tk r) \<noteq> None"
      "ss_result_ack ?sdk \<noteq> ss_protocol_error ?sdk"
    using answer unfolding answered_def by blast+
  have next_is: "next_result (world_store w) = Inr result" using first result(1) by (simp add: next_result_def)
  obtain r' rs' where r': "sorted_locked StateCompleted (world_store w) = r' # rs'" "bucket_get (fs_records (world_store w)) (cr_command_id result) = Some r'"
      "re_state r' = StateCompleted" "re_command_id r' = cr_command_id result" "re_request_sha256 r' = cr_request_sha256 result"
    by (rule next_result_record [OF next_is inv]) blast
  then have r: "bucket_get (fs_records (world_store w)) (cr_command_id result) = Some r" "re_state r = StateCompleted"
      "re_command_id r = cr_command_id result" "re_request_sha256 r = cr_request_sha256 result"
    using first by auto
  obtain st where st: "command_acknowledge (cc_command_sdk c) None (cr_command_id result) (re_request_sha256 r) ?t (world_store w) = (Inr (), st)"
      "command_inv (cc_command_sdk c) st"
      "fs_records st = bucket_put (cr_command_id result) (acknowledged_record tk r) (fs_records (world_store w))"
    using acknowledge_completed [OF ok inv r(1,2) env(5)] env(6) unfolding acknowledged_record_def by blast
  let ?w = "w\<lparr>cw_sent := cw_sent w @ [e], cw_processor := (cw_processor w)\<lparr>pc_store := st\<rparr>\<rparr>"
  have "exchange_envelopes ?sdk (tk_exchange tk) e w = (Inr reply, w\<lparr>cw_sent := cw_sent w @ [e]\<rparr>)"
    using env result(3) reply(1) by (simp add: exchange_envelopes_def write_envelope_def)
  then have "send_command_result (cc_command_sdk c) (cc_processor_sdk c) ?sdk (tk_message_id tk) (tk_exchange tk) (tk_storage tk) result w = (Inr (), ?w)"
    using result reply env(4,7) st(1) r(4) by (simp add: send_command_result_def processor_acknowledge_def)
  then have tick: "session_tick c hello tk s w = (InSession, s, ?w)"
    using next_is by (simp add: session_tick_def processor_next_result_def)
  have "sorted_locked StateCompleted st = rs"
    by (rule sorted_locked_moved [OF inv st(2) first, of "acknowledged_record tk r"]) (use st(3) r(3) in \<open>simp_all add: acknowledged_record_def\<close>)
  then show thesis
    by (intro that [OF tick]) (use st(2,3) r(3) result(1,2) in \<open>simp_all add: result_message_def\<close>)
qed

lemma session_drain:
  assumes "command_sdk_ok (cc_command_sdk c)" and "command_inv (cc_command_sdk c) (world_store w)"
    and "list_all2 (answered c) tks (sorted_locked StateCompleted (world_store w))"
  shows "\<exists>w' es. session_loop c hello tks s w = (InSession, s, w') \<and> cw_sent w' = cw_sent w @ es \<and>
    map Some es = map2 (result_message (cc_session_sdk c)) tks (sorted_locked StateCompleted (world_store w)) \<and>
    sorted_locked StateCompleted (world_store w') = [] \<and>
    (\<forall>k. k \<notin> re_command_id ` set (sorted_locked StateCompleted (world_store w)) \<longrightarrow>
      bucket_get (fs_records (world_store w')) k = bucket_get (fs_records (world_store w)) k) \<and>
    list_all2 (\<lambda>tk r. bucket_get (fs_records (world_store w')) (re_command_id r) = Some (acknowledged_record tk r))
      tks (sorted_locked StateCompleted (world_store w))"
  using assms(2,3)
proof (induction tks arbitrary: w)
  case Nil
  then show ?case by auto
next
  case (Cons tk tks)
  then obtain r rs where first: "sorted_locked StateCompleted (world_store w) = r # rs" and answer: "answered c tk r" "list_all2 (answered c) tks rs"
    by (auto simp: list_all2_Cons1)
  obtain w1 e where w1: "session_tick c hello tk s w = (InSession, s, w1)" "command_inv (cc_command_sdk c) (world_store w1)"
    "sorted_locked StateCompleted (world_store w1) = rs" "result_message (cc_session_sdk c) tk r = Some e" "cw_sent w1 = cw_sent w @ [e]"
    "fs_records (world_store w1) = bucket_put (re_command_id r) (acknowledged_record tk r) (fs_records (world_store w))"
    by (rule answered_tick [OF assms(1) Cons.prems(1) first answer(1)])
  obtain w' es where w': "session_loop c hello tks s w1 = (InSession, s, w')" "cw_sent w' = cw_sent w1 @ es"
    "map Some es = map2 (result_message (cc_session_sdk c)) tks rs" "sorted_locked StateCompleted (world_store w') = []"
    "\<And>k. k \<notin> re_command_id ` set rs \<Longrightarrow> bucket_get (fs_records (world_store w')) k = bucket_get (fs_records (world_store w1)) k"
    "list_all2 (\<lambda>tk r. bucket_get (fs_records (world_store w')) (re_command_id r) = Some (acknowledged_record tk r)) tks rs"
    using Cons.IH [OF w1(2)] answer(2) unfolding w1(3) by blast
  have "re_command_id r \<notin> re_command_id ` set rs"
    using distinct_sorted_locked [OF Cons.prems(1), of StateCompleted] first by simp
  then have "bucket_get (fs_records (world_store w')) (re_command_id r) = Some (acknowledged_record tk r)"
    using w'(5) w1(6) by simp
  moreover have "bucket_get (fs_records (world_store w')) k = bucket_get (fs_records (world_store w)) k"
    if "k \<notin> re_command_id ` set (r # rs)" for k
    using that w'(5) [of k] w1(6) by simp
  ultimately have "session_loop c hello (tk # tks) s w = (InSession, s, w') \<and> cw_sent w' = cw_sent w @ e # es \<and>
    map Some (e # es) = map2 (result_message (cc_session_sdk c)) (tk # tks) (r # rs) \<and> sorted_locked StateCompleted (world_store w') = [] \<and>
    (\<forall>k. k \<notin> re_command_id ` set (r # rs) \<longrightarrow> bucket_get (fs_records (world_store w')) k = bucket_get (fs_records (world_store w)) k) \<and>
    list_all2 (\<lambda>tk r. bucket_get (fs_records (world_store w')) (re_command_id r) = Some (acknowledged_record tk r)) (tk # tks) (r # rs)"
    using w1 w' by simp
  then show ?case unfolding first by blast
qed

end
