(* ===== verification/AgentRun.thy ===== *)
theory AgentRun
  imports ControlDelivery UpdateSafety
begin

section \<open>The life of the agent (internal/agent/client.go, cmd/relayward-agent/main.go)\<close>

text \<open>
  The agent has an identity or registers for one, and then holds one control session after the other until it is stopped, a worker fails or the
  command state is found in conflict. How the process ends tells the launcher what to do.
\<close>

subsection \<open>The pinned certificate\<close>

definition hex_value :: "char \<Rightarrow> nat option" where
  "hex_value c =
     (let n = of_char c :: nat in
      if 48 \<le> n \<and> n \<le> 57 then Some (n - 48)
      else if 97 \<le> n \<and> n \<le> 102 then Some (n - 87)
      else if 65 \<le> n \<and> n \<le> 70 then Some (n - 55)
      else None)"

fun decode_hex :: "string \<Rightarrow> string option" where
  "decode_hex [] = Some []"
| "decode_hex [c] = None"
| "decode_hex (a # b # s) =
     (case (hex_value a, hex_value b, decode_hex s) of
        (Some x, Some y, Some rest) \<Rightarrow> Some (char_of (16 * x + y) # rest)
      | _ \<Rightarrow> None)"

definition hex_digit :: "nat \<Rightarrow> char" where
  "hex_digit n = char_of (if n < 10 then 48 + n else 87 + n)"

fun encode_hex :: "string \<Rightarrow> string" where
  "encode_hex [] = []"
| "encode_hex (c # s) = hex_digit ((of_char c :: nat) div 16) # hex_digit ((of_char c :: nat) mod 16) # encode_hex s"

datatype tls_error = FingerprintInvalid | NoCertificate | FingerprintMismatch

text \<open>\<open>Inr None\<close>: there is no pin. \<open>sha256\<close> gives the bytes of the digest; the certificates are those that the center presented.\<close>

definition control_tls :: "string \<Rightarrow> tls_error + string option" where
  "control_tls pin =
     (if pin = [] then Inr None
      else case decode_hex pin of
        None \<Rightarrow> Inl FingerprintInvalid
      | Some digest \<Rightarrow> if length digest \<noteq> 32 then Inl FingerprintInvalid else Inr (Some digest))"

definition verify_connection :: "(string \<Rightarrow> string) \<Rightarrow> string option \<Rightarrow> string list \<Rightarrow> tls_error + unit" where
  "verify_connection sha256 pinned certificates =
     (case pinned of
        None \<Rightarrow> Inr ()
      | Some digest \<Rightarrow>
          (case certificates of
             [] \<Rightarrow> Inl NoCertificate
           | certificate # _ \<Rightarrow> if sha256 certificate \<noteq> digest then Inl FingerprintMismatch else Inr ()))"

subsection \<open>URLs\<close>

definition http_url :: "agent_config \<Rightarrow> string \<Rightarrow> string" where
  "http_url config path = cf_server_url config @ path"

text \<open>The URL of a normalized configuration parses; \<open>None\<close> stands for the nil pointer that an unparsable one would give.\<close>

definition websocket_url :: "config_sdk \<Rightarrow> agent_config \<Rightarrow> string \<Rightarrow> string option" where
  "websocket_url sdk config path =
     (case cd_parse sdk (cf_server_url config) of
        None \<Rightarrow> None
      | Some u \<Rightarrow> Some (cd_print sdk (u\<lparr>pu_scheme := (if pu_scheme u = https then ''wss'' else ''ws''), pu_path := path\<rparr>)))"

subsection \<open>Registration\<close>

record register_request =
  rg_api_version :: string
  rg_token :: string
  rg_agent_version :: string
  rg_hostname :: string
  rg_os :: string
  rg_arch :: string
  rg_capabilities :: "string list"

record registration_sdk =
  rs_api_version :: string
  rs_os :: string
  rs_arch :: string
  rs_capabilities :: "string list"
  rs_valid_token :: "string \<Rightarrow> bool"
  rs_valid_request :: "register_request \<Rightarrow> bool"
  rs_marshal :: "register_request \<Rightarrow> string option"
  rs_decode_response :: "string \<Rightarrow> identity option"

datatype registration_error =
    TokenInvalid | HostnameUnknown | RequestNotValid | RequestNotEncoded | RequestNotCreated | TransportFailed | ResponseUnread | ResponseTooLarge
  | RegistrationRefused nat | ResponseUndecodable | ResponseInvalid | IdentityNotSaved identity_error

definition status_created :: nat where "status_created = 201"
definition max_response_bytes :: nat where "max_response_bytes = 64 * 2 ^ 10"

text \<open>What the outside does: the host name, the answer of the center (its status and its body, if that can be read), and a fault of the disk.\<close>

record registration_env =
  ro_hostname :: "string option"
  ro_request_refused :: bool
  ro_response :: "(nat \<times> string option) option"
  ro_disk_fault :: "identity_error write_fault option"

text \<open>The state directory, and the requests that were sent: the URL and the body.\<close>

record registration_world =
  rw_directory :: directory
  rw_posted :: "(string \<times> string) list"

definition register_agent ::
    "registration_sdk \<Rightarrow> identity_sdk \<Rightarrow> agent_config \<Rightarrow> string \<Rightarrow> registration_env \<Rightarrow> string \<Rightarrow> registration_world
     \<Rightarrow> (registration_error + identity) \<times> registration_world" where
  "register_agent sdk isdk config version env token w =
     (if \<not> rs_valid_token sdk token then (Inl TokenInvalid, w)
      else case ro_hostname env of
        None \<Rightarrow> (Inl HostnameUnknown, w)
      | Some hostname \<Rightarrow>
        let request = \<lparr>rg_api_version = rs_api_version sdk, rg_token = token, rg_agent_version = version, rg_hostname = hostname,
                       rg_os = rs_os sdk, rg_arch = rs_arch sdk, rg_capabilities = rs_capabilities sdk\<rparr> in
        if \<not> rs_valid_request sdk request then (Inl RequestNotValid, w)
        else case rs_marshal sdk request of
          None \<Rightarrow> (Inl RequestNotEncoded, w)
        | Some raw \<Rightarrow>
          if ro_request_refused env then (Inl RequestNotCreated, w)
          else
            let w = w\<lparr>rw_posted := rw_posted w @ [(http_url config ''/api/v1/agent/register'', raw)]\<rparr> in
            (case ro_response env of
               None \<Rightarrow> (Inl TransportFailed, w)
             | Some (status, None) \<Rightarrow> (Inl ResponseUnread, w)
             | Some (status, Some body) \<Rightarrow>
                 if max_response_bytes < length body then (Inl ResponseTooLarge, w)
                 else if status \<noteq> status_created then (Inl (RegistrationRefused status), w)
                 else case rs_decode_response sdk body of
                   None \<Rightarrow> (Inl ResponseUndecodable, w)
                 | Some value' \<Rightarrow>
                   if \<not> ik_valid isdk value' then (Inl ResponseInvalid, w)
                   else (case identity_save isdk (ro_disk_fault env) value' (rw_directory w) of
                     (Inl e, dir) \<Rightarrow> (Inl (IdentityNotSaved e), w\<lparr>rw_directory := dir\<rparr>)
                   | (Inr _, dir) \<Rightarrow> (Inr value', w\<lparr>rw_directory := dir\<rparr>))))"

datatype start_error = NotRegistered | NotRegisteredNow registration_error | IdentityNotLoaded identity_error

text \<open>The first step of \<^verbatim>\<open>Run\<close>: \<open>token\<close> is the environment variable, \<open>inspect\<close> and \<open>opening\<close> are faults of the load.\<close>

definition client_identity ::
    "registration_sdk \<Rightarrow> identity_sdk \<Rightarrow> agent_config \<Rightarrow> string \<Rightarrow> bool \<Rightarrow> bool \<Rightarrow> registration_env \<Rightarrow> string \<Rightarrow> registration_world
     \<Rightarrow> (start_error + identity) \<times> registration_world" where
  "client_identity sdk isdk config version inspect opening env token w =
     (case identity_load isdk inspect opening (rw_directory w) of
        Inr current \<Rightarrow> (Inr current, w)
      | Inl e \<Rightarrow>
          if e \<noteq> IdentityMissing then (Inl (IdentityNotLoaded e), w)
          else if trim_space token = [] then (Inl NotRegistered, w)
          else (case register_agent sdk isdk config version env (trim_space token) w of
            (Inl e, w) \<Rightarrow> (Inl (NotRegisteredNow e), w)
          | (Inr current, w) \<Rightarrow> (Inr current, w)))"

subsection \<open>One session after the other\<close>

definition minute :: int where "minute = 60 * second"

text \<open>\<^verbatim>\<open>safeControlFailure\<close>: what the log tells of a failed session.\<close>

definition safe_control_failure :: "session_error option \<Rightarrow> string" where
  "safe_control_failure e =
     (case e of
        None \<Rightarrow> ''control session ended''
      | Some (HandshakeRefused status) \<Rightarrow> ''websocket handshake failed (HTTP '' @ decimal status @ '')''
      | Some (NotRead (Some code)) \<Rightarrow> ''websocket closed (code '' @ decimal code @ '')''
      | Some (ProtocolFailure None) \<Rightarrow> ''control protocol failure''
      | Some (ProtocolFailure (Some code)) \<Rightarrow> ''control protocol failure ('' @ code @ '')''
      | Some _ \<Rightarrow> ''control transport failure'')"

definition is_conflict :: "session_error option \<Rightarrow> bool" where
  "is_conflict e \<longleftrightarrow>
     (case e of
        Some (ResultUnavailable err) \<Rightarrow> err = CommandConflict
      | Some (ResultAckNotPersisted err) \<Rightarrow> err = StoreFailed CommandConflict
      | Some (CommandNotPersisted err) \<Rightarrow> err = StoreFailed CommandConflict
      | _ \<Rightarrow> False)"

datatype 'f retry_wait = DelayOver | RunDone | WorkerEnded 'f

text \<open>\<open>am_random n\<close> is what \<^verbatim>\<open>rand.Int64N(n)\<close> gives; \<open>am_worker\<close> is the failure of a worker that is there after the session.\<close>

record ('l, 'f) attempt =
  am_done_before :: bool
  am_env :: "'l session_env"
  am_done_after :: bool
  am_worker :: "'f option"
  am_random :: "int \<Rightarrow> int"
  am_wait :: "'f retry_wait"

datatype 'f client_end = StillRunning | ClientStopped | ClientWorkerFailed 'f | ClientConflict "session_error option"

text \<open>The line that is logged before a wait.\<close>

record session_log =
  sl_stable :: bool
  sl_reason :: string
  sl_delay :: int

definition next_backoff :: "int \<Rightarrow> int" where
  "next_backoff backoff = (if minute < 2 * backoff then minute else 2 * backoff)"

fun client_loop ::
    "'l control_client \<Rightarrow> identity \<Rightarrow> ('l, 'f) attempt list \<Rightarrow> int \<Rightarrow> control_world \<Rightarrow> 'f client_end \<times> session_log list \<times> control_world" where
  "client_loop c current [] backoff w = (StillRunning, [], w)"
| "client_loop c current (a # attempts) backoff w =
     (if am_done_before a then (ClientStopped, [], w)
      else case run_session c current (am_env a) w of
        (InSession, _, w) \<Rightarrow> (StillRunning, [], w)
      | (SessionEnded e, steady, w) \<Rightarrow>
          if am_done_after a then (ClientStopped, [], w)
          else case am_worker a of
            Some f \<Rightarrow> (ClientWorkerFailed f, [], w)
          | None \<Rightarrow>
            if is_conflict e then (ClientConflict e, [], w)
            else
              let backoff = (if steady then second else backoff);
                  delay = backoff + am_random a (backoff div 2 + 1);
                  line = \<lparr>sl_stable = steady, sl_reason = safe_control_failure e, sl_delay = delay\<rparr>
              in (case am_wait a of
                    RunDone \<Rightarrow> (ClientStopped, [line], w)
                  | WorkerEnded f \<Rightarrow> (ClientWorkerFailed f, [line], w)
                  | DelayOver \<Rightarrow>
                      (case client_loop c current attempts (next_backoff backoff) w of
                         (result, lines, w) \<Rightarrow> (result, line # lines, w))))"

subsection \<open>The command line\<close>

datatype worker_failure = ProcessorStopped processor_outcome | OtherWorker

text \<open>How \<^verbatim>\<open>Run\<close> returns: \<open>None\<close> is no error. \<open>RunNotStarted\<close>: the identity, the event queue, the plugins or the observer could not be
  set up.\<close>

datatype run_error = RunNotStarted | RunWorkerFailed worker_failure | RunConflict

definition run_result :: "worker_failure client_end \<Rightarrow> run_error option" where
  "run_result result =
     (case result of
        ClientWorkerFailed f \<Rightarrow> Some (RunWorkerFailed f)
      | ClientConflict _ \<Rightarrow> Some RunConflict
      | _ \<Rightarrow> None)"

definition go_restart_exit_code :: int where "go_restart_exit_code = 75"

definition agent_run_exit_code :: "run_error \<Rightarrow> int" where
  "agent_run_exit_code e = (if e = RunWorkerFailed (ProcessorStopped RestartRequired) then go_restart_exit_code else 1)"

subsection \<open>Building the client\<close>

datatype client_error = ClientConfigInvalid config_error | ClientPinInvalid tls_error | ClientStateNotOpened

text \<open>\<^verbatim>\<open>newClient\<close>: \<open>opened\<close> says that the command store, the updates, the plugins and the policies of the state directory could be opened.\<close>

definition new_client :: "config_sdk \<Rightarrow> bool \<Rightarrow> agent_config \<Rightarrow> client_error + agent_config \<times> string option" where
  "new_client sdk opened value' =
     (case config_normalize sdk value' of
        Inl e \<Rightarrow> Inl (ClientConfigInvalid e)
      | Inr normalized \<Rightarrow>
          (case control_tls (cf_server_cert_sha256 normalized) of
             Inl e \<Rightarrow> Inl (ClientPinInvalid e)
           | Inr pinned \<Rightarrow> if \<not> opened then Inl ClientStateNotOpened else Inr (normalized, pinned)))"

record main_world =
  mw_config_files :: directory
  mw_state :: registration_world

text \<open>
  What the outside does in one call of the program: the flags of a subcommand as they are parsed (\<open>None\<close>: a wrong flag, or arguments are left), the faults of
  the files, the environment variable, the answers of the center, whether the output can be written, and what \<^verbatim>\<open>Run\<close> does.
\<close>

record main_env =
  mv_limited_plugin :: "string list \<Rightarrow> bool"
  mv_written :: bool
  mv_init_flags :: "string list \<Rightarrow> (string \<times> agent_config) option"
  mv_config_flag :: "string list \<Rightarrow> string option"
  mv_save_fault :: "config_error write_fault option"
  mv_load_fault :: bool
  mv_opened :: bool
  mv_token :: string
  mv_registration :: registration_env
  mv_run :: "agent_config \<Rightarrow> main_world \<Rightarrow> run_error option \<times> main_world"

record main_sdk =
  mk_config :: config_sdk
  mk_identity :: identity_sdk
  mk_registration :: registration_sdk
  mk_version :: string

definition load_client :: "main_sdk \<Rightarrow> main_env \<Rightarrow> string list \<Rightarrow> main_world \<Rightarrow> int + agent_config" where
  "load_client sdk env args w =
     (case mv_config_flag env args of
        None \<Rightarrow> Inl 2
      | Some path \<Rightarrow>
          (case config_load (mk_config sdk) (mv_load_fault env) path (mw_config_files w) of
             Inl _ \<Rightarrow> Inl 1
           | Inr value' \<Rightarrow>
               (case new_client (mk_config sdk) (mv_opened env) value' of
                  Inl _ \<Rightarrow> Inl 1
                | Inr (config, _) \<Rightarrow> Inr config)))"

definition initialize_config :: "main_sdk \<Rightarrow> main_env \<Rightarrow> string list \<Rightarrow> main_world \<Rightarrow> int \<times> main_world" where
  "initialize_config sdk env args w =
     (case mv_init_flags env args of
        None \<Rightarrow> (2, w)
      | Some (path, value') \<Rightarrow>
          (case config_save (mk_config sdk) (mv_save_fault env) path value' (mw_config_files w) of
             (Inl _, dir) \<Rightarrow> (1, w\<lparr>mw_config_files := dir\<rparr>)
           | (Inr _, dir) \<Rightarrow> (0, w\<lparr>mw_config_files := dir\<rparr>)))"

definition enroll :: "main_sdk \<Rightarrow> main_env \<Rightarrow> string list \<Rightarrow> main_world \<Rightarrow> int \<times> main_world" where
  "enroll sdk env args w =
     (case load_client sdk env args w of
        Inl code \<Rightarrow> (code, w)
      | Inr config \<Rightarrow>
          if trim_space (mv_token env) = [] then (2, w)
          else (case register_agent (mk_registration sdk) (mk_identity sdk) config (mk_version sdk) (mv_registration env)
                       (trim_space (mv_token env)) (mw_state w) of
            (Inl _, state) \<Rightarrow> (1, w\<lparr>mw_state := state\<rparr>)
          | (Inr _, state) \<Rightarrow> (if mv_written env then 0 else 1, w\<lparr>mw_state := state\<rparr>)))"

definition run_agent :: "main_sdk \<Rightarrow> main_env \<Rightarrow> string list \<Rightarrow> main_world \<Rightarrow> int \<times> main_world" where
  "run_agent sdk env args w =
     (case load_client sdk env args w of
        Inl code \<Rightarrow> (code, w)
      | Inr config \<Rightarrow>
          (case mv_run env config w of
             (Some e, w) \<Rightarrow> (agent_run_exit_code e, w)
           | (None, w) \<Rightarrow> (0, w)))"

definition main_run :: "main_sdk \<Rightarrow> main_env \<Rightarrow> string list \<Rightarrow> main_world \<Rightarrow> int \<times> main_world" where
  "main_run sdk env args w =
     (case args of
        [] \<Rightarrow> (2, w)
      | command # rest \<Rightarrow>
          if command = ''plugin-exec'' then (if mv_limited_plugin env rest then 0 else 1, w)
          else if command = ''version'' then
            (if rest = [''--short''] then 0
             else if rest \<noteq> [] then 2
             else if mv_written env then 0
             else 1, w)
          else if command = ''init-config'' then initialize_config sdk env rest w
          else if command = ''enroll'' then enroll sdk env rest w
          else if command = ''run'' then run_agent sdk env rest w
          else (2, w))"

subsection \<open>Hexadecimal digests\<close>

lemma hex_value_lower: "hex_value c = Some n \<Longrightarrow> lower_hex c \<Longrightarrow> n < 16 \<and> hex_digit n = c"
proof -
  assume v: "hex_value c = Some n" and l: "lower_hex c"
  have "\<not> (65 \<le> (of_char c :: nat) \<and> (of_char c :: nat) \<le> 70)" using l by (auto simp: lower_hex_def)
  with v have "n < 10 \<and> of_char c = 48 + n \<or> 10 \<le> n \<and> n < 16 \<and> of_char c = 87 + n"
    by (auto simp: hex_value_def Let_def split: if_splits)
  moreover have "char_of (of_char c :: nat) = c" by simp
  ultimately show ?thesis by (elim disjE conjE) (simp add: hex_digit_def, metis hex_digit_def not_le)
qed

lemma lower_hex_value: "lower_hex c \<Longrightarrow> \<exists>n. hex_value c = Some n"
  by (auto simp: hex_value_def lower_hex_def)

lemma decode_hex_lower:
  assumes "list_all lower_hex s" and "even (length s)"
  obtains d where "decode_hex s = Some d" "length s = 2 * length d" "encode_hex d = s"
proof -
  have "\<exists>d. decode_hex s = Some d \<and> length s = 2 * length d \<and> encode_hex d = s"
    using assms
  proof (induction s rule: decode_hex.induct)
    case (3 a b s)
    then obtain d where d: "decode_hex s = Some d" "length s = 2 * length d" "encode_hex d = s" by auto
    obtain x y where xy: "hex_value a = Some x" "hex_value b = Some y" using 3(2) lower_hex_value by fastforce
    then have digits: "x < 16" "hex_digit x = a" "y < 16" "hex_digit y = b" using 3(2) hex_value_lower by auto
    then have "(of_char (char_of (16 * x + y)) :: nat) = 16 * x + y" by simp
    with digits have "(of_char (char_of (16 * x + y)) :: nat) div 16 = x" "(of_char (char_of (16 * x + y)) :: nat) mod 16 = y" by simp_all
    with d xy digits show ?case by auto
  qed auto
  with that show thesis by blast
qed

lemma encode_hex_inj: "encode_hex d = encode_hex d' \<Longrightarrow> d = d'"
proof (induction d arbitrary: d')
  case Nil
  then show ?case by (cases d') auto
next
  case (Cons c d)
  have digit: "hex_digit m = hex_digit n \<Longrightarrow> m < 16 \<Longrightarrow> n < 16 \<Longrightarrow> m = n" for m n
    by (auto simp: hex_digit_def split: if_splits dest!: arg_cong [where f = "of_char :: char \<Rightarrow> nat"])
  have small: "(of_char x :: nat) div 16 < 16" for x
    using nat_of_char_less_256 [of x] by (simp add: div_less_iff_less_mult)
  from Cons.prems obtain c' e where d': "d' = c' # e" by (cases d') auto
  have "(of_char c :: nat) div 16 = of_char c' div 16" "(of_char c :: nat) mod 16 = of_char c' mod 16"
    using Cons.prems d' digit [of "of_char c div 16" "of_char c' div 16"] digit [of "of_char c mod 16" "of_char c' mod 16"]
      small [of c] small [of c'] by auto
  then have "(of_char c :: nat) = of_char c'" by (metis div_mult_mod_eq)
  with Cons d' show ?case by auto
qed

end
