(* ===== verification/AgentProperties.thy ===== *)
theory AgentProperties
  imports AgentRun CommandProperties UpdateProperties "HOL-Library.Code_Target_Nat"
begin

section \<open>The properties of the agent's life\<close>

text \<open>
  The properties of the configuration, the identity, the control session and the reconnecting loop, each with a witness on the small command store
  of \<open>CommandProperties\<close>, a center that answers, and sample encoders.
\<close>

subsection \<open>Pauses\<close>

definition backoff_after :: "nat \<Rightarrow> int" where
  "backoff_after k = min (2 ^ k * second) minute"

fun paced :: "nat \<Rightarrow> session_log list \<Rightarrow> bool" where
  "paced k [] = True"
| "paced k (line # lines) =
     (let j = (if sl_stable line then 0 else k) in
      backoff_after j \<le> sl_delay line \<and> sl_delay line \<le> backoff_after j + backoff_after j div 2 \<and> paced (Suc j) lines)"

lemma next_backoff_after: "next_backoff (backoff_after k) = backoff_after (Suc k)"
  by (auto simp: next_backoff_def backoff_after_def min_def minute_def)

lemma backoff_after_bounds: "second \<le> backoff_after k" "backoff_after k \<le> minute" "backoff_after 0 = second"
proof -
  have "(1 :: int) \<le> 2 ^ k" by simp
  then show "second \<le> backoff_after k" by (simp add: backoff_after_def minute_def)
qed (simp_all add: backoff_after_def minute_def)

lemma paced_bounds: "paced k lines \<Longrightarrow> list_all (\<lambda>line. second \<le> sl_delay line \<and> sl_delay line \<le> 90 * second) lines"
proof (induction k lines rule: paced.induct)
  case (2 k line lines)
  define j where "j = (if sl_stable line then 0 else k)"
  have "second \<le> backoff_after j" "backoff_after j \<le> 60 * second" using backoff_after_bounds(1,2) [of j] by (simp_all add: minute_def)
  with 2 show ?case by (auto simp: j_def [symmetric] Let_def)
qed simp

lemma client_loop_paced:
  assumes "client_loop c current attempts (backoff_after k) w = (result, lines, w')"
    and "list_all (\<lambda>a. \<forall>n > 0. 0 \<le> am_random a n \<and> am_random a n < n) attempts"
  shows "paced k lines"
  using assms
proof (induction attempts arbitrary: k w lines result w')
  case Nil
  then show ?case by simp
next
  case (Cons a attempts)
  show ?case
  proof (cases lines)
    case (Cons line rest)
    obtain out steady w1 where run: "run_session c current (am_env a) w = (out, steady, w1)" by (metis prod_cases3)
    define j where "j = (if steady then 0 else k)"
    have first: "next_backoff second = backoff_after (Suc 0)" using next_backoff_after [of 0] by (simp add: backoff_after_bounds(3))
    have line: "sl_stable line = steady" "sl_delay line = backoff_after j + am_random a (backoff_after j div 2 + 1)"
      and rest: "rest = [] \<or> (\<exists>result' w2. client_loop c current attempts (backoff_after (Suc j)) w1 = (result', rest, w2))"
      using Cons.prems(1) \<open>lines = line # rest\<close> run
      by (cases steady; auto simp: j_def first backoff_after_bounds(3) Let_def next_backoff_after
          split: if_splits session_outcome.splits option.splits retry_wait.splits prod.splits)+
    have "0 < backoff_after j div 2 + 1" using backoff_after_bounds(1) [of j] by simp
    moreover have "\<forall>n > 0. 0 \<le> am_random a n \<and> am_random a n < n" using Cons.prems(2) by simp
    ultimately have "0 \<le> am_random a (backoff_after j div 2 + 1) \<and> am_random a (backoff_after j div 2 + 1) < backoff_after j div 2 + 1"
      by blast
    moreover have "paced (Suc j) rest" using rest Cons.IH Cons.prems(2) by auto
    ultimately show ?thesis using \<open>lines = line # rest\<close> line by (simp add: j_def [symmetric])
  qed simp
qed

text \<open>C35. The pause before the agent dials again is right: it is between one and one and a half times the back-off, which is one second after a session
  that was stable and after the first failure, doubles with every further failure and stops at a minute; so every pause is between one second and 90 seconds.\<close>

theorem reconnect_delays_bounded:
  assumes "client_loop c current attempts second w = (result, lines, w')"
    and "list_all (\<lambda>a. \<forall>n > 0. 0 \<le> am_random a n \<and> am_random a n < n) attempts"
  shows "paced 0 lines \<and> list_all (\<lambda>line. second \<le> sl_delay line \<and> sl_delay line \<le> 90 * second) lines"
proof -
  have "paced 0 lines"
    by (rule client_loop_paced [OF _ assms(2)]) (use assms(1) in \<open>simp add: backoff_after_bounds(3)\<close>)
  with paced_bounds show ?thesis by blast
qed

subsection \<open>A small agent and its center\<close>

definition message :: "string \<Rightarrow> string \<Rightarrow> string \<Rightarrow> control_envelope" where
  "message kind i answered_id = \<lparr>ce_type = kind, ce_id = i, ce_correlation_id = answered_id, ce_payload = []\<rparr>"

text \<open>The center's texts: a hello, an acknowledged heartbeat with a command, an acknowledged result.\<close>

definition demo_session_sdk :: "unit session_sdk" where
  "demo_session_sdk =
     \<lparr>ss_protocol_error = ''error'', ss_center_hello = ''center-hello'', ss_heartbeat_ack = ''beat-ack'', ss_result_ack = ''result-ack'',
      ss_new_hello = (\<lambda>i _ _ _. Some (message ''hello'' i [])), ss_new_heartbeat = (\<lambda>i _ _ _ _. Some (message ''beat'' i [])),
      ss_new_result = (\<lambda>i _. Some (message ''result'' i [])), ss_valid_envelope = (\<lambda>_. True),
      ss_decode = (\<lambda>raw. if raw = ''H'' then Some (message ''center-hello'' ''c1'' [])
                         else if raw = ''B'' then Some (message ''beat-ack'' ''c2'' ''m'')
                         else if raw = ''R'' then Some (message ''result-ack'' ''c3'' ''m'') else None),
      ss_hello_of = (\<lambda>_. Some \<lparr>ch_session_id = ''s'', ch_interval_seconds = 30\<rparr>),
      ss_heartbeat_ack_of = (\<lambda>_. Some \<lparr>ha_message_id = ''m'',
         ha_command = Some \<lparr>en_type = ''center.command'', en_idempotency_key = ''a'', en_payload = ''t''\<rparr>\<rparr>),
      ss_result_ack_of = (\<lambda>_. Some \<lparr>ra_command_id = ''a'', ra_request_sha256 = ''sha''\<rparr>), ss_problem_code = (\<lambda>_. None)\<rparr>"

definition demo_acknowledged :: command_record where
  "demo_acknowledged = demo_completed\<lparr>re_state := StateAcknowledged, re_updated_at := 50, re_acknowledged_at := Some 50\<rparr>"

definition demo_control_sdk :: command_sdk where
  "demo_control_sdk = demo_command_sdk
     \<lparr>sdk_marshal_record := (\<lambda>r. if r = demo_acknowledged then Some ''A'' else sdk_marshal_record demo_command_sdk r),
      sdk_unmarshal_record := (\<lambda>s. if s = ''A'' @ [CHR 0x0A] then Some demo_acknowledged else sdk_unmarshal_record demo_command_sdk s)\<rparr>"

definition demo_control_px :: processor_sdk where
  "demo_control_px = demo_px\<lparr>px_decode_command := (\<lambda>_. Some demo_task)\<rparr>"

definition demo_client :: "update_sdk \<Rightarrow> unit control_client" where
  "demo_client usdk = \<lparr>cc_command_sdk = demo_control_sdk, cc_processor_sdk = demo_control_px, cc_update_sdk = usdk,
     cc_session_sdk = demo_session_sdk, cc_version = ''1'', cc_started_at = 1\<rparr>"

definition demo_exchange :: "string \<Rightarrow> exchange" where
  "demo_exchange raw = \<lparr>xg_write = Written, xg_deadline_refused = False, xg_meanwhile = (\<lambda>w. w), xg_received = TextMessage raw\<rparr>"

definition demo_tick :: "string \<Rightarrow> unit tick" where
  "demo_tick raw = \<lparr>tk_message_id = ''m'', tk_exchange = demo_exchange raw, tk_cancelled = False,
     tk_storage = \<lparr>sv_now = 50, sv_fault = None\<rparr>, tk_clock = 60, tk_wait = PeriodOver, tk_idle = (\<lambda>w. w), tk_observed_at = 60,
     tk_listeners = (), tk_faults = (\<lambda>_. None), tk_finished = 70\<rparr>"

definition demo_session_env :: "string list \<Rightarrow> unit session_env" where
  "demo_session_env raws = \<lparr>se_dial = DialOk, se_hello_id = ''h'', se_hello = demo_exchange ''H'', se_clock = 60, se_ticks = map demo_tick raws\<rparr>"

definition demo_world :: "command_store \<Rightarrow> control_world" where
  "demo_world store = \<lparr>cw_processor = new_processor store,
     cw_disk = \<lparr>ud_states = [], ud_current = None, ud_previous = None, ud_versions = []\<rparr>, cw_sent = []\<rparr>"

definition demo_identity :: identity where
  "demo_identity = \<lparr>id_api_version = ''v1'', id_node_id = ''n'', id_node_name = ''node'', id_credential = ''secret''\<rparr>"

lemma meanwhile_identity: "meanwhile_ok sdk (\<lambda>w. w)"
  by (simp add: meanwhile_ok_def)

lemma demo_ticks_ok: "list_all (tick_ok sdk) (map demo_tick raws)"
  by (simp add: list_all_iff tick_ok_def demo_tick_def demo_exchange_def meanwhile_identity)

lemma demo_control_differ: "demo_acknowledged \<noteq> demo_pending" "demo_acknowledged \<noteq> demo_completed"
  by (simp_all add: demo_acknowledged_def demo_completed_def demo_pending_def)

lemma demo_control_sdk_ok: "command_sdk_ok demo_control_sdk"
  using demo_control_differ
  unfolding command_sdk_ok_def
  by (auto simp: demo_control_sdk_def demo_command_sdk_def max_record_bytes_def temporary_prefix_def record_file_def split: if_splits)

lemma demo_single_inv:
  assumes "validate_record demo_control_sdk r = Inr ()" and "sdk_marshal_record demo_control_sdk r = Some raw" and "re_command_id r = ''a''"
  shows "command_inv demo_control_sdk \<lparr>fs_files = [(''a.json'', private_file (raw @ [CHR 0x0A]))], fs_records = [(''a'', r)]\<rparr>"
  using read_written [OF demo_control_sdk_ok assms(1,2)] assms(1,3) record_file_ext [of "''a''"]
  by (auto simp: file_store_inv_def files_ok_def on_disk_def bucket_get_def bucket_ok_def record_file_def
      is_state_file_def temporary_prefix_def split: if_splits)

lemma demo_control_inv: "command_inv demo_control_sdk demo_done" "command_inv demo_control_sdk demo_accepted"
proof -
  have same: "validate_record demo_control_sdk r = validate_record demo_command_sdk r" for r
    by (cases "re_result r") (simp_all add: validate_record_def demo_control_sdk_def)
  have raw: "sdk_marshal_record demo_control_sdk demo_completed = Some ''C''" "sdk_marshal_record demo_control_sdk demo_pending = Some ''P''"
    using demo_control_differ demo_marshal by (auto simp: demo_control_sdk_def)
  have id: "re_command_id demo_completed = ''a''" "re_command_id demo_pending = ''a''" by (simp_all add: demo_completed_def demo_pending_def)
  show "command_inv demo_control_sdk demo_done" "command_inv demo_control_sdk demo_accepted"
    using demo_single_inv [OF _ raw(1) id(1)] demo_single_inv [OF _ raw(2) id(2)] demo_completed_valid demo_pending_valid
    by (simp_all add: same demo_done_def demo_accepted_def)
qed

lemma demo_done_result: "next_result demo_done = Inr demo_outcome" "sorted_locked StateCompleted demo_done = [demo_completed]"
  by (simp_all add: next_result_def sorted_locked_def demo_done_def demo_completed_def)

text \<open>The witness of the pauses: the center refuses the connection three times.\<close>

definition demo_attempt :: "(unit, unit) attempt" where
  "demo_attempt = \<lparr>am_done_before = False, am_env = (demo_session_env [])\<lparr>se_dial := DialRefused 503\<rparr>, am_done_after = False, am_worker = None,
     am_random = (\<lambda>n. n - 1), am_wait = DelayOver\<rparr>"

theorem reconnect_delays_bounded_witness:
  "\<exists>lines w'. client_loop (demo_client demo_update_sdk) demo_identity [demo_attempt, demo_attempt, demo_attempt] second (demo_world demo_empty) = (StillRunning, lines, w') \<and>
    paced 0 lines \<and> map sl_delay lines = [1500 * 10 ^ 6, 3 * second, 6 * second]"
proof -
  have "run_session (demo_client demo_update_sdk) demo_identity (am_env demo_attempt) w = (SessionEnded (Some (HandshakeRefused 503)), False, w)" for w
    by (simp add: run_session_def demo_attempt_def demo_session_env_def)
  then obtain lines w' where run: "client_loop (demo_client demo_update_sdk) demo_identity [demo_attempt, demo_attempt, demo_attempt] second (demo_world demo_empty) =
      (StillRunning, lines, w')" "map sl_delay lines = [1500 * 10 ^ 6, 3 * second, 6 * second]"
    by (simp add: demo_attempt_def is_conflict_def Let_def next_backoff_def minute_def)
  have "paced 0 lines" using reconnect_delays_bounded [OF run(1)] by (simp add: demo_attempt_def)
  with run show ?thesis by (intro exI [of _ lines] exI [of _ w'] conjI)
qed

subsection \<open>Results\<close>

text \<open>C30. A result is given up only when the center has it: a record that is acknowledged at the end of a session was so before, or the session sent a
  message with exactly its result and read an acknowledgement that answers this message and names its command and digest - whatever
  the network, the storage and the center do and whatever the command processor does in the meantime. The store changes by its own operations only.\<close>

theorem results_acknowledged_after_delivery:
  assumes "run_session c current env w = (out, steady, w')" and "command_sdk_ok (cc_command_sdk c)"
    and "command_inv (cc_command_sdk c) (world_store w)" and "meanwhile_ok (cc_command_sdk c) (xg_meanwhile (se_hello env))"
    and "list_all (tick_ok (cc_command_sdk c)) (se_ticks env)" and "is_acknowledged (world_store w') k r"
  shows "command_run (cc_command_sdk c) (world_store w) (world_store w') \<and>
    (is_acknowledged (world_store w) k r \<or>
     (\<exists>news. cw_sent w' = cw_sent w @ news \<and> delivered (cc_session_sdk c) (se_ticks env) news r))"
  using run_session_effect [OF assms(1-5)] assms(6) unfolding session_effect_def by blast

lemma demo_acknowledge: "command_acknowledge demo_control_sdk None ''a'' ''sha'' 50 demo_done =
    (Inr (), \<lparr>fs_files = [(''a.json'', private_file (''A'' @ [CHR 0x0A]))], fs_records = [(''a'', demo_acknowledged)]\<rparr>)"
proof -
  have get: "bucket_get (fs_records demo_done) ''a'' = Some demo_completed" by (simp add: demo_done_def bucket_get_def)
  have shape: "re_request_sha256 demo_completed = ''sha''" "re_state demo_completed = StateCompleted" "re_result demo_completed \<noteq> None"
      "re_command_id demo_completed = ''a''"
    by (simp_all add: demo_completed_def demo_pending_def)
  have new: "demo_completed\<lparr>re_state := StateAcknowledged, re_updated_at := 50, re_acknowledged_at := Some 50\<rparr> = demo_acknowledged"
    by (simp add: demo_acknowledged_def)
  have "validate_record demo_control_sdk demo_acknowledged = Inr ()"
    by (simp add: validate_record_def demo_control_sdk_def demo_command_sdk_def demo_acknowledged_def demo_completed_def demo_pending_def demo_outcome_def
        time_is_zero_def state_shape_ok_def)
  moreover have "sdk_marshal_record demo_control_sdk demo_acknowledged = Some ''A''" by (simp add: demo_control_sdk_def)
  moreover have "re_command_id demo_acknowledged = ''a''" by (simp add: demo_acknowledged_def shape)
  ultimately have "store_record demo_control_sdk None demo_acknowledged demo_done =
      (Inr (), \<lparr>fs_files = [(''a.json'', private_file (''A'' @ [CHR 0x0A]))], fs_records = [(''a'', demo_acknowledged)]\<rparr>)"
    by (simp add: store_record_def encode_record_def replace_record_def replace_file_def demo_done_def record_file_def bucket_put.simps)
  with get shape new show ?thesis by (simp add: command_acknowledge_def)
qed

lemma demo_answered: "answered (demo_client usdk) (demo_tick ''R'') demo_completed"
proof -
  have "acknowledged_record (demo_tick ''R'') demo_completed = demo_acknowledged"
    by (simp add: acknowledged_record_def demo_acknowledged_def demo_tick_def)
  then have "sdk_marshal_record demo_control_sdk (acknowledged_record (demo_tick ''R'') demo_completed) \<noteq> None" by (simp add: demo_control_sdk_def)
  moreover have "re_result demo_completed = Some demo_outcome" by (simp add: demo_completed_def)
  ultimately show ?thesis
    by (auto simp: answered_def result_acknowledged_def demo_client_def demo_session_sdk_def demo_control_px_def demo_px_def demo_tick_def demo_exchange_def
        read_envelope_def message_def demo_outcome_def time_is_zero_def)
qed

lemma demo_session_run:
  obtains w' where "run_session (demo_client usdk) demo_identity (demo_session_env [''R'']) (demo_world demo_done) = (InSession, False, w')"
    "is_acknowledged (world_store w') ''a'' demo_acknowledged" "cw_sent w' = [message ''hello'' ''h'' [], message ''result'' ''m'' []]"
proof -
  let ?c = "demo_client usdk"
  let ?hello = "\<lparr>ch_session_id = ''s'', ch_interval_seconds = 30\<rparr>" and ?s = "\<lparr>sn_stable = False, sn_next_heartbeat = 60\<rparr>"
  let ?w = "(demo_world demo_done)\<lparr>cw_sent := [message ''hello'' ''h'' []]\<rparr>"
  have c: "cc_command_sdk ?c = demo_control_sdk" by (simp add: demo_client_def)
  have store: "world_store (demo_world demo_done) = demo_done" by (simp add: demo_world_def new_processor_def)
  obtain w' e where w': "session_tick ?c ?hello (demo_tick ''R'') ?s ?w = (InSession, ?s, w')"
      "result_message (cc_session_sdk ?c) (demo_tick ''R'') demo_completed = Some e" "cw_sent w' = cw_sent ?w @ [e]"
      "fs_records (world_store w') = bucket_put (re_command_id demo_completed) (acknowledged_record (demo_tick ''R'') demo_completed) (fs_records (world_store ?w))"
    by (rule answered_tick [where c = ?c and w = ?w and r = demo_completed and rs = "[]" and tk = "demo_tick ''R''" and hello = ?hello and s = ?s])
      (simp_all add: c store demo_control_sdk_ok demo_control_inv(1) demo_done_result demo_answered)
  have "run_session ?c demo_identity (demo_session_env [''R'']) (demo_world demo_done) = (InSession, False, w')"
    using w'(1) by (simp add: run_session_def Let_def demo_session_env_def demo_client_def demo_session_sdk_def exchange_envelopes_def write_envelope_def
        read_envelope_def demo_exchange_def message_def demo_world_def)
  moreover have "acknowledged_record (demo_tick ''R'') demo_completed = demo_acknowledged"
    by (simp add: acknowledged_record_def demo_acknowledged_def demo_tick_def)
  then have "is_acknowledged (world_store w') ''a'' demo_acknowledged"
    using w'(4) by (simp add: is_acknowledged_def) (simp add: demo_acknowledged_def demo_completed_def demo_pending_def)
  moreover have "e = message ''result'' ''m'' []"
    using w'(2) by (simp add: result_message_def demo_completed_def demo_client_def demo_session_sdk_def demo_tick_def)
  ultimately show thesis using that w'(3) by simp
qed

theorem results_acknowledged_after_delivery_witness:
  "\<exists>w' news. run_session (demo_client demo_update_sdk) demo_identity (demo_session_env [''R'']) (demo_world demo_done) = (InSession, False, w') \<and>
    cw_sent w' = news \<and> delivered demo_session_sdk (se_ticks (demo_session_env [''R''])) news demo_acknowledged"
proof -
  obtain w' where run: "run_session (demo_client demo_update_sdk) demo_identity (demo_session_env [''R'']) (demo_world demo_done) = (InSession, False, w')"
      "is_acknowledged (world_store w') ''a'' demo_acknowledged" "cw_sent w' = [message ''hello'' ''h'' [], message ''result'' ''m'' []]"
    by (rule demo_session_run)
  have c: "cc_command_sdk (demo_client demo_update_sdk) = demo_control_sdk" "cc_session_sdk (demo_client demo_update_sdk) = demo_session_sdk" by (simp_all add: demo_client_def)
  have start: "world_store (demo_world demo_done) = demo_done" "cw_sent (demo_world demo_done) = []" by (simp_all add: demo_world_def new_processor_def)
  have "\<not> is_acknowledged demo_done ''a'' demo_acknowledged"
    using demo_control_differ by (simp add: is_acknowledged_def demo_done_def bucket_get_def)
  moreover have "list_all (tick_ok demo_control_sdk) (se_ticks (demo_session_env [''R'']))"
    "meanwhile_ok demo_control_sdk (xg_meanwhile (se_hello (demo_session_env [''R''])))"
    using demo_ticks_ok [of demo_control_sdk "[''R'']"] by (simp_all add: demo_session_env_def demo_exchange_def meanwhile_identity)
  ultimately show ?thesis
    using results_acknowledged_after_delivery [OF run(1) _ _ _ _ run(2)] demo_control_sdk_ok demo_control_inv(1) run(1)
    by (simp add: c start)
qed

text \<open>C31. A session delivers what is waiting: if the center answers, then as many rounds as there are completed commands send their results, one message
  for each, in the order in which the commands were received, acknowledge them all, and touch no other record.\<close>

theorem session_delivers_all_results:
  assumes "command_sdk_ok (cc_command_sdk c)" and "command_inv (cc_command_sdk c) (world_store w)"
    and "list_all2 (answered c) tks (sorted_locked StateCompleted (world_store w))"
  shows "\<exists>w' es. session_loop c hello tks s w = (InSession, s, w') \<and> cw_sent w' = cw_sent w @ es \<and>
    map Some es = map2 (result_message (cc_session_sdk c)) tks (sorted_locked StateCompleted (world_store w)) \<and>
    sorted (map record_order (sorted_locked StateCompleted (world_store w))) \<and>
    processor_next_result (cw_processor w') = Inl CommandNotFound \<and>
    list_all2 (\<lambda>tk r. bucket_get (fs_records (world_store w')) (re_command_id r) = Some (acknowledged_record tk r))
      tks (sorted_locked StateCompleted (world_store w)) \<and>
    restrict_map (bucket_get (fs_records (world_store w'))) (- re_command_id ` set (sorted_locked StateCompleted (world_store w))) =
      restrict_map (bucket_get (fs_records (world_store w))) (- re_command_id ` set (sorted_locked StateCompleted (world_store w)))"
proof -
  have "sorted (map record_order (sorted_locked StateCompleted (world_store w)))" by (simp add: sorted_locked_def)
  with session_drain [OF assms, of hello s] show ?thesis
    by (auto simp: processor_next_result_def next_result_def restrict_map_def fun_eq_iff)
qed

theorem session_delivers_all_results_witness:
  "\<exists>w' es. session_loop (demo_client demo_update_sdk) \<lparr>ch_session_id = ''s'', ch_interval_seconds = 30\<rparr> [demo_tick ''R'']
      \<lparr>sn_stable = False, sn_next_heartbeat = 60\<rparr> (demo_world demo_done) = (InSession, \<lparr>sn_stable = False, sn_next_heartbeat = 60\<rparr>, w') \<and>
    cw_sent w' = es \<and> map Some es = [Some (message ''result'' ''m'' [])] \<and> processor_next_result (cw_processor w') = Inl CommandNotFound"
proof -
  have c: "cc_command_sdk (demo_client demo_update_sdk) = demo_control_sdk" by (simp add: demo_client_def)
  have start: "world_store (demo_world demo_done) = demo_done" "cw_sent (demo_world demo_done) = []" by (simp_all add: demo_world_def new_processor_def)
  have message: "result_message (cc_session_sdk (demo_client demo_update_sdk)) (demo_tick ''R'') demo_completed = Some (message ''result'' ''m'' [])"
    by (simp add: result_message_def demo_completed_def demo_client_def demo_session_sdk_def demo_tick_def)
  have "list_all2 (answered (demo_client demo_update_sdk)) [demo_tick ''R''] (sorted_locked StateCompleted (world_store (demo_world demo_done)))"
    by (simp add: start demo_done_result demo_answered)
  from session_delivers_all_results [OF _ _ this, of "\<lparr>ch_session_id = ''s'', ch_interval_seconds = 30\<rparr>" "\<lparr>sn_stable = False, sn_next_heartbeat = 60\<rparr>"] show ?thesis
    using demo_control_sdk_ok demo_control_inv(1) by (auto simp: c start demo_done_result message)
qed

subsection \<open>The health of an update\<close>

definition keeps_disk :: "'l tick \<Rightarrow> bool" where
  "keeps_disk tk \<longleftrightarrow> (\<forall>w. cw_disk (xg_meanwhile (tk_exchange tk) w) = cw_disk w \<and> cw_disk (tk_idle tk w) = cw_disk w)"

lemma exchange_disk:
  assumes "exchange_envelopes sdk x e w = (r, w')" and "\<And>w. cw_disk (xg_meanwhile x w) = cw_disk w"
  shows "cw_disk w' = cw_disk w"
  using assms by (auto simp: exchange_envelopes_def write_envelope_def split: if_splits write_end.splits sum.splits prod.splits)

text \<open>The command that an acknowledgement brings is in the store afterwards.\<close>

definition command_stored :: "'l control_client \<Rightarrow> heartbeat_ack \<Rightarrow> command_store \<Rightarrow> bool" where
  "command_stored c ack store \<longleftrightarrow>
     (case ha_command ack of
        None \<Rightarrow> True
      | Some e \<Rightarrow>
          (case px_decode_command (cc_processor_sdk c) e of
             None \<Rightarrow> False
           | Some command \<Rightarrow>
               (case bucket_get (fs_records store) (en_idempotency_key e) of
                  None \<Rightarrow> False
                | Some r \<Rightarrow> sdk_command_digest_of (cc_command_sdk c) command = Some (re_request_sha256 r))))"

lemma accept_acknowledged_stored:
  assumes "accept_acknowledged (cc_command_sdk c) (cc_processor_sdk c) env ack w = (Inr u, w')"
    and "command_sdk_ok (cc_command_sdk c)" and "command_inv (cc_command_sdk c) (world_store w)"
  shows "command_stored c ack (world_store w')"
proof (cases "ha_command ack")
  case None
  then show ?thesis by (simp add: command_stored_def)
next
  case (Some e)
  obtain command created store where accept: "px_decode_command (cc_processor_sdk c) e = Some command"
      "command_accept (cc_command_sdk c) (sv_fault env) (en_idempotency_key e) command (sv_now env) (world_store w) = (Inr created, store)"
      "world_store w' = store"
    using assms(1) Some
    by (auto simp: accept_acknowledged_def processor_accept_def split: if_splits option.splits sum.splits prod.splits)
  have "\<exists>r. bucket_get (fs_records store) (en_idempotency_key e) = Some r \<and> sdk_command_digest_of (cc_command_sdk c) command = Some (re_request_sha256 r)"
    using accept_step [OF accept(2) assms(2,3)] by (cases created) auto
  with Some accept show ?thesis by (auto simp: command_stored_def)
qed

lemma heartbeat_confirms:
  assumes run: "session_heartbeat c hello tk s w = (out, s', w')" and ok: "command_sdk_ok (cc_command_sdk c)"
    and inv: "command_inv (cc_command_sdk c) (world_store w)" and tk: "tick_ok (cc_command_sdk c) tk" and disk: "keeps_disk tk"
    and changed: "s' \<noteq> s \<or> cw_disk w' \<noteq> cw_disk w"
  shows "\<exists>e ack. heartbeat_acknowledged c hello tk e ack \<and> cw_sent w' = cw_sent w @ [e] \<and> command_stored c ack (world_store w') \<and>
    (\<exists>r. confirm (cc_update_sdk c) (tk_faults tk) (cc_version c) (cw_disk w) = (r, cw_disk w') \<and> (s' \<noteq> s \<longrightarrow> (\<exists>b. r = Inr b)))"
proof -
  have quiet: "\<And>w. cw_disk (xg_meanwhile (tk_exchange tk) w) = cw_disk w" using disk by (simp add: keeps_disk_def)
  have meanwhile: "meanwhile_ok (cc_command_sdk c) (xg_meanwhile (tk_exchange tk))" using tk by (simp add: tick_ok_def)
  from run show ?thesis
  proof (cases rule: session_heartbeat_cases)
    case unmade
    with changed show ?thesis by simp
  next
    case (unread e r)
    with changed exchange_disk [OF unread(1) quiet] show ?thesis by simp
  next
    case (read e reply w1 ack r)
    obtain news where act: "activities (cc_command_sdk c) (world_store w) (world_store w1)" and "cw_sent w1 = cw_sent w @ news"
      and news: "\<And>reply'. Inr reply = (Inr reply' :: session_error + control_envelope) \<Longrightarrow>
        news = [e] \<and> read_envelope (cc_session_sdk c) (xg_received (tk_exchange tk)) = Inr reply'"
      by (rule exchange_effect [OF read(1) meanwhile]) blast
    then have sent: "cw_sent w1 = cw_sent w @ [e]" and acked: "heartbeat_acknowledged c hello tk e ack" using read(2) by auto
    have same: "cw_disk w1 = cw_disk w" by (rule exchange_disk [OF read(1) quiet])
    have inv1: "command_inv (cc_command_sdk c) (world_store w1)"
      by (rule command_run_inv [OF activities_command_run [OF act] ok inv])
    from read(3) show ?thesis
    proof (cases rule: bind_act_elim)
      case (stopped err)
      with read(4) have "s' = s" by simp
      moreover have "cw_disk w' = cw_disk w" using accept_acknowledged_effect(3) [OF stopped(1)] same by simp
      ultimately show ?thesis using changed by simp
    next
      case (continued u w2)
      have w2: "cw_disk w2 = cw_disk w" "cw_sent w2 = cw_sent w @ [e]"
        using accept_acknowledged_effect(2,3) [OF continued(1)] same sent by simp_all
      have kept: "cw_processor w' = cw_processor w2" "cw_sent w' = cw_sent w2"
        using confirm_running_effect [OF continued(2)] by simp_all
      obtain q d where q: "confirm (cc_update_sdk c) (tk_faults tk) (cc_version c) (cw_disk w2) = (q, d)" by force
      then have d: "cw_disk w' = d" "(\<exists>u. r = Inr u) \<longrightarrow> (\<exists>b. q = Inr b)"
        using continued(2) by (auto simp: confirm_running_def split: sum.splits)
      from q have "confirm (cc_update_sdk c) (tk_faults tk) (cc_version c) (cw_disk w) = (q, cw_disk w')" unfolding w2(1) d(1) .
      moreover note d(2)
      moreover have "s' \<noteq> s \<longrightarrow> (\<exists>u. r = Inr u)" using read(4) by (cases r) auto
      moreover have "cw_sent w' = cw_sent w @ [e]" using w2(2) kept(2) by simp
      moreover have "command_stored c ack (world_store w')"
        using accept_acknowledged_stored [OF continued(1) ok inv1] kept(1) by simp
      ultimately show ?thesis using acked by blast
    qed
  qed
qed

text \<open>C29. Only the center's answer makes a version healthy: a round of the session that turns it stable, or that confirms an update on the disk, has sent a
  heartbeat and read an acknowledgement of this very heartbeat, and the command that came with it is stored; the confirmation is the
  updater's, and the session is stable only if it succeeded. (Nothing else changes the disk in this round.)\<close>

theorem health_confirmed_by_center:
  assumes "session_tick c hello tk s w = (out, s', w')" and "command_sdk_ok (cc_command_sdk c)"
    and "command_inv (cc_command_sdk c) (world_store w)" and "tick_ok (cc_command_sdk c) tk" and "keeps_disk tk"
    and "s' \<noteq> s \<or> cw_disk w' \<noteq> cw_disk w"
  shows "\<exists>e ack. heartbeat_acknowledged c hello tk e ack \<and> cw_sent w' = cw_sent w @ [e] \<and> command_stored c ack (world_store w') \<and>
    (\<exists>r. confirm (cc_update_sdk c) (tk_faults tk) (cc_version c) (cw_disk w) = (r, cw_disk w') \<and> (s' \<noteq> s \<longrightarrow> (\<exists>b. r = Inr b)))"
proof (cases "processor_next_result (cw_processor w)")
  case (Inr result)
  obtain r w1 where send: "send_command_result (cc_command_sdk c) (cc_processor_sdk c) (cc_session_sdk c) (tk_message_id tk) (tk_exchange tk)
      (tk_storage tk) result w = (r, w1)" by force
  have "cw_disk w1 = cw_disk w"
  proof (cases "ss_new_result (cc_session_sdk c) (tk_message_id tk) result")
    case None
    with send show ?thesis by (simp add: send_command_result_def)
  next
    case (Some e)
    obtain r2 w2 where x: "exchange_envelopes (cc_session_sdk c) (tk_exchange tk) e w = (r2, w2)" by force
    have disk: "cw_disk w2 = cw_disk w" by (rule exchange_disk [OF x]) (use assms(5) in \<open>simp add: keeps_disk_def\<close>)
    from send Some x show ?thesis by (cases rule: send_command_result_cases) (use disk in simp_all)
  qed
  with assms(1,6) Inr send show ?thesis by (auto simp: session_tick_def split: sum.splits)
next
  case (Inl err)
  have idle: "cw_disk (tk_idle tk w) = cw_disk w" "cw_sent (tk_idle tk w) = cw_sent w"
    using assms(4,5) by (simp_all add: keeps_disk_def tick_ok_def meanwhile_ok_def)
  have act: "activities (cc_command_sdk c) (world_store w) (world_store (tk_idle tk w))"
    using assms(4) by (simp add: tick_ok_def meanwhile_ok_def)
  have inv: "command_inv (cc_command_sdk c) (world_store (tk_idle tk w))"
    by (rule command_run_inv [OF activities_command_run [OF act] assms(2,3)])
  have "session_heartbeat c hello tk s w = (out, s', w') \<or> session_heartbeat c hello tk s (tk_idle tk w) = (out, s', w')"
    using assms(1,6) Inl idle by (auto simp: session_tick_def Let_def split: if_splits heartbeat_wait.splits)
  then show ?thesis
  proof
    assume "session_heartbeat c hello tk s w = (out, s', w')"
    from heartbeat_confirms [OF this assms(2-6)] show ?thesis .
  next
    assume "session_heartbeat c hello tk s (tk_idle tk w) = (out, s', w')"
    from heartbeat_confirms [OF this assms(2) inv assms(4,5)] assms(6) idle show ?thesis by simp
  qed
qed

theorem health_confirmed_by_center_witness:
  "\<exists>s' w'. session_tick (demo_client demo_update_sdk) \<lparr>ch_session_id = ''s'', ch_interval_seconds = 30\<rparr> (demo_tick ''B'')
      \<lparr>sn_stable = False, sn_next_heartbeat = 60\<rparr> ((demo_world demo_accepted)\<lparr>cw_disk := demo_switched\<rparr>) = (InSession, s', w') \<and>
    sn_stable s' \<and> cw_sent w' = [message ''beat'' ''m'' []] \<and> bucket_get (ud_states (cw_disk w')) pending_filename = None \<and>
    (\<exists>ack. command_stored (demo_client demo_update_sdk) ack (world_store w'))"
proof -
  let ?c = "demo_client demo_update_sdk" and ?hello = "\<lparr>ch_session_id = ''s'', ch_interval_seconds = 30\<rparr>"
  let ?s = "\<lparr>sn_stable = False, sn_next_heartbeat = 60\<rparr>" and ?w = "(demo_world demo_accepted)\<lparr>cw_disk := demo_switched\<rparr>"
  obtain old new st where st: "ud_current demo_switched = Some new" "read_state demo_update_sdk pending_filename demo_switched = Inr st"
      "us_target_version st = ''1''" "us_target_target st = new"
    by (rule update_prepare_restart [OF demo_prepared demo_update_sdk_ok demo_observe]) (simp_all add: demo_prepare_env_def time_is_zero_def)
  then have "ud_current demo_switched = Some (us_target_target st)" by simp
  from confirm_pending [OF st(2) this st(3)]
  obtain d where d: "confirm demo_update_sdk (\<lambda>_. None) ''1'' demo_switched = (Inr True, d)"
      "read_state demo_update_sdk pending_filename d = Inl StateNotExist" .
  have gone: "bucket_get (ud_states d) pending_filename = None"
    using d(2) by (auto simp: read_state_def split: option.splits if_splits)
  have "sdk_command_digest_of demo_control_sdk demo_task = Some ''sha''" "sdk_valid_key demo_control_sdk ''a''"
    by (simp_all add: demo_control_sdk_def demo_command_sdk_def)
  then have accept: "command_accept demo_control_sdk None ''a'' demo_task 50 demo_accepted = (Inr False, demo_accepted)"
    using demo_get by (simp add: command_accept_def demo_pending_def)
  have none: "next_result demo_accepted = Inl CommandNotFound"
    by (simp add: next_result_def sorted_locked_def demo_accepted_def demo_pending_def)
  obtain s' w' where run: "session_tick ?c ?hello (demo_tick ''B'') ?s ?w = (InSession, s', w')" and after: "sn_stable s'" "cw_disk w' = d"
      "cw_sent w' = [message ''beat'' ''m'' []]"
    using none accept d(1)
    by (simp add: session_tick_def processor_next_result_def session_heartbeat_def demo_world_def new_processor_def demo_tick_def demo_exchange_def
        demo_client_def demo_session_sdk_def exchange_envelopes_def write_envelope_def read_envelope_def acknowledgement_of_def message_def
        accept_acknowledged_def processor_accept_def confirm_running_def bind_act_def demo_control_px_def demo_px_def)
  have "tick_ok (cc_command_sdk ?c) (demo_tick ''B'')" using demo_ticks_ok [of _ "[''B'']"] by simp
  moreover have "keeps_disk (demo_tick ''B'')" by (simp add: keeps_disk_def demo_tick_def demo_exchange_def)
  moreover have "s' \<noteq> ?s" using after(1) by auto
  ultimately have "\<exists>ack. command_stored ?c ack (world_store w')"
    using health_confirmed_by_center [OF run] demo_control_sdk_ok demo_control_inv(2) by (auto simp: demo_client_def demo_world_def new_processor_def)
  with run after gone show ?thesis by (intro exI [of _ s'] exI [of _ w']) simp
qed

subsection \<open>Configuration, pin and identity\<close>

text \<open>C34. A saved configuration is read back: the file that was written holds the encoding of the normalized configuration and a line feed,
  normalizing it again changes nothing, and loading the file gives exactly the normalized configuration - unless the text is longer than a
  megabyte, which saving does not check and loading refuses.\<close>

theorem config_reads_back:
  assumes "config_sdk_ok sdk" and "config_save sdk fault name c dir = (Inr (), dir')"
  shows "\<exists>c' raw. config_normalize sdk c = Inr c' \<and> config_normalize sdk c' = Inr c' \<and> cd_marshal sdk c' = Some raw \<and>
    dir' = bucket_put name (config_file (raw @ [CHR 0x0A])) dir \<and>
    config_load sdk False name dir' = (if length (raw @ [CHR 0x0A]) \<le> 2 ^ 20 then Inr c' else Inl ConfigTooLarge)"
proof -
  obtain c' raw where c': "config_normalize sdk c = Inr c'" "normal_config sdk c'" "cd_marshal sdk c' = Some raw"
    "dir' = bucket_put name (config_file (raw @ [CHR 0x0A])) dir"
    "config_load sdk False name dir' = (if length raw < max_config_bytes then Inr c' else Inl ConfigTooLarge)"
    by (rule config_saved_loaded [OF assms])
  then show ?thesis using normal_normalize [OF c'(2)]
    by (intro exI [of _ c'] exI [of _ raw]) (simp add: max_config_bytes_def Suc_le_eq)
qed

definition demo_url :: center_url where
  "demo_url = \<lparr>pu_scheme = https, pu_has_user = False, pu_host = ''c'', pu_hostname = ''c'', pu_port = [], pu_raw_query = [], pu_fragment = [],
     pu_path = [], pu_force_query = False\<rparr>"

definition demo_pin :: string where
  "demo_pin = concat (replicate 32 ''a0'')"

definition demo_config :: agent_config where
  "demo_config = \<lparr>cf_server_url = ''https://c'', cf_state_directory = ''/s'', cf_allow_insecure = False, cf_server_cert_sha256 = demo_pin\<rparr>"

definition demo_config_sdk :: config_sdk where
  "demo_config_sdk =
     \<lparr>cd_parse = (\<lambda>s. if s = ''https://c'' then Some demo_url else if s = ''https://c/'' then Some (demo_url\<lparr>pu_path := [slash]\<rparr>) else None),
      cd_print = (\<lambda>u. if u = demo_url then ''https://c'' else ''wss://c'' @ pu_path u),
      cd_marshal = (\<lambda>c. if c = demo_config then Some ''C'' else None),
      cd_unmarshal = (\<lambda>raw. if raw = ''C'' @ [CHR 0x0A] then Some demo_config else None)\<rparr>"

definition demo_entered :: agent_config where
  "demo_entered = demo_config\<lparr>cf_server_url := '' https://c/ '', cf_server_cert_sha256 := concat (replicate 31 ''A0:'') @ ''A0''\<rparr>"

lemma demo_config_sdk_ok: "config_sdk_ok demo_config_sdk"
proof -
  have "demo_url\<lparr>pu_path := []\<rparr> = demo_url" by (simp add: demo_url_def)
  then show ?thesis
    by (auto simp: config_sdk_ok_def demo_config_sdk_def trim_space_def white_space_def trim_slash_def split: if_splits)
qed

lemma demo_config_normalized: "config_normalize demo_config_sdk demo_entered = Inr demo_config"
proof -
  have "trim_space '' https://c/ '' = ''https://c/''" by (simp add: trim_space_def white_space_def)
  moreover have "normalize_pin (concat (replicate 31 ''A0:'') @ ''A0'') = demo_pin"
    by code_simp
  moreover have "valid_sha256 demo_pin" by code_simp
  moreover have "demo_url\<lparr>pu_path := []\<rparr> = demo_url" by (simp add: demo_url_def)
  moreover have "abs_and_clean ''/s''" by code_simp
  ultimately show ?thesis
    by (simp add: config_normalize_def demo_entered_def demo_config_def demo_config_sdk_def usable_center_def demo_url_def Let_def trim_slash_def)
qed

theorem config_reads_back_witness:
  "\<exists>dir'. config_save demo_config_sdk None ''config.json'' demo_entered [] = (Inr (), dir') \<and>
    dir' = [(''config.json'', config_file (''C'' @ [CHR 0x0A]))] \<and> config_load demo_config_sdk False ''config.json'' dir' = Inr demo_config"
proof -
  have "cd_marshal demo_config_sdk demo_config = Some ''C''" by (simp add: demo_config_sdk_def)
  then have save: "config_save demo_config_sdk None ''config.json'' demo_entered [] = (Inr (), [(''config.json'', config_file (''C'' @ [CHR 0x0A]))])"
    by (simp add: config_save_def demo_config_normalized replace_config_def bucket_put.simps)
  from config_reads_back [OF demo_config_sdk_ok save] obtain raw where
    raw: "cd_marshal demo_config_sdk demo_config = Some raw"
      "config_load demo_config_sdk False ''config.json'' [(''config.json'', config_file (''C'' @ [CHR 0x0A]))] =
        (if length (raw @ [CHR 0x0A]) \<le> 2 ^ 20 then Inr demo_config else Inl ConfigTooLarge)"
    unfolding demo_config_normalized by auto
  have "raw = ''C''" using raw(1) \<open>cd_marshal demo_config_sdk demo_config = Some ''C''\<close> by simp
  with raw(2) save show ?thesis by simp
qed

text \<open>C33. With a certificate pin the agent talks only to that center: for every configuration that is accepted the connection can be set up, and
  the certificates of a center pass exactly if there is no pin or the SHA-256 of the first one, in hexadecimal, is the pin of
  the normalized configuration.\<close>

theorem pinned_certificate_exact:
  assumes "config_sdk_ok sdk" and "config_normalize sdk c = Inr c'"
  shows "\<exists>pinned. control_tls (cf_server_cert_sha256 c') = Inr pinned \<and>
    (verify_connection sha256 pinned certificates = Inr () \<longleftrightarrow>
       cf_server_cert_sha256 c' = [] \<or> certificates \<noteq> [] \<and> encode_hex (sha256 (hd certificates)) = cf_server_cert_sha256 c')"
proof (cases "cf_server_cert_sha256 c' = []")
  case True
  then show ?thesis by (simp add: control_tls_def verify_connection_def)
next
  case False
  with normalize_normal(1) [OF assms] have "valid_sha256 (cf_server_cert_sha256 c')" by (simp add: normal_config_def)
  then have pin: "list_all lower_hex (cf_server_cert_sha256 c')" "length (cf_server_cert_sha256 c') = 64" by (simp_all add: valid_sha256_def)
  obtain d where d: "decode_hex (cf_server_cert_sha256 c') = Some d" "length (cf_server_cert_sha256 c') = 2 * length d"
      "encode_hex d = cf_server_cert_sha256 c'"
    by (rule decode_hex_lower [OF pin(1)]) (simp add: pin(2))
  have "sha256 (hd certificates) = d \<longleftrightarrow> encode_hex (sha256 (hd certificates)) = cf_server_cert_sha256 c'"
    using encode_hex_inj d(3) by metis
  with False d(1,2) pin(2) show ?thesis
    by (auto simp: control_tls_def verify_connection_def split: list.splits)
qed

theorem pinned_certificate_exact_witness:
  "\<exists>pinned. control_tls demo_pin = Inr pinned \<and> verify_connection (\<lambda>_. replicate 32 (CHR 0xA0)) pinned [''certificate''] = Inr () \<and>
    verify_connection (\<lambda>_. ''other'') pinned [''certificate''] \<noteq> Inr () \<and> verify_connection (\<lambda>_. replicate 32 (CHR 0xA0)) pinned [] \<noteq> Inr ()"
proof -
  have pin: "cf_server_cert_sha256 demo_config = demo_pin" "demo_pin \<noteq> []" by (simp add: demo_config_def, code_simp)
  have hex: "encode_hex (replicate 32 (CHR 0xA0)) = demo_pin" "encode_hex ''other'' \<noteq> demo_pin" by code_simp+
  note exact = pinned_certificate_exact [OF demo_config_sdk_ok demo_config_normalized, unfolded pin(1)]
  obtain pinned where pinned: "control_tls demo_pin = Inr pinned" using exact [of "\<lambda>_. []" "[]"] by auto
  show ?thesis
    using exact [of "\<lambda>_. replicate 32 (CHR 0xA0)" "[''certificate'']"] exact [of "\<lambda>_. ''other''" "[''certificate'']"]
      exact [of "\<lambda>_. replicate 32 (CHR 0xA0)" "[]"] pin(2) hex pinned
    by simp
qed

text \<open>C32. An agent registers once: whatever way it got its identity, the next start has the same identity, without a token, an
  answer of the center or a change on the disk; the identity passes the SDK's validation, and at most one request was sent, and only when there was no
  identity. (The file of this identity stays below 64 kilobytes, which saving does not check.)\<close>

theorem registration_is_remembered:
  assumes "identity_sdk_ok isdk" and "client_identity sdk isdk config version False False env token w = (Inr v, w')"
    and "case ik_marshal isdk v of None \<Rightarrow> True | Some raw \<Rightarrow> length raw < max_identity_bytes"
  shows "client_identity sdk isdk config' version' False False env' token' w' = (Inr v, w') \<and> ik_valid isdk v \<and>
    (w' = w \<or> identity_load isdk False False (rw_directory w) = Inl IdentityMissing \<and>
       (\<exists>raw. rw_posted w' = rw_posted w @ [(http_url config ''/api/v1/agent/register'', raw)]))"
proof (cases "identity_load isdk False False (rw_directory w)")
  case (Inr current)
  moreover from this have "ik_valid isdk current" by (auto simp: identity_load_def split: option.splits if_splits)
  ultimately show ?thesis using assms(2) by (auto simp: client_identity_def)
next
  case (Inl e)
  obtain r w2 where reg: "register_agent sdk isdk config version env (trim_space token) w = (r, w2)" by force
  with assms(2) Inl have e: "e = IdentityMissing" "r = Inr v" "w2 = w'"
    by (auto simp: client_identity_def split: if_splits sum.splits)
  obtain raw dir where d: "identity_save isdk (ro_disk_fault env) v (rw_directory w) = (Inr (), dir)" "ik_valid isdk v"
      "w' = w\<lparr>rw_posted := rw_posted w @ [(http_url config ''/api/v1/agent/register'', raw)], rw_directory := dir\<rparr>"
    using reg unfolding e by (auto simp: register_agent_def Let_def split: if_splits option.splits prod.splits sum.splits)
  obtain raw' where "ik_marshal isdk v = Some raw'" "length raw' < max_identity_bytes \<longrightarrow> identity_load isdk False False dir = Inr v"
    by (rule identity_saved_loaded [OF assms(1) d(1)])
  then have "identity_load isdk False False dir = Inr v" using assms(3) by simp
  with d Inl e(1) show ?thesis by (simp add: client_identity_def)
qed

definition demo_identity_sdk :: identity_sdk where
  "demo_identity_sdk = \<lparr>ik_valid = (\<lambda>v. v = demo_identity), ik_marshal = (\<lambda>_. Some ''I''), ik_unmarshal = (\<lambda>_. Some demo_identity)\<rparr>"

definition demo_registration_sdk :: registration_sdk where
  "demo_registration_sdk = \<lparr>rs_api_version = ''v1'', rs_os = ''linux'', rs_arch = ''amd64'', rs_capabilities = [], rs_valid_token = (\<lambda>t. t = ''token''),
     rs_valid_request = (\<lambda>_. True), rs_marshal = (\<lambda>r. Some (rg_token r)), rs_decode_response = (\<lambda>_. Some demo_identity)\<rparr>"

definition demo_registration_env :: registration_env where
  "demo_registration_env = \<lparr>ro_hostname = Some ''host'', ro_request_refused = False, ro_response = Some (201, Some ''{}''), ro_disk_fault = None\<rparr>"

theorem registration_is_remembered_witness:
  "\<exists>w'. client_identity demo_registration_sdk demo_identity_sdk demo_config ''1'' False False demo_registration_env ''token''
      \<lparr>rw_directory = [], rw_posted = []\<rparr> = (Inr demo_identity, w') \<and>
    rw_posted w' = [(''https://c/api/v1/agent/register'', ''token'')] \<and>
    client_identity demo_registration_sdk demo_identity_sdk demo_config ''2'' False False (demo_registration_env\<lparr>ro_response := None\<rparr>) '''' w' = (Inr demo_identity, w')"
proof -
  have trimmed: "trim_space ''token'' = ''token''" by (simp add: trim_space_def white_space_def)
  obtain w' where run: "client_identity demo_registration_sdk demo_identity_sdk demo_config ''1'' False False demo_registration_env ''token''
      \<lparr>rw_directory = [], rw_posted = []\<rparr> = (Inr demo_identity, w')" "rw_posted w' = [(''https://c/api/v1/agent/register'', ''token'')]"
    by (simp add: client_identity_def identity_load_def register_agent_def trimmed demo_registration_sdk_def demo_registration_env_def demo_identity_sdk_def
        max_response_bytes_def status_created_def identity_save_def replace_file_def http_url_def demo_config_def)
  have "identity_sdk_ok demo_identity_sdk" by (simp add: identity_sdk_ok_def demo_identity_sdk_def)
  from registration_is_remembered [OF this run(1)] run show ?thesis by (simp add: demo_identity_sdk_def max_identity_bytes_def)
qed

subsection \<open>The end of the process\<close>

lemma client_loop_failure:
  "client_loop c current attempts backoff w = (ClientWorkerFailed f, lines, w') \<Longrightarrow>
   \<exists>a \<in> set attempts. am_worker a = Some f \<or> am_wait a = WorkerEnded f"
  by (induction c current attempts backoff w arbitrary: lines w' rule: client_loop.induct)
    (fastforce simp: Let_def split: if_splits prod.splits session_outcome.splits option.splits retry_wait.splits)+

text \<open>C36. How the agent ends decides what the launcher does with an update that is not confirmed: if the control loop ended because the command processor asked for a
  restart and the switch to another version has been made, the launcher starts the new version on the disk as it is; after every other end the
  previous version is put back and the update is recorded as failed. The launcher can only find the new version in place if the processor has really
  ended so in one of the attempts.\<close>

theorem exit_status_decides_update:
  assumes "load_client sdk env args w = Inr config" and "client_loop c current attempts second cw = (result, lines, cw')"
    and "mv_run env config w = (run_result result, w')"
    and "bucket_get (ud_states d) pending_filename = Some f" and "ud_previous d = Some previous"
  shows "launcher_exit started (fst (main_run sdk env (''run'' # args) w)) d =
    Some (if result = ClientWorkerFailed (ProcessorStopped RestartRequired) \<and> ud_current d \<noteq> Some started then d
          else d\<lparr>ud_current := Some previous, ud_states := bucket_put failed_filename f (bucket_delete pending_filename (ud_states d))\<rparr>) \<and>
    (launcher_exit started (fst (main_run sdk env (''run'' # args) w)) d = Some d \<longrightarrow>
       (\<exists>a \<in> set attempts. am_worker a = Some (ProcessorStopped RestartRequired) \<or> am_wait a = WorkerEnded (ProcessorStopped RestartRequired)))"
proof -
  let ?restart = "result = ClientWorkerFailed (ProcessorStopped RestartRequired)"
  have "fst (main_run sdk env (''run'' # args) w) = restart_exit_code \<longleftrightarrow> ?restart"
    using assms(1,3)
    by (auto simp: main_run_def run_agent_def run_result_def agent_run_exit_code_def go_restart_exit_code_def restart_exit_code_def
        split: client_end.splits)
  with assms(4,5) have exit: "launcher_exit started (fst (main_run sdk env (''run'' # args) w)) d =
    Some (if ?restart \<and> ud_current d \<noteq> Some started then d
          else d\<lparr>ud_current := Some previous, ud_states := bucket_put failed_filename f (bucket_delete pending_filename (ud_states d))\<rparr>)"
    by (auto simp: launcher_exit_def)
  have "pending_filename \<noteq> failed_filename" by (simp add: pending_filename_def failed_filename_def)
  then have "bucket_get (bucket_put failed_filename f (bucket_delete pending_filename (ud_states d))) pending_filename \<noteq> Some f" by simp
  then have "d\<lparr>ud_current := Some previous, ud_states := bucket_put failed_filename f (bucket_delete pending_filename (ud_states d))\<rparr> \<noteq> d"
    using assms(4) by (metis update_disk.select_convs(1) update_disk.surjective update_disk.update_convs(1,2))
  then have "launcher_exit started (fst (main_run sdk env (''run'' # args) w)) d = Some d \<Longrightarrow> ?restart" using exit by (auto split: if_splits)
  with exit client_loop_failure [of c current attempts second cw _ lines cw'] assms(2) show ?thesis by blast
qed

definition demo_main_sdk :: main_sdk where
  "demo_main_sdk = \<lparr>mk_config = demo_config_sdk, mk_identity = demo_identity_sdk, mk_registration = demo_registration_sdk, mk_version = ''1''\<rparr>"

definition demo_main_env :: "run_error option \<Rightarrow> main_env" where
  "demo_main_env e = \<lparr>mv_limited_plugin = (\<lambda>_. True), mv_written = True, mv_init_flags = (\<lambda>_. None), mv_config_flag = (\<lambda>_. Some ''c.json''),
     mv_save_fault = None, mv_load_fault = False, mv_opened = True, mv_token = [], mv_registration = demo_registration_env,
     mv_run = (\<lambda>_ w. (e, w))\<rparr>"

definition demo_main_world :: main_world where
  "demo_main_world = \<lparr>mw_config_files = [(''c.json'', config_file (''C'' @ [CHR 0x0A]))], mw_state = \<lparr>rw_directory = [], rw_posted = []\<rparr>\<rparr>"

definition demo_restart_attempt :: "(unit, worker_failure) attempt" where
  "demo_restart_attempt = \<lparr>am_done_before = False, am_env = (demo_session_env [])\<lparr>se_dial := DialBroken\<rparr>, am_done_after = False,
     am_worker = Some (ProcessorStopped RestartRequired), am_random = (\<lambda>_. 0), am_wait = DelayOver\<rparr>"

lemma demo_load_client: "\<exists>config. load_client demo_main_sdk (demo_main_env e) args demo_main_world = Inr config"
proof -
  have "config_normalize demo_config_sdk demo_config = Inr demo_config"
    by (rule normal_normalize [OF normalize_normal(1) [OF demo_config_sdk_ok demo_config_normalized]])
  moreover have "control_tls (cf_server_cert_sha256 demo_config) = Inr (Some (replicate 32 (CHR 0xA0)))" by code_simp
  ultimately show ?thesis
    by (auto simp: load_client_def demo_main_sdk_def demo_main_env_def demo_main_world_def config_load_def config_file_def max_config_bytes_def
        demo_config_sdk_def bucket_get_def new_client_def)
qed

theorem exit_status_decides_update_witness:
  "launcher_exit (target_of ''0'') (fst (main_run demo_main_sdk (demo_main_env (Some (RunWorkerFailed (ProcessorStopped RestartRequired)))) [''run''] demo_main_world))
     demo_switched = Some demo_switched"
proof -
  obtain config where load: "load_client demo_main_sdk (demo_main_env (Some (RunWorkerFailed (ProcessorStopped RestartRequired)))) [] demo_main_world = Inr config"
    using demo_load_client by blast
  have loop: "client_loop (demo_client demo_update_sdk) demo_identity [demo_restart_attempt] second (demo_world demo_empty) =
      (ClientWorkerFailed (ProcessorStopped RestartRequired), [], demo_world demo_empty)"
    by (simp add: demo_restart_attempt_def demo_session_env_def run_session_def)
  have "bucket_get (ud_states demo_switched) pending_filename = Some (private_file (''S'' @ [CHR 0x0A]))" "ud_previous demo_switched = Some (target_of ''0'')"
    "ud_current demo_switched \<noteq> Some (target_of ''0'')"
    using demo_names by (simp_all add: demo_switched_def bucket_get_def target_of_def)
  with exit_status_decides_update [OF load loop] show ?thesis by (simp add: demo_main_env_def run_result_def)
qed

end
