(* ===== verification/PluginOwnership.thy ===== *)
theory PluginOwnership
  imports PluginReconciling
begin

section \<open>Every process that runs belongs to an actor\<close>

text \<open>
  The supervisor forgets no process: at the end of every handler, each process that runs is the one of the actor of its plugin. In the middle of a
  handler a candidate runs that no actor has yet, so the invariant is first stated with the handles \<open>c\<close> that the handler of one plugin answers for.
  What is assumed of the outside is that a process that is told to stop exits.
\<close>

definition handles :: "os_state \<Rightarrow> nat set" where
  "handles os = rn_handle ` set (os_running os)"

lemma exited_handles: "exited os p \<longleftrightarrow> mp_handle p \<notin> handles os"
  by (simp add: exited_def handles_def)

lemma handles_gone [simp]: "handles (process_gone h os) = handles os - {h}" "os_next_handle (process_gone h os) = os_next_handle os"
  by (auto simp: handles_def process_gone_def)

text \<open>A stop ends the process: after \<^verbatim>\<open>SIGTERM\<close>, or after \<^verbatim>\<open>SIGKILL\<close>, it exits, both when the supervisor stops it, where the socket can
  be removed too, and when a connection to it has failed.\<close>

definition stops_work :: "outside \<Rightarrow> bool" where
  "stops_work od \<longleftrightarrow> quiet_stop (od_stop od) \<and> (so_exits_on_term (sb_stop (od_start od)) \<or> so_exits_on_kill (sb_stop (od_start od)))"

text \<open>The watch that has seen its process exit gives up a process that has exited; all others give up processes that have been started.\<close>

definition task_settled :: "os_state \<Rightarrow> task \<Rightarrow> bool" where
  "task_settled os t \<longleftrightarrow>
     (case t of
        Watch _ p _ \<Rightarrow> mp_handle p < os_next_handle os
      | GiveUp _ p reason \<Rightarrow> mp_handle p < os_next_handle os \<and> (reason = ExitedUnexpectedly \<longrightarrow> exited os p)
      | Retry _ \<Rightarrow> True)"

definition accounted :: "string \<Rightarrow> nat set \<Rightarrow> 's supervisor \<Rightarrow> bool" where
  "accounted plugin c w \<longleftrightarrow>
     (\<forall>n. stops_work (sv_outside w n)) \<and> (\<forall>h \<in> handles (sv_os w) \<union> c. h < os_next_handle (sv_os w)) \<and>
     (\<forall>h \<in> handles (sv_os w) - c. \<exists>q p. q \<noteq> plugin \<and> process_of w q = Some p \<and> mp_handle p = h) \<and>
     (\<forall>t \<in> set (sv_tasks w). task_settled (sv_os w) t)"

definition owned :: "'s supervisor \<Rightarrow> bool" where
  "owned w \<longleftrightarrow>
     (\<forall>n. stops_work (sv_outside w n)) \<and> (\<forall>h \<in> handles (sv_os w). h < os_next_handle (sv_os w)) \<and>
     (\<forall>h \<in> handles (sv_os w). \<exists>q p. process_of w q = Some p \<and> mp_handle p = h) \<and>
     (\<forall>t \<in> set (sv_tasks w). task_settled (sv_os w) t)"

lemma accounted_owned:
  assumes "accounted plugin c w" and "\<forall>h \<in> c. \<exists>p. process_of w plugin = Some p \<and> mp_handle p = h"
  shows "owned w"
  using assms unfolding accounted_def owned_def by blast

lemma accounted_none: "accounted plugin {} w \<Longrightarrow> owned w"
  using accounted_owned [of plugin "{}" w] by simp

lemma accounted_process: "accounted plugin {mp_handle p} w \<Longrightarrow> process_of w plugin = Some p \<Longrightarrow> owned w"
  using accounted_owned [of plugin "{mp_handle p}" w] by simp

lemma owned_idle:
  assumes "owned w" and "\<forall>p. process_of w plugin = Some p \<longrightarrow> exited (sv_os w) p"
  shows "accounted plugin {} w"
  using assms unfolding owned_def accounted_def exited_handles by (metis Diff_empty Un_empty_right)

lemma owned_busy:
  assumes "owned w" and "process_of w plugin = Some p" and "\<not> exited (sv_os w) p"
  shows "accounted plugin {mp_handle p} w"
  unfolding accounted_def
proof (intro conjI ballI)
  show "\<exists>q r. q \<noteq> plugin \<and> process_of w q = Some r \<and> mp_handle r = h" if h: "h \<in> handles (sv_os w) - {mp_handle p}" for h
  proof -
    from assms(1) h obtain q r where "process_of w q = Some r" "mp_handle r = h" by (auto simp: owned_def)
    with h assms(2) show ?thesis by (metis DiffD2 option.inject singletonI)
  qed
qed (use assms in \<open>auto simp: owned_def exited_handles\<close>)

lemma owned_no_process: "owned w \<Longrightarrow> (\<And>q. process_of w q = None) \<Longrightarrow> os_running (sv_os w) = []"
  by (auto simp: owned_def handles_def)

subsection \<open>Actions that leave the processes alone\<close>

definition still :: "'s supervisor \<Rightarrow> 's supervisor \<Rightarrow> bool" where
  "still w w' \<longleftrightarrow> sv_os w' = sv_os w \<and> sv_outside w' = sv_outside w \<and> sv_actors w' = sv_actors w \<and> sv_tasks w' = sv_tasks w"

lemma still_refl [simp]: "still w w"
  by (simp add: still_def)

lemma still_trans: "still a b \<Longrightarrow> still b c \<Longrightarrow> still a c"
  by (simp add: still_def)

lemma still_process: "still w w' \<Longrightarrow> process_of w' q = process_of w q"
  by (simp add: still_def process_of_def actor_of_def)

lemma still_accounted: "still w w' \<Longrightarrow> accounted plugin c w' = accounted plugin c w"
  using still_process [of w w'] by (simp add: still_def accounted_def)

lemma still_owned: "still w w' \<Longrightarrow> owned w' = owned w"
  using still_process [of w w'] by (simp add: still_def owned_def)

lemma still_updates [simp]:
  "still w (w'\<lparr>sv_releases := rel\<rparr>) = still w w'" "still w (w'\<lparr>sv_data := ds\<rparr>) = still w w'" "still w (w'\<lparr>sv_sink := s\<rparr>) = still w w'"
  "still w (w'\<lparr>sv_states := st\<rparr>) = still w w'" "still w (set_capabilities p cs w') = still w w'" "still w (clear_capabilities m w') = still w w'"
  by (simp_all add: still_def set_capabilities_def clear_capabilities_def)

lemma still_next: "next_outside w = (od, w') \<Longrightarrow> still w w'"
  by (auto simp: next_outside_def still_def)

lemma still_emit_revision: "effect still (emit_revision sk put plugin v n)"
  by (auto simp: effect_def emit_revision_def emit_def split: if_splits option.splits prod.splits dest: still_next)

lemma still_logged: "effect still m \<Longrightarrow> still w (logged m w)"
  by (metis effectD logged_def prod.collapse)

lemma still_emit_failed: "still w (emit_failed sk put plugin g v d n r w)"
proof -
  have "effect still (emit sk put e)" for e
    by (auto simp: effect_def emit_def split: if_splits option.splits prod.splits dest: still_next)
  then show ?thesis unfolding emit_failed_def by (rule still_logged)
qed

lemma still_verify: "effect still (verify_revision_artifact sk plugin v)"
  by (auto simp: effect_def verify_revision_artifact_def split: option.splits prod.splits if_splits dest: still_next)

lemma still_validate: "effect still (validate_act sk d)"
  by (auto simp: effect_def validate_act_def split: prod.splits dest: still_next)

lemma still_apply: "apply_act sk d p w = (r, p', w') \<Longrightarrow> still w w' \<and> mp_handle p' = mp_handle p"
  by (auto simp: apply_act_def split: prod.splits dest: still_next client_apply_result)

lemma still_configure: "configure_revision sk d p w = (p', w') \<Longrightarrow> still w w' \<and> mp_handle p' = mp_handle p"
  by (auto simp: configure_revision_def split: sum.splits prod.splits dest: effectD [OF still_validate] still_apply intro: still_trans)

lemma still_remove_data: "effect still (remove_plugin_data plugin)"
  by (auto simp: effect_def remove_plugin_data_def Let_def split: option.splits prod.splits if_splits dest: still_next)

lemma still_fetch: "effect still (fetch_act sk d)"
  by (auto simp: effect_def fetch_act_def split: prod.splits dest: still_next)

lemma still_on_states: "effect still (on_states f)"
  by (auto simp: effect_def on_states_def split: prod.splits dest: still_next)

lemma still_prune: "still w (prune_act plugin w)"
  by (auto simp: prune_act_def split: prod.splits dest: still_next)

subsection \<open>Actions on the actor and on the goroutines\<close>

lemma accounted_actor [simp]:
  "accounted plugin c (put_actor plugin a w) = accounted plugin c w" "accounted plugin c (set_process plugin p w) = accounted plugin c w"
  "accounted plugin c (set_streak plugin n w) = accounted plugin c w" "accounted plugin c (ensure_actor q w) = accounted plugin c w"
  "accounted plugin c (set_capabilities q cs w) = accounted plugin c w"
proof -
  show put: "accounted plugin c (put_actor plugin a w) = accounted plugin c w" for a by (simp add: accounted_def cong: conj_cong)
  show "accounted plugin c (set_process plugin p w) = accounted plugin c w" "accounted plugin c (set_streak plugin n w) = accounted plugin c w"
    by (simp_all add: set_process_def set_streak_def put)
  show "accounted plugin c (ensure_actor q w) = accounted plugin c w" by (simp add: accounted_def)
  show "accounted plugin c (set_capabilities q cs w) = accounted plugin c w" by (rule still_accounted) simp
qed

lemma owned_ensure [simp]: "owned (ensure_actor q w) = owned w"
  by (simp add: owned_def)

lemma accounted_watch: "accounted plugin c w \<Longrightarrow> mp_handle p \<in> c \<Longrightarrow> accounted plugin c (watch k p w)"
  by (auto simp: accounted_def task_settled_def)

lemma accounted_retry [simp]: "accounted plugin c (add_task (Retry k) w) = accounted plugin c w"
  by (simp add: accounted_def task_settled_def)

lemma replaced_tasks: "t \<in> set (sv_tasks (replace_task i ts w)) \<Longrightarrow> t \<in> set (sv_tasks w) \<or> t \<in> set ts"
  by (auto simp: replace_task_def dest: in_set_takeD in_set_dropD)

lemma accounted_replace:
  "accounted plugin c w \<Longrightarrow> \<forall>t \<in> set ts. task_settled (sv_os w) t \<Longrightarrow> accounted plugin c (replace_task i ts w)"
  unfolding accounted_def using replaced_tasks [of _ i ts w] by (simp, blast)

lemma owned_replace: "owned w \<Longrightarrow> \<forall>t \<in> set ts. task_settled (sv_os w) t \<Longrightarrow> owned (replace_task i ts w)"
  unfolding owned_def using replaced_tasks [of _ i ts w] by (simp, blast)

subsection \<open>Stopping and starting\<close>

text \<open>Processes only exit, or get a handle that no process had before.\<close>

definition os_later :: "os_state \<Rightarrow> os_state \<Rightarrow> bool" where
  "os_later os os' \<longleftrightarrow>
     os_next_handle os \<le> os_next_handle os' \<and> handles os' \<subseteq> handles os \<union> {os_next_handle os..<os_next_handle os'}"

lemma settled_later: "task_settled os t \<Longrightarrow> os_later os os' \<Longrightarrow> task_settled os' t"
  by (auto simp: task_settled_def os_later_def exited_handles split: task.splits)

lemma accounted_os:
  assumes "accounted plugin c w" and "os_later (sv_os w) os'" and "handles os' - c' \<subseteq> handles (sv_os w) - c"
    and "\<And>h. h \<in> c' \<Longrightarrow> h < os_next_handle os'"
  shows "accounted plugin c' (w\<lparr>sv_os := os'\<rparr>)"
proof -
  have same: "process_of (w\<lparr>sv_os := os'\<rparr>) q = process_of w q" for q by (simp add: process_of_def actor_of_def)
  have "h < os_next_handle os'" if "h \<in> handles os' \<union> c'" for h
  proof (cases "h \<in> c'")
    case True
    with assms(4) show ?thesis .
  next
    case False
    with that assms(3) have "h \<in> handles (sv_os w)" by blast
    with assms(1) have "h < os_next_handle (sv_os w)" by (simp add: accounted_def)
    with assms(2) show ?thesis by (simp add: os_later_def)
  qed
  moreover have "\<exists>q p. q \<noteq> plugin \<and> process_of w q = Some p \<and> mp_handle p = h" if "h \<in> handles os' - c'" for h
    using assms(1,3) that unfolding accounted_def by blast
  moreover have "\<forall>t \<in> set (sv_tasks w). task_settled os' t"
    using assms(1) settled_later [OF _ assms(2)] unfolding accounted_def by blast
  moreover have "\<forall>n. stops_work (sv_outside w n)" using assms(1) unfolding accounted_def by blast
  ultimately show ?thesis unfolding accounted_def same by simp
qed

lemma stop_accounted:
  assumes "accounted plugin c w" and "stop_act p w = (r, w')"
  shows "r = Inr () \<and> accounted plugin (c - {mp_handle p}) w'"
proof -
  obtain od w1 where o: "next_outside w = (od, w1)" by force
  have od: "stops_work od" "still w w1" using assms(1) o still_next [OF o] by (auto simp: next_outside_def accounted_def)
  obtain r1 os where s: "stop_process (od_stop od) p (sv_os w1) = (r1, os)" by force
  have out: "r = map_sum ProcessError (\<lambda>x. x) r1" "w' = w1\<lparr>sv_os := os\<rparr>" using assms(2) o s by (auto simp: stop_act_def)
  have os: "r1 = Inr ()" "handles os = handles (sv_os w1) - {mp_handle p}" "os_next_handle os = os_next_handle (sv_os w1)"
    using s od(1) by (auto simp: stop_process_def stops_work_def quiet_stop_def exited_handles split: if_splits)
  have acc: "accounted plugin c w1" using assms(1) still_accounted [OF od(2)] by blast
  have "accounted plugin (c - {mp_handle p}) w'" unfolding out(2)
    by (rule accounted_os [OF acc]) (use os acc in \<open>auto simp: os_later_def accounted_def\<close>)
  with os(1) out(1) show ?thesis by simp
qed

lemma start_process_handles:
  assumes "start_process nk sb plugin version socket program os = (r, os')" and "so_exits_on_term (sb_stop sb) \<or> so_exits_on_kill (sb_stop sb)"
  shows "(\<forall>e. r = Inl e \<longrightarrow> handles os' \<subseteq> handles os \<and> os_next_handle os \<le> os_next_handle os') \<and>
    (\<forall>p. r = Inr p \<longrightarrow> handles os' = insert (mp_handle p) (handles os) \<and> mp_handle p = os_next_handle os \<and> os_next_handle os' = Suc (os_next_handle os))"
proof -
  obtain p1 os1 where sp: "spawn plugin program socket sb os = (p1, os1)" by force
  have new: "mp_handle p1 = os_next_handle os" "handles os1 = insert (mp_handle p1) (handles os)" "os_next_handle os1 = Suc (os_next_handle os)"
    using sp by (auto simp: spawn_def handles_def)
  have stop: "handles os3 \<subseteq> handles os \<and> os_next_handle os \<le> os_next_handle os3"
    if "stop_process (sb_stop sb) p1 os2 = (x, os3)" "os2 = process_gone (mp_handle p1) os1 \<or> os2 = os1" for os2 x os3
    using that new assms(2) by (auto simp: stop_process_def exited_handles split: if_splits)
  have "(\<exists>e. r = Inl e) \<and> os' = os \<or> (\<exists>q. r = Inr q \<and> mp_handle q = mp_handle p1) \<and> os' = os1 \<or>
      (\<exists>e. r = Inl e) \<and> (\<exists>x. stop_process (sb_stop sb) p1 (process_gone (mp_handle p1) os1) = (x, os') \<or> stop_process (sb_stop sb) p1 os1 = (x, os'))"
    using assms(1) unfolding start_process_def sp Let_def
    by (simp split: option.split_asm if_split_asm sum.split_asm prod.split_asm) auto
  then show ?thesis
  proof (elim disjE conjE exE)
    fix e x assume "r = Inl e" "stop_process (sb_stop sb) p1 (process_gone (mp_handle p1) os1) = (x, os')"
    with stop show ?thesis by blast
  next
    fix e x assume "r = Inl e" "stop_process (sb_stop sb) p1 os1 = (x, os')"
    with stop show ?thesis by blast
  qed (use new in auto)
qed

lemma start_accounted:
  assumes "accounted plugin c w" and "start_act sk k version a w = (r, w')"
  shows "(\<forall>e. r = Inl e \<longrightarrow> accounted plugin c w') \<and> (\<forall>p. r = Inr p \<longrightarrow> accounted plugin (insert (mp_handle p) c) w')"
proof -
  obtain od w1 where o: "next_outside w = (od, w1)" by force
  have od: "stops_work od" "still w w1" using assms(1) o still_next [OF o] by (auto simp: next_outside_def accounted_def)
  obtain r1 os where s: "start_process (sk_node sk) (od_start od) k version (socket_path (in_sha256 (sk_installer sk)) (sk_runtime_dir sk) k)
      (executable_slot (sv_releases w1) k version a) (sv_os w1) = (r1, os)" by force
  have out: "r = map_sum ProcessError (\<lambda>x. x) r1" "still (w1\<lparr>sv_os := os\<rparr>) w'"
    using assms(2) o s by (auto simp: start_act_def)
  have acc: "accounted plugin c w1" using assms(1) still_accounted [OF od(2)] by blast
  have bound: "h < os_next_handle (sv_os w1)" if "h \<in> c" for h using acc that by (simp add: accounted_def)
  note st = start_process_handles [OF s]
  have ex: "so_exits_on_term (sb_stop (od_start od)) \<or> so_exits_on_kill (sb_stop (od_start od))" using od(1) by (simp add: stops_work_def)
  show ?thesis
  proof (cases r1)
    case (Inl e)
    have "accounted plugin c (w1\<lparr>sv_os := os\<rparr>)"
      by (rule accounted_os [OF acc]) (use st [OF ex] Inl bound in \<open>auto simp: os_later_def dest!: bound\<close>)
    with still_accounted [OF out(2)] Inl out(1) show ?thesis by simp
  next
    case (Inr p)
    have "accounted plugin (insert (mp_handle p) c) (w1\<lparr>sv_os := os\<rparr>)"
      by (rule accounted_os [OF acc]) (use st [OF ex] Inr bound in \<open>auto simp: os_later_def less_Suc_eq\<close>)
    with still_accounted [OF out(2)] Inr out(1) show ?thesis by simp
  qed
qed

lemma start_revision_accounted:
  assumes acc: "accounted plugin {} w" and run: "start_revision sk k v w = (r, w')"
  shows "(\<forall>e. r = Inl e \<longrightarrow> accounted plugin {} w') \<and> (\<forall>p. r = Inr p \<longrightarrow> accounted plugin {mp_handle p} w')"
  using run unfolding start_revision_def
proof (cases rule: bind_act_elim)
  case (stopped e)
  with acc still_accounted [OF effectD [OF still_verify stopped(1)]] show ?thesis by simp
next
  case (continued a w1)
  have acc1: "accounted plugin {} w1" using acc still_accounted [OF effectD [OF still_verify continued(1)]] by simp
  from continued(2) show ?thesis
  proof (cases rule: bind_act_elim)
    case (stopped e)
    with start_accounted [OF acc1 stopped(1)] show ?thesis by simp
  next
    case (continued p w2)
    obtain q w3 where q: "configure_revision sk (desired_of_revision k v) p w2 = (q, w3)" by force
    with continued(2) have "r = Inr (q\<lparr>mp_ready := True\<rparr>)" "w' = set_capabilities k (mp_capabilities q) w3" by auto
    with start_accounted [OF acc1 continued(1)] still_configure [OF q] still_accounted [of w2 w3] show ?thesis by simp
  qed
qed

subsection \<open>The handlers\<close>

lemma detach_accounted:
  assumes own: "owned w" and run: "detach_and_stop k w = (r, w')"
  shows "r = Inr () \<and> accounted k {} w' \<and> process_of w' k = None"
proof (cases "process_of w k")
  case None
  with run owned_idle [OF own, of k] show ?thesis by (auto simp: detach_and_stop_def)
next
  case (Some p)
  obtain r1 w1 where s: "stop_act p (set_process k None w) = (r1, w1)" by force
  have "r1 = Inr () \<and> accounted k {} w1"
  proof (cases "exited (sv_os w) p")
    case True
    with own Some have "accounted k {} (set_process k None w)" by (simp add: owned_idle)
    from stop_accounted [OF this s] show ?thesis by simp
  next
    case False
    with own Some have "accounted k {mp_handle p} (set_process k None w)" by (simp add: owned_busy)
    from stop_accounted [OF this s] show ?thesis by simp
  qed
  moreover from this run Some s have "r = Inr () \<and> w' = clear_capabilities p w1" by (auto simp: detach_and_stop_def)
  moreover have "process_of w1 k = None" using calm_process [OF effectD [OF calm_stop s]] by simp
  ultimately show ?thesis using still_accounted [of w1 w' k "{}"] still_process [of w1 w' k] by simp
qed

lemma rollback_owned: "accounted k {} w \<Longrightarrow> owned (rollback sk put k previous w)"
proof (cases "\<exists>v. previous = Some v \<and> vn_state v = ModeRunning")
  case False
  moreover assume "accounted k {} w"
  moreover from False have "still w (rollback sk put k previous w)"
    by (cases previous) (auto simp: rollback_def still_logged still_emit_revision)
  ultimately show ?thesis using accounted_none still_owned by blast
next
  case True
  then obtain v where v: "previous = Some v" "vn_state v = ModeRunning" by blast
  assume acc: "accounted k {} w"
  obtain r w1 where s: "start_revision sk k v w = (r, w1)" by force
  note st = start_revision_accounted [OF acc s]
  show ?thesis
  proof (cases r)
    case (Inl e)
    let ?w2 = "emit_failed_revision sk put k v (snd (current_or_none sk k w1)) ''previous plugin state restoration failed'' w1"
    have "accounted k {} ?w2" using st Inl still_accounted [OF still_emit_failed] by blast
    moreover have "rollback sk put k previous w = add_task (Retry k) ?w2" using v s Inl by (simp add: rollback_def)
    ultimately show ?thesis by (simp add: accounted_none)
  next
    case (Inr p)
    let ?w2 = "watch k p (set_process k (Some p) w1)"
    let ?w3 = "logged (emit_revision sk put k v (snd (current_or_none sk k ?w2))) ?w2"
    have "accounted k {mp_handle p} ?w2" using st Inr by (intro accounted_watch) simp_all
    then have "owned ?w2" by (rule accounted_process) simp
    then have "owned ?w3" using still_owned [OF still_logged [OF still_emit_revision]] by blast
    then show ?thesis using v s Inr by (simp add: rollback_def Let_def)
  qed
qed

lemma abandon_owned:
  assumes acc: "accounted (de_plugin_id d) {mp_handle p} w" and run: "abandon_candidate sk put d previous p message answer w = (x, w')"
  shows "owned w'"
proof -
  obtain r w1 where s: "stop_act p w = (r, w1)" by force
  from stop_accounted [OF acc s] run s have "accounted (de_plugin_id d) {} w1" "w' = rollback sk put (de_plugin_id d) previous w1"
    by (auto simp: abandon_candidate_def handle_act_def)
  with rollback_owned show ?thesis by blast
qed

lemma commit_candidate_owned:
  assumes acc: "accounted (de_plugin_id d) (case candidate of None \<Rightarrow> {} | Some p \<Rightarrow> {mp_handle p}) w"
    and run: "commit_candidate sk put d previous candidate w = (x, w')"
  shows "owned w'"
  using run unfolding commit_candidate_def
proof (cases rule: handle_act_elim)
  case (failed e w1)
  note acc1 = acc [folded still_accounted [OF effectD [OF still_on_states failed(1)]]]
  show ?thesis
  proof (cases candidate)
    case None
    with acc1 failed(2) rollback_owned show ?thesis by auto
  next
    case (Some p)
    with acc1 failed(2) abandon_owned show ?thesis by auto
  qed
next
  case (continued committed w1)
  note acc1 = acc [folded still_accounted [OF effectD [OF still_on_states continued(1)]]]
  define w2 where "w2 = (case candidate of None \<Rightarrow> w1
      | Some p \<Rightarrow> watch (de_plugin_id d) (p\<lparr>mp_ready := True\<rparr>) (set_streak (de_plugin_id d) 0
           (set_capabilities (de_plugin_id d) (mp_capabilities p) (set_process (de_plugin_id d) (Some (p\<lparr>mp_ready := True\<rparr>)) w1))))"
  have "owned w2"
  proof (cases candidate)
    case None
    with acc1 show ?thesis by (simp add: w2_def accounted_none)
  next
    case (Some p)
    then have "accounted (de_plugin_id d) {mp_handle (p\<lparr>mp_ready := True\<rparr>)} w2"
      unfolding w2_def using acc1 by (simp add: accounted_watch)
    then show ?thesis by (rule accounted_process) (simp add: w2_def Some)
  qed
  moreover have "handle_act (emit_revision sk put (de_plugin_id d) committed 0) (\<lambda>_ w. (unavailable sk ''queue plugin status event'', w))
               (\<lambda>_ w. (plugin_success sk d, prune_act (de_plugin_id d) w)) w2 = (x, w')"
    using continued(2) by (cases candidate) (simp_all add: w2_def Let_def)
  then have "still w2 w'"
    by (cases rule: handle_act_elim) (auto dest: effectD [OF still_emit_revision] intro: still_trans still_prune)
  ultimately show ?thesis using still_owned by blast
qed

lemma run_candidate_owned:
  assumes acc: "accounted (de_plugin_id d) {mp_handle p} w" and run: "run_candidate sk put d previous p w = (x, w')"
  shows "owned w'"
proof (cases "de_state d = ModeRunning")
  case True
  obtain r q w1 where a: "apply_act sk d p w = (r, q, w1)" by (metis prod_cases3)
  have acc1: "accounted (de_plugin_id d) {mp_handle q} w1" using acc still_apply [OF a] still_accounted by metis
  have "(\<exists>message answer. abandon_candidate sk put d previous q message answer w1 = (x, w')) \<or>
      commit_candidate sk put d previous (Some q) w1 = (x, w')"
    using run True a by (auto simp: run_candidate_def split: sum.splits)
  with acc1 abandon_owned commit_candidate_owned [of d "Some q"] show ?thesis by auto
next
  case False
  show ?thesis
  proof (cases "de_state d = ModeStopped")
    case True
    obtain r w1 where s: "stop_act p w = (r, w1)" by force
    from stop_accounted [OF acc s] have st: "r = Inr ()" "accounted (de_plugin_id d) {} w1" by auto
    with run True s have "commit_candidate sk put d previous None w1 = (x, w')" by (simp add: run_candidate_def handle_act_def)
    from commit_candidate_owned [OF _ this] st(2) show ?thesis by simp
  next
    case other: False
    with run False have "commit_candidate sk put d previous (Some p) w = (x, w')" by (simp add: run_candidate_def)
    from commit_candidate_owned [OF _ this] acc show ?thesis by simp
  qed
qed

lemma reconcile_install_owned:
  assumes own: "owned w" and run: "reconcile_install sk put d previous w = (x, w')"
  shows "owned w'"
  using run unfolding reconcile_install_def
proof (cases rule: handle_act_elim)
  case (failed e w1)
  with own still_owned [OF effectD [OF still_fetch failed(1)]] show ?thesis by simp
next
  case (continued path w1)
  have own1: "owned w1" using own still_owned [OF effectD [OF still_fetch continued(1)]] by simp
  from continued(2) show ?thesis
  proof (cases rule: handle_act_elim)
    case (failed e w2)
    with detach_accounted [OF own1 failed(1)] show ?thesis by simp
  next
    case (continued u w2)
    have acc: "accounted (de_plugin_id d) {} w2" using detach_accounted [OF own1 continued(1)] by blast
    show ?thesis
    proof (cases "de_artifact d")
      case None
      with continued(2) acc show ?thesis by (auto intro: accounted_none)
    next
      case (Some a)
      from continued(2) [unfolded Some option.case] show ?thesis
      proof (cases rule: handle_act_elim)
        case (failed e w3)
        with start_accounted [OF acc failed(1)] rollback_owned show ?thesis by auto
      next
        case (continued p w3)
        have acc3: "accounted (de_plugin_id d) {mp_handle p} w3" using start_accounted [OF acc continued(1)] by simp
        obtain r4 w4 where v: "validate_act sk d w3 = (r4, w4)" by force
        have acc4: "accounted (de_plugin_id d) {mp_handle p} w4"
          using acc3 still_accounted [OF effectD [OF still_validate v]] by simp
        have "(\<exists>message answer. abandon_candidate sk put d previous p message answer w4 = (x, w')) \<or> run_candidate sk put d previous p w4 = (x, w')"
          using continued(2) v by (cases r4) (auto simp: handle_act_def)
        with abandon_owned [OF acc4] run_candidate_owned [OF acc4] show ?thesis by blast
      qed
    qed
  qed
qed

lemma reconcile_absent_owned:
  assumes own: "owned w" and run: "reconcile_absent sk put d previous w = (x, w')"
  shows "owned w'"
  using run unfolding reconcile_absent_def
proof (cases rule: handle_act_elim)
  case (failed e w1)
  with detach_accounted [OF own failed(1)] show ?thesis by simp
next
  case (continued u w1)
  have acc: "accounted (de_plugin_id d) {} w1" using detach_accounted [OF own continued(1)] by blast
  from continued(2) show ?thesis
  proof (cases rule: handle_act_elim)
    case (failed e w2)
    with acc still_accounted [OF effectD [OF still_on_states failed(1)], of "de_plugin_id d" "{}"] show ?thesis by (auto intro: rollback_owned)
  next
    case (continued committed w2)
    have "still w2 w'"
      using continued(2)
    proof (cases rule: handle_act_elim)
      case (failed e w3)
      then show ?thesis using effectD [OF still_remove_data failed(1)] still_emit_failed still_trans by blast
    next
      case (continued y w3)
      then show ?thesis using effectD [OF still_remove_data continued(1)]
        by (auto elim!: handle_act_elim dest: effectD [OF still_emit_revision] intro: still_trans)
    qed
    with effectD [OF still_on_states continued(1)] acc accounted_none still_owned show ?thesis by blast
  qed
qed

lemma ensure_current_owned:
  assumes own: "owned w" and run: "ensure_current sk d previous w = (r, w')"
  shows "owned w'"
proof (cases previous)
  case None
  with run own show ?thesis by (simp add: ensure_current_def fail_act_def)
next
  case (Some v)
  let ?k = "de_plugin_id d"
  have fetch: "still w w1"
    if "(if vn_state v \<noteq> ModeAbsent then bind_act (fetch_act sk d) (\<lambda>_. return_act ()) else return_act ()) w = (y, w1)" for y w1
    using that by (auto simp: return_act_def split: if_splits elim!: bind_act_elim dest: effectD [OF still_fetch])
  from run [unfolded ensure_current_def Some option.case] show ?thesis
  proof (cases rule: bind_act_elim)
    case (stopped e)
    with fetch own still_owned show ?thesis by blast
  next
    case (continued u w1)
    have own1: "owned w1" using fetch [OF continued(1)] own still_owned by blast
    show ?thesis
    proof (cases "vn_state v")
      case ModeRunning
      show ?thesis
      proof (cases "case process_of w1 ?k of None \<Rightarrow> False | Some p \<Rightarrow> \<not> exited (sv_os w1) p")
        case True
        with continued(2) ModeRunning own1 show ?thesis by simp
      next
        case False
        with owned_idle [OF own1, of ?k] have acc: "accounted ?k {} w1" by (auto split: option.splits)
        from False continued(2) ModeRunning have "bind_act (start_revision sk ?k v) (\<lambda>p w.
            (Inr (), watch ?k p (set_process ?k (Some p) w))) w1 = (r, w')" by simp
        then show ?thesis
        proof (cases rule: bind_act_elim)
          case (stopped e)
          with start_revision_accounted [OF acc stopped(1)] accounted_none show ?thesis by blast
        next
          case (continued p w2)
          with start_revision_accounted [OF acc continued(1)] have "accounted ?k {mp_handle p} w'" by (auto intro: accounted_watch)
          then show ?thesis by (rule accounted_process) (use continued(2) in auto)
        qed
      qed
    next
      case ModeStopped
      with continued(2) have "detach_and_stop ?k w1 = (r, w')" by simp
      from detach_accounted [OF own1 this] accounted_none show ?thesis by blast
    next
      case ModeAbsent
      obtain r2 w2 where dt: "detach_and_stop ?k w1 = (r2, w2)" by force
      note d2 = detach_accounted [OF own1 dt]
      with continued(2) ModeAbsent dt have "remove_plugin_data ?k w2 = (r, w')" by (simp add: bind_act_def)
      from effectD [OF still_remove_data this] d2 accounted_none still_owned show ?thesis by blast
    next
      case (ModeOther m)
      with continued(2) own1 show ?thesis by (simp add: fail_act_def)
    qed
  qed
qed

lemma reconcile_current_owned:
  assumes own: "owned w" and run: "reconcile_current sk put d previous w = (x, w')"
  shows "owned w'"
proof -
  obtain r w1 where e: "ensure_current sk d previous w = (r, w1)" by force
  have "still w1 w'"
  proof (cases r)
    case (Inl e')
    with run e show ?thesis by (simp add: reconcile_current_def handle_act_def)
  next
    case (Inr u)
    with run e show ?thesis
      by (cases previous) (auto simp: reconcile_current_def handle_act_def Let_def split: sum.splits prod.splits dest: effectD [OF still_emit_revision])
  qed
  with ensure_current_owned [OF own e] still_owned show ?thesis by blast
qed

lemma reconcile_actor_owned:
  assumes own: "owned w" and run: "reconcile_actor sk put c w = (x, w')"
  shows "owned w'"
  using run unfolding reconcile_actor_def
proof (cases rule: handle_act_elim)
  case (failed e w1)
  then have "w' = w1" by auto
  with own still_owned [OF effectD [OF still_on_states failed(1)]] show ?thesis by simp
next
  case (continued y w1)
  obtain d previous b where y: "y = (d, previous, b)" by (cases y)
  let ?w2 = "prune_act (de_plugin_id d) w1"
  have "owned ?w2" using own effectD [OF still_on_states continued(1)] still_prune still_owned by blast
  moreover have "reconcile_current sk put d previous ?w2 = (x, w') \<or> reconcile_absent sk put d previous ?w2 = (x, w') \<or>
      reconcile_install sk put d previous ?w2 = (x, w')"
    using continued(2) y by (auto simp: Let_def split: if_splits)
  ultimately show ?thesis by (elim disjE) (erule (1) reconcile_current_owned reconcile_absent_owned reconcile_install_owned)+
qed

lemma command_owned:
  assumes own: "owned w" and run: "supervisor_execute sk put deadline k cmd w = (x, w')"
  shows "owned w'"
proof (cases "ac_kind cmd = sk_reconcile_kind sk \<and> (\<exists>c. sk_decode_reconcile sk cmd = Some c) \<and> is_running w")
  case True
  then obtain c where c: "sk_decode_reconcile sk cmd = Some c" by blast
  with run True have "reconcile_actor sk put c (ensure_actor (rc_plugin_id c) w) = (x, w')"
    by (simp add: supervisor_execute_def execute_reconcile_def)
  from reconcile_actor_owned [OF _ this] own show ?thesis by simp
next
  case False
  have "w' = w \<or> (\<exists>plugin. still (ensure_actor plugin w) w')"
    using run False
    by (auto simp: supervisor_execute_def execute_reconcile_def execute_diagnose_def unsupported_executor_def Let_def
        split: option.splits if_splits prod.splits sum.splits dest: still_next intro: still_refl)
  with own show ?thesis by (auto simp: still_owned)
qed

subsubsection \<open>Starting\<close>

lemma recover_owned:
  assumes own: "owned w" and none: "process_of w (pg_plugin_id s) = None"
  shows "owned (recover_plugin sk put s w)"
proof -
  let ?k = "pg_plugin_id s"
  let ?w = "ensure_actor ?k w"
  have acc: "accounted ?k {} ?w" using owned_idle [OF own, of ?k] none by simp
  show ?thesis
  proof (cases "\<exists>v. pg_current s = Some v \<and> vn_state v = ModeRunning")
    case False
    have "still ?w (recover_plugin sk put s w)"
    proof (cases "pg_current s")
      case None
      then show ?thesis by (simp add: recover_plugin_def Let_def)
    next
      case (Some v)
      with False show ?thesis
        by (cases "vn_state v") (auto simp: recover_plugin_def Let_def split: sum.splits prod.splits dest: effectD [OF still_verify]
            intro: still_trans still_logged still_emit_revision still_emit_failed)
    qed
    with own show ?thesis by (auto simp: still_owned)
  next
    case True
    then obtain v where v: "pg_current s = Some v" "vn_state v = ModeRunning" by blast
    obtain r w1 where st: "start_revision sk ?k v ?w = (r, w1)" by force
    note a = start_revision_accounted [OF acc st]
    show ?thesis
    proof (cases r)
      case (Inl e)
      then have "recover_plugin sk put s w = add_task (Retry ?k) (emit_failed_revision sk put ?k v (pg_restart_count s) ''plugin recovery failed'' w1)"
        using v st by (simp add: recover_plugin_def Let_def)
      moreover have "accounted ?k {} (emit_failed_revision sk put ?k v (pg_restart_count s) ''plugin recovery failed'' w1)"
        using a Inl still_accounted [OF still_emit_failed] by blast
      ultimately show ?thesis by (simp add: accounted_none)
    next
      case (Inr p)
      let ?w2 = "logged (emit_revision sk put ?k v (pg_restart_count s)) (set_process ?k (Some p) w1)"
      have s2: "still (set_process ?k (Some p) w1) ?w2" by (rule still_logged [OF still_emit_revision])
      have "accounted ?k {mp_handle p} ?w2" using a Inr still_accounted [OF s2] by simp
      then have "accounted ?k {mp_handle p} (watch ?k p ?w2)" by (simp add: accounted_watch)
      then have "owned (watch ?k p ?w2)" by (rule accounted_process) (simp add: still_process [OF s2])
      then show ?thesis using v st Inr by (simp add: recover_plugin_def Let_def)
    qed
  qed
qed

lemma recover_all_owned:
  assumes "distinct (map pg_plugin_id ss)" and "owned w"
    and "\<And>s. s \<in> set ss \<Longrightarrow> process_of w (pg_plugin_id s) = None \<and> pg_current s = current_in (sv_states w) (pg_plugin_id s)"
  shows "owned (fold (recover_plugin sk put) ss w)"
  using assms
proof (induction ss arbitrary: w)
  case (Cons s ss)
  let ?w1 = "recover_plugin sk put s w"
  have r: "others sk (pg_plugin_id s) w ?w1" "sv_states ?w1 = sv_states w"
    using recover_supervised [of w s sk put] Cons.prems(3) [of s] by auto
  have "owned ?w1" by (rule recover_owned) (use Cons.prems(2) Cons.prems(3) [of s] in auto)
  moreover have "process_of ?w1 (pg_plugin_id t) = None \<and> pg_current t = current_in (sv_states ?w1) (pg_plugin_id t)" if t: "t \<in> set ss" for t
  proof -
    have "pg_plugin_id t \<noteq> pg_plugin_id s" using Cons.prems(1) imageI [OF t, of pg_plugin_id] by auto
    with r(1) have "process_of ?w1 (pg_plugin_id t) = process_of w (pg_plugin_id t)" by (simp add: others_def)
    with Cons.prems(3) [of t] r(2) t show ?thesis by simp
  qed
  ultimately show ?case using Cons.IH Cons.prems(1) by simp
qed simp

lemma start_owned:
  assumes run: "supervisor_start sk put w = (r, w')" and own: "owned w" and sup: "supervised sk w"
  shows "owned w'"
proof (cases "sv_started w")
  case True
  with run own show ?thesis by (simp add: supervisor_start_def)
next
  case False
  let ?w0 = "w\<lparr>sv_started := True, sv_stopping := False\<rparr>"
  have w': "w' = fold (recover_plugin sk put) (list_states (sv_states w)) ?w0" using run False by (simp add: supervisor_start_def)
  have inv: "plugin_inv (sk_plugin sk) (sv_states w)" and idle: "\<And>q. process_of w q = None" using sup False by (auto simp: supervised_def)
  have "owned ?w0" using own by (simp add: owned_def process_of_def actor_of_def)
  then show ?thesis unfolding w'
    by (rule recover_all_owned [OF list_states_facts(1) [OF inv]])
      (use idle list_states_facts(2) [OF inv] in \<open>auto simp: current_in_def process_of_def actor_of_def\<close>)
qed

subsubsection \<open>Closing and the goroutines\<close>

lemma close_actor_owned:
  assumes own: "owned w" and run: "close_actor k w = (r, w')"
  shows "owned w' \<and> process_of w' k = None \<and> (\<forall>q. q \<noteq> k \<longrightarrow> process_of w' q = process_of w q)"
proof (cases "process_of w k")
  case None
  with run owned_idle [OF own, of k] show ?thesis by (auto simp: close_actor_def intro: accounted_none [of k])
next
  case (Some p)
  with run have s: "stop_act p (set_process k None w) = (r, w')" by (simp add: close_actor_def)
  have "accounted k {} w'"
  proof (cases "exited (sv_os w) p")
    case True
    with own Some have "accounted k {} (set_process k None w)" by (simp add: owned_idle)
    from stop_accounted [OF this s] show ?thesis by simp
  next
    case False
    with own Some have "accounted k {mp_handle p} (set_process k None w)" by (simp add: owned_busy)
    from stop_accounted [OF this s] show ?thesis by simp
  qed
  with accounted_none calm_process [OF effectD [OF calm_stop s]] show ?thesis by simp
qed

lemma watch_tick_owned:
  assumes own: "owned w" and i: "i < length (sv_tasks w)" "sv_tasks w ! i = Watch k p n"
  shows "owned (watch_tick sk i k p n w)"
proof -
  obtain healthy q w1 where h: "watch_health sk k p w = (healthy, q, w1)" by (metis prod_cases3)
  note f = watch_health_frame [OF h]
  have os: "sv_os w1 = sv_os w"
    using h by (auto simp: watch_health_def update_process_def next_outside_def split: prod.splits sum.splits option.splits)
  have same: "map_option mp_handle (process_of w1 j) = map_option mp_handle (process_of w j)" for j using f by (cases "j = k") auto
  have "\<exists>j r. process_of w1 j = Some r \<and> mp_handle r = h" if "process_of w j = Some r" "mp_handle r = h" for j r h
    using same [of j] that by auto
  then have own1: "owned w1" using own f os unfolding owned_def by metis
  have "task_settled (sv_os w) (Watch k p n)" using own i nth_mem [OF i(1)] unfolding owned_def by metis
  then have "task_settled (sv_os w1) (next_watch k q n healthy)" using f os by (simp add: task_settled_def next_watch_def)
  with own1 h show ?thesis by (simp add: watch_tick_def owned_replace)
qed

lemma count_crash_accounted: "accounted k c (count_crash sk put k p reason current w) = accounted k c w"
proof -
  obtain od w1 where o: "next_outside (set_capabilities k [] w) = (od, w1)" by force
  have s1: "still (set_capabilities k [] w) w1" by (rule still_next [OF o])
  define w2 where "w2 = set_streak k ((if stable_process_duration \<le> od_now od - mp_started_at p then 0
      else pl_crash_streak (actor_of w1 k)) + 1) w1"
  obtain r w3 where s: "on_states (\<lambda>fault. increment_restart (sk_plugin sk) fault k) w2 = (r, w3)" by force
  have "count_crash sk put k p reason current w = (case r of Inl _ \<Rightarrow> w3
      | Inr n \<Rightarrow> (case current of None \<Rightarrow> w3 | Some v \<Rightarrow> emit_failed_revision sk put k v n (reason_text reason) w3))"
    using o s by (simp add: count_crash_def w2_def Let_def split: sum.splits)
  then have "still w3 (count_crash sk put k p reason current w)"
    by (auto simp: still_emit_failed split: sum.splits option.splits)
  with effectD [OF still_on_states s] s1 show ?thesis by (simp add: still_accounted w2_def)
qed

lemma give_up_owned:
  assumes own: "owned w" and i: "i < length (sv_tasks w)" "sv_tasks w ! i = GiveUp k p reason"
  shows "owned (give_up sk put i k p reason w)"
proof (cases "case process_of w k of None \<Rightarrow> True | Some q \<Rightarrow> mp_handle q \<noteq> mp_handle p")
  case True
  with own show ?thesis by (simp add: give_up_def owned_replace)
next
  case False
  then obtain q where q: "process_of w k = Some q" "mp_handle q = mp_handle p" by (auto split: option.splits)
  obtain current restart_count where cur: "current_or_none sk k w = (current, restart_count)" by force
  let ?w1 = "set_process k None w"
  obtain stopped w2 where st: "(if reason \<noteq> ExitedUnexpectedly then stop_act p ?w1 else (Inr (), ?w1)) = (stopped, w2)" by force
  have settled: "task_settled (sv_os w) (GiveUp k p reason)" using own i nth_mem [OF i(1)] unfolding owned_def by metis
  have idle: "exited (sv_os w) p \<Longrightarrow> accounted k {} ?w1" using owned_idle [OF own, of k] q by (simp add: exited_def)
  have "stopped = Inr () \<and> accounted k {} w2"
  proof (cases "reason = ExitedUnexpectedly")
    case True
    with st settled idle show ?thesis by (auto simp: task_settled_def)
  next
    case False
    with st have s: "stop_act p ?w1 = (stopped, w2)" by simp
    show ?thesis
    proof (cases "exited (sv_os w) p")
      case True
      from stop_accounted [OF idle [OF True] s] show ?thesis by simp
    next
      case running: False
      then have "accounted k {mp_handle p} ?w1" using owned_busy [OF own q(1)] q(2) by (simp add: exited_def)
      from stop_accounted [OF this s] show ?thesis by simp
    qed
  qed
  then have acc: "stopped = Inr ()" "accounted k {} (count_crash sk put k p reason current w2)" by (simp_all add: count_crash_accounted)
  have "give_up sk put i k p reason w = replace_task i [Retry k] (count_crash sk put k p reason current w2)"
    using False cur st acc(1) by (simp add: give_up_def Let_def errors_of_def)
  moreover have "accounted k {} (replace_task i [Retry k] (count_crash sk put k p reason current w2))"
    by (rule accounted_replace [OF acc(2)]) (simp add: task_settled_def)
  ultimately show ?thesis by (simp add: accounted_none)
qed

lemma retry_owned:
  assumes own: "owned w"
  shows "owned (retry_recovery sk put i k w)"
proof (cases "\<exists>v n. current_revision (sk_plugin sk) k (sv_states w) = Inr (Some v, n) \<and> vn_state v = ModeRunning \<and> process_of w k = None \<and> is_running w")
  case False
  then have "retry_recovery sk put i k w = replace_task i [] w"
    by (auto simp: retry_recovery_def split: sum.splits option.splits prod.splits)
  with own show ?thesis by (simp add: owned_replace)
next
  case True
  then obtain v n where v: "current_revision (sk_plugin sk) k (sv_states w) = Inr (Some v, n)" "vn_state v = ModeRunning"
    "process_of w k = None" "is_running w" by blast
  have acc: "accounted k {} w" using owned_idle [OF own] v(3) by simp
  obtain r w1 where st: "start_revision sk k v w = (r, w1)" by force
  note a = start_revision_accounted [OF acc st]
  show ?thesis
  proof (cases r)
    case (Inl e)
    let ?w2 = "set_streak k (pl_crash_streak (actor_of w1 k) + 1) w1"
    have "retry_recovery sk put i k w = emit_failed_revision sk put k v n ''plugin process restart failed'' ?w2"
      using v st Inl by (simp add: retry_recovery_def)
    then have "still ?w2 (retry_recovery sk put i k w)" by (simp add: still_emit_failed)
    from still_owned [OF this] accounted_none [of k ?w2] a Inl show ?thesis by simp
  next
    case (Inr p)
    let ?w2 = "set_process k (Some p) (replace_task i [] w1)"
    let ?w3 = "logged (emit_revision sk put k v n) ?w2"
    have s3: "still ?w2 ?w3" by (rule still_logged [OF still_emit_revision])
    have "accounted k {mp_handle p} ?w2" using a Inr by (simp add: accounted_replace)
    then have "accounted k {mp_handle p} (watch k p ?w3)" using still_accounted [OF s3] by (simp add: accounted_watch)
    then have "owned (watch k p ?w3)" by (rule accounted_process) (simp add: still_process [OF s3])
    then show ?thesis using v st Inr by (simp add: retry_recovery_def)
  qed
qed

subsubsection \<open>Runs\<close>

lemma supervisor_step_owned:
  assumes step: "supervisor_step sk put w w'" and own: "owned w" and sup: "supervised sk w"
  shows "owned w'"
  using step
proof (cases rule: supervisor_step.cases)
  case (close plugins)
  with own show ?thesis by (auto simp: close_begin_def owned_def process_of_def actor_of_def split: if_splits)
next
  case (process_exit h)
  have "os_later (sv_os w) (process_gone h (sv_os w))" by (auto simp: os_later_def)
  from settled_later [OF _ this] own show ?thesis unfolding process_exit owned_def by (auto simp: process_of_def actor_of_def)
next
  case (watch_exit i k p n)
  have "task_settled (sv_os w) (Watch k p n)" using own watch_exit nth_mem unfolding owned_def by metis
  with watch_exit have "task_settled (sv_os w) (GiveUp k p ExitedUnexpectedly)" by (simp add: task_settled_def)
  with own watch_exit show ?thesis by (simp add: watch_exit_def owned_replace)
next
  case (retry_ends i k)
  with own show ?thesis by (simp add: owned_replace)
qed (use own sup in \<open>auto intro: command_owned start_owned watch_tick_owned give_up_owned retry_owned dest: close_actor_owned\<close>)

end
