(* ===== verification/AgentLife.thy ===== *)
theory AgentLife
  imports AgentProperties SupervisorProperties PluginOwnership
begin

section \<open>One run of the agent (internal/agent/client.go, Client.Run)\<close>

text \<open>
  \<^verbatim>\<open>Run\<close> gets the identity, opens the event queue, makes it the sink of the plugins, starts the plugins, holds the sessions, and
  at the end stops the plugins that are running. The goroutines of the workers act on the plugins and on the queue while the sessions go on: what
  they have done when the sessions end is a function of the supervisor, of which the theorem only assumes that its result is reached by steps of
  \<open>worker_step\<close>. Closing the stores of the policies and of the events releases their files and is no change of state.
\<close>

subsection \<open>Routing the commands\<close>

text \<open>The kinds of commands: updates of the agent, plugins (reconciled, diagnosed) and policies.\<close>

record command_kinds =
  kd_agent_update :: string
  kd_plugin_reconcile :: string
  kd_plugin_diagnose :: string
  kd_policy_reconcile :: string

definition client_router :: "command_kinds \<Rightarrow> 'w executor \<Rightarrow> 'w executor \<Rightarrow> 'w executor \<Rightarrow> (string \<rightharpoonup> 'w executor)" where
  "client_router kinds updates plugins policies =
     [kd_agent_update kinds \<mapsto> updates, kd_plugin_reconcile kinds \<mapsto> plugins, kd_plugin_diagnose kinds \<mapsto> plugins,
      kd_policy_reconcile kinds \<mapsto> policies]"

lemma client_router_unknown:
  "ac_kind cmd \<notin> {kd_agent_update kinds, kd_plugin_reconcile kinds, kd_plugin_diagnose kinds, kd_policy_reconcile kinds} \<Longrightarrow>
   router_execute px (client_router kinds updates plugins policies) deadline k cmd w = unsupported_executor px deadline k cmd w"
  by (simp add: router_execute_def client_router_def)

subsection \<open>The run\<close>

text \<open>What a run changes: the state directory with the identity, the file of the event queue, the plugins, and what the sessions act on.\<close>

record agent_world =
  gw_registration :: registration_world
  gw_events :: queue_db
  gw_supervisor :: "queue_world supervisor"
  gw_control :: control_world

text \<open>What the outside does in a run.\<close>

record 'l life_env =
  le_inspect :: bool
  le_opening :: bool
  le_token :: string
  le_registration :: registration_env
  le_queue_fault :: "queue_error option"
  le_initialize_fault :: "queue_error option"
  le_stream_id :: "string option"
  le_enqueue_faults :: "queue_error option list"
  le_attempts :: "('l, worker_failure) attempt list"
  le_workers :: "queue_world supervisor \<Rightarrow> queue_world supervisor"
  le_iteration :: "string list \<Rightarrow> string list"

definition events_config :: "agent_config \<Rightarrow> identity \<Rightarrow> queue_config" where
  "events_config config current =
     \<lparr>cfg_path = path_join (cf_state_directory config) ''events.db'', cfg_node_id = id_node_id current, cfg_max_bytes = 0, cfg_max_events = 0\<rparr>"

text \<open>The plugins start with the queue as their sink.\<close>

definition start_plugins ::
    "plugin_status_event queue_sdk \<Rightarrow> supervisor_sdk \<Rightarrow> queue_world \<Rightarrow> queue_world supervisor
     \<Rightarrow> (supervisor_error + unit) \<times> queue_world supervisor" where
  "start_plugins qsdk sk events w = supervisor_start sk (Some (enqueue_next qsdk)) (w\<lparr>sv_sink := events\<rparr>)"

text \<open>\<open>None\<close>: the run goes on. When the sessions end, the workers are stopped, and then the plugins.\<close>

definition client_run ::
    "registration_sdk \<Rightarrow> identity_sdk \<Rightarrow> plugin_status_event queue_sdk \<Rightarrow> supervisor_sdk \<Rightarrow> 'l control_client \<Rightarrow> agent_config \<Rightarrow> 'l life_env \<Rightarrow> agent_world
     \<Rightarrow> run_error option option \<times> agent_world" where
  "client_run rsdk isdk qsdk sk c config env g =
     (case client_identity rsdk isdk config (cc_version c) (le_inspect env) (le_opening env) (le_registration env) (le_token env) (gw_registration g) of
        (Inl _, registration) \<Rightarrow> (Some (Some RunNotStarted), g\<lparr>gw_registration := registration\<rparr>)
      | (Inr current, registration) \<Rightarrow>
        let g = g\<lparr>gw_registration := registration\<rparr> in
        (case open_queue qsdk (le_queue_fault env) (le_initialize_fault env) (le_stream_id env) (events_config config current) (gw_events g) of
           (Inl _, db) \<Rightarrow> (Some (Some RunNotStarted), g\<lparr>gw_events := db\<rparr>)
         | (Inr q, db) \<Rightarrow>
           (case start_plugins qsdk sk (q, le_enqueue_faults env) (gw_supervisor g) of
              (Inl _, plugins) \<Rightarrow> (Some (Some RunNotStarted), g\<lparr>gw_events := db, gw_supervisor := plugins\<rparr>)
            | (Inr _, plugins) \<Rightarrow>
              (case client_loop c current (le_attempts env) second (gw_control g) of
                 (result, _, control) \<Rightarrow>
                   let plugins = le_workers env plugins;
                       plugins = (if result = StillRunning then plugins else snd (supervisor_close (le_iteration env) plugins))
                   in (if result = StillRunning then None else Some (run_result result),
                       g\<lparr>gw_events := q_db (fst (sv_sink plugins)), gw_supervisor := plugins, gw_control := control\<rparr>)))))"

subsection \<open>What the workers do\<close>

text \<open>A worker takes a step of the supervisor, or changes the queue: it enqueues events of its own or uploads some. No worker starts
  or closes the supervisor.\<close>

inductive worker_step :: "supervisor_sdk \<Rightarrow> 's status_sink \<Rightarrow> 's supervisor \<Rightarrow> 's supervisor \<Rightarrow> bool" for sk put where
  plugins: "supervisor_step sk put w w' \<Longrightarrow> is_running w' = is_running w \<Longrightarrow> worker_step sk put w w'"
| events: "worker_step sk put w (w\<lparr>sv_sink := s\<rparr>)"

lemma sink_supervised: "supervised sk (w\<lparr>sv_sink := s\<rparr>) = supervised sk w"
  by (simp add: supervised_def quiet_stops_def is_running_def supervised_plugin_def wants_running_iff process_of_def actor_of_def cong: option.case_cong)

lemma worker_step_supervised:
  assumes "worker_step sk put w w'" and "plugin_sdk_ok (sk_plugin sk)" and "supervised sk w"
  shows "supervised sk w' \<and> is_running w' = is_running w"
  using assms(1)
proof cases
  case plugins
  with assms supervisor_step_supervised show ?thesis by blast
next
  case (events s)
  with assms(3) show ?thesis by (simp add: sink_supervised is_running_def)
qed

lemma sink_owned: "owned (w\<lparr>sv_sink := s\<rparr>) = owned w"
  by (rule still_owned) simp

lemma worker_step_owned:
  assumes "worker_step sk put w w'" and "owned w" and "supervised sk w"
  shows "owned w'"
  using assms(1)
proof cases
  case plugins
  with assms supervisor_step_owned show ?thesis by blast
next
  case (events s)
  with assms(2) show ?thesis by (simp add: sink_owned)
qed

interpretation workers: stepping "worker_step sk put" "\<lambda>w. plugin_sdk_ok (sk_plugin sk) \<and> supervised sk w \<and> owned w"
    "\<lambda>w w'. is_running w' = is_running w" for sk put
  by unfold_locales (use worker_step_supervised worker_step_owned in blast)+

subsection \<open>Closing stops the plugins\<close>

lemma close_actors_stop:
  assumes "try_each close_actor plugins w = (es, w')" and "owned w"
  shows "owned w' \<and> (\<forall>q. process_of w' q = (if q \<in> set plugins then None else process_of w q)) \<and>
    sv_started w' = sv_started w \<and> sv_stopping w' = sv_stopping w"
  using assms
proof (induction plugins arbitrary: w es w')
  case (Cons plugin plugins)
  obtain r w1 es1 where run: "close_actor plugin w = (r, w1)" "try_each close_actor plugins w1 = (es1, w')"
    using Cons.prems(1) by (auto split: prod.splits)
  note one = close_actor_owned [OF Cons.prems(2) run(1)]
  have "calm (set_process plugin None w) w1"
    using run(1) by (auto simp: close_actor_def split: option.splits dest: effectD [OF calm_stop])
  then have "sv_started w1 = sv_started w" "sv_stopping w1 = sv_stopping w" by (simp_all add: calm_def)
  with Cons.IH [OF run(2)] one show ?case by auto
qed simp

lemma process_has_actor: "process_of w q = Some p \<Longrightarrow> q \<in> set (map fst (sv_actors w))"
  by (auto simp: process_of_def actor_of_def new_actor_def bucket_get_def split: option.splits intro: rev_image_eqI dest!: map_of_SomeD)

text \<open>The plugins have been stopped, and no goroutine may start one.\<close>

definition plugins_stopped :: "'s supervisor \<Rightarrow> bool" where
  "plugins_stopped w \<longleftrightarrow> sv_started w \<and> sv_stopping w \<and> (\<forall>q. process_of w q = None)"

lemma supervisor_close_stops:
  assumes "supervisor_close iteration w = (es, w')" and "owned w" and "is_running w" and "\<And>ps. set (iteration ps) = set ps"
  shows "plugins_stopped w'" "os_running (sv_os w') = []"
proof -
  let ?w1 = "w\<lparr>sv_stopping := True\<rparr>"
  have run: "try_each close_actor (iteration (map fst (sv_actors w))) ?w1 = (es, w')"
    using assms(1,3) by (simp add: supervisor_close_def close_begin_def is_running_def)
  have same: "process_of ?w1 q = process_of w q" for q by (simp add: process_of_def actor_of_def)
  have "owned ?w1" using assms(2) by (simp add: owned_def same)
  note closed = close_actors_stop [OF run this]
  have none: "process_of w' q = None" for q
  proof (cases "process_of w q")
    case None
    then show ?thesis using closed same by simp
  next
    case (Some p)
    then have "q \<in> set (iteration (map fst (sv_actors w)))" using process_has_actor assms(4) by blast
    then show ?thesis using closed by simp
  qed
  with closed assms(3) show "plugins_stopped w'" by (simp add: plugins_stopped_def is_running_def)
  show "os_running (sv_os w') = []" using closed owned_no_process none by blast
qed

text \<open>What holds once the plugins have been stopped: no step starts one again, neither a command nor a retry nor a watch.\<close>

lemma stopped_same:
  "plugins_stopped w \<Longrightarrow> sv_actors w' = sv_actors w \<Longrightarrow> sv_started w' = sv_started w \<Longrightarrow> sv_stopping w' = sv_stopping w \<Longrightarrow> plugins_stopped w'"
  by (simp add: plugins_stopped_def process_of_def actor_of_def)

lemma stopped_watch:
  assumes "watch_health sk plugin p w = (healthy, p', w')" and "plugins_stopped w"
  shows "sv_actors w' = sv_actors w" "sv_os w' = sv_os w" "sv_started w' = sv_started w" "sv_stopping w' = sv_stopping w"
proof -
  have "process_of (w\<lparr>sv_ticks := n\<rparr>) plugin = None" for n using assms(2) by (simp add: plugins_stopped_def process_of_def actor_of_def)
  with assms(1) show "sv_actors w' = sv_actors w" "sv_os w' = sv_os w" "sv_started w' = sv_started w" "sv_stopping w' = sv_stopping w"
    by (auto simp: watch_health_def update_process_def next_outside_def split: prod.splits sum.splits option.splits)
qed

lemma stopped_step:
  assumes "supervisor_step sk put w w'" and "plugins_stopped w"
  shows "plugins_stopped w' \<and> set (os_running (sv_os w')) \<subseteq> set (os_running (sv_os w))"
proof -
  have idle: "\<not> is_running w" "sv_started w" "process_of w q = None" for q using assms(2) by (auto simp: plugins_stopped_def is_running_def)
  have kept: "plugins_stopped (set_process plugin None w)" "plugins_stopped (ensure_actor plugin w)" for plugin
    using assms(2) by (simp_all add: plugins_stopped_def)
  show ?thesis
    using assms(1)
  proof (cases rule: supervisor_step.cases)
    case (command deadline k cmd execution)
    then have "w' = w"
      using idle(1) by (auto simp: supervisor_execute_def execute_reconcile_def execute_diagnose_def unsupported_executor_def split: if_splits option.splits)
    with assms(2) show ?thesis by simp
  next
    case (close_actor plugin r)
    then have "w' = set_process plugin None w" using idle(3) by (simp add: close_actor_def)
    with kept(1) show ?thesis by (simp add: set_process_def put_actor_def)
  next
    case (query plugin)
    with kept(2) show ?thesis by (simp add: ensure_actor_def put_actor_def)
  next
    case (process_exit h)
    with stopped_same [OF assms(2), of w'] show ?thesis by (auto simp: process_gone_def)
  next
    case (watch_tick i plugin p n)
    obtain healthy p' w1 where health: "watch_health sk plugin p w = (healthy, p', w1)" by (metis prod_cases3)
    with watch_tick have "w' = replace_task i [next_watch plugin p' n healthy] w1" by (simp add: watch_tick_def)
    with stopped_watch [OF health assms(2)] stopped_same [OF assms(2), of w'] show ?thesis by (simp add: replace_task_def)
  next
    case (retry i plugin)
    then have "w' = replace_task i [] w" using idle(1) by (auto simp: retry_recovery_def split: sum.splits prod.splits option.splits)
    with stopped_same [OF assms(2), of w'] show ?thesis by (simp add: replace_task_def)
  next
    case (give_up i plugin p reason)
    then have "w' = replace_task i [] w" using idle(3) by (simp add: give_up_def)
    with stopped_same [OF assms(2), of w'] show ?thesis by (simp add: replace_task_def)
  next
    case (start r)
    then show ?thesis using idle(2) assms(2) by (simp add: supervisor_start_def)
  next
    case (close plugins)
    then show ?thesis using assms(2) by (simp add: close_begin_def plugins_stopped_def)
  qed (use stopped_same [OF assms(2), of w'] in \<open>simp_all add: watch_exit_def replace_task_def\<close>)
qed

lemma stopped_worker_step:
  assumes "worker_step sk put w w'" and "plugins_stopped w"
  shows "plugins_stopped w' \<and> set (os_running (sv_os w')) \<subseteq> set (os_running (sv_os w))"
  using assms(1)
proof cases
  case plugins
  with stopped_step assms(2) show ?thesis by blast
next
  case (events s)
  with stopped_same [OF assms(2), of w'] show ?thesis by simp
qed

interpretation stopped: stepping "worker_step sk put" plugins_stopped "\<lambda>w w'. set (os_running (sv_os w')) \<subseteq> set (os_running (sv_os w))" for sk put
  by unfold_locales (use stopped_worker_step in blast)+

subsection \<open>The end of a run\<close>

lemma fresh_supervised:
  "plugin_inv (sk_plugin sk) states \<Longrightarrow> (\<And>n. quiet_stop (od_stop (outside n))) \<Longrightarrow> supervised sk (new_supervisor states rel data sink outside)"
  by (simp add: supervised_def new_supervisor_def quiet_stops_def is_running_def process_of_def actor_of_def new_actor_def)

lemma fresh_owned: "(\<And>n. stops_work (outside n)) \<Longrightarrow> owned (new_supervisor states rel data sink outside)"
  by (simp add: owned_def new_supervisor_def handles_def)

lemma start_plugins_running:
  assumes "start_plugins qsdk sk events w = (r, w')" and "supervised sk w" and "owned w" and "\<not> sv_started w"
  shows "r = Inr () \<and> supervised sk w' \<and> owned w' \<and> is_running w'"
proof -
  have begun: "supervised sk (w\<lparr>sv_sink := events\<rparr>)" using assms(2) by (simp add: sink_supervised)
  have r: "r = Inr ()" using assms(1,4) by (simp add: start_plugins_def supervisor_start_def)
  then have "supervisor_start sk (Some (enqueue_next qsdk)) (w\<lparr>sv_sink := events\<rparr>) = (Inr (), w')"
    using assms(1) by (simp add: start_plugins_def)
  from start_runs [OF this begun] start_owned [OF this _ begun] r assms(3) show ?thesis by (simp add: sink_owned)
qed

text \<open>C37. A run of the agent leaves no plugin behind, as far as processes can be stopped: assumed is \<open>stops_work\<close>, that a process that
  the agent stops exits after \<^verbatim>\<open>SIGTERM\<close> or \<^verbatim>\<open>SIGKILL\<close>, and that the socket of a stopped plugin can be removed. If the run ends
  after the plugins have been started - because it was stopped, because a worker failed or for a conflict -, then up to the end every plugin was
  supervised, and at the end no process that the agent has ever started runs: neither one of a plugin, nor a candidate that was given up, nor one
  whose connection failed. And whatever goroutine of the plugins is still there or whatever worker still acts, it starts no process again. If the
  run ends before, because of the identity or the event queue, then no plugin was touched and no session held.\<close>

theorem run_stops_plugins:
  assumes run: "client_run rsdk isdk qsdk sk c config env g = (Some outcome, g')"
    and fresh: "gw_supervisor g = new_supervisor states rel data sink outside" and ok: "plugin_sdk_ok (sk_plugin sk)"
    and inv: "plugin_inv (sk_plugin sk) states" and stops: "\<And>n. stops_work (outside n)"
    and workers: "\<And>w. (worker_step sk (Some (enqueue_next qsdk)))\<^sup>*\<^sup>* w (le_workers env w)"
    and iteration: "\<And>ps. set (le_iteration env ps) = set ps"
  shows "outcome = Some RunNotStarted \<and> gw_supervisor g' = gw_supervisor g \<and> gw_control g' = gw_control g \<or>
    outcome \<noteq> Some RunNotStarted \<and>
    (\<exists>events w. start_plugins qsdk sk events (gw_supervisor g) = (Inr (), w) \<and>
       (let before = le_workers env w; after = gw_supervisor g' in
        (\<forall>q. supervised_plugin sk before q) \<and> os_running (sv_os after) = [] \<and>
        (\<forall>w'. (worker_step sk (Some (enqueue_next qsdk)))\<^sup>*\<^sup>* after w' \<longrightarrow> (\<forall>q. process_of w' q = None) \<and> os_running (sv_os w') = [])))"
proof (cases "outcome = Some RunNotStarted \<and> gw_supervisor g' = gw_supervisor g \<and> gw_control g' = gw_control g")
  case False
  have quiet: "\<And>n. quiet_stop (od_stop (outside n))" using stops by (simp add: stops_work_def)
  have sup: "supervised sk (gw_supervisor g)" "owned (gw_supervisor g)" "\<not> sv_started (gw_supervisor g)"
    using fresh_supervised [OF inv quiet] fresh_owned [OF stops] fresh by (simp_all add: new_supervisor_def)
  have start: "r = Inr ()" if "start_plugins qsdk sk events (gw_supervisor g) = (r, w0)" for events r w0
    using start_plugins_running [OF that sup] by simp
  from run False obtain current events w0 result lines control
    where st: "start_plugins qsdk sk events (gw_supervisor g) = (Inr (), w0)"
      and loop: "client_loop c current (le_attempts env) second (gw_control g) = (result, lines, control)" "result \<noteq> StillRunning"
        "outcome = run_result result" "gw_supervisor g' = snd (supervisor_close (le_iteration env) (le_workers env w0))"
    by (auto simp: client_run_def Let_def split: sum.splits prod.splits if_splits dest: start)
  let ?w = "le_workers env w0"
  from start_plugins_running [OF st sup] have w0: "supervised sk w0" "owned w0" "is_running w0" by auto
  with workers.run_keeps [OF workers] workers.run_inv [OF workers] ok have w: "supervised sk ?w" "owned ?w" and running: "is_running ?w" by auto
  obtain es w1 where close: "supervisor_close (le_iteration env) ?w = (es, w1)" by force
  note closed = supervisor_close_stops [OF close w(2) running iteration]
  have g': "gw_supervisor g' = w1" "outcome \<noteq> Some RunNotStarted"
    using loop close by (auto simp: run_result_def split: client_end.splits)
  have "\<forall>q. supervised_plugin sk ?w q" using w running by (simp add: supervised_def)
  moreover have "\<forall>v. (worker_step sk (Some (enqueue_next qsdk)))\<^sup>*\<^sup>* w1 v \<longrightarrow>
      (\<forall>q. process_of v q = None) \<and> os_running (sv_os v) = []"
  proof (intro allI impI)
    fix v assume "(worker_step sk (Some (enqueue_next qsdk)))\<^sup>*\<^sup>* w1 v"
    with stopped.run_keeps stopped.run_inv closed(1) have "plugins_stopped v" "set (os_running (sv_os v)) \<subseteq> set (os_running (sv_os w1))" by blast+
    with closed(2) show "(\<forall>q. process_of v q = None) \<and> os_running (sv_os v) = []" by (simp add: plugins_stopped_def)
  qed
  ultimately show ?thesis using g' closed(2) st unfolding Let_def by blast
qed simp

text \<open>An agent that registers, recovers its plugin, and ends because the command processor wants a restart.\<close>

definition demo_status_queue :: "plugin_status_event queue_sdk" where
  "demo_status_queue =
     \<lparr>sdk_validate_node_id = (\<lambda>_. True),
      sdk_new_event = (\<lambda>_ _ sequence _ t p. Some \<lparr>ev_sequence = sequence, ev_observed_at = t, ev_content = pe_plugin_id p\<rparr>),
      sdk_marshal_event = sample_marshal, sdk_unmarshal_event = sample_unmarshal, sdk_validate_event_batch = (\<lambda>_. True),
      sdk_max_event_sequence = 1000, sdk_max_batch_events = 10, sdk_max_batch_bytes = 100\<rparr>"

definition demo_life_env :: "unit life_env" where
  "demo_life_env = \<lparr>le_inspect = False, le_opening = False, le_token = ''token'', le_registration = demo_registration_env, le_queue_fault = None,
     le_initialize_fault = None, le_stream_id = Some ''stream-1'', le_enqueue_faults = [], le_attempts = [demo_restart_attempt],
     le_workers = (\<lambda>w. w), le_iteration = (\<lambda>ps. ps)\<rparr>"

definition demo_agent_world :: agent_world where
  "demo_agent_world = \<lparr>gw_registration = \<lparr>rw_directory = [], rw_posted = []\<rparr>, gw_events = empty_queue_db,
     gw_supervisor = new_supervisor demo_with_plugin sample_releases [] (sample_queue, []) (\<lambda>_. sample_outside),
     gw_control = demo_world demo_empty\<rparr>"

lemma demo_events_open: "\<exists>q db. open_queue demo_status_queue None None (Some ''stream-1'') (events_config demo_config demo_identity) empty_queue_db = (Inr q, db)"
proof -
  have "abs_and_clean (cfg_path (events_config demo_config demo_identity))" by code_simp
  then show ?thesis
    by (simp add: open_queue_def demo_status_queue_def db_update_def initialize_tx_def initialize_node_id_def initialize_stream_id_def
        empty_queue_db_def Let_def split: sum.splits)
qed

theorem run_stops_plugins_witness:
  "\<exists>g'. client_run demo_registration_sdk demo_identity_sdk demo_status_queue sample_supervisor_sdk (demo_client demo_update_sdk) demo_config demo_life_env
      demo_agent_world = (Some (Some (RunWorkerFailed (ProcessorStopped RestartRequired))), g') \<and>
    os_running (sv_os (gw_supervisor g')) = []"
proof -
  have trimmed: "trim_space ''token'' = ''token''" by (simp add: trim_space_def white_space_def)
  obtain registration where identity: "client_identity demo_registration_sdk demo_identity_sdk demo_config ''1'' False False demo_registration_env ''token''
      \<lparr>rw_directory = [], rw_posted = []\<rparr> = (Inr demo_identity, registration)"
    by (simp add: client_identity_def identity_load_def register_agent_def trimmed demo_registration_sdk_def demo_registration_env_def demo_identity_sdk_def
        max_response_bytes_def status_created_def identity_save_def replace_file_def http_url_def demo_config_def)
  obtain q db where queue: "open_queue demo_status_queue None None (Some ''stream-1'') (events_config demo_config demo_identity) empty_queue_db = (Inr q, db)"
    using demo_events_open by blast
  have loop: "client_loop (demo_client demo_update_sdk) demo_identity [demo_restart_attempt] second (demo_world demo_empty) =
      (ClientWorkerFailed (ProcessorStopped RestartRequired), [], demo_world demo_empty)"
    by (simp add: demo_restart_attempt_def demo_session_env_def run_session_def)
  obtain w0 where start: "start_plugins demo_status_queue sample_supervisor_sdk (q, []) (gw_supervisor demo_agent_world) = (Inr (), w0)"
    by (simp add: start_plugins_def supervisor_start_def demo_agent_world_def new_supervisor_def)
  have version: "cc_version (demo_client demo_update_sdk) = ''1''" by (simp add: demo_client_def)
  have run: "\<exists>g'. client_run demo_registration_sdk demo_identity_sdk demo_status_queue sample_supervisor_sdk (demo_client demo_update_sdk) demo_config
      demo_life_env demo_agent_world = (Some (Some (RunWorkerFailed (ProcessorStopped RestartRequired))), g')"
    using identity queue loop start
    by (simp add: client_run_def demo_life_env_def demo_agent_world_def version run_result_def Let_def)
  have stops: "stops_work sample_outside"
    using sample_supervisor_quiet(1)
    by (simp add: stops_work_def quiet_stops_def sample_supervisor_def new_supervisor_def sample_outside_def sample_start_def sample_stop_def)
  from run obtain g' where g': "client_run demo_registration_sdk demo_identity_sdk demo_status_queue sample_supervisor_sdk (demo_client demo_update_sdk)
      demo_config demo_life_env demo_agent_world = (Some (Some (RunWorkerFailed (ProcessorStopped RestartRequired))), g')" by blast
  have "os_running (sv_os (gw_supervisor g')) = []"
    using run_stops_plugins [OF g', of demo_with_plugin sample_releases "[]" "(sample_queue, [])" "\<lambda>_. sample_outside"] stops demo_plugin_sdk_ok
      demo_with_plugin_inv
    by (auto simp: demo_agent_world_def demo_life_env_def sample_supervisor_sdk_def Let_def)
  with g' show ?thesis by blast
qed

end
