(* ===== verification/PublicAddresses.thy ===== *)
theory PublicAddresses
  imports EventQueue Download
begin

section \<open>The public address observer (internal/networkobserver/observer.go)\<close>

text \<open>
  At the start and then every ten minutes the observer asks one endpoint per address family for the agent's public address and enqueues what
  was answered correctly as one event. The endpoints are kept in a Go map, which is iterated in any order: the order of an observation is an
  argument. The sink is the interface \<open>event_sink\<close> of the queue; the functions of \<^verbatim>\<open>net/netip\<close> on a parsed address \<open>'a\<close> and the SDK are
  parameters, and the answers of the endpoints come from outside.
\<close>

record 'a netip =
  na_parse :: "string \<Rightarrow> 'a option"
  na_string :: "'a \<Rightarrow> string"
  na_global_unicast :: "'a \<Rightarrow> bool"
  na_private :: "'a \<Rightarrow> bool"
  na_is4 :: "'a \<Rightarrow> bool"
  na_is6 :: "'a \<Rightarrow> bool"

type_synonym addresses = "(string \<times> string) list"

record address_sdk =
  ad_ipv4 :: string
  ad_ipv6 :: string
  ad_event :: string
  ad_valid :: "addresses \<Rightarrow> bool"

datatype query_error =
    RequestNotMade | EndpointUnavailable | EndpointStatus nat | ResponseNotRead | ResponseLong | NotCanonicalPublic | NotIPv4 | NotIPv6

text \<open>What the outside answers: the request cannot be made, the endpoint does not answer, or it answers with a status and a body, if that can be read.\<close>

datatype endpoint_reply = BadRequest | NoReply | Reply nat "string option"

definition maximum_body_size :: nat where "maximum_body_size = 128"

definition address_query :: "'a netip \<Rightarrow> address_sdk \<Rightarrow> string \<Rightarrow> endpoint_reply \<Rightarrow> query_error + string" where
  "address_query net sdk family reply =
     (case reply of
        BadRequest \<Rightarrow> Inl RequestNotMade
      | NoReply \<Rightarrow> Inl EndpointUnavailable
      | Reply status body \<Rightarrow>
          if status \<noteq> 200 then Inl (EndpointStatus status)
          else case body of
            None \<Rightarrow> Inl ResponseNotRead
          | Some raw \<Rightarrow>
              if maximum_body_size < length raw then Inl ResponseLong
              else
                let value' = trim_space raw in
                (case na_parse net value' of
                   None \<Rightarrow> Inl NotCanonicalPublic
                 | Some address \<Rightarrow>
                     if na_string net address \<noteq> value' \<or> \<not> na_global_unicast net address \<or> na_private net address then Inl NotCanonicalPublic
                     else if family = ad_ipv4 sdk \<and> \<not> na_is4 net address then Inl NotIPv4
                     else if family = ad_ipv6 sdk \<and> \<not> na_is6 net address then Inl NotIPv6
                     else Inr value'))"

text \<open>The answers that count, in the order of the families.\<close>

definition observed_addresses :: "'a netip \<Rightarrow> address_sdk \<Rightarrow> (string \<Rightarrow> endpoint_reply) \<Rightarrow> string list \<Rightarrow> addresses" where
  "observed_addresses net sdk replies order =
     sort_key fst (concat (map (\<lambda>family. case address_query net sdk family (replies family) of Inl _ \<Rightarrow> [] | Inr address \<Rightarrow> [(family, address)]) order))"

definition observe_addresses ::
    "'a netip \<Rightarrow> address_sdk \<Rightarrow> ('q \<Rightarrow> string \<Rightarrow> time \<Rightarrow> addresses \<Rightarrow> ('e + event) \<times> 'q) \<Rightarrow> (string \<Rightarrow> endpoint_reply) \<Rightarrow> string list \<Rightarrow> time \<Rightarrow> 'q \<Rightarrow> 'q" where
  "observe_addresses net sdk put replies order now q =
     (let value' = observed_addresses net sdk replies order in
      if value' = [] then q
      else if \<not> ad_valid sdk value' then q
      else snd (put q (ad_event sdk) now value'))"

text \<open>The loop: one observation at the start, then one at every tick.\<close>

record observation =
  ob_replies :: "string \<Rightarrow> endpoint_reply"
  ob_order :: "string list"
  ob_now :: time

fun observer_run ::
    "'a netip \<Rightarrow> address_sdk \<Rightarrow> ('q \<Rightarrow> string \<Rightarrow> time \<Rightarrow> addresses \<Rightarrow> ('e + event) \<times> 'q) \<Rightarrow> observation list \<Rightarrow> 'q \<Rightarrow> 'q" where
  "observer_run net sdk put [] q = q"
| "observer_run net sdk put (ob # obs) q = observer_run net sdk put obs (observe_addresses net sdk put (ob_replies ob) (ob_order ob) (ob_now ob) q)"

subsection \<open>What is reported\<close>

text \<open>A canonical public address of the family.\<close>

definition public_address :: "'a netip \<Rightarrow> address_sdk \<Rightarrow> string \<Rightarrow> string \<Rightarrow> bool" where
  "public_address net sdk family text' \<longleftrightarrow>
     (case na_parse net text' of
        None \<Rightarrow> False
      | Some address \<Rightarrow>
          na_string net address = text' \<and> na_global_unicast net address \<and> \<not> na_private net address \<and>
          (family = ad_ipv4 sdk \<longrightarrow> na_is4 net address) \<and> (family = ad_ipv6 sdk \<longrightarrow> na_is6 net address))"

lemma address_query_Inr:
  "address_query net sdk family reply = Inr address \<longleftrightarrow>
   (\<exists>raw. reply = Reply 200 (Some raw) \<and> length raw \<le> maximum_body_size \<and> address = trim_space raw \<and> public_address net sdk family address)"
  by (cases reply) (auto simp: address_query_def public_address_def Let_def split: option.splits if_splits)

lemma set_observed:
  "set (observed_addresses net sdk replies order) = {(family, address). family \<in> set order \<and> address_query net sdk family (replies family) = Inr address}"
  by (auto simp: observed_addresses_def split: sum.splits)

lemma found_keys:
  "distinct order \<Longrightarrow>
   distinct (map fst (concat (map (\<lambda>family. case answer family of Inl _ \<Rightarrow> [] | Inr address \<Rightarrow> [(family, address)]) order))) \<and>
   fst ` set (concat (map (\<lambda>family. case answer family of Inl _ \<Rightarrow> [] | Inr address \<Rightarrow> [(family, address)]) order)) \<subseteq> set order"
proof (induction order)
  case (Cons family order)
  then show ?case by (cases "answer family") auto
qed simp

lemma observed_sorted:
  assumes "distinct order"
  shows "sorted (map fst (observed_addresses net sdk replies order))" "distinct (map fst (observed_addresses net sdk replies order))"
proof -
  show "sorted (map fst (observed_addresses net sdk replies order))" by (simp add: observed_addresses_def)
  let ?found = "concat (map (\<lambda>family. case address_query net sdk family (replies family) of Inl _ \<Rightarrow> [] | Inr address \<Rightarrow> [(family, address)]) order)"
  have "distinct (map fst ?found)"
    using found_keys [OF assms, of "\<lambda>family. address_query net sdk family (replies family)"] by simp
  moreover have same: "mset (map fst (sort_key fst ?found)) = mset (map fst ?found)" by simp
  ultimately show "distinct (map fst (observed_addresses net sdk replies order))"
    unfolding observed_addresses_def using mset_eq_imp_distinct_iff [OF same] by simp
qed

text \<open>Lists that are sorted by distinct keys are determined by their elements.\<close>

lemma sorted_keys_unique:
  "sorted (map fst xs) \<Longrightarrow> distinct (map fst xs) \<Longrightarrow> sorted (map fst ys) \<Longrightarrow> distinct (map fst ys) \<Longrightarrow> set xs = set ys \<Longrightarrow>
   xs = (ys :: ('a :: linorder \<times> 'b) list)"
  by (rule map_sorted_distinct_set_unique [where f = fst]) (simp_all add: distinct_map)

lemma observed_any_order:
  assumes "distinct order" and "distinct order'" and "set order = set order'"
  shows "observed_addresses net sdk replies order = observed_addresses net sdk replies order'"
  by (rule sorted_keys_unique) (use assms observed_sorted in \<open>auto simp: set_observed\<close>)

text \<open>C39. What the observer puts on the queue is right: one observation adds at most one event, and one exactly if some endpoint answered correctly, the
  SDK accepts the value and the queue takes it; the value names, in the order of the families, exactly the endpoints' answers that are
  canonical public addresses of their family; and the order in which Go iterates the map makes no difference.\<close>

theorem observation_reports_public_addresses:
  assumes "sink_inv qsdk q" and "distinct order" and "distinct order'" and "set order' = set order"
    and "observe_addresses net sdk (enqueue_next qsdk) replies order now q = q'" and "observed_addresses net sdk replies order = value'"
  shows "observe_addresses net sdk (enqueue_next qsdk) replies order' now q = q' \<and> sink_inv qsdk q' \<and>
    sink_events qsdk q' = sink_events qsdk q @
      (if value' = [] \<or> \<not> ad_valid sdk value' then []
       else case fst (enqueue_next qsdk q (ad_event sdk) now value') of Inl _ \<Rightarrow> [] | Inr ev \<Rightarrow> [ev]) \<and>
    sorted (map fst value') \<and> distinct (map fst value') \<and>
    set value' = {(family, address). family \<in> set order \<and> public_address net sdk family address \<and>
      (\<exists>raw. replies family = Reply 200 (Some raw) \<and> length raw \<le> maximum_body_size \<and> address = trim_space raw)}"
proof -
  have same: "observed_addresses net sdk replies order' = value'"
    using observed_any_order [OF assms(3,2,4), of net sdk replies] assms(6) by simp
  obtain r q2 where put: "enqueue_next qsdk q (ad_event sdk) now value' = (r, q2)" by (rule prod.exhaust)
  have "sink_events qsdk q2 = sink_events qsdk q @ (case r of Inl _ \<Rightarrow> [] | Inr ev \<Rightarrow> [ev]) \<and> sink_inv qsdk q2"
    using queue_sink.put_accepts [OF assms(1)] queue_sink.put_refuses [OF assms(1)] queue_sink.put_ok [OF assms(1)] put by (cases r) auto
  moreover have "q' = (if value' = [] \<or> \<not> ad_valid sdk value' then q else q2)"
    "observe_addresses net sdk (enqueue_next qsdk) replies order' now q = q'"
    using assms(5,6) same put by (auto simp: observe_addresses_def Let_def)
  moreover have "sorted (map fst value')" "distinct (map fst value')"
    using observed_sorted [OF assms(2)] assms(6) by auto
  moreover have "set value' = {(family, address). family \<in> set order \<and> public_address net sdk family address \<and>
      (\<exists>raw. replies family = Reply 200 (Some raw) \<and> length raw \<le> maximum_body_size \<and> address = trim_space raw)}"
    using set_observed [of net sdk replies order] assms(6) by (auto simp: address_query_Inr)
  ultimately show ?thesis using assms(1) put by simp
qed

definition demo_netip :: "string netip" where
  "demo_netip = \<lparr>na_parse = Some, na_string = (\<lambda>a. a), na_global_unicast = (\<lambda>a. a \<noteq> ''127.0.0.1''), na_private = (\<lambda>a. a = ''10.0.0.1''),
     na_is4 = (\<lambda>a. CHR ''.'' \<in> set a), na_is6 = (\<lambda>a. CHR '':'' \<in> set a)\<rparr>"

definition demo_address_sdk :: address_sdk where
  "demo_address_sdk = \<lparr>ad_ipv4 = ''ipv4'', ad_ipv6 = ''ipv6'', ad_event = ''addresses'', ad_valid = (\<lambda>_. True)\<rparr>"

definition demo_replies :: "string \<Rightarrow> endpoint_reply" where
  "demo_replies family = (if family = ''ipv4'' then Reply 200 (Some ''192.0.2.1 '') else Reply 503 None)"

definition demo_address_queue :: "addresses queue_sdk" where
  "demo_address_queue =
     \<lparr>sdk_validate_node_id = (\<lambda>_. True),
      sdk_new_event = (\<lambda>_ _ sequence _ t p. Some \<lparr>ev_sequence = sequence, ev_observed_at = t, ev_content = concat (map snd p)\<rparr>),
      sdk_marshal_event = sample_marshal, sdk_unmarshal_event = sample_unmarshal, sdk_validate_event_batch = (\<lambda>_. True),
      sdk_max_event_sequence = 1000, sdk_max_batch_events = 10, sdk_max_batch_bytes = 100\<rparr>"

lemma demo_address_queue_ok: "sink_inv demo_address_queue (sample_queue, [])"
proof -
  have "queue_sdk_ok demo_address_queue"
    using sample_roundtrip by (auto simp: queue_sdk_ok_def demo_address_queue_def max_uint64_def)
  moreover have "queue_inv demo_address_queue (q_db sample_queue)"
    by (simp add: queue_inv_def sample_queue_def acked_of_def next_of_def demo_address_queue_def)
  ultimately show ?thesis by (simp add: sink_inv_def)
qed

lemma demo_observed: "observed_addresses demo_netip demo_address_sdk demo_replies [''ipv4'', ''ipv6''] = [(''ipv4'', ''192.0.2.1'')]"
proof -
  have "trim_space ''192.0.2.1 '' = ''192.0.2.1''" by (simp add: trim_space_def white_space_def)
  then show ?thesis
    by (simp add: observed_addresses_def address_query_def demo_replies_def demo_netip_def demo_address_sdk_def maximum_body_size_def)
qed

lemma demo_address_put: "\<exists>ev. fst (enqueue_next demo_address_queue (sample_queue, []) (ad_event demo_address_sdk) 5 [(''ipv4'', ''192.0.2.1'')]) = Inr ev"
  by (simp add: enqueue_next_def pop_fault_def sample_queue_def enqueue_def enqueue_tx_def db_update_def demo_address_queue_def sample_marshal_def Let_def
      demo_address_sdk_def split: prod.splits)

theorem observation_reports_public_addresses_witness:
  "observe_addresses demo_netip demo_address_sdk (enqueue_next demo_address_queue) demo_replies [''ipv6'', ''ipv4''] 5 (sample_queue, []) =
     observe_addresses demo_netip demo_address_sdk (enqueue_next demo_address_queue) demo_replies [''ipv4'', ''ipv6''] 5 (sample_queue, []) \<and>
   (\<exists>ev. sink_events demo_address_queue
      (observe_addresses demo_netip demo_address_sdk (enqueue_next demo_address_queue) demo_replies [''ipv4'', ''ipv6''] 5 (sample_queue, [])) =
      sink_events demo_address_queue (sample_queue, []) @ [ev])"
proof -
  obtain ev where "fst (enqueue_next demo_address_queue (sample_queue, []) (ad_event demo_address_sdk) 5 [(''ipv4'', ''192.0.2.1'')]) = Inr ev"
    using demo_address_put ..
  moreover have "ad_valid demo_address_sdk value'" for value' by (simp add: demo_address_sdk_def)
  moreover have sets: "set [''ipv6'', ''ipv4''] = set [''ipv4'', ''ipv6'']" by auto
  ultimately show ?thesis
    using observation_reports_public_addresses [OF demo_address_queue_ok _ _ sets refl demo_observed, where now = 5] by simp
qed

end
