(* ===== verification/PluginLauncher.thy ===== *)
theory PluginLauncher
  imports Filepath Prelude
begin

section \<open>The limited plugin launcher (internal/plugin/launcher.go)\<close>

text \<open>
  The supervisor starts a plugin through the agent's own binary, which lowers four resource limits of its process and then replaces
  itself with the plugin. The limits of the process are a function from the resources to their current and hard value; a
  system call that fails is a fault.
\<close>

datatype resource = LimitData | LimitOpenFiles | LimitProcesses | LimitCore | OtherResource nat

record rlimit =
  rl_cur :: u64
  rl_max :: u64

type_synonym limits = "resource \<Rightarrow> rlimit"

datatype launcher_error = BadArguments | ExecutableMissing | ExecutableIrregular | LimitFailed resource | ExecFailed

text \<open>What the outside does: the file behind the path (\<open>None\<close>: it cannot be inspected; otherwise whether it is a regular file), and the system calls that fail.\<close>

record launcher_env =
  lv_lstat :: "string \<Rightarrow> bool option"
  lv_getrlimit_fails :: "resource \<Rightarrow> bool"
  lv_setrlimit_fails :: "resource \<Rightarrow> bool"
  lv_exec_fails :: bool

definition plugin_memory_limit :: u64 where "plugin_memory_limit = 2 ^ 30"
definition plugin_open_files_limit :: u64 where "plugin_open_files_limit = 65536"
definition plugin_process_limit :: u64 where "plugin_process_limit = 256"

definition plugin_limits :: "(resource \<times> u64) list" where
  "plugin_limits = [(LimitData, plugin_memory_limit), (LimitOpenFiles, plugin_open_files_limit), (LimitProcesses, plugin_process_limit), (LimitCore, 0)]"

definition set_hard_process_limit :: "launcher_env \<Rightarrow> resource \<Rightarrow> u64 \<Rightarrow> limits \<Rightarrow> (launcher_error + unit) \<times> limits" where
  "set_hard_process_limit env resource desired limits =
     (if lv_getrlimit_fails env resource then (Inl (LimitFailed resource), limits)
      else
        let wanted = (if rl_max (limits resource) < desired then rl_max (limits resource) else desired) in
        if lv_setrlimit_fails env resource then (Inl (LimitFailed resource), limits)
        else (Inr (), limits(resource := \<lparr>rl_cur = wanted, rl_max = wanted\<rparr>)))"

fun set_limits :: "launcher_env \<Rightarrow> (resource \<times> u64) list \<Rightarrow> limits \<Rightarrow> (launcher_error + unit) \<times> limits" where
  "set_limits env [] limits = (Inr (), limits)"
| "set_limits env ((resource, desired) # rest) limits =
     (case set_hard_process_limit env resource desired limits of
        (Inl e, limits) \<Rightarrow> (Inl e, limits)
      | (Inr _, limits) \<Rightarrow> set_limits env rest limits)"

text \<open>\<open>Inr path\<close>: the process has become the plugin at this path. \<^verbatim>\<open>Lstat\<close> reports a symbolic link as not regular.\<close>

definition run_limited_plugin :: "launcher_env \<Rightarrow> string list \<Rightarrow> limits \<Rightarrow> (launcher_error + string) \<times> limits" where
  "run_limited_plugin env args limits =
     (case args of
        [path] \<Rightarrow>
          if \<not> path_is_abs path then (Inl BadArguments, limits)
          else (case lv_lstat env path of
            None \<Rightarrow> (Inl ExecutableMissing, limits)
          | Some regular \<Rightarrow>
              if \<not> regular then (Inl ExecutableIrregular, limits)
              else (case set_limits env plugin_limits limits of
                (Inl e, limits) \<Rightarrow> (Inl e, limits)
              | (Inr _, limits) \<Rightarrow> (if lv_exec_fails env then Inl ExecFailed else Inr path, limits)))
      | _ \<Rightarrow> (Inl BadArguments, limits))"

subsection \<open>Limits are only lowered\<close>

definition lowered :: "limits \<Rightarrow> limits \<Rightarrow> bool" where
  "lowered before after \<longleftrightarrow> (\<forall>r. rl_max (after r) \<le> rl_max (before r) \<and> (after r = before r \<or> rl_cur (after r) = rl_max (after r)))"

lemma lowered_refl: "lowered limits limits"
  by (simp add: lowered_def)

lemma lowered_trans: "lowered a b \<Longrightarrow> lowered b c \<Longrightarrow> lowered a c"
  unfolding lowered_def by (metis order_trans)

lemma set_hard_process_limit_effect:
  assumes "set_hard_process_limit env resource desired limits = (r, limits')"
  shows "lowered limits limits'"
    and "r = Inr () \<Longrightarrow> limits' = limits(resource := \<lparr>rl_cur = min (rl_max (limits resource)) desired, rl_max = min (rl_max (limits resource)) desired\<rparr>)"
  using assms by (auto simp: set_hard_process_limit_def lowered_def Let_def min_def split: if_splits)

lemma set_limits_effect:
  "set_limits env rs limits = (r, limits') \<Longrightarrow> lowered limits limits' \<and>
   (r = Inr () \<longrightarrow> distinct (map fst rs) \<longrightarrow>
     (\<forall>(resource, desired) \<in> set rs. limits' resource = \<lparr>rl_cur = min (rl_max (limits resource)) desired, rl_max = min (rl_max (limits resource)) desired\<rparr>) \<and>
     (\<forall>resource. resource \<notin> fst ` set rs \<longrightarrow> limits' resource = limits resource))"
proof (induction rs arbitrary: limits)
  case Nil
  then show ?case by (simp add: lowered_refl)
next
  case (Cons e rs)
  obtain resource desired where e: "e = (resource, desired)" by force
  obtain r1 limits1 where one: "set_hard_process_limit env resource desired limits = (r1, limits1)" by force
  note first = set_hard_process_limit_effect [OF one]
  show ?case
  proof (cases r1)
    case (Inl err)
    with Cons.prems e one first(1) show ?thesis by auto
  next
    case (Inr u)
    with Cons.prems e one have rest: "set_limits env rs limits1 = (r, limits')" by simp
    from Cons.IH [OF rest] have ih: "lowered limits1 limits'"
      "r = Inr () \<Longrightarrow> distinct (map fst rs) \<Longrightarrow>
        (\<forall>(resource, desired) \<in> set rs. limits' resource = \<lparr>rl_cur = min (rl_max (limits1 resource)) desired, rl_max = min (rl_max (limits1 resource)) desired\<rparr>) \<and>
        (\<forall>resource. resource \<notin> fst ` set rs \<longrightarrow> limits' resource = limits1 resource)" by blast+
    have limits1: "limits1 = limits(resource := \<lparr>rl_cur = min (rl_max (limits resource)) desired, rl_max = min (rl_max (limits resource)) desired\<rparr>)"
      using first(2) Inr by simp
    have "lowered limits limits'" by (rule lowered_trans [OF first(1) ih(1)])
    moreover have "(\<forall>(x, d) \<in> set (e # rs). limits' x = \<lparr>rl_cur = min (rl_max (limits x)) d, rl_max = min (rl_max (limits x)) d\<rparr>) \<and>
        (\<forall>x. x \<notin> fst ` set (e # rs) \<longrightarrow> limits' x = limits x)" if "r = Inr ()" "distinct (map fst (e # rs))"
    proof -
      have apart: "resource \<notin> fst ` set rs" "distinct (map fst rs)" using that(2) e by auto
      note ih2 = ih(2) [OF that(1) apart(2)]
      have "limits' x = \<lparr>rl_cur = min (rl_max (limits x)) d, rl_max = min (rl_max (limits x)) d\<rparr>" if "(x, d) \<in> set rs" for x d
      proof -
        have "x \<noteq> resource" using that apart(1) by (metis fst_conv image_eqI)
        with ih2 that limits1 show ?thesis by auto
      qed
      moreover have "limits' resource = limits1 resource" using ih2 apart(1) by blast
      ultimately show ?thesis using e limits1 ih2 by auto
    qed
    ultimately show ?thesis by blast
  qed
qed

text \<open>C40. A plugin never runs without its limits: the process becomes the plugin only at an absolute path of a regular file, with at most 1 GiB of
  data, 65536 open files, 256 processes and no core file, each as current and as hard limit, lower only where the inherited hard limit was lower;
  every other limit is as it was; and on every path, failures included, no hard limit is raised.\<close>

theorem plugin_runs_with_limits:
  assumes "run_limited_plugin env args limits = (out, limits')"
  shows "(\<forall>r. rl_max (limits' r) \<le> rl_max (limits r)) \<and>
    (case out of
       Inl _ \<Rightarrow> True
     | Inr path \<Rightarrow>
         args = [path] \<and> path_is_abs path \<and> lv_lstat env path = Some True \<and>
         (\<forall>r. case r of
             LimitData \<Rightarrow> rl_cur (limits' r) = min (rl_max (limits r)) 1073741824 \<and> rl_max (limits' r) = min (rl_max (limits r)) 1073741824
           | LimitOpenFiles \<Rightarrow> rl_cur (limits' r) = min (rl_max (limits r)) 65536 \<and> rl_max (limits' r) = min (rl_max (limits r)) 65536
           | LimitProcesses \<Rightarrow> rl_cur (limits' r) = min (rl_max (limits r)) 256 \<and> rl_max (limits' r) = min (rl_max (limits r)) 256
           | LimitCore \<Rightarrow> rl_cur (limits' r) = 0 \<and> rl_max (limits' r) = 0
           | OtherResource _ \<Rightarrow> limits' r = limits r))"
proof (cases "\<exists>path. args = [path] \<and> path_is_abs path \<and> lv_lstat env path = Some True")
  case False
  with assms have "limits' = limits \<and> (\<exists>e. out = Inl e)"
    by (auto simp: run_limited_plugin_def split: list.splits option.splits if_splits)
  then show ?thesis by auto
next
  case True
  then obtain path where path: "args = [path]" "path_is_abs path" "lv_lstat env path = Some True" by blast
  obtain r1 limits1 where one: "set_limits env plugin_limits limits = (r1, limits1)" by (rule prod.exhaust)
  note effect = set_limits_effect [OF one]
  have run: "limits' = limits1" "\<And>p. out = Inr p \<Longrightarrow> p = path \<and> r1 = Inr ()"
    using assms path one by (auto simp: run_limited_plugin_def split: sum.splits if_splits)
  have "rl_max (limits' r) \<le> rl_max (limits r)" for r using effect run(1) by (simp add: lowered_def)
  moreover have "case r of
      LimitData \<Rightarrow> rl_cur (limits' r) = min (rl_max (limits r)) 1073741824 \<and> rl_max (limits' r) = min (rl_max (limits r)) 1073741824
    | LimitOpenFiles \<Rightarrow> rl_cur (limits' r) = min (rl_max (limits r)) 65536 \<and> rl_max (limits' r) = min (rl_max (limits r)) 65536
    | LimitProcesses \<Rightarrow> rl_cur (limits' r) = min (rl_max (limits r)) 256 \<and> rl_max (limits' r) = min (rl_max (limits r)) 256
    | LimitCore \<Rightarrow> rl_cur (limits' r) = 0 \<and> rl_max (limits' r) = 0
    | OtherResource _ \<Rightarrow> limits' r = limits r" if "r1 = Inr ()" for r
  proof -
    have "distinct (map fst plugin_limits)" by (simp add: plugin_limits_def)
    with effect that have "\<forall>(resource, desired) \<in> set plugin_limits.
        limits1 resource = \<lparr>rl_cur = min (rl_max (limits resource)) desired, rl_max = min (rl_max (limits resource)) desired\<rparr>"
      "\<forall>resource. resource \<notin> fst ` set plugin_limits \<longrightarrow> limits1 resource = limits resource" by blast+
    then show ?thesis using run(1)
      by (cases r) (simp_all add: plugin_limits_def plugin_memory_limit_def plugin_open_files_limit_def plugin_process_limit_def)
  qed
  ultimately show ?thesis using path run(2) by (auto split: sum.splits)
qed

definition demo_launcher_env :: launcher_env where
  "demo_launcher_env = \<lparr>lv_lstat = (\<lambda>_. Some True), lv_getrlimit_fails = (\<lambda>_. False), lv_setrlimit_fails = (\<lambda>_. False), lv_exec_fails = False\<rparr>"

theorem plugin_runs_with_limits_witness:
  "\<exists>limits'. run_limited_plugin demo_launcher_env [''/p''] (\<lambda>_. \<lparr>rl_cur = 100, rl_max = 1024\<rparr>) = (Inr ''/p'', limits') \<and>
    limits' LimitProcesses = \<lparr>rl_cur = 256, rl_max = 256\<rparr> \<and> limits' LimitOpenFiles = \<lparr>rl_cur = 1024, rl_max = 1024\<rparr> \<and>
    limits' LimitCore = \<lparr>rl_cur = 0, rl_max = 0\<rparr> \<and>
    limits' (OtherResource 0) = \<lparr>rl_cur = 100, rl_max = 1024\<rparr>"
proof -
  obtain limits' where run: "run_limited_plugin demo_launcher_env [''/p''] (\<lambda>_. \<lparr>rl_cur = 100, rl_max = 1024\<rparr>) = (Inr ''/p'', limits')"
    by (simp add: run_limited_plugin_def path_is_abs_def demo_launcher_env_def plugin_limits_def set_hard_process_limit_def Let_def)
  note limits = plugin_runs_with_limits [OF run, unfolded sum.case, THEN conjunct2, THEN conjunct2, THEN conjunct2, THEN conjunct2, THEN spec]
  have "min 1024 256 = (256 :: u64)" "min 1024 65536 = (1024 :: u64)" by (simp_all add: min_def)
  then show ?thesis
    using run limits [of LimitProcesses] limits [of LimitOpenFiles] limits [of "OtherResource 0"] limits [of LimitCore]
    by (intro exI [of _ limits']) simp
qed

end
