(* ===== verification/ReleaseManifest.thy ===== *)
theory ReleaseManifest
  imports UpdateManager AgentConfig
begin

section \<open>Making a release (internal/update/release.go, cmd/relayward-agent-release/main.go)\<close>

text \<open>
  The release tool writes the manifest that the updater of running agents downloads: the digest of the binary and one digest of the four runtime assets. The
  distribution directory is a bucket of entries. The SDK's version check, SHA-256 (in hexadecimal), the parser of
  time stamps and JSON are parameters.
\<close>

definition runtime_asset_names :: "string list" where
  "runtime_asset_names = [''relayward-agent-launcher'', ''relayward-agent.openrc'', ''relayward-agent.service'', ''uninstall.sh'']"

datatype release_error =
    ReleaseVersionInvalid | PublishedAtInvalid | BinaryNotInspected | BinaryInvalid | BinaryNotRead | AssetNotRead string | ReleaseManifestInvalid
  | ManifestNotEncoded | ManifestNotWritten

text \<open>\<open>unread\<close>: the files that cannot be read.\<close>

definition release_file_sha256 :: "update_sdk \<Rightarrow> (string \<Rightarrow> bool) \<Rightarrow> directory \<Rightarrow> string \<Rightarrow> string option" where
  "release_file_sha256 sdk unread dir name =
     (case bucket_get dir name of
        None \<Rightarrow> None
      | Some f \<Rightarrow> if unread name then None else Some (uk_sha256 sdk (fe_content f)))"

fun asset_digests :: "update_sdk \<Rightarrow> (string \<Rightarrow> bool) \<Rightarrow> directory \<Rightarrow> string list \<Rightarrow> string \<Rightarrow> release_error + string" where
  "asset_digests sdk unread dir [] aggregate = Inr aggregate"
| "asset_digests sdk unread dir (name # names) aggregate =
     (case release_file_sha256 sdk unread dir name of
        None \<Rightarrow> Inl (AssetNotRead name)
      | Some digest \<Rightarrow> asset_digests sdk unread dir names (aggregate @ digest @ [CHR 0x0A]))"

definition runtime_assets_sha256 :: "update_sdk \<Rightarrow> (string \<Rightarrow> bool) \<Rightarrow> directory \<Rightarrow> release_error + string" where
  "runtime_assets_sha256 sdk unread dir =
     (case asset_digests sdk unread dir runtime_asset_names [] of
        Inl e \<Rightarrow> Inl e
      | Inr aggregate \<Rightarrow> Inr (uk_sha256 sdk aggregate))"

record release_env =
  rn_inspect_fails :: bool
  rn_unread :: "string \<Rightarrow> bool"
  rn_write_fault :: "string option option"

text \<open>\<open>parse_time\<close> is \<^verbatim>\<open>time.Parse\<close> with RFC 3339, \<open>marshal\<close> the indented JSON of a manifest. The manifest is written in place and readable for
  all: a fault of the write leaves what was there, or the part of it that was written.\<close>

definition release_file :: "string \<Rightarrow> file_entry" where
  "release_file content = \<lparr>fe_directory = False, fe_regular = True, fe_private = False, fe_content = content\<rparr>"

definition create_manifest ::
    "update_sdk \<Rightarrow> (string \<Rightarrow> time option) \<Rightarrow> (manifest \<Rightarrow> string option) \<Rightarrow> release_env \<Rightarrow> string \<Rightarrow> string \<Rightarrow> directory
     \<Rightarrow> (release_error + unit) \<times> directory" where
  "create_manifest sdk parse_time marshal env version published_at dir =
     (if \<not> uk_valid_version sdk version then (Inl ReleaseVersionInvalid, dir)
      else case parse_time published_at of
        None \<Rightarrow> (Inl PublishedAtInvalid, dir)
      | Some published \<Rightarrow>
      (case bucket_get dir binary_asset_name of
         None \<Rightarrow> (Inl BinaryNotInspected, dir)
       | Some f \<Rightarrow>
         if rn_inspect_fails env then (Inl BinaryNotInspected, dir)
         else if \<not> fe_regular f \<or> fe_content f = [] \<or> maximum_binary_bytes < length (fe_content f) then (Inl BinaryInvalid, dir)
         else if rn_unread env binary_asset_name then (Inl BinaryNotRead, dir)
         else (case runtime_assets_sha256 sdk (rn_unread env) dir of
           Inl e \<Rightarrow> (Inl e, dir)
         | Inr assets \<Rightarrow>
           let mf = \<lparr>mf_api_version = manifest_api_version, mf_version = version, mf_published_at = published, mf_runtime_assets_sha256 = assets,
                     mf_artifact = \<lparr>ra_file = binary_asset_name, ra_os = ''linux'', ra_arch = ''amd64'', ra_size = int (length (fe_content f)),
                                    ra_sha256 = uk_sha256 sdk (fe_content f)\<rparr>\<rparr> in
           if \<not> validate_manifest sdk mf then (Inl ReleaseManifestInvalid, dir)
           else (case marshal mf of
             None \<Rightarrow> (Inl ManifestNotEncoded, dir)
           | Some raw \<Rightarrow>
             (case rn_write_fault env of
                Some None \<Rightarrow> (Inl ManifestNotWritten, dir)
              | Some (Some written) \<Rightarrow> (Inl ManifestNotWritten, bucket_put manifest_asset_name (release_file written) dir)
              | None \<Rightarrow> (Inr (), bucket_put manifest_asset_name (release_file (raw @ [CHR 0x0A])) dir))))))"

text \<open>The program: \<open>None\<close> for the flags stands for arguments that are left over.\<close>

definition release_main ::
    "update_sdk \<Rightarrow> (string \<Rightarrow> time option) \<Rightarrow> (manifest \<Rightarrow> string option) \<Rightarrow> release_env \<Rightarrow> (string \<times> string) option \<Rightarrow> directory \<Rightarrow> int \<times> directory" where
  "release_main sdk parse_time marshal env flags dir =
     (case flags of
        None \<Rightarrow> (2, dir)
      | Some (version, published_at) \<Rightarrow>
          (case create_manifest sdk parse_time marshal env version published_at dir of
             (Inl _, dir) \<Rightarrow> (1, dir)
           | (Inr _, dir) \<Rightarrow> (0, dir)))"

subsection \<open>A release is one that agents accept\<close>

lemma asset_digests_unread:
  "asset_digests sdk unread dir names aggregate = Inr digests \<Longrightarrow> asset_digests sdk (\<lambda>_. False) dir names aggregate = Inr digests"
  by (induction names arbitrary: aggregate) (auto simp: release_file_sha256_def split: option.splits if_splits)

lemma trimmed_line: "list_all (\<lambda>c. \<not> white_space c) s \<Longrightarrow> trim_space (s @ [CHR 0x0A]) = s"
proof -
  assume plain: "list_all (\<lambda>c. \<not> white_space c) s"
  show ?thesis
  proof (cases s)
    case (Cons c rest)
    then have "dropWhile white_space (s @ [CHR 0x0A]) = s @ [CHR 0x0A]" using plain by simp
    moreover have "dropWhile white_space (rev (s @ [CHR 0x0A])) = dropWhile white_space (rev s)" by (simp add: white_space_def)
    moreover have "dropWhile white_space (rev s) = rev s" using plain by (auto simp: dropWhile_eq_self_iff list_all_iff hd_rev dest: last_in_set)
    ultimately show ?thesis by (simp add: trim_space_def)
  qed (simp add: trim_space_def white_space_def)
qed

text \<open>C38. What the release tool writes, the agents accept: if it succeeds, then the manifest in the directory is decoded and validated by the updater, names the
  wanted version, and the size and the digest of the binary beside it, which is unchanged; and a node on which the digest of the same runtime assets is
  registered passes the updater's check of its assets.\<close>

theorem release_is_accepted:
  assumes "create_manifest sdk parse_time marshal env version published_at dir = (Inr (), dir')"
    and "\<forall>mf raw. validate_manifest sdk mf \<and> marshal mf = Some raw \<longrightarrow> uk_unmarshal_manifest sdk (raw @ [CHR 0x0A]) = Some mf"
  shows "\<exists>f raw mf assets. bucket_get dir' binary_asset_name = Some f \<and> bucket_get dir binary_asset_name = Some f \<and>
    bucket_get dir' manifest_asset_name = Some (release_file raw) \<and> decode_manifest sdk raw = Inr mf \<and> mf_version mf = version \<and>
    ra_size (mf_artifact mf) = int (length (fe_content f)) \<and> ra_sha256 (mf_artifact mf) = uk_sha256 sdk (fe_content f) \<and>
    runtime_assets_sha256 sdk (\<lambda>_. False) dir = Inr assets \<and>
    verify_runtime_assets (MarkerContent (assets @ [CHR 0x0A])) (mf_runtime_assets_sha256 mf) = Inr ()"
proof -
  obtain f assets published raw mf where f: "bucket_get dir binary_asset_name = Some f"
    and assets: "runtime_assets_sha256 sdk (rn_unread env) dir = Inr assets"
    and mf: "mf = \<lparr>mf_api_version = manifest_api_version, mf_version = version, mf_published_at = published, mf_runtime_assets_sha256 = assets,
                   mf_artifact = \<lparr>ra_file = binary_asset_name, ra_os = ''linux'', ra_arch = ''amd64'', ra_size = int (length (fe_content f)),
                                  ra_sha256 = uk_sha256 sdk (fe_content f)\<rparr>\<rparr>"
    and valid: "validate_manifest sdk mf" and raw: "marshal mf = Some raw"
    and dir': "dir' = bucket_put manifest_asset_name (release_file (raw @ [CHR 0x0A])) dir"
    using assms(1) by (auto simp: create_manifest_def Let_def split: if_splits option.splits sum.splits)
  have "binary_asset_name \<noteq> manifest_asset_name" by (simp add: binary_asset_name_def manifest_asset_name_def)
  then have kept: "bucket_get dir' binary_asset_name = Some f" using f dir' by simp
  have "runtime_assets_sha256 sdk (\<lambda>_. False) dir = Inr assets"
    using assets asset_digests_unread [of sdk "rn_unread env" dir runtime_asset_names "[]"]
    by (auto simp: runtime_assets_sha256_def split: sum.splits)
  moreover have "decode_manifest sdk (raw @ [CHR 0x0A]) = Inr mf"
    using assms(2) raw valid by (simp add: decode_manifest_def)
  moreover have "valid_sha256 assets" using valid mf by (simp add: validate_manifest_def)
  then have "list_all (\<lambda>c. \<not> white_space c) assets" using lower_hex_plain by (auto simp: valid_sha256_def list_all_iff)
  then have "verify_runtime_assets (MarkerContent (assets @ [CHR 0x0A])) (mf_runtime_assets_sha256 mf) = Inr ()"
    by (simp add: verify_runtime_assets_def mf trimmed_line)
  ultimately show ?thesis using kept f dir' mf by auto
qed

definition demo_asset_digest :: string where
  "demo_asset_digest = replicate 64 (CHR ''a'')"

definition demo_release_manifest :: manifest where
  "demo_release_manifest = \<lparr>mf_api_version = manifest_api_version, mf_version = ''1'', mf_published_at = 5, mf_runtime_assets_sha256 = demo_asset_digest,
     mf_artifact = \<lparr>ra_file = binary_asset_name, ra_os = ''linux'', ra_arch = ''amd64'', ra_size = 3, ra_sha256 = demo_asset_digest\<rparr>\<rparr>"

definition demo_release_sdk :: update_sdk where
  "demo_release_sdk = \<lparr>uk_valid_key = (\<lambda>_. True), uk_valid_version = (\<lambda>v. v = ''1''), uk_marshal_state = (\<lambda>_. None), uk_unmarshal_state = (\<lambda>_. None),
     uk_unmarshal_manifest = (\<lambda>raw. if raw = ''M'' @ [CHR 0x0A] then Some demo_release_manifest else None), uk_sha256 = (\<lambda>_. demo_asset_digest),
     uk_parse_url = (\<lambda>_. None), uk_candidate_version = (\<lambda>_. None), uk_resolve = (\<lambda>_. None)\<rparr>"

definition demo_dist :: directory where
  "demo_dist = fold (\<lambda>name. bucket_put name (release_file ''bin'')) (binary_asset_name # runtime_asset_names) []"

theorem release_is_accepted_witness:
  "\<exists>dir' raw mf. create_manifest demo_release_sdk (\<lambda>_. Some 5) (\<lambda>mf. if mf = demo_release_manifest then Some ''M'' else None)
      \<lparr>rn_inspect_fails = False, rn_unread = (\<lambda>_. False), rn_write_fault = None\<rparr> ''1'' ''2026'' demo_dist = (Inr (), dir') \<and>
    bucket_get dir' manifest_asset_name = Some (release_file raw) \<and> decode_manifest demo_release_sdk raw = Inr mf \<and> mf_version mf = ''1''"
proof -
  let ?marshal = "\<lambda>mf. if mf = demo_release_manifest then Some ''M'' else None"
  let ?env = "\<lparr>rn_inspect_fails = False, rn_unread = (\<lambda>_. False), rn_write_fault = None\<rparr>"
  have get: "bucket_get demo_dist name = Some (release_file ''bin'')" if "name \<in> set (binary_asset_name # runtime_asset_names)" for name
    using that by (auto simp: demo_dist_def runtime_asset_names_def)
  then have "runtime_assets_sha256 demo_release_sdk (\<lambda>_. False) demo_dist = Inr demo_asset_digest"
    by (simp add: runtime_assets_sha256_def runtime_asset_names_def release_file_sha256_def demo_release_sdk_def)
  moreover have "validate_manifest demo_release_sdk demo_release_manifest"
    by (simp add: validate_manifest_def demo_release_manifest_def demo_release_sdk_def demo_asset_digest_def valid_sha256_def lower_hex_def
        time_is_zero_def maximum_binary_bytes_def list_all_iff)
  moreover have "bucket_get demo_dist binary_asset_name = Some (release_file ''bin'')" using get by simp
  moreover have "uk_valid_version demo_release_sdk ''1''" "uk_sha256 demo_release_sdk x = demo_asset_digest" for x
    by (simp_all add: demo_release_sdk_def)
  moreover have "\<lparr>mf_api_version = manifest_api_version, mf_version = ''1'', mf_published_at = 5, mf_runtime_assets_sha256 = demo_asset_digest,
     mf_artifact = \<lparr>ra_file = binary_asset_name, ra_os = ''linux'', ra_arch = ''amd64'', ra_size = 3, ra_sha256 = demo_asset_digest\<rparr>\<rparr> = demo_release_manifest"
    by (simp add: demo_release_manifest_def)
  moreover have small: "\<not> maximum_binary_bytes < length ''bin''" by (simp add: maximum_binary_bytes_def)
  moreover have entry: "fe_regular (release_file c)" "fe_content (release_file c) = c" for c by (simp_all add: release_file_def)
  ultimately obtain dir' where run: "create_manifest demo_release_sdk (\<lambda>_. Some 5) ?marshal ?env ''1'' ''2026'' demo_dist = (Inr (), dir')"
    by (simp add: create_manifest_def Let_def)
  have "\<forall>mf raw. validate_manifest demo_release_sdk mf \<and> ?marshal mf = Some raw \<longrightarrow> uk_unmarshal_manifest demo_release_sdk (raw @ [CHR 0x0A]) = Some mf"
    by (simp add: demo_release_sdk_def)
  from release_is_accepted [OF run this] run show ?thesis by blast
qed

end
