(* ===== verification/ArtifactTemporaries.thy ===== *)
theory ArtifactTemporaries
  imports PluginState
begin

section \<open>Stale artifact temporaries (internal/plugin/state.go, cleanupArtifactTemporaries)\<close>

text \<open>
  When the store of the plugins is opened, every file \<^verbatim>\<open>.artifact-*\<close> anywhere below the releases is removed. The tree is the list of its entries
  in the order in which \<^verbatim>\<open>filepath.WalkDir\<close> visits them, each with the directory it is in. The executables of releases
  and their partial files have other names, so \<open>releases\<close> is not touched.
\<close>

record tree_entry =
  tr_directory :: string
  tr_name :: string
  tr_is_directory :: bool

record walk_faults =
  wf_visit_fails :: "tree_entry \<Rightarrow> bool"
  wf_remove_fails :: "tree_entry \<Rightarrow> bool"
  wf_sync_fails :: "string \<Rightarrow> bool"

definition artifact_temporary :: "tree_entry \<Rightarrow> bool" where
  "artifact_temporary t \<longleftrightarrow> \<not> tr_is_directory t \<and> prefix ''.artifact-'' (tr_name t)"

text \<open>The walk: the entries that are left and the directories that have changed. It ends at the first error.\<close>

fun walk_releases :: "walk_faults \<Rightarrow> tree_entry list \<Rightarrow> (plugin_error + string list) \<times> tree_entry list" where
  "walk_releases fl [] = (Inr [], [])"
| "walk_releases fl (t # ts) =
     (if wf_visit_fails fl t then (Inl StateFileFault, t # ts)
      else if \<not> artifact_temporary t then (case walk_releases fl ts of (r, left) \<Rightarrow> (r, t # left))
      else if wf_remove_fails fl t then (Inl StateFileFault, t # ts)
      else case walk_releases fl ts of
        (Inl e, left) \<Rightarrow> (Inl e, left)
      | (Inr changed, left) \<Rightarrow> (Inr (List.insert (tr_directory t) changed), left))"

definition cleanup_artifact_temporaries :: "walk_faults \<Rightarrow> tree_entry list \<Rightarrow> (plugin_error + unit) \<times> tree_entry list" where
  "cleanup_artifact_temporaries fl ts =
     (case walk_releases fl ts of
        (Inl e, left) \<Rightarrow> (Inl e, left)
      | (Inr changed, left) \<Rightarrow> (if list_ex (wf_sync_fails fl) changed then Inl StateFileFault else Inr (), left))"

text \<open>\<^verbatim>\<open>openStateStore\<close> as a whole: the states are read, then the releases are cleaned.\<close>

definition open_plugin_store ::
    "plugin_sdk \<Rightarrow> plugin_error option \<Rightarrow> plugin_error option \<Rightarrow> walk_faults \<Rightarrow> directory \<Rightarrow> tree_entry list
     \<Rightarrow> (plugin_error + plugin_states) \<times> tree_entry list" where
  "open_plugin_store sdk os_fault sync_fault fl dir ts =
     (case open_state_store sdk os_fault sync_fault dir of
        Inl e \<Rightarrow> (Inl e, ts)
      | Inr store \<Rightarrow>
          (case cleanup_artifact_temporaries fl ts of
             (Inl e, left) \<Rightarrow> (Inl e, left)
           | (Inr _, left) \<Rightarrow> (Inr store, left)))"

text \<open>A walk removes nothing but temporaries, and a walk without an error all of them.\<close>

lemma walk_keeps: "walk_releases fl ts = (r, left) \<Longrightarrow> filter (\<lambda>t. \<not> artifact_temporary t) left = filter (\<lambda>t. \<not> artifact_temporary t) ts"
  by (induction fl ts arbitrary: r left rule: walk_releases.induct) (auto split: if_splits prod.splits sum.splits)

lemma walk_removes: "walk_releases fl ts = (Inr changed, left) \<Longrightarrow> left = filter (\<lambda>t. \<not> artifact_temporary t) ts"
  by (induction fl ts arbitrary: changed left rule: walk_releases.induct) (auto split: if_splits prod.splits sum.splits)

lemma open_plugin_store_cleans:
  assumes "open_plugin_store sdk os_fault sync_fault fl dir ts = (r, left)"
  shows "filter (\<lambda>t. \<not> artifact_temporary t) left = filter (\<lambda>t. \<not> artifact_temporary t) ts"
    and "r = Inr store \<Longrightarrow> open_state_store sdk os_fault sync_fault dir = Inr store \<and> left = filter (\<lambda>t. \<not> artifact_temporary t) ts"
  using assms walk_keeps [of fl ts] walk_removes [of fl ts]
  by (auto simp: open_plugin_store_def cleanup_artifact_temporaries_def split: sum.splits prod.splits if_splits)

end
