(* ===== verification/Spec2Isabelle.thy ===== *)
theory Spec2Isabelle
  imports EventUpload PolicyProperties CommandProperties PluginProperties UpdateProperties EngineProperties SupervisorProperties AgentProperties AgentLife PublicAddresses PluginLauncher ReleaseManifest ArtifactTemporaries
begin

text \<open>
  The Relayward Agent.

  The agent runs on a node. It registers with a center, keeps a control session with it, executes the center's commands, runs plugins that serve the
  traffic, enforces the center's policies on them, reports events, and replaces itself with new versions. It is restarted at any time - by the service
  manager, by its own updates, by a crash -, so most of its state is durable and most of its correctness is about what survives. This development models its Go
  code (\<^verbatim>\<open>src/internal\<close>, \<^verbatim>\<open>src/cmd\<close>) and the shell launcher that starts it, and proves what each part promises.

  \<^bold>\<open>The parts and how they interact.\<close>
  \<^verbatim>\<open>cmd/relayward-agent\<close> loads the configuration and runs the client (\<^verbatim>\<open>internal/agent\<close>). The client opens the
  durable stores, starts the plugins and a set of workers, and holds one session after the other. A session delivers command results, sends
  heartbeats, stores the commands that come back (\<^verbatim>\<open>internal/command\<close>) and confirms a running update. The command processor executes stored
  commands through a router: updates (\<^verbatim>\<open>internal/update\<close>), plugins (\<^verbatim>\<open>internal/plugin\<close>), policies (\<^verbatim>\<open>internal/policy\<close>). The policy
  engine moves telemetry from the plugins to the policy store and desired states from the store to the plugins. Engine, supervisor and
  the observer of public addresses put events into the durable queue (\<^verbatim>\<open>internal/eventqueue\<close>), from which the uploader sends them to the center. An
  update ends the process with an exit status that the launcher reads.

  \<^bold>\<open>The library.\<close>
  \<^item> \<open>Prelude\<close>: words, times, sums as results, strings, and the locale \<open>stepping\<close>: a component whose steps keep an invariant and only make progress. The command store, the
    plugin states, the updates, the supervisor, the engine and the workers of a run interpret it with their step relations, and their runs keep the invariant by \<open>run_keeps\<close>.
  \<^item> \<open>Actions\<close>: actions on a world that may fail, run in sequence, and their effects: a reflexive and transitive relation that every run keeps.
  \<^item> \<open>Bolt\<close>: buckets (ordered maps of bytes), JSON cells and transactions of \<^verbatim>\<open>go.etcd.io/bbolt\<close>, which commit as a whole or not at all.
  \<^item> \<open>Filepath\<close>, \<open>Files\<close>, \<open>Urls\<close>: path functions; directories, atomic replacement of files with its two kinds of faults, and the opening of a
    directory of records; URLs as \<^verbatim>\<open>net/url\<close> parses them.

  \<^bold>\<open>The theories and the code.\<close>
  \<^item> \<open>EventQueue\<close> (\<^verbatim>\<open>eventqueue/store.go\<close>): \<open>queue\<close> is \<^verbatim>\<open>Store\<close>, \<open>enqueue\<close>, \<open>batch\<close>, \<open>queue_acknowledge\<close>, \<open>open_queue\<close> its operations. The abstract queue is the
    list of decoded events between two counters; the locale \<open>event_sink\<close> is the interface that the other components use.
    \<open>EventUpload\<close> (\<^verbatim>\<open>agent/events.go\<close>): one upload, and the loop with its back-off.
  \<^item> \<open>PolicyStore\<close> (\<^verbatim>\<open>policy/store.go\<close>) with \<open>PolicyInvariant\<close> (its invariant, every transaction), \<open>PolicyTheorems\<close> (what the transactions do),
    \<open>PolicyDesired\<close> and \<open>PolicySettled\<close> (\<^verbatim>\<open>policy/desired.go\<close>: what plugins shall enforce, and that asking again changes nothing), \<open>PolicyRuns\<close> (runs of
    all operations), \<open>PolicyProperties\<close>.
  \<^item> \<open>PolicyEngine\<close> (\<^verbatim>\<open>policy/engine.go\<close>) on the store, the queue and the plugins, with \<open>EngineRuns\<close> (locale \<open>engine_sink_context\<close>: what the engine does to
    the store and any sink), \<open>EngineDelivery\<close> (locale \<open>engine_log_context\<close>: what it may lose: nothing), \<open>EngineProperties\<close>.
  \<^item> \<open>CommandStore\<close> (\<^verbatim>\<open>command/store.go\<close>), \<open>CommandRuns\<close>, \<open>CommandProcessor\<close> (\<^verbatim>\<open>command/processor.go\<close>, \<^verbatim>\<open>router.go\<close>), \<open>CommandProperties\<close>: records in
    memory and in files; the processor's rounds.
  \<^item> \<open>Download\<close> (\<^verbatim>\<open>download/resumable.go\<close>): every step on the partial file, with faults in between.
  \<^item> \<open>PluginState\<close> and \<open>ArtifactTemporaries\<close> (\<^verbatim>\<open>plugin/state.go\<close>), \<open>PluginInstaller\<close> (\<^verbatim>\<open>installer.go\<close>), \<open>PluginProcess\<close>
    (\<^verbatim>\<open>process.go\<close>), \<open>PluginLauncher\<close> (\<^verbatim>\<open>launcher.go\<close>), \<open>PluginSupervisor\<close> and \<open>PluginHandlers\<close> (\<^verbatim>\<open>supervisor.go\<close>: its state, its actions, its handlers
    and the step relation \<open>supervisor_step\<close> of commands, process exits, watches and retries), \<open>PluginSupervision\<close> (what the handlers change, and that
    every plugin is watched or retried), \<open>PluginReconciling\<close> (what a successful command has brought about), \<open>PluginOwnership\<close> (every process
    that runs belongs to an actor), \<open>PluginProperties\<close>, \<open>SupervisorProperties\<close>.
  \<^item> \<open>UpdateManager\<close> (\<^verbatim>\<open>update/manager.go\<close>, \<^verbatim>\<open>manifest.go\<close>), \<open>UpdateExecutor\<close> (\<^verbatim>\<open>executor.go\<close>), \<open>UpdateSafety\<close> (what an update can do to the
    disk, and \<open>launcher_exit\<close> and \<open>launcher_switch\<close>, the launcher's reaction to an exit in \<^verbatim>\<open>deploy/relayward-agent-launcher\<close>, without and
    with a failure between its two steps), \<open>UpdateProperties\<close>;
    \<open>ReleaseManifest\<close> (\<^verbatim>\<open>update/release.go\<close>, \<^verbatim>\<open>cmd/relayward-agent-release\<close>): the other end of an update.
  \<^item> \<open>AgentConfig\<close> (\<^verbatim>\<open>config/config.go\<close>, \<^verbatim>\<open>identity/store.go\<close>), \<open>ControlSession\<close> (\<^verbatim>\<open>agent/client.go\<close>: \<^verbatim>\<open>runSession\<close> and the messages), \<open>ControlDelivery\<close>
    (what a session does to the stored commands), \<open>AgentRun\<close> (registration, the pinned certificate, \<^verbatim>\<open>Run\<close>'s loop,
    \<^verbatim>\<open>cmd/relayward-agent/main.go\<close>), \<open>AgentProperties\<close>, \<open>AgentLife\<close> (\<^verbatim>\<open>Run\<close> as a whole, composed of the models of the queue, the
    supervisor and the sessions).
  \<^item> \<open>PublicAddresses\<close> (\<^verbatim>\<open>networkobserver/observer.go\<close>).

  \<^bold>\<open>How the code is translated.\<close>
  A struct is a record with the code's fields, an operation a function from the state to a result and the new state; a Go \<^verbatim>\<open>error\<close> is \<open>Inl\<close> of an error datatype, with one
  constructor for each way to fail that anything depends on. \<^verbatim>\<open>uint64\<close> is \<open>u64\<close> with its wrap-around. \<^verbatim>\<open>int64\<close> values that the code
  has bounded are \<open>int\<close>, and so are times, in nanoseconds from Go's zero time. Strings are byte lists, and \<^verbatim>\<open>TrimSpace\<close> and the like act on
  the ASCII characters. A Go map is a bucket ordered by keys, and where the code iterates it, the order is an argument.
  Code that is not in the repository is a parameter: the SDK (\<^verbatim>\<open>relayward-sdk\<close>: validation, decoding, constants), JSON, SHA-256, HTTP, gRPC,
  \<^verbatim>\<open>netip\<close>. A component collects what it uses in a record (\<open>queue_sdk\<close>, \<open>policy_sdk\<close>, \<open>update_sdk\<close>, ...), and
  a predicate \<open>..._sdk_ok\<close> states the documented behaviour that its theorems rely on, mostly that decoding reverses encoding; every such theorem has a
  witness with concrete functions. What the operating system, the network, the clock and the plugins answer are arguments: a fault for one
  operation, or a schedule with one entry per step. A mutex makes an operation one step; what other goroutines do while a handler waits is a function or a
  relation that a theorem constrains (\<open>meanwhile\<close>, \<open>worker_step\<close>), and the interleaving of operations is the step relation of the component.

  \<^bold>\<open>Bounds.\<close>
  The loops of the workers do not end by themselves: their model takes a finite list of rounds, ticks or attempts, one for each turn, and says whether it is still running when
  they are used up. So a theorem about them holds for every prefix of a run; the theorems of kind liveness say how many rounds are enough: the
  uploader delivers at least one event in a round, the processor and the session take one command per round. The
  other numbers are the code's own: sixteen pages of telemetry (\<open>maximum_telemetry_pages\<close>), ten redirects (\<open>maximum_redirects\<close>, with a
  measure that proves that following them terminates), and the limits on sizes, which are compared as the code compares
  them. The only fuel that is not in the code is that of \<open>decimal\<close>: one more than the number that is printed, which has
  no more digits than that.

  \<^bold>\<open>What is proved.\<close>
  \<^item> Events: the queue refines a list with counters; no accepted event is lost over faults and restarts; against a center that acknowledges,
    the upload loop empties it, unless the agent itself refuses a batch (\<open>enqueue_appends\<close>,
    \<open>no_event_lost\<close>, \<open>upload_loop_drains_queue\<close>).
  \<^item> Policies: the store's invariant over all runs, exact accounting without wrap-around, address limits, the decisions for every binding, and revisions that identify a
    state; one way in which the accounting loses usage (\<open>preserved_usage_is_overwritten\<close>): what is proved about unreported usage names this
    one exception, a snapshot put aside that is replaced by other figures of the same authorization and period.
  \<^item> The engine: telemetry reaches the queue before the cursor moves, and usage is reported at least once, with the same exception.
  \<^item> Commands: a stored command survives, is executed in order and once, its result is acknowledged only after its delivery, and sessions deliver all of them.
  \<^item> Plugins: confined downloads, verified artifacts only, resource limits, what a successful command has brought about, supervision without gaps, and no process left
    behind at the end of a run (the last two under the assumption that a process that is stopped exits: \<open>quiet_stop\<close>, \<open>stops_work\<close>); and the refusal of a
    configuration that a recovery, or a repeated command that finds no live process, ignores (\<open>recovery_ignores_refusal\<close>).
  \<^item> Updates: no step of an update, at whatever fault, leaves the launcher without an installed binary; an update is confirmed only by the center's acknowledgement of a heartbeat of the new
    version; exit statuses and launcher agree; what the release tool writes is accepted.
  \<^item> Start: one registration, an exact certificate pin, configurations that read back, bounded delays.

  \<^bold>\<open>Not modelled.\<close>
  Logging and printed texts, \<^verbatim>\<open>buildinfo\<close>, the parsing of flags, tests; the settings of HTTP clients, TLS and gRPC connections (the check of the
  pin is); the system calls inside the atomic replacement of a file and inside bbolt (their outcome is one fault); the run of a
  candidate binary that prints its version; notification channels, which are at most one waiting token, where nothing depends on
  them; \<^verbatim>\<open>Close\<close> of the stores, which releases their files. Scripts that install and uninstall the agent, and the declarations for service
  managers, have no state of the agent. Idealised are the order of equal keys in \<^verbatim>\<open>sort.Slice\<close>, which is
  kept here; deletions under a bbolt cursor, which are a filter of the bucket; and the round trip of values that are stored as JSON, which is exact. Handlers are atomic: the code's second look at a flag after it has taken a lock is not distinguished from the
  first. Goroutines are started and stopped as \<open>client_run\<close> says, not scheduled one instruction at a time.
\<close>

end
